(* ===== verification/Prelude.thy ===== *)
theory Prelude imports Main "HOL-Library.Word" begin

text \<open>
  The prelude: the machine types of the Go code, the outcome type of a Go function that may
  panic, byte strings, and the overflow-checked arithmetic of \<open>common/math/integer.go\<close>.

  Conventions used by every theory. A Go \<open>uint64\<close> is a \<^typ>\<open>64 word\<close>; a \<open>uint256.Int\<close> and a
  32-byte \<open>common.Hash\<close> are \<^typ>\<open>256 word\<close> (a hash is read as a big-endian number, so the
  conversions \<open>Bytes32\<close> and \<open>SetBytes\<close> between the two are the identity); a 20-byte
  \<open>common.Address\<close> is a \<^typ>\<open>160 word\<close>, and \<open>Bytes20\<close> is \<open>ucast\<close>.
  A nil slice and an empty slice are both the empty list.
\<close>

unbundle bit_operations_syntax

named_theorems go_simps "evaluation of the Go outcome type"
named_theorems op_defs "definitions of the instructions"
named_theorems gas_defs "definitions of the gas functions"
named_theorems sdb_defs "definitions of the StateDB operations"

type_synonym u8 = "8 word"
type_synonym u16 = "16 word"
type_synonym u64 = "64 word"
type_synonym u256 = "256 word"
type_synonym hash = "256 word"
type_synonym address = "160 word"
type_synonym bytes = "8 word list"

section \<open>Outcomes: results, panics, exhausted fuel\<close>

text \<open>
  A Go function either returns or panics. Errors that Go functions return are ordinary values
  of the result. \<open>OutOfFuel\<close> is the third outcome, of the fuel-indexed interpreter loop only. The
  index panic of an access to the operand stack has a constructor of its own, so that theorems can
  tell it from the index panics of other slices.
\<close>

datatype gopanic =
    IndexOutOfRange
  | StackIndexOutOfRange
  | SliceOutOfRange
  | InvalidMemory
  | NilDereference
  | TypeAssertion
  | RefundBelowZero
  | RevisionNotFound
  | AccessListRevert
  | AddressNotInAccessList
  | GasPoolOverflow
  | Uint256Overflow
  | JumpTableInvalid
  | OddHexKey
  | InvalidNode
  | NodeDecodeFailed
  | DivisionByZero
  | UnexpectedHeaderField
  | CantEncode
  | NegativeMake
  | SignatureSize
  | CostUnderflow

datatype 'a go = Ret 'a | Panic gopanic | OutOfFuel

primrec go_bind :: "'a go \<Rightarrow> ('a \<Rightarrow> 'b go) \<Rightarrow> 'b go" where
  "go_bind (Ret x) f = f x"
| "go_bind (Panic p) f = Panic p"
| "go_bind OutOfFuel f = OutOfFuel"

lemma go_bind_Ret_iff [simp]:
  "go_bind m f = Ret y \<longleftrightarrow> (\<exists>x. m = Ret x \<and> f x = Ret y)"
  by (cases m) auto

lemma go_bind_OutOfFuel_iff [simp]:
  "go_bind m f = OutOfFuel \<longleftrightarrow> m = OutOfFuel \<or> (\<exists>x. m = Ret x \<and> f x = OutOfFuel)"
  by (cases m) auto

lemma go_bind_Panic_iff [simp]:
  "go_bind m f = Panic p \<longleftrightarrow> m = Panic p \<or> (\<exists>x. m = Ret x \<and> f x = Panic p)"
  by (cases m) auto

lemma go_bind_assoc: "go_bind (go_bind m f) g = go_bind m (\<lambda>x. go_bind (f x) g)"
  by (cases m) auto

lemma go_bind_cong [fundef_cong]:
  "m = m' \<Longrightarrow> (\<And>x. m' = Ret x \<Longrightarrow> f x = g x) \<Longrightarrow> go_bind m f = go_bind m' g"
  by (cases m') auto

text \<open>\<open>go_all P m\<close>: if \<open>m\<close> returns, its result satisfies \<open>P\<close> (the shape of a postcondition).\<close>

primrec go_all :: "('a \<Rightarrow> bool) \<Rightarrow> 'a go \<Rightarrow> bool" where
  "go_all P (Ret x) = P x"
| "go_all P (Panic p) = True"
| "go_all P OutOfFuel = True"

lemma go_all_iff: "go_all P m \<longleftrightarrow> (\<forall>x. m = Ret x \<longrightarrow> P x)"
  by (cases m) auto

lemma go_all_bind [simp]: "go_all P (go_bind m f) \<longleftrightarrow> go_all (\<lambda>x. go_all P (f x)) m"
  by (cases m) auto

lemma go_all_mono: "go_all P m \<Longrightarrow> (\<And>x. P x \<Longrightarrow> Q x) \<Longrightarrow> go_all Q m"
  by (cases m) auto

lemma go_allD: "go_all P m \<Longrightarrow> m = Ret x \<Longrightarrow> P x"
  by simp

section \<open>Words\<close>

lemma unat_sub_le: "b \<le> a \<Longrightarrow> unat (a - b) = unat a - unat (b :: 'a::len word)"
  by (simp add: unat_sub)

lemma unat_add_no_overflow:
  "unat a + unat b < 2 ^ LENGTH('a) \<Longrightarrow> unat (a + b) = unat a + unat (b :: 'a::len word)"
  by (simp add: unat_word_ariths)

lemma unat_mult_no_overflow:
  "unat a * unat b < 2 ^ LENGTH('a) \<Longrightarrow> unat (a * b) = unat a * unat (b :: 'a::len word)"
  by (simp add: unat_word_ariths)

lemma u64_bound: "unat (x :: u64) < 18446744073709551616"
  using unsigned_less [of x] by simp

lemma mod_add_wraps: "a < M \<Longrightarrow> b < M \<Longrightarrow> (a + b) mod M < a \<longleftrightarrow> M \<le> a + (b :: nat)"
  by (cases "a + b < M") (auto simp: le_mod_geq)

lemma word_add_wraps: "a + b < a \<longleftrightarrow> 2 ^ LENGTH('a) \<le> unat a + unat (b :: 'a::len word)"
  using mod_add_wraps [of "unat a" "2 ^ LENGTH('a)" "unat b"]
  by (simp add: word_less_nat_alt unat_word_ariths)

section \<open>common/math/integer.go: arithmetic with an overflow flag\<close>

definition SafeSub :: "u64 \<Rightarrow> u64 \<Rightarrow> u64 \<times> bool" where
  "SafeSub x y = (x - y, x < y)"

definition SafeAdd :: "u64 \<Rightarrow> u64 \<Rightarrow> u64 \<times> bool" where
  "SafeAdd x y = (x + y, unat x + unat y \<ge> 2 ^ 64)"

definition SafeMul :: "u64 \<Rightarrow> u64 \<Rightarrow> u64 \<times> bool" where
  "SafeMul x y = (x * y, unat x * unat y \<ge> 2 ^ 64)"

lemma SafeAdd_exact: "SafeAdd x y = (z, False) \<Longrightarrow> unat z = unat x + unat y"
  by (auto simp: SafeAdd_def unat_word_ariths)

lemma SafeMul_exact: "SafeMul x y = (z, False) \<Longrightarrow> unat z = unat x * unat y"
  by (auto simp: SafeMul_def unat_word_ariths)

lemma SafeSub_exact: "SafeSub x y = (z, False) \<Longrightarrow> unat z = unat x - unat y"
  by (auto simp: SafeSub_def unat_sub_le not_less)

section \<open>Byte strings\<close>

definition len64 :: "'a list \<Rightarrow> u64" where
  "len64 xs = word_of_nat (length xs)"

text \<open>\<open>SetBytes\<close> of a fixed-width integer: big-endian, only the last bytes count.\<close>

definition SetBytes :: "bytes \<Rightarrow> 'w::len word" where
  "SetBytes bs = foldl (\<lambda>acc b. acc * 256 + ucast b) 0 bs"

text \<open>\<open>Bytes32\<close>: the 32 bytes of a word, most significant first.\<close>

definition Bytes32 :: "u256 \<Rightarrow> bytes" where
  "Bytes32 w = map (\<lambda>i. ucast (drop_bit (8 * (31 - i)) w)) [0..<32]"

definition address_bytes :: "address \<Rightarrow> bytes" where
  "address_bytes w = map (\<lambda>i. ucast (drop_bit (8 * (19 - i)) w)) [0..<20]"

definition Bytes20 :: "u256 \<Rightarrow> address" where
  "Bytes20 w = ucast w"

text \<open>\<open>common/bytes.go\<close>: padding.\<close>

definition RightPadBytes :: "bytes \<Rightarrow> nat \<Rightarrow> bytes" where
  "RightPadBytes b l = (if l \<le> length b then b else b @ replicate (l - length b) 0)"

definition LeftPadBytes :: "bytes \<Rightarrow> nat \<Rightarrow> bytes" where
  "LeftPadBytes b l = (if l \<le> length b then b else replicate (l - length b) 0 @ b)"

text \<open>Go's slice expression \<open>xs[a:b]\<close>, which panics outside \<open>0 \<le> a \<le> b \<le> len(xs)\<close>.\<close>

definition slice :: "'a list \<Rightarrow> nat \<Rightarrow> nat \<Rightarrow> 'a list go" where
  "slice xs a b = (if a \<le> b \<and> b \<le> length xs then Ret (take (b - a) (drop a xs))
                   else Panic SliceOutOfRange)"

definition nth_go :: "'a list \<Rightarrow> nat \<Rightarrow> 'a go" where
  "nth_go xs i = (if i < length xs then Ret (xs ! i) else Panic IndexOutOfRange)"

text \<open>Go's \<open>copy(dst[off:], src)\<close> for an offset inside \<open>dst\<close>.\<close>

definition copy_at :: "'a list \<Rightarrow> nat \<Rightarrow> 'a list \<Rightarrow> 'a list" where
  "copy_at dst off src =
     take off dst @ take (length dst - off) src @ drop (off + length src) dst"

lemma length_copy_at [simp]: "off \<le> length dst \<Longrightarrow> length (copy_at dst off src) = length dst"
  by (auto simp: copy_at_def min_def)

lemma nth_copy_at:
  "off + length src \<le> length dst \<Longrightarrow> i < length dst \<Longrightarrow>
   copy_at dst off src ! i = (if off \<le> i \<and> i < off + length src then src ! (i - off) else dst ! i)"
  by (auto simp: copy_at_def nth_append min_def)

lemma slice_Ret: "a \<le> b \<Longrightarrow> b \<le> length xs \<Longrightarrow> slice xs a b = Ret (take (b - a) (drop a xs))"
  by (simp add: slice_def)

lemma length_RightPadBytes [simp]: "length (RightPadBytes b l) = max l (length b)"
  by (simp add: RightPadBytes_def)

lemma length_LeftPadBytes [simp]: "length (LeftPadBytes b l) = max l (length b)"
  by (simp add: LeftPadBytes_def)

lemma length_Bytes32 [simp]: "length (Bytes32 w) = 32"
  by (simp add: Bytes32_def)

lemma length_address_bytes [simp]: "length (address_bytes w) = 20"
  by (simp add: address_bytes_def)

lemma unat_len64: "length xs < 2 ^ 64 \<Longrightarrow> unat (len64 xs) = length xs"
  by (simp add: len64_def unsigned_of_nat take_bit_nat_eq_self)

section \<open>Big-endian bytes and words\<close>

lemma SetBytes_fold:
  "foldl (\<lambda>acc b. acc * 256 + ucast b) a bs = a * 256 ^ length bs + (SetBytes bs :: 'w::len word)"
proof (induction bs arbitrary: a)
  case Nil
  then show ?case by (simp add: SetBytes_def)
next
  case (Cons b bs)
  have "SetBytes (b # bs) = (ucast b :: 'w word) * 256 ^ length bs + SetBytes bs"
    using Cons.IH [of "ucast b"] by (simp add: SetBytes_def)
  then show ?case using Cons.IH [of "a * 256 + ucast b"]
    by (simp add: algebra_simps)
qed

lemma SetBytes_Cons:
  "SetBytes (b # bs) = (ucast b :: 'w::len word) * 256 ^ length bs + SetBytes bs"
  using SetBytes_fold [of "ucast b" bs] by (simp add: SetBytes_def)

lemma SetBytes_Nil [simp]: "SetBytes [] = 0"
  by (simp add: SetBytes_def)

lemma push_bit_byte: "(x :: 'w::len word) * 256 ^ n = push_bit (8 * n) x"
  by (simp add: push_bit_eq_mult power_mult)

lemma take_bit_split_byte:
  "push_bit (8 * n) (take_bit 8 (drop_bit (8 * n) w)) + take_bit (8 * n) w = take_bit (8 * Suc n) (w :: 'w::len word)"
proof -
  have "push_bit (8 * n) (take_bit 8 (drop_bit (8 * n) w)) + take_bit (8 * n) w =
        push_bit (8 * n) (take_bit 8 (drop_bit (8 * n) w)) OR take_bit (8 * n) w"
    by (rule disjunctive_add) (auto simp: bit_simps)
  also have "\<dots> = take_bit (8 * Suc n) w"
    by (rule bit_eqI) (auto simp: bit_simps)
  finally show ?thesis .
qed

lemma SetBytes_horner:
  "SetBytes (map (\<lambda>i. ucast (drop_bit (8 * (n - Suc i)) w)) [0..<n]) = take_bit (8 * n) (w :: 'w::len word)"
proof (induction n)
  case 0
  then show ?case by simp
next
  case (Suc n)
  have l: "map (\<lambda>i. ucast (drop_bit (8 * (Suc n - Suc i)) w) :: u8) [0..<Suc n] =
        ucast (drop_bit (8 * n) w) # map (\<lambda>i. ucast (drop_bit (8 * (n - Suc i)) w)) [0..<n]"
    by (simp add: upt_conv_Cons map_Suc_upt [symmetric] del: upt_Suc)
  have u: "ucast (ucast (drop_bit (8 * n) w) :: u8) = take_bit 8 (drop_bit (8 * n) w)"
    by (rule bit_eqI) (auto simp: bit_simps)
  show ?case
    unfolding l SetBytes_Cons Suc.IH u
    by (simp add: push_bit_byte take_bit_split_byte del: mult_Suc_right)
qed

lemma SetBytes_Bytes32 [simp]: "SetBytes (Bytes32 w) = (w :: u256)"
  using SetBytes_horner [of 32 w] by (simp add: Bytes32_def take_bit_word_eq_self Suc_diff_Suc)

end
