(* ===== verification/Params.thy ===== *)
theory Params imports Prelude begin

text \<open>
  The protocol constants of \<open>params/protocol_params.go\<close> that the modelled code uses, and
  the fork flags \<open>params.Rules\<close>. The typed constants are \<open>uint64\<close>; the untyped ones of the
  source take the type of the expression they occur in. Each constant is an abbreviation, so it
  is its value in every proof. The opcodes are those of \<open>core/vm/opcodes.go\<close>, with the prefix
  \<open>OP_\<close>.
\<close>

section \<open>params/protocol_params.go\<close>

abbreviation (input) GasLimitBoundDivisor :: u64 where "GasLimitBoundDivisor \<equiv> 1024"
abbreviation (input) MinGasLimit :: u64 where "MinGasLimit \<equiv> 5000"
abbreviation (input) MaxGasLimit :: u64 where "MaxGasLimit \<equiv> 9223372036854775807"
abbreviation (input) GenesisGasLimit :: u64 where "GenesisGasLimit \<equiv> 4712388"
abbreviation (input) MaximumExtraDataSize :: u64 where "MaximumExtraDataSize \<equiv> 32"
abbreviation (input) ExpByteGas :: u64 where "ExpByteGas \<equiv> 10"
abbreviation (input) SloadGas :: u64 where "SloadGas \<equiv> 50"
abbreviation (input) CallValueTransferGas :: u64 where "CallValueTransferGas \<equiv> 9000"
abbreviation (input) CallNewAccountGas :: u64 where "CallNewAccountGas \<equiv> 25000"
abbreviation (input) TxGas :: u64 where "TxGas \<equiv> 21000"
abbreviation (input) TxGasContractCreation :: u64 where "TxGasContractCreation \<equiv> 53000"
abbreviation (input) TxDataZeroGas :: u64 where "TxDataZeroGas \<equiv> 4"
abbreviation (input) QuadCoeffDiv :: u64 where "QuadCoeffDiv \<equiv> 512"
abbreviation (input) LogDataGas :: u64 where "LogDataGas \<equiv> 8"
abbreviation (input) CallStipend :: u64 where "CallStipend \<equiv> 2300"
abbreviation (input) Keccak256Gas :: u64 where "Keccak256Gas \<equiv> 30"
abbreviation (input) Keccak256WordGas :: u64 where "Keccak256WordGas \<equiv> 6"
abbreviation (input) InitCodeWordGas :: u64 where "InitCodeWordGas \<equiv> 2"
abbreviation (input) SstoreSetGas :: u64 where "SstoreSetGas \<equiv> 20000"
abbreviation (input) SstoreResetGas :: u64 where "SstoreResetGas \<equiv> 5000"
abbreviation (input) SstoreClearGas :: u64 where "SstoreClearGas \<equiv> 5000"
abbreviation (input) SstoreRefundGas :: u64 where "SstoreRefundGas \<equiv> 15000"
abbreviation (input) NetSstoreNoopGas :: u64 where "NetSstoreNoopGas \<equiv> 200"
abbreviation (input) NetSstoreInitGas :: u64 where "NetSstoreInitGas \<equiv> 20000"
abbreviation (input) NetSstoreCleanGas :: u64 where "NetSstoreCleanGas \<equiv> 5000"
abbreviation (input) NetSstoreDirtyGas :: u64 where "NetSstoreDirtyGas \<equiv> 200"
abbreviation (input) NetSstoreClearRefund :: u64 where "NetSstoreClearRefund \<equiv> 15000"
abbreviation (input) NetSstoreResetRefund :: u64 where "NetSstoreResetRefund \<equiv> 4800"
abbreviation (input) NetSstoreResetClearRefund :: u64 where "NetSstoreResetClearRefund \<equiv> 19800"
abbreviation (input) SstoreSentryGasEIP2200 :: u64 where "SstoreSentryGasEIP2200 \<equiv> 2300"
abbreviation (input) SstoreSetGasEIP2200 :: u64 where "SstoreSetGasEIP2200 \<equiv> 20000"
abbreviation (input) SstoreResetGasEIP2200 :: u64 where "SstoreResetGasEIP2200 \<equiv> 5000"
abbreviation (input) SstoreClearsScheduleRefundEIP2200 :: u64 where "SstoreClearsScheduleRefundEIP2200 \<equiv> 15000"
abbreviation (input) ColdAccountAccessCostEIP2929 :: u64 where "ColdAccountAccessCostEIP2929 \<equiv> 2600"
abbreviation (input) ColdSloadCostEIP2929 :: u64 where "ColdSloadCostEIP2929 \<equiv> 2100"
abbreviation (input) WarmStorageReadCostEIP2929 :: u64 where "WarmStorageReadCostEIP2929 \<equiv> 100"
abbreviation (input) SstoreClearsScheduleRefundEIP3529 :: u64 where "SstoreClearsScheduleRefundEIP3529 \<equiv> 4800"
abbreviation (input) JumpdestGas :: u64 where "JumpdestGas \<equiv> 1"
abbreviation (input) EpochDuration :: u64 where "EpochDuration \<equiv> 30000"
abbreviation (input) CreateDataGas :: u64 where "CreateDataGas \<equiv> 200"
abbreviation (input) CallCreateDepth :: u64 where "CallCreateDepth \<equiv> 1024"
abbreviation (input) ExpGas :: u64 where "ExpGas \<equiv> 10"
abbreviation (input) LogGas :: u64 where "LogGas \<equiv> 375"
abbreviation (input) CopyGas :: u64 where "CopyGas \<equiv> 3"
abbreviation (input) StackLimit :: u64 where "StackLimit \<equiv> 1024"
abbreviation (input) TierStepGas :: u64 where "TierStepGas \<equiv> 0"
abbreviation (input) LogTopicGas :: u64 where "LogTopicGas \<equiv> 375"
abbreviation (input) CreateGas :: u64 where "CreateGas \<equiv> 32000"
abbreviation (input) Create2Gas :: u64 where "Create2Gas \<equiv> 32000"
abbreviation (input) SelfdestructRefundGas :: u64 where "SelfdestructRefundGas \<equiv> 24000"
abbreviation (input) MemoryGas :: u64 where "MemoryGas \<equiv> 3"
abbreviation (input) TxDataNonZeroGasFrontier :: u64 where "TxDataNonZeroGasFrontier \<equiv> 68"
abbreviation (input) TxDataNonZeroGasEIP2028 :: u64 where "TxDataNonZeroGasEIP2028 \<equiv> 16"
abbreviation (input) TxAccessListAddressGas :: u64 where "TxAccessListAddressGas \<equiv> 2400"
abbreviation (input) TxAccessListStorageKeyGas :: u64 where "TxAccessListStorageKeyGas \<equiv> 1900"
abbreviation (input) CallGasFrontier :: u64 where "CallGasFrontier \<equiv> 40"
abbreviation (input) CallGasEIP150 :: u64 where "CallGasEIP150 \<equiv> 700"
abbreviation (input) BalanceGasFrontier :: u64 where "BalanceGasFrontier \<equiv> 20"
abbreviation (input) BalanceGasEIP150 :: u64 where "BalanceGasEIP150 \<equiv> 400"
abbreviation (input) BalanceGasEIP1884 :: u64 where "BalanceGasEIP1884 \<equiv> 700"
abbreviation (input) ExtcodeSizeGasFrontier :: u64 where "ExtcodeSizeGasFrontier \<equiv> 20"
abbreviation (input) ExtcodeSizeGasEIP150 :: u64 where "ExtcodeSizeGasEIP150 \<equiv> 700"
abbreviation (input) SloadGasFrontier :: u64 where "SloadGasFrontier \<equiv> 50"
abbreviation (input) SloadGasEIP150 :: u64 where "SloadGasEIP150 \<equiv> 200"
abbreviation (input) SloadGasEIP1884 :: u64 where "SloadGasEIP1884 \<equiv> 800"
abbreviation (input) SloadGasEIP2200 :: u64 where "SloadGasEIP2200 \<equiv> 800"
abbreviation (input) ExtcodeHashGasConstantinople :: u64 where "ExtcodeHashGasConstantinople \<equiv> 400"
abbreviation (input) ExtcodeHashGasEIP1884 :: u64 where "ExtcodeHashGasEIP1884 \<equiv> 700"
abbreviation (input) SelfdestructGasEIP150 :: u64 where "SelfdestructGasEIP150 \<equiv> 5000"
abbreviation (input) ExpByteFrontier :: u64 where "ExpByteFrontier \<equiv> 10"
abbreviation (input) ExpByteEIP158 :: u64 where "ExpByteEIP158 \<equiv> 50"
abbreviation (input) ExtcodeCopyBaseFrontier :: u64 where "ExtcodeCopyBaseFrontier \<equiv> 20"
abbreviation (input) ExtcodeCopyBaseEIP150 :: u64 where "ExtcodeCopyBaseEIP150 \<equiv> 700"
abbreviation (input) CreateBySelfdestructGas :: u64 where "CreateBySelfdestructGas \<equiv> 25000"
abbreviation (input) DefaultBaseFeeChangeDenominator :: "'a::numeral" where "DefaultBaseFeeChangeDenominator \<equiv> 8"
abbreviation (input) DefaultElasticityMultiplier :: "'a::numeral" where "DefaultElasticityMultiplier \<equiv> 2"
abbreviation (input) InitialBaseFee :: "'a::numeral" where "InitialBaseFee \<equiv> 1000000000"
abbreviation (input) MaxCodeSize :: "'a::numeral" where "MaxCodeSize \<equiv> 24576"
abbreviation (input) MaxInitCodeSize :: "'a::numeral" where "MaxInitCodeSize \<equiv> 49152"
abbreviation (input) EcrecoverGas :: u64 where "EcrecoverGas \<equiv> 3000"
abbreviation (input) Sha256BaseGas :: u64 where "Sha256BaseGas \<equiv> 60"
abbreviation (input) Sha256PerWordGas :: u64 where "Sha256PerWordGas \<equiv> 12"
abbreviation (input) Ripemd160BaseGas :: u64 where "Ripemd160BaseGas \<equiv> 600"
abbreviation (input) Ripemd160PerWordGas :: u64 where "Ripemd160PerWordGas \<equiv> 120"
abbreviation (input) IdentityBaseGas :: u64 where "IdentityBaseGas \<equiv> 15"
abbreviation (input) IdentityPerWordGas :: u64 where "IdentityPerWordGas \<equiv> 3"
abbreviation (input) Bn256AddGasByzantium :: u64 where "Bn256AddGasByzantium \<equiv> 500"
abbreviation (input) Bn256AddGasIstanbul :: u64 where "Bn256AddGasIstanbul \<equiv> 150"
abbreviation (input) Bn256ScalarMulGasByzantium :: u64 where "Bn256ScalarMulGasByzantium \<equiv> 40000"
abbreviation (input) Bn256ScalarMulGasIstanbul :: u64 where "Bn256ScalarMulGasIstanbul \<equiv> 6000"
abbreviation (input) Bn256PairingBaseGasByzantium :: u64 where "Bn256PairingBaseGasByzantium \<equiv> 100000"
abbreviation (input) Bn256PairingBaseGasIstanbul :: u64 where "Bn256PairingBaseGasIstanbul \<equiv> 45000"
abbreviation (input) Bn256PairingPerPointGasByzantium :: u64 where "Bn256PairingPerPointGasByzantium \<equiv> 80000"
abbreviation (input) Bn256PairingPerPointGasIstanbul :: u64 where "Bn256PairingPerPointGasIstanbul \<equiv> 34000"
abbreviation (input) RefundQuotient :: u64 where "RefundQuotient \<equiv> 2"
abbreviation (input) RefundQuotientEIP3529 :: u64 where "RefundQuotientEIP3529 \<equiv> 5"
abbreviation (input) BlobTxBytesPerFieldElement :: "'a::numeral" where "BlobTxBytesPerFieldElement \<equiv> 32"
abbreviation (input) BlobTxFieldElementsPerBlob :: "'a::numeral" where "BlobTxFieldElementsPerBlob \<equiv> 4096"
abbreviation (input) BlobTxBlobGasPerBlob :: "'a::numeral" where "BlobTxBlobGasPerBlob \<equiv> 131072"
abbreviation (input) BlobTxMinBlobGasprice :: "'a::one" where "BlobTxMinBlobGasprice \<equiv> 1"
abbreviation (input) BlobTxBlobGaspriceUpdateFraction :: "'a::numeral" where "BlobTxBlobGaspriceUpdateFraction \<equiv> 3338477"
abbreviation (input) BlobTxPointEvaluationPrecompileGas :: "'a::numeral" where "BlobTxPointEvaluationPrecompileGas \<equiv> 50000"
abbreviation (input) BlobTxTargetBlobGasPerBlock :: "'a::numeral" where "BlobTxTargetBlobGasPerBlock \<equiv> 393216"
abbreviation (input) MaxBlobGasPerBlock :: "'a::numeral" where "MaxBlobGasPerBlock \<equiv> 786432"

section \<open>params/config.go: the rules in force\<close>

record rules =
  IsHomestead :: bool
  IsEIP150 :: bool
  IsEIP155 :: bool
  IsEIP158 :: bool
  IsByzantium :: bool
  IsConstantinople :: bool
  IsPetersburg :: bool
  IsIstanbul :: bool
  IsBerlin :: bool
  IsLondon :: bool
  IsMerge :: bool
  IsShanghai :: bool
  IsCancun :: bool
  IsPrague :: bool
  IsVerkle :: bool

section \<open>core/vm/opcodes.go\<close>

abbreviation (input) OP_STOP :: u8 where "OP_STOP \<equiv> 0"
abbreviation (input) OP_ADD :: u8 where "OP_ADD \<equiv> 1"
abbreviation (input) OP_MUL :: u8 where "OP_MUL \<equiv> 2"
abbreviation (input) OP_SUB :: u8 where "OP_SUB \<equiv> 3"
abbreviation (input) OP_DIV :: u8 where "OP_DIV \<equiv> 4"
abbreviation (input) OP_SDIV :: u8 where "OP_SDIV \<equiv> 5"
abbreviation (input) OP_MOD :: u8 where "OP_MOD \<equiv> 6"
abbreviation (input) OP_SMOD :: u8 where "OP_SMOD \<equiv> 7"
abbreviation (input) OP_ADDMOD :: u8 where "OP_ADDMOD \<equiv> 8"
abbreviation (input) OP_MULMOD :: u8 where "OP_MULMOD \<equiv> 9"
abbreviation (input) OP_EXP :: u8 where "OP_EXP \<equiv> 10"
abbreviation (input) OP_SIGNEXTEND :: u8 where "OP_SIGNEXTEND \<equiv> 11"
abbreviation (input) OP_LT :: u8 where "OP_LT \<equiv> 16"
abbreviation (input) OP_GT :: u8 where "OP_GT \<equiv> 17"
abbreviation (input) OP_SLT :: u8 where "OP_SLT \<equiv> 18"
abbreviation (input) OP_SGT :: u8 where "OP_SGT \<equiv> 19"
abbreviation (input) OP_EQ :: u8 where "OP_EQ \<equiv> 20"
abbreviation (input) OP_ISZERO :: u8 where "OP_ISZERO \<equiv> 21"
abbreviation (input) OP_AND :: u8 where "OP_AND \<equiv> 22"
abbreviation (input) OP_OR :: u8 where "OP_OR \<equiv> 23"
abbreviation (input) OP_XOR :: u8 where "OP_XOR \<equiv> 24"
abbreviation (input) OP_NOT :: u8 where "OP_NOT \<equiv> 25"
abbreviation (input) OP_BYTE :: u8 where "OP_BYTE \<equiv> 26"
abbreviation (input) OP_SHL :: u8 where "OP_SHL \<equiv> 27"
abbreviation (input) OP_SHR :: u8 where "OP_SHR \<equiv> 28"
abbreviation (input) OP_SAR :: u8 where "OP_SAR \<equiv> 29"
abbreviation (input) OP_KECCAK256 :: u8 where "OP_KECCAK256 \<equiv> 32"
abbreviation (input) OP_ADDRESS :: u8 where "OP_ADDRESS \<equiv> 48"
abbreviation (input) OP_BALANCE :: u8 where "OP_BALANCE \<equiv> 49"
abbreviation (input) OP_ORIGIN :: u8 where "OP_ORIGIN \<equiv> 50"
abbreviation (input) OP_CALLER :: u8 where "OP_CALLER \<equiv> 51"
abbreviation (input) OP_CALLVALUE :: u8 where "OP_CALLVALUE \<equiv> 52"
abbreviation (input) OP_CALLDATALOAD :: u8 where "OP_CALLDATALOAD \<equiv> 53"
abbreviation (input) OP_CALLDATASIZE :: u8 where "OP_CALLDATASIZE \<equiv> 54"
abbreviation (input) OP_CALLDATACOPY :: u8 where "OP_CALLDATACOPY \<equiv> 55"
abbreviation (input) OP_CODESIZE :: u8 where "OP_CODESIZE \<equiv> 56"
abbreviation (input) OP_CODECOPY :: u8 where "OP_CODECOPY \<equiv> 57"
abbreviation (input) OP_GASPRICE :: u8 where "OP_GASPRICE \<equiv> 58"
abbreviation (input) OP_EXTCODESIZE :: u8 where "OP_EXTCODESIZE \<equiv> 59"
abbreviation (input) OP_EXTCODECOPY :: u8 where "OP_EXTCODECOPY \<equiv> 60"
abbreviation (input) OP_RETURNDATASIZE :: u8 where "OP_RETURNDATASIZE \<equiv> 61"
abbreviation (input) OP_RETURNDATACOPY :: u8 where "OP_RETURNDATACOPY \<equiv> 62"
abbreviation (input) OP_EXTCODEHASH :: u8 where "OP_EXTCODEHASH \<equiv> 63"
abbreviation (input) OP_BLOCKHASH :: u8 where "OP_BLOCKHASH \<equiv> 64"
abbreviation (input) OP_COINBASE :: u8 where "OP_COINBASE \<equiv> 65"
abbreviation (input) OP_TIMESTAMP :: u8 where "OP_TIMESTAMP \<equiv> 66"
abbreviation (input) OP_NUMBER :: u8 where "OP_NUMBER \<equiv> 67"
abbreviation (input) OP_DIFFICULTY :: u8 where "OP_DIFFICULTY \<equiv> 68"
abbreviation (input) OP_RANDOM :: u8 where "OP_RANDOM \<equiv> 68"
abbreviation (input) OP_PREVRANDAO :: u8 where "OP_PREVRANDAO \<equiv> 68"
abbreviation (input) OP_GASLIMIT :: u8 where "OP_GASLIMIT \<equiv> 69"
abbreviation (input) OP_CHAINID :: u8 where "OP_CHAINID \<equiv> 70"
abbreviation (input) OP_SELFBALANCE :: u8 where "OP_SELFBALANCE \<equiv> 71"
abbreviation (input) OP_BASEFEE :: u8 where "OP_BASEFEE \<equiv> 72"
abbreviation (input) OP_BLOBHASH :: u8 where "OP_BLOBHASH \<equiv> 73"
abbreviation (input) OP_BLOBBASEFEE :: u8 where "OP_BLOBBASEFEE \<equiv> 74"
abbreviation (input) OP_POP :: u8 where "OP_POP \<equiv> 80"
abbreviation (input) OP_MLOAD :: u8 where "OP_MLOAD \<equiv> 81"
abbreviation (input) OP_MSTORE :: u8 where "OP_MSTORE \<equiv> 82"
abbreviation (input) OP_MSTORE8 :: u8 where "OP_MSTORE8 \<equiv> 83"
abbreviation (input) OP_SLOAD :: u8 where "OP_SLOAD \<equiv> 84"
abbreviation (input) OP_SSTORE :: u8 where "OP_SSTORE \<equiv> 85"
abbreviation (input) OP_JUMP :: u8 where "OP_JUMP \<equiv> 86"
abbreviation (input) OP_JUMPI :: u8 where "OP_JUMPI \<equiv> 87"
abbreviation (input) OP_PC :: u8 where "OP_PC \<equiv> 88"
abbreviation (input) OP_MSIZE :: u8 where "OP_MSIZE \<equiv> 89"
abbreviation (input) OP_GAS :: u8 where "OP_GAS \<equiv> 90"
abbreviation (input) OP_JUMPDEST :: u8 where "OP_JUMPDEST \<equiv> 91"
abbreviation (input) OP_TLOAD :: u8 where "OP_TLOAD \<equiv> 92"
abbreviation (input) OP_TSTORE :: u8 where "OP_TSTORE \<equiv> 93"
abbreviation (input) OP_MCOPY :: u8 where "OP_MCOPY \<equiv> 94"
abbreviation (input) OP_PUSH0 :: u8 where "OP_PUSH0 \<equiv> 95"
abbreviation (input) OP_PUSH1 :: u8 where "OP_PUSH1 \<equiv> 96"
abbreviation (input) OP_PUSH2 :: u8 where "OP_PUSH2 \<equiv> 97"
abbreviation (input) OP_PUSH3 :: u8 where "OP_PUSH3 \<equiv> 98"
abbreviation (input) OP_PUSH4 :: u8 where "OP_PUSH4 \<equiv> 99"
abbreviation (input) OP_PUSH5 :: u8 where "OP_PUSH5 \<equiv> 100"
abbreviation (input) OP_PUSH6 :: u8 where "OP_PUSH6 \<equiv> 101"
abbreviation (input) OP_PUSH7 :: u8 where "OP_PUSH7 \<equiv> 102"
abbreviation (input) OP_PUSH8 :: u8 where "OP_PUSH8 \<equiv> 103"
abbreviation (input) OP_PUSH9 :: u8 where "OP_PUSH9 \<equiv> 104"
abbreviation (input) OP_PUSH10 :: u8 where "OP_PUSH10 \<equiv> 105"
abbreviation (input) OP_PUSH11 :: u8 where "OP_PUSH11 \<equiv> 106"
abbreviation (input) OP_PUSH12 :: u8 where "OP_PUSH12 \<equiv> 107"
abbreviation (input) OP_PUSH13 :: u8 where "OP_PUSH13 \<equiv> 108"
abbreviation (input) OP_PUSH14 :: u8 where "OP_PUSH14 \<equiv> 109"
abbreviation (input) OP_PUSH15 :: u8 where "OP_PUSH15 \<equiv> 110"
abbreviation (input) OP_PUSH16 :: u8 where "OP_PUSH16 \<equiv> 111"
abbreviation (input) OP_PUSH17 :: u8 where "OP_PUSH17 \<equiv> 112"
abbreviation (input) OP_PUSH18 :: u8 where "OP_PUSH18 \<equiv> 113"
abbreviation (input) OP_PUSH19 :: u8 where "OP_PUSH19 \<equiv> 114"
abbreviation (input) OP_PUSH20 :: u8 where "OP_PUSH20 \<equiv> 115"
abbreviation (input) OP_PUSH21 :: u8 where "OP_PUSH21 \<equiv> 116"
abbreviation (input) OP_PUSH22 :: u8 where "OP_PUSH22 \<equiv> 117"
abbreviation (input) OP_PUSH23 :: u8 where "OP_PUSH23 \<equiv> 118"
abbreviation (input) OP_PUSH24 :: u8 where "OP_PUSH24 \<equiv> 119"
abbreviation (input) OP_PUSH25 :: u8 where "OP_PUSH25 \<equiv> 120"
abbreviation (input) OP_PUSH26 :: u8 where "OP_PUSH26 \<equiv> 121"
abbreviation (input) OP_PUSH27 :: u8 where "OP_PUSH27 \<equiv> 122"
abbreviation (input) OP_PUSH28 :: u8 where "OP_PUSH28 \<equiv> 123"
abbreviation (input) OP_PUSH29 :: u8 where "OP_PUSH29 \<equiv> 124"
abbreviation (input) OP_PUSH30 :: u8 where "OP_PUSH30 \<equiv> 125"
abbreviation (input) OP_PUSH31 :: u8 where "OP_PUSH31 \<equiv> 126"
abbreviation (input) OP_PUSH32 :: u8 where "OP_PUSH32 \<equiv> 127"
abbreviation (input) OP_DUP1 :: u8 where "OP_DUP1 \<equiv> 128"
abbreviation (input) OP_DUP2 :: u8 where "OP_DUP2 \<equiv> 129"
abbreviation (input) OP_DUP3 :: u8 where "OP_DUP3 \<equiv> 130"
abbreviation (input) OP_DUP4 :: u8 where "OP_DUP4 \<equiv> 131"
abbreviation (input) OP_DUP5 :: u8 where "OP_DUP5 \<equiv> 132"
abbreviation (input) OP_DUP6 :: u8 where "OP_DUP6 \<equiv> 133"
abbreviation (input) OP_DUP7 :: u8 where "OP_DUP7 \<equiv> 134"
abbreviation (input) OP_DUP8 :: u8 where "OP_DUP8 \<equiv> 135"
abbreviation (input) OP_DUP9 :: u8 where "OP_DUP9 \<equiv> 136"
abbreviation (input) OP_DUP10 :: u8 where "OP_DUP10 \<equiv> 137"
abbreviation (input) OP_DUP11 :: u8 where "OP_DUP11 \<equiv> 138"
abbreviation (input) OP_DUP12 :: u8 where "OP_DUP12 \<equiv> 139"
abbreviation (input) OP_DUP13 :: u8 where "OP_DUP13 \<equiv> 140"
abbreviation (input) OP_DUP14 :: u8 where "OP_DUP14 \<equiv> 141"
abbreviation (input) OP_DUP15 :: u8 where "OP_DUP15 \<equiv> 142"
abbreviation (input) OP_DUP16 :: u8 where "OP_DUP16 \<equiv> 143"
abbreviation (input) OP_SWAP1 :: u8 where "OP_SWAP1 \<equiv> 144"
abbreviation (input) OP_SWAP2 :: u8 where "OP_SWAP2 \<equiv> 145"
abbreviation (input) OP_SWAP3 :: u8 where "OP_SWAP3 \<equiv> 146"
abbreviation (input) OP_SWAP4 :: u8 where "OP_SWAP4 \<equiv> 147"
abbreviation (input) OP_SWAP5 :: u8 where "OP_SWAP5 \<equiv> 148"
abbreviation (input) OP_SWAP6 :: u8 where "OP_SWAP6 \<equiv> 149"
abbreviation (input) OP_SWAP7 :: u8 where "OP_SWAP7 \<equiv> 150"
abbreviation (input) OP_SWAP8 :: u8 where "OP_SWAP8 \<equiv> 151"
abbreviation (input) OP_SWAP9 :: u8 where "OP_SWAP9 \<equiv> 152"
abbreviation (input) OP_SWAP10 :: u8 where "OP_SWAP10 \<equiv> 153"
abbreviation (input) OP_SWAP11 :: u8 where "OP_SWAP11 \<equiv> 154"
abbreviation (input) OP_SWAP12 :: u8 where "OP_SWAP12 \<equiv> 155"
abbreviation (input) OP_SWAP13 :: u8 where "OP_SWAP13 \<equiv> 156"
abbreviation (input) OP_SWAP14 :: u8 where "OP_SWAP14 \<equiv> 157"
abbreviation (input) OP_SWAP15 :: u8 where "OP_SWAP15 \<equiv> 158"
abbreviation (input) OP_SWAP16 :: u8 where "OP_SWAP16 \<equiv> 159"
abbreviation (input) OP_LOG0 :: u8 where "OP_LOG0 \<equiv> 160"
abbreviation (input) OP_LOG1 :: u8 where "OP_LOG1 \<equiv> 161"
abbreviation (input) OP_LOG2 :: u8 where "OP_LOG2 \<equiv> 162"
abbreviation (input) OP_LOG3 :: u8 where "OP_LOG3 \<equiv> 163"
abbreviation (input) OP_LOG4 :: u8 where "OP_LOG4 \<equiv> 164"
abbreviation (input) OP_CREATE :: u8 where "OP_CREATE \<equiv> 240"
abbreviation (input) OP_CALL :: u8 where "OP_CALL \<equiv> 241"
abbreviation (input) OP_CALLCODE :: u8 where "OP_CALLCODE \<equiv> 242"
abbreviation (input) OP_RETURN :: u8 where "OP_RETURN \<equiv> 243"
abbreviation (input) OP_DELEGATECALL :: u8 where "OP_DELEGATECALL \<equiv> 244"
abbreviation (input) OP_CREATE2 :: u8 where "OP_CREATE2 \<equiv> 245"
abbreviation (input) OP_STATICCALL :: u8 where "OP_STATICCALL \<equiv> 250"
abbreviation (input) OP_REVERT :: u8 where "OP_REVERT \<equiv> 253"
abbreviation (input) OP_INVALID :: u8 where "OP_INVALID \<equiv> 254"
abbreviation (input) OP_SELFDESTRUCT :: u8 where "OP_SELFDESTRUCT \<equiv> 255"

definition IsPush :: "u8 \<Rightarrow> bool" where
  "IsPush op \<longleftrightarrow> OP_PUSH0 \<le> op \<and> op \<le> OP_PUSH32"

text \<open>\<open>core/types/hashes.go\<close>: the root hash of an empty trie.\<close>

abbreviation (input) EmptyRootHash :: hash where
  "EmptyRootHash \<equiv> 0x56e81f171bcc55a6ff8345e692c0f86e5b48e01b996cadc001622fb5e363b421"

end
