(* ===== verification/RLP_Raw.thy ===== *)
theory RLP_Raw imports Params begin

text \<open>
  Reading and writing raw RLP, \<open>rlp/raw.go\<close> (with \<open>headsize\<close> and \<open>intsize\<close> of
  \<open>rlp/encode.go\<close> as far as this file uses them). The functions return an error in the left
  summand; the other results the Go code returns beside an error are zero values or the unchanged
  input. A slice expression outside its slice is a panic, and the theory proves that none occurs.
\<close>

section \<open>Errors and kinds\<close>

datatype rlp_error =
    ErrUnexpectedEOF | ErrExpectedString | ErrExpectedList | ErrCanonInt | ErrCanonSize
  | ErrValueTooLarge | errUintOverflow

datatype kind = KByte | KString | KList

section \<open>rlp/raw.go\<close>

text \<open>The \<open>slen\<close> cases of the switch are one big-endian read of the first \<open>slen\<close> bytes.\<close>

definition readSize :: "bytes \<Rightarrow> u8 \<Rightarrow> rlp_error + u64" where
  "readSize b slen =
     (if unat slen > length b then Inl ErrUnexpectedEOF
      else let s = (if 1 \<le> slen \<and> slen \<le> 8 then SetBytes (take (unat slen) b) else 0) :: u64
        in if s < 56 \<or> b ! 0 = 0 then Inl ErrCanonSize else Inr s)"

definition readKind :: "bytes \<Rightarrow> rlp_error + (kind \<times> u64 \<times> u64)" where
  "readKind buf =
     (if buf = [] then Inl ErrUnexpectedEOF
      else let b = buf ! 0;
        r = (if b < 0x80 then Inr (KByte, 0, 1)
             else if b < 0xB8 then
               (let contentsize = ucast (b - 0x80) :: u64
                in if contentsize = 1 \<and> length buf > 1 \<and> buf ! 1 < 128 then Inl ErrCanonSize
                   else Inr (KString, 1, contentsize))
             else if b < 0xC0 then
               map_sum id (\<lambda>s. (KString, ucast (b - 0xB7) + 1, s)) (readSize (drop 1 buf) (b - 0xB7))
             else if b < 0xF8 then Inr (KList, 1, ucast (b - 0xC0))
             else map_sum id (\<lambda>s. (KList, ucast (b - 0xF7) + 1, s)) (readSize (drop 1 buf) (b - 0xF7)))
        in case r of
          Inl e \<Rightarrow> Inl e
        | Inr (k, tagsize, contentsize) \<Rightarrow>
            if contentsize > len64 buf - tagsize then Inl ErrValueTooLarge
            else Inr (k, tagsize, contentsize))"

definition Split :: "bytes \<Rightarrow> (rlp_error + (kind \<times> bytes \<times> bytes)) go" where
  "Split b =
     (case readKind b of
        Inl e \<Rightarrow> Ret (Inl e)
      | Inr (k, ts, cs) \<Rightarrow>
          go_bind (slice b (unat ts) (unat (ts + cs))) (\<lambda>content.
          go_bind (slice b (unat (ts + cs)) (length b)) (\<lambda>rest. Ret (Inr (k, content, rest)))))"

definition SplitString :: "bytes \<Rightarrow> (rlp_error + (bytes \<times> bytes)) go" where
  "SplitString b = go_bind (Split b) (\<lambda>r. Ret (case r of
       Inl e \<Rightarrow> Inl e
     | Inr (k, content, rest) \<Rightarrow> if k = KList then Inl ErrExpectedString else Inr (content, rest)))"

definition SplitUint64 :: "bytes \<Rightarrow> (rlp_error + (u64 \<times> bytes)) go" where
  "SplitUint64 b = go_bind (SplitString b) (\<lambda>r. Ret (case r of
       Inl e \<Rightarrow> Inl e
     | Inr (content, rest) \<Rightarrow>
         if length content = 0 then Inr (0, rest)
         else if length content = 1 then
           (if content ! 0 = 0 then Inl ErrCanonInt else Inr (ucast (content ! 0), rest))
         else if length content > 8 then Inl errUintOverflow
         else (case readSize content (word_of_nat (length content)) of
             Inl e \<Rightarrow> Inl ErrCanonInt
           | Inr x \<Rightarrow> Inr (x, rest))))"

definition SplitList :: "bytes \<Rightarrow> (rlp_error + (bytes \<times> bytes)) go" where
  "SplitList b = go_bind (Split b) (\<lambda>r. Ret (case r of
       Inl e \<Rightarrow> Inl e
     | Inr (k, content, rest) \<Rightarrow> if k \<noteq> KList then Inl ErrExpectedList else Inr (content, rest)))"

definition AppendUint64 :: "bytes \<Rightarrow> u64 \<Rightarrow> bytes" where
  "AppendUint64 b i =
     (let byte = (\<lambda>n. ucast (drop_bit n i) :: u8)
      in if i = 0 then b @ [0x80]
         else if i < 128 then b @ [byte 0]
         else if i < push_bit 8 1 then b @ [0x81, byte 0]
         else if i < push_bit 16 1 then b @ [0x82, byte 8, byte 0]
         else if i < push_bit 24 1 then b @ [0x83, byte 16, byte 8, byte 0]
         else if i < push_bit 32 1 then b @ [0x84, byte 24, byte 16, byte 8, byte 0]
         else if i < push_bit 40 1 then b @ [0x85, byte 32, byte 24, byte 16, byte 8, byte 0]
         else if i < push_bit 48 1 then b @ [0x86, byte 40, byte 32, byte 24, byte 16, byte 8, byte 0]
         else if i < push_bit 56 1
         then b @ [0x87, byte 48, byte 40, byte 32, byte 24, byte 16, byte 8, byte 0]
         else b @ [0x88, byte 56, byte 48, byte 40, byte 32, byte 24, byte 16, byte 8, byte 0])"

section \<open>The sizes that \<open>readKind\<close> returns fit the input\<close>

lemma readSize_length: "readSize b slen = Inr s \<Longrightarrow> unat slen \<le> length b"
  by (auto simp: readSize_def split: if_splits)

lemma unat_byte_diff:
  assumes "c \<le> b" "unat b - unat c \<le> 8"
  shows "unat (ucast (b - c) + 1 :: u64) = unat (b :: u8) - unat c + 1"
proof -
  have "unat (b - c) = unat b - unat c" using assms(1) by (rule unat_sub_le)
  then have "unat (ucast (b - c) :: u64) = unat b - unat c"
    using assms(2) by (simp add: unsigned_ucast_eq take_bit_nat_eq_self)
  with assms(2) show ?thesis by (subst unat_add_no_overflow) auto
qed

lemma readKind_bounds:
  assumes "readKind b = Inr (k, ts, cs)" "length b < 2 ^ 63"
  shows "unat ts + unat cs \<le> length b" "0 < unat ts + unat cs"
proof -
  have ne: "b \<noteq> []" using assms(1) by (auto simp: readKind_def)
  define c where "c = b ! 0"
  have len: "unat (len64 b) = length b" by (rule unat_len64) (use assms(2) in simp)
  have "unat ts \<le> length b \<and> 0 < unat ts + unat cs"
  proof -
    have cb: "unat c < 256" using unsigned_less [of c] by simp
    have one: "0 < length b" using ne by simp
    consider "c < 0x80" | "0x80 \<le> c" "c < 0xB8" | "0xB8 \<le> c" "c < 0xC0"
      | "0xC0 \<le> c" "c < 0xF8" | "0xF8 \<le> c" by force
    then show ?thesis
    proof cases
      case 1
      then show ?thesis using assms(1) ne by (auto simp: readKind_def Let_def c_def split: if_splits)
    next
      case 2
      then show ?thesis using assms(1) ne one
        by (auto simp: readKind_def Let_def c_def not_less [symmetric] split: if_splits)
    next
      case 3
      then have u: "unat (ucast (c - 0xB7) + 1 :: u64) = unat c - 0xB7 + 1"
        using unat_byte_diff [of "0xB7" c] by (simp add: word_le_nat_alt word_less_nat_alt)
      have s: "unat (c - 0xB7) = unat c - 0xB7" using 3 by (subst unat_sub_le) (auto simp: word_le_nat_alt)
      have *: "\<not> c < 0x80" "\<not> c < 0xB8" "c < 0xC0" using 3 by (simp_all add: word_less_nat_alt word_le_nat_alt)
      obtain sz where "readSize (drop 1 b) (c - 0xB7) = Inr sz" and ts: "ts = ucast (c - 0xB7) + 1"
        using assms(1) ne * unfolding c_def readKind_def
        by (cases "readSize (drop 1 b) (b ! 0 - 0xB7)") (auto simp: Let_def split: if_splits sum.splits)
      from readSize_length [OF this(1)] one show ?thesis unfolding ts u s length_drop by arith
    next
      case 4
      then have *: "\<not> c < 0x80" "\<not> c < 0xB8" "\<not> c < 0xC0" "c < 0xF8"
        by (simp_all add: word_less_nat_alt word_le_nat_alt)
      then show ?thesis using assms(1) ne one
        unfolding c_def readKind_def by (auto simp: Let_def Suc_le_eq split: if_splits)
    next
      case 5
      then have u: "unat (ucast (c - 0xF7) + 1 :: u64) = unat c - 0xF7 + 1"
        using unat_byte_diff [of "0xF7" c] cb by (simp add: word_le_nat_alt word_less_nat_alt)
      have s: "unat (c - 0xF7) = unat c - 0xF7" using 5 by (subst unat_sub_le) (auto simp: word_le_nat_alt)
      have *: "\<not> c < 0x80" "\<not> c < 0xB8" "\<not> c < 0xC0" "\<not> c < 0xF8" using 5 by (simp_all add: word_less_nat_alt word_le_nat_alt)
      obtain sz where "readSize (drop 1 b) (c - 0xF7) = Inr sz" and ts: "ts = ucast (c - 0xF7) + 1"
        using assms(1) ne * unfolding c_def readKind_def
        by (cases "readSize (drop 1 b) (b ! 0 - 0xF7)") (auto simp: Let_def split: if_splits sum.splits)
      from readSize_length [OF this(1)] one show ?thesis unfolding ts u s length_drop by arith
    qed
  qed
  moreover have "\<not> cs > len64 b - ts"
    using assms(1) unfolding readKind_def Let_def
    by (simp split: if_splits sum.splits prod.splits)
  then have "cs \<le> len64 b - ts" by (simp only: not_less)
  moreover note this
  ultimately show "unat ts + unat cs \<le> length b" "0 < unat ts + unat cs"
    using len unat_sub_le [of ts "len64 b"] by (auto simp: word_le_nat_alt)
qed

lemma Split_Ret:
  assumes "length b < 2 ^ 63"
  shows "Split b = Ret (case readKind b of Inl e \<Rightarrow> Inl e
    | Inr (k, ts, cs) \<Rightarrow> Inr (k, take (unat cs) (drop (unat ts) b), drop (unat ts + unat cs) b))"
proof (cases "readKind b")
  case (Inr r)
  obtain k ts cs where r: "r = (k, ts, cs)" by (cases r)
  note b = readKind_bounds [OF Inr [unfolded r] assms]
  have "unat (ts + cs) = unat ts + unat cs"
    by (rule unat_add_no_overflow) (use b assms in simp)
  then show ?thesis using Inr r b by (simp add: Split_def slice_def)
qed (simp add: Split_def)

text \<open>One value is read off the front: the input is the tag, the content and the rest.\<close>

lemma Split_partition:
  assumes "Split b = Ret (Inr (k, content, rest))" "length b < 2 ^ 63"
  shows "\<exists>tag. b = tag @ content @ rest \<and> length rest < length b"
proof -
  obtain ts cs where r: "readKind b = Inr (k, ts, cs)"
    and c: "content = take (unat cs) (drop (unat ts) b)" and d: "rest = drop (unat ts + unat cs) b"
    using assms Split_Ret [OF assms(2)] by (auto split: sum.splits)
  have "b = take (unat ts) b @ content @ rest"
    unfolding c d by (metis append_take_drop_id drop_drop add.commute)
  moreover have "length rest < length b"
    using readKind_bounds [OF r assms(2)] unfolding d length_drop by arith
  ultimately show ?thesis by blast
qed

section \<open>Counting values\<close>

text \<open>The loop of \<open>CountValues\<close>; every value takes at least one byte, so it ends.\<close>

function CountValues_loop :: "bytes \<Rightarrow> nat \<Rightarrow> (rlp_error + nat) go" where
  "CountValues_loop b i =
     (if length b > 0 \<and> length b < 2 ^ 63 then
        (case readKind b of
           Inl e \<Rightarrow> Ret (Inl e)
         | Inr (k, tagsize, sz) \<Rightarrow>
             go_bind (slice b (unat (tagsize + sz)) (length b)) (\<lambda>b. CountValues_loop b (i + 1)))
      else Ret (Inr i))"
  by pat_completeness auto
termination
proof (relation "measure (\<lambda>(b, i). length b)")
  fix b :: bytes and i r p k q tagsize sz x
  assume a: "0 < length b \<and> length b < 2 ^ 63" "readKind b = Inr r" "(k, p) = r" "(tagsize, sz) = p"
    "slice b (unat (tagsize + sz)) (length b) = Ret x"
  then have rk: "readKind b = Inr (k, tagsize, sz)" by simp
  note bd = readKind_bounds [OF rk]
  have "unat (tagsize + sz) = unat tagsize + unat sz"
    by (rule unat_add_no_overflow) (use bd a(1) in simp)
  then have "length x < length b" using a(1,5) bd by (auto simp: slice_def split: if_splits)
  then show "((x, i + 1), b, i) \<in> measure (\<lambda>(b, i). length b)" by simp
qed simp

declare CountValues_loop.simps [simp del]

definition CountValues :: "bytes \<Rightarrow> (rlp_error + nat) go" where
  "CountValues b = CountValues_loop b 0"

section \<open>Integers round-trip\<close>

abbreviation be_bytes :: "nat \<Rightarrow> u64 \<Rightarrow> bytes" where
  "be_bytes n i \<equiv> map (\<lambda>k. ucast (drop_bit (8 * (n - Suc k)) i)) [0..<n]"

lemma take_bit_below: "unat (i :: u64) < 256 ^ n \<Longrightarrow> take_bit (8 * n) i = i"
proof -
  assume "unat i < 256 ^ n"
  then have "unat i < 2 ^ (8 * n)" by (simp add: power_mult)
  then show ?thesis
    by (metis take_bit_nat_eq_self unsigned_take_bit_eq word_unat_eq_iff)
qed

lemma drop_bit_byte_ne_0:
  assumes "256 ^ n \<le> unat (i :: u64)" "unat i < 256 ^ Suc n"
  shows "(ucast (drop_bit (8 * n) i) :: u8) \<noteq> 0"
proof -
  have d: "unat (drop_bit (8 * n) i) = unat i div 256 ^ n"
    by (simp only: unat_drop_bit_eq) (simp add: drop_bit_eq_div power_mult)
  have "unat i div 256 ^ n < 256" using assms(2) by (simp add: div_less_iff_less_mult mult.commute)
  then have "unat (ucast (drop_bit (8 * n) i) :: u8) = unat i div 256 ^ n"
    by (simp add: unsigned_ucast_eq d take_bit_nat_eq_self)
  moreover have "0 < unat i div 256 ^ n" using assms(1) by (simp add: div_greater_zero_iff)
  ultimately show ?thesis by (metis less_irrefl unsigned_0)
qed


lemma SplitUint64_be:
  assumes "256 ^ n \<le> unat i" "unat i < 256 ^ Suc n" "128 \<le> i" "n < 8" "length rest < 2 ^ 62"
  shows "SplitUint64 ((0x80 + word_of_nat (Suc n)) # be_bytes (Suc n) i @ rest) = Ret (Inr (i, rest))"
proof -
  let ?c = "be_bytes (Suc n) i" and ?t = "0x80 + word_of_nat (Suc n) :: u8"
  define b where "b = ?t # ?c @ rest"
  have n: "n \<in> {0, 1, 2, 3, 4, 5, 6, 7}" using assms(4) by auto
  then have t: "unat ?t = 129 + n" "ucast (?t - 0x80) = (word_of_nat (Suc n) :: u64)"
    "unat (word_of_nat (Suc n) :: u64) = Suc n" "unat (word_of_nat (Suc n) :: u8) = Suc n"
    "(word_of_nat (Suc n) :: u64) = 1 \<longleftrightarrow> n = 0"
    by auto
  have hd: "?c ! 0 = ucast (drop_bit (8 * n) i)" by (simp del: upt_Suc)
  have v: "SetBytes ?c = i"
    using SetBytes_horner [of "Suc n" i] take_bit_below [OF assms(2)] by simp
  have big: "?c ! 0 \<ge> 128" if "n = 0"
    using assms(2,3) that unfolding hd
    by (simp add: word_le_nat_alt unsigned_ucast_eq take_bit_nat_eq_self)
  have len: "unat (len64 b) = length b" by (rule unat_len64) (use assms(4,5) in \<open>simp add: b_def\<close>)
  have lb: "length b = 2 + n + length rest" by (simp add: b_def)
  define t0 l0 where "t0 = ?t" and "l0 = (word_of_nat (Suc n) :: u64)"
  have t0: "\<not> t0 < 0x80" "t0 < 0xB8" "ucast (t0 - 0x80) = l0" "l0 = 1 \<longleftrightarrow> n = 0"
    using t assms(4) by (simp_all add: t0_def l0_def word_less_nat_alt del: of_nat_Suc)
  have b0: "b ! 0 = t0" "b ! 1 = ?c ! 0" "b \<noteq> []"
    by (simp_all add: b_def t0_def nth_append del: upt_Suc)
  have "\<not> word_of_nat (Suc n) > len64 b - 1"
    unfolding not_less word_le_nat_alt using lb len
    by (subst unat_sub_le) (use t(3) in \<open>auto simp: word_le_nat_alt\<close>)
  then have k: "readKind b = Inr (KString, 1, word_of_nat (Suc n))"
    using t0 big b0 unfolding readKind_def Let_def l0_def [symmetric]
    by (auto simp del: upt_Suc)
  have sp: "Split b = Ret (Inr (KString, ?c, rest))"
  proof -
    have "Split b = Ret (Inr (KString, take (Suc n) (drop 1 b), drop (1 + Suc n) b))"
      using Split_Ret [of b] lb assms(4,5) by (simp add: k t(3) del: of_nat_Suc)
    moreover have "take (Suc n) (drop 1 b) = ?c" "drop (1 + Suc n) b = rest"
      by (simp_all add: b_def del: upt_Suc)
    ultimately show ?thesis by simp
  qed
  define c where "c = ?c"
  have c: "length c = Suc n" "c ! 0 \<noteq> 0" "c \<noteq> []"
    using drop_bit_byte_ne_0 [OF assms(1,2)] hd by (simp_all add: c_def del: upt_Suc)
  have rs: "readSize c (word_of_nat (Suc n)) = Inr i" if "n \<noteq> 0"
  proof -
    have "1 \<le> (word_of_nat (Suc n) :: u8)" "(word_of_nat (Suc n) :: u8) \<le> 8"
      using t(4) assms(4) by (simp_all add: word_le_nat_alt del: of_nat_Suc)
    moreover have "SetBytes (take (Suc n) c) = i" using v c(1) by (simp add: c_def del: upt_Suc)
    moreover have "\<not> i < 56" using assms(3) by (simp add: word_less_nat_alt word_le_nat_alt)
    ultimately show ?thesis using c t(4) by (simp add: readSize_def Let_def del: of_nat_Suc)
  qed
  have one: "ucast (c ! 0) = i" if "n = 0"
    using v that by (simp add: c_def SetBytes_Cons)
  have "SplitUint64 b = Ret (Inr (i, rest))"
    using c rs one assms(4)
    by (cases "n = 0") (simp_all add: SplitUint64_def SplitString_def sp [folded c_def] del: of_nat_Suc)
  then show ?thesis by (simp add: b_def)
qed

lemma AppendUint64_cases:
  obtains "i = 0" "AppendUint64 b i = b @ [0x80]"
  | "i \<noteq> 0" "i < 128" "AppendUint64 b i = b @ [ucast i]"
  | n where "n < 8" "256 ^ n \<le> unat i" "unat i < 256 ^ Suc n" "128 \<le> i"
      "AppendUint64 b i = b @ (0x80 + word_of_nat (Suc n)) # be_bytes (Suc n) i"
proof -
  consider "i = 0" | "i \<noteq> 0" "i < 128" | "128 \<le> i" by force
  then show thesis
  proof cases
    case 3
    have m: "unat i < 18446744073709551616" by (rule u64_bound)
    have i: "i \<noteq> 0" "\<not> i < 128" using 3 by auto
    have u: "[0..<1] = [0]" "[0..<2] = [0,1]" "[0..<Suc (Suc 0)] = [0, 1]" "[0..<3] = [0,1,2]" "[0..<4] = [0,1,2,3]"
      "[0..<5] = [0,1,2,3,4]" "[0..<6] = [0,1,2,3,4,5]" "[0..<7] = [0,1,2,3,4,5,6]"
      "[0..<8] = [0,1,2,3,4,5,6,7]" by (simp_all add: upt_rec)
    have A: "AppendUint64 b i = b @ (0x80 + word_of_nat (Suc n)) # be_bytes (Suc n) i"
      if "256 ^ n \<le> unat i" "unat i < 256 ^ Suc n" "n < 8" for n
    proof -
      have "n \<in> {0, 1, 2, 3, 4, 5, 6, 7}" using that(3) by auto
      with that(1,2) i u show ?thesis
        by (elim insertE emptyE)
          (simp_all add: AppendUint64_def Let_def word_less_nat_alt not_less del: upt_Suc)
    qed
    have "\<exists>n<8. 256 ^ n \<le> unat i \<and> unat i < 256 ^ Suc n"
    proof -
      define n where "n = (LEAST n. unat i < 256 ^ Suc n)"
      have ex: "unat i < 256 ^ Suc 7" using m by simp
      have l: "unat i < 256 ^ Suc n" unfolding n_def by (rule LeastI [of _ 7]) (rule ex)
      have "n \<le> 7" unfolding n_def by (rule Least_le) (rule ex)
      moreover have "256 ^ n \<le> unat i"
      proof (cases n)
        case 0
        then show ?thesis using 3 by (simp add: word_le_nat_alt)
      next
        case (Suc k)
        then have "\<not> unat i < 256 ^ Suc k" using not_less_Least [of k "\<lambda>n. unat i < 256 ^ Suc n"]
          by (simp add: n_def)
        with Suc show ?thesis by simp
      qed
      ultimately show ?thesis using l by (intro exI [of _ n]) auto
    qed
    then obtain n where "n < 8" "256 ^ n \<le> unat i" "unat i < 256 ^ Suc n" by blast
    with A 3 that(3) show thesis by blast
  qed (use that(1,2) in \<open>auto simp: AppendUint64_def Let_def\<close>)
qed

lemma SplitUint64_AppendUint64:
  assumes "length rest < 2 ^ 62"
  shows "SplitUint64 (AppendUint64 [] i @ rest) = Ret (Inr (i, rest))"
proof -
  have len: "unat (len64 (x # rest)) = Suc (length rest)" for x :: u8
    using unat_len64 [of "x # rest"] assms by simp
  show ?thesis
  proof (cases rule: AppendUint64_cases [of i "[]"])
    case 1
    have "readKind (0x80 # rest) = Inr (KString, 1, 0)" by (simp add: readKind_def)
    then have "Split (0x80 # rest) = Ret (Inr (KString, [], rest))"
      using assms by (subst Split_Ret) auto
    with 1 show ?thesis by (simp add: SplitUint64_def SplitString_def)
  next
    case 2
    have c: "ucast i < (128 :: u8)" "ucast (ucast i :: u8) = i" "ucast i \<noteq> (0 :: u8)"
    proof -
      have "unat i < 128" using 2 by (simp add: word_less_nat_alt)
      then have u: "unat (ucast i :: u8) = unat i" by (simp add: unsigned_ucast_eq take_bit_nat_eq_self)
      with \<open>unat i < 128\<close> show "ucast i < (128 :: u8)" by (simp add: word_less_nat_alt)
      from u show "ucast i \<noteq> (0 :: u8)" using 2(1) by (metis unat_eq_zero)
      have "unat (ucast (ucast i :: u8) :: u64) = unat i"
      proof -
        have "unat (ucast x :: u64) = unat x" for x :: u8
          using unsigned_less [of x, where ?'a = nat] by (simp add: unsigned_ucast_eq take_bit_nat_eq_self)
        then show ?thesis using u by (simp only:)
      qed
      then show "ucast (ucast i :: u8) = i" by (simp only: word_unat_eq_iff)
    qed
    have "\<not> 1 > len64 (ucast i # rest :: bytes)"
      using len [of "ucast i"] by (simp add: word_less_nat_alt)
    then have "readKind (ucast i # rest) = Inr (KByte, 0, 1)" using c by (simp add: readKind_def Let_def)
    then have "Split (ucast i # rest) = Ret (Inr (KByte, [ucast i], rest))"
      using assms by (subst Split_Ret) auto
    with 2 c show ?thesis by (simp add: SplitUint64_def SplitString_def)
  next
    case (3 n)
    from SplitUint64_be [OF 3(2,3,4,1) assms] 3(5) show ?thesis by simp
  qed
qed

section \<open>Properties\<close>

text \<open>
  An integer written by \<open>AppendUint64\<close> in front of any bytes is read back by \<open>SplitUint64\<close>,
  which returns exactly that integer and exactly those bytes.
\<close>

theorem rlp_uint64_roundtrip:
  assumes "length rest < 2 ^ 62"
  shows "SplitUint64 (AppendUint64 [] i @ rest) = Ret (Inr (i, rest))"
  using assms by (rule SplitUint64_AppendUint64)

theorem rlp_uint64_roundtrip_witness:
  "SplitUint64 (AppendUint64 [] 0x123456 @ [7, 8]) = Ret (Inr (0x123456, [7, 8]))"
  by (rule rlp_uint64_roundtrip) simp

text \<open>
  \<open>Split\<close> never slices out of range: on every input it returns, and when it returns a value
  the input is the tag followed by the content followed by the rest, with at least one byte used.
\<close>

theorem rlp_split_partition:
  assumes "length b < 2 ^ 63"
  shows "\<exists>r. Split b = Ret r \<and> (case r of Inl e \<Rightarrow> True
    | Inr (k, content, rest) \<Rightarrow> \<exists>tag. b = tag @ content @ rest \<and> length rest < length b)"
proof -
  obtain r where r: "Split b = Ret r" using Split_Ret [OF assms] by blast
  then show ?thesis using Split_partition [OF _ assms] by (cases r) auto
qed

theorem rlp_split_partition_witness:
  "\<exists>r. Split [0x82, 0x90, 0x91, 0x05] = Ret r \<and> (case r of Inl e \<Rightarrow> True
    | Inr (k, content, rest) \<Rightarrow>
        \<exists>tag. [0x82, 0x90, 0x91, 0x05] = tag @ content @ rest \<and> length rest < length [0x82 :: u8, 0x90, 0x91, 0x05])"
  by (rule rlp_split_partition) simp

end
