(* ===== verification/Stack_Memory.thy ===== *)
theory Stack_Memory imports Params begin

text \<open>
  The data structures of one call frame: the operand stack (\<open>core/vm/stack.go\<close>), the memory
  (\<open>core/vm/memory.go\<close>), the size arithmetic of \<open>core/vm/common.go\<close> and the memory-size
  functions of \<open>core/vm/memory_table.go\<close>.

  The Go stack is a slice whose last element is the top; here it is a list whose head is the top,
  so \<open>Back(n)\<close>, the n'th element from the top, is the n'th element of the list. Every access
  that indexes out of the slice is the Go index panic. Slicing the memory past its length is a
  panic here; Go allows it up to the slice's capacity, a case the interpreter never reaches since
  it resizes the memory before it executes an operation.
\<close>

section \<open>core/vm/stack.go\<close>

type_synonym stack = "u256 list"

fun stack_pop :: "stack \<Rightarrow> (u256 \<times> stack) go" where
  "stack_pop [] = Panic StackIndexOutOfRange"
| "stack_pop (x # st) = Ret (x, st)"

fun stack_peek :: "stack \<Rightarrow> u256 go" where
  "stack_peek [] = Panic StackIndexOutOfRange"
| "stack_peek (x # st) = Ret x"

text \<open>\<open>peek\<close> returns a pointer to the top; an assignment through it replaces the top.\<close>

fun stack_set_top :: "u256 \<Rightarrow> stack \<Rightarrow> stack go" where
  "stack_set_top v [] = Panic StackIndexOutOfRange"
| "stack_set_top v (x # st) = Ret (v # st)"

definition stack_push :: "u256 \<Rightarrow> stack \<Rightarrow> stack" where
  "stack_push d st = d # st"

definition Back :: "stack \<Rightarrow> nat \<Rightarrow> u256 go" where
  "Back st n = (if n < length st then Ret (st ! n) else Panic StackIndexOutOfRange)"

definition stack_dup :: "nat \<Rightarrow> stack \<Rightarrow> stack go" where
  "stack_dup n st = (if 0 < n \<and> n \<le> length st then Ret (stack_push (st ! (n - 1)) st)
                     else Panic StackIndexOutOfRange)"

definition stack_swap :: "nat \<Rightarrow> stack \<Rightarrow> stack go" where
  "stack_swap n st = (if 0 < n \<and> n \<le> length st
                      then Ret (st[n - 1 := st ! 0, 0 := st ! (n - 1)])
                      else Panic StackIndexOutOfRange)"

lemma Back_Ret [simp]: "n < length st \<Longrightarrow> Back st n = Ret (st ! n)"
  by (simp add: Back_def)

lemma stack_dup_top: "stack_dup n st = Ret st' \<Longrightarrow> hd st' = st ! (n - 1) \<and> tl st' = st"
  by (auto simp: stack_dup_def stack_push_def split: if_splits)

lemma stack_swap_swaps:
  assumes "stack_swap n st = Ret st'"
  shows "length st' = length st" "st' ! 0 = st ! (n - 1)" "st' ! (n - 1) = st ! 0"
    "\<And>i. i \<noteq> 0 \<Longrightarrow> i \<noteq> n - 1 \<Longrightarrow> st' ! i = st ! i"
proof -
  from assms have n: "0 < n" "n \<le> length st" and st': "st' = st[n - 1 := st ! 0, 0 := st ! (n - 1)]"
    by (auto simp: stack_swap_def split: if_splits)
  from n have "0 < length st" "n - 1 < length st" by auto
  then show "length st' = length st" "st' ! 0 = st ! (n - 1)" "st' ! (n - 1) = st ! 0"
    "\<And>i. i \<noteq> 0 \<Longrightarrow> i \<noteq> n - 1 \<Longrightarrow> st' ! i = st ! i"
    unfolding st' by (auto simp: nth_list_update)
qed

section \<open>Conversions of uint256 values\<close>

definition IsUint64 :: "u256 \<Rightarrow> bool" where
  "IsUint64 x \<longleftrightarrow> x < 2 ^ 64"

definition Uint64 :: "u256 \<Rightarrow> u64" where
  "Uint64 x = ucast x"

definition Uint64WithOverflow :: "u256 \<Rightarrow> u64 \<times> bool" where
  "Uint64WithOverflow x = (Uint64 x, \<not> IsUint64 x)"

text \<open>The conversion \<open>int64(x)\<close> of a \<open>uint64\<close>.\<close>

definition Int64 :: "u64 \<Rightarrow> int" where
  "Int64 x = sint x"

lemma IsUint64_unat: "IsUint64 x \<longleftrightarrow> unat x < 2 ^ 64"
  unfolding IsUint64_def by (simp add: word_less_nat_alt)

lemma unat_Uint64: "IsUint64 x \<Longrightarrow> unat (Uint64 x) = unat x"
  unfolding IsUint64_unat Uint64_def by (simp add: unsigned_ucast_eq take_bit_nat_eq_self)

lemma Int64_small: "unat x < 2 ^ 63 \<Longrightarrow> Int64 x = int (unat x)"
proof -
  assume "unat x < 2 ^ 63"
  then have "int (unat x) < int (2 ^ 63)" by (simp only: of_nat_less_iff)
  moreover have i: "int (unat x) = uint x" by simp
  ultimately have u: "0 \<le> uint x" "uint x < 2 ^ 63" by simp_all
  have "signed_take_bit 63 (uint x) = uint x"
    by (rule signed_take_bit_int_eq_self) (use u in linarith)+
  then show ?thesis using i by (simp add: Int64_def sint_uint)
qed

section \<open>core/vm/common.go\<close>

definition calcMemSize64WithUint :: "u256 \<Rightarrow> u64 \<Rightarrow> u64 \<times> bool" where
  "calcMemSize64WithUint off length64 =
     (if length64 = 0 then (0, False)
      else case Uint64WithOverflow off of (offset64, overflow) \<Rightarrow>
        if overflow then (0, True)
        else let val = offset64 + length64 in (val, val < offset64))"

definition calcMemSize64 :: "u256 \<Rightarrow> u256 \<Rightarrow> u64 \<times> bool" where
  "calcMemSize64 off l = (if \<not> IsUint64 l then (0, True) else calcMemSize64WithUint off (Uint64 l))"

definition getData :: "bytes \<Rightarrow> u64 \<Rightarrow> u64 \<Rightarrow> bytes go" where
  "getData d start sz =
     (let len = len64 d;
          start = (if start > len then len else start);
          end = start + sz;
          end = (if end > len then len else end)
      in go_bind (slice d (unat start) (unat end)) (\<lambda>part. Ret (RightPadBytes part (unat sz))))"

definition toWordSize :: "u64 \<Rightarrow> u64" where
  "toWordSize sz = (if sz > 0xffffffffffffffff - 31 then 0xffffffffffffffff div 32 + 1
                      else (sz + 31) div 32)"

definition allZero :: "bytes \<Rightarrow> bool" where
  "allZero b \<longleftrightarrow> list_all (\<lambda>x. x = 0) b"

section \<open>core/vm/memory.go\<close>

record memory =
  mem_store :: bytes
  lastGasCost :: u64

definition NewMemory :: memory where
  "NewMemory = \<lparr>mem_store = [], lastGasCost = 0\<rparr>"

definition mem_Set :: "memory \<Rightarrow> u64 \<Rightarrow> u64 \<Rightarrow> bytes \<Rightarrow> memory go" where
  "mem_Set m offset sz val =
     (if sz > 0 then
        if offset + sz > len64 (mem_store m) then Panic InvalidMemory
        else if offset > offset + sz then Panic SliceOutOfRange
        else Ret (m\<lparr>mem_store := copy_at (mem_store m) (unat offset) (take (unat sz) val)\<rparr>)
      else Ret m)"

definition mem_Set32 :: "memory \<Rightarrow> u64 \<Rightarrow> u256 \<Rightarrow> memory go" where
  "mem_Set32 m offset val =
     (if offset + 32 > len64 (mem_store m) then Panic InvalidMemory
      else if offset > len64 (mem_store m) then Panic SliceOutOfRange
      else Ret (m\<lparr>mem_store := copy_at (mem_store m) (unat offset) (Bytes32 val)\<rparr>))"

definition mem_Set8 :: "memory \<Rightarrow> u64 \<Rightarrow> u8 \<Rightarrow> memory go" where
  "mem_Set8 m offset val =
     (if offset < len64 (mem_store m)
      then Ret (m\<lparr>mem_store := (mem_store m)[unat offset := val]\<rparr>)
      else Panic IndexOutOfRange)"

definition mem_Len :: "memory \<Rightarrow> nat" where
  "mem_Len m = length (mem_store m)"

definition mem_Resize :: "memory \<Rightarrow> u64 \<Rightarrow> memory" where
  "mem_Resize m sz =
     (if len64 (mem_store m) < sz
      then m\<lparr>mem_store := mem_store m @ replicate (unat (sz - len64 (mem_store m))) 0\<rparr>
      else m)"

definition mem_GetPtr :: "memory \<Rightarrow> int \<Rightarrow> int \<Rightarrow> bytes go" where
  "mem_GetPtr m offset sz =
     (if sz = 0 then Ret []
      else if int (mem_Len m) > offset then
        (if 0 \<le> offset \<and> 0 \<le> sz then slice (mem_store m) (nat offset) (nat (offset + sz))
         else Panic SliceOutOfRange)
      else Ret [])"

definition mem_GetCopy :: "memory \<Rightarrow> int \<Rightarrow> int \<Rightarrow> bytes go" where
  "mem_GetCopy m offset sz =
     (if sz = 0 then Ret []
      else if int (mem_Len m) > offset then
        (if 0 \<le> offset \<and> 0 \<le> sz
         then go_bind (slice (mem_store m) (nat offset) (nat (offset + sz)))
                (\<lambda>src. Ret (copy_at (replicate (nat sz) 0) 0 src))
         else Panic SliceOutOfRange)
      else Ret [])"

definition mem_Copy :: "memory \<Rightarrow> u64 \<Rightarrow> u64 \<Rightarrow> u64 \<Rightarrow> memory go" where
  "mem_Copy m dst src len =
     (if len = 0 then Ret m
      else if dst > len64 (mem_store m) then Panic SliceOutOfRange
      else go_bind (slice (mem_store m) (unat src) (unat (src + len)))
             (\<lambda>part. Ret (m\<lparr>mem_store := copy_at (mem_store m) (unat dst) part\<rparr>)))"

section \<open>core/vm/memory_table.go\<close>

definition mem_size2 :: "stack \<Rightarrow> nat \<Rightarrow> nat \<Rightarrow> (u64 \<times> bool) go" where
  "mem_size2 st i j = go_bind (Back st i) (\<lambda>off. go_bind (Back st j) (\<lambda>l. Ret (calcMemSize64 off l)))"

definition memoryKeccak256 :: "stack \<Rightarrow> (u64 \<times> bool) go" where
  "memoryKeccak256 st = mem_size2 st 0 1"
definition memoryCallDataCopy :: "stack \<Rightarrow> (u64 \<times> bool) go" where
  "memoryCallDataCopy st = mem_size2 st 0 2"
definition memoryReturnDataCopy :: "stack \<Rightarrow> (u64 \<times> bool) go" where
  "memoryReturnDataCopy st = mem_size2 st 0 2"
definition memoryCodeCopy :: "stack \<Rightarrow> (u64 \<times> bool) go" where
  "memoryCodeCopy st = mem_size2 st 0 2"
definition memoryExtCodeCopy :: "stack \<Rightarrow> (u64 \<times> bool) go" where
  "memoryExtCodeCopy st = mem_size2 st 1 3"
definition memoryMLoad :: "stack \<Rightarrow> (u64 \<times> bool) go" where
  "memoryMLoad st = go_bind (Back st 0) (\<lambda>off. Ret (calcMemSize64WithUint off 32))"
definition memoryMStore8 :: "stack \<Rightarrow> (u64 \<times> bool) go" where
  "memoryMStore8 st = go_bind (Back st 0) (\<lambda>off. Ret (calcMemSize64WithUint off 1))"
definition memoryMStore :: "stack \<Rightarrow> (u64 \<times> bool) go" where
  "memoryMStore st = go_bind (Back st 0) (\<lambda>off. Ret (calcMemSize64WithUint off 32))"
definition memoryMcopy :: "stack \<Rightarrow> (u64 \<times> bool) go" where
  "memoryMcopy st =
     go_bind (Back st 0) (\<lambda>dst. go_bind (Back st 1) (\<lambda>src. go_bind (Back st 2) (\<lambda>l.
       let mStart = (if src > dst then src else dst) in Ret (calcMemSize64 mStart l))))"
definition memoryCreate :: "stack \<Rightarrow> (u64 \<times> bool) go" where
  "memoryCreate st = mem_size2 st 1 2"
definition memoryCreate2 :: "stack \<Rightarrow> (u64 \<times> bool) go" where
  "memoryCreate2 st = mem_size2 st 1 2"

text \<open>The larger of the output and the input region of a call.\<close>

definition mem_size_max :: "stack \<Rightarrow> nat \<Rightarrow> nat \<Rightarrow> nat \<Rightarrow> nat \<Rightarrow> (u64 \<times> bool) go" where
  "mem_size_max st i j k l =
     go_bind (mem_size2 st i j) (\<lambda>(x, overflow).
       if overflow then Ret (0, True)
       else go_bind (mem_size2 st k l) (\<lambda>(y, overflow).
         if overflow then Ret (0, True)
         else if x > y then Ret (x, False) else Ret (y, False)))"

definition memoryCall :: "stack \<Rightarrow> (u64 \<times> bool) go" where
  "memoryCall st = mem_size_max st 5 6 3 4"
definition memoryDelegateCall :: "stack \<Rightarrow> (u64 \<times> bool) go" where
  "memoryDelegateCall st = mem_size_max st 4 5 2 3"
definition memoryStaticCall :: "stack \<Rightarrow> (u64 \<times> bool) go" where
  "memoryStaticCall st = mem_size_max st 4 5 2 3"
definition memoryReturn :: "stack \<Rightarrow> (u64 \<times> bool) go" where
  "memoryReturn st = mem_size2 st 0 1"
definition memoryRevert :: "stack \<Rightarrow> (u64 \<times> bool) go" where
  "memoryRevert st = mem_size2 st 0 1"
definition memoryLog :: "stack \<Rightarrow> (u64 \<times> bool) go" where
  "memoryLog st = mem_size2 st 0 1"

section \<open>Sizes\<close>

lemma toWordSize_ceil: "unat (toWordSize s) = (unat s + 31) div 32"
proof (cases "s > 0xffffffffffffffff - 31")
  case True
  then have "unat s > 18446744073709551584" by (simp add: word_less_nat_alt)
  moreover have "unat s < 18446744073709551616" by (rule u64_bound)
  ultimately have "(unat s + 31) div 32 = 576460752303423488" by arith
  with True show ?thesis by (simp add: toWordSize_def)
next
  case False
  then have "unat s + 31 < 18446744073709551616" by (simp add: word_less_nat_alt)
  then have "unat (s + 31) = unat s + 31" by (simp add: unat_word_ariths)
  with False show ?thesis by (simp add: toWordSize_def unat_div)
qed

text \<open>
  The size of a memory region: no overflow flag means the exact sum of offset and length (0 when
  the length is 0), and the flag is set exactly when the operands or the sum exceed 64 bits.
\<close>

lemma calcMemSize64WithUint_spec:
  "calcMemSize64WithUint off l = (v, False) \<Longrightarrow>
     unat v = (if l = 0 then 0 else unat off + unat l)"
  "snd (calcMemSize64WithUint off l) \<longleftrightarrow> l \<noteq> 0 \<and> unat off + unat l \<ge> 2 ^ 64"
proof -
  have wrap: "Uint64 off + l < Uint64 off \<longleftrightarrow> unat off + unat l \<ge> 2 ^ 64" if "IsUint64 off"
  proof -
    have "unat (Uint64 off) = unat off" using that by (rule unat_Uint64)
    moreover have "unat (Uint64 off + l) = (unat (Uint64 off) + unat l) mod 2 ^ 64"
      by (simp add: unat_word_ariths)
    ultimately show ?thesis by (simp only: word_add_wraps) simp
  qed
  have big: "unat off + unat l \<ge> 2 ^ 64" if "\<not> IsUint64 off"
    using that by (simp add: IsUint64_unat)
  show "snd (calcMemSize64WithUint off l) \<longleftrightarrow> l \<noteq> 0 \<and> unat off + unat l \<ge> 2 ^ 64"
    using wrap big by (auto simp: calcMemSize64WithUint_def Uint64WithOverflow_def Let_def)
  assume "calcMemSize64WithUint off l = (v, False)"
  then show "unat v = (if l = 0 then 0 else unat off + unat l)"
    using wrap unat_Uint64 [of off]
    by (auto simp: calcMemSize64WithUint_def Uint64WithOverflow_def Let_def unat_word_ariths
        split: if_splits)
qed

lemma calcMemSize64_spec:
  "calcMemSize64 off l = (v, False) \<Longrightarrow> unat v = (if l = 0 then 0 else unat off + unat l)"
  "snd (calcMemSize64 off l) \<longleftrightarrow> unat l \<ge> 2 ^ 64 \<or> (l \<noteq> 0 \<and> unat off + unat l \<ge> 2 ^ 64)"
proof -
  have z: "Uint64 l = 0 \<longleftrightarrow> l = 0" if "IsUint64 l"
    using unat_Uint64 [OF that] by (metis unat_eq_zero)
  show "snd (calcMemSize64 off l) \<longleftrightarrow> unat l \<ge> 2 ^ 64 \<or> (l \<noteq> 0 \<and> unat off + unat l \<ge> 2 ^ 64)"
    using calcMemSize64WithUint_spec(2) [of off "Uint64 l"] z unat_Uint64 [of l]
    by (auto simp: calcMemSize64_def IsUint64_unat)
  assume a: "calcMemSize64 off l = (v, False)"
  then have "IsUint64 l" by (auto simp: calcMemSize64_def split: if_splits)
  with a show "unat v = (if l = 0 then 0 else unat off + unat l)"
    using calcMemSize64WithUint_spec(1) [of off "Uint64 l" v] z unat_Uint64 [of l]
    by (auto simp: calcMemSize64_def)
qed

lemma calcMemSize64_zero [simp]: "calcMemSize64 off 0 = (0, False)"
  by (simp add: calcMemSize64_def calcMemSize64WithUint_def IsUint64_def Uint64_def)

lemma word_less_eq_len64: "length xs < 2 ^ 64 \<Longrightarrow> w \<le> len64 xs \<longleftrightarrow> unat w \<le> length xs"
  by (simp add: word_le_nat_alt unat_len64)

lemma word_less_len64: "length xs < 2 ^ 64 \<Longrightarrow> w < len64 xs \<longleftrightarrow> unat w < length xs"
  by (simp add: word_less_nat_alt unat_len64)

lemma getData_spec:
  assumes "length d < 2 ^ 63" "unat sz < 2 ^ 63"
  shows "getData d start sz = Ret (take (unat sz) (drop (unat start) d @ replicate (unat sz) 0))"
proof -
  define n where "n = min (unat start) (length d)"
  have l: "unat (len64 d) = length d" by (rule unat_len64) (use assms in simp)
  define s' where "s' = (if start > len64 d then len64 d else start)"
  have s': "unat s' = n"
    by (auto simp: s'_def n_def word_less_nat_alt l min_def)
  have "unat s' + unat sz < 2 ^ 64" using s' assms by (auto simp: n_def min_def)
  then have e: "unat (s' + sz) = n + unat sz" by (simp add: unat_add_no_overflow s')
  define e' where "e' = (if s' + sz > len64 d then len64 d else s' + sz)"
  have e': "unat e' = min (n + unat sz) (length d)"
    by (auto simp: e'_def word_less_nat_alt l e min_def)
  have "getData d start sz = go_bind (slice d (unat s') (unat e')) (\<lambda>part. Ret (RightPadBytes part (unat sz)))"
    by (simp add: getData_def Let_def s'_def e'_def)
  also have "\<dots> = Ret (RightPadBytes (take (min (n + unat sz) (length d) - n) (drop n d)) (unat sz))"
    unfolding s' e' by (simp add: slice_def n_def)
  also have "RightPadBytes (take (min (n + unat sz) (length d) - n) (drop n d)) (unat sz)
      = take (unat sz) (drop (unat start) d @ replicate (unat sz) 0)"
    by (auto simp: RightPadBytes_def n_def min_def)
  finally show ?thesis .
qed

lemma mem_Len_Resize [simp]:
  assumes "mem_Len m < 2 ^ 64"
  shows "mem_Len (mem_Resize m sz) = max (mem_Len m) (unat sz)"
proof -
  have l: "unat (len64 (mem_store m)) = mem_Len m"
    unfolding mem_Len_def by (rule unat_len64) (use assms in \<open>simp add: mem_Len_def\<close>)
  show ?thesis
    by (auto simp: mem_Resize_def mem_Len_def word_less_nat_alt word_le_nat_alt unat_sub_le
        l [unfolded mem_Len_def] max_def)
qed

lemma mem_Resize_old: "i < mem_Len m \<Longrightarrow> mem_store (mem_Resize m sz) ! i = mem_store m ! i"
  by (auto simp: mem_Resize_def mem_Len_def nth_append)

lemma mem_Resize_zero:
  "mem_Len m \<le> i \<Longrightarrow> i < mem_Len (mem_Resize m sz) \<Longrightarrow> mem_store (mem_Resize m sz) ! i = 0"
  by (auto simp: mem_Resize_def mem_Len_def nth_append split: if_splits)

lemma mem_GetPtr_in_range:
  assumes "unat off + unat sz \<le> mem_Len m" "mem_Len m < 2 ^ 63"
  shows "mem_GetPtr m (Int64 off) (Int64 sz) = Ret (take (unat sz) (drop (unat off) (mem_store m)))"
proof -
  have "Int64 off = int (unat off)" "Int64 sz = int (unat sz)"
    using assms by (simp_all add: Int64_small del: of_nat_unat)
  then show ?thesis using assms
    by (auto simp: mem_GetPtr_def mem_Len_def slice_def nat_add_distrib simp del: of_nat_unat)
qed

lemma mem_GetCopy_in_range:
  assumes "unat off + unat sz \<le> mem_Len m" "mem_Len m < 2 ^ 63"
  shows "mem_GetCopy m (Int64 off) (Int64 sz) = Ret (take (unat sz) (drop (unat off) (mem_store m)))"
proof -
  have "Int64 off = int (unat off)" "Int64 sz = int (unat sz)"
    using assms by (simp_all add: Int64_small del: of_nat_unat)
  then show ?thesis using assms
    by (auto simp: mem_GetCopy_def mem_Len_def slice_def nat_add_distrib copy_at_def simp del: of_nat_unat)
qed

lemma mem_Set_in_range:
  assumes "unat off + unat sz \<le> mem_Len m" "mem_Len m < 2 ^ 63"
  shows "mem_Set m off sz val =
    Ret (m\<lparr>mem_store := copy_at (mem_store m) (unat off) (take (unat sz) val)\<rparr>)"
proof -
  have l: "unat (len64 (mem_store m)) = mem_Len m"
    unfolding mem_Len_def by (rule unat_len64) (use assms in \<open>simp add: mem_Len_def\<close>)
  have "unat (off + sz) = unat off + unat sz"
    by (rule unat_add_no_overflow) (use assms in simp)
  then show ?thesis using assms l
    by (cases "sz = 0") (auto simp: mem_Set_def word_less_nat_alt copy_at_def mem_Len_def unat_gt_0)
qed

lemma mem_Set32_in_range:
  assumes "unat off + 32 \<le> mem_Len m" "mem_Len m < 2 ^ 63"
  shows "mem_Set32 m off val = Ret (m\<lparr>mem_store := copy_at (mem_store m) (unat off) (Bytes32 val)\<rparr>)"
proof -
  have l: "unat (len64 (mem_store m)) = mem_Len m"
    unfolding mem_Len_def by (rule unat_len64) (use assms in \<open>simp add: mem_Len_def\<close>)
  have "unat (off + 32) = unat off + unat (32 :: u64)"
    by (rule unat_add_no_overflow) (use assms in simp)
  then show ?thesis using assms l
    by (auto simp: mem_Set32_def word_less_nat_alt)
qed

lemma take_drop_copy_at:
  "off + length src \<le> length dst \<Longrightarrow> take (length src) (drop off (copy_at dst off src)) = src"
  by (simp add: copy_at_def)

end
