(* ===== verification/Code_Analysis.thy ===== *)
theory Code_Analysis imports Stack_Memory begin

text \<open>
  Jump-destination analysis, \<open>core/vm/analysis.go\<close>. \<open>codeBitmap\<close> walks the code once and
  packs one bit per code byte into a byte slice: the bit is 0 for an opcode and 1 for push data.
  The setters write whole bytes where they can (and overwrite, not only OR, the bytes behind the
  first one), which is right only because the bits from the current position on are still clear.
  The theory proves the packed bitmap equal to the plain byte-by-byte classification
  \<open>push_mask\<close>, and that no index of the bitmap is out of range.

  Positions are natural numbers: the code is far shorter than \<open>2 ^ 64\<close> bytes.
\<close>

section \<open>core/vm/analysis.go\<close>

type_synonym bitvec = bytes

definition update_go :: "bytes \<Rightarrow> nat \<Rightarrow> (u8 \<Rightarrow> u8) \<Rightarrow> bytes go" where
  "update_go bits i f = (if i < length bits then Ret (bits[i := f (bits ! i)]) else Panic IndexOutOfRange)"

definition set1 :: "nat \<Rightarrow> bitvec \<Rightarrow> bitvec go" where
  "set1 pos bits = update_go bits (pos div 8) (\<lambda>b. b OR push_bit (pos mod 8) 1)"

definition setN :: "u16 \<Rightarrow> nat \<Rightarrow> bitvec \<Rightarrow> bitvec go" where
  "setN flag pos bits =
     (let a = push_bit (pos mod 8) flag
      in go_bind (update_go bits (pos div 8) (\<lambda>b. b OR ucast a)) (\<lambda>bits.
           let b = ucast (drop_bit 8 a) :: u8
           in if b \<noteq> 0 then update_go bits (pos div 8 + 1) (\<lambda>_. b) else Ret bits))"

definition set8 :: "nat \<Rightarrow> bitvec \<Rightarrow> bitvec go" where
  "set8 pos bits =
     (let a = push_bit (pos mod 8) 0xFF :: u8
      in go_bind (update_go bits (pos div 8) (\<lambda>b. b OR a)) (\<lambda>bits.
           update_go bits (pos div 8 + 1) (\<lambda>_. NOT a)))"

definition set16 :: "nat \<Rightarrow> bitvec \<Rightarrow> bitvec go" where
  "set16 pos bits =
     (let a = push_bit (pos mod 8) 0xFF :: u8
      in go_bind (update_go bits (pos div 8) (\<lambda>b. b OR a)) (\<lambda>bits.
         go_bind (update_go bits (pos div 8 + 1) (\<lambda>_. 0xFF)) (\<lambda>bits.
           update_go bits (pos div 8 + 2) (\<lambda>_. NOT a))))"

definition codeSegment :: "bitvec \<Rightarrow> nat \<Rightarrow> bool go" where
  "codeSegment bits pos =
     go_bind (nth_go bits (pos div 8)) (\<lambda>b. Ret (drop_bit (pos mod 8) b AND 1 = 0))"

text \<open>The two inner loops and the switch on the remaining 1 to 7 bits.\<close>

fun mark16 :: "nat \<Rightarrow> nat \<Rightarrow> bitvec \<Rightarrow> (nat \<times> nat \<times> bitvec) go" where
  "mark16 numbits pc bits =
     (if numbits \<ge> 16 then go_bind (set16 pc bits) (mark16 (numbits - 16) (pc + 16))
      else Ret (numbits, pc, bits))"

fun mark8 :: "nat \<Rightarrow> nat \<Rightarrow> bitvec \<Rightarrow> (nat \<times> nat \<times> bitvec) go" where
  "mark8 numbits pc bits =
     (if numbits \<ge> 8 then go_bind (set8 pc bits) (mark8 (numbits - 8) (pc + 8))
      else Ret (numbits, pc, bits))"

definition mark_rest :: "nat \<Rightarrow> nat \<Rightarrow> bitvec \<Rightarrow> (nat \<times> bitvec) go" where
  "mark_rest numbits pc bits =
     (let m = (\<lambda>r n. go_bind r (\<lambda>bits. Ret (pc + n, bits)))
      in if numbits = 1 then m (set1 pc bits) 1
         else if numbits = 2 then m (setN 0b11 pc bits) 2
         else if numbits = 3 then m (setN 0b111 pc bits) 3
         else if numbits = 4 then m (setN 0b1111 pc bits) 4
         else if numbits = 5 then m (setN 0b11111 pc bits) 5
         else if numbits = 6 then m (setN 0b111111 pc bits) 6
         else if numbits = 7 then m (setN 0b1111111 pc bits) 7
         else Ret (pc, bits))"

definition mark_push :: "nat \<Rightarrow> nat \<Rightarrow> bitvec \<Rightarrow> (nat \<times> bitvec) go" where
  "mark_push numbits pc bits =
     go_bind (if numbits \<ge> 8
              then go_bind (mark16 numbits pc bits) (\<lambda>(numbits, pc, bits). mark8 numbits pc bits)
              else Ret (numbits, pc, bits))
       (\<lambda>(numbits, pc, bits). mark_rest numbits pc bits)"

definition is_push_op :: "u8 \<Rightarrow> bool" where
  "is_push_op op \<longleftrightarrow> \<not> (sint op < sint OP_PUSH1)"

declare mark16.simps [simp del] mark8.simps [simp del]

lemma mark16_pc: "mark16 n pc bits = Ret (n', pc', bits') \<Longrightarrow> pc' = pc + (n - n') \<and> n' \<le> n \<and> n' < 16"
proof (induction n pc bits rule: mark16.induct)
  case (1 n pc bits)
  then show ?case by (cases "n \<ge> 16") (fastforce simp: mark16.simps [of n pc bits])+
qed

lemma mark8_pc: "mark8 n pc bits = Ret (n', pc', bits') \<Longrightarrow> pc' = pc + (n - n') \<and> n' \<le> n \<and> n' < 8"
proof (induction n pc bits rule: mark8.induct)
  case (1 n pc bits)
  then show ?case by (cases "n \<ge> 8") (fastforce simp: mark8.simps [of n pc bits])+
qed

lemma mark_rest_pc: "mark_rest n pc bits = Ret (pc', bits') \<Longrightarrow> pc' = pc + (if n < 8 then n else 0)"
  by (auto simp: mark_rest_def Let_def split: if_splits)

lemma mark_push_pc: "mark_push n pc bits = Ret (pc', bits') \<Longrightarrow> pc' = pc + n"
  by (fastforce simp: mark_push_def dest!: mark16_pc mark8_pc mark_rest_pc split: if_splits)

function codeBitmapInternal :: "bytes \<Rightarrow> nat \<Rightarrow> bitvec \<Rightarrow> bitvec go" where
  "codeBitmapInternal code pc bits =
     (if pc < length code then
        let op = code ! pc; pc = pc + 1
        in if \<not> is_push_op op then codeBitmapInternal code pc bits
           else go_bind (mark_push (unat (op - OP_PUSH1 + 1)) pc bits)
                  (\<lambda>(pc, bits). codeBitmapInternal code pc bits)
      else Ret bits)"
  by pat_completeness auto
termination
  by (relation "measure (\<lambda>(code, pc, bits). length code - pc)") (auto dest!: mark_push_pc)

definition codeBitmap :: "bytes \<Rightarrow> bitvec go" where
  "codeBitmap code = codeBitmapInternal code 0 (replicate (length code div 8 + 1 + 4) 0)"

declare codeBitmapInternal.simps [simp del]

text \<open>
  The specification: which bytes of the code are push data. \<open>push_mask r code\<close> classifies the
  code when the first \<open>r\<close> bytes still belong to an earlier push.
\<close>

fun push_mask :: "nat \<Rightarrow> bytes \<Rightarrow> bool list" where
  "push_mask r [] = []"
| "push_mask (Suc r) (b # bs) = True # push_mask r bs"
| "push_mask 0 (b # bs) = False # push_mask (if OP_PUSH1 \<le> b \<and> b \<le> OP_PUSH32 then unat b - 95 else 0) bs"

section \<open>What the setters do, bit by bit\<close>

definition bit_at :: "bitvec \<Rightarrow> nat \<Rightarrow> bool" where
  "bit_at bits i \<longleftrightarrow> i div 8 < length bits \<and> bit (bits ! (i div 8)) (i mod 8)"

text \<open>\<open>marks m pos n bits\<close>: the setter \<open>m\<close> succeeds and sets exactly the \<open>n\<close> bits from \<open>pos\<close> on.\<close>

definition marks :: "bitvec go \<Rightarrow> nat \<Rightarrow> nat \<Rightarrow> bitvec \<Rightarrow> bool" where
  "marks m pos n bits \<longleftrightarrow> (\<exists>bits'. m = Ret bits' \<and> length bits' = length bits \<and>
     (\<forall>i. bit_at bits' i \<longleftrightarrow> bit_at bits i \<or> pos \<le> i \<and> i < pos + n))"

definition clear_from :: "nat \<Rightarrow> bitvec \<Rightarrow> bool" where
  "clear_from pos bits \<longleftrightarrow> (\<forall>i\<ge>pos. \<not> bit_at bits i)"

lemma bit_int_255 [simp]: "bit (255 :: int) j \<longleftrightarrow> j < 8"
proof -
  have "(255 :: int) = mask 8" by (simp add: mask_eq_exp_minus_1)
  then show ?thesis by (simp only: bit_mask_iff) auto
qed

lemma clear_byte:
  assumes "clear_from pos bits" "pos div 8 < k" "k < length bits" "j < 8"
  shows "\<not> bit (bits ! k) j"
proof -
  have "pos \<le> 8 * k + j" using assms by (simp add: div_less_iff_less_mult)
  moreover have "(8 * k + j) div 8 = k" "(8 * k + j) mod 8 = j" using assms by auto
  ultimately show ?thesis using assms unfolding clear_from_def bit_at_def by metis
qed

lemma marks_intro:
  assumes "m = Ret bits'"
    and "\<And>k j. k < length bits \<Longrightarrow> j < 8 \<Longrightarrow>
      bit (bits' ! k) j \<longleftrightarrow> bit (bits ! k) j \<or> pos \<le> 8 * k + j \<and> 8 * k + j < pos + n"
    and "length bits' = length bits"
    and "(pos + n + 7) div 8 \<le> length bits"
  shows "marks m pos n bits"
proof -
  have "bit_at bits' i \<longleftrightarrow> bit_at bits i \<or> pos \<le> i \<and> i < pos + n" for i
  proof (cases "i div 8 < length bits")
    case True
    with assms(2) [OF True, of "i mod 8"] assms(3) show ?thesis
      by (auto simp: bit_at_def)
  next
    case False
    then have "8 * length bits \<le> i" by (simp add: not_less less_eq_div_iff_mult_less_eq mult.commute)
    moreover have "pos + n \<le> 8 * length bits" using assms(4) by arith
    ultimately show ?thesis using False assms(3) by (auto simp: bit_at_def)
  qed
  with assms(1,3) show ?thesis by (auto simp: marks_def)
qed

lemma set8_marks:
  assumes "clear_from pos bits" "pos div 8 + 1 < length bits"
  shows "marks (set8 pos bits) pos 8 bits"
proof -
  define s k0 where "s = pos mod 8" and "k0 = pos div 8"
  have pos: "pos = 8 * k0 + s" and s: "s < 8" by (auto simp: s_def k0_def)
  define bits' where "bits' = bits[k0 := bits ! k0 OR push_bit s 0xFF, k0 + 1 := NOT (push_bit s 0xFF)]"
  have "set8 pos bits = Ret bits'"
    using assms(2) by (simp add: set8_def update_go_def Let_def bits'_def s_def k0_def)
  moreover have "bit (bits' ! k) j \<longleftrightarrow> bit (bits ! k) j \<or> pos \<le> 8 * k + j \<and> 8 * k + j < pos + 8"
    if "k < length bits" "j < 8" for k j
  proof -
    consider "k = k0" | "k = k0 + 1" | "k < k0" | "k > k0 + 1" by linarith
    then show ?thesis
    proof cases
      case 1
      then show ?thesis using that s by (auto simp: bits'_def pos bit_simps)
    next
      case 2
      then have "\<not> bit (bits ! k) j"
        using clear_byte [OF assms(1), of k j] that by (simp add: k0_def)
      with 2 show ?thesis using that s by (auto simp: bits'_def pos bit_simps)
    next
      case 3
      then show ?thesis using that s by (auto simp: bits'_def pos)
    next
      case 4
      then show ?thesis using that s by (auto simp: bits'_def pos)
    qed
  qed
  ultimately show ?thesis
    by (rule marks_intro [where bits' = bits']) (use assms(2) in \<open>auto simp: bits'_def\<close>)
qed

lemma set16_marks:
  assumes "clear_from pos bits" "pos div 8 + 2 < length bits"
  shows "marks (set16 pos bits) pos 16 bits"
proof -
  define s k0 where "s = pos mod 8" and "k0 = pos div 8"
  have pos: "pos = 8 * k0 + s" and s: "s < 8" by (auto simp: s_def k0_def)
  define bits' where "bits' = bits[k0 := bits ! k0 OR push_bit s 0xFF, k0 + 1 := 0xFF,
    k0 + 2 := NOT (push_bit s 0xFF)]"
  have "set16 pos bits = Ret bits'"
    using assms(2) by (simp add: set16_def update_go_def Let_def bits'_def s_def k0_def)
  moreover have "bit (bits' ! k) j \<longleftrightarrow> bit (bits ! k) j \<or> pos \<le> 8 * k + j \<and> 8 * k + j < pos + 16"
    if "k < length bits" "j < 8" for k j
  proof -
    consider "k = k0" | "k = k0 + 1" | "k = k0 + 2" | "k < k0" | "k > k0 + 2" by linarith
    then show ?thesis
    proof cases
      case 1
      then show ?thesis using that s by (auto simp: bits'_def pos bit_simps)
    next
      case 2
      then have "\<not> bit (bits ! k) j"
        using clear_byte [OF assms(1), of k j] that by (simp add: k0_def)
      with 2 show ?thesis using that s by (auto simp: bits'_def pos)
    next
      case 3
      then have "\<not> bit (bits ! k) j"
        using clear_byte [OF assms(1), of k j] that by (simp add: k0_def)
      with 3 show ?thesis using that s by (auto simp: bits'_def pos bit_simps)
    qed (use that s in \<open>auto simp: bits'_def pos\<close>)
  qed
  ultimately show ?thesis
    by (rule marks_intro [where bits' = bits']) (use assms(2) in \<open>auto simp: bits'_def\<close>)
qed

lemma set1_marks:
  assumes "pos div 8 < length bits"
  shows "marks (set1 pos bits) pos 1 bits"
proof -
  define s k0 where "s = pos mod 8" and "k0 = pos div 8"
  have pos: "pos = 8 * k0 + s" and s: "s < 8" by (auto simp: s_def k0_def)
  define bits' where "bits' = bits[k0 := bits ! k0 OR push_bit s 1]"
  have "set1 pos bits = Ret bits'"
    using assms by (simp add: set1_def update_go_def bits'_def s_def k0_def)
  moreover have "bit (bits' ! k) j \<longleftrightarrow> bit (bits ! k) j \<or> pos \<le> 8 * k + j \<and> 8 * k + j < pos + 1"
    if "k < length bits" "j < 8" for k j
    using that s by (cases "k = k0") (auto simp: bits'_def pos bit_simps)
  ultimately show ?thesis
    by (rule marks_intro [where bits' = bits'])
      (use assms in \<open>auto simp: bits'_def less_eq_div_iff_mult_less_eq\<close>)
qed

lemma setN_marks:
  assumes "clear_from pos bits" "(pos + n) div 8 < length bits" "n \<le> 8" "flag = mask n"
  shows "marks (setN flag pos bits) pos n bits"
proof -
  define s k0 where "s = pos mod 8" and "k0 = pos div 8"
  have pos: "pos = 8 * k0 + s" and s: "s < 8" by (auto simp: s_def k0_def)
  define a where "a = push_bit s flag"
  define b where "b = (ucast (drop_bit 8 a) :: u8)"
  have bit_lo: "bit (ucast a :: u8) j \<longleftrightarrow> s \<le> j \<and> j < s + n" if "j < 8" for j
    using that s assms(3) by (auto simp: a_def assms(4) bit_simps)
  have bit_hi: "bit b j \<longleftrightarrow> 8 + j < s + n" if "j < 8" for j
    using that s assms(3) by (auto simp: a_def b_def assms(4) bit_simps)
  have l0: "k0 < length bits"
    using assms(2) div_le_mono [of pos "pos + n" 8] by (simp add: k0_def)
  have hb: "k0 + 1 < length bits" if "b \<noteq> 0"
  proof -
    obtain j where "bit b j" using \<open>b \<noteq> 0\<close> by (metis bit_eqI bit_0_eq bot_apply bot_bool_def)
    moreover from this have "j < 8" using bit_imp_le_length [of b j] by simp
    ultimately have "8 + j < s + n" using bit_hi by simp
    then have "8 * (k0 + 1) \<le> pos + n" using pos by simp
    then have "k0 + 1 \<le> (pos + n) div 8" by (simp add: less_eq_div_iff_mult_less_eq mult.commute)
    with assms(2) show ?thesis by simp
  qed
  define bits' where "bits' = (let bs = bits[k0 := bits ! k0 OR ucast a] in
    if b \<noteq> 0 then bs[k0 + 1 := b] else bs)"
  have "setN flag pos bits = Ret bits'"
    using l0 hb
    unfolding setN_def s_def [symmetric] k0_def [symmetric] a_def [symmetric] Let_def b_def [symmetric] update_go_def bits'_def
    by auto
  moreover have "bit (bits' ! k) j \<longleftrightarrow> bit (bits ! k) j \<or> pos \<le> 8 * k + j \<and> 8 * k + j < pos + n"
    if "k < length bits" "j < 8" for k j
  proof -
    consider "k = k0" | "k = k0 + 1" | "k < k0" | "k > k0 + 1" by linarith
    then show ?thesis
    proof cases
      case 1
      then show ?thesis using that s
        by (auto simp: bits'_def pos bit_or_iff bit_lo Let_def)
    next
      case 2
      then have c: "\<not> bit (bits ! k) j"
        using clear_byte [OF assms(1), of k j] that by (simp add: k0_def)
      have "bit (bits' ! k) j \<longleftrightarrow> bit b j"
        using 2 that c by (auto simp: bits'_def Let_def)
      with bit_hi [OF that(2)] show ?thesis using 2 that s c assms(3) by (auto simp: pos)
    qed (use that s assms(3) in \<open>auto simp: bits'_def pos Let_def\<close>)
  qed
  ultimately show ?thesis
    by (rule marks_intro [where bits' = bits'])
      (use assms(2) in \<open>simp_all add: bits'_def Let_def, arith?\<close>)
qed

lemma marks_clear: "marks (Ret bits') pos n bits \<Longrightarrow> clear_from pos bits \<Longrightarrow> clear_from (pos + n) bits'"
  by (auto simp: marks_def clear_from_def)

lemma marks_RetD: "marks m pos n bits \<Longrightarrow> \<exists>bits'. m = Ret bits' \<and> marks (Ret bits') pos n bits"
  by (auto simp: marks_def)

lemma marks_trans:
  "marks (Ret bits') pos n bits \<Longrightarrow> marks m (pos + n) k bits' \<Longrightarrow> marks m pos (n + k) bits"
  by (fastforce simp: marks_def)

section \<open>The bitmap is the classification\<close>

lemma length_push_mask [simp]: "length (push_mask r bs) = length bs"
  by (induction r bs rule: push_mask.induct) auto

lemma push_mask_nth:
  "j < length bs \<Longrightarrow> push_mask r bs ! j = (if j < r then True else push_mask 0 (drop r bs) ! (j - r))"
proof (induction bs arbitrary: r j)
  case (Cons b bs)
  then show ?case by (cases r; cases j) auto
qed simp

lemma is_push_op_iff: "is_push_op op \<longleftrightarrow> OP_PUSH1 \<le> op \<and> op \<le> OP_PUSH32"
proof -
  define k where "k = uint op"
  have k: "0 \<le> k" "k < 256" using uint_bounded [of op] by (simp_all add: k_def)
  have "bit k 7 \<longleftrightarrow> 128 \<le> k" using k by (simp add: bit_iff_odd) presburger
  then have s: "sint op = (if k < 128 then k else k - 256)"
    using k by (auto simp: sint_uint k_def [symmetric] signed_take_bit_eq_take_bit_minus
        take_bit_int_eq_self)
  have "sint OP_PUSH1 = 96" by simp
  then have "is_push_op op \<longleftrightarrow> 96 \<le> k \<and> k < 128"
    using s k by (auto simp: is_push_op_def)
  also have "\<dots> \<longleftrightarrow> OP_PUSH1 \<le> op \<and> op \<le> OP_PUSH32"
    by (auto simp: word_le_def k_def)
  finally show ?thesis .
qed

lemma push_bytes:
  assumes "OP_PUSH1 \<le> op" "op \<le> OP_PUSH32"
  shows "unat (op - OP_PUSH1 + 1) = unat op - 95" "unat op - 95 \<le> 32" "1 \<le> unat op - 95"
proof -
  have u: "96 \<le> unat op" "unat op \<le> 127" using assms by (simp_all add: word_le_nat_alt)
  have "unat (op - 96) = unat op - 96" using assms by (simp add: unat_sub_le)
  then have "unat (op - OP_PUSH1 + 1) = unat op - 96 + 1"
    using u by (subst unat_add_no_overflow) auto
  then show "unat (op - OP_PUSH1 + 1) = unat op - 95" "unat op - 95 \<le> 32" "1 \<le> unat op - 95" using u by auto
qed

text \<open>\<open>steps m pc n bits\<close>: a marking loop succeeds, having marked \<open>n\<close> bits from \<open>pc\<close> on.\<close>

lemma mark16_marks:
  "clear_from pc bits \<Longrightarrow> (pc + n) div 8 < length bits \<Longrightarrow>
   \<exists>bits'. mark16 n pc bits = Ret (n mod 16, pc + (n - n mod 16), bits') \<and>
     marks (Ret bits') pc (n - n mod 16) bits"
proof (induction n pc bits rule: mark16.induct)
  case (1 n pc bits)
  show ?case
  proof (cases "n \<ge> 16")
    case True
    have "(pc + 16) div 8 \<le> (pc + n) div 8" by (rule div_le_mono) (use True in simp)
    moreover have "(pc + 16) div 8 = pc div 8 + 2" by simp
    ultimately have "marks (set16 pc bits) pc 16 bits" using 1(2,3) by (intro set16_marks) auto
    then obtain b where b: "set16 pc bits = Ret b" "marks (Ret b) pc 16 bits"
      using marks_RetD by blast
    have "clear_from (pc + 16) b" "length b = length bits"
      using marks_clear [OF b(2) 1(2)] b(2) by (auto simp: marks_def)
    with b(1) 1(1) [OF True, of b] 1(3) True obtain b' where
      b': "mark16 (n - 16) (pc + 16) b = Ret ((n - 16) mod 16, pc + 16 + (n - 16 - (n - 16) mod 16), b')"
        "marks (Ret b') (pc + 16) (n - 16 - (n - 16) mod 16) b" by auto
    have m: "(n - 16) mod 16 = n mod 16" using True by (simp add: le_mod_geq)
    have "n mod 16 \<le> n - 16" using mod_less_eq_dividend [of "n - 16" 16] m by simp
    then have n: "16 + (n - (16 + n mod 16)) = n - n mod 16"
      using True by simp
    have e: "pc + 16 + (n - 16 - n mod 16) = pc + (n - n mod 16)"
      using n True by linarith
    have e2: "16 + (n - 16 - n mod 16) = n - n mod 16" using n True by linarith
    have "mark16 n pc bits = Ret (n mod 16, pc + (n - n mod 16), b')"
      using b(1) b'(1)[unfolded m e] True by (simp add: mark16.simps [of n])
    moreover have "marks (Ret b') pc (n - n mod 16) bits"
      using marks_trans [OF b(2) b'(2)] unfolding m e2 .
    ultimately show ?thesis by blast
  next
    case False
    then show ?thesis by (auto simp: mark16.simps [of n] marks_def)
  qed
qed

lemma mark8_marks:
  "clear_from pc bits \<Longrightarrow> (pc + n) div 8 < length bits \<Longrightarrow>
   \<exists>bits'. mark8 n pc bits = Ret (n mod 8, pc + (n - n mod 8), bits') \<and>
     marks (Ret bits') pc (n - n mod 8) bits"
proof (induction n pc bits rule: mark8.induct)
  case (1 n pc bits)
  show ?case
  proof (cases "n \<ge> 8")
    case True
    have "(pc + 8) div 8 \<le> (pc + n) div 8" by (rule div_le_mono) (use True in simp)
    moreover have "(pc + 8) div 8 = pc div 8 + 1" by simp
    ultimately have "marks (set8 pc bits) pc 8 bits" using 1(2,3) by (intro set8_marks) auto
    then obtain b where b: "set8 pc bits = Ret b" "marks (Ret b) pc 8 bits"
      using marks_RetD by blast
    have "clear_from (pc + 8) b" "length b = length bits"
      using marks_clear [OF b(2) 1(2)] b(2) by (auto simp: marks_def)
    with b(1) 1(1) [OF True, of b] 1(3) True obtain b' where
      b': "mark8 (n - 8) (pc + 8) b = Ret ((n - 8) mod 8, pc + 8 + (n - 8 - (n - 8) mod 8), b')"
        "marks (Ret b') (pc + 8) (n - 8 - (n - 8) mod 8) b" by auto
    have m: "(n - 8) mod 8 = n mod 8" using True by (simp add: le_mod_geq)
    have "n mod 8 \<le> n - 8" using mod_less_eq_dividend [of "n - 8" 8] m by simp
    then have n: "8 + (n - (8 + n mod 8)) = n - n mod 8"
      using True by simp
    have e: "pc + 8 + (n - 8 - n mod 8) = pc + (n - n mod 8)"
      using n True by linarith
    have e2: "8 + (n - 8 - n mod 8) = n - n mod 8" using n True by linarith
    have "mark8 n pc bits = Ret (n mod 8, pc + (n - n mod 8), b')"
      using b(1) b'(1)[unfolded m e] True by (simp add: mark8.simps [of n])
    moreover have "marks (Ret b') pc (n - n mod 8) bits"
      using marks_trans [OF b(2) b'(2)] unfolding m e2 .
    ultimately show ?thesis by blast
  next
    case False
    then show ?thesis by (auto simp: mark8.simps [of n] marks_def)
  qed
qed

lemma mark_rest_marks:
  assumes "clear_from pc bits" "(pc + n) div 8 < length bits" "n < 8"
  shows "\<exists>bits'. mark_rest n pc bits = Ret (pc + n, bits') \<and> marks (Ret bits') pc n bits"
proof -
  have "pc div 8 \<le> (pc + n) div 8" by (simp add: div_le_mono)
  then have l: "pc div 8 < length bits" using assms(2) by simp
  have N: "\<exists>bits'. setN f pc bits = Ret bits' \<and> marks (Ret bits') pc n bits" if "f = mask n" for f
    using setN_marks [OF assms(1,2) _ that] assms(3) marks_RetD by auto
  have masks: "mask 2 = (3 :: u16)" "mask 3 = (7 :: u16)" "mask 4 = (15 :: u16)" "mask 5 = (31 :: u16)"
    "mask 6 = (63 :: u16)" "mask 7 = (127 :: u16)"
    by (simp_all add: mask_eq_exp_minus_1)
  consider "n = 0" | "n = 1" | "n \<in> {2, 3, 4, 5, 6, 7}" using assms(3) by force
  then show ?thesis
  proof cases
    case 1
    then show ?thesis by (auto simp: mark_rest_def marks_def)
  next
    case 2
    then show ?thesis using marks_RetD [OF set1_marks [of pc bits]] l
      by (auto simp: mark_rest_def Let_def)
  next
    case 3
    with N [of "mask n"] show ?thesis by (auto simp: mark_rest_def Let_def masks)
  qed
qed

lemma mark_push_marks:
  assumes "clear_from pc bits" "(pc + n) div 8 < length bits"
  shows "\<exists>bits'. mark_push n pc bits = Ret (pc + n, bits') \<and> marks (Ret bits') pc n bits"
proof (cases "n \<ge> 8")
  case True
  define n1 where "n1 = n mod 16"
  obtain b1 where b1: "mark16 n pc bits = Ret (n1, pc + (n - n1), b1)" "marks (Ret b1) pc (n - n1) bits"
    using mark16_marks [OF assms] by (auto simp: n1_def)
  have n1: "n1 \<le> n" by (simp add: n1_def)
  have c1: "clear_from (pc + (n - n1)) b1" and l1: "length b1 = length bits"
    using marks_clear [OF b1(2) assms(1)] b1(2) by (auto simp: marks_def)
  define n2 where "n2 = n1 mod 8"
  have n2: "n2 \<le> n1" "n2 < 8" by (simp_all add: n2_def)
  have "pc + (n - n1) + n1 = pc + n" using n1 by simp
  with mark8_marks [OF c1, of n1] assms(2) l1 obtain b2 where
    b2: "mark8 n1 (pc + (n - n1)) b1 = Ret (n2, pc + (n - n1) + (n1 - n2), b2)"
      "marks (Ret b2) (pc + (n - n1)) (n1 - n2) b1"
    by (auto simp: n2_def)
  have m2: "marks (Ret b2) pc (n - n2) bits"
    using marks_trans [OF b1(2) b2(2)] n1 n2 by simp
  have c2: "clear_from (pc + (n - n2)) b2" and l2: "length b2 = length bits"
    using marks_clear [OF m2 assms(1)] m2 by (auto simp: marks_def)
  have "pc + (n - n2) + n2 = pc + n" using n1 n2 by simp
  with mark_rest_marks [OF c2, of n2] assms(2) l2 n2 obtain b3 where
    b3: "mark_rest n2 (pc + (n - n2)) b2 = Ret (pc + n, b3)" "marks (Ret b3) (pc + (n - n2)) n2 b2"
    by auto
  have "marks (Ret b3) pc n bits" using marks_trans [OF m2 b3(2)] n1 n2 by simp
  moreover have e: "pc + (n - n1) + (n1 - n2) = pc + (n - n2)" using n1 n2 by simp
  have "mark_push n pc bits = Ret (pc + n, b3)"
    using True b1(1) b2(1)[unfolded e] b3(1) by (simp add: mark_push_def)
  ultimately show ?thesis by blast
next
  case False
  then show ?thesis using mark_rest_marks [OF assms] by (auto simp: mark_push_def)
qed

lemma codeBitmapInternal_marks:
  "clear_from pc bits \<Longrightarrow> length bits = length code div 8 + 5 \<Longrightarrow>
   \<exists>bits'. codeBitmapInternal code pc bits = Ret bits' \<and> length bits' = length bits \<and>
     (\<forall>i<pc. bit_at bits' i = bit_at bits i) \<and>
     (\<forall>i. pc \<le> i \<and> i < length code \<longrightarrow> bit_at bits' i = push_mask 0 (drop pc code) ! (i - pc))"
proof (induction code pc bits rule: codeBitmapInternal.induct)
  case (1 code pc bits)
  show ?case
  proof (cases "pc < length code")
    case in_code: True
    define op where "op = code ! pc"
    have d: "drop pc code = op # drop (Suc pc) code"
      using in_code by (simp add: op_def Cons_nth_drop_Suc)
    have c: "clear_from (Suc pc) bits" and z: "\<not> bit_at bits pc"
      using 1(3) by (auto simp: clear_from_def)
    show ?thesis
    proof (cases "is_push_op op")
      case False
      from 1(1) [OF in_code, of op "Suc pc"] False c 1(4) obtain bits' where b:
        "codeBitmapInternal code (Suc pc) bits = Ret bits'" "length bits' = length bits"
        "\<forall>i<Suc pc. bit_at bits' i = bit_at bits i"
        "\<forall>i. Suc pc \<le> i \<and> i < length code \<longrightarrow> bit_at bits' i = push_mask 0 (drop (Suc pc) code) ! (i - Suc pc)"
        by (auto simp: op_def)
      have "bit_at bits' i = push_mask 0 (drop pc code) ! (i - pc)" if "pc \<le> i" "i < length code" for i
      proof (cases "i = pc")
        case True
        then show ?thesis using b(3) z by (simp add: d)
      next
        case ne: False
        then have "i - pc = Suc (i - Suc pc)" using that by simp
        then show ?thesis using b(4) ne that False unfolding is_push_op_iff d by (auto simp: not_le)
      qed
      with b in_code False show ?thesis
        by (auto simp: codeBitmapInternal.simps [of code pc] op_def Let_def)
    next
      case True
      define n where "n = unat op - 95"
      have op: "OP_PUSH1 \<le> op" "op \<le> OP_PUSH32" using True by (simp_all add: is_push_op_iff)
      have n: "unat (op - OP_PUSH1 + 1) = n" "n \<le> 32" using push_bytes [OF op] by (simp_all add: n_def)
      have "(Suc pc + n) div 8 \<le> (length code + 32) div 8"
        by (rule div_le_mono) (use in_code n in simp)
      then have "(Suc pc + n) div 8 < length bits" using 1(4) by (simp add: div_add_self2)
      then obtain b where b: "mark_push n (Suc pc) bits = Ret (Suc pc + n, b)" "marks (Ret b) (Suc pc) n bits"
        using mark_push_marks [OF c] by blast
      have lb: "length b = length bits" and cb: "clear_from (Suc pc + n) b"
        using b(2) marks_clear [OF b(2) c] by (auto simp: marks_def)
      have mb: "bit_at b i \<longleftrightarrow> bit_at bits i \<or> Suc pc \<le> i \<and> i < Suc pc + n" for i
        using b(2) by (auto simp: marks_def)
      from 1(2) [OF in_code, of op "Suc pc" "(Suc pc + n, b)" "Suc pc + n" b] True b(1) lb cb 1(4) n
      obtain bits' where b': "codeBitmapInternal code (Suc pc + n) b = Ret bits'" "length bits' = length bits"
        "\<forall>i<Suc pc + n. bit_at bits' i = bit_at b i"
        "\<forall>i. Suc pc + n \<le> i \<and> i < length code \<longrightarrow>
           bit_at bits' i = push_mask 0 (drop (Suc pc + n) code) ! (i - (Suc pc + n))"
        by (auto simp: op_def)
      have "bit_at bits' i = push_mask 0 (drop pc code) ! (i - pc)" if i: "pc \<le> i" "i < length code" for i
      proof (cases "i = pc")
        case True
        then show ?thesis using b'(3) z mb by (simp add: d)
      next
        case ne: False
        then have e: "i - pc = Suc (i - Suc pc)" using i by simp
        have "push_mask 0 (drop pc code) ! (i - pc) = push_mask n (drop (Suc pc) code) ! (i - Suc pc)"
          using op by (simp add: d e n_def)
        also have "\<dots> = (if i - Suc pc < n then True
            else push_mask 0 (drop (Suc pc + n) code) ! (i - (Suc pc + n)))"
          using i ne by (subst push_mask_nth) (auto simp: add.commute)
        also have "\<dots> = bit_at bits' i"
          using b'(3,4) mb i ne by (auto simp: not_less)
        finally show ?thesis by simp
      qed
      moreover have "bit_at bits' i = bit_at bits i" if "i < pc" for i
        using b'(3) mb that by simp
      ultimately show ?thesis using b' b(1) in_code True n
        by (auto simp: codeBitmapInternal.simps [of code pc] op_def Let_def)
    qed
  next
    case False
    then show ?thesis by (auto simp: codeBitmapInternal.simps [of code pc])
  qed
qed

lemma codeBitmap_segments:
  "\<exists>bits. codeBitmap code = Ret bits \<and> length bits = length code div 8 + 5 \<and>
     (\<forall>i<length code. codeSegment bits i = Ret (\<not> push_mask 0 code ! i))"
proof -
  define bits0 where "bits0 = (replicate (length code div 8 + 5) 0 :: bitvec)"
  have "clear_from 0 bits0" by (auto simp: clear_from_def bit_at_def bits0_def)
  then obtain bits where b: "codeBitmap code = Ret bits" "length bits = length code div 8 + 5"
      "\<forall>i<length code. bit_at bits i = push_mask 0 code ! i"
    using codeBitmapInternal_marks [of 0 bits0 code] by (auto simp: codeBitmap_def bits0_def add.commute)
  have "codeSegment bits i = Ret (\<not> push_mask 0 code ! i)" if "i < length code" for i
  proof -
    have "i div 8 < length bits" using that b(2) div_le_mono [of i "length code" 8] by simp
    then show ?thesis using b(3) that
      by (auto simp: codeSegment_def nth_go_def bit_at_def and_one_eq bit_iff_odd_drop_bit even_iff_mod_2_eq_zero)
  qed
  with b(1,2) show ?thesis by blast
qed

text \<open>
  C2. Jump-destination analysis. For every code the analysis returns a bitmap (no index of the
  packed slice is out of range), and reading the bitmap back with \<open>codeSegment\<close> at the positions
  of the code gives exactly the byte-by-byte classification of the code into opcodes and push data.
\<close>

theorem codeBitmap_correct:
  "\<exists>bits. codeBitmap code = Ret bits \<and>
     map (codeSegment bits) [0..<length code] = map (\<lambda>p. Ret (\<not> p)) (push_mask 0 code)"
proof -
  obtain bits where "codeBitmap code = Ret bits"
      "\<forall>i<length code. codeSegment bits i = Ret (\<not> push_mask 0 code ! i)"
    using codeBitmap_segments by blast
  then show ?thesis by (auto intro!: exI [of _ bits] nth_equalityI)
qed

end
