(* ===== verification/Access_List.thy ===== *)
theory Access_List imports Params begin

text \<open>
  The per-transaction access list (\<open>core/state/access_list.go\<close>) and the transient storage
  (\<open>core/state/transient_storage.go\<close>). A Go map is a partial function, a map to the empty struct
  is a set. The access list keeps, per address, the index of its slot set or \<open>-1\<close>; indexing out
  of the slot sets is a panic. The invariant \<open>al_ok\<close> says that this does not happen and that no
  two addresses share a slot set; the additions are undone exactly by the deletions in reverse order.
\<close>

section \<open>core/state/access_list.go\<close>

record accessList =
  al_addresses :: "address \<rightharpoonup> int"
  al_slots :: "hash set list"

definition ContainsAddress :: "accessList \<Rightarrow> address \<Rightarrow> bool" where
  "ContainsAddress al a \<longleftrightarrow> al_addresses al a \<noteq> None"

definition slots_at :: "accessList \<Rightarrow> int \<Rightarrow> hash set go" where
  "slots_at al idx = (if 0 \<le> idx then nth_go (al_slots al) (nat idx) else Panic IndexOutOfRange)"

definition Contains :: "accessList \<Rightarrow> address \<Rightarrow> hash \<Rightarrow> (bool \<times> bool) go" where
  "Contains al a slot =
     (case al_addresses al a of
        None \<Rightarrow> Ret (False, False)
      | Some idx \<Rightarrow>
          if idx = -1 then Ret (True, False)
          else go_bind (slots_at al idx) (\<lambda>slotmap. Ret (True, slot \<in> slotmap)))"

definition newAccessList :: accessList where
  "newAccessList = \<lparr>al_addresses = Map.empty, al_slots = []\<rparr>"

definition AddAddress :: "address \<Rightarrow> accessList \<Rightarrow> bool \<times> accessList" where
  "AddAddress a al =
     (if al_addresses al a \<noteq> None then (False, al)
      else (True, al\<lparr>al_addresses := (al_addresses al)(a \<mapsto> -1)\<rparr>))"

definition AddSlot :: "address \<Rightarrow> hash \<Rightarrow> accessList \<Rightarrow> ((bool \<times> bool) \<times> accessList) go" where
  "AddSlot a slot al =
     (case al_addresses al a of
        Some idx \<Rightarrow>
          if idx = -1
          then Ret ((False, True), al\<lparr>al_addresses := (al_addresses al)(a \<mapsto> int (length (al_slots al))),
                                      al_slots := al_slots al @ [{slot}]\<rparr>)
          else go_bind (slots_at al idx) (\<lambda>slotmap.
            if slot \<notin> slotmap
            then Ret ((False, True), al\<lparr>al_slots := (al_slots al)[nat idx := insert slot slotmap]\<rparr>)
            else Ret ((False, False), al))
      | None \<Rightarrow> Ret ((True, True), al\<lparr>al_addresses := (al_addresses al)(a \<mapsto> int (length (al_slots al))),
                                     al_slots := al_slots al @ [{slot}]\<rparr>))"

definition DeleteSlot :: "address \<Rightarrow> hash \<Rightarrow> accessList \<Rightarrow> accessList go" where
  "DeleteSlot a slot al =
     (case al_addresses al a of
        None \<Rightarrow> Panic AddressNotInAccessList
      | Some idx \<Rightarrow>
          go_bind (slots_at al idx) (\<lambda>slotmap.
            let slotmap = slotmap - {slot}
            in if slotmap = {}
               then Ret (al\<lparr>al_addresses := (al_addresses al)(a \<mapsto> -1), al_slots := take (nat idx) (al_slots al)\<rparr>)
               else Ret (al\<lparr>al_slots := (al_slots al)[nat idx := slotmap]\<rparr>)))"

definition DeleteAddress :: "address \<Rightarrow> accessList \<Rightarrow> accessList" where
  "DeleteAddress a al = al\<lparr>al_addresses := (al_addresses al)(a := None)\<rparr>"

text \<open>\<open>Copy\<close> is deep; maps are values here, so it is the identity on the contents.\<close>

definition accessList_Copy :: "accessList \<Rightarrow> accessList" where
  "accessList_Copy al = \<lparr>al_addresses = al_addresses al, al_slots = map (\<lambda>s. s) (al_slots al)\<rparr>"

section \<open>core/state/transient_storage.go\<close>

type_synonym storage = "hash \<rightharpoonup> hash"
type_synonym transientStorage = "address \<rightharpoonup> storage"

text \<open>Reading a Go map of hashes: a missing key reads as the zero hash.\<close>

definition storage_get :: "storage \<Rightarrow> hash \<Rightarrow> hash" where
  "storage_get m k = (case m k of None \<Rightarrow> 0 | Some v \<Rightarrow> v)"

definition newTransientStorage :: transientStorage where
  "newTransientStorage = Map.empty"

definition ts_Set :: "address \<Rightarrow> hash \<Rightarrow> hash \<Rightarrow> transientStorage \<Rightarrow> transientStorage" where
  "ts_Set a k v t =
     (let m = (case t a of None \<Rightarrow> Map.empty | Some m \<Rightarrow> m) in t(a \<mapsto> m(k \<mapsto> v)))"

definition ts_Get :: "transientStorage \<Rightarrow> address \<Rightarrow> hash \<Rightarrow> hash" where
  "ts_Get t a k = (case t a of None \<Rightarrow> 0 | Some m \<Rightarrow> storage_get m k)"

definition ts_Copy :: "transientStorage \<Rightarrow> transientStorage" where
  "ts_Copy t = (\<lambda>a. map_option (\<lambda>m. m) (t a))"

lemma ts_Get_Set: "ts_Get (ts_Set a k v t) a' k' = (if a' = a \<and> k' = k then v else ts_Get t a' k')"
  by (auto simp: ts_Get_def ts_Set_def storage_get_def Let_def split: option.splits)

section \<open>The invariant\<close>

definition al_ok :: "accessList \<Rightarrow> bool" where
  "al_ok al \<longleftrightarrow>
     (\<forall>a i. al_addresses al a = Some i \<longrightarrow> i = -1 \<or> 0 \<le> i \<and> nat i < length (al_slots al)) \<and>
     (\<forall>a b i. al_addresses al a = Some i \<and> al_addresses al b = Some i \<and> i \<noteq> -1 \<longrightarrow> a = b) \<and>
     {} \<notin> set (al_slots al)"

lemma al_okD:
  assumes "al_ok al" "al_addresses al a = Some i" "i \<noteq> -1"
  shows "0 \<le> i" "nat i < length (al_slots al)" "slots_at al i = Ret (al_slots al ! nat i)"
    "al_slots al ! nat i \<noteq> {}"
proof -
  show b: "0 \<le> i" "nat i < length (al_slots al)" using assms by (auto simp: al_ok_def)
  then show "slots_at al i = Ret (al_slots al ! nat i)" by (simp add: slots_at_def nth_go_def)
  show "al_slots al ! nat i \<noteq> {}" using assms(1) b(2) nth_mem by (fastforce simp: al_ok_def)
qed

lemma al_ok_new [simp]: "al_ok newAccessList"
  by (simp add: al_ok_def newAccessList_def)

text \<open>What the list contains, as the caller of \<open>Contains\<close> sees it.\<close>

definition al_slotset :: "accessList \<Rightarrow> address \<Rightarrow> hash set" where
  "al_slotset al a = (case al_addresses al a of None \<Rightarrow> {}
     | Some i \<Rightarrow> if i = -1 then {} else al_slots al ! nat i)"

lemma Contains_Ret: "al_ok al \<Longrightarrow> Contains al a slot = Ret (ContainsAddress al a, slot \<in> al_slotset al a)"
  by (auto simp: Contains_def ContainsAddress_def al_slotset_def al_okD split: option.splits)

lemma AddAddress_ok: "al_ok al \<Longrightarrow> al_ok (snd (AddAddress a al))"
  by (auto simp: AddAddress_def al_ok_def split: if_splits)

lemma al_slotset_new [simp]: "al_slotset newAccessList a = {}"
  by (simp add: al_slotset_def newAccessList_def)

definition al_fresh :: "address \<Rightarrow> hash \<Rightarrow> accessList \<Rightarrow> accessList" where
  "al_fresh a slot al =
     al\<lparr>al_addresses := (al_addresses al)(a \<mapsto> int (length (al_slots al))), al_slots := al_slots al @ [{slot}]\<rparr>"

lemma AddSlot_fresh:
  "al_addresses al a = None \<or> al_addresses al a = Some (-1) \<Longrightarrow>
   AddSlot a slot al = Ret ((al_addresses al a = None, True), al_fresh a slot al)"
  by (auto simp: AddSlot_def al_fresh_def)

lemma AddSlot_old:
  "al_ok al \<Longrightarrow> al_addresses al a = Some i \<Longrightarrow> i \<noteq> -1 \<Longrightarrow>
   AddSlot a slot al = Ret ((False, slot \<notin> al_slots al ! nat i),
     al\<lparr>al_slots := (al_slots al)[nat i := insert slot (al_slots al ! nat i)]\<rparr>)"
  by (auto simp: AddSlot_def al_okD insert_absorb)

lemma al_fresh_ok:
  assumes ok: "al_ok al"
  shows "al_ok (al_fresh a slot al)"
proof -
  have b: "0 \<le> i \<and> nat i < length (al_slots al)" if "al_addresses al b = Some i" "i \<noteq> -1" for b i
    using al_okD(1,2) [OF ok that] by simp
  have ne: "al_addresses al b \<noteq> Some (int (length (al_slots al)))" for b
    using b [of b "int (length (al_slots al))"] by auto
  have inj: "b = c" if "al_addresses al b = Some i" "al_addresses al c = Some i" "i \<noteq> -1" for b c i
    using ok that unfolding al_ok_def by blast
  have addrs: "al_addresses (al_fresh a slot al) = (al_addresses al)(a \<mapsto> int (length (al_slots al)))"
    and slots: "al_slots (al_fresh a slot al) = al_slots al @ [{slot}]" by (simp_all add: al_fresh_def)
  show ?thesis
    unfolding al_ok_def addrs slots
  proof (intro conjI allI impI)
    fix b i
    assume "((al_addresses al)(a \<mapsto> int (length (al_slots al)))) b = Some i"
    then show "i = -1 \<or> 0 \<le> i \<and> nat i < length (al_slots al @ [{slot}])"
      using b [of b i] by (auto split: if_splits)
  next
    fix b c i
    assume "((al_addresses al)(a \<mapsto> int (length (al_slots al)))) b = Some i \<and>
      ((al_addresses al)(a \<mapsto> int (length (al_slots al)))) c = Some i \<and> i \<noteq> -1"
    then show "b = c"
      using inj [of b i c] ne [of b] ne [of c] by (auto split: if_splits)
  qed (use ok in \<open>auto simp: al_ok_def\<close>)
qed

lemma al_slotset_fresh:
  "al_ok al \<Longrightarrow> al_addresses al a = None \<or> al_addresses al a = Some (-1) \<Longrightarrow>
   al_slotset (al_fresh a slot al) = (al_slotset al)(a := {slot})"
  by (rule ext) (auto simp: al_slotset_def al_fresh_def nth_append al_okD split: option.splits)

lemma al_grow_ok:
  assumes "al_ok al" "al_addresses al a = Some i" "i \<noteq> -1"
  shows "al_ok (al\<lparr>al_slots := (al_slots al)[nat i := insert slot (al_slots al ! nat i)]\<rparr>)"
  using assms(1) set_update_subset_insert [of "al_slots al" "nat i" "insert slot (al_slots al ! nat i)"]
  by (auto simp: al_ok_def)

lemma al_slotset_grow:
  assumes "al_ok al" "al_addresses al a = Some i" "i \<noteq> -1"
  shows "al_slotset (al\<lparr>al_slots := (al_slots al)[nat i := insert slot (al_slots al ! nat i)]\<rparr>)
    = (al_slotset al)(a := insert slot (al_slotset al a))"
proof
  fix b
  have "nat j \<noteq> nat i" if "al_addresses al b = Some j" "b \<noteq> a" "j \<noteq> -1" for j
  proof -
    have "0 \<le> i" "0 \<le> j" using al_okD(1) assms that by auto
    moreover have "j \<noteq> i" using assms that by (auto simp: al_ok_def)
    ultimately show ?thesis by simp
  qed
  then show "al_slotset (al\<lparr>al_slots := (al_slots al)[nat i := insert slot (al_slots al ! nat i)]\<rparr>) b
    = ((al_slotset al)(a := insert slot (al_slotset al a))) b"
    using assms al_okD(2) [OF assms] by (auto simp: al_slotset_def split: option.splits)
qed

lemma AddSlot_Ret:
  assumes "al_ok al"
  shows "\<exists>al'. AddSlot a slot al = Ret ((\<not> ContainsAddress al a, slot \<notin> al_slotset al a), al') \<and> al_ok al' \<and>
    ContainsAddress al' = (ContainsAddress al)(a := True) \<and>
    al_slotset al' = (al_slotset al)(a := insert slot (al_slotset al a))"
proof (cases "al_addresses al a = None \<or> al_addresses al a = Some (-1)")
  case True
  then show ?thesis using AddSlot_fresh [OF True] al_fresh_ok [OF assms] al_slotset_fresh [OF assms True]
    by (auto simp: ContainsAddress_def fun_eq_iff al_fresh_def al_slotset_def)
next
  case False
  then obtain i where i: "al_addresses al a = Some i" "i \<noteq> -1" by auto
  then show ?thesis
    using AddSlot_old [OF assms i] al_grow_ok [OF assms i] al_slotset_grow [OF assms i]
    by (auto simp: ContainsAddress_def fun_eq_iff al_slotset_def)
qed

section \<open>Undoing in reverse order\<close>

lemma DeleteAddress_AddAddress:
  "AddAddress a al = (True, al') \<Longrightarrow> DeleteAddress a al' = al"
  by (auto simp: AddAddress_def DeleteAddress_def fun_upd_idem split: if_splits)

lemma DeleteSlot_AddSlot:
  assumes "al_ok al" "AddSlot a slot al = Ret ((ach, True), al')"
  shows "DeleteSlot a slot al' = Ret (if ach then al\<lparr>al_addresses := (al_addresses al)(a \<mapsto> -1)\<rparr> else al)"
proof (cases "al_addresses al a = None \<or> al_addresses al a = Some (-1)")
  case True
  with AddSlot_fresh [OF True, of slot] assms(2) show ?thesis
    by (auto simp: DeleteSlot_def al_fresh_def slots_at_def nth_go_def Let_def fun_upd_idem)
next
  case False
  then obtain i where i: "al_addresses al a = Some i" "i \<noteq> -1" by auto
  from AddSlot_old [OF assms(1) i, of slot] assms(2)
  have "\<not> ach" "slot \<notin> al_slots al ! nat i"
    "al' = al\<lparr>al_slots := (al_slots al)[nat i := insert slot (al_slots al ! nat i)]\<rparr>" by auto
  with i al_okD [OF assms(1) i] show ?thesis
    by (auto simp: DeleteSlot_def slots_at_def nth_go_def Let_def)
qed

lemma DeleteAddress_DeleteSlot:
  "al_addresses al a = None \<Longrightarrow> DeleteAddress a (al\<lparr>al_addresses := (al_addresses al)(a \<mapsto> -1)\<rparr>) = al"
  by (simp add: DeleteAddress_def fun_upd_idem)

section \<open>Properties\<close>

text \<open>
  Adding a slot makes exactly that slot (and its address) present: every later query sees the
  old contents plus the pair, the flags say whether the address and the slot were new, and the
  invariant is kept.
\<close>

theorem access_list_add_slot:
  assumes "al_ok al"
  shows "\<exists>al'. AddSlot a slot al = Ret ((\<not> ContainsAddress al a, slot \<notin> al_slotset al a), al') \<and> al_ok al' \<and>
    (\<lambda>b k. Contains al' b k) = (\<lambda>b k. if b = a then Ret (True, k = slot \<or> k \<in> al_slotset al a) else Contains al b k)"
  using AddSlot_Ret [OF assms, of a slot] assms
  by (auto simp: Contains_Ret fun_eq_iff)

theorem access_list_add_slot_witness:
  "\<exists>al'. AddSlot 5 7 newAccessList = Ret ((\<not> ContainsAddress newAccessList 5, 7 \<notin> al_slotset newAccessList 5), al') \<and>
    al_ok al' \<and> (\<lambda>b k. Contains al' b k) =
      (\<lambda>b k. if b = 5 then Ret (True, k = 7 \<or> k \<in> al_slotset newAccessList 5) else Contains newAccessList b k)"
  by (rule access_list_add_slot) simp

end
