(* ===== verification/StateDB.thy ===== *)
theory StateDB imports RLP_Raw Access_List begin

text \<open>
  The state database: \<open>core/state/state_object.go\<close>, \<open>core/state/journal.go\<close> and the part of
  \<open>core/state/statedb.go\<close> that runs inside a transaction (reads, writes, the journal, snapshots,
  \<open>Finalise\<close>, \<open>Prepare\<close>, \<open>Copy\<close>).

  The interfaces behind the StateDB are parameters: the hash function, the contract code store
  and the opener of storage tries are the record \<open>database\<close>; the account trie and the snapshot are
  the fields \<open>sdb_trie\<close> and \<open>sdb_snap\<close>, of which only the read methods are used here. A Go pointer
  to a state object is the object itself: an operation on an object returns the changed object and
  the caller puts it back under its address (\<open>setStateObject\<close>), which is where the pointer points.
  The code hash of an account, a byte slice in the source, is always 32 bytes long there and is a
  \<^typ>\<open>hash\<close> here. The prefetcher and the metrics counters are left out.
\<close>

section \<open>core/types/state_account.go\<close>

record StateAccount =
  Nonce :: u64
  Balance :: u256
  Root :: hash
  CodeHash :: hash

section \<open>The interfaces the StateDB reads from\<close>

datatype db_error =
    ReadError string
  | RlpError rlp_error
  | CannotLoadCode hash db_error
  | CannotLoadCodeSize hash db_error
  | CannotLoadAccount address db_error

text \<open>\<open>types.SlimAccount\<close>, what a snapshot returns for an account.\<close>

record SlimAccount =
  slim_Nonce :: u64
  slim_Balance :: u256
  slim_Root :: bytes
  slim_CodeHash :: bytes

type_synonym storage_trie = "hash \<Rightarrow> db_error + bytes"
type_synonym account_trie = "address \<Rightarrow> db_error + StateAccount option"

record snapshot =
  snap_Account :: "hash \<Rightarrow> db_error + SlimAccount option"
  snap_Storage :: "hash \<Rightarrow> hash \<Rightarrow> bytes \<times> db_error option"

record database =
  Keccak256Hash :: "bytes \<Rightarrow> hash"
  ContractCode :: "address \<Rightarrow> hash \<Rightarrow> bytes option \<times> db_error option"
  ContractCodeSize :: "address \<Rightarrow> hash \<Rightarrow> nat \<times> db_error option"
  OpenStorageTrie :: "hash \<Rightarrow> address \<Rightarrow> hash \<Rightarrow> db_error + storage_trie"

definition EmptyCodeHash :: "database \<Rightarrow> hash" where
  "EmptyCodeHash db = Keccak256Hash db []"

definition NewEmptyStateAccount :: "database \<Rightarrow> StateAccount" where
  "NewEmptyStateAccount db =
     \<lparr>Nonce = 0, Balance = 0, Root = EmptyRootHash, CodeHash = EmptyCodeHash db\<rparr>"

section \<open>The data: state objects, the journal, the StateDB\<close>

record stateObject =
  so_address :: address
  so_addrHash :: hash
  so_origin :: "StateAccount option"
  so_data :: StateAccount
  so_trie :: "storage_trie option"
  so_code :: "bytes option"
  originStorage :: storage
  pendingStorage :: storage
  dirtyStorage :: storage
  dirtyCode :: bool
  selfDestructed :: bool
  so_deleted :: bool
  so_created :: bool

type_synonym storage_set = "hash \<rightharpoonup> bytes option"

datatype journalEntry =
    createObjectChange address
  | resetObjectChange address stateObject bool "bytes option" "storage_set option"
      bool "bytes option" "storage_set option"
  | selfDestructChange address bool u256
  | balanceChange address u256
  | nonceChange address u64
  | storageChange address hash hash
  | codeChange address "bytes option" hash
  | refundChange u64
  | addLogChange hash
  | addPreimageChange hash
  | touchChange address
  | accessListAddAccountChange address
  | accessListAddSlotChange address hash
  | transientStorageChange address hash hash

record journal =
  entries :: "journalEntry list"
  dirties :: "address \<rightharpoonup> int"

record Log =
  log_Address :: address
  log_Topics :: "hash list"
  log_Data :: bytes
  log_BlockNumber :: u64
  log_TxHash :: hash
  log_TxIndex :: u64
  log_BlockHash :: hash
  log_Index :: u64

record StateDB =
  sdb_trie :: account_trie
  sdb_snap :: "snapshot option"
  originalRoot :: hash
  accounts :: "hash \<rightharpoonup> bytes"
  storages :: "hash \<rightharpoonup> storage_set"
  accountsOrigin :: "address \<rightharpoonup> bytes option"
  storagesOrigin :: "address \<rightharpoonup> storage_set"
  stateObjects :: "address \<rightharpoonup> stateObject"
  stateObjectsPending :: "address set"
  stateObjectsDirty :: "address set"
  stateObjectsDestruct :: "address \<rightharpoonup> StateAccount option"
  dbErr :: "db_error option"
  sdb_refund :: u64
  thash :: hash
  txIndex :: int
  sdb_logs :: "hash \<rightharpoonup> Log list"
  logSize :: u64
  preimages :: "hash \<rightharpoonup> bytes"
  sdb_accessList :: accessList
  sdb_transientStorage :: transientStorage
  sdb_journal :: journal
  validRevisions :: "(nat \<times> nat) list"
  nextRevisionId :: nat

definition newJournal :: journal where
  "newJournal = \<lparr>entries = [], dirties = Map.empty\<rparr>"

text \<open>\<open>New\<close>, for an account trie that could be opened.\<close>

definition StateDB_New :: "hash \<Rightarrow> account_trie \<Rightarrow> snapshot option \<Rightarrow> StateDB" where
  "StateDB_New root tr sn =
     \<lparr>sdb_trie = tr, sdb_snap = sn, originalRoot = root,
      accounts = Map.empty, storages = Map.empty, accountsOrigin = Map.empty, storagesOrigin = Map.empty,
      stateObjects = Map.empty, stateObjectsPending = {}, stateObjectsDirty = {},
      stateObjectsDestruct = Map.empty, dbErr = None, sdb_refund = 0, thash = 0, txIndex = 0,
      sdb_logs = Map.empty, logSize = 0, preimages = Map.empty,
      sdb_accessList = newAccessList, sdb_transientStorage = newTransientStorage,
      sdb_journal = newJournal, validRevisions = [], nextRevisionId = 0\<rparr>"

section \<open>core/state/journal.go: appending\<close>

fun dirtied :: "journalEntry \<Rightarrow> address option" where
  "dirtied (createObjectChange a) = Some a"
| "dirtied (resetObjectChange a _ _ _ _ _ _ _) = Some a"
| "dirtied (selfDestructChange a _ _) = Some a"
| "dirtied (balanceChange a _) = Some a"
| "dirtied (nonceChange a _) = Some a"
| "dirtied (storageChange a _ _) = Some a"
| "dirtied (codeChange a _ _) = Some a"
| "dirtied (touchChange a) = Some a"
| "dirtied (transientStorageChange _ _ _) = None"
| "dirtied (refundChange _) = None"
| "dirtied (addLogChange _) = None"
| "dirtied (addPreimageChange _) = None"
| "dirtied (accessListAddAccountChange _) = None"
| "dirtied (accessListAddSlotChange _ _) = None"

text \<open>Reading a counter of a Go map: a missing key reads as 0.\<close>

definition count_of :: "(address \<rightharpoonup> int) \<Rightarrow> address \<Rightarrow> int" where
  "count_of m a = (case m a of None \<Rightarrow> 0 | Some n \<Rightarrow> n)"

definition journal_dirty :: "address \<Rightarrow> journal \<Rightarrow> journal" where
  "journal_dirty a j = j\<lparr>dirties := (dirties j)(a \<mapsto> count_of (dirties j) a + 1)\<rparr>"

definition journal_append :: "journalEntry \<Rightarrow> journal \<Rightarrow> journal" where
  "journal_append e j =
     (let j = j\<lparr>entries := entries j @ [e]\<rparr>
      in case dirtied e of None \<Rightarrow> j | Some a \<Rightarrow> j\<lparr>dirties := (dirties j)(a \<mapsto> count_of (dirties j) a + 1)\<rparr>)"

definition log_change :: "journalEntry \<Rightarrow> StateDB \<Rightarrow> StateDB" where
  "log_change e s = s\<lparr>sdb_journal := journal_append e (sdb_journal s)\<rparr>"

definition ripemd :: address where
  "ripemd = 3"

section \<open>core/state/state_object.go\<close>

definition setError :: "db_error \<Rightarrow> StateDB \<Rightarrow> StateDB" where
  "setError err s = (if dbErr s = None then s\<lparr>dbErr := Some err\<rparr> else s)"

definition so_empty :: "database \<Rightarrow> stateObject \<Rightarrow> bool" where
  "so_empty db obj \<longleftrightarrow> Nonce (so_data obj) = 0 \<and> Balance (so_data obj) = 0 \<and>
     CodeHash (so_data obj) = EmptyCodeHash db"

definition newObject :: "database \<Rightarrow> address \<Rightarrow> StateAccount option \<Rightarrow> stateObject" where
  "newObject db a acct =
     \<lparr>so_address = a, so_addrHash = Keccak256Hash db (address_bytes a), so_origin = acct,
      so_data = (case acct of None \<Rightarrow> NewEmptyStateAccount db | Some ac \<Rightarrow> ac),
      so_trie = None, so_code = None,
      originStorage = Map.empty, pendingStorage = Map.empty, dirtyStorage = Map.empty,
      dirtyCode = False, selfDestructed = False, so_deleted = False, so_created = (acct = None)\<rparr>"

definition markSelfdestructed :: "stateObject \<Rightarrow> stateObject" where
  "markSelfdestructed obj = obj\<lparr>selfDestructed := True\<rparr>"

definition touch :: "stateObject \<Rightarrow> StateDB \<Rightarrow> StateDB" where
  "touch obj s =
     (let s = log_change (touchChange (so_address obj)) s
      in if so_address obj = ripemd
         then s\<lparr>sdb_journal := journal_dirty (so_address obj) (sdb_journal s)\<rparr> else s)"

definition getTrie :: "database \<Rightarrow> stateObject \<Rightarrow> StateDB \<Rightarrow> db_error + (storage_trie \<times> stateObject)" where
  "getTrie db obj s =
     (case so_trie obj of
        Some tr \<Rightarrow> Inr (tr, obj)
      | None \<Rightarrow> (case OpenStorageTrie db (originalRoot s) (so_address obj) (Root (so_data obj)) of
            Inl err \<Rightarrow> Inl err
          | Inr tr \<Rightarrow> Inr (tr, obj\<lparr>so_trie := Some tr\<rparr>)))"

text \<open>
  \<open>value.SetBytes(b)\<close> on a hash writes the low bytes of the value and leaves the others.
  \<open>rlp_content\<close> is the second result of \<open>rlp.Split\<close>; \<open>Split\<close> does not panic (\<open>Split_Ret\<close>).
\<close>

definition hash_SetBytes :: "hash \<Rightarrow> bytes \<Rightarrow> hash" where
  "hash_SetBytes h b =
     (if length b \<ge> 32 then SetBytes b
      else push_bit (8 * length b) (drop_bit (8 * length b) h) OR SetBytes b)"

definition rlp_content :: "bytes \<Rightarrow> rlp_error + bytes" where
  "rlp_content enc = (case Split enc of
       Ret (Inr (k, content, rest)) \<Rightarrow> Inr content
     | Ret (Inl e) \<Rightarrow> Inl e
     | _ \<Rightarrow> Inl ErrUnexpectedEOF)"

text \<open>
  The last part of \<open>GetCommittedState\<close>: load the slot from the snapshot, or from the storage trie
  when there is no snapshot or reading it failed. Nothing is cached when the trie fails.
\<close>

definition snap_slot :: "database \<Rightarrow> stateObject \<Rightarrow> hash \<Rightarrow> StateDB \<Rightarrow> hash \<times> db_error option \<times> StateDB" where
  "snap_slot db obj key s =
     (case sdb_snap s of
        None \<Rightarrow> (0, None, s)
      | Some sn \<Rightarrow>
          (let (enc, err) = snap_Storage sn (so_addrHash obj) (Keccak256Hash db (Bytes32 key))
           in if enc \<noteq> []
              then (case rlp_content enc of
                      Inl e \<Rightarrow> (0, err, setError (RlpError e) s)
                    | Inr content \<Rightarrow> (hash_SetBytes 0 content, err, s))
              else (0, err, s)))"

definition load_slot :: "database \<Rightarrow> stateObject \<Rightarrow> hash \<Rightarrow> StateDB \<Rightarrow> hash \<times> stateObject \<times> StateDB" where
  "load_slot db obj key s =
     (case snap_slot db obj key s of (val, err, s) \<Rightarrow>
        if sdb_snap s = None \<or> err \<noteq> None then
           (case getTrie db obj s of
              Inl e \<Rightarrow> (0, obj, setError e s)
            | Inr (tr, obj) \<Rightarrow>
                (case tr key of
                   Inl e \<Rightarrow> (0, obj, setError e s)
                 | Inr v \<Rightarrow>
                     let val = hash_SetBytes val v
                     in (val, obj\<lparr>originStorage := (originStorage obj)(key \<mapsto> val)\<rparr>, s)))
         else (val, obj\<lparr>originStorage := (originStorage obj)(key \<mapsto> val)\<rparr>, s))"

definition so_GetCommittedState ::
  "database \<Rightarrow> stateObject \<Rightarrow> hash \<Rightarrow> StateDB \<Rightarrow> hash \<times> stateObject \<times> StateDB" where
  "so_GetCommittedState db obj key s =
     (case pendingStorage obj key of
        Some v \<Rightarrow> (v, obj, s)
      | None \<Rightarrow> (case originStorage obj key of
          Some v \<Rightarrow> (v, obj, s)
        | None \<Rightarrow>
            if stateObjectsDestruct s (so_address obj) \<noteq> None then (0, obj, s)
            else load_slot db obj key s))"

definition so_GetState ::
  "database \<Rightarrow> stateObject \<Rightarrow> hash \<Rightarrow> StateDB \<Rightarrow> hash \<times> stateObject \<times> StateDB" where
  "so_GetState db obj key s =
     (case dirtyStorage obj key of
        Some v \<Rightarrow> (v, obj, s)
      | None \<Rightarrow> so_GetCommittedState db obj key s)"

definition so_setState :: "hash \<Rightarrow> hash \<Rightarrow> stateObject \<Rightarrow> stateObject" where
  "so_setState key v obj = obj\<lparr>dirtyStorage := (dirtyStorage obj)(key \<mapsto> v)\<rparr>"

definition so_SetState ::
  "database \<Rightarrow> stateObject \<Rightarrow> hash \<Rightarrow> hash \<Rightarrow> StateDB \<Rightarrow> stateObject \<times> StateDB" where
  "so_SetState db obj key v s =
     (case so_GetState db obj key s of (prev, obj, s) \<Rightarrow>
        if prev = v then (obj, s)
        else (so_setState key v obj, log_change (storageChange (so_address obj) key prev) s))"

definition so_finalise :: "stateObject \<Rightarrow> stateObject" where
  "so_finalise obj = obj\<lparr>pendingStorage := pendingStorage obj ++ dirtyStorage obj, dirtyStorage := Map.empty\<rparr>"

definition so_setBalance :: "u256 \<Rightarrow> stateObject \<Rightarrow> stateObject" where
  "so_setBalance amount obj = obj\<lparr>so_data := (so_data obj)\<lparr>Balance := amount\<rparr>\<rparr>"

definition so_SetBalance :: "stateObject \<Rightarrow> u256 \<Rightarrow> StateDB \<Rightarrow> stateObject \<times> StateDB" where
  "so_SetBalance obj amount s =
     (so_setBalance amount obj, log_change (balanceChange (so_address obj) (Balance (so_data obj))) s)"

definition so_AddBalance :: "database \<Rightarrow> stateObject \<Rightarrow> u256 \<Rightarrow> StateDB \<Rightarrow> stateObject \<times> StateDB" where
  "so_AddBalance db obj amount s =
     (if amount = 0 then (obj, if so_empty db obj then touch obj s else s)
      else so_SetBalance obj (Balance (so_data obj) + amount) s)"

definition so_SubBalance :: "stateObject \<Rightarrow> u256 \<Rightarrow> StateDB \<Rightarrow> stateObject \<times> StateDB" where
  "so_SubBalance obj amount s =
     (if amount = 0 then (obj, s) else so_SetBalance obj (Balance (so_data obj) - amount) s)"

text \<open>\<open>deepCopy\<close> copies every field but \<open>created\<close>, which stays at its zero value.\<close>

definition deepCopy :: "stateObject \<Rightarrow> stateObject" where
  "deepCopy obj =
     \<lparr>so_address = so_address obj, so_addrHash = so_addrHash obj, so_origin = so_origin obj,
      so_data = so_data obj, so_trie = so_trie obj, so_code = so_code obj,
      originStorage = originStorage obj, pendingStorage = pendingStorage obj, dirtyStorage = dirtyStorage obj,
      dirtyCode = dirtyCode obj, selfDestructed = selfDestructed obj, so_deleted = so_deleted obj,
      so_created = False\<rparr>"

definition so_Code :: "database \<Rightarrow> stateObject \<Rightarrow> StateDB \<Rightarrow> bytes option \<times> stateObject \<times> StateDB" where
  "so_Code db obj s =
     (case so_code obj of
        Some c \<Rightarrow> (Some c, obj, s)
      | None \<Rightarrow>
          if CodeHash (so_data obj) = EmptyCodeHash db then (None, obj, s)
          else (case ContractCode db (so_address obj) (CodeHash (so_data obj)) of (c, err) \<Rightarrow>
            (c, obj\<lparr>so_code := c\<rparr>,
             case err of None \<Rightarrow> s | Some e \<Rightarrow> setError (CannotLoadCode (CodeHash (so_data obj)) e) s)))"

definition so_CodeSize :: "database \<Rightarrow> stateObject \<Rightarrow> StateDB \<Rightarrow> nat \<times> StateDB" where
  "so_CodeSize db obj s =
     (case so_code obj of
        Some c \<Rightarrow> (length c, s)
      | None \<Rightarrow>
          if CodeHash (so_data obj) = EmptyCodeHash db then (0, s)
          else (case ContractCodeSize db (so_address obj) (CodeHash (so_data obj)) of (n, err) \<Rightarrow>
            (n, case err of None \<Rightarrow> s | Some e \<Rightarrow> setError (CannotLoadCodeSize (CodeHash (so_data obj)) e) s)))"

definition so_setCode :: "hash \<Rightarrow> bytes option \<Rightarrow> stateObject \<Rightarrow> stateObject" where
  "so_setCode h c obj = obj\<lparr>so_code := c, so_data := (so_data obj)\<lparr>CodeHash := h\<rparr>, dirtyCode := True\<rparr>"

definition so_SetCode :: "database \<Rightarrow> stateObject \<Rightarrow> hash \<Rightarrow> bytes option \<Rightarrow> StateDB \<Rightarrow> stateObject \<times> StateDB" where
  "so_SetCode db obj h c s =
     (case so_Code db obj s of (prevcode, obj, s) \<Rightarrow>
        (so_setCode h c obj, log_change (codeChange (so_address obj) prevcode (CodeHash (so_data obj))) s))"

definition so_setNonce :: "u64 \<Rightarrow> stateObject \<Rightarrow> stateObject" where
  "so_setNonce n obj = obj\<lparr>so_data := (so_data obj)\<lparr>Nonce := n\<rparr>\<rparr>"

definition so_SetNonce :: "stateObject \<Rightarrow> u64 \<Rightarrow> StateDB \<Rightarrow> stateObject \<times> StateDB" where
  "so_SetNonce obj n s = (so_setNonce n obj, log_change (nonceChange (so_address obj) (Nonce (so_data obj))) s)"

section \<open>core/state/statedb.go: finding and creating objects\<close>

definition setStateObject :: "stateObject \<Rightarrow> StateDB \<Rightarrow> StateDB" where
  "setStateObject obj s = s\<lparr>stateObjects := (stateObjects s)(so_address obj \<mapsto> obj)\<rparr>"

text \<open>The account behind the caches: the snapshot's, or the trie's when reading the snapshot fails.\<close>

definition lookup_account :: "database \<Rightarrow> address \<Rightarrow> StateDB \<Rightarrow> db_error + StateAccount option" where
  "lookup_account db a s =
     (case sdb_snap s of
        None \<Rightarrow> sdb_trie s a
      | Some sn \<Rightarrow>
          (case snap_Account sn (Keccak256Hash db (address_bytes a)) of
             Inl err \<Rightarrow> sdb_trie s a
           | Inr None \<Rightarrow> Inr None
           | Inr (Some acc) \<Rightarrow> Inr (Some
               \<lparr>Nonce = slim_Nonce acc, Balance = slim_Balance acc,
                Root = (if SetBytes (slim_Root acc) = (0 :: hash) then EmptyRootHash else SetBytes (slim_Root acc)),
                CodeHash = (if slim_CodeHash acc = [] then EmptyCodeHash db else SetBytes (slim_CodeHash acc))\<rparr>)))"

definition getDeletedStateObject :: "database \<Rightarrow> address \<Rightarrow> StateDB \<Rightarrow> stateObject option \<times> StateDB" where
  "getDeletedStateObject db a s =
     (case stateObjects s a of
        Some obj \<Rightarrow> (Some obj, s)
      | None \<Rightarrow> (case lookup_account db a s of
          Inl err \<Rightarrow> (None, setError (CannotLoadAccount a err) s)
        | Inr None \<Rightarrow> (None, s)
        | Inr (Some acct) \<Rightarrow>
            (let obj = newObject db a (Some acct) in (Some obj, setStateObject obj s))))"

definition getStateObject :: "database \<Rightarrow> address \<Rightarrow> StateDB \<Rightarrow> stateObject option \<times> StateDB" where
  "getStateObject db a s =
     (case getDeletedStateObject db a s of
        (Some obj, s) \<Rightarrow> (if \<not> so_deleted obj then Some obj else None, s)
      | (None, s) \<Rightarrow> (None, s))"

definition createObject :: "database \<Rightarrow> address \<Rightarrow> StateDB \<Rightarrow> stateObject \<times> stateObject option \<times> StateDB" where
  "createObject db a s =
     (case getDeletedStateObject db a s of (prev, s) \<Rightarrow>
        let newobj = newObject db a None;
            s = (case prev of
              None \<Rightarrow> log_change (createObjectChange a) s
            | Some p \<Rightarrow>
                (let prevdestruct = (stateObjectsDestruct s (so_address p) \<noteq> None);
                     s = (if prevdestruct then s
                          else s\<lparr>stateObjectsDestruct := (stateObjectsDestruct s)(so_address p \<mapsto> so_origin p)\<rparr>);
                     s = log_change (resetObjectChange a p prevdestruct
                           (accounts s (so_addrHash p)) (storages s (so_addrHash p))
                           (accountsOrigin s (so_address p) \<noteq> None)
                           (case accountsOrigin s (so_address p) of None \<Rightarrow> None | Some x \<Rightarrow> x)
                           (storagesOrigin s (so_address p))) s
                 in s\<lparr>accounts := (accounts s)(so_addrHash p := None),
                      storages := (storages s)(so_addrHash p := None),
                      accountsOrigin := (accountsOrigin s)(so_address p := None),
                      storagesOrigin := (storagesOrigin s)(so_address p := None)\<rparr>))
        in (newobj, (case prev of None \<Rightarrow> None | Some p \<Rightarrow> if \<not> so_deleted p then Some p else None),
            setStateObject newobj s))"

definition getOrNewStateObject :: "database \<Rightarrow> address \<Rightarrow> StateDB \<Rightarrow> stateObject \<times> StateDB" where
  "getOrNewStateObject db a s =
     (case getStateObject db a s of
        (Some obj, s) \<Rightarrow> (obj, s)
      | (None, s) \<Rightarrow> (case createObject db a s of (obj, prev, s) \<Rightarrow> (obj, s)))"

definition CreateAccount :: "database \<Rightarrow> address \<Rightarrow> StateDB \<Rightarrow> StateDB" where
  "CreateAccount db a s =
     (case createObject db a s of
        (newobj, Some prev, s) \<Rightarrow> setStateObject (so_setBalance (Balance (so_data prev)) newobj) s
      | (newobj, None, s) \<Rightarrow> s)"

section \<open>core/state/statedb.go: queries\<close>

text \<open>
  A query goes through \<open>getStateObject\<close>, which may load the account into the cache, and gives a
  default when there is no live object.
\<close>

definition query :: "database \<Rightarrow> address \<Rightarrow> 'a \<Rightarrow> (stateObject \<Rightarrow> StateDB \<Rightarrow> 'a \<times> StateDB) \<Rightarrow> StateDB \<Rightarrow> 'a \<times> StateDB" where
  "query db a d f s =
     (case getStateObject db a s of (Some obj, s) \<Rightarrow> f obj s | (None, s) \<Rightarrow> (d, s))"

definition Exist :: "database \<Rightarrow> address \<Rightarrow> StateDB \<Rightarrow> bool \<times> StateDB" where
  "Exist db a s = query db a False (\<lambda>obj s. (True, s)) s"

definition Empty :: "database \<Rightarrow> address \<Rightarrow> StateDB \<Rightarrow> bool \<times> StateDB" where
  "Empty db a s = query db a True (\<lambda>obj s. (so_empty db obj, s)) s"

definition GetBalance :: "database \<Rightarrow> address \<Rightarrow> StateDB \<Rightarrow> u256 \<times> StateDB" where
  "GetBalance db a s = query db a 0 (\<lambda>obj s. (Balance (so_data obj), s)) s"

definition GetNonce :: "database \<Rightarrow> address \<Rightarrow> StateDB \<Rightarrow> u64 \<times> StateDB" where
  "GetNonce db a s = query db a 0 (\<lambda>obj s. (Nonce (so_data obj), s)) s"

definition GetStorageRoot :: "database \<Rightarrow> address \<Rightarrow> StateDB \<Rightarrow> hash \<times> StateDB" where
  "GetStorageRoot db a s = query db a 0 (\<lambda>obj s. (Root (so_data obj), s)) s"

definition GetCode :: "database \<Rightarrow> address \<Rightarrow> StateDB \<Rightarrow> bytes option \<times> StateDB" where
  "GetCode db a s = query db a None
     (\<lambda>obj s. case so_Code db obj s of (c, obj, s) \<Rightarrow> (c, setStateObject obj s)) s"

definition GetCodeSize :: "database \<Rightarrow> address \<Rightarrow> StateDB \<Rightarrow> nat \<times> StateDB" where
  "GetCodeSize db a s = query db a 0 (\<lambda>obj s. so_CodeSize db obj s) s"

definition GetCodeHash :: "database \<Rightarrow> address \<Rightarrow> StateDB \<Rightarrow> hash \<times> StateDB" where
  "GetCodeHash db a s = query db a 0 (\<lambda>obj s. (CodeHash (so_data obj), s)) s"

definition GetState :: "database \<Rightarrow> address \<Rightarrow> hash \<Rightarrow> StateDB \<Rightarrow> hash \<times> StateDB" where
  "GetState db a k s = query db a 0
     (\<lambda>obj s. case so_GetState db obj k s of (v, obj, s) \<Rightarrow> (v, setStateObject obj s)) s"

definition GetCommittedState :: "database \<Rightarrow> address \<Rightarrow> hash \<Rightarrow> StateDB \<Rightarrow> hash \<times> StateDB" where
  "GetCommittedState db a k s = query db a 0
     (\<lambda>obj s. case so_GetCommittedState db obj k s of (v, obj, s) \<Rightarrow> (v, setStateObject obj s)) s"

definition HasSelfDestructed :: "database \<Rightarrow> address \<Rightarrow> StateDB \<Rightarrow> bool \<times> StateDB" where
  "HasSelfDestructed db a s = query db a False (\<lambda>obj s. (selfDestructed obj, s)) s"

definition GetTransientState :: "address \<Rightarrow> hash \<Rightarrow> StateDB \<Rightarrow> hash" where
  "GetTransientState a k s = ts_Get (sdb_transientStorage s) a k"

definition AddressInAccessList :: "address \<Rightarrow> StateDB \<Rightarrow> bool" where
  "AddressInAccessList a s = ContainsAddress (sdb_accessList s) a"

definition SlotInAccessList :: "address \<Rightarrow> hash \<Rightarrow> StateDB \<Rightarrow> (bool \<times> bool) go" where
  "SlotInAccessList a k s = Contains (sdb_accessList s) a k"

definition GetLogs :: "hash \<Rightarrow> u64 \<Rightarrow> hash \<Rightarrow> StateDB \<Rightarrow> Log list" where
  "GetLogs h blockNumber blockHash s =
     map (\<lambda>l. l\<lparr>log_BlockNumber := blockNumber, log_BlockHash := blockHash\<rparr>)
       (case sdb_logs s h of None \<Rightarrow> [] | Some ls \<Rightarrow> ls)"

section \<open>core/state/statedb.go: setters\<close>

definition mutate :: "database \<Rightarrow> address \<Rightarrow> (stateObject \<Rightarrow> StateDB \<Rightarrow> stateObject \<times> StateDB) \<Rightarrow> StateDB \<Rightarrow> StateDB" where
  "mutate db a f s =
     (case getOrNewStateObject db a s of (obj, s) \<Rightarrow>
        case f obj s of (obj, s) \<Rightarrow> setStateObject obj s)"

definition AddBalance :: "database \<Rightarrow> address \<Rightarrow> u256 \<Rightarrow> StateDB \<Rightarrow> StateDB" where
  "AddBalance db a amount = mutate db a (\<lambda>obj s. so_AddBalance db obj amount s)"

definition SubBalance :: "database \<Rightarrow> address \<Rightarrow> u256 \<Rightarrow> StateDB \<Rightarrow> StateDB" where
  "SubBalance db a amount = mutate db a (\<lambda>obj s. so_SubBalance obj amount s)"

definition SetBalance :: "database \<Rightarrow> address \<Rightarrow> u256 \<Rightarrow> StateDB \<Rightarrow> StateDB" where
  "SetBalance db a amount = mutate db a (\<lambda>obj s. so_SetBalance obj amount s)"

definition SetNonce :: "database \<Rightarrow> address \<Rightarrow> u64 \<Rightarrow> StateDB \<Rightarrow> StateDB" where
  "SetNonce db a n = mutate db a (\<lambda>obj s. so_SetNonce obj n s)"

definition SetCode :: "database \<Rightarrow> address \<Rightarrow> bytes \<Rightarrow> StateDB \<Rightarrow> StateDB" where
  "SetCode db a c = mutate db a (\<lambda>obj s. so_SetCode db obj (Keccak256Hash db c) (Some c) s)"

definition SetState :: "database \<Rightarrow> address \<Rightarrow> hash \<Rightarrow> hash \<Rightarrow> StateDB \<Rightarrow> StateDB" where
  "SetState db a k v = mutate db a (\<lambda>obj s. so_SetState db obj k v s)"

definition SelfDestruct :: "database \<Rightarrow> address \<Rightarrow> StateDB \<Rightarrow> StateDB" where
  "SelfDestruct db a s =
     (case getStateObject db a s of
        (None, s) \<Rightarrow> s
      | (Some obj, s) \<Rightarrow>
          setStateObject (so_setBalance 0 (markSelfdestructed obj))
            (log_change (selfDestructChange a (selfDestructed obj) (Balance (so_data obj))) s))"

definition Selfdestruct6780 :: "database \<Rightarrow> address \<Rightarrow> StateDB \<Rightarrow> StateDB" where
  "Selfdestruct6780 db a s =
     (case getStateObject db a s of
        (None, s) \<Rightarrow> s
      | (Some obj, s) \<Rightarrow> if so_created obj then SelfDestruct db a s else s)"

definition setTransientState :: "address \<Rightarrow> hash \<Rightarrow> hash \<Rightarrow> StateDB \<Rightarrow> StateDB" where
  "setTransientState a k v s = s\<lparr>sdb_transientStorage := ts_Set a k v (sdb_transientStorage s)\<rparr>"

definition SetTransientState :: "address \<Rightarrow> hash \<Rightarrow> hash \<Rightarrow> StateDB \<Rightarrow> StateDB" where
  "SetTransientState a k v s =
     (let prev = GetTransientState a k s
      in if prev = v then s
         else setTransientState a k v (log_change (transientStorageChange a k prev) s))"

definition AddLog :: "Log \<Rightarrow> StateDB \<Rightarrow> StateDB" where
  "AddLog l s =
     (let s = log_change (addLogChange (thash s)) s;
          l = l\<lparr>log_TxHash := thash s, log_TxIndex := word_of_int (txIndex s), log_Index := logSize s\<rparr>
      in s\<lparr>sdb_logs := (sdb_logs s)(thash s \<mapsto>
             (case sdb_logs s (thash s) of None \<Rightarrow> [] | Some ls \<Rightarrow> ls) @ [l]),
           logSize := logSize s + 1\<rparr>)"

definition AddPreimage :: "hash \<Rightarrow> bytes \<Rightarrow> StateDB \<Rightarrow> StateDB" where
  "AddPreimage h pre s =
     (if preimages s h \<noteq> None then s
      else (log_change (addPreimageChange h) s)\<lparr>preimages := (preimages s)(h \<mapsto> pre)\<rparr>)"

definition AddRefund :: "u64 \<Rightarrow> StateDB \<Rightarrow> StateDB" where
  "AddRefund g s = (log_change (refundChange (sdb_refund s)) s)\<lparr>sdb_refund := sdb_refund s + g\<rparr>"

definition SubRefund :: "u64 \<Rightarrow> StateDB \<Rightarrow> StateDB go" where
  "SubRefund g s =
     (let s = log_change (refundChange (sdb_refund s)) s
      in if g > sdb_refund s then Panic RefundBelowZero
         else Ret (s\<lparr>sdb_refund := sdb_refund s - g\<rparr>))"

definition AddAddressToAccessList :: "address \<Rightarrow> StateDB \<Rightarrow> StateDB" where
  "AddAddressToAccessList a s =
     (case AddAddress a (sdb_accessList s) of (ch, al) \<Rightarrow>
        let s = s\<lparr>sdb_accessList := al\<rparr>
        in if ch then log_change (accessListAddAccountChange a) s else s)"

definition AddSlotToAccessList :: "address \<Rightarrow> hash \<Rightarrow> StateDB \<Rightarrow> StateDB go" where
  "AddSlotToAccessList a slot s =
     go_bind (AddSlot a slot (sdb_accessList s)) (\<lambda>((addrMod, slotMod), al).
       let s = s\<lparr>sdb_accessList := al\<rparr>;
           s = (if addrMod then log_change (accessListAddAccountChange a) s else s)
       in Ret (if slotMod then log_change (accessListAddSlotChange a slot) s else s))"

section \<open>Preparing a transaction\<close>

definition SetTxContext :: "hash \<Rightarrow> int \<Rightarrow> StateDB \<Rightarrow> StateDB" where
  "SetTxContext h ti s = s\<lparr>thash := h, txIndex := ti\<rparr>"

type_synonym access_tuple = "address \<times> hash list"

primrec add_slots :: "address \<Rightarrow> hash list \<Rightarrow> accessList \<Rightarrow> accessList go" where
  "add_slots a [] al = Ret al"
| "add_slots a (k # ks) al = go_bind (AddSlot a k al) (\<lambda>(ch, al). add_slots a ks al)"

fun add_tuples :: "access_tuple list \<Rightarrow> accessList \<Rightarrow> accessList go" where
  "add_tuples [] al = Ret al"
| "add_tuples ((a, ks) # els) al = go_bind (add_slots a ks (snd (AddAddress a al))) (add_tuples els)"

definition Prepare ::
  "rules \<Rightarrow> address \<Rightarrow> address \<Rightarrow> address option \<Rightarrow> address list \<Rightarrow> access_tuple list \<Rightarrow> StateDB \<Rightarrow> StateDB go" where
  "Prepare rules sender coinbase dst precompiles list s =
     go_bind
       (if IsBerlin rules then
          (let al = snd (AddAddress sender newAccessList);
               al = (case dst of None \<Rightarrow> al | Some d \<Rightarrow> snd (AddAddress d al));
               al = foldl (\<lambda>al a. snd (AddAddress a al)) al precompiles
           in go_bind (add_tuples list al) (\<lambda>al.
                Ret (s\<lparr>sdb_accessList := (if IsShanghai rules then snd (AddAddress coinbase al) else al)\<rparr>)))
        else Ret s)
       (\<lambda>s. Ret (s\<lparr>sdb_transientStorage := newTransientStorage\<rparr>))"

section \<open>core/state/journal.go: reverting\<close>

definition revert_object ::
  "database \<Rightarrow> address \<Rightarrow> (stateObject \<Rightarrow> stateObject) \<Rightarrow> StateDB \<Rightarrow> StateDB go" where
  "revert_object db a f s =
     (case getStateObject db a s of
        (None, s) \<Rightarrow> Panic NilDereference
      | (Some obj, s) \<Rightarrow> Ret (setStateObject (f obj) s))"

fun revert_entry :: "database \<Rightarrow> journalEntry \<Rightarrow> StateDB \<Rightarrow> StateDB go" where
  "revert_entry db (createObjectChange a) s =
     Ret (s\<lparr>stateObjects := (stateObjects s)(a := None), stateObjectsDirty := stateObjectsDirty s - {a}\<rparr>)"
| "revert_entry db (resetObjectChange a p pdestruct pAccount pStorage pOriginExist pOrigin pStorageOrigin) s =
     (let s = setStateObject p s;
          s = (if \<not> pdestruct
               then s\<lparr>stateObjectsDestruct := (stateObjectsDestruct s)(so_address p := None)\<rparr> else s);
          s = (case pAccount of None \<Rightarrow> s | Some x \<Rightarrow> s\<lparr>accounts := (accounts s)(so_addrHash p \<mapsto> x)\<rparr>);
          s = (case pStorage of None \<Rightarrow> s | Some x \<Rightarrow> s\<lparr>storages := (storages s)(so_addrHash p \<mapsto> x)\<rparr>);
          s = (if pOriginExist then s\<lparr>accountsOrigin := (accountsOrigin s)(so_address p \<mapsto> pOrigin)\<rparr> else s)
      in Ret (case pStorageOrigin of None \<Rightarrow> s
              | Some x \<Rightarrow> s\<lparr>storagesOrigin := (storagesOrigin s)(so_address p \<mapsto> x)\<rparr>))"
| "revert_entry db (selfDestructChange a prev prevbalance) s =
     (case getStateObject db a s of
        (None, s) \<Rightarrow> Ret s
      | (Some obj, s) \<Rightarrow> Ret (setStateObject (so_setBalance prevbalance (obj\<lparr>selfDestructed := prev\<rparr>)) s))"
| "revert_entry db (touchChange a) s = Ret s"
| "revert_entry db (balanceChange a prev) s = revert_object db a (so_setBalance prev) s"
| "revert_entry db (nonceChange a prev) s = revert_object db a (so_setNonce prev) s"
| "revert_entry db (codeChange a prevcode prevhash) s = revert_object db a (so_setCode prevhash prevcode) s"
| "revert_entry db (storageChange a key prevalue) s = revert_object db a (so_setState key prevalue) s"
| "revert_entry db (transientStorageChange a key prevalue) s = Ret (setTransientState a key prevalue s)"
| "revert_entry db (refundChange prev) s = Ret (s\<lparr>sdb_refund := prev\<rparr>)"
| "revert_entry db (addLogChange h) s =
     (let ls = (case sdb_logs s h of None \<Rightarrow> [] | Some ls \<Rightarrow> ls)
      in if length ls = 1 then Ret (s\<lparr>sdb_logs := (sdb_logs s)(h := None), logSize := logSize s - 1\<rparr>)
         else if ls = [] then Panic SliceOutOfRange
         else Ret (s\<lparr>sdb_logs := (sdb_logs s)(h \<mapsto> butlast ls), logSize := logSize s - 1\<rparr>))"
| "revert_entry db (addPreimageChange h) s = Ret (s\<lparr>preimages := (preimages s)(h := None)\<rparr>)"
| "revert_entry db (accessListAddAccountChange a) s =
     Ret (s\<lparr>sdb_accessList := DeleteAddress a (sdb_accessList s)\<rparr>)"
| "revert_entry db (accessListAddSlotChange a slot) s =
     go_bind (DeleteSlot a slot (sdb_accessList s)) (\<lambda>al. Ret (s\<lparr>sdb_accessList := al\<rparr>))"

text \<open>Drop the dirty count of one entry; the count is removed when it reaches 0.\<close>

definition undirty :: "journalEntry \<Rightarrow> StateDB \<Rightarrow> StateDB" where
  "undirty e s =
     (case dirtied e of
        None \<Rightarrow> s
      | Some a \<Rightarrow>
          let j = sdb_journal s; n = count_of (dirties j) a - 1
          in s\<lparr>sdb_journal := j\<lparr>dirties := (if n = 0 then (dirties j)(a := None) else (dirties j)(a \<mapsto> n))\<rparr>\<rparr>)"

text \<open>The loop of \<open>revert\<close>, over the entries to undo, the last one first.\<close>

primrec revert_entries :: "database \<Rightarrow> journalEntry list \<Rightarrow> StateDB \<Rightarrow> StateDB go" where
  "revert_entries db [] s = Ret s"
| "revert_entries db (e # es) s =
     go_bind (revert_entry db e s) (\<lambda>s. revert_entries db es (undirty e s))"

definition journal_revert :: "database \<Rightarrow> nat \<Rightarrow> StateDB \<Rightarrow> StateDB go" where
  "journal_revert db snap s =
     (let es = entries (sdb_journal s)
      in go_bind (revert_entries db (rev (drop snap es)) s) (\<lambda>s.
           if snap \<le> length es
           then Ret (s\<lparr>sdb_journal := (sdb_journal s)\<lparr>entries := take snap (entries (sdb_journal s))\<rparr>\<rparr>)
           else Panic SliceOutOfRange))"

text \<open>\<open>sort.Search(n, f)\<close> of the Go library: binary search for the first index where \<open>f\<close> holds.\<close>

function sort_search :: "(nat \<Rightarrow> bool) \<Rightarrow> nat \<Rightarrow> nat \<Rightarrow> nat" where
  "sort_search f i j =
     (if i < j then let h = (i + j) div 2 in if \<not> f h then sort_search f (h + 1) j else sort_search f i h
      else i)"
  by pat_completeness auto
termination by (relation "measure (\<lambda>(f, i, j). j - i)") auto

declare sort_search.simps [simp del]

definition Snapshot :: "StateDB \<Rightarrow> nat \<times> StateDB" where
  "Snapshot s =
     (nextRevisionId s,
      s\<lparr>nextRevisionId := nextRevisionId s + 1,
        validRevisions := validRevisions s @ [(nextRevisionId s, length (entries (sdb_journal s)))]\<rparr>)"

definition RevertToSnapshot :: "database \<Rightarrow> nat \<Rightarrow> StateDB \<Rightarrow> StateDB go" where
  "RevertToSnapshot db revid s =
     (let revs = validRevisions s;
          idx = sort_search (\<lambda>i. fst (revs ! i) \<ge> revid) 0 (length revs)
      in if idx = length revs \<or> fst (revs ! idx) \<noteq> revid then Panic RevisionNotFound
         else go_bind (journal_revert db (snd (revs ! idx)) s) (\<lambda>s.
                Ret (s\<lparr>validRevisions := take idx (validRevisions s)\<rparr>)))"

section \<open>Finalise and Copy\<close>

text \<open>
  \<open>Finalise\<close> ranges over the map of dirty addresses, whose order Go leaves open: the order is the
  argument \<open>order\<close>, an enumeration of that map.
\<close>

definition finalise_one :: "database \<Rightarrow> bool \<Rightarrow> address \<Rightarrow> StateDB \<Rightarrow> StateDB" where
  "finalise_one db deleteEmptyObjects a s =
     (case stateObjects s a of
        None \<Rightarrow> s
      | Some obj \<Rightarrow>
          (let (obj, s) =
             (if selfDestructed obj \<or> (deleteEmptyObjects \<and> so_empty db obj) then
                (obj\<lparr>so_deleted := True\<rparr>,
                 s\<lparr>stateObjectsDestruct :=
                     (if stateObjectsDestruct s (so_address obj) = None
                      then (stateObjectsDestruct s)(so_address obj \<mapsto> so_origin obj)
                      else stateObjectsDestruct s),
                   accounts := (accounts s)(so_addrHash obj := None),
                   storages := (storages s)(so_addrHash obj := None),
                   accountsOrigin := (accountsOrigin s)(so_address obj := None),
                   storagesOrigin := (storagesOrigin s)(so_address obj := None)\<rparr>)
              else (so_finalise obj, s))
           in s\<lparr>stateObjects := (stateObjects s)(a \<mapsto> obj\<lparr>so_created := False\<rparr>),
                stateObjectsPending := insert a (stateObjectsPending s),
                stateObjectsDirty := insert a (stateObjectsDirty s)\<rparr>))"

definition clearJournalAndRefund :: "StateDB \<Rightarrow> StateDB" where
  "clearJournalAndRefund s =
     (let s = (if entries (sdb_journal s) \<noteq> [] then s\<lparr>sdb_journal := newJournal, sdb_refund := 0\<rparr> else s)
      in s\<lparr>validRevisions := []\<rparr>)"

definition Finalise :: "database \<Rightarrow> address list \<Rightarrow> bool \<Rightarrow> StateDB \<Rightarrow> StateDB" where
  "Finalise db order deleteEmptyObjects s =
     clearJournalAndRefund (fold (finalise_one db deleteEmptyObjects) order s)"

text \<open>
  \<open>Copy\<close>. The objects copied are the journalled ones that exist, the pending ones and the dirty
  ones; a pending or dirty address without an object is a nil dereference. The last two of the four
  maps of changes are copied from the new state, not from the old one, as the source has it.
\<close>

definition StateDB_Copy :: "StateDB \<Rightarrow> StateDB go" where
  "StateDB_Copy s =
     (let journalled = dom (dirties (sdb_journal s)) \<inter> dom (stateObjects s)
      in if stateObjectsPending s \<union> stateObjectsDirty s \<subseteq> dom (stateObjects s) then
           Ret \<lparr>sdb_trie = sdb_trie s, sdb_snap = sdb_snap s, originalRoot = originalRoot s,
             accounts = accounts s, storages = storages s,
             accountsOrigin = Map.empty, storagesOrigin = Map.empty,
             stateObjects = (\<lambda>a. if a \<in> journalled \<union> stateObjectsPending s \<union> stateObjectsDirty s
                                 then map_option deepCopy (stateObjects s a) else None),
             stateObjectsPending = journalled \<union> stateObjectsPending s,
             stateObjectsDirty = journalled \<union> stateObjectsDirty s,
             stateObjectsDestruct = stateObjectsDestruct s,
             dbErr = None, sdb_refund = sdb_refund s, thash = 0, txIndex = 0,
             sdb_logs = sdb_logs s, logSize = logSize s, preimages = preimages s,
             sdb_accessList = accessList_Copy (sdb_accessList s),
             sdb_transientStorage = ts_Copy (sdb_transientStorage s),
             sdb_journal = newJournal, validRevisions = [], nextRevisionId = 0\<rparr>
         else Panic NilDereference)"

end
