(* ===== verification/StateDB_Revert.thy ===== *)
theory StateDB_Revert imports StateDB begin

text \<open>
  The journal undoes what it recorded. \<open>view\<close> is what the queries of a StateDB can observe, with
  the caches (loaded objects, loaded slots, opened tries, the remembered database error) removed;
  \<open>undo\<close> is what undoing a journal entry does to the view. The locale \<open>undo_log\<close> states the
  contract between a state with a log and its undo function, and derives that reverting a log
  restores the view; it is interpreted on the StateDB.
\<close>

section \<open>A state with a log of changes\<close>

primrec undo_all :: "('e \<Rightarrow> 'v \<Rightarrow> 'v option) \<Rightarrow> 'e list \<Rightarrow> 'v \<Rightarrow> 'v option" where
  "undo_all u [] v = Some v"
| "undo_all u (e # es) v = Option.bind (u e v) (undo_all u es)"

lemma undo_all_append:
  "undo_all u (xs @ ys) v = Option.bind (undo_all u xs v) (undo_all u ys)"
  by (induction xs arbitrary: v) (auto simp: bind_eq_Some_conv split: Option.bind_splits)

primrec revert_all :: "('e \<Rightarrow> 's \<Rightarrow> 's go) \<Rightarrow> 'e list \<Rightarrow> 's \<Rightarrow> 's go" where
  "revert_all r [] s = Ret s"
| "revert_all r (e # es) s = go_bind (r e s) (revert_all r es)"

text \<open>
  \<open>rev1\<close> takes one entry back on the state. The law: where the view says that an entry can be
  undone, the state can be reverted, to a state with the undone view.
\<close>

locale undo_log =
  fixes ok :: "'s \<Rightarrow> bool" and view :: "'s \<Rightarrow> 'v" and log :: "'s \<Rightarrow> 'e list" and ctx :: "'s \<Rightarrow> 'c"
    and undo :: "'c \<Rightarrow> 'e \<Rightarrow> 'v \<Rightarrow> 'v option" and rev1 :: "'e \<Rightarrow> 's \<Rightarrow> 's go"
  assumes rev1: "ok s \<Longrightarrow> undo (ctx s) e (view s) = Some v \<Longrightarrow>
    \<exists>s'. rev1 e s = Ret s' \<and> ok s' \<and> view s' = v \<and> ctx s' = ctx s \<and> log s' = log s"
begin

text \<open>\<open>later s s'\<close>: \<open>s'\<close> comes after \<open>s\<close>, and the entries logged in between lead back.\<close>

definition later :: "'s \<Rightarrow> 's \<Rightarrow> bool" where
  "later s s' \<longleftrightarrow> ok s' \<and> ctx s' = ctx s \<and>
     (\<exists>es. log s' = log s @ es \<and> undo_all (undo (ctx s)) (rev es) (view s') = Some (view s))"

lemma later_refl: "ok s \<Longrightarrow> later s s"
  by (auto simp: later_def)

lemma later_trans: "later s t \<Longrightarrow> later t u \<Longrightarrow> later s u"
  by (fastforce simp: later_def undo_all_append)

lemma revert_all_view:
  "ok s \<Longrightarrow> undo_all (undo (ctx s)) es (view s) = Some v \<Longrightarrow>
   \<exists>s'. revert_all rev1 es s = Ret s' \<and> ok s' \<and> view s' = v \<and> ctx s' = ctx s \<and> log s' = log s"
proof (induction es arbitrary: s)
  case (Cons e es)
  from Cons.prems(2) obtain v1 where v1: "undo (ctx s) e (view s) = Some v1"
    "undo_all (undo (ctx s)) es v1 = Some v" by (auto simp: bind_eq_Some_conv)
  from rev1 [OF Cons.prems(1) v1(1)] obtain s1 where
    s1: "rev1 e s = Ret s1" "ok s1" "view s1 = v1" "ctx s1 = ctx s" "log s1 = log s" by blast
  from Cons.IH [of s1] s1 v1 show ?case by auto
qed simp

text \<open>Reverting the entries after the first \<open>n\<close>, for a point between \<open>s\<close> and \<open>s'\<close>.\<close>

lemma later_revert:
  assumes "later s s'" "length (log s) \<le> n" "n \<le> length (log s')"
  shows "\<exists>t. revert_all rev1 (rev (drop n (log s'))) s' = Ret t \<and> ok t \<and> ctx t = ctx s \<and> log t = log s' \<and>
    undo_all (undo (ctx s)) (rev (drop (length (log s)) (take n (log s')))) (view t) = Some (view s)"
proof -
  obtain es where es: "ok s'" "ctx s' = ctx s" "log s' = log s @ es"
    "undo_all (undo (ctx s)) (rev es) (view s') = Some (view s)"
    using assms(1) by (auto simp: later_def)
  define k where "k = n - length (log s)"
  have d: "drop n (log s') = drop k es" "drop (length (log s)) (take n (log s')) = take k es"
    using assms(2,3) es(3) by (simp_all add: k_def)
  have "rev es = rev (drop k es) @ rev (take k es)" by (simp flip: rev_append)
  with es(4) obtain v where v: "undo_all (undo (ctx s)) (rev (drop k es)) (view s') = Some v"
    "undo_all (undo (ctx s)) (rev (take k es)) v = Some (view s)"
    by (auto simp: undo_all_append bind_eq_Some_conv)
  from revert_all_view [of s' "rev (drop k es)" v] es v show ?thesis unfolding d by auto
qed

end

type_synonym backing = "hash \<times> account_trie \<times> snapshot option"

definition backing :: "StateDB \<Rightarrow> backing" where
  "backing s = (originalRoot s, sdb_trie s, sdb_snap s)"

text \<open>A StateDB with nothing cached over the same databases.\<close>

definition fresh :: "backing \<Rightarrow> StateDB" where
  "fresh bk = (case bk of (r, t, sn) \<Rightarrow> StateDB_New r t sn)"

section \<open>The values behind the caches\<close>

lemma backing_simps [simp]:
  "backing (setStateObject obj s) = backing s"
  "backing (log_change e s) = backing s"
  "backing (setError err s) = backing s"
  "backing (s\<lparr>stateObjectsDestruct := x1\<rparr>) = backing s"
  "backing (s\<lparr>accounts := x2\<rparr>) = backing s"
  "backing (s\<lparr>storages := x3\<rparr>) = backing s"
  "backing (s\<lparr>accountsOrigin := x4\<rparr>) = backing s"
  "backing (s\<lparr>storagesOrigin := x5\<rparr>) = backing s"
  "backing (s\<lparr>stateObjects := x6\<rparr>) = backing s"
  "backing (s\<lparr>stateObjectsDirty := x7\<rparr>) = backing s"
  "backing (s\<lparr>sdb_refund := x8\<rparr>) = backing s"
  "backing (s\<lparr>sdb_logs := x9\<rparr>) = backing s"
  "backing (s\<lparr>logSize := x10\<rparr>) = backing s"
  "backing (s\<lparr>preimages := x11\<rparr>) = backing s"
  "backing (s\<lparr>sdb_accessList := x12\<rparr>) = backing s"
  "backing (s\<lparr>sdb_transientStorage := x13\<rparr>) = backing s"
  "backing (s\<lparr>sdb_journal := x14\<rparr>) = backing s"
  "backing (s\<lparr>validRevisions := x15\<rparr>) = backing s"
  "backing (s\<lparr>nextRevisionId := x16\<rparr>) = backing s"
  by (simp_all add: backing_def setStateObject_def log_change_def setError_def)

lemma setError_simps [simp]:
  "sdb_snap (setError e s) = sdb_snap s" "sdb_trie (setError e s) = sdb_trie s"
  "originalRoot (setError e s) = originalRoot s" "stateObjects (setError e s) = stateObjects s"
  "stateObjectsDestruct (setError e s) = stateObjectsDestruct s"
  by (simp_all add: setError_def)

lemma fresh_simps [simp]:
  "sdb_snap (fresh (backing s)) = sdb_snap s" "sdb_trie (fresh (backing s)) = sdb_trie s"
  "originalRoot (fresh (backing s)) = originalRoot s"
  by (simp_all add: fresh_def backing_def StateDB_New_def)

text \<open>\<open>erred s s'\<close>: \<open>s'\<close> is \<open>s\<close>, but for the remembered error.\<close>

definition erred :: "StateDB \<Rightarrow> StateDB \<Rightarrow> bool" where
  "erred s s' \<longleftrightarrow> (\<exists>e. s' = s\<lparr>dbErr := e\<rparr>)"

lemma erred_refl [simp]: "erred s s"
  by (auto simp: erred_def intro: exI [of _ "dbErr s"])

lemma erred_setError [simp]: "erred s (setError e s)"
  by (auto simp: erred_def setError_def intro: exI [of _ "dbErr s"])

lemma erred_trans: "erred s t \<Longrightarrow> erred t u \<Longrightarrow> erred s u"
  by (auto simp: erred_def)

definition snap_val :: "database \<Rightarrow> snapshot option \<Rightarrow> hash \<Rightarrow> hash \<Rightarrow> hash \<times> db_error option" where
  "snap_val db sn addrHash key = (case sn of None \<Rightarrow> (0, None)
     | Some sn \<Rightarrow> let (enc, err) = snap_Storage sn addrHash (Keccak256Hash db (Bytes32 key))
        in (if enc = [] then 0 else case rlp_content enc of Inl e \<Rightarrow> 0 | Inr c \<Rightarrow> hash_SetBytes 0 c, err))"

lemma snap_slot_val:
  "\<exists>s'. snap_slot db obj k s = (fst (snap_val db (sdb_snap s) (so_addrHash obj) k),
      snd (snap_val db (sdb_snap s) (so_addrHash obj) k), s') \<and> erred s s'"
  by (auto simp: snap_slot_def snap_val_def Let_def split: option.splits sum.splits prod.splits)

definition trie_val :: "database \<Rightarrow> hash \<Rightarrow> stateObject \<Rightarrow> hash \<Rightarrow> hash \<Rightarrow> hash" where
  "trie_val db root obj val key =
     (case (case so_trie obj of Some tr \<Rightarrow> Inr tr | None \<Rightarrow> OpenStorageTrie db root (so_address obj) (Root (so_data obj))) of
        Inl e \<Rightarrow> 0 | Inr tr \<Rightarrow> (case tr key of Inl e \<Rightarrow> 0 | Inr v \<Rightarrow> hash_SetBytes val v))"

definition slot_val :: "database \<Rightarrow> backing \<Rightarrow> stateObject \<Rightarrow> hash \<Rightarrow> hash" where
  "slot_val db bk obj key = (case bk of (root, tr, sn) \<Rightarrow>
     (case snap_val db sn (so_addrHash obj) key of (val, err) \<Rightarrow>
        if sn = None \<or> err \<noteq> None then trie_val db root obj val key else val))"

definition opened :: "database \<Rightarrow> hash \<Rightarrow> stateObject \<Rightarrow> storage_trie option \<Rightarrow> bool" where
  "opened db root obj t \<longleftrightarrow> t = so_trie obj \<or>
     so_trie obj = None \<and> (\<exists>tr. t = Some tr \<and> OpenStorageTrie db root (so_address obj) (Root (so_data obj)) = Inr tr)"

text \<open>\<open>load_slot\<close> returns the value behind the caches and changes the object only by caching.\<close>

lemma load_slot_spec:
  "\<exists>t os s'. load_slot db obj k s =
      (slot_val db (backing s) obj k, obj\<lparr>so_trie := t, originStorage := os\<rparr>, s') \<and>
    erred s s' \<and> opened db (originalRoot s) obj t \<and>
    (os = originStorage obj \<or> os = (originStorage obj)(k \<mapsto> slot_val db (backing s) obj k))"
proof -
  obtain val err where v: "snap_val db (sdb_snap s) (so_addrHash obj) k = (val, err)" by force
  obtain s1 where s1: "snap_slot db obj k s = (val, err, s1)" "erred s s1"
    using snap_slot_val [of db obj k s] v by auto
  have sn: "sdb_snap s1 = sdb_snap s" "originalRoot s1 = originalRoot s" using s1(2) by (auto simp: erred_def)
  have e: "erred s (setError x s1)" for x using s1(2) erred_setError erred_trans by blast
  show ?thesis
  proof (cases "sdb_snap s = None \<or> err \<noteq> None")
    case False
    then have "load_slot db obj k s = (val, obj\<lparr>originStorage := (originStorage obj)(k \<mapsto> val)\<rparr>, s1)"
      by (auto simp: load_slot_def s1 sn)
    moreover have "slot_val db (backing s) obj k = val"
      using False by (auto simp: slot_val_def backing_def v)
    ultimately show ?thesis using s1(2)
      by (intro exI [of _ "so_trie obj"] exI [of _ "(originStorage obj)(k \<mapsto> val)"] exI [of _ s1])
        (simp add: opened_def)
  next
    case True
    have sv: "slot_val db (backing s) obj k = trie_val db (originalRoot s) obj val k"
      using True by (simp add: slot_val_def backing_def v)
    show ?thesis
    proof (cases "getTrie db obj s1")
      case (Inl x)
      then have "load_slot db obj k s = (0, obj, setError x s1)"
        using True by (simp add: load_slot_def s1 sn)
      moreover have "trie_val db (originalRoot s) obj val k = 0"
        using Inl by (auto simp: trie_val_def getTrie_def sn split: option.splits sum.splits)
      ultimately show ?thesis using e [of x] sv
        by (intro exI [of _ "so_trie obj"] exI [of _ "originStorage obj"] exI [of _ "setError x s1"])
          (simp add: opened_def)
    next
      case (Inr r)
      then obtain tr t where r: "r = (tr, obj\<lparr>so_trie := t\<rparr>)" "opened db (originalRoot s) obj t"
        "(case so_trie obj of Some tr \<Rightarrow> Inr tr | None \<Rightarrow> OpenStorageTrie db (originalRoot s) (so_address obj) (Root (so_data obj))) = Inr tr"
        by (fastforce simp: getTrie_def opened_def sn split: option.splits sum.splits)
      show ?thesis
      proof (cases "tr k")
        case (Inl x)
        then have "load_slot db obj k s = (0, obj\<lparr>so_trie := t\<rparr>, setError x s1)"
          using True Inr r by (simp add: load_slot_def s1 sn)
        moreover have "trie_val db (originalRoot s) obj val k = 0" using r(3) Inl by (simp add: trie_val_def)
        ultimately show ?thesis using e [of x] sv r(2)
          by (intro exI [of _ t] exI [of _ "originStorage obj"] exI [of _ "setError x s1"]) simp
      next
        case (Inr y)
        define w where "w = hash_SetBytes val y"
        have "load_slot db obj k s = (w, obj\<lparr>so_trie := t, originStorage := (originStorage obj)(k \<mapsto> w)\<rparr>, s1)"
          using True Inr \<open>getTrie db obj s1 = Inr r\<close> r by (simp add: load_slot_def s1 sn w_def Let_def)
        moreover have "trie_val db (originalRoot s) obj val k = w" using r(3) Inr by (simp add: trie_val_def w_def)
        ultimately show ?thesis using s1(2) sv r(2)
          by (intro exI [of _ t] exI [of _ "(originStorage obj)(k \<mapsto> w)"] exI [of _ s1]) simp
      qed
    qed
  qed
qed

section \<open>What can be observed\<close>

record obj_view =
  ov_Nonce :: u64
  ov_Balance :: u256
  ov_Root :: hash
  ov_CodeHash :: hash
  ov_Code :: "bytes option"
  ov_State :: "hash \<Rightarrow> hash"
  ov_Committed :: "hash \<Rightarrow> hash"
  ov_origin :: "StateAccount option"
  ov_selfDestructed :: bool
  ov_deleted :: bool
  ov_created :: bool

definition committed_of :: "database \<Rightarrow> backing \<Rightarrow> bool \<Rightarrow> stateObject \<Rightarrow> hash \<Rightarrow> hash" where
  "committed_of db bk destructed obj k =
     (case pendingStorage obj k of Some v \<Rightarrow> v | None \<Rightarrow>
      (case originStorage obj k of Some v \<Rightarrow> v | None \<Rightarrow>
        if destructed then 0 else slot_val db bk obj k))"

definition code_of :: "database \<Rightarrow> stateObject \<Rightarrow> bytes option" where
  "code_of db obj =
     (case so_code obj of Some c \<Rightarrow> Some c | None \<Rightarrow>
        if CodeHash (so_data obj) = EmptyCodeHash db then None
        else fst (ContractCode db (so_address obj) (CodeHash (so_data obj))))"

definition obj_view :: "database \<Rightarrow> backing \<Rightarrow> bool \<Rightarrow> stateObject \<Rightarrow> obj_view" where
  "obj_view db bk destructed obj =
     \<lparr>ov_Nonce = Nonce (so_data obj), ov_Balance = Balance (so_data obj), ov_Root = Root (so_data obj),
      ov_CodeHash = CodeHash (so_data obj), ov_Code = code_of db obj,
      ov_State = (\<lambda>k. case dirtyStorage obj k of Some v \<Rightarrow> v | None \<Rightarrow> committed_of db bk destructed obj k),
      ov_Committed = committed_of db bk destructed obj,
      ov_origin = so_origin obj, ov_selfDestructed = selfDestructed obj,
      ov_deleted = so_deleted obj, ov_created = so_created obj\<rparr>"

record sdb_view =
  v_obj :: "address \<Rightarrow> obj_view option"
  v_destruct :: "address \<rightharpoonup> StateAccount option"
  v_accounts :: "hash \<rightharpoonup> bytes"
  v_storages :: "hash \<rightharpoonup> storage_set"
  v_accountsOrigin :: "address \<rightharpoonup> bytes option"
  v_storagesOrigin :: "address \<rightharpoonup> storage_set"
  v_dirtyset :: "address set"
  v_refund :: u64
  v_logs :: "hash \<Rightarrow> Log list"
  v_logSize :: u64
  v_preimages :: "hash \<rightharpoonup> bytes"
  v_accessList :: accessList
  v_transient :: "address \<Rightarrow> hash \<Rightarrow> hash"
  v_dirties :: "address \<Rightarrow> int"

definition logs_of :: "StateDB \<Rightarrow> hash \<Rightarrow> Log list" where
  "logs_of s h = (case sdb_logs s h of None \<Rightarrow> [] | Some ls \<Rightarrow> ls)"

text \<open>The object of an address: the cached one, or the one that would be loaded.\<close>

definition loaded :: "database \<Rightarrow> backing \<Rightarrow> address \<Rightarrow> stateObject option" where
  "loaded db bk a = (case lookup_account db a (fresh bk) of
     Inr (Some acct) \<Rightarrow> Some (newObject db a (Some acct)) | _ \<Rightarrow> None)"

definition obj_at :: "database \<Rightarrow> StateDB \<Rightarrow> address \<Rightarrow> stateObject option" where
  "obj_at db s a = (case stateObjects s a of Some obj \<Rightarrow> Some obj | None \<Rightarrow> loaded db (backing s) a)"

text \<open>
  The dirty count of the RIPEMD precompile is left out: \<open>touch\<close> raises it on purpose in a way
  that reverting does not undo.
\<close>

definition sview :: "database \<Rightarrow> StateDB \<Rightarrow> sdb_view" where
  "sview db s =
     \<lparr>v_obj = (\<lambda>a. map_option (obj_view db (backing s) (stateObjectsDestruct s a \<noteq> None)) (obj_at db s a)),
      v_destruct = stateObjectsDestruct s, v_accounts = accounts s, v_storages = storages s,
      v_accountsOrigin = accountsOrigin s, v_storagesOrigin = storagesOrigin s,
      v_dirtyset = stateObjectsDirty s, v_refund = sdb_refund s, v_logs = logs_of s, v_logSize = logSize s,
      v_preimages = preimages s, v_accessList = sdb_accessList s,
      v_transient = ts_Get (sdb_transientStorage s),
      v_dirties = (\<lambda>a. if a = ripemd then 0 else count_of (dirties (sdb_journal s)) a)\<rparr>"

definition sdb_ok :: "StateDB \<Rightarrow> bool" where
  "sdb_ok s \<longleftrightarrow>
     (\<forall>a obj. stateObjects s a = Some obj \<longrightarrow> so_address obj = a) \<and>
     stateObjectsDirty s \<subseteq> dom (stateObjects s) \<and>
     al_ok (sdb_accessList s) \<and>
     (\<forall>a n. a \<noteq> ripemd \<and> dirties (sdb_journal s) a = Some n \<longrightarrow> 0 < n)"

section \<open>Undoing on the view\<close>

definition upd_obj :: "address \<Rightarrow> (obj_view \<Rightarrow> obj_view) \<Rightarrow> sdb_view \<Rightarrow> sdb_view option" where
  "upd_obj a f v = (case v_obj v a of
     Some ov \<Rightarrow> if ov_deleted ov then None else Some (v\<lparr>v_obj := (v_obj v)(a \<mapsto> f ov)\<rparr>)
   | None \<Rightarrow> None)"

fun undo_entry :: "database \<Rightarrow> backing \<Rightarrow> journalEntry \<Rightarrow> sdb_view \<Rightarrow> sdb_view option" where
  "undo_entry db bk (createObjectChange a) v =
     Some (v\<lparr>v_obj := (v_obj v)(a := map_option (obj_view db bk (v_destruct v a \<noteq> None)) (loaded db bk a)),
             v_dirtyset := v_dirtyset v - {a}\<rparr>)"
| "undo_entry db bk (resetObjectChange a p pdestruct pAccount pStorage pOriginExist pOrigin pStorageOrigin) v =
     (if so_address p = a then
        Some (v\<lparr>v_destruct := (if pdestruct then v_destruct v else (v_destruct v)(a := None)),
          v_obj := (v_obj v)(a \<mapsto> obj_view db bk (pdestruct \<and> v_destruct v a \<noteq> None) p),
          v_accounts := (case pAccount of None \<Rightarrow> v_accounts v | Some x \<Rightarrow> (v_accounts v)(so_addrHash p \<mapsto> x)),
          v_storages := (case pStorage of None \<Rightarrow> v_storages v | Some x \<Rightarrow> (v_storages v)(so_addrHash p \<mapsto> x)),
          v_accountsOrigin := (if pOriginExist then (v_accountsOrigin v)(a \<mapsto> pOrigin) else v_accountsOrigin v),
          v_storagesOrigin := (case pStorageOrigin of None \<Rightarrow> v_storagesOrigin v
                               | Some x \<Rightarrow> (v_storagesOrigin v)(a \<mapsto> x))\<rparr>)
      else None)"
| "undo_entry db bk (selfDestructChange a prev bal) v =
     upd_obj a (\<lambda>ov. ov\<lparr>ov_selfDestructed := prev, ov_Balance := bal\<rparr>) v"
| "undo_entry db bk (touchChange a) v = Some v"
| "undo_entry db bk (balanceChange a prev) v = upd_obj a (\<lambda>ov. ov\<lparr>ov_Balance := prev\<rparr>) v"
| "undo_entry db bk (nonceChange a prev) v = upd_obj a (\<lambda>ov. ov\<lparr>ov_Nonce := prev\<rparr>) v"
| "undo_entry db bk (codeChange a prevcode prevhash) v =
     upd_obj a (\<lambda>ov. ov\<lparr>ov_CodeHash := prevhash,
       ov_Code := (case prevcode of Some c \<Rightarrow> Some c | None \<Rightarrow>
         if prevhash = EmptyCodeHash db then None else fst (ContractCode db a prevhash))\<rparr>) v"
| "undo_entry db bk (storageChange a k prev) v =
     upd_obj a (\<lambda>ov. ov\<lparr>ov_State := (ov_State ov)(k := prev)\<rparr>) v"
| "undo_entry db bk (transientStorageChange a k prev) v =
     Some (v\<lparr>v_transient := (v_transient v)(a := (v_transient v a)(k := prev))\<rparr>)"
| "undo_entry db bk (refundChange prev) v = Some (v\<lparr>v_refund := prev\<rparr>)"
| "undo_entry db bk (addLogChange h) v =
     (if v_logs v h = [] then None
      else Some (v\<lparr>v_logs := (v_logs v)(h := butlast (v_logs v h)), v_logSize := v_logSize v - 1\<rparr>))"
| "undo_entry db bk (addPreimageChange h) v = Some (v\<lparr>v_preimages := (v_preimages v)(h := None)\<rparr>)"
| "undo_entry db bk (accessListAddAccountChange a) v =
     (let al = DeleteAddress a (v_accessList v) in if al_ok al then Some (v\<lparr>v_accessList := al\<rparr>) else None)"
| "undo_entry db bk (accessListAddSlotChange a slot) v =
     (case DeleteSlot a slot (v_accessList v) of
        Ret al \<Rightarrow> if al_ok al then Some (v\<lparr>v_accessList := al\<rparr>) else None
      | _ \<Rightarrow> None)"

text \<open>Undoing an entry and the dirty count it raised.\<close>

definition undo :: "database \<Rightarrow> backing \<Rightarrow> journalEntry \<Rightarrow> sdb_view \<Rightarrow> sdb_view option" where
  "undo db bk e v = Option.bind (undo_entry db bk e v) (\<lambda>v.
     case dirtied e of
       None \<Rightarrow> Some v
     | Some a \<Rightarrow>
         if a = ripemd then Some v
         else if 0 < v_dirties v a then Some (v\<lparr>v_dirties := (v_dirties v)(a := v_dirties v a - 1)\<rparr>)
         else None)"

section \<open>Caching does not show\<close>

lemma snap_val_fresh: "lookup_account db a s = lookup_account db a (fresh (backing s))"
  by (auto simp: lookup_account_def split: option.splits sum.splits)

lemma backing_eq: "backing s = (originalRoot s, sdb_trie s, sdb_snap s)"
  by (simp add: backing_def)

lemma slot_val_cong:
  assumes "opened db (fst bk) obj t" "so_trie obj' = t" "so_address obj' = so_address obj"
    "so_addrHash obj' = so_addrHash obj" "Root (so_data obj') = Root (so_data obj)"
  shows "slot_val db bk obj' k = slot_val db bk obj k"
  using assms by (cases bk) (auto simp: slot_val_def trie_val_def opened_def split: option.splits sum.splits prod.splits)

lemma opened_refl [simp]: "opened db r obj (so_trie obj)"
  by (simp add: opened_def)

lemma obj_view_eqI:
  "committed_of db bk d obj' = committed_of db bk d obj \<Longrightarrow> code_of db obj' = code_of db obj \<Longrightarrow>
   so_data obj' = so_data obj \<Longrightarrow> dirtyStorage obj' = dirtyStorage obj \<Longrightarrow> so_origin obj' = so_origin obj \<Longrightarrow>
   selfDestructed obj' = selfDestructed obj \<Longrightarrow> so_deleted obj' = so_deleted obj \<Longrightarrow>
   so_created obj' = so_created obj \<Longrightarrow> obj_view db bk d obj' = obj_view db bk d obj"
  by (simp add: obj_view_def cong: option.case_cong)

text \<open>\<open>cached db bk d obj obj'\<close>: \<open>obj'\<close> is \<open>obj\<close> with more of its storage or code loaded.\<close>

definition cached :: "database \<Rightarrow> backing \<Rightarrow> bool \<Rightarrow> stateObject \<Rightarrow> stateObject \<Rightarrow> bool" where
  "cached db bk d obj obj' \<longleftrightarrow> so_address obj' = so_address obj \<and> so_addrHash obj' = so_addrHash obj \<and>
     obj_view db bk d obj' = obj_view db bk d obj"

lemma cached_refl [simp]: "cached db bk d obj obj"
  by (simp add: cached_def)

lemma committed_of_cache:
  assumes "opened db (fst bk) obj t"
    "os = originStorage obj \<or> \<not> d \<and> pendingStorage obj k = None \<and> originStorage obj k = None \<and>
       os = (originStorage obj)(k \<mapsto> slot_val db bk obj k)"
  shows "committed_of db bk d (obj\<lparr>so_trie := t, originStorage := os\<rparr>) = committed_of db bk d obj"
proof -
  have "slot_val db bk (obj\<lparr>so_trie := t, originStorage := os\<rparr>) j = slot_val db bk obj j" for j
    by (rule slot_val_cong [OF assms(1)]) simp_all
  then have sv: "slot_val db bk (obj\<lparr>so_trie := t, originStorage := os\<rparr>) = slot_val db bk obj" by blast
  have "committed_of db bk d (obj\<lparr>so_trie := t, originStorage := os\<rparr>) x = committed_of db bk d obj x" for x
    using assms(2) by (cases "x = k") (auto simp: committed_of_def sv split: option.splits)
  then show ?thesis by blast
qed

lemma so_GetCommittedState_spec:
  "\<exists>obj' s'. so_GetCommittedState db obj k s =
      (committed_of db (backing s) (stateObjectsDestruct s (so_address obj) \<noteq> None) obj k, obj', s') \<and>
    erred s s' \<and> cached db (backing s) (stateObjectsDestruct s (so_address obj) \<noteq> None) obj obj' \<and>
    so_data obj' = so_data obj \<and> dirtyStorage obj' = dirtyStorage obj \<and> so_code obj' = so_code obj"
proof (cases "pendingStorage obj k = None \<and> originStorage obj k = None \<and> stateObjectsDestruct s (so_address obj) = None")
  case False
  then show ?thesis
    by (intro exI [of _ obj] exI [of _ s])
      (auto simp: so_GetCommittedState_def committed_of_def split: option.splits)
next
  case True
  obtain t os s' where l: "load_slot db obj k s =
      (slot_val db (backing s) obj k, obj\<lparr>so_trie := t, originStorage := os\<rparr>, s')"
    "erred s s'" "opened db (originalRoot s) obj t"
    "os = originStorage obj \<or> os = (originStorage obj)(k \<mapsto> slot_val db (backing s) obj k)"
    using load_slot_spec [of db obj k s] by blast
  have o: "opened db (fst (backing s)) obj t" using l(3) by (simp add: backing_def)
  have "committed_of db (backing s) False (obj\<lparr>so_trie := t, originStorage := os\<rparr>) = committed_of db (backing s) False obj"
    by (rule committed_of_cache [OF o]) (use l(4) True in auto)
  then have "cached db (backing s) False obj (obj\<lparr>so_trie := t, originStorage := os\<rparr>)"
    by (auto simp: cached_def code_of_def intro!: obj_view_eqI split: option.splits)
  then show ?thesis
    using True l(1,2) by (simp add: so_GetCommittedState_def committed_of_def)
qed

lemma so_GetState_spec:
  "\<exists>obj' s'. so_GetState db obj k s =
      (ov_State (obj_view db (backing s) (stateObjectsDestruct s (so_address obj) \<noteq> None) obj) k, obj', s') \<and>
    erred s s' \<and> cached db (backing s) (stateObjectsDestruct s (so_address obj) \<noteq> None) obj obj'"
proof (cases "dirtyStorage obj k")
  case None
  then show ?thesis using so_GetCommittedState_spec [of db obj k s]
    by (auto simp: so_GetState_def obj_view_def)
next
  case (Some v)
  then show ?thesis by (intro exI [of _ obj] exI [of _ s]) (simp add: so_GetState_def obj_view_def)
qed

lemma so_Code_spec:
  "\<exists>obj' s'. so_Code db obj s = (code_of db obj, obj', s') \<and> erred s s' \<and> cached db bk d obj obj' \<and>
     so_data obj' = so_data obj \<and> so_code obj' = code_of db obj"
proof (cases "so_code obj = None \<and> CodeHash (so_data obj) \<noteq> EmptyCodeHash db")
  case False
  then show ?thesis
    by (intro exI [of _ obj] exI [of _ s]) (auto simp: so_Code_def code_of_def split: option.splits)
next
  case True
  obtain c err where c: "ContractCode db (so_address obj) (CodeHash (so_data obj)) = (c, err)" by force
  have "committed_of db bk d (obj\<lparr>so_code := c\<rparr>) = committed_of db bk d obj"
  proof -
    have "slot_val db bk (obj\<lparr>so_code := c\<rparr>) j = slot_val db bk obj j" for j
      by (rule slot_val_cong [OF opened_refl]) simp_all
    then show ?thesis by (simp add: committed_of_def fun_eq_iff cong: option.case_cong)
  qed
  moreover have "code_of db (obj\<lparr>so_code := c\<rparr>) = code_of db obj"
    using True c by (auto simp: code_of_def split: option.splits)
  ultimately have "cached db bk d obj (obj\<lparr>so_code := c\<rparr>)"
    by (auto simp: cached_def intro!: obj_view_eqI)
  then show ?thesis using True c
    by (auto simp: so_Code_def code_of_def split: option.splits)
qed

text \<open>\<open>same db s t\<close>: \<open>t\<close> is \<open>s\<close> but for the caches.\<close>

definition same :: "database \<Rightarrow> StateDB \<Rightarrow> StateDB \<Rightarrow> bool" where
  "same db s t \<longleftrightarrow> sview db t = sview db s \<and> backing t = backing s \<and> sdb_journal t = sdb_journal s \<and>
     validRevisions t = validRevisions s \<and> nextRevisionId t = nextRevisionId s \<and>
     thash t = thash s \<and> txIndex t = txIndex s \<and>
     (sdb_ok s \<longrightarrow> sdb_ok t)"

lemma same_refl [simp]: "same db s s"
  by (simp add: same_def)

lemma same_trans: "same db s t \<Longrightarrow> same db t u \<Longrightarrow> same db s u"
  by (auto simp: same_def)

lemma same_erred: "erred s t \<Longrightarrow> same db s t"
proof -
  assume "erred s t"
  then obtain e where t: "t = s\<lparr>dbErr := e\<rparr>" by (auto simp: erred_def)
  have b: "backing t = backing s" by (simp add: t backing_def)
  have "sview db t = sview db s"
    by (simp add: sview_def b obj_at_def [abs_def] logs_of_def [abs_def] cong: option.case_cong if_cong) (simp add: t cong: if_cong)
  then show ?thesis by (simp add: same_def b) (simp add: t sdb_ok_def)
qed

lemma v_obj_setStateObject:
  "v_obj (sview db (setStateObject obj s)) =
   (v_obj (sview db s))(so_address obj \<mapsto> obj_view db (backing s) (stateObjectsDestruct s (so_address obj) \<noteq> None) obj)"
  by (rule ext) (auto simp: sview_def obj_at_def setStateObject_def split: option.splits)

lemma sview_setStateObject:
  "sview db (setStateObject obj s) =
   (sview db s)\<lparr>v_obj := (v_obj (sview db s))(so_address obj \<mapsto>
      obj_view db (backing s) (stateObjectsDestruct s (so_address obj) \<noteq> None) obj)\<rparr>"
  using v_obj_setStateObject [of db obj s]
  by (simp add: sview_def setStateObject_def logs_of_def [abs_def] cong: if_cong)

lemma sdb_ok_setStateObject: "sdb_ok s \<Longrightarrow> sdb_ok (setStateObject obj s)"
  by (auto simp: sdb_ok_def setStateObject_def)

lemma same_setStateObject:
  assumes "v_obj (sview db s) (so_address obj) =
    Some (obj_view db (backing s) (stateObjectsDestruct s (so_address obj) \<noteq> None) obj)"
  shows "same db s (setStateObject obj s)"
proof -
  have "sview db (setStateObject obj s) = sview db s"
    using assms by (simp add: sview_setStateObject fun_upd_idem)
  then show ?thesis by (simp add: same_def sdb_ok_setStateObject) (simp add: setStateObject_def)
qed

section \<open>Getting objects\<close>

abbreviation dflag :: "StateDB \<Rightarrow> address \<Rightarrow> bool" where
  "dflag s a \<equiv> stateObjectsDestruct s a \<noteq> None"

lemma v_obj_sview: "v_obj (sview db s) a = map_option (obj_view db (backing s) (dflag s a)) (obj_at db s a)"
  by (simp add: sview_def)

lemma loaded_address: "loaded db bk a = Some obj \<Longrightarrow> so_address obj = a"
  by (auto simp: loaded_def newObject_def split: sum.splits option.splits)

lemma getDeletedStateObject_spec:
  assumes "sdb_ok s"
  shows "\<exists>t. getDeletedStateObject db a s = (obj_at db s a, t) \<and> same db s t \<and>
    stateObjects t = (case obj_at db s a of None \<Rightarrow> stateObjects s | Some obj \<Rightarrow> (stateObjects s)(a \<mapsto> obj)) \<and>
    stateObjectsDestruct t = stateObjectsDestruct s \<and>
    (\<forall>obj. obj_at db s a = Some obj \<longrightarrow> so_address obj = a)"
proof (cases "stateObjects s a")
  case (Some obj)
  then show ?thesis using assms
    by (intro exI [of _ s]) (auto simp: getDeletedStateObject_def obj_at_def sdb_ok_def fun_upd_idem)
next
  case None
  then have o: "obj_at db s a = loaded db (backing s) a" by (simp add: obj_at_def)
  show ?thesis
  proof (cases "loaded db (backing s) a")
    case None
    then show ?thesis
      using \<open>stateObjects s a = None\<close> same_erred [of s _ db]
      by (auto simp: getDeletedStateObject_def o loaded_def snap_val_fresh [of db a s]
          split: sum.splits option.splits)
  next
    case (Some obj)
    then have g: "getDeletedStateObject db a s = (Some obj, setStateObject obj s)"
      using \<open>stateObjects s a = None\<close>
      by (auto simp: getDeletedStateObject_def loaded_def snap_val_fresh [of db a s]
          split: sum.splits option.splits)
    have a: "so_address obj = a" using Some by (rule loaded_address)
    have "same db s (setStateObject obj s)"
      by (rule same_setStateObject) (simp add: v_obj_sview a o Some)
    then show ?thesis using g a by (auto simp: o Some) (simp add: setStateObject_def)+
  qed
qed

lemma getStateObject_spec:
  assumes "sdb_ok s"
  shows "\<exists>r t. getStateObject db a s = (r, t) \<and> same db s t \<and> stateObjectsDestruct t = stateObjectsDestruct s \<and>
    (case r of
       None \<Rightarrow> (case v_obj (sview db s) a of None \<Rightarrow> True | Some ov \<Rightarrow> ov_deleted ov)
     | Some obj \<Rightarrow> so_address obj = a \<and> stateObjects t a = Some obj \<and> \<not> so_deleted obj \<and>
         obj_at db t a = Some obj \<and>
         v_obj (sview db s) a = Some (obj_view db (backing s) (dflag s a) obj))"
proof -
  obtain t where t: "getDeletedStateObject db a s = (obj_at db s a, t)" "same db s t"
    "stateObjects t = (case obj_at db s a of None \<Rightarrow> stateObjects s | Some obj \<Rightarrow> (stateObjects s)(a \<mapsto> obj))"
    "stateObjectsDestruct t = stateObjectsDestruct s"
    "\<forall>obj. obj_at db s a = Some obj \<longrightarrow> so_address obj = a"
    using getDeletedStateObject_spec [OF assms] by blast
  show ?thesis
    by (cases "obj_at db s a")
      (use t in \<open>auto simp: getStateObject_def v_obj_sview obj_at_def obj_view_def\<close>)
qed

text \<open>What a query may rely on: the object it is given is the one the view shows.\<close>

definition at :: "database \<Rightarrow> StateDB \<Rightarrow> address \<Rightarrow> stateObject \<Rightarrow> bool" where
  "at db s a obj \<longleftrightarrow> sdb_ok s \<and> so_address obj = a \<and> \<not> so_deleted obj \<and>
     v_obj (sview db s) a = Some (obj_view db (backing s) (dflag s a) obj)"

lemma query_same:
  assumes "sdb_ok s" "\<And>obj t. same db s t \<Longrightarrow> at db t a obj \<Longrightarrow> same db t (snd (f obj t))"
  shows "same db s (snd (query db a d f s))"
proof -
  obtain r t where t: "getStateObject db a s = (r, t)" "same db s t"
    "stateObjectsDestruct t = stateObjectsDestruct s"
    "case r of None \<Rightarrow> True | Some obj \<Rightarrow> so_address obj = a \<and> \<not> so_deleted obj \<and>
         v_obj (sview db s) a = Some (obj_view db (backing s) (dflag s a) obj)"
    using getStateObject_spec [OF assms(1), of db a] by (fastforce split: option.splits)
  show ?thesis
  proof (cases r)
    case (Some obj)
    then have "at db t a obj" using t assms(1) by (auto simp: at_def same_def)
    then show ?thesis using assms(2) [OF t(2)] t Some same_trans by (fastforce simp: query_def)
  qed (use t in \<open>simp add: query_def\<close>)
qed

lemma at_erred:
  assumes "at db s a obj" "erred s t" "cached db (backing s) (dflag s a) obj obj'"
  shows "same db s (setStateObject obj' t)"
proof -
  have st: "same db s t" using assms(2) by (rule same_erred)
  have "dflag t a = dflag s a" using assms(2) by (auto simp: erred_def)
  then have "same db t (setStateObject obj' t)"
    using assms(1,3) st by (intro same_setStateObject) (auto simp: at_def same_def cached_def)
  with st show ?thesis by (rule same_trans)
qed

lemma queries_same:
  assumes "sdb_ok s"
  shows "same db s (snd (Exist db a s))" "same db s (snd (Empty db a s))"
    "same db s (snd (GetBalance db a s))" "same db s (snd (GetNonce db a s))"
    "same db s (snd (GetStorageRoot db a s))" "same db s (snd (GetCodeHash db a s))"
    "same db s (snd (HasSelfDestructed db a s))"
    "same db s (snd (GetCode db a s))" "same db s (snd (GetCodeSize db a s))"
    "same db s (snd (GetState db a k s))" "same db s (snd (GetCommittedState db a k s))"
proof -
  note q = query_same [OF assms]
  show "same db s (snd (Exist db a s))" unfolding Exist_def by (rule q) simp
  show "same db s (snd (Empty db a s))" unfolding Empty_def by (rule q) simp
  show "same db s (snd (GetBalance db a s))" unfolding GetBalance_def by (rule q) simp
  show "same db s (snd (GetNonce db a s))" unfolding GetNonce_def by (rule q) simp
  show "same db s (snd (GetStorageRoot db a s))" unfolding GetStorageRoot_def by (rule q) simp
  show "same db s (snd (GetCodeHash db a s))" unfolding GetCodeHash_def by (rule q) simp
  show "same db s (snd (HasSelfDestructed db a s))" unfolding HasSelfDestructed_def by (rule q) simp
  show "same db s (snd (GetCode db a s))" unfolding GetCode_def
  proof (rule q)
    fix obj t
    assume at: "at db t a obj"
    obtain obj' t' where "so_Code db obj t = (code_of db obj, obj', t')" "erred t t'"
      "cached db (backing t) (dflag t a) obj obj'" using so_Code_spec by blast
    then show "same db t (snd (case so_Code db obj t of (c, obj, s) \<Rightarrow> (c, setStateObject obj s)))"
      using at_erred [OF at] by simp
  qed
  show "same db s (snd (GetCodeSize db a s))" unfolding GetCodeSize_def
    by (rule q) (auto simp: so_CodeSize_def intro: same_erred split: option.splits prod.splits)
  show "same db s (snd (GetState db a k s))" unfolding GetState_def
  proof (rule q)
    fix obj t
    assume at: "at db t a obj"
    then have a: "so_address obj = a" by (simp add: at_def)
    obtain v obj' t' where "so_GetState db obj k t = (v, obj', t')" "erred t t'"
      "cached db (backing t) (dflag t a) obj obj'" using so_GetState_spec [of db obj k t] a by auto
    then show "same db t (snd (case so_GetState db obj k t of (v, obj, s) \<Rightarrow> (v, setStateObject obj s)))"
      using at_erred [OF at] by simp
  qed
  show "same db s (snd (GetCommittedState db a k s))" unfolding GetCommittedState_def
  proof (rule q)
    fix obj t
    assume at: "at db t a obj"
    then have a: "so_address obj = a" by (simp add: at_def)
    obtain v obj' t' where "so_GetCommittedState db obj k t = (v, obj', t')" "erred t t'"
      "cached db (backing t) (dflag t a) obj obj'" using so_GetCommittedState_spec [of db obj k t] a by auto
    then show "same db t (snd (case so_GetCommittedState db obj k t of (v, obj, s) \<Rightarrow> (v, setStateObject obj s)))"
      using at_erred [OF at] by simp
  qed
qed

section \<open>Undoing one entry\<close>

definition frame :: "StateDB \<Rightarrow> StateDB \<Rightarrow> bool" where
  "frame s t \<longleftrightarrow> backing t = backing s \<and> sdb_journal t = sdb_journal s \<and> validRevisions t = validRevisions s \<and>
     nextRevisionId t = nextRevisionId s \<and> thash t = thash s \<and> txIndex t = txIndex s"

lemma frame_refl [simp]: "frame s s"
  by (simp add: frame_def)

lemma frame_trans: "frame s t \<Longrightarrow> frame t u \<Longrightarrow> frame s u"
  by (simp add: frame_def)

lemma same_frame: "same db s t \<Longrightarrow> frame s t"
  by (simp add: same_def frame_def)

lemma frame_setStateObject [simp]: "frame s (setStateObject obj t) = frame s t"
  by (auto simp: frame_def backing_def setStateObject_def)

lemma committed_of_cong:
  assumes "pendingStorage obj' = pendingStorage obj" "originStorage obj' = originStorage obj"
    "so_trie obj' = so_trie obj" "so_address obj' = so_address obj" "so_addrHash obj' = so_addrHash obj"
    "Root (so_data obj') = Root (so_data obj)"
  shows "committed_of db bk d obj' = committed_of db bk d obj"
proof -
  have "slot_val db bk obj' j = slot_val db bk obj j" for j
    by (rule slot_val_cong [OF opened_refl]) (simp_all add: assms)
  then show ?thesis by (simp add: committed_of_def fun_eq_iff assms cong: option.case_cong)
qed

lemma obj_view_set [simp]:
  "obj_view db bk d (so_setBalance b obj) = (obj_view db bk d obj)\<lparr>ov_Balance := b\<rparr>"
  "obj_view db bk d (so_setNonce n obj) = (obj_view db bk d obj)\<lparr>ov_Nonce := n\<rparr>"
  "obj_view db bk d (so_setState k w obj) = (obj_view db bk d obj)\<lparr>ov_State := (ov_State (obj_view db bk d obj))(k := w)\<rparr>"
  "obj_view db bk d (obj\<lparr>selfDestructed := sd\<rparr>) = (obj_view db bk d obj)\<lparr>ov_selfDestructed := sd\<rparr>"
  "obj_view db bk d (markSelfdestructed obj) = (obj_view db bk d obj)\<lparr>ov_selfDestructed := True\<rparr>"
  "obj_view db bk d (so_setCode h c obj) = (obj_view db bk d obj)\<lparr>ov_CodeHash := h,
     ov_Code := (case c of Some c \<Rightarrow> Some c | None \<Rightarrow>
       if h = EmptyCodeHash db then None else fst (ContractCode db (so_address obj) h))\<rparr>"
proof -
  have b: "committed_of db bk d (so_setBalance b obj) = committed_of db bk d obj"
    "committed_of db bk d (so_setNonce n obj) = committed_of db bk d obj"
    "committed_of db bk d (so_setState k w obj) = committed_of db bk d obj"
    "committed_of db bk d (obj\<lparr>selfDestructed := sd\<rparr>) = committed_of db bk d obj"
    "committed_of db bk d (obj\<lparr>selfDestructed := True\<rparr>) = committed_of db bk d obj"
    "committed_of db bk d (so_setCode h c obj) = committed_of db bk d obj"
    by (rule committed_of_cong; simp add: so_setBalance_def so_setNonce_def so_setState_def so_setCode_def)+
  show "obj_view db bk d (so_setBalance b obj) = (obj_view db bk d obj)\<lparr>ov_Balance := b\<rparr>"
    by (simp add: obj_view_def b cong: option.case_cong) (simp add: so_setBalance_def code_of_def cong: option.case_cong)
  show "obj_view db bk d (so_setNonce n obj) = (obj_view db bk d obj)\<lparr>ov_Nonce := n\<rparr>"
    by (simp add: obj_view_def b cong: option.case_cong) (simp add: so_setNonce_def code_of_def cong: option.case_cong)
  show "obj_view db bk d (so_setState k w obj) = (obj_view db bk d obj)\<lparr>ov_State := (ov_State (obj_view db bk d obj))(k := w)\<rparr>"
    by (simp add: obj_view_def b cong: option.case_cong) (auto simp add: so_setState_def code_of_def cong: option.case_cong)
  show "obj_view db bk d (obj\<lparr>selfDestructed := sd\<rparr>) = (obj_view db bk d obj)\<lparr>ov_selfDestructed := sd\<rparr>"
    by (simp add: obj_view_def b cong: option.case_cong) (simp add: code_of_def cong: option.case_cong)
  show "obj_view db bk d (markSelfdestructed obj) = (obj_view db bk d obj)\<lparr>ov_selfDestructed := True\<rparr>"
    by (simp add: markSelfdestructed_def obj_view_def b cong: option.case_cong) (simp add: code_of_def cong: option.case_cong)
  show "obj_view db bk d (so_setCode h c obj) = (obj_view db bk d obj)\<lparr>ov_CodeHash := h,
     ov_Code := (case c of Some c \<Rightarrow> Some c | None \<Rightarrow>
       if h = EmptyCodeHash db then None else fst (ContractCode db (so_address obj) h))\<rparr>"
    by (simp add: obj_view_def b cong: option.case_cong) (simp add: so_setCode_def code_of_def cong: option.case_cong)
qed

lemma ov_deleted_obj_view [simp]: "ov_deleted (obj_view db bk d obj) = so_deleted obj"
  by (simp add: obj_view_def)

lemma so_address_set [simp]:
  "so_address (so_setBalance b obj) = so_address obj" "so_address (so_setNonce n obj) = so_address obj"
  "so_address (so_setState k w obj) = so_address obj" "so_address (so_setCode h c obj) = so_address obj"
  "so_address (markSelfdestructed obj) = so_address obj"
  by (simp_all add: so_setBalance_def so_setNonce_def so_setState_def so_setCode_def markSelfdestructed_def)

lemma upd_obj_get:
  assumes "sdb_ok s" "upd_obj a f (sview db s) = Some v"
  shows "\<exists>obj t. getStateObject db a s = (Some obj, t) \<and> so_address obj = a \<and> sdb_ok t \<and> frame s t \<and>
    (\<forall>obj'. so_address obj' = a \<and>
       (\<forall>d. obj_view db (backing s) d obj' = f (obj_view db (backing s) d obj)) \<longrightarrow>
       sview db (setStateObject obj' t) = v)"
proof -
  obtain r t where t: "getStateObject db a s = (r, t)" "same db s t"
    "stateObjectsDestruct t = stateObjectsDestruct s"
    "case r of None \<Rightarrow> (case v_obj (sview db s) a of None \<Rightarrow> True | Some ov \<Rightarrow> ov_deleted ov)
     | Some obj \<Rightarrow> so_address obj = a \<and> \<not> so_deleted obj \<and>
         v_obj (sview db s) a = Some (obj_view db (backing s) (dflag s a) obj)"
    using getStateObject_spec [OF assms(1), of db a] by (fastforce split: option.splits)
  obtain obj where r: "r = Some obj"
    using t(4) assms(2) by (cases r) (auto simp: upd_obj_def split: option.splits if_splits)
  have v: "v = (sview db s)\<lparr>v_obj := (v_obj (sview db s))(a \<mapsto> f (obj_view db (backing s) (dflag s a) obj))\<rparr>"
    using assms(2) t(4) r by (auto simp: upd_obj_def)
  have "sview db (setStateObject obj' t) = v"
    if "so_address obj' = a" "\<forall>d. obj_view db (backing s) d obj' = f (obj_view db (backing s) d obj)" for obj'
    using that t(2,3) by (simp add: sview_setStateObject v same_def)
  with t r show ?thesis
    by (intro exI [of _ obj] exI [of _ t]) (auto simp: same_frame same_def assms(1))
qed

lemma revert_object_spec:
  assumes "sdb_ok s" "upd_obj a f (sview db s) = Some v"
    "\<And>obj d. so_address obj = a \<Longrightarrow> obj_view db (backing s) d (g obj) = f (obj_view db (backing s) d obj)"
    "\<And>obj. so_address (g obj) = so_address obj"
  shows "\<exists>s'. revert_object db a g s = Ret s' \<and> sdb_ok s' \<and> sview db s' = v \<and> frame s s'"
proof -
  from upd_obj_get [OF assms(1,2)] obtain obj t where t: "getStateObject db a s = (Some obj, t)"
    "so_address obj = a" "sdb_ok t" "frame s t"
    "sview db (setStateObject (g obj) t) = v" using assms(3,4) by metis
  then show ?thesis by (simp add: revert_object_def sdb_ok_setStateObject)
qed

lemma sdb_okI:
  "sdb_ok s \<Longrightarrow> stateObjects t = stateObjects s \<Longrightarrow> stateObjectsDirty t = stateObjectsDirty s \<Longrightarrow>
   sdb_accessList t = sdb_accessList s \<Longrightarrow> sdb_journal t = sdb_journal s \<Longrightarrow> sdb_ok t"
  by (simp add: sdb_ok_def)

lemma sview_simps:
  "sview db (s\<lparr>sdb_refund := x\<rparr>) = (sview db s)\<lparr>v_refund := x\<rparr>"
  "sview db (s\<lparr>preimages := x1\<rparr>) = (sview db s)\<lparr>v_preimages := x1\<rparr>"
  "sview db (s\<lparr>sdb_accessList := x2\<rparr>) = (sview db s)\<lparr>v_accessList := x2\<rparr>"
  "sview db (s\<lparr>sdb_transientStorage := x3\<rparr>) = (sview db s)\<lparr>v_transient := ts_Get x3\<rparr>"
  "sview db (s\<lparr>accounts := x4\<rparr>) = (sview db s)\<lparr>v_accounts := x4\<rparr>"
  "sview db (s\<lparr>storages := x5\<rparr>) = (sview db s)\<lparr>v_storages := x5\<rparr>"
  "sview db (s\<lparr>accountsOrigin := x6\<rparr>) = (sview db s)\<lparr>v_accountsOrigin := x6\<rparr>"
  "sview db (s\<lparr>storagesOrigin := x7\<rparr>) = (sview db s)\<lparr>v_storagesOrigin := x7\<rparr>"
  "sview db (s\<lparr>logSize := x8\<rparr>) = (sview db s)\<lparr>v_logSize := x8\<rparr>"
  "sview db (s\<lparr>sdb_logs := x9\<rparr>) = (sview db s)\<lparr>v_logs := (\<lambda>h. case x9 h of None \<Rightarrow> [] | Some ls \<Rightarrow> ls)\<rparr>"
  "sview db (s\<lparr>sdb_journal := x10\<rparr>) =
     (sview db s)\<lparr>v_dirties := (\<lambda>a. if a = ripemd then 0 else count_of (dirties x10) a)\<rparr>"
  by (simp_all add: sview_def obj_at_def [abs_def] logs_of_def [abs_def] cong: option.case_cong if_cong)

lemma revert_create:
  fixes a :: address
  assumes "sdb_ok s"
  defines "s' \<equiv> s\<lparr>stateObjects := (stateObjects s)(a := None), stateObjectsDirty := stateObjectsDirty s - {a}\<rparr>"
  shows "sdb_ok s' \<and> frame s s' \<and> sview db s' = (sview db s)\<lparr>
     v_obj := (v_obj (sview db s))(a := map_option (obj_view db (backing s) (dflag s a)) (loaded db (backing s) a)),
     v_dirtyset := v_dirtyset (sview db s) - {a}\<rparr>"
proof -
  have b: "backing s' = backing s" by (simp add: s'_def)
  have "v_obj (sview db s') = (v_obj (sview db s))(a := map_option (obj_view db (backing s) (dflag s a)) (loaded db (backing s) a))"
    by (rule ext) (auto simp: v_obj_sview b obj_at_def s'_def split: option.splits)
  then have "sview db s' = (sview db s)\<lparr>
     v_obj := (v_obj (sview db s))(a := map_option (obj_view db (backing s) (dflag s a)) (loaded db (backing s) a)),
     v_dirtyset := v_dirtyset (sview db s) - {a}\<rparr>"
    by (simp add: sview_def b logs_of_def [abs_def] cong: if_cong) (simp add: s'_def cong: if_cong)
  moreover have "sdb_ok s'" using assms by (auto simp: sdb_ok_def)
  moreover have "frame s s'" by (simp add: frame_def b) (simp add: s'_def)
  ultimately show ?thesis by blast
qed

text \<open>Putting an object back, with the destruction mark of its address.\<close>

definition put_back :: "stateObject \<Rightarrow> bool \<Rightarrow> StateDB \<Rightarrow> StateDB" where
  "put_back p pdestruct s =
     (let s = setStateObject p s
      in if \<not> pdestruct then s\<lparr>stateObjectsDestruct := (stateObjectsDestruct s)(so_address p := None)\<rparr> else s)"

lemma put_back_spec:
  fixes p :: stateObject and pd :: bool
  assumes "sdb_ok s"
  defines "s' \<equiv> put_back p pd s" and "a \<equiv> so_address p"
  shows "sdb_ok s' \<and> frame s s' \<and> sview db s' = (sview db s)\<lparr>
     v_destruct := (if pd then v_destruct (sview db s) else (v_destruct (sview db s))(a := None)),
     v_obj := (v_obj (sview db s))(a \<mapsto> obj_view db (backing s) (pd \<and> v_destruct (sview db s) a \<noteq> None) p)\<rparr>"
proof -
  have b: "backing s' = backing s" by (simp add: s'_def put_back_def Let_def)
  have d: "v_destruct (sview db s) = stateObjectsDestruct s" by (simp add: sview_def)
  have "v_obj (sview db s') = (v_obj (sview db s))(a \<mapsto> obj_view db (backing s) (pd \<and> v_destruct (sview db s) a \<noteq> None) p)"
    by (rule ext) (auto simp: v_obj_sview b obj_at_def s'_def a_def d put_back_def setStateObject_def Let_def
        split: option.splits)
  then have "sview db s' = (sview db s)\<lparr>
     v_destruct := (if pd then v_destruct (sview db s) else (v_destruct (sview db s))(a := None)),
     v_obj := (v_obj (sview db s))(a \<mapsto> obj_view db (backing s) (pd \<and> v_destruct (sview db s) a \<noteq> None) p)\<rparr>"
    by (simp add: sview_def b logs_of_def [abs_def] cong: if_cong)
      (simp add: s'_def a_def put_back_def setStateObject_def Let_def cong: if_cong)
  moreover have "sdb_ok s'"
    using assms(1) by (auto simp: sdb_ok_def s'_def put_back_def setStateObject_def Let_def)
  moreover have "frame s s'" by (simp add: frame_def b) (simp add: s'_def put_back_def setStateObject_def Let_def)
  ultimately show ?thesis by blast
qed

lemma sdb_ok_simps [simp]:
  "sdb_ok (s\<lparr>accounts := x1\<rparr>) = sdb_ok s" "sdb_ok (s\<lparr>storages := x2\<rparr>) = sdb_ok s"
  "sdb_ok (s\<lparr>accountsOrigin := x3\<rparr>) = sdb_ok s" "sdb_ok (s\<lparr>storagesOrigin := x4\<rparr>) = sdb_ok s"
  "sdb_ok (s\<lparr>sdb_refund := x5\<rparr>) = sdb_ok s" "sdb_ok (s\<lparr>sdb_logs := x6\<rparr>) = sdb_ok s"
  "sdb_ok (s\<lparr>logSize := x7\<rparr>) = sdb_ok s" "sdb_ok (s\<lparr>preimages := x8\<rparr>) = sdb_ok s"
  "sdb_ok (s\<lparr>sdb_transientStorage := x9\<rparr>) = sdb_ok s"
  "sdb_ok (s\<lparr>validRevisions := x10\<rparr>) = sdb_ok s" "sdb_ok (s\<lparr>nextRevisionId := x11\<rparr>) = sdb_ok s"
  "sdb_ok (s\<lparr>stateObjectsDestruct := x12\<rparr>) = sdb_ok s"
  by (simp_all add: sdb_ok_def)

lemma sdb_ok_accessList: "sdb_ok s \<Longrightarrow> al_ok al \<Longrightarrow> sdb_ok (s\<lparr>sdb_accessList := al\<rparr>)"
  by (simp add: sdb_ok_def)

lemma frame_simps [simp]:
  "frame s (t\<lparr>accounts := x1\<rparr>) = frame s t" "frame s (t\<lparr>storages := x2\<rparr>) = frame s t"
  "frame s (t\<lparr>accountsOrigin := x3\<rparr>) = frame s t" "frame s (t\<lparr>storagesOrigin := x4\<rparr>) = frame s t"
  "frame s (t\<lparr>sdb_refund := x5\<rparr>) = frame s t" "frame s (t\<lparr>sdb_logs := x6\<rparr>) = frame s t"
  "frame s (t\<lparr>logSize := x7\<rparr>) = frame s t" "frame s (t\<lparr>preimages := x8\<rparr>) = frame s t"
  "frame s (t\<lparr>sdb_transientStorage := x9\<rparr>) = frame s t" "frame s (t\<lparr>sdb_accessList := x10\<rparr>) = frame s t"
  "frame s (t\<lparr>stateObjectsDestruct := x11\<rparr>) = frame s t"
  by (simp_all add: frame_def)

lemma sview_fields [simp]:
  "v_accounts (sview db s) = accounts s" "v_storages (sview db s) = storages s"
  "v_accountsOrigin (sview db s) = accountsOrigin s" "v_storagesOrigin (sview db s) = storagesOrigin s"
  "v_refund (sview db s) = sdb_refund s" "v_logs (sview db s) = logs_of s" "v_logSize (sview db s) = logSize s"
  "v_preimages (sview db s) = preimages s" "v_accessList (sview db s) = sdb_accessList s"
  "v_transient (sview db s) = ts_Get (sdb_transientStorage s)" "v_destruct (sview db s) = stateObjectsDestruct s"
  "v_dirtyset (sview db s) = stateObjectsDirty s"
  "v_dirties (sview db s) = (\<lambda>a. if a = ripemd then 0 else count_of (dirties (sdb_journal s)) a)"
  by (simp_all add: sview_def)

lemma revert_reset:
  assumes "sdb_ok s" "undo_entry db (backing s) (resetObjectChange a p pd pa ps poe po pso) (sview db s) = Some v"
  shows "\<exists>s'. revert_entry db (resetObjectChange a p pd pa ps poe po pso) s = Ret s' \<and>
    sdb_ok s' \<and> sview db s' = v \<and> frame s s'"
proof -
  have a: "so_address p = a" using assms(2) by (simp split: if_splits)
  define t where "t = put_back p pd s"
  define s' where "s' = t\<lparr>accounts := (case pa of None \<Rightarrow> accounts t | Some x \<Rightarrow> (accounts t)(so_addrHash p \<mapsto> x)),
     storages := (case ps of None \<Rightarrow> storages t | Some x \<Rightarrow> (storages t)(so_addrHash p \<mapsto> x)),
     accountsOrigin := (if poe then (accountsOrigin t)(a \<mapsto> po) else accountsOrigin t),
     storagesOrigin := (case pso of None \<Rightarrow> storagesOrigin t | Some x \<Rightarrow> (storagesOrigin t)(a \<mapsto> x))\<rparr>"
  have t: "sdb_ok t" "frame s t" "sview db t = (sview db s)\<lparr>
     v_destruct := (if pd then v_destruct (sview db s) else (v_destruct (sview db s))(a := None)),
     v_obj := (v_obj (sview db s))(a \<mapsto> obj_view db (backing s) (pd \<and> v_destruct (sview db s) a \<noteq> None) p)\<rparr>"
    using put_back_spec [OF assms(1), of p pd db] a by (simp_all add: t_def)
  have "accounts t = accounts s" "storages t = storages s" "accountsOrigin t = accountsOrigin s"
    "storagesOrigin t = storagesOrigin s"
    by (simp_all add: t_def put_back_def setStateObject_def Let_def)
  then have "sview db s' = v"
    using assms(2) a by (cases pd; cases poe) (auto simp: s'_def sview_simps t(3) cong: option.case_cong)
  moreover have "sdb_ok s'" "frame s s'" using t by (simp_all add: s'_def)
  moreover have "revert_entry db (resetObjectChange a p pd pa ps poe po pso) s = Ret s'"
    by (cases pa; cases ps; cases poe; cases pso)
      (simp_all add: a s'_def t_def put_back_def setStateObject_def Let_def)
  ultimately show ?thesis by blast
qed

lemma revert_addLog:
  assumes "sdb_ok s" "undo_entry db (backing s) (addLogChange h) (sview db s) = Some v"
  shows "\<exists>s'. revert_entry db (addLogChange h) s = Ret s' \<and> sdb_ok s' \<and> sview db s' = v \<and> frame s s'"
proof -
  have ne: "logs_of s h \<noteq> []" and v: "v = (sview db s)\<lparr>v_logs := (logs_of s)(h := butlast (logs_of s h)), v_logSize := logSize s - 1\<rparr>"
    using assms(2) by (auto split: if_splits)
  define m where "m = (if length (logs_of s h) = 1 then (sdb_logs s)(h := None) else (sdb_logs s)(h \<mapsto> butlast (logs_of s h)))"
  define s' where "s' = s\<lparr>sdb_logs := m, logSize := logSize s - 1\<rparr>"
  have m: "(\<lambda>k. case m k of None \<Rightarrow> [] | Some ls \<Rightarrow> ls) = (logs_of s)(h := butlast (logs_of s h))"
    using ne by (auto simp: m_def fun_eq_iff logs_of_def length_Suc_conv split: option.splits)
  have "revert_entry db (addLogChange h) s = Ret s'"
    using ne by (auto simp: s'_def m_def logs_of_def Let_def split: option.splits)
  moreover have "sview db s' = v" by (simp add: s'_def sview_simps m v)
  ultimately show ?thesis using assms(1) by (simp add: s'_def)
qed

lemma ts_Get_ts_Set: "ts_Get (ts_Set a k w t) = (ts_Get t)(a := (ts_Get t a)(k := w))"
  by (intro ext) (simp add: ts_Get_Set)

lemma revert_entry_spec:
  assumes "sdb_ok s" "undo_entry db (backing s) e (sview db s) = Some v"
  shows "\<exists>s'. revert_entry db e s = Ret s' \<and> sdb_ok s' \<and> sview db s' = v \<and> frame s s'"
proof (cases e)
  case (createObjectChange a)
  then show ?thesis using revert_create [OF assms(1), of a db] assms(2) by auto
next
  case (resetObjectChange a p pd pa ps poe po pso)
  then show ?thesis using revert_reset assms by blast
next
  case (selfDestructChange a prev bal)
  from upd_obj_get [OF assms(1) assms(2) [unfolded selfDestructChange undo_entry.simps]]
  obtain obj t where "getStateObject db a s = (Some obj, t)" "so_address obj = a" "sdb_ok t" "frame s t"
    "sview db (setStateObject (so_setBalance bal (obj\<lparr>selfDestructed := prev\<rparr>)) t) = v"
    by fastforce
  then show ?thesis by (simp add: selfDestructChange sdb_ok_setStateObject)
next
  case (balanceChange a prev)
  then show ?thesis using assms revert_object_spec [OF assms(1), where g = "so_setBalance prev"] by simp
next
  case (nonceChange a prev)
  then show ?thesis using assms revert_object_spec [OF assms(1), where g = "so_setNonce prev"] by simp
next
  case (storageChange a k prev)
  then show ?thesis using assms revert_object_spec [OF assms(1), where g = "so_setState k prev"] by simp
next
  case (codeChange a prevcode prevhash)
  show ?thesis
    unfolding codeChange revert_entry.simps
    by (rule revert_object_spec [OF assms(1) assms(2) [unfolded codeChange undo_entry.simps]])
      (simp_all cong: option.case_cong)
next
  case (addLogChange h)
  then show ?thesis using revert_addLog assms by blast
next
  case (accessListAddAccountChange a)
  then show ?thesis using assms by (auto simp: sview_simps Let_def sdb_ok_accessList split: if_splits)
next
  case (accessListAddSlotChange a slot)
  then show ?thesis using assms by (auto simp: sview_simps sdb_ok_accessList split: if_splits go.splits)
next
  case (transientStorageChange a k prev)
  then show ?thesis using assms by (auto simp: sview_simps setTransientState_def ts_Get_ts_Set)
qed (use assms in \<open>auto simp: sview_simps\<close>)

text \<open>The dirty count.\<close>

definition rev1 :: "database \<Rightarrow> journalEntry \<Rightarrow> StateDB \<Rightarrow> StateDB go" where
  "rev1 db e s = go_bind (revert_entry db e s) (\<lambda>s. Ret (undirty e s))"

lemma revert_entries_rev1: "revert_entries db es s = revert_all (rev1 db) es s"
  by (induction es arbitrary: s) (auto simp: rev1_def go_bind_assoc)

lemma undirty_spec:
  assumes "sdb_ok s" "\<forall>a. dirtied e = Some a \<longrightarrow> a \<noteq> ripemd \<longrightarrow> 0 < v_dirties (sview db s) a"
  shows "sdb_ok (undirty e s) \<and> backing (undirty e s) = backing s \<and>
    entries (sdb_journal (undirty e s)) = entries (sdb_journal s) \<and>
    validRevisions (undirty e s) = validRevisions s \<and> nextRevisionId (undirty e s) = nextRevisionId s \<and>
    thash (undirty e s) = thash s \<and> txIndex (undirty e s) = txIndex s \<and>
    sview db (undirty e s) = (case dirtied e of None \<Rightarrow> sview db s | Some a \<Rightarrow>
      if a = ripemd then sview db s
      else (sview db s)\<lparr>v_dirties := (v_dirties (sview db s))(a := v_dirties (sview db s) a - 1)\<rparr>)"
proof (cases "dirtied e")
  case (Some a)
  define j where "j = sdb_journal s"
  define n where "n = count_of (dirties j) a - 1"
  define m where "m = (if n = 0 then (dirties j)(a := None) else (dirties j)(a \<mapsto> n))"
  have u: "undirty e s = s\<lparr>sdb_journal := j\<lparr>dirties := m\<rparr>\<rparr>"
    by (simp add: undirty_def Some j_def n_def m_def Let_def)
  have pos: "a \<noteq> ripemd \<Longrightarrow> 0 \<le> n" using assms(2) Some by (simp add: n_def j_def)
  have c: "count_of m = (count_of (dirties j))(a := n)"
    by (auto simp: m_def count_of_def fun_eq_iff)
  have "sdb_ok (undirty e s)"
    using assms(1) pos by (auto simp: sdb_ok_def u m_def j_def)
  moreover have "sview db (undirty e s) = (if a = ripemd then sview db s
      else (sview db s)\<lparr>v_dirties := (v_dirties (sview db s))(a := v_dirties (sview db s) a - 1)\<rparr>)"
  proof -
    have "(\<lambda>b. if b = ripemd then 0 else count_of m b) = (if a = ripemd then v_dirties (sview db s)
      else (v_dirties (sview db s))(a := v_dirties (sview db s) a - 1))"
      by (auto simp: c fun_eq_iff n_def j_def)
    moreover have "sview db (undirty e s) = (sview db s)\<lparr>v_dirties := (\<lambda>b. if b = ripemd then 0 else count_of m b)\<rparr>"
      by (simp add: u sview_simps cong: if_cong)
    moreover have "w\<lparr>v_dirties := v_dirties w\<rparr> = w" for w :: sdb_view by simp
    ultimately show ?thesis by (cases "a = ripemd") (simp_all del: sview_fields)
  qed
  ultimately show ?thesis using Some by (simp add: u j_def backing_def)
qed (use assms(1) in \<open>simp add: undirty_def\<close>)

lemma rev1_spec:
  assumes "sdb_ok s" "undo db (backing s) e (sview db s) = Some v"
  shows "\<exists>s'. rev1 db e s = Ret s' \<and> sdb_ok s' \<and> sview db s' = v \<and> backing s' = backing s \<and>
    entries (sdb_journal s') = entries (sdb_journal s) \<and> validRevisions s' = validRevisions s \<and>
    nextRevisionId s' = nextRevisionId s \<and> thash s' = thash s \<and> txIndex s' = txIndex s"
proof -
  obtain v1 where v1: "undo_entry db (backing s) e (sview db s) = Some v1"
    using assms(2) by (auto simp: undo_def bind_eq_Some_conv)
  from revert_entry_spec [OF assms(1) v1] obtain s1 where
    s1: "revert_entry db e s = Ret s1" "sdb_ok s1" "sview db s1 = v1" "frame s s1" by blast
  have "\<forall>a. dirtied e = Some a \<longrightarrow> a \<noteq> ripemd \<longrightarrow> 0 < v_dirties (sview db s1) a"
    using assms(2) v1 s1(3) by (auto simp: undo_def split: if_splits)
  note u = undirty_spec [OF s1(2), of e db, OF this]
  have "sview db (undirty e s1) = v"
    using assms(2) v1 u s1(3) by (auto simp: undo_def split: option.splits if_splits)
  then show ?thesis using s1 u by (simp add: rev1_def frame_def)
qed

text \<open>The StateDB is a state with an undoable log.\<close>

interpretation sdb: undo_log sdb_ok "sview db" "\<lambda>s. entries (sdb_journal s)" backing "undo db" "rev1 db"
  for db
  by unfold_locales (use rev1_spec in blast)

section \<open>Every operation can be undone\<close>

lemma sview_log_change:
  "sview db (log_change e s) = (case dirtied e of None \<Rightarrow> sview db s | Some a \<Rightarrow>
     if a = ripemd then sview db s
     else (sview db s)\<lparr>v_dirties := (v_dirties (sview db s))(a := v_dirties (sview db s) a + 1)\<rparr>)"
proof -
  define m where "m = dirties (journal_append e (sdb_journal s))"
  have l: "sview db (log_change e s) = (sview db s)\<lparr>v_dirties := (\<lambda>b. if b = ripemd then 0 else count_of m b)\<rparr>"
    by (simp add: log_change_def sview_simps m_def cong: if_cong)
  have "count_of m = (case dirtied e of None \<Rightarrow> count_of (dirties (sdb_journal s))
      | Some a \<Rightarrow> (count_of (dirties (sdb_journal s)))(a := count_of (dirties (sdb_journal s)) a + 1))"
    by (auto simp: m_def journal_append_def Let_def count_of_def fun_eq_iff split: option.splits)
  then have "(\<lambda>b. if b = ripemd then 0 else count_of m b) = (case dirtied e of None \<Rightarrow> v_dirties (sview db s)
     | Some a \<Rightarrow> if a = ripemd then v_dirties (sview db s)
       else (v_dirties (sview db s))(a := v_dirties (sview db s) a + 1))"
    by (auto simp: fun_eq_iff split: option.splits)
  moreover have "w\<lparr>v_dirties := v_dirties w\<rparr> = w" for w :: sdb_view by simp
  ultimately show ?thesis unfolding l by (cases "dirtied e") (simp_all del: sview_fields)
qed

lemma sdb_ok_log_change [simp]: "sdb_ok s \<Longrightarrow> sdb_ok (log_change e s)"
  by (fastforce simp: sdb_ok_def log_change_def journal_append_def Let_def count_of_def split: option.splits if_splits)

lemma log_change_fields [simp]:
  "entries (sdb_journal (log_change e s)) = entries (sdb_journal s) @ [e]"
  "validRevisions (log_change e s) = validRevisions s" "nextRevisionId (log_change e s) = nextRevisionId s"
  "thash (log_change e s) = thash s" "txIndex (log_change e s) = txIndex s"
  "stateObjects (log_change e s) = stateObjects s" "stateObjectsDestruct (log_change e s) = stateObjectsDestruct s"
  "sdb_accessList (log_change e s) = sdb_accessList s"
  "sdb_transientStorage (log_change e s) = sdb_transientStorage s"
  "sdb_logs (log_change e s) = sdb_logs s" "logSize (log_change e s) = logSize s"
  "sdb_refund (log_change e s) = sdb_refund s" "preimages (log_change e s) = preimages s"
  "accounts (log_change e s) = accounts s" "storages (log_change e s) = storages s"
  "accountsOrigin (log_change e s) = accountsOrigin s" "storagesOrigin (log_change e s) = storagesOrigin s"
  by (auto simp: log_change_def journal_append_def Let_def split: option.splits)

text \<open>\<open>advances db s t\<close>: \<open>t\<close> is later than \<open>s\<close>, with the same snapshots and transaction.\<close>

definition advances :: "database \<Rightarrow> StateDB \<Rightarrow> StateDB \<Rightarrow> bool" where
  "advances db s t \<longleftrightarrow> sdb.later db s t \<and> validRevisions t = validRevisions s \<and>
     nextRevisionId t = nextRevisionId s \<and> thash t = thash s \<and> txIndex t = txIndex s"

lemma advances_ok: "advances db s t \<Longrightarrow> sdb_ok t \<and> backing t = backing s"
  by (simp add: advances_def sdb.later_def)

lemma advances_trans: "advances db s t \<Longrightarrow> advances db t u \<Longrightarrow> advances db s u"
  using sdb.later_trans by (auto simp: advances_def)

lemma advances_same: "sdb_ok s \<Longrightarrow> same db s t \<Longrightarrow> advances db s t"
  by (auto simp: advances_def sdb.later_def same_def)

lemma advances_refl [simp]: "sdb_ok s \<Longrightarrow> advances db s s"
  by (rule advances_same) simp_all

lemma same_advances: "sdb_ok s \<Longrightarrow> same db s t \<Longrightarrow> advances db t u \<Longrightarrow> advances db s u"
  using advances_same advances_trans by blast

lemma advances_entry:
  assumes "sdb_ok t" "frame (log_change e s) t" "undo db (backing s) e (sview db t) = Some (sview db s)"
  shows "advances db s t"
  using assms by (auto simp: advances_def sdb.later_def frame_def intro!: exI [of _ "[e]"])

lemma undo_logged:
  assumes "undo_entry db bk e w = Some v1" "v_dirties v1 = v_dirties (sview db (log_change e s))"
    "v1\<lparr>v_dirties := v_dirties (sview db s)\<rparr> = sview db s" "sdb_ok s"
  shows "undo db bk e w = Some (sview db s)"
proof (cases "dirtied e")
  case None
  then have "v_dirties v1 = v_dirties (sview db s)" using assms(2) by (simp add: sview_log_change)
  then have "v1 = sview db s" using assms(3) by (metis sdb_view.surjective sdb_view.update_convs(14))
  then show ?thesis using None assms(1) by (simp add: undo_def)
next
  case (Some a)
  let ?d = "v_dirties (sview db s)"
  have nn: "0 \<le> ?d a" if "a \<noteq> ripemd"
    using assms(4) that by (fastforce simp: sdb_ok_def count_of_def split: option.splits)
  have "v_dirties v1 = (if a = ripemd then ?d else ?d(a := ?d a + 1))"
    using assms(2) Some by (simp add: sview_log_change del: sview_fields)
  moreover have "v1\<lparr>v_dirties := d\<rparr> = (sview db s)\<lparr>v_dirties := d\<rparr>" for d
    using assms(3) by (metis sdb_view.update_convs(14) sdb_view.surjective)
  moreover have "v1 = v1\<lparr>v_dirties := v_dirties v1\<rparr>" by simp
  ultimately show ?thesis using Some assms(1) nn by (simp add: undo_def del: sview_fields)
qed

lemma at_log_change: "at db (log_change e s) a obj \<longleftrightarrow> at db s a obj \<and> sdb_ok (log_change e s) \<and> sdb_ok s" if "sdb_ok s"
proof -
  have "v_obj (sview db (log_change e s)) = v_obj (sview db s)"
    by (simp add: sview_log_change split: option.splits)
  then show ?thesis using that by (auto simp: at_def)
qed

text \<open>An entry about one object, written while the object changes.\<close>

lemma advances_obj:
  assumes at: "at db s a obj" and a: "so_address obj' = a" and nd: "\<not> so_deleted obj'"
    and u: "\<And>w. undo_entry db (backing s) e w = upd_obj a f w"
    and f: "f (obj_view db (backing s) (dflag s a) obj') = obj_view db (backing s) (dflag s a) obj"
  shows "advances db s (setStateObject obj' (log_change e s))"
proof (rule advances_entry [of _ e])
  have ok: "sdb_ok s" using at by (simp add: at_def)
  then show "sdb_ok (setStateObject obj' (log_change e s))" by (simp add: sdb_ok_setStateObject)
  show "frame (log_change e s) (setStateObject obj' (log_change e s))" by simp
  let ?l = "sview db (log_change e s)"
  have w: "sview db (setStateObject obj' (log_change e s)) =
      ?l\<lparr>v_obj := (v_obj ?l)(a \<mapsto> obj_view db (backing s) (dflag s a) obj')\<rparr>"
    by (simp add: sview_setStateObject a)
  have vo: "v_obj ?l = v_obj (sview db s)" by (simp add: sview_log_change split: option.splits)
  have orig: "(v_obj (sview db s))(a \<mapsto> obj_view db (backing s) (dflag s a) obj) = v_obj (sview db s)"
    using at by (simp add: at_def fun_upd_idem)
  have "undo_entry db (backing s) e (sview db (setStateObject obj' (log_change e s))) = Some ?l"
    using nd f orig by (simp add: u w upd_obj_def vo)
  moreover have "?l\<lparr>v_dirties := v_dirties (sview db s)\<rparr> = sview db s"
    by (simp add: sview_log_change del: sview_fields split: option.splits)
  ultimately show "undo db (backing s) e (sview db (setStateObject obj' (log_change e s))) = Some (sview db s)"
    using ok by (intro undo_logged) auto
qed

lemma createObject_none:
  assumes "sdb_ok s" "obj_at db s a = None" "stateObjects s a = None"
  shows "advances db s (setStateObject (newObject db a None) (log_change (createObjectChange a) s))"
proof (rule advances_entry)
  let ?e = "createObjectChange a" and ?n = "newObject db a None"
  have n: "so_address ?n = a" by (simp add: newObject_def)
  show "sdb_ok (setStateObject ?n (log_change ?e s))" using assms(1) by (simp add: sdb_ok_setStateObject)
  show "frame (log_change ?e s) (setStateObject ?n (log_change ?e s))" by simp
  let ?l = "sview db (log_change ?e s)"
  have vo: "v_obj ?l = v_obj (sview db s)" by (simp add: sview_log_change)
  have nd: "stateObjectsDirty s - {a} = stateObjectsDirty s"
    using assms(1,3) by (auto simp: sdb_ok_def)
  have dl: "stateObjectsDirty (log_change ?e s) = stateObjectsDirty s" by (simp add: log_change_def)
  have "(v_obj (sview db s))(a := None) = v_obj (sview db s)"
    using assms(2) by (simp add: v_obj_sview fun_upd_idem)
  moreover have "loaded db (backing s) a = None" using assms(2,3) by (simp add: obj_at_def)
  ultimately have "undo_entry db (backing s) ?e (sview db (setStateObject ?n (log_change ?e s))) = Some ?l"
    by (simp add: sview_setStateObject n vo nd dl)
  moreover have "?l\<lparr>v_dirties := v_dirties (sview db s)\<rparr> = sview db s"
    by (simp add: sview_log_change del: sview_fields)
  ultimately show "undo db (backing s) ?e (sview db (setStateObject ?n (log_change ?e s))) = Some (sview db s)"
    using assms(1) by (intro undo_logged) auto
qed

lemma setStateObject_fields [simp]:
  "stateObjectsDestruct (setStateObject obj s) = stateObjectsDestruct s"
  "sdb_journal (setStateObject obj s) = sdb_journal s"
  "stateObjects (setStateObject obj s) = (stateObjects s)(so_address obj \<mapsto> obj)"
  by (simp_all add: setStateObject_def)

definition destroy_mark :: "stateObject \<Rightarrow> StateDB \<Rightarrow> StateDB" where
  "destroy_mark p s = (if stateObjectsDestruct s (so_address p) \<noteq> None then s
     else s\<lparr>stateObjectsDestruct := (stateObjectsDestruct s)(so_address p \<mapsto> so_origin p)\<rparr>)"

definition drop_changes :: "stateObject \<Rightarrow> StateDB \<Rightarrow> StateDB" where
  "drop_changes p s =
     s\<lparr>accounts := (accounts s)(so_addrHash p := None), storages := (storages s)(so_addrHash p := None),
       accountsOrigin := (accountsOrigin s)(so_address p := None),
       storagesOrigin := (storagesOrigin s)(so_address p := None)\<rparr>"

definition reset_entry :: "address \<Rightarrow> stateObject \<Rightarrow> StateDB \<Rightarrow> journalEntry" where
  "reset_entry a p s = resetObjectChange a p (dflag s (so_address p))
     (accounts s (so_addrHash p)) (storages s (so_addrHash p))
     (accountsOrigin s (so_address p) \<noteq> None)
     (case accountsOrigin s (so_address p) of None \<Rightarrow> None | Some x \<Rightarrow> x)
     (storagesOrigin s (so_address p))"

lemma createObject_unfold:
  "createObject db a s = (case getDeletedStateObject db a s of (prev, t) \<Rightarrow>
     (newObject db a None, (case prev of None \<Rightarrow> None | Some p \<Rightarrow> if \<not> so_deleted p then Some p else None),
      setStateObject (newObject db a None) (case prev of
        None \<Rightarrow> log_change (createObjectChange a) t
      | Some p \<Rightarrow> drop_changes p (log_change (reset_entry a p t) (destroy_mark p t)))))"
  by (auto simp: createObject_def drop_changes_def reset_entry_def destroy_mark_def Let_def
      split: prod.splits option.splits)

lemma createObject_reset:
  assumes "sdb_ok s" "obj_at db s a = Some p" "so_address p = a" and n: "so_address n = a"
  defines "e \<equiv> reset_entry a p s"
  defines "t \<equiv> setStateObject n (drop_changes p (log_change e (destroy_mark p s)))"
  shows "advances db s t"
proof (rule advances_entry [of _ e])
  have ok: "sdb_ok (destroy_mark p s)" using assms(1) by (simp add: destroy_mark_def)
  then show okt: "sdb_ok t" by (simp add: t_def drop_changes_def sdb_ok_setStateObject)
  have fr: "frame (log_change e s) (log_change e (destroy_mark p s))"
    by (auto simp: destroy_mark_def frame_def log_change_def backing_def)
  then show "frame (log_change e s) t" by (simp add: t_def drop_changes_def)
  have b: "backing t = backing s" using fr by (simp add: t_def drop_changes_def frame_def)
  have e: "dirtied e = Some a" by (simp add: e_def reset_entry_def)
  have dt: "dflag t a" "\<And>b. b \<noteq> a \<Longrightarrow> stateObjectsDestruct t b = stateObjectsDestruct s b"
    "(if dflag s a then stateObjectsDestruct t else (stateObjectsDestruct t)(a := None)) = stateObjectsDestruct s"
    using assms(3)
    by (auto simp: t_def setStateObject_def drop_changes_def destroy_mark_def fun_upd_idem)
  have so: "stateObjects t = (stateObjects s)(a \<mapsto> n)"
    by (simp add: t_def setStateObject_def drop_changes_def destroy_mark_def n)
  have vo: "(v_obj (sview db t))(a \<mapsto> obj_view db (backing s) (dflag s a) p) = v_obj (sview db s)"
  proof
    fix b
    show "((v_obj (sview db t))(a \<mapsto> obj_view db (backing s) (dflag s a) p)) b = v_obj (sview db s) b"
      using dt(2) [of b] assms(2) by (auto simp: v_obj_sview obj_at_def so \<open>backing t = backing s\<close> cong: option.case_cong)
  qed
  have flds: "accounts t = (accounts s)(so_addrHash p := None)" "storages t = (storages s)(so_addrHash p := None)"
    "accountsOrigin t = (accountsOrigin s)(a := None)" "storagesOrigin t = (storagesOrigin s)(a := None)"
    "stateObjectsDirty t = stateObjectsDirty s" "sdb_refund t = sdb_refund s" "sdb_logs t = sdb_logs s"
    "logSize t = logSize s" "preimages t = preimages s" "sdb_accessList t = sdb_accessList s"
    "sdb_transientStorage t = sdb_transientStorage s"
    "sdb_journal t = sdb_journal (log_change e s)"
    using assms(3) by (simp_all add: t_def setStateObject_def drop_changes_def destroy_mark_def log_change_def)
  define w where "w = the (undo_entry db (backing s) e (sview db t))"
  have w: "undo_entry db (backing s) e (sview db t) = Some w"
    by (simp add: w_def e_def reset_entry_def assms(3))
  have wf: "v_obj w = v_obj (sview db s)" "v_destruct w = stateObjectsDestruct s"
    "v_accounts w = accounts s" "v_storages w = storages s" "v_accountsOrigin w = accountsOrigin s"
    "v_storagesOrigin w = storagesOrigin s" "v_dirtyset w = stateObjectsDirty s" "v_refund w = sdb_refund s"
    "v_logs w = logs_of s" "v_logSize w = logSize s" "v_preimages w = preimages s"
    "v_accessList w = sdb_accessList s" "v_transient w = ts_Get (sdb_transientStorage s)"
    "v_dirties w = v_dirties (sview db (log_change e s))"
    using vo dt(1,3) unfolding w_def
    by (auto simp: e_def reset_entry_def assms(3) flds logs_of_def [abs_def] fun_upd_idem split: option.splits)
  show "undo db (backing s) e (sview db t) = Some (sview db s)"
  proof (rule undo_logged [OF w])
    show "v_dirties w = v_dirties (sview db (log_change e s))" by (rule wf)
    show "w\<lparr>v_dirties := v_dirties (sview db s)\<rparr> = sview db s"
      by (rule sdb_view.equality) (simp_all add: wf)
  qed (rule assms(1))
qed

lemma createObject_spec:
  assumes "sdb_ok s"
  shows "\<exists>prev t. createObject db a s = (newObject db a None, prev, t) \<and> advances db s t \<and>
    at db t a (newObject db a None) \<and>
    prev = (case obj_at db s a of None \<Rightarrow> None | Some p \<Rightarrow> if so_deleted p then None else Some p)"
proof -
  let ?n = "newObject db a None"
  have n: "so_address ?n = a" "\<not> so_deleted ?n" by (simp_all add: newObject_def)
  obtain t where t: "getDeletedStateObject db a s = (obj_at db s a, t)" "same db s t"
    "stateObjects t = (case obj_at db s a of None \<Rightarrow> stateObjects s | Some obj \<Rightarrow> (stateObjects s)(a \<mapsto> obj))"
    "\<forall>obj. obj_at db s a = Some obj \<longrightarrow> so_address obj = a"
    using getDeletedStateObject_spec [OF assms] by blast
  have okt: "sdb_ok t" using t(2) assms by (simp add: same_def)
  define u where "u = (case obj_at db s a of None \<Rightarrow> log_change (createObjectChange a) t
      | Some p \<Rightarrow> drop_changes p (log_change (reset_entry a p t) (destroy_mark p t)))"
  have c: "createObject db a s = (?n, (case obj_at db s a of None \<Rightarrow> None | Some p \<Rightarrow> if so_deleted p then None else Some p),
      setStateObject ?n u)"
    by (auto simp: createObject_unfold t(1) u_def split: option.splits)
  have adv: "advances db t (setStateObject ?n u)"
  proof (cases "obj_at db s a")
    case None
    then have "stateObjects s a = None" by (auto simp: obj_at_def split: option.splits)
    then have st: "stateObjects t a = None" using t(3) None by simp
    have "backing t = backing s" using t(2) by (simp add: same_def)
    then have "obj_at db t a = None" using None st \<open>stateObjects s a = None\<close> by (simp add: obj_at_def)
    with createObject_none [OF okt this st] None show ?thesis by (simp add: u_def)
  next
    case (Some p)
    have "obj_at db t a = Some p" using t(3) Some by (simp add: obj_at_def)
    moreover have "so_address p = a" using t(4) Some by blast
    ultimately show ?thesis using createObject_reset [OF okt _ _ n(1)] Some by (simp add: u_def)
  qed
  have "at db (setStateObject ?n u) a ?n"
    using advances_ok [OF adv] n by (simp add: at_def sview_setStateObject)
  with c same_advances [OF assms t(2) adv] show ?thesis by blast
qed

lemma getOrNewStateObject_spec:
  assumes "sdb_ok s"
  shows "\<exists>obj t. getOrNewStateObject db a s = (obj, t) \<and> advances db s t \<and> at db t a obj"
proof -
  obtain r t where t: "getStateObject db a s = (r, t)" "same db s t"
    "stateObjectsDestruct t = stateObjectsDestruct s"
    "case r of None \<Rightarrow> True | Some obj \<Rightarrow> so_address obj = a \<and> \<not> so_deleted obj \<and>
         v_obj (sview db s) a = Some (obj_view db (backing s) (dflag s a) obj)"
    using getStateObject_spec [OF assms, of db a] by (fastforce split: option.splits)
  have okt: "sdb_ok t" using t(2) assms by (simp add: same_def)
  show ?thesis
  proof (cases r)
    case (Some obj)
    then have "at db t a obj" using t okt by (auto simp: at_def same_def)
    with t Some advances_same [OF assms t(2)] show ?thesis by (simp add: getOrNewStateObject_def)
  next
    case None
    obtain prev u where "createObject db a t = (newObject db a None, prev, u)" "advances db t u"
      "at db u a (newObject db a None)" using createObject_spec [OF okt] by blast
    with t None same_advances [OF assms t(2)] show ?thesis by (simp add: getOrNewStateObject_def)
  qed
qed

lemma mutate_advances:
  assumes "sdb_ok s"
    "\<And>obj t. at db t a obj \<Longrightarrow> advances db t (case f obj t of (obj, t) \<Rightarrow> setStateObject obj t)"
  shows "advances db s (mutate db a f s)"
proof -
  obtain obj t where "getOrNewStateObject db a s = (obj, t)" "advances db s t" "at db t a obj"
    using getOrNewStateObject_spec [OF assms(1)] by blast
  then show ?thesis using assms(2) [of t obj] advances_trans by (simp add: mutate_def)
qed

lemma at_same: "at db s a obj \<Longrightarrow> same db s t \<Longrightarrow> stateObjectsDestruct t = stateObjectsDestruct s \<Longrightarrow> at db t a obj"
  by (auto simp: at_def same_def)

lemma so_deleted_set [simp]:
  "so_deleted (so_setBalance b obj) = so_deleted obj" "so_deleted (so_setNonce n obj) = so_deleted obj"
  "so_deleted (so_setState k w obj) = so_deleted obj" "so_deleted (so_setCode h c obj) = so_deleted obj"
  "so_deleted (markSelfdestructed obj) = so_deleted obj"
  by (simp_all add: so_setBalance_def so_setNonce_def so_setState_def so_setCode_def markSelfdestructed_def)

lemma obj_view_restore:
  "(obj_view db bk d (so_setBalance b obj))\<lparr>ov_Balance := Balance (so_data obj)\<rparr> = obj_view db bk d obj"
  "(obj_view db bk d (so_setNonce n obj))\<lparr>ov_Nonce := Nonce (so_data obj)\<rparr> = obj_view db bk d obj"
  "(obj_view db bk d (so_setState k w obj))\<lparr>ov_State :=
     (ov_State (obj_view db bk d (so_setState k w obj)))(k := ov_State (obj_view db bk d obj) k)\<rparr> = obj_view db bk d obj"
  "(obj_view db bk d (so_setCode h c obj))\<lparr>ov_CodeHash := CodeHash (so_data obj), ov_Code := code_of db obj\<rparr> =
     obj_view db bk d obj"
  "(obj_view db bk d (so_setBalance b (markSelfdestructed obj)))\<lparr>ov_selfDestructed := selfDestructed obj,
     ov_Balance := Balance (so_data obj)\<rparr> = obj_view db bk d obj"
  unfolding obj_view_set by (simp_all add: obj_view_def fun_eq_iff)

lemma SetBalance_obj_advances:
  "at db t a obj \<Longrightarrow> advances db t (case so_SetBalance obj b t of (obj, t) \<Rightarrow> setStateObject obj t)"
  unfolding so_SetBalance_def prod.case
  by (rule advances_obj [where f = "\<lambda>ov. ov\<lparr>ov_Balance := Balance (so_data obj)\<rparr>"])
    (auto simp: at_def obj_view_restore simp del: obj_view_set)

lemma at_setStateObject: "at db s a obj \<Longrightarrow> same db s (setStateObject obj s)"
  by (rule same_setStateObject) (auto simp: at_def)

lemma at_advances_setStateObject: "at db s a obj \<Longrightarrow> advances db s (setStateObject obj s)"
  by (rule advances_same [OF _ at_setStateObject]) (auto simp: at_def)

lemma touch_advances:
  assumes "at db s a obj"
  shows "advances db s (setStateObject obj (touch obj s))"
proof -
  have a: "so_address obj = a" and ok: "sdb_ok s" using assms by (auto simp: at_def)
  define t where "t = touch obj s"
  have sv: "sview db t = sview db (log_change (touchChange a) s)"
  proof (cases "a = ripemd")
    case True
    define m where "m = dirties (journal_append (touchChange ripemd) (sdb_journal s))"
    have "(\<lambda>b. if b = ripemd then 0 else count_of (m(ripemd \<mapsto> count_of m ripemd + 1)) b) =
        (\<lambda>b. if b = ripemd then 0 else count_of m b)" by (auto simp: count_of_def)
    then show ?thesis
      by (simp add: t_def touch_def True a [unfolded True] Let_def log_change_def sview_simps journal_dirty_def m_def
          cong: if_cong)
  qed (simp add: t_def touch_def a Let_def)
  have "sdb_ok t" using sdb_ok_log_change [OF ok, of "touchChange a"]
    by (auto simp: t_def touch_def a Let_def sdb_ok_def journal_dirty_def)
  moreover have "backing t = backing s" "entries (sdb_journal t) = entries (sdb_journal s) @ [touchChange a]"
    "validRevisions t = validRevisions s" "nextRevisionId t = nextRevisionId s" "thash t = thash s" "txIndex t = txIndex s"
    by (simp_all add: t_def touch_def a Let_def journal_dirty_def)
  moreover have "undo db (backing s) (touchChange a) (sview db t) = Some (sview db s)"
  proof (rule undo_logged [OF _ _ _ ok])
    show "undo_entry db (backing s) (touchChange a) (sview db t) = Some (sview db (log_change (touchChange a) s))"
      by (simp add: sv)
    show "(sview db (log_change (touchChange a) s))\<lparr>v_dirties := v_dirties (sview db s)\<rparr> = sview db s"
      by (cases "a = ripemd") (simp_all add: sview_log_change del: sview_fields)
  qed simp
  ultimately have adv: "advances db s t" by (auto simp: advances_def sdb.later_def)
  have dt: "stateObjectsDestruct t = stateObjectsDestruct s" by (simp add: t_def touch_def Let_def)
  have "v_obj (sview db t) = v_obj (sview db s)" by (simp add: sv sview_log_change)
  then have "at db t a obj" using assms advances_ok [OF adv] dt by (simp add: at_def)
  then show ?thesis using adv advances_trans at_advances_setStateObject by (simp add: t_def)
qed

lemma balance_ops_advance:
  assumes "sdb_ok s"
  shows "advances db s (AddBalance db a n s)" "advances db s (SubBalance db a n s)"
    "advances db s (SetBalance db a n s)"
proof -
  show "advances db s (AddBalance db a n s)" unfolding AddBalance_def
    by (rule mutate_advances [OF assms])
      (auto simp: so_AddBalance_def touch_advances at_advances_setStateObject SetBalance_obj_advances [unfolded case_prod_beta] case_prod_beta)
  show "advances db s (SubBalance db a n s)" unfolding SubBalance_def
    by (rule mutate_advances [OF assms])
      (auto simp: so_SubBalance_def at_advances_setStateObject SetBalance_obj_advances [unfolded case_prod_beta] case_prod_beta)
  show "advances db s (SetBalance db a n s)" unfolding SetBalance_def
    by (rule mutate_advances [OF assms]) (rule SetBalance_obj_advances)
qed

lemma SetNonce_advances:
  assumes "sdb_ok s"
  shows "advances db s (SetNonce db a n s)"
  unfolding SetNonce_def
proof (rule mutate_advances [OF assms])
  fix obj t
  assume "at db t a obj"
  then show "advances db t (case so_SetNonce obj n t of (obj, t) \<Rightarrow> setStateObject obj t)"
    unfolding so_SetNonce_def prod.case
    by (intro advances_obj [where f = "\<lambda>ov. ov\<lparr>ov_Nonce := Nonce (so_data obj)\<rparr>"])
      (auto simp: at_def obj_view_restore simp del: obj_view_set)
qed

lemma cached_fields:
  "cached db bk d obj obj' \<Longrightarrow> so_address obj' = so_address obj \<and> so_deleted obj' = so_deleted obj"
  unfolding cached_def by (metis ov_deleted_obj_view)

lemma at_cached:
  assumes "at db s a obj" "erred s t" "cached db (backing s) (dflag s a) obj obj'"
  shows "at db t a obj' \<and> same db s t \<and> sdb_ok s"
proof -
  have st: "same db s t" using assms(2) by (rule same_erred)
  moreover have "stateObjectsDestruct t = stateObjectsDestruct s" using assms(2) by (auto simp: erred_def)
  ultimately show ?thesis
    using assms(1,3) cached_fields [OF assms(3)] by (auto simp: at_def same_def cached_def)
qed

lemma SetCode_advances:
  assumes "sdb_ok s"
  shows "advances db s (SetCode db a c s)"
  unfolding SetCode_def
proof (rule mutate_advances [OF assms])
  fix obj t
  assume at: "at db t a obj"
  define h where "h = Keccak256Hash db c"
  obtain obj' t' where c: "so_Code db obj t = (code_of db obj, obj', t')" "erred t t'"
    "cached db (backing t) (dflag t a) obj obj'" "so_data obj' = so_data obj" "so_code obj' = code_of db obj"
    using so_Code_spec by blast
  have at': "at db t' a obj'" "same db t t'" "sdb_ok t" using at_cached [OF at c(2,3)] by auto
  let ?e = "codeChange (so_address obj') (code_of db obj) (CodeHash (so_data obj'))"
  let ?f = "\<lambda>ov. ov\<lparr>ov_CodeHash := CodeHash (so_data obj'), ov_Code := (case code_of db obj of Some c \<Rightarrow> Some c
      | None \<Rightarrow> if CodeHash (so_data obj') = EmptyCodeHash db then None
                else fst (ContractCode db a (CodeHash (so_data obj'))))\<rparr>"
  have a: "so_address obj' = a" "so_address obj = a" using at' at by (auto simp: at_def)
  have co: "(case code_of db obj of Some c \<Rightarrow> Some c
      | None \<Rightarrow> if CodeHash (so_data obj') = EmptyCodeHash db then None
                else fst (ContractCode db a (CodeHash (so_data obj')))) = code_of db obj'"
    using a c(4,5) by (auto simp: code_of_def split: option.splits)
  have "advances db t' (setStateObject (so_setCode h (Some c) obj') (log_change ?e t'))"
  proof (rule advances_obj [OF at'(1), where f = ?f])
    show "so_address (so_setCode h (Some c) obj') = a" using a by simp
    show "\<not> so_deleted (so_setCode h (Some c) obj')" using at'(1) by (simp add: at_def)
    show "\<And>w. undo_entry db (backing t') ?e w = upd_obj a ?f w" by (simp add: a)
    show "?f (obj_view db (backing t') (dflag t' a) (so_setCode h (Some c) obj')) =
        obj_view db (backing t') (dflag t' a) obj'"
      unfolding co by (rule obj_view_restore)
  qed
  with same_advances [OF at'(3,2)] c(1)
  show "advances db t (case so_SetCode db obj (Keccak256Hash db c) (Some c) t of (obj, t) \<Rightarrow> setStateObject obj t)"
    by (simp add: so_SetCode_def h_def)
qed

lemma SetState_advances:
  assumes "sdb_ok s"
  shows "advances db s (SetState db a k v s)"
  unfolding SetState_def
proof (rule mutate_advances [OF assms])
  fix obj t
  assume at: "at db t a obj"
  then have a0: "so_address obj = a" by (simp add: at_def)
  define p where "p = ov_State (obj_view db (backing t) (dflag t a) obj) k"
  obtain obj' t' where c: "so_GetState db obj k t = (p, obj', t')" "erred t t'"
    "cached db (backing t) (dflag t a) obj obj'" using so_GetState_spec [of db obj k t] a0 by (auto simp: p_def)
  have at': "at db t' a obj'" "same db t t'" "sdb_ok t" using at_cached [OF at c(2,3)] by auto
  have a: "so_address obj' = a" using at' by (auto simp: at_def)
  have d: "dflag t' a = dflag t a" using c(2) by (auto simp: erred_def)
  have bk: "backing t' = backing t" using at'(2) by (simp add: same_def)
  have p: "p = ov_State (obj_view db (backing t') (dflag t' a) obj') k"
    using c(3) d bk by (simp add: p_def cached_def)
  have "advances db t' (setStateObject (so_setState k v obj') (log_change (storageChange (so_address obj') k p) t'))"
  proof (rule advances_obj [OF at'(1), where f = "\<lambda>ov. ov\<lparr>ov_State := (ov_State ov)(k := p)\<rparr>"])
    show "so_address (so_setState k v obj') = a" "\<not> so_deleted (so_setState k v obj')"
      using a at'(1) by (simp_all add: at_def)
    show "\<And>w. undo_entry db (backing t') (storageChange (so_address obj') k p) w =
        upd_obj a (\<lambda>ov. ov\<lparr>ov_State := (ov_State ov)(k := p)\<rparr>) w" by (simp add: a)
  qed (unfold p, rule obj_view_restore)
  moreover have "advances db t' (setStateObject obj' t')" using at'(1) by (rule at_advances_setStateObject)
  ultimately show "advances db t (case so_SetState db obj k v t of (obj, t) \<Rightarrow> setStateObject obj t)"
    using same_advances [OF at'(3,2)] c(1) by (simp add: so_SetState_def)
qed

lemma SelfDestruct_advances:
  assumes "sdb_ok s"
  shows "advances db s (SelfDestruct db a s)"
proof -
  obtain r t where t: "getStateObject db a s = (r, t)" "same db s t"
    "stateObjectsDestruct t = stateObjectsDestruct s"
    "case r of None \<Rightarrow> True | Some obj \<Rightarrow> so_address obj = a \<and> \<not> so_deleted obj \<and>
         v_obj (sview db s) a = Some (obj_view db (backing s) (dflag s a) obj)"
    using getStateObject_spec [OF assms, of db a] by (fastforce split: option.splits)
  show ?thesis
  proof (cases r)
    case None
    then show ?thesis using t advances_same [OF assms] by (simp add: SelfDestruct_def)
  next
    case (Some obj)
    have at: "at db t a obj" using t Some assms by (auto simp: at_def same_def)
    let ?e = "selfDestructChange a (selfDestructed obj) (Balance (so_data obj))"
    have "advances db t (setStateObject (so_setBalance 0 (markSelfdestructed obj)) (log_change ?e t))"
    proof (rule advances_obj [OF at])
      show "\<And>w. undo_entry db (backing t) ?e w =
          upd_obj a (\<lambda>ov. ov\<lparr>ov_selfDestructed := selfDestructed obj, ov_Balance := Balance (so_data obj)\<rparr>) w"
        by simp
    qed (use at obj_view_restore(5) in \<open>auto simp: at_def simp del: obj_view_set\<close>)
    then show ?thesis using t Some same_advances [OF assms t(2)] by (simp add: SelfDestruct_def)
  qed
qed

lemma Selfdestruct6780_advances:
  assumes "sdb_ok s"
  shows "advances db s (Selfdestruct6780 db a s)"
proof -
  obtain r t where t: "getStateObject db a s = (r, t)" "same db s t"
    using getStateObject_spec [OF assms, of db a] by blast
  then have "sdb_ok t" using assms by (simp add: same_def)
  from SelfDestruct_advances [OF this] t show ?thesis
    using advances_same [OF assms t(2)] same_advances [OF assms t(2)]
    by (auto simp: Selfdestruct6780_def split: option.splits)
qed

lemma CreateAccount_advances:
  assumes "sdb_ok s"
  shows "advances db s (CreateAccount db a s)"
proof -
  let ?n = "newObject db a None"
  have n: "so_address ?n = a" by (simp add: newObject_def)
  obtain t where t: "getDeletedStateObject db a s = (obj_at db s a, t)" "same db s t"
    "stateObjects t = (case obj_at db s a of None \<Rightarrow> stateObjects s | Some obj \<Rightarrow> (stateObjects s)(a \<mapsto> obj))"
    "\<forall>obj. obj_at db s a = Some obj \<longrightarrow> so_address obj = a"
    using getDeletedStateObject_spec [OF assms] by blast
  have okt: "sdb_ok t" using t(2) assms by (simp add: same_def)
  show ?thesis
  proof (cases "\<exists>p. obj_at db s a = Some p \<and> \<not> so_deleted p")
    case False
    then have "CreateAccount db a s = snd (snd (createObject db a s))"
      by (auto simp: CreateAccount_def createObject_unfold t(1) split: option.splits)
    then show ?thesis using createObject_spec [OF assms, of db a] by auto
  next
    case True
    then obtain p where p: "obj_at db s a = Some p" "\<not> so_deleted p" by blast
    let ?n' = "so_setBalance (Balance (so_data p)) ?n"
    have "CreateAccount db a s =
        setStateObject ?n' (drop_changes p (log_change (reset_entry a p t) (destroy_mark p t)))"
      using n by (simp add: CreateAccount_def createObject_unfold t(1) p setStateObject_def)
    moreover have "advances db t (setStateObject ?n' (drop_changes p (log_change (reset_entry a p t) (destroy_mark p t))))"
      by (rule createObject_reset [OF okt]) (use t(3,4) p n in \<open>simp_all add: obj_at_def\<close>)
    ultimately show ?thesis using same_advances [OF assms t(2)] by simp
  qed
qed

lemma advances_plain:
  assumes "sdb_ok s" "sdb_ok t" "frame (log_change e s) t"
    "undo_entry db (backing s) e (sview db t) = Some (sview db (log_change e s))" "dirtied e = None"
  shows "advances db s t"
proof (rule advances_entry [OF assms(2,3)])
  show "undo db (backing s) e (sview db t) = Some (sview db s)"
    by (rule undo_logged [OF assms(4)]) (simp_all add: sview_log_change assms(1,5) del: sview_fields)
qed

lemma log_change_accessList:
  "log_change e (s\<lparr>sdb_accessList := al\<rparr>) = (log_change e s)\<lparr>sdb_accessList := al\<rparr>"
  by (simp add: log_change_def)

lemma accessList_same: "(sview db s)\<lparr>v_accessList := sdb_accessList s\<rparr> = sview db s"
  by (simp add: sview_def)

lemma plain_ops_advance:
  assumes "sdb_ok s"
  shows "advances db s (AddRefund g s)" "advances db s (AddLog l s)" "advances db s (AddPreimage h pre s)"
    "advances db s (SetTransientState a k v s)" "advances db s (AddAddressToAccessList a s)"
    "SubRefund g s = Ret t \<Longrightarrow> advances db s t"
proof -
  let ?e1 = "refundChange (sdb_refund s)"
  have sv: "dirtied e = None \<Longrightarrow> sview db (log_change e s) = sview db s" for e by (simp add: sview_log_change)
  show "advances db s (AddRefund g s)"
    by (rule advances_plain [of _ _ ?e1]) (simp_all add: assms AddRefund_def sview_simps sv)
  show "SubRefund g s = Ret t \<Longrightarrow> advances db s t"
    by (rule advances_plain [of _ _ ?e1]) (auto simp: assms SubRefund_def sview_simps sv Let_def split: if_splits)
  show "advances db s (AddPreimage h pre s)"
  proof (cases "preimages s h")
    case None
    then show ?thesis
      by (intro advances_plain [of _ _ "addPreimageChange h"])
        (simp_all add: assms AddPreimage_def sview_simps sv fun_upd_idem)
  qed (simp add: AddPreimage_def assms)
  show "advances db s (SetTransientState a k v s)"
  proof (cases "GetTransientState a k s = v")
    case False
    have "((ts_Get (sdb_transientStorage s))(a := (ts_Get (sdb_transientStorage s) a)(k := v)))
        (a := (((ts_Get (sdb_transientStorage s))(a := (ts_Get (sdb_transientStorage s) a)(k := v))) a)
          (k := ts_Get (sdb_transientStorage s) a k)) = ts_Get (sdb_transientStorage s)" by simp
    with False show ?thesis
      by (intro advances_plain [of _ _ "transientStorageChange a k (GetTransientState a k s)"])
        (simp_all add: assms SetTransientState_def setTransientState_def sview_simps sv ts_Get_ts_Set
          GetTransientState_def Let_def)
  qed (simp add: SetTransientState_def assms)
  show "advances db s (AddLog l s)"
  proof -
    let ?l = "l\<lparr>log_TxHash := thash s, log_TxIndex := word_of_int (txIndex s), log_Index := logSize s\<rparr>"
    let ?old = "case sdb_logs s (thash s) of None \<Rightarrow> [] | Some ls \<Rightarrow> ls"
    have m: "(\<lambda>h. case if h = thash s then Some (?old @ [?l]) else sdb_logs s h of None \<Rightarrow> [] | Some ls \<Rightarrow> ls)
        (thash s := ?old) = logs_of s"
      by (auto simp: fun_eq_iff logs_of_def)
    show ?thesis
      by (rule advances_plain [of _ _ "addLogChange (thash s)"])
        (simp_all add: assms AddLog_def sview_simps sv m Let_def)
  qed
  show "advances db s (AddAddressToAccessList a s)"
  proof (cases "AddAddress a (sdb_accessList s)")
    case (Pair ch al)
    have ok: "al_ok (sdb_accessList s)" using assms by (simp add: sdb_ok_def)
    show ?thesis
    proof (cases ch)
      case True
      have "AddAddress a (sdb_accessList s) = (True, al)" using Pair True by simp
      note d = DeleteAddress_AddAddress [OF this]
      have "al_ok al" using AddAddress_ok [OF ok, of a] Pair by simp
      then show ?thesis using Pair True ok d
        by (intro advances_plain [of _ _ "accessListAddAccountChange a"])
          (simp_all add: assms AddAddressToAccessList_def Let_def accessList_same sview_simps sv sdb_ok_accessList log_change_accessList)
    next
      case False
      then have "al = sdb_accessList s" using Pair by (auto simp: AddAddress_def split: if_splits)
      then show ?thesis using Pair False assms by (simp add: AddAddressToAccessList_def)
    qed
  qed
qed

lemma AddSlotToAccessList_advances:
  assumes "sdb_ok s"
  shows "\<exists>t. AddSlotToAccessList a k s = Ret t \<and> advances db s t"
proof -
  let ?al = "sdb_accessList s"
  have ok: "al_ok ?al" using assms by (simp add: sdb_ok_def)
  obtain al where al: "AddSlot a k ?al = Ret ((\<not> ContainsAddress ?al a, k \<notin> al_slotset ?al a), al)" "al_ok al"
    using AddSlot_Ret [OF ok, of a k] by blast
  have sv: "dirtied e = None \<Longrightarrow> sview db (log_change e s) = sview db s" for e s by (simp add: sview_log_change)
  show ?thesis
  proof (cases "k \<in> al_slotset ?al a")
    case True
    then obtain i where i: "al_addresses ?al a = Some i" "i \<noteq> -1"
      by (auto simp: al_slotset_def split: option.splits if_splits)
    then have "al = ?al" using AddSlot_old [OF ok i, of k] al(1) True
      by (auto simp: al_slotset_def insert_absorb)
    then show ?thesis using al i True assms by (auto simp: AddSlotToAccessList_def ContainsAddress_def)
  next
    case False
    note d = DeleteSlot_AddSlot [OF ok, of a k "\<not> ContainsAddress ?al a" al]
    show ?thesis
    proof (cases "ContainsAddress ?al a")
      case True
      have "DeleteSlot a k al = Ret ?al" using d al(1) False True by simp
      then have "advances db s ((log_change (accessListAddSlotChange a k) s)\<lparr>sdb_accessList := al\<rparr>)"
        using al(2) ok by (intro advances_plain [OF assms, where e = "accessListAddSlotChange a k"])
          (simp_all add: assms sdb_ok_accessList sview_simps sv accessList_same)
      then show ?thesis using al True False by (simp add: AddSlotToAccessList_def Let_def log_change_accessList)
    next
      case absent: False
      define al1 where "al1 = ?al\<lparr>al_addresses := (al_addresses ?al)(a \<mapsto> -1)\<rparr>"
      have d1: "DeleteSlot a k al = Ret al1" using d al(1) False absent by (simp add: al1_def)
      have a1: "AddAddress a ?al = (True, al1)"
        using absent by (simp add: AddAddress_def ContainsAddress_def al1_def)
      define s1 where "s1 = (log_change (accessListAddAccountChange a) s)\<lparr>sdb_accessList := al1\<rparr>"
      have ok1: "al_ok al1" using AddAddress_ok [OF ok, of a] a1 by simp
      have "s1 = AddAddressToAccessList a s"
        by (simp add: AddAddressToAccessList_def a1 s1_def Let_def log_change_accessList)
      then have adv1: "advances db s s1" using plain_ops_advance(5) [OF assms] by simp
      have oks1: "sdb_ok s1" using adv1 by (simp add: advances_ok)
      have "advances db s1 ((log_change (accessListAddSlotChange a k) s1)\<lparr>sdb_accessList := al\<rparr>)"
        using al(2) d1 ok1 by (intro advances_plain [OF oks1, where e = "accessListAddSlotChange a k"])
          (simp_all add: assms oks1 sdb_ok_accessList sview_simps sv s1_def)
      with adv1 have "advances db s ((log_change (accessListAddSlotChange a k) s1)\<lparr>sdb_accessList := al\<rparr>)"
        by (rule advances_trans)
      then show ?thesis using al absent False
        by (simp add: AddSlotToAccessList_def Let_def log_change_accessList s1_def)
    qed
  qed
qed

section \<open>Snapshots\<close>

lemma sort_search_least:
  "(\<And>a b. a \<le> b \<Longrightarrow> b < n \<Longrightarrow> f a \<Longrightarrow> f b) \<Longrightarrow> i \<le> j \<Longrightarrow> j \<le> n \<Longrightarrow> (\<forall>k<i. \<not> f k) \<Longrightarrow> (j < n \<longrightarrow> f j) \<Longrightarrow>
    (\<forall>k < sort_search f i j. \<not> f k) \<and> (sort_search f i j < n \<longrightarrow> f (sort_search f i j)) \<and> sort_search f i j \<le> n"
proof (induction f i j rule: sort_search.induct)
  case (1 f i j)
  note mono = 1(3)
  show ?case
  proof (cases "i < j")
    case True
    define h where "h = (i + j) div 2"
    have h: "i \<le> h" "h < j" using True by (simp_all add: h_def)
    show ?thesis
    proof (cases "f h")
      case fh: True
      have "sort_search f i j = sort_search f i h"
        using fh True by (simp add: h_def sort_search.simps [of f i j] Let_def)
      moreover have "h \<le> n" "h < n \<longrightarrow> f h" using h 1(5) fh by simp_all
      ultimately show ?thesis using 1(2) [OF True h_def _ mono h(1)] fh 1(6) by simp
    next
      case fh: False
      have "\<forall>k<h + 1. \<not> f k"
      proof (intro allI impI)
        fix k
        assume "k < h + 1"
        then show "\<not> f k" using mono [of k h] fh h(2) 1(5) by auto
      qed
      moreover have "sort_search f i j = sort_search f (h + 1) j"
        using fh True by (simp add: h_def sort_search.simps [of f i j] Let_def)
      moreover have "h + 1 \<le> j" using h by simp
      ultimately show ?thesis using 1(1) [OF True h_def fh mono] 1(5,7) by simp
    qed
  next
    case False
    then show ?thesis using 1(4-) by (simp add: sort_search.simps [of f i j] sort_search.simps [of f j j])
  qed
qed

text \<open>The stack of snapshots is sorted by identifier, and identifiers are fresh.\<close>

definition revs_ok :: "StateDB \<Rightarrow> bool" where
  "revs_ok s \<longleftrightarrow> sorted_wrt (<) (map fst (validRevisions s)) \<and> (\<forall>r\<in>set (validRevisions s). fst r < nextRevisionId s)"

text \<open>\<open>extends db s t\<close>: as \<open>advances\<close>, but \<open>t\<close> may have more snapshots on top.\<close>

definition extends :: "database \<Rightarrow> StateDB \<Rightarrow> StateDB \<Rightarrow> bool" where
  "extends db s t \<longleftrightarrow> sdb.later db s t \<and> thash t = thash s \<and> txIndex t = txIndex s \<and>
     nextRevisionId s \<le> nextRevisionId t \<and>
     (\<exists>revs. validRevisions t = validRevisions s @ revs \<and> sorted_wrt (<) (map fst revs) \<and>
        (\<forall>r\<in>set revs. nextRevisionId s \<le> fst r \<and> fst r < nextRevisionId t))"

lemma advances_extends: "advances db s t \<Longrightarrow> extends db s t"
  by (simp add: advances_def extends_def)

lemma extends_refl [simp]: "sdb_ok s \<Longrightarrow> extends db s s"
  by (simp add: advances_extends)

lemma extends_ok: "extends db s t \<Longrightarrow> sdb_ok t \<and> backing t = backing s"
  by (simp add: extends_def sdb.later_def)

lemma extends_trans:
  assumes "extends db s t" "extends db t u"
  shows "extends db s u"
proof -
  obtain r1 r2 where r: "validRevisions t = validRevisions s @ r1" "validRevisions u = validRevisions t @ r2"
    "sorted_wrt (<) (map fst r1)" "sorted_wrt (<) (map fst r2)"
    "\<forall>r\<in>set r1. nextRevisionId s \<le> fst r \<and> fst r < nextRevisionId t"
    "\<forall>r\<in>set r2. nextRevisionId t \<le> fst r \<and> fst r < nextRevisionId u"
    "nextRevisionId s \<le> nextRevisionId t" "nextRevisionId t \<le> nextRevisionId u"
    using assms by (auto simp: extends_def)
  have "sorted_wrt (<) (map fst (r1 @ r2))"
    using r by (force simp: sorted_wrt_append)
  moreover have "sdb.later db s u" using assms sdb.later_trans by (auto simp: extends_def)
  ultimately show ?thesis using assms r by (fastforce simp: extends_def)
qed

lemma extends_revs_ok:
  assumes "extends db s t" "revs_ok s"
  shows "revs_ok t"
proof -
  obtain r1 where r: "validRevisions t = validRevisions s @ r1"
    "sorted_wrt (<) (map fst r1)" "\<forall>r\<in>set r1. nextRevisionId s \<le> fst r \<and> fst r < nextRevisionId t"
    "nextRevisionId s \<le> nextRevisionId t"
    using assms(1) by (auto simp: extends_def)
  then show ?thesis using assms(2) by (fastforce simp: revs_ok_def sorted_wrt_append)
qed

lemma sview_revs [simp]:
  "sview db (s\<lparr>validRevisions := x\<rparr>) = sview db s" "sview db (s\<lparr>nextRevisionId := y\<rparr>) = sview db s"
  by (simp_all add: sview_def obj_at_def [abs_def] logs_of_def [abs_def] cong: option.case_cong if_cong)

lemma Snapshot_extends: "sdb_ok s \<Longrightarrow> extends db s (snd (Snapshot s))"
  by (auto simp: extends_def sdb.later_def Snapshot_def)

definition meta :: "StateDB \<Rightarrow> (nat \<times> nat) list \<times> nat \<times> hash \<times> int" where
  "meta s = (validRevisions s, nextRevisionId s, thash s, txIndex s)"

lemma meta_simps [simp]:
  "meta (setStateObject obj s) = meta s" "meta (setError e s) = meta s"
  "meta (s\<lparr>stateObjects := x1\<rparr>) = meta s" "meta (s\<lparr>stateObjectsDirty := x2\<rparr>) = meta s"
  "meta (s\<lparr>stateObjectsDestruct := x3\<rparr>) = meta s" "meta (s\<lparr>accounts := x4\<rparr>) = meta s"
  "meta (s\<lparr>storages := x5\<rparr>) = meta s" "meta (s\<lparr>accountsOrigin := x6\<rparr>) = meta s"
  "meta (s\<lparr>storagesOrigin := x7\<rparr>) = meta s" "meta (s\<lparr>sdb_refund := x8\<rparr>) = meta s"
  "meta (s\<lparr>sdb_logs := x9\<rparr>) = meta s" "meta (s\<lparr>logSize := x10\<rparr>) = meta s"
  "meta (s\<lparr>preimages := x11\<rparr>) = meta s" "meta (s\<lparr>sdb_accessList := x12\<rparr>) = meta s"
  "meta (s\<lparr>sdb_transientStorage := x13\<rparr>) = meta s" "meta (s\<lparr>sdb_journal := x14\<rparr>) = meta s"
  by (simp_all add: meta_def setStateObject_def setError_def)

lemma getStateObject_meta: "getStateObject db a s = (r, t) \<Longrightarrow> meta t = meta s"
  by (auto simp: getStateObject_def getDeletedStateObject_def Let_def split: option.splits sum.splits prod.splits if_splits)

lemma revert_entry_meta: "revert_entry db e s = Ret t \<Longrightarrow> meta t = meta s"
  by (cases e)
    (auto simp: revert_object_def setTransientState_def Let_def dest!: getStateObject_meta
      split: option.splits prod.splits if_splits go.splits)

lemma revert_all_meta: "revert_all (rev1 db) es s = Ret t \<Longrightarrow> meta t = meta s"
proof (induction es arbitrary: s)
  case (Cons e es)
  then obtain u where "rev1 db e s = Ret u" "revert_all (rev1 db) es u = Ret t" by auto
  moreover have "meta u = meta s"
    using calculation(1) revert_entry_meta
    by (fastforce simp: rev1_def undirty_def Let_def split: option.splits)
  ultimately show ?case using Cons.IH by fastforce
qed simp

lemma journal_revert_spec:
  assumes "sdb.later db s t"
  shows "\<exists>u. journal_revert db (length (entries (sdb_journal s))) t = Ret u \<and> sdb_ok u \<and> sview db u = sview db s \<and>
    backing u = backing s \<and> entries (sdb_journal u) = entries (sdb_journal s) \<and> meta u = meta t"
proof -
  let ?n = "length (entries (sdb_journal s))"
  obtain es where es: "entries (sdb_journal t) = entries (sdb_journal s) @ es"
    using assms by (auto simp: sdb.later_def)
  from sdb.later_revert [OF assms, of ?n] es obtain u where
    u: "revert_all (rev1 db) (rev (drop ?n (entries (sdb_journal t)))) t = Ret u" "sdb_ok u"
      "backing u = backing s" "entries (sdb_journal u) = entries (sdb_journal t)" "sview db u = sview db s"
    by auto
  let ?u = "u\<lparr>sdb_journal := (sdb_journal u)\<lparr>entries := take ?n (entries (sdb_journal u))\<rparr>\<rparr>"
  have "journal_revert db ?n t = Ret ?u"
    using u(1) es by (simp add: journal_revert_def Let_def revert_entries_rev1)
  moreover have "sview db ?u = sview db u"
    by (simp add: sview_def obj_at_def [abs_def] logs_of_def [abs_def] cong: option.case_cong if_cong)
  moreover have "sdb_ok ?u" using u(2) by (simp add: sdb_ok_def)
  moreover have "meta ?u = meta t" using revert_all_meta [OF u(1)] by simp
  ultimately show ?thesis using u es by simp
qed

lemma revert_restores:
  assumes "sdb_ok s" "revs_ok s" "extends db (snd (Snapshot s)) t"
  shows "\<exists>u. RevertToSnapshot db (fst (Snapshot s)) t = Ret u \<and> sview db u = sview db s \<and>
    entries (sdb_journal u) = entries (sdb_journal s) \<and> validRevisions u = validRevisions s \<and>
    revs_ok u \<and> extends db s u"
proof -
  let ?id = "nextRevisionId s" and ?n = "length (entries (sdb_journal s))"
  obtain r where v: "validRevisions t = validRevisions s @ (?id, ?n) # r"
    "\<forall>x\<in>set r. ?id < fst x \<and> fst x < nextRevisionId t" "Suc ?id \<le> nextRevisionId t"
    using assms(3) by (auto simp: extends_def Snapshot_def Suc_le_eq)
  have r: "revs_ok t" using extends_revs_ok [OF assms(3)] extends_revs_ok [OF Snapshot_extends [OF assms(1)] assms(2)] by blast
  let ?f = "\<lambda>i. fst (validRevisions t ! i) \<ge> ?id" and ?k = "length (validRevisions s)"
  define idx where "idx = sort_search ?f 0 (length (validRevisions t))"
  have mono: "fst (validRevisions t ! i) \<le> fst (validRevisions t ! j)" if "i \<le> j" "j < length (validRevisions t)" for i j
    using r that unfolding revs_ok_def sorted_wrt_map
    by (metis le_eq_less_or_eq sorted_wrt_nth_less)
  have s: "(\<forall>k<idx. \<not> ?f k) \<and> (idx < length (validRevisions t) \<longrightarrow> ?f idx) \<and> idx \<le> length (validRevisions t)"
    unfolding idx_def by (rule sort_search_least) (use mono in \<open>force+\<close>)
  have "?f ?k" by (simp add: v(1))
  then have "idx \<le> ?k" using s by (meson not_le)
  moreover have "\<not> ?f i" if "i < ?k" for i
  proof -
    have "fst (validRevisions s ! i) < ?id" using assms(2) that by (auto simp: revs_ok_def)
    then show ?thesis using that by (simp add: v(1) nth_append)
  qed
  ultimately have idx: "idx = ?k" using s v(1) by (metis le_neq_implies_less length_append less_add_same_cancel1 length_greater_0_conv list.distinct(1) le_less_trans)
  have "sdb.later db s t"
    using assms(3) Snapshot_extends [OF assms(1), of db] sdb.later_trans by (fastforce simp: extends_def)
  from journal_revert_spec [OF this] obtain u where u: "journal_revert db ?n t = Ret u" "sdb_ok u"
    "sview db u = sview db s" "backing u = backing s" "entries (sdb_journal u) = entries (sdb_journal s)"
    "validRevisions u = validRevisions t" "nextRevisionId u = nextRevisionId t" "thash u = thash t" "txIndex u = txIndex t"
    by (auto simp: meta_def)
  let ?u = "u\<lparr>validRevisions := validRevisions s\<rparr>"
  have e: "sort_search ?f 0 (length (validRevisions t)) = ?k" using idx by (simp only: idx_def)
  have nth: "validRevisions t ! ?k = (?id, ?n)" "?k \<noteq> length (validRevisions t)"
    "take ?k (validRevisions t) = validRevisions s" by (simp_all add: v(1))
  have "RevertToSnapshot db ?id t = Ret ?u"
    using u(1) by (simp add: RevertToSnapshot_def Let_def e nth u(6))
  moreover have "extends db s ?u"
    using u v assms(3) by (auto simp: extends_def sdb.later_def Snapshot_def)
  ultimately show ?thesis using u assms(2) v(3) by (fastforce simp: Snapshot_def revs_ok_def)
qed

section \<open>Programs over the StateDB\<close>

text \<open>
  The operations the EVM performs inside a transaction, with calls: a call takes a snapshot, runs
  its own operations, and reverts to the snapshot when it fails.
\<close>

datatype sdb_op =
    QueryAccount address
  | QueryCode address
  | QueryState address hash
  | QueryCommitted address hash
  | OpAddBalance address u256
  | OpSubBalance address u256
  | OpSetBalance address u256
  | OpSetNonce address u64
  | OpSetCode address bytes
  | OpSetState address hash hash
  | OpCreateAccount address
  | OpSelfDestruct address
  | OpSelfdestruct6780 address
  | OpSetTransient address hash hash
  | OpAddLog Log
  | OpAddPreimage hash bytes
  | OpAddRefund u64
  | OpSubRefund u64
  | OpAccessAddress address
  | OpAccessSlot address hash
  | OpCall "sdb_op list" bool

fun run_op :: "database \<Rightarrow> sdb_op \<Rightarrow> StateDB \<Rightarrow> StateDB go"
  and run_ops :: "database \<Rightarrow> sdb_op list \<Rightarrow> StateDB \<Rightarrow> StateDB go" where
  "run_op db (QueryAccount a) s = Ret (snd (Exist db a s))"
| "run_op db (QueryCode a) s = Ret (snd (GetCode db a s))"
| "run_op db (QueryState a k) s = Ret (snd (GetState db a k s))"
| "run_op db (QueryCommitted a k) s = Ret (snd (GetCommittedState db a k s))"
| "run_op db (OpAddBalance a n) s = Ret (AddBalance db a n s)"
| "run_op db (OpSubBalance a n) s = Ret (SubBalance db a n s)"
| "run_op db (OpSetBalance a n) s = Ret (SetBalance db a n s)"
| "run_op db (OpSetNonce a n) s = Ret (SetNonce db a n s)"
| "run_op db (OpSetCode a c) s = Ret (SetCode db a c s)"
| "run_op db (OpSetState a k v) s = Ret (SetState db a k v s)"
| "run_op db (OpCreateAccount a) s = Ret (CreateAccount db a s)"
| "run_op db (OpSelfDestruct a) s = Ret (SelfDestruct db a s)"
| "run_op db (OpSelfdestruct6780 a) s = Ret (Selfdestruct6780 db a s)"
| "run_op db (OpSetTransient a k v) s = Ret (SetTransientState a k v s)"
| "run_op db (OpAddLog l) s = Ret (AddLog l s)"
| "run_op db (OpAddPreimage h p) s = Ret (AddPreimage h p s)"
| "run_op db (OpAddRefund g) s = Ret (AddRefund g s)"
| "run_op db (OpSubRefund g) s = SubRefund g s"
| "run_op db (OpAccessAddress a) s = Ret (AddAddressToAccessList a s)"
| "run_op db (OpAccessSlot a k) s = AddSlotToAccessList a k s"
| "run_op db (OpCall ops fails) s =
     (case Snapshot s of (revid, s) \<Rightarrow>
        go_bind (run_ops db ops s) (\<lambda>s. if fails then RevertToSnapshot db revid s else Ret s))"
| "run_ops db [] s = Ret s"
| "run_ops db (x # xs) s = go_bind (run_op db x s) (run_ops db xs)"

lemma run_extends:
  "run_op db x s = Ret t \<Longrightarrow> sdb_ok s \<Longrightarrow> revs_ok s \<Longrightarrow> extends db s t"
  "run_ops db xs s = Ret t \<Longrightarrow> sdb_ok s \<Longrightarrow> revs_ok s \<Longrightarrow> extends db s t"
proof (induction db x s and db xs s arbitrary: t and t rule: run_op_run_ops.induct)
  case (20 db a k s)
  then show ?case using AddSlotToAccessList_advances [OF 20(2), of a k db] by (auto intro: advances_extends)
next
  case (21 db ops fails s)
  obtain u where u: "run_ops db ops (snd (Snapshot s)) = Ret u"
    "(if fails then RevertToSnapshot db (fst (Snapshot s)) u else Ret u) = Ret t"
    using 21(2) by (auto simp: case_prod_beta)
  have sn: "extends db s (snd (Snapshot s))" using 21(3) by (rule Snapshot_extends)
  have e: "extends db (snd (Snapshot s)) u"
    using 21(1) [OF _ u(1)] extends_ok [OF sn] extends_revs_ok [OF sn 21(4)] by (metis prod.collapse)
  show ?case
  proof (cases fails)
    case True
    then show ?thesis using revert_restores [OF 21(3,4) e] u(2) by auto
  next
    case False
    then show ?thesis using u(2) extends_trans [OF sn e] by simp
  qed
next
  case (23 db x xs s)
  then obtain u where u: "run_op db x s = Ret u" "run_ops db xs u = Ret t" by auto
  have e: "extends db s u" using 23(1) [OF u(1) 23(4,5)] .
  show ?case using 23(2) [OF u] extends_ok [OF e] extends_revs_ok [OF e 23(5)] extends_trans [OF e] by blast
qed (auto intro: advances_extends advances_same queries_same balance_ops_advance SetNonce_advances
    SetCode_advances SetState_advances CreateAccount_advances SelfDestruct_advances Selfdestruct6780_advances
    plain_ops_advance)

section \<open>Properties\<close>

lemma StateDB_New_ok [simp]: "sdb_ok (StateDB_New r tr sn)" "revs_ok (StateDB_New r tr sn)"
  by (simp_all add: sdb_ok_def revs_ok_def StateDB_New_def newJournal_def)

text \<open>
  C1. Reverting to a snapshot restores the state. Whatever program of state operations (with
  nested calls that commit or fail) runs after a snapshot, \<open>RevertToSnapshot\<close> returns without a
  panic and everything the StateDB can be asked (accounts, code, storage, committed storage,
  refund, logs, preimages, access list, transient storage, dirty counts) is as it was, with the
  same journal and the same stack of snapshots.
\<close>

theorem revert_to_snapshot_restores:
  assumes "sdb_ok s" "revs_ok s" "Snapshot s = (revid, s1)" "run_ops db prog s1 = Ret t"
  shows "\<exists>u. RevertToSnapshot db revid t = Ret u \<and> sview db u = sview db s \<and>
    entries (sdb_journal u) = entries (sdb_journal s) \<and> validRevisions u = validRevisions s"
proof -
  have s1: "s1 = snd (Snapshot s)" "revid = fst (Snapshot s)" using assms(3) by simp_all
  have sn: "extends db s s1" unfolding s1 by (rule Snapshot_extends [OF assms(1)])
  have "extends db s1 t"
    using run_extends(2) [OF assms(4)] extends_ok [OF sn] extends_revs_ok [OF sn assms(2)] by blast
  from revert_restores [OF assms(1,2), of db t] this show ?thesis unfolding s1 by blast
qed

text \<open>
  C9. Reading does not change what can be read. The queries load objects, slots and tries into the
  caches and remember database errors, but what every query would return is unchanged by them.
\<close>

theorem queries_leave_view:
  assumes "sdb_ok s"
  shows "sview db (snd (GetBalance db a s)) = sview db s \<and> sview db (snd (GetState db a k s)) = sview db s \<and>
    sview db (snd (GetCommittedState db a k s)) = sview db s \<and> sview db (snd (GetCode db a s)) = sview db s \<and>
    sview db (snd (Exist db a s)) = sview db s \<and> sview db (snd (Empty db a s)) = sview db s"
  using queries_same [OF assms, of db a] by (simp add: same_def)

fun no_sub_refund :: "sdb_op \<Rightarrow> bool" where
  "no_sub_refund (OpSubRefund g) = False"
| "no_sub_refund (OpCall ops fails) = list_all no_sub_refund ops"
| "no_sub_refund x = True"

lemma run_total:
  "sdb_ok s \<Longrightarrow> revs_ok s \<Longrightarrow> no_sub_refund x \<Longrightarrow> \<exists>t. run_op db x s = Ret t"
  "sdb_ok s \<Longrightarrow> revs_ok s \<Longrightarrow> list_all no_sub_refund xs \<Longrightarrow> \<exists>t. run_ops db xs s = Ret t"
proof (induction db x s and db xs s rule: run_op_run_ops.induct)
  case (20 db a k s)
  then show ?case using AddSlotToAccessList_advances [of s a k db] by auto
next
  case (21 db ops fails s)
  have sn: "extends db s (snd (Snapshot s))" using 21(2) by (rule Snapshot_extends)
  then have ok: "sdb_ok (snd (Snapshot s))" "revs_ok (snd (Snapshot s))"
    using extends_ok [OF sn] extends_revs_ok [OF sn 21(3)] by auto
  then obtain t where t: "run_ops db ops (snd (Snapshot s)) = Ret t"
    using 21(1) 21(4) by (metis no_sub_refund.simps(2) prod.collapse)
  have "extends db (snd (Snapshot s)) t" using run_extends(2) [OF t ok] .
  from revert_restores [OF 21(2,3) this] t show ?case by (auto simp: case_prod_beta)
next
  case (23 db x xs s)
  then obtain t where t: "run_op db x s = Ret t" by auto
  have e: "extends db s t" using run_extends(1) [OF t 23(3,4)] .
  show ?case using t 23(2) [OF t] extends_ok [OF e] extends_revs_ok [OF e 23(4)] 23(5) by auto
qed auto

text \<open>
  C6. The journal never gets stuck. A program of state operations that does not lower the refund
  counter always returns: no revert finds its object, log or access-list entry missing, and no
  snapshot is unknown when its call reverts to it.
\<close>

theorem state_programs_return:
  assumes "sdb_ok s" "revs_ok s" "list_all no_sub_refund prog"
  shows "\<exists>t. run_ops db prog s = Ret t \<and> sdb_ok t \<and> revs_ok t"
proof -
  obtain t where t: "run_ops db prog s = Ret t" using run_total(2) [OF assms] by blast
  have e: "extends db s t" using run_extends(2) [OF t assms(1,2)] .
  show ?thesis using t extends_ok [OF e] extends_revs_ok [OF e assms(2)] by blast
qed

section \<open>A concrete state\<close>

text \<open>A database with one funded account and no code, for the witnesses.\<close>

definition sample_db :: database where
  "sample_db = \<lparr>Keccak256Hash = (\<lambda>b. SetBytes b + 7), ContractCode = (\<lambda>a h. (None, None)),
     ContractCodeSize = (\<lambda>a h. (0, None)), OpenStorageTrie = (\<lambda>r a h. Inr (\<lambda>k. Inr [42]))\<rparr>"

definition sample_state :: StateDB where
  "sample_state = StateDB_New 1 (\<lambda>a. if a = 5 then Inr (Some
     \<lparr>Nonce = 1, Balance = 100, Root = 9, CodeHash = 7\<rparr>) else Inr None) None"

lemma sample_ok [simp]: "sdb_ok sample_state" "revs_ok sample_state"
  by (simp_all add: sample_state_def)

theorem revert_to_snapshot_restores_witness:
  "\<exists>t u. run_ops sample_db [OpSetState 5 1 2, OpAddBalance 6 10, OpCall [OpSetNonce 5 3, OpAccessSlot 5 1] False,
        OpSelfDestruct 5, OpCreateAccount 5] (snd (Snapshot sample_state)) = Ret t \<and>
     RevertToSnapshot sample_db (fst (Snapshot sample_state)) t = Ret u \<and>
     sview sample_db u = sview sample_db sample_state"
proof -
  let ?p = "[OpSetState 5 1 2, OpAddBalance 6 10, OpCall [OpSetNonce 5 3, OpAccessSlot 5 1] False,
        OpSelfDestruct 5, OpCreateAccount 5]"
  have sn: "extends sample_db sample_state (snd (Snapshot sample_state))" by (rule Snapshot_extends) simp
  obtain t where "run_ops sample_db ?p (snd (Snapshot sample_state)) = Ret t"
    using run_total(2) [of "snd (Snapshot sample_state)" ?p sample_db] extends_ok [OF sn] extends_revs_ok [OF sn] by auto
  then show ?thesis using revert_to_snapshot_restores [of sample_state] by (metis prod.collapse sample_ok)
qed

theorem queries_leave_view_witness:
  "sview sample_db (snd (GetState sample_db 5 1 sample_state)) = sview sample_db sample_state"
  using queries_leave_view [of sample_state sample_db 5 1] by simp

theorem state_programs_return_witness:
  "\<exists>t. run_ops sample_db [OpSetState 5 1 2, OpCall [OpSelfDestruct 5] True] sample_state = Ret t \<and> sdb_ok t \<and> revs_ok t"
  by (rule state_programs_return) simp_all

end
