(* ===== verification/StateDB_Values.thy ===== *)
theory StateDB_Values imports StateDB_Revert begin

text \<open>
  What the operations of the StateDB compute: the queries as functions of the view, and the effect
  of the setters on later queries. Balances are moved and kept, storage is read back as written.
\<close>

section \<open>Queries are functions of the view\<close>

definition live :: "database \<Rightarrow> StateDB \<Rightarrow> address \<Rightarrow> obj_view option" where
  "live db s a = (case v_obj (sview db s) a of None \<Rightarrow> None | Some ov \<Rightarrow> if ov_deleted ov then None else Some ov)"

lemma live_cong: "sview db t = sview db s \<Longrightarrow> live db t = live db s"
  by (simp add: live_def fun_eq_iff)

lemma live_at: "at db s a obj \<Longrightarrow> live db s a = Some (obj_view db (backing s) (dflag s a) obj)"
  by (simp add: at_def live_def)

lemma query_value:
  assumes "sdb_ok s" "\<And>obj t. at db t a obj \<Longrightarrow> fst (f obj t) = g (obj_view db (backing t) (dflag t a) obj)"
  shows "fst (query db a d f s) = (case live db s a of None \<Rightarrow> d | Some ov \<Rightarrow> g ov)"
proof -
  obtain r t where t: "getStateObject db a s = (r, t)" "same db s t" "stateObjectsDestruct t = stateObjectsDestruct s"
    "case r of None \<Rightarrow> (case v_obj (sview db s) a of None \<Rightarrow> True | Some ov \<Rightarrow> ov_deleted ov)
     | Some obj \<Rightarrow> so_address obj = a \<and> \<not> so_deleted obj \<and>
         v_obj (sview db s) a = Some (obj_view db (backing s) (dflag s a) obj)"
    using getStateObject_spec [OF assms(1), of db a] by (fastforce split: option.splits)
  show ?thesis
  proof (cases r)
    case None
    then show ?thesis using t by (auto simp: query_def live_def split: option.splits)
  next
    case (Some obj)
    then have at: "at db t a obj" using t assms(1) by (auto simp: at_def same_def)
    have "live db t = live db s" using t(2) by (intro live_cong) (simp add: same_def)
    then show ?thesis using assms(2) [OF at] live_at [OF at] t Some by (simp add: query_def)
  qed
qed

lemma query_values:
  assumes "sdb_ok s"
  shows "fst (Exist db a s) = (live db s a \<noteq> None)"
    "fst (GetBalance db a s) = (case live db s a of None \<Rightarrow> 0 | Some ov \<Rightarrow> ov_Balance ov)"
    "fst (GetNonce db a s) = (case live db s a of None \<Rightarrow> 0 | Some ov \<Rightarrow> ov_Nonce ov)"
    "fst (GetCodeHash db a s) = (case live db s a of None \<Rightarrow> 0 | Some ov \<Rightarrow> ov_CodeHash ov)"
    "fst (HasSelfDestructed db a s) = (case live db s a of None \<Rightarrow> False | Some ov \<Rightarrow> ov_selfDestructed ov)"
    "fst (Empty db a s) = (case live db s a of None \<Rightarrow> True
       | Some ov \<Rightarrow> ov_Nonce ov = 0 \<and> ov_Balance ov = 0 \<and> ov_CodeHash ov = EmptyCodeHash db)"
    "fst (GetCode db a s) = (case live db s a of None \<Rightarrow> None | Some ov \<Rightarrow> ov_Code ov)"
    "fst (GetState db a k s) = (case live db s a of None \<Rightarrow> 0 | Some ov \<Rightarrow> ov_State ov k)"
    "fst (GetCommittedState db a k s) = (case live db s a of None \<Rightarrow> 0 | Some ov \<Rightarrow> ov_Committed ov k)"
proof -
  note q = query_value [OF assms]
  show "fst (Exist db a s) = (live db s a \<noteq> None)"
    unfolding Exist_def by (subst q [where g = "\<lambda>ov. True"]) (auto split: option.splits)
  show "fst (GetBalance db a s) = (case live db s a of None \<Rightarrow> 0 | Some ov \<Rightarrow> ov_Balance ov)"
    unfolding GetBalance_def by (rule q) (simp add: obj_view_def)
  show "fst (GetNonce db a s) = (case live db s a of None \<Rightarrow> 0 | Some ov \<Rightarrow> ov_Nonce ov)"
    unfolding GetNonce_def by (rule q) (simp add: obj_view_def)
  show "fst (GetCodeHash db a s) = (case live db s a of None \<Rightarrow> 0 | Some ov \<Rightarrow> ov_CodeHash ov)"
    unfolding GetCodeHash_def by (rule q) (simp add: obj_view_def)
  show "fst (HasSelfDestructed db a s) = (case live db s a of None \<Rightarrow> False | Some ov \<Rightarrow> ov_selfDestructed ov)"
    unfolding HasSelfDestructed_def by (rule q) (simp add: obj_view_def)
  show "fst (Empty db a s) = (case live db s a of None \<Rightarrow> True
       | Some ov \<Rightarrow> ov_Nonce ov = 0 \<and> ov_Balance ov = 0 \<and> ov_CodeHash ov = EmptyCodeHash db)"
    unfolding Empty_def by (rule q) (simp add: obj_view_def so_empty_def)
  show "fst (GetCode db a s) = (case live db s a of None \<Rightarrow> None | Some ov \<Rightarrow> ov_Code ov)"
    unfolding GetCode_def
  proof (rule q)
    fix obj t
    show "fst (case so_Code db obj t of (c, obj, s) \<Rightarrow> (c, setStateObject obj s)) =
        ov_Code (obj_view db (backing t) (dflag t a) obj)"
      using so_Code_spec [of db obj t "backing t" "dflag t a"] by (auto simp: obj_view_def)
  qed
  show "fst (GetState db a k s) = (case live db s a of None \<Rightarrow> 0 | Some ov \<Rightarrow> ov_State ov k)"
    unfolding GetState_def
  proof (rule q)
    fix obj t
    assume "at db t a obj"
    then show "fst (case so_GetState db obj k t of (v, obj, s) \<Rightarrow> (v, setStateObject obj s)) =
        ov_State (obj_view db (backing t) (dflag t a) obj) k"
      using so_GetState_spec [of db obj k t] by (auto simp: at_def)
  qed
  show "fst (GetCommittedState db a k s) = (case live db s a of None \<Rightarrow> 0 | Some ov \<Rightarrow> ov_Committed ov k)"
    unfolding GetCommittedState_def
  proof (rule q)
    fix obj t
    assume "at db t a obj"
    then show "fst (case so_GetCommittedState db obj k t of (v, obj, s) \<Rightarrow> (v, setStateObject obj s)) =
        ov_Committed (obj_view db (backing t) (dflag t a) obj) k"
      using so_GetCommittedState_spec [of db obj k t] by (auto simp: at_def obj_view_def)
  qed
qed

section \<open>The effect of the setters\<close>

text \<open>
  The account a setter works on: the live one, or a new one. A new account over an old deleted one
  has its destruction mark set.
\<close>

definition created_view :: "database \<Rightarrow> StateDB \<Rightarrow> address \<Rightarrow> obj_view" where
  "created_view db s a =
     obj_view db (backing s) (dflag s a \<or> obj_at db s a \<noteq> None) (newObject db a None)"

definition target :: "database \<Rightarrow> StateDB \<Rightarrow> address \<Rightarrow> obj_view" where
  "target db s a = (case live db s a of Some ov \<Rightarrow> ov | None \<Rightarrow> created_view db s a)"

lemma createObject_view:
  assumes "sdb_ok s"
  shows "\<exists>prev t. createObject db a s = (newObject db a None, prev, t) \<and> at db t a (newObject db a None) \<and>
    advances db s t \<and>
    prev = (case obj_at db s a of None \<Rightarrow> None | Some p \<Rightarrow> if so_deleted p then None else Some p) \<and>
    v_obj (sview db t) = (v_obj (sview db s))(a \<mapsto> created_view db s a)"
proof -
  let ?n = "newObject db a None"
  have n: "so_address ?n = a" by (simp add: newObject_def)
  obtain t where t: "getDeletedStateObject db a s = (obj_at db s a, t)" "same db s t"
    "stateObjectsDestruct t = stateObjectsDestruct s"
    "\<forall>obj. obj_at db s a = Some obj \<longrightarrow> so_address obj = a"
    using getDeletedStateObject_spec [OF assms] by blast
  obtain prev u where u: "createObject db a s = (?n, prev, u)" "advances db s u" "at db u a ?n"
    "prev = (case obj_at db s a of None \<Rightarrow> None | Some p \<Rightarrow> if so_deleted p then None else Some p)"
    using createObject_spec [OF assms] by blast
  have vt: "v_obj (sview db t) = v_obj (sview db s)" "backing t = backing s" using t(2) by (simp_all add: same_def)
  have "v_obj (sview db u) = (v_obj (sview db s))(a \<mapsto> created_view db s a)"
  proof (cases "obj_at db s a")
    case None
    then have "u = setStateObject ?n (log_change (createObjectChange a) t)"
      using u(1) by (simp add: createObject_unfold t(1))
    then show ?thesis
      using vt None n t(3) by (simp add: sview_setStateObject sview_log_change created_view_def)
  next
    case (Some p)
    have p: "so_address p = a" using t(4) Some by blast
    have ud: "u = setStateObject ?n (drop_changes p (log_change (reset_entry a p t) (destroy_mark p t)))"
      using u(1) Some by (simp add: createObject_unfold t(1))
    have d: "dflag u a" "\<And>b. b \<noteq> a \<Longrightarrow> stateObjectsDestruct u b = stateObjectsDestruct t b"
      using p by (auto simp: ud drop_changes_def destroy_mark_def)
    have so: "stateObjects u = (stateObjects t)(a \<mapsto> ?n)"
      by (simp add: ud setStateObject_def drop_changes_def destroy_mark_def n)
    have bk: "backing u = backing s" using u(2) by (simp add: advances_ok)
    have "v_obj (sview db u) b = ((v_obj (sview db s))(a \<mapsto> created_view db s a)) b" for b
    proof (cases "b = a")
      case True
      then show ?thesis using d(1) Some by (simp add: v_obj_sview obj_at_def so bk created_view_def)
    next
      case False
      have "v_obj (sview db u) b = v_obj (sview db t) b"
        using d(2) [OF False] False bk vt(2)
        by (auto simp: v_obj_sview obj_at_def so cong: option.case_cong)
      with vt(1) False show ?thesis by simp
    qed
    then show ?thesis by blast
  qed
  with u show ?thesis by blast
qed

lemma getOrNew_view:
  assumes "sdb_ok s"
  shows "\<exists>obj t. getOrNewStateObject db a s = (obj, t) \<and> at db t a obj \<and> backing t = backing s \<and>
    obj_view db (backing s) (dflag t a) obj = target db s a \<and>
    v_obj (sview db t) = (v_obj (sview db s))(a \<mapsto> target db s a)"
proof -
  obtain r t where t: "getStateObject db a s = (r, t)" "same db s t"
    "stateObjectsDestruct t = stateObjectsDestruct s"
    "case r of None \<Rightarrow> (case v_obj (sview db s) a of None \<Rightarrow> True | Some ov \<Rightarrow> ov_deleted ov)
     | Some obj \<Rightarrow> so_address obj = a \<and> \<not> so_deleted obj \<and>
         v_obj (sview db s) a = Some (obj_view db (backing s) (dflag s a) obj)"
    using getStateObject_spec [OF assms, of db a] by (fastforce split: option.splits)
  have okt: "sdb_ok t" "backing t = backing s" "sview db t = sview db s" using t(2) assms by (simp_all add: same_def)
  show ?thesis
  proof (cases r)
    case (Some obj)
    then have at: "at db t a obj" using t okt by (simp add: at_def)
    have "target db s a = obj_view db (backing s) (dflag s a) obj"
      using live_at [OF at] t(3) okt(2) live_cong [OF okt(3)] by (simp add: target_def)
    then show ?thesis
      using t(1,3,4) Some okt at by (intro exI [of _ obj] exI [of _ t]) (simp add: getOrNewStateObject_def fun_upd_idem)
  next
    case None
    then have dead: "live db s a = None" using t(4) by (auto simp: live_def split: option.splits)
    obtain prev u where u: "createObject db a t = (newObject db a None, prev, u)" "at db u a (newObject db a None)"
      "advances db t u" "v_obj (sview db u) = (v_obj (sview db t))(a \<mapsto> created_view db t a)"
      using createObject_view [OF okt(1)] by blast
    have c: "created_view db t a = created_view db s a"
    proof -
      have "map_option (\<lambda>x. ()) (v_obj (sview db t) a) = map_option (\<lambda>x. ()) (v_obj (sview db s) a)" using okt(3) by simp
      then have "obj_at db t a = None \<longleftrightarrow> obj_at db s a = None" by (simp add: v_obj_sview option.map_comp) (metis map_option_is_None)
      then show ?thesis using t(3) okt(2) by (simp add: created_view_def)
    qed
    have "obj_view db (backing s) (dflag u a) (newObject db a None) = created_view db s a"
      using u(2,4) c advances_ok [OF u(3)] okt(2) by (simp add: at_def)
    then show ?thesis
      using t(1) None u dead c okt advances_ok [OF u(3)]
      by (intro exI [of _ "newObject db a None"] exI [of _ u]) (simp add: getOrNewStateObject_def target_def)
  qed
qed

lemma mutate_view:
  assumes "sdb_ok s"
    "\<And>obj t. at db t a obj \<Longrightarrow> \<exists>obj' t'. f obj t = (obj', t') \<and> so_address obj' = a \<and> \<not> so_deleted obj' \<and>
       v_obj (sview db t') = v_obj (sview db t) \<and> backing t' = backing t \<and> dflag t' a = dflag t a \<and>
       obj_view db (backing t) (dflag t a) obj' = g (obj_view db (backing t) (dflag t a) obj)"
  shows "live db (mutate db a f s) = (live db s)(a \<mapsto> g (target db s a))"
proof -
  obtain obj t where t: "getOrNewStateObject db a s = (obj, t)" "at db t a obj" "backing t = backing s"
    "obj_view db (backing s) (dflag t a) obj = target db s a"
    "v_obj (sview db t) = (v_obj (sview db s))(a \<mapsto> target db s a)"
    using getOrNew_view [OF assms(1)] by blast
  obtain obj' t' where f: "f obj t = (obj', t')" "so_address obj' = a" "\<not> so_deleted obj'"
    "v_obj (sview db t') = v_obj (sview db t)" "backing t' = backing t" "dflag t' a = dflag t a"
    "obj_view db (backing t) (dflag t a) obj' = g (obj_view db (backing t) (dflag t a) obj)"
    using assms(2) [OF t(2)] by blast
  have v: "v_obj (sview db (mutate db a f s)) = (v_obj (sview db s))(a \<mapsto> g (target db s a))"
    using t f by (simp add: mutate_def v_obj_setStateObject)
  have "\<not> ov_deleted (g (target db s a))" using f(3,7) t by (metis ov_deleted_obj_view)
  then show ?thesis by (simp add: live_def v fun_eq_iff)
qed

lemma v_obj_log_change [simp]: "v_obj (sview db (log_change e s)) = v_obj (sview db s)"
  by (simp add: sview_log_change split: option.splits)

lemma touch_fields:
  "v_obj (sview db (touch obj t)) = v_obj (sview db t)" "backing (touch obj t) = backing t"
  "stateObjectsDestruct (touch obj t) = stateObjectsDestruct t"
  by (simp_all add: touch_def Let_def sview_simps)

lemma ov_obj_view [simp]:
  "ov_Balance (obj_view db bk d obj) = Balance (so_data obj)" "ov_Nonce (obj_view db bk d obj) = Nonce (so_data obj)"
  "ov_CodeHash (obj_view db bk d obj) = CodeHash (so_data obj)" "ov_Code (obj_view db bk d obj) = code_of db obj"
  by (simp_all add: obj_view_def)

lemma ov_Balance_same: "(ov :: obj_view)\<lparr>ov_Balance := ov_Balance ov\<rparr> = ov"
  "ov_Balance ov = x \<Longrightarrow> ov\<lparr>ov_Balance := x\<rparr> = ov"
  by auto

lemma live_set:
  assumes "sdb_ok s"
  shows "live db (SetNonce db a n s) = (live db s)(a \<mapsto> (target db s a)\<lparr>ov_Nonce := n\<rparr>)"
    "live db (SetBalance db a b s) = (live db s)(a \<mapsto> (target db s a)\<lparr>ov_Balance := b\<rparr>)"
    "live db (AddBalance db a b s) = (live db s)(a \<mapsto> (target db s a)\<lparr>ov_Balance := ov_Balance (target db s a) + b\<rparr>)"
    "live db (SubBalance db a b s) = (live db s)(a \<mapsto> (target db s a)\<lparr>ov_Balance := ov_Balance (target db s a) - b\<rparr>)"
    "live db (SetCode db a c s) = (live db s)(a \<mapsto> (target db s a)\<lparr>ov_CodeHash := Keccak256Hash db c, ov_Code := Some c\<rparr>)"
    "live db (SetState db a k v s) = (live db s)(a \<mapsto> (target db s a)\<lparr>ov_State := (ov_State (target db s a))(k := v)\<rparr>)"
proof -
  note m = mutate_view [OF assms]
  show "live db (SetNonce db a n s) = (live db s)(a \<mapsto> (target db s a)\<lparr>ov_Nonce := n\<rparr>)"
    unfolding SetNonce_def by (rule m) (simp add: at_def so_SetNonce_def)
  show "live db (SetBalance db a b s) = (live db s)(a \<mapsto> (target db s a)\<lparr>ov_Balance := b\<rparr>)"
    unfolding SetBalance_def by (rule m) (simp add: at_def so_SetBalance_def)
  show "live db (AddBalance db a b s) = (live db s)(a \<mapsto> (target db s a)\<lparr>ov_Balance := ov_Balance (target db s a) + b\<rparr>)"
    unfolding AddBalance_def
    by (rule m) (auto simp: at_def so_AddBalance_def so_SetBalance_def touch_fields ov_Balance_same)
  show "live db (SubBalance db a b s) = (live db s)(a \<mapsto> (target db s a)\<lparr>ov_Balance := ov_Balance (target db s a) - b\<rparr>)"
    unfolding SubBalance_def
    by (rule m) (auto simp: at_def so_SubBalance_def so_SetBalance_def ov_Balance_same)
  show "live db (SetCode db a c s) = (live db s)(a \<mapsto> (target db s a)\<lparr>ov_CodeHash := Keccak256Hash db c, ov_Code := Some c\<rparr>)"
    unfolding SetCode_def
  proof (rule m)
    fix obj t
    assume at: "at db t a obj"
    obtain obj' t' where c: "so_Code db obj t = (code_of db obj, obj', t')" "erred t t'"
      "cached db (backing t) (dflag t a) obj obj'" using so_Code_spec by blast
    have at': "at db t' a obj'" "same db t t'" using at_cached [OF at c(2,3)] by auto
    have e: "obj_view db (backing t) (dflag t a) obj' = obj_view db (backing t) (dflag t a) obj"
      using c(3) by (simp add: cached_def)
    have "dflag t' a = dflag t a" using c(2) by (auto simp: erred_def)
    then show "\<exists>obj' t'. so_SetCode db obj (Keccak256Hash db c) (Some c) t = (obj', t') \<and> so_address obj' = a \<and>
       \<not> so_deleted obj' \<and> v_obj (sview db t') = v_obj (sview db t) \<and> backing t' = backing t \<and> dflag t' a = dflag t a \<and>
       obj_view db (backing t) (dflag t a) obj' = (obj_view db (backing t) (dflag t a) obj)\<lparr>ov_CodeHash := Keccak256Hash db c, ov_Code := Some c\<rparr>"
      using at' c(1) e by (simp add: so_SetCode_def at_def same_def)
  qed
  show "live db (SetState db a k v s) = (live db s)(a \<mapsto> (target db s a)\<lparr>ov_State := (ov_State (target db s a))(k := v)\<rparr>)"
    unfolding SetState_def
  proof (rule m)
    fix obj t
    assume at: "at db t a obj"
    then have a0: "so_address obj = a" by (simp add: at_def)
    let ?p = "ov_State (obj_view db (backing t) (dflag t a) obj) k"
    obtain obj' t' where c: "so_GetState db obj k t = (?p, obj', t')" "erred t t'"
      "cached db (backing t) (dflag t a) obj obj'" using so_GetState_spec [of db obj k t] a0 by auto
    have at': "at db t' a obj'" "same db t t'" using at_cached [OF at c(2,3)] by auto
    have d: "dflag t' a = dflag t a" using c(2) by (auto simp: erred_def)
    have e: "obj_view db (backing t) (dflag t a) obj' = obj_view db (backing t) (dflag t a) obj"
      using c(3) by (simp add: cached_def)
    have idem: "ov\<lparr>ov_State := (ov_State ov)(k := ov_State ov k)\<rparr> = ov" for ov :: obj_view by simp
    show "\<exists>obj' t'. so_SetState db obj k v t = (obj', t') \<and> so_address obj' = a \<and>
       \<not> so_deleted obj' \<and> v_obj (sview db t') = v_obj (sview db t) \<and> backing t' = backing t \<and> dflag t' a = dflag t a \<and>
       obj_view db (backing t) (dflag t a) obj' =
         (obj_view db (backing t) (dflag t a) obj)\<lparr>ov_State := (ov_State (obj_view db (backing t) (dflag t a) obj))(k := v)\<rparr>"
    proof (cases "?p = v")
      case True
      then have "so_SetState db obj k v t = (obj', t')" using c(1) by (simp add: so_SetState_def)
      moreover have "obj_view db (backing t) (dflag t a) obj' =
         (obj_view db (backing t) (dflag t a) obj)\<lparr>ov_State := (ov_State (obj_view db (backing t) (dflag t a) obj))(k := v)\<rparr>"
        using c(3) idem True by (metis cached_def)
      ultimately show ?thesis using at' d by (auto simp: at_def same_def)
    next
      case False
      then show ?thesis using at' c(1) d e by (simp add: so_SetState_def at_def same_def)
    qed
  qed
qed

section \<open>Creating accounts\<close>

lemma live_CreateAccount:
  assumes "sdb_ok s"
  shows "live db (CreateAccount db a s) = (live db s)(a \<mapsto>
    (created_view db s a)\<lparr>ov_Balance := (case live db s a of None \<Rightarrow> 0 | Some ov \<Rightarrow> ov_Balance ov)\<rparr>)"
proof -
  let ?n = "newObject db a None"
  obtain prev t where t: "createObject db a s = (?n, prev, t)" "at db t a ?n" "advances db s t"
    "prev = (case obj_at db s a of None \<Rightarrow> None | Some p \<Rightarrow> if so_deleted p then None else Some p)"
    "v_obj (sview db t) = (v_obj (sview db s))(a \<mapsto> created_view db s a)"
    using createObject_view [OF assms] by blast
  have c: "obj_view db (backing t) (dflag t a) ?n = created_view db s a" using t(2,5) by (simp add: at_def)
  have n: "so_address ?n = a" "\<not> so_deleted ?n" "Balance (so_data ?n) = 0"
    by (simp_all add: newObject_def NewEmptyStateAccount_def)
  have z: "ov_Balance (created_view db s a) = 0" using c n(3) by (metis ov_obj_view(1))
  have nd: "\<not> ov_deleted (created_view db s a)" using c n(2) by (metis ov_deleted_obj_view)
  show ?thesis
  proof (cases prev)
    case None
    then have "live db s a = None"
      using t(4) by (auto simp: live_def v_obj_sview split: option.splits if_splits)
    moreover have "CreateAccount db a s = t" using t(1) None by (simp add: CreateAccount_def)
    ultimately show ?thesis
      using t(5) z nd by (auto simp: live_def fun_eq_iff ov_Balance_same)
  next
    case (Some p)
    then have p: "obj_at db s a = Some p" "\<not> so_deleted p" using t(4) by (auto split: option.splits if_splits)
    then have "live db s a = Some (obj_view db (backing s) (dflag s a) p)" by (simp add: live_def v_obj_sview)
    moreover have "CreateAccount db a s = setStateObject (so_setBalance (Balance (so_data p)) ?n) t"
      using t(1) Some by (simp add: CreateAccount_def)
    ultimately show ?thesis
      using t(5) c nd n by (auto simp: live_def fun_eq_iff v_obj_setStateObject)
  qed
qed

section \<open>core/evm.go: transfers\<close>

definition CanTransfer :: "database \<Rightarrow> address \<Rightarrow> u256 \<Rightarrow> StateDB \<Rightarrow> bool \<times> StateDB" where
  "CanTransfer db a amount s = (case GetBalance db a s of (b, s) \<Rightarrow> (\<not> b < amount, s))"

definition Transfer :: "database \<Rightarrow> address \<Rightarrow> address \<Rightarrow> u256 \<Rightarrow> StateDB \<Rightarrow> StateDB" where
  "Transfer db sender recipient amount s = AddBalance db recipient amount (SubBalance db sender amount s)"

text \<open>The balance a query reports.\<close>

definition bal :: "database \<Rightarrow> StateDB \<Rightarrow> address \<Rightarrow> u256" where
  "bal db s a = fst (GetBalance db a s)"

lemma bal_live: "sdb_ok s \<Longrightarrow> bal db s a = (case live db s a of None \<Rightarrow> 0 | Some ov \<Rightarrow> ov_Balance ov)"
  by (simp add: bal_def query_values)

lemma created_view_fields [simp]:
  "ov_Balance (created_view db s a) = 0" "ov_Nonce (created_view db s a) = 0"
  "ov_CodeHash (created_view db s a) = EmptyCodeHash db" "ov_Code (created_view db s a) = None"
  by (simp_all add: created_view_def newObject_def NewEmptyStateAccount_def code_of_def)

lemma target_Balance: "sdb_ok s \<Longrightarrow> ov_Balance (target db s a) = bal db s a"
  by (simp add: target_def bal_live split: option.split)

lemma bal_AddBalance: "sdb_ok s \<Longrightarrow> bal db (AddBalance db a n s) b = (if b = a then bal db s a + n else bal db s b)"
  using advances_ok [OF balance_ops_advance(1), of s db a n]
  by (simp add: bal_live [of "AddBalance db a n s"] live_set target_Balance) (simp add: bal_live)

lemma bal_SubBalance: "sdb_ok s \<Longrightarrow> bal db (SubBalance db a n s) b = (if b = a then bal db s a - n else bal db s b)"
  using advances_ok [OF balance_ops_advance(2), of s db a n]
  by (simp add: bal_live [of "SubBalance db a n s"] live_set target_Balance) (simp add: bal_live)

lemma bal_Transfer:
  assumes "sdb_ok s"
  shows "bal db (Transfer db x y n s) =
    (let f = (bal db s)(x := bal db s x - n) in f(y := f y + n))"
  using assms advances_ok [OF balance_ops_advance(2) [OF assms], of db x n]
  by (auto simp: Transfer_def bal_AddBalance bal_SubBalance Let_def fun_eq_iff)

text \<open>What a transfer leaves alone.\<close>

lemma transfer_rest:
  assumes "sdb_ok s"
  shows "fst (GetNonce db a (Transfer db x y n s)) = fst (GetNonce db a s)"
    "fst (GetCode db a (Transfer db x y n s)) = fst (GetCode db a s)"
    "fst (Exist db a s) \<Longrightarrow> fst (GetState db a k (Transfer db x y n s)) = fst (GetState db a k s)"
proof -
  define u where "u = SubBalance db x n s"
  have u: "live db u = (live db s)(x \<mapsto> (target db s x)\<lparr>ov_Balance := ov_Balance (target db s x) - n\<rparr>)" and ok: "sdb_ok u"
    using live_set(4) [OF assms] advances_ok [OF balance_ops_advance(2) [OF assms]] by (simp_all add: u_def)
  have t: "live db (Transfer db x y n s) = (live db u)(y \<mapsto> (target db u y)\<lparr>ov_Balance := ov_Balance (target db u y) + n\<rparr>)"
    and ok': "sdb_ok (Transfer db x y n s)"
    using live_set(3) [OF ok] advances_ok [OF balance_ops_advance(1) [OF ok]] by (simp_all add: Transfer_def u_def)
  note q = query_values [OF ok'] query_values [OF assms] t u target_def
  show "fst (GetNonce db a (Transfer db x y n s)) = fst (GetNonce db a s)" by (simp add: q split: option.split)
  show "fst (GetCode db a (Transfer db x y n s)) = fst (GetCode db a s)" by (simp add: q split: option.split)
  show "fst (Exist db a s) \<Longrightarrow> fst (GetState db a k (Transfer db x y n s)) = fst (GetState db a k s)"
    by (auto simp add: q split: option.split)
qed

text \<open>
  C5. A transfer moves exactly its amount. When the sender can pay and the balances of a finite set of
  accounts with both parties in it fit 256 bits together, then in the integers the amount leaves the
  balance of the sender and enters that of the recipient, every other balance stays, no nonce and no code
  changes nor any slot of an account that existed, and so the sum of the balances is kept.
\<close>

theorem transfer_conserves_ether:
  assumes "sdb_ok s" "fst (CanTransfer db x amount s)" "finite A" "x \<in> A" "y \<in> A"
    "(\<Sum>a\<in>A. unat (bal db s a)) < 2 ^ 256"
  shows "let t = Transfer db x y amount s in
    (\<forall>a. uint (bal db t a) =
       uint (bal db s a) - (if a = x then uint amount else 0) + (if a = y then uint amount else 0)) \<and>
    (\<forall>a. fst (GetNonce db a t) = fst (GetNonce db a s) \<and> fst (GetCode db a t) = fst (GetCode db a s)) \<and>
    (\<forall>a k. fst (Exist db a s) \<longrightarrow> fst (GetState db a k t) = fst (GetState db a k s)) \<and>
    (\<Sum>a\<in>A. unat (bal db t a)) = (\<Sum>a\<in>A. unat (bal db s a))"
proof -
  define t where "t = Transfer db x y amount s"
  have pay: "amount \<le> bal db s x" using assms(2) by (simp add: CanTransfer_def bal_def case_prod_beta not_less)
  have others: "fst (GetNonce db a t) = fst (GetNonce db a s)" "fst (GetCode db a t) = fst (GetCode db a s)"
    "fst (Exist db a s) \<Longrightarrow> fst (GetState db a k t) = fst (GetState db a k s)" for a k
    unfolding t_def by (rule transfer_rest [OF assms(1)])+ assumption
  have sum2: "unat (bal db s x) + unat (bal db s y) < 2 ^ 256" if "x \<noteq> y"
  proof -
    have "(\<Sum>a\<in>{x, y}. unat (bal db s a)) \<le> (\<Sum>a\<in>A. unat (bal db s a))" using assms(3-5) by (intro sum_mono2) auto
    then show ?thesis using assms(6) that by simp
  qed
  have each: "uint (bal db t a) =
       uint (bal db s a) - (if a = x then uint amount else 0) + (if a = y then uint amount else 0)" for a
  proof -
    have le: "unat amount \<le> unat (bal db s x)" using pay by (simp add: word_le_nat_alt)
    have out: "uint (bal db s x - amount) = uint (bal db s x) - uint amount"
      using pay by (simp add: uint_sub_if_size word_le_def)
    have inc: "uint (bal db s y + amount) = uint (bal db s y) + uint amount" if "x \<noteq> y"
    proof -
      have "unat (bal db s y + amount) = unat (bal db s y) + unat amount"
        by (rule unat_add_no_overflow) (use sum2 [OF that] le in simp)
      then show ?thesis by (metis of_nat_add uint_nat)
    qed
    show ?thesis
    proof (cases "x = y")
      case True
      then show ?thesis by (simp add: t_def bal_Transfer [OF assms(1)] Let_def)
    next
      case False
      then show ?thesis using le out inc by (simp add: t_def bal_Transfer [OF assms(1)] Let_def)
    qed
  qed
  have "(\<Sum>a\<in>A. uint (bal db t a)) = (\<Sum>a\<in>A. uint (bal db s a))"
    using assms(3-5) by (simp add: each sum.distrib sum_subtractf sum.delta)
  then have "int (\<Sum>a\<in>A. unat (bal db t a)) = int (\<Sum>a\<in>A. unat (bal db s a))" by simp
  then have "(\<Sum>a\<in>A. unat (bal db t a)) = (\<Sum>a\<in>A. unat (bal db s a))" by (simp only: of_nat_eq_iff)
  then show ?thesis using each others by (simp add: Let_def t_def [symmetric])
qed

text \<open>
  Storage is read back as written. After \<open>SetState\<close> the written slot of the account reads as
  the value; every other slot of an existing account, and the whole storage of every other account,
  reads as before; and no committed value changes.
\<close>

theorem set_state_get_state:
  assumes "sdb_ok s" "fst (Exist db a s)"
  shows "fst (GetState db b j (SetState db a k v s)) = (if b = a \<and> j = k then v else fst (GetState db b j s)) \<and>
    fst (GetCommittedState db b j (SetState db a k v s)) = fst (GetCommittedState db b j s)"
proof -
  have ok: "sdb_ok (SetState db a k v s)" using advances_ok [OF SetState_advances [OF assms(1)]] by blast
  obtain ov where "live db s a = Some ov" using assms by (auto simp: query_values)
  then show ?thesis
    by (simp add: query_values [OF ok] query_values [OF assms(1)] live_set [OF assms(1)] target_def)
qed

text \<open>
  \<open>CreateAccount\<close> over an existing account carries the balance over and nothing else: the nonce
  is 0, the code is empty and every storage slot, committed or not, reads as zero. Other accounts
  are untouched.
\<close>

theorem create_account_resets:
  assumes "sdb_ok s" "fst (Exist db a s)"
  shows "let t = CreateAccount db a s in
    fst (GetBalance db a t) = fst (GetBalance db a s) \<and> fst (GetNonce db a t) = 0 \<and>
    fst (GetCode db a t) = None \<and> fst (GetCodeHash db a t) = EmptyCodeHash db \<and>
    fst (GetState db a k t) = 0 \<and> fst (GetCommittedState db a k t) = 0 \<and>
    (b \<noteq> a \<longrightarrow> live db t b = live db s b)"
proof -
  have ok: "sdb_ok (CreateAccount db a s)" using advances_ok [OF CreateAccount_advances [OF assms(1)]] by blast
  obtain ov where ov: "live db s a = Some ov" using assms by (auto simp: query_values)
  then have "obj_at db s a \<noteq> None" by (auto simp: live_def v_obj_sview split: option.splits)
  then have "ov_State (created_view db s a) k = 0" "ov_Committed (created_view db s a) k = 0"
    by (auto simp: created_view_def obj_view_def committed_of_def newObject_def)
  then show ?thesis
    using ov by (simp add: Let_def query_values [OF ok] query_values [OF assms(1)] live_CreateAccount [OF assms(1)])
qed

lemma sample_values:
  "fst (GetBalance sample_db 5 sample_state) = 100" "fst (GetBalance sample_db 6 sample_state) = 0"
  "fst (Exist sample_db 5 sample_state)"
  by (simp_all add: GetBalance_def Exist_def query_def getStateObject_def getDeletedStateObject_def sample_state_def
      StateDB_New_def lookup_account_def newObject_def Let_def)

theorem transfer_conserves_ether_witness:
  "uint (bal sample_db (Transfer sample_db 5 6 30 sample_state) 5) = 70 \<and>
   uint (bal sample_db (Transfer sample_db 5 6 30 sample_state) 6) = 30"
proof -
  have "let t = Transfer sample_db 5 6 30 sample_state in
      \<forall>a. uint (bal sample_db t a) = uint (bal sample_db sample_state a) - (if a = 5 then uint (30 :: u256) else 0) +
        (if a = 6 then uint (30 :: u256) else 0)"
    using transfer_conserves_ether [of sample_state sample_db 5 30 "{5, 6}" 6]
    by (simp add: CanTransfer_def bal_def sample_values case_prod_beta Let_def)
  then show ?thesis by (simp add: Let_def bal_def sample_values)
qed

theorem set_state_get_state_witness:
  "fst (GetState sample_db 5 1 (SetState sample_db 5 1 9 sample_state)) = 9"
  using set_state_get_state [of sample_state sample_db 5 5 1 1 9] by (simp add: sample_values)

theorem create_account_resets_witness:
  "fst (GetBalance sample_db 5 (CreateAccount sample_db 5 sample_state)) = 100"
  using create_account_resets [of sample_state sample_db 5 1 6] by (simp add: sample_values Let_def)

section \<open>Finalise\<close>

definition dies :: "database \<Rightarrow> bool \<Rightarrow> stateObject \<Rightarrow> bool" where
  "dies db del obj \<longleftrightarrow> selfDestructed obj \<or> del \<and> so_empty db obj"

definition finalised :: "database \<Rightarrow> bool \<Rightarrow> stateObject \<Rightarrow> stateObject" where
  "finalised db del obj = (if dies db del obj then obj\<lparr>so_deleted := True\<rparr> else so_finalise obj)\<lparr>so_created := False\<rparr>"

text \<open>The effect of finalising a set of addresses, at once.\<close>

definition finalise_all :: "database \<Rightarrow> bool \<Rightarrow> address set \<Rightarrow> StateDB \<Rightarrow> StateDB" where
  "finalise_all db del A s =
     (let dead = {obj. \<exists>a\<in>A. stateObjects s a = Some obj \<and> dies db del obj}
      in s\<lparr>stateObjects := (\<lambda>a. if a \<in> A then map_option (finalised db del) (stateObjects s a) else stateObjects s a),
        stateObjectsPending := stateObjectsPending s \<union> (A \<inter> dom (stateObjects s)),
        stateObjectsDirty := stateObjectsDirty s \<union> (A \<inter> dom (stateObjects s)),
        stateObjectsDestruct := (\<lambda>a. case stateObjectsDestruct s a of Some x \<Rightarrow> Some x
          | None \<Rightarrow> (case stateObjects s a of
              Some obj \<Rightarrow> if a \<in> A \<and> dies db del obj then Some (so_origin obj) else None | None \<Rightarrow> None)),
        accounts := accounts s |` (- so_addrHash ` dead), storages := storages s |` (- so_addrHash ` dead),
        accountsOrigin := accountsOrigin s |` (- so_address ` dead),
        storagesOrigin := storagesOrigin s |` (- so_address ` dead)\<rparr>)"

lemma restrict_map_insert: "m |` (- insert x A) = (m |` (- A))(x := None)"
  by (auto simp: restrict_map_def fun_eq_iff)

lemma finalise_all_step:
  assumes ok: "\<forall>a obj. stateObjects s a = Some obj \<longrightarrow> so_address obj = a" and "a \<notin> A"
  shows "finalise_one db del a (finalise_all db del A s) = finalise_all db del (insert a A) s"
proof (cases "stateObjects s a")
  case None
  have "{obj. \<exists>b\<in>insert a A. stateObjects s b = Some obj \<and> dies db del obj} =
      {obj. \<exists>b\<in>A. stateObjects s b = Some obj \<and> dies db del obj}" using None by auto
  moreover have "(\<lambda>b. if b \<in> insert a A then map_option (finalised db del) (stateObjects s b) else stateObjects s b) =
      (\<lambda>b. if b \<in> A then map_option (finalised db del) (stateObjects s b) else stateObjects s b)"
    using None by (auto simp: fun_eq_iff)
  moreover have "insert a A \<inter> dom (stateObjects s) = A \<inter> dom (stateObjects s)" using None by auto
  moreover have "(\<lambda>b. case stateObjectsDestruct s b of Some x \<Rightarrow> Some x
          | None \<Rightarrow> (case stateObjects s b of
              Some obj \<Rightarrow> if b \<in> insert a A \<and> dies db del obj then Some (so_origin obj) else None | None \<Rightarrow> None)) =
      (\<lambda>b. case stateObjectsDestruct s b of Some x \<Rightarrow> Some x
          | None \<Rightarrow> (case stateObjects s b of
              Some obj \<Rightarrow> if b \<in> A \<and> dies db del obj then Some (so_origin obj) else None | None \<Rightarrow> None))"
    using None by (auto simp: fun_eq_iff split: option.splits)
  ultimately show ?thesis using assms(2) None
    by (simp add: finalise_one_def finalise_all_def Let_def)
next
  case (Some obj)
  have ad: "so_address obj = a" using ok Some by blast
  define dead where "dead = {obj. \<exists>b\<in>A. stateObjects s b = Some obj \<and> dies db del obj}"
  have dead': "{obj. \<exists>b\<in>insert a A. stateObjects s b = Some obj \<and> dies db del obj} =
      (if dies db del obj then insert obj dead else dead)"
    using Some by (auto simp: dead_def)
  have so: "(\<lambda>b. if b \<in> insert a A then map_option (finalised db del) (stateObjects s b) else stateObjects s b) =
      (\<lambda>b. if b \<in> A then map_option (finalised db del) (stateObjects s b) else stateObjects s b)(a \<mapsto> finalised db del obj)"
    using Some by (auto simp: fun_eq_iff)
  have dm: "insert a A \<inter> dom (stateObjects s) = insert a (A \<inter> dom (stateObjects s))" using Some by auto
  have de: "(\<lambda>b. case stateObjectsDestruct s b of Some x \<Rightarrow> Some x
          | None \<Rightarrow> (case stateObjects s b of
              Some obj \<Rightarrow> if b \<in> insert a A \<and> dies db del obj then Some (so_origin obj) else None | None \<Rightarrow> None)) =
      (let f = (\<lambda>b. case stateObjectsDestruct s b of Some x \<Rightarrow> Some x
          | None \<Rightarrow> (case stateObjects s b of
              Some obj \<Rightarrow> if b \<in> A \<and> dies db del obj then Some (so_origin obj) else None | None \<Rightarrow> None))
       in if dies db del obj \<and> f a = None then f(a \<mapsto> so_origin obj) else f)"
    using Some assms(2) by (auto simp: fun_eq_iff Let_def split: option.splits)
  show ?thesis
    using assms(2) Some ad
    unfolding finalise_one_def finalise_all_def Let_def dead_def [symmetric] dead' so dm de
    by (auto simp: finalised_def dies_def restrict_map_insert fun_eq_iff)
qed

lemma Finalise_unfold:
  assumes "sdb_ok s" "distinct order"
  shows "Finalise db order del s = clearJournalAndRefund (finalise_all db del (set order) s)"
proof -
  have "fold (finalise_one db del) xs (finalise_all db del A s) = finalise_all db del (A \<union> set xs) s"
    if "distinct xs" "A \<inter> set xs = {}" for xs A
    using that
  proof (induction xs arbitrary: A)
    case (Cons x xs)
    then show ?case using finalise_all_step [of s x A db del] assms(1) Cons.IH [of "insert x A"]
      by (auto simp: sdb_ok_def)
  qed simp
  note fold = this [of order "{}"]
  have "(\<lambda>a. case stateObjectsDestruct s a of Some x \<Rightarrow> Some x
          | None \<Rightarrow> (case stateObjects s a of
              Some obj \<Rightarrow> if a \<in> {} \<and> dies db del obj then Some (so_origin obj) else None | None \<Rightarrow> None)) =
      stateObjectsDestruct s"
    by (auto simp: fun_eq_iff split: option.splits)
  then have "finalise_all db del {} s = s"
    by (simp add: finalise_all_def Let_def restrict_map_def)
  with fold assms(2) show ?thesis by (simp add: Finalise_def)
qed

text \<open>
  C7. The order in which \<open>Finalise\<close> visits the dirty addresses does not matter: Go ranges over a map
  in an unspecified order, and every enumeration of the map gives the same state.
\<close>

theorem finalise_order_independent:
  assumes "sdb_ok s" "distinct xs" "distinct ys" "set xs = dom (dirties (sdb_journal s))"
    "set ys = dom (dirties (sdb_journal s))"
  shows "Finalise db xs del s = Finalise db ys del s"
  using Finalise_unfold [OF assms(1,2)] Finalise_unfold [OF assms(1,3)] assms(4,5) by simp

lemma clear_fields [simp]:
  "stateObjects (clearJournalAndRefund s) = stateObjects s" "backing (clearJournalAndRefund s) = backing s"
  "stateObjectsDestruct (clearJournalAndRefund s) = stateObjectsDestruct s"
  "stateObjectsDirty (clearJournalAndRefund s) = stateObjectsDirty s"
  "sdb_accessList (clearJournalAndRefund s) = sdb_accessList s"
  by (simp_all add: clearJournalAndRefund_def Let_def backing_def)

lemma Finalise_ok:
  assumes "sdb_ok s" "distinct order"
  shows "sdb_ok (Finalise db order del s)"
proof -
  have "\<forall>a n. a \<noteq> ripemd \<and> dirties (sdb_journal (clearJournalAndRefund (finalise_all db del (set order) s))) a = Some n \<longrightarrow> 0 < n"
    using assms(1) by (auto simp: clearJournalAndRefund_def Let_def newJournal_def finalise_all_def sdb_ok_def)
  moreover have "so_address (finalised db del obj) = so_address obj" for obj
    by (simp add: finalised_def so_finalise_def)
  ultimately show ?thesis
    using assms(1) unfolding Finalise_unfold [OF assms] sdb_ok_def
    by (auto simp: finalise_all_def Let_def dom_def split: if_splits)
qed

text \<open>What the account queries answer, except for the committed storage.\<close>

definition answers :: "database \<Rightarrow> StateDB \<Rightarrow> address \<Rightarrow> hash \<Rightarrow> bool \<times> u256 \<times> u64 \<times> hash \<times> bytes option \<times> bool \<times> hash" where
  "answers db s a k =
     (fst (Exist db a s), fst (GetBalance db a s), fst (GetNonce db a s), fst (GetCodeHash db a s), fst (GetCode db a s),
      fst (HasSelfDestructed db a s), fst (GetState db a k s))"

lemma answers_live: "sdb_ok s \<Longrightarrow> answers db s a k =
    (case live db s a of None \<Rightarrow> (False, 0, 0, 0, None, False, 0)
     | Some ov \<Rightarrow> (True, ov_Balance ov, ov_Nonce ov, ov_CodeHash ov, ov_Code ov, ov_selfDestructed ov, ov_State ov k))"
  by (simp add: answers_def query_values split: option.split)

text \<open>How finalising changes what is stored of an account.\<close>

lemma Finalise_fields:
  assumes "sdb_ok s" "distinct order"
  shows "stateObjects (Finalise db order del s) =
      (\<lambda>a. if a \<in> set order then map_option (finalised db del) (stateObjects s a) else stateObjects s a)"
    "backing (Finalise db order del s) = backing s"
    "stateObjects s a = None \<or> a \<notin> set order \<or> \<not> dies db del (the (stateObjects s a)) \<Longrightarrow>
       dflag (Finalise db order del s) a = dflag s a"
  by (auto simp: Finalise_unfold [OF assms] finalise_all_def Let_def backing_def clearJournalAndRefund_def split: option.splits)

lemma live_dead:
  assumes "sdb_ok s" "distinct order" "a \<in> set order" "stateObjects s a = Some obj" "dies db del obj"
  shows "live db (Finalise db order del s) a = None"
  using assms(3-5) by (simp add: live_def v_obj_sview obj_at_def Finalise_fields(1) [OF assms(1,2)] finalised_def)

lemma live_finalised:
  assumes "sdb_ok s" "distinct order" "a \<in> set order" "stateObjects s a = Some obj" "\<not> dies db del obj"
  shows "live db (Finalise db order del s) a =
    map_option (\<lambda>ov. ov\<lparr>ov_Committed := ov_State ov, ov_created := False\<rparr>) (live db s a)"
proof -
  let ?t = "Finalise db order del s"
  have f: "finalised db del obj = (so_finalise obj)\<lparr>so_created := False\<rparr>" using assms(5) by (simp add: finalised_def)
  have c: "committed_of db bk d ((so_finalise obj)\<lparr>so_created := False\<rparr>) =
      (\<lambda>k. case dirtyStorage obj k of Some v \<Rightarrow> v | None \<Rightarrow> committed_of db bk d obj k)" for bk d
  proof (rule ext)
    fix k
    have "slot_val db bk ((so_finalise obj)\<lparr>so_created := False\<rparr>) k = slot_val db bk obj k"
      by (rule slot_val_cong [OF opened_refl]) (simp_all add: so_finalise_def)
    then show "committed_of db bk d ((so_finalise obj)\<lparr>so_created := False\<rparr>) k =
        (case dirtyStorage obj k of Some v \<Rightarrow> v | None \<Rightarrow> committed_of db bk d obj k)"
      by (auto simp: committed_of_def so_finalise_def map_add_def split: option.splits)
  qed
  have code: "code_of db ((so_finalise obj)\<lparr>so_created := False\<rparr>) = code_of db obj"
    by (cases "so_code obj") (simp_all add: code_of_def so_finalise_def)
  have v: "obj_view db bk d (finalised db del obj) =
      (obj_view db bk d obj)\<lparr>ov_Committed := ov_State (obj_view db bk d obj), ov_created := False\<rparr>" for bk d
    by (simp add: f obj_view_def c code cong: option.case_cong) (simp add: so_finalise_def)
  have d: "dflag ?t a = dflag s a" by (rule Finalise_fields(3) [OF assms(1,2)]) (simp add: assms(4,5))
  show ?thesis using assms(3,4) d
    by (simp add: live_def v_obj_sview obj_at_def Finalise_fields(1,2) [OF assms(1,2)] v)
qed

lemma live_clean:
  assumes "sdb_ok s" "distinct order" "a \<notin> set order \<or> stateObjects s a = None"
  shows "live db (Finalise db order del s) a = live db s a"
proof -
  have "dflag (Finalise db order del s) a = dflag s a" by (rule Finalise_fields(3) [OF assms(1,2)]) (use assms(3) in auto)
  moreover have "stateObjects (Finalise db order del s) a = stateObjects s a"
    using assms(3) by (auto simp: Finalise_fields(1) [OF assms(1,2)])
  ultimately show ?thesis by (simp add: live_def v_obj_sview obj_at_def Finalise_fields(2) [OF assms(1,2)] cong: option.case_cong)
qed

text \<open>The accounts that \<open>Finalise\<close> visits, and those among them that it is to delete.\<close>

definition visited :: "StateDB \<Rightarrow> address \<Rightarrow> bool" where
  "visited s a \<longleftrightarrow> a \<in> dom (dirties (sdb_journal s)) \<and> stateObjects s a \<noteq> None"

definition doomed :: "database \<Rightarrow> bool \<Rightarrow> StateDB \<Rightarrow> address \<Rightarrow> bool" where
  "doomed db del s a \<longleftrightarrow> visited s a \<and>
     (selfDestructed (the (stateObjects s a)) \<or> del \<and> so_empty db (the (stateObjects s a)))"

text \<open>
  C8. \<open>Finalise\<close> ends the transaction. Of the visited s accounts it deletes exactly those marked as
  self-destructed and, when asked, the empty ones. Every other account answers every query as before;
  those that are dirty have their written values as committed ones and no dirty slot left, and the committed
  values of the rest stay. No revision can be reverted to any more, and when the journal had an entry,
  it is empty and the refund counter zero.
\<close>

theorem finalise_commits:
  assumes "sdb_ok s" "distinct order" "set order = dom (dirties (sdb_journal s))"
  shows "let t = Finalise db order del s in
    (\<forall>a k. if doomed db del s a then \<not> fst (Exist db a t)
           else answers db t a k = answers db s a k \<and>
                fst (GetCommittedState db a k t) = (if visited s a then fst (GetState db a k s) else fst (GetCommittedState db a k s))) \<and>
    (\<forall>a. visited s a \<and> \<not> doomed db del s a \<longrightarrow> (\<exists>obj. stateObjects t a = Some obj \<and> dirtyStorage obj = Map.empty)) \<and>
    validRevisions t = [] \<and> entries (sdb_journal t) = [] \<and>
    (if entries (sdb_journal s) = [] then sdb_refund t = sdb_refund s else dirties (sdb_journal t) = Map.empty \<and> sdb_refund t = 0)"
proof -
  define t where "t = Finalise db order del s"
  have ok: "sdb_ok t" unfolding t_def by (rule Finalise_ok [OF assms(1,2)])
  note q = query_values [OF ok] query_values [OF assms(1)] answers_live [OF ok] answers_live [OF assms(1)]
  have "if doomed db del s a then \<not> fst (Exist db a t)
        else answers db t a k = answers db s a k \<and>
             fst (GetCommittedState db a k t) = (if visited s a then fst (GetState db a k s) else fst (GetCommittedState db a k s))" for a k
  proof -
    consider (dead) obj where "doomed db del s a" "a \<in> set order" "stateObjects s a = Some obj" "dies db del obj"
      | (kept) obj where "visited s a" "\<not> doomed db del s a" "a \<in> set order" "stateObjects s a = Some obj" "\<not> dies db del obj"
      | (clean) "\<not> visited s a" "\<not> doomed db del s a" "a \<notin> set order \<or> stateObjects s a = None"
      using assms(3) by (cases "stateObjects s a") (auto simp: doomed_def visited_def dies_def)
    then show ?thesis
    proof cases
      case dead
      then show ?thesis using live_dead [OF assms(1,2) dead(2-4)] by (simp add: q t_def [symmetric])
    next
      case kept
      then show ?thesis using live_finalised [OF assms(1,2) kept(3-5)]
        by (simp add: q t_def [symmetric] split: option.split)
    next
      case clean
      then show ?thesis using live_clean [OF assms(1,2) clean(3), of db del] by (simp add: q t_def [symmetric])
    qed
  qed
  moreover have "\<exists>obj. stateObjects t a = Some obj \<and> dirtyStorage obj = Map.empty" if k: "visited s a \<and> \<not> doomed db del s a" for a
  proof -
    obtain obj where o: "stateObjects s a = Some obj" "a \<in> set order" "\<not> dies db del obj"
      using k assms(3) by (auto simp: doomed_def visited_def dies_def)
    then have "stateObjects t a = Some (finalised db del obj)" by (simp add: t_def Finalise_fields(1) [OF assms(1,2)])
    then show ?thesis using o(3) by (simp add: finalised_def so_finalise_def)
  qed
  moreover have "validRevisions t = []" "entries (sdb_journal t) = []"
    "if entries (sdb_journal s) = [] then sdb_refund t = sdb_refund s else dirties (sdb_journal t) = Map.empty \<and> sdb_refund t = 0"
    unfolding t_def Finalise_unfold [OF assms(1,2)]
    by (simp_all add: clearJournalAndRefund_def finalise_all_def newJournal_def Let_def)
  ultimately show ?thesis unfolding Let_def t_def [symmetric] by blast
qed

section \<open>Copy\<close>

text \<open>
  \<open>Copy\<close> does not copy everything it says. The copy has the same accounts and storage as
  the original (for the objects it keeps), but the original values of the mutated accounts and
  slots, \<open>accountsOrigin\<close> and \<open>storagesOrigin\<close>, are empty in the copy whatever they were: the source
  reads these two maps from the new state instead of the old one.
\<close>

theorem copy_drops_origins:
  assumes "StateDB_Copy s = Ret t"
  shows "accountsOrigin t = Map.empty \<and> storagesOrigin t = Map.empty \<and>
    accounts t = accounts s \<and> storages t = storages s"
  using assms by (auto simp: StateDB_Copy_def Let_def split: if_splits)

theorem copy_drops_origins_witness:
  "\<exists>t. StateDB_Copy (sample_state\<lparr>accountsOrigin := [5 \<mapsto> Some [1]]\<rparr>) = Ret t \<and> accountsOrigin t 5 = None"
proof -
  obtain t where "StateDB_Copy (sample_state\<lparr>accountsOrigin := [5 \<mapsto> Some [1]]\<rparr>) = Ret t"
    by (simp add: StateDB_Copy_def sample_state_def StateDB_New_def Let_def)
  with copy_drops_origins [OF this] show ?thesis by simp
qed

definition sample_dirty :: StateDB where
  "sample_dirty = SetState sample_db 5 1 9 sample_state"

lemma sample_dirty_facts:
  "sdb_ok sample_dirty" "stateObjects sample_dirty 5 \<noteq> None" "\<not> so_deleted (the (stateObjects sample_dirty 5))"
  "dom (dirties (sdb_journal sample_dirty)) = {5}" "\<not> selfDestructed (the (stateObjects sample_dirty 5))"
proof -
  show "sdb_ok sample_dirty" unfolding sample_dirty_def
    using advances_ok [OF SetState_advances [of sample_state sample_db 5 1 9]] by simp
  note defs = sample_dirty_def SetState_def mutate_def getOrNewStateObject_def getStateObject_def
    getDeletedStateObject_def sample_state_def StateDB_New_def lookup_account_def newObject_def so_SetState_def
    so_GetState_def so_GetCommittedState_def load_slot_def snap_slot_def getTrie_def hash_SetBytes_def
    sample_db_def SetBytes_def so_setState_def setStateObject_def log_change_def journal_append_def newJournal_def
  show "stateObjects sample_dirty 5 \<noteq> None" by (simp add: defs Let_def)
  show "\<not> so_deleted (the (stateObjects sample_dirty 5))" by (simp add: defs Let_def)
  show "dom (dirties (sdb_journal sample_dirty)) = {5}" by (simp add: defs Let_def)
  show "\<not> selfDestructed (the (stateObjects sample_dirty 5))" by (simp add: defs Let_def)
qed

definition sample_dirty2 :: StateDB where
  "sample_dirty2 = AddBalance sample_db 6 10 sample_dirty"

lemma sample_dirty2_facts: "sdb_ok sample_dirty2" "dom (dirties (sdb_journal sample_dirty2)) = {5, 6}"
proof -
  show "sdb_ok sample_dirty2" unfolding sample_dirty2_def
    using advances_ok [OF balance_ops_advance(1) [OF sample_dirty_facts(1)]] by blast
  note defs = sample_dirty_def SetState_def mutate_def getOrNewStateObject_def getStateObject_def
    getDeletedStateObject_def sample_state_def StateDB_New_def lookup_account_def newObject_def so_SetState_def
    so_GetState_def so_GetCommittedState_def load_slot_def snap_slot_def getTrie_def hash_SetBytes_def
    sample_db_def SetBytes_def so_setState_def setStateObject_def log_change_def journal_append_def newJournal_def
    sample_dirty2_def AddBalance_def so_AddBalance_def so_SetBalance_def so_setBalance_def createObject_def
    NewEmptyStateAccount_def
  show "dom (dirties (sdb_journal sample_dirty2)) = {5, 6}" by (auto simp add: defs Let_def)
qed

theorem finalise_order_independent_witness:
  "Finalise sample_db [5, 6] True sample_dirty2 = Finalise sample_db [6, 5] True sample_dirty2"
  by (rule finalise_order_independent) (auto simp: sample_dirty2_facts)

theorem finalise_commits_witness:
  "let t = Finalise sample_db [5] False sample_dirty in
     fst (GetCommittedState sample_db 5 1 t) = 9 \<and> validRevisions t = [] \<and> entries (sdb_journal t) = []"
proof -
  have w: "visited sample_dirty 5" "\<not> doomed sample_db False sample_dirty 5"
    using sample_dirty_facts(2,4,5) by (auto simp: visited_def doomed_def)
  have "fst (GetState sample_db 5 1 sample_dirty) = 9"
    using query_values(8) [OF sample_dirty_facts(1), of sample_db 5 1] live_set(6) [of sample_state sample_db 5 1 9]
    by (simp add: sample_dirty_def)
  then show ?thesis
    using finalise_commits [OF sample_dirty_facts(1), of "[5]" sample_db False] w sample_dirty_facts(4)
    unfolding Let_def by (metis distinct_singleton empty_set list.simps(15))
qed

end
