(* ===== verification/Contract.thy ===== *)
theory Contract imports Code_Analysis StateDB_Values begin

text \<open>
  A call frame's contract (\<open>core/vm/contract.go\<close>) and the errors of \<open>core/vm/errors.go\<close>. The map
  of jump-destination analyses that Go shares by reference between a contract and the contracts it
  calls is a value here, threaded through (\<open>jumpdests\<close>). The theory proves that the two caches
  (the shared map and the local analysis) do not change which jump destinations are valid.
\<close>

section \<open>core/vm/errors.go\<close>

datatype vm_error =
    ErrOutOfGas
  | ErrCodeStoreOutOfGas
  | ErrDepth
  | ErrInsufficientBalance
  | ErrContractAddressCollision
  | ErrExecutionReverted
  | ErrMaxInitCodeSizeExceeded
  | ErrMaxCodeSizeExceeded
  | ErrInvalidJump
  | ErrWriteProtection
  | ErrReturnDataOutOfBounds
  | ErrGasUintOverflow
  | ErrInvalidCode
  | ErrNonceUintOverflow
  | errStopToken
  | ErrStackUnderflow int int
  | ErrStackOverflow int int
  | ErrInvalidOpCode u8
  | ErrReentrancySentry
  | ErrPrecompile string

section \<open>core/vm/contract.go\<close>

type_synonym jumpdest_map = "hash \<rightharpoonup> bitvec"

record contract =
  c_CallerAddress :: address
  c_self :: address
  c_analysis :: "bitvec option"
  c_Code :: bytes
  c_CodeHash :: hash
  c_CodeAddr :: "address option"
  c_Input :: bytes
  c_Gas :: u64
  c_value :: u256

text \<open>
  A \<open>ContractRef\<close> is either a plain address or the calling contract. What a new contract takes
  from a calling contract besides its address are the caller address and the value of the caller
  (for a delegate call).
\<close>

datatype contract_ref = AccountRef address | ContractRef contract

primrec ref_Address :: "contract_ref \<Rightarrow> address" where
  "ref_Address (AccountRef a) = a"
| "ref_Address (ContractRef c) = c_self c"

definition NewContract :: "contract_ref \<Rightarrow> address \<Rightarrow> u256 \<Rightarrow> u64 \<Rightarrow> contract" where
  "NewContract caller object val gas =
     \<lparr>c_CallerAddress = ref_Address caller, c_self = object, c_analysis = None, c_Code = [], c_CodeHash = 0,
      c_CodeAddr = None, c_Input = [], c_Gas = gas, c_value = val\<rparr>"

text \<open>The map the new contract works on: the caller's if the caller is a contract, else a new one.\<close>

definition new_jumpdests :: "contract_ref \<Rightarrow> jumpdest_map \<Rightarrow> jumpdest_map" where
  "new_jumpdests caller jd = (case caller of AccountRef a \<Rightarrow> Map.empty | ContractRef c \<Rightarrow> jd)"

definition isCode :: "u64 \<Rightarrow> contract \<Rightarrow> jumpdest_map \<Rightarrow> (bool \<times> contract \<times> jumpdest_map) go" where
  "isCode udest c jd =
     (case c_analysis c of
        Some bits \<Rightarrow> go_bind (codeSegment bits (unat udest)) (\<lambda>b. Ret (b, c, jd))
      | None \<Rightarrow>
          if c_CodeHash c \<noteq> 0 then
            go_bind (case jd (c_CodeHash c) of
                Some bits \<Rightarrow> Ret (bits, jd)
              | None \<Rightarrow> go_bind (codeBitmap (c_Code c)) (\<lambda>bits. Ret (bits, jd(c_CodeHash c \<mapsto> bits))))
              (\<lambda>(bits, jd). go_bind (codeSegment bits (unat udest)) (\<lambda>b. Ret (b, c\<lparr>c_analysis := Some bits\<rparr>, jd)))
          else go_bind (codeBitmap (c_Code c)) (\<lambda>bits.
            go_bind (codeSegment bits (unat udest)) (\<lambda>b. Ret (b, c\<lparr>c_analysis := Some bits\<rparr>, jd))))"

definition validJumpdest :: "u256 \<Rightarrow> contract \<Rightarrow> jumpdest_map \<Rightarrow> (bool \<times> contract \<times> jumpdest_map) go" where
  "validJumpdest dest c jd =
     (case Uint64WithOverflow dest of (udest, overflow) \<Rightarrow>
        if overflow \<or> udest \<ge> len64 (c_Code c) then Ret (False, c, jd)
        else go_bind (nth_go (c_Code c) (unat udest)) (\<lambda>op.
          if op \<noteq> OP_JUMPDEST then Ret (False, c, jd) else isCode udest c jd))"

definition AsDelegate :: "contract \<Rightarrow> contract \<Rightarrow> contract" where
  "AsDelegate parent c = c\<lparr>c_CallerAddress := c_CallerAddress parent, c_value := c_value parent\<rparr>"

definition GetOp :: "contract \<Rightarrow> u64 \<Rightarrow> u8" where
  "GetOp c n = (if n < len64 (c_Code c) then c_Code c ! unat n else OP_STOP)"

definition UseGas :: "u64 \<Rightarrow> contract \<Rightarrow> bool \<times> contract" where
  "UseGas gas c = (if c_Gas c < gas then (False, c) else (True, c\<lparr>c_Gas := c_Gas c - gas\<rparr>))"

definition SetCallCode :: "address option \<Rightarrow> hash \<Rightarrow> bytes \<Rightarrow> contract \<Rightarrow> contract" where
  "SetCallCode a h cd c = c\<lparr>c_Code := cd, c_CodeHash := h, c_CodeAddr := a\<rparr>"

definition SetCodeOptionalHash :: "address option \<Rightarrow> bytes \<times> hash \<Rightarrow> contract \<Rightarrow> contract" where
  "SetCodeOptionalHash a cah c = c\<lparr>c_Code := fst cah, c_CodeHash := snd cah, c_CodeAddr := a\<rparr>"

lemma UseGas_exact:
  "UseGas g c = (True, c') \<Longrightarrow> unat (c_Gas c') + unat g = unat (c_Gas c)"
  by (auto simp: UseGas_def unat_sub_le word_le_nat_alt not_less split: if_splits)

section \<open>The caches of the analysis\<close>

text \<open>What the caches hold is the analysis of this contract's code.\<close>

definition analysis_ok :: "contract \<Rightarrow> jumpdest_map \<Rightarrow> bool" where
  "analysis_ok c jd \<longleftrightarrow>
     (\<forall>bits. c_analysis c = Some bits \<longrightarrow> codeBitmap (c_Code c) = Ret bits) \<and>
     (\<forall>bits. c_CodeHash c \<noteq> 0 \<longrightarrow> jd (c_CodeHash c) = Some bits \<longrightarrow> codeBitmap (c_Code c) = Ret bits)"

lemma isCode_spec:
  assumes "analysis_ok c jd" "unat udest < length (c_Code c)"
  shows "\<exists>bits jd'. isCode udest c jd = Ret (\<not> push_mask 0 (c_Code c) ! unat udest, c\<lparr>c_analysis := Some bits\<rparr>, jd') \<and>
     codeBitmap (c_Code c) = Ret bits \<and> (jd' = jd \<or> c_CodeHash c \<noteq> 0 \<and> jd' = jd(c_CodeHash c \<mapsto> bits))"
proof -
  obtain bits where b: "codeBitmap (c_Code c) = Ret bits"
    "codeSegment bits (unat udest) = Ret (\<not> push_mask 0 (c_Code c) ! unat udest)"
    using codeBitmap_segments [of "c_Code c"] assms(2) by blast
  consider "c_analysis c = Some bits" | "c_analysis c = None" "c_CodeHash c \<noteq> 0" "jd (c_CodeHash c) = Some bits"
    | "c_analysis c = None" "c_CodeHash c \<noteq> 0" "jd (c_CodeHash c) = None" | "c_analysis c = None" "c_CodeHash c = 0"
    using assms(1) b(1) by (cases "c_analysis c"; cases "jd (c_CodeHash c)") (auto simp: analysis_ok_def)
  then show ?thesis
    by cases (auto simp: isCode_def b intro: exI [of _ bits])
qed

lemma c_analysis_self: "\<exists>a. c = c\<lparr>c_analysis := a\<rparr>"
  by (rule exI [of _ "c_analysis c"]) simp

lemma validJumpdest_spec:
  assumes "analysis_ok c jd" "length (c_Code c) < 2 ^ 63"
  shows "\<exists>c' jd'. validJumpdest dest c jd = Ret
      (unat dest < length (c_Code c) \<and> c_Code c ! unat dest = OP_JUMPDEST \<and> \<not> push_mask 0 (c_Code c) ! unat dest, c', jd') \<and>
     analysis_ok c' jd' \<and> (\<exists>a. c' = c\<lparr>c_analysis := a\<rparr>) \<and>
     (jd' = jd \<or> c_CodeHash c \<noteq> 0 \<and> (\<exists>bits. codeBitmap (c_Code c) = Ret bits \<and> jd' = jd(c_CodeHash c \<mapsto> bits)))"
proof -
  define u where "u = Uint64 dest"
  have len: "unat (len64 (c_Code c)) = length (c_Code c)" by (rule unat_len64) (use assms(2) in simp)
  show ?thesis
  proof (cases "IsUint64 dest \<and> u < len64 (c_Code c)")
    case False
    have "\<not> unat dest < length (c_Code c)"
    proof (cases "IsUint64 dest")
      case True
      then have "\<not> unat u < length (c_Code c)" using False len by (simp add: word_less_nat_alt)
      then show ?thesis using unat_Uint64 [OF True] by (simp add: u_def)
    next
      case False
      then have "2 ^ 64 \<le> unat dest" by (simp only: IsUint64_unat not_less)
      then show ?thesis using assms(2) by simp
    qed
    moreover have "validJumpdest dest c jd = Ret (False, c, jd)"
    proof -
      have "\<not> IsUint64 dest \<or> len64 (c_Code c) \<le> Uint64 dest" using False by (auto simp: u_def not_less)
      then show ?thesis by (simp only: validJumpdest_def Uint64WithOverflow_def prod.case if_True)
    qed
    ultimately have "validJumpdest dest c jd = Ret (unat dest < length (c_Code c) \<and> c_Code c ! unat dest = OP_JUMPDEST \<and>
        \<not> push_mask 0 (c_Code c) ! unat dest, c, jd)" by simp
    then show ?thesis using assms(1) c_analysis_self by blast
  next
    case True
    then have ud: "unat u = unat dest" "unat dest < length (c_Code c)"
      using unat_Uint64 [of dest] len by (auto simp: u_def word_less_nat_alt)
    have v: "validJumpdest dest c jd =
        (if c_Code c ! unat dest \<noteq> OP_JUMPDEST then Ret (False, c, jd) else isCode u c jd)"
      using True ud by (auto simp: validJumpdest_def Uint64WithOverflow_def u_def [symmetric] nth_go_def not_le [symmetric])
    show ?thesis
    proof (cases "c_Code c ! unat dest = OP_JUMPDEST")
      case False
      then have "validJumpdest dest c jd = Ret (unat dest < length (c_Code c) \<and> c_Code c ! unat dest = OP_JUMPDEST \<and>
        \<not> push_mask 0 (c_Code c) ! unat dest, c, jd)" using v by simp
      then show ?thesis using assms(1) c_analysis_self by blast
    next
      case jump: True
      obtain bits jd' where i: "isCode u c jd = Ret (\<not> push_mask 0 (c_Code c) ! unat u, c\<lparr>c_analysis := Some bits\<rparr>, jd')"
        "codeBitmap (c_Code c) = Ret bits" "jd' = jd \<or> c_CodeHash c \<noteq> 0 \<and> jd' = jd(c_CodeHash c \<mapsto> bits)"
        using isCode_spec [OF assms(1), of u] ud by auto
      have "analysis_ok (c\<lparr>c_analysis := Some bits\<rparr>) jd'"
        using i assms(1) by (auto simp: analysis_ok_def)
      then show ?thesis using i v jump ud by auto
    qed
  qed
qed

text \<open>
  A jump is valid exactly when its destination is inside the code, holds the JUMPDEST opcode and
  is not push data; whether the analysis is taken from the contract, from the map shared with the
  callers or computed afresh makes no difference, and the caches stay correct.
\<close>

theorem valid_jumpdest_iff:
  assumes "analysis_ok c jd" "length (c_Code c) < 2 ^ 63"
  shows "\<exists>c' jd'. validJumpdest dest c jd = Ret
      (unat dest < length (c_Code c) \<and> c_Code c ! unat dest = OP_JUMPDEST \<and> \<not> push_mask 0 (c_Code c) ! unat dest, c', jd') \<and>
     analysis_ok c' jd'"
  using validJumpdest_spec [OF assms, of dest] by blast

text \<open>\<open>PUSH1 JUMPDEST JUMPDEST\<close>: position 1 is push data, position 2 is a destination.\<close>

theorem valid_jumpdest_iff_witness:
  "\<exists>c1 jd1 c2 jd2.
    validJumpdest 1 ((NewContract (AccountRef 7) 8 0 100)\<lparr>c_Code := [0x60, 0x5b, 0x5b]\<rparr>) Map.empty = Ret (False, c1, jd1) \<and>
    validJumpdest 2 ((NewContract (AccountRef 7) 8 0 100)\<lparr>c_Code := [0x60, 0x5b, 0x5b]\<rparr>) Map.empty = Ret (True, c2, jd2)"
proof -
  let ?c = "(NewContract (AccountRef 7) 8 0 100)\<lparr>c_Code := [0x60, 0x5b, 0x5b]\<rparr>"
  have ok: "analysis_ok ?c Map.empty" by (simp add: analysis_ok_def NewContract_def)
  have m: "push_mask 0 [0x60, 0x5b, 0x5b] = [False, True, False]" by (simp add: push_mask.simps)
  show ?thesis
    using valid_jumpdest_iff [OF ok, of 1] valid_jumpdest_iff [OF ok, of 2] by (auto simp: m)
qed

end
