(* ===== verification/EVM_Base.thy ===== *)
theory EVM_Base imports Contract begin

text \<open>
  What an instruction works on: the environment it reads (block and transaction context, chain
  rules, libraries, precompiled contracts), the EVM object it changes, and its call frame; and the
  small language of actions in which the gas functions and the instructions are written.

  No tracer is set (\<open>Config.Tracer == nil\<close>), so the tracing branches of the source are absent.
  The tables of \<open>uint256.Int\<close> routines whose result needs more than the ring, order and bit
  operations of 256-bit words (division, exponentiation, sign extension, shifts) come from a
  third-party package and are the parameter \<open>env_lib\<close>.
\<close>

section \<open>The environment\<close>

record uint256_lib =
  u_Div :: "u256 \<Rightarrow> u256 \<Rightarrow> u256"
  u_SDiv :: "u256 \<Rightarrow> u256 \<Rightarrow> u256"
  u_Mod :: "u256 \<Rightarrow> u256 \<Rightarrow> u256"
  u_SMod :: "u256 \<Rightarrow> u256 \<Rightarrow> u256"
  u_AddMod :: "u256 \<Rightarrow> u256 \<Rightarrow> u256 \<Rightarrow> u256"
  u_MulMod :: "u256 \<Rightarrow> u256 \<Rightarrow> u256 \<Rightarrow> u256"
  u_Exp :: "u256 \<Rightarrow> u256 \<Rightarrow> u256"
  u_ExtendSign :: "u256 \<Rightarrow> u256 \<Rightarrow> u256"
  u_Byte :: "u256 \<Rightarrow> u256 \<Rightarrow> u256"
  u_Lsh :: "u256 \<Rightarrow> nat \<Rightarrow> u256"
  u_Rsh :: "u256 \<Rightarrow> nat \<Rightarrow> u256"
  u_SRsh :: "u256 \<Rightarrow> nat \<Rightarrow> u256"
  u_BitLen :: "u256 \<Rightarrow> nat"

text \<open>The interface \<open>PrecompiledContract\<close>; \<open>Run\<close> returns the output and perhaps an
  error text; \<open>None\<close> stands for a panic on a slice.\<close>

record precompiled =
  RequiredGas :: "bytes \<Rightarrow> u64"
  precompiled_Run :: "bytes \<Rightarrow> (bytes \<times> string option) option"

text \<open>
  \<open>BlockContext\<close> (without the two functions \<open>CanTransfer\<close> and \<open>Transfer\<close>, for which the code
  always passes those of \<open>core/evm.go\<close>). A \<open>big.Int\<close> is an \<^typ>\<open>int\<close>; the pointers that may be nil are
  options.
\<close>

record block_context =
  GetHash :: "u64 \<Rightarrow> hash"
  Coinbase :: address
  GasLimit :: u64
  BlockNumber :: int
  Time :: u64
  Difficulty :: int
  BaseFee :: "int option"
  BlobBaseFee :: "int option"
  Random :: "hash option"

record tx_context =
  Origin :: address
  GasPrice :: int
  BlobHashes :: "hash list"

text \<open>
  The part of \<open>EVM\<close>, its \<open>Config\<close> and its interpreter that does not change during a call. The
  flag \<open>abort\<close>, which another goroutine may set at any time, is the list of its future values:
  \<open>abort_load n\<close> is what the n'th load returns.
\<close>

record env =
  env_lib :: uint256_lib
  env_db :: database
  Context :: block_context
  TxContext :: tx_context
  ChainID :: "int option"
  chainRules :: rules
  EnablePreimageRecording :: bool
  PrecompiledContractsHomestead :: "address \<rightharpoonup> precompiled"
  PrecompiledContractsByzantium :: "address \<rightharpoonup> precompiled"
  PrecompiledContractsIstanbul :: "address \<rightharpoonup> precompiled"
  PrecompiledContractsBerlin :: "address \<rightharpoonup> precompiled"
  PrecompiledContractsCancun :: "address \<rightharpoonup> precompiled"
  abort_load :: "nat \<Rightarrow> bool"

section \<open>The EVM object and the call frame\<close>

text \<open>
  The mutable fields of \<open>EVM\<close> and \<open>EVMInterpreter\<close>. \<open>evm_jumpdests\<close> is the analysis map that
  the contracts of a call tree share, \<open>evm_loads\<close> counts the loads of the abort flag.
\<close>

record evm =
  evm_StateDB :: StateDB
  evm_depth :: int
  callGasTemp :: u64
  readOnly :: bool
  returnData :: bytes
  evm_jumpdests :: jumpdest_map
  evm_loads :: nat

text \<open>\<open>ScopeContext\<close> and the program counter.\<close>

record frame =
  fr_pc :: u64
  fr_Stack :: stack
  fr_Memory :: memory
  fr_Contract :: contract

section \<open>Actions\<close>

text \<open>
  An action changes the EVM and the frame and returns a value, or fails with an error and the
  bytes returned beside it. An instruction is an action that returns bytes; \<open>return nil, err\<close> is
  \<open>a_err err\<close>.
\<close>

type_synonym 'a act = "evm \<Rightarrow> frame \<Rightarrow> (((vm_error \<times> bytes) + 'a) \<times> evm \<times> frame) go"

definition a_ret :: "'a \<Rightarrow> 'a act" where
  "a_ret x e fr = Ret (Inr x, e, fr)"

definition a_bind :: "'a act \<Rightarrow> ('a \<Rightarrow> 'b act) \<Rightarrow> 'b act" where
  "a_bind m f e fr = go_bind (m e fr) (\<lambda>(r, e, fr).
     case r of Inl err \<Rightarrow> Ret (Inl err, e, fr) | Inr x \<Rightarrow> f x e fr)"

definition a_fail :: "vm_error \<Rightarrow> bytes \<Rightarrow> 'a act" where
  "a_fail err ret e fr = Ret (Inl (err, ret), e, fr)"

definition a_err :: "vm_error \<Rightarrow> 'a act" where
  "a_err err = a_fail err []"

definition a_panic :: "gopanic \<Rightarrow> 'a act" where
  "a_panic p e fr = Panic p"

definition a_go :: "'a go \<Rightarrow> 'a act" where
  "a_go m e fr = go_bind m (\<lambda>x. Ret (Inr x, e, fr))"

text \<open>Replace any error by one error (the interpreter does this to the errors of gas functions).\<close>

definition a_mask :: "vm_error \<Rightarrow> 'a act \<Rightarrow> 'a act" where
  "a_mask err m e fr = go_bind (m e fr) (\<lambda>(r, e, fr).
     Ret (case r of Inl _ \<Rightarrow> Inl (err, []) | Inr x \<Rightarrow> Inr x, e, fr))"

definition a_evm :: "(evm \<Rightarrow> 'a) \<Rightarrow> 'a act" where
  "a_evm f e fr = Ret (Inr (f e), e, fr)"

definition a_frame :: "(frame \<Rightarrow> 'a) \<Rightarrow> 'a act" where
  "a_frame f e fr = Ret (Inr (f fr), e, fr)"

text \<open>The stack.\<close>

definition a_pop :: "u256 act" where
  "a_pop e fr = go_bind (stack_pop (fr_Stack fr)) (\<lambda>(x, st). Ret (Inr x, e, fr\<lparr>fr_Stack := st\<rparr>))"

definition a_peek :: "u256 act" where
  "a_peek e fr = go_bind (stack_peek (fr_Stack fr)) (\<lambda>x. Ret (Inr x, e, fr))"

definition a_set :: "u256 \<Rightarrow> unit act" where
  "a_set v e fr = go_bind (stack_set_top v (fr_Stack fr)) (\<lambda>st. Ret (Inr (), e, fr\<lparr>fr_Stack := st\<rparr>))"

definition a_push :: "u256 \<Rightarrow> unit act" where
  "a_push v e fr = Ret (Inr (), e, fr\<lparr>fr_Stack := stack_push v (fr_Stack fr)\<rparr>)"

definition a_back :: "nat \<Rightarrow> u256 act" where
  "a_back n e fr = go_bind (Back (fr_Stack fr) n) (\<lambda>x. Ret (Inr x, e, fr))"

definition a_stack :: "(stack \<Rightarrow> stack go) \<Rightarrow> unit act" where
  "a_stack f e fr = go_bind (f (fr_Stack fr)) (\<lambda>st. Ret (Inr (), e, fr\<lparr>fr_Stack := st\<rparr>))"

text \<open>The memory, the contract and the program counter.\<close>

definition a_mem :: "(memory \<Rightarrow> memory go) \<Rightarrow> unit act" where
  "a_mem f e fr = go_bind (f (fr_Memory fr)) (\<lambda>m. Ret (Inr (), e, fr\<lparr>fr_Memory := m\<rparr>))"

definition a_self :: "address act" where
  "a_self e fr = Ret (Inr (c_self (fr_Contract fr)), e, fr)"

definition a_pc :: "u64 \<Rightarrow> unit act" where
  "a_pc pc e fr = Ret (Inr (), e, fr\<lparr>fr_pc := pc\<rparr>)"

definition a_use_gas :: "u64 \<Rightarrow> bool act" where
  "a_use_gas gas e fr = (case UseGas gas (fr_Contract fr) of (ok, c) \<Rightarrow> Ret (Inr ok, e, fr\<lparr>fr_Contract := c\<rparr>))"

definition a_add_gas :: "u64 \<Rightarrow> unit act" where
  "a_add_gas gas e fr = Ret (Inr (), e, fr\<lparr>fr_Contract := (fr_Contract fr)\<lparr>c_Gas := c_Gas (fr_Contract fr) + gas\<rparr>\<rparr>)"

text \<open>The state database and the other fields of the EVM.\<close>

definition a_state :: "(StateDB \<Rightarrow> ('a \<times> StateDB) go) \<Rightarrow> 'a act" where
  "a_state f e fr = go_bind (f (evm_StateDB e)) (\<lambda>(x, s). Ret (Inr x, e\<lparr>evm_StateDB := s\<rparr>, fr))"

definition a_ask :: "(StateDB \<Rightarrow> 'a \<times> StateDB) \<Rightarrow> 'a act" where
  "a_ask f = a_state (\<lambda>s. Ret (f s))"

definition a_do :: "(StateDB \<Rightarrow> StateDB) \<Rightarrow> unit act" where
  "a_do f = a_state (\<lambda>s. Ret ((), f s))"

definition a_callGasTemp :: "u64 \<Rightarrow> unit act" where
  "a_callGasTemp g e fr = Ret (Inr (), e\<lparr>callGasTemp := g\<rparr>, fr)"

definition a_returnData :: "bytes \<Rightarrow> unit act" where
  "a_returnData d e fr = Ret (Inr (), e\<lparr>returnData := d\<rparr>, fr)"

definition a_abort :: "env \<Rightarrow> bool act" where
  "a_abort env e fr = Ret (Inr (abort_load env (evm_loads e)), e\<lparr>evm_loads := evm_loads e + 1\<rparr>, fr)"

section \<open>What an action preserves\<close>

text \<open>
  \<open>pres R m\<close>: however the action \<open>m\<close> ends, without a panic, the state it leaves is related by \<open>R\<close> to
  the state it started in. For a reflexive and transitive \<open>R\<close> the rules below reduce the claim to
  the primitive actions.
\<close>

type_synonym evm_state = "evm \<times> frame"

definition pres :: "(evm_state \<Rightarrow> evm_state \<Rightarrow> bool) \<Rightarrow> 'a act \<Rightarrow> bool" where
  "pres R m \<longleftrightarrow> (\<forall>e fr. go_all (\<lambda>(r, e', fr'). R (e, fr) (e', fr')) (m e fr))"

lemma presI: "(\<And>e fr r e' fr'. m e fr = Ret (r, e', fr') \<Longrightarrow> R (e, fr) (e', fr')) \<Longrightarrow> pres R m"
  by (auto simp: pres_def go_all_iff)

lemma presD: "pres R m \<Longrightarrow> m e fr = Ret (r, e', fr') \<Longrightarrow> R (e, fr) (e', fr')"
  by (auto simp: pres_def go_all_iff)

lemma a_bind_Ret:
  "a_bind m f e fr = Ret (r, e', fr') \<longleftrightarrow>
     (\<exists>err. m e fr = Ret (Inl err, e', fr') \<and> r = Inl err) \<or>
     (\<exists>x e1 fr1. m e fr = Ret (Inr x, e1, fr1) \<and> f x e1 fr1 = Ret (r, e', fr'))"
  by (cases "m e fr") (auto simp: a_bind_def split: sum.splits)

locale transitive_relation =
  fixes R :: "evm_state \<Rightarrow> evm_state \<Rightarrow> bool"
  assumes R_refl: "R s s"
    and R_trans: "R s t \<Longrightarrow> R t u \<Longrightarrow> R s u"
begin

lemma pres_bind: "pres R m \<Longrightarrow> (\<And>x. pres R (f x)) \<Longrightarrow> pres R (a_bind m f)"
  by (rule presI) (auto simp: a_bind_Ret dest: presD intro: R_trans)

lemma pres_simple:
  "pres R (a_ret x)" "pres R (a_fail err ret)" "pres R (a_err err)" "pres R (a_panic p)" "pres R (a_go m)"
  "pres R (a_evm f)" "pres R (a_frame g)" "pres R a_peek" "pres R (a_back n)" "pres R a_self"
  by (auto intro!: presI simp: a_ret_def a_fail_def a_err_def a_panic_def a_go_def a_evm_def a_frame_def
      a_peek_def a_back_def a_self_def R_refl)

lemma pres_mask: "pres R m \<Longrightarrow> pres R (a_mask err m)"
  by (rule presI) (auto simp: a_mask_def dest: presD)

lemma pres_if: "(b \<Longrightarrow> pres R m) \<Longrightarrow> (\<not> b \<Longrightarrow> pres R m') \<Longrightarrow> pres R (if b then m else m')"
  by simp

lemma pres_case_prod: "(\<And>x y. p = (x, y) \<Longrightarrow> pres R (f x y)) \<Longrightarrow> pres R (case p of (x, y) \<Rightarrow> f x y)"
  by (cases p) simp

lemma pres_case_option:
  "(x = None \<Longrightarrow> pres R m) \<Longrightarrow> (\<And>y. x = Some y \<Longrightarrow> pres R (f y)) \<Longrightarrow>
   pres R (case x of None \<Rightarrow> m | Some y \<Rightarrow> f y)"
  by (cases x) auto

lemma pres_case_sum:
  "(\<And>y. x = Inl y \<Longrightarrow> pres R (g y)) \<Longrightarrow> (\<And>y. x = Inr y \<Longrightarrow> pres R (f y)) \<Longrightarrow>
   pres R (case x of Inl y \<Rightarrow> g y | Inr y \<Rightarrow> f y)"
  by (cases x) auto

lemma pres_let: "(\<And>x. pres R (f x)) \<Longrightarrow> pres R (let x = t in f x)"
  by (simp add: Let_def)

lemmas pres_rules = pres_bind pres_simple pres_mask pres_if pres_case_prod pres_case_option pres_case_sum pres_let

end

section \<open>How an action changes the height of the stack\<close>

text \<open>
  \<open>stk l m l'\<close>: on a stack of height \<open>l\<close> the action \<open>m\<close> does not index outside the stack, and if it
  returns without an error the stack it leaves has height \<open>l'\<close>.
\<close>

definition stk :: "nat \<Rightarrow> 'a act \<Rightarrow> nat \<Rightarrow> bool" where
  "stk l m l' \<longleftrightarrow> (\<forall>e (fr :: frame). length (fr_Stack fr) = l \<longrightarrow>
     m e fr \<noteq> Panic StackIndexOutOfRange \<and>
     go_all (\<lambda>(r, e', fr'). \<forall>x. r = Inr x \<longrightarrow> length (fr_Stack fr') = l') (m e fr))"

lemma stkI:
  assumes "\<And>e (fr :: frame). length (fr_Stack fr) = l \<Longrightarrow> m e fr \<noteq> Panic StackIndexOutOfRange"
    and "\<And>e (fr :: frame) x e' fr'. length (fr_Stack fr) = l \<Longrightarrow> m e fr = Ret (Inr x, e', fr') \<Longrightarrow> length (fr_Stack fr') = l'"
  shows "stk l m l'"
  unfolding stk_def go_all_iff using assms by blast

lemma stkD:
  assumes "stk l m l'" "length (fr_Stack fr) = l"
  shows "m e fr \<noteq> Panic StackIndexOutOfRange" "m e fr = Ret (Inr x, e', fr') \<Longrightarrow> length (fr_Stack fr') = l'"
  using assms unfolding stk_def go_all_iff by blast+

lemma stk_bind:
  assumes m: "stk l m l'" and f: "\<And>x. stk l' (f x) l''"
  shows "stk l (a_bind m f) l''"
proof (rule stkI)
  fix e and fr :: frame assume l: "length (fr_Stack fr) = l"
  show "a_bind m f e fr \<noteq> Panic StackIndexOutOfRange"
  proof
    assume "a_bind m f e fr = Panic StackIndexOutOfRange"
    then obtain x e1 fr1 where "m e fr = Ret (Inr x, e1, fr1)" "f x e1 fr1 = Panic StackIndexOutOfRange"
      using stkD(1) [OF m l, of e] by (cases "m e fr") (auto simp: a_bind_def split: sum.splits)
    then show False using stkD(2) [OF m l] stkD(1) [OF f] by blast
  qed
  fix x e' fr' assume "a_bind m f e fr = Ret (Inr x, e', fr')"
  then show "length (fr_Stack fr') = l''"
    unfolding a_bind_Ret using stkD(2) [OF m l] stkD(2) [OF f] by blast
qed

lemma stk_simple:
  "stk l (a_ret x) l" "stk l (a_fail err ret) l'" "stk l (a_err err) l'"
  "stk l (a_evm f) l" "stk l (a_frame g) l" "stk l a_self l" "stk l (a_pc pc) l" "stk l (a_use_gas gas) l"
  "stk l (a_add_gas gas) l" "stk l (a_ask q) l" "stk l (a_do q') l" "stk l (a_callGasTemp gas) l"
  "stk l (a_returnData d) l" "stk l (a_abort env) l" "stk l (a_push v) (Suc l)"
  "stk (Suc l) a_pop l" "stk (Suc l) a_peek (Suc l)" "stk (Suc l) (a_set v) (Suc l)"
  by (auto intro!: stkI simp: a_ret_def a_fail_def a_err_def a_evm_def a_frame_def a_self_def a_pc_def a_use_gas_def
      a_add_gas_def a_ask_def a_do_def a_state_def a_callGasTemp_def a_returnData_def a_abort_def a_push_def
      a_pop_def a_peek_def a_set_def stack_push_def length_Suc_conv split: prod.splits)

lemma stk_back: "n < l \<Longrightarrow> stk l (a_back n) l"
  by (auto intro!: stkI simp: a_back_def)

lemma stk_mask: "stk l m l' \<Longrightarrow> stk l (a_mask err m) l'"
proof (rule stkI)
  fix e and fr :: frame assume m: "stk l m l'" and l: "length (fr_Stack fr) = l"
  show "a_mask err m e fr \<noteq> Panic StackIndexOutOfRange" using stkD(1) [OF m l] by (auto simp: a_mask_def)
  fix x e' fr' assume "a_mask err m e fr = Ret (Inr x, e', fr')"
  then have "m e fr = Ret (Inr x, e', fr')" by (cases "m e fr") (auto simp: a_mask_def split: sum.splits)
  then show "length (fr_Stack fr') = l'" by (rule stkD(2) [OF m l])
qed

lemma stk_if: "(b \<Longrightarrow> stk l m l') \<Longrightarrow> (\<not> b \<Longrightarrow> stk l m' l') \<Longrightarrow> stk l (if b then m else m') l'"
  by simp

lemma stk_case_prod: "(\<And>x y. stk l (f x y) l') \<Longrightarrow> stk l (case p of (x, y) \<Rightarrow> f x y) l'"
  by (cases p) simp

lemma stk_case_option: "stk l m l' \<Longrightarrow> (\<And>y. stk l (f y) l') \<Longrightarrow> stk l (case x of None \<Rightarrow> m | Some y \<Rightarrow> f y) l'"
  by (cases x) auto

lemma stk_case_sum:
  "(\<And>y. stk l (g y) l') \<Longrightarrow> (\<And>y. stk l (f y) l') \<Longrightarrow> stk l (case x of Inl y \<Rightarrow> g y | Inr y \<Rightarrow> f y) l'"
  by (cases x) auto

lemma stk_let: "(\<And>x. stk l (f x) l') \<Longrightarrow> stk l (let x = t in f x) l'"
  by (simp add: Let_def)

text \<open>Outcomes of a Go computation that has nothing to do with the stack.\<close>

definition no_stack_panic :: "'a go \<Rightarrow> bool" where
  "no_stack_panic m \<longleftrightarrow> m \<noteq> Panic StackIndexOutOfRange"

lemma no_stack_panic_simps [simp]:
  "no_stack_panic (Ret x)" "no_stack_panic OutOfFuel" "no_stack_panic (Panic p) \<longleftrightarrow> p \<noteq> StackIndexOutOfRange"
  by (simp_all add: no_stack_panic_def)

lemma no_stack_panic_bind: "no_stack_panic m \<Longrightarrow> (\<And>x. no_stack_panic (f x)) \<Longrightarrow> no_stack_panic (go_bind m f)"
  by (auto simp: no_stack_panic_def)

lemma stk_go: "no_stack_panic m \<Longrightarrow> stk l (a_go m) l"
  by (auto intro!: stkI simp: a_go_def no_stack_panic_def)

lemma stk_mem: "(\<And>m. no_stack_panic (f m)) \<Longrightarrow> stk l (a_mem f) l"
  by (auto intro!: stkI simp: a_mem_def no_stack_panic_def)

lemma stk_state: "(\<And>s. no_stack_panic (f s)) \<Longrightarrow> stk l (a_state f) l"
  by (auto intro!: stkI simp: a_state_def no_stack_panic_def)

lemma stk_panic: "p \<noteq> StackIndexOutOfRange \<Longrightarrow> stk l (a_panic p) l'"
  by (auto intro!: stkI simp: a_panic_def)

lemmas stk_rules = stk_bind stk_simple stk_back stk_mask stk_if stk_case_prod stk_case_option stk_case_sum
  stk_let stk_go stk_mem stk_state stk_panic

end
