(* ===== verification/EVM_Relation.thy ===== *)
theory EVM_Relation imports EVM_Base begin

text \<open>
  The interface between the actions and whatever is proved of all of them: a relation between the
  states before and after an action that the harmless changes respect. The gas functions and the
  instructions are shown to respect every such relation, once; what the interpreter preserves are
  instances.
\<close>

section \<open>Changes of the state database\<close>

text \<open>
  \<open>aux\<close>: a change that concerns bookkeeping only (caches, the refund counter, the access list,
  preimages): accounts, storage, logs and transient storage are untouched.
\<close>

definition aux :: "database \<Rightarrow> StateDB \<Rightarrow> StateDB \<Rightarrow> bool" where
  "aux db s t \<longleftrightarrow> advances db s t \<and> v_obj (sview db t) = v_obj (sview db s) \<and>
     logs_of t = logs_of s \<and> ts_Get (sdb_transientStorage t) = ts_Get (sdb_transientStorage s)"

lemma aux_same: "sdb_ok s \<Longrightarrow> same db s t \<Longrightarrow> aux db s t"
proof -
  assume ok: "sdb_ok s" and s: "same db s t"
  then have v: "sview db t = sview db s" by (simp add: same_def)
  show "aux db s t"
    using advances_same [OF ok s] arg_cong [OF v, of v_obj] arg_cong [OF v, of v_logs] arg_cong [OF v, of v_transient]
    by (simp add: aux_def)
qed

lemma aux_queries:
  assumes "sdb_ok s"
  shows "aux db s (snd (Exist db a s))" "aux db s (snd (Empty db a s))"
    "aux db s (snd (GetBalance db a s))" "aux db s (snd (GetNonce db a s))" "aux db s (snd (GetCodeHash db a s))"
    "aux db s (snd (HasSelfDestructed db a s))" "aux db s (snd (GetCode db a s))"
    "aux db s (snd (GetCodeSize db a s))" "aux db s (snd (GetState db a k s))"
    "aux db s (snd (GetCommittedState db a k s))" "aux db s (snd (CanTransfer db a n s))"
  using queries_same [OF assms, of db a] queries_same(10,11) [OF assms, of db a k]
  by (auto intro!: aux_same [OF assms] simp: CanTransfer_def case_prod_beta)

lemma logs_of_log_change [simp]: "logs_of (log_change e s) = logs_of s"
  by (simp add: logs_of_def log_change_def fun_eq_iff)

lemma log_change_other [simp]:
  "sdb_transientStorage (log_change e s) = sdb_transientStorage s" "sdb_logs (log_change e s) = sdb_logs s"
  by (simp_all add: log_change_def)

lemma v_obj_plain [simp]:
  "v_obj (sview db (s\<lparr>sdb_refund := g\<rparr>)) = v_obj (sview db s)"
  "v_obj (sview db (s\<lparr>sdb_accessList := al\<rparr>)) = v_obj (sview db s)"
  "v_obj (sview db (s\<lparr>preimages := pre\<rparr>)) = v_obj (sview db s)"
  by (simp_all add: sview_def obj_at_def backing_def fun_eq_iff loaded_def fresh_def cong: option.case_cong)

lemma logs_of_plain [simp]:
  "logs_of (s\<lparr>sdb_refund := g\<rparr>) = logs_of s" "logs_of (s\<lparr>sdb_accessList := al\<rparr>) = logs_of s"
  "logs_of (s\<lparr>preimages := pre\<rparr>) = logs_of s"
  by (simp_all add: logs_of_def fun_eq_iff)

lemma aux_refund:
  assumes "sdb_ok s"
  shows "aux db s (AddRefund g s)" "SubRefund g s = Ret t \<Longrightarrow> aux db s t"
  using plain_ops_advance(1,6) [OF assms]
  by (auto simp: aux_def AddRefund_def SubRefund_def Let_def split: if_splits)

lemma aux_access:
  assumes "sdb_ok s"
  shows "aux db s (AddAddressToAccessList a s)" "AddSlotToAccessList a k s = Ret t \<Longrightarrow> aux db s t"
    "aux db s (AddPreimage h pre s)"
proof -
  show "aux db s (AddAddressToAccessList a s)"
    using plain_ops_advance(5) [OF assms]
    by (auto simp: aux_def AddAddressToAccessList_def Let_def split: prod.splits)
  show "aux db s (AddPreimage h pre s)"
    using plain_ops_advance(3) [OF assms] by (auto simp: aux_def AddPreimage_def Let_def)
  show "AddSlotToAccessList a k s = Ret t \<Longrightarrow> aux db s t"
    using AddSlotToAccessList_advances [OF assms, of a k db]
    by (auto simp: aux_def AddSlotToAccessList_def Let_def split: prod.splits if_splits)
qed

section \<open>Relations that the instructions respect\<close>

locale evm_relation = transitive_relation R for R :: "evm_state \<Rightarrow> evm_state \<Rightarrow> bool" +
  fixes env :: env
  assumes R_stack: "R (e, fr) (e, fr\<lparr>fr_Stack := st\<rparr>)"
    and R_memory: "R (e, fr) (e, fr\<lparr>fr_Memory := m\<rparr>)"
    and R_pc: "R (e, fr) (e, fr\<lparr>fr_pc := pc\<rparr>)"
    and R_temp: "R (e, fr) (e\<lparr>callGasTemp := g\<rparr>, fr)"
    and R_returnData: "R (e, fr) (e\<lparr>returnData := d\<rparr>, fr)"
    and R_loads: "R (e, fr) (e\<lparr>evm_loads := n\<rparr>, fr)"
    and R_analysis: "R (e, fr) (e\<lparr>evm_jumpdests := jd\<rparr>, fr\<lparr>fr_Contract := (fr_Contract fr)\<lparr>c_analysis := bits\<rparr>\<rparr>)"
    and R_use: "R (e, fr) (e, fr\<lparr>fr_Contract := snd (UseGas g (fr_Contract fr))\<rparr>)"
    and R_aux: "(sdb_ok (evm_StateDB e) \<Longrightarrow> aux (env_db env) (evm_StateDB e) s) \<Longrightarrow>
      R (e, fr) (e\<lparr>evm_StateDB := s\<rparr>, fr)"
begin

lemma pres_parts:
  "pres R a_pop" "pres R (a_set v)" "pres R (a_push v)" "pres R (a_stack f)" "pres R (a_mem g)" "pres R (a_pc pc)"
  "pres R (a_use_gas gas)" "pres R (a_callGasTemp gas)" "pres R (a_returnData d)" "pres R (a_abort env)"
  by (auto intro!: presI R_stack R_memory R_pc R_temp R_returnData R_loads
      simp: a_pop_def a_set_def a_push_def a_stack_def a_mem_def a_pc_def a_callGasTemp_def a_returnData_def a_abort_def)
    (use R_use in \<open>auto intro!: presI simp: a_use_gas_def split: prod.splits\<close>, metis snd_conv)

lemma pres_state:
  "(\<And>s x t. sdb_ok s \<Longrightarrow> f s = Ret (x, t) \<Longrightarrow> aux (env_db env) s t) \<Longrightarrow> pres R (a_state f)"
  by (rule presI) (auto simp: a_state_def intro: R_aux)

lemma pres_ask: "(\<And>s. sdb_ok s \<Longrightarrow> aux (env_db env) s (snd (f s))) \<Longrightarrow> pres R (a_ask f)"
  unfolding a_ask_def by (rule pres_state) (metis go.inject snd_conv)

lemma pres_do: "(\<And>s. sdb_ok s \<Longrightarrow> aux (env_db env) s (f s)) \<Longrightarrow> pres R (a_do f)"
  unfolding a_do_def by (rule pres_state) auto

lemma pres_queries:
  "pres R (a_ask (Exist (env_db env) a))" "pres R (a_ask (Empty (env_db env) a))"
  "pres R (a_ask (GetBalance (env_db env) a))" "pres R (a_ask (GetNonce (env_db env) a))"
  "pres R (a_ask (GetCodeHash (env_db env) a))" "pres R (a_ask (HasSelfDestructed (env_db env) a))"
  "pres R (a_ask (GetCode (env_db env) a))" "pres R (a_ask (GetCodeSize (env_db env) a))"
  "pres R (a_ask (GetState (env_db env) a k))" "pres R (a_ask (GetCommittedState (env_db env) a k))"
  "pres R (a_do (AddRefund g))" "pres R (a_do (AddAddressToAccessList a))" "pres R (a_do (AddPreimage h pre))"
  by (rule pres_ask pres_do, (rule aux_queries aux_refund aux_access, assumption))+

lemmas pres_base = pres_rules pres_parts pres_queries

end

text \<open>Relations that also respect the changes that only a frame that is not read-only may make.\<close>

locale write_relation = evm_relation R env for R :: "evm_state \<Rightarrow> evm_state \<Rightarrow> bool" and env :: env +
  assumes R_write: "\<not> readOnly e \<Longrightarrow>
      (sdb_ok (evm_StateDB e) \<Longrightarrow> advances (env_db env) (evm_StateDB e) s) \<Longrightarrow>
      R (e, fr) (e\<lparr>evm_StateDB := s\<rparr>, fr)"
begin

text \<open>\<open>W\<close>: from a state that is not read-only, \<open>R\<close> holds and the read-only flag stays off.\<close>

definition W :: "evm_state \<Rightarrow> evm_state \<Rightarrow> bool" where
  "W s t \<longleftrightarrow> (\<not> readOnly (fst s) \<longrightarrow> R s t \<and> \<not> readOnly (fst t))"

lemma W_write:
  "(sdb_ok (evm_StateDB e) \<Longrightarrow> advances (env_db env) (evm_StateDB e) s) \<Longrightarrow> W (e, fr) (e\<lparr>evm_StateDB := s\<rparr>, fr)"
  by (simp add: W_def R_write)

end

sublocale write_relation \<subseteq> w: evm_relation W env
  by unfold_locales
    (auto simp: W_def R_refl R_stack R_memory R_pc R_temp R_returnData R_loads R_analysis R_use R_aux intro: R_trans)

context write_relation begin

lemma pres_write: "(\<And>s. sdb_ok s \<Longrightarrow> advances (env_db env) s (f s)) \<Longrightarrow> pres W (a_do f)"
  by (rule presI) (auto simp: a_do_def a_state_def intro: W_write)

end

end
