(* ===== verification/Gas_Costs.thy ===== *)
theory Gas_Costs imports EVM_Relation begin

text \<open>
  What instructions cost: \<open>core/vm/gas.go\<close>, \<open>core/vm/gas_table.go\<close> and \<open>core/vm/operations_acl.go\<close>.
  A gas function takes the size to which the memory will grow and returns the dynamic cost; it may
  change the EVM (the refund counter, the access list, \<open>callGasTemp\<close>) and the frame (the memory's
  last cost). An error it returns is an error of the action.
\<close>

section \<open>core/vm/gas.go\<close>

abbreviation (input) GasQuickStep :: u64 where "GasQuickStep \<equiv> 2"
abbreviation (input) GasFastestStep :: u64 where "GasFastestStep \<equiv> 3"
abbreviation (input) GasFastStep :: u64 where "GasFastStep \<equiv> 5"
abbreviation (input) GasMidStep :: u64 where "GasMidStep \<equiv> 8"
abbreviation (input) GasSlowStep :: u64 where "GasSlowStep \<equiv> 10"
abbreviation (input) GasExtStep :: u64 where "GasExtStep \<equiv> 20"

definition callGas :: "bool \<Rightarrow> u64 \<Rightarrow> u64 \<Rightarrow> u256 \<Rightarrow> vm_error + u64" where
  "callGas isEip150 availableGas base callCost =
     (let availableGas = availableGas - base;
          gas = availableGas - availableGas div 64
      in if isEip150 \<and> (\<not> IsUint64 callCost \<or> gas < Uint64 callCost) then Inr gas
         else if \<not> IsUint64 callCost then Inl ErrGasUintOverflow
         else Inr (Uint64 callCost))"

section \<open>core/vm/gas_table.go\<close>

type_synonym gas_fn = "env \<Rightarrow> u64 \<Rightarrow> u64 act"

definition memoryGasCost :: "memory \<Rightarrow> u64 \<Rightarrow> vm_error + (u64 \<times> memory)" where
  "memoryGasCost mem newMemSize =
     (if newMemSize = 0 then Inr (0, mem)
      else if newMemSize > 0x1FFFFFFFE0 then Inl ErrGasUintOverflow
      else let newMemSizeWords = toWordSize newMemSize;
               newMemSize = newMemSizeWords * 32
           in if newMemSize > len64 (mem_store mem) then
                let square = newMemSizeWords * newMemSizeWords;
                    linCoef = newMemSizeWords * MemoryGas;
                    quadCoef = square div QuadCoeffDiv;
                    newTotalFee = linCoef + quadCoef;
                    fee = newTotalFee - lastGasCost mem
                in Inr (fee, mem\<lparr>lastGasCost := newTotalFee\<rparr>)
              else Inr (0, mem))"

definition a_memoryGas :: "u64 \<Rightarrow> u64 act" where
  "a_memoryGas memorySize e fr =
     (case memoryGasCost (fr_Memory fr) memorySize of
        Inl err \<Rightarrow> Ret (Inl (err, []), e, fr)
      | Inr (gas, mem) \<Rightarrow> Ret (Inr gas, e, fr\<lparr>fr_Memory := mem\<rparr>))"

definition checked :: "u64 \<times> bool \<Rightarrow> u64 act" where
  "checked r = (if snd r then a_err ErrGasUintOverflow else a_ret (fst r))"

text \<open>Add to the cost a price per word of a size on the stack.\<close>

definition word_gas :: "nat \<Rightarrow> u64 \<Rightarrow> u64 \<Rightarrow> u64 act" where
  "word_gas stackpos price gas =
     a_bind (a_back stackpos) (\<lambda>size.
     a_bind (checked (Uint64WithOverflow size)) (\<lambda>words.
     a_bind (checked (SafeMul (toWordSize words) price)) (\<lambda>words.
     checked (SafeAdd gas words))))"

definition memoryCopierGas :: "nat \<Rightarrow> gas_fn" where
  "memoryCopierGas stackpos env memorySize = a_bind (a_memoryGas memorySize) (word_gas stackpos CopyGas)"

definition gasCallDataCopy :: gas_fn where "gasCallDataCopy = memoryCopierGas 2"
definition gasCodeCopy :: gas_fn where "gasCodeCopy = memoryCopierGas 2"
definition gasMcopy :: gas_fn where "gasMcopy = memoryCopierGas 2"
definition gasExtCodeCopy :: gas_fn where "gasExtCodeCopy = memoryCopierGas 3"
definition gasReturnDataCopy :: gas_fn where "gasReturnDataCopy = memoryCopierGas 2"

definition a_do_go :: "(StateDB \<Rightarrow> StateDB go) \<Rightarrow> unit act" where
  "a_do_go f = a_state (\<lambda>s. go_bind (f s) (\<lambda>s. Ret ((), s)))"

definition refund :: "u64 \<Rightarrow> unit act" where
  "refund g = a_do (AddRefund g)"

text \<open>
  The refunds for writing a slot that differs from its original value, which the three net-metered
  cost functions share: \<open>clears\<close> for deleting a slot, \<open>reset_clear\<close> and \<open>reset\<close> for restoring the
  original value.
\<close>

definition sstore_refunds :: "u64 \<Rightarrow> u64 \<Rightarrow> u64 \<Rightarrow> hash \<Rightarrow> hash \<Rightarrow> hash \<Rightarrow> unit act" where
  "sstore_refunds clears reset_clear reset original current val =
     a_bind (if original \<noteq> 0 then
               if current = 0 then a_do_go (SubRefund clears)
               else if val = 0 then refund clears else a_ret ()
             else a_ret ()) (\<lambda>_.
       if original = val then if original = 0 then refund reset_clear else refund reset
       else a_ret ())"

definition gasSStore :: gas_fn where
  "gasSStore env memorySize =
     a_bind (a_back 1) (\<lambda>y.
     a_bind (a_back 0) (\<lambda>x.
     a_bind a_self (\<lambda>self.
     a_bind (a_ask (GetState (env_db env) self x)) (\<lambda>current.
       if IsPetersburg (chainRules env) \<or> \<not> IsConstantinople (chainRules env) then
         if current = 0 \<and> y \<noteq> 0 then a_ret SstoreSetGas
         else if current \<noteq> 0 \<and> y = 0 then a_bind (refund SstoreRefundGas) (\<lambda>_. a_ret SstoreClearGas)
         else a_ret SstoreResetGas
       else if current = y then a_ret NetSstoreNoopGas
       else a_bind (a_ask (GetCommittedState (env_db env) self x)) (\<lambda>original.
         if original = current then
           if original = 0 then a_ret NetSstoreInitGas
           else a_bind (if y = 0 then refund NetSstoreClearRefund else a_ret ()) (\<lambda>_. a_ret NetSstoreCleanGas)
         else a_bind (sstore_refunds NetSstoreClearRefund NetSstoreResetClearRefund NetSstoreResetRefund
                        original current y) (\<lambda>_. a_ret NetSstoreDirtyGas))))))"

definition a_gas_left :: "u64 act" where
  "a_gas_left = a_frame (\<lambda>fr. c_Gas (fr_Contract fr))"

definition gasSStoreEIP2200 :: gas_fn where
  "gasSStoreEIP2200 env memorySize =
     a_bind a_gas_left (\<lambda>left.
     if left \<le> SstoreSentryGasEIP2200 then a_err ErrReentrancySentry
     else
     a_bind (a_back 1) (\<lambda>y.
     a_bind (a_back 0) (\<lambda>x.
     a_bind a_self (\<lambda>self.
     a_bind (a_ask (GetState (env_db env) self x)) (\<lambda>current.
       if current = y then a_ret SloadGasEIP2200
       else a_bind (a_ask (GetCommittedState (env_db env) self x)) (\<lambda>original.
         if original = current then
           if original = 0 then a_ret SstoreSetGasEIP2200
           else a_bind (if y = 0 then refund SstoreClearsScheduleRefundEIP2200 else a_ret ())
                  (\<lambda>_. a_ret SstoreResetGasEIP2200)
         else a_bind (sstore_refunds SstoreClearsScheduleRefundEIP2200 (SstoreSetGasEIP2200 - SloadGasEIP2200)
                        (SstoreResetGasEIP2200 - SloadGasEIP2200) original current y)
                (\<lambda>_. a_ret SloadGasEIP2200)))))))"

definition makeGasLog :: "u64 \<Rightarrow> gas_fn" where
  "makeGasLog n env memorySize =
     a_bind (a_back 1) (\<lambda>size.
     a_bind (checked (Uint64WithOverflow size)) (\<lambda>requestedSize.
     a_bind (a_memoryGas memorySize) (\<lambda>gas.
     a_bind (checked (SafeAdd gas LogGas)) (\<lambda>gas.
     a_bind (checked (SafeAdd gas (n * LogTopicGas))) (\<lambda>gas.
     a_bind (checked (SafeMul requestedSize LogDataGas)) (\<lambda>memorySizeGas.
     checked (SafeAdd gas memorySizeGas)))))))"

definition gasKeccak256 :: gas_fn where
  "gasKeccak256 env memorySize = a_bind (a_memoryGas memorySize) (word_gas 1 Keccak256WordGas)"

definition pureMemoryGascost :: gas_fn where
  "pureMemoryGascost env memorySize = a_memoryGas memorySize"

definition gasReturn :: gas_fn where "gasReturn = pureMemoryGascost"
definition gasRevert :: gas_fn where "gasRevert = pureMemoryGascost"
definition gasMLoad :: gas_fn where "gasMLoad = pureMemoryGascost"
definition gasMStore8 :: gas_fn where "gasMStore8 = pureMemoryGascost"
definition gasMStore :: gas_fn where "gasMStore = pureMemoryGascost"
definition gasCreate :: gas_fn where "gasCreate = pureMemoryGascost"

definition gasCreate2 :: gas_fn where
  "gasCreate2 env memorySize = a_bind (a_memoryGas memorySize) (word_gas 2 Keccak256WordGas)"

text \<open>The cost of init code since EIP-3860, with its size limit.\<close>

definition initcode_gas :: "u64 \<Rightarrow> u64 \<Rightarrow> u64 act" where
  "initcode_gas price memorySize =
     a_bind (a_memoryGas memorySize) (\<lambda>gas.
     a_bind (a_back 2) (\<lambda>size.
     let (size, overflow) = Uint64WithOverflow size in
     if overflow \<or> size > MaxInitCodeSize then a_err ErrGasUintOverflow
     else checked (SafeAdd gas (price * ((size + 31) div 32)))))"

definition gasCreateEip3860 :: gas_fn where
  "gasCreateEip3860 env memorySize = initcode_gas InitCodeWordGas memorySize"

definition gasCreate2Eip3860 :: gas_fn where
  "gasCreate2Eip3860 env memorySize = initcode_gas (InitCodeWordGas + Keccak256WordGas) memorySize"

definition exp_gas :: "u64 \<Rightarrow> gas_fn" where
  "exp_gas byte_price env memorySize =
     a_bind (a_back 1) (\<lambda>exponent.
     let expByteLen = word_of_nat ((u_BitLen (env_lib env) exponent + 7) div 8)
     in checked (SafeAdd (expByteLen * byte_price) ExpGas))"

definition gasExpFrontier :: gas_fn where "gasExpFrontier = exp_gas ExpByteFrontier"
definition gasExpEIP158 :: gas_fn where "gasExpEIP158 = exp_gas ExpByteEIP158"

text \<open>Set \<open>callGasTemp\<close> by the 63/64 rule and add it to the base cost.\<close>

definition call_gas :: "env \<Rightarrow> u64 \<Rightarrow> u64 act" where
  "call_gas env gas =
     a_bind a_gas_left (\<lambda>left.
     a_bind (a_back 0) (\<lambda>requested.
     case callGas (IsEIP150 (chainRules env)) left gas requested of
       Inl err \<Rightarrow> a_bind (a_callGasTemp 0) (\<lambda>_. a_err err)
     | Inr temp \<Rightarrow> a_bind (a_callGasTemp temp) (\<lambda>_. checked (SafeAdd gas temp))))"

text \<open>The part of the cost of a call that depends on the called account being new.\<close>

definition new_account_gas :: "env \<Rightarrow> bool \<Rightarrow> address \<Rightarrow> u64 act" where
  "new_account_gas env transfersValue address =
     (if IsEIP158 (chainRules env) then
        if transfersValue then a_bind (a_ask (Empty (env_db env) address))
          (\<lambda>empty. a_ret (if empty then CallNewAccountGas else 0))
        else a_ret 0
      else a_bind (a_ask (Exist (env_db env) address))
             (\<lambda>exist. a_ret (if \<not> exist then CallNewAccountGas else 0)))"

definition gasCall :: gas_fn where
  "gasCall env memorySize =
     a_bind (a_back 2) (\<lambda>val.
     a_bind (a_back 1) (\<lambda>addr.
     let transfersValue = (val \<noteq> 0); address = Bytes20 addr in
     a_bind (new_account_gas env transfersValue address) (\<lambda>gas.
     let gas = (if transfersValue then gas + CallValueTransferGas else gas) in
     a_bind (a_memoryGas memorySize) (\<lambda>memoryGas.
     a_bind (checked (SafeAdd gas memoryGas)) (call_gas env)))))"

definition gasCallCode :: gas_fn where
  "gasCallCode env memorySize =
     a_bind (a_memoryGas memorySize) (\<lambda>memoryGas.
     a_bind (a_back 2) (\<lambda>val.
     let gas = (if val \<noteq> 0 then CallValueTransferGas else 0) in
     a_bind (checked (SafeAdd gas memoryGas)) (call_gas env)))"

definition gasDelegateCall :: gas_fn where
  "gasDelegateCall env memorySize = a_bind (a_memoryGas memorySize) (call_gas env)"

definition gasStaticCall :: gas_fn where
  "gasStaticCall env memorySize = a_bind (a_memoryGas memorySize) (call_gas env)"

text \<open>\<open>StateDB.Empty(address) && StateDB.GetBalance(self).Sign() != 0\<close>, evaluated from the left.\<close>

definition empty_and_pays :: "env \<Rightarrow> address \<Rightarrow> address \<Rightarrow> bool act" where
  "empty_and_pays env address self =
     a_bind (a_ask (Empty (env_db env) address)) (\<lambda>empty.
       if empty then a_bind (a_ask (GetBalance (env_db env) self)) (\<lambda>b. a_ret (b \<noteq> 0)) else a_ret False)"

definition gasSelfdestruct :: gas_fn where
  "gasSelfdestruct env memorySize =
     a_bind a_self (\<lambda>self.
     a_bind (if IsEIP150 (chainRules env) then
               a_bind (a_back 0) (\<lambda>addr.
               let address = Bytes20 addr in
               if IsEIP158 (chainRules env) then
                 a_bind (empty_and_pays env address self) (\<lambda>b.
                   a_ret (if b then SelfdestructGasEIP150 + CreateBySelfdestructGas else SelfdestructGasEIP150))
               else a_bind (a_ask (Exist (env_db env) address)) (\<lambda>exist.
                   a_ret (if \<not> exist then SelfdestructGasEIP150 + CreateBySelfdestructGas else SelfdestructGasEIP150)))
             else a_ret 0) (\<lambda>gas.
     a_bind (a_ask (HasSelfDestructed (env_db env) self)) (\<lambda>destructed.
     a_bind (if \<not> destructed then refund SelfdestructRefundGas else a_ret ()) (\<lambda>_. a_ret gas))))"

section \<open>core/vm/operations_acl.go\<close>

definition a_slot_warm :: "address \<Rightarrow> hash \<Rightarrow> (bool \<times> bool) act" where
  "a_slot_warm a k = a_state (\<lambda>s. go_bind (SlotInAccessList a k s) (\<lambda>r. Ret (r, s)))"

definition a_address_warm :: "address \<Rightarrow> bool act" where
  "a_address_warm a = a_ask (\<lambda>s. (AddressInAccessList a s, s))"

definition makeGasSStoreFunc :: "u64 \<Rightarrow> gas_fn" where
  "makeGasSStoreFunc clearingRefund env memorySize =
     a_bind a_gas_left (\<lambda>left.
     if left \<le> SstoreSentryGasEIP2200 then a_err ErrReentrancySentry
     else
     a_bind (a_back 1) (\<lambda>y.
     a_bind a_peek (\<lambda>x.
     a_bind a_self (\<lambda>self.
     a_bind (a_ask (GetState (env_db env) self x)) (\<lambda>current.
     a_bind (a_slot_warm self x) (\<lambda>(addrPresent, slotPresent).
     a_bind (if \<not> slotPresent then
               a_bind (a_do_go (AddSlotToAccessList self x)) (\<lambda>_.
                 if \<not> addrPresent then a_panic AddressNotInAccessList else a_ret ColdSloadCostEIP2929)
             else a_ret 0) (\<lambda>cost.
       if current = y then a_ret (cost + WarmStorageReadCostEIP2929)
       else a_bind (a_ask (GetCommittedState (env_db env) self x)) (\<lambda>original.
         if original = current then
           if original = 0 then a_ret (cost + SstoreSetGasEIP2200)
           else a_bind (if y = 0 then refund clearingRefund else a_ret ())
                  (\<lambda>_. a_ret (cost + (SstoreResetGasEIP2200 - ColdSloadCostEIP2929)))
         else a_bind (sstore_refunds clearingRefund (SstoreSetGasEIP2200 - WarmStorageReadCostEIP2929)
                        ((SstoreResetGasEIP2200 - ColdSloadCostEIP2929) - WarmStorageReadCostEIP2929)
                        original current y)
                (\<lambda>_. a_ret (cost + WarmStorageReadCostEIP2929))))))))))"

definition gasSLoadEIP2929 :: gas_fn where
  "gasSLoadEIP2929 env memorySize =
     a_bind a_peek (\<lambda>slot.
     a_bind a_self (\<lambda>self.
     a_bind (a_slot_warm self slot) (\<lambda>(addrPresent, slotPresent).
       if \<not> slotPresent then a_bind (a_do_go (AddSlotToAccessList self slot)) (\<lambda>_. a_ret ColdSloadCostEIP2929)
       else a_ret WarmStorageReadCostEIP2929)))"

definition gasExtCodeCopyEIP2929 :: gas_fn where
  "gasExtCodeCopyEIP2929 env memorySize =
     a_bind (gasExtCodeCopy env memorySize) (\<lambda>gas.
     a_bind a_peek (\<lambda>addr.
     a_bind (a_address_warm (Bytes20 addr)) (\<lambda>warm.
       if \<not> warm then
         a_bind (a_do (AddAddressToAccessList (Bytes20 addr))) (\<lambda>_.
           checked (SafeAdd gas (ColdAccountAccessCostEIP2929 - WarmStorageReadCostEIP2929)))
       else a_ret gas)))"

definition gasEip2929AccountCheck :: gas_fn where
  "gasEip2929AccountCheck env memorySize =
     a_bind a_peek (\<lambda>addr.
     a_bind (a_address_warm (Bytes20 addr)) (\<lambda>warm.
       if \<not> warm then
         a_bind (a_do (AddAddressToAccessList (Bytes20 addr))) (\<lambda>_.
           a_ret (ColdAccountAccessCostEIP2929 - WarmStorageReadCostEIP2929))
       else a_ret 0))"

definition makeCallVariantGasCallEIP2929 :: "gas_fn \<Rightarrow> gas_fn" where
  "makeCallVariantGasCallEIP2929 oldCalculator env memorySize =
     a_bind (a_back 1) (\<lambda>addr.
     a_bind (a_address_warm (Bytes20 addr)) (\<lambda>warmAccess.
     let coldCost = ColdAccountAccessCostEIP2929 - WarmStorageReadCostEIP2929 in
     a_bind (if \<not> warmAccess then
               a_bind (a_do (AddAddressToAccessList (Bytes20 addr))) (\<lambda>_.
               a_bind (a_use_gas coldCost) (\<lambda>ok. if \<not> ok then a_err ErrOutOfGas else a_ret ()))
             else a_ret ()) (\<lambda>_.
     a_bind (oldCalculator env memorySize) (\<lambda>gas.
       if warmAccess then a_ret gas
       else a_bind (a_add_gas coldCost) (\<lambda>_. checked (SafeAdd gas coldCost))))))"

definition makeSelfdestructGasFn :: "bool \<Rightarrow> gas_fn" where
  "makeSelfdestructGasFn refundsEnabled env memorySize =
     a_bind a_peek (\<lambda>addr.
     let address = Bytes20 addr in
     a_bind a_self (\<lambda>self.
     a_bind (a_address_warm address) (\<lambda>warm.
     a_bind (if \<not> warm then a_bind (a_do (AddAddressToAccessList address)) (\<lambda>_. a_ret ColdAccountAccessCostEIP2929)
             else a_ret 0) (\<lambda>gas.
     a_bind (empty_and_pays env address self) (\<lambda>b.
     let gas = (if b then gas + CreateBySelfdestructGas else gas) in
     a_bind (if refundsEnabled then
               a_bind (a_ask (HasSelfDestructed (env_db env) self)) (\<lambda>destructed.
                 if \<not> destructed then refund SelfdestructRefundGas else a_ret ())
             else a_ret ()) (\<lambda>_. a_ret gas))))))"

definition gasCallEIP2929 :: gas_fn where "gasCallEIP2929 = makeCallVariantGasCallEIP2929 gasCall"
definition gasDelegateCallEIP2929 :: gas_fn where "gasDelegateCallEIP2929 = makeCallVariantGasCallEIP2929 gasDelegateCall"
definition gasStaticCallEIP2929 :: gas_fn where "gasStaticCallEIP2929 = makeCallVariantGasCallEIP2929 gasStaticCall"
definition gasCallCodeEIP2929 :: gas_fn where "gasCallCodeEIP2929 = makeCallVariantGasCallEIP2929 gasCallCode"
definition gasSelfdestructEIP2929 :: gas_fn where "gasSelfdestructEIP2929 = makeSelfdestructGasFn True"
definition gasSelfdestructEIP3529 :: gas_fn where "gasSelfdestructEIP3529 = makeSelfdestructGasFn False"
definition gasSStoreEIP2929 :: gas_fn where "gasSStoreEIP2929 = makeGasSStoreFunc SstoreClearsScheduleRefundEIP2200"
definition gasSStoreEIP3529 :: gas_fn where "gasSStoreEIP3529 = makeGasSStoreFunc SstoreClearsScheduleRefundEIP3529"

section \<open>Gas functions respect every relation of the instructions\<close>

context evm_relation begin

lemma pres_checked: "pres R (checked r)"
  by (simp add: checked_def pres_rules)

lemma pres_memoryGas: "pres R (a_memoryGas n)"
  by (auto intro!: presI R_refl R_memory simp: a_memoryGas_def split: sum.splits)

lemma pres_state_ops:
  "pres R (a_do_go (SubRefund g))" "pres R (a_do_go (AddSlotToAccessList a k))" "pres R (a_slot_warm a k)"
  "pres R (a_address_warm a)" "pres R (refund g)" "pres R a_gas_left"
  unfolding a_do_go_def a_slot_warm_def a_address_warm_def refund_def a_gas_left_def
  by (rule pres_state, auto dest: aux_refund aux_access intro: aux_same)+
    (auto intro!: pres_ask pres_base intro: aux_same)

lemma pres_word_gas: "pres R (word_gas n price gas)"
  unfolding word_gas_def by (intro pres_rules pres_checked)

lemmas pres_gas_parts = pres_checked pres_memoryGas pres_state_ops pres_word_gas

lemma pres_gas_pieces:
  "pres R (sstore_refunds c1 c2 c3 h1 h2 h3)" "pres R (initcode_gas price n)" "pres R (exp_gas price env n)"
  "pres R (call_gas env g)" "pres R (empty_and_pays env a1 a2)"
  unfolding sstore_refunds_def initcode_gas_def exp_gas_def call_gas_def empty_and_pays_def
  by (intro pres_base pres_gas_parts)+

lemma pres_gas_simple:
  "pres R (memoryCopierGas k env n)" "pres R (gasCallDataCopy env n)" "pres R (gasCodeCopy env n)"
  "pres R (gasMcopy env n)" "pres R (gasExtCodeCopy env n)" "pres R (gasReturnDataCopy env n)"
  "pres R (makeGasLog t env n)" "pres R (gasKeccak256 env n)" "pres R (gasReturn env n)" "pres R (gasRevert env n)"
  "pres R (gasMLoad env n)" "pres R (gasMStore8 env n)" "pres R (gasMStore env n)" "pres R (gasCreate env n)"
  "pres R (gasCreate2 env n)" "pres R (gasCreateEip3860 env n)" "pres R (gasCreate2Eip3860 env n)"
  "pres R (gasExpFrontier env n)" "pres R (gasExpEIP158 env n)"
  unfolding gasCallDataCopy_def gasCodeCopy_def gasMcopy_def gasExtCodeCopy_def gasReturnDataCopy_def
    memoryCopierGas_def makeGasLog_def gasKeccak256_def gasReturn_def gasRevert_def gasMLoad_def gasMStore8_def
    gasMStore_def gasCreate_def pureMemoryGascost_def gasCreate2_def gasCreateEip3860_def gasCreate2Eip3860_def
    gasExpFrontier_def gasExpEIP158_def
  by (intro pres_rules pres_gas_parts pres_gas_pieces)+

lemma pres_gas_sstore:
  "pres R (gasSStore env n)" "pres R (gasSStoreEIP2200 env n)" "pres R (makeGasSStoreFunc g env n)"
  "pres R (gasSStoreEIP2929 env n)" "pres R (gasSStoreEIP3529 env n)"
  unfolding gasSStore_def gasSStoreEIP2200_def gasSStoreEIP2929_def gasSStoreEIP3529_def makeGasSStoreFunc_def
  by (intro pres_base pres_gas_parts pres_gas_pieces)+

lemma pres_gas_access:
  "pres R (gasSLoadEIP2929 env n)" "pres R (gasExtCodeCopyEIP2929 env n)" "pres R (gasEip2929AccountCheck env n)"
  "pres R (gasSelfdestruct env n)" "pres R (makeSelfdestructGasFn b env n)"
  "pres R (gasSelfdestructEIP2929 env n)" "pres R (gasSelfdestructEIP3529 env n)"
  unfolding gasSLoadEIP2929_def gasExtCodeCopyEIP2929_def gasEip2929AccountCheck_def gasSelfdestruct_def
    gasSelfdestructEIP2929_def gasSelfdestructEIP3529_def makeSelfdestructGasFn_def
  by (intro pres_base pres_gas_parts pres_gas_pieces pres_gas_simple)+

lemma pres_gas_calls:
  "pres R (gasCall env n)" "pres R (gasCallCode env n)" "pres R (gasDelegateCall env n)" "pres R (gasStaticCall env n)"
  unfolding gasCall_def new_account_gas_def gasCallCode_def gasDelegateCall_def gasStaticCall_def
  by (intro pres_base pres_gas_parts pres_gas_pieces)+

lemmas pres_gas = pres_gas_simple pres_gas_sstore pres_gas_access pres_gas_calls

end

section \<open>Gas functions stay inside the stack\<close>

lemma no_stack_panic_state [simp]:
  "no_stack_panic (SubRefund g s)" "no_stack_panic (AddSlotToAccessList a k s)" "no_stack_panic (SlotInAccessList a k s)"
  by (auto simp: no_stack_panic_def SubRefund_def AddSlotToAccessList_def SlotInAccessList_def AddSlot_def Contains_def
      slots_at_def Let_def nth_go_def split: if_splits option.splits prod.splits)

lemma stk_gas_parts:
  "stk l (checked r) l" "stk l (a_memoryGas n) l" "stk l (a_do_go (SubRefund g)) l"
  "stk l (a_do_go (AddSlotToAccessList a k)) l" "stk l (a_slot_warm a k) l" "stk l (a_address_warm a) l"
  "stk l (refund g) l" "stk l a_gas_left l"
  by (auto intro!: stk_rules no_stack_panic_bind simp: checked_def a_do_go_def a_slot_warm_def a_address_warm_def
      refund_def a_gas_left_def)
    (auto intro!: stkI simp: a_memoryGas_def split: sum.splits)

lemma stk_gas_pieces:
  "n < l \<Longrightarrow> stk l (word_gas n price gas) l" "stk l (sstore_refunds c1 c2 c3 h1 h2 h3) l"
  "2 < l \<Longrightarrow> stk l (initcode_gas price m) l" "1 < l \<Longrightarrow> stk l (exp_gas price env m) l"
  "0 < l \<Longrightarrow> stk l (call_gas env gas) l" "stk l (empty_and_pays env a1 a2) l"
  unfolding word_gas_def sstore_refunds_def initcode_gas_def exp_gas_def call_gas_def empty_and_pays_def
  by - (rule stk_rules stk_gas_parts | (simp; fail))+

text \<open>The height of the stack that a gas function needs.\<close>

definition gas_needs :: "nat \<Rightarrow> gas_fn \<Rightarrow> bool" where
  "gas_needs k g \<longleftrightarrow> (\<forall>env n l. k \<le> l \<longrightarrow> stk l (g env n) l)"

lemma stk_peek: "0 < l \<Longrightarrow> stk l a_peek l"
  using stk_simple(17) [of "l - 1"] by simp

lemma gas_needs_all:
  "gas_needs 3 gasCallDataCopy" "gas_needs 3 gasCodeCopy" "gas_needs 3 gasMcopy" "gas_needs 4 gasExtCodeCopy"
  "gas_needs 3 gasReturnDataCopy" "gas_needs 2 gasSStore" "gas_needs 2 gasSStoreEIP2200"
  "gas_needs 2 (makeGasLog t)" "gas_needs 2 gasKeccak256" "gas_needs 0 gasReturn" "gas_needs 0 gasRevert"
  "gas_needs 0 gasMLoad" "gas_needs 0 gasMStore8" "gas_needs 0 gasMStore" "gas_needs 0 gasCreate"
  "gas_needs 3 gasCreate2" "gas_needs 3 gasCreateEip3860" "gas_needs 3 gasCreate2Eip3860"
  "gas_needs 2 gasExpFrontier" "gas_needs 2 gasExpEIP158" "gas_needs 3 gasCall" "gas_needs 3 gasCallCode"
  "gas_needs 1 gasDelegateCall" "gas_needs 1 gasStaticCall" "gas_needs 1 gasSelfdestruct"
  unfolding gas_needs_def gasCallDataCopy_def gasCodeCopy_def gasMcopy_def gasExtCodeCopy_def gasReturnDataCopy_def
    memoryCopierGas_def makeGasLog_def gasKeccak256_def gasReturn_def gasRevert_def gasMLoad_def gasMStore8_def
    gasMStore_def gasCreate_def pureMemoryGascost_def gasCreate2_def gasCreateEip3860_def gasCreate2Eip3860_def
    gasExpFrontier_def gasExpEIP158_def gasSStore_def gasSStoreEIP2200_def gasCall_def gasCallCode_def
    new_account_gas_def     gasDelegateCall_def gasStaticCall_def gasSelfdestruct_def
  by - (rule allI impI stk_rules stk_gas_parts stk_gas_pieces | (simp; fail))+

lemma gas_needs_acl:
  "gas_needs 2 (makeGasSStoreFunc r)" "gas_needs 1 gasSLoadEIP2929" "gas_needs 4 gasExtCodeCopyEIP2929"
  "gas_needs 1 gasEip2929AccountCheck" "gas_needs 1 (makeSelfdestructGasFn b)"
  unfolding gas_needs_def gasExtCodeCopyEIP2929_def gasExtCodeCopy_def memoryCopierGas_def
    makeGasSStoreFunc_def gasSLoadEIP2929_def gasEip2929AccountCheck_def makeSelfdestructGasFn_def
  by - (rule allI impI stk_bind stk_peek stk_back stk_simple(1-16) stk_mask stk_if stk_case_prod stk_let stk_panic
      stk_gas_parts stk_gas_pieces | (simp; fail))+

lemma gas_needsD: "gas_needs k g \<Longrightarrow> k \<le> l \<Longrightarrow> stk l (g env n) l"
  by (simp add: gas_needs_def)

lemma gas_needs_call_variant:
  assumes g: "gas_needs k g"
  shows "gas_needs (max 2 k) (makeCallVariantGasCallEIP2929 g)"
  unfolding gas_needs_def makeCallVariantGasCallEIP2929_def
  by - (rule allI impI stk_rules stk_gas_parts gas_needsD [OF g] | (simp; fail))+

section \<open>Amounts\<close>

text \<open>\<open>ret_all P m\<close>: a value that the action \<open>m\<close> returns without an error satisfies \<open>P\<close>.\<close>

definition ret_all :: "('a \<Rightarrow> bool) \<Rightarrow> 'a act \<Rightarrow> bool" where
  "ret_all P m \<longleftrightarrow> (\<forall>e fr x e' fr'. m e fr = Ret (Inr x, e', fr') \<longrightarrow> P x)"

lemma ret_allD: "ret_all P m \<Longrightarrow> m e fr = Ret (Inr x, e', fr') \<Longrightarrow> P x"
  unfolding ret_all_def by blast

lemma ret_all_bind2: "ret_all Q m \<Longrightarrow> (\<And>x. Q x \<Longrightarrow> ret_all P (f x)) \<Longrightarrow> ret_all P (a_bind m f)"
  unfolding ret_all_def a_bind_Ret by blast

lemma ret_all_bind: "(\<And>x. ret_all P (f x)) \<Longrightarrow> ret_all P (a_bind m f)"
  unfolding ret_all_def a_bind_Ret by blast

lemma ret_all_simple:
  "P x \<Longrightarrow> ret_all P (a_ret x)" "ret_all P (a_fail err d)" "ret_all P (a_err err)" "ret_all P (a_panic p)"
  by (auto simp: ret_all_def a_ret_def a_fail_def a_err_def a_panic_def)

lemma ret_all_if: "(b \<Longrightarrow> ret_all P m) \<Longrightarrow> (\<not> b \<Longrightarrow> ret_all P m') \<Longrightarrow> ret_all P (if b then m else m')"
  by simp

lemma ret_all_case_prod: "(\<And>x y. ret_all P (f x y)) \<Longrightarrow> ret_all P (case p of (x, y) \<Rightarrow> f x y)"
  by (cases p) simp

lemma ret_all_let: "ret_all P (f t) \<Longrightarrow> ret_all P (let x = t in f x)"
  by (simp add: Let_def)

lemma checked_add: "0 < a \<or> 0 < b \<Longrightarrow> ret_all (\<lambda>c. 0 < c) (checked (SafeAdd a b))"
proof -
  assume ab: "0 < a \<or> 0 < b"
  have "0 < a + b" if "\<not> unat a + unat b \<ge> 2 ^ 64"
  proof -
    have "unat (a + b) = unat a + unat b" using that by (simp add: unat_add_no_overflow)
    then show ?thesis using ab by (simp add: word_less_nat_alt)
  qed
  then show ?thesis by (auto simp: checked_def SafeAdd_def intro: ret_all_simple)
qed

lemmas ret_all_rules = ret_all_bind ret_all_simple ret_all_if ret_all_case_prod ret_all_let

text \<open>A dynamic cost that is never 0.\<close>

definition charges :: "gas_fn \<Rightarrow> bool" where
  "charges g \<longleftrightarrow> (\<forall>env n. ret_all (\<lambda>cost. 0 < cost) (g env n))"

lemma charges_all:
  "charges gasSStore" "charges gasSStoreEIP2200" "charges gasExpFrontier" "charges gasExpEIP158"
  "charges (makeGasLog t)" "charges gasSLoadEIP2929" "charges (makeGasSStoreFunc r)"
proof -
  show "charges gasSStore" "charges gasSStoreEIP2200" "charges gasSLoadEIP2929"
    unfolding charges_def gasSStore_def gasSStoreEIP2200_def gasSLoadEIP2929_def
    by - (rule allI ret_all_rules | (simp; fail))+
  show "charges gasExpFrontier" "charges gasExpEIP158"
    unfolding charges_def gasExpFrontier_def gasExpEIP158_def exp_gas_def
    by - (rule allI ret_all_rules checked_add | (simp; fail))+
  have log: "ret_all (\<lambda>c. 0 < c) (a_bind (checked (SafeAdd g p)) f)"
    if "\<And>g. 0 < g \<Longrightarrow> ret_all (\<lambda>c. 0 < c) (f g)" "0 < g \<or> 0 < p" for g p and f :: "u64 \<Rightarrow> u64 act"
    using ret_all_bind2 [OF checked_add, OF that(2,1)] .
  show "charges (makeGasLog t)"
    unfolding charges_def makeGasLog_def
    by (intro allI) (rule ret_all_bind, rule ret_all_bind, rule ret_all_bind, rule log, rule log,
      (rule ret_all_rules checked_add | (simp; fail))+)
  have cold: "ret_all (\<lambda>c. c = 0 \<or> c = ColdSloadCostEIP2929)
      (if \<not> slotPresent then a_bind (a_do_go (AddSlotToAccessList self x)) (\<lambda>_.
         if \<not> addrPresent then a_panic AddressNotInAccessList else a_ret ColdSloadCostEIP2929) else a_ret 0)"
    for slotPresent addrPresent self x
    by (rule ret_all_rules | (simp; fail))+
  show "charges (makeGasSStoreFunc r)"
    unfolding charges_def makeGasSStoreFunc_def
    by (intro allI) (rule ret_all_bind2 [OF cold] ret_all_rules | (auto; fail))+
qed

text \<open>When the primitive actions return, and what.\<close>

lemma act_Ret:
  "a_ret x e fr = Ret (r0, e', fr') \<longleftrightarrow> r0 = Inr x \<and> e' = e \<and> fr' = fr"
  "a_fail err d e fr = Ret (r1, e', fr') \<longleftrightarrow> r1 = Inl (err, d) \<and> e' = e \<and> fr' = fr"
  "a_err err e fr = Ret (r2, e', fr') \<longleftrightarrow> r2 = Inl (err, []) \<and> e' = e \<and> fr' = fr"
  "a_panic p e fr \<noteq> Ret (r3, e', fr')"
  "a_back n e fr = Ret (r4, e', fr') \<longleftrightarrow> n < length (fr_Stack fr) \<and> r4 = Inr (fr_Stack fr ! n) \<and> e' = e \<and> fr' = fr"
  "a_self e fr = Ret (r5, e', fr') \<longleftrightarrow> r5 = Inr (c_self (fr_Contract fr)) \<and> e' = e \<and> fr' = fr"
  "a_frame g e fr = Ret (r6, e', fr') \<longleftrightarrow> r6 = Inr (g fr) \<and> e' = e \<and> fr' = fr"
  "a_evm h e fr = Ret (r7, e', fr') \<longleftrightarrow> r7 = Inr (h e) \<and> e' = e \<and> fr' = fr"
  "a_gas_left e fr = Ret (r8, e', fr') \<longleftrightarrow> r8 = Inr (c_Gas (fr_Contract fr)) \<and> e' = e \<and> fr' = fr"
  "a_callGasTemp t e fr = Ret (r9, e', fr') \<longleftrightarrow> r9 = Inr () \<and> e' = e\<lparr>callGasTemp := t\<rparr> \<and> fr' = fr"
  "checked w e fr = Ret (r10, e', fr') \<longleftrightarrow>
     r10 = (if snd w then Inl (ErrGasUintOverflow, []) else Inr (fst w)) \<and> e' = e \<and> fr' = fr"
  "a_add_gas t e fr = Ret (r11, e', fr') \<longleftrightarrow> r11 = Inr () \<and> e' = e \<and>
     fr' = fr\<lparr>fr_Contract := (fr_Contract fr)\<lparr>c_Gas := c_Gas (fr_Contract fr) + t\<rparr>\<rparr>"
  "a_use_gas t e fr = Ret (r12, e', fr') \<longleftrightarrow> r12 = Inr (fst (UseGas t (fr_Contract fr))) \<and> e' = e \<and>
     fr' = fr\<lparr>fr_Contract := snd (UseGas t (fr_Contract fr))\<rparr>"
  by (auto simp: a_ret_def a_fail_def a_err_def a_panic_def a_back_def Back_def a_self_def a_frame_def a_evm_def
      a_gas_left_def a_callGasTemp_def checked_def a_add_gas_def a_use_gas_def split: prod.splits)

lemma act_Ret_state:
  "a_ask q e fr = Ret (r0, e', fr') \<longleftrightarrow>
     r0 = Inr (fst (q (evm_StateDB e))) \<and> e' = e\<lparr>evm_StateDB := snd (q (evm_StateDB e))\<rparr> \<and> fr' = fr"
  "a_do d e fr = Ret (r1, e', fr') \<longleftrightarrow> r1 = Inr () \<and> e' = e\<lparr>evm_StateDB := d (evm_StateDB e)\<rparr> \<and> fr' = fr"
  "a_address_warm a e fr = Ret (r2, e', fr') \<longleftrightarrow> r2 = Inr (AddressInAccessList a (evm_StateDB e)) \<and> e' = e \<and> fr' = fr"
  by (auto simp: a_ask_def a_do_def a_state_def a_address_warm_def case_prod_beta)

text \<open>
  The costs of calls: the frame keeps its gas and its stack, and the cost covers the gas handed to
  the callee plus, for a call that transfers value, the transfer cost.
\<close>

lemma call_gas_spec:
  "call_gas env gas e fr = Ret (Inr cost, e', fr') \<Longrightarrow>
     fr' = fr \<and> unat cost = unat gas + unat (callGasTemp e')"
  by (auto simp: call_gas_def a_bind_Ret act_Ret SafeAdd_def unat_add_no_overflow split: sum.splits if_splits)

definition call_cost :: "bool \<Rightarrow> gas_fn \<Rightarrow> bool" where
  "call_cost transfers g \<longleftrightarrow> (\<forall>env n e fr cost e' fr'. g env n e fr = Ret (Inr cost, e', fr') \<longrightarrow>
     c_Gas (fr_Contract fr') = c_Gas (fr_Contract fr) \<and> fr_Stack fr' = fr_Stack fr \<and>
     unat (callGasTemp e') + (if transfers \<and> fr_Stack fr ! 2 \<noteq> 0 then 9000 else 0) \<le> unat cost)"

lemma memoryGas_fields:
  "a_memoryGas n e fr = Ret (r, e', fr') \<Longrightarrow> fr_Contract fr' = fr_Contract fr \<and> fr_Stack fr' = fr_Stack fr \<and> e' = e"
  by (auto simp: a_memoryGas_def split: sum.splits)

lemma checked_add_ge:
  "checked (SafeAdd a b) e fr = Ret (Inr c, e', fr') \<Longrightarrow> unat c = unat a + unat b \<and> e' = e \<and> fr' = fr"
  by (auto simp: act_Ret SafeAdd_def unat_add_no_overflow split: if_splits)

lemma call_cost_simple: "call_cost False gasDelegateCall" "call_cost False gasStaticCall"
  by (auto simp: call_cost_def gasDelegateCall_def gasStaticCall_def a_bind_Ret
      dest!: call_gas_spec memoryGas_fields)

text \<open>The last steps of \<open>gasCall\<close> and \<open>gasCallCode\<close>.\<close>

lemma call_cost_tail:
  assumes "a_bind (checked (SafeAdd gas memoryGas)) (call_gas env) e fr = Ret (Inr cost, e', fr')"
  shows "fr' = fr \<and> unat gas + unat (callGasTemp e') \<le> unat cost"
  using assms by (auto simp: a_bind_Ret dest!: checked_add_ge call_gas_spec)

lemma call_cost_CallCode: "call_cost True gasCallCode"
  by (auto simp: call_cost_def gasCallCode_def a_bind_Ret [where m = "a_memoryGas n" for n]
      a_bind_Ret [where m = "a_back n" for n] act_Ret Let_def
      dest!: memoryGas_fields call_cost_tail split: if_splits)

lemma new_account_gas_spec:
  "new_account_gas env t a e fr = Ret (Inr gas, e', fr') \<Longrightarrow> (gas = 0 \<or> gas = CallNewAccountGas) \<and> fr' = fr"
  by (auto simp: new_account_gas_def a_bind_Ret act_Ret act_Ret_state split: if_splits)

lemma call_cost_Call: "call_cost True gasCall"
  unfolding call_cost_def
proof (intro allI impI)
  fix env n e fr cost e' fr'
  assume "gasCall env n e fr = Ret (Inr cost, e', fr')"
  then obtain gas e1 fr1 mg e2 fr2 where
    1: "new_account_gas env (fr_Stack fr ! 2 \<noteq> 0) (Bytes20 (fr_Stack fr ! 1)) e fr = Ret (Inr gas, e1, fr1)"
    "a_memoryGas n e1 fr1 = Ret (Inr mg, e2, fr2)"
    "a_bind (checked (SafeAdd (if fr_Stack fr ! 2 \<noteq> 0 then gas + CallValueTransferGas else gas) mg)) (call_gas env) e2 fr2 =
       Ret (Inr cost, e', fr')"
    unfolding gasCall_def a_bind_Ret [where m = "a_memoryGas n" for n] Let_def
      a_bind_Ret [where m = "a_back n" for n] a_bind_Ret [where m = "new_account_gas env t a" for t a]
    by (auto simp: act_Ret)
  show "c_Gas (fr_Contract fr') = c_Gas (fr_Contract fr) \<and> fr_Stack fr' = fr_Stack fr \<and>
    unat (callGasTemp e') + (if True \<and> fr_Stack fr ! 2 \<noteq> 0 then 9000 else 0) \<le> unat cost"
    using memoryGas_fields [OF 1(2)] call_cost_tail [OF 1(3)] new_account_gas_spec [OF 1(1)] by (auto split: if_splits)
qed

lemma call_cost_variant:
  assumes "call_cost t g"
  shows "call_cost t (makeCallVariantGasCallEIP2929 g)"
  unfolding call_cost_def
proof (intro allI impI)
  fix env n e fr cost e' fr'
  assume "makeCallVariantGasCallEIP2929 g env n e fr = Ret (Inr cost, e', fr')"
  then consider (warm) "g env n e fr = Ret (Inr cost, e', fr')"
    | (cold) fr1 e1 e2 fr2 gas where "fr1 = fr\<lparr>fr_Contract := snd (UseGas 2500 (fr_Contract fr))\<rparr>"
      "fst (UseGas 2500 (fr_Contract fr))" "g env n e1 fr1 = Ret (Inr gas, e2, fr2)"
      "e' = e2" "fr' = fr2\<lparr>fr_Contract := (fr_Contract fr2)\<lparr>c_Gas := c_Gas (fr_Contract fr2) + 2500\<rparr>\<rparr>"
      "checked (SafeAdd gas 2500) e' fr' = Ret (Inr cost, e', fr')"
    by (auto simp: makeCallVariantGasCallEIP2929_def a_bind_Ret act_Ret act_Ret_state Let_def split: if_splits)
  then show "c_Gas (fr_Contract fr') = c_Gas (fr_Contract fr) \<and> fr_Stack fr' = fr_Stack fr \<and>
    unat (callGasTemp e') + (if t \<and> fr_Stack fr ! 2 \<noteq> 0 then 9000 else 0) \<le> unat cost"
  proof cases
    case warm
    then show ?thesis using assms unfolding call_cost_def by blast
  next
    case cold
    then have "c_Gas (fr_Contract fr2) = c_Gas (fr_Contract fr1) \<and> fr_Stack fr2 = fr_Stack fr1 \<and>
      unat (callGasTemp e2) + (if t \<and> fr_Stack fr1 ! 2 \<noteq> 0 then 9000 else 0) \<le> unat gas"
      using assms unfolding call_cost_def by blast
    then show ?thesis using cold checked_add_ge [OF cold(6)]
      by (auto simp: UseGas_def split: if_splits)
  qed
qed

section \<open>Memory expansion\<close>

text \<open>The fee of a memory of \<open>w\<close> words: linear and, above 724 bytes, quadratic.\<close>

definition mem_fee :: "nat \<Rightarrow> nat" where
  "mem_fee w = 3 * w + w * w div 512"

definition mem_words :: "memory \<Rightarrow> nat" where
  "mem_words m = mem_Len m div 32"

text \<open>The memory is a whole number of words, for which the fee recorded in it has been paid.\<close>

definition mem_paid :: "memory \<Rightarrow> bool" where
  "mem_paid m \<longleftrightarrow> 32 dvd mem_Len m \<and> mem_Len m \<le> 0x1FFFFFFFE0 \<and> unat (lastGasCost m) = mem_fee (mem_words m)"

lemma mem_fee_mono: "v \<le> w \<Longrightarrow> mem_fee v \<le> mem_fee w"
  unfolding mem_fee_def by (intro add_mono div_le_mono mult_le_mono) auto

lemma diff_telescope: "a \<le> b \<Longrightarrow> b \<le> c \<Longrightarrow> (b - a) + (c - b) = c - (a :: nat)"
  by simp

lemma mem_paid_New [simp]: "mem_paid NewMemory"
  by (simp add: mem_paid_def NewMemory_def mem_words_def mem_Len_def mem_fee_def)

lemma fee_words:
  assumes "unat w < 2 ^ 32"
  shows "unat (w * MemoryGas + (w * w) div QuadCoeffDiv :: u64) = mem_fee (unat w)"
proof -
  have q: "unat w * unat w < 18446744073709551616"
    using mult_strict_mono [OF assms assms] by simp
  have m: "unat (w * 3) = unat w * 3"
    using assms unat_mult_no_overflow [of w 3] by simp
  have s: "unat (w * w) = unat w * unat w"
    using q unat_mult_no_overflow [of w w] by simp
  have d: "unat (w * w div 512) = unat w * unat w div 512"
    by (simp add: unat_div s)
  have "unat w * unat w div 512 \<le> 36028797018963967" using q by simp
  then have "unat (w * 3) + unat (w * w div 512) < 2 ^ 64" using assms m d by simp
  then have "unat (w * 3 + w * w div 512) = unat (w * 3) + unat (w * w div 512)"
    by (simp add: unat_add_no_overflow)
  then show ?thesis using m d by (simp add: mem_fee_def)
qed

text \<open>The size the interpreter asks for: a whole number of words.\<close>

lemma memoryGasCost_spec:
  assumes "mem_paid m"
  shows "unat n > 0x1FFFFFFFE0 \<Longrightarrow> memoryGasCost m n = Inl ErrGasUintOverflow"
    "unat n \<le> 0x1FFFFFFFE0 \<Longrightarrow> \<exists>fee m'. memoryGasCost m n = Inr (fee, m') \<and> mem_store m' = mem_store m \<and>
       unat fee = mem_fee (max (mem_words m) ((unat n + 31) div 32)) - mem_fee (mem_words m) \<and>
       unat (lastGasCost m') = mem_fee (max (mem_words m) ((unat n + 31) div 32))"
proof -
  show "unat n > 0x1FFFFFFFE0 \<Longrightarrow> memoryGasCost m n = Inl ErrGasUintOverflow"
    by (auto simp: memoryGasCost_def word_less_nat_alt)
  assume n: "unat n \<le> 0x1FFFFFFFE0"
  have len: "unat (len64 (mem_store m)) = mem_Len m" "mem_Len m = 32 * mem_words m"
    "unat (lastGasCost m) = mem_fee (mem_words m)"
    using assms unat_len64 [of "mem_store m"] by (auto simp: mem_paid_def mem_words_def mem_Len_def)
  define w where "w = toWordSize n"
  have w: "unat w = (unat n + 31) div 32" by (simp add: w_def toWordSize_ceil)
  have w32: "unat w < 2 ^ 32" using n w by simp
  have wm: "unat (w * 32) = unat w * 32" using w32 unat_mult_no_overflow [of w 32] by simp
  have g: "\<not> (0x1FFFFFFFE0 < n)" using n by (simp add: word_less_nat_alt)
  have grow: "len64 (mem_store m) < w * 32 \<longleftrightarrow> mem_words m < unat w"
    using len wm by (simp add: word_less_nat_alt)
  show "\<exists>fee m'. memoryGasCost m n = Inr (fee, m') \<and> mem_store m' = mem_store m \<and>
       unat fee = mem_fee (max (mem_words m) ((unat n + 31) div 32)) - mem_fee (mem_words m) \<and>
       unat (lastGasCost m') = mem_fee (max (mem_words m) ((unat n + 31) div 32))"
  proof (cases "n \<noteq> 0 \<and> mem_words m < unat w")
    case True
    have f: "unat (w * MemoryGas + (w * w) div QuadCoeffDiv) = mem_fee (unat w)" by (rule fee_words [OF w32])
    have le: "lastGasCost m \<le> w * MemoryGas + (w * w) div QuadCoeffDiv"
      using True f len(3) mem_fee_mono [of "mem_words m" "unat w"] by (simp add: word_le_nat_alt)
    have "memoryGasCost m n = Inr (w * MemoryGas + (w * w) div QuadCoeffDiv - lastGasCost m,
        m\<lparr>lastGasCost := w * MemoryGas + (w * w) div QuadCoeffDiv\<rparr>)"
      using True g grow by (simp add: memoryGasCost_def Let_def w_def [symmetric])
    moreover have "max (mem_words m) ((unat n + 31) div 32) = unat w" using True w by simp
    ultimately show ?thesis using f len(3) unat_sub_le [OF le] by simp
  next
    case False
    then have "memoryGasCost m n = Inr (0, m)"
      using g grow by (auto simp: memoryGasCost_def Let_def w_def [symmetric])
    moreover have "max (mem_words m) ((unat n + 31) div 32) = mem_words m"
      using False w by (cases "n = 0") auto
    ultimately show ?thesis using len(3) by simp
  qed
qed

lemma mem_paid_Resize:
  assumes "mem_paid m" "32 dvd unat n" "memoryGasCost m n = Inr (fee, m')"
  shows "mem_paid (mem_Resize m' n)" "mem_words (mem_Resize m' n) = max (mem_words m) (unat n div 32)"
proof -
  have n: "unat n \<le> 0x1FFFFFFFE0" using memoryGasCost_spec(1) [OF assms(1), of n] assms(3) by fastforce
  have m': "mem_store m' = mem_store m" "unat (lastGasCost m') = mem_fee (max (mem_words m) ((unat n + 31) div 32))"
    using memoryGasCost_spec(2) [OF assms(1) n] assms(3) by auto
  obtain k where k: "unat n = 32 * k" using assms(2) by blast
  have l: "mem_Len m' = 32 * mem_words m" "mem_Len m \<le> 0x1FFFFFFFE0"
    using assms(1) m'(1) by (auto simp: mem_paid_def mem_words_def mem_Len_def)
  have r: "mem_Len (mem_Resize m' n) = 32 * max (mem_words m) k"
    using l k m'(1) mem_Len_Resize [of m' n] by (simp add: mem_Len_def max_def)
  then show "mem_words (mem_Resize m' n) = max (mem_words m) (unat n div 32)"
    using k by (simp add: mem_words_def)
  have "lastGasCost (mem_Resize m' n) = lastGasCost m'" by (simp add: mem_Resize_def)
  moreover have "(unat n + 31) div 32 = k" using k by simp
  moreover have "mem_words (mem_Resize m' n) = max (mem_words m) k" using r by (simp add: mem_words_def)
  moreover have "32 * max (mem_words m) k \<le> 0x1FFFFFFFE0"
    using l m'(1) k n by (simp add: mem_Len_def max_def)
  ultimately show "mem_paid (mem_Resize m' n)"
    using r m'(2) unfolding mem_paid_def by simp
qed

text \<open>
  Memory is charged exactly. Starting from a memory whose fee is paid, growing it to two sizes
  one after the other costs in total the fee of the final size minus the fee paid before, whatever
  the sizes, without any wrap-around of the 64-bit arithmetic; and the fee of the memory as it then
  is counts as paid. A size above 0x1FFFFFFFE0 is an overflow error.
\<close>

theorem memory_fee_telescopes:
  assumes "mem_paid m" "32 dvd unat n1" "32 dvd unat n2" "unat n1 \<le> 0x1FFFFFFFE0" "unat n2 \<le> 0x1FFFFFFFE0"
  shows "\<exists>fee1 m1 fee2 m2. memoryGasCost m n1 = Inr (fee1, m1) \<and>
     memoryGasCost (mem_Resize m1 n1) n2 = Inr (fee2, m2) \<and> mem_paid (mem_Resize m2 n2) \<and>
     unat fee1 + unat fee2 = mem_fee (mem_words (mem_Resize m2 n2)) - mem_fee (mem_words m)"
proof -
  have up: "(unat n + 31) div 32 = unat n div 32" if "32 dvd unat n" for n :: u64
    using that by auto
  obtain fee1 m1 where 1: "memoryGasCost m n1 = Inr (fee1, m1)"
    "unat fee1 = mem_fee (max (mem_words m) (unat n1 div 32)) - mem_fee (mem_words m)"
    using memoryGasCost_spec(2) [OF assms(1,4)] up [OF assms(2)] by auto
  note p1 = mem_paid_Resize [OF assms(1,2) 1(1)]
  obtain fee2 m2 where 2: "memoryGasCost (mem_Resize m1 n1) n2 = Inr (fee2, m2)"
    "unat fee2 = mem_fee (max (mem_words (mem_Resize m1 n1)) (unat n2 div 32)) - mem_fee (mem_words (mem_Resize m1 n1))"
    using memoryGasCost_spec(2) [OF p1(1) assms(5)] up [OF assms(3)] by auto
  note p2 = mem_paid_Resize [OF p1(1) assms(3) 2(1)]
  have "mem_fee (mem_words m) \<le> mem_fee (max (mem_words m) (unat n1 div 32))"
    "mem_fee (max (mem_words m) (unat n1 div 32)) \<le> mem_fee (max (max (mem_words m) (unat n1 div 32)) (unat n2 div 32))"
    by (rule mem_fee_mono, simp)+
  then have "unat fee1 + unat fee2 = mem_fee (mem_words (mem_Resize m2 n2)) - mem_fee (mem_words m)"
    unfolding 1(2) 2(2) p2(2) p1(2) by (rule diff_telescope)
  then show ?thesis using 1(1) 2(1) p2(1) by blast
qed

theorem memory_fee_telescopes_witness:
  "\<exists>fee1 m1 fee2 m2. memoryGasCost NewMemory 64 = Inr (fee1, m1) \<and>
     memoryGasCost (mem_Resize m1 64) 1024 = Inr (fee2, m2) \<and> unat fee1 + unat fee2 = 98"
proof -
  obtain fee1 m1 fee2 m2 where
    1: "memoryGasCost NewMemory 64 = Inr (fee1, m1)" and
    2: "memoryGasCost (mem_Resize m1 64) 1024 = Inr (fee2, m2)" and
    t: "unat fee1 + unat fee2 = mem_fee (mem_words (mem_Resize m2 1024)) - mem_fee (mem_words NewMemory)"
    using memory_fee_telescopes [of NewMemory 64 1024] by auto
  have "mem_words (mem_Resize m2 1024) = 32"
    using mem_paid_Resize(2) [OF mem_paid_Resize(1) [OF mem_paid_New _ 1] _ 2] mem_paid_Resize(2) [OF mem_paid_New _ 1]
    by (simp add: mem_words_def NewMemory_def mem_Len_def)
  then show ?thesis using 1 2 t by (auto simp: mem_fee_def mem_words_def NewMemory_def mem_Len_def)
qed

section \<open>The 63/64 rule\<close>

text \<open>
  Since EIP-150 the gas handed to a call is the requested gas, capped at all but one 64th of
  what is left after the base cost; a request that does not fit 64 bits is capped, not an error.
\<close>

theorem call_gas_63_64:
  assumes "unat base \<le> unat available"
  shows "\<exists>g. callGas True available base requested = Inr g \<and>
    unat g = min (unat requested) (unat available - unat base - (unat available - unat base) div 64)"
proof -
  define a where "a = available - base"
  have a: "unat a = unat available - unat base"
    unfolding a_def by (rule unat_sub_le) (use assms in \<open>simp add: word_le_nat_alt\<close>)
  have "a div 64 \<le> a" by (simp add: word_le_nat_alt unat_div)
  then have g: "unat (a - a div 64) = unat a - unat a div 64" by (simp add: unat_sub_le unat_div)
  show ?thesis
  proof (cases "IsUint64 requested")
    case True
    then show ?thesis using a g unat_Uint64 [OF True]
      by (auto simp: callGas_def Let_def a_def [symmetric] word_less_nat_alt min_def)
  next
    case False
    then have "2 ^ 64 \<le> unat requested" by (simp only: IsUint64_unat not_less)
    moreover have "unat (a - a div 64) < 2 ^ 64" using u64_bound by simp
    ultimately have "unat (a - a div 64) \<le> unat requested" by simp
    then have "min (unat requested) (unat a - unat a div 64) = unat (a - a div 64)" unfolding g by (rule min_absorb2)
    moreover have "callGas True available base requested = Inr (a - a div 64)"
      using False unfolding callGas_def Let_def a_def by (simp only: simp_thms if_True)
    ultimately show ?thesis unfolding a by (intro exI [of _ "a - a div 64"]) simp
  qed
qed

theorem call_gas_63_64_witness: "\<exists>g. callGas True 6500 100 1000000 = Inr g \<and> unat g = 6300"
  using call_gas_63_64 [of 100 6500 1000000] by simp

end
