(* ===== verification/EVM_Calls.thy ===== *)
theory EVM_Calls imports Gas_Costs begin

text \<open>
  Calls and contract creation: \<open>core/vm/evm.go\<close>. The interpreter's \<open>Run\<close> is the parameter \<open>run\<close> of
  type \<open>runner\<close>; the interpreter is defined in its own theory, by recursion on fuel, and passed in
  there. A call takes the EVM object and returns the output, the gas left and perhaps an error,
  with the EVM object as it is then.
\<close>

type_synonym runner = "contract \<Rightarrow> bytes \<Rightarrow> bool \<Rightarrow> evm \<Rightarrow> ((bytes \<times> vm_error option) \<times> contract \<times> evm) go"

type_synonym call_result = "bytes \<times> u64 \<times> vm_error option"

section \<open>Access to the state database\<close>

definition sdb_ask :: "(StateDB \<Rightarrow> 'a \<times> StateDB) \<Rightarrow> evm \<Rightarrow> 'a \<times> evm" where
  "sdb_ask f e = (case f (evm_StateDB e) of (x, s) \<Rightarrow> (x, e\<lparr>evm_StateDB := s\<rparr>))"

definition sdb_do :: "(StateDB \<Rightarrow> StateDB) \<Rightarrow> evm \<Rightarrow> evm" where
  "sdb_do f e = e\<lparr>evm_StateDB := f (evm_StateDB e)\<rparr>"

section \<open>Precompiled contracts\<close>

definition precompile :: "env \<Rightarrow> address \<Rightarrow> precompiled option" where
  "precompile env addr =
     (if IsCancun (chainRules env) then PrecompiledContractsCancun env
      else if IsBerlin (chainRules env) then PrecompiledContractsBerlin env
      else if IsIstanbul (chainRules env) then PrecompiledContractsIstanbul env
      else if IsByzantium (chainRules env) then PrecompiledContractsByzantium env
      else PrecompiledContractsHomestead env) addr"

definition RunPrecompiledContract :: "precompiled \<Rightarrow> bytes \<Rightarrow> u64 \<Rightarrow> call_result go" where
  "RunPrecompiledContract p input suppliedGas =
     (let gasCost = RequiredGas p input
      in if suppliedGas < gasCost then Ret ([], 0, Some ErrOutOfGas)
         else case precompiled_Run p input of
             None \<Rightarrow> Panic SliceOutOfRange
           | Some (output, err) \<Rightarrow> Ret (output, suppliedGas - gasCost, map_option ErrPrecompile err))"

definition call_precompiled :: "precompiled \<Rightarrow> bytes \<Rightarrow> u64 \<Rightarrow> evm \<Rightarrow> (call_result \<times> evm) go" where
  "call_precompiled p input gas e = go_bind (RunPrecompiledContract p input gas) (\<lambda>r. Ret (r, e))"

lemma call_precompiled_outcomes [simp]:
  "no_stack_panic (call_precompiled p input gas e)" "call_precompiled p input gas e \<noteq> OutOfFuel"
  by (auto simp: call_precompiled_def RunPrecompiledContract_def Let_def no_stack_panic_def split: option.split)

section \<open>Calls\<close>

text \<open>Run a new contract whose jump-destination map is the one \<open>NewContract\<close> gives it.\<close>

definition run_contract :: "runner \<Rightarrow> contract_ref \<Rightarrow> contract \<Rightarrow> bytes \<Rightarrow> bool \<Rightarrow> evm \<Rightarrow> (call_result \<times> evm) go" where
  "run_contract run caller c input ro e =
     go_bind (run c input ro (e\<lparr>evm_jumpdests := new_jumpdests caller (evm_jumpdests e)\<rparr>))
       (\<lambda>((ret, err), c, e). Ret ((ret, c_Gas c, err), e))"

text \<open>
  The end of every call: an error reverts to the snapshot and, unless it is a revert, consumes the
  gas that is left.
\<close>

definition settle :: "env \<Rightarrow> nat \<Rightarrow> call_result \<times> evm \<Rightarrow> (call_result \<times> evm) go" where
  "settle env snapshot r =
     (case r of ((ret, gas, err), e) \<Rightarrow>
        case err of None \<Rightarrow> Ret r
        | Some er \<Rightarrow> go_bind (RevertToSnapshot (env_db env) snapshot (evm_StateDB e)) (\<lambda>s.
            Ret ((ret, if er \<noteq> ErrExecutionReverted then 0 else gas, err), e\<lparr>evm_StateDB := s\<rparr>)))"

definition code_bytes :: "bytes option \<Rightarrow> bytes" where
  "code_bytes code = (case code of None \<Rightarrow> [] | Some c \<Rightarrow> c)"

definition evm_Call :: "env \<Rightarrow> runner \<Rightarrow> contract_ref \<Rightarrow> address \<Rightarrow> bytes \<Rightarrow> u64 \<Rightarrow> u256 \<Rightarrow> evm \<Rightarrow> (call_result \<times> evm) go" where
  "evm_Call env run caller addr input gas val e =
     (if evm_depth e > uint CallCreateDepth then Ret (([], gas, Some ErrDepth), e)
      else let (can, e) = (if val \<noteq> 0 then sdb_ask (CanTransfer (env_db env) (ref_Address caller) val) e else (True, e)) in
      if \<not> can then Ret (([], gas, Some ErrInsufficientBalance), e)
      else let (snapshot, e) = sdb_ask Snapshot e;
               p = precompile env addr;
               (exist, e) = sdb_ask (Exist (env_db env) addr) e in
      if \<not> exist \<and> p = None \<and> IsEIP158 (chainRules env) \<and> val = 0 then Ret (([], gas, None), e)
      else let e = (if \<not> exist then sdb_do (CreateAccount (env_db env) addr) e else e);
               e = sdb_do (Transfer (env_db env) (ref_Address caller) addr val) e in
      go_bind (case p of
          Some pc \<Rightarrow> call_precompiled pc input gas e
        | None \<Rightarrow>
            let (code, e) = sdb_ask (GetCode (env_db env) addr) e in
            if code_bytes code = [] then Ret (([], gas, None), e)
            else let (h, e) = sdb_ask (GetCodeHash (env_db env) addr) e;
                     c = SetCallCode (Some addr) h (code_bytes code) (NewContract caller addr val gas)
                 in run_contract run caller c input False e)
        (settle env snapshot))"

text \<open>The common part of the three calls that run foreign code without creating an account.\<close>

definition call_code_of ::
  "env \<Rightarrow> runner \<Rightarrow> contract_ref \<Rightarrow> contract \<Rightarrow> address \<Rightarrow> bytes \<Rightarrow> u64 \<Rightarrow> bool \<Rightarrow> evm \<Rightarrow> (call_result \<times> evm) go" where
  "call_code_of env run caller c addr input gas ro e =
     (case precompile env addr of
        Some pc \<Rightarrow> call_precompiled pc input gas e
      | None \<Rightarrow>
          let (h, e) = sdb_ask (GetCodeHash (env_db env) addr) e;
              (code, e) = sdb_ask (GetCode (env_db env) addr) e
          in run_contract run caller (SetCallCode (Some addr) h (code_bytes code) c) input ro e)"

definition evm_CallCode :: "env \<Rightarrow> runner \<Rightarrow> contract_ref \<Rightarrow> address \<Rightarrow> bytes \<Rightarrow> u64 \<Rightarrow> u256 \<Rightarrow> evm \<Rightarrow> (call_result \<times> evm) go" where
  "evm_CallCode env run caller addr input gas val e =
     (if evm_depth e > uint CallCreateDepth then Ret (([], gas, Some ErrDepth), e)
      else let (can, e) = sdb_ask (CanTransfer (env_db env) (ref_Address caller) val) e in
      if \<not> can then Ret (([], gas, Some ErrInsufficientBalance), e)
      else let (snapshot, e) = sdb_ask Snapshot e in
      go_bind (call_code_of env run caller (NewContract caller (ref_Address caller) val gas) addr input gas False e)
        (settle env snapshot))"

text \<open>
  In a delegate call the caller is always a contract; \<open>AsDelegate\<close> takes the caller's caller and
  value from it (Go's type assertion panics for any other caller).
\<close>

definition evm_DelegateCall :: "env \<Rightarrow> runner \<Rightarrow> contract_ref \<Rightarrow> address \<Rightarrow> bytes \<Rightarrow> u64 \<Rightarrow> evm \<Rightarrow> (call_result \<times> evm) go" where
  "evm_DelegateCall env run caller addr input gas e =
     (if evm_depth e > uint CallCreateDepth then Ret (([], gas, Some ErrDepth), e)
      else let (snapshot, e) = sdb_ask Snapshot e in
      go_bind (case caller of
          ContractRef parent \<Rightarrow>
            call_code_of env run caller (AsDelegate parent (NewContract caller (ref_Address caller) 0 gas))
              addr input gas False e
        | AccountRef _ \<Rightarrow>
            (case precompile env addr of
               Some pc \<Rightarrow> call_precompiled pc input gas e
             | None \<Rightarrow> Panic TypeAssertion))
        (settle env snapshot))"

definition evm_StaticCall :: "env \<Rightarrow> runner \<Rightarrow> contract_ref \<Rightarrow> address \<Rightarrow> bytes \<Rightarrow> u64 \<Rightarrow> evm \<Rightarrow> (call_result \<times> evm) go" where
  "evm_StaticCall env run caller addr input gas e =
     (if evm_depth e > uint CallCreateDepth then Ret (([], gas, Some ErrDepth), e)
      else let (snapshot, e) = sdb_ask Snapshot e;
               e = sdb_do (AddBalance (env_db env) addr 0) e in
      go_bind (call_code_of env run caller (NewContract caller addr 0 gas) addr input gas True e)
        (settle env snapshot))"

section \<open>Contract creation\<close>

text \<open>What \<open>create\<close> checks of the code that the init code returned.\<close>

definition check_deployed :: "env \<Rightarrow> bytes \<Rightarrow> vm_error option \<Rightarrow> vm_error option" where
  "check_deployed env ret err =
     (let err = (if err = None \<and> IsEIP158 (chainRules env) \<and> length ret > MaxCodeSize
                 then Some ErrMaxCodeSizeExceeded else err)
      in if err = None \<and> length ret \<ge> 1 \<and> ret ! 0 = 0xEF \<and> IsLondon (chainRules env) then Some ErrInvalidCode
         else err)"

text \<open>The end of \<open>create\<close>: pay for and store the code, or undo everything.\<close>

definition deploy :: "env \<Rightarrow> address \<Rightarrow> nat \<Rightarrow> bytes \<Rightarrow> vm_error option \<Rightarrow> contract \<Rightarrow> evm \<Rightarrow>
    ((bytes \<times> address \<times> u64 \<times> vm_error option) \<times> evm) go" where
  "deploy env address snapshot ret err c e =
     (let err = check_deployed env ret err;
          (err, c, e) =
            (if err = None then
               case UseGas (len64 ret * CreateDataGas) c of
                 (True, c) \<Rightarrow> (None, c, sdb_do (SetCode (env_db env) address ret) e)
               | (False, c) \<Rightarrow> (Some ErrCodeStoreOutOfGas, c, e)
             else (err, c, e))
      in case err of
           None \<Rightarrow> Ret ((ret, address, c_Gas c, None), e)
         | Some er \<Rightarrow>
             if IsHomestead (chainRules env) \<or> er \<noteq> ErrCodeStoreOutOfGas then
               go_bind (RevertToSnapshot (env_db env) snapshot (evm_StateDB e)) (\<lambda>s.
                 let c = (if er \<noteq> ErrExecutionReverted then snd (UseGas (c_Gas c) c) else c)
                 in Ret ((ret, address, c_Gas c, err), e\<lparr>evm_StateDB := s\<rparr>))
             else Ret ((ret, address, c_Gas c, err), e))"

text \<open>\<open>codeAndHash\<close> is the init code with the hash field as it is when \<open>create\<close> reads it.\<close>

definition evm_create ::
  "env \<Rightarrow> runner \<Rightarrow> contract_ref \<Rightarrow> bytes \<times> hash \<Rightarrow> u64 \<Rightarrow> u256 \<Rightarrow> address \<Rightarrow> evm \<Rightarrow>
    ((bytes \<times> address \<times> u64 \<times> vm_error option) \<times> evm) go" where
  "evm_create env run caller codeAndHash gas val address e =
     (if evm_depth e > uint CallCreateDepth then Ret (([], 0, gas, Some ErrDepth), e)
      else let (can, e) = sdb_ask (CanTransfer (env_db env) (ref_Address caller) val) e in
      if \<not> can then Ret (([], 0, gas, Some ErrInsufficientBalance), e)
      else let (nonce, e) = sdb_ask (GetNonce (env_db env) (ref_Address caller)) e in
      if nonce + 1 < nonce then Ret (([], 0, gas, Some ErrNonceUintOverflow), e)
      else let e = sdb_do (SetNonce (env_db env) (ref_Address caller) (nonce + 1)) e;
               e = (if IsBerlin (chainRules env) then sdb_do (AddAddressToAccessList address) e else e);
               (contractHash, e) = sdb_ask (GetCodeHash (env_db env) address) e;
               (target_nonce, e) = sdb_ask (GetNonce (env_db env) address) e in
      if target_nonce \<noteq> 0 \<or> (contractHash \<noteq> 0 \<and> contractHash \<noteq> EmptyCodeHash (env_db env))
      then Ret (([], 0, 0, Some ErrContractAddressCollision), e)
      else let (snapshot, e) = sdb_ask Snapshot e;
               e = sdb_do (CreateAccount (env_db env) address) e;
               e = (if IsEIP158 (chainRules env) then sdb_do (SetNonce (env_db env) address 1) e else e);
               e = sdb_do (Transfer (env_db env) (ref_Address caller) address val) e;
               c = SetCodeOptionalHash (Some address) codeAndHash (NewContract caller address val gas) in
      go_bind (run c [] False (e\<lparr>evm_jumpdests := new_jumpdests caller (evm_jumpdests e)\<rparr>))
        (\<lambda>((ret, err), c, e). deploy env address snapshot ret err c e))"

text \<open>
  \<open>crypto.CreateAddress\<close> hashes the RLP list of the address and the nonce, which is shorter than
  56 bytes; \<open>CreateAddress2\<close> hashes 0xff, the address, the salt and the hash of the init code. The
  address is the last 20 bytes of the hash.
\<close>

definition CreateAddress :: "database \<Rightarrow> address \<Rightarrow> u64 \<Rightarrow> address" where
  "CreateAddress db b nonce =
     (let payload = 0x94 # address_bytes b @ AppendUint64 [] nonce
      in Bytes20 (Keccak256Hash db ((0xC0 + word_of_nat (length payload)) # payload)))"

definition CreateAddress2 :: "database \<Rightarrow> address \<Rightarrow> u256 \<Rightarrow> hash \<Rightarrow> address" where
  "CreateAddress2 db b salt inithash =
     Bytes20 (Keccak256Hash db (0xff # address_bytes b @ Bytes32 salt @ Bytes32 inithash))"

definition evm_Create :: "env \<Rightarrow> runner \<Rightarrow> contract_ref \<Rightarrow> bytes \<Rightarrow> u64 \<Rightarrow> u256 \<Rightarrow> evm \<Rightarrow>
    ((bytes \<times> address \<times> u64 \<times> vm_error option) \<times> evm) go" where
  "evm_Create env run caller code gas val e =
     (let (nonce, e) = sdb_ask (GetNonce (env_db env) (ref_Address caller)) e
      in evm_create env run caller (code, 0) gas val (CreateAddress (env_db env) (ref_Address caller) nonce) e)"

definition evm_Create2 :: "env \<Rightarrow> runner \<Rightarrow> contract_ref \<Rightarrow> bytes \<Rightarrow> u64 \<Rightarrow> u256 \<Rightarrow> u256 \<Rightarrow> evm \<Rightarrow>
    ((bytes \<times> address \<times> u64 \<times> vm_error option) \<times> evm) go" where
  "evm_Create2 env run caller code gas endowment salt e =
     (let h = Keccak256Hash (env_db env) code
      in evm_create env run caller (code, h) gas endowment
           (CreateAddress2 (env_db env) (ref_Address caller) salt h) e)"

end
