(* ===== verification/EVM_Call_Laws.thy ===== *)
theory EVM_Call_Laws imports EVM_Calls begin

text \<open>
  What the calls of \<open>core/vm/evm.go\<close> guarantee, given what the interpreter guarantees (locale
  \<open>runner\<close>): they never hand back more gas than they got, a failed call leaves the state as it
  was, a static call changes nothing that can be read, and depth and read-only flag are restored.
\<close>

section \<open>Read-only changes of the state\<close>

text \<open>
  What a static call may do to an account: nothing that can be read except create it blank (a
  static call touches the callee, which creates the account if it does not exist).
\<close>

definition blank :: "obj_view \<Rightarrow> bool" where
  "blank w \<longleftrightarrow> ov_Nonce w = 0 \<and> ov_Balance w = 0 \<and> code_bytes (ov_Code w) = [] \<and> \<not> ov_selfDestructed w"

fun acc_same :: "obj_view option \<Rightarrow> obj_view option \<Rightarrow> bool" where
  "acc_same None None = True"
| "acc_same None (Some w) = blank w"
| "acc_same (Some v) None = False"
| "acc_same (Some v) (Some w) = (ov_Nonce w = ov_Nonce v \<and> ov_Balance w = ov_Balance v \<and>
     ov_CodeHash w = ov_CodeHash v \<and> code_bytes (ov_Code w) = code_bytes (ov_Code v) \<and>
     ov_State w = ov_State v \<and> ov_selfDestructed w = ov_selfDestructed v)"

lemma acc_same_refl [simp]: "acc_same v v"
  by (cases v) auto

lemma acc_same_trans: "acc_same u v \<Longrightarrow> acc_same v w \<Longrightarrow> acc_same u w"
  by (cases u; cases v; cases w) (auto simp: blank_def)

definition static_same :: "database \<Rightarrow> StateDB \<Rightarrow> StateDB \<Rightarrow> bool" where
  "static_same db s t \<longleftrightarrow> (\<forall>a. acc_same (live db s a) (live db t a)) \<and> logs_of t = logs_of s \<and>
     ts_Get (sdb_transientStorage t) = ts_Get (sdb_transientStorage s)"

lemma static_same_refl [simp]: "static_same db s s"
  by (simp add: static_same_def)

lemma static_same_trans: "static_same db s t \<Longrightarrow> static_same db t u \<Longrightarrow> static_same db s u"
  unfolding static_same_def using acc_same_trans by metis

lemma static_same_view:
  assumes "sview db t = sview db s"
  shows "static_same db s t"
proof -
  have "v_logs (sview db t) = v_logs (sview db s)" "v_transient (sview db t) = v_transient (sview db s)"
    by (simp_all only: assms)
  then show ?thesis using live_cong [OF assms] unfolding sview_fields by (simp add: static_same_def)
qed

lemma static_same_aux: "aux db s t \<Longrightarrow> static_same db s t"
  by (simp add: aux_def static_same_def live_def)

text \<open>Operations on accounts leave logs and transient storage alone.\<close>

definition logs_kept :: "StateDB \<Rightarrow> StateDB \<Rightarrow> bool" where
  "logs_kept s t \<longleftrightarrow> sdb_logs t = sdb_logs s \<and> sdb_transientStorage t = sdb_transientStorage s"

lemma logs_kept_static: "logs_kept s t \<Longrightarrow> logs_of t = logs_of s \<and> ts_Get (sdb_transientStorage t) = ts_Get (sdb_transientStorage s)"
  by (intro conjI ext) (simp_all add: logs_kept_def logs_of_def)

lemma logs_kept_simps [simp]:
  "logs_kept s (setError e t) = logs_kept s t" "logs_kept s (setStateObject obj t) = logs_kept s t"
  "logs_kept s (log_change en t) = logs_kept s t" "logs_kept s s"
  "logs_kept s (t\<lparr>stateObjectsDestruct := d\<rparr>) = logs_kept s t"
  "logs_kept s (t\<lparr>accounts := m1\<rparr>) = logs_kept s t" "logs_kept s (t\<lparr>storages := m2\<rparr>) = logs_kept s t"
  "logs_kept s (t\<lparr>accountsOrigin := m3\<rparr>) = logs_kept s t" "logs_kept s (t\<lparr>storagesOrigin := m4\<rparr>) = logs_kept s t"
  "logs_kept s (t\<lparr>sdb_journal := j\<rparr>) = logs_kept s t"
  by (simp_all add: logs_kept_def setError_def setStateObject_def log_change_def)

lemma logs_kept_getDeleted: "getDeletedStateObject db a s = (r, t) \<Longrightarrow> logs_kept s t"
  by (auto simp: getDeletedStateObject_def Let_def split: option.splits sum.splits)

lemma logs_kept_get: "getStateObject db a s = (r, t) \<Longrightarrow> logs_kept s t"
  using logs_kept_getDeleted by (fastforce simp: getStateObject_def split: prod.splits option.splits if_splits)

lemma logs_kept_trans: "logs_kept s t \<Longrightarrow> logs_kept t u \<Longrightarrow> logs_kept s u"
  by (simp add: logs_kept_def)

lemma logs_kept_create: "logs_kept s (snd (snd (createObject db a s)))"
proof -
  obtain prev t where t: "getDeletedStateObject db a s = (prev, t)" by fastforce
  show ?thesis using logs_kept_getDeleted [OF t]
    by (cases prev) (simp_all add: createObject_def t Let_def)
qed

lemma logs_kept_CreateAccount: "logs_kept s (CreateAccount db a s)"
  using logs_kept_create [of s db a] by (simp add: CreateAccount_def case_prod_beta split: option.split)

lemma logs_kept_getOrNew: "logs_kept s (snd (getOrNewStateObject db a s))"
proof -
  obtain r t where t: "getStateObject db a s = (r, t)" by fastforce
  have "logs_kept s t" using t by (rule logs_kept_get)
  then show ?thesis using t logs_kept_trans [OF _ logs_kept_create [of t db a]]
    by (cases r) (auto simp: getOrNewStateObject_def split: prod.splits)
qed

lemma logs_kept_balance: "logs_kept s (AddBalance db a n s)" "logs_kept s (SubBalance db a n s)"
  using logs_kept_getOrNew [of s db a]
  by (auto simp: AddBalance_def SubBalance_def mutate_def so_AddBalance_def so_SubBalance_def so_SetBalance_def touch_def Let_def
      split: prod.splits)

lemma static_same_balance0:
  assumes "sdb_ok s"
  shows "static_same db s (AddBalance db a 0 s)" "static_same db s (SubBalance db a 0 s)"
proof -
  have b: "blank (created_view db s a)" if "live db s a = None"
    by (simp add: blank_def created_view_def obj_view_def newObject_def NewEmptyStateAccount_def code_of_def code_bytes_def)
  show "static_same db s (AddBalance db a 0 s)" "static_same db s (SubBalance db a 0 s)"
    using b logs_kept_static [OF logs_kept_balance(1)] logs_kept_static [OF logs_kept_balance(2)]
    by (auto simp: static_same_def live_set [OF assms] target_def blank_def split: option.splits)
qed

lemma static_same_Transfer0:
  assumes "sdb_ok s"
  shows "static_same db s (Transfer db x y 0 s)"
  unfolding Transfer_def
  using static_same_balance0 [OF assms] static_same_balance0(1) [of "SubBalance db x 0 s"]
    advances_ok [OF balance_ops_advance(2) [OF assms]] static_same_trans by blast

lemma static_same_CreateAccount:
  assumes "sdb_ok s" "\<not> fst (Exist db a s)"
  shows "static_same db s (CreateAccount db a s)"
proof -
  have n: "live db s a = None" using assms by (simp add: query_values)
  have "blank (created_view db s a)"
    by (simp add: blank_def created_view_def obj_view_def newObject_def NewEmptyStateAccount_def code_of_def code_bytes_def)
  then show ?thesis
    using n logs_kept_static [OF logs_kept_CreateAccount]
    by (auto simp: static_same_def live_CreateAccount [OF assms(1)] blank_def)
qed

section \<open>What a call may do\<close>

text \<open>
  From before to after a call: the depth and the read-only flag are restored, the state can be
  reverted to any earlier snapshot, and if \<open>st\<close> holds the change is a read-only one.
\<close>

definition call_rel :: "env \<Rightarrow> bool \<Rightarrow> evm \<Rightarrow> evm \<Rightarrow> bool" where
  "call_rel env st e e' \<longleftrightarrow> evm_depth e' = evm_depth e \<and> readOnly e' = readOnly e \<and>
     (sdb_ok (evm_StateDB e) \<and> revs_ok (evm_StateDB e) \<longrightarrow>
        extends (env_db env) (evm_StateDB e) (evm_StateDB e') \<and>
        (st \<longrightarrow> static_same (env_db env) (evm_StateDB e) (evm_StateDB e')))"

lemma call_rel_refl [simp]: "call_rel env st e e"
  by (simp add: call_rel_def)

lemma call_rel_trans: "call_rel env st e e' \<Longrightarrow> call_rel env st e' e'' \<Longrightarrow> call_rel env st e e''"
proof -
  assume a: "call_rel env st e e'" and b: "call_rel env st e' e''"
  show ?thesis
  proof (cases "sdb_ok (evm_StateDB e) \<and> revs_ok (evm_StateDB e)")
    case True
    have x: "extends (env_db env) (evm_StateDB e) (evm_StateDB e')" using a True by (simp add: call_rel_def)
    have ok: "sdb_ok (evm_StateDB e') \<and> revs_ok (evm_StateDB e')"
      using extends_ok [OF x] extends_revs_ok [OF x] True by simp
    have y: "extends (env_db env) (evm_StateDB e') (evm_StateDB e'')" using b ok by (simp add: call_rel_def)
    have "static_same (env_db env) (evm_StateDB e) (evm_StateDB e'')" if st
      using a b ok True that static_same_trans by (simp add: call_rel_def) blast
    then show ?thesis using a b extends_trans [OF x y] by (simp add: call_rel_def)
  next
    case False
    then show ?thesis using a b by (auto simp: call_rel_def)
  qed
qed

lemma call_rel_mono: "call_rel env True e e' \<Longrightarrow> call_rel env st e e'"
  by (simp add: call_rel_def)

lemma call_rel_weaken: "call_rel env st e e' \<Longrightarrow> (st' \<Longrightarrow> st) \<Longrightarrow> call_rel env st' e e'"
  by (auto simp: call_rel_def)

lemma call_rel_do:
  assumes "sdb_ok (evm_StateDB e) \<Longrightarrow> advances (env_db env) (evm_StateDB e) (f (evm_StateDB e))"
    "st \<Longrightarrow> sdb_ok (evm_StateDB e) \<Longrightarrow> static_same (env_db env) (evm_StateDB e) (f (evm_StateDB e))"
  shows "call_rel env st e (sdb_do f e)"
  using assms by (auto simp: call_rel_def sdb_do_def intro: advances_extends)

lemma call_rel_ask:
  assumes "sdb_ok (evm_StateDB e) \<Longrightarrow> aux (env_db env) (evm_StateDB e) (snd (f (evm_StateDB e)))"
  shows "call_rel env st e (snd (sdb_ask f e))"
  using assms by (auto simp: call_rel_def sdb_ask_def case_prod_beta aux_def intro: advances_extends static_same_aux)

lemma call_rel_Snapshot: "call_rel env st e (snd (sdb_ask Snapshot e))"
  using Snapshot_extends [of "evm_StateDB e" "env_db env"]
    static_same_view [of "env_db env" "snd (Snapshot (evm_StateDB e))" "evm_StateDB e"]
  by (auto simp: call_rel_def sdb_ask_def case_prod_beta) (simp_all add: Snapshot_def Let_def static_same_view)

lemma call_rel_jumpdests [simp]:
  "call_rel env st (e\<lparr>evm_jumpdests := jd\<rparr>) e' = call_rel env st e e'"
  "call_rel env st e (e'\<lparr>evm_jumpdests := jd\<rparr>) = call_rel env st e e'"
  by (simp_all add: call_rel_def)

lemma sdb_ask_other [simp]:
  "readOnly (snd (sdb_ask f e)) = readOnly e" "evm_depth (snd (sdb_ask f e)) = evm_depth e"
  "evm_StateDB (snd (sdb_ask f e)) = snd (f (evm_StateDB e))" "fst (sdb_ask f e) = fst (f (evm_StateDB e))"
  by (simp_all add: sdb_ask_def case_prod_beta)

lemma CanTransfer_same: "sdb_ok s \<Longrightarrow> same db s (snd (CanTransfer db a n s))"
  using queries_same by (simp add: CanTransfer_def case_prod_beta)

lemma Transfer_advances: "sdb_ok s \<Longrightarrow> advances db s (Transfer db x y n s)"
  unfolding Transfer_def using advances_trans [OF balance_ops_advance(2) balance_ops_advance(1)] advances_ok [OF balance_ops_advance(2)]
  by blast

text \<open>The result of a call: it returns at most the gas it was given, and an error undoes everything.\<close>

definition call_post :: "env \<Rightarrow> bool \<Rightarrow> u64 \<Rightarrow> evm \<Rightarrow> call_result \<times> evm \<Rightarrow> bool" where
  "call_post env st gas e r = (case r of ((ret, g, err), e') \<Rightarrow>
     unat g \<le> unat gas \<and> call_rel env st e e' \<and>
     (err \<noteq> None \<and> sdb_ok (evm_StateDB e) \<and> revs_ok (evm_StateDB e) \<longrightarrow>
        sview (env_db env) (evm_StateDB e') = sview (env_db env) (evm_StateDB e)))"

lemma call_post_ask:
  assumes "sdb_ok (evm_StateDB e) \<Longrightarrow> same (env_db env) (evm_StateDB e) (snd (f (evm_StateDB e)))"
    "call_post env st gas (snd (sdb_ask f e)) r"
  shows "call_post env st gas e r"
proof -
  let ?s = "evm_StateDB e" and ?t = "snd (f (evm_StateDB e))"
  obtain ret g err e' where r: "r = ((ret, g, err), e')" by (cases r) auto
  have c: "call_rel env st e (snd (sdb_ask f e))"
    using assms(1) by (intro call_rel_ask aux_same) auto
  have "sview (env_db env) ?t = sview (env_db env) ?s \<and> sdb_ok ?t \<and> revs_ok ?t" if "sdb_ok ?s \<and> revs_ok ?s"
  proof -
    have sm: "same (env_db env) ?s ?t" using assms(1) that by simp
    have x: "extends (env_db env) ?s ?t" by (rule advances_extends, rule advances_same) (use that sm in simp_all)
    show ?thesis using extends_ok [OF x] extends_revs_ok [OF x] that sm unfolding same_def by (elim conjE, intro conjI) assumption+
  qed
  then show ?thesis using assms(2) call_rel_trans [OF c] by (auto simp: call_post_def r simp del: sview_revs)
qed

text \<open>Reverting to the snapshot taken at the start.\<close>

lemma revert_rel:
  assumes c: "call_rel env st (snd (sdb_ask Snapshot e)) e2"
    and u: "RevertToSnapshot (env_db env) (fst (sdb_ask Snapshot e)) (evm_StateDB e2) = Ret u"
  shows "call_rel env st e (e2\<lparr>evm_StateDB := u\<rparr>)"
    "sdb_ok (evm_StateDB e) \<Longrightarrow> revs_ok (evm_StateDB e) \<Longrightarrow>
      sview (env_db env) u = sview (env_db env) (evm_StateDB e)"
proof -
  let ?s = "evm_StateDB e"
  have *: "sview (env_db env) u = sview (env_db env) ?s \<and> extends (env_db env) ?s u" if "sdb_ok ?s" "revs_ok ?s"
  proof -
    have "extends (env_db env) ?s (snd (Snapshot ?s))" using that by (simp add: Snapshot_extends)
    then have "sdb_ok (snd (Snapshot ?s)) \<and> revs_ok (snd (Snapshot ?s))"
      using that extends_ok extends_revs_ok by blast
    then have "extends (env_db env) (snd (Snapshot ?s)) (evm_StateDB e2)"
      using c by (simp add: call_rel_def)
    from revert_restores [OF that this] u show ?thesis by auto
  qed
  show "sview (env_db env) u = sview (env_db env) ?s" if "sdb_ok ?s" "revs_ok ?s"
    using * [OF that] by blast
  show "call_rel env st e (e2\<lparr>evm_StateDB := u\<rparr>)"
    using c * static_same_view [of "env_db env" u ?s] by (auto simp: call_rel_def simp del: sview_revs)
qed

lemma settle_post:
  assumes "go_all (\<lambda>((ret, g, err), e'). unat g \<le> unat gas \<and> call_rel env st (snd (sdb_ask Snapshot e)) e') m"
  shows "go_all (call_post env st gas e) (go_bind m (settle env (fst (sdb_ask Snapshot e))))"
proof (cases m)
  case (Ret r)
  obtain ret g err e2 where r: "r = ((ret, g, err), e2)" by (cases r) auto
  have g: "unat g \<le> unat gas" and c: "call_rel env st (snd (sdb_ask Snapshot e)) e2"
    using assms Ret r by auto
  show ?thesis
  proof (cases err)
    case None
    then show ?thesis using Ret r g call_rel_trans [OF call_rel_Snapshot c] by (simp add: settle_def call_post_def)
  next
    case (Some er)
    show ?thesis unfolding Ret r go_bind.simps settle_def prod.case Some option.case go_all_bind
      unfolding go_all_iff using revert_rel [OF c] g by (auto simp: call_post_def simp del: sdb_ask_other sview_revs)
  qed
qed simp_all

section \<open>The laws of a runner and what the calls make of them\<close>

locale runner =
  fixes env :: env and run :: runner
  assumes run_law: "run c input ro e = Ret ((ret, err), c', e') \<Longrightarrow>
    unat (c_Gas c') \<le> unat (c_Gas c) \<and> call_rel env (readOnly e \<or> ro) e e'"
begin

lemma run_contract_law:
  "go_all (\<lambda>((ret, g, err), e'). unat g \<le> unat (c_Gas c) \<and> call_rel env (readOnly e \<or> ro) e e')
     (run_contract run caller c input ro e)"
  by (auto simp: run_contract_def go_all_iff dest!: run_law)

lemma precompiled_law:
  fixes e :: evm
  shows
  "go_all (\<lambda>((ret, g, err), e'). unat g \<le> unat gas \<and> e' = e) (call_precompiled p input gas e)"
  by (auto simp: call_precompiled_def RunPrecompiledContract_def Let_def not_less unat_sub_le split: option.split)

lemma call_code_of_law:
  "go_all (\<lambda>((ret, g, err), e'). unat g \<le> unat gas \<and> call_rel env (readOnly e \<or> ro) e e')
     (call_code_of env run caller c addr input gas ro e)" if "c_Gas c = gas"
proof (cases "precompile env addr")
  case None
  define e1 where "e1 = snd (sdb_ask (GetCodeHash (env_db env) addr) e)"
  define e2 where "e2 = snd (sdb_ask (GetCode (env_db env) addr) e1)"
  have 1: "call_rel env (readOnly e \<or> ro) e e1" unfolding e1_def by (rule call_rel_ask) (rule aux_queries)
  have 2: "call_rel env (readOnly e \<or> ro) e1 e2" unfolding e2_def by (rule call_rel_ask) (rule aux_queries)
  have 12: "call_rel env (readOnly e \<or> ro) e e2" using call_rel_trans [OF 1 2] .
  have ro: "readOnly e2 = readOnly e" using 12 by (simp add: call_rel_def)
  show ?thesis
    using None that 12 ro call_rel_trans [OF 12]
    by (auto simp: call_code_of_def case_prod_beta Let_def e1_def [symmetric] e2_def [symmetric] SetCallCode_def
        intro!: go_all_mono [OF run_contract_law])
next
  case (Some p)
  then show ?thesis by (auto simp: call_code_of_def intro!: go_all_mono [OF precompiled_law])
qed

lemma call_law_of:
  assumes m: "go_all (\<lambda>((ret, g, err), e'). unat g \<le> unat gas \<and> call_rel env st e1 e') m"
    and e1: "call_rel env st (snd (sdb_ask Snapshot e)) e1"
  shows "go_all (call_post env st gas e) (go_bind m (settle env (fst (sdb_ask Snapshot e))))"
  by (rule settle_post, rule go_all_mono [OF m]) (auto intro: call_rel_trans [OF e1])

lemma Call_law: "go_all (call_post env (readOnly e \<and> val = 0) gas e) (evm_Call env run caller addr input gas val e)"
proof (cases "evm_depth e > uint CallCreateDepth")
  case True
  then show ?thesis by (simp add: evm_Call_def call_post_def)
next
  case depth: False
  let ?st = "readOnly e \<and> val = 0"
  define ce where "ce = (if val \<noteq> 0 then sdb_ask (CanTransfer (env_db env) (ref_Address caller) val) e else (True, e))"
  define e1 where "e1 = snd ce"
  define e2 where "e2 = snd (sdb_ask Snapshot e1)"
  define e3 where "e3 = snd (sdb_ask (Exist (env_db env) addr) e2)"
  define exist where "exist = fst (sdb_ask (Exist (env_db env) addr) e2)"
  define e4 where "e4 = (if \<not> exist then sdb_do (CreateAccount (env_db env) addr) e3 else e3)"
  define e5 where "e5 = sdb_do (Transfer (env_db env) (ref_Address caller) addr val) e4"
  define m where "m = (case precompile env addr of
          Some pc \<Rightarrow> call_precompiled pc input gas e5
        | None \<Rightarrow>
            let (code, e) = sdb_ask (GetCode (env_db env) addr) e5 in
            if code_bytes code = [] then Ret (([], gas, None), e)
            else let (h, e) = sdb_ask (GetCodeHash (env_db env) addr) e;
                     c = SetCallCode (Some addr) h (code_bytes code) (NewContract caller addr val gas)
                 in run_contract run caller c input False e)"
  have eq: "evm_Call env run caller addr input gas val e =
      (if \<not> fst ce then Ret (([], gas, Some ErrInsufficientBalance), e1)
       else if \<not> exist \<and> precompile env addr = None \<and> IsEIP158 (chainRules env) \<and> val = 0 then Ret (([], gas, None), e3)
       else go_bind m (settle env (fst (sdb_ask Snapshot e1))))"
    unfolding evm_Call_def Let_def ce_def [symmetric]
    using depth by (simp add: case_prod_beta m_def e1_def e2_def e3_def e4_def e5_def exist_def Let_def cong: option.case_cong)
  have e1: "call_post env ?st gas e r" if "call_post env ?st gas e1 r" for r
    using that unfolding e1_def ce_def by (auto intro: call_post_ask queries_same CanTransfer_same split: if_splits)
  have r1: "readOnly e1 = readOnly e" by (simp add: e1_def ce_def)
  have 23: "call_rel env ?st e2 e3" unfolding e3_def by (rule call_rel_ask) (rule aux_queries)
  have 24: "call_rel env ?st e2 e4"
  proof (cases "sdb_ok (evm_StateDB e2)")
    case True
    have "same (env_db env) (evm_StateDB e2) (evm_StateDB e3)" unfolding e3_def by (simp add: queries_same True)
    then have sv: "sview (env_db env) (evm_StateDB e3) = sview (env_db env) (evm_StateDB e2)" and ok: "sdb_ok (evm_StateDB e3)"
      using True by (simp_all add: same_def)
    have "\<not> fst (Exist (env_db env) addr (evm_StateDB e3))" if "\<not> exist"
      using that live_cong [OF sv] by (simp add: exist_def query_values ok True)
    then show ?thesis unfolding e4_def
      by (auto intro!: call_rel_trans [OF 23] call_rel_do CreateAccount_advances static_same_CreateAccount 23)
  next
    case False
    then show ?thesis by (simp add: call_rel_def e4_def e3_def sdb_do_def)
  qed
  have 45: "call_rel env ?st e4 e5" unfolding e5_def
    by (rule call_rel_do) (auto intro: Transfer_advances static_same_Transfer0)
  have 25: "call_rel env ?st e2 e5" using call_rel_trans [OF 24 45] .
  have ro: "readOnly e5 = readOnly e" using 25 r1 by (simp add: call_rel_def e2_def)
  have "go_all (\<lambda>((ret, g, err), e'). unat g \<le> unat gas \<and> call_rel env ?st e5 e') m"
  proof (cases "precompile env addr")
    case None
    define e6 where "e6 = snd (sdb_ask (GetCode (env_db env) addr) e5)"
    define e7 where "e7 = snd (sdb_ask (GetCodeHash (env_db env) addr) e6)"
    have 56: "call_rel env ?st e5 e6" unfolding e6_def by (rule call_rel_ask) (rule aux_queries)
    have 67: "call_rel env ?st e6 e7" unfolding e7_def by (rule call_rel_ask) (rule aux_queries)
    have r7: "readOnly e7 = readOnly e" using ro call_rel_trans [OF 56 67] by (simp add: call_rel_def)
    have *: "call_rel env ?st e5 e'" if "call_rel env (readOnly e7 \<or> False) e7 e'" for e'
      using call_rel_trans [OF call_rel_trans [OF 56 67] call_rel_weaken [OF that]] r7 by simp
    show ?thesis
      unfolding m_def None option.case Let_def case_prod_beta e6_def [symmetric] e7_def [symmetric]
      using 56 by (auto intro!: go_all_mono [OF run_contract_law] * simp: SetCallCode_def NewContract_def)
  next
    case (Some p)
    then show ?thesis by (auto simp: m_def intro!: go_all_mono [OF precompiled_law])
  qed
  from call_law_of [OF this 25 [unfolded e2_def]] have 5: "go_all (call_post env ?st gas e1) (go_bind m (settle env (fst (sdb_ask Snapshot e1))))" .
  have 13: "call_rel env ?st e1 e3" using call_rel_trans [OF call_rel_Snapshot 23 [unfolded e2_def]] .
  have a: "call_post env ?st gas e (([], gas, Some ErrInsufficientBalance), e1)" by (rule e1) (simp add: call_post_def)
  have b: "call_post env ?st gas e (([], gas, None), e3)" by (rule e1) (simp add: call_post_def 13)
  have c: "go_all (call_post env ?st gas e) (go_bind m (settle env (fst (sdb_ask Snapshot e1))))"
    by (rule go_all_mono [OF 5]) (rule e1)
  show ?thesis unfolding eq by (simp only: go_all.simps split: if_split) (use a b c in blast)
qed

text \<open>The other three calls.\<close>

lemma code_call_law:
  assumes e2: "call_rel env st (snd (sdb_ask Snapshot e)) e2" and c: "c_Gas c = gas"
    and st: "st \<Longrightarrow> readOnly e \<or> ro"
  shows "go_all (call_post env st gas e)
    (go_bind (call_code_of env run caller c addr input gas ro e2) (settle env (fst (sdb_ask Snapshot e))))"
proof (rule call_law_of [OF _ e2])
  have r: "readOnly e2 = readOnly e" using e2 by (simp add: call_rel_def)
  show "go_all (\<lambda>((ret, g, err), e'). unat g \<le> unat gas \<and> call_rel env st e2 e')
      (call_code_of env run caller c addr input gas ro e2)"
    by (rule go_all_mono [OF call_code_of_law [OF c]]) (use st r call_rel_weaken in auto)
qed

lemma CallCode_law: "go_all (call_post env (readOnly e) gas e) (evm_CallCode env run caller addr input gas val e)"
proof -
  define ce where "ce = sdb_ask (CanTransfer (env_db env) (ref_Address caller) val) e"
  define e1 where "e1 = snd ce"
  have e1: "call_post env (readOnly e) gas e r" if "call_post env (readOnly e) gas e1 r" for r
    using that unfolding e1_def ce_def by (auto intro: call_post_ask CanTransfer_same)
  have r1: "readOnly e1 = readOnly e" by (simp add: e1_def ce_def)
  have a: "call_post env (readOnly e) gas e (([], gas, Some ErrInsufficientBalance), e1)" by (rule e1) (simp add: call_post_def)
  have d: "call_post env (readOnly e) gas e (([], gas, Some ErrDepth), e)" by (simp add: call_post_def)
  have c: "go_all (call_post env (readOnly e) gas e) (go_bind (call_code_of env run caller
      (NewContract caller (ref_Address caller) val gas) addr input gas False (snd (sdb_ask Snapshot e1)))
      (settle env (fst (sdb_ask Snapshot e1))))"
    by (rule go_all_mono [OF code_call_law [of "readOnly e"]]) (simp_all add: e1 r1 NewContract_def)
  show ?thesis unfolding evm_CallCode_def Let_def case_prod_beta ce_def [symmetric] e1_def [symmetric]
    using a c d by (simp del: go_all_bind sdb_ask_other)
qed

lemma DelegateCall_law: "go_all (call_post env (readOnly e) gas e) (evm_DelegateCall env run caller addr input gas e)"
proof -
  have p: "go_all (\<lambda>((ret, g, err), e'). unat g \<le> unat gas \<and> call_rel env (readOnly e) e2 e')
      (case precompile env addr of Some pc \<Rightarrow> call_precompiled pc input gas e2 | None \<Rightarrow> Panic TypeAssertion)" for e2
    by (auto split: option.split intro!: go_all_mono [OF precompiled_law])
  have d: "call_post env (readOnly e) gas e (([], gas, Some ErrDepth), e)" by (simp add: call_post_def)
  show ?thesis
  proof (cases caller)
    case (AccountRef a)
    show ?thesis
      unfolding evm_DelegateCall_def Let_def case_prod_beta AccountRef contract_ref.case
      using d call_law_of [OF p] by (simp del: go_all_bind sdb_ask_other)
  next
    case (ContractRef parent)
    show ?thesis
      unfolding evm_DelegateCall_def Let_def case_prod_beta ContractRef contract_ref.case
      using d code_call_law [of "readOnly e"] by (simp del: go_all_bind sdb_ask_other add: AsDelegate_def NewContract_def)
  qed
qed

lemma StaticCall_law: "go_all (call_post env True gas e) (evm_StaticCall env run caller addr input gas e)"
proof -
  have d: "call_post env True gas e (([], gas, Some ErrDepth), e)" by (simp add: call_post_def)
  have t: "call_rel env True (snd (sdb_ask Snapshot e)) (sdb_do (AddBalance (env_db env) addr 0) (snd (sdb_ask Snapshot e)))"
    by (rule call_rel_do) (auto intro: balance_ops_advance static_same_balance0)
  show ?thesis
    unfolding evm_StaticCall_def Let_def case_prod_beta
    using d code_call_law [OF t, of _ gas True] by (simp del: go_all_bind sdb_ask_other add: NewContract_def)
qed

text \<open>Contract creation; an error here does not undo the increment of the creator's nonce.\<close>

lemma deploy_law:
  assumes c: "call_rel env False (snd (sdb_ask Snapshot e)) e2" and g: "unat (c_Gas c) \<le> unat gas"
  shows "go_all (\<lambda>((ret, a, g, err), e'). unat g \<le> unat gas \<and> call_rel env False e e')
    (deploy env address (fst (sdb_ask Snapshot e)) ret err c e2)"
proof -
  have rev: "go_all (\<lambda>((ret, a, g, err), e'). unat g \<le> unat gas \<and> call_rel env False e e')
      (go_bind (RevertToSnapshot (env_db env) (fst (sdb_ask Snapshot e)) (evm_StateDB e2))
        (\<lambda>s. Ret ((ret, address, g2, err), e2\<lparr>evm_StateDB := s\<rparr>)))"
    if "unat g2 \<le> unat gas" for g2 err
    unfolding go_all_bind
    unfolding go_all_iff using revert_rel(1) [OF c] that by (auto simp del: sdb_ask_other)
  have set: "call_rel env False (snd (sdb_ask Snapshot e)) (sdb_do (SetCode (env_db env) address ret) e2)"
    by (rule call_rel_trans [OF c], rule call_rel_do) (auto intro: SetCode_advances)
  have le: "unat (c_Gas (snd (UseGas x k))) \<le> unat gas" if "unat (c_Gas k) \<le> unat gas" for x k
    using that unat_sub_le [of x "c_Gas k"] by (auto simp: UseGas_def not_less)
  have snap: "call_rel env False e e3" if "call_rel env False (snd (sdb_ask Snapshot e)) e3" for e3
    using call_rel_trans [OF call_rel_Snapshot that] .
  show ?thesis
  proof (cases "check_deployed env ret err")
    case (Some er)
    show ?thesis
      using g snap [OF c]
      by (simp add: deploy_def Let_def Some rev le del: go_all_bind sdb_ask_other)
  next
    case None
    obtain ok c2 where u: "UseGas (len64 ret * CreateDataGas) c = (ok, c2)" by fastforce
    have c2: "unat (c_Gas c2) \<le> unat gas" using le [OF g, of "len64 ret * CreateDataGas"] by (simp add: u)
    show ?thesis
      using c2 snap [OF c] snap [OF set]
      by (cases ok) (simp_all add: deploy_def Let_def None u rev le del: go_all_bind sdb_ask_other)
  qed
qed

lemma create_law:
  "go_all (\<lambda>((ret, a, g, err), e'). unat g \<le> unat gas \<and> call_rel env False e e')
    (evm_create env run caller cah gas val address e)"
proof -
  let ?db = "env_db env" and ?c = "ref_Address caller"
  define e1 where "e1 = snd (sdb_ask (CanTransfer ?db ?c val) e)"
  define e2 where "e2 = snd (sdb_ask (GetNonce ?db ?c) e1)"
  define nonce where "nonce = fst (sdb_ask (GetNonce ?db ?c) e1)"
  define e3 where "e3 = sdb_do (SetNonce ?db ?c (nonce + 1)) e2"
  define e4 where "e4 = (if IsBerlin (chainRules env) then sdb_do (AddAddressToAccessList address) e3 else e3)"
  define e5 where "e5 = snd (sdb_ask (GetCodeHash ?db address) e4)"
  define e6 where "e6 = snd (sdb_ask (GetNonce ?db address) e5)"
  define e7 where "e7 = snd (sdb_ask Snapshot e6)"
  define e8 where "e8 = sdb_do (CreateAccount ?db address) e7"
  define e9 where "e9 = (if IsEIP158 (chainRules env) then sdb_do (SetNonce ?db address 1) e8 else e8)"
  define e10 where "e10 = sdb_do (Transfer ?db ?c address val) e9"
  define c where "c = SetCodeOptionalHash (Some address) cah (NewContract caller address val gas)"
  have c: "c_Gas c = gas" by (simp add: c_def SetCodeOptionalHash_def NewContract_def)
  have 01: "call_rel env False e e1" unfolding e1_def by (rule call_rel_ask) (rule aux_queries)
  have 12: "call_rel env False e1 e2" unfolding e2_def by (rule call_rel_ask) (rule aux_queries)
  have 23: "call_rel env False e2 e3" unfolding e3_def by (rule call_rel_do) (auto intro: SetNonce_advances)
  have 34: "call_rel env False e3 e4" unfolding e4_def by (auto intro!: call_rel_do plain_ops_advance)
  have 45: "call_rel env False e4 e5" unfolding e5_def by (rule call_rel_ask) (rule aux_queries)
  have 56: "call_rel env False e5 e6" unfolding e6_def by (rule call_rel_ask) (rule aux_queries)
  have 02: "call_rel env False e e2" using call_rel_trans [OF 01 12] .
  have 06: "call_rel env False e e6" using 02 23 34 45 56 call_rel_trans by blast
  have 78: "call_rel env False e7 e8" unfolding e8_def by (rule call_rel_do) (auto intro: CreateAccount_advances)
  have 89: "call_rel env False e8 e9" unfolding e9_def by (auto intro!: call_rel_do SetNonce_advances)
  have 9: "call_rel env False e9 e10" unfolding e10_def by (rule call_rel_do) (auto intro: Transfer_advances)
  have 710: "call_rel env False e7 e10" using 78 89 9 call_rel_trans by blast
  have run: "go_all (\<lambda>((ret, a, g, err), e'). unat g \<le> unat gas \<and> call_rel env False e e')
      (go_bind (run c [] False (e10\<lparr>evm_jumpdests := new_jumpdests caller (evm_jumpdests e10)\<rparr>))
        (\<lambda>((ret, err), c, e). deploy env address (fst (sdb_ask Snapshot e6)) ret err c e))"
    unfolding go_all_bind
  proof (subst go_all_iff, intro allI impI)
    fix x assume x: "run c [] False (e10\<lparr>evm_jumpdests := new_jumpdests caller (evm_jumpdests e10)\<rparr>) = Ret x"
    obtain ret err c' e' where xx: "x = ((ret, err), c', e')" by (metis prod.collapse)
    have r: "unat (c_Gas c') \<le> unat gas" "call_rel env False e10 e'"
      using run_law [OF x [unfolded xx]] c call_rel_weaken [of env "readOnly e10" e10 e' False] by simp_all
    have s: "call_rel env False (snd (sdb_ask Snapshot e6)) e'" using call_rel_trans [OF 710 r(2)] by (simp add: e7_def)
    show "go_all (\<lambda>((ret, a, g, err), e'). unat g \<le> unat gas \<and> call_rel env False e e')
       (case x of (x, xa) \<Rightarrow> (case x of (ret, err) \<Rightarrow> \<lambda>(c, e). deploy env address (fst (sdb_ask Snapshot e6)) ret err c e) xa)"
      unfolding xx prod.case
      by (rule go_all_mono [OF deploy_law [OF s r(1)]]) (auto intro: call_rel_trans [OF 06])
  qed
  show ?thesis
    unfolding evm_create_def Let_def case_prod_beta
    unfolding e1_def [symmetric] e2_def [symmetric] nonce_def [symmetric] e3_def [symmetric] e4_def [symmetric]
      e5_def [symmetric] e6_def [symmetric] e7_def [symmetric] e8_def [symmetric] e9_def [symmetric] e10_def [symmetric] c_def [symmetric]
    using 01 02 06 run [unfolded case_prod_beta]
    by (simp add: case_prod_beta del: go_all_bind sdb_ask_other)
qed

lemma Create_law:
  "go_all (\<lambda>((ret, a, g, err), e'). unat g \<le> unat gas \<and> call_rel env False e e') (evm_Create env run caller code gas val e)"
  "go_all (\<lambda>((ret, a, g, err), e'). unat g \<le> unat gas \<and> call_rel env False e e') (evm_Create2 env run caller code gas val salt e)"
proof -
  have 1: "call_rel env False e (snd (sdb_ask (GetNonce (env_db env) (ref_Address caller)) e))"
    by (rule call_rel_ask) (rule aux_queries)
  show "go_all (\<lambda>((ret, a, g, err), e'). unat g \<le> unat gas \<and> call_rel env False e e') (evm_Create env run caller code gas val e)"
    unfolding evm_Create_def Let_def case_prod_beta
    by (rule go_all_mono [OF create_law]) (auto intro: call_rel_trans [OF 1])
  show "go_all (\<lambda>((ret, a, g, err), e'). unat g \<le> unat gas \<and> call_rel env False e e') (evm_Create2 env run caller code gas val salt e)"
    unfolding evm_Create2_def Let_def by (rule create_law)
qed

end

end
