(* ===== verification/Instructions.thy ===== *)
theory Instructions imports EVM_Call_Laws begin

text \<open>
  The instructions: \<open>core/vm/instructions.go\<close> and the ones that \<open>core/vm/eips.go\<close> adds. Each is an
  action that returns the bytes the Go function returns; \<open>return nil, nil\<close> is \<open>a_ret []\<close> (Go's nil
  and empty slices are not told apart). The instructions that start calls get the interpreter as a
  parameter.
\<close>

type_synonym instruction = "env \<Rightarrow> runner \<Rightarrow> bytes act"

definition done_nil :: "bytes act" where
  "done_nil = a_ret []"

section \<open>Arithmetic, comparison, bits\<close>

text \<open>\<open>x, y := pop(), peek(); *y = f x y\<close>, the shape of all binary operations.\<close>

definition bin_op :: "(u256 \<Rightarrow> u256 \<Rightarrow> u256) \<Rightarrow> bytes act" where
  "bin_op f = a_bind a_pop (\<lambda>x. a_bind a_peek (\<lambda>y. a_bind (a_set (f x y)) (\<lambda>_. done_nil)))"

definition flag :: "bool \<Rightarrow> u256" where
  "flag b = (if b then 1 else 0)"

definition opAdd :: instruction where "opAdd env run = bin_op (\<lambda>x y. x + y)"
definition opSub :: instruction where "opSub env run = bin_op (\<lambda>x y. x - y)"
definition opMul :: instruction where "opMul env run = bin_op (\<lambda>x y. x * y)"
definition opDiv :: instruction where "opDiv env run = bin_op (u_Div (env_lib env))"
definition opSdiv :: instruction where "opSdiv env run = bin_op (u_SDiv (env_lib env))"
definition opMod :: instruction where "opMod env run = bin_op (u_Mod (env_lib env))"
definition opSmod :: instruction where "opSmod env run = bin_op (u_SMod (env_lib env))"
definition opExp :: instruction where "opExp env run = bin_op (u_Exp (env_lib env))"
definition opSignExtend :: instruction where
  "opSignExtend env run = bin_op (\<lambda>back num. u_ExtendSign (env_lib env) num back)"
definition opNot :: instruction where
  "opNot env run = a_bind a_peek (\<lambda>x. a_bind (a_set (NOT x)) (\<lambda>_. done_nil))"
definition opLt :: instruction where "opLt env run = bin_op (\<lambda>x y. flag (x < y))"
definition opGt :: instruction where "opGt env run = bin_op (\<lambda>x y. flag (x > y))"
definition opSlt :: instruction where "opSlt env run = bin_op (\<lambda>x y. flag (sint x < sint y))"
definition opSgt :: instruction where "opSgt env run = bin_op (\<lambda>x y. flag (sint x > sint y))"
definition opEq :: instruction where "opEq env run = bin_op (\<lambda>x y. flag (x = y))"
definition opIszero :: instruction where
  "opIszero env run = a_bind a_peek (\<lambda>x. a_bind (a_set (flag (x = 0))) (\<lambda>_. done_nil))"
definition opAnd :: instruction where "opAnd env run = bin_op (\<lambda>x y. and x y)"
definition opOr :: instruction where "opOr env run = bin_op (\<lambda>x y. or x y)"
definition opXor :: instruction where "opXor env run = bin_op (\<lambda>x y. xor x y)"
definition opByte :: instruction where "opByte env run = bin_op (\<lambda>th val. u_Byte (env_lib env) val th)"

definition opAddmod :: instruction where
  "opAddmod env run = a_bind a_pop (\<lambda>x. a_bind a_pop (\<lambda>y. a_bind a_peek (\<lambda>z.
     a_bind (a_set (if z = 0 then 0 else u_AddMod (env_lib env) x y z)) (\<lambda>_. done_nil))))"

definition opMulmod :: instruction where
  "opMulmod env run = a_bind a_pop (\<lambda>x. a_bind a_pop (\<lambda>y. a_bind a_peek (\<lambda>z.
     a_bind (a_set (u_MulMod (env_lib env) x y z)) (\<lambda>_. done_nil))))"

definition opSHL :: instruction where
  "opSHL env run = bin_op (\<lambda>shift val. if shift < 256 then u_Lsh (env_lib env) val (unat (Uint64 shift)) else 0)"

definition opSHR :: instruction where
  "opSHR env run = bin_op (\<lambda>shift val. if shift < 256 then u_Rsh (env_lib env) val (unat (Uint64 shift)) else 0)"

definition opSAR :: instruction where
  "opSAR env run = bin_op (\<lambda>shift val.
     if shift > 256 then if sint val \<ge> 0 then 0 else - 1
     else u_SRsh (env_lib env) val (unat (Uint64 shift)))"

section \<open>Memory\<close>

text \<open>\<open>Memory.GetPtr\<close> and \<open>GetCopy\<close> of an offset and a size from the stack, and \<open>Memory.Set\<close>.\<close>

definition mem_ptr :: "u256 \<Rightarrow> u256 \<Rightarrow> bytes act" where
  "mem_ptr offset sz = a_bind (a_frame fr_Memory) (\<lambda>m. a_go (mem_GetPtr m (Int64 (Uint64 offset)) (Int64 (Uint64 sz))))"

definition mem_copy :: "u256 \<Rightarrow> u256 \<Rightarrow> bytes act" where
  "mem_copy offset sz = a_bind (a_frame fr_Memory) (\<lambda>m. a_go (mem_GetCopy m (Int64 (Uint64 offset)) (Int64 (Uint64 sz))))"

definition mem_write :: "u256 \<Rightarrow> u256 \<Rightarrow> bytes \<Rightarrow> unit act" where
  "mem_write offset sz d = a_mem (\<lambda>m. mem_Set m (Uint64 offset) (Uint64 sz) d)"

definition opKeccak256 :: instruction where
  "opKeccak256 env run =
     a_bind a_pop (\<lambda>offset. a_bind a_peek (\<lambda>sz.
     a_bind (mem_ptr offset sz) (\<lambda>d.
     let h = Keccak256Hash (env_db env) d in
     a_bind (if EnablePreimageRecording env then a_do (AddPreimage h d) else a_ret ()) (\<lambda>_.
     a_bind (a_set h) (\<lambda>_. done_nil)))))"

definition opMload :: instruction where
  "opMload env run =
     a_bind a_peek (\<lambda>v.
     a_bind (mem_ptr v 32) (\<lambda>d.
     a_bind (a_set (SetBytes d)) (\<lambda>_. done_nil)))"

definition opMstore :: instruction where
  "opMstore env run =
     a_bind a_pop (\<lambda>mStart. a_bind a_pop (\<lambda>val.
     a_bind (a_mem (\<lambda>m. mem_Set32 m (Uint64 mStart) val)) (\<lambda>_. done_nil)))"

definition opMstore8 :: instruction where
  "opMstore8 env run =
     a_bind a_pop (\<lambda>off. a_bind a_pop (\<lambda>val.
     a_bind (a_mem (\<lambda>m. mem_Set8 m (Uint64 off) (ucast (Uint64 val)))) (\<lambda>_. done_nil)))"

definition opMcopy :: instruction where
  "opMcopy env run =
     a_bind a_pop (\<lambda>dst. a_bind a_pop (\<lambda>src. a_bind a_pop (\<lambda>len.
     a_bind (a_mem (\<lambda>m. mem_Copy m (Uint64 dst) (Uint64 src) (Uint64 len))) (\<lambda>_. done_nil))))"

section \<open>Contract, call data and code\<close>

definition push_value :: "u256 \<Rightarrow> bytes act" where
  "push_value v = a_bind (a_push v) (\<lambda>_. done_nil)"

definition a_contract :: "(contract \<Rightarrow> 'a) \<Rightarrow> 'a act" where
  "a_contract f = a_frame (\<lambda>fr. f (fr_Contract fr))"

definition opAddress :: instruction where
  "opAddress env run = a_bind a_self (\<lambda>a. push_value (ucast a))"
definition opBalance :: instruction where
  "opBalance env run =
     a_bind a_peek (\<lambda>slot.
     a_bind (a_ask (GetBalance (env_db env) (Bytes20 slot))) (\<lambda>b. a_bind (a_set b) (\<lambda>_. done_nil)))"
definition opOrigin :: instruction where
  "opOrigin env run = push_value (ucast (Origin (TxContext env)))"
definition opCaller :: instruction where
  "opCaller env run = a_bind (a_contract c_CallerAddress) (\<lambda>a. push_value (ucast a))"
definition opCallValue :: instruction where
  "opCallValue env run = a_bind (a_contract c_value) push_value"

definition opCallDataLoad :: instruction where
  "opCallDataLoad env run =
     a_bind a_peek (\<lambda>x.
     case Uint64WithOverflow x of (offset, overflow) \<Rightarrow>
       if \<not> overflow then
         a_bind (a_contract c_Input) (\<lambda>input.
         a_bind (a_go (getData input offset 32)) (\<lambda>d. a_bind (a_set (SetBytes d)) (\<lambda>_. done_nil)))
       else a_bind (a_set 0) (\<lambda>_. done_nil))"

definition opCallDataSize :: instruction where
  "opCallDataSize env run = a_bind (a_contract c_Input) (\<lambda>input. push_value (ucast (len64 input)))"

text \<open>An offset into data: everything beyond 64 bits reads as the largest offset.\<close>

definition data_offset :: "u256 \<Rightarrow> u64" where
  "data_offset x = (case Uint64WithOverflow x of (o64, overflow) \<Rightarrow> if overflow then 0xffffffffffffffff else o64)"

definition opCallDataCopy :: instruction where
  "opCallDataCopy env run =
     a_bind a_pop (\<lambda>memOffset. a_bind a_pop (\<lambda>dataOffset. a_bind a_pop (\<lambda>len.
     a_bind (a_contract c_Input) (\<lambda>input.
     a_bind (a_go (getData input (data_offset dataOffset) (Uint64 len))) (\<lambda>d.
     a_bind (mem_write memOffset len d) (\<lambda>_. done_nil))))))"

definition opReturnDataSize :: instruction where
  "opReturnDataSize env run = a_bind (a_evm returnData) (\<lambda>d. push_value (ucast (len64 d)))"

definition opReturnDataCopy :: instruction where
  "opReturnDataCopy env run =
     a_bind a_pop (\<lambda>memOffset. a_bind a_pop (\<lambda>dataOffset. a_bind a_pop (\<lambda>len.
     case Uint64WithOverflow dataOffset of (offset64, overflow) \<Rightarrow>
       if overflow then a_err ErrReturnDataOutOfBounds
       else case Uint64WithOverflow (dataOffset + len) of (end64, overflow) \<Rightarrow>
         a_bind (a_evm returnData) (\<lambda>d.
         if overflow \<or> len64 d < end64 then a_err ErrReturnDataOutOfBounds
         else a_bind (a_go (slice d (unat offset64) (unat end64))) (\<lambda>part.
           a_bind (mem_write memOffset len part) (\<lambda>_. done_nil))))))"

definition opExtCodeSize :: instruction where
  "opExtCodeSize env run =
     a_bind a_peek (\<lambda>slot.
     a_bind (a_ask (GetCodeSize (env_db env) (Bytes20 slot))) (\<lambda>n.
     a_bind (a_set (ucast (word_of_nat n :: u64))) (\<lambda>_. done_nil)))"

definition opCodeSize :: instruction where
  "opCodeSize env run = a_bind (a_contract c_Code) (\<lambda>code. push_value (ucast (len64 code)))"

definition opCodeCopy :: instruction where
  "opCodeCopy env run =
     a_bind a_pop (\<lambda>memOffset. a_bind a_pop (\<lambda>codeOffset. a_bind a_pop (\<lambda>len.
     a_bind (a_contract c_Code) (\<lambda>code.
     a_bind (a_go (getData code (data_offset codeOffset) (Uint64 len))) (\<lambda>d.
     a_bind (mem_write memOffset len d) (\<lambda>_. done_nil))))))"

definition opExtCodeCopy :: instruction where
  "opExtCodeCopy env run =
     a_bind a_pop (\<lambda>a. a_bind a_pop (\<lambda>memOffset. a_bind a_pop (\<lambda>codeOffset. a_bind a_pop (\<lambda>len.
     a_bind (a_ask (GetCode (env_db env) (Bytes20 a))) (\<lambda>code.
     a_bind (a_go (getData (code_bytes code) (data_offset codeOffset) (Uint64 len))) (\<lambda>d.
     a_bind (mem_write memOffset len d) (\<lambda>_. done_nil)))))))"

definition opExtCodeHash :: instruction where
  "opExtCodeHash env run =
     a_bind a_peek (\<lambda>slot.
     a_bind (a_ask (Empty (env_db env) (Bytes20 slot))) (\<lambda>empty.
       if empty then a_bind (a_set 0) (\<lambda>_. done_nil)
       else a_bind (a_ask (GetCodeHash (env_db env) (Bytes20 slot))) (\<lambda>h. a_bind (a_set h) (\<lambda>_. done_nil))))"

section \<open>The block and the transaction\<close>

text \<open>\<open>uint256.FromBig\<close> reduces modulo \<open>2 ^ 256\<close>; pushing the nil it makes of nil panics.\<close>

definition push_big :: "int option \<Rightarrow> bytes act" where
  "push_big x = (case x of None \<Rightarrow> a_panic NilDereference | Some i \<Rightarrow> push_value (word_of_int i))"

definition opGasprice :: instruction where
  "opGasprice env run = push_big (Some (GasPrice (TxContext env)))"

definition BigUint64 :: "int \<Rightarrow> u64" where
  "BigUint64 i = word_of_int (abs i)"

definition opBlockhash :: instruction where
  "opBlockhash env run =
     a_bind a_peek (\<lambda>num.
     case Uint64WithOverflow num of (num64, overflow) \<Rightarrow>
       if overflow then a_bind (a_set 0) (\<lambda>_. done_nil)
       else let upper = BigUint64 (BlockNumber (Context env));
                lower = (if upper < 257 then 0 else upper - 256)
            in a_bind (a_set (if num64 \<ge> lower \<and> num64 < upper then GetHash (Context env) num64 else 0))
                 (\<lambda>_. done_nil))"

definition opCoinbase :: instruction where
  "opCoinbase env run = push_value (ucast (Coinbase (Context env)))"
definition opTimestamp :: instruction where
  "opTimestamp env run = push_value (ucast (Time (Context env)))"
definition opNumber :: instruction where
  "opNumber env run = push_big (Some (BlockNumber (Context env)))"
definition opDifficulty :: instruction where
  "opDifficulty env run = push_big (Some (Difficulty (Context env)))"
definition opRandom :: instruction where
  "opRandom env run = (case Random (Context env) of None \<Rightarrow> a_panic NilDereference | Some h \<Rightarrow> push_value h)"
definition opGasLimit :: instruction where
  "opGasLimit env run = push_value (ucast (GasLimit (Context env)))"
definition opSelfBalance :: instruction where
  "opSelfBalance env run =
     a_bind a_self (\<lambda>a. a_bind (a_ask (GetBalance (env_db env) a)) push_value)"
definition opChainID :: instruction where
  "opChainID env run = push_big (ChainID env)"
definition opBaseFee :: instruction where
  "opBaseFee env run = push_big (BaseFee (Context env))"
definition opBlobBaseFee :: instruction where
  "opBlobBaseFee env run = push_big (BlobBaseFee (Context env))"
definition opBlobHash :: instruction where
  "opBlobHash env run =
     a_bind a_peek (\<lambda>index.
     let hashes = BlobHashes (TxContext env) in
     if index < ucast (len64 hashes) then
       a_bind (a_go (nth_go hashes (unat (Uint64 index)))) (\<lambda>h. a_bind (a_set h) (\<lambda>_. done_nil))
     else a_bind (a_set 0) (\<lambda>_. done_nil))"

section \<open>Stack, storage and control flow\<close>

definition opPop :: instruction where
  "opPop env run = a_bind a_pop (\<lambda>_. done_nil)"

text \<open>The write protection: every instruction that changes the state starts with it.\<close>

definition guarded :: "bytes act \<Rightarrow> bytes act" where
  "guarded m = a_bind (a_evm readOnly) (\<lambda>ro. if ro then a_err ErrWriteProtection else m)"

definition opSload :: instruction where
  "opSload env run =
     a_bind a_peek (\<lambda>loc. a_bind a_self (\<lambda>self.
     a_bind (a_ask (GetState (env_db env) self loc)) (\<lambda>val. a_bind (a_set val) (\<lambda>_. done_nil))))"

definition opSstore :: instruction where
  "opSstore env run = guarded (
     a_bind a_pop (\<lambda>loc. a_bind a_pop (\<lambda>val. a_bind a_self (\<lambda>self.
     a_bind (a_do (SetState (env_db env) self loc val)) (\<lambda>_. done_nil)))))"

definition opTload :: instruction where
  "opTload env run =
     a_bind a_peek (\<lambda>loc. a_bind a_self (\<lambda>self.
     a_bind (a_ask (\<lambda>s. (GetTransientState self loc s, s))) (\<lambda>val. a_bind (a_set val) (\<lambda>_. done_nil))))"

definition opTstore :: instruction where
  "opTstore env run = guarded (
     a_bind a_pop (\<lambda>loc. a_bind a_pop (\<lambda>val. a_bind a_self (\<lambda>self.
     a_bind (a_do (SetTransientState self loc val)) (\<lambda>_. done_nil)))))"

definition a_validJumpdest :: "u256 \<Rightarrow> bool act" where
  "a_validJumpdest pos e fr =
     go_bind (validJumpdest pos (fr_Contract fr) (evm_jumpdests e)) (\<lambda>(ok, c, jd).
       Ret (Inr ok, e\<lparr>evm_jumpdests := jd\<rparr>, fr\<lparr>fr_Contract := c\<rparr>))"

text \<open>The interpreter loop increases the program counter after the jump.\<close>

definition jump_to :: "u256 \<Rightarrow> bytes act" where
  "jump_to pos =
     a_bind (a_validJumpdest pos) (\<lambda>ok.
       if \<not> ok then a_err ErrInvalidJump
       else a_bind (a_pc (Uint64 pos - 1)) (\<lambda>_. done_nil))"

definition opJump :: instruction where
  "opJump env run =
     a_bind (a_abort env) (\<lambda>aborted.
       if aborted then a_err errStopToken else a_bind a_pop jump_to)"

definition opJumpi :: instruction where
  "opJumpi env run =
     a_bind (a_abort env) (\<lambda>aborted.
       if aborted then a_err errStopToken
       else a_bind a_pop (\<lambda>pos. a_bind a_pop (\<lambda>cond. if cond \<noteq> 0 then jump_to pos else done_nil)))"

definition opJumpdest :: instruction where "opJumpdest env run = done_nil"
definition opPc :: instruction where
  "opPc env run = a_bind (a_frame fr_pc) (\<lambda>pc. push_value (ucast pc))"
definition opMsize :: instruction where
  "opMsize env run = a_bind (a_frame fr_Memory) (\<lambda>m. push_value (ucast (len64 (mem_store m))))"
definition opGas :: instruction where
  "opGas env run = a_bind a_gas_left (\<lambda>g. push_value (ucast g))"

definition opReturn :: instruction where
  "opReturn env run = a_bind a_pop (\<lambda>offset. a_bind a_pop (\<lambda>sz.
     a_bind (mem_ptr offset sz) (\<lambda>ret. a_fail errStopToken ret)))"

definition opRevert :: instruction where
  "opRevert env run = a_bind a_pop (\<lambda>offset. a_bind a_pop (\<lambda>sz.
     a_bind (mem_ptr offset sz) (\<lambda>ret.
     a_bind (a_returnData ret) (\<lambda>_. a_fail ErrExecutionReverted ret))))"

definition opUndefined :: instruction where
  "opUndefined env run =
     a_bind (a_frame fr_pc) (\<lambda>pc. a_bind (a_contract c_Code) (\<lambda>code.
     a_bind (a_go (nth_go code (unat pc))) (\<lambda>op. a_err (ErrInvalidOpCode op))))"

definition opStop :: instruction where "opStop env run = a_err errStopToken"

definition opSelfdestruct :: instruction where
  "opSelfdestruct env run = guarded (
     a_bind a_pop (\<lambda>beneficiary. a_bind a_self (\<lambda>self.
     a_bind (a_ask (GetBalance (env_db env) self)) (\<lambda>balance.
     a_bind (a_do (AddBalance (env_db env) (Bytes20 beneficiary) balance)) (\<lambda>_.
     a_bind (a_do (SelfDestruct (env_db env) self)) (\<lambda>_. a_err errStopToken))))))"

definition opSelfdestruct6780 :: instruction where
  "opSelfdestruct6780 env run = guarded (
     a_bind a_pop (\<lambda>beneficiary. a_bind a_self (\<lambda>self.
     a_bind (a_ask (GetBalance (env_db env) self)) (\<lambda>balance.
     a_bind (a_do (SubBalance (env_db env) self balance)) (\<lambda>_.
     a_bind (a_do (AddBalance (env_db env) (Bytes20 beneficiary) balance)) (\<lambda>_.
     a_bind (a_do (Selfdestruct6780 (env_db env) self)) (\<lambda>_. a_err errStopToken)))))))"

primrec a_pops :: "nat \<Rightarrow> u256 list act" where
  "a_pops 0 = a_ret []"
| "a_pops (Suc n) = a_bind a_pop (\<lambda>x. a_bind (a_pops n) (\<lambda>xs. a_ret (x # xs)))"

definition makeLog :: "nat \<Rightarrow> instruction" where
  "makeLog n env run = guarded (
     a_bind a_pop (\<lambda>mStart. a_bind a_pop (\<lambda>mSize. a_bind (a_pops n) (\<lambda>topics.
     a_bind (mem_copy mStart mSize) (\<lambda>d. a_bind a_self (\<lambda>self.
     a_bind (a_do (AddLog \<lparr>log_Address = self, log_Topics = topics, log_Data = d,
               log_BlockNumber = BigUint64 (BlockNumber (Context env)), log_TxHash = 0, log_TxIndex = 0,
               log_BlockHash = 0, log_Index = 0\<rparr>)) (\<lambda>_. done_nil)))))))"

definition opPush0 :: instruction where "opPush0 env run = push_value 0"

definition opPush1 :: instruction where
  "opPush1 env run =
     a_bind (a_frame fr_pc) (\<lambda>pc. a_bind (a_contract c_Code) (\<lambda>code.
     a_bind (a_pc (pc + 1)) (\<lambda>_.
     if pc + 1 < len64 code then a_bind (a_go (nth_go code (unat (pc + 1)))) (\<lambda>b. push_value (ucast b))
     else push_value 0)))"

text \<open>
  \<open>startMin\<close> and \<open>endMin\<close> are Go ints; a slice with a negative bound is a panic.
\<close>

definition makePush :: "u64 \<Rightarrow> nat \<Rightarrow> instruction" where
  "makePush sz pushByteSize env run =
     a_bind (a_frame fr_pc) (\<lambda>pc. a_bind (a_contract c_Code) (\<lambda>code.
     let codeLen = int (length code);
         startMin = (if Int64 (pc + 1) < codeLen then Int64 (pc + 1) else codeLen);
         endMin = (if startMin + int pushByteSize < codeLen then startMin + int pushByteSize else codeLen) in
     a_bind (a_go (if startMin < 0 then Panic SliceOutOfRange else slice code (nat startMin) (nat endMin))) (\<lambda>d.
     a_bind (a_push (SetBytes (RightPadBytes d pushByteSize))) (\<lambda>_.
     a_bind (a_pc (pc + sz)) (\<lambda>_. done_nil)))))"

definition makeDup :: "nat \<Rightarrow> instruction" where
  "makeDup n env run = a_bind (a_stack (stack_dup n)) (\<lambda>_. done_nil)"

definition makeSwap :: "nat \<Rightarrow> instruction" where
  "makeSwap n env run = a_bind (a_stack (stack_swap (n + 1))) (\<lambda>_. done_nil)"

section \<open>Calls and creations\<close>

text \<open>Start a call; the caller is the contract of this frame.\<close>

definition a_call :: "(contract_ref \<Rightarrow> evm \<Rightarrow> ('r \<times> evm) go) \<Rightarrow> 'r act" where
  "a_call f e fr = go_bind (f (ContractRef (fr_Contract fr)) e) (\<lambda>(r, e). Ret (Inr r, e, fr))"

text \<open>
  The end of \<open>opCreate\<close> and \<open>opCreate2\<close>: push the new address or 0, take back the gas, keep the
  output of a revert.
\<close>

definition create_end :: "bool \<Rightarrow> bytes \<times> address \<times> u64 \<times> vm_error option \<Rightarrow> bytes act" where
  "create_end failed r =
     (case r of (res, addr, returnGas, suberr) \<Rightarrow>
        a_bind (a_push (if failed then 0 else ucast addr)) (\<lambda>_.
        a_bind (a_add_gas returnGas) (\<lambda>_.
        if suberr = Some ErrExecutionReverted then a_bind (a_returnData res) (\<lambda>_. a_ret res)
        else a_bind (a_returnData []) (\<lambda>_. done_nil))))"

definition opCreate :: instruction where
  "opCreate env run = guarded (
     a_bind a_pop (\<lambda>val. a_bind a_pop (\<lambda>offset. a_bind a_pop (\<lambda>sz.
     a_bind (mem_copy offset sz) (\<lambda>input.
     a_bind a_gas_left (\<lambda>gas.
     let gas = (if IsEIP150 (chainRules env) then gas - gas div 64 else gas) in
     a_bind (a_use_gas gas) (\<lambda>_.
     a_bind (a_call (\<lambda>caller. evm_Create env run caller input gas val)) (\<lambda>(res, addr, returnGas, suberr).
     create_end (IsHomestead (chainRules env) \<and> suberr = Some ErrCodeStoreOutOfGas \<or>
                 suberr \<noteq> None \<and> suberr \<noteq> Some ErrCodeStoreOutOfGas) (res, addr, returnGas, suberr)))))))))"

definition opCreate2 :: instruction where
  "opCreate2 env run = guarded (
     a_bind a_pop (\<lambda>endowment. a_bind a_pop (\<lambda>offset. a_bind a_pop (\<lambda>sz. a_bind a_pop (\<lambda>salt.
     a_bind (mem_copy offset sz) (\<lambda>input.
     a_bind a_gas_left (\<lambda>gas.
     let gas = gas - gas div 64 in
     a_bind (a_use_gas gas) (\<lambda>_.
     a_bind (a_call (\<lambda>caller. evm_Create2 env run caller input gas endowment salt)) (\<lambda>(res, addr, returnGas, suberr).
     create_end (suberr \<noteq> None) (res, addr, returnGas, suberr))))))))))"

text \<open>The end of the four call instructions.\<close>

definition call_end :: "u256 \<Rightarrow> u256 \<Rightarrow> call_result \<Rightarrow> bytes act" where
  "call_end retOffset retSize r =
     (case r of (ret, returnGas, err) \<Rightarrow>
        a_bind (a_push (flag (err = None))) (\<lambda>_.
        a_bind (if err = None \<or> err = Some ErrExecutionReverted then mem_write retOffset retSize ret else a_ret ()) (\<lambda>_.
        a_bind (a_add_gas returnGas) (\<lambda>_.
        a_bind (a_returnData ret) (\<lambda>_. a_ret ret)))))"

definition opCall :: instruction where
  "opCall env run =
     a_bind a_pop (\<lambda>_. a_bind (a_evm callGasTemp) (\<lambda>gas.
     a_bind a_pop (\<lambda>addr. a_bind a_pop (\<lambda>val. a_bind a_pop (\<lambda>inOffset. a_bind a_pop (\<lambda>inSize.
     a_bind a_pop (\<lambda>retOffset. a_bind a_pop (\<lambda>retSize.
     a_bind (mem_ptr inOffset inSize) (\<lambda>args.
     a_bind (a_evm readOnly) (\<lambda>ro.
     if ro \<and> val \<noteq> 0 then a_err ErrWriteProtection
     else let gas = (if val \<noteq> 0 then gas + CallStipend else gas) in
       a_bind (a_call (\<lambda>caller. evm_Call env run caller (Bytes20 addr) args gas val))
         (call_end retOffset retSize)))))))))))"

definition opCallCode :: instruction where
  "opCallCode env run =
     a_bind a_pop (\<lambda>_. a_bind (a_evm callGasTemp) (\<lambda>gas.
     a_bind a_pop (\<lambda>addr. a_bind a_pop (\<lambda>val. a_bind a_pop (\<lambda>inOffset. a_bind a_pop (\<lambda>inSize.
     a_bind a_pop (\<lambda>retOffset. a_bind a_pop (\<lambda>retSize.
     a_bind (mem_ptr inOffset inSize) (\<lambda>args.
     let gas = (if val \<noteq> 0 then gas + CallStipend else gas) in
     a_bind (a_call (\<lambda>caller. evm_CallCode env run caller (Bytes20 addr) args gas val))
       (call_end retOffset retSize))))))))))"

definition opDelegateCall :: instruction where
  "opDelegateCall env run =
     a_bind a_pop (\<lambda>_. a_bind (a_evm callGasTemp) (\<lambda>gas.
     a_bind a_pop (\<lambda>addr. a_bind a_pop (\<lambda>inOffset. a_bind a_pop (\<lambda>inSize.
     a_bind a_pop (\<lambda>retOffset. a_bind a_pop (\<lambda>retSize.
     a_bind (mem_ptr inOffset inSize) (\<lambda>args.
     a_bind (a_call (\<lambda>caller. evm_DelegateCall env run caller (Bytes20 addr) args gas))
       (call_end retOffset retSize)))))))))"

definition opStaticCall :: instruction where
  "opStaticCall env run =
     a_bind a_pop (\<lambda>_. a_bind (a_evm callGasTemp) (\<lambda>gas.
     a_bind a_pop (\<lambda>addr. a_bind a_pop (\<lambda>inOffset. a_bind a_pop (\<lambda>inSize.
     a_bind a_pop (\<lambda>retOffset. a_bind a_pop (\<lambda>retSize.
     a_bind (mem_ptr inOffset inSize) (\<lambda>args.
     a_bind (a_call (\<lambda>caller. evm_StaticCall env run caller (Bytes20 addr) args gas))
       (call_end retOffset retSize)))))))))"

end
