(* ===== verification/Instruction_Laws.thy ===== *)
theory Instruction_Laws imports Instructions begin

text \<open>
  What all instructions have in common: they respect every relation of the locales of
  \<open>EVM_Relation\<close>, and each needs and leaves the stack heights that the jump tables declare for it.
\<close>

section \<open>Jump destinations\<close>

lemma validJumpdest_fields:
  "validJumpdest pos c jd = Ret (b, c', jd') \<Longrightarrow> \<exists>a. c' = c\<lparr>c_analysis := a\<rparr>"
  by (auto simp: validJumpdest_def isCode_def intro: c_analysis_self split: prod.splits if_splits option.splits)

section \<open>Instructions respect the relations\<close>

context evm_relation begin

lemma pres_validJumpdest: "pres R (a_validJumpdest pos)"
proof (rule presI)
  fix e fr r e' fr' assume "a_validJumpdest pos e fr = Ret (r, e', fr')"
  then obtain ok c jd where v: "validJumpdest pos (fr_Contract fr) (evm_jumpdests e) = Ret (ok, c, jd)"
    and r: "e' = e\<lparr>evm_jumpdests := jd\<rparr>" "fr' = fr\<lparr>fr_Contract := c\<rparr>"
    by (auto simp: a_validJumpdest_def)
  show "R (e, fr) (e', fr')" using validJumpdest_fields [OF v] R_analysis r by auto
qed

lemma pres_pops: "pres R (a_pops n)"
  by (induction n) (auto intro!: pres_base)

lemma pres_parts_more:
  "pres R done_nil" "pres R (mem_ptr x y)" "pres R (mem_copy x y)" "pres R (mem_write x y d)"
  "pres R (push_value v)" "pres R (a_contract f)" "pres R (push_big b)" "pres R (jump_to pos)"
  "pres R (bin_op g)"
  unfolding done_nil_def mem_ptr_def mem_copy_def mem_write_def push_value_def a_contract_def push_big_def
    jump_to_def bin_op_def
  by (intro pres_base pres_validJumpdest)+

lemma pres_pure:
  "pres R (opAdd env run)" "pres R (opSub env run)" "pres R (opMul env run)" "pres R (opDiv env run)"
  "pres R (opSdiv env run)" "pres R (opMod env run)" "pres R (opSmod env run)" "pres R (opExp env run)"
  "pres R (opSignExtend env run)" "pres R (opNot env run)" "pres R (opLt env run)" "pres R (opGt env run)"
  "pres R (opSlt env run)" "pres R (opSgt env run)" "pres R (opEq env run)" "pres R (opIszero env run)"
  "pres R (opAnd env run)" "pres R (opOr env run)" "pres R (opXor env run)" "pres R (opByte env run)"
  "pres R (opAddmod env run)" "pres R (opMulmod env run)" "pres R (opSHL env run)" "pres R (opSHR env run)"
  "pres R (opSAR env run)"
  unfolding opAdd_def opSub_def opMul_def opDiv_def opSdiv_def opMod_def opSmod_def opExp_def opSignExtend_def
    opNot_def opLt_def opGt_def opSlt_def opSgt_def opEq_def opIszero_def opAnd_def opOr_def opXor_def opByte_def
    opAddmod_def opMulmod_def opSHL_def opSHR_def opSAR_def
  by (intro pres_base pres_parts_more)+

lemma pres_memory_ops:
  "pres R (opKeccak256 env run)" "pres R (opMload env run)" "pres R (opMstore env run)" "pres R (opMstore8 env run)"
  "pres R (opMcopy env run)" "pres R (opCallDataLoad env run)" "pres R (opCallDataCopy env run)"
  "pres R (opReturnDataCopy env run)" "pres R (opCodeCopy env run)" "pres R (opExtCodeCopy env run)"
  "pres R (opMsize env run)" "pres R (opReturn env run)" "pres R (opRevert env run)"
  unfolding opKeccak256_def opMload_def opMstore_def opMstore8_def opMcopy_def opCallDataLoad_def opCallDataCopy_def
    opReturnDataCopy_def opCodeCopy_def opExtCodeCopy_def opMsize_def opReturn_def opRevert_def
  by (intro pres_base pres_parts_more)+

lemma pres_context_ops:
  "pres R (opAddress env run)" "pres R (opBalance env run)" "pres R (opOrigin env run)" "pres R (opCaller env run)"
  "pres R (opCallValue env run)" "pres R (opCallDataSize env run)" "pres R (opReturnDataSize env run)"
  "pres R (opExtCodeSize env run)" "pres R (opCodeSize env run)" "pres R (opExtCodeHash env run)"
  "pres R (opGasprice env run)" "pres R (opBlockhash env run)" "pres R (opCoinbase env run)"
  "pres R (opTimestamp env run)" "pres R (opNumber env run)" "pres R (opDifficulty env run)"
  "pres R (opRandom env run)" "pres R (opGasLimit env run)" "pres R (opSelfBalance env run)"
  "pres R (opChainID env run)" "pres R (opBaseFee env run)" "pres R (opBlobBaseFee env run)" "pres R (opBlobHash env run)"
  unfolding opAddress_def opBalance_def opOrigin_def opCaller_def opCallValue_def opCallDataSize_def
    opReturnDataSize_def opExtCodeSize_def opCodeSize_def opExtCodeHash_def opGasprice_def opBlockhash_def
    opCoinbase_def opTimestamp_def opNumber_def opDifficulty_def opRandom_def opGasLimit_def opSelfBalance_def
    opChainID_def opBaseFee_def opBlobBaseFee_def opBlobHash_def
  by (intro pres_base pres_parts_more)+

lemma pres_flow_ops:
  "pres R (opPop env run)" "pres R (opSload env run)" "pres R (opTload env run)" "pres R (opJump env run)"
  "pres R (opJumpi env run)" "pres R (opJumpdest env run)" "pres R (opPc env run)" "pres R (opGas env run)"
  "pres R (opUndefined env run)" "pres R (opStop env run)" "pres R (opPush0 env run)" "pres R (opPush1 env run)"
  "pres R (makePush sz n env run)" "pres R (makeDup n env run)" "pres R (makeSwap n env run)"
proof -
  have t: "pres R (a_ask (\<lambda>s. (GetTransientState self loc s, s)))" for self loc
    by (rule pres_ask) (simp add: aux_same)
  show "pres R (opTload env run)" unfolding opTload_def by (intro pres_base pres_parts_more t)
  show
    "pres R (opPop env run)" "pres R (opSload env run)" "pres R (opJump env run)"
    "pres R (opJumpi env run)" "pres R (opJumpdest env run)" "pres R (opPc env run)" "pres R (opGas env run)"
    "pres R (opUndefined env run)" "pres R (opStop env run)" "pres R (opPush0 env run)" "pres R (opPush1 env run)"
    "pres R (makePush sz n env run)" "pres R (makeDup n env run)" "pres R (makeSwap n env run)"
    unfolding opPop_def opSload_def opJump_def opJumpi_def opJumpdest_def opPc_def opGas_def opUndefined_def
      opStop_def opPush0_def opPush1_def makePush_def makeDup_def makeSwap_def
    by (intro pres_base pres_parts_more pres_gas_parts)+
qed

lemmas pres_plain = pres_pure pres_memory_ops pres_context_ops pres_flow_ops

end

context write_relation begin

lemma pres_guarded: "pres W m \<Longrightarrow> pres R (guarded m)"
  by (rule presI) (auto simp: guarded_def a_bind_Ret act_Ret R_refl W_def dest!: presD split: if_splits)

lemma pres_write_ops:
  "pres R (opSstore env run)" "pres R (opTstore env run)" "pres R (opSelfdestruct env run)"
  "pres R (opSelfdestruct6780 env run)" "pres R (makeLog n env run)"
  unfolding opSstore_def opTstore_def opSelfdestruct_def opSelfdestruct6780_def makeLog_def
  by - (rule pres_guarded w.pres_base w.pres_parts_more w.pres_pops pres_write SetState_advances plain_ops_advance
      balance_ops_advance SelfDestruct_advances Selfdestruct6780_advances | assumption)+

end

section \<open>Instructions and the height of the stack\<close>

lemma no_stack_panic_mem [simp]:
  "no_stack_panic (mem_GetPtr m x y)" "no_stack_panic (mem_GetCopy m x y)" "no_stack_panic (mem_Set m a b d)"
  "no_stack_panic (mem_Set32 m a v)" "no_stack_panic (mem_Set8 m a w)" "no_stack_panic (mem_Copy m a b c)"
  "no_stack_panic (getData d a b)" "no_stack_panic (slice xs i j)" "no_stack_panic (nth_go xs i)"
  by (auto simp: no_stack_panic_def mem_GetPtr_def mem_GetCopy_def mem_Set_def mem_Set32_def mem_Set8_def
      mem_Copy_def getData_def slice_def nth_go_def Let_def split: if_splits)

lemma no_stack_panic_analysis: "no_stack_panic (codeBitmap code)" "no_stack_panic (codeSegment bits i)"
  using codeBitmap_segments [of code] by (auto simp: codeSegment_def intro!: no_stack_panic_bind)

lemma no_stack_panic_jumpdest: "no_stack_panic (validJumpdest pos c jd)"
  unfolding validJumpdest_def isCode_def
  by (auto intro!: no_stack_panic_bind no_stack_panic_analysis split: prod.split option.split)

lemma stk_jumpdest: "stk l (a_validJumpdest pos) l"
  using no_stack_panic_jumpdest by (auto intro!: stkI simp: a_validJumpdest_def no_stack_panic_def dest!: validJumpdest_fields)

lemma stk_parts:
  "stk l done_nil l" "stk l (mem_ptr x y) l" "stk l (mem_copy x y) l" "stk l (mem_write x y d) l"
  "stk l (push_value v) (Suc l)" "stk l (a_contract f) l" "stk l (push_big b) (Suc l)" "stk l (jump_to pos) l"
  "stk (Suc (Suc l)) (bin_op g) (Suc l)"
  unfolding done_nil_def mem_ptr_def mem_copy_def mem_write_def push_value_def a_contract_def push_big_def
    jump_to_def bin_op_def
  by - (rule stk_rules stk_jumpdest | (simp; fail))+

lemma stk_pops: "stk (n + l) (a_pops n) l"
  by (induction n) (auto intro!: stk_rules)

text \<open>
  \<open>heights pops pushes f\<close>: on any stack with at least \<open>pops\<close> elements the instruction \<open>f\<close> stays
  inside the stack, and if it returns without an error it has replaced \<open>pops\<close> by \<open>pushes\<close> elements.
\<close>

definition safe_runner :: "runner \<Rightarrow> bool" where
  "safe_runner run \<longleftrightarrow> (\<forall>c input ro e. no_stack_panic (run c input ro e))"

definition heights :: "nat \<Rightarrow> nat \<Rightarrow> instruction \<Rightarrow> bool" where
  "heights pops pushes f \<longleftrightarrow> (\<forall>env run l. safe_runner run \<longrightarrow> stk (pops + l) (f env run) (pushes + l))"

lemma heightsI: "(\<And>env run l. safe_runner run \<Longrightarrow> stk (pops + l) (f env run) (pushes + l)) \<Longrightarrow> heights pops pushes f"
  by (simp add: heights_def)

lemma small_add:
  "0 + l = (l :: nat)" "1 + l = Suc l" "2 + l = Suc (Suc l)" "3 + l = Suc (Suc (Suc l))" "4 + l = Suc (Suc (Suc (Suc l)))"
  "6 + l = Suc (Suc (Suc (Suc (Suc (Suc l)))))" "7 + l = Suc (Suc (Suc (Suc (Suc (Suc (Suc l))))))"
  by simp_all

lemma heights_pure:
  "heights 2 1 opAdd" "heights 2 1 opSub" "heights 2 1 opMul" "heights 2 1 opDiv" "heights 2 1 opSdiv"
  "heights 2 1 opMod" "heights 2 1 opSmod" "heights 2 1 opExp" "heights 2 1 opSignExtend" "heights 1 1 opNot"
  "heights 2 1 opLt" "heights 2 1 opGt" "heights 2 1 opSlt" "heights 2 1 opSgt" "heights 2 1 opEq"
  "heights 1 1 opIszero" "heights 2 1 opAnd" "heights 2 1 opOr" "heights 2 1 opXor" "heights 2 1 opByte"
  "heights 3 1 opAddmod" "heights 3 1 opMulmod" "heights 2 1 opSHL" "heights 2 1 opSHR" "heights 2 1 opSAR"
  unfolding heights_def opAdd_def opSub_def opMul_def opDiv_def opSdiv_def opMod_def opSmod_def opExp_def opSignExtend_def
    opNot_def opLt_def opGt_def opSlt_def opSgt_def opEq_def opIszero_def opAnd_def opOr_def opXor_def opByte_def
    opAddmod_def opMulmod_def opSHL_def opSHR_def opSAR_def
  unfolding small_add
  by - (rule allI impI stk_parts stk_rules)+

lemma heights_memory:
  "heights 2 1 opKeccak256" "heights 1 1 opMload" "heights 2 0 opMstore" "heights 2 0 opMstore8" "heights 3 0 opMcopy"
  "heights 1 1 opCallDataLoad" "heights 3 0 opCallDataCopy" "heights 3 0 opReturnDataCopy" "heights 3 0 opCodeCopy"
  "heights 4 0 opExtCodeCopy" "heights 0 1 opMsize" "heights 2 0 opReturn" "heights 2 0 opRevert"
  unfolding heights_def opKeccak256_def opMload_def opMstore_def opMstore8_def opMcopy_def opCallDataLoad_def
    opCallDataCopy_def opReturnDataCopy_def opCodeCopy_def opExtCodeCopy_def opMsize_def opReturn_def opRevert_def
  unfolding small_add
  by - (rule allI impI stk_parts stk_rules no_stack_panic_mem)+

lemma heights_context:
  "heights 0 1 opAddress" "heights 1 1 opBalance" "heights 0 1 opOrigin" "heights 0 1 opCaller" "heights 0 1 opCallValue"
  "heights 0 1 opCallDataSize" "heights 0 1 opReturnDataSize" "heights 1 1 opExtCodeSize" "heights 0 1 opCodeSize"
  "heights 1 1 opExtCodeHash" "heights 0 1 opGasprice" "heights 1 1 opBlockhash" "heights 0 1 opCoinbase"
  "heights 0 1 opTimestamp" "heights 0 1 opNumber" "heights 0 1 opDifficulty" "heights 0 1 opRandom"
  "heights 0 1 opGasLimit" "heights 0 1 opSelfBalance" "heights 0 1 opChainID" "heights 0 1 opBaseFee"
  "heights 0 1 opBlobBaseFee" "heights 1 1 opBlobHash"
  unfolding heights_def opAddress_def opBalance_def opOrigin_def opCaller_def opCallValue_def opCallDataSize_def
    opReturnDataSize_def opExtCodeSize_def opCodeSize_def opExtCodeHash_def opGasprice_def opBlockhash_def
    opCoinbase_def opTimestamp_def opNumber_def opDifficulty_def opRandom_def opGasLimit_def opSelfBalance_def
    opChainID_def opBaseFee_def opBlobBaseFee_def opBlobHash_def
  unfolding small_add
  by - (rule allI impI stk_parts stk_rules no_stack_panic_mem | (simp; fail))+

lemma stk_guarded: "stk l m l' \<Longrightarrow> stk l (guarded m) l'"
  unfolding guarded_def by (rule stk_rules | assumption)+

lemma stk_dup: "0 < n \<Longrightarrow> n \<le> l \<Longrightarrow> stk l (a_stack (stack_dup n)) (Suc l)"
  by (auto intro!: stkI simp: a_stack_def stack_dup_def stack_push_def split: if_splits)

lemma stk_swap: "0 < n \<Longrightarrow> n \<le> l \<Longrightarrow> stk l (a_stack (stack_swap n)) l"
  by (auto intro!: stkI simp: a_stack_def stack_swap_def split: if_splits)

lemma heights_flow:
  "heights 1 0 opPop" "heights 1 1 opSload" "heights 2 0 opSstore" "heights 1 1 opTload" "heights 2 0 opTstore"
  "heights 1 0 opJump" "heights 2 0 opJumpi" "heights 0 0 opJumpdest" "heights 0 1 opPc" "heights 0 1 opGas"
  "heights 0 0 opUndefined" "heights 0 0 opStop" "heights 1 0 opSelfdestruct" "heights 1 0 opSelfdestruct6780"
  "heights 0 1 opPush0" "heights 0 1 opPush1" "heights 0 1 (makePush sz k)"
  unfolding heights_def opPop_def opSload_def opSstore_def opTload_def opTstore_def opJump_def opJumpi_def
    opJumpdest_def opPc_def opGas_def opUndefined_def opStop_def opSelfdestruct_def opSelfdestruct6780_def
    opPush0_def opPush1_def makePush_def
  unfolding small_add
  by - (rule allI impI stk_guarded stk_parts stk_rules no_stack_panic_mem stk_gas_parts | (simp; fail))+

lemma heights_dup: "0 < n \<Longrightarrow> heights n (n + 1) (makeDup n)"
proof -
  have "n + 1 + l = Suc (n + l)" for l by simp
  then show "0 < n \<Longrightarrow> heights n (n + 1) (makeDup n)"
    unfolding heights_def makeDup_def by - (simp only:, (rule allI impI stk_bind stk_dup stk_parts | (simp; fail))+)
qed

lemma heights_swap: "heights (n + 1) (n + 1) (makeSwap n)"
  unfolding heights_def makeSwap_def by - (rule allI impI stk_bind stk_swap stk_parts | (simp; fail))+

lemma heights_log: "heights (2 + n) 0 (makeLog n)"
proof -
  have "2 + n + l = Suc (Suc (n + l))" for l by simp
  then show ?thesis
    unfolding heights_def makeLog_def
    by - (simp only: small_add, (rule allI impI stk_guarded stk_pops stk_parts stk_rules)+)
qed

section \<open>Calls and the height of the stack\<close>

lemma no_stack_panic_if: "(b \<Longrightarrow> no_stack_panic m) \<Longrightarrow> (\<not> b \<Longrightarrow> no_stack_panic m') \<Longrightarrow> no_stack_panic (if b then m else m')"
  by simp

lemma no_stack_panic_let: "(\<And>x. no_stack_panic (f x)) \<Longrightarrow> no_stack_panic (let x = t in f x)"
  by (simp add: Let_def)

lemma no_stack_panic_case:
  "(\<And>x y. no_stack_panic (f x y)) \<Longrightarrow> no_stack_panic (case p of (x, y) \<Rightarrow> f x y)"
  "(\<And>x y. no_stack_panic (f3 x y b)) \<Longrightarrow> no_stack_panic ((case q of (x, y) \<Rightarrow> f3 x y) b)"
  "no_stack_panic m \<Longrightarrow> (\<And>y. no_stack_panic (g y)) \<Longrightarrow> no_stack_panic (case z of None \<Rightarrow> m | Some y \<Rightarrow> g y)"
  "(\<And>a. no_stack_panic (h a)) \<Longrightarrow> (\<And>c. no_stack_panic (k c)) \<Longrightarrow>
    no_stack_panic (case r of AccountRef a \<Rightarrow> h a | ContractRef c \<Rightarrow> k c)"
  by (cases p, simp) (cases q, simp, cases z, simp, simp, cases r, simp, simp)

lemmas no_stack_panic_rules = no_stack_panic_bind no_stack_panic_if no_stack_panic_let no_stack_panic_case

lemma no_stack_panic_revert_entry: "no_stack_panic (revert_entry db en s)"
  by (cases "(db, en, s)" rule: revert_entry.cases)
    (auto simp: revert_object_def DeleteSlot_def slots_at_def Let_def split: option.split prod.split intro!: no_stack_panic_rules)

lemma no_stack_panic_revert: "no_stack_panic (RevertToSnapshot db n s)"
proof -
  have "no_stack_panic (revert_entries db es s)" for es s
    by (induction es arbitrary: s) (auto intro!: no_stack_panic_bind no_stack_panic_revert_entry)
  then show ?thesis unfolding RevertToSnapshot_def journal_revert_def
    by (intro no_stack_panic_rules) auto
qed

lemma safe_runnerD: "safe_runner run \<Longrightarrow> no_stack_panic (run c input ro e)"
  by (simp add: safe_runner_def)

lemma safe_calls:
  assumes r: "safe_runner run"
  shows "no_stack_panic (evm_Call env run caller addr input gas val e)"
    "no_stack_panic (evm_CallCode env run caller addr input gas val e)"
    "no_stack_panic (evm_DelegateCall env run caller addr input gas e)"
    "no_stack_panic (evm_StaticCall env run caller addr input gas e)"
    "no_stack_panic (evm_Create env run caller code gas val e)"
    "no_stack_panic (evm_Create2 env run caller code gas val salt e)"
  unfolding evm_Call_def evm_CallCode_def evm_DelegateCall_def evm_StaticCall_def evm_Create_def evm_Create2_def
    evm_create_def deploy_def call_code_of_def settle_def run_contract_def
  by - (rule no_stack_panic_rules no_stack_panic_revert safe_runnerD [OF r] | (simp; fail))+

lemma stk_call: "(\<And>caller e. no_stack_panic (f caller e)) \<Longrightarrow> stk l (a_call f) l"
  by (auto intro!: stkI simp: a_call_def no_stack_panic_def)

lemma stk_call_ends: "stk l (create_end b r) (Suc l)" "stk l (call_end x y z) (Suc l)"
  unfolding create_end_def call_end_def by - (rule stk_parts stk_rules)+

lemma heights_calls:
  "heights 3 1 opCreate" "heights 4 1 opCreate2" "heights 7 1 opCall" "heights 7 1 opCallCode"
  "heights 6 1 opDelegateCall" "heights 6 1 opStaticCall"
  unfolding heights_def opCreate_def opCreate2_def opCall_def opCallCode_def opDelegateCall_def opStaticCall_def
  unfolding small_add
  by - (rule allI impI stk_guarded stk_call stk_call_ends stk_parts stk_rules stk_gas_parts safe_calls | assumption)+

section \<open>Calls and the relations\<close>

text \<open>Relations that also respect what a call does to the EVM and the return of gas.\<close>

locale call_relation = write_relation R env for R :: "evm_state \<Rightarrow> evm_state \<Rightarrow> bool" and env :: env +
  assumes R_add_gas: "R (e, fr) (e, fr\<lparr>fr_Contract := (fr_Contract fr)\<lparr>c_Gas := g\<rparr>\<rparr>)"
    and R_call: "call_rel env (readOnly e) e e' \<Longrightarrow> R (e, fr) (e', fr)"
begin

lemma pres_add_gas: "pres R (a_add_gas g)"
  by (rule presI) (auto simp: a_add_gas_def intro: R_add_gas)

lemma pres_add_gas_W: "pres W (a_add_gas g)"
  by (rule presI) (auto simp: a_add_gas_def W_def intro: R_add_gas)

lemma pres_call: "(\<And>caller e. go_all (\<lambda>(r, e'). call_rel env (readOnly e) e e') (f caller e)) \<Longrightarrow> pres R (a_call f)"
  by (rule presI) (fastforce simp: a_call_def go_all_iff intro: R_call)

lemma pres_call_W: "(\<And>caller e. go_all (\<lambda>(r, e'). call_rel env False e e') (f caller e)) \<Longrightarrow> pres W (a_call f)"
  by (rule presI) (fastforce simp: a_call_def go_all_iff W_def call_rel_def intro: R_call)

lemma pres_call_variant: "pres R (g env n) \<Longrightarrow> pres R (makeCallVariantGasCallEIP2929 g env n)"
  unfolding makeCallVariantGasCallEIP2929_def by (intro pres_base pres_gas_parts pres_add_gas)

lemma pres_gas_call_variants:
  "pres R (gasCallEIP2929 env n)" "pres R (gasCallCodeEIP2929 env n)" "pres R (gasDelegateCallEIP2929 env n)"
  "pres R (gasStaticCallEIP2929 env n)"
  unfolding gasCallEIP2929_def gasCallCodeEIP2929_def gasDelegateCallEIP2929_def gasStaticCallEIP2929_def
  by (intro pres_call_variant pres_gas)+

lemma pres_call_ends: "pres R (call_end x y z)" "pres R (create_end b r)"
  unfolding call_end_def create_end_def by (intro pres_base pres_parts_more pres_add_gas)+

lemma pres_call_ends_W: "pres W (call_end x y z)" "pres W (create_end b r)"
  unfolding call_end_def create_end_def by (intro w.pres_base w.pres_parts_more pres_add_gas_W)+

lemma pres_calls:
  assumes run: "runner env run"
  shows "pres R (opCallCode env run)" "pres R (opDelegateCall env run)" "pres R (opStaticCall env run)"
    "pres R (opCreate env run)" "pres R (opCreate2 env run)" "pres R (opCall env run)"
proof -
  have post: "go_all (\<lambda>(r, e'). call_rel env st e e') m" if "go_all (call_post env st gas e) m" for st gas e m
    by (rule go_all_mono [OF that]) (auto simp: call_post_def)
  have post4: "go_all (\<lambda>(r, e'). call_rel env False e e') m"
    if "go_all (\<lambda>((ret, a, g, err), e'). unat g \<le> unat gas \<and> call_rel env False e e') m" for gas e m
    by (rule go_all_mono [OF that]) auto
  show "pres R (opCallCode env run)"
    unfolding opCallCode_def by (intro pres_base pres_parts_more pres_call post [OF runner.CallCode_law [OF run]] pres_call_ends)
  show "pres R (opDelegateCall env run)"
    unfolding opDelegateCall_def
    by (intro pres_base pres_parts_more pres_call post [OF runner.DelegateCall_law [OF run]] pres_call_ends)
  have static: "go_all (\<lambda>(r, e'). call_rel env (readOnly e) e e') (evm_StaticCall env run caller addr input gas e)" for caller addr input gas e
    by (rule go_all_mono [OF post [OF runner.StaticCall_law [OF run]]]) (auto intro: call_rel_mono)
  show "pres R (opStaticCall env run)"
    unfolding opStaticCall_def by (intro pres_base pres_parts_more pres_call static pres_call_ends)
  show "pres R (opCreate env run)" "pres R (opCreate2 env run)"
    unfolding opCreate_def opCreate2_def
    by (intro pres_guarded w.pres_base w.pres_parts_more w.pres_gas_parts pres_call_W post4 [OF runner.Create_law(1) [OF run]]
        post4 [OF runner.Create_law(2) [OF run]] pres_call_ends_W)+
  have call: "pres R (a_bind (a_evm readOnly) (\<lambda>ro. if ro \<and> val \<noteq> 0 then a_err ErrWriteProtection
      else a_bind (a_call (\<lambda>caller. evm_Call env run caller addr args gas val)) (call_end x y)))" for val addr args gas x y
  proof (cases "val = 0")
    case True
    have "pres R (a_call (\<lambda>caller. evm_Call env run caller addr args gas 0))"
      using post [OF runner.Call_law [OF run, where val = 0]] by (intro pres_call) simp
    then show ?thesis unfolding True by (simp only: simp_thms if_False) (intro pres_base pres_call_ends)
  next
    case False
    have "pres W (a_call (\<lambda>caller. evm_Call env run caller addr args gas val))"
      using post [OF runner.Call_law [OF run, where val = val]] False by (intro pres_call_W) simp
    then have "pres R (guarded (a_bind (a_call (\<lambda>caller. evm_Call env run caller addr args gas val)) (call_end x y)))"
      by (intro pres_guarded w.pres_base pres_call_ends_W)
    then show ?thesis using False by (simp add: guarded_def)
  qed
  show "pres R (opCall env run)" unfolding opCall_def Let_def by (intro pres_base pres_parts_more call)
qed

end

end
