(* ===== verification/Jump_Table.thy ===== *)
theory Jump_Table imports Instruction_Laws begin

text \<open>
  The jump tables: \<open>core/vm/jump_table.go\<close>, \<open>core/vm/jump_table_export.go\<close>, \<open>core/vm/stack_table.go\<close>
  and the activators of \<open>core/vm/eips.go\<close>. A table has a nil pointer where it has no operation, so
  changing a field of a missing operation panics, and \<open>validate\<close> panics on an incomplete table.
\<close>

section \<open>Operations and tables\<close>

record operation =
  execute :: instruction
  constantGas :: u64
  dynamicGas :: "gas_fn option"
  op_minStack :: int
  op_maxStack :: int
  memorySize :: "(stack \<Rightarrow> (u64 \<times> bool) go) option"

definition maxStack :: "nat \<Rightarrow> nat \<Rightarrow> int" where
  "maxStack pop push = uint StackLimit + int pop - int push"

definition minStack :: "nat \<Rightarrow> nat \<Rightarrow> int" where
  "minStack pops push = int pops"

definition minSwapStack :: "nat \<Rightarrow> int" where "minSwapStack n = minStack n n"
definition maxSwapStack :: "nat \<Rightarrow> int" where "maxSwapStack n = maxStack n n"
definition minDupStack :: "nat \<Rightarrow> int" where "minDupStack n = minStack n (n + 1)"
definition maxDupStack :: "nat \<Rightarrow> int" where "maxDupStack n = maxStack n (n + 1)"

type_synonym JumpTable = "u8 \<rightharpoonup> operation"

definition all_opcodes :: "u8 list" where
  "all_opcodes = map word_of_nat [0..<256]"

definition validate :: "JumpTable \<Rightarrow> JumpTable go" where
  "validate jt =
     (if list_all (\<lambda>i. case jt i of None \<Rightarrow> False
           | Some op \<Rightarrow> \<not> (memorySize op \<noteq> None \<and> dynamicGas op = None)) all_opcodes
      then Ret jt else Panic JumpTableInvalid)"

text \<open>\<open>jt[op] = &operation{...}\<close>, and assignments to fields of \<open>jt[op]\<close>.\<close>

definition put_op :: "u8 \<Rightarrow> operation \<Rightarrow> JumpTable \<Rightarrow> JumpTable go" where
  "put_op i op jt = Ret (jt(i \<mapsto> op))"

definition with_op :: "u8 \<Rightarrow> (operation \<Rightarrow> operation) \<Rightarrow> JumpTable \<Rightarrow> JumpTable go" where
  "with_op i f jt = (case jt i of None \<Rightarrow> Panic NilDereference | Some op \<Rightarrow> Ret (jt(i \<mapsto> f op)))"

definition set_const :: "u64 \<Rightarrow> operation \<Rightarrow> operation" where
  "set_const c op = op\<lparr>constantGas := c\<rparr>"

definition set_dyn :: "gas_fn \<Rightarrow> operation \<Rightarrow> operation" where
  "set_dyn g op = op\<lparr>dynamicGas := Some g\<rparr>"

primrec go_seq :: "('a \<Rightarrow> 'a go) list \<Rightarrow> 'a \<Rightarrow> 'a go" where
  "go_seq [] x = Ret x"
| "go_seq (f # fs) x = go_bind (f x) (go_seq fs)"

section \<open>The frontier instructions\<close>

definition frontier_ops1 :: "(u8 \<times> operation) list" where
  "frontier_ops1 =
    [(OP_STOP, \<lparr>execute = opStop, constantGas = 0, dynamicGas = None, op_minStack = minStack 0 0, op_maxStack = maxStack 0 0, memorySize = None\<rparr>),
     (OP_ADD, \<lparr>execute = opAdd, constantGas = GasFastestStep, dynamicGas = None, op_minStack = minStack 2 1, op_maxStack = maxStack 2 1, memorySize = None\<rparr>),
     (OP_MUL, \<lparr>execute = opMul, constantGas = GasFastStep, dynamicGas = None, op_minStack = minStack 2 1, op_maxStack = maxStack 2 1, memorySize = None\<rparr>),
     (OP_SUB, \<lparr>execute = opSub, constantGas = GasFastestStep, dynamicGas = None, op_minStack = minStack 2 1, op_maxStack = maxStack 2 1, memorySize = None\<rparr>),
     (OP_DIV, \<lparr>execute = opDiv, constantGas = GasFastStep, dynamicGas = None, op_minStack = minStack 2 1, op_maxStack = maxStack 2 1, memorySize = None\<rparr>),
     (OP_SDIV, \<lparr>execute = opSdiv, constantGas = GasFastStep, dynamicGas = None, op_minStack = minStack 2 1, op_maxStack = maxStack 2 1, memorySize = None\<rparr>),
     (OP_MOD, \<lparr>execute = opMod, constantGas = GasFastStep, dynamicGas = None, op_minStack = minStack 2 1, op_maxStack = maxStack 2 1, memorySize = None\<rparr>),
     (OP_SMOD, \<lparr>execute = opSmod, constantGas = GasFastStep, dynamicGas = None, op_minStack = minStack 2 1, op_maxStack = maxStack 2 1, memorySize = None\<rparr>),
     (OP_ADDMOD, \<lparr>execute = opAddmod, constantGas = GasMidStep, dynamicGas = None, op_minStack = minStack 3 1, op_maxStack = maxStack 3 1, memorySize = None\<rparr>),
     (OP_MULMOD, \<lparr>execute = opMulmod, constantGas = GasMidStep, dynamicGas = None, op_minStack = minStack 3 1, op_maxStack = maxStack 3 1, memorySize = None\<rparr>),
     (OP_EXP, \<lparr>execute = opExp, constantGas = 0, dynamicGas = Some gasExpFrontier, op_minStack = minStack 2 1, op_maxStack = maxStack 2 1, memorySize = None\<rparr>),
     (OP_SIGNEXTEND, \<lparr>execute = opSignExtend, constantGas = GasFastStep, dynamicGas = None, op_minStack = minStack 2 1, op_maxStack = maxStack 2 1, memorySize = None\<rparr>),
     (OP_LT, \<lparr>execute = opLt, constantGas = GasFastestStep, dynamicGas = None, op_minStack = minStack 2 1, op_maxStack = maxStack 2 1, memorySize = None\<rparr>),
     (OP_GT, \<lparr>execute = opGt, constantGas = GasFastestStep, dynamicGas = None, op_minStack = minStack 2 1, op_maxStack = maxStack 2 1, memorySize = None\<rparr>),
     (OP_SLT, \<lparr>execute = opSlt, constantGas = GasFastestStep, dynamicGas = None, op_minStack = minStack 2 1, op_maxStack = maxStack 2 1, memorySize = None\<rparr>),
     (OP_SGT, \<lparr>execute = opSgt, constantGas = GasFastestStep, dynamicGas = None, op_minStack = minStack 2 1, op_maxStack = maxStack 2 1, memorySize = None\<rparr>),
     (OP_EQ, \<lparr>execute = opEq, constantGas = GasFastestStep, dynamicGas = None, op_minStack = minStack 2 1, op_maxStack = maxStack 2 1, memorySize = None\<rparr>),
     (OP_ISZERO, \<lparr>execute = opIszero, constantGas = GasFastestStep, dynamicGas = None, op_minStack = minStack 1 1, op_maxStack = maxStack 1 1, memorySize = None\<rparr>),
     (OP_AND, \<lparr>execute = opAnd, constantGas = GasFastestStep, dynamicGas = None, op_minStack = minStack 2 1, op_maxStack = maxStack 2 1, memorySize = None\<rparr>),
     (OP_XOR, \<lparr>execute = opXor, constantGas = GasFastestStep, dynamicGas = None, op_minStack = minStack 2 1, op_maxStack = maxStack 2 1, memorySize = None\<rparr>),
     (OP_OR, \<lparr>execute = opOr, constantGas = GasFastestStep, dynamicGas = None, op_minStack = minStack 2 1, op_maxStack = maxStack 2 1, memorySize = None\<rparr>),
     (OP_NOT, \<lparr>execute = opNot, constantGas = GasFastestStep, dynamicGas = None, op_minStack = minStack 1 1, op_maxStack = maxStack 1 1, memorySize = None\<rparr>),
     (OP_BYTE, \<lparr>execute = opByte, constantGas = GasFastestStep, dynamicGas = None, op_minStack = minStack 2 1, op_maxStack = maxStack 2 1, memorySize = None\<rparr>),
     (OP_KECCAK256, \<lparr>execute = opKeccak256, constantGas = Keccak256Gas, dynamicGas = Some gasKeccak256, op_minStack = minStack 2 1, op_maxStack = maxStack 2 1, memorySize = Some memoryKeccak256\<rparr>)]"

definition frontier_ops2 :: "(u8 \<times> operation) list" where
  "frontier_ops2 =
    [(OP_ADDRESS, \<lparr>execute = opAddress, constantGas = GasQuickStep, dynamicGas = None, op_minStack = minStack 0 1, op_maxStack = maxStack 0 1, memorySize = None\<rparr>),
     (OP_BALANCE, \<lparr>execute = opBalance, constantGas = BalanceGasFrontier, dynamicGas = None, op_minStack = minStack 1 1, op_maxStack = maxStack 1 1, memorySize = None\<rparr>),
     (OP_ORIGIN, \<lparr>execute = opOrigin, constantGas = GasQuickStep, dynamicGas = None, op_minStack = minStack 0 1, op_maxStack = maxStack 0 1, memorySize = None\<rparr>),
     (OP_CALLER, \<lparr>execute = opCaller, constantGas = GasQuickStep, dynamicGas = None, op_minStack = minStack 0 1, op_maxStack = maxStack 0 1, memorySize = None\<rparr>),
     (OP_CALLVALUE, \<lparr>execute = opCallValue, constantGas = GasQuickStep, dynamicGas = None, op_minStack = minStack 0 1, op_maxStack = maxStack 0 1, memorySize = None\<rparr>),
     (OP_CALLDATALOAD, \<lparr>execute = opCallDataLoad, constantGas = GasFastestStep, dynamicGas = None, op_minStack = minStack 1 1, op_maxStack = maxStack 1 1, memorySize = None\<rparr>),
     (OP_CALLDATASIZE, \<lparr>execute = opCallDataSize, constantGas = GasQuickStep, dynamicGas = None, op_minStack = minStack 0 1, op_maxStack = maxStack 0 1, memorySize = None\<rparr>),
     (OP_CALLDATACOPY, \<lparr>execute = opCallDataCopy, constantGas = GasFastestStep, dynamicGas = Some gasCallDataCopy, op_minStack = minStack 3 0, op_maxStack = maxStack 3 0, memorySize = Some memoryCallDataCopy\<rparr>),
     (OP_CODESIZE, \<lparr>execute = opCodeSize, constantGas = GasQuickStep, dynamicGas = None, op_minStack = minStack 0 1, op_maxStack = maxStack 0 1, memorySize = None\<rparr>),
     (OP_CODECOPY, \<lparr>execute = opCodeCopy, constantGas = GasFastestStep, dynamicGas = Some gasCodeCopy, op_minStack = minStack 3 0, op_maxStack = maxStack 3 0, memorySize = Some memoryCodeCopy\<rparr>),
     (OP_GASPRICE, \<lparr>execute = opGasprice, constantGas = GasQuickStep, dynamicGas = None, op_minStack = minStack 0 1, op_maxStack = maxStack 0 1, memorySize = None\<rparr>),
     (OP_EXTCODESIZE, \<lparr>execute = opExtCodeSize, constantGas = ExtcodeSizeGasFrontier, dynamicGas = None, op_minStack = minStack 1 1, op_maxStack = maxStack 1 1, memorySize = None\<rparr>),
     (OP_EXTCODECOPY, \<lparr>execute = opExtCodeCopy, constantGas = ExtcodeCopyBaseFrontier, dynamicGas = Some gasExtCodeCopy, op_minStack = minStack 4 0, op_maxStack = maxStack 4 0, memorySize = Some memoryExtCodeCopy\<rparr>),
     (OP_BLOCKHASH, \<lparr>execute = opBlockhash, constantGas = GasExtStep, dynamicGas = None, op_minStack = minStack 1 1, op_maxStack = maxStack 1 1, memorySize = None\<rparr>),
     (OP_COINBASE, \<lparr>execute = opCoinbase, constantGas = GasQuickStep, dynamicGas = None, op_minStack = minStack 0 1, op_maxStack = maxStack 0 1, memorySize = None\<rparr>),
     (OP_TIMESTAMP, \<lparr>execute = opTimestamp, constantGas = GasQuickStep, dynamicGas = None, op_minStack = minStack 0 1, op_maxStack = maxStack 0 1, memorySize = None\<rparr>),
     (OP_NUMBER, \<lparr>execute = opNumber, constantGas = GasQuickStep, dynamicGas = None, op_minStack = minStack 0 1, op_maxStack = maxStack 0 1, memorySize = None\<rparr>),
     (OP_DIFFICULTY, \<lparr>execute = opDifficulty, constantGas = GasQuickStep, dynamicGas = None, op_minStack = minStack 0 1, op_maxStack = maxStack 0 1, memorySize = None\<rparr>),
     (OP_GASLIMIT, \<lparr>execute = opGasLimit, constantGas = GasQuickStep, dynamicGas = None, op_minStack = minStack 0 1, op_maxStack = maxStack 0 1, memorySize = None\<rparr>),
     (OP_POP, \<lparr>execute = opPop, constantGas = GasQuickStep, dynamicGas = None, op_minStack = minStack 1 0, op_maxStack = maxStack 1 0, memorySize = None\<rparr>),
     (OP_MLOAD, \<lparr>execute = opMload, constantGas = GasFastestStep, dynamicGas = Some gasMLoad, op_minStack = minStack 1 1, op_maxStack = maxStack 1 1, memorySize = Some memoryMLoad\<rparr>),
     (OP_MSTORE, \<lparr>execute = opMstore, constantGas = GasFastestStep, dynamicGas = Some gasMStore, op_minStack = minStack 2 0, op_maxStack = maxStack 2 0, memorySize = Some memoryMStore\<rparr>),
     (OP_MSTORE8, \<lparr>execute = opMstore8, constantGas = GasFastestStep, dynamicGas = Some gasMStore8, op_minStack = minStack 2 0, op_maxStack = maxStack 2 0, memorySize = Some memoryMStore8\<rparr>)]"

definition frontier_ops3 :: "(u8 \<times> operation) list" where
  "frontier_ops3 =
    [(OP_SLOAD, \<lparr>execute = opSload, constantGas = SloadGasFrontier, dynamicGas = None, op_minStack = minStack 1 1, op_maxStack = maxStack 1 1, memorySize = None\<rparr>),
     (OP_SSTORE, \<lparr>execute = opSstore, constantGas = 0, dynamicGas = Some gasSStore, op_minStack = minStack 2 0, op_maxStack = maxStack 2 0, memorySize = None\<rparr>),
     (OP_JUMP, \<lparr>execute = opJump, constantGas = GasMidStep, dynamicGas = None, op_minStack = minStack 1 0, op_maxStack = maxStack 1 0, memorySize = None\<rparr>),
     (OP_JUMPI, \<lparr>execute = opJumpi, constantGas = GasSlowStep, dynamicGas = None, op_minStack = minStack 2 0, op_maxStack = maxStack 2 0, memorySize = None\<rparr>),
     (OP_PC, \<lparr>execute = opPc, constantGas = GasQuickStep, dynamicGas = None, op_minStack = minStack 0 1, op_maxStack = maxStack 0 1, memorySize = None\<rparr>),
     (OP_MSIZE, \<lparr>execute = opMsize, constantGas = GasQuickStep, dynamicGas = None, op_minStack = minStack 0 1, op_maxStack = maxStack 0 1, memorySize = None\<rparr>),
     (OP_GAS, \<lparr>execute = opGas, constantGas = GasQuickStep, dynamicGas = None, op_minStack = minStack 0 1, op_maxStack = maxStack 0 1, memorySize = None\<rparr>),
     (OP_JUMPDEST, \<lparr>execute = opJumpdest, constantGas = JumpdestGas, dynamicGas = None, op_minStack = minStack 0 0, op_maxStack = maxStack 0 0, memorySize = None\<rparr>),
     (OP_PUSH1, \<lparr>execute = opPush1, constantGas = GasFastestStep, dynamicGas = None, op_minStack = minStack 0 1, op_maxStack = maxStack 0 1, memorySize = None\<rparr>),
     (OP_PUSH2, \<lparr>execute = makePush 2 2, constantGas = GasFastestStep, dynamicGas = None, op_minStack = minStack 0 1, op_maxStack = maxStack 0 1, memorySize = None\<rparr>),
     (OP_PUSH3, \<lparr>execute = makePush 3 3, constantGas = GasFastestStep, dynamicGas = None, op_minStack = minStack 0 1, op_maxStack = maxStack 0 1, memorySize = None\<rparr>),
     (OP_PUSH4, \<lparr>execute = makePush 4 4, constantGas = GasFastestStep, dynamicGas = None, op_minStack = minStack 0 1, op_maxStack = maxStack 0 1, memorySize = None\<rparr>),
     (OP_PUSH5, \<lparr>execute = makePush 5 5, constantGas = GasFastestStep, dynamicGas = None, op_minStack = minStack 0 1, op_maxStack = maxStack 0 1, memorySize = None\<rparr>),
     (OP_PUSH6, \<lparr>execute = makePush 6 6, constantGas = GasFastestStep, dynamicGas = None, op_minStack = minStack 0 1, op_maxStack = maxStack 0 1, memorySize = None\<rparr>),
     (OP_PUSH7, \<lparr>execute = makePush 7 7, constantGas = GasFastestStep, dynamicGas = None, op_minStack = minStack 0 1, op_maxStack = maxStack 0 1, memorySize = None\<rparr>),
     (OP_PUSH8, \<lparr>execute = makePush 8 8, constantGas = GasFastestStep, dynamicGas = None, op_minStack = minStack 0 1, op_maxStack = maxStack 0 1, memorySize = None\<rparr>),
     (OP_PUSH9, \<lparr>execute = makePush 9 9, constantGas = GasFastestStep, dynamicGas = None, op_minStack = minStack 0 1, op_maxStack = maxStack 0 1, memorySize = None\<rparr>),
     (OP_PUSH10, \<lparr>execute = makePush 10 10, constantGas = GasFastestStep, dynamicGas = None, op_minStack = minStack 0 1, op_maxStack = maxStack 0 1, memorySize = None\<rparr>),
     (OP_PUSH11, \<lparr>execute = makePush 11 11, constantGas = GasFastestStep, dynamicGas = None, op_minStack = minStack 0 1, op_maxStack = maxStack 0 1, memorySize = None\<rparr>),
     (OP_PUSH12, \<lparr>execute = makePush 12 12, constantGas = GasFastestStep, dynamicGas = None, op_minStack = minStack 0 1, op_maxStack = maxStack 0 1, memorySize = None\<rparr>),
     (OP_PUSH13, \<lparr>execute = makePush 13 13, constantGas = GasFastestStep, dynamicGas = None, op_minStack = minStack 0 1, op_maxStack = maxStack 0 1, memorySize = None\<rparr>),
     (OP_PUSH14, \<lparr>execute = makePush 14 14, constantGas = GasFastestStep, dynamicGas = None, op_minStack = minStack 0 1, op_maxStack = maxStack 0 1, memorySize = None\<rparr>),
     (OP_PUSH15, \<lparr>execute = makePush 15 15, constantGas = GasFastestStep, dynamicGas = None, op_minStack = minStack 0 1, op_maxStack = maxStack 0 1, memorySize = None\<rparr>),
     (OP_PUSH16, \<lparr>execute = makePush 16 16, constantGas = GasFastestStep, dynamicGas = None, op_minStack = minStack 0 1, op_maxStack = maxStack 0 1, memorySize = None\<rparr>),
     (OP_PUSH17, \<lparr>execute = makePush 17 17, constantGas = GasFastestStep, dynamicGas = None, op_minStack = minStack 0 1, op_maxStack = maxStack 0 1, memorySize = None\<rparr>)]"

definition frontier_ops4 :: "(u8 \<times> operation) list" where
  "frontier_ops4 =
    [(OP_PUSH18, \<lparr>execute = makePush 18 18, constantGas = GasFastestStep, dynamicGas = None, op_minStack = minStack 0 1, op_maxStack = maxStack 0 1, memorySize = None\<rparr>),
     (OP_PUSH19, \<lparr>execute = makePush 19 19, constantGas = GasFastestStep, dynamicGas = None, op_minStack = minStack 0 1, op_maxStack = maxStack 0 1, memorySize = None\<rparr>),
     (OP_PUSH20, \<lparr>execute = makePush 20 20, constantGas = GasFastestStep, dynamicGas = None, op_minStack = minStack 0 1, op_maxStack = maxStack 0 1, memorySize = None\<rparr>),
     (OP_PUSH21, \<lparr>execute = makePush 21 21, constantGas = GasFastestStep, dynamicGas = None, op_minStack = minStack 0 1, op_maxStack = maxStack 0 1, memorySize = None\<rparr>),
     (OP_PUSH22, \<lparr>execute = makePush 22 22, constantGas = GasFastestStep, dynamicGas = None, op_minStack = minStack 0 1, op_maxStack = maxStack 0 1, memorySize = None\<rparr>),
     (OP_PUSH23, \<lparr>execute = makePush 23 23, constantGas = GasFastestStep, dynamicGas = None, op_minStack = minStack 0 1, op_maxStack = maxStack 0 1, memorySize = None\<rparr>),
     (OP_PUSH24, \<lparr>execute = makePush 24 24, constantGas = GasFastestStep, dynamicGas = None, op_minStack = minStack 0 1, op_maxStack = maxStack 0 1, memorySize = None\<rparr>),
     (OP_PUSH25, \<lparr>execute = makePush 25 25, constantGas = GasFastestStep, dynamicGas = None, op_minStack = minStack 0 1, op_maxStack = maxStack 0 1, memorySize = None\<rparr>),
     (OP_PUSH26, \<lparr>execute = makePush 26 26, constantGas = GasFastestStep, dynamicGas = None, op_minStack = minStack 0 1, op_maxStack = maxStack 0 1, memorySize = None\<rparr>),
     (OP_PUSH27, \<lparr>execute = makePush 27 27, constantGas = GasFastestStep, dynamicGas = None, op_minStack = minStack 0 1, op_maxStack = maxStack 0 1, memorySize = None\<rparr>),
     (OP_PUSH28, \<lparr>execute = makePush 28 28, constantGas = GasFastestStep, dynamicGas = None, op_minStack = minStack 0 1, op_maxStack = maxStack 0 1, memorySize = None\<rparr>),
     (OP_PUSH29, \<lparr>execute = makePush 29 29, constantGas = GasFastestStep, dynamicGas = None, op_minStack = minStack 0 1, op_maxStack = maxStack 0 1, memorySize = None\<rparr>),
     (OP_PUSH30, \<lparr>execute = makePush 30 30, constantGas = GasFastestStep, dynamicGas = None, op_minStack = minStack 0 1, op_maxStack = maxStack 0 1, memorySize = None\<rparr>),
     (OP_PUSH31, \<lparr>execute = makePush 31 31, constantGas = GasFastestStep, dynamicGas = None, op_minStack = minStack 0 1, op_maxStack = maxStack 0 1, memorySize = None\<rparr>),
     (OP_PUSH32, \<lparr>execute = makePush 32 32, constantGas = GasFastestStep, dynamicGas = None, op_minStack = minStack 0 1, op_maxStack = maxStack 0 1, memorySize = None\<rparr>),
     (OP_DUP1, \<lparr>execute = makeDup 1, constantGas = GasFastestStep, dynamicGas = None, op_minStack = minDupStack 1, op_maxStack = maxDupStack 1, memorySize = None\<rparr>),
     (OP_DUP2, \<lparr>execute = makeDup 2, constantGas = GasFastestStep, dynamicGas = None, op_minStack = minDupStack 2, op_maxStack = maxDupStack 2, memorySize = None\<rparr>),
     (OP_DUP3, \<lparr>execute = makeDup 3, constantGas = GasFastestStep, dynamicGas = None, op_minStack = minDupStack 3, op_maxStack = maxDupStack 3, memorySize = None\<rparr>),
     (OP_DUP4, \<lparr>execute = makeDup 4, constantGas = GasFastestStep, dynamicGas = None, op_minStack = minDupStack 4, op_maxStack = maxDupStack 4, memorySize = None\<rparr>),
     (OP_DUP5, \<lparr>execute = makeDup 5, constantGas = GasFastestStep, dynamicGas = None, op_minStack = minDupStack 5, op_maxStack = maxDupStack 5, memorySize = None\<rparr>),
     (OP_DUP6, \<lparr>execute = makeDup 6, constantGas = GasFastestStep, dynamicGas = None, op_minStack = minDupStack 6, op_maxStack = maxDupStack 6, memorySize = None\<rparr>),
     (OP_DUP7, \<lparr>execute = makeDup 7, constantGas = GasFastestStep, dynamicGas = None, op_minStack = minDupStack 7, op_maxStack = maxDupStack 7, memorySize = None\<rparr>),
     (OP_DUP8, \<lparr>execute = makeDup 8, constantGas = GasFastestStep, dynamicGas = None, op_minStack = minDupStack 8, op_maxStack = maxDupStack 8, memorySize = None\<rparr>),
     (OP_DUP9, \<lparr>execute = makeDup 9, constantGas = GasFastestStep, dynamicGas = None, op_minStack = minDupStack 9, op_maxStack = maxDupStack 9, memorySize = None\<rparr>),
     (OP_DUP10, \<lparr>execute = makeDup 10, constantGas = GasFastestStep, dynamicGas = None, op_minStack = minDupStack 10, op_maxStack = maxDupStack 10, memorySize = None\<rparr>)]"

definition frontier_ops5 :: "(u8 \<times> operation) list" where
  "frontier_ops5 =
    [(OP_DUP11, \<lparr>execute = makeDup 11, constantGas = GasFastestStep, dynamicGas = None, op_minStack = minDupStack 11, op_maxStack = maxDupStack 11, memorySize = None\<rparr>),
     (OP_DUP12, \<lparr>execute = makeDup 12, constantGas = GasFastestStep, dynamicGas = None, op_minStack = minDupStack 12, op_maxStack = maxDupStack 12, memorySize = None\<rparr>),
     (OP_DUP13, \<lparr>execute = makeDup 13, constantGas = GasFastestStep, dynamicGas = None, op_minStack = minDupStack 13, op_maxStack = maxDupStack 13, memorySize = None\<rparr>),
     (OP_DUP14, \<lparr>execute = makeDup 14, constantGas = GasFastestStep, dynamicGas = None, op_minStack = minDupStack 14, op_maxStack = maxDupStack 14, memorySize = None\<rparr>),
     (OP_DUP15, \<lparr>execute = makeDup 15, constantGas = GasFastestStep, dynamicGas = None, op_minStack = minDupStack 15, op_maxStack = maxDupStack 15, memorySize = None\<rparr>),
     (OP_DUP16, \<lparr>execute = makeDup 16, constantGas = GasFastestStep, dynamicGas = None, op_minStack = minDupStack 16, op_maxStack = maxDupStack 16, memorySize = None\<rparr>),
     (OP_SWAP1, \<lparr>execute = makeSwap 1, constantGas = GasFastestStep, dynamicGas = None, op_minStack = minSwapStack 2, op_maxStack = maxSwapStack 2, memorySize = None\<rparr>),
     (OP_SWAP2, \<lparr>execute = makeSwap 2, constantGas = GasFastestStep, dynamicGas = None, op_minStack = minSwapStack 3, op_maxStack = maxSwapStack 3, memorySize = None\<rparr>),
     (OP_SWAP3, \<lparr>execute = makeSwap 3, constantGas = GasFastestStep, dynamicGas = None, op_minStack = minSwapStack 4, op_maxStack = maxSwapStack 4, memorySize = None\<rparr>),
     (OP_SWAP4, \<lparr>execute = makeSwap 4, constantGas = GasFastestStep, dynamicGas = None, op_minStack = minSwapStack 5, op_maxStack = maxSwapStack 5, memorySize = None\<rparr>),
     (OP_SWAP5, \<lparr>execute = makeSwap 5, constantGas = GasFastestStep, dynamicGas = None, op_minStack = minSwapStack 6, op_maxStack = maxSwapStack 6, memorySize = None\<rparr>),
     (OP_SWAP6, \<lparr>execute = makeSwap 6, constantGas = GasFastestStep, dynamicGas = None, op_minStack = minSwapStack 7, op_maxStack = maxSwapStack 7, memorySize = None\<rparr>),
     (OP_SWAP7, \<lparr>execute = makeSwap 7, constantGas = GasFastestStep, dynamicGas = None, op_minStack = minSwapStack 8, op_maxStack = maxSwapStack 8, memorySize = None\<rparr>),
     (OP_SWAP8, \<lparr>execute = makeSwap 8, constantGas = GasFastestStep, dynamicGas = None, op_minStack = minSwapStack 9, op_maxStack = maxSwapStack 9, memorySize = None\<rparr>),
     (OP_SWAP9, \<lparr>execute = makeSwap 9, constantGas = GasFastestStep, dynamicGas = None, op_minStack = minSwapStack 10, op_maxStack = maxSwapStack 10, memorySize = None\<rparr>),
     (OP_SWAP10, \<lparr>execute = makeSwap 10, constantGas = GasFastestStep, dynamicGas = None, op_minStack = minSwapStack 11, op_maxStack = maxSwapStack 11, memorySize = None\<rparr>),
     (OP_SWAP11, \<lparr>execute = makeSwap 11, constantGas = GasFastestStep, dynamicGas = None, op_minStack = minSwapStack 12, op_maxStack = maxSwapStack 12, memorySize = None\<rparr>),
     (OP_SWAP12, \<lparr>execute = makeSwap 12, constantGas = GasFastestStep, dynamicGas = None, op_minStack = minSwapStack 13, op_maxStack = maxSwapStack 13, memorySize = None\<rparr>),
     (OP_SWAP13, \<lparr>execute = makeSwap 13, constantGas = GasFastestStep, dynamicGas = None, op_minStack = minSwapStack 14, op_maxStack = maxSwapStack 14, memorySize = None\<rparr>),
     (OP_SWAP14, \<lparr>execute = makeSwap 14, constantGas = GasFastestStep, dynamicGas = None, op_minStack = minSwapStack 15, op_maxStack = maxSwapStack 15, memorySize = None\<rparr>),
     (OP_SWAP15, \<lparr>execute = makeSwap 15, constantGas = GasFastestStep, dynamicGas = None, op_minStack = minSwapStack 16, op_maxStack = maxSwapStack 16, memorySize = None\<rparr>),
     (OP_SWAP16, \<lparr>execute = makeSwap 16, constantGas = GasFastestStep, dynamicGas = None, op_minStack = minSwapStack 17, op_maxStack = maxSwapStack 17, memorySize = None\<rparr>),
     (OP_LOG0, \<lparr>execute = makeLog 0, constantGas = 0, dynamicGas = Some (makeGasLog 0), op_minStack = minStack 2 0, op_maxStack = maxStack 2 0, memorySize = Some memoryLog\<rparr>),
     (OP_LOG1, \<lparr>execute = makeLog 1, constantGas = 0, dynamicGas = Some (makeGasLog 1), op_minStack = minStack 3 0, op_maxStack = maxStack 3 0, memorySize = Some memoryLog\<rparr>)]"

definition frontier_ops6 :: "(u8 \<times> operation) list" where
  "frontier_ops6 =
    [(OP_LOG2, \<lparr>execute = makeLog 2, constantGas = 0, dynamicGas = Some (makeGasLog 2), op_minStack = minStack 4 0, op_maxStack = maxStack 4 0, memorySize = Some memoryLog\<rparr>),
     (OP_LOG3, \<lparr>execute = makeLog 3, constantGas = 0, dynamicGas = Some (makeGasLog 3), op_minStack = minStack 5 0, op_maxStack = maxStack 5 0, memorySize = Some memoryLog\<rparr>),
     (OP_LOG4, \<lparr>execute = makeLog 4, constantGas = 0, dynamicGas = Some (makeGasLog 4), op_minStack = minStack 6 0, op_maxStack = maxStack 6 0, memorySize = Some memoryLog\<rparr>),
     (OP_CREATE, \<lparr>execute = opCreate, constantGas = CreateGas, dynamicGas = Some gasCreate, op_minStack = minStack 3 1, op_maxStack = maxStack 3 1, memorySize = Some memoryCreate\<rparr>),
     (OP_CALL, \<lparr>execute = opCall, constantGas = CallGasFrontier, dynamicGas = Some gasCall, op_minStack = minStack 7 1, op_maxStack = maxStack 7 1, memorySize = Some memoryCall\<rparr>),
     (OP_CALLCODE, \<lparr>execute = opCallCode, constantGas = CallGasFrontier, dynamicGas = Some gasCallCode, op_minStack = minStack 7 1, op_maxStack = maxStack 7 1, memorySize = Some memoryCall\<rparr>),
     (OP_RETURN, \<lparr>execute = opReturn, constantGas = 0, dynamicGas = Some gasReturn, op_minStack = minStack 2 0, op_maxStack = maxStack 2 0, memorySize = Some memoryReturn\<rparr>),
     (OP_SELFDESTRUCT, \<lparr>execute = opSelfdestruct, constantGas = 0, dynamicGas = Some gasSelfdestruct, op_minStack = minStack 1 0, op_maxStack = maxStack 1 0, memorySize = None\<rparr>)]"

definition undefined_op :: operation where
  "undefined_op = \<lparr>execute = opUndefined, constantGas = 0, dynamicGas = None, op_minStack = 0,
     op_maxStack = maxStack 0 0, memorySize = None\<rparr>"

definition newFrontierInstructionSet :: "JumpTable go" where
  "newFrontierInstructionSet =
     (let tbl = map_of (frontier_ops1 @ frontier_ops2 @ frontier_ops3 @ frontier_ops4 @ frontier_ops5 @ frontier_ops6)
      in validate (\<lambda>i. case tbl i of None \<Rightarrow> Some undefined_op | Some op \<Rightarrow> Some op))"

section \<open>The later forks\<close>

text \<open>The instruction set of the previous fork, some changes, and \<open>validate\<close>.\<close>

definition fork :: "JumpTable go \<Rightarrow> (JumpTable \<Rightarrow> JumpTable go) list \<Rightarrow> JumpTable go" where
  "fork old changes = go_bind old (\<lambda>jt. go_bind (go_seq changes jt) validate)"

definition newHomesteadInstructionSet :: "JumpTable go" where
  "newHomesteadInstructionSet = fork newFrontierInstructionSet
     [put_op OP_DELEGATECALL
        \<lparr>execute = opDelegateCall, constantGas = CallGasFrontier, dynamicGas = Some gasDelegateCall, op_minStack = minStack 6 1, op_maxStack = maxStack 6 1, memorySize = Some memoryDelegateCall\<rparr>]"

definition newTangerineWhistleInstructionSet :: "JumpTable go" where
  "newTangerineWhistleInstructionSet = fork newHomesteadInstructionSet
     [with_op OP_BALANCE (set_const BalanceGasEIP150),
      with_op OP_EXTCODESIZE (set_const ExtcodeSizeGasEIP150),
      with_op OP_SLOAD (set_const SloadGasEIP150),
      with_op OP_EXTCODECOPY (set_const ExtcodeCopyBaseEIP150),
      with_op OP_CALL (set_const CallGasEIP150),
      with_op OP_CALLCODE (set_const CallGasEIP150),
      with_op OP_DELEGATECALL (set_const CallGasEIP150)]"

definition newSpuriousDragonInstructionSet :: "JumpTable go" where
  "newSpuriousDragonInstructionSet = fork newTangerineWhistleInstructionSet [with_op OP_EXP (set_dyn gasExpEIP158)]"

definition newByzantiumInstructionSet :: "JumpTable go" where
  "newByzantiumInstructionSet = fork newSpuriousDragonInstructionSet
     [put_op OP_STATICCALL
        \<lparr>execute = opStaticCall, constantGas = CallGasEIP150, dynamicGas = Some gasStaticCall, op_minStack = minStack 6 1, op_maxStack = maxStack 6 1, memorySize = Some memoryStaticCall\<rparr>,
      put_op OP_RETURNDATASIZE
        \<lparr>execute = opReturnDataSize, constantGas = GasQuickStep, dynamicGas = None, op_minStack = minStack 0 1, op_maxStack = maxStack 0 1, memorySize = None\<rparr>,
      put_op OP_RETURNDATACOPY
        \<lparr>execute = opReturnDataCopy, constantGas = GasFastestStep, dynamicGas = Some gasReturnDataCopy, op_minStack = minStack 3 0, op_maxStack = maxStack 3 0, memorySize = Some memoryReturnDataCopy\<rparr>,
      put_op OP_REVERT
        \<lparr>execute = opRevert, constantGas = 0, dynamicGas = Some gasRevert, op_minStack = minStack 2 0, op_maxStack = maxStack 2 0, memorySize = Some memoryRevert\<rparr>]"

definition newConstantinopleInstructionSet :: "JumpTable go" where
  "newConstantinopleInstructionSet = fork newByzantiumInstructionSet
     [put_op OP_SHL
        \<lparr>execute = opSHL, constantGas = GasFastestStep, dynamicGas = None, op_minStack = minStack 2 1, op_maxStack = maxStack 2 1, memorySize = None\<rparr>,
      put_op OP_SHR
        \<lparr>execute = opSHR, constantGas = GasFastestStep, dynamicGas = None, op_minStack = minStack 2 1, op_maxStack = maxStack 2 1, memorySize = None\<rparr>,
      put_op OP_SAR
        \<lparr>execute = opSAR, constantGas = GasFastestStep, dynamicGas = None, op_minStack = minStack 2 1, op_maxStack = maxStack 2 1, memorySize = None\<rparr>,
      put_op OP_EXTCODEHASH
        \<lparr>execute = opExtCodeHash, constantGas = ExtcodeHashGasConstantinople, dynamicGas = None, op_minStack = minStack 1 1, op_maxStack = maxStack 1 1, memorySize = None\<rparr>,
      put_op OP_CREATE2
        \<lparr>execute = opCreate2, constantGas = Create2Gas, dynamicGas = Some gasCreate2, op_minStack = minStack 4 1, op_maxStack = maxStack 4 1, memorySize = Some memoryCreate2\<rparr>]"

definition enable1884 :: "JumpTable \<Rightarrow> JumpTable go" where
  "enable1884 = go_seq
     [with_op OP_SLOAD (set_const SloadGasEIP1884),
      with_op OP_BALANCE (set_const BalanceGasEIP1884),
      with_op OP_EXTCODEHASH (set_const ExtcodeHashGasEIP1884),
      put_op OP_SELFBALANCE
        \<lparr>execute = opSelfBalance, constantGas = GasFastStep, dynamicGas = None, op_minStack = minStack 0 1, op_maxStack = maxStack 0 1, memorySize = None\<rparr>]"

definition enable1344 :: "JumpTable \<Rightarrow> JumpTable go" where
  "enable1344 = put_op OP_CHAINID
     \<lparr>execute = opChainID, constantGas = GasQuickStep, dynamicGas = None, op_minStack = minStack 0 1, op_maxStack = maxStack 0 1, memorySize = None\<rparr>"

definition enable2200 :: "JumpTable \<Rightarrow> JumpTable go" where
  "enable2200 = go_seq
     [with_op OP_SLOAD (set_const SloadGasEIP2200),
      with_op OP_SSTORE (set_dyn gasSStoreEIP2200)]"

definition enable2929 :: "JumpTable \<Rightarrow> JumpTable go" where
  "enable2929 = go_seq
     [with_op OP_SSTORE (set_dyn gasSStoreEIP2929),
      with_op OP_SLOAD (set_dyn gasSLoadEIP2929 \<circ> set_const 0),
      with_op OP_EXTCODECOPY (set_dyn gasExtCodeCopyEIP2929 \<circ> set_const WarmStorageReadCostEIP2929),
      with_op OP_EXTCODESIZE (set_dyn gasEip2929AccountCheck \<circ> set_const WarmStorageReadCostEIP2929),
      with_op OP_EXTCODEHASH (set_dyn gasEip2929AccountCheck \<circ> set_const WarmStorageReadCostEIP2929),
      with_op OP_BALANCE (set_dyn gasEip2929AccountCheck \<circ> set_const WarmStorageReadCostEIP2929),
      with_op OP_CALL (set_dyn gasCallEIP2929 \<circ> set_const WarmStorageReadCostEIP2929),
      with_op OP_CALLCODE (set_dyn gasCallCodeEIP2929 \<circ> set_const WarmStorageReadCostEIP2929),
      with_op OP_STATICCALL (set_dyn gasStaticCallEIP2929 \<circ> set_const WarmStorageReadCostEIP2929),
      with_op OP_DELEGATECALL (set_dyn gasDelegateCallEIP2929 \<circ> set_const WarmStorageReadCostEIP2929),
      with_op OP_SELFDESTRUCT (set_dyn gasSelfdestructEIP2929 \<circ> set_const SelfdestructGasEIP150)]"

definition enable3529 :: "JumpTable \<Rightarrow> JumpTable go" where
  "enable3529 = go_seq
     [with_op OP_SSTORE (set_dyn gasSStoreEIP3529),
      with_op OP_SELFDESTRUCT (set_dyn gasSelfdestructEIP3529)]"

definition enable3198 :: "JumpTable \<Rightarrow> JumpTable go" where
  "enable3198 = put_op OP_BASEFEE
     \<lparr>execute = opBaseFee, constantGas = GasQuickStep, dynamicGas = None, op_minStack = minStack 0 1, op_maxStack = maxStack 0 1, memorySize = None\<rparr>"

definition enable1153 :: "JumpTable \<Rightarrow> JumpTable go" where
  "enable1153 = go_seq
     [put_op OP_TLOAD
        \<lparr>execute = opTload, constantGas = WarmStorageReadCostEIP2929, dynamicGas = None, op_minStack = minStack 1 1, op_maxStack = maxStack 1 1, memorySize = None\<rparr>,
      put_op OP_TSTORE
        \<lparr>execute = opTstore, constantGas = WarmStorageReadCostEIP2929, dynamicGas = None, op_minStack = minStack 2 0, op_maxStack = maxStack 2 0, memorySize = None\<rparr>]"

definition enable3855 :: "JumpTable \<Rightarrow> JumpTable go" where
  "enable3855 = put_op OP_PUSH0
     \<lparr>execute = opPush0, constantGas = GasQuickStep, dynamicGas = None, op_minStack = minStack 0 1, op_maxStack = maxStack 0 1, memorySize = None\<rparr>"

definition enable3860 :: "JumpTable \<Rightarrow> JumpTable go" where
  "enable3860 = go_seq
     [with_op OP_CREATE (set_dyn gasCreateEip3860),
      with_op OP_CREATE2 (set_dyn gasCreate2Eip3860)]"

definition enable5656 :: "JumpTable \<Rightarrow> JumpTable go" where
  "enable5656 = put_op OP_MCOPY
     \<lparr>execute = opMcopy, constantGas = GasFastestStep, dynamicGas = Some gasMcopy, op_minStack = minStack 3 0, op_maxStack = maxStack 3 0, memorySize = Some memoryMcopy\<rparr>"

definition enable4844 :: "JumpTable \<Rightarrow> JumpTable go" where
  "enable4844 = put_op OP_BLOBHASH
     \<lparr>execute = opBlobHash, constantGas = GasFastestStep, dynamicGas = None, op_minStack = minStack 1 1, op_maxStack = maxStack 1 1, memorySize = None\<rparr>"

definition enable7516 :: "JumpTable \<Rightarrow> JumpTable go" where
  "enable7516 = put_op OP_BLOBBASEFEE
     \<lparr>execute = opBlobBaseFee, constantGas = GasQuickStep, dynamicGas = None, op_minStack = minStack 0 1, op_maxStack = maxStack 0 1, memorySize = None\<rparr>"

definition enable6780 :: "JumpTable \<Rightarrow> JumpTable go" where
  "enable6780 = put_op OP_SELFDESTRUCT
     \<lparr>execute = opSelfdestruct6780, constantGas = SelfdestructGasEIP150, dynamicGas = Some gasSelfdestructEIP3529, op_minStack = minStack 1 0, op_maxStack = maxStack 1 0, memorySize = None\<rparr>"

definition newIstanbulInstructionSet :: "JumpTable go" where
  "newIstanbulInstructionSet = fork newConstantinopleInstructionSet [enable1344, enable1884, enable2200]"

definition newBerlinInstructionSet :: "JumpTable go" where
  "newBerlinInstructionSet = fork newIstanbulInstructionSet [enable2929]"

definition newLondonInstructionSet :: "JumpTable go" where
  "newLondonInstructionSet = fork newBerlinInstructionSet [enable3529, enable3198]"

definition newMergeInstructionSet :: "JumpTable go" where
  "newMergeInstructionSet = fork newLondonInstructionSet
     [put_op OP_PREVRANDAO
        \<lparr>execute = opRandom, constantGas = GasQuickStep, dynamicGas = None, op_minStack = minStack 0 1, op_maxStack = maxStack 0 1, memorySize = None\<rparr>]"

definition newShanghaiInstructionSet :: "JumpTable go" where
  "newShanghaiInstructionSet = fork newMergeInstructionSet [enable3855, enable3860]"

definition newCancunInstructionSet :: "JumpTable go" where
  "newCancunInstructionSet = fork newShanghaiInstructionSet [enable4844, enable7516, enable1153, enable5656, enable6780]"

section \<open>Choosing a table\<close>

definition activators :: "int \<Rightarrow> (JumpTable \<Rightarrow> JumpTable go) option" where
  "activators n =
     (if n = 5656 then Some enable5656
      else if n = 6780 then Some enable6780
      else if n = 3855 then Some enable3855
      else if n = 3860 then Some enable3860
      else if n = 3529 then Some enable3529
      else if n = 3198 then Some enable3198
      else if n = 2929 then Some enable2929
      else if n = 2200 then Some enable2200
      else if n = 1884 then Some enable1884
      else if n = 1344 then Some enable1344
      else if n = 1153 then Some enable1153
      else None)"

definition ValidEip :: "int \<Rightarrow> bool" where
  "ValidEip n \<longleftrightarrow> activators n \<noteq> None"

text \<open>\<open>EnableEIP\<close> returns an error (\<open>False\<close>) and leaves the table alone for an unknown number.\<close>

definition EnableEIP :: "int \<Rightarrow> JumpTable \<Rightarrow> (bool \<times> JumpTable) go" where
  "EnableEIP n jt =
     (case activators n of None \<Rightarrow> Ret (False, jt) | Some enable \<Rightarrow> go_bind (enable jt) (\<lambda>jt. Ret (True, jt)))"

definition LookupInstructionSet :: "rules \<Rightarrow> (JumpTable \<times> string option) go" where
  "LookupInstructionSet r =
     (let ok = (\<lambda>m. go_bind m (\<lambda>jt. Ret (jt, None))) in
      if IsVerkle r then go_bind newCancunInstructionSet (\<lambda>jt. Ret (jt, Some ''verkle-fork not defined yet''))
      else if IsPrague r then go_bind newCancunInstructionSet (\<lambda>jt. Ret (jt, Some ''prague-fork not defined yet''))
      else if IsCancun r then ok newCancunInstructionSet
      else if IsShanghai r then ok newShanghaiInstructionSet
      else if IsMerge r then ok newMergeInstructionSet
      else if IsLondon r then ok newLondonInstructionSet
      else if IsBerlin r then ok newBerlinInstructionSet
      else if IsIstanbul r then ok newIstanbulInstructionSet
      else if IsConstantinople r then ok newConstantinopleInstructionSet
      else if IsByzantium r then ok newByzantiumInstructionSet
      else if IsEIP158 r then ok newSpuriousDragonInstructionSet
      else if IsEIP150 r then ok newTangerineWhistleInstructionSet
      else if IsHomestead r then ok newHomesteadInstructionSet
      else ok newFrontierInstructionSet)"

definition op_Stack :: "operation \<Rightarrow> int \<times> int" where
  "op_Stack op = (op_minStack op, op_maxStack op)"

definition HasCost :: "operation \<Rightarrow> bool" where
  "HasCost op \<longleftrightarrow> dynamicGas op \<noteq> None \<or> constantGas op \<noteq> 0"

text \<open>
  The table of \<open>NewEVMInterpreter\<close>: that of the newest fork in force, then the extra EIPs that are
  known; the result also has the list of the EIPs that were enabled.
\<close>

definition fork_table :: "rules \<Rightarrow> JumpTable go" where
  "fork_table r =
     (if IsCancun r then newCancunInstructionSet
      else if IsShanghai r then newShanghaiInstructionSet
      else if IsMerge r then newMergeInstructionSet
      else if IsLondon r then newLondonInstructionSet
      else if IsBerlin r then newBerlinInstructionSet
      else if IsIstanbul r then newIstanbulInstructionSet
      else if IsConstantinople r then newConstantinopleInstructionSet
      else if IsByzantium r then newByzantiumInstructionSet
      else if IsEIP158 r then newSpuriousDragonInstructionSet
      else if IsEIP150 r then newTangerineWhistleInstructionSet
      else if IsHomestead r then newHomesteadInstructionSet
      else newFrontierInstructionSet)"

fun enable_extra :: "int list \<Rightarrow> JumpTable \<Rightarrow> (JumpTable \<times> int list) go" where
  "enable_extra [] jt = Ret (jt, [])"
| "enable_extra (n # ns) jt =
     go_bind (EnableEIP n jt) (\<lambda>(ok, jt).
     go_bind (enable_extra ns jt) (\<lambda>(jt, extra). Ret (jt, if ok then n # extra else extra)))"

definition NewEVMInterpreter :: "rules \<Rightarrow> int list \<Rightarrow> (JumpTable \<times> int list) go" where
  "NewEVMInterpreter r extraEips = go_bind (fork_table r) (enable_extra extraEips)"

end
