(* ===== verification/Instruction_Gas.thy ===== *)
theory Instruction_Gas imports Jump_Table begin

text \<open>
  The gas accounting of single instructions. \<open>nofuel\<close>: the action never asks for more fuel (only
  the interpreter, which calls run, can). An \<open>ordinary\<close> instruction does not increase the gas of its
  frame and starts calls with at most that gas only; a \<open>calling\<close> one may increase it by what was
  set aside for the call, and the stipend.
\<close>

section \<open>Actions that need no fuel\<close>

definition nofuel :: "'a act \<Rightarrow> bool" where
  "nofuel m \<longleftrightarrow> (\<forall>e fr. m e fr \<noteq> OutOfFuel)"

definition returns_fuel :: "'a go \<Rightarrow> bool" where
  "returns_fuel m \<longleftrightarrow> m \<noteq> OutOfFuel"

lemma returns_fuel_simps [simp]:
  "returns_fuel (Ret x)" "returns_fuel (Panic p)" "\<not> returns_fuel OutOfFuel"
  by (simp_all add: returns_fuel_def)

lemma returns_fuel_bind: "returns_fuel m \<Longrightarrow> (\<And>x. returns_fuel (f x)) \<Longrightarrow> returns_fuel (go_bind m f)"
  by (auto simp: returns_fuel_def)

lemma nofuel_bind: "nofuel m \<Longrightarrow> (\<And>x. nofuel (f x)) \<Longrightarrow> nofuel (a_bind m f)"
proof -
  assume m: "nofuel m" and f: "\<And>x. nofuel (f x)"
  have "a_bind m f e fr \<noteq> OutOfFuel" for e fr
    using m f by (auto simp: nofuel_def a_bind_def split: sum.splits)
  then show ?thesis by (simp add: nofuel_def)
qed

lemma returns_fuel_stack [simp]:
  "returns_fuel (stack_pop st)" "returns_fuel (stack_peek st)" "returns_fuel (stack_set_top v st)" "returns_fuel (Back st n)"
  "returns_fuel (stack_dup n st)" "returns_fuel (stack_swap n st)"
  by (cases st; simp add: Back_def stack_dup_def stack_swap_def)+

lemma returns_fuel_mem [simp]:
  "returns_fuel (mem_GetPtr m x y)" "returns_fuel (mem_GetCopy m x y)" "returns_fuel (mem_Set m a b d)"
  "returns_fuel (mem_Set32 m a v)" "returns_fuel (mem_Set8 m a w)" "returns_fuel (mem_Copy m a b c)"
  "returns_fuel (getData d a b)" "returns_fuel (slice xs i j)" "returns_fuel (nth_go xs i)"
  by (auto simp: returns_fuel_def mem_GetPtr_def mem_GetCopy_def mem_Set_def mem_Set32_def mem_Set8_def
      mem_Copy_def getData_def slice_def nth_go_def Let_def split: if_splits)

lemma returns_fuel_state [simp]:
  "returns_fuel (SubRefund g s)" "returns_fuel (AddSlotToAccessList a k s)" "returns_fuel (SlotInAccessList a k s)"
  by (auto simp: returns_fuel_def SubRefund_def AddSlotToAccessList_def SlotInAccessList_def AddSlot_def Contains_def
      slots_at_def Let_def nth_go_def split: if_splits option.splits prod.splits)

lemma nofuel_simple:
  "nofuel (a_ret x)" "nofuel (a_fail err d)" "nofuel (a_err err)" "nofuel (a_panic p)" "nofuel (a_evm f)"
  "nofuel (a_frame g)" "nofuel a_self" "nofuel (a_pc pc)" "nofuel (a_use_gas gas)" "nofuel (a_add_gas gas)"
  "nofuel (a_ask q)" "nofuel (a_do d')" "nofuel (a_callGasTemp gas)" "nofuel (a_returnData rd)" "nofuel (a_abort env)"
  "nofuel (a_push v)" "nofuel a_pop" "nofuel a_peek" "nofuel (a_set v)" "nofuel (a_back n)"
  using returns_fuel_stack
  by (auto simp: nofuel_def returns_fuel_def a_ret_def a_fail_def a_err_def a_panic_def a_evm_def a_frame_def a_self_def
      a_pc_def a_use_gas_def a_add_gas_def a_ask_def a_do_def a_state_def a_callGasTemp_def a_returnData_def a_abort_def
      a_push_def a_pop_def a_peek_def a_set_def a_back_def split: prod.splits)

lemma nofuel_if: "(b \<Longrightarrow> nofuel m) \<Longrightarrow> (\<not> b \<Longrightarrow> nofuel m') \<Longrightarrow> nofuel (if b then m else m')"
  by simp

lemma nofuel_case:
  "(\<And>x y. nofuel (f x y)) \<Longrightarrow> nofuel (case p of (x, y) \<Rightarrow> f x y)"
  "nofuel m \<Longrightarrow> (\<And>y. nofuel (g y)) \<Longrightarrow> nofuel (case z of None \<Rightarrow> m | Some y \<Rightarrow> g y)"
  "(\<And>y. nofuel (h y)) \<Longrightarrow> (\<And>y. nofuel (k y)) \<Longrightarrow> nofuel (case s of Inl y \<Rightarrow> h y | Inr y \<Rightarrow> k y)"
  by (cases p, simp) (cases z, simp, simp, cases s, simp, simp)

lemma nofuel_let: "(\<And>x. nofuel (f x)) \<Longrightarrow> nofuel (let x = t in f x)"
  by (simp add: Let_def)

lemma nofuel_lift:
  "returns_fuel r \<Longrightarrow> nofuel (a_go r)" "(\<And>m. returns_fuel (f m)) \<Longrightarrow> nofuel (a_mem f)"
  "(\<And>s. returns_fuel (g s)) \<Longrightarrow> nofuel (a_state g)" "(\<And>st. returns_fuel (h st)) \<Longrightarrow> nofuel (a_stack h)"
  by (auto simp: nofuel_def returns_fuel_def a_go_def a_mem_def a_state_def a_stack_def)

lemma nofuel_jumpdest: "nofuel (a_validJumpdest pos)"
proof -
  have "returns_fuel (validJumpdest pos c jd)" for c jd
    using codeBitmap_segments [of "c_Code c"]
    by (auto simp: validJumpdest_def isCode_def codeSegment_def
        intro!: returns_fuel_bind split: prod.split option.split)
  then show ?thesis by (auto simp: nofuel_def returns_fuel_def a_validJumpdest_def)
qed

lemmas nofuel_rules = nofuel_bind nofuel_simple nofuel_if nofuel_case nofuel_let nofuel_lift nofuel_jumpdest

lemma nofuel_gas_parts:
  "nofuel (checked r)" "nofuel (a_memoryGas n)" "nofuel (a_do_go (SubRefund g))" "nofuel (a_do_go (AddSlotToAccessList a k))"
  "nofuel (a_slot_warm a k)" "nofuel (a_address_warm a)" "nofuel (refund g)" "nofuel a_gas_left"
  by (auto intro!: nofuel_rules returns_fuel_bind simp: checked_def a_do_go_def a_slot_warm_def a_address_warm_def
      refund_def a_gas_left_def)
    (auto simp: nofuel_def a_memoryGas_def split: sum.splits)

lemma nofuel_gas:
  "nofuel (gasCallDataCopy env n)" "nofuel (gasCodeCopy env n)" "nofuel (gasMcopy env n)" "nofuel (gasExtCodeCopy env n)"
  "nofuel (gasReturnDataCopy env n)" "nofuel (gasSStore env n)" "nofuel (gasSStoreEIP2200 env n)"
  "nofuel (makeGasLog t env n)" "nofuel (gasKeccak256 env n)" "nofuel (gasReturn env n)" "nofuel (gasRevert env n)"
  "nofuel (gasMLoad env n)" "nofuel (gasMStore8 env n)" "nofuel (gasMStore env n)" "nofuel (gasCreate env n)"
  "nofuel (gasCreate2 env n)" "nofuel (gasCreateEip3860 env n)" "nofuel (gasCreate2Eip3860 env n)"
  "nofuel (gasExpFrontier env n)" "nofuel (gasExpEIP158 env n)" "nofuel (gasCall env n)" "nofuel (gasCallCode env n)"
  "nofuel (gasDelegateCall env n)" "nofuel (gasStaticCall env n)" "nofuel (gasSelfdestruct env n)"
  "nofuel (makeGasSStoreFunc r env n)" "nofuel (gasSLoadEIP2929 env n)" "nofuel (gasExtCodeCopyEIP2929 env n)"
  "nofuel (gasEip2929AccountCheck env n)" "nofuel (makeSelfdestructGasFn b env n)"
  "nofuel (gasCallEIP2929 env n)" "nofuel (gasCallCodeEIP2929 env n)" "nofuel (gasDelegateCallEIP2929 env n)"
  "nofuel (gasStaticCallEIP2929 env n)"
  unfolding gasCallDataCopy_def gasCodeCopy_def gasMcopy_def gasExtCodeCopy_def gasReturnDataCopy_def
    memoryCopierGas_def makeGasLog_def gasKeccak256_def gasReturn_def gasRevert_def gasMLoad_def gasMStore8_def
    gasMStore_def gasCreate_def pureMemoryGascost_def gasCreate2_def gasCreateEip3860_def gasCreate2Eip3860_def
    gasExpFrontier_def gasExpEIP158_def gasSStore_def gasSStoreEIP2200_def gasCall_def gasCallCode_def
    new_account_gas_def gasDelegateCall_def gasStaticCall_def gasSelfdestruct_def
    gasExtCodeCopyEIP2929_def makeGasSStoreFunc_def gasSLoadEIP2929_def gasEip2929AccountCheck_def makeSelfdestructGasFn_def
    gasCallEIP2929_def gasCallCodeEIP2929_def gasDelegateCallEIP2929_def gasStaticCallEIP2929_def
    makeCallVariantGasCallEIP2929_def
    word_gas_def sstore_refunds_def initcode_gas_def exp_gas_def call_gas_def empty_and_pays_def
  by - (rule nofuel_rules nofuel_gas_parts)+

lemma nofuel_parts:
  "nofuel done_nil" "nofuel (mem_ptr x y)" "nofuel (mem_copy x y)" "nofuel (mem_write x y d)"
  "nofuel (push_value v)" "nofuel (a_contract f)" "nofuel (push_big b)" "nofuel (jump_to pos)"
  "nofuel (bin_op g)" "nofuel (a_pops n)"
proof -
  show "nofuel (a_pops n)" by (induction n) (auto intro!: nofuel_rules)
qed (auto simp: done_nil_def mem_ptr_def mem_copy_def mem_write_def push_value_def a_contract_def push_big_def
    jump_to_def bin_op_def intro!: nofuel_rules split: option.split)

section \<open>Which calls an instruction starts\<close>

text \<open>\<open>asks run g m\<close>: if \<open>m\<close> runs out of fuel, a run of a contract with at most \<open>g\<close> gas did.\<close>

definition fuel_from :: "runner \<Rightarrow> nat \<Rightarrow> bool" where
  "fuel_from run g \<longleftrightarrow> (\<exists>c input ro e. run c input ro e = OutOfFuel \<and> unat (c_Gas c) \<le> g)"

definition asks :: "runner \<Rightarrow> nat \<Rightarrow> 'a go \<Rightarrow> bool" where
  "asks run g m \<longleftrightarrow> (m = OutOfFuel \<longrightarrow> fuel_from run g)"

lemma asks_simps [simp]: "asks run g (Ret x)" "asks run g (Panic p)"
  by (simp_all add: asks_def)

lemma asks_returns: "returns_fuel m \<Longrightarrow> asks run g m"
  by (simp add: asks_def returns_fuel_def)

lemma asks_bind: "asks run g m \<Longrightarrow> (\<And>x. asks run g (f x)) \<Longrightarrow> asks run g (go_bind m f)"
  by (auto simp: asks_def)

lemma asks_run: "unat (c_Gas c) \<le> g \<Longrightarrow> asks run g (run c input ro e)"
  by (auto simp: asks_def fuel_from_def)

lemma asks_if: "(b \<Longrightarrow> asks run g m) \<Longrightarrow> (\<not> b \<Longrightarrow> asks run g m') \<Longrightarrow> asks run g (if b then m else m')"
  by simp

lemma asks_let: "(\<And>x. asks run g (f x)) \<Longrightarrow> asks run g (let x = t in f x)"
  by (simp add: Let_def)

lemma asks_case:
  "(\<And>x y. asks run g (f x y)) \<Longrightarrow> asks run g (case p of (x, y) \<Rightarrow> f x y)"
  "(\<And>x y. asks run g (f3 x y b)) \<Longrightarrow> asks run g ((case q of (x, y) \<Rightarrow> f3 x y) b)"
  "asks run g m \<Longrightarrow> (\<And>y. asks run g (h y)) \<Longrightarrow> asks run g (case z of None \<Rightarrow> m | Some y \<Rightarrow> h y)"
  "(\<And>a. asks run g (k a)) \<Longrightarrow> (\<And>c. asks run g (k' c)) \<Longrightarrow>
    asks run g (case r of AccountRef a \<Rightarrow> k a | ContractRef c \<Rightarrow> k' c)"
  by (cases p, simp) (cases q, simp, cases z, simp, simp, cases r, simp, simp)

lemma returns_fuel_revert: "returns_fuel (RevertToSnapshot db n s)"
proof -
  have e: "returns_fuel (revert_entry db en s)" for en s
    by (cases "(db, en, s)" rule: revert_entry.cases)
      (auto simp: revert_object_def DeleteSlot_def slots_at_def Let_def returns_fuel_def nth_go_def
        split: option.split prod.split if_splits)
  have "returns_fuel (revert_entries db es s)" for es s
    by (induction es arbitrary: s) (auto intro!: returns_fuel_bind e)
  then show ?thesis unfolding RevertToSnapshot_def journal_revert_def
    by (auto simp: Let_def intro!: returns_fuel_bind)
qed

lemmas asks_rules = asks_bind asks_if asks_let asks_case asks_returns [OF returns_fuel_revert]

lemma asks_settle: "asks run g (settle env n r)"
  unfolding settle_def by - (rule asks_rules asks_simps)+

lemma asks_run_contract: "unat (c_Gas c) \<le> g \<Longrightarrow> asks run g (run_contract run caller c input ro e)"
  unfolding run_contract_def by - (rule asks_rules asks_simps asks_run | assumption)+

lemma asks_precompiled [simp]: "asks run g (call_precompiled p input gas e)"
  by (simp add: asks_def)

lemma asks_call_code: "unat (c_Gas c) \<le> g \<Longrightarrow> asks run g (call_code_of env run caller c addr input gas ro e)"
  unfolding call_code_of_def Let_def
  by - (rule asks_rules asks_simps asks_run_contract | (simp add: SetCallCode_def; fail))+

lemma asks_calls:
  "asks run (unat gas) (evm_Call env run caller addr input gas val e)"
  "asks run (unat gas) (evm_CallCode env run caller addr input gas val e)"
  "asks run (unat gas) (evm_DelegateCall env run caller addr input gas e)"
  "asks run (unat gas) (evm_StaticCall env run caller addr input gas e)"
  "asks run (unat gas) (evm_Create env run caller code gas val e)"
  "asks run (unat gas) (evm_Create2 env run caller code gas val salt e)"
proof -
  have c: "asks run (unat gas) (evm_create env run caller cah gas val address e)" for cah address e
    unfolding evm_create_def deploy_def Let_def
    by - (rule asks_rules asks_simps asks_run | (simp add: SetCodeOptionalHash_def NewContract_def; fail))+
  show "asks run (unat gas) (evm_Create env run caller code gas val e)"
    "asks run (unat gas) (evm_Create2 env run caller code gas val salt e)"
    unfolding evm_Create_def evm_Create2_def by - (rule asks_rules c)+
  show "asks run (unat gas) (evm_Call env run caller addr input gas val e)"
    "asks run (unat gas) (evm_CallCode env run caller addr input gas val e)"
    "asks run (unat gas) (evm_StaticCall env run caller addr input gas e)"
    unfolding evm_Call_def evm_CallCode_def evm_StaticCall_def Let_def
    by - (rule asks_rules asks_simps asks_settle asks_run_contract asks_call_code
        | (simp add: SetCallCode_def NewContract_def; fail))+
  show "asks run (unat gas) (evm_DelegateCall env run caller addr input gas e)"
    unfolding evm_DelegateCall_def Let_def
    by - (rule asks_rules asks_simps asks_settle asks_call_code
        | (simp add: AsDelegate_def NewContract_def; fail))+
qed

section \<open>Ordinary, halting and calling instructions\<close>

abbreviation (input) gas_of :: "frame \<Rightarrow> u64" where "gas_of fr \<equiv> c_Gas (fr_Contract fr)"

interpretation gas_left: write_relation "\<lambda>s t. gas_of (snd t) \<le> gas_of (snd s)" env for env
  by unfold_locales (auto simp: UseGas_def not_less word_sub_le intro: order_trans split: if_splits)

definition ordinary :: "instruction \<Rightarrow> bool" where
  "ordinary f \<longleftrightarrow> (\<forall>env run e fr. runner env run \<longrightarrow>
     go_all (\<lambda>(r, e', fr'). gas_of fr' \<le> gas_of fr) (f env run e fr) \<and>
     asks run (unat (gas_of fr)) (f env run e fr))"

definition halting :: "instruction \<Rightarrow> bool" where
  "halting f \<longleftrightarrow> (\<forall>env run e fr. f env run e fr \<noteq> OutOfFuel \<and> go_all (\<lambda>(r, e', fr'). \<exists>err. r = Inl err) (f env run e fr))"

definition calling :: "bool \<Rightarrow> instruction \<Rightarrow> bool" where
  "calling t f \<longleftrightarrow> (\<forall>env run e fr. runner env run \<longrightarrow>
     (let g = unat (callGasTemp e) + (if t \<and> fr_Stack fr ! 2 \<noteq> 0 then 2300 else 0) in
      go_all (\<lambda>(r, e', fr'). unat (gas_of fr') \<le> unat (gas_of fr) + g) (f env run e fr) \<and>
      asks run g (f env run e fr)))"

lemma ordinaryI:
  assumes "\<And>env run. pres (\<lambda>s t. gas_of (snd t) \<le> gas_of (snd s)) (f env run)" "\<And>env run. nofuel (f env run)"
  shows "ordinary f"
  using assms by (fastforce simp: ordinary_def pres_def nofuel_def asks_def)

lemma nofuel_guarded: "nofuel m \<Longrightarrow> nofuel (guarded m)"
  unfolding guarded_def by - (rule nofuel_rules | assumption)+

lemma nofuel_pure:
  "nofuel (opAdd env run)" "nofuel (opSub env run)" "nofuel (opMul env run)" "nofuel (opDiv env run)"
  "nofuel (opSdiv env run)" "nofuel (opMod env run)" "nofuel (opSmod env run)" "nofuel (opExp env run)"
  "nofuel (opSignExtend env run)" "nofuel (opNot env run)" "nofuel (opLt env run)" "nofuel (opGt env run)"
  "nofuel (opSlt env run)" "nofuel (opSgt env run)" "nofuel (opEq env run)" "nofuel (opIszero env run)"
  "nofuel (opAnd env run)" "nofuel (opOr env run)" "nofuel (opXor env run)" "nofuel (opByte env run)"
  "nofuel (opAddmod env run)" "nofuel (opMulmod env run)" "nofuel (opSHL env run)" "nofuel (opSHR env run)"
  "nofuel (opSAR env run)"
  unfolding opAdd_def opSub_def opMul_def opDiv_def opSdiv_def opMod_def opSmod_def opExp_def opSignExtend_def
    opNot_def opLt_def opGt_def opSlt_def opSgt_def opEq_def opIszero_def opAnd_def opOr_def opXor_def opByte_def
    opAddmod_def opMulmod_def opSHL_def opSHR_def opSAR_def
  by - (rule nofuel_parts nofuel_rules)+

lemma nofuel_memory:
  "nofuel (opKeccak256 env run)" "nofuel (opMload env run)" "nofuel (opMstore env run)" "nofuel (opMstore8 env run)"
  "nofuel (opMcopy env run)" "nofuel (opCallDataLoad env run)" "nofuel (opCallDataCopy env run)"
  "nofuel (opReturnDataCopy env run)" "nofuel (opCodeCopy env run)" "nofuel (opExtCodeCopy env run)"
  "nofuel (opMsize env run)" "nofuel (opReturn env run)" "nofuel (opRevert env run)"
  unfolding opKeccak256_def opMload_def opMstore_def opMstore8_def opMcopy_def opCallDataLoad_def opCallDataCopy_def
    opReturnDataCopy_def opCodeCopy_def opExtCodeCopy_def opMsize_def opReturn_def opRevert_def
  by - (rule nofuel_parts nofuel_rules returns_fuel_mem)+

lemma nofuel_context:
  "nofuel (opAddress env run)" "nofuel (opBalance env run)" "nofuel (opOrigin env run)" "nofuel (opCaller env run)"
  "nofuel (opCallValue env run)" "nofuel (opCallDataSize env run)" "nofuel (opReturnDataSize env run)"
  "nofuel (opExtCodeSize env run)" "nofuel (opCodeSize env run)" "nofuel (opExtCodeHash env run)"
  "nofuel (opGasprice env run)" "nofuel (opBlockhash env run)" "nofuel (opCoinbase env run)"
  "nofuel (opTimestamp env run)" "nofuel (opNumber env run)" "nofuel (opDifficulty env run)"
  "nofuel (opRandom env run)" "nofuel (opGasLimit env run)" "nofuel (opSelfBalance env run)"
  "nofuel (opChainID env run)" "nofuel (opBaseFee env run)" "nofuel (opBlobBaseFee env run)" "nofuel (opBlobHash env run)"
  unfolding opAddress_def opBalance_def opOrigin_def opCaller_def opCallValue_def opCallDataSize_def
    opReturnDataSize_def opExtCodeSize_def opCodeSize_def opExtCodeHash_def opGasprice_def opBlockhash_def
    opCoinbase_def opTimestamp_def opNumber_def opDifficulty_def opRandom_def opGasLimit_def opSelfBalance_def
    opChainID_def opBaseFee_def opBlobBaseFee_def opBlobHash_def
  by - (rule nofuel_parts nofuel_rules returns_fuel_mem)+

lemma nofuel_flow:
  "nofuel (opPop env run)" "nofuel (opSload env run)" "nofuel (opSstore env run)" "nofuel (opTload env run)"
  "nofuel (opTstore env run)" "nofuel (opJump env run)" "nofuel (opJumpi env run)" "nofuel (opJumpdest env run)"
  "nofuel (opPc env run)" "nofuel (opGas env run)" "nofuel (opUndefined env run)" "nofuel (opStop env run)"
  "nofuel (opSelfdestruct env run)" "nofuel (opSelfdestruct6780 env run)" "nofuel (makeLog k env run)"
  "nofuel (opPush0 env run)" "nofuel (opPush1 env run)" "nofuel (makePush sz k env run)"
  "nofuel (makeDup k env run)" "nofuel (makeSwap k env run)"
  unfolding opPop_def opSload_def opSstore_def opTload_def opTstore_def opJump_def opJumpi_def opJumpdest_def opPc_def
    opGas_def opUndefined_def opStop_def opSelfdestruct_def opSelfdestruct6780_def makeLog_def opPush0_def
    opPush1_def makePush_def makeDup_def makeSwap_def
  by - (rule nofuel_guarded nofuel_parts nofuel_rules nofuel_gas_parts returns_fuel_mem returns_fuel_stack
      | (simp; fail))+

lemmas nofuel_plain = nofuel_pure nofuel_memory nofuel_context nofuel_flow

lemma ordinary_pure:
  "ordinary opAdd" "ordinary opSub" "ordinary opMul" "ordinary opDiv" "ordinary opSdiv" "ordinary opMod"
  "ordinary opSmod" "ordinary opExp" "ordinary opSignExtend" "ordinary opNot" "ordinary opLt" "ordinary opGt"
  "ordinary opSlt" "ordinary opSgt" "ordinary opEq" "ordinary opIszero" "ordinary opAnd" "ordinary opOr"
  "ordinary opXor" "ordinary opByte" "ordinary opAddmod" "ordinary opMulmod" "ordinary opSHL" "ordinary opSHR"
  "ordinary opSAR"
  by (rule ordinaryI gas_left.pres_pure nofuel_pure)+

lemma ordinary_memory:
  "ordinary opKeccak256" "ordinary opMload" "ordinary opMstore" "ordinary opMstore8" "ordinary opMcopy"
  "ordinary opCallDataLoad" "ordinary opCallDataCopy" "ordinary opReturnDataCopy" "ordinary opCodeCopy"
  "ordinary opExtCodeCopy" "ordinary opMsize" "ordinary opReturn" "ordinary opRevert"
  by (rule ordinaryI gas_left.pres_memory_ops nofuel_memory)+

lemma ordinary_context:
  "ordinary opAddress" "ordinary opBalance" "ordinary opOrigin" "ordinary opCaller" "ordinary opCallValue"
  "ordinary opCallDataSize" "ordinary opReturnDataSize" "ordinary opExtCodeSize" "ordinary opCodeSize"
  "ordinary opExtCodeHash" "ordinary opGasprice" "ordinary opBlockhash" "ordinary opCoinbase" "ordinary opTimestamp"
  "ordinary opNumber" "ordinary opDifficulty" "ordinary opRandom" "ordinary opGasLimit" "ordinary opSelfBalance"
  "ordinary opChainID" "ordinary opBaseFee" "ordinary opBlobBaseFee" "ordinary opBlobHash"
  by (rule ordinaryI gas_left.pres_context_ops nofuel_context)+

lemma ordinary_flow:
  "ordinary opPop" "ordinary opSload" "ordinary opSstore" "ordinary opTload" "ordinary opTstore" "ordinary opJump"
  "ordinary opJumpi" "ordinary opJumpdest" "ordinary opPc" "ordinary opGas" "ordinary opUndefined" "ordinary opStop"
  "ordinary opSelfdestruct" "ordinary opSelfdestruct6780" "ordinary (makeLog k)" "ordinary opPush0" "ordinary opPush1"
  "ordinary (makePush sz k)" "ordinary (makeDup k)" "ordinary (makeSwap k)"
  by (rule ordinaryI gas_left.pres_flow_ops gas_left.pres_write_ops nofuel_flow)+

text \<open>Instructions that always end the frame.\<close>

definition stops :: "'a act \<Rightarrow> bool" where
  "stops m \<longleftrightarrow> (\<forall>e fr. go_all (\<lambda>(r, e', fr'). \<exists>err. r = Inl err) (m e fr))"

lemma stops_bind: "(\<And>x. stops (f x)) \<Longrightarrow> stops (a_bind m f)"
  by (fastforce simp: stops_def go_all_iff a_bind_Ret)

lemma stops_simple: "stops (a_fail err d)" "stops (a_err err)"
  by (simp_all add: stops_def a_err_def a_fail_def)

lemma halting_all:
  "halting opReturn" "halting opRevert" "halting opUndefined" "halting opStop" "halting opSelfdestruct"
  "halting opSelfdestruct6780"
proof -
  have i: "halting f" if "\<And>env run. nofuel (f env run)" "\<And>env run. stops (f env run)" for f
    using that by (auto simp: halting_def nofuel_def stops_def)
  show "halting opReturn" "halting opRevert" "halting opUndefined" "halting opStop" "halting opSelfdestruct"
    "halting opSelfdestruct6780"
    by - ((rule i, rule nofuel_plain),
      (simp only: opReturn_def opRevert_def opUndefined_def opStop_def opSelfdestruct_def opSelfdestruct6780_def guarded_def),
      (rule stops_bind stops_simple | (simp add: stops_simple stops_bind; fail))+)+
qed

text \<open>The pops at the start of an instruction.\<close>

lemma pop_bind:
  "a_bind a_pop f e fr = (case fr_Stack fr of [] \<Rightarrow> Panic StackIndexOutOfRange
     | x # st \<Rightarrow> f x e (fr\<lparr>fr_Stack := st\<rparr>))"
  by (cases "fr_Stack fr") (simp_all add: a_bind_def a_pop_def)

lemma evm_bind: "a_bind (a_evm g) f e fr = f (g e) e fr"
  by (simp add: a_bind_def a_evm_def)

lemma a_bind_OutOfFuel:
  "a_bind m f e fr = OutOfFuel \<longleftrightarrow>
     m e fr = OutOfFuel \<or> (\<exists>x e1 fr1. m e fr = Ret (Inr x, e1, fr1) \<and> f x e1 fr1 = OutOfFuel)"
  by (cases "m e fr") (auto simp: a_bind_def split: sum.splits)

text \<open>\<open>spends run g m\<close>: the action increases the gas by at most \<open>g\<close>, and starts calls with at most \<open>g\<close>.\<close>

definition spends :: "runner \<Rightarrow> nat \<Rightarrow> 'a act \<Rightarrow> bool" where
  "spends run g m \<longleftrightarrow> (\<forall>e fr. go_all (\<lambda>(r, e', fr'). unat (gas_of fr') \<le> unat (gas_of fr) + g) (m e fr) \<and>
     asks run g (m e fr))"

lemma spends_bind:
  assumes "\<And>x. spends run g (f x)" "pres (\<lambda>s t. gas_of (snd t) \<le> gas_of (snd s)) m" "nofuel m"
  shows "spends run g (a_bind m f)"
proof -
  have "unat (gas_of fr') \<le> unat (gas_of fr) + g" if "a_bind m f e fr = Ret (r, e', fr')" for e fr r e' fr'
    using that unfolding a_bind_Ret
  proof (elim disjE exE conjE)
    fix err assume "m e fr = Ret (Inl err, e', fr')"
    from presD [OF assms(2) this] show ?thesis by (simp add: word_le_nat_alt)
  next
    fix x e1 fr1 assume m: "m e fr = Ret (Inr x, e1, fr1)" and f: "f x e1 fr1 = Ret (r, e', fr')"
    have "unat (gas_of fr') \<le> unat (gas_of fr1) + g"
      using assms(1) [of x] f by (auto simp: spends_def go_all_iff)
    then show ?thesis using presD [OF assms(2) m] by (simp add: word_le_nat_alt)
  qed
  moreover have "asks run g (a_bind m f e fr)" for e fr
    using assms(1,3) by (auto simp: spends_def nofuel_def asks_def a_bind_OutOfFuel)
  ultimately show ?thesis by (auto simp: spends_def go_all_iff)
qed

lemma spends_plain:
  "pres (\<lambda>s t. gas_of (snd t) \<le> gas_of (snd s)) m \<Longrightarrow> nofuel m \<Longrightarrow> spends run g m"
  by (fastforce simp: spends_def pres_def nofuel_def asks_def go_all_iff word_le_nat_alt)

lemma spends_mono: "spends run g m \<Longrightarrow> g \<le> g' \<Longrightarrow> spends run g' m"
  by (fastforce simp: spends_def go_all_iff asks_def fuel_from_def)

lemma spends_add:
  assumes "\<And>x. pres (\<lambda>s t. gas_of (snd t) \<le> gas_of (snd s)) (f x)" "\<And>x. nofuel (f x)"
  shows "spends run (unat g) (a_bind (a_add_gas g) f)"
proof -
  have "unat (gas_of fr') \<le> unat (gas_of fr) + unat g" if "a_bind (a_add_gas g) f e fr = Ret (r, e', fr')" for e fr r e' fr'
  proof -
    have "f () e (fr\<lparr>fr_Contract := (fr_Contract fr)\<lparr>c_Gas := gas_of fr + g\<rparr>\<rparr>) = Ret (r, e', fr')"
      using that by (simp add: a_bind_def a_add_gas_def)
    from presD [OF assms(1) this] have "unat (gas_of fr') \<le> unat (gas_of fr + g)" by (simp add: word_le_nat_alt)
    also have "\<dots> \<le> unat (gas_of fr) + unat g" by (simp add: unat_word_ariths)
    finally show ?thesis .
  qed
  moreover have "nofuel (a_bind (a_add_gas g) f)" by (rule nofuel_bind nofuel_simple assms(2))+
  ultimately show ?thesis by (auto simp: spends_def go_all_iff nofuel_def asks_def)
qed

lemma spends_ends: "spends run (unat g) (call_end x y (ret, g, err))" "spends run (unat g) (create_end b (ret, a, g, err))"
  unfolding call_end_def create_end_def prod.case
  by - (rule spends_add | rule spends_bind | intro gas_left.pres_base gas_left.pres_parts_more | rule nofuel_parts nofuel_rules)+

lemma spends_call:
  assumes "\<And>caller e. go_all (\<lambda>(r, e'). spends run g (f r)) (F caller e)" "\<And>caller e. asks run g (F caller e)"
  shows "spends run g (a_bind (a_call F) f)"
  unfolding spends_def a_bind_def a_call_def
proof (intro allI conjI)
  fix e and fr :: frame
  show "asks run g (go_bind (go_bind (F (ContractRef (fr_Contract fr)) e) (\<lambda>(r, e). Ret (Inr r, e, fr)))
      (\<lambda>(r, e, fr). case r of Inl err \<Rightarrow> Ret (Inl err, e, fr) | Inr x \<Rightarrow> f x e fr))"
    using assms(1) [of "ContractRef (fr_Contract fr)" e] assms(2) [of "ContractRef (fr_Contract fr)" e]
    by (cases "F (ContractRef (fr_Contract fr)) e") (auto simp: spends_def asks_def)
  show "go_all (\<lambda>(r, e', fr'). unat (gas_of fr') \<le> unat (gas_of fr) + g)
     (go_bind (go_bind (F (ContractRef (fr_Contract fr)) e) (\<lambda>(r, e). Ret (Inr r, e, fr)))
      (\<lambda>(r, e, fr). case r of Inl err \<Rightarrow> Ret (Inl err, e, fr) | Inr x \<Rightarrow> f x e fr))"
    using assms(1) [of "ContractRef (fr_Contract fr)" e]
    by (cases "F (ContractRef (fr_Contract fr)) e") (auto simp: spends_def)
qed

lemma spends_call_end:
  assumes "\<And>caller e. go_all (call_post env (st e) g' e) (F caller e)" "\<And>caller e. asks run (unat g') (F caller e)" "unat g' \<le> g"
  shows "spends run g (a_bind (a_call F) (call_end x y))"
proof (rule spends_call)
  fix caller e
  show "asks run g (F caller e)" using assms(2) [of caller e] assms(3) by (fastforce simp: asks_def fuel_from_def)
  show "go_all (\<lambda>(r, e'). spends run g (call_end x y r)) (F caller e)"
    by (rule go_all_mono [OF assms(1)]) (use assms(3) in \<open>auto simp: call_post_def intro: spends_mono [OF spends_ends(1)]\<close>)
qed

lemma spends_at:
  assumes "spends run g m"
  shows "go_all (\<lambda>(r, e', fr'). unat (gas_of fr') \<le> unat (gas_of fr) + g) (m e (fr\<lparr>fr_Stack := st\<rparr>))"
    "asks run g (m e (fr\<lparr>fr_Stack := st\<rparr>))"
proof -
  have *: "go_all (\<lambda>(r, e', fr'). unat (gas_of fr') \<le> unat (gas_of f) + g) (m e f) \<and> asks run g (m e f)" for f
    using assms by (simp add: spends_def)
  show "asks run g (m e (fr\<lparr>fr_Stack := st\<rparr>))" using * by blast
  show "go_all (\<lambda>(r, e', fr'). unat (gas_of fr') \<le> unat (gas_of fr) + g) (m e (fr\<lparr>fr_Stack := st\<rparr>))"
    using * [of "fr\<lparr>fr_Stack := st\<rparr>"] by simp
qed

lemma stipend: "unat (if b then g + CallStipend else g) \<le> unat g + (if b then 2300 else 0)"
  by (simp add: unat_word_ariths)

lemma spends_prefix: "(\<And>args. spends run g (f args)) \<Longrightarrow> spends run g (a_bind (mem_ptr x y) f)"
  by (intro spends_bind gas_left.pres_parts_more nofuel_parts)

lemma calling_all:
  "calling False opStaticCall" "calling False opDelegateCall" "calling True opCallCode" "calling True opCall"
proof -
  have s: "spends run (unat gas) (a_bind (mem_ptr io is) (\<lambda>args.
     a_bind (a_call (\<lambda>caller. evm_StaticCall env run caller addr args gas)) (call_end x y)))"
    "spends run (unat gas) (a_bind (mem_ptr io is) (\<lambda>args.
     a_bind (a_call (\<lambda>caller. evm_DelegateCall env run caller addr args gas)) (call_end x y)))"
    if "runner env run" for env run gas io "is" addr x y
    by (intro spends_prefix spends_call_end [OF runner.StaticCall_law [OF that] asks_calls(4) order_refl]
        spends_call_end [OF runner.DelegateCall_law [OF that] asks_calls(3) order_refl])+
  show "calling False opStaticCall" "calling False opDelegateCall"
    unfolding calling_def opStaticCall_def opDelegateCall_def pop_bind evm_bind Let_def
    using spends_at [OF s(1)] spends_at [OF s(2)] by (simp_all split: list.split)
  have c: "spends run (unat gas + (if val \<noteq> 0 then 2300 else 0)) (a_bind (mem_ptr io is) (\<lambda>args.
     a_bind (a_call (\<lambda>caller. evm_CallCode env run caller addr args (if val \<noteq> 0 then gas + CallStipend else gas) val)) (call_end x y)))"
    "spends run (unat gas + (if val \<noteq> 0 then 2300 else 0)) (a_bind (mem_ptr io is) (\<lambda>args.
     a_bind (a_evm readOnly) (\<lambda>ro. if ro \<and> val \<noteq> 0 then a_err ErrWriteProtection else
     a_bind (a_call (\<lambda>caller. evm_Call env run caller addr args (if val \<noteq> 0 then gas + CallStipend else gas) val)) (call_end x y))))"
    if "runner env run" for env run gas val io "is" addr x y
  proof -
    note l = spends_call_end [OF runner.CallCode_law [OF that] asks_calls(2) stipend]
      spends_call_end [OF runner.Call_law [OF that] asks_calls(1) stipend]
    show "spends run (unat gas + (if val \<noteq> 0 then 2300 else 0)) (a_bind (mem_ptr io is) (\<lambda>args.
     a_bind (a_call (\<lambda>caller. evm_CallCode env run caller addr args (if val \<noteq> 0 then gas + CallStipend else gas) val)) (call_end x y)))"
      by (intro spends_prefix l)
    have w: "spends run g (if b then a_err ErrWriteProtection else m)" if "spends run g m" for g b and m :: "bytes act"
      using that by (simp add: spends_plain gas_left.pres_simple nofuel_simple)
    show "spends run (unat gas + (if val \<noteq> 0 then 2300 else 0)) (a_bind (mem_ptr io is) (\<lambda>args.
     a_bind (a_evm readOnly) (\<lambda>ro. if ro \<and> val \<noteq> 0 then a_err ErrWriteProtection else
     a_bind (a_call (\<lambda>caller. evm_Call env run caller addr args (if val \<noteq> 0 then gas + CallStipend else gas) val)) (call_end x y))))"
      by (intro spends_prefix spends_bind gas_left.pres_simple nofuel_simple w l)
  qed
  show "calling True opCallCode" "calling True opCall"
    unfolding calling_def opCallCode_def opCall_def pop_bind evm_bind Let_def
    using spends_at [OF c(1)] spends_at [OF c(2), unfolded evm_bind] by (simp_all split: list.split split del: if_split)
qed

text \<open>The creations hand the callee at most the gas they have, and take back at most that.\<close>

lemma gas_bind: "a_bind a_gas_left f e fr = f (gas_of fr) e fr"
  by (simp add: a_gas_left_def a_bind_def a_frame_def)

lemma use_bind: "a_bind (a_use_gas g) f e fr =
  f (fst (UseGas g (fr_Contract fr))) e (fr\<lparr>fr_Contract := snd (UseGas g (fr_Contract fr))\<rparr>)"
  by (simp add: a_bind_def a_use_gas_def case_prod_beta)

lemma create_part:
  assumes "\<And>caller e. go_all (\<lambda>((ret, a, g', err), e'). unat g' \<le> unat g \<and> call_rel env False e e') (F caller e)"
    and "\<And>caller e. asks run (unat g) (F caller e)" and "g \<le> gas_of fr"
  shows "go_all (\<lambda>(r, e', fr'). gas_of fr' \<le> gas_of fr) (a_bind (a_use_gas g) (\<lambda>_. a_bind (a_call F)
      (\<lambda>(ret, a, g', err). create_end (b err) (ret, a, g', err))) e fr) \<and>
    asks run (unat (gas_of fr)) (a_bind (a_use_gas g) (\<lambda>_. a_bind (a_call F)
      (\<lambda>(ret, a, g', err). create_end (b err) (ret, a, g', err))) e fr)"
proof -
  have s: "spends run (unat g) (a_bind (a_call F) (\<lambda>(ret, a, g', err). create_end (b err) (ret, a, g', err)))"
    by (rule spends_call [OF _ assms(2)], rule go_all_mono [OF assms(1)])
      (auto intro: spends_mono [OF spends_ends(2)])
  let ?fr = "fr\<lparr>fr_Contract := snd (UseGas g (fr_Contract fr))\<rparr>"
  have g: "unat (gas_of ?fr) + unat g = unat (gas_of fr)"
    using assms(3) unat_sub_le [OF assms(3)] assms(3) [unfolded word_le_nat_alt] assms(3) [THEN leD]
    by (simp add: UseGas_def)
  have "go_all (\<lambda>(r, e', fr'). unat (gas_of fr') \<le> unat (gas_of ?fr) + unat g)
      (a_bind (a_call F) (\<lambda>(ret, a, g', err). create_end (b err) (ret, a, g', err)) e ?fr)"
    "asks run (unat g) (a_bind (a_call F) (\<lambda>(ret, a, g', err). create_end (b err) (ret, a, g', err)) e ?fr)"
    using s unfolding spends_def by blast+
  moreover have "fuel_from run (unat (gas_of fr))" if "fuel_from run (unat g)"
    using that g unfolding fuel_from_def by (metis le_add2 order_trans)
  ultimately show ?thesis
    unfolding use_bind using g by (auto simp: word_le_nat_alt asks_def elim!: go_all_mono)
qed

lemma ordinary_create: "ordinary opCreate" "ordinary opCreate2"
proof -
  have d: "g - g div 64 \<le> (g :: u64)" for g
    by (rule word_sub_le) (simp add: word_le_nat_alt unat_div)
  have sz: "(if b then g - g div 64 else g) \<le> (g :: u64)" for b g
    using d by simp
  have m: "go_all (\<lambda>(r, e', fr'). gas_of fr' \<le> gas_of fr) (a_bind (mem_copy x y) f e fr) \<and>
      asks run (unat (gas_of fr)) (a_bind (mem_copy x y) f e fr)"
    if "\<And>input. go_all (\<lambda>(r, e', fr'). gas_of fr' \<le> gas_of fr) (f input e fr) \<and> asks run (unat (gas_of fr)) (f input e fr)"
    for run x y e fr and f :: "bytes \<Rightarrow> bytes act"
  proof -
    have "mem_copy x y e fr = Ret (r, e', fr') \<Longrightarrow> e' = e \<and> fr' = fr \<and> (\<exists>d. r = Inr d)" for r e' fr'
      by (auto simp: mem_copy_def a_bind_Ret act_Ret a_go_def)
    then have "a_bind (mem_copy x y) f e fr = Ret (r, e', fr') \<Longrightarrow> \<exists>d. f d e fr = Ret (r, e', fr')"
      "a_bind (mem_copy x y) f e fr = OutOfFuel \<Longrightarrow> \<exists>d. f d e fr = OutOfFuel" for r e' fr'
      using nofuel_parts(3) [of x y] unfolding a_bind_Ret a_bind_OutOfFuel nofuel_def by blast+
    then show ?thesis using that unfolding go_all_iff asks_def by blast
  qed
  have c1: "go_all (\<lambda>(r, e', fr'). gas_of fr' \<le> gas_of fr) (a_bind (mem_copy x y) (\<lambda>input.
       a_bind a_gas_left (\<lambda>gas. let gas = if b then gas - gas div 64 else gas in
       a_bind (a_use_gas gas) (\<lambda>_.
       a_bind (a_call (\<lambda>caller. evm_Create env run caller input gas val)) (\<lambda>(res, addr, returnGas, suberr).
       create_end (h suberr) (res, addr, returnGas, suberr))))) e fr) \<and>
     asks run (unat (gas_of fr)) (a_bind (mem_copy x y) (\<lambda>input.
       a_bind a_gas_left (\<lambda>gas. let gas = if b then gas - gas div 64 else gas in
       a_bind (a_use_gas gas) (\<lambda>_.
       a_bind (a_call (\<lambda>caller. evm_Create env run caller input gas val)) (\<lambda>(res, addr, returnGas, suberr).
       create_end (h suberr) (res, addr, returnGas, suberr))))) e fr)"
    if "runner env run" for env run x y b val h e fr
    by (rule m) (simp only: gas_bind Let_def create_part [OF runner.Create_law(1) [OF that] asks_calls(5) sz])
  have c2: "go_all (\<lambda>(r, e', fr'). gas_of fr' \<le> gas_of fr) (a_bind (mem_copy x y) (\<lambda>input.
       a_bind a_gas_left (\<lambda>gas. let gas = gas - gas div 64 in
       a_bind (a_use_gas gas) (\<lambda>_.
       a_bind (a_call (\<lambda>caller. evm_Create2 env run caller input gas val salt)) (\<lambda>(res, addr, returnGas, suberr).
       create_end (h suberr) (res, addr, returnGas, suberr))))) e fr) \<and>
     asks run (unat (gas_of fr)) (a_bind (mem_copy x y) (\<lambda>input.
       a_bind a_gas_left (\<lambda>gas. let gas = gas - gas div 64 in
       a_bind (a_use_gas gas) (\<lambda>_.
       a_bind (a_call (\<lambda>caller. evm_Create2 env run caller input gas val salt)) (\<lambda>(res, addr, returnGas, suberr).
       create_end (h suberr) (res, addr, returnGas, suberr))))) e fr)"
    if "runner env run" for env run x y val salt h e fr
    by (rule m) (simp only: gas_bind Let_def create_part [OF runner.Create_law(2) [OF that] asks_calls(6) d])
  have st: "gas_of (fr\<lparr>fr_Stack := s\<rparr>) = gas_of fr" for fr s by simp
  show "ordinary opCreate" "ordinary opCreate2"
    unfolding ordinary_def opCreate_def opCreate2_def guarded_def evm_bind pop_bind
    using c1 [where fr = "fr\<lparr>fr_Stack := s\<rparr>" for fr s, unfolded st]
      c2 [where fr = "fr\<lparr>fr_Stack := s\<rparr>" for fr s, unfolded st]
    by (simp_all add: a_err_def a_fail_def split: list.split)
qed

end
