(* ===== verification/Jump_Table_Laws.thy ===== *)
theory Jump_Table_Laws imports Instruction_Gas begin

text \<open>
  What every entry of every jump table satisfies (\<open>op_ok\<close>), and that the construction of the tables
  of all forks, and the activation of extra EIPs on a table from Constantinople on, keeps it and
  never panics.
\<close>

section \<open>Correct operations\<close>

text \<open>
  A dynamic gas function: it stays inside a stack of \<open>k\<close> elements, needs no fuel, does not increase
  the frame's gas, and respects the relations of the instructions.
\<close>

definition gas_fn_ok :: "nat \<Rightarrow> gas_fn \<Rightarrow> bool" where
  "gas_fn_ok k g \<longleftrightarrow> gas_needs k g \<and> (\<forall>env n. nofuel (g env n)) \<and>
     (\<forall>env n. pres (\<lambda>s t. gas_of (snd t) \<le> gas_of (snd s)) (g env n)) \<and>
     (\<forall>R env n. call_relation R env \<longrightarrow> pres R (g env n))"

definition mem_fn_ok :: "nat \<Rightarrow> (stack \<Rightarrow> (u64 \<times> bool) go) \<Rightarrow> bool" where
  "mem_fn_ok k f \<longleftrightarrow> (\<forall>st. k \<le> length st \<longrightarrow> no_stack_panic (f st)) \<and> (\<forall>st. returns_fuel (f st))"

definition lawful :: "instruction \<Rightarrow> bool" where
  "lawful f \<longleftrightarrow> (\<forall>R env run. call_relation R env \<longrightarrow> runner env run \<longrightarrow> pres R (f env run))"

text \<open>
  An operation that does not end the frame costs gas: it has a constant cost, or a dynamic cost
  that is never 0; the cost of a call covers what the callee gets.
\<close>

definition progress :: "operation \<Rightarrow> bool" where
  "progress op \<longleftrightarrow>
     ordinary (execute op) \<and>
       (0 < constantGas op \<or> (\<exists>g. dynamicGas op = Some g \<and> charges g) \<or> halting (execute op)) \<or>
     (\<exists>t g. calling t (execute op) \<and> dynamicGas op = Some g \<and> call_cost t g \<and> 0 < constantGas op)"

definition op_ok :: "operation \<Rightarrow> bool" where
  "op_ok op \<longleftrightarrow>
     (\<exists>pops pushes. op_minStack op = minStack pops pushes \<and> op_maxStack op = maxStack pops pushes \<and>
        heights pops pushes (execute op) \<and>
        (\<forall>g. dynamicGas op = Some g \<longrightarrow> gas_fn_ok pops g) \<and> (\<forall>f. memorySize op = Some f \<longrightarrow> mem_fn_ok pops f)) \<and>
     (memorySize op \<noteq> None \<longrightarrow> dynamicGas op \<noteq> None) \<and> lawful (execute op) \<and> progress op"

lemma op_ok_const:
  "heights p q f \<Longrightarrow> lawful f \<Longrightarrow> ordinary f \<Longrightarrow> 0 < c \<or> halting f \<Longrightarrow>
   op_ok \<lparr>execute = f, constantGas = c, dynamicGas = None, op_minStack = minStack p q, op_maxStack = maxStack p q,
     memorySize = None\<rparr>"
  by (auto simp: op_ok_def progress_def)

lemma op_ok_dyn:
  assumes "heights p q f" "lawful f" "ordinary f" "gas_fn_ok p g" "0 < c \<or> charges g \<or> halting f"
  shows "op_ok \<lparr>execute = f, constantGas = c, dynamicGas = Some g, op_minStack = minStack p q, op_maxStack = maxStack p q,
     memorySize = None\<rparr>"
    "mem_fn_ok p m \<Longrightarrow> op_ok \<lparr>execute = f, constantGas = c, dynamicGas = Some g, op_minStack = minStack p q,
     op_maxStack = maxStack p q, memorySize = Some m\<rparr>"
  using assms by (auto simp: op_ok_def progress_def)

lemma op_ok_call:
  "heights p q f \<Longrightarrow> lawful f \<Longrightarrow> calling t f \<Longrightarrow> gas_fn_ok p g \<Longrightarrow> mem_fn_ok p m \<Longrightarrow> call_cost t g \<Longrightarrow> 0 < c \<Longrightarrow>
   op_ok \<lparr>execute = f, constantGas = c, dynamicGas = Some g, op_minStack = minStack p q,
     op_maxStack = maxStack p q, memorySize = Some m\<rparr>"
  by (auto simp: op_ok_def progress_def)

section \<open>The parts\<close>

context call_relation begin
lemmas pres_all_gas = pres_gas pres_gas_call_variants
lemmas pres_all_plain = pres_plain pres_write_ops
lemmas pres_all_calls = pres_calls
end

lemma lawfulI: "(\<And>R env run. call_relation R env \<Longrightarrow> runner env run \<Longrightarrow> pres R (f env run)) \<Longrightarrow> lawful f"
  by (simp add: lawful_def)

lemma lawful_plain:
  "lawful opAdd" "lawful opSub" "lawful opMul" "lawful opDiv" "lawful opSdiv" "lawful opMod"
  "lawful opSmod" "lawful opExp" "lawful opSignExtend" "lawful opNot" "lawful opLt" "lawful opGt"
  "lawful opSlt" "lawful opSgt" "lawful opEq" "lawful opIszero" "lawful opAnd" "lawful opOr"
  "lawful opXor" "lawful opByte" "lawful opAddmod" "lawful opMulmod" "lawful opSHL" "lawful opSHR"
  "lawful opSAR" "lawful opKeccak256" "lawful opMload" "lawful opMstore" "lawful opMstore8" "lawful opMcopy"
  "lawful opCallDataLoad" "lawful opCallDataCopy" "lawful opReturnDataCopy" "lawful opCodeCopy"
  "lawful opExtCodeCopy" "lawful opMsize" "lawful opReturn" "lawful opRevert"
  "lawful opAddress" "lawful opBalance" "lawful opOrigin" "lawful opCaller" "lawful opCallValue"
  "lawful opCallDataSize" "lawful opReturnDataSize" "lawful opExtCodeSize" "lawful opCodeSize"
  "lawful opExtCodeHash" "lawful opGasprice" "lawful opBlockhash" "lawful opCoinbase" "lawful opTimestamp"
  "lawful opNumber" "lawful opDifficulty" "lawful opRandom" "lawful opGasLimit" "lawful opSelfBalance"
  "lawful opChainID" "lawful opBaseFee" "lawful opBlobBaseFee" "lawful opBlobHash"
  "lawful opPop" "lawful opSload" "lawful opSstore" "lawful opTload" "lawful opTstore" "lawful opJump"
  "lawful opJumpi" "lawful opJumpdest" "lawful opPc" "lawful opGas" "lawful opUndefined" "lawful opStop"
  "lawful opSelfdestruct" "lawful opSelfdestruct6780" "lawful (makeLog k)" "lawful opPush0" "lawful opPush1"
  "lawful (makePush sz k)" "lawful (makeDup k)" "lawful (makeSwap k)"
  by - (rule lawfulI, erule call_relation.pres_all_plain)+

lemma lawful_calls:
  "lawful opCreate" "lawful opCreate2" "lawful opCall" "lawful opCallCode" "lawful opDelegateCall"
  "lawful opStaticCall"
  by - (rule lawfulI, erule (1) call_relation.pres_all_calls)+

lemma gas_fn_okI:
  "gas_needs k g \<Longrightarrow> (\<And>env n. nofuel (g env n)) \<Longrightarrow>
   (\<And>env n. pres (\<lambda>s t. gas_of (snd t) \<le> gas_of (snd s)) (g env n)) \<Longrightarrow>
   (\<And>R env n. call_relation R env \<Longrightarrow> pres R (g env n)) \<Longrightarrow> gas_fn_ok k g"
  by (simp add: gas_fn_ok_def)

lemma gas_fn_ok_table:
  "gas_fn_ok 3 gasCallDataCopy" "gas_fn_ok 3 gasCodeCopy" "gas_fn_ok 3 gasMcopy" "gas_fn_ok 4 gasExtCodeCopy"
  "gas_fn_ok 3 gasReturnDataCopy" "gas_fn_ok 2 gasSStore" "gas_fn_ok 2 gasSStoreEIP2200"
  "gas_fn_ok 2 (makeGasLog t)" "gas_fn_ok 2 gasKeccak256" "gas_fn_ok 0 gasReturn" "gas_fn_ok 0 gasRevert"
  "gas_fn_ok 0 gasMLoad" "gas_fn_ok 0 gasMStore8" "gas_fn_ok 0 gasMStore" "gas_fn_ok 0 gasCreate"
  "gas_fn_ok 3 gasCreate2" "gas_fn_ok 3 gasCreateEip3860" "gas_fn_ok 3 gasCreate2Eip3860"
  "gas_fn_ok 2 gasExpFrontier" "gas_fn_ok 2 gasExpEIP158" "gas_fn_ok 3 gasCall" "gas_fn_ok 3 gasCallCode"
  "gas_fn_ok 1 gasDelegateCall" "gas_fn_ok 1 gasStaticCall" "gas_fn_ok 1 gasSelfdestruct"
  by - ((rule gas_fn_okI, rule gas_needs_all, rule nofuel_gas, rule gas_left.pres_gas, erule call_relation.pres_all_gas)+)

lemma gas_fn_ok_acl:
  "gas_fn_ok 2 gasSStoreEIP2929" "gas_fn_ok 2 gasSStoreEIP3529" "gas_fn_ok 1 gasSLoadEIP2929"
  "gas_fn_ok 4 gasExtCodeCopyEIP2929" "gas_fn_ok 1 gasEip2929AccountCheck"
  "gas_fn_ok 1 gasSelfdestructEIP2929" "gas_fn_ok 1 gasSelfdestructEIP3529"
  unfolding gasSStoreEIP2929_def gasSStoreEIP3529_def gasSelfdestructEIP2929_def gasSelfdestructEIP3529_def
  by - ((rule gas_fn_okI, rule gas_needs_acl, rule nofuel_gas, rule gas_left.pres_gas, erule call_relation.pres_all_gas)+)

lemma gas_fn_ok_weaken: "gas_fn_ok k g \<Longrightarrow> k \<le> k' \<Longrightarrow> gas_fn_ok k' g"
  by (auto simp: gas_fn_ok_def gas_needs_def)

lemma le_sub_add:
  assumes "c \<le> g" "x \<le> g - (c :: u64)"
  shows "x + c \<le> g"
proof -
  have "unat (x + c) \<le> unat x + unat c" by (simp add: unat_word_ariths)
  also have "\<dots> \<le> unat g" using assms unat_sub_le [OF assms(1)] by (simp add: word_le_nat_alt)
  finally show ?thesis by (simp add: word_le_nat_alt)
qed

text \<open>The variant of a call's cost for cold accounts puts back the gas it took before it asks the old one.\<close>

lemma gas_of_variant:
  assumes g: "\<And>n. pres (\<lambda>s t. gas_of (snd t) \<le> gas_of (snd s)) (g env n)"
  shows "pres (\<lambda>s t. gas_of (snd t) \<le> gas_of (snd s)) (makeCallVariantGasCallEIP2929 g env n)"
proof (rule presI)
  fix e fr r e' fr' assume r: "makeCallVariantGasCallEIP2929 g env n e fr = Ret (r, e', fr')"
  let ?cold = "ColdAccountAccessCostEIP2929 - WarmStorageReadCostEIP2929 :: u64"
  have add: "gas_of f + ?cold \<le> gas_of fr"
    if "gas_of f \<le> c_Gas (snd (UseGas ?cold (fr_Contract fr)))" "fst (UseGas ?cold (fr_Contract fr))" for f
    using that by (auto simp: UseGas_def not_less split: if_splits intro: le_sub_add)
  have le: "c_Gas (snd (UseGas ?cold (fr_Contract fr))) \<le> gas_of fr"
    by (auto simp: UseGas_def not_less word_sub_le)
  show "gas_of (snd (e', fr')) \<le> gas_of (snd (e, fr))"
    using r presD [OF g] add le unfolding makeCallVariantGasCallEIP2929_def
    by (fastforce simp: a_bind_Ret act_Ret act_Ret_state Let_def split: if_splits intro: order_trans)
qed

lemma gas_fn_ok_variant:
  assumes "gas_fn_ok k g" "\<And>R env n. call_relation R env \<Longrightarrow> pres R (makeCallVariantGasCallEIP2929 g env n)"
    "\<And>env n. nofuel (makeCallVariantGasCallEIP2929 g env n)"
  shows "gas_fn_ok (max 2 k) (makeCallVariantGasCallEIP2929 g)"
  using assms by (intro gas_fn_okI gas_needs_call_variant gas_of_variant) (auto simp: gas_fn_ok_def)

lemma gas_fn_ok_calls:
  "gas_fn_ok 7 gasCallEIP2929" "gas_fn_ok 7 gasCallCodeEIP2929" "gas_fn_ok 6 gasStaticCallEIP2929"
  "gas_fn_ok 6 gasDelegateCallEIP2929"
proof -
  note defs = gasCallEIP2929_def gasCallCodeEIP2929_def gasStaticCallEIP2929_def gasDelegateCallEIP2929_def
  have v: "gas_fn_ok (max 2 3) gasCallEIP2929" "gas_fn_ok (max 2 3) gasCallCodeEIP2929"
    "gas_fn_ok (max 2 1) gasStaticCallEIP2929" "gas_fn_ok (max 2 1) gasDelegateCallEIP2929"
    unfolding defs
    by - ((rule gas_fn_ok_variant, rule gas_fn_ok_table, erule call_relation.pres_gas_call_variants [unfolded defs],
        rule nofuel_gas [unfolded defs])+)
  show "gas_fn_ok 7 gasCallEIP2929" "gas_fn_ok 7 gasCallCodeEIP2929" "gas_fn_ok 6 gasStaticCallEIP2929"
    "gas_fn_ok 6 gasDelegateCallEIP2929"
    by (rule v [THEN gas_fn_ok_weaken], simp)+
qed

lemma mem_fn_ok_all:
  "mem_fn_ok 2 memoryKeccak256" "mem_fn_ok 3 memoryCallDataCopy" "mem_fn_ok 3 memoryReturnDataCopy"
  "mem_fn_ok 3 memoryCodeCopy" "mem_fn_ok 4 memoryExtCodeCopy" "mem_fn_ok 1 memoryMLoad" "mem_fn_ok 2 memoryMStore8"
  "mem_fn_ok 2 memoryMStore" "mem_fn_ok 3 memoryMcopy" "mem_fn_ok 3 memoryCreate" "mem_fn_ok 4 memoryCreate2"
  "mem_fn_ok 7 memoryCall" "mem_fn_ok 6 memoryDelegateCall" "mem_fn_ok 6 memoryStaticCall" "mem_fn_ok 2 memoryReturn"
  "mem_fn_ok 2 memoryRevert" "mem_fn_ok 2 memoryLog"
  by (auto simp: mem_fn_ok_def no_stack_panic_def returns_fuel_def memoryKeccak256_def memoryCallDataCopy_def
      memoryReturnDataCopy_def memoryCodeCopy_def memoryExtCodeCopy_def memoryMLoad_def memoryMStore8_def memoryMStore_def
      memoryMcopy_def memoryCreate_def memoryCreate2_def memoryCall_def memoryDelegateCall_def memoryStaticCall_def
      memoryReturn_def memoryRevert_def memoryLog_def mem_size2_def mem_size_max_def Back_def Let_def
      split: if_splits prod.splits)

lemma mem_fn_ok_weaken: "mem_fn_ok k f \<Longrightarrow> k \<le> k' \<Longrightarrow> mem_fn_ok k' f"
  by (auto simp: mem_fn_ok_def)

section \<open>The frontier instructions\<close>

lemmas heights_all = heights_pure heights_memory heights_context heights_flow heights_calls
lemmas ordinary_all = ordinary_pure ordinary_memory ordinary_context ordinary_flow ordinary_create

lemma heights_logs:
  "heights 2 0 (makeLog 0)" "heights 3 0 (makeLog 1)" "heights 4 0 (makeLog 2)" "heights 5 0 (makeLog 3)"
  "heights 6 0 (makeLog 4)"
  using heights_log [of 0] heights_log [of 1] heights_log [of 2] heights_log [of 3] heights_log [of 4] by simp_all

text \<open>The same rules, with the entries of the shorter gas and memory functions weakened.\<close>

lemma op_ok_mem:
  assumes "heights p q f" "lawful f" "ordinary f" "gas_fn_ok k g" "mem_fn_ok j m" "0 < c \<or> charges g \<or> halting f"
    "k \<le> p" "j \<le> p"
  shows "op_ok \<lparr>execute = f, constantGas = c, dynamicGas = Some g, op_minStack = minStack p q,
     op_maxStack = maxStack p q, memorySize = Some m\<rparr>"
  by (rule op_ok_dyn(2)) (use assms gas_fn_ok_weaken mem_fn_ok_weaken in auto)

lemma op_ok_call_weak:
  "heights p q f \<Longrightarrow> lawful f \<Longrightarrow> calling t f \<Longrightarrow> gas_fn_ok k g \<Longrightarrow> mem_fn_ok p m \<Longrightarrow> call_cost t g \<Longrightarrow> 0 < c \<Longrightarrow> k \<le> p \<Longrightarrow>
   op_ok \<lparr>execute = f, constantGas = c, dynamicGas = Some g, op_minStack = minStack p q,
     op_maxStack = maxStack p q, memorySize = Some m\<rparr>"
  by (rule op_ok_call) (auto intro: gas_fn_ok_weaken)

lemma heights_swaps: "k = n + 1 \<Longrightarrow> heights k k (makeSwap n)"
  using heights_swap by simp

lemma frontier_ops1_ok: "list_all (\<lambda>(i, op). op_ok op) frontier_ops1"
  and frontier_ops2_ok: "list_all (\<lambda>(i, op). op_ok op) frontier_ops2"
  and frontier_ops3_ok: "list_all (\<lambda>(i, op). op_ok op) frontier_ops3"
  unfolding frontier_ops1_def frontier_ops2_def frontier_ops3_def list.pred_inject prod.case simp_thms
  by (intro conjI;
    (rule op_ok_const op_ok_mem op_ok_dyn heights_all lawful_plain ordinary_all gas_fn_ok_table mem_fn_ok_all
      | (simp add: halting_all charges_all; fail))+)+

lemma frontier_ops4_ok: "list_all (\<lambda>(i, op). op_ok op) frontier_ops4"
  and frontier_ops5_ok: "list_all (\<lambda>(i, op). op_ok op) frontier_ops5"
  unfolding frontier_ops4_def frontier_ops5_def list.pred_inject prod.case simp_thms
    minDupStack_def maxDupStack_def minSwapStack_def maxSwapStack_def
  by (intro conjI;
    (rule op_ok_const op_ok_mem heights_all heights_dup heights_swaps heights_logs lawful_plain ordinary_all
        gas_fn_ok_table mem_fn_ok_all
      | (simp add: charges_all; fail))+)+

lemma frontier_ops6_ok: "list_all (\<lambda>(i, op). op_ok op) frontier_ops6"
  unfolding frontier_ops6_def list.pred_inject prod.case simp_thms
  by (intro conjI;
    ((rule op_ok_call_weak, rule heights_calls, rule lawful_calls, rule calling_all, rule gas_fn_ok_table,
        rule mem_fn_ok_all, rule call_cost_Call call_cost_CallCode, simp, simp)
     | (rule op_ok_mem op_ok_dyn heights_all heights_logs lawful_plain lawful_calls ordinary_all gas_fn_ok_table mem_fn_ok_all
      | (simp add: charges_all halting_all; fail))+))

section \<open>The invariant of the tables\<close>

text \<open>
  The operations that later forks change in place: their instruction, the stack they need, and
  whether they have a constant cost. Every table from some fork on has them.
\<close>

type_synonym core_entry = "u8 \<times> instruction set \<times> nat \<times> bool"

definition core_frontier :: "core_entry list" where
  "core_frontier =
     [(OP_BALANCE, {opBalance}, 1, False), (OP_EXTCODESIZE, {opExtCodeSize}, 1, False), (OP_SLOAD, {opSload}, 1, False),
      (OP_EXTCODECOPY, {opExtCodeCopy}, 4, False), (OP_CALL, {opCall}, 7, True), (OP_CALLCODE, {opCallCode}, 7, True),
      (OP_EXP, {opExp}, 2, False), (OP_SSTORE, {opSstore}, 2, False),
      (OP_SELFDESTRUCT, {opSelfdestruct, opSelfdestruct6780}, 1, False), (OP_CREATE, {opCreate}, 3, True)]"

definition core_homestead :: "core_entry list" where
  "core_homestead = (OP_DELEGATECALL, {opDelegateCall}, 6, True) # core_frontier"

definition core_byzantium :: "core_entry list" where
  "core_byzantium = (OP_STATICCALL, {opStaticCall}, 6, True) # core_homestead"

definition core_constantinople :: "core_entry list" where
  "core_constantinople = (OP_CREATE2, {opCreate2}, 4, True) # (OP_EXTCODEHASH, {opExtCodeHash}, 1, False) # core_byzantium"

definition fits :: "core_entry \<Rightarrow> operation \<Rightarrow> bool" where
  "fits c op = (case c of (i, F, k, b) \<Rightarrow> execute op \<in> F \<and> op_minStack op = int k \<and> (b \<longrightarrow> 0 < constantGas op))"

definition table_inv :: "core_entry list \<Rightarrow> JumpTable \<Rightarrow> bool" where
  "table_inv cs jt \<longleftrightarrow> (\<forall>i. \<exists>op. jt i = Some op \<and> op_ok op) \<and>
     list_all (\<lambda>c. case jt (fst c) of None \<Rightarrow> False | Some op \<Rightarrow> fits c op) cs"

text \<open>\<open>builds cs m\<close>: the construction \<open>m\<close> does not panic and gives a table with the invariant.\<close>

definition builds :: "core_entry list \<Rightarrow> JumpTable go \<Rightarrow> bool" where
  "builds cs m \<longleftrightarrow> (\<exists>jt. m = Ret jt \<and> table_inv cs jt)"

definition keeps :: "core_entry list \<Rightarrow> core_entry list \<Rightarrow> (JumpTable \<Rightarrow> JumpTable go) \<Rightarrow> bool" where
  "keeps cs ds f \<longleftrightarrow> (\<forall>jt. table_inv cs jt \<longrightarrow> builds ds (f jt))"

lemma keeps_put:
  assumes "op_ok op" "list_all (\<lambda>c. fst c = i \<longrightarrow> fits c op) ds" "list_all (\<lambda>c. fst c = i \<or> c \<in> set cs) ds"
  shows "keeps cs ds (put_op i op)"
  using assms by (auto simp: keeps_def builds_def put_op_def table_inv_def list_all_iff)

lemma keeps_with:
  assumes "(i, F, k, b) \<in> set cs" "\<And>op. op_ok op \<Longrightarrow> fits (i, F, k, b) op \<Longrightarrow> op_ok (f op)"
    "\<And>c op. c \<in> set cs \<Longrightarrow> fst c = i \<Longrightarrow> fits c op \<Longrightarrow> fits c (f op)"
  shows "keeps cs cs (with_op i f)"
  unfolding keeps_def
proof (intro allI impI)
  fix jt assume inv: "table_inv cs jt"
  then obtain op where op: "jt i = Some op" "op_ok op" by (auto simp: table_inv_def)
  have cs: "fits c op'" if "c \<in> set cs" "jt (fst c) = Some op'" for c op'
    using inv that by (auto simp: table_inv_def list_all_iff split: option.splits)
  have in_cs: "\<exists>op'. jt (fst c) = Some op'" if "c \<in> set cs" for c
    using inv by (auto simp: table_inv_def)
  have ok: "op_ok (f op)" using assms(2) [OF op(2)] cs [OF assms(1)] op(1) by simp
  have A: "\<exists>op'. (jt(i \<mapsto> f op)) j = Some op' \<and> op_ok op'" for j
    using inv ok by (cases "j = i") (simp_all add: table_inv_def)
  have B: "case (jt(i \<mapsto> f op)) (fst c) of None \<Rightarrow> False | Some op' \<Rightarrow> fits c op'" if c: "c \<in> set cs" for c
  proof (cases "fst c = i")
    case True
    then show ?thesis using assms(3) [OF c True] cs [OF c] op(1) by simp
  next
    case False
    then show ?thesis using in_cs [OF c] cs [OF c] by auto
  qed
  have "table_inv cs (jt(i \<mapsto> f op))" unfolding table_inv_def list_all_iff using A B by blast
  then show "builds cs (with_op i f jt)" by (simp add: with_op_def op builds_def)
qed

lemma keeps_seq:
  "keeps cs cs (go_seq [])" "keeps cs ds f \<Longrightarrow> keeps ds es (go_seq fs) \<Longrightarrow> keeps cs es (go_seq (f # fs))"
  by (auto simp: keeps_def builds_def)

lemma validate_inv:
  assumes "table_inv cs jt"
  shows "validate jt = Ret jt"
proof -
  have "case jt i of None \<Rightarrow> False | Some op \<Rightarrow> \<not> (memorySize op \<noteq> None \<and> dynamicGas op = None)" for i
  proof -
    obtain op where "jt i = Some op" "op_ok op" using assms unfolding table_inv_def by blast
    then show ?thesis by (auto simp: op_ok_def)
  qed
  then show ?thesis unfolding validate_def list_all_iff by simp
qed

lemma builds_fork: "builds cs m \<Longrightarrow> keeps cs ds (go_seq fs) \<Longrightarrow> builds ds (fork m fs)"
  unfolding builds_def keeps_def fork_def by (auto simp: validate_inv)

section \<open>The instruction sets of the forks\<close>

definition frontier_ops :: "(u8 \<times> operation) list" where
  "frontier_ops = frontier_ops1 @ frontier_ops2 @ frontier_ops3 @ frontier_ops4 @ frontier_ops5 @ frontier_ops6"

lemma frontier_opcodes:
  "map fst frontier_ops = map word_of_nat ([0..<12] @ [16..<23] @ [24, 23, 25, 26, 32] @ [48..<61] @ [64..<70] @
     [80..<92] @ [96..<165] @ [240..<244] @ [255])"
  by (simp add: frontier_ops_def frontier_ops1_def frontier_ops2_def frontier_ops3_def frontier_ops4_def
      frontier_ops5_def frontier_ops6_def upt_rec)

lemma distinct_frontier_opcodes: "distinct (map fst frontier_ops)"
proof -
  have "inj_on (word_of_nat :: nat \<Rightarrow> u8) {..<256}"
    by (rule inj_onI) (simp add: word_of_nat_eq_iff take_bit_nat_eq_self)
  then show ?thesis unfolding frontier_opcodes distinct_map by (rule conjI [rotated, OF inj_on_subset]) auto
qed

lemma frontier_core: "list_all (\<lambda>c. list_ex (\<lambda>(i, op). i = fst c \<and> fits c op) frontier_ops) core_frontier"
proof -
  have "list_all (\<lambda>c. list_ex (\<lambda>(i, op). i = fst c \<and> fits c op) frontier_ops2 \<or>
     list_ex (\<lambda>(i, op). i = fst c \<and> fits c op) frontier_ops1 \<or> list_ex (\<lambda>(i, op). i = fst c \<and> fits c op) frontier_ops3 \<or>
     list_ex (\<lambda>(i, op). i = fst c \<and> fits c op) frontier_ops6) core_frontier"
    unfolding core_frontier_def list.pred_inject
    by (simp add: frontier_ops1_def frontier_ops2_def frontier_ops3_def frontier_ops6_def) (simp add: fits_def minStack_def)
  then show ?thesis by (auto simp: list_all_iff list_ex_iff frontier_ops_def)
qed

lemma frontier_ops_ok: "list_all (\<lambda>(i, op). op_ok op) frontier_ops"
  unfolding frontier_ops_def list_all_append
  by (intro conjI frontier_ops1_ok frontier_ops2_ok frontier_ops3_ok frontier_ops4_ok frontier_ops5_ok frontier_ops6_ok)

lemma builds_frontier: "builds core_frontier newFrontierInstructionSet"
proof -
  define jt where "jt = (\<lambda>i. case map_of frontier_ops i of None \<Rightarrow> Some undefined_op | Some op \<Rightarrow> Some op)"
  have u: "op_ok undefined_op"
    using op_ok_const [OF heights_flow(11) lawful_plain(72), of 0] ordinary_flow(11) halting_all(3)
    by (simp add: undefined_op_def minStack_def)
  have "\<exists>op. jt i = Some op \<and> op_ok op" for i
    using frontier_ops_ok u by (auto simp: jt_def list_all_iff dest!: map_of_SomeD split: option.splits)
  moreover have "list_all (\<lambda>c. case jt (fst c) of None \<Rightarrow> False | Some op \<Rightarrow> fits c op) core_frontier"
    using frontier_core map_of_is_SomeI [OF distinct_frontier_opcodes]
    by (fastforce simp: list_all_iff list_ex_iff jt_def split: option.split)
  ultimately have "table_inv core_frontier jt" by (simp add: table_inv_def)
  then show ?thesis
    using validate_inv by (simp add: builds_def newFrontierInstructionSet_def jt_def frontier_ops_def)
qed

text \<open>The two kinds of change: a new constant cost, and a new dynamic cost.\<close>

lemma minStack_eq [simp]: "minStack p q = int k \<longleftrightarrow> p = k"
  by (simp add: minStack_def)

lemma op_ok_set_const: "op_ok op \<Longrightarrow> 0 < c \<Longrightarrow> op_ok (set_const c op)"
  by (auto simp: op_ok_def progress_def set_const_def)

lemma keeps_const:
  assumes "i \<in> fst ` set cs" "0 < c"
  shows "keeps cs cs (with_op i (set_const c))"
proof -
  obtain F k b where "(i, F, k, b) \<in> set cs" using assms(1) by auto
  then show ?thesis
    by (rule keeps_with) (use assms(2) op_ok_set_const in \<open>auto simp: fits_def set_const_def\<close>)
qed

text \<open>A cost that makes all instructions of \<open>F\<close> progress, with constant cost \<open>c\<close>.\<close>

definition pays :: "instruction set \<Rightarrow> u64 \<Rightarrow> gas_fn \<Rightarrow> bool" where
  "pays F c g \<longleftrightarrow> (\<forall>f\<in>F. ordinary f \<and> (0 < c \<or> charges g \<or> halting f) \<or> (\<exists>t. calling t f \<and> call_cost t g \<and> 0 < c))"

lemma op_ok_change:
  assumes op: "op_ok op" and fit: "fits (i, F, k, b) op" and g: "gas_fn_ok k g" and p: "pays F c g"
  shows "op_ok (op\<lparr>constantGas := c, dynamicGas := Some g\<rparr>)"
proof -
  have x: "execute op \<in> F" "op_minStack op = int k" using fit by (simp_all add: fits_def)
  then have "progress (op\<lparr>constantGas := c, dynamicGas := Some g\<rparr>)"
    using p by (auto simp: progress_def pays_def)
  moreover have "\<exists>pushes. op_minStack op = minStack k pushes \<and> op_maxStack op = maxStack k pushes \<and>
      heights k pushes (execute op) \<and> (\<forall>f. memorySize op = Some f \<longrightarrow> mem_fn_ok k f)"
    using op x(2) unfolding op_ok_def by (metis minStack_eq)
  ultimately show ?thesis using op g by (auto simp: op_ok_def)
qed

lemma keeps_dyn:
  assumes "(i, F, k, b) \<in> set cs" "gas_fn_ok k g" "\<And>c. (b \<longrightarrow> 0 < c) \<Longrightarrow> pays F c g"
  shows "keeps cs cs (with_op i (set_dyn g))"
proof (rule keeps_with [OF assms(1)])
  fix op assume op: "op_ok op" "fits (i, F, k, b) op"
  then have "pays F (constantGas op) g" using assms(3) by (simp add: fits_def)
  from op_ok_change [OF op assms(2) this] show "op_ok (set_dyn g op)" by (simp add: set_dyn_def)
qed (auto simp: fits_def set_dyn_def)

lemma keeps_both:
  assumes "(i, F, k, b) \<in> set cs" "gas_fn_ok k g" "pays F c g" "0 < c \<or> list_all (\<lambda>(j, F, k, b). j = i \<longrightarrow> \<not> b) cs"
  shows "keeps cs cs (with_op i (set_dyn g \<circ> set_const c))"
proof (rule keeps_with [OF assms(1)])
  fix op assume op: "op_ok op" "fits (i, F, k, b) op"
  from op_ok_change [OF op assms(2,3)] show "op_ok ((set_dyn g \<circ> set_const c) op)" by (simp add: set_dyn_def set_const_def)
next
  fix d op assume "d \<in> set cs" "fst d = i" "fits d op"
  then show "fits d ((set_dyn g \<circ> set_const c) op)"
    using assms(4) by (auto simp: fits_def set_dyn_def set_const_def list_all_iff)
qed

lemma keeps_id: "keeps cs ds f \<Longrightarrow> keeps cs ds (go_seq [f])"
  by (rule keeps_seq(2), assumption, rule keeps_seq(1))

text \<open>The membership facts, and the side conditions of \<open>keeps_put\<close>, for every list of core operations.\<close>

lemmas cores = core_constantinople_def core_byzantium_def core_homestead_def core_frontier_def

lemma builds_homestead: "builds core_homestead newHomesteadInstructionSet"
  unfolding newHomesteadInstructionSet_def
  by (rule builds_fork [OF builds_frontier], rule keeps_id, rule keeps_put)
    ((rule op_ok_call_weak heights_calls lawful_calls calling_all gas_fn_ok_table mem_fn_ok_all call_cost_simple | (simp; fail))+,
      (simp add: cores fits_def minStack_def)+)

lemma builds_tangerine: "builds core_homestead newTangerineWhistleInstructionSet"
  unfolding newTangerineWhistleInstructionSet_def
  by (rule builds_fork [OF builds_homestead], (rule keeps_seq(2), (rule keeps_const; simp add: cores))+, rule keeps_seq(1))

lemma builds_spurious: "builds core_homestead newSpuriousDragonInstructionSet"
  unfolding newSpuriousDragonInstructionSet_def
  by (rule builds_fork [OF builds_tangerine], rule keeps_id, rule keeps_dyn [where k = 2 and F = "{opExp}" and b = False])
    (simp_all add: cores gas_fn_ok_table pays_def ordinary_all charges_all)

text \<open>The operations that later forks add.\<close>

lemma added_ok:
  "op_ok \<lparr>execute = opReturnDataSize, constantGas = GasQuickStep, dynamicGas = None,
     op_minStack = minStack 0 1, op_maxStack = maxStack 0 1, memorySize = None\<rparr>"
  "op_ok \<lparr>execute = opReturnDataCopy, constantGas = GasFastestStep, dynamicGas = Some gasReturnDataCopy,
     op_minStack = minStack 3 0, op_maxStack = maxStack 3 0, memorySize = Some memoryReturnDataCopy\<rparr>"
  "op_ok \<lparr>execute = opRevert, constantGas = 0, dynamicGas = Some gasRevert,
     op_minStack = minStack 2 0, op_maxStack = maxStack 2 0, memorySize = Some memoryRevert\<rparr>"
  "op_ok \<lparr>execute = opSHL, constantGas = GasFastestStep, dynamicGas = None,
     op_minStack = minStack 2 1, op_maxStack = maxStack 2 1, memorySize = None\<rparr>"
  "op_ok \<lparr>execute = opSHR, constantGas = GasFastestStep, dynamicGas = None,
     op_minStack = minStack 2 1, op_maxStack = maxStack 2 1, memorySize = None\<rparr>"
  "op_ok \<lparr>execute = opSAR, constantGas = GasFastestStep, dynamicGas = None,
     op_minStack = minStack 2 1, op_maxStack = maxStack 2 1, memorySize = None\<rparr>"
  "op_ok \<lparr>execute = opSelfBalance, constantGas = GasFastStep, dynamicGas = None,
     op_minStack = minStack 0 1, op_maxStack = maxStack 0 1, memorySize = None\<rparr>"
  "op_ok \<lparr>execute = opChainID, constantGas = GasQuickStep, dynamicGas = None,
     op_minStack = minStack 0 1, op_maxStack = maxStack 0 1, memorySize = None\<rparr>"
  "op_ok \<lparr>execute = opBaseFee, constantGas = GasQuickStep, dynamicGas = None,
     op_minStack = minStack 0 1, op_maxStack = maxStack 0 1, memorySize = None\<rparr>"
  "op_ok \<lparr>execute = opTload, constantGas = WarmStorageReadCostEIP2929, dynamicGas = None,
     op_minStack = minStack 1 1, op_maxStack = maxStack 1 1, memorySize = None\<rparr>"
  "op_ok \<lparr>execute = opTstore, constantGas = WarmStorageReadCostEIP2929, dynamicGas = None,
     op_minStack = minStack 2 0, op_maxStack = maxStack 2 0, memorySize = None\<rparr>"
  "op_ok \<lparr>execute = opPush0, constantGas = GasQuickStep, dynamicGas = None,
     op_minStack = minStack 0 1, op_maxStack = maxStack 0 1, memorySize = None\<rparr>"
  "op_ok \<lparr>execute = opMcopy, constantGas = GasFastestStep, dynamicGas = Some gasMcopy,
     op_minStack = minStack 3 0, op_maxStack = maxStack 3 0, memorySize = Some memoryMcopy\<rparr>"
  "op_ok \<lparr>execute = opBlobHash, constantGas = GasFastestStep, dynamicGas = None,
     op_minStack = minStack 1 1, op_maxStack = maxStack 1 1, memorySize = None\<rparr>"
  "op_ok \<lparr>execute = opBlobBaseFee, constantGas = GasQuickStep, dynamicGas = None,
     op_minStack = minStack 0 1, op_maxStack = maxStack 0 1, memorySize = None\<rparr>"
  "op_ok \<lparr>execute = opSelfdestruct6780, constantGas = SelfdestructGasEIP150, dynamicGas = Some gasSelfdestructEIP3529,
     op_minStack = minStack 1 0, op_maxStack = maxStack 1 0, memorySize = None\<rparr>"
  "op_ok \<lparr>execute = opRandom, constantGas = GasQuickStep, dynamicGas = None,
     op_minStack = minStack 0 1, op_maxStack = maxStack 0 1, memorySize = None\<rparr>"
  by - (rule op_ok_const op_ok_mem op_ok_dyn heights_all lawful_plain gas_fn_ok_table gas_fn_ok_acl mem_fn_ok_all ordinary_all
      | (simp add: halting_all; fail))+

lemma put_other: "op_ok op \<Longrightarrow> i \<notin> fst ` set cs \<Longrightarrow> keeps cs cs (put_op i op)"
  by (rule keeps_put) (auto simp: list_all_iff)

lemma put_core: "op_ok op \<Longrightarrow> fits (i, F, k, b) op \<Longrightarrow> i \<notin> fst ` set cs \<Longrightarrow> keeps cs ((i, F, k, b) # cs) (put_op i op)"
  by (rule keeps_put) (auto simp: list_all_iff)

lemma builds_byzantium: "builds core_byzantium newByzantiumInstructionSet"
proof -
  have s: "op_ok \<lparr>execute = opStaticCall, constantGas = CallGasEIP150, dynamicGas = Some gasStaticCall,
      op_minStack = minStack 6 1, op_maxStack = maxStack 6 1, memorySize = Some memoryStaticCall\<rparr>"
    by (rule op_ok_call_weak, rule heights_calls, rule lawful_calls, rule calling_all, rule gas_fn_ok_table,
      rule mem_fn_ok_all, rule call_cost_simple) simp_all
  show ?thesis
    unfolding newByzantiumInstructionSet_def core_byzantium_def
    by (rule builds_fork [OF builds_spurious], rule keeps_seq(2),
      rule put_core [OF s, where F = "{opStaticCall}" and k = 6 and b = True], simp add: fits_def, simp add: cores,
      (rule keeps_seq(2), rule put_other, rule added_ok, simp add: cores)+, rule keeps_seq(1))
qed

lemma builds_constantinople: "builds core_constantinople newConstantinopleInstructionSet"
proof -
  have h: "op_ok \<lparr>execute = opExtCodeHash, constantGas = ExtcodeHashGasConstantinople, dynamicGas = None,
      op_minStack = minStack 1 1, op_maxStack = maxStack 1 1, memorySize = None\<rparr>"
    and c: "op_ok \<lparr>execute = opCreate2, constantGas = Create2Gas, dynamicGas = Some gasCreate2,
      op_minStack = minStack 4 1, op_maxStack = maxStack 4 1, memorySize = Some memoryCreate2\<rparr>"
    by - (rule op_ok_const op_ok_mem heights_all lawful_plain lawful_calls gas_fn_ok_table mem_fn_ok_all ordinary_all
      | (simp; fail))+
  have hc: "keeps core_byzantium core_constantinople (go_seq
     [put_op OP_EXTCODEHASH \<lparr>execute = opExtCodeHash, constantGas = ExtcodeHashGasConstantinople, dynamicGas = None,
      op_minStack = minStack 1 1, op_maxStack = maxStack 1 1, memorySize = None\<rparr>,
      put_op OP_CREATE2 \<lparr>execute = opCreate2, constantGas = Create2Gas, dynamicGas = Some gasCreate2,
      op_minStack = minStack 4 1, op_maxStack = maxStack 4 1, memorySize = Some memoryCreate2\<rparr>])"
    unfolding core_constantinople_def
    by (rule keeps_seq(2), rule put_core [OF h, where F = "{opExtCodeHash}" and k = 1 and b = False], simp add: fits_def,
      simp add: cores, rule keeps_seq(2), rule put_core [OF c, where F = "{opCreate2}" and k = 4 and b = True],
      simp add: fits_def, simp add: cores, rule keeps_seq(1))
  show ?thesis
    unfolding newConstantinopleInstructionSet_def
    by (rule builds_fork [OF builds_byzantium], (rule keeps_seq(2), rule put_other, rule added_ok, simp add: cores)+, rule hc)
qed

text \<open>The in-place changes of the later EIPs, on the core operations.\<close>

lemma dyn_changes:
  "keeps core_constantinople core_constantinople (with_op OP_SSTORE (set_dyn gasSStoreEIP2200))"
  "keeps core_constantinople core_constantinople (with_op OP_SSTORE (set_dyn gasSStoreEIP2929))"
  "keeps core_constantinople core_constantinople (with_op OP_SSTORE (set_dyn gasSStoreEIP3529))"
  "keeps core_constantinople core_constantinople (with_op OP_SELFDESTRUCT (set_dyn gasSelfdestructEIP3529))"
  "keeps core_constantinople core_constantinople (with_op OP_CREATE (set_dyn gasCreateEip3860))"
  "keeps core_constantinople core_constantinople (with_op OP_CREATE2 (set_dyn gasCreate2Eip3860))"
proof -
  have c: "charges gasSStoreEIP2929" "charges gasSStoreEIP3529"
    by (simp_all add: gasSStoreEIP2929_def gasSStoreEIP3529_def charges_all)
  show "keeps core_constantinople core_constantinople (with_op OP_SSTORE (set_dyn gasSStoreEIP2200))"
    "keeps core_constantinople core_constantinople (with_op OP_SSTORE (set_dyn gasSStoreEIP2929))"
    "keeps core_constantinople core_constantinople (with_op OP_SSTORE (set_dyn gasSStoreEIP3529))"
    by (rule keeps_dyn [where k = 2 and F = "{opSstore}" and b = False];
      simp add: cores gas_fn_ok_table gas_fn_ok_acl pays_def ordinary_all charges_all c)+
  show "keeps core_constantinople core_constantinople (with_op OP_SELFDESTRUCT (set_dyn gasSelfdestructEIP3529))"
    by (rule keeps_dyn [where k = 1 and F = "{opSelfdestruct, opSelfdestruct6780}" and b = False];
      simp add: cores gas_fn_ok_acl [unfolded One_nat_def] pays_def ordinary_all halting_all)
  show "keeps core_constantinople core_constantinople (with_op OP_CREATE (set_dyn gasCreateEip3860))"
    by (rule keeps_dyn [where k = 3 and F = "{opCreate}" and b = True];
      simp add: cores gas_fn_ok_table pays_def ordinary_all)
  show "keeps core_constantinople core_constantinople (with_op OP_CREATE2 (set_dyn gasCreate2Eip3860))"
    by (rule keeps_dyn [where k = 4 and F = "{opCreate2}" and b = True];
      simp add: cores gas_fn_ok_weaken [OF gas_fn_ok_table(18)] pays_def ordinary_all)
qed

lemma eips_keep:
  "keeps core_constantinople core_constantinople enable1884" "keeps core_constantinople core_constantinople enable1344"
  "keeps core_constantinople core_constantinople enable2200"
  "keeps core_constantinople core_constantinople enable3529" "keeps core_constantinople core_constantinople enable3198"
  "keeps core_constantinople core_constantinople enable1153" "keeps core_constantinople core_constantinople enable3855"
  "keeps core_constantinople core_constantinople enable3860" "keeps core_constantinople core_constantinople enable5656"
  "keeps core_constantinople core_constantinople enable4844" "keeps core_constantinople core_constantinople enable7516"
  "keeps core_constantinople core_constantinople enable6780"
proof -
  have sd: "keeps core_constantinople core_constantinople (put_op OP_SELFDESTRUCT \<lparr>execute = opSelfdestruct6780,
      constantGas = SelfdestructGasEIP150, dynamicGas = Some gasSelfdestructEIP3529, op_minStack = minStack 1 0,
      op_maxStack = maxStack 1 0, memorySize = None\<rparr>)"
    by (rule keeps_put [OF added_ok(16)]) (simp_all add: cores fits_def minStack_def)
  show "keeps core_constantinople core_constantinople enable1884" "keeps core_constantinople core_constantinople enable1344"
    "keeps core_constantinople core_constantinople enable2200"
    "keeps core_constantinople core_constantinople enable3529" "keeps core_constantinople core_constantinople enable3198"
    "keeps core_constantinople core_constantinople enable1153" "keeps core_constantinople core_constantinople enable3855"
    "keeps core_constantinople core_constantinople enable3860" "keeps core_constantinople core_constantinople enable5656"
    "keeps core_constantinople core_constantinople enable4844" "keeps core_constantinople core_constantinople enable7516"
    "keeps core_constantinople core_constantinople enable6780"
    unfolding enable1884_def enable1344_def enable2200_def enable3529_def enable3198_def enable1153_def enable3855_def
      enable3860_def enable5656_def enable4844_def enable7516_def enable6780_def
    by - (rule keeps_seq(2) dyn_changes sd keeps_const put_other added_ok keeps_seq(1) | (simp add: cores; fail))+
qed

lemma eip2929_keeps: "keeps core_constantinople core_constantinople enable2929"
proof -
  let ?core = core_constantinople
  note kb = keeps_both [where cs = core_constantinople]
  have sload: "keeps ?core ?core (with_op OP_SLOAD (set_dyn gasSLoadEIP2929 \<circ> set_const 0))"
    by (rule kb [where k = 1 and F = "{opSload}" and b = False];
      simp add: cores gas_fn_ok_acl [unfolded One_nat_def] pays_def ordinary_all charges_all)
  have copy: "keeps ?core ?core (with_op OP_EXTCODECOPY (set_dyn gasExtCodeCopyEIP2929 \<circ> set_const WarmStorageReadCostEIP2929))"
    by (rule kb [where k = 4 and F = "{opExtCodeCopy}" and b = False];
      simp add: cores gas_fn_ok_acl pays_def ordinary_all)
  have size: "keeps ?core ?core (with_op OP_EXTCODESIZE (set_dyn gasEip2929AccountCheck \<circ> set_const WarmStorageReadCostEIP2929))"
    by (rule kb [where k = 1 and F = "{opExtCodeSize}" and b = False];
      simp add: cores gas_fn_ok_acl [unfolded One_nat_def] pays_def ordinary_all)
  have hash: "keeps ?core ?core (with_op OP_EXTCODEHASH (set_dyn gasEip2929AccountCheck \<circ> set_const WarmStorageReadCostEIP2929))"
    by (rule kb [where k = 1 and F = "{opExtCodeHash}" and b = False];
      simp add: cores gas_fn_ok_acl [unfolded One_nat_def] pays_def ordinary_all)
  have balance: "keeps ?core ?core (with_op OP_BALANCE (set_dyn gasEip2929AccountCheck \<circ> set_const WarmStorageReadCostEIP2929))"
    by (rule kb [where k = 1 and F = "{opBalance}" and b = False];
      simp add: cores gas_fn_ok_acl [unfolded One_nat_def] pays_def ordinary_all)
  have cost: "call_cost True gasCallEIP2929" "call_cost True gasCallCodeEIP2929" "call_cost False gasStaticCallEIP2929"
    "call_cost False gasDelegateCallEIP2929"
    unfolding gasCallEIP2929_def gasCallCodeEIP2929_def gasStaticCallEIP2929_def gasDelegateCallEIP2929_def
    by (intro call_cost_variant call_cost_Call call_cost_CallCode call_cost_simple)+
  have p: "pays {opCall} WarmStorageReadCostEIP2929 gasCallEIP2929" "pays {opCallCode} WarmStorageReadCostEIP2929 gasCallCodeEIP2929"
    "pays {opStaticCall} WarmStorageReadCostEIP2929 gasStaticCallEIP2929"
    "pays {opDelegateCall} WarmStorageReadCostEIP2929 gasDelegateCallEIP2929"
    using cost calling_all by (auto simp: pays_def)
  have calls: "keeps ?core ?core (with_op OP_CALL (set_dyn gasCallEIP2929 \<circ> set_const WarmStorageReadCostEIP2929))"
    "keeps ?core ?core (with_op OP_CALLCODE (set_dyn gasCallCodeEIP2929 \<circ> set_const WarmStorageReadCostEIP2929))"
    "keeps ?core ?core (with_op OP_STATICCALL (set_dyn gasStaticCallEIP2929 \<circ> set_const WarmStorageReadCostEIP2929))"
    "keeps ?core ?core (with_op OP_DELEGATECALL (set_dyn gasDelegateCallEIP2929 \<circ> set_const WarmStorageReadCostEIP2929))"
    by (rule kb [OF _ gas_fn_ok_calls(1) p(1), where b = True] kb [OF _ gas_fn_ok_calls(2) p(2), where b = True]
        kb [OF _ gas_fn_ok_calls(3) p(3), where b = True] kb [OF _ gas_fn_ok_calls(4) p(4), where b = True]; simp add: cores)+
  have sd: "keeps ?core ?core (with_op OP_SELFDESTRUCT (set_dyn gasSelfdestructEIP2929 \<circ> set_const SelfdestructGasEIP150))"
    by (rule kb [where k = 1 and F = "{opSelfdestruct, opSelfdestruct6780}" and b = False];
      simp add: cores gas_fn_ok_acl [unfolded One_nat_def] pays_def ordinary_all)
  show ?thesis
    unfolding enable2929_def
    by - (rule keeps_seq(2) dyn_changes sload copy size hash balance calls sd keeps_seq(1))+
qed

lemma builds_later:
  "builds core_constantinople newIstanbulInstructionSet" "builds core_constantinople newBerlinInstructionSet"
  "builds core_constantinople newLondonInstructionSet" "builds core_constantinople newMergeInstructionSet"
  "builds core_constantinople newShanghaiInstructionSet" "builds core_constantinople newCancunInstructionSet"
proof -
  show i: "builds core_constantinople newIstanbulInstructionSet"
    unfolding newIstanbulInstructionSet_def
    by (rule builds_fork [OF builds_constantinople], (rule keeps_seq(2), rule eips_keep)+, rule keeps_seq(1))
  show b: "builds core_constantinople newBerlinInstructionSet"
    unfolding newBerlinInstructionSet_def
    by (rule builds_fork [OF i], rule keeps_seq(2), rule eip2929_keeps, rule keeps_seq(1))
  show l: "builds core_constantinople newLondonInstructionSet"
    unfolding newLondonInstructionSet_def
    by (rule builds_fork [OF b], (rule keeps_seq(2), rule eips_keep)+, rule keeps_seq(1))
  show m: "builds core_constantinople newMergeInstructionSet"
    unfolding newMergeInstructionSet_def
    by (rule builds_fork [OF l], rule keeps_seq(2), rule put_other, rule added_ok, simp add: cores, rule keeps_seq(1))
  show s: "builds core_constantinople newShanghaiInstructionSet"
    unfolding newShanghaiInstructionSet_def
    by (rule builds_fork [OF m], (rule keeps_seq(2), rule eips_keep)+, rule keeps_seq(1))
  show "builds core_constantinople newCancunInstructionSet"
    unfolding newCancunInstructionSet_def
    by (rule builds_fork [OF s], (rule keeps_seq(2), rule eips_keep)+, rule keeps_seq(1))
qed

lemma fork_table_inv: "\<exists>jt. fork_table r = Ret jt \<and> (\<forall>i. \<exists>op. jt i = Some op \<and> op_ok op)"
proof -
  have *: "\<exists>jt. m = Ret jt \<and> (\<forall>i. \<exists>op. jt i = Some op \<and> op_ok op)" if "builds cs m" for m cs
    using that by (auto simp: builds_def table_inv_def)
  show ?thesis
    unfolding fork_table_def
    using builds_later [THEN *] builds_constantinople [THEN *] builds_byzantium [THEN *] builds_spurious [THEN *]
      builds_tangerine [THEN *] builds_homestead [THEN *] builds_frontier [THEN *]
    by (simp split: if_split)
qed

section \<open>Properties\<close>

text \<open>
  C37. Every fork's instruction set is built without a panic, has an operation for each of the 256
  opcodes, and each operation is correct: its stack bounds are exactly what its instruction, its
  gas function and its memory-size function need and leave, it has a gas function if it has a
  memory-size function, and unless it ends the frame it costs gas.
\<close>

theorem instruction_sets_correct:
  "\<exists>jt. fork_table r = Ret jt \<and> (\<forall>i. \<exists>op. jt i = Some op \<and> op_ok op)"
  by (rule fork_table_inv)

lemma EnableEIP_inv:
  assumes "table_inv core_constantinople jt"
  shows "\<exists>jt'. EnableEIP n jt = Ret (ValidEip n, jt') \<and> table_inv core_constantinople jt'"
proof (cases "activators n")
  case None
  then show ?thesis using assms by (simp add: EnableEIP_def ValidEip_def)
next
  case (Some f)
  then have "keeps core_constantinople core_constantinople f"
    using eips_keep eip2929_keeps by (auto simp: activators_def split: if_splits)
  then obtain jt' where "f jt = Ret jt'" "table_inv core_constantinople jt'"
    using assms by (auto simp: keeps_def builds_def)
  then show ?thesis using Some by (simp add: EnableEIP_def ValidEip_def)
qed

lemma enable_extra_inv:
  "table_inv core_constantinople jt \<Longrightarrow>
   \<exists>jt'. enable_extra ns jt = Ret (jt', filter ValidEip ns) \<and> table_inv core_constantinople jt'"
proof (induction ns arbitrary: jt)
  case (Cons n ns)
  obtain jt1 where 1: "EnableEIP n jt = Ret (ValidEip n, jt1)" "table_inv core_constantinople jt1"
    using EnableEIP_inv [OF Cons.prems] by blast
  show ?case using Cons.IH [OF 1(2)] 1(1) by auto
qed simp

text \<open>
  From Constantinople on, any list of extra EIPs can be activated on top of the fork's table: the
  constructor does not panic, it reports exactly the known EIPs of the list, in order, and the
  table it installs is again complete and correct.
\<close>

theorem extra_eips_correct:
  assumes "IsConstantinople r \<or> IsIstanbul r \<or> IsBerlin r \<or> IsLondon r \<or> IsMerge r \<or> IsShanghai r \<or> IsCancun r"
  shows "\<exists>jt. NewEVMInterpreter r eips = Ret (jt, filter ValidEip eips) \<and> (\<forall>i. \<exists>op. jt i = Some op \<and> op_ok op)"
proof -
  have "builds core_constantinople (fork_table r)"
    unfolding fork_table_def using assms builds_later builds_constantinople by (simp split: if_split) blast
  then obtain jt where "fork_table r = Ret jt" "table_inv core_constantinople jt" by (auto simp: builds_def)
  with enable_extra_inv [of jt eips] show ?thesis by (auto simp: NewEVMInterpreter_def table_inv_def)
qed

theorem extra_eips_correct_witness:
  "\<exists>jt. NewEVMInterpreter \<lparr>IsHomestead = True, IsEIP150 = True, IsEIP155 = True, IsEIP158 = True, IsByzantium = True,
      IsConstantinople = True, IsPetersburg = True, IsIstanbul = False, IsBerlin = False, IsLondon = False,
      IsMerge = False, IsShanghai = False, IsCancun = False, IsPrague = False, IsVerkle = False\<rparr> [1344, 7, 3855]
     = Ret (jt, [1344, 3855]) \<and> (\<forall>i. \<exists>op. jt i = Some op \<and> op_ok op)"
  using extra_eips_correct [of "\<lparr>IsHomestead = True, IsEIP150 = True, IsEIP155 = True, IsEIP158 = True, IsByzantium = True,
      IsConstantinople = True, IsPetersburg = True, IsIstanbul = False, IsBerlin = False, IsLondon = False,
      IsMerge = False, IsShanghai = False, IsCancun = False, IsPrague = False, IsVerkle = False\<rparr>" "[1344, 7, 3855]"]
  by (simp add: ValidEip_def activators_def)

end
