(* ===== verification/Interpreter.thy ===== *)
theory Interpreter imports Jump_Table_Laws begin

text \<open>
  The interpreter: \<open>EVMInterpreter.Run\<close> of \<open>core/vm/interpreter.go\<close>. The loop runs on fuel: each
  round takes one unit, and the runs that the instructions of a round start have one unit less than
  the run itself. The theory proves that fuel above the gas is always enough, and then what every
  run guarantees.
\<close>

section \<open>One round of the loop\<close>

definition charge :: "u64 \<Rightarrow> unit act" where
  "charge gas = a_bind (a_use_gas gas) (\<lambda>ok. if ok then a_ret () else a_err ErrOutOfGas)"

text \<open>The size the memory must have for the operation, in whole words.\<close>

definition needed_memory :: "operation \<Rightarrow> u64 act" where
  "needed_memory op =
     (case memorySize op of
        None \<Rightarrow> a_ret 0
      | Some f \<Rightarrow>
          a_bind (a_frame fr_Stack) (\<lambda>st.
          a_bind (a_go (f st)) (\<lambda>(memSize, overflow).
            if overflow then a_err ErrGasUintOverflow else checked (SafeMul (toWordSize memSize) 32))))"

definition dynamic_step :: "env \<Rightarrow> operation \<Rightarrow> gas_fn \<Rightarrow> unit act" where
  "dynamic_step env op g =
     a_bind (needed_memory op) (\<lambda>memorySize.
     a_bind (a_mask ErrOutOfGas (g env memorySize)) (\<lambda>dynamicCost.
     a_bind (charge dynamicCost) (\<lambda>_.
       if memorySize > 0 then a_mem (\<lambda>m. Ret (mem_Resize m memorySize)) else a_ret ())))"

text \<open>\<open>pc++\<close> at the end of a round.\<close>

definition next_pc :: "bytes \<Rightarrow> bytes act" where
  "next_pc res = a_bind (a_frame fr_pc) (\<lambda>pc. a_bind (a_pc (pc + 1)) (\<lambda>_. a_ret res))"

definition interp_step :: "JumpTable \<Rightarrow> env \<Rightarrow> runner \<Rightarrow> bytes act" where
  "interp_step tbl env run =
     a_bind (a_frame (\<lambda>fr. GetOp (fr_Contract fr) (fr_pc fr))) (\<lambda>opcode.
     case tbl opcode of
       None \<Rightarrow> a_panic NilDereference
     | Some op \<Rightarrow>
         a_bind (a_frame (\<lambda>fr. int (length (fr_Stack fr)))) (\<lambda>sLen.
         if sLen < op_minStack op then a_err (ErrStackUnderflow sLen (op_minStack op))
         else if sLen > op_maxStack op then a_err (ErrStackOverflow sLen (op_maxStack op))
         else
           a_bind (charge (constantGas op)) (\<lambda>_.
           a_bind (case dynamicGas op of None \<Rightarrow> a_ret () | Some g \<Rightarrow> dynamic_step env op g) (\<lambda>_.
           a_bind (execute op env run) next_pc))))"

section \<open>The loop and Run\<close>

text \<open>The loop ends with the error of an operation, which may be the stop token, and its bytes.\<close>

primrec interp_loop :: "nat \<Rightarrow> bytes act \<Rightarrow> evm \<Rightarrow> frame \<Rightarrow> ((vm_error \<times> bytes) \<times> evm \<times> frame) go" where
  "interp_loop 0 step e fr = OutOfFuel"
| "interp_loop (Suc n) step e fr =
     go_bind (step e fr) (\<lambda>(r, e, fr).
       case r of Inl stop \<Rightarrow> Ret (stop, e, fr) | Inr res \<Rightarrow> interp_loop n step e fr)"

definition new_frame :: "contract \<Rightarrow> bytes \<Rightarrow> frame" where
  "new_frame c input = \<lparr>fr_pc = 0, fr_Stack = [], fr_Memory = NewMemory, fr_Contract = c\<lparr>c_Input := input\<rparr>\<rparr>"

text \<open>\<open>Run\<close> around its loop: depth, read-only flag and return data; the deferred functions restore the first two.\<close>

definition run_with :: "(evm \<Rightarrow> frame \<Rightarrow> ((vm_error \<times> bytes) \<times> evm \<times> frame) go) \<Rightarrow> runner" where
  "run_with loop c input ro e =
     (let e = e\<lparr>evm_depth := evm_depth e + 1\<rparr>;
          set = (ro \<and> \<not> readOnly e);
          e = (if set then e\<lparr>readOnly := True\<rparr> else e);
          e = e\<lparr>returnData := []\<rparr>;
          leave = (\<lambda>e. let e = (if set then e\<lparr>readOnly := False\<rparr> else e) in e\<lparr>evm_depth := evm_depth e - 1\<rparr>)
      in if c_Code c = [] then Ret (([], None), c, leave e)
         else go_bind (loop e (new_frame c input)) (\<lambda>((err, res), e, fr).
           Ret ((res, if err = errStopToken then None else Some err), fr_Contract fr, leave e)))"

primrec Run :: "JumpTable \<Rightarrow> env \<Rightarrow> nat \<Rightarrow> runner" where
  "Run tbl env 0 = (\<lambda>c input ro e. OutOfFuel)"
| "Run tbl env (Suc n) = run_with (interp_loop (Suc n) (interp_step tbl env (Run tbl env n)))"

section \<open>What a round does\<close>

abbreviation (input) table_ok :: "JumpTable \<Rightarrow> bool" where
  "table_ok tbl \<equiv> \<forall>i. \<exists>op. tbl i = Some op \<and> op_ok op"

context evm_relation begin

lemma pres_charge: "pres R (charge g)"
  unfolding charge_def by (intro pres_base)

lemma pres_needed: "pres R (needed_memory op)"
  unfolding needed_memory_def by (intro pres_base pres_checked)

lemma pres_dynamic: "(\<And>n. pres R (g env n)) \<Longrightarrow> pres R (dynamic_step env op g)"
  unfolding dynamic_step_def by (intro pres_base pres_charge pres_needed)

end

context call_relation begin

lemma pres_step:
  assumes t: "table_ok tbl" and run: "runner env run"
  shows "pres R (interp_step tbl env run)"
proof -
  have "pres R (execute op env run)" and "\<And>g n. dynamicGas op = Some g \<Longrightarrow> pres R (g env n)" if "op_ok op" for op
    using that run call_relation_axioms unfolding op_ok_def lawful_def gas_fn_ok_def by blast+
  then show ?thesis
    unfolding interp_step_def next_pc_def using t
    by (intro pres_base pres_charge) (metis option.sel option.distinct(1) pres_dynamic)+
qed

end

lemma charge_Ret:
  "charge g e fr = Ret (r, e', fr') \<longleftrightarrow> e' = e \<and>
     (if gas_of fr < g then r = Inl (ErrOutOfGas, []) \<and> fr' = fr
      else r = Inr () \<and> fr' = fr\<lparr>fr_Contract := (fr_Contract fr)\<lparr>c_Gas := gas_of fr - g\<rparr>\<rparr>)"
  by (auto simp: charge_def a_bind_Ret act_Ret UseGas_def)

lemma charge_ok:
  "charge g e fr = Ret (Inr u, e', fr') \<Longrightarrow>
     e' = e \<and> unat (gas_of fr') + unat g = unat (gas_of fr) \<and> fr_Stack fr' = fr_Stack fr"
  by (auto simp: charge_Ret not_less unat_sub_le word_le_nat_alt split: if_splits)

lemma needed_memory_Ret: "needed_memory op e fr = Ret (r, e', fr') \<Longrightarrow> e' = e \<and> fr' = fr"
  by (auto simp: needed_memory_def a_bind_Ret act_Ret a_go_def split: option.splits if_splits)

lemma a_mask_Inr: "a_mask err m e fr = Ret (Inr x, e', fr') \<longleftrightarrow> m e fr = Ret (Inr x, e', fr')"
  by (cases "m e fr") (auto simp: a_mask_def split: sum.splits)

lemma resize_Ret:
  "(if b then a_mem (\<lambda>m. Ret (mem_Resize m n)) else a_ret ()) e fr = Ret (r, e', fr') \<Longrightarrow>
     e' = e \<and> fr_Contract fr' = fr_Contract fr \<and> fr_Stack fr' = fr_Stack fr"
  by (auto simp: a_mem_def a_ret_def split: if_splits)

lemma dynamic_step_ok:
  assumes "dynamic_step env op g e fr = Ret (Inr u, e', fr')"
  shows "\<exists>n cost fr1. g env n e fr = Ret (Inr cost, e', fr1) \<and>
     unat (gas_of fr') + unat cost = unat (gas_of fr1) \<and> fr_Stack fr' = fr_Stack fr1"
  using assms unfolding dynamic_step_def a_bind_Ret
  by (fastforce simp: a_mask_Inr dest!: needed_memory_Ret charge_ok resize_Ret)

text \<open>The charges of a round, before the operation is executed.\<close>

definition round_charge :: "env \<Rightarrow> operation \<Rightarrow> unit act" where
  "round_charge env op =
     a_bind (charge (constantGas op)) (\<lambda>_. case dynamicGas op of None \<Rightarrow> a_ret () | Some g \<Rightarrow> dynamic_step env op g)"

definition call_allowance :: "bool \<Rightarrow> evm \<Rightarrow> frame \<Rightarrow> nat" where
  "call_allowance t e fr = unat (callGasTemp e) + (if t \<and> fr_Stack fr ! 2 \<noteq> 0 then 2300 else 0)"

lemma round_charge_ok:
  assumes op: "op_ok op" and r: "round_charge env op e fr = Ret (Inr u, e', fr')"
  shows "gas_of fr' \<le> gas_of fr"
    "0 < constantGas op \<or> (\<exists>g. dynamicGas op = Some g \<and> charges g) \<Longrightarrow> gas_of fr' < gas_of fr"
    "dynamicGas op = Some g \<Longrightarrow> call_cost t g \<Longrightarrow> 0 < constantGas op \<Longrightarrow>
       unat (gas_of fr') + call_allowance t e' fr' < unat (gas_of fr)"
proof -
  obtain fr0 where 0: "charge (constantGas op) e fr = Ret (Inr (), e, fr0)"
    and d: "(case dynamicGas op of None \<Rightarrow> a_ret () | Some g \<Rightarrow> dynamic_step env op g) e fr0 = Ret (Inr u, e', fr')"
    using r unfolding round_charge_def a_bind_Ret by (auto dest: charge_ok)
  have c: "unat (gas_of fr0) + unat (constantGas op) = unat (gas_of fr)" "fr_Stack fr0 = fr_Stack fr"
    using charge_ok [OF 0] by simp_all
  have n: "dynamicGas op = None \<Longrightarrow> fr' = fr0" using d by (auto simp: a_ret_def)
  have s: "\<exists>n cost fr1. g env n e fr0 = Ret (Inr cost, e', fr1) \<and>
      unat (gas_of fr') + unat cost = unat (gas_of fr1) \<and> fr_Stack fr' = fr_Stack fr1" if "dynamicGas op = Some g" for g
    using dynamic_step_ok [of env op g] d that by simp
  have le: "gas_of fr1 \<le> gas_of fr0" if "dynamicGas op = Some g" "g env n e fr0 = Ret (Inr cost, e', fr1)" for g n cost fr1
  proof -
    have "pres (\<lambda>s t. gas_of (snd t) \<le> gas_of (snd s)) (g env n)"
      using op that(1) unfolding op_ok_def gas_fn_ok_def by blast
    from presD [OF this that(2)] show ?thesis by simp
  qed
  have 1: "unat (gas_of fr') \<le> unat (gas_of fr0)"
  proof (cases "dynamicGas op")
    case None
    then show ?thesis using n by simp
  next
    case (Some g)
    from s [OF Some] obtain n cost fr1 where x: "g env n e fr0 = Ret (Inr cost, e', fr1)"
      "unat (gas_of fr') + unat cost = unat (gas_of fr1)" by blast
    show ?thesis using le [OF Some x(1)] x(2) by (simp add: word_le_nat_alt)
  qed
  then show "gas_of fr' \<le> gas_of fr" using c unfolding word_le_nat_alt by linarith
  have paid: "unat (gas_of fr') < unat (gas_of fr0)" if g: "dynamicGas op = Some g" "charges g" for g
  proof -
    obtain n cost fr1 where x: "g env n e fr0 = Ret (Inr cost, e', fr1)" "unat (gas_of fr') + unat cost = unat (gas_of fr1)"
      using s [OF g(1)] by blast
    have "0 < cost" using g(2) x(1) unfolding charges_def by (blast dest: ret_allD)
    then show ?thesis using x(2) le [OF g(1) x(1)] by (simp add: word_le_nat_alt word_less_nat_alt)
  qed
  show "gas_of fr' < gas_of fr" if "0 < constantGas op \<or> (\<exists>g. dynamicGas op = Some g \<and> charges g)"
    using that
  proof
    assume "0 < constantGas op"
    then show ?thesis using 1 c(1) by (simp add: word_less_nat_alt)
  next
    assume "\<exists>g. dynamicGas op = Some g \<and> charges g"
    then have "unat (gas_of fr') < unat (gas_of fr0)"
      using paid by blast
    then show ?thesis using c(1) by (simp add: word_less_nat_alt)
  qed
  show "unat (gas_of fr') + call_allowance t e' fr' < unat (gas_of fr)"
    if g: "dynamicGas op = Some g" "call_cost t g" "0 < constantGas op"
  proof -
    obtain n cost fr1 where x: "g env n e fr0 = Ret (Inr cost, e', fr1)" "unat (gas_of fr') + unat cost = unat (gas_of fr1)"
      "fr_Stack fr' = fr_Stack fr1" using s [OF g(1)] by blast
    have "c_Gas (fr_Contract fr1) = gas_of fr0 \<and> fr_Stack fr1 = fr_Stack fr0 \<and>
        unat (callGasTemp e') + (if t \<and> fr_Stack fr0 ! 2 \<noteq> 0 then 9000 else 0) \<le> unat cost"
      using g(2) x(1) unfolding call_cost_def by blast
    then have "call_allowance t e' fr' \<le> unat cost" "gas_of fr1 = gas_of fr0"
      using x(3) by (auto simp: call_allowance_def split: if_splits)
    then show ?thesis using x(2) c(1) g(3) by (simp add: word_less_nat_alt)
  qed
qed

text \<open>A round does not increase the gas, and decreases it if the frame goes on.\<close>

lemma interp_step_rounds:
  "interp_step tbl env run e fr =
     (case tbl (GetOp (fr_Contract fr) (fr_pc fr)) of
        None \<Rightarrow> Panic NilDereference
      | Some op \<Rightarrow>
          if int (length (fr_Stack fr)) < op_minStack op
          then Ret (Inl (ErrStackUnderflow (int (length (fr_Stack fr))) (op_minStack op), []), e, fr)
          else if int (length (fr_Stack fr)) > op_maxStack op
          then Ret (Inl (ErrStackOverflow (int (length (fr_Stack fr))) (op_maxStack op), []), e, fr)
          else a_bind (round_charge env op) (\<lambda>_. a_bind (execute op env run) next_pc) e fr)"
proof -
  have assoc: "a_bind (a_bind m f) g e fr = a_bind m (\<lambda>x. a_bind (f x) g) e fr"
    for m :: "unit act" and f :: "unit \<Rightarrow> unit act" and g :: "unit \<Rightarrow> bytes act"
    by (cases "m e fr") (auto simp: a_bind_def case_prod_beta split: sum.split)
  show ?thesis
    by (simp add: interp_step_def a_bind_def [where m = "a_frame f" for f] a_frame_def a_panic_def a_err_def a_fail_def
        round_charge_def assoc split: option.split)
qed

lemma next_pc: "next_pc res e fr = Ret (Inr res, e, fr\<lparr>fr_pc := fr_pc fr + 1\<rparr>)"
  by (simp add: next_pc_def a_bind_def a_frame_def a_pc_def a_ret_def)

lemma after_Ret:
  "a_bind m next_pc e fr = Ret (r, e', fr') \<longleftrightarrow>
     (\<exists>fr1. m e fr = Ret (r, e', fr1) \<and> fr' = (case r of Inl _ \<Rightarrow> fr1 | Inr _ \<Rightarrow> fr1\<lparr>fr_pc := fr_pc fr1 + 1\<rparr>))"
  "a_bind m next_pc e fr = OutOfFuel \<longleftrightarrow> m e fr = OutOfFuel"
  unfolding a_bind_Ret a_bind_OutOfFuel next_pc by (cases r; auto)+

lemma op_okD:
  assumes "op_ok op"
  shows "dynamicGas op = Some g \<Longrightarrow> nofuel (g env n)"
    "dynamicGas op = Some g \<Longrightarrow> pres (\<lambda>s t. gas_of (snd t) \<le> gas_of (snd s)) (g env n)"
    "memorySize op = Some f \<Longrightarrow> returns_fuel (f st)" "progress op"
  using assms unfolding op_ok_def gas_fn_ok_def mem_fn_ok_def by blast+

lemma progress_cases:
  assumes "op_ok op"
  obtains (ordinary) "ordinary (execute op)"
      "0 < constantGas op \<or> (\<exists>g. dynamicGas op = Some g \<and> charges g) \<or> halting (execute op)"
    | (calling) t g where "calling t (execute op)" "dynamicGas op = Some g" "call_cost t g" "0 < constantGas op"
  using op_okD(4) [OF assms] unfolding progress_def by blast

lemma pres_round_charge: "op_ok op \<Longrightarrow> pres (\<lambda>s t. gas_of (snd t) \<le> gas_of (snd s)) (round_charge env op)"
  unfolding round_charge_def by (intro gas_left.pres_base gas_left.pres_charge gas_left.pres_dynamic op_okD(2))

lemma nofuel_mask: "nofuel m \<Longrightarrow> nofuel (a_mask err m)"
  by (auto simp: nofuel_def a_mask_def)

lemma nofuel_round_charge: "op_ok op \<Longrightarrow> nofuel (round_charge env op)"
  unfolding round_charge_def dynamic_step_def needed_memory_def charge_def
  by (cases "memorySize op"; cases "dynamicGas op")
    (auto intro!: nofuel_rules nofuel_mask nofuel_gas_parts returns_fuel_simps intro: op_okD)

lemma step_Ret:
  assumes "table_ok tbl" "interp_step tbl env run e fr = Ret (r, e', fr')"
  shows "(\<exists>err. r = Inl err) \<and> gas_of fr' \<le> gas_of fr \<or>
    (\<exists>op e1 fr1 fr2. op_ok op \<and> round_charge env op e fr = Ret (Inr (), e1, fr1) \<and>
      execute op env run e1 fr1 = Ret (r, e', fr2) \<and> gas_of fr' = gas_of fr2)"
proof -
  obtain op where op: "tbl (GetOp (fr_Contract fr) (fr_pc fr)) = Some op" "op_ok op" using assms(1) by blast
  have *: "?thesis" if "a_bind (round_charge env op) (\<lambda>_. a_bind (execute op env run) next_pc) e fr = Ret (r, e', fr')"
    using that unfolding a_bind_Ret [where m = "round_charge env op"] after_Ret
  proof (elim disjE exE conjE)
    fix err assume "round_charge env op e fr = Ret (Inl err, e', fr')" "r = Inl err"
    then show ?thesis using presD [OF pres_round_charge [OF op(2)]] by fastforce
  next
    fix x e1 fr1 fr2
    assume "round_charge env op e fr = Ret (Inr x, e1, fr1)" "execute op env run e1 fr1 = Ret (r, e', fr2)"
      "fr' = (case r of Inl _ \<Rightarrow> fr2 | Inr _ \<Rightarrow> fr2\<lparr>fr_pc := fr_pc fr2 + 1\<rparr>)"
    moreover from this(3) have "gas_of fr' = gas_of fr2" by (cases r) simp_all
    ultimately show ?thesis using op(2) by auto
  qed
  show ?thesis
    using assms(2) * by (auto simp: interp_step_rounds op split: if_splits)
qed

lemma step_gas:
  assumes t: "table_ok tbl" and run: "runner env run" and r: "interp_step tbl env run e fr = Ret (r, e', fr')"
  shows "gas_of fr' \<le> gas_of fr \<and> (\<forall>x. r = Inr x \<longrightarrow> gas_of fr' < gas_of fr)"
  using step_Ret [OF t r]
proof (elim disjE exE conjE)
  fix op e1 fr1 fr2
  assume op: "op_ok op" and c: "round_charge env op e fr = Ret (Inr (), e1, fr1)"
    and x: "execute op env run e1 fr1 = Ret (r, e', fr2)" and g: "gas_of fr' = gas_of fr2"
  from op show ?thesis
  proof (cases rule: progress_cases)
    case ordinary
    note o = this(1) and p = this(2)
    have le: "gas_of fr2 \<le> gas_of fr1" using o run x unfolding ordinary_def by (fastforce dest: go_allD)
    have "r \<noteq> Inr y" if "halting (execute op)" for y using that x unfolding halting_def by (fastforce dest: go_allD)
    then show ?thesis using le g p round_charge_ok(1,2) [OF op c] by auto
  next
    case (calling t g0)
    note k = this
    have "unat (gas_of fr2) \<le> unat (gas_of fr1) + call_allowance t e1 fr1"
      using k(1) run x unfolding calling_def Let_def call_allowance_def by (fastforce dest: go_allD)
    also have "\<dots> < unat (gas_of fr)" by (rule round_charge_ok(3) [OF op c k(2-4)])
    finally show ?thesis using g by (simp add: word_less_nat_alt word_le_nat_alt)
  qed
qed auto

lemma step_fuel:
  assumes t: "table_ok tbl" and run: "runner env run" and r: "interp_step tbl env run e fr = OutOfFuel"
  shows "\<exists>c input ro e1. run c input ro e1 = OutOfFuel \<and> unat (c_Gas c) < unat (gas_of fr)"
proof -
  obtain op where op: "tbl (GetOp (fr_Contract fr) (fr_pc fr)) = Some op" "op_ok op" using t by blast
  have "a_bind (round_charge env op) (\<lambda>_. a_bind (execute op env run) next_pc) e fr = OutOfFuel"
    using r by (auto simp: interp_step_rounds op split: if_splits)
  then obtain e1 fr1 where c: "round_charge env op e fr = Ret (Inr (), e1, fr1)" and x: "execute op env run e1 fr1 = OutOfFuel"
    using nofuel_round_charge [OF op(2)] unfolding a_bind_OutOfFuel [where m = "round_charge env op"] after_Ret nofuel_def by auto
  have *: ?thesis if "fuel_from run k" "k < unat (gas_of fr)" for k
    using that unfolding fuel_from_def by (meson le_less_trans)
  from op(2) show ?thesis
  proof (cases rule: progress_cases)
    case ordinary
    note o = this(1) and p = this(2)
    have "\<not> halting (execute op)" using x unfolding halting_def by blast
    then have "unat (gas_of fr1) < unat (gas_of fr)"
      using p round_charge_ok(2) [OF op(2) c] by (simp add: word_less_nat_alt)
    moreover have "fuel_from run (unat (gas_of fr1))" using o run x unfolding ordinary_def asks_def by blast
    ultimately show ?thesis by (rule * [rotated])
  next
    case (calling t g0)
    note k = this
    have "fuel_from run (call_allowance t e1 fr1)"
      using k(1) run x unfolding calling_def Let_def call_allowance_def asks_def by blast
    moreover have "call_allowance t e1 fr1 < unat (gas_of fr)"
      using round_charge_ok(3) [OF op(2) c k(2-4)] by simp
    ultimately show ?thesis by (rule *)
  qed
qed

section \<open>The stack in a round\<close>

lemma stk_needed:
  assumes "\<And>f. memorySize op = Some f \<Longrightarrow> mem_fn_ok k f" "k \<le> l"
  shows "stk l (needed_memory op) l"
proof (cases "memorySize op")
  case None
  then show ?thesis by (simp add: needed_memory_def stk_simple)
next
  case (Some f)
  have f: "no_stack_panic (f st)" if "length st = l" for st using assms Some that by (simp add: mem_fn_ok_def)
  show ?thesis
  proof (rule stkI)
    fix e and fr :: frame assume l: "length (fr_Stack fr) = l"
    show "needed_memory op e fr \<noteq> Panic StackIndexOutOfRange"
      using f [OF l] unfolding needed_memory_def Some
      by (cases "f (fr_Stack fr)")
        (auto simp: a_bind_def a_frame_def a_go_def no_stack_panic_def checked_def a_err_def a_fail_def a_ret_def
          split: if_splits)
    show "length (fr_Stack fr') = l" if "needed_memory op e fr = Ret (Inr x, e', fr')" for x e' fr'
      using needed_memory_Ret [OF that] l by simp
  qed
qed

lemma stk_round_charge:
  assumes "op_ok op" "op_minStack op \<le> int l"
  shows "stk l (round_charge env op) l"
proof -
  obtain k q where k: "op_minStack op = minStack k q" "\<And>g. dynamicGas op = Some g \<Longrightarrow> gas_fn_ok k g"
    "\<And>f. memorySize op = Some f \<Longrightarrow> mem_fn_ok k f" using assms(1) unfolding op_ok_def by blast
  have l: "k \<le> l" using assms(2) k(1) by (simp add: minStack_def)
  have g: "stk l (g env n) l" if "dynamicGas op = Some g" for g n
    using k(2) [OF that] l by (simp add: gas_fn_ok_def gas_needs_def)
  have c: "stk l (charge x) l" for x unfolding charge_def by (rule stk_rules)+
  show ?thesis
    unfolding round_charge_def dynamic_step_def
    by (cases "dynamicGas op")
      (auto intro!: stk_bind c stk_needed [OF k(3) l] stk_mask g stk_if stk_mem stk_simple(1))
qed

lemma step_stack:
  assumes t: "table_ok tbl" and run: "safe_runner run" and l: "length (fr_Stack fr) \<le> 1024"
  shows "no_stack_panic (interp_step tbl env run e fr)"
    "interp_step tbl env run e fr = Ret (Inr x, e', fr') \<Longrightarrow> length (fr_Stack fr') \<le> 1024"
proof -
  obtain op where op: "tbl (GetOp (fr_Contract fr) (fr_pc fr)) = Some op" "op_ok op" using t by blast
  obtain k q where k: "op_minStack op = minStack k q" "op_maxStack op = maxStack k q" "heights k q (execute op)"
    using op(2) unfolding op_ok_def by blast
  let ?m = "a_bind (round_charge env op) (\<lambda>_. a_bind (execute op env run) next_pc)"
  have s: "stk (length (fr_Stack fr)) ?m (q + (length (fr_Stack fr) - k))"
    if "\<not> int (length (fr_Stack fr)) < op_minStack op"
  proof -
    have kl: "k + (length (fr_Stack fr) - k) = length (fr_Stack fr)" using that k(1) by (simp add: minStack_def)
    have x: "stk (length (fr_Stack fr)) (execute op env run) (q + (length (fr_Stack fr) - k))"
      using k(3) run kl unfolding heights_def by metis
    have n: "stk j (next_pc res) j" for j res unfolding next_pc_def by (rule stk_rules)+
    show ?thesis using that by (intro stk_bind [OF stk_round_charge [OF op(2)]] stk_bind [OF x] n) simp
  qed
  show "no_stack_panic (interp_step tbl env run e fr)"
    using stkD(1) [OF s refl] by (auto simp: interp_step_rounds op no_stack_panic_def)
  assume r: "interp_step tbl env run e fr = Ret (Inr x, e', fr')"
  then have b: "\<not> int (length (fr_Stack fr)) < op_minStack op" "\<not> int (length (fr_Stack fr)) > op_maxStack op"
    "?m e fr = Ret (Inr x, e', fr')"
    by (auto simp: interp_step_rounds op split: if_splits)
  have "length (fr_Stack fr') = q + (length (fr_Stack fr) - k)" using stkD(2) [OF s [OF b(1)] refl b(3)] .
  then show "length (fr_Stack fr') \<le> 1024" using b(1,2) k(1,2) by (simp add: minStack_def maxStack_def)
qed

section \<open>What a run guarantees\<close>

interpretation call_frames: call_relation "\<lambda>s t. call_rel env (readOnly (fst s)) (fst s) (fst t)" env for env
proof
  fix s t u :: evm_state
  assume "call_rel env (readOnly (fst s)) (fst s) (fst t)" "call_rel env (readOnly (fst t)) (fst t) (fst u)"
  moreover from this(1) have "readOnly (fst t) = readOnly (fst s)" by (simp add: call_rel_def)
  ultimately show "call_rel env (readOnly (fst s)) (fst s) (fst u)" using call_rel_trans by simp
next
  fix e :: evm and fr :: frame and s
  assume "sdb_ok (evm_StateDB e) \<Longrightarrow> aux (env_db env) (evm_StateDB e) s"
  then show "call_rel env (readOnly (fst (e, fr))) (fst (e, fr)) (fst (e\<lparr>evm_StateDB := s\<rparr>, fr))"
    by (auto simp: call_rel_def aux_def intro: advances_extends static_same_aux)
next
  fix e :: evm and fr :: frame and s
  assume "\<not> readOnly e" "sdb_ok (evm_StateDB e) \<Longrightarrow> advances (env_db env) (evm_StateDB e) s"
  then show "call_rel env (readOnly (fst (e, fr))) (fst (e, fr)) (fst (e\<lparr>evm_StateDB := s\<rparr>, fr))"
    by (auto simp: call_rel_def intro: advances_extends)
qed (auto simp: call_rel_def)

text \<open>Facts about the loop follow from facts about its rounds.\<close>

lemma loop_rel:
  assumes "\<And>e fr r e' fr'. step e fr = Ret (r, e', fr') \<Longrightarrow> R (e, fr) (e', fr')"
    and "\<And>s t u. R s t \<Longrightarrow> R t u \<Longrightarrow> R s u"
  shows "interp_loop n step e fr = Ret (stop, e', fr') \<Longrightarrow> R (e, fr) (e', fr')"
proof (induction n arbitrary: e fr)
  case (Suc n)
  then obtain r e1 fr1 where s: "step e fr = Ret (r, e1, fr1)"
    and k: "(case r of Inl stop \<Rightarrow> Ret (stop, e1, fr1) | Inr res \<Rightarrow> interp_loop n step e1 fr1) = Ret (stop, e', fr')"
    by auto
  show ?case
  proof (cases r)
    case (Inl err)
    then show ?thesis using assms(1) [OF s] k by simp
  next
    case (Inr res)
    then show ?thesis using assms(2) [OF assms(1) [OF s] Suc.IH] k by simp
  qed
qed simp

lemma loop_stack:
  assumes "\<And>e fr. length (fr_Stack fr) \<le> 1024 \<Longrightarrow> no_stack_panic (step e fr)"
    and "\<And>e fr x e' fr'. length (fr_Stack fr) \<le> 1024 \<Longrightarrow> step e fr = Ret (Inr x, e', fr') \<Longrightarrow> length (fr_Stack fr') \<le> 1024"
  shows "length (fr_Stack fr) \<le> 1024 \<Longrightarrow> no_stack_panic (interp_loop n step e fr)"
proof (induction n arbitrary: e fr)
  case (Suc n)
  show ?case
  proof (cases "step e fr")
    case (Ret x)
    obtain r e1 fr1 where x: "x = (r, e1, fr1)" by (cases x)
    show ?thesis using Ret Suc.IH assms(2) [OF Suc.prems] by (cases r) (auto simp: x)
  qed (use assms(1) [OF Suc.prems, of e] in \<open>auto simp: no_stack_panic_def\<close>)
qed simp

lemma loop_fuel:
  assumes out: "\<And>e fr. unat (gas_of fr) \<le> m \<Longrightarrow> step e fr \<noteq> OutOfFuel"
    and dec: "\<And>e fr x e' fr'. step e fr = Ret (Inr x, e', fr') \<Longrightarrow> gas_of fr' < gas_of fr"
  shows "unat (gas_of fr) < n \<Longrightarrow> unat (gas_of fr) \<le> m \<Longrightarrow> interp_loop n step e fr \<noteq> OutOfFuel"
proof (induction n arbitrary: e fr)
  case (Suc n)
  show ?case
  proof
    assume "interp_loop (Suc n) step e fr = OutOfFuel"
    then obtain r e1 fr1 where s0: "step e fr = Ret (r, e1, fr1)"
      and k0: "(case r of Inl stop \<Rightarrow> Ret (stop, e1, fr1) | Inr res \<Rightarrow> interp_loop n step e1 fr1) = OutOfFuel"
      using out [OF Suc.prems(2), of e] by auto
    obtain x where s: "step e fr = Ret (Inr x, e1, fr1)" and k: "interp_loop n step e1 fr1 = OutOfFuel"
      using s0 k0 by (cases r) auto
    have "unat (gas_of fr1) < unat (gas_of fr)" using dec [OF s] by (simp add: word_less_nat_alt)
    then show False using Suc.IH [of fr1 e1] Suc.prems k by simp
  qed
qed simp

text \<open>How \<open>Run\<close> enters and leaves its loop.\<close>

lemma run_with_Ret:
  assumes "run_with loop c input ro e = Ret ((ret, err), c', e')"
  shows "c' = c \<and> call_rel env (readOnly e \<or> ro) e e' \<or>
    (\<exists>e1 e2 fr stop. loop e1 (new_frame c input) = Ret (stop, e2, fr) \<and> c' = fr_Contract fr \<and>
      (call_rel env (readOnly e1) e1 e2 \<longrightarrow> call_rel env (readOnly e \<or> ro) e e'))"
proof (cases "c_Code c = []")
  case True
  have "c' = c \<and> call_rel env (readOnly e \<or> ro) e e'"
    using assms True by (cases ro; cases "readOnly e") (auto simp: run_with_def Let_def call_rel_def)
  then show ?thesis by blast
next
  case False
  define e1 where "e1 = (if ro \<and> \<not> readOnly e then e\<lparr>evm_depth := evm_depth e + 1, readOnly := True\<rparr>
      else e\<lparr>evm_depth := evm_depth e + 1\<rparr>)\<lparr>returnData := []\<rparr>"
  have r1: "readOnly e1 = (readOnly e \<or> ro)" "evm_depth e1 = evm_depth e + 1" "evm_StateDB e1 = evm_StateDB e"
    by (auto simp: e1_def)
  have eq: "run_with loop c input ro e = go_bind (loop e1 (new_frame c input)) (\<lambda>((err, res), e2, fr).
      Ret ((res, if err = errStopToken then None else Some err), fr_Contract fr,
        (if ro \<and> \<not> readOnly e then e2\<lparr>readOnly := False\<rparr> else e2)\<lparr>evm_depth := evm_depth e2 - 1\<rparr>))"
    using False by (cases ro; cases "readOnly e") (simp_all add: run_with_def Let_def e1_def)
  obtain stop e2 fr where l: "loop e1 (new_frame c input) = Ret (stop, e2, fr)" "c' = fr_Contract fr"
    "e' = (if ro \<and> \<not> readOnly e then e2\<lparr>readOnly := False\<rparr> else e2)\<lparr>evm_depth := evm_depth e2 - 1\<rparr>"
    using assms unfolding eq by (auto simp: case_prod_beta)
  have "call_rel env (readOnly e \<or> ro) e e'" if "call_rel env (readOnly e1) e1 e2"
    using that r1 by (auto simp: call_rel_def l(3))
  then show ?thesis using l by blast
qed

lemma run_with_other:
  "(\<And>e1. no_stack_panic (loop e1 (new_frame c input))) \<Longrightarrow> no_stack_panic (run_with loop c input ro e)"
  "(\<And>e1. loop e1 (new_frame c input) \<noteq> OutOfFuel) \<Longrightarrow> run_with loop c input ro e \<noteq> OutOfFuel"
  by (auto simp: run_with_def Let_def no_stack_panic_def)

lemma Run_laws:
  assumes t: "table_ok tbl"
  shows "runner env (Run tbl env n) \<and> safe_runner (Run tbl env n) \<and>
    (\<forall>c input ro e. unat (c_Gas c) < n \<longrightarrow> Run tbl env n c input ro e \<noteq> OutOfFuel)"
proof (induction n)
  case 0
  show ?case by (simp add: runner_def safe_runner_def)
next
  case (Suc n)
  let ?run = "Run tbl env n" let ?step = "interp_step tbl env ?run"
  have run: "runner env ?run" and safe: "safe_runner ?run"
    and fuel: "\<And>c input ro e. unat (c_Gas c) < n \<Longrightarrow> ?run c input ro e \<noteq> OutOfFuel"
    using Suc by blast+
  have "runner env (Run tbl env (Suc n))"
  proof
    fix c input ro e ret err c' e' assume r: "Run tbl env (Suc n) c input ro e = Ret ((ret, err), c', e')"
    have gas: "gas_of fr' \<le> gas_of fr" if "interp_loop (Suc n) ?step e1 fr = Ret (stop, e2, fr')" for e1 fr stop e2 fr'
      using loop_rel [where R = "\<lambda>s t. gas_of (snd t) \<le> gas_of (snd s)", OF _ _ that] step_gas [OF t run]
      by (fastforce intro: order_trans)
    have rel: "call_rel env (readOnly e1) e1 e2" if "interp_loop (Suc n) ?step e1 fr = Ret (stop, e2, fr')" for e1 fr stop e2 fr'
    proof -
      have "call_rel env (readOnly (fst (e1, fr))) (fst (e1, fr)) (fst (e2, fr'))"
        by (rule loop_rel [where R = "\<lambda>s t. call_rel env (readOnly (fst s)) (fst s) (fst t)", OF _ _ that])
          (rule presD [OF call_frames.pres_step [OF t run]], assumption, rule call_frames.R_trans)
      then show ?thesis by simp
    qed
    from run_with_Ret [where env = env, OF r [unfolded Run.simps]] show "unat (c_Gas c') \<le> unat (c_Gas c) \<and> call_rel env (readOnly e \<or> ro) e e'"
    proof (elim disjE exE conjE)
      fix e1 e2 fr stop
      assume l: "interp_loop (Suc n) ?step e1 (new_frame c input) = Ret (stop, e2, fr)" and "c' = fr_Contract fr"
        and "call_rel env (readOnly e1) e1 e2 \<longrightarrow> call_rel env (readOnly e \<or> ro) e e'"
      then show ?thesis using gas [OF l] rel [OF l] by (simp add: new_frame_def word_le_nat_alt)
    qed simp
  qed
  moreover have "safe_runner (Run tbl env (Suc n))"
  proof -
    have "no_stack_panic (interp_loop (Suc n) ?step e1 (new_frame c input))" for e1 c input
    proof (rule loop_stack)
      show "length (fr_Stack (new_frame c input)) \<le> 1024" by (simp add: new_frame_def)
    qed (use step_stack [OF t safe] in blast)+
    then show ?thesis unfolding safe_runner_def Run.simps by (intro allI run_with_other(1))
  qed
  moreover have "Run tbl env (Suc n) c input ro e \<noteq> OutOfFuel" if g: "unat (c_Gas c) < Suc n" for c input ro e
    unfolding Run.simps
  proof (rule run_with_other(2), rule loop_fuel [where m = n])
    fix e and fr :: frame assume "unat (gas_of fr) \<le> n"
    then show "?step e fr \<noteq> OutOfFuel" using step_fuel [OF t run, of e fr] fuel by (meson less_le_trans)
  qed (use g step_gas [OF t run] in \<open>auto simp: new_frame_def\<close>)
  ultimately show ?case by blast
qed

section \<open>The interpreter of a chain configuration\<close>

text \<open>The table that \<open>NewEVMInterpreter\<close> picks when \<open>Config.ExtraEips\<close> is empty, and \<open>Run\<close> with it.\<close>

definition instruction_set :: "env \<Rightarrow> JumpTable" where
  "instruction_set env = (case NewEVMInterpreter (chainRules env) [] of Ret (jt, _) \<Rightarrow> jt | _ \<Rightarrow> Map.empty)"

definition evm_Run :: "env \<Rightarrow> nat \<Rightarrow> runner" where
  "evm_Run env n = Run (instruction_set env) env n"

lemma instruction_set_ok: "table_ok (instruction_set env)"
  using fork_table_inv [of "chainRules env"] by (auto simp: instruction_set_def NewEVMInterpreter_def)

lemma evm_Run_laws:
  "safe_runner (evm_Run env n)"
  "unat (c_Gas c) < n \<Longrightarrow> evm_Run env n c input ro e \<noteq> OutOfFuel"
  using Run_laws [OF instruction_set_ok] unfolding evm_Run_def by blast+

interpretation evm: runner env "evm_Run env n" for env n
  unfolding evm_Run_def using Run_laws [OF instruction_set_ok] by blast

section \<open>A concrete environment\<close>

text \<open>
  For the witnesses: words for the arithmetic library, one precompiled contract of price 100, every
  fork up to Cancun in force.
\<close>

definition sample_lib :: uint256_lib where
  "sample_lib = \<lparr>u_Div = (div), 
     u_SDiv = (\<lambda>x y. word_of_int (sgn (sint x) * sgn (sint y) * (\<bar>sint x\<bar> div \<bar>sint y\<bar>))),
     u_Mod = (\<lambda>x y. if y = 0 then 0 else x mod y),
     u_SMod = (\<lambda>x y. if y = 0 then 0 else word_of_int (sgn (sint x) * (\<bar>sint x\<bar> mod \<bar>sint y\<bar>))),
     u_AddMod = (\<lambda>x y m. if m = 0 then 0 else of_nat ((unat x + unat y) mod unat m)),
     u_MulMod = (\<lambda>x y m. if m = 0 then 0 else of_nat ((unat x * unat y) mod unat m)), u_Exp = (\<lambda>b n. b ^ unat n),
     u_ExtendSign = (\<lambda>x n. if n < 31 then signed_take_bit (8 * unat n + 7) x else x),
     u_Byte = (\<lambda>x n. if n < 32 then take_bit 8 (drop_bit (8 * (31 - unat n)) x) else 0),
     u_Lsh = (\<lambda>x n. push_bit n x), u_Rsh = (\<lambda>x n. drop_bit n x), u_SRsh = (\<lambda>x n. signed_drop_bit n x),
     u_BitLen = (\<lambda>x. length (takeWhile (\<lambda>n. drop_bit n x \<noteq> 0) [0..<256]))\<rparr>"

definition sample_rules :: rules where
  "sample_rules = \<lparr>IsHomestead = True, IsEIP150 = True, IsEIP155 = True, IsEIP158 = True, IsByzantium = True,
     IsConstantinople = True, IsPetersburg = True, IsIstanbul = True, IsBerlin = True, IsLondon = True, IsMerge = True,
     IsShanghai = True, IsCancun = True, IsPrague = False, IsVerkle = False\<rparr>"

definition sample_precompiles :: "address \<rightharpoonup> precompiled" where
  "sample_precompiles = [1 \<mapsto> \<lparr>RequiredGas = (\<lambda>_. 100), precompiled_Run = (\<lambda>input. Some (input, None))\<rparr>]"

definition sample_env :: env where
  "sample_env = \<lparr>env_lib = sample_lib, env_db = sample_db,
     Context = \<lparr>GetHash = (\<lambda>_. 0), Coinbase = 9, GasLimit = 30000000, BlockNumber = 1, Time = 1, Difficulty = 0,
       BaseFee = Some 7, BlobBaseFee = Some 1, Random = Some 3\<rparr>,
     TxContext = \<lparr>Origin = 5, GasPrice = 7, BlobHashes = []\<rparr>, ChainID = Some 1, chainRules = sample_rules,
     EnablePreimageRecording = False, PrecompiledContractsHomestead = sample_precompiles,
     PrecompiledContractsByzantium = sample_precompiles, PrecompiledContractsIstanbul = sample_precompiles,
     PrecompiledContractsBerlin = sample_precompiles, PrecompiledContractsCancun = sample_precompiles,
     abort_load = (\<lambda>_. False)\<rparr>"

definition sample_evm :: evm where
  "sample_evm = \<lparr>evm_StateDB = sample_state, evm_depth = 0, callGasTemp = 0, readOnly = False, returnData = [],
     evm_jumpdests = Map.empty, evm_loads = 0\<rparr>"

definition sample_contract :: "bytes \<Rightarrow> u64 \<Rightarrow> contract" where
  "sample_contract code gas = (NewContract (AccountRef 5) 6 0 gas)\<lparr>c_Code := code\<rparr>"

lemma sample_evm_ok [simp]: "sdb_ok (evm_StateDB sample_evm)" "revs_ok (evm_StateDB sample_evm)"
  by (simp_all add: sample_evm_def)

section \<open>Properties of the interpreter\<close>

text \<open>
  C17. Every run of the interpreter ends: with more fuel than gas, the interpreter loop, in which each
  round and each nested call takes fuel, never runs out of it, whatever the code, the input and the
  state, infinite loops and recursive calls included. Every round that goes on has used gas.
\<close>

theorem interpreter_terminates:
  assumes "unat (c_Gas c) < n"
  shows "evm_Run env n c input ro e \<noteq> OutOfFuel"
  using assms by (rule evm_Run_laws)

text \<open>The endless loop JUMPDEST, PUSH1 0, JUMP.\<close>

theorem interpreter_terminates_witness:
  "evm_Run sample_env 101 (sample_contract [0x5b, 0x60, 0, 0x56] 100) [] False sample_evm \<noteq> OutOfFuel"
  by (rule interpreter_terminates) (simp add: sample_contract_def NewContract_def)

text \<open>
  C19. No run of the interpreter indexes the stack out of range: the bounds on the stack that the jump
  table gives for an operation cover every access its gas function, its memory size function and its
  execution function make, at every fork.
\<close>

theorem no_stack_index_panic:
  "evm_Run env n c input ro e \<noteq> Panic StackIndexOutOfRange"
  using evm_Run_laws(1) [of env n] by (simp add: safe_runner_def no_stack_panic_def)

text \<open>
  A run never has more gas at its end than at its start, and leaves the call depth and the
  read-only flag of the interpreter as they were.
\<close>

theorem run_never_mints_gas:
  "go_all (\<lambda>((ret, err), c', e'). unat (c_Gas c') \<le> unat (c_Gas c) \<and> evm_depth e' = evm_depth e \<and> readOnly e' = readOnly e)
     (evm_Run env n c input ro e)"
  unfolding go_all_iff by (auto dest!: evm.run_law simp: call_rel_def)

text \<open>
  C18. A call that ends in an error has changed nothing: after \<open>Call\<close>, \<open>CallCode\<close>, \<open>DelegateCall\<close> or
  \<open>StaticCall\<close> returns an error, every answer of the state database is what it was before the call,
  however deep the calls inside went and whatever they wrote, destructed or created.
\<close>

theorem failed_call_undone:
  assumes "sdb_ok (evm_StateDB e)" "revs_ok (evm_StateDB e)"
    and "Ret ((ret, g, Some err), e') \<in> {evm_Call env (evm_Run env n) caller addr input gas val e,
      evm_CallCode env (evm_Run env n) caller addr input gas val e,
      evm_DelegateCall env (evm_Run env n) caller addr input gas e,
      evm_StaticCall env (evm_Run env n) caller addr input gas e}"
  shows "sview (env_db env) (evm_StateDB e') = sview (env_db env) (evm_StateDB e)"
proof -
  have "\<exists>st. call_post env st gas e ((ret, g, Some err), e')"
    using assms(3) evm.Call_law evm.CallCode_law evm.DelegateCall_law evm.StaticCall_law
    unfolding insert_iff empty_iff go_all_iff by metis
  then show ?thesis using assms(1,2) by (auto simp: call_post_def)
qed

text \<open>A transfer of 7 to a precompiled contract that costs more gas than the call has.\<close>

lemma call_precompiled_out_of_gas:
  assumes ok: "sdb_ok (evm_StateDB e)" "revs_ok (evm_StateDB e)" and d: "evm_depth e \<le> 1024" and v: "val \<noteq> 0"
    and can: "fst (CanTransfer (env_db env) (ref_Address caller) val (evm_StateDB e))"
    and p: "precompile env addr = Some pc" "gas < RequiredGas pc input"
  shows "\<exists>e'. evm_Call env run caller addr input gas val e = Ret (([], 0, Some ErrOutOfGas), e')"
proof -
  let ?db = "env_db env"
  define e1 where "e1 = snd (sdb_ask (CanTransfer ?db (ref_Address caller) val) e)"
  define e2 where "e2 = snd (sdb_ask Snapshot e1)"
  define e3 where "e3 = snd (sdb_ask (Exist ?db addr) e2)"
  define e4 where "e4 = (if \<not> fst (sdb_ask (Exist ?db addr) e2) then sdb_do (CreateAccount ?db addr) e3 else e3)"
  define e5 where "e5 = sdb_do (Transfer ?db (ref_Address caller) addr val) e4"
  have 1: "call_rel env False e e1" unfolding e1_def
    by (rule call_rel_ask) (simp add: CanTransfer_same aux_same)
  have 3: "call_rel env False e2 e3" unfolding e3_def by (rule call_rel_ask) (rule aux_queries)
  have 4: "call_rel env False e3 e4" unfolding e4_def
    using call_rel_do [of e3 env "CreateAccount ?db addr" False] CreateAccount_advances by auto
  have 5: "call_rel env False e4 e5" unfolding e5_def by (rule call_rel_do) (simp_all add: Transfer_advances)
  have 25: "call_rel env False e2 e5" using call_rel_trans [OF call_rel_trans [OF 3 4] 5] .
  have ok1: "sdb_ok (evm_StateDB e1)" "revs_ok (evm_StateDB e1)"
    using 1 ok extends_ok extends_revs_ok unfolding call_rel_def by blast+
  have ok2: "sdb_ok (evm_StateDB e2)" "revs_ok (evm_StateDB e2)"
    using call_rel_Snapshot [of env False e1] ok1 extends_ok extends_revs_ok unfolding call_rel_def e2_def by blast+
  have "extends ?db (evm_StateDB e2) (evm_StateDB e5)" using 25 ok2 by (simp add: call_rel_def)
  then have x: "extends ?db (snd (Snapshot (evm_StateDB e1))) (evm_StateDB e5)" by (simp add: e2_def)
  obtain u where "RevertToSnapshot ?db (fst (Snapshot (evm_StateDB e1))) (evm_StateDB e5) = Ret u"
    using revert_restores [OF ok1 x] by blast
  then have "go_bind (call_precompiled pc input gas e5) (settle env (fst (sdb_ask Snapshot e1))) =
      Ret (([], 0, Some ErrOutOfGas), e5\<lparr>evm_StateDB := u\<rparr>)"
    using p(2) by (simp add: settle_def call_precompiled_def RunPrecompiledContract_def)
  moreover have "evm_Call env run caller addr input gas val e =
      go_bind (call_precompiled pc input gas e5) (settle env (fst (sdb_ask Snapshot e1)))"
    using d v p can unfolding evm_Call_def Let_def
    by (simp add: case_prod_beta e1_def e2_def e3_def e4_def e5_def)
  ultimately show ?thesis by (intro exI) simp
qed

theorem failed_call_undone_witness:
  "\<exists>e'. evm_Call sample_env (evm_Run sample_env 51) (AccountRef 5) 1 [] 50 7 sample_evm =
       Ret (([], 0, Some ErrOutOfGas), e') \<and>
     sview sample_db (evm_StateDB e') = sview sample_db sample_state"
proof -
  have "fst (CanTransfer sample_db 5 7 sample_state)" by (simp add: CanTransfer_def sample_values case_prod_beta)
  then obtain e' where c: "evm_Call sample_env (evm_Run sample_env 51) (AccountRef 5) 1 [] 50 7 sample_evm =
      Ret (([], 0, Some ErrOutOfGas), e')"
    using call_precompiled_out_of_gas [of sample_evm 7 sample_env "AccountRef 5" 1 _ 50 "[]" "evm_Run sample_env 51"]
    by (auto simp: sample_env_def sample_evm_def precompile_def sample_rules_def sample_precompiles_def)
  then have m: "Ret (([], 0, Some ErrOutOfGas), e') \<in> {evm_Call sample_env (evm_Run sample_env 51) (AccountRef 5) 1 [] 50 7 sample_evm,
      evm_CallCode sample_env (evm_Run sample_env 51) (AccountRef 5) 1 [] 50 7 sample_evm,
      evm_DelegateCall sample_env (evm_Run sample_env 51) (AccountRef 5) 1 [] 50 sample_evm,
      evm_StaticCall sample_env (evm_Run sample_env 51) (AccountRef 5) 1 [] 50 sample_evm}" by simp
  have "env_db sample_env = sample_db" "evm_StateDB sample_evm = sample_state" by (simp_all add: sample_env_def sample_evm_def)
  then show ?thesis using c failed_call_undone [OF sample_evm_ok m] by auto
qed

text \<open>
  C21. A static call changes nothing that can be read: the nonce, balance, code, storage and
  self-destruct flag of every account, the logs and the transient storage are the same after
  \<open>StaticCall\<close>, and after \<open>Call\<close> without value in a frame that is read-only, however deep the nested
  calls went; at most an account that did not exist is there afterwards, with nothing in it.
\<close>

theorem static_call_changes_nothing:
  assumes "sdb_ok (evm_StateDB e)" "revs_ok (evm_StateDB e)"
    and "evm_StaticCall env (evm_Run env n) caller addr input gas e = Ret (r, e') \<or>
      readOnly e \<and> evm_Call env (evm_Run env n) caller addr input gas 0 e = Ret (r, e')"
  shows "static_same (env_db env) (evm_StateDB e) (evm_StateDB e')"
proof -
  have "call_post env True gas e (r, e')"
    using assms(3)
  proof (elim disjE conjE)
    assume "evm_StaticCall env (evm_Run env n) caller addr input gas e = Ret (r, e')"
    then show ?thesis using evm.StaticCall_law [of env gas e n caller addr input] by (simp only: go_all.simps)
  next
    assume "readOnly e" "evm_Call env (evm_Run env n) caller addr input gas 0 e = Ret (r, e')"
    then show ?thesis using evm.Call_law [of env e 0 gas n caller addr input] by (simp only: go_all.simps simp_thms)
  qed
  then show ?thesis using assms(1,2) by (auto simp: call_post_def call_rel_def split: prod.splits)
qed

theorem static_call_changes_nothing_witness:
  "\<exists>e'. evm_StaticCall sample_env (evm_Run sample_env 151) (AccountRef 5) 1 [7] 150 sample_evm = Ret (([7], 50, None), e') \<and>
     static_same sample_db sample_state (evm_StateDB e')"
proof -
  have "\<exists>e'. evm_StaticCall sample_env (evm_Run sample_env 151) (AccountRef 5) 1 [7] 150 sample_evm = Ret (([7], 50, None), e')"
    by (simp add: evm_StaticCall_def call_code_of_def call_precompiled_def RunPrecompiledContract_def settle_def Let_def case_prod_beta
        sample_env_def sample_evm_def precompile_def sample_rules_def sample_precompiles_def)
  moreover have "env_db sample_env = sample_db" "evm_StateDB sample_evm = sample_state" by (simp_all add: sample_env_def sample_evm_def)
  ultimately show ?thesis
    using static_call_changes_nothing [OF sample_evm_ok, where env = sample_env and n = 151] by metis
qed

definition gas_kept :: "u64 \<Rightarrow> evm \<Rightarrow> u64 \<Rightarrow> evm \<Rightarrow> bool" where
  "gas_kept gas e g e' \<longleftrightarrow> unat g \<le> unat gas \<and> evm_depth e' = evm_depth e \<and> readOnly e' = readOnly e"

lemma post_gas:
  "go_all (call_post env st gas e) m \<Longrightarrow> go_all (\<lambda>((ret, g, err), e'). gas_kept gas e g e') m"
  "go_all (\<lambda>((ret, a, g, err), e'). unat g \<le> unat gas \<and> call_rel env st e e') m' \<Longrightarrow>
     go_all (\<lambda>((ret, a, g, err), e'). gas_kept gas e g e') m'"
  by (auto simp: gas_kept_def call_post_def call_rel_def elim!: go_all_mono)

text \<open>
  C38. Calls and contract creations never return more gas than they were given, and restore the call
  depth and the read-only flag.
\<close>

theorem calls_never_mint_gas:
  "go_all (\<lambda>((ret, g, err), e'). gas_kept gas e g e') (evm_Call env (evm_Run env n) caller addr input gas val e) \<and>
   go_all (\<lambda>((ret, g, err), e'). gas_kept gas e g e') (evm_CallCode env (evm_Run env n) caller addr input gas val e) \<and>
   go_all (\<lambda>((ret, g, err), e'). gas_kept gas e g e') (evm_DelegateCall env (evm_Run env n) caller addr input gas e) \<and>
   go_all (\<lambda>((ret, g, err), e'). gas_kept gas e g e') (evm_StaticCall env (evm_Run env n) caller addr input gas e) \<and>
   go_all (\<lambda>((ret, a, g, err), e'). gas_kept gas e g e') (evm_Create env (evm_Run env n) caller code gas val e) \<and>
   go_all (\<lambda>((ret, a, g, err), e'). gas_kept gas e g e') (evm_Create2 env (evm_Run env n) caller code gas val salt e)"
  by (intro conjI; rule post_gas; rule evm.Call_law evm.CallCode_law evm.DelegateCall_law evm.StaticCall_law evm.Create_law)

end
