(* ===== verification/Chain_Config.thy ===== *)
theory Chain_Config imports Params begin

text \<open>
  Chain configurations: \<open>ChainConfig\<close> of \<open>params/config.go\<close> with its fork predicates, the \<open>Rules\<close> the
  virtual machine runs by, the check of the fork order and the check that a stored configuration is
  compatible with a new one. A nil \<open>*big.Int\<close> or \<open>*uint64\<close> is \<open>None\<close>.
\<close>

section \<open>Configurations\<close>

record EthashConfig = ethash_unit :: unit

record CliqueConfig =
  clique_Period :: u64
  clique_Epoch :: u64

record ChainConfig =
  cfg_ChainID :: "int option"
  HomesteadBlock :: "int option"
  DAOForkBlock :: "int option"
  DAOForkSupport :: bool
  EIP150Block :: "int option"
  EIP155Block :: "int option"
  EIP158Block :: "int option"
  ByzantiumBlock :: "int option"
  ConstantinopleBlock :: "int option"
  PetersburgBlock :: "int option"
  IstanbulBlock :: "int option"
  MuirGlacierBlock :: "int option"
  BerlinBlock :: "int option"
  LondonBlock :: "int option"
  ArrowGlacierBlock :: "int option"
  GrayGlacierBlock :: "int option"
  MergeNetsplitBlock :: "int option"
  ShanghaiTime :: "u64 option"
  CancunTime :: "u64 option"
  PragueTime :: "u64 option"
  VerkleTime :: "u64 option"
  TerminalTotalDifficulty :: "int option"
  TerminalTotalDifficultyPassed :: bool
  cfg_Ethash :: "EthashConfig option"
  cfg_Clique :: "CliqueConfig option"

definition isBlockForked :: "int option \<Rightarrow> int option \<Rightarrow> bool" where
  "isBlockForked s head = (case (s, head) of (Some s, Some head) \<Rightarrow> s \<le> head | _ \<Rightarrow> False)"

definition configBlockEqual :: "int option \<Rightarrow> int option \<Rightarrow> bool" where
  "configBlockEqual x y =
     (case x of None \<Rightarrow> y = None
      | Some x' \<Rightarrow> (case y of None \<Rightarrow> False | Some y' \<Rightarrow> x' = y'))"

definition isForkBlockIncompatible :: "int option \<Rightarrow> int option \<Rightarrow> int option \<Rightarrow> bool" where
  "isForkBlockIncompatible s1 s2 head \<longleftrightarrow>
     (isBlockForked s1 head \<or> isBlockForked s2 head) \<and> \<not> configBlockEqual s1 s2"

definition isTimestampForked :: "u64 option \<Rightarrow> u64 \<Rightarrow> bool" where
  "isTimestampForked s head = (case s of None \<Rightarrow> False | Some s \<Rightarrow> s \<le> head)"

definition configTimestampEqual :: "u64 option \<Rightarrow> u64 option \<Rightarrow> bool" where
  "configTimestampEqual x y =
     (case x of None \<Rightarrow> y = None
      | Some x' \<Rightarrow> (case y of None \<Rightarrow> False | Some y' \<Rightarrow> x' = y'))"

definition isForkTimestampIncompatible :: "u64 option \<Rightarrow> u64 option \<Rightarrow> u64 \<Rightarrow> bool" where
  "isForkTimestampIncompatible s1 s2 head \<longleftrightarrow>
     (isTimestampForked s1 head \<or> isTimestampForked s2 head) \<and> \<not> configTimestampEqual s1 s2"

section \<open>Which forks are active\<close>

definition cfg_IsHomestead :: "ChainConfig \<Rightarrow> int option \<Rightarrow> bool" where
  "cfg_IsHomestead c num = isBlockForked (HomesteadBlock c) num"
definition cfg_IsDAOFork :: "ChainConfig \<Rightarrow> int option \<Rightarrow> bool" where
  "cfg_IsDAOFork c num = isBlockForked (DAOForkBlock c) num"
definition cfg_IsEIP150 :: "ChainConfig \<Rightarrow> int option \<Rightarrow> bool" where
  "cfg_IsEIP150 c num = isBlockForked (EIP150Block c) num"
definition cfg_IsEIP155 :: "ChainConfig \<Rightarrow> int option \<Rightarrow> bool" where
  "cfg_IsEIP155 c num = isBlockForked (EIP155Block c) num"
definition cfg_IsEIP158 :: "ChainConfig \<Rightarrow> int option \<Rightarrow> bool" where
  "cfg_IsEIP158 c num = isBlockForked (EIP158Block c) num"
definition cfg_IsByzantium :: "ChainConfig \<Rightarrow> int option \<Rightarrow> bool" where
  "cfg_IsByzantium c num = isBlockForked (ByzantiumBlock c) num"
definition cfg_IsConstantinople :: "ChainConfig \<Rightarrow> int option \<Rightarrow> bool" where
  "cfg_IsConstantinople c num = isBlockForked (ConstantinopleBlock c) num"
definition cfg_IsMuirGlacier :: "ChainConfig \<Rightarrow> int option \<Rightarrow> bool" where
  "cfg_IsMuirGlacier c num = isBlockForked (MuirGlacierBlock c) num"
definition cfg_IsPetersburg :: "ChainConfig \<Rightarrow> int option \<Rightarrow> bool" where
  "cfg_IsPetersburg c num \<longleftrightarrow>
     isBlockForked (PetersburgBlock c) num \<or> PetersburgBlock c = None \<and> isBlockForked (ConstantinopleBlock c) num"
definition cfg_IsIstanbul :: "ChainConfig \<Rightarrow> int option \<Rightarrow> bool" where
  "cfg_IsIstanbul c num = isBlockForked (IstanbulBlock c) num"
definition cfg_IsBerlin :: "ChainConfig \<Rightarrow> int option \<Rightarrow> bool" where
  "cfg_IsBerlin c num = isBlockForked (BerlinBlock c) num"
definition cfg_IsLondon :: "ChainConfig \<Rightarrow> int option \<Rightarrow> bool" where
  "cfg_IsLondon c num = isBlockForked (LondonBlock c) num"
definition cfg_IsArrowGlacier :: "ChainConfig \<Rightarrow> int option \<Rightarrow> bool" where
  "cfg_IsArrowGlacier c num = isBlockForked (ArrowGlacierBlock c) num"
definition cfg_IsGrayGlacier :: "ChainConfig \<Rightarrow> int option \<Rightarrow> bool" where
  "cfg_IsGrayGlacier c num = isBlockForked (GrayGlacierBlock c) num"

definition cfg_IsTerminalPoWBlock :: "ChainConfig \<Rightarrow> int \<Rightarrow> int \<Rightarrow> bool" where
  "cfg_IsTerminalPoWBlock c parentTotalDiff totalDiff =
     (case TerminalTotalDifficulty c of None \<Rightarrow> False | Some ttd \<Rightarrow> parentTotalDiff < ttd \<and> totalDiff \<ge> ttd)"

definition cfg_IsShanghai :: "ChainConfig \<Rightarrow> int option \<Rightarrow> u64 \<Rightarrow> bool" where
  "cfg_IsShanghai c num time \<longleftrightarrow> cfg_IsLondon c num \<and> isTimestampForked (ShanghaiTime c) time"
definition cfg_IsCancun :: "ChainConfig \<Rightarrow> int option \<Rightarrow> u64 \<Rightarrow> bool" where
  "cfg_IsCancun c num time \<longleftrightarrow> cfg_IsLondon c num \<and> isTimestampForked (CancunTime c) time"
definition cfg_IsPrague :: "ChainConfig \<Rightarrow> int option \<Rightarrow> u64 \<Rightarrow> bool" where
  "cfg_IsPrague c num time \<longleftrightarrow> cfg_IsLondon c num \<and> isTimestampForked (PragueTime c) time"
definition cfg_IsVerkle :: "ChainConfig \<Rightarrow> int option \<Rightarrow> u64 \<Rightarrow> bool" where
  "cfg_IsVerkle c num time \<longleftrightarrow> cfg_IsLondon c num \<and> isTimestampForked (VerkleTime c) time"

text \<open>The chain ID of the rules and their flags.\<close>

definition cfg_Rules :: "ChainConfig \<Rightarrow> int option \<Rightarrow> bool \<Rightarrow> u64 \<Rightarrow> int \<times> rules" where
  "cfg_Rules c num isMerge timestamp =
     (let chainID = (case cfg_ChainID c of None \<Rightarrow> 0 | Some i \<Rightarrow> i);
          isMerge = (isMerge \<and> cfg_IsLondon c num)
      in (chainID,
         \<lparr>IsHomestead = cfg_IsHomestead c num,
          IsEIP150 = cfg_IsEIP150 c num,
          IsEIP155 = cfg_IsEIP155 c num,
          IsEIP158 = cfg_IsEIP158 c num,
          IsByzantium = cfg_IsByzantium c num,
          IsConstantinople = cfg_IsConstantinople c num,
          IsPetersburg = cfg_IsPetersburg c num,
          IsIstanbul = cfg_IsIstanbul c num,
          IsBerlin = cfg_IsBerlin c num,
          IsLondon = cfg_IsLondon c num,
          IsMerge = isMerge,
          IsShanghai = isMerge \<and> cfg_IsShanghai c num timestamp,
          IsCancun = isMerge \<and> cfg_IsCancun c num timestamp,
          IsPrague = isMerge \<and> cfg_IsPrague c num timestamp,
          IsVerkle = isMerge \<and> cfg_IsVerkle c num timestamp\<rparr>))"

datatype time_fork = Fork_Paris | Fork_Shanghai | Fork_Cancun | Fork_Prague

definition LatestFork :: "ChainConfig \<Rightarrow> u64 \<Rightarrow> time_fork" where
  "LatestFork c time =
     (let london = LondonBlock c
      in if cfg_IsPrague c london time then Fork_Prague
         else if cfg_IsCancun c london time then Fork_Cancun
         else if cfg_IsShanghai c london time then Fork_Shanghai
         else Fork_Paris)"

definition BaseFeeChangeDenominator :: "ChainConfig \<Rightarrow> u64" where
  "BaseFeeChangeDenominator c = DefaultBaseFeeChangeDenominator"

definition ElasticityMultiplier :: "ChainConfig \<Rightarrow> u64" where
  "ElasticityMultiplier c = DefaultElasticityMultiplier"

section \<open>The order of forks\<close>

record fork_entry =
  fk_name :: string
  fk_block :: "int option"
  fk_timestamp :: "u64 option"
  fk_optional :: bool

datatype fork_error =
    NotEnabledBefore string string
  | OutOfOrder string string
  | RevertedToBlocks string string

definition block_fork :: "string \<Rightarrow> int option \<Rightarrow> bool \<Rightarrow> fork_entry" where
  "block_fork name b opt = \<lparr>fk_name = name, fk_block = b, fk_timestamp = None, fk_optional = opt\<rparr>"

definition time_fork_entry :: "string \<Rightarrow> u64 option \<Rightarrow> bool \<Rightarrow> fork_entry" where
  "time_fork_entry name t opt = \<lparr>fk_name = name, fk_block = None, fk_timestamp = t, fk_optional = opt\<rparr>"

definition fork_entries :: "ChainConfig \<Rightarrow> fork_entry list" where
  "fork_entries c =
     [block_fork ''homesteadBlock'' (HomesteadBlock c) False,
      block_fork ''daoForkBlock'' (DAOForkBlock c) True,
      block_fork ''eip150Block'' (EIP150Block c) False,
      block_fork ''eip155Block'' (EIP155Block c) False,
      block_fork ''eip158Block'' (EIP158Block c) False,
      block_fork ''byzantiumBlock'' (ByzantiumBlock c) False,
      block_fork ''constantinopleBlock'' (ConstantinopleBlock c) False,
      block_fork ''petersburgBlock'' (PetersburgBlock c) False,
      block_fork ''istanbulBlock'' (IstanbulBlock c) False,
      block_fork ''muirGlacierBlock'' (MuirGlacierBlock c) True,
      block_fork ''berlinBlock'' (BerlinBlock c) False,
      block_fork ''londonBlock'' (LondonBlock c) False,
      block_fork ''arrowGlacierBlock'' (ArrowGlacierBlock c) True,
      block_fork ''grayGlacierBlock'' (GrayGlacierBlock c) True,
      block_fork ''mergeNetsplitBlock'' (MergeNetsplitBlock c) True,
      time_fork_entry ''shanghaiTime'' (ShanghaiTime c) False,
      time_fork_entry ''cancunTime'' (CancunTime c) True,
      time_fork_entry ''pragueTime'' (PragueTime c) True,
      time_fork_entry ''verkleTime'' (VerkleTime c) True]"

text \<open>
  The switch in the loop of \<open>CheckConfigForkOrder\<close>, for two consecutive forks. A fork has a block or
  a timestamp, never both, so a comparison never meets a nil pointer.
\<close>

definition above :: "'a::linorder option \<Rightarrow> 'a option \<Rightarrow> bool" where
  "above x y = (case (x, y) of (Some x, Some y) \<Rightarrow> x > y | _ \<Rightarrow> False)"

definition check_fork :: "fork_entry \<Rightarrow> fork_entry \<Rightarrow> fork_error option" where
  "check_fork prev cur =
     (if fk_block prev = None \<and> fk_timestamp prev = None \<and> (fk_block cur \<noteq> None \<or> fk_timestamp cur \<noteq> None)
      then Some (NotEnabledBefore (fk_name prev) (fk_name cur))
      else if (fk_block prev \<noteq> None \<and> fk_block cur \<noteq> None) \<or> (fk_timestamp prev \<noteq> None \<and> fk_timestamp cur \<noteq> None)
      then
        if above (fk_block prev) (fk_block cur) \<or> above (fk_timestamp prev) (fk_timestamp cur)
        then Some (OutOfOrder (fk_name prev) (fk_name cur))
        else if fk_timestamp prev \<noteq> None \<and> fk_block cur \<noteq> None
        then Some (RevertedToBlocks (fk_name prev) (fk_name cur))
        else None
      else None)"

text \<open>The first round has no last fork.\<close>

fun check_forks :: "fork_entry option \<Rightarrow> fork_entry list \<Rightarrow> fork_error option" where
  "check_forks lastFork [] = None"
| "check_forks lastFork (cur # forks) =
     (case (case lastFork of None \<Rightarrow> None | Some prev \<Rightarrow> check_fork prev cur) of
        Some err \<Rightarrow> Some err
      | None \<Rightarrow>
          check_forks (if \<not> fk_optional cur \<or> fk_block cur \<noteq> None \<or> fk_timestamp cur \<noteq> None
                       then Some cur else lastFork) forks)"

definition CheckConfigForkOrder :: "ChainConfig \<Rightarrow> fork_error option" where
  "CheckConfigForkOrder c = check_forks None (fork_entries c)"

section \<open>Compatibility with a new configuration\<close>

record ConfigCompatError =
  What :: string
  StoredBlock :: "int option"
  NewBlock :: "int option"
  StoredTime :: "u64 option"
  NewTime :: "u64 option"
  RewindToBlock :: u64
  RewindToTime :: u64

definition newBlockCompatError :: "string \<Rightarrow> int option \<Rightarrow> int option \<Rightarrow> ConfigCompatError" where
  "newBlockCompatError what storedblock newblock =
     (let rew = (case (storedblock, newblock) of
          (None, _) \<Rightarrow> newblock
        | (Some s, None) \<Rightarrow> storedblock
        | (Some s, Some n) \<Rightarrow> if s < n then storedblock else newblock)
      in \<lparr>What = what, StoredBlock = storedblock, NewBlock = newblock, StoredTime = None, NewTime = None,
          RewindToBlock = (case rew of None \<Rightarrow> 0 | Some r \<Rightarrow> if r > 0 then word_of_int r - 1 else 0),
          RewindToTime = 0\<rparr>)"

definition newTimestampCompatError :: "string \<Rightarrow> u64 option \<Rightarrow> u64 option \<Rightarrow> ConfigCompatError" where
  "newTimestampCompatError what storedtime newtime =
     (let rew = (case (storedtime, newtime) of
          (None, _) \<Rightarrow> newtime
        | (Some s, None) \<Rightarrow> storedtime
        | (Some s, Some n) \<Rightarrow> if s < n then storedtime else newtime)
      in \<lparr>What = what, StoredBlock = None, NewBlock = None, StoredTime = storedtime, NewTime = newtime,
          RewindToBlock = 0,
          RewindToTime = (case rew of None \<Rightarrow> 0 | Some r \<Rightarrow> r - 1)\<rparr>)"

text \<open>
  The conditions of \<open>checkCompatible\<close> in their order, each with its error; the first one that holds
  is returned.
\<close>

definition block_check :: "int option \<Rightarrow> string \<Rightarrow> int option \<Rightarrow> int option \<Rightarrow> bool \<times> ConfigCompatError" where
  "block_check head what s n = (isForkBlockIncompatible s n head, newBlockCompatError what s n)"

definition time_check :: "u64 \<Rightarrow> string \<Rightarrow> u64 option \<Rightarrow> u64 option \<Rightarrow> bool \<times> ConfigCompatError" where
  "time_check head what s n = (isForkTimestampIncompatible s n head, newTimestampCompatError what s n)"

definition compat_checks :: "ChainConfig \<Rightarrow> ChainConfig \<Rightarrow> int option \<Rightarrow> u64 \<Rightarrow> (bool \<times> ConfigCompatError) list" where
  "compat_checks c newcfg headNumber headTimestamp =
     [block_check headNumber ''Homestead fork block'' (HomesteadBlock c) (HomesteadBlock newcfg),
      block_check headNumber ''DAO fork block'' (DAOForkBlock c) (DAOForkBlock newcfg),
      (cfg_IsDAOFork c headNumber \<and> DAOForkSupport c \<noteq> DAOForkSupport newcfg,
       newBlockCompatError ''DAO fork support flag'' (DAOForkBlock c) (DAOForkBlock newcfg)),
      block_check headNumber ''EIP150 fork block'' (EIP150Block c) (EIP150Block newcfg),
      block_check headNumber ''EIP155 fork block'' (EIP155Block c) (EIP155Block newcfg),
      block_check headNumber ''EIP158 fork block'' (EIP158Block c) (EIP158Block newcfg),
      (cfg_IsEIP158 c headNumber \<and> \<not> configBlockEqual (cfg_ChainID c) (cfg_ChainID newcfg),
       newBlockCompatError ''EIP158 chain ID'' (EIP158Block c) (EIP158Block newcfg)),
      block_check headNumber ''Byzantium fork block'' (ByzantiumBlock c) (ByzantiumBlock newcfg),
      block_check headNumber ''Constantinople fork block'' (ConstantinopleBlock c) (ConstantinopleBlock newcfg),
      (isForkBlockIncompatible (PetersburgBlock c) (PetersburgBlock newcfg) headNumber \<and>
       isForkBlockIncompatible (ConstantinopleBlock c) (PetersburgBlock newcfg) headNumber,
       newBlockCompatError ''Petersburg fork block'' (PetersburgBlock c) (PetersburgBlock newcfg)),
      block_check headNumber ''Istanbul fork block'' (IstanbulBlock c) (IstanbulBlock newcfg),
      block_check headNumber ''Muir Glacier fork block'' (MuirGlacierBlock c) (MuirGlacierBlock newcfg),
      block_check headNumber ''Berlin fork block'' (BerlinBlock c) (BerlinBlock newcfg),
      block_check headNumber ''London fork block'' (LondonBlock c) (LondonBlock newcfg),
      block_check headNumber ''Arrow Glacier fork block'' (ArrowGlacierBlock c) (ArrowGlacierBlock newcfg),
      block_check headNumber ''Gray Glacier fork block'' (GrayGlacierBlock c) (GrayGlacierBlock newcfg),
      block_check headNumber ''Merge netsplit fork block'' (MergeNetsplitBlock c) (MergeNetsplitBlock newcfg),
      time_check headTimestamp ''Shanghai fork timestamp'' (ShanghaiTime c) (ShanghaiTime newcfg),
      time_check headTimestamp ''Cancun fork timestamp'' (CancunTime c) (CancunTime newcfg),
      time_check headTimestamp ''Prague fork timestamp'' (PragueTime c) (PragueTime newcfg),
      time_check headTimestamp ''Verkle fork timestamp'' (VerkleTime c) (VerkleTime newcfg)]"

definition checkCompatible :: "ChainConfig \<Rightarrow> ChainConfig \<Rightarrow> int option \<Rightarrow> u64 \<Rightarrow> ConfigCompatError option" where
  "checkCompatible c newcfg headNumber headTimestamp =
     map_option snd (find fst (compat_checks c newcfg headNumber headTimestamp))"

text \<open>The loop of \<open>CheckCompatible\<close>, on fuel.\<close>

primrec compat_loop ::
  "nat \<Rightarrow> ChainConfig \<Rightarrow> ChainConfig \<Rightarrow> u64 \<Rightarrow> u64 \<Rightarrow> ConfigCompatError option \<Rightarrow> ConfigCompatError option go" where
  "compat_loop 0 c newcfg bhead btime lasterr = OutOfFuel"
| "compat_loop (Suc n) c newcfg bhead btime lasterr =
     (case checkCompatible c newcfg (Some (uint bhead)) btime of
        None \<Rightarrow> Ret lasterr
      | Some err \<Rightarrow>
          if lasterr \<noteq> None \<and> RewindToBlock err = RewindToBlock (the lasterr) \<and> RewindToTime err = RewindToTime (the lasterr)
          then Ret lasterr
          else if RewindToTime err > 0 then compat_loop n c newcfg bhead (RewindToTime err) (Some err)
          else compat_loop n c newcfg (RewindToBlock err) btime (Some err))"

definition CheckCompatible :: "nat \<Rightarrow> ChainConfig \<Rightarrow> ChainConfig \<Rightarrow> u64 \<Rightarrow> u64 \<Rightarrow> ConfigCompatError option go" where
  "CheckCompatible fuel c newcfg height time = compat_loop fuel c newcfg height time None"

section \<open>An accepted order gives nested rules\<close>

definition opt_le :: "'a::linorder option \<Rightarrow> 'a option \<Rightarrow> bool" where
  "opt_le x y = (case y of None \<Rightarrow> True | Some y \<Rightarrow> (case x of None \<Rightarrow> False | Some x \<Rightarrow> x \<le> y))"

lemma opt_le_trans: "opt_le x y \<Longrightarrow> opt_le y z \<Longrightarrow> opt_le x z"
  by (auto simp: opt_le_def split: option.splits)

lemma forked_mono:
  "opt_le x y \<Longrightarrow> isBlockForked y num \<Longrightarrow> isBlockForked x num"
  "opt_le s t \<Longrightarrow> isTimestampForked t time \<Longrightarrow> isTimestampForked s time"
  by (auto simp: opt_le_def isBlockForked_def isTimestampForked_def split: option.splits)

lemma check_fork_None [simp]:
  "check_fork (block_fork n x b) (block_fork m y b') = None \<longleftrightarrow> opt_le x y"
  "check_fork (time_fork_entry n s b) (time_fork_entry m t b') = None \<longleftrightarrow> opt_le s t"
  "check_fork (block_fork n x b) (time_fork_entry m t b') = None \<longleftrightarrow> (x = None \<longrightarrow> t = None)"
  by (auto simp: check_fork_def block_fork_def time_fork_entry_def opt_le_def above_def split: option.splits if_splits)

lemma check_forks_Cons [simp]:
  "check_forks (Some prev) (cur # forks) = None \<longleftrightarrow> check_fork prev cur = None \<and>
     check_forks (Some (if \<not> fk_optional cur \<or> fk_block cur \<noteq> None \<or> fk_timestamp cur \<noteq> None then cur else prev)) forks = None"
  by (simp split: option.split)

lemma check_forks_first [simp]:
  "check_forks None (cur # forks) =
     check_forks (if \<not> fk_optional cur \<or> fk_block cur \<noteq> None \<or> fk_timestamp cur \<noteq> None then Some cur else None) forks"
  by simp

declare check_forks.simps(2) [simp del]

lemma fork_entry_sel [simp]:
  "fk_optional (block_fork n x b) = b" "fk_block (block_fork n x b) = x" "fk_timestamp (block_fork n x b) = None"
  "fk_optional (time_fork_entry n t b) = b" "fk_block (time_fork_entry n t b) = None" "fk_timestamp (time_fork_entry n t b) = t"
  by (simp_all add: block_fork_def time_fork_entry_def)

text \<open>An optional fork that is not set is skipped; one that is set lies between its neighbours.\<close>

lemma skip_optional:
  assumes "check_forks (Some (block_fork n x b)) (block_fork m y True # block_fork k z False # forks) = None"
  shows "opt_le x z" "check_forks (Some (block_fork k z False)) forks = None"
  using assms by (auto split: if_splits intro: opt_le_trans)

lemma check_forks_drop: "\<exists>prev'. check_forks (Some prev) (xs @ ys) = None \<longrightarrow> check_forks (Some prev') ys = None"
proof (induction xs arbitrary: prev)
  case (Cons x xs)
  then show ?case by (metis append_Cons check_forks_Cons)
qed auto

lemma fork_order_facts:
  assumes "CheckConfigForkOrder c = None"
  shows "opt_le (HomesteadBlock c) (EIP150Block c)" "opt_le (EIP150Block c) (EIP155Block c)"
    "opt_le (EIP155Block c) (EIP158Block c)" "opt_le (EIP158Block c) (ByzantiumBlock c)"
    "opt_le (ByzantiumBlock c) (ConstantinopleBlock c)" "opt_le (ConstantinopleBlock c) (PetersburgBlock c)"
    "opt_le (PetersburgBlock c) (IstanbulBlock c)" "opt_le (IstanbulBlock c) (BerlinBlock c)"
    "opt_le (BerlinBlock c) (LondonBlock c)" "opt_le (ShanghaiTime c) (CancunTime c)"
    "opt_le (ShanghaiTime c) (PragueTime c)" "opt_le (ShanghaiTime c) (VerkleTime c)"
proof -
  let ?b = "\<lambda>n sel. block_fork n (sel c) False"
  have 1: "check_forks (Some (?b ''homesteadBlock'' HomesteadBlock)) (tl (fork_entries c)) = None"
    using assms by (simp add: CheckConfigForkOrder_def fork_entries_def)
  note 2 = skip_optional [OF 1 [unfolded fork_entries_def list.sel]]
  show "opt_le (HomesteadBlock c) (EIP150Block c)" by (rule 2)
  from 2(2) have 3: "opt_le (EIP150Block c) (EIP155Block c)" "opt_le (EIP155Block c) (EIP158Block c)"
    "opt_le (EIP158Block c) (ByzantiumBlock c)" "opt_le (ByzantiumBlock c) (ConstantinopleBlock c)"
    "opt_le (ConstantinopleBlock c) (PetersburgBlock c)" "opt_le (PetersburgBlock c) (IstanbulBlock c)"
    and 4: "check_forks (Some (?b ''istanbulBlock'' IstanbulBlock)) (drop 9 (fork_entries c)) = None"
    by (simp_all add: fork_entries_def)
  show "opt_le (EIP150Block c) (EIP155Block c)" "opt_le (EIP155Block c) (EIP158Block c)"
    "opt_le (EIP158Block c) (ByzantiumBlock c)" "opt_le (ByzantiumBlock c) (ConstantinopleBlock c)"
    "opt_le (ConstantinopleBlock c) (PetersburgBlock c)" "opt_le (PetersburgBlock c) (IstanbulBlock c)"
    by (rule 3)+
  have "drop 9 (fork_entries c) = block_fork ''muirGlacierBlock'' (MuirGlacierBlock c) True
      # ?b ''berlinBlock'' BerlinBlock # drop 11 (fork_entries c)" by (simp add: fork_entries_def)
  note 5 = skip_optional [OF 4 [unfolded this]]
  show "opt_le (IstanbulBlock c) (BerlinBlock c)" by (rule 5)
  from 5(2) show "opt_le (BerlinBlock c) (LondonBlock c)" by (simp add: fork_entries_def)
  have "fork_entries c = hd (fork_entries c) # take 14 (tl (fork_entries c)) @ drop 15 (fork_entries c)"
    by (simp add: fork_entries_def)
  then obtain prev where "check_forks (Some prev) (drop 15 (fork_entries c)) = None"
    using 1 check_forks_drop by (metis list.sel(3))
  then have "check_forks (Some (time_fork_entry ''shanghaiTime'' (ShanghaiTime c) False)) (drop 16 (fork_entries c)) = None"
    by (simp add: fork_entries_def)
  then show "opt_le (ShanghaiTime c) (CancunTime c)" "opt_le (ShanghaiTime c) (PragueTime c)" "opt_le (ShanghaiTime c) (VerkleTime c)"
    by (auto simp: fork_entries_def opt_le_def split: option.splits if_splits)
qed

text \<open>Every fork's rules contain those of the forks before it.\<close>

definition rules_nested :: "rules \<Rightarrow> bool" where
  "rules_nested r \<longleftrightarrow> (IsEIP150 r \<longrightarrow> IsHomestead r) \<and> (IsEIP155 r \<longrightarrow> IsEIP150 r) \<and> (IsEIP158 r \<longrightarrow> IsEIP155 r) \<and>
     (IsByzantium r \<longrightarrow> IsEIP158 r) \<and> (IsConstantinople r \<longrightarrow> IsByzantium r) \<and> (IsPetersburg r \<longrightarrow> IsConstantinople r) \<and>
     (IsIstanbul r \<longrightarrow> IsPetersburg r) \<and> (IsBerlin r \<longrightarrow> IsIstanbul r) \<and> (IsLondon r \<longrightarrow> IsBerlin r) \<and>
     (IsMerge r \<longrightarrow> IsLondon r) \<and> (IsShanghai r \<longrightarrow> IsMerge r) \<and> (IsCancun r \<longrightarrow> IsShanghai r) \<and>
     (IsPrague r \<longrightarrow> IsShanghai r) \<and> (IsVerkle r \<longrightarrow> IsShanghai r)"

text \<open>
  C30. A configuration that \<open>CheckConfigForkOrder\<close> accepts gives, at every block and time, nested rules:
  a fork is in force only if the forks before it are (Prague and Verkle may skip Cancun, which is
  optional). The virtual machine tests the flags one by one and relies on it.
\<close>

theorem fork_order_nests_rules:
  assumes "CheckConfigForkOrder c = None"
  shows "rules_nested (snd (cfg_Rules c num isMerge timestamp))"
proof -
  note f = fork_order_facts [OF assms]
  have pn: "isBlockForked (IstanbulBlock c) num \<Longrightarrow> isBlockForked (PetersburgBlock c) num"
    "isBlockForked (PetersburgBlock c) num \<Longrightarrow> isBlockForked (ConstantinopleBlock c) num"
    using forked_mono(1) [OF f(7)] forked_mono(1) [OF f(6)] by blast+
  show ?thesis
    unfolding rules_nested_def cfg_Rules_def
    using f(1-5,8-12) pn by (auto simp: Let_def cfg_IsHomestead_def cfg_IsEIP150_def cfg_IsEIP155_def cfg_IsEIP158_def
        cfg_IsByzantium_def cfg_IsConstantinople_def cfg_IsPetersburg_def cfg_IsIstanbul_def cfg_IsBerlin_def
        cfg_IsLondon_def cfg_IsShanghai_def cfg_IsCancun_def cfg_IsPrague_def cfg_IsVerkle_def intro: forked_mono)
qed

definition MainnetChainConfig :: ChainConfig where
  "MainnetChainConfig = \<lparr>cfg_ChainID = Some 1, HomesteadBlock = Some 1150000, DAOForkBlock = Some 1920000,
     DAOForkSupport = True, EIP150Block = Some 2463000, EIP155Block = Some 2675000, EIP158Block = Some 2675000,
     ByzantiumBlock = Some 4370000, ConstantinopleBlock = Some 7280000, PetersburgBlock = Some 7280000,
     IstanbulBlock = Some 9069000, MuirGlacierBlock = Some 9200000, BerlinBlock = Some 12244000,
     LondonBlock = Some 12965000, ArrowGlacierBlock = Some 13773000, GrayGlacierBlock = Some 15050000,
     MergeNetsplitBlock = None, ShanghaiTime = Some 1681338455, CancunTime = Some 1710338135, PragueTime = None,
     VerkleTime = None, TerminalTotalDifficulty = Some 58750000000000000000000, TerminalTotalDifficultyPassed = True,
     cfg_Ethash = Some \<lparr>ethash_unit = ()\<rparr>, cfg_Clique = None\<rparr>"

theorem fork_order_nests_rules_witness:
  "rules_nested (snd (cfg_Rules MainnetChainConfig (Some 19000000) True 1710338200))"
  by (rule fork_order_nests_rules)
    (simp add: CheckConfigForkOrder_def fork_entries_def MainnetChainConfig_def opt_le_def)

section \<open>The compatibility check ends unless a fork moves to or from time 0\<close>

lemma configEqual [simp]: "configBlockEqual x y \<longleftrightarrow> x = y" "configTimestampEqual s t \<longleftrightarrow> s = t"
  by (auto simp: configBlockEqual_def configTimestampEqual_def split: option.splits)

text \<open>What an error of one of the checks can ask for.\<close>

definition rewinds_block :: "u64 \<Rightarrow> ConfigCompatError \<Rightarrow> bool" where
  "rewinds_block bhead err \<longleftrightarrow> RewindToTime err = 0 \<and> (RewindToBlock err < bhead \<or> RewindToBlock err = 0)"

definition rewinds_time :: "u64 \<Rightarrow> ConfigCompatError \<Rightarrow> bool" where
  "rewinds_time btime err \<longleftrightarrow> RewindToBlock err = 0 \<and> RewindToTime err < btime"

lemma pred_less: "r \<le> b \<Longrightarrow> r \<noteq> 0 \<Longrightarrow> r - 1 < (b :: u64)"
  using unat_gt_0 [of r] by (auto simp: word_less_nat_alt word_le_nat_alt unat_minus_one)

lemma word_below:
  assumes "0 < r" "r \<le> uint (b :: u64)"
  shows "word_of_int r - 1 < b"
proof (rule pred_less)
  have "uint (word_of_int r :: u64) = r"
    using assms uint_lt2p [of b] by (simp add: uint_word_of_int)
  then show "word_of_int r \<le> b" "word_of_int r \<noteq> (0 :: u64)" using assms by (auto simp: word_le_def)
qed

lemma rewinds_block_new:
  assumes "isBlockForked s (Some (uint bhead)) \<or> isBlockForked n (Some (uint bhead))"
  shows "rewinds_block bhead (newBlockCompatError what s n)"
  using assms word_below [of _ bhead]
  by (auto simp: rewinds_block_def newBlockCompatError_def isBlockForked_def Let_def split: option.splits)

text \<open>No fork is moved to or away from time 0.\<close>

definition zero_times_agree :: "ChainConfig \<Rightarrow> ChainConfig \<Rightarrow> bool" where
  "zero_times_agree c d \<longleftrightarrow> (Some 0 \<in> {ShanghaiTime c, ShanghaiTime d} \<longrightarrow> ShanghaiTime c = ShanghaiTime d) \<and>
     (Some 0 \<in> {CancunTime c, CancunTime d} \<longrightarrow> CancunTime c = CancunTime d) \<and>
     (Some 0 \<in> {PragueTime c, PragueTime d} \<longrightarrow> PragueTime c = PragueTime d) \<and>
     (Some 0 \<in> {VerkleTime c, VerkleTime d} \<longrightarrow> VerkleTime c = VerkleTime d)"

definition rewinds :: "u64 \<Rightarrow> u64 \<Rightarrow> bool \<times> ConfigCompatError \<Rightarrow> bool" where
  "rewinds bhead btime x \<longleftrightarrow> (fst x \<longrightarrow> rewinds_block bhead (snd x) \<or> rewinds_time btime (snd x))"

lemma rewinds_checks:
  "(b \<Longrightarrow> isBlockForked s (Some (uint bhead)) \<or> isBlockForked n (Some (uint bhead))) \<Longrightarrow>
     rewinds bhead btime (b, newBlockCompatError what s n)"
  "rewinds bhead btime (block_check (Some (uint bhead)) what s n)"
  "(Some 0 \<in> {t, u} \<longrightarrow> t = u) \<Longrightarrow> rewinds bhead btime (time_check btime what t u)"
proof -
  show "rewinds bhead btime (block_check (Some (uint bhead)) what s n)"
    by (auto simp: rewinds_def block_check_def isForkBlockIncompatible_def intro: rewinds_block_new)
  show "rewinds bhead btime (b, newBlockCompatError what s n)"
    if "b \<Longrightarrow> isBlockForked s (Some (uint bhead)) \<or> isBlockForked n (Some (uint bhead))"
    using that by (auto simp: rewinds_def intro: rewinds_block_new)
  show "rewinds bhead btime (time_check btime what t u)" if "Some 0 \<in> {t, u} \<longrightarrow> t = u"
    using that pred_less [of _ btime]
    by (auto simp: rewinds_def time_check_def isForkTimestampIncompatible_def rewinds_time_def newTimestampCompatError_def
        isTimestampForked_def Let_def split: option.splits)
qed

lemma checks_rewind:
  assumes "zero_times_agree c d"
  shows "list_all (rewinds bhead btime) (compat_checks c d (Some (uint bhead)) btime)"
proof -
  note z = assms [unfolded zero_times_agree_def]
  have f: "cfg_IsDAOFork c h \<and> b \<Longrightarrow> isBlockForked (DAOForkBlock c) h \<or> isBlockForked n h"
    "cfg_IsEIP158 c h \<and> b \<Longrightarrow> isBlockForked (EIP158Block c) h \<or> isBlockForked n h"
    "isForkBlockIncompatible s n h \<and> b \<Longrightarrow> isBlockForked s h \<or> isBlockForked n h" for h b n s
    by (simp_all add: cfg_IsDAOFork_def cfg_IsEIP158_def isForkBlockIncompatible_def)
  show ?thesis
    unfolding compat_checks_def list.pred_inject
    by (intro conjI TrueI rewinds_checks(2) rewinds_checks(1) [OF f(1)] rewinds_checks(1) [OF f(2)] rewinds_checks(1) [OF f(3)]
        rewinds_checks(3) z [THEN conjunct1] z [THEN conjunct2, THEN conjunct1] z [THEN conjunct2, THEN conjunct2, THEN conjunct1]
        z [THEN conjunct2, THEN conjunct2, THEN conjunct2]) simp_all
qed

lemma compatible_rewinds:
  assumes "zero_times_agree c d" "checkCompatible c d (Some (uint bhead)) btime = Some err"
  shows "rewinds_block bhead err \<or> rewinds_time btime err"
proof -
  obtain x where x: "find fst (compat_checks c d (Some (uint bhead)) btime) = Some x" "err = snd x"
    using assms(2) by (auto simp: checkCompatible_def)
  then have "x \<in> set (compat_checks c d (Some (uint bhead)) btime)" "fst x"
    by (metis find_Some_iff nth_mem)+
  then show ?thesis using checks_rewind [OF assms(1)] x(2) by (metis list_all_iff rewinds_def)
qed

lemma compat_loop_ends:
  assumes z: "zero_times_agree c d"
  shows "unat bhead + unat btime + 2 \<le> n \<Longrightarrow> compat_loop n c d bhead btime lasterr \<noteq> OutOfFuel"
proof (induction n arbitrary: bhead btime lasterr)
  case (Suc n)
  show ?case
  proof (cases "checkCompatible c d (Some (uint bhead)) btime")
    case (Some err)
    have time: "compat_loop n c d bhead (RewindToTime err) (Some err) \<noteq> OutOfFuel" if "0 < RewindToTime err"
    proof -
      have "RewindToTime err < btime"
        using compatible_rewinds [OF z Some] that by (auto simp: rewinds_block_def rewinds_time_def)
      then show ?thesis using Suc.prems by (intro Suc.IH) (simp add: word_less_nat_alt)
    qed
    have block: "compat_loop n c d (RewindToBlock err) btime (Some err) \<noteq> OutOfFuel" if "RewindToTime err = 0"
    proof (cases "RewindToBlock err < bhead")
      case True
      then show ?thesis using Suc.prems by (intro Suc.IH) (simp add: word_less_nat_alt)
    next
      case False
      then have "RewindToBlock err = 0"
        using compatible_rewinds [OF z Some] by (auto simp: rewinds_block_def rewinds_time_def)
      then have "RewindToBlock err = bhead \<or> 0 < bhead" "RewindToBlock err = 0" by (auto simp: word_gt_0)
      moreover obtain m where "n = Suc m" using Suc.prems by (cases n) auto
      ultimately show ?thesis
        using False Some by auto
    qed
    show ?thesis using Some time block by (auto simp: word_gt_0)
  qed simp
qed simp

lemma compat_loop_keeps: "compat_loop n c d bhead btime (Some e) = Ret r \<Longrightarrow> r \<noteq> None"
  by (induction n arbitrary: bhead btime e) (auto split: option.splits if_splits)

text \<open>
  C31. \<open>CheckCompatible\<close> ends, and reports an error exactly when the two configurations disagree at the
  head, if no fork moves to or from time 0: its loop rewinds the head to a smaller block or time until
  the conflict stays where it is. As many rounds as the height plus the time plus two are enough.
\<close>

theorem compat_check_ends:
  assumes "zero_times_agree c newcfg" "unat height + unat time + 2 \<le> fuel"
  shows "\<exists>r. CheckCompatible fuel c newcfg height time = Ret r \<and>
    (r = None \<longleftrightarrow> checkCompatible c newcfg (Some (uint height)) time = None)"
proof -
  have "\<exists>r. compat_loop fuel c newcfg height time None = Ret r"
  proof -
    have "compat_loop n c newcfg b t l \<noteq> Panic p" for n b t l p
      by (induction n arbitrary: b t l) (auto split: option.splits)
    then show ?thesis using compat_loop_ends [OF assms] by (metis go.exhaust)
  qed
  then obtain r where r: "compat_loop fuel c newcfg height time None = Ret r" by blast
  obtain m where "fuel = Suc m" using assms(2) by (cases fuel) auto
  then show ?thesis using r compat_loop_keeps
    by (auto simp: CheckCompatible_def split: option.splits if_splits)
qed

text \<open>Cancun dropped, Prague activated from the start.\<close>

definition prague_later :: ChainConfig where
  "prague_later = MainnetChainConfig\<lparr>ShanghaiTime := Some 0, CancunTime := Some 100\<rparr>"

definition prague_now :: ChainConfig where
  "prague_now = MainnetChainConfig\<lparr>ShanghaiTime := Some 0, CancunTime := None, PragueTime := Some 0\<rparr>"

theorem compat_check_ends_witness:
  "\<exists>r. CheckCompatible 52 prague_later (MainnetChainConfig\<lparr>ShanghaiTime := Some 0\<rparr>) 0 50 = Ret r \<and>
    (r = None \<longleftrightarrow> checkCompatible prague_later (MainnetChainConfig\<lparr>ShanghaiTime := Some 0\<rparr>) (Some (uint (0 :: u64))) 50 = None)"
  by (rule compat_check_ends) (simp_all add: zero_times_agree_def prague_later_def MainnetChainConfig_def)

lemma compat_flip:
  "checkCompatible prague_later prague_now (Some 0) 50 =
     Some (newTimestampCompatError ''Prague fork timestamp'' None (Some 0))"
  "checkCompatible prague_later prague_now (Some 0) 99 =
     Some (newTimestampCompatError ''Prague fork timestamp'' None (Some 0))"
  "checkCompatible prague_later prague_now (Some 0) (- 1) =
     Some (newTimestampCompatError ''Cancun fork timestamp'' (Some 100) None)"
  by (simp_all add: checkCompatible_def compat_checks_def prague_later_def prague_now_def MainnetChainConfig_def
      block_check_def time_check_def isForkBlockIncompatible_def isForkTimestampIncompatible_def isTimestampForked_def
      isBlockForked_def cfg_IsDAOFork_def cfg_IsEIP158_def)

text \<open>
  C36. \<open>CheckCompatible\<close> loops forever on two configurations that \<open>CheckConfigForkOrder\<close> accepts: for a
  fork that moves to time 0, \<open>newTimestampCompatError\<close> computes 0 - 1, the loop jumps to the largest
  time, there an earlier fork conflicts and sends it back, and so on.
\<close>

theorem compat_check_diverges:
  "CheckConfigForkOrder prague_later = None \<and> CheckConfigForkOrder prague_now = None \<and>
   CheckCompatible fuel prague_later prague_now 0 50 = OutOfFuel"
proof -
  have "compat_loop n prague_later prague_now 0 99 (Some (newTimestampCompatError ''Cancun fork timestamp'' (Some 100) None))
      = OutOfFuel \<and>
    compat_loop n prague_later prague_now 0 (- 1) (Some (newTimestampCompatError ''Prague fork timestamp'' None (Some 0)))
      = OutOfFuel" for n
    by (induction n) (auto simp: compat_flip newTimestampCompatError_def word_gt_0)
  then have "compat_loop fuel prague_later prague_now 0 50 None = OutOfFuel"
    by (cases fuel) (auto simp: compat_flip newTimestampCompatError_def word_gt_0)
  then show ?thesis
    by (simp add: CheckCompatible_def CheckConfigForkOrder_def fork_entries_def prague_later_def prague_now_def
        MainnetChainConfig_def opt_le_def)
qed

end
