(* ===== verification/Precompiles.thy ===== *)
theory Precompiles imports Chain_Config EVM_Calls begin

text \<open>
  The precompiled contracts: \<open>core/vm/contracts.go\<close>, with the compression function of
  \<open>crypto/blake2b\<close>. Elliptic curves, hash functions and KZG proofs are the parameter \<open>crypto_lib\<close>;
  everything else (parsing, prices, modular exponentiation, BLAKE2b) is translated. \<open>Run\<close> gives
  \<open>None\<close> for a panic.
\<close>

section \<open>Big-endian numbers\<close>

definition nat_of_bytes :: "bytes \<Rightarrow> nat" where
  "nat_of_bytes bs = foldl (\<lambda>acc b. acc * 256 + unat b) 0 bs"

text \<open>\<open>big.Int.Bytes\<close> and \<open>big.Int.BitLen\<close> of a number that is not negative.\<close>

fun nat_Bytes :: "nat \<Rightarrow> bytes" where
  "nat_Bytes n = (if n = 0 then [] else nat_Bytes (n div 256) @ [word_of_nat n])"

fun bit_len :: "nat \<Rightarrow> nat" where
  "bit_len n = (if n = 0 then 0 else Suc (bit_len (n div 2)))"

declare nat_Bytes.simps [simp del] bit_len.simps [simp del]

section \<open>Parameters\<close>

text \<open>Points of the curve and of the twist are represented by the bytes \<open>Marshal\<close> gives for them.\<close>

type_synonym curve_point = bytes
type_synonym twist_point = bytes

record crypto_lib =
  crypto_Ecrecover :: "bytes \<Rightarrow> bytes \<Rightarrow> bytes option"
  sha256_Sum256 :: "bytes \<Rightarrow> bytes"
  ripemd160_Sum :: "bytes \<Rightarrow> bytes"
  G1_Unmarshal :: "bytes \<Rightarrow> string + curve_point"
  G2_Unmarshal :: "bytes \<Rightarrow> string + twist_point"
  G1_Add :: "curve_point \<Rightarrow> curve_point \<Rightarrow> curve_point"
  G1_ScalarMult :: "curve_point \<Rightarrow> nat \<Rightarrow> curve_point"
  bn256_PairingCheck :: "curve_point list \<Rightarrow> twist_point list \<Rightarrow> bool"
  kzg_VerifyProof :: "bytes \<Rightarrow> bytes \<Rightarrow> bytes \<Rightarrow> bytes \<Rightarrow> string option"

text \<open>The outcome of \<open>Run\<close>: output and perhaps an error, or a panic.\<close>

type_synonym precompile_result = "(bytes \<times> string option) option"

text \<open>\<open>getData\<close>, which panics if the end of the requested part wraps around.\<close>

definition get_data :: "bytes \<Rightarrow> u64 \<Rightarrow> u64 \<Rightarrow> bytes option" where
  "get_data input start sz = (case getData input start sz of Ret d \<Rightarrow> Some d | _ \<Rightarrow> None)"

section \<open>Recovery of signers and hashes\<close>

abbreviation (input) secp256k1N :: nat where
  "secp256k1N \<equiv> 0xfffffffffffffffffffffffffffffffebaaedce6af48a03bbfd25e8cd0364141"

definition ValidateSignatureValues :: "u8 \<Rightarrow> nat \<Rightarrow> nat \<Rightarrow> bool \<Rightarrow> bool" where
  "ValidateSignatureValues v r s homestead =
     (if r < 1 \<or> s < 1 then False
      else if homestead \<and> s > secp256k1N div 2 then False
      else r < secp256k1N \<and> s < secp256k1N \<and> (v = 0 \<or> v = 1))"

definition ecrecover_Run :: "database \<Rightarrow> crypto_lib \<Rightarrow> bytes \<Rightarrow> precompile_result" where
  "ecrecover_Run db cl input =
     (let input = RightPadBytes input 128;
          r = nat_of_bytes (take 32 (drop 64 input));
          s = nat_of_bytes (take 32 (drop 96 input));
          v = input ! 63 - 27
      in if \<not> allZero (take 31 (drop 32 input)) \<or> \<not> ValidateSignatureValues v r s False then Some ([], None)
         else let sig = take 64 (drop 64 input) @ [v]
              in case crypto_Ecrecover cl (take 32 input) sig of
                   None \<Rightarrow> Some ([], None)
                 | Some pubKey \<Rightarrow> Some (LeftPadBytes (drop 12 (Bytes32 (Keccak256Hash db (drop 1 pubKey)))) 32, None))"

definition word_price :: "u64 \<Rightarrow> u64 \<Rightarrow> bytes \<Rightarrow> u64" where
  "word_price per_word base input = (len64 input + 31) div 32 * per_word + base"

definition ecrecover :: "database \<Rightarrow> crypto_lib \<Rightarrow> precompiled" where
  "ecrecover db cl = \<lparr>RequiredGas = (\<lambda>input. EcrecoverGas), precompiled_Run = ecrecover_Run db cl\<rparr>"

definition sha256hash :: "crypto_lib \<Rightarrow> precompiled" where
  "sha256hash cl = \<lparr>RequiredGas = word_price Sha256PerWordGas Sha256BaseGas,
     precompiled_Run = (\<lambda>input. Some (sha256_Sum256 cl input, None))\<rparr>"

definition ripemd160hash :: "crypto_lib \<Rightarrow> precompiled" where
  "ripemd160hash cl = \<lparr>RequiredGas = word_price Ripemd160PerWordGas Ripemd160BaseGas,
     precompiled_Run = (\<lambda>input. Some (LeftPadBytes (ripemd160_Sum cl input) 32, None))\<rparr>"

definition dataCopy :: precompiled where
  "dataCopy = \<lparr>RequiredGas = word_price IdentityPerWordGas IdentityBaseGas,
     precompiled_Run = (\<lambda>input. Some (input, None))\<rparr>"

section \<open>Modular exponentiation\<close>

definition modexpMultComplexity :: "nat \<Rightarrow> nat" where
  "modexpMultComplexity x =
     (if x \<le> 64 then x * x
      else if x \<le> 1024 then x * x div 4 + (96 * x - 3072)
      else x * x div 16 + (480 * x - 199680))"

text \<open>The three lengths at the start of the input, and the operands after them.\<close>

definition modexp_lens :: "bytes \<Rightarrow> (nat \<times> nat \<times> nat) option" where
  "modexp_lens input =
     (case (get_data input 0 32, get_data input 32 32, get_data input 64 32) of
        (Some b, Some e, Some m) \<Rightarrow> Some (nat_of_bytes b, nat_of_bytes e, nat_of_bytes m)
      | _ \<Rightarrow> None)"

definition modexp_operands :: "bytes \<Rightarrow> bytes" where
  "modexp_operands input = (if length input > 96 then drop 96 input else [])"

text \<open>
  The price. The parts that are read have at most 32 bytes, so \<open>getData\<close> does not panic on an
  input that fits the address space; the fallback values are never used.
\<close>

definition modexp_adjExpLen :: "bytes \<Rightarrow> nat \<Rightarrow> nat \<Rightarrow> nat" where
  "modexp_adjExpLen operands baseLen expLen =
     (let expHead =
            (if length operands \<le> baseLen then 0
             else nat_of_bytes (case get_data operands (word_of_nat baseLen) (if expLen > 32 then 32 else word_of_nat expLen)
               of None \<Rightarrow> [] | Some d \<Rightarrow> d));
          msb = (if bit_len expHead > 0 then bit_len expHead - 1 else 0)
      in (if expLen > 32 then 8 * (expLen - 32) else 0) + msb)"

definition bigModExp_RequiredGas :: "bool \<Rightarrow> bytes \<Rightarrow> u64" where
  "bigModExp_RequiredGas eip2565 input =
     (let (baseLen, expLen, modLen) = (case modexp_lens input of None \<Rightarrow> (0, 0, 0) | Some l \<Rightarrow> l);
          adjExpLen = modexp_adjExpLen (modexp_operands input) baseLen expLen;
          gas = max modLen baseLen
      in if eip2565 then
           let gas = (gas + 7) div 8;
               gas = gas * gas * max adjExpLen 1 div 3
           in if bit_len gas > 64 then - 1
              else if (word_of_nat gas :: u64) < 200 then 200 else word_of_nat gas
         else
           let gas = modexpMultComplexity gas * max adjExpLen 1 div 20
           in if bit_len gas > 64 then - 1 else word_of_nat gas)"

text \<open>The lengths are truncated to 64 bits here.\<close>

definition bigModExp_Run :: "bytes \<Rightarrow> precompile_result" where
  "bigModExp_Run input =
     (case modexp_lens input of
        None \<Rightarrow> None
      | Some (b, e, m) \<Rightarrow>
          let baseLen = word_of_nat b :: u64; expLen = word_of_nat e :: u64; modLen = word_of_nat m :: u64;
              input = modexp_operands input
          in if baseLen = 0 \<and> modLen = 0 then Some ([], None)
             else case (get_data input 0 baseLen, get_data input baseLen expLen, get_data input (baseLen + expLen) modLen) of
               (Some base, Some exp, Some mod_bytes) \<Rightarrow>
                 let base = nat_of_bytes base; exp = nat_of_bytes exp; mod_nat = nat_of_bytes mod_bytes;
                     len = nat (Int64 modLen)
                 in if bit_len mod_nat = 0 then Some (LeftPadBytes [] len, None)
                    else let v = (if bit_len base = 1 then base mod mod_nat else base ^ exp mod mod_nat)
                         in Some (LeftPadBytes (nat_Bytes v) len, None)
             | _ \<Rightarrow> None)"

definition bigModExp :: "bool \<Rightarrow> precompiled" where
  "bigModExp eip2565 = \<lparr>RequiredGas = bigModExp_RequiredGas eip2565, precompiled_Run = bigModExp_Run\<rparr>"

section \<open>The curve bn256\<close>

definition res_bind :: "string + 'a \<Rightarrow> ('a \<Rightarrow> precompile_result) \<Rightarrow> precompile_result" where
  "res_bind m f = (case m of Inl err \<Rightarrow> Some ([], Some err) | Inr x \<Rightarrow> f x)"

definition newCurvePoint :: "crypto_lib \<Rightarrow> bytes \<Rightarrow> string + curve_point" where
  "newCurvePoint cl blob = G1_Unmarshal cl blob"

definition newTwistPoint :: "crypto_lib \<Rightarrow> bytes \<Rightarrow> string + twist_point" where
  "newTwistPoint cl blob = G2_Unmarshal cl blob"

definition runBn256Add :: "crypto_lib \<Rightarrow> bytes \<Rightarrow> precompile_result" where
  "runBn256Add cl input =
     (case (get_data input 0 64, get_data input 64 64) of
        (Some bx, Some yb) \<Rightarrow>
          res_bind (newCurvePoint cl bx) (\<lambda>x. res_bind (newCurvePoint cl yb) (\<lambda>y. Some (G1_Add cl x y, None)))
      | _ \<Rightarrow> None)"

definition runBn256ScalarMul :: "crypto_lib \<Rightarrow> bytes \<Rightarrow> precompile_result" where
  "runBn256ScalarMul cl input =
     (case (get_data input 0 64, get_data input 64 32) of
        (Some bp, Some k) \<Rightarrow> res_bind (newCurvePoint cl bp) (\<lambda>p. Some (G1_ScalarMult cl p (nat_of_bytes k), None))
      | _ \<Rightarrow> None)"

definition true32Byte :: bytes where "true32Byte = replicate 31 0 @ [1]"
definition false32Byte :: bytes where "false32Byte = replicate 32 0"

text \<open>The loop of \<open>runBn256Pairing\<close> over chunks of 192 bytes.\<close>

fun pairing_points :: "crypto_lib \<Rightarrow> bytes \<Rightarrow> string + (curve_point list \<times> twist_point list)" where
  "pairing_points cl input =
     (if length input < 192 then Inr ([], [])
      else case newCurvePoint cl (take 64 input) of Inl err \<Rightarrow> Inl err
        | Inr c \<Rightarrow> (case newTwistPoint cl (take 128 (drop 64 input)) of Inl err \<Rightarrow> Inl err
        | Inr t \<Rightarrow> (case pairing_points cl (drop 192 input) of Inl err \<Rightarrow> Inl err
        | Inr (cs, ts) \<Rightarrow> Inr (c # cs, t # ts))))"

declare pairing_points.simps [simp del]

definition runBn256Pairing :: "crypto_lib \<Rightarrow> bytes \<Rightarrow> precompile_result" where
  "runBn256Pairing cl input =
     (if length input mod 192 > 0 then Some ([], Some ''bad elliptic curve pairing size'')
      else res_bind (pairing_points cl input) (\<lambda>(cs, ts).
        Some (if bn256_PairingCheck cl cs ts then true32Byte else false32Byte, None)))"

definition pairing_price :: "u64 \<Rightarrow> u64 \<Rightarrow> bytes \<Rightarrow> u64" where
  "pairing_price base per_point input = base + word_of_nat (length input div 192) * per_point"

definition bn256AddIstanbul :: "crypto_lib \<Rightarrow> precompiled" where
  "bn256AddIstanbul cl = \<lparr>RequiredGas = (\<lambda>_. Bn256AddGasIstanbul), precompiled_Run = runBn256Add cl\<rparr>"
definition bn256AddByzantium :: "crypto_lib \<Rightarrow> precompiled" where
  "bn256AddByzantium cl = \<lparr>RequiredGas = (\<lambda>_. Bn256AddGasByzantium), precompiled_Run = runBn256Add cl\<rparr>"
definition bn256ScalarMulIstanbul :: "crypto_lib \<Rightarrow> precompiled" where
  "bn256ScalarMulIstanbul cl = \<lparr>RequiredGas = (\<lambda>_. Bn256ScalarMulGasIstanbul), precompiled_Run = runBn256ScalarMul cl\<rparr>"
definition bn256ScalarMulByzantium :: "crypto_lib \<Rightarrow> precompiled" where
  "bn256ScalarMulByzantium cl = \<lparr>RequiredGas = (\<lambda>_. Bn256ScalarMulGasByzantium), precompiled_Run = runBn256ScalarMul cl\<rparr>"
definition bn256PairingIstanbul :: "crypto_lib \<Rightarrow> precompiled" where
  "bn256PairingIstanbul cl =
     \<lparr>RequiredGas = pairing_price Bn256PairingBaseGasIstanbul Bn256PairingPerPointGasIstanbul, precompiled_Run = runBn256Pairing cl\<rparr>"
definition bn256PairingByzantium :: "crypto_lib \<Rightarrow> precompiled" where
  "bn256PairingByzantium cl =
     \<lparr>RequiredGas = pairing_price Bn256PairingBaseGasByzantium Bn256PairingPerPointGasByzantium, precompiled_Run = runBn256Pairing cl\<rparr>"

section \<open>BLAKE2b\<close>

definition blake_iv :: "u64 list" where
  "blake_iv = [0x6a09e667f3bcc908, 0xbb67ae8584caa73b, 0x3c6ef372fe94f82b, 0xa54ff53a5f1d36f1,
     0x510e527fade682d1, 0x9b05688c2b3e6c1f, 0x1f83d9abfb41bd6b, 0x5be0cd19137e2179]"

definition precomputed :: "nat list list" where
  "precomputed =
     [[0, 2, 4, 6, 1, 3, 5, 7, 8, 10, 12, 14, 9, 11, 13, 15],
      [14, 4, 9, 13, 10, 8, 15, 6, 1, 0, 11, 5, 12, 2, 7, 3],
      [11, 12, 5, 15, 8, 0, 2, 13, 10, 3, 7, 9, 14, 6, 1, 4],
      [7, 3, 13, 11, 9, 1, 12, 14, 2, 5, 4, 15, 6, 10, 0, 8],
      [9, 5, 2, 10, 0, 7, 4, 15, 14, 11, 6, 3, 1, 12, 8, 13],
      [2, 6, 0, 8, 12, 10, 11, 3, 4, 7, 15, 1, 13, 5, 14, 9],
      [12, 1, 14, 4, 5, 15, 13, 10, 0, 6, 9, 8, 7, 3, 2, 11],
      [13, 7, 12, 3, 11, 14, 1, 9, 5, 15, 8, 2, 0, 4, 6, 10],
      [6, 14, 11, 0, 15, 9, 3, 8, 12, 13, 1, 10, 2, 7, 4, 5],
      [10, 8, 7, 1, 2, 4, 6, 5, 15, 9, 3, 13, 11, 14, 12, 0]]"

text \<open>
  The seven statements that the loop body repeats 16 times, for the variables \<open>va\<close>, \<open>vb\<close>, \<open>vc\<close>, \<open>vd\<close>
  and the rotations \<open>r1\<close>, \<open>r2\<close>; the 16 variables are a list.
\<close>

definition blake_mix :: "u64 \<Rightarrow> nat \<times> nat \<times> nat \<times> nat \<times> nat \<times> nat \<Rightarrow> u64 list \<Rightarrow> u64 list" where
  "blake_mix m step v =
     (case step of (a, b, c, d, r1, r2) \<Rightarrow>
        let v = v[a := v ! a + m]; v = v[a := v ! a + v ! b];
            v = v[d := v ! d XOR v ! a]; v = v[d := word_rotr r1 (v ! d)];
            v = v[c := v ! c + v ! d]; v = v[b := v ! b XOR v ! c]
        in v[b := word_rotr r2 (v ! b)])"

definition blake_steps :: "(nat \<times> nat \<times> nat \<times> nat \<times> nat \<times> nat) list" where
  "blake_steps =
     [(0, 4, 8, 12, 32, 24), (1, 5, 9, 13, 32, 24), (2, 6, 10, 14, 32, 24), (3, 7, 11, 15, 32, 24),
      (0, 4, 8, 12, 16, 63), (1, 5, 9, 13, 16, 63), (2, 6, 10, 14, 16, 63), (3, 7, 11, 15, 16, 63),
      (0, 5, 10, 15, 32, 24), (1, 6, 11, 12, 32, 24), (2, 7, 8, 13, 32, 24), (3, 4, 9, 14, 32, 24),
      (0, 5, 10, 15, 16, 63), (1, 6, 11, 12, 16, 63), (2, 7, 8, 13, 16, 63), (3, 4, 9, 14, 16, 63)]"

definition blake_round :: "u64 list \<Rightarrow> nat \<Rightarrow> u64 list \<Rightarrow> u64 list" where
  "blake_round m i v = fold (\<lambda>(k, step). blake_mix (m ! k) step) (zip (precomputed ! (i mod 10)) blake_steps) v"

definition fGeneric :: "u64 list \<Rightarrow> u64 list \<Rightarrow> u64 \<Rightarrow> u64 \<Rightarrow> u64 \<Rightarrow> nat \<Rightarrow> u64 list" where
  "fGeneric h m c0 c1 flag rounds =
     (let v = h @ blake_iv;
          v = v[12 := v ! 12 XOR c0, 13 := v ! 13 XOR c1, 14 := v ! 14 XOR flag];
          v = fold (blake_round m) [0..<rounds] v
      in map (\<lambda>i. h ! i XOR (v ! i XOR v ! (i + 8))) [0..<8])"

definition blake2b_F :: "u64 list \<Rightarrow> u64 list \<Rightarrow> u64 \<times> u64 \<Rightarrow> bool \<Rightarrow> nat \<Rightarrow> u64 list" where
  "blake2b_F h m c final rounds = fGeneric h m (fst c) (snd c) (if final then 0xFFFFFFFFFFFFFFFF else 0) rounds"

text \<open>\<open>binary.LittleEndian\<close>, on eight bytes.\<close>

definition le_Uint64 :: "bytes \<Rightarrow> u64" where
  "le_Uint64 b = SetBytes (rev b)"

definition le_PutUint64 :: "u64 \<Rightarrow> bytes" where
  "le_PutUint64 w = map (\<lambda>i. ucast (drop_bit (8 * i) w)) [0..<8]"

definition blake2F_RequiredGas :: "bytes \<Rightarrow> u64" where
  "blake2F_RequiredGas input = (if length input \<noteq> 213 then 0 else SetBytes (take 4 input))"

definition blake2F_Run :: "bytes \<Rightarrow> precompile_result" where
  "blake2F_Run input =
     (if length input \<noteq> 213 then Some ([], Some ''invalid input length'')
      else if input ! 212 \<noteq> 0 \<and> input ! 212 \<noteq> 1 then Some ([], Some ''invalid final flag'')
      else let rounds = nat_of_bytes (take 4 input);
               final = (input ! 212 = 1);
               word_at = (\<lambda>off. le_Uint64 (take 8 (drop off input)));
               h = map (\<lambda>i. word_at (4 + i * 8)) [0..<8];
               m = map (\<lambda>i. word_at (68 + i * 8)) [0..<16];
               h = blake2b_F h m (word_at 196, word_at 204) final rounds
           in Some (concat (map le_PutUint64 h), None))"

definition blake2F :: precompiled where
  "blake2F = \<lparr>RequiredGas = blake2F_RequiredGas, precompiled_Run = blake2F_Run\<rparr>"

section \<open>KZG point evaluation\<close>

definition kZGToVersionedHash :: "crypto_lib \<Rightarrow> bytes \<Rightarrow> bytes" where
  "kZGToVersionedHash cl kzg = (sha256_Sum256 cl kzg)[0 := 1]"

definition blobPrecompileReturnValue :: bytes where
  "blobPrecompileReturnValue =
     Bytes32 0x1000 @ Bytes32 0x73eda753299d7d483339d80809a1d80553bda402fffe5bfeffffffff00000001"

definition kzgPointEvaluation_Run :: "crypto_lib \<Rightarrow> bytes \<Rightarrow> precompile_result" where
  "kzgPointEvaluation_Run cl input =
     (if length input \<noteq> 192 then Some ([], Some ''invalid input length'')
      else let versionedHash = take 32 input;
               point = take 32 (drop 32 input);
               claim = take 32 (drop 64 input);
               commitment = take 48 (drop 96 input)
           in if kZGToVersionedHash cl commitment \<noteq> versionedHash then Some ([], Some ''mismatched versioned hash'')
              else let kzgProof = take 48 (drop 144 input)
                   in case kzg_VerifyProof cl commitment point claim kzgProof of
                        Some err \<Rightarrow> Some ([], Some (''error verifying kzg proof: '' @ err))
                      | None \<Rightarrow> Some (blobPrecompileReturnValue, None))"

definition kzgPointEvaluation :: "crypto_lib \<Rightarrow> precompiled" where
  "kzgPointEvaluation cl =
     \<lparr>RequiredGas = (\<lambda>_. BlobTxPointEvaluationPrecompileGas), precompiled_Run = kzgPointEvaluation_Run cl\<rparr>"

section \<open>The contracts of each fork\<close>

definition homestead_contracts :: "database \<Rightarrow> crypto_lib \<Rightarrow> (address \<times> precompiled) list" where
  "homestead_contracts db cl = [(1, ecrecover db cl), (2, sha256hash cl), (3, ripemd160hash cl), (4, dataCopy)]"

definition byzantium_contracts :: "database \<Rightarrow> crypto_lib \<Rightarrow> (address \<times> precompiled) list" where
  "byzantium_contracts db cl =
     [(1, ecrecover db cl), (2, sha256hash cl), (3, ripemd160hash cl), (4, dataCopy), (5, bigModExp False),
      (6, bn256AddByzantium cl), (7, bn256ScalarMulByzantium cl), (8, bn256PairingByzantium cl)]"

definition istanbul_contracts :: "database \<Rightarrow> crypto_lib \<Rightarrow> (address \<times> precompiled) list" where
  "istanbul_contracts db cl =
     [(1, ecrecover db cl), (2, sha256hash cl), (3, ripemd160hash cl), (4, dataCopy), (5, bigModExp False),
      (6, bn256AddIstanbul cl), (7, bn256ScalarMulIstanbul cl), (8, bn256PairingIstanbul cl), (9, blake2F)]"

definition berlin_contracts :: "database \<Rightarrow> crypto_lib \<Rightarrow> (address \<times> precompiled) list" where
  "berlin_contracts db cl =
     [(1, ecrecover db cl), (2, sha256hash cl), (3, ripemd160hash cl), (4, dataCopy), (5, bigModExp True),
      (6, bn256AddIstanbul cl), (7, bn256ScalarMulIstanbul cl), (8, bn256PairingIstanbul cl), (9, blake2F)]"

definition cancun_contracts :: "database \<Rightarrow> crypto_lib \<Rightarrow> (address \<times> precompiled) list" where
  "cancun_contracts db cl =
     [(1, ecrecover db cl), (2, sha256hash cl), (3, ripemd160hash cl), (4, dataCopy), (5, bigModExp True),
      (6, bn256AddIstanbul cl), (7, bn256ScalarMulIstanbul cl), (8, bn256PairingIstanbul cl), (9, blake2F),
      (10, kzgPointEvaluation cl)]"

text \<open>The addresses of the contracts of a fork, the keys of its map (Go lists them in some order).\<close>

definition ActivePrecompiles :: "rules \<Rightarrow> address list" where
  "ActivePrecompiles r =
     (if IsCancun r then [1, 2, 3, 4, 5, 6, 7, 8, 9, 10]
      else if IsBerlin r then [1, 2, 3, 4, 5, 6, 7, 8, 9]
      else if IsIstanbul r then [1, 2, 3, 4, 5, 6, 7, 8, 9]
      else if IsByzantium r then [1, 2, 3, 4, 5, 6, 7, 8]
      else [1, 2, 3, 4])"

section \<open>A new EVM\<close>

text \<open>
  The immutable part of \<open>NewEVM\<close>: the contexts with the base fees lowered to 0 if \<open>Config.NoBaseFee\<close>
  is set, the rules of the block, the contracts of each fork. \<open>BlobFeeCap\<close> of the transaction context is
  only read here.
\<close>

definition NewEVM :: "uint256_lib \<Rightarrow> database \<Rightarrow> crypto_lib \<Rightarrow> (nat \<Rightarrow> bool) \<Rightarrow> ChainConfig \<Rightarrow> bool \<Rightarrow> bool \<Rightarrow>
    block_context \<Rightarrow> tx_context \<Rightarrow> int option \<Rightarrow> env" where
  "NewEVM lib db cl aborts chainConfig noBaseFee recordPreimages blockCtx txCtx blobFeeCap =
     (let blockCtx = (if noBaseFee \<and> GasPrice txCtx = 0 then blockCtx\<lparr>BaseFee := Some 0\<rparr> else blockCtx);
          blockCtx = (if noBaseFee \<and> blobFeeCap = Some 0 then blockCtx\<lparr>BlobBaseFee := Some 0\<rparr> else blockCtx)
      in \<lparr>env_lib = lib, env_db = db, Context = blockCtx, TxContext = txCtx,
          ChainID = cfg_ChainID chainConfig,
          chainRules = snd (cfg_Rules chainConfig (Some (BlockNumber blockCtx)) (Random blockCtx \<noteq> None) (Time blockCtx)),
          EnablePreimageRecording = recordPreimages,
          PrecompiledContractsHomestead = map_of (homestead_contracts db cl),
          PrecompiledContractsByzantium = map_of (byzantium_contracts db cl),
          PrecompiledContractsIstanbul = map_of (istanbul_contracts db cl),
          PrecompiledContractsBerlin = map_of (berlin_contracts db cl),
          PrecompiledContractsCancun = map_of (cancun_contracts db cl), abort_load = aborts\<rparr>)"

section \<open>Modular exponentiation is correct for the gas it costs\<close>

lemma bit_len_le: "bit_len n \<le> k \<longleftrightarrow> n < 2 ^ k"
proof (induction k arbitrary: n)
  case 0
  show ?case by (subst bit_len.simps) simp
next
  case (Suc k)
  have "bit_len n \<le> Suc k \<longleftrightarrow> n = 0 \<or> bit_len (n div 2) \<le> k"
    by (subst bit_len.simps) simp
  also have "\<dots> \<longleftrightarrow> n div 2 < 2 ^ k"
    unfolding Suc.IH by auto
  also have "\<dots> \<longleftrightarrow> n < 2 ^ Suc k"
    by (simp add: div_less_iff_less_mult mult.commute)
  finally show ?case .
qed

lemma bit_len_1: "bit_len n = 1 \<longleftrightarrow> n = 1"
proof -
  have "bit_len n = 1 \<longleftrightarrow> bit_len n \<le> 1 \<and> \<not> bit_len n \<le> 0" by auto
  then show ?thesis unfolding bit_len_le by auto
qed

lemma bit_len_0 [simp]: "bit_len n = 0 \<longleftrightarrow> n = 0"
  using bit_len_le [of n 0] by simp

lemma nat_of_bytes_snoc [simp]: "nat_of_bytes [] = 0" "nat_of_bytes (bs @ [b]) = nat_of_bytes bs * 256 + unat b"
  by (simp_all add: nat_of_bytes_def)

lemma nat_of_bytes_bound: "nat_of_bytes bs < 256 ^ length bs"
proof (induction bs rule: rev_induct)
  case (snoc b bs)
  have "unat b < 256" using unsigned_less [where 'a = nat, of b] by simp
  then have "nat_of_bytes bs * 256 + unat b < Suc (nat_of_bytes bs) * 256" by simp
  also have "\<dots> \<le> 256 ^ length bs * 256" using snoc by (intro mult_right_mono) simp_all
  finally show ?case by (simp add: mult.commute)
qed simp

lemma nat_of_bytes_zeros [simp]: "nat_of_bytes (replicate n 0) = 0"
proof (induction n)
  case (Suc n)
  have "replicate (Suc n) (0 :: u8) = replicate n 0 @ [0]" by (simp add: replicate_append_same)
  then show ?case using Suc by (simp only: nat_of_bytes_snoc) simp
qed simp

lemma nat_of_bytes_pad: "nat_of_bytes (replicate n 0 @ bs) = nat_of_bytes bs"
  by (induction bs rule: rev_induct) (simp_all flip: append_assoc)

lemma nat_of_bytes_Bytes: "nat_of_bytes (nat_Bytes n) = n"
proof (induction n rule: nat_Bytes.induct)
  case (1 n)
  show ?case
  proof (cases "n = 0")
    case False
    then show ?thesis using 1 by (subst nat_Bytes.simps) (simp add: unat_of_nat)
  qed (simp add: nat_Bytes.simps)
qed

lemma length_nat_Bytes: "n < 256 ^ k \<Longrightarrow> length (nat_Bytes n) \<le> k"
proof (induction n arbitrary: k rule: nat_Bytes.induct)
  case (1 n)
  show ?case
  proof (cases "n = 0")
    case False
    then obtain j where k: "k = Suc j" using "1.prems" by (cases k) auto
    then have "n div 256 < 256 ^ j" using "1.prems" by (simp add: div_less_iff_less_mult mult.commute)
    then show ?thesis using "1.IH" [OF False] False k by (subst nat_Bytes.simps) simp
  qed (simp add: nat_Bytes.simps)
qed

lemma padded_Bytes:
  assumes "v < 256 ^ k"
  shows "length (LeftPadBytes (nat_Bytes v) k) = k \<and> nat_of_bytes (LeftPadBytes (nat_Bytes v) k) = v"
  using length_nat_Bytes [OF assms] by (auto simp: LeftPadBytes_def nat_of_bytes_Bytes nat_of_bytes_pad)

text \<open>The input continues with zeros: \<open>sz\<close> bytes from position \<open>off\<close> on, as a number.\<close>

definition operand :: "bytes \<Rightarrow> nat \<Rightarrow> nat \<Rightarrow> nat" where
  "operand input off sz = nat_of_bytes (take sz (drop off input @ replicate sz 0))"

lemma get_data_operand:
  assumes "length input < 2 ^ 63" "unat sz < 2 ^ 63"
  shows "\<exists>d. get_data input start sz = Some d \<and> length d = unat sz \<and> nat_of_bytes d = operand input (unat start) (unat sz)"
  using getData_spec [OF assms, of start] by (simp add: get_data_def operand_def)

lemma modexp_lens_operands:
  assumes "length input < 2 ^ 63"
  shows "modexp_lens input = Some (operand input 0 32, operand input 32 32, operand input 64 32)"
  using get_data_operand [OF assms, of 32 0] get_data_operand [OF assms, of 32 32] get_data_operand [OF assms, of 32 64]
  by (auto simp: modexp_lens_def)

lemma length_modexp_operands: "length (modexp_operands input) \<le> length input"
  by (simp add: modexp_operands_def)

text \<open>What the price says about the lengths.\<close>

lemma modexp_price_bounds:
  assumes "modexp_lens input = Some (b, e, m)" "bigModExp_RequiredGas True input < - 1" "b \<noteq> 0 \<or> m \<noteq> 0"
  shows "b < 2 ^ 40" "m < 2 ^ 40" "e < 2 ^ 63"
proof -
  define adj where "adj = modexp_adjExpLen (modexp_operands input) b e"
  define x where "x = (max m b + 7) div 8"
  have "bit_len (x * x * max adj 1 div 3) \<le> 64"
    using assms(1,2) by (auto simp: bigModExp_RequiredGas_def Let_def adj_def x_def split: if_splits)
  then have g: "x * x * max adj 1 div 3 < 2 ^ 64" unfolding bit_len_le .
  then have g3: "x * x * max adj 1 < 3 * 2 ^ 64" by (simp add: div_less_iff_less_mult)
  have x1: "1 \<le> x" using assms(3) by (auto simp: x_def max_def)
  have "x * x * 1 \<le> x * x * max adj 1" by (intro mult_left_mono) simp_all
  also have "\<dots> < 2 ^ 66" by (rule less_trans [OF g3]) simp
  finally have "x * x < 2 ^ 66" by simp
  then have "x < 2 ^ 33" using power_less_imp_less_base [of x 2 "2 ^ 33"] by (simp add: power2_eq_square)
  then have "max m b < 2 ^ 40" by (simp add: x_def div_less_iff_less_mult)
  then show "b < 2 ^ 40" "m < 2 ^ 40" by simp_all
  have "1 * max adj 1 \<le> x * x * max adj 1" using x1 by (intro mult_right_mono) simp_all
  then have "adj < 3 * 2 ^ 64" using g3 by simp
  moreover have "8 * (e - 32) \<le> adj" by (auto simp: adj_def modexp_adjExpLen_def Let_def)
  ultimately show "e < 2 ^ 63" by simp
qed

text \<open>
  C29. Since EIP-2565 the modular exponentiation contract does not panic and returns the right number
  for every input whose price is not the maximum (at the maximum no call can pay): with the lengths
  \<open>b\<close>, \<open>e\<close>, \<open>m\<close> of base, exponent and modulus at the start of the input, which continues with zeros
  where it is too short, the output has \<open>m\<close> bytes and is \<open>base ^ exponent mod modulus\<close>, or 0 if the
  modulus is 0; if both \<open>b\<close> and \<open>m\<close> are 0 it is empty.
\<close>

theorem modexp_correct:
  assumes "length input < 2 ^ 63" "bigModExp_RequiredGas True input < - 1"
  shows "let b = operand input 0 32; e = operand input 32 32; m = operand input 64 32;
      base = operand (drop 96 input) 0 b; exp = operand (drop 96 input) b e;
      modulus = operand (drop 96 input) (b + e) m
    in \<exists>output. bigModExp_Run input = Some (output, None) \<and> length output = m \<and>
      nat_of_bytes output = (if modulus = 0 then 0 else base ^ exp mod modulus)"
proof -
  define b e m where "b = operand input 0 32" and "e = operand input 32 32" and "m = operand input 64 32"
  have l: "modexp_lens input = Some (b, e, m)"
    unfolding b_def e_def m_def by (rule modexp_lens_operands [OF assms(1)])
  have ops: "modexp_operands input = drop 96 input" by (simp add: modexp_operands_def)
  have "\<exists>output. bigModExp_Run input = Some (output, None) \<and> length output = m \<and>
      nat_of_bytes output = (if operand (drop 96 input) (b + e) m = 0 then 0
        else operand (drop 96 input) 0 b ^ operand (drop 96 input) b e mod operand (drop 96 input) (b + e) m)"
  proof (cases "b = 0 \<and> m = 0")
    case True
    then show ?thesis by (simp add: bigModExp_Run_def l operand_def)
  next
    case False
    then have bd: "b < 2 ^ 40" "m < 2 ^ 40" "e < 2 ^ 63" using modexp_price_bounds [OF l assms(2)] by blast+
    have u: "unat (word_of_nat b :: u64) = b" "unat (word_of_nat e :: u64) = e" "unat (word_of_nat m :: u64) = m"
      using bd by (simp_all add: unat_of_nat take_bit_nat_eq_self)
    have ue: "unat (word_of_nat b + word_of_nat e :: u64) = b + e"
      using bd u by (simp add: unat_add_no_overflow)
    have n: "(word_of_nat b :: u64) = 0 \<longleftrightarrow> b = 0" "(word_of_nat m :: u64) = 0 \<longleftrightarrow> m = 0"
      using u by (simp_all only: unsigned_eq_0_iff [where 'a = nat, symmetric])
    have i: "nat (Int64 (word_of_nat m)) = m" using bd by (simp add: Int64_def sint_uint signed_take_bit_int_eq_self uint_nat u)
    have c: "\<not> ((word_of_nat b :: u64) = 0 \<and> (word_of_nat m :: u64) = 0)" using False n by blast
    have d: "length (drop 96 input) < 2 ^ 63" using assms(1) by simp
    have b63: "b < 2 ^ 63" "m < 2 ^ 63" using less_trans [OF bd(1), of "2 ^ 63"] less_trans [OF bd(2), of "2 ^ 63"] by simp_all
    obtain db where g1: "get_data (drop 96 input) 0 (word_of_nat b) = Some db" "nat_of_bytes db = operand (drop 96 input) 0 b"
      using get_data_operand [OF d, of "word_of_nat b" 0, unfolded u, OF b63(1)] by (auto simp only: unsigned_0)
    obtain de where g2: "get_data (drop 96 input) (word_of_nat b) (word_of_nat e) = Some de"
      "nat_of_bytes de = operand (drop 96 input) b e"
      using get_data_operand [OF d, of "word_of_nat e" "word_of_nat b", unfolded u, OF bd(3)] by blast
    obtain dm where g3: "get_data (drop 96 input) (word_of_nat b + word_of_nat e) (word_of_nat m) = Some dm"
      "nat_of_bytes dm = operand (drop 96 input) (b + e) m" "length dm = m"
      using get_data_operand [OF d, of "word_of_nat m" "word_of_nat b + word_of_nat e", unfolded u ue, OF b63(2)] by blast
    note g = g1 g2 g3
    let ?base = "operand (drop 96 input) 0 b" and ?exp = "operand (drop 96 input) b e"
      and ?mod = "operand (drop 96 input) (b + e) m"
    have mb: "?mod < 256 ^ m" using nat_of_bytes_bound [of dm] g3 by simp
    define v where "v = ?base ^ ?exp mod ?mod"
    have run: "bigModExp_Run input =
        (if ?mod = 0 then Some (LeftPadBytes [] m, None) else Some (LeftPadBytes (nat_Bytes v) m, None))"
      unfolding bigModExp_Run_def l ops option.case prod.case Let_def if_not_P [OF c] g i
      by (simp add: v_def bit_len_1 [simplified])
    show ?thesis
    proof (cases "?mod = 0")
      case True
      then show ?thesis using run by (simp add: LeftPadBytes_def)
    next
      case nz: False
      have "v < 256 ^ m" using mb nz by (metis mod_less_divisor gr0I less_trans v_def)
      from padded_Bytes [OF this] show ?thesis using run nz by (simp add: v_def)
    qed
  qed
  then show ?thesis unfolding Let_def b_def e_def m_def .
qed

text \<open>3 to the power 2, modulo 5.\<close>

definition modexp_input :: bytes where
  "modexp_input = replicate 31 0 @ [1] @ replicate 31 0 @ [1] @ replicate 31 0 @ [1] @ [3, 2, 5]"

lemma modexp_input_values:
  "bigModExp_RequiredGas True modexp_input < - 1" "operand modexp_input 0 32 = 1" "operand modexp_input 32 32 = 1"
  "operand modexp_input 64 32 = 1" "operand (drop 96 modexp_input) 0 1 = 3" "operand (drop 96 modexp_input) 1 1 = 2"
  "operand (drop 96 modexp_input) 2 1 = 5" "length modexp_input < 2 ^ 63"
  by (code_simp, code_simp, code_simp, code_simp, code_simp, code_simp, code_simp, simp add: modexp_input_def)

theorem modexp_correct_witness:
  "\<exists>output. bigModExp_Run modexp_input = Some (output, None) \<and> length output = 1 \<and> nat_of_bytes output = 4"
  using modexp_correct [OF modexp_input_values(8,1)] by (simp add: modexp_input_values Let_def del: One_nat_def)

end
