(* ===== verification/State_Transition.thy ===== *)
theory State_Transition imports Interpreter Precompiles begin

text \<open>
  Transactions: \<open>core/state_transition.go\<close> and \<open>core/gaspool.go\<close>. A message is checked, its gas is
  bought from the pool of the block and from the sender's balance, it is executed by the virtual
  machine, and what is left of the gas goes back to both.
\<close>

section \<open>The gas pool of a block\<close>

datatype core_error =
    Core_NonceTooLow | Core_NonceTooHigh | Core_NonceMax
  | Core_GasLimitReached
  | Core_InsufficientFundsForTransfer | Core_InsufficientFunds
  | Core_MaxInitCodeSizeExceeded
  | Core_GasUintOverflow | Core_IntrinsicGas
  | Core_TipAboveFeeCap | Core_TipVeryHigh | Core_FeeCapVeryHigh | Core_FeeCapTooLow
  | Core_SenderNoEOA
  | Core_BlobFeeCapTooLow | Core_MissingBlobHashes | Core_BlobTxCreate | Core_BlobHashVersion nat

definition gp_AddGas :: "u64 \<Rightarrow> u64 \<Rightarrow> u64 go" where
  "gp_AddGas gp amount = (if gp > 0xFFFFFFFFFFFFFFFF - amount then Panic GasPoolOverflow else Ret (gp + amount))"

definition gp_SubGas :: "u64 \<Rightarrow> u64 \<Rightarrow> core_error option \<times> u64" where
  "gp_SubGas gp amount = (if gp < amount then (Some Core_GasLimitReached, gp) else (None, gp - amount))"

definition gp_Gas :: "u64 \<Rightarrow> u64" where
  "gp_Gas gp = gp"

definition gp_SetGas :: "u64 \<Rightarrow> u64 \<Rightarrow> u64" where
  "gp_SetGas gas gp = gas"

section \<open>Intrinsic gas\<close>

definition StorageKeys :: "access_tuple list \<Rightarrow> nat" where
  "StorageKeys al = sum_list (map (\<lambda>(a, ks). length ks) al)"

text \<open>One price for a number of units, with the overflow check the code repeats.\<close>

definition add_priced :: "u64 \<Rightarrow> u64 \<Rightarrow> u64 \<Rightarrow> core_error + u64" where
  "add_priced gas n price =
     (if (0xFFFFFFFFFFFFFFFF - gas) div price < n then Inl Core_GasUintOverflow else Inr (gas + n * price))"

definition sum_bind :: "'e + 'a \<Rightarrow> ('a \<Rightarrow> 'e + 'b) \<Rightarrow> 'e + 'b" where
  "sum_bind m f = (case m of Inl err \<Rightarrow> Inl err | Inr x \<Rightarrow> f x)"

definition IntrinsicGas :: "bytes \<Rightarrow> access_tuple list \<Rightarrow> bool \<Rightarrow> bool \<Rightarrow> bool \<Rightarrow> bool \<Rightarrow> core_error + u64" where
  "IntrinsicGas data accessList isContractCreation isHomestead isEIP2028 isEIP3860 =
     (let gas = (if isContractCreation \<and> isHomestead then TxGasContractCreation else TxGas);
          dataLen = len64 data
      in sum_bind
        (if dataLen > 0 then
           let nz = word_of_nat (length (filter (\<lambda>byt. byt \<noteq> 0) data));
               nonZeroGas = (if isEIP2028 then TxDataNonZeroGasEIP2028 else TxDataNonZeroGasFrontier)
           in sum_bind (add_priced gas nz nonZeroGas) (\<lambda>gas.
              sum_bind (add_priced gas (dataLen - nz) TxDataZeroGas) (\<lambda>gas.
                if isContractCreation \<and> isEIP3860 then add_priced gas (toWordSize dataLen) InitCodeWordGas else Inr gas))
         else Inr gas)
        (\<lambda>gas. Inr (gas + len64 accessList * TxAccessListAddressGas + word_of_nat (StorageKeys accessList) * TxAccessListStorageKeyGas)))"

section \<open>Messages\<close>

record message =
  msg_To :: "address option"
  msg_From :: address
  msg_Nonce :: u64
  msg_Value :: int
  msg_GasLimit :: u64
  msg_GasPrice :: int
  msg_GasFeeCap :: "int option"
  msg_GasTipCap :: "int option"
  msg_Data :: bytes
  msg_AccessList :: "access_tuple list"
  msg_BlobGasFeeCap :: "int option"
  msg_BlobHashes :: "hash list option"
  msg_SkipAccountChecks :: bool

record ExecutionResult =
  UsedGas :: u64
  RefundedGas :: u64
  res_Err :: "vm_error option"
  ReturnData :: bytes

definition res_Failed :: "ExecutionResult \<Rightarrow> bool" where
  "res_Failed r \<longleftrightarrow> res_Err r \<noteq> None"

definition res_Return :: "ExecutionResult \<Rightarrow> bytes" where
  "res_Return r = (if res_Err r \<noteq> None then [] else ReturnData r)"

definition res_Revert :: "ExecutionResult \<Rightarrow> bytes" where
  "res_Revert r = (if res_Err r \<noteq> Some ErrExecutionReverted then [] else ReturnData r)"

record transition =
  st_gp :: u64
  st_gasRemaining :: u64
  st_initialGas :: u64
  st_evm :: evm

definition NewStateTransition :: "evm \<Rightarrow> u64 \<Rightarrow> transition" where
  "NewStateTransition e gp = \<lparr>st_gp = gp, st_gasRemaining = 0, st_initialGas = 0, st_evm = e\<rparr>"

definition gasUsed :: "transition \<Rightarrow> u64" where
  "gasUsed st = st_initialGas st - st_gasRemaining st"

definition blobGasUsed :: "message \<Rightarrow> u64" where
  "blobGasUsed msg = word_of_nat (length (case msg_BlobHashes msg of None \<Rightarrow> [] | Some hs \<Rightarrow> hs) * BlobTxBlobGasPerBlob)"

text \<open>Reading through a pointer, the conversions of \<open>uint256\<close> from a \<open>big.Int\<close>, \<open>math.BigMin\<close>.\<close>

definition deref :: "'a option \<Rightarrow> 'a go" where
  "deref p = (case p of None \<Rightarrow> Panic NilDereference | Some x \<Rightarrow> Ret x)"

definition FromBig :: "int \<Rightarrow> u256 \<times> bool" where
  "FromBig b = (word_of_int b, \<bar>b\<bar> \<ge> 2 ^ 256)"

definition MustFromBig :: "int \<Rightarrow> u256 go" where
  "MustFromBig b = (case FromBig b of (v, overflow) \<Rightarrow> if overflow then Panic Uint256Overflow else Ret v)"

definition BigMin :: "int \<Rightarrow> int \<Rightarrow> int" where
  "BigMin x y = (if x > y then y else x)"

definition int_BitLen :: "int \<Rightarrow> nat" where
  "int_BitLen b = bit_len (nat \<bar>b\<bar>)"

definition t_ask :: "(StateDB \<Rightarrow> 'a \<times> StateDB) \<Rightarrow> transition \<Rightarrow> 'a \<times> transition" where
  "t_ask f st = (case sdb_ask f (st_evm st) of (x, e) \<Rightarrow> (x, st\<lparr>st_evm := e\<rparr>))"

definition t_do :: "(StateDB \<Rightarrow> StateDB) \<Rightarrow> transition \<Rightarrow> transition" where
  "t_do f st = st\<lparr>st_evm := sdb_do f (st_evm st)\<rparr>"

definition GetRefund :: "StateDB \<Rightarrow> u64" where
  "GetRefund s = sdb_refund s"

section \<open>Buying gas\<close>

text \<open>The value the sender must own and the value that is paid, with the blob gas since Cancun.\<close>

definition gas_bill :: "ChainConfig \<Rightarrow> env \<Rightarrow> message \<Rightarrow> (int \<times> int) go" where
  "gas_bill cfg env msg =
     (let mgval = uint (msg_GasLimit msg) * msg_GasPrice msg;
          balanceCheck = (case msg_GasFeeCap msg of
              None \<Rightarrow> mgval
            | Some cap \<Rightarrow> uint (msg_GasLimit msg) * cap + msg_Value msg)
      in if cfg_IsCancun cfg (Some (BlockNumber (Context env))) (Time (Context env)) \<and> blobGasUsed msg > 0 then
           go_bind (deref (msg_BlobGasFeeCap msg)) (\<lambda>cap.
           go_bind (deref (BlobBaseFee (Context env))) (\<lambda>blobBaseFee.
             Ret (balanceCheck + uint (blobGasUsed msg) * cap, mgval + uint (blobGasUsed msg) * blobBaseFee)))
         else Ret (balanceCheck, mgval))"

definition buyGas :: "ChainConfig \<Rightarrow> env \<Rightarrow> message \<Rightarrow> transition \<Rightarrow> (core_error option \<times> transition) go" where
  "buyGas cfg env msg st =
     go_bind (gas_bill cfg env msg) (\<lambda>(balanceCheck, mgval).
     let (want, overflow) = FromBig balanceCheck in
     if overflow then Ret (Some Core_InsufficientFunds, st)
     else let (owned, st) = t_ask (GetBalance (env_db env) (msg_From msg)) st in
     if owned < want then Ret (Some Core_InsufficientFunds, st)
     else case gp_SubGas (st_gp st) (msg_GasLimit msg) of
         (Some err, gp) \<Rightarrow> Ret (Some err, st)
       | (None, gp) \<Rightarrow>
           Ret (None, t_do (SubBalance (env_db env) (msg_From msg) (fst (FromBig mgval)))
             (st\<lparr>st_gp := gp, st_gasRemaining := st_gasRemaining st + msg_GasLimit msg, st_initialGas := msg_GasLimit msg\<rparr>)))"

section \<open>Checks before execution\<close>

definition account_check :: "env \<Rightarrow> message \<Rightarrow> transition \<Rightarrow> core_error option \<times> transition" where
  "account_check env msg st =
     (if msg_SkipAccountChecks msg then (None, st)
      else let (stNonce, st) = t_ask (GetNonce (env_db env) (msg_From msg)) st in
        if stNonce < msg_Nonce msg then (Some Core_NonceTooHigh, st)
        else if stNonce > msg_Nonce msg then (Some Core_NonceTooLow, st)
        else if stNonce + 1 < stNonce then (Some Core_NonceMax, st)
        else let (codeHash, st) = t_ask (GetCodeHash (env_db env) (msg_From msg)) st in
          if codeHash \<noteq> 0 \<and> codeHash \<noteq> EmptyCodeHash (env_db env) then (Some Core_SenderNoEOA, st)
          else (None, st))"

text \<open>Both fee fields are zero; the second is read only if the first is.\<close>

definition zero_fees :: "message \<Rightarrow> bool go" where
  "zero_fees msg =
     go_bind (deref (msg_GasFeeCap msg)) (\<lambda>cap.
       if cap \<noteq> 0 then Ret False else go_bind (deref (msg_GasTipCap msg)) (\<lambda>tip. Ret (tip = 0)))"

definition fee_check :: "ChainConfig \<Rightarrow> bool \<Rightarrow> env \<Rightarrow> message \<Rightarrow> core_error option go" where
  "fee_check cfg noBaseFee env msg =
     (if \<not> cfg_IsLondon cfg (Some (BlockNumber (Context env))) then Ret None
      else go_bind (if noBaseFee then zero_fees msg else Ret False) (\<lambda>skipCheck.
        if skipCheck then Ret None
        else go_bind (deref (msg_GasFeeCap msg)) (\<lambda>cap.
          if int_BitLen cap > 256 then Ret (Some Core_FeeCapVeryHigh)
          else go_bind (deref (msg_GasTipCap msg)) (\<lambda>tip.
            if int_BitLen tip > 256 then Ret (Some Core_TipVeryHigh)
            else if cap < tip then Ret (Some Core_TipAboveFeeCap)
            else go_bind (deref (BaseFee (Context env))) (\<lambda>baseFee.
              Ret (if cap < baseFee then Some Core_FeeCapTooLow else None))))))"

definition IsValidVersionedHash :: "hash \<Rightarrow> bool" where
  "IsValidVersionedHash h \<longleftrightarrow> Bytes32 h ! 0 = 1"

fun blob_versions :: "nat \<Rightarrow> hash list \<Rightarrow> core_error option" where
  "blob_versions i [] = None"
| "blob_versions i (h # hs) = (if \<not> IsValidVersionedHash h then Some (Core_BlobHashVersion i) else blob_versions (Suc i) hs)"

definition blob_check :: "message \<Rightarrow> core_error option" where
  "blob_check msg =
     (case msg_BlobHashes msg of None \<Rightarrow> None
      | Some hs \<Rightarrow>
          if msg_To msg = None then Some Core_BlobTxCreate
          else if hs = [] then Some Core_MissingBlobHashes
          else blob_versions 0 hs)"

definition blob_fee_check :: "ChainConfig \<Rightarrow> bool \<Rightarrow> env \<Rightarrow> message \<Rightarrow> core_error option go" where
  "blob_fee_check cfg noBaseFee env msg =
     (if cfg_IsCancun cfg (Some (BlockNumber (Context env))) (Time (Context env)) \<and> blobGasUsed msg > 0 then
        go_bind (deref (msg_BlobGasFeeCap msg)) (\<lambda>cap.
          if noBaseFee \<and> cap = 0 then Ret None
          else go_bind (deref (BlobBaseFee (Context env))) (\<lambda>blobBaseFee.
            Ret (if cap < blobBaseFee then Some Core_BlobFeeCapTooLow else None)))
      else Ret None)"

definition preCheck :: "ChainConfig \<Rightarrow> bool \<Rightarrow> env \<Rightarrow> message \<Rightarrow> transition \<Rightarrow> (core_error option \<times> transition) go" where
  "preCheck cfg noBaseFee env msg st =
     (let (err, st) = account_check env msg st in
      if err \<noteq> None then Ret (err, st)
      else go_bind (fee_check cfg noBaseFee env msg) (\<lambda>err.
      if err \<noteq> None then Ret (err, st)
      else if blob_check msg \<noteq> None then Ret (blob_check msg, st)
      else go_bind (blob_fee_check cfg noBaseFee env msg) (\<lambda>err.
      if err \<noteq> None then Ret (err, st)
      else buyGas cfg env msg st)))"

section \<open>Execution\<close>

definition refundGas :: "env \<Rightarrow> message \<Rightarrow> u64 \<Rightarrow> transition \<Rightarrow> (u64 \<times> transition) go" where
  "refundGas env msg refundQuotient st =
     (let refund = gasUsed st div refundQuotient;
          refund = (if refund > GetRefund (evm_StateDB (st_evm st)) then GetRefund (evm_StateDB (st_evm st)) else refund);
          st = st\<lparr>st_gasRemaining := st_gasRemaining st + refund\<rparr>
      in go_bind (MustFromBig (msg_GasPrice msg)) (\<lambda>price.
         let st = t_do (AddBalance (env_db env) (msg_From msg) (ucast (st_gasRemaining st) * price)) st in
         go_bind (gp_AddGas (st_gp st) (st_gasRemaining st)) (\<lambda>gp. Ret (refund, st\<lparr>st_gp := gp\<rparr>))))"

text \<open>Create a contract or call the recipient, after incrementing the sender's nonce.\<close>

definition execute_message ::
  "env \<Rightarrow> runner \<Rightarrow> message \<Rightarrow> u256 \<Rightarrow> transition \<Rightarrow> ((bytes \<times> vm_error option) \<times> transition) go" where
  "execute_message env run msg val st =
     (case msg_To msg of
        None \<Rightarrow>
          go_bind (evm_Create env run (AccountRef (msg_From msg)) (msg_Data msg) (st_gasRemaining st) val (st_evm st))
            (\<lambda>((ret, addr, gas, vmerr), e). Ret ((ret, vmerr), st\<lparr>st_gasRemaining := gas, st_evm := e\<rparr>))
      | Some dst \<Rightarrow>
          let (nonce, st) = t_ask (GetNonce (env_db env) (msg_From msg)) st;
              st = t_do (SetNonce (env_db env) (msg_From msg) (nonce + 1)) st in
          go_bind (evm_Call env run (AccountRef (msg_From msg)) dst (msg_Data msg) (st_gasRemaining st) val (st_evm st))
            (\<lambda>((ret, gas, vmerr), e). Ret ((ret, vmerr), st\<lparr>st_gasRemaining := gas, st_evm := e\<rparr>)))"

definition effective_tip :: "rules \<Rightarrow> env \<Rightarrow> message \<Rightarrow> int go" where
  "effective_tip rules env msg =
     (if IsLondon rules then
        go_bind (deref (msg_GasTipCap msg)) (\<lambda>tip.
        go_bind (deref (msg_GasFeeCap msg)) (\<lambda>cap.
        go_bind (deref (BaseFee (Context env))) (\<lambda>baseFee. Ret (BigMin tip (cap - baseFee)))))
      else Ret (msg_GasPrice msg))"

definition pay_coinbase :: "rules \<Rightarrow> bool \<Rightarrow> env \<Rightarrow> message \<Rightarrow> transition \<Rightarrow> transition go" where
  "pay_coinbase rules noBaseFee env msg st =
     go_bind (effective_tip rules env msg) (\<lambda>tip.
     go_bind (if noBaseFee then zero_fees msg else Ret False) (\<lambda>skip.
       Ret (if skip then st
            else t_do (AddBalance (env_db env) (Coinbase (Context env)) (ucast (gasUsed st) * fst (FromBig tip))) st)))"

text \<open>The part of \<open>TransitionDb\<close> after the checks: run the message, give back gas, pay the fee.\<close>

definition run_message ::
  "rules \<Rightarrow> bool \<Rightarrow> env \<Rightarrow> runner \<Rightarrow> message \<Rightarrow> u256 \<Rightarrow> transition \<Rightarrow> ((core_error + ExecutionResult) \<times> transition) go" where
  "run_message rules noBaseFee env run msg val st =
     go_bind (Prepare rules (msg_From msg) (Coinbase (Context env)) (msg_To msg) (ActivePrecompiles rules)
                (msg_AccessList msg) (evm_StateDB (st_evm st))) (\<lambda>s.
     go_bind (execute_message env run msg val (st\<lparr>st_evm := (st_evm st)\<lparr>evm_StateDB := s\<rparr>\<rparr>)) (\<lambda>((ret, vmerr), st).
     go_bind (refundGas env msg (if \<not> IsLondon rules then RefundQuotient else RefundQuotientEIP3529) st) (\<lambda>(gasRefund, st).
     go_bind (pay_coinbase rules noBaseFee env msg st) (\<lambda>st.
       Ret (Inr \<lparr>UsedGas = gasUsed st, RefundedGas = gasRefund, res_Err = vmerr, ReturnData = ret\<rparr>, st)))))"

text \<open>\<open>TransitionDb\<close> from its clause 4: charge the intrinsic gas, check the value and the init code.\<close>

definition admitted_message ::
  "ChainConfig \<Rightarrow> bool \<Rightarrow> env \<Rightarrow> runner \<Rightarrow> message \<Rightarrow> transition \<Rightarrow> ((core_error + ExecutionResult) \<times> transition) go" where
  "admitted_message cfg noBaseFee env run msg st =
     (let rules = snd (cfg_Rules cfg (Some (BlockNumber (Context env))) (Random (Context env) \<noteq> None) (Time (Context env)));
         contractCreation = (msg_To msg = None) in
     case IntrinsicGas (msg_Data msg) (msg_AccessList msg) contractCreation (IsHomestead rules) (IsIstanbul rules) (IsShanghai rules) of
       Inl err \<Rightarrow> Ret (Inl err, st)
     | Inr gas \<Rightarrow>
         if st_gasRemaining st < gas then Ret (Inl Core_IntrinsicGas, st)
         else let st = st\<lparr>st_gasRemaining := st_gasRemaining st - gas\<rparr>;
                  (val, overflow) = FromBig (msg_Value msg) in
         if overflow then Ret (Inl Core_InsufficientFundsForTransfer, st)
         else let (can, st) = (if val \<noteq> 0 then t_ask (CanTransfer (env_db env) (msg_From msg) val) st else (True, st)) in
         if \<not> can then Ret (Inl Core_InsufficientFundsForTransfer, st)
         else if IsShanghai rules \<and> contractCreation \<and> length (msg_Data msg) > MaxInitCodeSize
         then Ret (Inl Core_MaxInitCodeSizeExceeded, st)
         else run_message rules noBaseFee env run msg val st)"

definition TransitionDb ::
  "ChainConfig \<Rightarrow> bool \<Rightarrow> env \<Rightarrow> runner \<Rightarrow> message \<Rightarrow> transition \<Rightarrow> ((core_error + ExecutionResult) \<times> transition) go" where
  "TransitionDb cfg noBaseFee env run msg st =
     go_bind (preCheck cfg noBaseFee env msg st) (\<lambda>(err, st).
     case err of Some err \<Rightarrow> Ret (Inl err, st) | None \<Rightarrow> admitted_message cfg noBaseFee env run msg st)"

definition ApplyMessage ::
  "ChainConfig \<Rightarrow> bool \<Rightarrow> env \<Rightarrow> runner \<Rightarrow> evm \<Rightarrow> message \<Rightarrow> u64 \<Rightarrow> ((core_error + ExecutionResult) \<times> transition) go" where
  "ApplyMessage cfg noBaseFee env run e msg gp = TransitionDb cfg noBaseFee env run msg (NewStateTransition e gp)"

section \<open>Gas through the phases of a transaction\<close>

lemma t_fields [simp]:
  "st_gp (t_do f st) = st_gp st" "st_gasRemaining (t_do f st) = st_gasRemaining st"
  "st_initialGas (t_do f st) = st_initialGas st" "evm_StateDB (st_evm (t_do f st)) = f (evm_StateDB (st_evm st))"
  "st_gp (snd (t_ask g st)) = st_gp st" "st_gasRemaining (snd (t_ask g st)) = st_gasRemaining st"
  "st_initialGas (snd (t_ask g st)) = st_initialGas st"
  "fst (t_ask g st) = fst (g (evm_StateDB (st_evm st)))"
  "evm_StateDB (st_evm (snd (t_ask g st))) = snd (g (evm_StateDB (st_evm st)))"
  "evm_depth (st_evm (t_do f st)) = evm_depth (st_evm st)" "evm_depth (st_evm (snd (t_ask g st))) = evm_depth (st_evm st)"
  by (simp_all add: t_do_def t_ask_def sdb_do_def case_prod_beta)

lemma gasUsed_fields [simp]: "gasUsed (t_do f st) = gasUsed st" "gasUsed (snd (t_ask g st)) = gasUsed st"
  by (simp_all add: gasUsed_def)

lemma account_check_fields [simp]:
  "st_gp (snd (account_check env msg st)) = st_gp st" "st_gasRemaining (snd (account_check env msg st)) = st_gasRemaining st"
  "st_initialGas (snd (account_check env msg st)) = st_initialGas st"
  by (auto simp: account_check_def case_prod_beta Let_def)

lemma buyGas_Ret:
  assumes "buyGas cfg env msg st = Ret (err, st')"
  shows "(err \<noteq> None \<longrightarrow> st_gp st' = st_gp st) \<and>
    (err = None \<longrightarrow> msg_GasLimit msg \<le> st_gp st \<and> st_gp st' = st_gp st - msg_GasLimit msg \<and>
       st_gasRemaining st' = st_gasRemaining st + msg_GasLimit msg \<and> st_initialGas st' = msg_GasLimit msg)"
  using assms unfolding buyGas_def
  by (auto simp: case_prod_beta Let_def gp_SubGas_def split: if_splits)

lemma preCheck_Ret:
  assumes "preCheck cfg noBaseFee env msg st = Ret (err, st')"
  shows "err \<noteq> None \<and> st' = snd (account_check env msg st) \<or>
    buyGas cfg env msg (snd (account_check env msg st)) = Ret (err, st')"
  using assms unfolding preCheck_def by (auto simp: case_prod_beta Let_def split: if_splits) (metis)+

text \<open>After the checks the whole gas limit has moved from the pool to the message.\<close>

definition bought :: "message \<Rightarrow> u64 \<Rightarrow> transition \<Rightarrow> bool" where
  "bought msg gp st \<longleftrightarrow> unat (st_gp st) + unat (msg_GasLimit msg) = unat gp \<and> st_initialGas st = msg_GasLimit msg \<and>
     unat (st_gasRemaining st) \<le> unat (msg_GasLimit msg)"

lemma preCheck_bought:
  assumes "preCheck cfg noBaseFee env msg (NewStateTransition e gp) = Ret (None, st)"
  shows "bought msg gp st" "st_gasRemaining st = msg_GasLimit msg"
  using preCheck_Ret [OF assms]
  by (auto dest!: buyGas_Ret simp: NewStateTransition_def bought_def unat_sub_le word_le_nat_alt)

lemma execute_message_gas:
  assumes "execute_message env (evm_Run env n) msg val st = Ret (r, st')"
  shows "unat (st_gasRemaining st') \<le> unat (st_gasRemaining st) \<and> st_gp st' = st_gp st \<and> st_initialGas st' = st_initialGas st"
proof (cases "msg_To msg")
  case None
  obtain ret addr gas vmerr e' where
    c: "evm_Create env (evm_Run env n) (AccountRef (msg_From msg)) (msg_Data msg) (st_gasRemaining st) val (st_evm st) =
      Ret ((ret, addr, gas, vmerr), e')" and st': "st' = st\<lparr>st_gasRemaining := gas, st_evm := e'\<rparr>"
    using assms None by (auto simp: execute_message_def)
  have "go_all (\<lambda>((ret, a, g, err), e'). unat g \<le> unat (st_gasRemaining st) \<and> call_rel env False (st_evm st) e')
      (evm_Create env (evm_Run env n) (AccountRef (msg_From msg)) (msg_Data msg) (st_gasRemaining st) val (st_evm st))"
    by (rule evm.Create_law)
  then have "unat gas \<le> unat (st_gasRemaining st)" using c by simp
  then show ?thesis by (simp add: st')
next
  case (Some dst)
  obtain st1 ret gas vmerr e' where
    c: "evm_Call env (evm_Run env n) (AccountRef (msg_From msg)) dst (msg_Data msg) (st_gasRemaining st) val (st_evm st1) =
      Ret ((ret, gas, vmerr), e')" and st': "st' = st1\<lparr>st_gasRemaining := gas, st_evm := e'\<rparr>"
    and st1: "st_gp st1 = st_gp st" "st_initialGas st1 = st_initialGas st"
    using assms Some by (auto simp: execute_message_def case_prod_beta Let_def)
  have "go_all (call_post env (readOnly (st_evm st1) \<and> val = 0) (st_gasRemaining st) (st_evm st1))
      (evm_Call env (evm_Run env n) (AccountRef (msg_From msg)) dst (msg_Data msg) (st_gasRemaining st) val (st_evm st1))"
    by (rule evm.Call_law)
  then have "unat gas \<le> unat (st_gasRemaining st)" using c by (simp add: call_post_def)
  then show ?thesis using st1 by (simp add: st')
qed

text \<open>The refund is at most a fixed part of what was used, so the pool cannot overflow.\<close>

lemma refundGas_Ret:
  assumes b: "bought msg gp st" and q: "q \<noteq> 0" and r: "refundGas env msg q st = Ret (rfd, st')"
  shows "unat (st_gasRemaining st') = unat (st_gasRemaining st) + unat rfd"
    "unat (st_gasRemaining st') \<le> unat (msg_GasLimit msg)" "unat q * unat rfd \<le> unat (gasUsed st)"
    "unat (st_gp st') = unat (st_gp st) + unat (st_gasRemaining st')" "st_initialGas st' = msg_GasLimit msg"
proof -
  define x where "x = (if gasUsed st div q > sdb_refund (evm_StateDB (st_evm st)) then sdb_refund (evm_StateDB (st_evm st))
      else gasUsed st div q)"
  have xle: "unat x \<le> unat (gasUsed st) div unat q"
    by (auto simp: x_def unat_div word_less_nat_alt)
  have used: "unat (gasUsed st) + unat (st_gasRemaining st) = unat (msg_GasLimit msg)"
    using b by (simp add: bought_def gasUsed_def unat_sub_le word_le_nat_alt)
  have "unat (gasUsed st) div unat q \<le> unat (gasUsed st)" by (rule div_le_dividend)
  then have sum: "unat (st_gasRemaining st) + unat x \<le> unat (msg_GasLimit msg)" using xle used by linarith
  then have add: "unat (st_gasRemaining st + x) = unat (st_gasRemaining st) + unat x"
    using unsigned_less [where 'a = nat, of "msg_GasLimit msg"] by (intro unat_add_no_overflow) simp
  obtain price gp' where g: "gp_AddGas (st_gp st) (st_gasRemaining st + x) = Ret gp'" and f: "rfd = x"
    "st' = (t_do (AddBalance (env_db env) (msg_From msg) (ucast (st_gasRemaining st + x) * price))
       (st\<lparr>st_gasRemaining := st_gasRemaining st + x\<rparr>))\<lparr>st_gp := gp'\<rparr>"
    using r unfolding refundGas_def Let_def GetRefund_def x_def [symmetric] by auto
  have "unat (st_gp st + (st_gasRemaining st + x)) = unat (st_gp st) + unat (st_gasRemaining st + x)"
  proof (rule unat_add_no_overflow)
    have "unat (st_gp st) + unat (st_gasRemaining st + x) \<le> unat gp" using b sum by (simp add: add bought_def)
    then show "unat (st_gp st) + unat (st_gasRemaining st + x) < 2 ^ LENGTH(64)"
      using unsigned_less [where 'a = nat, of gp] by simp
  qed
  then show "unat (st_gp st') = unat (st_gp st) + unat (st_gasRemaining st')"
    using g by (auto simp: f gp_AddGas_def split: if_splits)
  show "unat (st_gasRemaining st') = unat (st_gasRemaining st) + unat rfd"
    "unat (st_gasRemaining st') \<le> unat (msg_GasLimit msg)" using add sum by (simp_all add: f)
  show "st_initialGas st' = msg_GasLimit msg" using b by (simp add: f bought_def)
  have "unat q * unat x \<le> unat q * (unat (gasUsed st) div unat q)" using xle by (rule mult_left_mono) simp
  also have "\<dots> \<le> unat (gasUsed st)" by simp
  finally show "unat q * unat rfd \<le> unat (gasUsed st)" by (simp add: f)
qed

lemma TransitionDb_Ret:
  assumes "TransitionDb cfg noBaseFee env run msg st = Ret (Inr res, st')"
  shows "\<exists>st1 gas st2 val rules. preCheck cfg noBaseFee env msg st = Ret (None, st1) \<and>
    rules = snd (cfg_Rules cfg (Some (BlockNumber (Context env))) (Random (Context env) \<noteq> None) (Time (Context env))) \<and>
    IntrinsicGas (msg_Data msg) (msg_AccessList msg) (msg_To msg = None) (IsHomestead rules) (IsIstanbul rules) (IsShanghai rules) = Inr gas \<and>
    gas \<le> st_gasRemaining st1 \<and> st_gp st2 = st_gp st1 \<and> st_initialGas st2 = st_initialGas st1 \<and>
    st_gasRemaining st2 = st_gasRemaining st1 - gas \<and> run_message rules noBaseFee env run msg val st2 = Ret (Inr res, st')"
proof -
  obtain err st1 where p: "preCheck cfg noBaseFee env msg st = Ret (err, st1)"
    using assms unfolding TransitionDb_def by (auto simp: case_prod_beta)
  have n: "err = None" using assms unfolding TransitionDb_def by (cases err) (auto simp: p)
  define rules where "rules = snd (cfg_Rules cfg (Some (BlockNumber (Context env))) (Random (Context env) \<noteq> None) (Time (Context env)))"
  obtain gas where g: "IntrinsicGas (msg_Data msg) (msg_AccessList msg) (msg_To msg = None) (IsHomestead rules) (IsIstanbul rules)
      (IsShanghai rules) = Inr gas"
    using assms unfolding TransitionDb_def admitted_message_def p n rules_def [symmetric] Let_def by (auto split: sum.splits)
  define st2 where "st2 = st1\<lparr>st_gasRemaining := st_gasRemaining st1 - gas\<rparr>"
  define val where "val = (word_of_int (msg_Value msg) :: u256)"
  have "gas \<le> st_gasRemaining st1 \<and>
      run_message rules noBaseFee env run msg val
        (snd (if val \<noteq> 0 then t_ask (CanTransfer (env_db env) (msg_From msg) val) st2 else (True, st2))) = Ret (Inr res, st')"
    using assms unfolding TransitionDb_def admitted_message_def p n rules_def [symmetric] Let_def go_bind.simps prod.case option.case g sum.case
      st2_def [symmetric] FromBig_def val_def [symmetric]
    by (auto simp: case_prod_beta not_less split: if_splits)
  moreover define st3 where "st3 = snd (if val \<noteq> 0 then t_ask (CanTransfer (env_db env) (msg_From msg) val) st2 else (True, st2))"
  moreover have "st_gp st3 = st_gp st1" "st_initialGas st3 = st_initialGas st1" "st_gasRemaining st3 = st_gasRemaining st1 - gas"
    by (simp_all add: st3_def st2_def)
  ultimately show ?thesis
    using p g unfolding n rules_def [symmetric] by blast
qed

text \<open>
  C22. A message that is executed takes exactly the gas it used out of the block's pool: pool after plus
  gas used is pool before, in the integers, with no wrap-around. The gas used and refunded together lie
  between the intrinsic gas and the gas limit, and the refund is at most half of them (a fifth since
  London).
\<close>

theorem transition_accounts_gas:
  assumes "ApplyMessage cfg noBaseFee env (evm_Run env n) e msg gp = Ret (Inr res, st)"
  shows "\<exists>rules gas. rules = snd (cfg_Rules cfg (Some (BlockNumber (Context env))) (Random (Context env) \<noteq> None) (Time (Context env))) \<and>
    IntrinsicGas (msg_Data msg) (msg_AccessList msg) (msg_To msg = None) (IsHomestead rules) (IsIstanbul rules) (IsShanghai rules) = Inr gas \<and>
    unat (st_gp st) + unat (UsedGas res) = unat gp \<and>
    unat gas \<le> unat (UsedGas res) + unat (RefundedGas res) \<and>
    unat (UsedGas res) + unat (RefundedGas res) \<le> unat (msg_GasLimit msg) \<and>
    (if IsLondon rules then 5 else 2) * unat (RefundedGas res) \<le> unat (UsedGas res) + unat (RefundedGas res)"
proof -
  obtain st1 gas st2 val rules where
    p: "preCheck cfg noBaseFee env msg (NewStateTransition e gp) = Ret (None, st1)" and
    ru: "rules = snd (cfg_Rules cfg (Some (BlockNumber (Context env))) (Random (Context env) \<noteq> None) (Time (Context env)))" and
    ig: "IntrinsicGas (msg_Data msg) (msg_AccessList msg) (msg_To msg = None) (IsHomestead rules) (IsIstanbul rules) (IsShanghai rules) = Inr gas" and
    le: "gas \<le> st_gasRemaining st1" and st2: "st_gp st2 = st_gp st1" "st_initialGas st2 = st_initialGas st1"
      "st_gasRemaining st2 = st_gasRemaining st1 - gas" and
    r: "run_message rules noBaseFee env (evm_Run env n) msg val st2 = Ret (Inr res, st)"
    using TransitionDb_Ret [OF assms [unfolded ApplyMessage_def]] by blast
  define q where "q = (if \<not> IsLondon rules then RefundQuotient else RefundQuotientEIP3529 :: u64)"
  have q0: "q \<noteq> 0" by (simp add: q_def)
  obtain s st3 st4 ret vmerr rfd st5 where
    x: "execute_message env (evm_Run env n) msg val (st2\<lparr>st_evm := (st_evm st2)\<lparr>evm_StateDB := s\<rparr>\<rparr>) = Ret ((ret, vmerr), st3)" and
    f: "refundGas env msg q st3 = Ret (rfd, st4)" and
    c: "pay_coinbase rules noBaseFee env msg st4 = Ret st5" and
    res: "res = \<lparr>UsedGas = gasUsed st5, RefundedGas = rfd, res_Err = vmerr, ReturnData = ret\<rparr>" "st = st5"
    using r unfolding run_message_def q_def [symmetric] by (auto simp: case_prod_beta)
  have b1: "bought msg gp st1" "st_gasRemaining st1 = msg_GasLimit msg" using preCheck_bought [OF p] by blast+
  have rem2: "unat (st_gasRemaining st2) + unat gas = unat (msg_GasLimit msg)"
    using le b1 st2 by (simp add: unat_sub_le word_le_nat_alt)
  note x' = execute_message_gas [OF x]
  have b3: "bought msg gp st3" using x' b1 st2 rem2 by (simp add: bought_def)
  note f' = refundGas_Ret [OF b3 q0 f]
  have c': "st_gp st5 = st_gp st4" "gasUsed st5 = gasUsed st4"
    using c unfolding pay_coinbase_def by (auto simp: case_prod_beta split: if_splits)
  have used3: "unat (gasUsed st3) + unat (st_gasRemaining st3) = unat (msg_GasLimit msg)"
    using b3 by (simp add: bought_def gasUsed_def unat_sub_le word_le_nat_alt)
  have used4: "unat (gasUsed st4) + unat (st_gasRemaining st4) = unat (msg_GasLimit msg)"
    using f'(2,5) by (simp add: gasUsed_def unat_sub_le word_le_nat_alt)
  have pool: "unat (st_gp st3) + unat (msg_GasLimit msg) = unat gp" using b3 by (simp add: bought_def)
  have "unat (st_gp st) + unat (UsedGas res) = unat gp"
    using f'(4) used4 pool by (simp add: res c')
  moreover have "unat gas \<le> unat (UsedGas res) + unat (RefundedGas res)"
    "unat (UsedGas res) + unat (RefundedGas res) \<le> unat (msg_GasLimit msg)"
    using f'(1) used3 used4 rem2 x' by (simp_all add: res c')
  moreover have "unat q * unat rfd \<le> unat (gasUsed st3)" by (rule f')
  then have "(if IsLondon rules then 5 else 2) * unat (RefundedGas res) \<le> unat (UsedGas res) + unat (RefundedGas res)"
    using f'(1) used3 used4 by (simp add: res c' q_def split: if_splits)
  ultimately show ?thesis using ru ig by blast
qed

section \<open>Intrinsic gas is exact\<close>

text \<open>A sum of gas kept exactly, or the overflow error.\<close>

definition fits :: "nat \<Rightarrow> core_error + u64" where
  "fits k = (if k < 2 ^ 64 then Inr (word_of_nat k) else Inl Core_GasUintOverflow)"

lemma fits_add_priced:
  assumes "unat price \<noteq> 0"
  shows "sum_bind (fits k) (\<lambda>gas. add_priced gas n price) = fits (k + unat n * unat price)"
proof (cases "k < 2 ^ 64")
  case True
  define g :: u64 where "g = word_of_nat k"
  have g: "unat g = k" using True by (simp add: g_def unsigned_of_nat take_bit_nat_eq_self)
  have room: "unat (0xFFFFFFFFFFFFFFFF - g) = 2 ^ 64 - 1 - k"
    using g True by (subst unat_sub) (simp_all add: word_le_nat_alt)
  have "(0xFFFFFFFFFFFFFFFF - g) div price < n \<longleftrightarrow> (2 ^ 64 - 1 - k) div unat price < unat n"
    by (simp only: word_less_nat_alt unat_div room)
  also have "\<dots> \<longleftrightarrow> 2 ^ 64 - 1 - k < unat n * unat price"
    using assms by (simp add: div_less_iff_less_mult)
  also have "\<dots> \<longleftrightarrow> \<not> k + unat n * unat price < 2 ^ 64" using True by auto
  finally have c: "(0xFFFFFFFFFFFFFFFF - g) div price < n \<longleftrightarrow> \<not> k + unat n * unat price < 2 ^ 64" .
  have "sum_bind (fits k) (\<lambda>gas. add_priced gas n price) = add_priced g n price"
    using True by (simp add: fits_def sum_bind_def g_def)
  also have "\<dots> = fits (k + unat n * unat price)"
    unfolding add_priced_def c fits_def by (simp add: g_def)
  finally show ?thesis .
next
  case False
  then show ?thesis by (simp add: fits_def sum_bind_def)
qed

definition nonzero_bytes :: "bytes \<Rightarrow> nat" where
  "nonzero_bytes data = length (filter (\<lambda>byt. byt \<noteq> 0) data)"

text \<open>The part of the intrinsic gas that is checked for overflow, and the part for the access list, in the integers.\<close>

definition data_gas :: "bytes \<Rightarrow> bool \<Rightarrow> bool \<Rightarrow> bool \<Rightarrow> bool \<Rightarrow> nat" where
  "data_gas data create homestead eip2028 eip3860 =
     (if create \<and> homestead then 53000 else 21000) +
     nonzero_bytes data * (if eip2028 then 16 else 68) + (length data - nonzero_bytes data) * 4 +
     (if create \<and> eip3860 then (length data + 31) div 32 * 2 else 0)"

definition list_gas :: "access_tuple list \<Rightarrow> nat" where
  "list_gas al = length al * 2400 + StorageKeys al * 1900"

lemma nonzero_bytes_le: "nonzero_bytes data \<le> length data"
  by (simp add: nonzero_bytes_def)

lemma sum_bind_assoc: "sum_bind (sum_bind m f) g = sum_bind m (\<lambda>x. sum_bind (f x) g)"
  by (cases m) (simp_all add: sum_bind_def)

lemma fits_Inr: "k < 2 ^ 64 \<Longrightarrow> sum_bind (fits k) f = f (word_of_nat k)"
  by (simp add: fits_def sum_bind_def)

text \<open>
  C26. Intrinsic gas is exact: for call data that fits in memory, the result is the integer sum of the
  base price, the price of zero and nonzero bytes, and the price of the words of init code; the
  overflow error is returned exactly if that sum needs more than 64 bits. The price of the access list
  is added to it without a check, modulo the word size.
\<close>

theorem intrinsic_gas_exact:
  assumes "length data < 2 ^ 63"
  shows "IntrinsicGas data al create homestead eip2028 eip3860 =
    (let k = data_gas data create homestead eip2028 eip3860
     in if k < 2 ^ 64 then Inr (word_of_nat (k + list_gas al)) else Inl Core_GasUintOverflow)"
proof -
  have big: "length data < 2 ^ 64" "nonzero_bytes data < 2 ^ 64" using assms nonzero_bytes_le [of data] by simp_all
  have len: "unat (len64 data) = length data" by (rule unat_len64) (rule big)
  have nz: "unat (word_of_nat (nonzero_bytes data) :: u64) = nonzero_bytes data"
    using big(2) by (simp add: unsigned_of_nat take_bit_nat_eq_self)
  have z: "unat (len64 data - word_of_nat (nonzero_bytes data)) = length data - nonzero_bytes data"
    using nonzero_bytes_le [of data] by (subst unat_sub) (simp_all add: word_le_nat_alt len nz)
  have w: "unat (toWordSize (len64 data)) = (length data + 31) div 32" by (simp add: toWordSize_ceil len)
  define base :: nat where "base = (if create \<and> homestead then 53000 else 21000)"
  have base: "base < 2 ^ 64" by (simp add: base_def)
  have words: "word_of_nat base = (if create \<and> homestead then TxGasContractCreation else TxGas :: u64)"
    by (simp add: base_def)
  let ?list = "\<lambda>gas. Inr (gas + len64 al * TxAccessListAddressGas + word_of_nat (StorageKeys al) * TxAccessListStorageKeyGas) :: core_error + u64"
  have l: "sum_bind (fits k) ?list = (if k < 2 ^ 64 then Inr (word_of_nat (k + list_gas al)) else Inl Core_GasUintOverflow)" for k
    by (simp add: fits_def sum_bind_def list_gas_def len64_def add.assoc)
  have "IntrinsicGas data al create homestead eip2028 eip3860 =
      sum_bind (fits (data_gas data create homestead eip2028 eip3860)) ?list"
  proof (cases "data = []")
    case True
    then show ?thesis
      by (simp add: IntrinsicGas_def len64_def data_gas_def nonzero_bytes_def fits_def sum_bind_def)
  next
    case False
    then have pos: "0 < len64 data" using len by (simp add: word_less_nat_alt)
    define p :: u64 where "p = (if eip2028 then TxDataNonZeroGasEIP2028 else TxDataNonZeroGasFrontier)"
    have p: "unat p = (if eip2028 then 16 else 68)" by (simp add: p_def)
    define nz where "nz = (word_of_nat (nonzero_bytes data) :: u64)"
    have zero_price: "unat (TxDataZeroGas :: u64) = 4" "unat (InitCodeWordGas :: u64) = 2" by simp_all
    have "IntrinsicGas data al create homestead eip2028 eip3860 =
       sum_bind (sum_bind (fits base) (\<lambda>gas. sum_bind (add_priced gas nz p) (\<lambda>gas.
         sum_bind (add_priced gas (len64 data - nz) TxDataZeroGas) (\<lambda>gas.
           if create \<and> eip3860 then add_priced gas (toWordSize (len64 data)) InitCodeWordGas else Inr gas)))) ?list"
      using pos unfolding IntrinsicGas_def Let_def nonzero_bytes_def [symmetric] p_def [symmetric] nz_def [symmetric]
        fits_Inr [OF base] words by simp
    also have "\<dots> = sum_bind (sum_bind (fits (base + unat nz * unat p + unat (len64 data - nz) * unat (TxDataZeroGas :: u64)))
         (\<lambda>gas. if create \<and> eip3860 then add_priced gas (toWordSize (len64 data)) InitCodeWordGas else Inr gas)) ?list"
      by (simp only: sum_bind_assoc [symmetric] fits_add_priced p zero_price) (simp add: fits_add_priced p)
    also have "sum_bind (fits k) (\<lambda>gas. if create \<and> eip3860 then add_priced gas (toWordSize (len64 data)) InitCodeWordGas else Inr gas) =
        fits (k + (if create \<and> eip3860 then (length data + 31) div 32 * 2 else 0))" for k
      using fits_add_priced [of InitCodeWordGas k "toWordSize (len64 data)"] by (simp add: w) (simp add: fits_def sum_bind_def)
    finally show ?thesis
      using nz z by (simp add: data_gas_def base_def [symmetric] p nz_def [symmetric] zero_price)
  qed
  then show ?thesis by (simp only: l Let_def)
qed


theorem intrinsic_gas_exact_witness:
  "IntrinsicGas [1, 0, 2] [(7, [1, 2])] True True True True = Inr (word_of_nat 59238)"
proof -
  have "data_gas [1, 0, 2] True True True True = 53038" "list_gas [(7, [1, 2])] = 6200"
    by (simp_all add: data_gas_def nonzero_bytes_def list_gas_def StorageKeys_def)
  then show ?thesis by (subst intrinsic_gas_exact) (simp_all add: Let_def)
qed


section \<open>Rejected messages, and what is paid\<close>

lemma account_check_same:
  assumes "sdb_ok (evm_StateDB (st_evm st))"
  shows "same (env_db env) (evm_StateDB (st_evm st)) (evm_StateDB (st_evm (snd (account_check env msg st))))"
proof -
  let ?db = "env_db env"
  define st1 where "st1 = snd (t_ask (GetNonce ?db (msg_From msg)) st)"
  define st2 where "st2 = snd (t_ask (GetCodeHash ?db (msg_From msg)) st1)"
  have 1: "same ?db (evm_StateDB (st_evm st)) (evm_StateDB (st_evm st1))"
    using queries_same(4) [OF assms] by (simp add: st1_def)
  then have "sdb_ok (evm_StateDB (st_evm st1))" using assms by (simp add: same_def)
  then have 2: "same ?db (evm_StateDB (st_evm st)) (evm_StateDB (st_evm st2))"
    using same_trans [OF 1 queries_same(6)] by (simp add: st2_def)
  have "snd (account_check env msg st) \<in> {st, st1, st2}"
    unfolding account_check_def case_prod_beta Let_def st1_def [symmetric] st2_def [symmetric] by simp
  then show ?thesis using 1 2 by auto
qed

text \<open>
  C25. A message that the checks reject leaves no trace: the pool of the block keeps its gas, and every
  answer of the state database is what it was.
\<close>

theorem rejected_message_untouched:
  assumes "sdb_ok (evm_StateDB e)" "preCheck cfg noBaseFee env msg (NewStateTransition e gp) = Ret (Some err, st)"
  shows "st_gp st = gp \<and> sview (env_db env) (evm_StateDB (st_evm st)) = sview (env_db env) (evm_StateDB e)"
proof -
  let ?init = "NewStateTransition e gp"
  let ?st = "snd (account_check env msg ?init)"
  have s: "evm_StateDB (st_evm ?init) = evm_StateDB e" "st_gp ?init = gp" by (simp_all add: NewStateTransition_def)
  have same: "same (env_db env) (evm_StateDB e) (evm_StateDB (st_evm ?st))"
    using account_check_same [of ?init env msg] assms(1) by (simp add: s)
  have "same (env_db env) (evm_StateDB (st_evm ?st)) (evm_StateDB (st_evm st)) \<and> st_gp st = st_gp ?st"
    using preCheck_Ret [OF assms(2)]
  proof
    assume "buyGas cfg env msg ?st = Ret (Some err, st)"
    then show ?thesis
      using queries_same(3) [of "evm_StateDB (st_evm ?st)" "env_db env" "msg_From msg"] same assms(1)
      unfolding buyGas_def by (auto simp: case_prod_beta Let_def gp_SubGas_def same_def split: if_splits)
  qed auto
  then show ?thesis using same by (auto simp: s same_def)
qed

text \<open>
  C24. Gas is bought exactly. When a message passes the checks, the whole gas limit has moved from the
  pool to the message, and the sender's balance has fallen by the price of the gas and of the blobs, in
  the integers; no other balance has changed. The bill is what \<open>gas_bill\<close> says, provided it is not
  larger than the sum the sender is checked for, as it is for a fee cap that is not below the price.
\<close>

theorem gas_purchase_exact:
  assumes ok: "sdb_ok (evm_StateDB e)" and p: "preCheck cfg noBaseFee env msg (NewStateTransition e gp) = Ret (None, st)"
    and bill: "gas_bill cfg env msg = Ret (balanceCheck, mgval)" "0 \<le> mgval" "mgval \<le> balanceCheck"
  shows "unat (st_gp st) + unat (msg_GasLimit msg) = unat gp \<and> st_gasRemaining st = msg_GasLimit msg \<and>
    (\<forall>a. uint (bal (env_db env) (evm_StateDB (st_evm st)) a) =
      uint (bal (env_db env) (evm_StateDB e) a) - (if a = msg_From msg then mgval else 0))"
proof -
  let ?db = "env_db env" and ?init = "NewStateTransition e gp"
  let ?st = "snd (account_check env msg ?init)"
  let ?s = "evm_StateDB (st_evm ?st)"
  let ?t = "snd (GetBalance ?db (msg_From msg) ?s)"
  have same: "same ?db (evm_StateDB e) ?s"
    using account_check_same [of ?init env msg] ok by (simp add: NewStateTransition_def)
  then have oks: "sdb_ok ?s" using ok by (simp add: same_def)
  have same2: "same ?db ?s ?t" by (rule queries_same(3) [OF oks])
  then have okt: "sdb_ok ?t" using oks by (simp add: same_def)
  have b: "buyGas cfg env msg ?st = Ret (None, st)" using preCheck_Ret [OF p] by auto
  have bals: "bal ?db ?s a = bal ?db (evm_StateDB e) a" "bal ?db ?t a = bal ?db (evm_StateDB e) a" for a
    using same same2 ok oks okt live_cong [of ?db ?s "evm_StateDB e"] live_cong [of ?db ?t ?s]
    by (simp_all add: bal_live same_def)
  have size: "\<bar>balanceCheck\<bar> < 2 ^ 256" "word_of_int balanceCheck \<le> bal ?db ?s (msg_From msg)"
    and s: "evm_StateDB (st_evm st) = SubBalance ?db (msg_From msg) (word_of_int mgval) ?t"
    using b unfolding buyGas_def bill(1)
    by (auto simp: FromBig_def case_prod_beta Let_def gp_SubGas_def bal_def not_le not_less split: if_splits)
  have "0 \<le> balanceCheck" "0 \<le> mgval" "mgval < 2 ^ 256" "balanceCheck < 2 ^ 256" using bill size(1) by auto
  then have u: "uint (word_of_int mgval :: u256) = mgval" "uint (word_of_int balanceCheck :: u256) = balanceCheck"
    by (simp_all add: word_of_int_inverse)
  have le: "word_of_int mgval \<le> bal ?db (evm_StateDB e) (msg_From msg)"
    using size(2) bill(3) by (simp add: bals word_le_def u)
  have "uint (bal ?db (evm_StateDB (st_evm st)) a) =
      uint (bal ?db (evm_StateDB e) a) - (if a = msg_From msg then mgval else 0)" for a
    using le by (simp add: s bal_SubBalance [OF okt] bals uint_sub_lem [THEN iffD1] word_le_def u)
  then show ?thesis using preCheck_bought [OF p] by (simp add: bought_def)
qed

section \<open>Every message ends\<close>

definition ends :: "'a go \<Rightarrow> bool" where
  "ends m \<longleftrightarrow> m \<noteq> OutOfFuel \<and> no_stack_panic m"

lemma ends_simps [simp]: "ends (Ret x)" "ends (Panic p) \<longleftrightarrow> p \<noteq> StackIndexOutOfRange" "ends (deref y)"
  by (simp_all add: ends_def deref_def split: option.split)

lemma ends_bind: "ends m \<Longrightarrow> (\<And>x. m = Ret x \<Longrightarrow> ends (f x)) \<Longrightarrow> ends (go_bind m f)"
  by (auto simp: ends_def intro: no_stack_panic_bind) (cases m; simp add: no_stack_panic_def)

lemma ends_checks:
  "ends (zero_fees msg)" "ends (gas_bill cfg env msg)" "ends (fee_check cfg noBaseFee env msg)"
  "ends (blob_fee_check cfg noBaseFee env msg)" "ends (effective_tip rules env msg)"
proof -
  show z: "ends (zero_fees msg)" unfolding zero_fees_def by (auto intro!: ends_bind)
  show "ends (gas_bill cfg env msg)" "ends (blob_fee_check cfg noBaseFee env msg)" "ends (effective_tip rules env msg)"
    unfolding gas_bill_def blob_fee_check_def effective_tip_def Let_def by (auto intro!: ends_bind)
  show "ends (fee_check cfg noBaseFee env msg)" unfolding fee_check_def using z by (auto intro!: ends_bind)
qed

lemma ends_phases:
  "ends (buyGas cfg env msg st)" "ends (preCheck cfg noBaseFee env msg st)"
  "ends (refundGas env msg q st)" "ends (pay_coinbase rules noBaseFee env msg st)"
proof -
  show b: "ends (buyGas cfg env msg st)" for st
    unfolding buyGas_def by (rule ends_bind) (auto simp: ends_checks case_prod_beta Let_def split: option.split)
  show "ends (preCheck cfg noBaseFee env msg st)"
    unfolding preCheck_def using b by (auto simp: ends_checks case_prod_beta Let_def intro!: ends_bind)
  show "ends (refundGas env msg q st)"
    unfolding refundGas_def Let_def by (auto simp: MustFromBig_def gp_AddGas_def case_prod_beta intro!: ends_bind)
  show "ends (pay_coinbase rules noBaseFee env msg st)"
    unfolding pay_coinbase_def by (auto simp: ends_checks intro!: ends_bind)
qed

lemma ends_Prepare: "ends (Prepare rules sender coinbase dst precompiles al s)"
proof -
  have "ends (AddSlot a k l)" for a k l
    by (auto simp: AddSlot_def slots_at_def nth_go_def split: option.split intro!: ends_bind)
  then have "ends (add_slots a ks l)" for a ks l
    by (induction ks arbitrary: l) (auto intro!: ends_bind split: prod.split)
  then have "ends (add_tuples al l)" for l
    by (induction al l rule: add_tuples.induct) (auto intro!: ends_bind)
  then show ?thesis unfolding Prepare_def by (auto simp: Let_def intro!: ends_bind)
qed

lemma ends_run:
  assumes "unat (st_gasRemaining st) < n"
  shows "ends (execute_message env (evm_Run env n) msg val st)"
proof -
  have f: "\<not> fuel_from (evm_Run env n) g" if "g < n" for g
    using evm_Run_laws(2) that unfolding fuel_from_def by (meson le_less_trans)
  have o: "ends m" if "asks (evm_Run env n) (unat (st_gasRemaining st)) m" "no_stack_panic m" for m :: "'x go"
    using that f [OF assms] by (auto simp: ends_def asks_def)
  have c: "ends (evm_Call env (evm_Run env n) caller addr input (st_gasRemaining st) val e)"
    "ends (evm_Create env (evm_Run env n) caller code (st_gasRemaining st) val e)" for caller addr input code e
    by (rule o, rule asks_calls, rule safe_calls, rule evm_Run_laws(1))+
  then show ?thesis
    unfolding execute_message_def
    by (auto simp: case_prod_beta Let_def intro!: ends_bind split: option.split)
qed

text \<open>
  C23. Applying a message ends, and the virtual machine under it never indexes its stack out of range:
  with more fuel than the gas limit of the message, every call and creation it starts gets less gas
  than fuel.
\<close>

theorem transition_ends:
  assumes "unat (msg_GasLimit msg) < n"
  shows "ApplyMessage cfg noBaseFee env (evm_Run env n) e msg gp \<noteq> OutOfFuel \<and>
    ApplyMessage cfg noBaseFee env (evm_Run env n) e msg gp \<noteq> Panic StackIndexOutOfRange"
proof -
  have "ends (run_message rules noBaseFee env (evm_Run env n) msg val st)"
    if "unat (st_gasRemaining st) < n" for rules val st
    unfolding run_message_def using that
    by (auto simp: ends_phases ends_Prepare case_prod_beta intro!: ends_bind ends_run)
  then have "ends (admitted_message cfg noBaseFee env (evm_Run env n) msg st)"
    if "unat (st_gasRemaining st) < n" for st
    using that unfolding admitted_message_def Let_def
    by (auto simp: case_prod_beta not_less unat_sub_le word_le_nat_alt split: sum.split)
  then have "ends (TransitionDb cfg noBaseFee env (evm_Run env n) msg (NewStateTransition e gp))"
    unfolding TransitionDb_def using assms
    by (auto simp: preCheck_bought(2) intro!: ends_bind ends_phases split: option.split)
  then show ?thesis by (simp add: ApplyMessage_def ends_def no_stack_panic_def)
qed

section \<open>A concrete message\<close>

text \<open>
  A message of account 5, whose nonce is 1, to the empty account 6, at a block in which the forks up to
  Spurious Dragon are in force.
\<close>

definition sample_config :: ChainConfig where
  "sample_config = MainnetChainConfig\<lparr>HomesteadBlock := Some 0, EIP150Block := Some 0, EIP155Block := Some 0, EIP158Block := Some 0\<rparr>"

definition sample_message :: "u64 \<Rightarrow> u64 \<Rightarrow> int \<Rightarrow> message" where
  "sample_message nonce gas price = \<lparr>msg_To = Some 6, msg_From = 5, msg_Nonce = nonce, msg_Value = 0, msg_GasLimit = gas,
     msg_GasPrice = price, msg_GasFeeCap = None, msg_GasTipCap = None, msg_Data = [1], msg_AccessList = [],
     msg_BlobGasFeeCap = None, msg_BlobHashes = None, msg_SkipAccountChecks = False\<rparr>"

lemmas sample_defs = sample_message_def NewStateTransition_def sample_evm_def sample_env_def
  sample_config_def MainnetChainConfig_def t_ask_def t_do_def sdb_ask_def sdb_do_def

lemma sample_bill: "gas_bill sample_config sample_env (sample_message n 40 2) = Ret (80, 80)"
  by (simp add: gas_bill_def blobGasUsed_def sample_message_def)

lemma sample_forks [simp]:
  "\<not> cfg_IsLondon sample_config (Some 1)" "\<not> cfg_IsCancun sample_config (Some 1) 1"
  by (simp_all add: sample_config_def MainnetChainConfig_def cfg_IsLondon_def cfg_IsCancun_def isBlockForked_def)

lemma account_check_passes:
  assumes "sdb_ok (evm_StateDB (st_evm st))" "live (env_db env) (evm_StateDB (st_evm st)) (msg_From msg) = Some ov"
    "ov_Nonce ov = msg_Nonce msg" "msg_Nonce msg \<le> msg_Nonce msg + 1" "ov_CodeHash ov = EmptyCodeHash (env_db env)"
  shows "fst (account_check env msg st) = None"
proof -
  let ?db = "env_db env" and ?s = "evm_StateDB (st_evm st)"
  let ?t = "snd (GetNonce ?db (msg_From msg) ?s)"
  have same: "same ?db ?s ?t" by (rule queries_same(4) [OF assms(1)])
  then have "live ?db ?t (msg_From msg) = Some ov" "sdb_ok ?t"
    using live_cong [of ?db ?t ?s] assms(1,2) by (simp_all add: same_def)
  then have "fst (GetCodeHash ?db (msg_From msg) ?t) = EmptyCodeHash ?db" using assms(5) by (simp add: query_values)
  moreover have "fst (GetNonce ?db (msg_From msg) ?s) = msg_Nonce msg" using assms(1-3) by (simp add: query_values)
  ultimately show ?thesis using leD [OF assms(4)] by (simp add: account_check_def case_prod_beta Let_def)
qed

lemma preCheck_passes:
  assumes "sdb_ok (evm_StateDB (st_evm st))" "fst (account_check env msg st) = None" "fee_check cfg noBaseFee env msg = Ret None"
    "blob_check msg = None" "blob_fee_check cfg noBaseFee env msg = Ret None" "gas_bill cfg env msg = Ret (b, m)"
    "0 \<le> b" "b \<le> uint (bal (env_db env) (evm_StateDB (st_evm st)) (msg_From msg))" "msg_GasLimit msg \<le> st_gp st"
  shows "\<exists>st'. preCheck cfg noBaseFee env msg st = Ret (None, st')"
proof -
  let ?s = "evm_StateDB (st_evm st)" and ?st = "snd (account_check env msg st)"
  have same: "same (env_db env) ?s (evm_StateDB (st_evm ?st))" by (rule account_check_same [OF assms(1)])
  then have bal: "bal (env_db env) (evm_StateDB (st_evm ?st)) (msg_From msg) = bal (env_db env) ?s (msg_From msg)"
    using assms(1) live_cong [of "env_db env" "evm_StateDB (st_evm ?st)" ?s] by (simp add: bal_live same_def)
  have "b < 2 ^ 256" using assms(8) uint_bounded [of "bal (env_db env) ?s (msg_From msg)"] by simp
  then have b: "uint (word_of_int b :: u256) = b" "\<not> 2 ^ 256 \<le> \<bar>b\<bar>" using assms(7) by (simp_all add: word_of_int_inverse)
  have "fst (GetBalance (env_db env) (msg_From msg) (evm_StateDB (st_evm ?st))) = bal (env_db env) ?s (msg_From msg)"
    by (simp only: bal [symmetric]) (simp only: bal_def)
  then have "\<exists>st'. buyGas cfg env msg ?st = Ret (None, st')"
    using assms(8,9) unfolding buyGas_def assms(6)
    by (auto simp: FromBig_def b(2) [simplified] case_prod_beta Let_def gp_SubGas_def word_less_def word_le_def b(1) not_less)
  then show ?thesis using assms(2-5) unfolding preCheck_def by (simp add: case_prod_beta Let_def)
qed

lemma sample_live:
  "live sample_db sample_state 6 = None"
  "\<exists>ov. live sample_db sample_state 5 = Some ov \<and> ov_Nonce ov = 1 \<and> ov_CodeHash ov = EmptyCodeHash sample_db"
proof -
  have "fst (GetNonce sample_db 5 sample_state) = 1" "fst (GetCodeHash sample_db 5 sample_state) = EmptyCodeHash sample_db"
    "\<not> fst (Exist sample_db 6 sample_state)"
    by (simp_all add: GetNonce_def GetCodeHash_def Exist_def query_def getStateObject_def getDeletedStateObject_def
        sample_state_def StateDB_New_def lookup_account_def newObject_def Let_def EmptyCodeHash_def sample_db_def)
  then show "live sample_db sample_state 6 = None"
    "\<exists>ov. live sample_db sample_state 5 = Some ov \<and> ov_Nonce ov = 1 \<and> ov_CodeHash ov = EmptyCodeHash sample_db"
    by (simp_all add: query_values split: option.splits)
qed

lemma sample_env_db [simp]: "env_db sample_env = sample_db" "evm_StateDB sample_evm = sample_state"
  by (simp_all add: sample_env_def sample_evm_def)

lemma sample_checks:
  assumes "0 \<le> price" "uint gas * price \<le> 100" "gas \<le> gp"
  shows "\<exists>st. preCheck sample_config False sample_env (sample_message 1 gas price) (NewStateTransition sample_evm gp) = Ret (None, st)"
proof (rule preCheck_passes)
  obtain ov where "live sample_db sample_state 5 = Some ov" "ov_Nonce ov = 1" "ov_CodeHash ov = EmptyCodeHash sample_db"
    using sample_live by blast
  then show "fst (account_check sample_env (sample_message 1 gas price) (NewStateTransition sample_evm gp)) = None"
    by (intro account_check_passes) (simp_all add: NewStateTransition_def sample_message_def)
  show "gas_bill sample_config sample_env (sample_message 1 gas price) = Ret (uint gas * price, uint gas * price)"
    by (simp add: gas_bill_def blobGasUsed_def sample_message_def Let_def)
qed (use assms in \<open>simp_all add: NewStateTransition_def fee_check_def blob_check_def blob_fee_check_def blobGasUsed_def
    bal_def sample_values sample_message_def sample_env_def\<close>)

theorem gas_purchase_exact_witness:
  "\<exists>st. preCheck sample_config False sample_env (sample_message 1 40 2) (NewStateTransition sample_evm 100) = Ret (None, st) \<and>
     unat (st_gp st) = 60 \<and> uint (bal sample_db (evm_StateDB (st_evm st)) 5) = 20"
proof -
  have bill: "gas_bill sample_config sample_env (sample_message 1 40 2) = Ret (80, 80)"
    by (simp add: gas_bill_def blobGasUsed_def sample_message_def)
  obtain st where p: "preCheck sample_config False sample_env (sample_message 1 40 2) (NewStateTransition sample_evm 100) = Ret (None, st)"
    using sample_checks [of 2 40 100] by auto
  have "bal sample_db sample_state 5 = 100" "msg_From (sample_message 1 40 2) = 5" "msg_GasLimit (sample_message 1 40 2) = 40"
    by (simp_all add: bal_def sample_values sample_message_def)
  then show ?thesis using gas_purchase_exact [OF _ p bill] p by simp
qed

theorem rejected_message_untouched_witness:
  "\<exists>st. preCheck sample_config False sample_env (sample_message 2 40 2) (NewStateTransition sample_evm 100) = Ret (Some Core_NonceTooHigh, st) \<and>
     st_gp st = 100 \<and> sview sample_db (evm_StateDB (st_evm st)) = sview sample_db sample_state"
proof -
  have "fst (GetNonce sample_db 5 sample_state) = 1"
    using sample_live(2) by (auto simp: query_values)
  then obtain st where "preCheck sample_config False sample_env (sample_message 2 40 2) (NewStateTransition sample_evm 100) =
      Ret (Some Core_NonceTooHigh, st)"
    by (simp add: preCheck_def account_check_def case_prod_beta Let_def NewStateTransition_def sample_message_def)
  from this rejected_message_untouched [OF _ this] show ?thesis by simp
qed

theorem transition_ends_witness:
  "ApplyMessage sample_config False sample_env (evm_Run sample_env 41) sample_evm (sample_message 1 40 2) 100 \<noteq> OutOfFuel"
  using transition_ends [of "sample_message 1 40 2" 41 sample_config False sample_env sample_evm 100]
  by (simp add: sample_message_def)

lemma sample_rule_facts:
  "IsHomestead (snd (cfg_Rules sample_config (Some 1) b 1))" "\<not> IsIstanbul (snd (cfg_Rules sample_config (Some 1) b 1))"
  "\<not> IsShanghai (snd (cfg_Rules sample_config (Some 1) b 1))" "\<not> IsBerlin (snd (cfg_Rules sample_config (Some 1) b 1))"
  "\<not> IsLondon (snd (cfg_Rules sample_config (Some 1) b 1))"
  by (simp_all add: cfg_Rules_def Let_def cfg_IsHomestead_def cfg_IsIstanbul_def cfg_IsLondon_def cfg_IsBerlin_def isBlockForked_def
      sample_config_def MainnetChainConfig_def)

lemma preCheck_pays:
  assumes "sdb_ok (evm_StateDB (st_evm st))" "preCheck cfg noBaseFee env msg st = Ret (None, st')"
  shows "\<exists>t x. same (env_db env) (evm_StateDB (st_evm st)) t \<and> evm_StateDB (st_evm st') = SubBalance (env_db env) (msg_From msg) x t"
proof -
  let ?st = "snd (account_check env msg st)"
  have same: "same (env_db env) (evm_StateDB (st_evm st)) (evm_StateDB (st_evm ?st))" by (rule account_check_same [OF assms(1)])
  then have "sdb_ok (evm_StateDB (st_evm ?st))" using assms(1) by (simp add: same_def)
  note same2 = same_trans [OF same queries_same(3) [OF this, of "env_db env" "msg_From msg"]]
  have "buyGas cfg env msg ?st = Ret (None, st')" using preCheck_Ret [OF assms(2)] by auto
  then have "\<exists>x. evm_StateDB (st_evm st') =
      SubBalance (env_db env) (msg_From msg) x (snd (GetBalance (env_db env) (msg_From msg) (evm_StateDB (st_evm ?st))))"
    unfolding buyGas_def by (auto simp: case_prod_beta Let_def gp_SubGas_def split: if_splits)
  then show ?thesis using same2 by blast
qed

text \<open>A call without value to an account that does not exist does nothing.\<close>

lemma call_to_nobody:
  assumes "sdb_ok (evm_StateDB e)" "evm_depth e \<le> uint CallCreateDepth" "live (env_db env) (evm_StateDB e) addr = None"
    "precompile env addr = None" "IsEIP158 (chainRules env)"
  shows "\<exists>e'. evm_Call env run caller addr input gas 0 e = Ret (([], gas, None), e')"
proof -
  have "sview (env_db env) (snd (Snapshot (evm_StateDB e))) = sview (env_db env) (evm_StateDB e)"
    by (simp add: Snapshot_def)
  from live_cong [OF this] have "live (env_db env) (snd (Snapshot (evm_StateDB e))) addr = None"
    using assms(3) by simp
  moreover have "sdb_ok (snd (Snapshot (evm_StateDB e)))"
    using Snapshot_extends [OF assms(1)] by (simp add: extends_def sdb.later_def)
  ultimately have "\<not> fst (Exist (env_db env) addr (snd (Snapshot (evm_StateDB e))))" by (simp add: query_values)
  then show ?thesis using assms by (simp add: evm_Call_def case_prod_beta Let_def)
qed

lemma preCheck_depth:
  assumes "preCheck cfg noBaseFee env msg st = Ret (err, st')"
  shows "evm_depth (st_evm st') = evm_depth (st_evm st)"
proof -
  have "evm_depth (st_evm (snd (account_check env msg st))) = evm_depth (st_evm st)"
    by (auto simp: account_check_def case_prod_beta Let_def)
  then show ?thesis
    using preCheck_Ret [OF assms] unfolding buyGas_def
    by (auto simp: case_prod_beta Let_def gp_SubGas_def split: if_splits)
qed

lemma sample_transition:
  "\<exists>res st. ApplyMessage sample_config False sample_env (evm_Run sample_env 30001) sample_evm (sample_message 1 30000 0) 40000 =
     Ret (Inr res, st)"
proof -
  let ?msg = "sample_message 1 30000 0"
  obtain st where p: "preCheck sample_config False sample_env ?msg (NewStateTransition sample_evm 40000) = Ret (None, st)"
    using sample_checks [of 0 30000 40000] by auto
  have g: "st_gasRemaining st = 30000" "unat (st_gp st) = 10000" "st_initialGas st = 30000" "evm_depth (st_evm st) = 0"
    using preCheck_bought [OF p] preCheck_depth [OF p] by (simp_all add: bought_def NewStateTransition_def sample_evm_def)
      (simp_all add: sample_message_def)
  define st2 where "st2 = st\<lparr>st_gasRemaining := 8932\<rparr>"
  define s2 where "s2 = (evm_StateDB (st_evm st2))\<lparr>sdb_transientStorage := newTransientStorage\<rparr>"
  define st3 where "st3 = st2\<lparr>st_evm := (st_evm st2)\<lparr>evm_StateDB := s2\<rparr>\<rparr>"
  obtain t x where t: "same sample_db sample_state t" "evm_StateDB (st_evm st) = SubBalance sample_db 5 x t"
    using preCheck_pays [OF _ p] by (auto simp: NewStateTransition_def) (auto simp: sample_message_def)
  have okt: "sdb_ok t" using t(1) by (simp add: same_def)
  have oks: "sdb_ok (evm_StateDB (st_evm st))" using advances_ok [OF balance_ops_advance(2) [OF okt]] by (simp add: t(2))
  have "live sample_db (evm_StateDB (st_evm st)) 6 = None"
    using t(1) live_cong [of sample_db t sample_state] sample_live(1) by (simp add: t(2) live_set(4) [OF okt] same_def)
  then have l3: "live sample_db s2 6 = None" "sdb_ok s2"
    using oks by (simp_all add: s2_def st2_def live_def sview_simps)
  obtain r st4 where x: "execute_message sample_env (evm_Run sample_env 30001) ?msg 0 st3 = Ret (r, st4)"
    and st4: "st_gasRemaining st4 = 8932" "st_gp st4 = st_gp st" "st_initialGas st4 = 30000"
  proof -
    let ?u = "snd (GetNonce sample_db 5 s2)"
    define n where "n = fst (GetNonce sample_db 5 s2) + 1"
    have same: "same sample_db s2 ?u" by (rule queries_same(4) [OF l3(2)])
    then have oku: "sdb_ok ?u" using l3(2) by (simp add: same_def)
    define e where "e = (st_evm st3)\<lparr>evm_StateDB := SetNonce sample_db 5 n ?u\<rparr>"
    have "live sample_db (SetNonce sample_db 5 n ?u) 6 = None"
      using same live_cong [of sample_db ?u s2] l3(1) by (simp add: live_set(1) [OF oku] same_def)
    moreover have "sdb_ok (SetNonce sample_db 5 n ?u)" using advances_ok [OF SetNonce_advances [OF oku]] by blast
    ultimately obtain e' where c: "evm_Call sample_env (evm_Run sample_env 30001) (AccountRef 5) 6 [1] 8932 0 e = Ret (([], 8932, None), e')"
      using call_to_nobody [of e sample_env 6 "evm_Run sample_env 30001" "AccountRef 5" "[1]" 8932] g(4)
      by (auto simp: e_def st3_def st2_def precompile_def sample_env_def sample_rules_def sample_precompiles_def)
    show thesis
    proof (rule that)
      show "execute_message sample_env (evm_Run sample_env 30001) ?msg 0 st3 =
          Ret (([], None), st3\<lparr>st_evm := e', st_gasRemaining := 8932\<rparr>)"
        using c by (simp add: execute_message_def sample_message_def t_ask_def t_do_def sdb_ask_def sdb_do_def case_prod_beta
            Let_def st3_def st2_def n_def e_def)
    qed (simp_all add: st3_def st2_def g)
  qed
  have ig: "IntrinsicGas [1] [] False True False False = Inr 21068"
    by (simp add: IntrinsicGas_def sum_bind_def add_priced_def len64_def StorageKeys_def)
  obtain rfd st5 where f: "refundGas sample_env ?msg RefundQuotient st4 = Ret (rfd, st5)"
  proof -
    define x where "x = (if gasUsed st4 div RefundQuotient > GetRefund (evm_StateDB (st_evm st4)) then GetRefund (evm_StateDB (st_evm st4))
      else gasUsed st4 div RefundQuotient)"
    have "x \<le> 10534" by (auto simp: x_def gasUsed_def st4 word_less_def word_le_def)
    then have x: "unat x \<le> 10534" by (simp add: word_le_nat_alt)
    then have "unat (8932 + x) = 8932 + unat x" by (simp add: unat_word_ariths)
    moreover from this have "unat (0xFFFFFFFFFFFFFFFF - (8932 + x)) = 0xFFFFFFFFFFFFFFFF - (8932 + unat x)"
      using x by (subst unat_sub) (simp_all add: word_le_nat_alt)
    ultimately have "\<not> st_gp st4 > 0xFFFFFFFFFFFFFFFF - (8932 + x)"
      using x g(2) by (simp add: st4 word_less_nat_alt)
    then show thesis
      using that unfolding refundGas_def Let_def x_def [symmetric]
      by (simp add: st4 gp_AddGas_def MustFromBig_def FromBig_def sample_message_def)
  qed
  have run: "\<exists>res st'. run_message rules False sample_env (evm_Run sample_env 30001) ?msg 0 st2 = Ret (Inr res, st')"
    if "\<not> IsBerlin rules" "\<not> IsLondon rules" for rules
    using x f that
    by (simp add: run_message_def Prepare_def s2_def st3_def case_prod_beta pay_coinbase_def effective_tip_def)
  have c: "BlockNumber (Context sample_env) = 1" "Time (Context sample_env) = 1" by (simp_all add: sample_env_def)
  have m: "msg_Data ?msg = [1]" "msg_AccessList ?msg = []" "msg_To ?msg = Some 6" "msg_Value ?msg = 0"
    by (simp_all add: sample_message_def)
  have "\<exists>res st'. admitted_message sample_config False sample_env (evm_Run sample_env 30001) ?msg st = Ret (Inr res, st')"
    unfolding admitted_message_def c m Let_def
    using run [OF sample_rule_facts(4,5)] ig g(1) by (simp add: sample_rule_facts FromBig_def st2_def)
  then show ?thesis by (simp add: ApplyMessage_def TransitionDb_def p)
qed

theorem transition_accounts_gas_witness:
  "\<exists>res st. ApplyMessage sample_config False sample_env (evm_Run sample_env 30001) sample_evm (sample_message 1 30000 0) 40000 =
     Ret (Inr res, st) \<and> unat (st_gp st) + unat (UsedGas res) = 40000 \<and> 21068 \<le> unat (UsedGas res) + unat (RefundedGas res)"
proof -
  obtain res st where a: "ApplyMessage sample_config False sample_env (evm_Run sample_env 30001) sample_evm (sample_message 1 30000 0) 40000 =
     Ret (Inr res, st)" using sample_transition by blast
  have c: "BlockNumber (Context sample_env) = 1" "Time (Context sample_env) = 1" by (simp_all add: sample_env_def)
  have m: "msg_Data (sample_message 1 30000 0) = [1]" "msg_AccessList (sample_message 1 30000 0) = []"
    "(msg_To (sample_message 1 30000 0) = None) = False" by (simp_all add: sample_message_def)
  have ig: "IntrinsicGas [1] [] False True False False = Inr 21068"
    by (simp add: IntrinsicGas_def sum_bind_def add_priced_def len64_def StorageKeys_def)
  show ?thesis
    using a transition_accounts_gas [OF a, unfolded c m] by (auto simp: sample_rule_facts ig)
qed

end
