(* ===== verification/Trie_Encoding.thy ===== *)
theory Trie_Encoding imports Code_Analysis begin

text \<open>
  The three encodings of trie keys, \<open>trie/encoding.go\<close>: key bytes, one byte for each nibble with an
  optional terminator 16 (hex), and the compact form of the nodes on disk.
\<close>

section \<open>Nibbles\<close>

definition hasTerm :: "bytes \<Rightarrow> bool" where
  "hasTerm s \<longleftrightarrow> s \<noteq> [] \<and> last s = 16"

text \<open>\<open>decodeNibbles\<close> writes into the slice it is given, which is the second argument and the result.\<close>

fun decodeNibbles :: "bytes \<Rightarrow> bytes \<Rightarrow> bytes go" where
  "decodeNibbles [] out = Ret out"
| "decodeNibbles (hi # lo # nibbles) (x # out) =
     go_bind (decodeNibbles nibbles out) (\<lambda>out. Ret ((push_bit 4 hi OR lo) # out))"
| "decodeNibbles _ _ = Panic IndexOutOfRange"

definition prefixLen :: "bytes \<Rightarrow> bytes \<Rightarrow> nat" where
  "prefixLen a b = length (takeWhile (\<lambda>(x, y). x = y) (zip a b))"

definition keybytesToHex :: "bytes \<Rightarrow> bytes" where
  "keybytesToHex str = concat (map (\<lambda>b. [b div 16, b mod 16]) str) @ [16]"

definition hexToKeybytes :: "bytes \<Rightarrow> bytes go" where
  "hexToKeybytes hex =
     (let hex = (if hasTerm hex then butlast hex else hex) in
      if odd (length hex) then Panic OddHexKey
      else decodeNibbles hex (replicate (length hex div 2) 0))"

section \<open>Compact keys\<close>

definition hexToCompact :: "bytes \<Rightarrow> bytes go" where
  "hexToCompact hex =
     (let terminator = (if hasTerm hex then 1 else 0) :: u8;
          hex = (if hasTerm hex then butlast hex else hex);
          buf0 = push_bit 5 terminator;
          n = length hex div 2
      in if odd (length hex) then
           go_bind (nth_go hex 0) (\<lambda>h.
           go_bind (decodeNibbles (drop 1 hex) (replicate n 0)) (\<lambda>out. Ret ((buf0 OR push_bit 4 1 OR h) # out)))
         else go_bind (decodeNibbles hex (replicate n 0)) (\<lambda>out. Ret (buf0 # out)))"

text \<open>The loop of \<open>hexToCompactInPlace\<close>: it reads at \<open>ni\<close> and writes at \<open>bi\<close> of the same slice.\<close>

function compact_loop :: "nat \<Rightarrow> nat \<Rightarrow> nat \<Rightarrow> bytes \<Rightarrow> bytes go" where
  "compact_loop hexLen bi ni hex =
     (if ni < hexLen then
        go_bind (nth_go hex ni) (\<lambda>hi.
        go_bind (nth_go hex (ni + 1)) (\<lambda>lo.
        go_bind (update_go hex bi (\<lambda>_. push_bit 4 hi OR lo)) (\<lambda>hex.
          compact_loop hexLen (bi + 1) (ni + 2) hex)))
      else Ret hex)"
  by pat_completeness auto
termination by (relation "measure (\<lambda>(hexLen, bi, ni, hex). hexLen - ni)") auto

declare compact_loop.simps [simp del]

definition hexToCompactInPlace :: "bytes \<Rightarrow> bytes go" where
  "hexToCompactInPlace hex =
     (let term = hasTerm hex;
          hexLen = (if term then length hex - 1 else length hex);
          firstByte = (if term then push_bit 5 1 else 0) :: u8;
          binLen = hexLen div 2 + 1
      in go_bind (if odd hexLen then go_bind (nth_go hex 0) (\<lambda>h. Ret (firstByte OR push_bit 4 1 OR h, 1))
                  else Ret (firstByte, 0)) (\<lambda>(firstByte, ni).
         go_bind (compact_loop hexLen 1 ni hex) (\<lambda>hex.
         go_bind (update_go hex 0 (\<lambda>_. firstByte)) (\<lambda>hex. slice hex 0 binLen))))"

definition compactToHex :: "bytes \<Rightarrow> bytes go" where
  "compactToHex compact =
     (if compact = [] then Ret compact
      else let base = keybytesToHex compact in
        go_bind (nth_go base 0) (\<lambda>b0.
        let base = (if b0 < 2 then butlast base else base);
            chop = 2 - (b0 AND 1)
        in slice base (unat chop) (length base)))"

section \<open>Pairs of nibbles\<close>

text \<open>Nibbles, and the bytes made of pairs of them.\<close>

definition is_nibbles :: "bytes \<Rightarrow> bool" where
  "is_nibbles s \<longleftrightarrow> list_all (\<lambda>x. x < 16) s"

fun pack :: "bytes \<Rightarrow> bytes" where
  "pack (hi # lo # s) = (push_bit 4 hi OR lo) # pack s"
| "pack _ = []"

lemma decodeNibbles_pack: "even (length s) \<Longrightarrow> length out = length s div 2 \<Longrightarrow> decodeNibbles s out = Ret (pack s)"
  by (induction s out rule: decodeNibbles.induct) auto

lemma low_nibble: "lo < 16 \<Longrightarrow> take_bit 4 lo = (lo :: u8)"
  by (rule word_unat_eq_iff [THEN iffD2]) (simp add: take_bit_eq_mod unat_mod word_less_nat_alt)

lemma byte_of_nibbles:
  assumes "lo < 16"
  shows "push_bit 4 hi OR lo = 16 * hi + (lo :: u8)"
proof -
  have "push_bit 4 hi + lo = push_bit 4 hi OR lo"
    using low_nibble [OF assms] by (intro disjunctive_add) (metis bit_push_bit_iff bit_take_bit_iff linorder_not_less)
  then show ?thesis by (simp add: push_bit_eq_mult mult.commute)
qed

lemma split_byte:
  assumes "hi < 16" "lo < 16"
  shows "(push_bit 4 hi OR lo) div 16 = (hi :: u8)" "(push_bit 4 hi OR lo) mod 16 = lo"
proof -
  have n: "unat hi < 16" "unat lo < 16" using assms by (simp_all add: word_less_nat_alt)
  then have u: "unat (16 * hi + lo) = 16 * unat hi + unat lo" by (simp add: unat_word_ariths)
  show "(push_bit 4 hi OR lo) div 16 = hi" "(push_bit 4 hi OR lo) mod 16 = lo"
    unfolding byte_of_nibbles [OF assms(2)]
    by (rule word_unat_eq_iff [THEN iffD2]; use u n in \<open>simp add: unat_div unat_mod\<close>)+
qed

lemma join_byte: "push_bit 4 (b div 16) OR b mod 16 = (b :: u8)"
proof -
  have "b mod 16 < 16" by (simp add: word_less_nat_alt unat_mod)
  from byte_of_nibbles [OF this, of "b div 16"] show ?thesis by (simp add: mult_div_mod_eq)
qed

lemma pack_unpack: "pack (concat (map (\<lambda>b. [b div 16, b mod 16]) str)) = str"
  by (induction str) (simp_all add: join_byte)

lemma unpack_pack:
  "even (length s) \<Longrightarrow> is_nibbles s \<Longrightarrow> concat (map (\<lambda>b. [b div 16, b mod 16]) (pack s)) = s"
  by (induction s rule: pack.induct) (simp_all add: is_nibbles_def split_byte)

lemma length_pack: "length (pack s) = length s div 2"
  by (induction s rule: pack.induct) simp_all

text \<open>A hex key: nibbles, perhaps with a terminator.\<close>

definition hex_key :: "bytes \<Rightarrow> bool" where
  "hex_key hex \<longleftrightarrow> is_nibbles (if hasTerm hex then butlast hex else hex)"

lemma hex_key_cases:
  assumes "hex_key hex"
  obtains s where "is_nibbles s" "hex = s @ [16]" "hasTerm hex" | "is_nibbles hex" "\<not> hasTerm hex"
proof (cases "hasTerm hex")
  case True
  then show ?thesis
    using assms that(1) [of "butlast hex"] append_butlast_last_id [of hex] by (auto simp: hex_key_def hasTerm_def)
next
  case False
  then show ?thesis using assms that(2) by (simp add: hex_key_def)
qed

lemma hasTerm_butlast: "hasTerm s \<Longrightarrow> butlast s @ [16] = s"
  by (metis append_butlast_last_id hasTerm_def)

lemma nibbles_no_term: "is_nibbles s \<Longrightarrow> \<not> hasTerm s"
  unfolding is_nibbles_def hasTerm_def list_all_iff by (metis last_in_set less_irrefl)

lemma hasTerm_snoc [simp]: "hasTerm (s @ [16])"
  by (simp add: hasTerm_def)

definition compact_of :: "bytes \<Rightarrow> bool \<Rightarrow> bytes" where
  "compact_of s t = (let flag = (if t then 0x20 else 0) :: u8 in
     if odd (length s) then (flag OR 0x10 OR hd s) # pack (tl s) else flag # pack s)"

lemma hexToCompact_eq: "hexToCompact hex = Ret (compact_of (if hasTerm hex then butlast hex else hex) (hasTerm hex))"
proof -
  have "(if odd (length s) then
      go_bind (nth_go s 0) (\<lambda>h. go_bind (decodeNibbles (drop 1 s) (replicate (length s div 2) 0)) (\<lambda>out. Ret ((f OR push_bit 4 1 OR h) # out)))
    else go_bind (decodeNibbles s (replicate (length s div 2) 0)) (\<lambda>out. Ret (f # out)))
    = Ret (if odd (length s) then (f OR 0x10 OR hd s) # pack (tl s) else f # pack s)" for s f
    by (cases s) (simp_all add: nth_go_def decodeNibbles_pack push_bit_eq_mult)
  note c = this
  show ?thesis unfolding hexToCompact_def Let_def c compact_of_def by (simp add: push_bit_eq_mult)
qed

text \<open>Reading a compact key back.\<close>

lemma flag_bits:
  assumes "h < 16"
  shows "(0x20 OR 0x10 OR h) div 16 = (3 :: u8)" "(0x20 OR 0x10 OR h) mod 16 = h"
    "(0x10 OR h) div 16 = (1 :: u8)" "(0x10 OR h) mod 16 = h"
  using split_byte [OF _ assms, of 3] split_byte [OF _ assms, of 1] by (simp_all add: push_bit_eq_mult or.assoc [symmetric])

lemma compactToHex_compact_of:
  assumes "is_nibbles s"
  shows "compactToHex (compact_of s t) = Ret (if t then s @ [16] else s)"
proof (cases "odd (length s)")
  case True
  then obtain h s' where s: "s = h # s'" by (cases s) auto
  then have h: "h < 16" "is_nibbles s'" "even (length s')" using assms True by (auto simp: is_nibbles_def)
  show ?thesis
    using h by (cases t) (simp_all add: compactToHex_def compact_of_def s Let_def keybytesToHex_def nth_go_def flag_bits unpack_pack
      slice_def butlast_append)
next
  case False
  then show ?thesis
    using assms by (cases t) (simp_all add: compactToHex_def compact_of_def Let_def keybytesToHex_def nth_go_def unpack_pack
      slice_def butlast_append)
qed

section \<open>The conversion in place\<close>

lemma compact_loop_pack:
  assumes "hexLen \<le> length hex" "ni \<le> hexLen" "even (hexLen - ni)" "bi \<le> ni + 1"
  shows "compact_loop hexLen bi ni hex =
    Ret (take bi hex @ pack (take (hexLen - ni) (drop ni hex)) @ drop (bi + (hexLen - ni) div 2) hex)"
  using assms
proof (induction hexLen bi ni hex rule: compact_loop.induct)
  case (1 hexLen bi ni hex)
  show ?case
  proof (cases "ni < hexLen")
    case False
    then show ?thesis using "1.prems" by (subst compact_loop.simps) simp
  next
    case True
    then have two: "ni + 2 \<le> hexLen" "even (hexLen - (ni + 2))" "hexLen - ni = Suc (Suc (hexLen - (ni + 2)))"
      using "1.prems" by presburger+
    define x where "x = push_bit 4 (hex ! ni) OR hex ! (ni + 1)"
    define hex' where "hex' = hex[bi := x]"
    have hex': "take (bi + 1) hex' = take bi hex @ [x]" "drop (ni + 2) hex' = drop (ni + 2) hex"
      "drop (bi + 1 + k) hex' = drop (bi + 1 + k) hex" "length hex' = length hex" for k
      using "1.prems" two by (simp_all add: hex'_def take_Suc_conv_app_nth)
    have "drop ni hex = hex ! ni # hex ! (ni + 1) # drop (ni + 2) hex"
      using "1.prems"(1) two(1) Cons_nth_drop_Suc [of ni hex] Cons_nth_drop_Suc [of "Suc ni" hex] by simp
    then have p: "pack (take (hexLen - ni) (drop ni hex)) = x # pack (take (hexLen - (ni + 2)) (drop (ni + 2) hex))"
      by (simp add: two(3) x_def)
    have "compact_loop hexLen bi ni hex = compact_loop hexLen (bi + 1) (ni + 2) hex'"
      using True "1.prems" two(1) by (subst compact_loop.simps) (simp add: nth_go_def update_go_def hex'_def x_def)
    also have "\<dots> = Ret (take (bi + 1) hex' @ pack (take (hexLen - (ni + 2)) (drop (ni + 2) hex')) @
        drop (bi + 1 + (hexLen - (ni + 2)) div 2) hex')"
      using True "1.prems" two by (intro "1.IH") (auto simp: nth_go_def update_go_def hex'_def x_def)
    also have "\<dots> = Ret (take bi hex @ pack (take (hexLen - ni) (drop ni hex)) @ drop (bi + (hexLen - ni) div 2) hex)"
    proof -
      have "bi + (hexLen - ni) div 2 = bi + 1 + (hexLen - (ni + 2)) div 2" using two(3) by simp
      then show ?thesis unfolding p hex' by simp
    qed
    finally show ?thesis .
  qed
qed

lemma in_place_eq:
  assumes "hex \<noteq> []"
  shows "hexToCompactInPlace hex = hexToCompact hex"
proof -
  define t where "t = hasTerm hex"
  define s where "s = (if t then butlast hex else hex)"
  define n where "n = length s"
  have n: "(if t then length hex - 1 else length hex) = n" "n \<le> length hex" "take n hex = s"
    by (simp_all add: n_def s_def butlast_conv_take)
  have len: "n div 2 + 1 \<le> length hex" using assms n(2) by (cases hex) auto
  define f where "f = (if odd n then (if t then push_bit 5 1 else 0) OR push_bit 4 1 OR hd s else if t then push_bit 5 1 else (0 :: u8))"
  define k where "k = n mod 2"
  have k: "k \<le> n" "even (n - k)" "(n - k) div 2 = n div 2" "k \<le> 1" "1 \<le> k + 1" by (auto simp: k_def) presburger+
  define h where "h = take 1 hex @ pack (take (n - k) (drop k hex)) @ drop (1 + n div 2) hex"
  have lp: "length (pack (take (n - k) (drop k hex))) = n div 2" using n(2) k by (simp add: length_pack)
  have "take (n - k) (drop k hex) = drop k s" by (simp add: n(3) [symmetric] drop_take)
  then have sl: "slice (h[0 := f]) 0 (n div 2 + 1) = Ret (f # pack (drop k s))" "h \<noteq> []"
    using assms len lp by (cases hex; simp add: h_def slice_def)+
  have loop: "compact_loop n 1 k hex = Ret h"
    using compact_loop_pack [of n hex k 1] n(2) k by (simp add: h_def)
  have rest: "go_bind (compact_loop n 1 k hex) (\<lambda>hex. go_bind (update_go hex 0 (\<lambda>_. f)) (\<lambda>hex. slice hex 0 (n div 2 + 1)))
      = Ret (f # pack (drop k s))"
    unfolding loop using sl by (simp add: update_go_def)
  have hd: "nth_go hex 0 = Ret (hd s)" if "odd n"
    using that assms hd_take [of n hex] n(3) by (simp add: nth_go_def odd_pos hd_conv_nth)
  have "hexToCompactInPlace hex = Ret (f # pack (drop k s))"
  proof (cases "odd n")
    case True
    then show ?thesis using rest hd
      unfolding hexToCompactInPlace_def Let_def t_def [symmetric] n(1) by (simp add: f_def k_def odd_iff_mod_2_eq_one)
  next
    case False
    then show ?thesis using rest
      unfolding hexToCompactInPlace_def Let_def t_def [symmetric] n(1) by (simp add: f_def k_def)
  qed
  moreover have "compact_of s t = f # pack (drop k s)"
    by (cases "odd n") (simp_all add: compact_of_def f_def k_def n_def [symmetric] odd_iff_mod_2_eq_one push_bit_eq_mult drop_Suc)
  ultimately show ?thesis by (simp add: hexToCompact_eq s_def t_def)
qed

text \<open>Keys in bytes.\<close>

lemma hexToKeybytes_keybytesToHex: "hexToKeybytes (keybytesToHex key) = Ret key"
proof -
  have "even (length (concat (map (\<lambda>b. [b div 16, b mod 16]) key)))" by (induction key) auto
  moreover have "length (concat (map (\<lambda>b. [b div 16, b mod 16]) key)) = 2 * length key" by (induction key) auto
  ultimately show ?thesis by (simp add: hexToKeybytes_def keybytesToHex_def decodeNibbles_pack pack_unpack Let_def)
qed

lemma keybytesToHex_inj: "keybytesToHex k = keybytesToHex k' \<longleftrightarrow> k = k'"
  using hexToKeybytes_keybytesToHex by (metis go.inject(1))

section \<open>Common prefixes\<close>

lemma prefixLen_le: "prefixLen a b \<le> length a" "prefixLen a b \<le> length b"
  using length_takeWhile_le [of "\<lambda>(x, y). x = y" "zip a b"] by (simp_all add: prefixLen_def)

lemma prefixLen_Cons [simp]:
  "prefixLen [] b = 0" "prefixLen a [] = 0"
  "prefixLen (x # a) (y # b) = (if x = y then Suc (prefixLen a b) else 0)"
  by (simp_all add: prefixLen_def)

lemma prefixLen_split:
  "\<exists>a' b'. a = take (prefixLen a b) a @ a' \<and> b = take (prefixLen a b) a @ b' \<and> (a' \<noteq> [] \<longrightarrow> b' \<noteq> [] \<longrightarrow> hd a' \<noteq> hd b')"
proof (induction a arbitrary: b)
  case (Cons x a)
  then show ?case by (cases b) auto
qed simp

section \<open>Properties\<close>

text \<open>
  C39. Compact keys round-trip. For a key in nibbles, with or without a terminator, \<open>hexToCompact\<close>
  returns without an index panic, \<open>compactToHex\<close> of the result gives the key back, and the conversion in
  place, which overwrites the slice it is reading, returns the same.
\<close>

theorem compact_roundtrip:
  assumes "hex_key hex" "hex \<noteq> []"
  shows "\<exists>c. hexToCompact hex = Ret c \<and> hexToCompactInPlace hex = Ret c \<and> compactToHex c = Ret hex"
proof -
  have "is_nibbles (if hasTerm hex then butlast hex else hex)" using assms(1) by (simp add: hex_key_def)
  from compactToHex_compact_of [OF this, of "hasTerm hex"]
  have "compactToHex (compact_of (if hasTerm hex then butlast hex else hex) (hasTerm hex)) = Ret hex"
    by (cases "hasTerm hex") (simp_all add: hasTerm_butlast)
  then show ?thesis using in_place_eq [OF assms(2)] hexToCompact_eq [of hex] by auto
qed

theorem compact_roundtrip_witness:
  "\<exists>c. hexToCompact [1, 2, 3, 16] = Ret c \<and> hexToCompactInPlace [1, 2, 3, 16] = Ret c \<and> compactToHex c = Ret [1, 2, 3, 16]"
  by (rule compact_roundtrip) (simp_all add: hex_key_def is_nibbles_def hasTerm_def)

end
