(* ===== verification/RLP_Encode.thy ===== *)
theory RLP_Encode imports RLP_Raw begin

text \<open>
  Writing RLP: the encoder buffer of \<open>rlp/encbuffer.go\<close> with the integers and headers of
  \<open>rlp/encode.go\<close>. The buffer keeps the string data and, apart from it, the headers of the lists with
  the positions they belong to, because the size of a list is known only at its end; the output puts the
  headers between the data. The reference is the recursive encoding \<open>rlp_enc\<close> of nested lists.
\<close>

section \<open>rlp/encode.go: integers and headers\<close>

text \<open>\<open>putint\<close> writes to the front of its buffer; here it returns what it writes.\<close>

definition putint :: "u64 \<Rightarrow> bytes" where
  "putint i =
     (let byte = (\<lambda>n. ucast (drop_bit n i) :: u8)
      in if i < push_bit 8 1 then [byte 0]
         else if i < push_bit 16 1 then [byte 8, byte 0]
         else if i < push_bit 24 1 then [byte 16, byte 8, byte 0]
         else if i < push_bit 32 1 then [byte 24, byte 16, byte 8, byte 0]
         else if i < push_bit 40 1 then [byte 32, byte 24, byte 16, byte 8, byte 0]
         else if i < push_bit 48 1 then [byte 40, byte 32, byte 24, byte 16, byte 8, byte 0]
         else if i < push_bit 56 1 then [byte 48, byte 40, byte 32, byte 24, byte 16, byte 8, byte 0]
         else [byte 56, byte 48, byte 40, byte 32, byte 24, byte 16, byte 8, byte 0])"

function intsize_loop :: "nat \<Rightarrow> u64 \<Rightarrow> nat" where
  "intsize_loop n i = (let i = drop_bit 8 i in if i = 0 then n else intsize_loop (n + 1) i)"
  by pat_completeness auto
termination
proof (relation "measure (\<lambda>(n, i). unat i)")
  fix n and i x :: u64
  assume x: "x = drop_bit 8 i" "x \<noteq> 0"
  have "unat x = unat i div 256" by (simp add: x(1) unat_div drop_bit_eq_div)
  moreover have "unat x \<noteq> 0" using x(2) by (simp only: unat_eq_zero) simp
  ultimately show "((n + 1, x), n, i) \<in> measure (\<lambda>(n, i). unat i)" by auto
qed simp

declare intsize_loop.simps [simp del]

definition intsize :: "u64 \<Rightarrow> nat" where
  "intsize i = intsize_loop 1 i"

definition headsize :: "u64 \<Rightarrow> nat" where
  "headsize n = (if n < 56 then 1 else 1 + intsize n)"

definition puthead :: "u8 \<Rightarrow> u8 \<Rightarrow> u64 \<Rightarrow> bytes" where
  "puthead smalltag largetag n =
     (if n < 56 then [smalltag + ucast n]
      else (largetag + word_of_nat (length (putint n))) # putint n)"

record listhead =
  lh_offset :: nat
  lh_size :: nat

definition lh_encode :: "listhead \<Rightarrow> bytes" where
  "lh_encode head = puthead 0xC0 0xF7 (word_of_nat (lh_size head))"

section \<open>rlp/encbuffer.go\<close>

record encBuffer =
  eb_str :: bytes
  eb_lheads :: "listhead list"
  eb_lhsize :: nat

definition eb_reset :: encBuffer where
  "eb_reset = \<lparr>eb_str = [], eb_lheads = [], eb_lhsize = 0\<rparr>"

definition eb_size :: "encBuffer \<Rightarrow> nat" where
  "eb_size buf = length (eb_str buf) + eb_lhsize buf"

text \<open>
  \<open>copyTo\<close> writes into a slice: data is copied as far as it fits, a header must fit. The state of the
  loop is the position in the data, the position in the slice and the slice.
\<close>

definition put_header :: "bytes \<Rightarrow> nat \<Rightarrow> bytes \<Rightarrow> bytes go" where
  "put_header enc pos dst = (if pos + length enc \<le> length dst then Ret (copy_at dst pos enc) else Panic IndexOutOfRange)"

fun copy_heads :: "bytes \<Rightarrow> listhead list \<Rightarrow> nat \<times> nat \<times> bytes \<Rightarrow> (nat \<times> nat \<times> bytes) go" where
  "copy_heads str [] st = Ret st"
| "copy_heads str (head # heads) (strpos, pos, dst) =
     go_bind (slice str strpos (lh_offset head)) (\<lambda>data.
     let n = min (length data) (length dst - pos);
         dst = copy_at dst pos data;
         enc = lh_encode head in
     go_bind (put_header enc (pos + n) dst) (\<lambda>dst.
       copy_heads str heads (strpos + n, pos + n + length enc, dst)))"

definition eb_copyTo :: "encBuffer \<Rightarrow> bytes \<Rightarrow> bytes go" where
  "eb_copyTo buf dst =
     go_bind (copy_heads (eb_str buf) (eb_lheads buf) (0, 0, dst)) (\<lambda>(strpos, pos, dst).
     go_bind (slice (eb_str buf) strpos (length (eb_str buf))) (\<lambda>data. Ret (copy_at dst pos data)))"

definition eb_makeBytes :: "encBuffer \<Rightarrow> bytes go" where
  "eb_makeBytes buf = eb_copyTo buf (replicate (eb_size buf) 0)"

definition eb_Write :: "bytes \<Rightarrow> encBuffer \<Rightarrow> encBuffer" where
  "eb_Write b buf = buf\<lparr>eb_str := eb_str buf @ b\<rparr>"

definition eb_writeBool :: "bool \<Rightarrow> encBuffer \<Rightarrow> encBuffer" where
  "eb_writeBool b = eb_Write [if b then 0x01 else 0x80]"

definition eb_writeUint64 :: "u64 \<Rightarrow> encBuffer \<Rightarrow> encBuffer" where
  "eb_writeUint64 i =
     (if i = 0 then eb_Write [0x80]
      else if i < 128 then eb_Write [ucast i]
      else eb_Write ((0x80 + word_of_nat (length (putint i))) # putint i))"

definition eb_encodeStringHeader :: "nat \<Rightarrow> encBuffer \<Rightarrow> encBuffer" where
  "eb_encodeStringHeader n =
     (if n < 56 then eb_Write [0x80 + word_of_nat n]
      else let s = putint (word_of_nat n) in eb_Write ((0xB7 + word_of_nat (length s)) # s))"

definition eb_writeBytes :: "bytes \<Rightarrow> encBuffer \<Rightarrow> encBuffer" where
  "eb_writeBytes b buf =
     (if length b = 1 \<and> b ! 0 \<le> 0x7F then eb_Write [b ! 0] buf
      else eb_Write b (eb_encodeStringHeader (length b) buf))"

text \<open>\<open>list\<close> and \<open>listEnd\<close>: while the list is open, the size of its header holds \<open>lhsize\<close> at its start.\<close>

definition eb_list :: "encBuffer \<Rightarrow> nat \<times> encBuffer" where
  "eb_list buf =
     (length (eb_lheads buf),
      buf\<lparr>eb_lheads := eb_lheads buf @ [\<lparr>lh_offset = length (eb_str buf), lh_size = eb_lhsize buf\<rparr>]\<rparr>)"

definition eb_listEnd :: "nat \<Rightarrow> encBuffer \<Rightarrow> encBuffer go" where
  "eb_listEnd index buf =
     go_bind (nth_go (eb_lheads buf) index) (\<lambda>lh.
       let sz = eb_size buf - lh_offset lh - lh_size lh
       in Ret (buf\<lparr>eb_lheads := (eb_lheads buf)[index := lh\<lparr>lh_size := sz\<rparr>],
                   eb_lhsize := eb_lhsize buf + (if sz < 56 then 1 else 1 + intsize (word_of_nat sz))\<rparr>))"

section \<open>The reference encoding\<close>

datatype rlp_item = RStr bytes | RList "rlp_item list"

definition str_head :: "nat \<Rightarrow> bytes" where
  "str_head n = puthead 0x80 0xB7 (word_of_nat n)"

fun rlp_enc :: "rlp_item \<Rightarrow> bytes" where
  "rlp_enc (RStr b) = (if length b = 1 \<and> b ! 0 \<le> 0x7F then b else str_head (length b) @ b)"
| "rlp_enc (RList xs) = (let payload = concat (map rlp_enc xs) in puthead 0xC0 0xF7 (word_of_nat (length payload)) @ payload)"

text \<open>Writing nested lists to the buffer, as the encoders of the node do.\<close>

fun write_item :: "rlp_item \<Rightarrow> encBuffer \<Rightarrow> encBuffer go" and write_items :: "rlp_item list \<Rightarrow> encBuffer \<Rightarrow> encBuffer go" where
  "write_item (RStr b) buf = Ret (eb_writeBytes b buf)"
| "write_item (RList xs) buf =
     (let (index, buf) = eb_list buf in go_bind (write_items xs buf) (eb_listEnd index))"
| "write_items [] buf = Ret buf"
| "write_items (x # xs) buf = go_bind (write_item x buf) (write_items xs)"

section \<open>Sizes of headers\<close>

lemma putint_be:
  obtains n where "n < 8" "unat i < 256 ^ Suc n" "i \<noteq> 0 \<Longrightarrow> 256 ^ n \<le> unat i" "putint i = be_bytes (Suc n) i"
proof (cases "i < 128")
  case True
  then have "unat i < 128" by (simp add: word_less_nat_alt)
  moreover have "putint i = be_bytes (Suc 0) i"
    using True by (simp add: putint_def word_less_nat_alt)
  ultimately show thesis using that [of 0] by (cases "unat i = 0") (auto simp: unat_eq_zero)
next
  case False
  obtain n where n: "n < 8" "256 ^ n \<le> unat i" "unat i < 256 ^ Suc n"
    by (rule AppendUint64_cases [of i "[]"]) (use False in auto)
  have u: "[0..<1] = [0]" "[0..<2] = [0,1]" "[0..<Suc (Suc 0)] = [0, 1]" "[0..<3] = [0,1,2]" "[0..<4] = [0,1,2,3]"
      "[0..<5] = [0,1,2,3,4]" "[0..<6] = [0,1,2,3,4,5]" "[0..<7] = [0,1,2,3,4,5,6]"
      "[0..<8] = [0,1,2,3,4,5,6,7]" by (simp_all add: upt_rec)
  have "n \<in> {0, 1, 2, 3, 4, 5, 6, 7}" using n(1) by auto
  then have "putint i = be_bytes (Suc n) i"
    using n(2,3) u by (elim insertE emptyE) (simp_all add: putint_def Let_def word_less_nat_alt not_less del: upt_Suc)
  then show thesis using that n by blast
qed

lemma intsize_loop_bound:
  "unat i < 256 ^ Suc n \<Longrightarrow> n = 0 \<or> 256 ^ n \<le> unat i \<Longrightarrow> intsize_loop m i = m + n"
proof (induction n arbitrary: m i)
  case 0
  then have "unat i < 256" by simp
  then have "drop_bit 8 i = 0" by (intro word_unat_eq_iff [THEN iffD2]) (simp add: unat_div drop_bit_eq_div)
  then show ?case by (simp add: intsize_loop.simps [of m i])
next
  case (Suc n)
  define j where "j = drop_bit 8 i"
  have j: "unat j = unat i div 256" by (simp add: j_def unat_div drop_bit_eq_div)
  have "256 * 256 ^ n \<le> unat i" using Suc.prems(2) by simp
  then have b: "256 ^ n \<le> unat j" "unat j < 256 ^ Suc n"
    using Suc.prems(1) by (simp_all add: j less_eq_div_iff_mult_less_eq mult.commute div_less_iff_less_mult)
  then have "j \<noteq> 0" by (metis le_zero_eq power_not_zero unsigned_0 zero_neq_numeral)
  then have "intsize_loop m i = intsize_loop (m + 1) j" by (simp add: intsize_loop.simps [of m i] j_def Let_def)
  also have "\<dots> = m + 1 + n" using Suc.IH b by blast
  finally show ?case by simp
qed

lemma intsize_putint: "intsize i = length (putint i)"
proof -
  obtain n where n: "unat i < 256 ^ Suc n" "i \<noteq> 0 \<Longrightarrow> 256 ^ n \<le> unat i" "putint i = be_bytes (Suc n) i"
    using putint_be [of i] by blast
  show ?thesis
  proof (cases "i = 0")
    case True
    then show ?thesis by (simp add: intsize_def intsize_loop.simps putint_def)
  next
    case False
    then show ?thesis using intsize_loop_bound [OF n(1), of 1] n(2,3) by (simp add: intsize_def)
  qed
qed

lemma headsize_puthead: "headsize n = length (puthead st lt n)"
  by (simp add: headsize_def puthead_def intsize_putint)

lemma small_word: "n < 2 ^ 64 \<Longrightarrow> (word_of_nat n :: u64) < 56 \<longleftrightarrow> n < 56"
  by (simp add: word_less_nat_alt unsigned_of_nat take_bit_nat_eq_self)

lemma ucast_small: "n < 56 \<Longrightarrow> ucast (word_of_nat n :: u64) = (word_of_nat n :: u8)"
  by (rule word_unat_eq_iff [THEN iffD2]) (simp add: unsigned_ucast_eq unsigned_of_nat take_bit_nat_eq_self)

section \<open>rlp/raw.go: sizes of encodings\<close>

definition BytesSize :: "bytes \<Rightarrow> u64" where
  "BytesSize b =
     (if length b = 0 then 1
      else if length b = 1 then (if b ! 0 \<le> 0x7f then 1 else 2)
      else word_of_nat (headsize (len64 b) + length b))"

definition ListSize :: "u64 \<Rightarrow> u64" where
  "ListSize contentSize = word_of_nat (headsize contentSize) + contentSize"

definition IntSize :: "u64 \<Rightarrow> nat" where
  "IntSize x = (if x < 0x80 then 1 else 1 + intsize x)"

lemma sizes_of_encodings:
  "BytesSize b = len64 (rlp_enc (RStr b))"
  "ListSize (len64 (concat (map rlp_enc xs))) = len64 (rlp_enc (RList xs))"
proof -
  have "length (str_head 0) = 1" "length (str_head (Suc 0)) = 1" by (simp_all add: str_head_def puthead_def)
  then show "BytesSize b = len64 (rlp_enc (RStr b))"
    by (simp add: BytesSize_def len64_def headsize_puthead [of _ "0x80" "0xB7"] str_head_def)
  show "ListSize (len64 (concat (map rlp_enc xs))) = len64 (rlp_enc (RList xs))"
    by (simp add: ListSize_def len64_def headsize_puthead [of _ "0xC0" "0xF7"] Let_def)
qed

section \<open>The output of the buffer\<close>

text \<open>The data from position \<open>k\<close> on with the headers put in.\<close>

fun render :: "nat \<Rightarrow> listhead list \<Rightarrow> bytes \<Rightarrow> bytes" where
  "render k [] str = str"
| "render k (h # hs) str = take (lh_offset h - k) str @ lh_encode h @ render (lh_offset h) hs (drop (lh_offset h - k) str)"

fun heads_in :: "nat \<Rightarrow> listhead list \<Rightarrow> nat \<Rightarrow> bool" where
  "heads_in k [] e \<longleftrightarrow> k \<le> e"
| "heads_in k (h # hs) e \<longleftrightarrow> k \<le> lh_offset h \<and> heads_in (lh_offset h) hs e"

definition head_bytes :: "listhead list \<Rightarrow> nat" where
  "head_bytes hs = sum_list (map (\<lambda>h. length (lh_encode h)) hs)"

lemma head_bytes_simps [simp]:
  "head_bytes [] = 0" "head_bytes (h # hs) = length (lh_encode h) + head_bytes hs"
  "head_bytes (hs @ hs') = head_bytes hs + head_bytes hs'"
  by (simp_all add: head_bytes_def)

lemma heads_in_le: "heads_in k hs e \<Longrightarrow> k \<le> e"
  by (induction k hs e rule: heads_in.induct) auto

lemma heads_in_append: "heads_in k hs m \<Longrightarrow> heads_in m hs' e \<Longrightarrow> heads_in k (hs @ hs') e"
proof (induction k hs m rule: heads_in.induct)
  case (1 k m)
  then show ?case by (cases hs') auto
qed auto

lemma length_render: "heads_in k hs (k + length s) \<Longrightarrow> length (render k hs s) = length s + head_bytes hs"
proof (induction k hs s rule: render.induct)
  case (2 k h hs str)
  then have "lh_offset h \<le> k + length str" using heads_in_le by auto
  with 2 show ?case by (simp add: add.commute)
qed simp

lemma render_append:
  "heads_in k hs (k + length s) \<Longrightarrow> heads_in (k + length s) hs' e \<Longrightarrow>
   render k (hs @ hs') (s @ s') = render k hs s @ render (k + length s) hs' s'"
proof (induction k hs s rule: render.induct)
  case (1 k str)
  then show ?case by (cases hs') auto
next
  case (2 k h hs str)
  then have "lh_offset h \<le> k + length str" using heads_in_le by auto
  with 2 show ?case by (simp add: add.commute)
qed

definition wrote :: "bytes \<Rightarrow> encBuffer \<Rightarrow> encBuffer \<Rightarrow> bool" where
  "wrote out buf buf' \<longleftrightarrow> (\<exists>s hs. let k = length (eb_str buf) in
     buf' = buf\<lparr>eb_str := eb_str buf @ s, eb_lheads := eb_lheads buf @ hs, eb_lhsize := eb_lhsize buf + head_bytes hs\<rparr> \<and>
     heads_in k hs (k + length s) \<and> render k hs s = out)"

lemma wrote_refl: "wrote [] buf buf"
  unfolding wrote_def by (intro exI [of _ "[]"]) simp

lemma wrote_Write: "wrote b buf (eb_Write b buf)"
  unfolding wrote_def by (intro exI [of _ b] exI [of _ "[]"]) (simp add: eb_Write_def)

lemma wrote_trans:
  assumes "wrote out buf buf'" "wrote out' buf' buf''"
  shows "wrote (out @ out') buf buf''"
proof -
  let ?k = "length (eb_str buf)"
  obtain s hs s' hs' where
    1: "buf' = buf\<lparr>eb_str := eb_str buf @ s, eb_lheads := eb_lheads buf @ hs, eb_lhsize := eb_lhsize buf + head_bytes hs\<rparr>"
      "heads_in ?k hs (?k + length s)" "render ?k hs s = out" and
    2: "buf'' = buf'\<lparr>eb_str := eb_str buf' @ s', eb_lheads := eb_lheads buf' @ hs', eb_lhsize := eb_lhsize buf' + head_bytes hs'\<rparr>"
      "heads_in (?k + length s) hs' (?k + length s + length s')" "render (?k + length s) hs' s' = out'"
    using assms by (auto simp: wrote_def Let_def)
  have "render ?k (hs @ hs') (s @ s') = out @ out'" using render_append [OF 1(2) 2(2)] 1(3) 2(3) by simp
  moreover have "heads_in ?k (hs @ hs') (?k + length (s @ s'))" using heads_in_append [OF 1(2) 2(2)] by (simp add: add.assoc)
  ultimately show ?thesis
    unfolding wrote_def Let_def by (intro exI [of _ "s @ s'"] exI [of _ "hs @ hs'"]) (simp add: 1(1) 2(1) add.assoc)
qed

lemma wrote_bytes: "length b < 2 ^ 64 \<Longrightarrow> wrote (rlp_enc (RStr b)) buf (eb_writeBytes b buf)"
proof -
  assume b: "length b < 2 ^ 64"
  have "eb_encodeStringHeader (length b) = eb_Write (str_head (length b))"
    using b by (simp add: eb_encodeStringHeader_def str_head_def puthead_def small_word ucast_small Let_def)
  moreover have "wrote (str_head (length b) @ b) buf (eb_Write b (eb_Write (str_head (length b)) buf))"
    by (rule wrote_trans [OF wrote_Write wrote_Write])
  moreover have "wrote [b ! 0] buf (eb_Write [b ! 0] buf)" by (rule wrote_Write)
  ultimately show ?thesis by (cases b) (auto simp: eb_writeBytes_def)
qed

lemma wrote_list:
  assumes "wrote out (snd (eb_list buf)) buf'" "length out < 2 ^ 64"
  shows "\<exists>buf''. eb_listEnd (fst (eb_list buf)) buf' = Ret buf'' \<and> wrote (puthead 0xC0 0xF7 (word_of_nat (length out)) @ out) buf buf''"
proof -
  let ?k = "length (eb_str buf)"
  let ?h0 = "\<lparr>lh_offset = ?k, lh_size = eb_lhsize buf\<rparr>"
  obtain s hs where b: "buf' = buf\<lparr>eb_str := eb_str buf @ s, eb_lheads := eb_lheads buf @ ?h0 # hs,
      eb_lhsize := eb_lhsize buf + head_bytes hs\<rparr>" and
    h: "heads_in ?k hs (?k + length s)" "render ?k hs s = out"
    using assms by (auto simp: wrote_def Let_def eb_list_def)
  define h1 where "h1 = \<lparr>lh_offset = ?k, lh_size = length out\<rparr>"
  have len: "length out = length s + head_bytes hs" using length_render [OF h(1)] h(2) by simp
  have enc: "length (lh_encode h1) = (if length out < 56 then 1 else 1 + intsize (word_of_nat (length out)))"
    using assms(2) by (simp add: lh_encode_def h1_def puthead_def small_word intsize_putint)
  define buf'' where "buf'' = buf\<lparr>eb_str := eb_str buf @ s, eb_lheads := eb_lheads buf @ h1 # hs,
      eb_lhsize := eb_lhsize buf + head_bytes (h1 # hs)\<rparr>"
  have "eb_listEnd (fst (eb_list buf)) buf' = Ret buf''"
    by (simp add: eb_listEnd_def eb_list_def b nth_go_def eb_size_def buf''_def h1_def [symmetric] enc len Let_def)
      (simp add: h1_def len)
  moreover have "wrote (lh_encode h1 @ out) buf buf''"
    unfolding wrote_def Let_def using h
    by (intro exI [of _ s] exI [of _ "h1 # hs"]) (simp add: buf''_def, simp add: h1_def)
  ultimately show ?thesis by (auto simp: lh_encode_def h1_def)
qed

lemma write_items_wrote:
  "length (rlp_enc x) < 2 ^ 64 \<Longrightarrow> \<exists>buf'. write_item x buf = Ret buf' \<and> wrote (rlp_enc x) buf buf'"
  "length (concat (map rlp_enc xs)) < 2 ^ 64 \<Longrightarrow>
    \<exists>buf'. write_items xs buf = Ret buf' \<and> wrote (concat (map rlp_enc xs)) buf buf'"
proof (induction x buf and xs buf rule: write_item_write_items.induct)
  case (1 b buf)
  then have "length b < 2 ^ 64" by (auto split: if_splits)
  then show ?case using wrote_bytes by simp
next
  case (2 xs buf)
  let ?out = "concat (map rlp_enc xs)"
  have len: "length ?out < 2 ^ 64" using "2.prems" by (simp add: Let_def)
  obtain buf' where b: "write_items xs (snd (eb_list buf)) = Ret buf'" "wrote ?out (snd (eb_list buf)) buf'"
    using "2.IH" [OF refl prod.collapse len] by auto
  show ?case using wrote_list [OF b(2) len] b(1) by (auto simp: case_prod_beta Let_def)
next
  case (3 buf)
  then show ?case by (simp add: wrote_refl)
next
  case (4 x xs buf)
  then obtain buf1 where 1: "write_item x buf = Ret buf1" "wrote (rlp_enc x) buf buf1" by auto
  then obtain buf2 where 2: "write_items xs buf1 = Ret buf2" "wrote (concat (map rlp_enc xs)) buf1 buf2"
    using "4.IH"(2) [of buf1] "4.prems" by auto
  then show ?case using 1 wrote_trans [OF 1(2) 2(2)] by auto
qed

text \<open>The copy to the output slice.\<close>

lemma copy_at_append:
  "length a \<le> length dst \<Longrightarrow> copy_at (pre @ dst) (length pre) a = (pre @ a) @ drop (length a) dst"
  by (simp add: copy_at_def)

lemma copy_heads_render:
  assumes "length p = k" "heads_in k hs (k + length s)" "length dst = length (render k hs s)"
  shows "\<exists>e out dst'. copy_heads (p @ s) hs (k, length pre, pre @ dst) = Ret (e, length (pre @ out), (pre @ out) @ dst') \<and>
    render k hs s = out @ drop (e - k) s \<and> length dst' = length s - (e - k) \<and> k \<le> e \<and> e \<le> k + length s"
  using assms
proof (induction hs arbitrary: p k s pre dst)
  case Nil
  then show ?case by (intro exI [of _ k] exI [of _ "[]"] exI [of _ dst]) simp
next
  case (Cons h hs)
  define n where "n = lh_offset h - k"
  define data where "data = take n s"
  have off: "k \<le> lh_offset h" "heads_in (lh_offset h) hs (k + length s)" "lh_offset h \<le> k + length s"
    using Cons.prems(2) heads_in_le by auto
  then have n: "lh_offset h = k + n" "n \<le> length s" "length data = n" by (simp_all add: n_def data_def)
  have r: "render k (h # hs) s = data @ lh_encode h @ render (k + n) hs (drop n s)"
    by (simp add: n_def [symmetric] data_def n(1))
  have sl: "slice (p @ s) k (lh_offset h) = Ret data"
    using Cons.prems(1) n by (simp add: slice_def data_def)
  let ?pre = "(pre @ data) @ lh_encode h"
  define dst2 where "dst2 = drop (length (lh_encode h)) (drop n dst)"
  have d: "length dst = n + length (lh_encode h) + length (render (k + n) hs (drop n s))"
    using Cons.prems(3) by (simp only: r) (simp add: n(3))
  have c1: "copy_at (pre @ dst) (length pre) data = (pre @ data) @ drop n dst"
    using copy_at_append [of data dst pre] d n(3) by simp
  have c2: "copy_at ((pre @ data) @ drop n dst) (length (pre @ data)) (lh_encode h) = ?pre @ dst2"
    using copy_at_append [of "lh_encode h" "drop n dst" "pre @ data"] d by (simp add: dst2_def)
  have step: "copy_heads (p @ s) (h # hs) (k, length pre, pre @ dst) =
      copy_heads ((p @ data) @ drop n s) hs (k + n, length ?pre, ?pre @ dst2)"
    using d n(3) c1 c2 by (simp add: sl put_header_def Let_def min_absorb1 data_def [symmetric] add.assoc)
      (simp add: data_def)
  have "\<exists>e out dst'. copy_heads ((p @ data) @ drop n s) hs (k + n, length ?pre, ?pre @ dst2) =
        Ret (e, length (?pre @ out), (?pre @ out) @ dst') \<and>
      render (k + n) hs (drop n s) = out @ drop (e - (k + n)) (drop n s) \<and>
      length dst' = length (drop n s) - (e - (k + n)) \<and> k + n \<le> e \<and> e \<le> k + n + length (drop n s)"
    by (rule Cons.IH) (use Cons.prems(1) n off d in \<open>simp_all add: dst2_def\<close>)
  then obtain e out dst' where *:
    "copy_heads ((p @ data) @ drop n s) hs (k + n, length ?pre, ?pre @ dst2) = Ret (e, length (?pre @ out), (?pre @ out) @ dst')"
    "render (k + n) hs (drop n s) = out @ drop (e - (k + n)) (drop n s)"
    "length dst' = length (drop n s) - (e - (k + n))" "k + n \<le> e" "e \<le> k + n + length (drop n s)" by blast
  show ?case
    unfolding step r
    by (intro exI [of _ e] exI [of _ "data @ lh_encode h @ out"] exI [of _ dst']) (use * n(2) in simp)
qed

lemma makeBytes_wrote:
  assumes "wrote out eb_reset buf"
  shows "eb_makeBytes buf = Ret out"
proof -
  obtain s hs where b: "buf = \<lparr>eb_str = s, eb_lheads = hs, eb_lhsize = head_bytes hs\<rparr>" and
    h: "heads_in 0 hs (length s)" "render 0 hs s = out"
    using assms by (auto simp: wrote_def eb_reset_def)
  have len: "length out = eb_size buf" using length_render [of 0 hs s] h by (simp add: b eb_size_def)
  obtain e o1 dst' where *: "copy_heads s hs (0, 0, replicate (eb_size buf) 0) = Ret (e, length o1, o1 @ dst')"
    "out = o1 @ drop e s" "length dst' = length s - e" "e \<le> length s"
    using copy_heads_render [of "[]" 0 hs s "replicate (eb_size buf) 0" "[]"] h len by auto
  have "copy_at (o1 @ dst') (length o1) (drop e s) = out"
    using copy_at_append [of "drop e s" dst' o1] * by simp
  then show ?thesis
    using * by (simp add: eb_makeBytes_def eb_copyTo_def b slice_def)
qed

section \<open>Reading back\<close>

lemma readSize_putint:
  assumes "56 \<le> i"
  shows "readSize (putint i @ r) (word_of_nat (length (putint i))) = Inr i"
    "length (putint i) \<in> {1..8}"
proof -
  obtain n where n: "n < 8" "unat i < 256 ^ Suc n" "i \<noteq> 0 \<Longrightarrow> 256 ^ n \<le> unat i" "putint i = be_bytes (Suc n) i"
    using putint_be [of i] by blast
  have i: "i \<noteq> 0" using assms by auto
  have l: "length (putint i) = Suc n" by (simp add: n(4))
  have "n \<in> {0, 1, 2, 3, 4, 5, 6, 7}" using n(1) by auto
  then have w: "unat (word_of_nat (Suc n) :: u8) = Suc n" "1 \<le> (word_of_nat (Suc n) :: u8)" "(word_of_nat (Suc n) :: u8) \<le> 8"
    by (auto simp: word_le_nat_alt)
  have v: "SetBytes (putint i) = i"
    using SetBytes_horner [of "Suc n" i] take_bit_below [OF n(2)] by (simp add: n(4) del: upt_Suc)
  have hd: "(putint i @ r) ! 0 \<noteq> 0"
    using drop_bit_byte_ne_0 [OF n(3) [OF i] n(2)] by (simp add: n(4) nth_append del: upt_Suc)
  show "readSize (putint i @ r) (word_of_nat (length (putint i))) = Inr i"
    using w hd assms by (simp add: readSize_def Let_def not_less l v del: of_nat_Suc)
  show "length (putint i) \<in> {1..8}" using n(1) l by simp
qed

lemma unat_ucast_up: "unat (ucast (x :: u8) :: u64) = unat x"
  using unsigned_less [of x, where ?'a = nat] by (simp add: unsigned_ucast_eq take_bit_nat_eq_self)

text \<open>A header in front of its content is read as the size of the header and of the content.\<close>

lemma readKind_head:
  fixes st lt :: u8
  assumes kind: "st = 0x80 \<and> lt = 0xB7 \<and> k = KString \<and> \<not> (length content = 1 \<and> content ! 0 < 128) \<or>
      st = 0xC0 \<and> lt = 0xF7 \<and> k = KList"
    and len: "length (puthead st lt (len64 content) @ content @ rest) < 2 ^ 63"
  shows "readKind (puthead st lt (len64 content) @ content @ rest) =
    Inr (k, len64 (puthead st lt (len64 content)), len64 content)"
proof -
  define n where "n = (len64 content)"
  have u: "unat n = length content" unfolding n_def by (rule unat_len64) (use len in simp)
  define hdr where "hdr = puthead st lt n"
  define buf where "buf = hdr @ content @ rest"
  have lb: "unat (len64 buf) = length buf" "unat (len64 hdr) = length hdr"
    by (rule unat_len64, use len in \<open>simp add: buf_def hdr_def n_def\<close>)+
  have fit: "\<not> n > len64 buf - len64 hdr"
    unfolding not_less word_le_nat_alt using lb u by (subst unat_sub_le) (auto simp: word_le_nat_alt buf_def)
  show ?thesis
  proof (cases "n < 56")
    case True
    then have hdr: "hdr = [st + ucast n]" "len64 hdr = 1" by (simp_all add: hdr_def puthead_def len64_def)
    have un: "unat (ucast n :: u8) = unat n" "unat n < 56"
      using True by (simp_all add: unsigned_ucast_eq take_bit_nat_eq_self word_less_nat_alt)
    have ubk: "ucast (ucast n :: u8) = n"
      by (simp only: word_unat_eq_iff unat_ucast_up un(1))
    have tag: "unat (st + ucast n) = unat st + unat n" if "st = 0x80 \<or> st = 0xC0"
      using that un by (subst unat_add_no_overflow) auto
    have b: "buf \<noteq> []" "buf ! 0 = st + ucast n" by (simp_all add: buf_def hdr)
    have one: "n = 1 \<longleftrightarrow> length content = 1" using u by (metis unsigned_1 word_unat_eq_iff)
    show ?thesis
      using kind
    proof
      assume k: "st = 0x80 \<and> lt = 0xB7 \<and> k = KString \<and> \<not> (length content = 1 \<and> content ! 0 < 128)"
      then have "\<not> buf ! 0 < 0x80" "buf ! 0 < 0xB8" "ucast (buf ! 0 - 0x80) = n"
        using tag un ubk by (simp_all add: b word_less_nat_alt)
      moreover have "\<not> (n = 1 \<and> length buf > 1 \<and> buf ! 1 < 128)"
        using k one by (auto simp: buf_def hdr nth_append)
      ultimately have "readKind buf = Inr (k, 1, n)"
        using b(1) fit k unfolding readKind_def Let_def by (simp add: hdr(2))
      then show ?thesis by (simp add: buf_def [symmetric] hdr_def [symmetric] n_def [symmetric] hdr(2))
    next
      assume k: "st = 0xC0 \<and> lt = 0xF7 \<and> k = KList"
      then have "\<not> buf ! 0 < 0x80" "\<not> buf ! 0 < 0xB8" "\<not> buf ! 0 < 0xC0" "buf ! 0 < 0xF8" "ucast (buf ! 0 - 0xC0) = n"
        using tag un ubk by (simp_all add: b word_less_nat_alt)
      then have "readKind buf = Inr (k, 1, n)"
        using b(1) fit k unfolding readKind_def Let_def by (simp add: hdr(2))
      then show ?thesis by (simp add: buf_def [symmetric] hdr_def [symmetric] n_def [symmetric] hdr(2))
    qed
  next
    case False
    then have n56: "56 \<le> n" by simp
    define m where "m = length (putint n)"
    have rs: "readSize (putint n @ content @ rest) (word_of_nat m) = Inr n" "m \<in> {1..8}"
      using readSize_putint [OF n56] by (simp_all add: m_def)
    have hdr: "hdr = (lt + word_of_nat m) # putint n" using False by (simp add: hdr_def puthead_def m_def)
    have um: "unat (word_of_nat m :: u8) = m" using rs(2) by (simp add: unsigned_of_nat take_bit_nat_eq_self)
    have tag: "unat (lt + word_of_nat m) = unat lt + m" if "lt = 0xB7 \<or> lt = 0xF7"
      using that um rs(2) by (subst unat_add_no_overflow) auto
    have b: "buf \<noteq> []" "buf ! 0 = lt + word_of_nat m" "drop 1 buf = putint n @ content @ rest" by (simp_all add: buf_def hdr)
    have diff: "buf ! 0 - lt = word_of_nat m" by (simp add: b)
    have "unat (len64 hdr) = Suc m" by (simp only: lb(2)) (simp add: hdr m_def)
    then have l: "ucast (word_of_nat m :: u8) + 1 = (len64 hdr :: u64)"
      using rs(2) um by (simp add: word_unat_eq_iff unat_word_ariths unat_ucast_up)
    show ?thesis
      using kind
    proof
      assume k: "st = 0x80 \<and> lt = 0xB7 \<and> k = KString \<and> \<not> (length content = 1 \<and> content ! 0 < 128)"
      then have "\<not> buf ! 0 < 0x80" "\<not> buf ! 0 < 0xB8" "buf ! 0 < 0xC0"
        using tag rs(2) by (simp_all add: b word_less_nat_alt)
      then have "readKind buf = Inr (k, len64 hdr, n)"
        using b(1) fit k rs(1) diff unfolding readKind_def Let_def b(3) by (simp add: l)
      then show ?thesis by (simp add: buf_def [symmetric] hdr_def [symmetric] n_def [symmetric])
    next
      assume k: "st = 0xC0 \<and> lt = 0xF7 \<and> k = KList"
      then have "\<not> buf ! 0 < 0x80" "\<not> buf ! 0 < 0xB8" "\<not> buf ! 0 < 0xC0" "\<not> buf ! 0 < 0xF8"
        using tag rs(2) by (simp_all add: b word_less_nat_alt)
      then have "readKind buf = Inr (k, len64 hdr, n)"
        using b(1) fit k rs(1) diff unfolding readKind_def Let_def b(3) by (simp add: l)
      then show ?thesis by (simp add: buf_def [symmetric] hdr_def [symmetric] n_def [symmetric])
    qed
  qed
qed

lemma Split_head:
  assumes "readKind (hdr @ content @ rest) = Inr (k, len64 hdr, len64 content)" "length (hdr @ content @ rest) < 2 ^ 63"
  shows "Split (hdr @ content @ rest) = Ret (Inr (k, content, rest))"
proof -
  have "unat (len64 hdr) = length hdr" "unat (len64 content) = length content"
    using assms(2) by (auto intro!: unat_len64)
  then show ?thesis using Split_Ret [OF assms(2)] assms(1) by simp
qed

lemma Split_enc_str:
  assumes "length (rlp_enc (RStr b) @ rest) < 2 ^ 63"
  shows "Split (rlp_enc (RStr b) @ rest) = Ret (Inr (if length b = 1 \<and> b ! 0 \<le> 0x7F then KByte else KString, b, rest))"
proof (cases "length b = 1 \<and> b ! 0 \<le> 0x7F")
  case True
  then obtain x where x: "b = [x]" "x \<le> 0x7F" by (cases b) auto
  then have "x < 0x80" by (simp add: word_le_nat_alt word_less_nat_alt)
  moreover have "\<not> 1 > len64 (x # rest)"
    using unat_len64 [of "x # rest"] assms x by (simp add: word_less_nat_alt)
  ultimately have "readKind ([] @ [x] @ rest) = Inr (KByte, len64 ([] :: bytes), len64 [x])"
    by (simp add: readKind_def Let_def len64_def)
  from Split_head [OF this] show ?thesis using assms x by simp
next
  case False
  then have "\<not> (length b = 1 \<and> b ! 0 < 128)" by (auto simp: word_le_nat_alt word_less_nat_alt)
  moreover have e: "rlp_enc (RStr b) @ rest = puthead 0x80 0xB7 (len64 b) @ b @ rest"
    using False by (auto simp: str_head_def len64_def)
  ultimately show ?thesis
    using Split_head [OF readKind_head [of "0x80" "0xB7" KString b rest]] assms False unfolding e by simp
qed

lemma Split_enc_list:
  assumes "length (rlp_enc (RList xs) @ rest) < 2 ^ 63"
  shows "Split (rlp_enc (RList xs) @ rest) = Ret (Inr (KList, concat (map rlp_enc xs), rest))"
  using readKind_head [of "0xC0" "0xF7" KList "concat (map rlp_enc xs)" rest]
    Split_head [of "puthead 0xC0 0xF7 (len64 (concat (map rlp_enc xs)))" "concat (map rlp_enc xs)" rest KList] assms
  by (simp add: len64_def Let_def)

section \<open>Properties\<close>

text \<open>
  C40. The encoder buffer writes nested lists correctly: after any tree of strings and lists has been
  written, the output, with the headers of the lists put in afterwards at the recorded positions, is its
  recursive encoding, and no slice or index is out of range.
\<close>

theorem encbuffer_encodes:
  assumes "length (rlp_enc x) < 2 ^ 64"
  shows "go_bind (write_item x eb_reset) eb_makeBytes = Ret (rlp_enc x)"
proof -
  obtain buf where "write_item x eb_reset = Ret buf" "wrote (rlp_enc x) eb_reset buf"
    using write_items_wrote(1) [OF assms] by blast
  then show ?thesis using makeBytes_wrote by simp
qed

theorem encbuffer_encodes_witness:
  "go_bind (write_item (RList [RStr [1], RList [RStr [0x80], RList []], RStr []]) eb_reset) eb_makeBytes =
     Ret [0xC6, 0x01, 0xC3, 0x81, 0x80, 0xC0, 0x80]"
  using encbuffer_encodes [of "RList [RStr [1], RList [RStr [0x80], RList []], RStr []]"]
  by (simp add: str_head_def puthead_def)

end
