(* ===== verification/Trie_Node.thy ===== *)
theory Trie_Node imports Trie_Encoding RLP_Encode begin

text \<open>
  Nodes of the Merkle Patricia trie: \<open>trie/node.go\<close> and \<open>trie/node_enc.go\<close>, with the tracer
  (\<open>trie/tracer.go\<close>) and the reader of stored nodes (\<open>trie/trie_reader.go\<close>, over the database, which is
  a parameter). A nil node is \<open>None\<close>.
\<close>

section \<open>Nodes\<close>

record nodeFlag =
  nf_hash :: "bytes option"
  nf_dirty :: bool

datatype tnode =
    ShortNode bytes "tnode option" nodeFlag
  | FullNode "tnode option list" nodeFlag
  | HashNode bytes
  | ValueNode bytes

fun node_cache :: "tnode \<Rightarrow> bytes option \<times> bool" where
  "node_cache (FullNode cs fl) = (nf_hash fl, nf_dirty fl)"
| "node_cache (ShortNode k v fl) = (nf_hash fl, nf_dirty fl)"
| "node_cache (HashNode h) = (None, True)"
| "node_cache (ValueNode v) = (None, True)"

section \<open>Encoding, trie/node_enc.go\<close>

fun encode_node :: "tnode \<Rightarrow> encBuffer \<Rightarrow> encBuffer go"
  and encode_child :: "tnode option \<Rightarrow> encBuffer \<Rightarrow> encBuffer go"
  and encode_children :: "tnode option list \<Rightarrow> encBuffer \<Rightarrow> encBuffer go" where
  "encode_node (FullNode cs fl) w =
     (let (offset, w) = eb_list w in go_bind (encode_children cs w) (eb_listEnd offset))"
| "encode_node (ShortNode k v fl) w =
     (let (offset, w) = eb_list w in go_bind (encode_child v (eb_writeBytes k w)) (eb_listEnd offset))"
| "encode_node (HashNode h) w = Ret (eb_writeBytes h w)"
| "encode_node (ValueNode v) w = Ret (eb_writeBytes v w)"
| "encode_child None w = Ret (eb_Write [0x80] w)"
| "encode_child (Some n) w = encode_node n w"
| "encode_children [] w = Ret w"
| "encode_children (c # cs) w = go_bind (encode_child c w) (encode_children cs)"

definition nodeToBytes :: "tnode \<Rightarrow> bytes go" where
  "nodeToBytes n = go_bind (encode_node n eb_reset) eb_makeBytes"

section \<open>Decoding, trie/node.go\<close>

text \<open>The cause of a decoding error and the path to it.\<close>

datatype decode_cause =
    DecodeEOF | DecodeRLP rlp_error | DecodeElements nat | InvalidValueNode rlp_error
  | OversizedNode nat | InvalidRefSize nat

type_synonym decode_error = "decode_cause \<times> string list"

definition wrapError :: "decode_error \<Rightarrow> string \<Rightarrow> decode_error" where
  "wrapError err ctx = (fst err, snd err @ [ctx])"

definition wrap :: "string \<Rightarrow> (decode_error + 'a) go \<Rightarrow> (decode_error + 'a) go" where
  "wrap ctx m = go_bind m (\<lambda>r. Ret (map_sum (\<lambda>err. wrapError err ctx) id r))"

definition go_try :: "('e + 'a) go \<Rightarrow> ('e \<Rightarrow> 'f) \<Rightarrow> ('a \<Rightarrow> ('f + 'b) go) \<Rightarrow> ('f + 'b) go" where
  "go_try m h f = go_bind m (\<lambda>r. case r of Inl err \<Rightarrow> Ret (Inl (h err)) | Inr x \<Rightarrow> f x)"

type_synonym decoder = "bytes option \<Rightarrow> bytes \<Rightarrow> (decode_error + tnode) go"

definition rlp_cause :: "rlp_error \<Rightarrow> decode_error" where
  "rlp_cause err = (DecodeRLP err, [])"

definition decodeRef :: "decoder \<Rightarrow> bytes \<Rightarrow> (decode_error + tnode option \<times> bytes) go" where
  "decodeRef decode buf =
     go_try (Split buf) rlp_cause (\<lambda>(kind, val, rest).
       if kind = KList then
         (let sz = length buf - length rest in
          if sz > 32 then Ret (Inl (OversizedNode sz, []))
          else go_try (decode None buf) id (\<lambda>n. Ret (Inr (Some n, rest))))
       else if kind = KString \<and> length val = 0 then Ret (Inr (None, rest))
       else if kind = KString \<and> length val = 32 then Ret (Inr (Some (HashNode val), rest))
       else Ret (Inl (InvalidRefSize (length val), [])))"

definition decodeShort :: "decoder \<Rightarrow> bytes option \<Rightarrow> bytes \<Rightarrow> (decode_error + tnode) go" where
  "decodeShort decode hash elems =
     go_try (SplitString elems) rlp_cause (\<lambda>(kbuf, rest).
     go_bind (compactToHex kbuf) (\<lambda>key.
       let flag = \<lparr>nf_hash = hash, nf_dirty = False\<rparr> in
       if hasTerm key then
         go_try (SplitString rest) (\<lambda>err. (InvalidValueNode err, [])) (\<lambda>(val, _).
           Ret (Inr (ShortNode key (Some (ValueNode val)) flag)))
       else go_try (wrap ''val'' (decodeRef decode rest)) id (\<lambda>(r, _). Ret (Inr (ShortNode key r flag)))))"

definition digit_name :: "nat \<Rightarrow> string" where
  "digit_name i = CHR ''['' # (if i < 10 then [char_of (48 + i)] else [CHR ''1'', char_of (38 + i)]) @ '']''"

primrec decode_children :: "decoder \<Rightarrow> nat \<Rightarrow> nat \<Rightarrow> bytes \<Rightarrow> (decode_error + tnode option list \<times> bytes) go" where
  "decode_children decode 0 i elems = Ret (Inr ([], elems))"
| "decode_children decode (Suc n) i elems =
     go_try (wrap (digit_name i) (decodeRef decode elems)) id (\<lambda>(cld, rest).
     go_try (decode_children decode n (i + 1) rest) id (\<lambda>(cs, rest). Ret (Inr (cld # cs, rest))))"

definition decodeFull :: "decoder \<Rightarrow> bytes option \<Rightarrow> bytes \<Rightarrow> (decode_error + tnode) go" where
  "decodeFull decode hash elems =
     go_try (decode_children decode 16 0 elems) id (\<lambda>(cs, elems).
     go_try (SplitString elems) rlp_cause (\<lambda>(val, _).
       Ret (Inr (FullNode (cs @ [if length val > 0 then Some (ValueNode val) else None])
         \<lparr>nf_hash = hash, nf_dirty = False\<rparr>))))"

text \<open>
  The decoder calls itself on embedded nodes. Its fuel is the length of the buffer, which is enough: an
  embedded node lies in the content of a list, which is shorter than the list.
\<close>

primrec decode_fuel :: "nat \<Rightarrow> decoder" where
  "decode_fuel 0 hash buf = OutOfFuel"
| "decode_fuel (Suc n) hash buf =
     (if length buf = 0 then Ret (Inl (DecodeEOF, []))
      else go_try (SplitList buf) rlp_cause (\<lambda>(elems, _).
        go_bind (CountValues elems) (\<lambda>c.
        case c of
          Inl _ \<Rightarrow> Ret (Inl (DecodeElements 0, []))
        | Inr c \<Rightarrow>
            if c = 2 then wrap ''short'' (decodeShort (decode_fuel n) hash elems)
            else if c = 17 then wrap ''full'' (decodeFull (decode_fuel n) hash elems)
            else Ret (Inl (DecodeElements c, [])))))"

definition decodeNodeUnsafe :: decoder where
  "decodeNodeUnsafe hash buf = decode_fuel (length buf + 1) hash buf"

definition decodeNode :: decoder where
  "decodeNode hash buf = decodeNodeUnsafe hash buf"

definition mustDecodeNode :: "bytes option \<Rightarrow> bytes \<Rightarrow> tnode go" where
  "mustDecodeNode hash buf =
     go_bind (decodeNode hash buf) (\<lambda>r. case r of Inl _ \<Rightarrow> Panic NodeDecodeFailed | Inr n \<Rightarrow> Ret n)"

section \<open>trie/tracer.go\<close>

record tracer =
  tr_inserts :: "bytes set"
  tr_deletes :: "bytes set"
  tr_accessList :: "bytes \<rightharpoonup> bytes"

definition newTracer :: tracer where
  "newTracer = \<lparr>tr_inserts = {}, tr_deletes = {}, tr_accessList = Map.empty\<rparr>"

definition onRead :: "bytes \<Rightarrow> bytes \<Rightarrow> tracer \<Rightarrow> tracer" where
  "onRead path val t = t\<lparr>tr_accessList := (tr_accessList t)(path \<mapsto> val)\<rparr>"

definition onInsert :: "bytes \<Rightarrow> tracer \<Rightarrow> tracer" where
  "onInsert path t =
     (if path \<in> tr_deletes t then t\<lparr>tr_deletes := tr_deletes t - {path}\<rparr>
      else t\<lparr>tr_inserts := insert path (tr_inserts t)\<rparr>)"

definition onDelete :: "bytes \<Rightarrow> tracer \<Rightarrow> tracer" where
  "onDelete path t =
     (if path \<in> tr_inserts t then t\<lparr>tr_inserts := tr_inserts t - {path}\<rparr>
      else t\<lparr>tr_deletes := insert path (tr_deletes t)\<rparr>)"

definition tracer_reset :: "tracer \<Rightarrow> tracer" where
  "tracer_reset t = newTracer"

text \<open>\<open>deletedNodes\<close> lists the paths in the order of a Go map; here it is the set of them.\<close>

definition deletedNodes :: "tracer \<Rightarrow> bytes set" where
  "deletedNodes t = {path \<in> tr_deletes t. tr_accessList t path \<noteq> None}"

section \<open>trie/trie_reader.go\<close>

datatype trie_error =
    ErrCommitted
  | MissingNodeError hash hash bytes "string option"
  | NonConsensusNode

text \<open>A database reader takes owner, path and hash; the database gives one for a state root.\<close>

type_synonym node_reader = "hash \<Rightarrow> bytes \<Rightarrow> hash \<Rightarrow> string + bytes"
type_synonym trie_database = "hash \<Rightarrow> string + node_reader"

record trieReader =
  rd_owner :: hash
  rd_reader :: "node_reader option"
  rd_banned :: "bytes set"

definition newTrieReader :: "hash \<Rightarrow> hash \<Rightarrow> trie_database \<Rightarrow> trie_error + trieReader" where
  "newTrieReader stateRoot owner db =
     (if stateRoot = 0 \<or> stateRoot = EmptyRootHash then Inr \<lparr>rd_owner = owner, rd_reader = None, rd_banned = {}\<rparr>
      else case db stateRoot of
        Inl err \<Rightarrow> Inl (MissingNodeError owner stateRoot [] (Some err))
      | Inr reader \<Rightarrow> Inr \<lparr>rd_owner = owner, rd_reader = Some reader, rd_banned = {}\<rparr>)"

definition newEmptyReader :: trieReader where
  "newEmptyReader = \<lparr>rd_owner = 0, rd_reader = None, rd_banned = {}\<rparr>"

definition reader_node :: "trieReader \<Rightarrow> bytes \<Rightarrow> hash \<Rightarrow> trie_error + bytes" where
  "reader_node r path h =
     (if path \<in> rd_banned r then Inl (MissingNodeError (rd_owner r) h path None)
      else case rd_reader r of
        None \<Rightarrow> Inl (MissingNodeError (rd_owner r) h path None)
      | Some rd \<Rightarrow>
          (case rd (rd_owner r) path h of
             Inl err \<Rightarrow> Inl (MissingNodeError (rd_owner r) h path (Some err))
           | Inr blob \<Rightarrow> if length blob = 0 then Inl (MissingNodeError (rd_owner r) h path None) else Inr blob))"

section \<open>Encoding a node is encoding a nested list\<close>

fun node_item :: "tnode \<Rightarrow> rlp_item" and child_item :: "tnode option \<Rightarrow> rlp_item" and child_items :: "tnode option list \<Rightarrow> rlp_item list" where
  "node_item (FullNode cs fl) = RList (child_items cs)"
| "node_item (ShortNode k v fl) = RList [RStr k, child_item v]"
| "node_item (HashNode h) = RStr h"
| "node_item (ValueNode v) = RStr v"
| "child_item None = RStr []"
| "child_item (Some n) = node_item n"
| "child_items [] = []"
| "child_items (c # cs) = child_item c # child_items cs"

lemma child_items_map: "child_items cs = map child_item cs"
  by (induction cs) simp_all

lemma encode_write:
  "encode_node n w = write_item (node_item n) w"
  "encode_child c w = write_item (child_item c) w"
  "encode_children cs w = write_items (child_items cs) w"
proof (induction n w and c w and cs w rule: encode_node_encode_child_encode_children.induct)
  case (1 cs fl w)
  then show ?case using "1.IH" [OF refl prod.collapse] by (simp add: Let_def case_prod_beta)
next
  case (2 k v fl w)
  have r: "go_bind m Ret = m" "write_items [] = Ret" for m :: "encBuffer go" by (cases m) (simp_all add: fun_eq_iff)
  show ?case using "2.IH" [OF refl prod.collapse] by (simp add: Let_def case_prod_beta r)
next
  case (5 w)
  then show ?case by (simp add: eb_writeBytes_def eb_encodeStringHeader_def eb_Write_def)
next
  case (8 c cs w)
  then show ?case by (cases "write_item (child_item c) w") simp_all
qed simp_all

lemma nodeToBytes_enc:
  "length (rlp_enc (node_item n)) < 2 ^ 64 \<Longrightarrow> nodeToBytes n = Ret (rlp_enc (node_item n))"
  unfolding nodeToBytes_def encode_write by (rule encbuffer_encodes)

section \<open>Decoding is total\<close>

lemma map_sum_Inr: "map_sum id f r = Inr y \<longleftrightarrow> (\<exists>x. r = Inr x \<and> y = f x)"
  by (cases r) auto

lemma readKind_tag:
  assumes "readKind b = Inr (k, ts, cs)" "k \<noteq> KByte"
  shows "0 < unat ts"
proof -
  have ne: "b \<noteq> []" using assms(1) by (auto simp: readKind_def)
  define c where "c = b ! 0"
  have plus: "0 < unat (ucast (x :: u8) + 1 :: u64)" for x
  proof -
    have "unat (ucast x :: u64) < 256" using unsigned_less [of x, where ?'a = nat] by (simp add: unat_ucast_up)
    then show ?thesis by (simp add: unat_word_ariths)
  qed
  show ?thesis
    using assms ne plus unfolding readKind_def Let_def c_def [symmetric]
    by (auto split: if_splits sum.splits simp: map_sum_Inr)
qed

lemma Split_shorter:
  assumes "Split b = Ret (Inr (k, content, rest))" "length b < 2 ^ 63"
  shows "length content \<le> length b" "length rest < length b" "k \<noteq> KByte \<Longrightarrow> length content < length b"
    "k \<noteq> KByte \<Longrightarrow> length content + length rest < length b"
proof -
  obtain ts cs where r: "readKind b = Inr (k, ts, cs)"
    and c: "content = take (unat cs) (drop (unat ts) b)" "rest = drop (unat ts + unat cs) b"
    using assms Split_Ret [OF assms(2)] by (auto split: sum.splits)
  note bd = readKind_bounds [OF r assms(2)]
  show "length content \<le> length b" "length rest < length b" using bd c by auto
  show "length content < length b" "length content + length rest < length b" if "k \<noteq> KByte"
    using bd c readKind_tag [OF r that] by auto
qed

lemma go_try_Ret: "\<exists>r. m = Ret r \<Longrightarrow> (\<And>x. m = Ret (Inr x) \<Longrightarrow> \<exists>r. f x = Ret r) \<Longrightarrow> \<exists>r. go_try m h f = Ret r"
proof (elim exE)
  fix r assume m: "m = Ret r" and f: "\<And>x. m = Ret (Inr x) \<Longrightarrow> \<exists>r. f x = Ret r"
  show ?thesis using f by (cases r) (simp_all add: go_try_def m)
qed

lemma wrap_Ret: "\<exists>r. m = Ret r \<Longrightarrow> \<exists>r. wrap ctx m = Ret r"
  by (auto simp: wrap_def)

lemma Split_total: "length b < 2 ^ 63 \<Longrightarrow> \<exists>r. Split b = Ret r"
  using Split_Ret by blast

lemma SplitString_total: "length b < 2 ^ 63 \<Longrightarrow> \<exists>r. SplitString b = Ret r"
  using Split_total by (auto simp: SplitString_def)

lemma SplitString_Split: "SplitString b = Ret (Inr (val, rest)) \<longleftrightarrow> (\<exists>k. Split b = Ret (Inr (k, val, rest)) \<and> k \<noteq> KList)"
proof (cases "Split b")
  case (Ret r)
  then show ?thesis by (cases r) (auto simp: SplitString_def split: if_splits)
qed (simp_all add: SplitString_def)

lemma SplitList_Split: "SplitList b = Ret (Inr (elems, rest)) \<longleftrightarrow> Split b = Ret (Inr (KList, elems, rest))"
proof (cases "Split b")
  case (Ret r)
  then show ?thesis by (cases r) (auto simp: SplitList_def split: if_splits)
qed (simp_all add: SplitList_def)

lemma compactToHex_total: "\<exists>r. compactToHex b = Ret r"
proof (cases b)
  case (Cons x xs)
  have "(x div 16) AND 1 \<le> 1" by (rule word_and_le1)
  then have "unat (2 - ((x div 16) AND 1)) \<le> 2" by (simp add: unat_sub_le word_le_nat_alt)
  then show ?thesis using Cons by (simp add: compactToHex_def keybytesToHex_def nth_go_def slice_def Let_def)
qed (simp add: compactToHex_def)

lemma decodeRef_total:
  assumes "\<And>h b. length b \<le> length buf \<Longrightarrow> \<exists>r. dec h b = Ret r" "length buf < 2 ^ 63"
  shows "\<exists>r. decodeRef dec buf = Ret r"
  unfolding decodeRef_def using Split_total [OF assms(2)] assms(1) by (intro go_try_Ret) (auto simp: Let_def intro!: go_try_Ret)

lemma go_try_Inr: "go_try m h f = Ret (Inr y) \<longleftrightarrow> (\<exists>x. m = Ret (Inr x) \<and> f x = Ret (Inr y))"
proof (cases m)
  case (Ret r)
  then show ?thesis by (cases r) (auto simp: go_try_def)
qed (simp_all add: go_try_def)

lemma wrap_Inr: "wrap ctx m = Ret (Inr y) \<longleftrightarrow> m = Ret (Inr y)"
proof (cases m)
  case (Ret r)
  then show ?thesis by (cases r) (auto simp: wrap_def)
qed (simp_all add: wrap_def)

lemma case_sum_Inr:
  "(case r of Inl err \<Rightarrow> Ret (Inl (f err)) | Inr x \<Rightarrow> g x) = Ret (Inr y) \<longleftrightarrow> (\<exists>x. r = Inr x \<and> g x = Ret (Inr y))"
  by (cases r) auto

lemma decodeRef_rest:
  assumes "decodeRef dec buf = Ret (Inr (c, rest))" "length buf < 2 ^ 63"
  shows "length rest < length buf"
proof -
  obtain k val rest' where s: "Split buf = Ret (Inr (k, val, rest'))"
    using assms(1) by (auto simp: decodeRef_def go_try_Inr)
  then have "rest = rest'"
    using assms(1) by (auto simp: decodeRef_def go_try_Inr Let_def split: if_splits)
  then show ?thesis using Split_shorter(2) [OF s assms(2)] by simp
qed

lemma decode_children_rest:
  "decode_children dec n i buf = Ret (Inr (cs, rest)) \<Longrightarrow> length buf < 2 ^ 63 \<Longrightarrow> length rest \<le> length buf \<and> length cs = n"
proof (induction n arbitrary: i buf cs rest)
  case (Suc n)
  obtain c r1 cs' where 1: "decodeRef dec buf = Ret (Inr (c, r1))" "decode_children dec n (i + 1) r1 = Ret (Inr (cs', rest))" "cs = c # cs'"
    using Suc.prems(1) by (auto simp: go_try_Inr wrap_Inr)
  then show ?case using decodeRef_rest [OF 1(1) Suc.prems(2)] Suc.IH [OF 1(2)] Suc.prems(2) by simp
qed simp

lemma decode_children_total:
  assumes "\<And>h b. length b \<le> m \<Longrightarrow> \<exists>r. dec h b = Ret r" "length buf \<le> m" "length buf < 2 ^ 63"
  shows "\<exists>r. decode_children dec n i buf = Ret r"
  using assms(2,3)
proof (induction n arbitrary: i buf)
  case (Suc n)
  have ref: "\<exists>r. decodeRef dec buf = Ret r" by (rule decodeRef_total) (use assms(1) Suc.prems in auto)
  have nxt: "\<exists>r. decode_children dec n (Suc i) rest = Ret r" if "decodeRef dec buf = Ret (Inr (c, rest))" for c rest
    using Suc.IH [of rest "Suc i"] decodeRef_rest [OF that] Suc.prems by simp
  show ?case
    unfolding decode_children.simps
    by (rule go_try_Ret [OF wrap_Ret [OF ref]]) (auto simp: wrap_Inr intro!: go_try_Ret nxt)
qed simp

lemma CountValues_loop_total: "length b < 2 ^ 63 \<Longrightarrow> \<exists>r. CountValues_loop b i = Ret r"
proof (induction b i rule: CountValues_loop.induct)
  case (1 b i)
  show ?case
  proof (cases "readKind b")
    case (Inl err)
    then show ?thesis by (simp add: CountValues_loop.simps [of b])
  next
    case (Inr r)
    obtain k ts cs where r: "r = (k, ts, cs)" by (cases r)
    note bd = readKind_bounds [OF Inr [unfolded r] "1.prems"]
    have sum: "unat (ts + cs) = unat ts + unat cs"
      by (rule unat_add_no_overflow) (use bd "1.prems" in simp)
    have ne: "0 < length b" using bd by auto
    have sl: "slice b (unat (ts + cs)) (length b) = Ret (drop (unat (ts + cs)) b)"
      using bd by (simp add: slice_def sum)
    have "\<exists>r. CountValues_loop (drop (unat (ts + cs)) b) (i + 1) = Ret r"
      by (rule "1.IH" [of r k "(ts, cs)" ts cs]) (use ne "1.prems" Inr r sl in simp_all)
    then show ?thesis using ne "1.prems" Inr r sl by (simp add: CountValues_loop.simps [of b])
  qed
qed

lemma decode_fuel_total:
  "length buf < n \<Longrightarrow> length buf < 2 ^ 63 \<Longrightarrow> \<exists>r. decode_fuel n h buf = Ret r"
proof (induction n arbitrary: h buf)
  case (Suc n)
  have short: "\<exists>r. decodeShort (decode_fuel n) h elems = Ret r" and full: "\<exists>r. decodeFull (decode_fuel n) h elems = Ret r"
    if l: "length elems < length buf" for elems
  proof -
    have dec: "\<exists>r. decode_fuel n h b = Ret r" if "length b \<le> length elems" for h b
      using Suc.IH [of b h] Suc.prems that l by simp
    have s: "\<exists>r. SplitString b = Ret r" if "length b \<le> length elems" for b
      using SplitString_total Suc.prems that l by simp
    have rest: "length rest \<le> length elems" if "SplitString elems = Ret (Inr (v, rest))" for v rest
      using that Split_shorter(2) [of elems _ v rest] Suc.prems l by (auto simp: SplitString_Split)
    have ref: "\<exists>r. decodeRef (decode_fuel n) b = Ret r" if "length b \<le> length elems" for b
      using decodeRef_total [of b "decode_fuel n"] dec Suc.prems that l by simp
    show "\<exists>r. decodeShort (decode_fuel n) h elems = Ret r"
      unfolding decodeShort_def
    proof (rule go_try_Ret [OF s [OF order_refl]])
      fix x assume x: "SplitString elems = Ret (Inr x)"
      obtain kbuf rest where k1: "x = (kbuf, rest)" by (cases x)
      obtain key where k2: "compactToHex kbuf = Ret key" using compactToHex_total by blast
      note k = k1 k2
      then have "length rest \<le> length elems" using rest x by simp
      then show "\<exists>r. (case x of (kbuf, rest) \<Rightarrow> go_bind (compactToHex kbuf) (\<lambda>key.
          let flag = \<lparr>nf_hash = h, nf_dirty = False\<rparr> in
          if hasTerm key then go_try (SplitString rest) (\<lambda>err. (InvalidValueNode err, [])) (\<lambda>(val, _).
              Ret (Inr (ShortNode key (Some (ValueNode val)) flag)))
          else go_try (wrap ''val'' (decodeRef (decode_fuel n) rest)) id (\<lambda>(r, _). Ret (Inr (ShortNode key r flag))))) = Ret r"
        using s ref by (auto simp: k Let_def intro!: go_try_Ret wrap_Ret)
    qed
    show "\<exists>r. decodeFull (decode_fuel n) h elems = Ret r"
      unfolding decodeFull_def
    proof (rule go_try_Ret)
      show "\<exists>r. decode_children (decode_fuel n) 16 0 elems = Ret r"
        by (rule decode_children_total [where m = "length elems"]) (use dec Suc.prems l in auto)
    next
      fix x assume "decode_children (decode_fuel n) 16 0 elems = Ret (Inr x)"
      then have "length (snd x) \<le> length elems"
        using decode_children_rest [of "decode_fuel n" 16 0 elems "fst x" "snd x"] Suc.prems l by simp
      then show "\<exists>r. (case x of (cs, elems) \<Rightarrow> go_try (SplitString elems) rlp_cause (\<lambda>(val, _).
         Ret (Inr (FullNode (cs @ [if length val > 0 then Some (ValueNode val) else None]) \<lparr>nf_hash = h, nf_dirty = False\<rparr>)))) = Ret r"
        using s by (cases x) (auto intro!: go_try_Ret)
    qed
  qed
  have count: "\<exists>r. CountValues b = Ret r" if "length b < 2 ^ 63" for b
    using CountValues_loop_total [OF that] by (simp add: CountValues_def)
  show ?case
  proof (cases "length buf = 0")
    case False
    have "\<exists>r. SplitList buf = Ret r" using Split_total [OF Suc.prems(2)] by (auto simp: SplitList_def)
    moreover have "\<exists>r. go_bind (CountValues elems) (\<lambda>c.
        case c of Inl _ \<Rightarrow> Ret (Inl (DecodeElements 0, []))
        | Inr c \<Rightarrow> if c = 2 then wrap ''short'' (decodeShort (decode_fuel n) h elems)
            else if c = 17 then wrap ''full'' (decodeFull (decode_fuel n) h elems)
            else Ret (Inl (DecodeElements c, []))) = Ret r"
      if "SplitList buf = Ret (Inr (elems, rest))" for elems rest
    proof -
      have l: "length elems < length buf"
        using that Split_shorter(3) Suc.prems(2) by (auto simp: SplitList_Split)
      obtain c where "CountValues elems = Ret c" using count [of elems] l Suc.prems by auto
      then show ?thesis using wrap_Ret [OF short [OF l]] wrap_Ret [OF full [OF l]] by (cases c) auto
    qed
    ultimately show ?thesis using False by (auto intro!: go_try_Ret)
  qed simp
qed simp

text \<open>A decoded node is a short or a full node that carries the hash it was asked for and is clean.\<close>

lemma decode_fuel_shape:
  assumes "decode_fuel n h buf = Ret (Inr nd)" "length buf < 2 ^ 63"
  shows "\<exists>fl. fl = \<lparr>nf_hash = h, nf_dirty = False\<rparr> \<and> ((\<exists>k v. nd = ShortNode k v fl) \<or> (\<exists>cs. nd = FullNode cs fl \<and> length cs = 17))"
proof (cases n)
  case (Suc n)
  obtain elems rest where e: "SplitList buf = Ret (Inr (elems, rest))" and
    d: "decodeShort (decode_fuel n) h elems = Ret (Inr nd) \<or> decodeFull (decode_fuel n) h elems = Ret (Inr nd)"
    using assms(1) by (auto simp: Suc go_try_Inr wrap_Inr case_sum_Inr split: if_splits)
  have l: "length elems < 2 ^ 63" using e Split_shorter(3) assms(2) by (fastforce simp: SplitList_Split)
  show ?thesis
    using d
  proof
    assume "decodeShort (decode_fuel n) h elems = Ret (Inr nd)"
    then show ?thesis by (auto simp: decodeShort_def go_try_Inr Let_def split: if_splits)
  next
    assume "decodeFull (decode_fuel n) h elems = Ret (Inr nd)"
    then show ?thesis using decode_children_rest [OF _ l] by (auto simp: decodeFull_def go_try_Inr)
  qed
qed (use assms in simp)

lemma decodeNode_total:
  assumes "length buf < 2 ^ 63"
  shows "\<exists>r. decodeNode h buf = Ret r"
  unfolding decodeNode_def decodeNodeUnsafe_def by (rule decode_fuel_total) (use assms in simp_all)

end
