(* ===== verification/Patricia_Tree.thy ===== *)
theory Patricia_Tree imports Trie_Encoding begin

text \<open>
  The tree a trie stands for when all its nodes are loaded, with lookup, insertion and deletion on it, and
  the laws that make it a map: canonical form, what each operation does to the content, and that the
  content determines the tree. This is the specification \<open>Patricia_Trie\<close> implements.
\<close>

section \<open>Trees\<close>

datatype ptree = PNil | PValue bytes | PShort bytes ptree | PFull "ptree list"

lemma size_nth_ptree [termination_simp]: "i < length ts \<Longrightarrow> size (ts ! i) < Suc (size_list size (ts :: ptree list))"
  by (metis le_imp_less_Suc nth_mem size_list_estimation' order_refl)

fun p_get :: "ptree \<Rightarrow> bytes \<rightharpoonup> bytes" where
  "p_get PNil k = None"
| "p_get (PValue v) k = (if k = [] then Some v else None)"
| "p_get (PShort s t) k = (if take (length s) k = s then p_get t (drop (length s) k) else None)"
| "p_get (PFull ts) [] = None"
| "p_get (PFull ts) (x # k) = (if unat x < length ts then p_get (ts ! unat x) k else None)"

definition p_leaf :: "bytes \<Rightarrow> ptree \<Rightarrow> ptree" where
  "p_leaf s t = (if s = [] then t else PShort s t)"

fun p_insert :: "ptree \<Rightarrow> bytes \<Rightarrow> bytes \<Rightarrow> ptree" where
  "p_insert PNil k v = p_leaf k (PValue v)"
| "p_insert (PValue w) k v = PValue v"
| "p_insert (PShort s t) k v =
     (let m = prefixLen k s in
      if m = length s then PShort s (p_insert t (drop m k) v)
      else p_leaf (take m k) (PFull ((replicate 17 PNil)
             [unat (s ! m) := p_leaf (drop (m + 1) s) t, unat (k ! m) := p_leaf (drop (m + 1) k) (PValue v)])))"
| "p_insert (PFull ts) [] v = PFull ts"
| "p_insert (PFull ts) (x # k) v =
     (if unat x < length ts then PFull (ts[unat x := p_insert (ts ! unat x) k v]) else PFull ts)"

fun p_join :: "bytes \<Rightarrow> ptree \<Rightarrow> ptree" where
  "p_join s (PShort s' t) = PShort (s @ s') t"
| "p_join s t = PShort s t"

definition p_reduce :: "ptree list \<Rightarrow> ptree" where
  "p_reduce ts = (case filter (\<lambda>i. ts ! i \<noteq> PNil) [0..<length ts] of
     [i] \<Rightarrow> p_join [word_of_nat i] (ts ! i) | _ \<Rightarrow> PFull ts)"

fun p_delete :: "ptree \<Rightarrow> bytes \<Rightarrow> ptree" where
  "p_delete PNil k = PNil"
| "p_delete (PValue w) k = PNil"
| "p_delete (PShort s t) k =
     (if prefixLen k s < length s then PShort s t
      else if length s = length k then PNil
      else p_join s (p_delete t (drop (length s) k)))"
| "p_delete (PFull ts) [] = PFull ts"
| "p_delete (PFull ts) (x # k) =
     (if unat x < length ts then
        (let t = p_delete (ts ! unat x) k; ts' = ts[unat x := t] in if t \<noteq> PNil then PFull ts' else p_reduce ts')
      else PFull ts)"

section \<open>Canonical form\<close>

text \<open>Keys end in their only terminator.\<close>

definition full_key :: "bytes \<Rightarrow> bool" where
  "full_key k \<longleftrightarrow> k \<noteq> [] \<and> last k = 16 \<and> is_nibbles (butlast k)"

lemma full_key_Cons [simp]: "full_key (x # k) \<longleftrightarrow> x = 16 \<and> k = [] \<or> x < 16 \<and> full_key k"
  by (auto simp: full_key_def is_nibbles_def)

lemma full_key_Nil [simp]: "\<not> full_key []"
  by (simp add: full_key_def)

definition p_value :: "ptree \<Rightarrow> bool" where
  "p_value t \<longleftrightarrow> (\<exists>v. v \<noteq> [] \<and> t = PValue v)"

inductive pwf :: "ptree \<Rightarrow> bool" where
  pwf_nil: "pwf PNil"
| pwf_leaf: "full_key s \<Longrightarrow> v \<noteq> [] \<Longrightarrow> pwf (PShort s (PValue v))"
| pwf_ext: "is_nibbles s \<Longrightarrow> s \<noteq> [] \<Longrightarrow> pwf (PFull ts) \<Longrightarrow> pwf (PShort s (PFull ts))"
| pwf_full: "length ts = 17 \<Longrightarrow> \<forall>i<16. pwf (ts ! i) \<Longrightarrow> ts ! 16 = PNil \<or> p_value (ts ! 16) \<Longrightarrow>
    \<exists>i j. i < j \<and> j < 17 \<and> ts ! i \<noteq> PNil \<and> ts ! j \<noteq> PNil \<Longrightarrow> pwf (PFull ts)"

inductive_simps pwf_simps [simp]: "pwf PNil" "pwf (PValue v)" "pwf (PShort s t)"
inductive_simps pwf_PFull: "pwf (PFull ts)"

text \<open>A tree that sits where the rest of the keys is like \<open>k\<close>.\<close>

definition fits :: "ptree \<Rightarrow> bytes \<Rightarrow> bool" where
  "fits t k \<longleftrightarrow> (if k = [] then t = PNil \<or> p_value t else full_key k \<and> pwf t)"

lemma fits_child: "pwf (PFull ts) \<Longrightarrow> full_key (x # k) \<Longrightarrow> unat x < length ts \<and> fits (ts ! unat x) k"
  by (auto simp: pwf_PFull fits_def word_less_nat_alt)

lemma is_nibbles_append [simp]: "is_nibbles (a @ b) \<longleftrightarrow> is_nibbles a \<and> is_nibbles b"
  by (simp add: is_nibbles_def)

lemma full_key_append: "full_key (a @ b) \<longleftrightarrow> (if b = [] then full_key a else is_nibbles a \<and> full_key b)"
  by (auto simp: full_key_def butlast_append)

lemma full_key_not_nibbles: "full_key s \<Longrightarrow> \<not> is_nibbles s"
  by (metis full_key_def hasTerm_def nibbles_no_term)

lemma fits_short: "pwf (PShort s t) \<Longrightarrow> full_key (s @ k) \<Longrightarrow> fits t k"
  by (auto simp: fits_def p_value_def full_key_append full_key_not_nibbles split: if_splits)

lemma p_get_leaf: "p_get (p_leaf s t) k = (if take (length s) k = s then p_get t (drop (length s) k) else None)"
  by (simp add: p_leaf_def)

section \<open>Insertion\<close>

lemma prefixLen_take: "take (prefixLen a b) a = take (prefixLen a b) b"
  by (induction a arbitrary: b) (auto simp: prefixLen_def split: list.splits; case_tac b; simp)+

lemma prefixLen_eq: "prefixLen k s = length s \<longleftrightarrow> take (length s) k = s"
proof (induction s arbitrary: k)
  case (Cons x s)
  then show ?case by (cases k) auto
qed simp

lemma prefixLen_differ: "prefixLen k s < length s \<Longrightarrow> prefixLen k s < length k \<Longrightarrow> k ! prefixLen k s \<noteq> s ! prefixLen k s"
proof (induction s arbitrary: k)
  case (Cons x s)
  then show ?case by (cases k) (auto split: if_splits)
qed simp

text \<open>Full keys are never a proper prefix of each other, and of a nibble key no prefix at all.\<close>

lemma full_key_prefix: "full_key (k @ r) \<Longrightarrow> full_key k \<Longrightarrow> r = []"
  by (metis full_key_append full_key_not_nibbles)

text \<open>Where two keys part, both go on with a digit below 17.\<close>

lemma full_key_nth: "full_key k \<Longrightarrow> m < length k \<Longrightarrow> unat (k ! m) < 17 \<and> full_key (drop m k) \<and> is_nibbles (take m k)"
proof (induction k arbitrary: m)
  case (Cons x k)
  then show ?case by (cases m) (auto simp: word_less_nat_alt is_nibbles_def)
qed simp

lemma parting:
  assumes "full_key k" "s \<noteq> []" "full_key s \<or> is_nibbles s" "prefixLen k s < length s" "m = prefixLen k s"
  shows "m < length k" "k ! m \<noteq> s ! m" "k = take m s @ k ! m # drop (m + 1) k" "s = take m s @ s ! m # drop (m + 1) s"
    "unat (k ! m) < 17" "unat (s ! m) < 17" "unat (k ! m) \<noteq> unat (s ! m)"
proof -
  have t: "take m k = take m s" using assms(5) prefixLen_take by simp
  show m: "m < length k"
  proof (rule ccontr)
    assume "\<not> m < length k"
    then have "k = take m s" using t prefixLen_le(1) [of k s] assms(5) by simp
    then have s: "s = k @ drop m s" "drop m s \<noteq> []" using assms(4,5) append_take_drop_id [of m s] by auto
    show False
    proof (cases "full_key s")
      case True
      then show False using s full_key_prefix assms(1) by metis
    next
      case False
      then have "is_nibbles k" using s assms(3) is_nibbles_append by metis
      then show False using full_key_not_nibbles assms(1) by blast
    qed
  qed
  show d: "k ! m \<noteq> s ! m" using prefixLen_differ assms(4,5) m by simp
  then show "unat (k ! m) \<noteq> unat (s ! m)" by (simp add: word_unat_eq_iff)
  show "k = take m s @ k ! m # drop (m + 1) k" using id_take_nth_drop [OF m] t by simp
  have l: "m < length s" using assms(4,5) by simp
  then show "s = take m s @ s ! m # drop (m + 1) s" using id_take_nth_drop [of m s] by simp
  show "unat (k ! m) < 17" using full_key_nth assms(1) m by blast
  show "unat (s ! m) < 17"
    using assms(3) full_key_nth l by (auto simp: is_nibbles_def list_all_length word_less_nat_alt intro: less_trans)
qed

lemma take_prefix_iff: "take (length s) k = s \<longleftrightarrow> (\<exists>c. k = s @ c)"
  by (metis append_eq_conv_conj append_take_drop_id)

lemma p_get_short: "p_get (PShort s t) k = (if \<exists>c. k = s @ c then p_get t (drop (length s) k) else None)"
  by (simp add: take_prefix_iff)

lemma branch_get:
  assumes "x \<noteq> y" "unat x < 17" "unat y < 17"
  shows "p_get (PFull ((replicate 17 PNil)[unat x := t, unat y := t'])) c =
    (case c of [] \<Rightarrow> None | z # r \<Rightarrow> if z = x then p_get t r else if z = y then p_get t' r else None)"
  using assms by (cases c) (auto simp: nth_list_update word_unat_eq_iff)

lemma p_get_insert:
  assumes "fits t k"
  shows "p_get (p_insert t k v) = (p_get t)(k \<mapsto> v)"
  using assms
proof (induction t k v rule: p_insert.induct)
  case (1 k v)
  show ?case by (rule ext) (auto simp: p_get_leaf)
next
  case (2 w k v)
  then show ?case by (auto simp: fits_def split: if_splits)
next
  case (3 s t k v)
  then have k: "full_key k" "pwf (PShort s t)" by (auto simp: fits_def p_value_def split: if_splits)
  then have s: "s \<noteq> []" "full_key s \<or> is_nibbles s" by auto
  show ?case
  proof (cases "prefixLen k s = length s")
    case True
    then obtain r where r: "k = s @ r" by (metis prefixLen_eq append_take_drop_id)
    then have "fits t r" using fits_short k by simp
    then have ih: "p_get (p_insert t r v) c = ((p_get t)(r \<mapsto> v)) c" for c using 3(1) True r by simp
    show ?thesis
    proof (rule ext)
      fix k'
      show "p_get (p_insert (PShort s t) k v) k' = ((p_get (PShort s t))(k \<mapsto> v)) k'"
        using True ih unfolding r by (cases "\<exists>c. k' = s @ c") (auto simp: take_prefix_iff)
    qed
  next
    case False
    then have "prefixLen k s < length s" using prefixLen_le(2) [of k s] by simp
    note p = parting [OF k(1) s this refl]
    define a where "a = take (prefixLen k s) s"
    obtain x y sr kr where d: "k = a @ y # kr" "s = a @ x # sr" "x \<noteq> y" "unat x < 17" "unat y < 17" "prefixLen k s = length a"
      using p \<open>prefixLen k s < length s\<close> by (metis a_def length_take min.absorb4)
    define B where "B = PFull ((replicate 17 PNil)[unat x := p_leaf sr t, unat y := p_leaf kr (PValue v)])"
    note bg = branch_get [OF d(3-5), of "p_leaf sr t" "p_leaf kr (PValue v)", folded B_def]
    have eq: "p_insert (PShort s t) k v = p_leaf a B"
      using d(6) by (simp add: d(1,2) Let_def nth_append B_def)
    show ?thesis unfolding eq unfolding d(1,2)
    proof (rule ext)
      fix k'
      show "p_get (p_leaf a B) k' =
        ((p_get (PShort (a @ x # sr) t))(a @ y # kr \<mapsto> v)) k'"
      proof (cases "\<exists>c. k' = a @ c")
        case True
        then obtain c where c: "k' = a @ c" by blast
        show ?thesis unfolding c using d(3) by (cases c) (auto simp: p_get_leaf bg take_prefix_iff)
      next
        case False
        then show ?thesis by (auto simp: p_get_leaf p_get_short take_prefix_iff simp del: p_get.simps)
      qed
    qed
  qed
next
  case (4 ts v)
  then show ?case by (simp add: fits_def p_value_def)
next
  case (5 ts x k v)
  then have "pwf (PFull ts)" "full_key (x # k)" by (auto simp: fits_def)
  note c = fits_child [OF this]
  show ?case
  proof (rule ext)
    fix k'
    show "p_get (p_insert (PFull ts) (x # k) v) k' = ((p_get (PFull ts))(x # k \<mapsto> v)) k'"
      using c 5(1) by (cases k') (auto simp: nth_list_update word_unat_eq_iff)
  qed
qed

text \<open>What may stand at a digit of a branch.\<close>

definition slot_ok :: "u8 \<Rightarrow> ptree \<Rightarrow> bool" where
  "slot_ok x t \<longleftrightarrow> t \<noteq> PNil \<and> (x = 16 \<and> p_value t \<or> x < 16 \<and> pwf t)"

lemma slot_leaf: "pwf (PShort (x # s) t) \<Longrightarrow> slot_ok x (p_leaf s t)"
  by (auto simp: slot_ok_def p_leaf_def p_value_def is_nibbles_def)

lemma slot_full_ne: "slot_ok x t \<Longrightarrow> slot_ok y t' \<Longrightarrow> x \<noteq> y \<Longrightarrow>
    pwf (PFull ((replicate 17 PNil)[unat x := t, unat y := t']))"
proof (rule pwf_full)
  assume h: "slot_ok x t" "slot_ok y t'" "x \<noteq> y"
  then have b: "unat x < 17" "unat y < 17" "unat x \<noteq> unat y" by (auto simp: slot_ok_def word_less_nat_alt word_unat_eq_iff)
  let ?ts = "(replicate 17 PNil)[unat x := t, unat y := t']"
  show "length ?ts = 17" by simp
  show "\<forall>i<16. pwf (?ts ! i)" using h b by (auto simp: nth_list_update slot_ok_def)
  show "?ts ! 16 = PNil \<or> p_value (?ts ! 16)" using h b by (auto simp: nth_list_update slot_ok_def word_less_nat_alt)
  have "?ts ! unat x \<noteq> PNil" "?ts ! unat y \<noteq> PNil" using h b by (auto simp: slot_ok_def nth_list_update)
  then show "\<exists>i j. i < j \<and> j < 17 \<and> ?ts ! i \<noteq> PNil \<and> ?ts ! j \<noteq> PNil" using b by (metis linorder_neqE_nat)
qed

lemma pwf_PShort_append: "pwf (PShort (a @ x # s) t) \<Longrightarrow> pwf (PShort (x # s) t) \<and> is_nibbles a"
  by (auto simp: full_key_append is_nibbles_def)

definition is_full :: "ptree \<Rightarrow> bool" where
  "is_full t \<longleftrightarrow> (\<exists>ts. t = PFull ts)"

lemma pwf_full_update:
  assumes "pwf (PFull ts)" "full_key (x # k)" "t \<noteq> PNil" "if k = [] then p_value t else pwf t"
  shows "pwf (PFull (ts[unat x := t]))"
proof -
  have x: "unat x < 17" "x = 16 \<and> k = [] \<or> x < 16 \<and> k \<noteq> []" using assms(2) by (auto simp: word_less_nat_alt)
  have l: "length ts = 17" using assms(1) by (simp add: pwf_PFull)
  obtain i j where ij: "i < j" "j < 17" "ts ! i \<noteq> PNil" "ts ! j \<noteq> PNil" using assms(1) by (auto simp: pwf_PFull)
  then have "\<exists>i j. i < j \<and> j < 17 \<and> ts[unat x := t] ! i \<noteq> PNil \<and> ts[unat x := t] ! j \<noteq> PNil"
    using assms(3) l x(1) ij by (intro exI [of _ i] exI [of _ j]) (auto simp: nth_list_update)
  then show ?thesis using assms x by (auto simp: pwf_PFull nth_list_update word_less_nat_alt split: if_splits)
qed

lemma p_insert_fits:
  assumes "fits t k" "v \<noteq> []"
  shows "p_insert t k v \<noteq> PNil \<and> (if k = [] then p_value (p_insert t k v) else pwf (p_insert t k v)) \<and>
    (is_full t \<longrightarrow> is_full (p_insert t k v))"
  using assms
proof (induction t k v rule: p_insert.induct)
  case (1 k v)
  then show ?case by (auto simp: p_leaf_def fits_def p_value_def is_full_def)
next
  case (2 w k v)
  then show ?case by (auto simp: fits_def p_value_def is_full_def split: if_splits)
next
  case (3 s t k v)
  then have k: "full_key k" "k \<noteq> []" "pwf (PShort s t)" by (auto simp: fits_def p_value_def split: if_splits)
  then have s: "s \<noteq> []" "full_key s \<or> is_nibbles s" by auto
  show ?case
  proof (cases "prefixLen k s = length s")
    case True
    then obtain r where r: "k = s @ r" by (metis prefixLen_eq append_take_drop_id)
    then have "fits t r" using fits_short k by simp
    moreover have "is_full t \<longleftrightarrow> r \<noteq> []" using k r by (auto simp: is_full_def full_key_append full_key_not_nibbles split: if_splits)
    ultimately have "if r = [] then p_value (p_insert t r v) else is_full (p_insert t r v) \<and> pwf (p_insert t r v)"
      using 3(1) True r 3(3) by (auto split: if_splits)
    then have "pwf (PShort s (p_insert t r v))"
      using k r by (auto simp: is_full_def p_value_def full_key_append split: if_splits)
    then show ?thesis using True r s(1) by (simp add: is_full_def del: pwf_simps)
  next
    case False
    then have "prefixLen k s < length s" using prefixLen_le(2) [of k s] by simp
    note p = parting [OF k(1) s this refl]
    define a where "a = take (prefixLen k s) s"
    obtain x y sr kr where d: "k = a @ y # kr" "s = a @ x # sr" "x \<noteq> y" "prefixLen k s = length a"
      using p \<open>prefixLen k s < length s\<close> by (metis a_def length_take min.absorb4)
    have "pwf (PShort (x # sr) t)" "is_nibbles a" using k(3) pwf_PShort_append d(2) by blast+
    moreover have "pwf (PShort k (PValue v))" using k 3(3) by simp
    then have "pwf (PShort (y # kr) (PValue v))" using pwf_PShort_append d(1) by blast
    ultimately have "pwf (PFull ((replicate 17 PNil)[unat x := p_leaf sr t, unat y := p_leaf kr (PValue v)]))"
      using slot_full_ne slot_leaf d(3) by blast
    then show ?thesis using d(4) k(2) \<open>is_nibbles a\<close> by (auto simp: d(1,2) Let_def nth_append p_leaf_def is_full_def)
  qed
next
  case (4 ts v)
  then show ?case by (simp add: fits_def p_value_def)
next
  case (5 ts x k v)
  then have "pwf (PFull ts)" "full_key (x # k)" by (auto simp: fits_def)
  note c = fits_child [OF this] pwf_full_update [OF this]
  show ?case using c 5 by (auto simp: is_full_def)
qed

section \<open>Deletion\<close>

lemma p_get_join: "p_get (p_join s t) = p_get (PShort s t)"
  by (cases t) (auto simp: fun_eq_iff p_get_short simp del: p_get.simps(3))

lemma used_slots:
  assumes "length ts = 17"
  obtains (none) "\<forall>i<17. ts ! i = PNil"
  | (one) i where "filter (\<lambda>i. ts ! i \<noteq> PNil) [0..<length ts] = [i]" "i < 17" "ts ! i \<noteq> PNil"
      "\<forall>j<17. j \<noteq> i \<longrightarrow> ts ! j = PNil" "p_reduce ts = p_join [word_of_nat i] (ts ! i)"
  | (two) i j where "i < j" "j < 17" "ts ! i \<noteq> PNil" "ts ! j \<noteq> PNil" "p_reduce ts = PFull ts"
proof -
  let ?l = "filter (\<lambda>i. ts ! i \<noteq> PNil) [0..<length ts]"
  have set: "set ?l = {i. i < 17 \<and> ts ! i \<noteq> PNil}" and dist: "distinct ?l" using assms by auto
  show ?thesis
  proof (cases ?l)
    case Nil
    then show ?thesis using set none by auto
  next
    case (Cons i l)
    show ?thesis
    proof (cases l)
      case Nil
      then have l: "?l = [i]" using Cons by simp
      then have "{i} = {i. i < 17 \<and> ts ! i \<noteq> PNil}" using set by simp
      then show ?thesis using l by (intro one) (auto simp: p_reduce_def)
    next
      case (Cons j l')
      then have l: "?l = i # j # l'" using \<open>?l = i # l\<close> by simp
      then have "i \<noteq> j" "i \<in> set ?l" "j \<in> set ?l" using dist by auto
      then show ?thesis using set l two [of i j] two [of j i]
        by (cases "i < j") (auto simp: p_reduce_def)
    qed
  qed
qed

lemma digit_word: "i < 17 \<Longrightarrow> (z :: u8) = word_of_nat i \<longleftrightarrow> unat z = i"
  by (auto simp: unat_of_nat)

lemma p_get_reduce:
  assumes "length ts = 17"
  shows "p_get (p_reduce ts) = p_get (PFull ts)"
  using assms
proof (cases rule: used_slots)
  case none
  then have "filter (\<lambda>i. ts ! i \<noteq> PNil) [0..<length ts] = []" using assms by (simp add: filter_empty_conv)
  then show ?thesis by (simp add: p_reduce_def)
next
  case (one i)
  show ?thesis
  proof (rule ext)
    fix k
    show "p_get (p_reduce ts) k = p_get (PFull ts) k"
      unfolding one(5) p_get_join using one(2,4) assms by (cases k) (auto simp: digit_word)
  qed
qed simp

lemma p_get_delete:
  assumes "fits t k"
  shows "p_get (p_delete t k) = (p_get t)(k := None)"
  using assms
proof (induction t k rule: p_delete.induct)
  case (1 k)
  show ?case by (rule ext) simp
next
  case (2 w k)
  then show ?case by (auto simp: fits_def split: if_splits)
next
  case (3 s t k)
  then have k: "full_key k" "pwf (PShort s t)" by (auto simp: fits_def p_value_def split: if_splits)
  show ?case
  proof (cases "prefixLen k s < length s")
    case True
    then have "\<nexists>c. k = s @ c" by (metis less_irrefl prefixLen_eq take_prefix_iff)
    then show ?thesis using True by (auto simp: fun_eq_iff p_get_short simp del: p_get.simps(3))
  next
    case False
    then have m: "prefixLen k s = length s" using prefixLen_le(2) [of k s] by simp
    then obtain r where r: "k = s @ r" by (metis prefixLen_eq append_take_drop_id)
    then have "fits t r" using fits_short k by simp
    show ?thesis
    proof (cases "r = []")
      case True
      then show ?thesis using m r k \<open>fits t r\<close>
        by (auto simp: fun_eq_iff p_get_short fits_def p_value_def simp del: p_get.simps(3) split: if_splits)
    next
      case False
      have ih: "p_get (p_delete t r) c = ((p_get t)(r := None)) c" for c using 3(1) m r \<open>fits t r\<close> False by simp
      show ?thesis using m False r ih
        by (auto simp: fun_eq_iff p_get_join p_get_short simp del: p_get.simps(3))
    qed
  qed
next
  case (4 ts)
  then show ?case by (simp add: fits_def p_value_def)
next
  case (5 ts x k)
  then have f: "pwf (PFull ts)" "full_key (x # k)" by (auto simp: fits_def)
  note c = fits_child [OF this]
  have l: "length ts = 17" using f by (simp add: pwf_PFull)
  have "p_get (p_delete (PFull ts) (x # k)) = p_get (PFull (ts[unat x := p_delete (ts ! unat x) k]))"
    using c l p_get_reduce by (simp add: Let_def)
  also have "\<dots> = (p_get (PFull ts))(x # k := None)"
  proof (rule ext)
    fix k'
    show "p_get (PFull (ts[unat x := p_delete (ts ! unat x) k])) k' = ((p_get (PFull ts))(x # k := None)) k'"
      using c 5(1) by (cases k') (auto simp: nth_list_update word_unat_eq_iff)
  qed
  finally show ?case .
qed

lemma pwf_reduce:
  assumes "length ts = 17" "\<forall>i<16. pwf (ts ! i)" "ts ! 16 = PNil \<or> p_value (ts ! 16)" "i < 17" "ts ! i \<noteq> PNil"
  shows "pwf (p_reduce ts) \<and> p_reduce ts \<noteq> PNil \<and> \<not> p_value (p_reduce ts)"
  using assms(1)
proof (cases rule: used_slots)
  case (one i)
  show ?thesis
  proof (cases "i = 16")
    case True
    then show ?thesis using one(3,5) assms(3) by (auto simp: p_value_def)
  next
    case False
    then have i: "i < 16" "pwf (ts ! i)" "(word_of_nat i :: u8) < 16"
      using one(2) assms(2) by (auto simp: word_less_nat_alt unat_of_nat)
    then show ?thesis using one(3,5) by (cases "ts ! i") (auto simp: p_value_def is_nibbles_def)
  qed
next
  case (two i j)
  then show ?thesis using assms by (auto simp: pwf_PFull p_value_def)
qed (use assms in simp)

lemma p_delete_fits:
  assumes "fits t k"
  shows "if k = [] then p_delete t k = PNil else pwf (p_delete t k) \<and> (is_full t \<longrightarrow> p_delete t k \<noteq> PNil)"
  using assms
proof (induction t k rule: p_delete.induct)
  case (3 s t k)
  then have k: "full_key k" "k \<noteq> []" "pwf (PShort s t)" by (auto simp: fits_def p_value_def split: if_splits)
  show ?case
  proof (cases "prefixLen k s < length s \<or> length s = length k")
    case False
    then have m: "prefixLen k s = length s" using prefixLen_le(2) [of k s] by simp
    then obtain r where r: "k = s @ r" by (metis prefixLen_eq append_take_drop_id)
    then have "fits t r" "r \<noteq> []" "is_full t" "is_nibbles s" "s \<noteq> []"
      using fits_short k False by (auto simp: full_key_append is_full_def full_key_not_nibbles)
    then have "pwf (p_delete t r)" "p_delete t r \<noteq> PNil" using 3(1) m r False by auto
    then have "pwf (p_join s (p_delete t r))" "p_join s (p_delete t r) \<noteq> PNil"
      using \<open>is_nibbles s\<close> \<open>s \<noteq> []\<close> by (cases "p_delete t r"; auto simp: full_key_append)+
    then show ?thesis using m False r k(2) by (simp add: is_full_def)
  qed (use k in \<open>auto simp: is_full_def\<close>)
next
  case (5 ts x k)
  then have f: "pwf (PFull ts)" "full_key (x # k)" by (auto simp: fits_def)
  note c = fits_child [OF this] pwf_full_update [OF this]
  have l: "length ts = 17" "unat x < 17" using f c by (auto simp: pwf_PFull)
  let ?t = "p_delete (ts ! unat x) k"
  show ?case
  proof (cases "?t = PNil")
    case True
    obtain a b where "a < b" "b < 17" "ts ! a \<noteq> PNil" "ts ! b \<noteq> PNil" using f(1) by (auto simp: pwf_PFull)
    then obtain i where "i < 17" "ts ! i \<noteq> PNil" "i \<noteq> unat x" by (metis less_trans nat_neq_iff)
    then have "pwf (p_reduce (ts[unat x := PNil])) \<and> p_reduce (ts[unat x := PNil]) \<noteq> PNil \<and> \<not> p_value (p_reduce (ts[unat x := PNil]))"
      using f l by (intro pwf_reduce [of _ i]) (auto simp: pwf_PFull nth_list_update)
    then show ?thesis using True c(1) by (simp add: Let_def)
  next
    case False
    moreover have "k \<noteq> []" "pwf ?t" using 5(1) c False by (auto split: if_splits)
    ultimately show ?thesis using c by (simp add: Let_def)
  qed
qed (auto simp: fits_def p_value_def is_full_def split: if_splits)

section \<open>The content determines the tree\<close>

lemma pwf_content:
  assumes "pwf t" "t \<noteq> PNil"
  shows "\<exists>k v. p_get t k = Some v"
  using assms
proof (induction rule: pwf.induct)
  case (pwf_leaf s v)
  then show ?case by (intro exI [of _ s] exI [of _ v]) simp
next
  case (pwf_ext s ts)
  then obtain k v where "p_get (PFull ts) k = Some v" by auto
  then have "p_get (PShort s (PFull ts)) (s @ k) = Some v" by simp
  then show ?case by blast
next
  case (pwf_full ts)
  then obtain i where i: "i < 17" "ts ! i \<noteq> PNil" by (meson less_trans)
  have "\<exists>k v. p_get (ts ! i) k = Some v"
  proof (cases "i = 16")
    case True
    then obtain v where "ts ! i = PValue v" using i pwf_full by (auto simp: p_value_def)
    then have "p_get (ts ! i) [] = Some v" by simp
    then show ?thesis by blast
  next
    case False
    then show ?thesis using pwf_full i by simp
  qed
  then obtain k v where "p_get (ts ! i) k = Some v" by blast
  then have "p_get (PFull ts) (word_of_nat i # k) = Some v" using i pwf_full by (simp add: unat_of_nat)
  then show ?case by blast
qed simp

lemma slot_content:
  assumes "pwf (PFull ts)" "i < 17" "ts ! i \<noteq> PNil"
  shows "\<exists>k v. p_get (PFull ts) (word_of_nat i # k) = Some v"
proof -
  have l: "length ts = 17" using assms(1) by (simp add: pwf_PFull)
  have "\<exists>k v. p_get (ts ! i) k = Some v"
  proof (cases "i = 16")
    case True
    then obtain v where "ts ! i = PValue v" using assms by (auto simp: p_value_def pwf_PFull)
    then have "p_get (ts ! i) [] = Some v" by simp
    then show ?thesis by blast
  next
    case False
    then show ?thesis using assms pwf_content by (auto simp: pwf_PFull)
  qed
  then show ?thesis using assms(2) l by (simp add: unat_of_nat)
qed

text \<open>A branch has two keys that differ in their first digit; a short node has keys that all start alike.\<close>

lemma branch_content:
  assumes "pwf (PFull ts)"
  shows "\<exists>k v. p_get (PFull ts) k = Some v \<and> take 1 k \<noteq> [x]"
proof -
  obtain i j where ij: "i < j" "j < 17" "ts ! i \<noteq> PNil" "ts ! j \<noteq> PNil" using assms by (auto simp: pwf_PFull)
  then obtain l where l: "l < 17" "ts ! l \<noteq> PNil" "l \<noteq> unat x" by (metis less_trans nat_neq_iff)
  then obtain k v where "p_get (PFull ts) (word_of_nat l # k) = Some v" using slot_content assms by blast
  moreover have "word_of_nat l \<noteq> x" using l by (auto simp: unat_of_nat)
  ultimately show ?thesis by (intro exI [of _ "word_of_nat l # k"] exI [of _ v]) simp
qed

lemma short_content: "p_get (PShort s t) k = Some v \<Longrightarrow> \<exists>c. k = s @ c"
  by (auto simp: p_get_short simp del: p_get.simps split: if_splits)

lemma branch_not_short:
  assumes "pwf (PFull ts)" "s \<noteq> []"
  shows "p_get (PFull ts) \<noteq> p_get (PShort s t)"
proof
  assume eq: "p_get (PFull ts) = p_get (PShort s t)"
  obtain k v where "p_get (PFull ts) k = Some v" "take 1 k \<noteq> [hd s]" using branch_content assms(1) by blast
  then obtain c where "k = s @ c" using short_content eq by metis
  then show False using \<open>take 1 k \<noteq> [hd s]\<close> assms(2) by (cases s) auto
qed

text \<open>Two short nodes with the same content have the same key.\<close>

lemma short_key_unique:
  assumes "pwf (PShort s t)" "pwf (PShort (s @ d) t')" "p_get (PShort s t) = p_get (PShort (s @ d) t')"
  shows "d = []"
proof (rule ccontr)
  assume d: "d \<noteq> []"
  have all: "\<exists>c. k = d @ c" if "p_get t k = Some v" for k v
    using short_content [of "s @ d" t' "s @ k" v] assms(3) that by (metis append.assoc append_eq_conv_conj p_get.simps(3) same_append_eq)
  from assms(1) consider v where "t = PValue v" "v \<noteq> []" | ts where "t = PFull ts" "pwf t" by auto
  then show False
  proof cases
    case 1
    then show False using all [of "[]" v] d by simp
  next
    case 2
    then obtain k v where "p_get t k = Some v" "take 1 k \<noteq> [hd d]" using branch_content by blast
    then show False using all d by (cases d) force+
  qed
qed

lemma p_get_append: "p_get (PShort s t) (s @ k) = p_get t k"
  by simp

text \<open>Keys of two short nodes with the same content are prefixes of one key, so of each other.\<close>

lemma short_unique:
  assumes "pwf (PShort s t)" "pwf (PShort s' t')" "p_get (PShort s t) = p_get (PShort s' t')"
  shows "s = s' \<and> p_get t = p_get t'"
proof -
  obtain k v where "p_get (PShort s t) k = Some v" using pwf_content [OF assms(1)] by blast
  then obtain c c' where "k = s @ c" "k = s' @ c'" using short_content assms(3) by metis
  then obtain d where "s' = s @ d \<or> s = s' @ d" by (metis append_eq_append_conv2)
  then have "s = s'" using short_key_unique assms by (metis append_Nil2)
  then show ?thesis using assms(3) p_get_append by (metis ext)
qed

lemma p_unique:
  assumes "pwf t" "pwf t'" "p_get t = p_get t'"
  shows "t = t'"
  using assms
proof (induction arbitrary: t' rule: pwf.induct)
  case pwf_nil
  then show ?case using pwf_content [of t'] by (metis option.distinct(1) p_get.simps(1))
next
  case (pwf_leaf s v)
  have wf: "pwf (PShort s (PValue v))" using pwf_leaf by simp
  have "s \<noteq> []" using wf by auto
  then have "\<not> is_full t'" using branch_not_short pwf_leaf(3,4) by (metis is_full_def)
  moreover have "t' \<noteq> PNil" using pwf_content [OF wf] pwf_leaf(4) by (metis option.distinct(1) p_get.simps(1) ptree.distinct(3))
  ultimately obtain s' u where t': "t' = PShort s' u" "pwf (PShort s' u)"
    using pwf_leaf(3) by (cases t') (auto simp: is_full_def)
  then have u: "s = s'" "p_get (PValue v) = p_get u" using short_unique [OF wf t'(2) pwf_leaf(4) [unfolded t'(1)]] by blast+
  then have "p_get u [] = Some v" by (metis p_get.simps(2))
  then show ?case using t' u(1) by auto
next
  case (pwf_ext s ts)
  have wf: "pwf (PShort s (PFull ts))" using pwf_ext by simp
  have "s \<noteq> []" using wf by auto
  then have "\<not> is_full t'" using branch_not_short pwf_ext(5,6) by (metis is_full_def)
  moreover have "t' \<noteq> PNil" using pwf_content [OF wf] pwf_ext(6) by (metis option.distinct(1) p_get.simps(1) ptree.distinct(3))
  ultimately obtain s' u where t': "t' = PShort s' u" "pwf (PShort s' u)"
    using pwf_ext(5) by (cases t') (auto simp: is_full_def)
  then have u: "s = s'" "p_get (PFull ts) = p_get u" using short_unique [OF wf t'(2) pwf_ext(6) [unfolded t'(1)]] by blast+
  then have "p_get u [] = None" by (metis p_get.simps(4))
  then have "pwf u" using t'(2) by auto
  then show ?case using pwf_ext(4) u t' by blast
next
  case (pwf_full ts)
  have wf: "pwf (PFull ts)" using pwf_full by (intro pwf.pwf_full) auto
  have "t' \<noteq> PNil" using pwf_content [OF wf] pwf_full by auto
  moreover have "t' \<noteq> PShort s u" for s u
  proof
    assume "t' = PShort s u"
    then have "s \<noteq> []" "p_get (PFull ts) = p_get (PShort s u)" using pwf_full(5,6) by auto
    then show False using branch_not_short [OF wf] by blast
  qed
  ultimately obtain ts' where t': "t' = PFull ts'" using pwf_full(5) by (cases t') auto
  then have l: "length ts' = 17" "ts' ! 16 = PNil \<or> p_value (ts' ! 16)" using pwf_full(5) by (auto simp: pwf_PFull)
  have g: "p_get (ts ! i) = p_get (ts' ! i)" if "i < 17" for i
  proof (rule ext)
    fix k
    show "p_get (ts ! i) k = p_get (ts' ! i) k"
      using fun_cong [OF pwf_full(6), of "word_of_nat i # k"] that l wf t' by (simp add: unat_of_nat pwf_PFull)
  qed
  have "ts ! i = ts' ! i" if "i < 17" for i
  proof (cases "i = 16")
    case True
    then have "p_get (ts ! 16) [] = p_get (ts' ! 16) []" using g by simp
    then show ?thesis using True l(2) wf by (auto simp: p_value_def pwf_PFull)
  next
    case False
    then have "i < 16" using that by simp
    moreover have "pwf (ts' ! i)" using pwf_full.prems(1) t' \<open>i < 16\<close> by (simp add: pwf_PFull)
    ultimately show ?thesis using pwf_full.IH g [OF that] by blast
  qed
  then show ?case using t' l(1) wf by (simp add: list_eq_iff_nth_eq pwf_PFull)
qed

end
