(* ===== verification/Trie_Codec.thy ===== *)
theory Trie_Codec imports Trie_Node Patricia_Tree begin

text \<open>
  Stored nodes decode to what was encoded: the encoding of a tree as the hasher and the committer write it
  (\<open>trie/hasher.go\<close>, \<open>trie/node_enc.go\<close>), where a child of 32 bytes or more is replaced by its hash, and
  the node that \<open>trie/node.go\<close> reads back. The hash function is a parameter.
\<close>

section \<open>The reference encoding of a tree\<close>

definition ref_item :: "(bytes \<Rightarrow> hash) \<Rightarrow> rlp_item \<Rightarrow> rlp_item" where
  "ref_item K x = (case x of RStr _ \<Rightarrow> x
     | RList _ \<Rightarrow> if length (rlp_enc x) < 32 then x else RStr (Bytes32 (K (rlp_enc x))))"

definition key_compact :: "bytes \<Rightarrow> bytes" where
  "key_compact s = compact_of (if hasTerm s then butlast s else s) (hasTerm s)"

primrec p_item :: "(bytes \<Rightarrow> hash) \<Rightarrow> ptree \<Rightarrow> rlp_item" where
  "p_item K PNil = RStr []"
| "p_item K (PValue v) = RStr v"
| "p_item K (PShort s t) = RList [RStr (key_compact s), ref_item K (p_item K t)]"
| "p_item K (PFull ts) = RList (map (\<lambda>t. ref_item K (p_item K t)) ts)"

definition p_enc :: "(bytes \<Rightarrow> hash) \<Rightarrow> ptree \<Rightarrow> bytes" where
  "p_enc K t = rlp_enc (p_item K t)"

definition p_node :: "ptree \<Rightarrow> bool" where
  "p_node t \<longleftrightarrow> (\<forall>v. t \<noteq> PNil \<and> t \<noteq> PValue v)"

lemma p_node_simps [simp]: "\<not> p_node PNil" "\<not> p_node (PValue v)" "p_node (PShort s t)" "p_node (PFull ts)"
  by (simp_all add: p_node_def)

lemma p_node_cases: "p_node t \<longleftrightarrow> (\<exists>s u. t = PShort s u) \<or> (\<exists>ts. t = PFull ts)"
  by (cases t) auto

lemma ref_item_node: "p_node t \<Longrightarrow> ref_item K (p_item K t) =
    (if length (p_enc K t) < 32 then p_item K t else RStr (Bytes32 (K (p_enc K t))))"
  by (cases t) (auto simp: ref_item_def p_enc_def)

text \<open>The node that decoding the encoding of a tree gives.\<close>

primrec dec_node :: "(bytes \<Rightarrow> hash) \<Rightarrow> ptree \<Rightarrow> bytes option \<Rightarrow> tnode option" where
  "dec_node K PNil h = None"
| "dec_node K (PValue v) h = Some (ValueNode v)"
| "dec_node K (PShort s t) h = Some (ShortNode s
     (if p_node t \<and> 32 \<le> length (p_enc K t) then Some (HashNode (Bytes32 (K (p_enc K t)))) else dec_node K t None)
     \<lparr>nf_hash = h, nf_dirty = False\<rparr>)"
| "dec_node K (PFull ts) h = Some (FullNode (map (\<lambda>t.
     if p_node t \<and> 32 \<le> length (p_enc K t) then Some (HashNode (Bytes32 (K (p_enc K t)))) else dec_node K t None) ts)
     \<lparr>nf_hash = h, nf_dirty = False\<rparr>)"

definition dec_ref :: "(bytes \<Rightarrow> hash) \<Rightarrow> ptree \<Rightarrow> tnode option" where
  "dec_ref K t = (if p_node t \<and> 32 \<le> length (p_enc K t) then Some (HashNode (Bytes32 (K (p_enc K t)))) else dec_node K t None)"

section \<open>Counting the elements of a list\<close>

lemma CountValues_loop_Split:
  assumes "Split b = Ret (Inr (k, content, rest))" "length b < 2 ^ 63"
  shows "CountValues_loop b i = CountValues_loop rest (i + 1)"
proof -
  obtain ts cs where r: "readKind b = Inr (k, ts, cs)" and c: "rest = drop (unat ts + unat cs) b"
    using assms Split_Ret [OF assms(2)] by (auto split: sum.splits)
  note bd = readKind_bounds [OF r assms(2)]
  have sum: "unat (ts + cs) = unat ts + unat cs"
    by (rule unat_add_no_overflow) (use bd assms(2) in simp)
  show ?thesis using r c bd assms(2) by (subst CountValues_loop.simps) (auto simp: slice_def sum)
qed

lemma Split_enc: 
  assumes "length (rlp_enc x @ rest) < 2 ^ 63"
  shows "\<exists>k c. Split (rlp_enc x @ rest) = Ret (Inr (k, c, rest))"
  using Split_enc_str [of _ rest] Split_enc_list [of _ rest] assms by (cases x) blast+

lemma CountValues_enc:
  "length (concat (map rlp_enc xs)) < 2 ^ 63 \<Longrightarrow> CountValues_loop (concat (map rlp_enc xs)) i = Ret (Inr (i + length xs))"
proof (induction xs arbitrary: i)
  case Nil
  then show ?case by (simp add: CountValues_loop.simps)
next
  case (Cons x xs)
  obtain k c where "Split (rlp_enc x @ concat (map rlp_enc xs)) = Ret (Inr (k, c, concat (map rlp_enc xs)))"
    using Split_enc [of x "concat (map rlp_enc xs)"] Cons.prems by auto
  from CountValues_loop_Split [OF this, of i] Cons show ?case by simp
qed

section \<open>Decoding what was encoded\<close>

lemma p_item_node: "p_node t \<Longrightarrow> \<exists>xs. p_item K t = RList xs"
  by (cases t) auto

lemma dec_node_simps [simp]:
  "dec_node K (PShort s t) h = Some (ShortNode s (dec_ref K t) \<lparr>nf_hash = h, nf_dirty = False\<rparr>)"
  "dec_node K (PFull ts) h = Some (FullNode (map (dec_ref K) ts) \<lparr>nf_hash = h, nf_dirty = False\<rparr>)"
  "dec_ref K PNil = None" "dec_ref K (PValue v) = Some (ValueNode v)"
  by (simp_all add: dec_ref_def)

declare dec_node.simps(3,4) [simp del]

lemma dec_node_Some: "p_node t \<Longrightarrow> dec_node K t h = Some (the (dec_node K t h))"
  by (cases t) simp_all

lemma decodeRef_dec:
  assumes "t = PNil \<or> p_node t" "length (rlp_enc (ref_item K (p_item K t)) @ rest) < 2 ^ 63"
    and dec: "p_node t \<Longrightarrow> length (p_enc K t) < 32 \<Longrightarrow> dec None (p_enc K t @ rest) = Ret (Inr (the (dec_node K t None)))"
  shows "decodeRef dec (rlp_enc (ref_item K (p_item K t)) @ rest) = Ret (Inr (dec_ref K t, rest))"
proof (cases "p_node t")
  case node: True
  show ?thesis
  proof (cases "length (p_enc K t) < 32")
    case True
    then have r: "ref_item K (p_item K t) = p_item K t" using ref_item_node node by simp
    then have l: "length (p_enc K t @ rest) < 2 ^ 63" using assms(2) by (simp add: p_enc_def)
    obtain xs where x: "p_item K t = RList xs" using p_item_node node by blast
    have "Split (p_enc K t @ rest) = Ret (Inr (KList, concat (map rlp_enc xs), rest))"
      using Split_enc_list l by (simp add: p_enc_def x)
    then have "decodeRef dec (p_enc K t @ rest) = Ret (Inr (dec_node K t None, rest))"
      using dec [OF node True] dec_node_Some [OF node] True by (simp add: decodeRef_def go_try_def)
    then show ?thesis using True by (simp add: r p_enc_def dec_ref_def)
  next
    case False
    then have r: "ref_item K (p_item K t) = RStr (Bytes32 (K (p_enc K t)))" using ref_item_node node by simp
    have "Split (rlp_enc (RStr (Bytes32 (K (p_enc K t)))) @ rest) = Ret (Inr (KString, Bytes32 (K (p_enc K t)), rest))"
      using Split_enc_str [of "Bytes32 (K (p_enc K t))" rest] assms(2) by (simp add: r length_Bytes32 del: rlp_enc.simps)
    moreover have "Bytes32 (K (p_enc K t)) \<noteq> []" using length_Bytes32 by (metis length_0_conv zero_neq_numeral)
    ultimately show ?thesis using False node by (simp add: r decodeRef_def go_try_def dec_ref_def length_Bytes32 del: rlp_enc.simps)
  qed
next
  case False
  then have t: "t = PNil" using assms(1) by simp
  have "Split (rlp_enc (RStr []) @ rest) = Ret (Inr (KString, [], rest))"
    using Split_enc_str [of "[]" rest] assms(2) by (simp add: t ref_item_def del: rlp_enc.simps)
  then show ?thesis by (simp add: t ref_item_def decodeRef_def go_try_def del: rlp_enc.simps)
qed

abbreviation enc_refs :: "(bytes \<Rightarrow> hash) \<Rightarrow> ptree list \<Rightarrow> bytes" where
  "enc_refs K ts \<equiv> concat (map (\<lambda>t. rlp_enc (ref_item K (p_item K t))) ts)"

lemma decode_children_dec:
  assumes "\<forall>t \<in> set ts. t = PNil \<or> p_node t" "length (enc_refs K ts @ rest) < 2 ^ 63"
    and "\<And>t rest. t \<in> set ts \<Longrightarrow> p_node t \<Longrightarrow> length (p_enc K t) < 32 \<Longrightarrow> length (p_enc K t @ rest) < 2 ^ 63 \<Longrightarrow>
      dec None (p_enc K t @ rest) = Ret (Inr (the (dec_node K t None)))"
  shows "decode_children dec (length ts) i (enc_refs K ts @ rest) = Ret (Inr (map (dec_ref K) ts, rest))"
  using assms
proof (induction ts arbitrary: i)
  case (Cons t ts)
  have "decodeRef dec (rlp_enc (ref_item K (p_item K t)) @ enc_refs K ts @ rest) = Ret (Inr (dec_ref K t, enc_refs K ts @ rest))"
  proof (rule decodeRef_dec)
    show "length (rlp_enc (ref_item K (p_item K t)) @ enc_refs K ts @ rest) < 2 ^ 63" using Cons.prems(2) by simp
    assume "p_node t" "length (p_enc K t) < 32"
    then show "dec None (p_enc K t @ enc_refs K ts @ rest) = Ret (Inr (the (dec_node K t None)))"
      using Cons.prems(2,3) by (simp add: ref_item_node p_enc_def)
  qed (use Cons.prems(1) in simp)
  moreover have "decode_children dec (length ts) (Suc i) (enc_refs K ts @ rest) = Ret (Inr (map (dec_ref K) ts, rest))"
    using Cons by simp
  ultimately show ?case by (simp add: wrap_def go_try_def)
qed simp

text \<open>All encodings of subtrees fit in memory.\<close>

fun p_small :: "(bytes \<Rightarrow> hash) \<Rightarrow> ptree \<Rightarrow> bool" where
  "p_small K (PShort s t) \<longleftrightarrow> length (p_enc K (PShort s t)) < 2 ^ 62 \<and> p_small K t"
| "p_small K (PFull ts) \<longleftrightarrow> length (p_enc K (PFull ts)) < 2 ^ 62 \<and> (\<forall>t \<in> set ts. p_small K t)"
| "p_small K t \<longleftrightarrow> True"

lemma pwf_node: "pwf t \<Longrightarrow> t = PNil \<or> p_node t"
  by (cases t) auto

lemma pwf_children: "pwf (PFull ts) \<Longrightarrow> t \<in> set (take 16 ts) \<Longrightarrow> pwf t \<and> (t = PNil \<or> p_node t)"
proof -
  assume "pwf (PFull ts)" "t \<in> set (take 16 ts)"
  then have "pwf t" by (auto simp: pwf_PFull in_set_conv_nth)
  then show ?thesis using pwf_node by blast
qed

lemma compactToHex_key: "full_key s \<or> is_nibbles s \<Longrightarrow> compactToHex (key_compact s) = Ret s"
proof (elim disjE)
  assume k: "full_key s"
  then have "hasTerm s" by (simp add: full_key_def hasTerm_def)
  then show ?thesis
    using k compactToHex_compact_of [of "butlast s" True] by (simp add: key_compact_def full_key_def hasTerm_butlast)
next
  assume "is_nibbles s"
  then show ?thesis using compactToHex_compact_of [of s False] by (simp add: key_compact_def nibbles_no_term)
qed

lemma hexToCompact_key: "hexToCompact s = Ret (key_compact s)"
  by (simp add: hexToCompact_eq key_compact_def)

lemma pwf_PFull_split:
  assumes "pwf (PFull ts)"
  shows "ts = take 16 ts @ [ts ! 16]" "length (take 16 ts) = 16"
proof -
  have l: "length ts = 17" using assms by (simp add: pwf_PFull)
  then show "ts = take 16 ts @ [ts ! 16]" using take_Suc_conv_app_nth [of 16 ts] by simp
  show "length (take 16 ts) = 16" using l by simp
qed

lemma SplitString_enc: "length (rlp_enc (RStr b) @ rest) < 2 ^ 63 \<Longrightarrow> SplitString (rlp_enc (RStr b) @ rest) = Ret (Inr (b, rest))"
  unfolding SplitString_Split by (rule exI [of _ "if length b = 1 \<and> b ! 0 \<le> 0x7F then KByte else KString"])
    (simp only: Split_enc_str, simp)

lemma enc_payload: "length (concat (map rlp_enc xs)) < length (rlp_enc (RList xs))"
  by (simp add: Let_def puthead_def)

lemma decode_fuel_list:
  assumes "length (rlp_enc (RList xs) @ rest) < 2 ^ 63" "length xs = 2 \<or> length xs = 17"
  shows "decode_fuel (Suc n) h (rlp_enc (RList xs) @ rest) =
    (if length xs = 2 then wrap ''short'' (decodeShort (decode_fuel n) h (concat (map rlp_enc xs)))
     else wrap ''full'' (decodeFull (decode_fuel n) h (concat (map rlp_enc xs))))"
proof -
  have "SplitList (rlp_enc (RList xs) @ rest) = Ret (Inr (concat (map rlp_enc xs), rest))"
    using Split_enc_list assms(1) by (simp add: SplitList_Split)
  moreover have "CountValues (concat (map rlp_enc xs)) = Ret (Inr (length xs))"
    using CountValues_enc [of xs 0] enc_payload [of xs] assms(1) by (simp add: CountValues_def del: rlp_enc.simps)
  moreover have "rlp_enc (RList xs) \<noteq> []" using enc_payload [of xs] by (metis list.size(3) not_less_zero)
  ultimately show ?thesis using assms(2) by (elim disjE) (simp_all add: go_try_def del: rlp_enc.simps)
qed

lemma decode_dec:
  assumes "pwf t" "p_node t" "length (p_enc K t) < n" "length (p_enc K t @ rest) < 2 ^ 63"
  shows "decode_fuel n h (p_enc K t @ rest) = Ret (Inr (the (dec_node K t h)))"
  using assms
proof (induction n arbitrary: t h rest)
  case (Suc n)
  consider (leaf) s v where "t = PShort s (PValue v)" "full_key s"
    | (ext) s ts where "t = PShort s (PFull ts)" "is_nibbles s" "pwf (PFull ts)" | (full) ts where "t = PFull ts" "pwf (PFull ts)"
  proof (cases t)
    case (PShort s u)
    then show ?thesis using Suc.prems(1) leaf ext by (metis pwf_simps(3))
  next
    case (PFull ts)
    then show ?thesis using Suc.prems(1) full by blast
  qed (use Suc.prems(2) in simp_all)
  then show ?case
  proof cases
    case leaf
    let ?xs = "[RStr (key_compact s), RStr v]"
    have t: "p_enc K t = rlp_enc (RList ?xs)" by (simp add: leaf p_enc_def ref_item_def)
    have l: "length (concat (map rlp_enc ?xs)) < 2 ^ 63" using enc_payload [of ?xs] Suc.prems(4) t by simp
    have "decodeShort (decode_fuel n) h (concat (map rlp_enc ?xs)) = Ret (Inr (the (dec_node K t h)))"
      using SplitString_enc [of "key_compact s" "rlp_enc (RStr v)"] SplitString_enc [of v "[]"] l leaf compactToHex_key [of s]
      by (simp add: decodeShort_def go_try_def full_key_def hasTerm_def del: rlp_enc.simps)
    then show ?thesis using decode_fuel_list [of ?xs rest n h] Suc.prems(4) t by (simp add: wrap_def)
  next
    case ext
    let ?xs = "[RStr (key_compact s), ref_item K (p_item K (PFull ts))]"
    have t: "p_enc K t = rlp_enc (RList ?xs)" by (simp add: ext p_enc_def)
    have l: "length (concat (map rlp_enc ?xs)) < length (p_enc K t)" using enc_payload [of ?xs] t by simp
    have "decodeRef (decode_fuel n) (rlp_enc (ref_item K (p_item K (PFull ts))) @ []) = Ret (Inr (dec_ref K (PFull ts), []))"
    proof (rule decodeRef_dec)
      assume "length (p_enc K (PFull ts)) < 32"
      then have e: "rlp_enc (ref_item K (p_item K (PFull ts))) = p_enc K (PFull ts)" using ref_item_node [of "PFull ts"] by (simp add: p_enc_def)
      then show "decode_fuel n None (p_enc K (PFull ts) @ []) = Ret (Inr (the (dec_node K (PFull ts) None)))"
        using l ext Suc.prems(3,4) by (intro Suc.IH) auto
    qed (use l Suc.prems(4) in simp_all)
    then have "decodeShort (decode_fuel n) h (concat (map rlp_enc ?xs)) = Ret (Inr (the (dec_node K t h)))"
      using SplitString_enc [of "key_compact s" "rlp_enc (ref_item K (p_item K (PFull ts)))"] l ext compactToHex_key [of s] Suc.prems(4)
      by (simp add: decodeShort_def go_try_def nibbles_no_term wrap_def del: rlp_enc.simps p_item.simps)
    then show ?thesis using decode_fuel_list [of ?xs rest n h] Suc.prems(4) t by (simp add: wrap_def)
  next
    case full
    let ?cs = "take 16 ts" and ?v = "ts ! 16"
    let ?xs = "map (\<lambda>t. ref_item K (p_item K t)) ts"
    note sp = pwf_PFull_split [OF full(2)]
    have t: "p_enc K t = rlp_enc (RList ?xs)" by (simp add: full p_enc_def)
    have l: "length (concat (map rlp_enc ?xs)) < length (p_enc K t)" using enc_payload [of ?xs] t by simp
    have xs: "concat (map rlp_enc ?xs) = enc_refs K ?cs @ rlp_enc (p_item K ?v)"
    proof -
      have "?v = PNil \<or> p_value ?v" using full(2) by (simp add: pwf_PFull)
      then have "ref_item K (p_item K ?v) = p_item K ?v" by (auto simp: ref_item_def p_value_def)
      moreover have "map f ts = map f ?cs @ [f ?v]" for f :: "ptree \<Rightarrow> bytes" by (subst sp(1)) simp
      ultimately show ?thesis by (simp add: comp_def)
    qed
    have "decode_children (decode_fuel n) (length ?cs) 0 (enc_refs K ?cs @ rlp_enc (p_item K ?v)) = Ret (Inr (map (dec_ref K) ?cs, rlp_enc (p_item K ?v)))"
    proof (rule decode_children_dec)
      fix c rest assume c: "c \<in> set ?cs" "p_node c" "length (p_enc K c) < 32" "length (p_enc K c @ rest) < 2 ^ 63"
      have "length (p_enc K c) \<le> length (enc_refs K ?cs)"
        using c(1-3) by (auto simp: in_set_conv_decomp ref_item_node p_enc_def)
      then show "decode_fuel n None (p_enc K c @ rest) = Ret (Inr (the (dec_node K c None)))"
        using c l xs Suc.prems(3) pwf_children [OF full(2) c(1)] by (intro Suc.IH) auto
    qed (use l xs Suc.prems(4) pwf_children [OF full(2)] in auto)
    moreover have "?v = PNil \<or> p_value ?v" using full(2) by (simp add: pwf_PFull)
    then obtain w where w: "p_item K ?v = RStr w" "dec_ref K ?v = (if w = [] then None else Some (ValueNode w))"
      by (auto simp: p_value_def)
    have "SplitString (rlp_enc (p_item K ?v)) = Ret (Inr (w, []))"
      using SplitString_enc [of w "[]"] l xs Suc.prems(4) by (simp add: w del: rlp_enc.simps)
    moreover have "map (dec_ref K) ts = map (dec_ref K) ?cs @ [dec_ref K ?v]" by (subst sp(1)) simp
    ultimately have "decodeFull (decode_fuel n) h (concat (map rlp_enc ?xs)) = Ret (Inr (the (dec_node K t h)))"
      unfolding xs decodeFull_def using sp(2) w by (simp add: go_try_def full del: rlp_enc.simps)
    moreover have "length ?xs = 17" using full(2) by (simp add: pwf_PFull)
    ultimately show ?thesis using decode_fuel_list [of ?xs rest n h] Suc.prems(4) t by (simp add: wrap_def)
  qed
qed simp

lemma decodeNode_dec:
  assumes "pwf t" "p_node t" "length (p_enc K t) < 2 ^ 63"
  shows "decodeNode h (p_enc K t) = Ret (Inr (the (dec_node K t h)))"
  using decode_dec [of t K "length (p_enc K t) + 1" "[]" h] assms by (simp add: decodeNode_def decodeNodeUnsafe_def)

end
