(* ===== verification/Patricia_Trie.thy ===== *)
theory Patricia_Trie imports Trie_Codec begin

text \<open>
  The Merkle Patricia trie, \<open>trie/trie.go\<close>: lookup, insertion and deletion over nodes that are loaded
  from the database when they are reached. A step threads the tracer and ends in an error or a value.
  The recursions have fuel, because a corrupt database could answer with nodes that never end.
\<close>

section \<open>Steps\<close>

type_synonym 'a tstep = "tracer \<Rightarrow> ((trie_error + 'a) \<times> tracer) go"

definition tm_ret :: "'a \<Rightarrow> 'a tstep" where
  "tm_ret x tr = Ret (Inr x, tr)"

definition tm_go :: "'a go \<Rightarrow> 'a tstep" where
  "tm_go m tr = go_bind m (\<lambda>x. Ret (Inr x, tr))"

definition tm_bind :: "'a tstep \<Rightarrow> ('a \<Rightarrow> 'b tstep) \<Rightarrow> 'b tstep" where
  "tm_bind m f tr = go_bind (m tr) (\<lambda>(r, tr). case r of Inl err \<Rightarrow> Ret (Inl err, tr) | Inr x \<Rightarrow> f x tr)"

definition tm_trace :: "(tracer \<Rightarrow> tracer) \<Rightarrow> unit tstep" where
  "tm_trace f tr = Ret (Inr (), f tr)"

definition tm_fail :: "trie_error \<Rightarrow> 'a tstep" where
  "tm_fail err tr = Ret (Inl err, tr)"

definition newFlag :: nodeFlag where
  "newFlag = \<lparr>nf_hash = None, nf_dirty = True\<rparr>"

definition child :: "tnode option list \<Rightarrow> u8 \<Rightarrow> tnode option go" where
  "child cs i = nth_go cs (unat i)"

definition set_child :: "tnode option list \<Rightarrow> u8 \<Rightarrow> tnode option \<Rightarrow> tnode option list go" where
  "set_child cs i n = (if unat i < length cs then Ret (cs[unat i := n]) else Panic IndexOutOfRange)"

definition resolveAndTrack :: "trieReader \<Rightarrow> bytes \<Rightarrow> bytes \<Rightarrow> tnode tstep" where
  "resolveAndTrack rd n prefix tr =
     (case reader_node rd prefix (SetBytes n) of
        Inl err \<Rightarrow> Ret (Inl err, tr)
      | Inr blob \<Rightarrow> (let tr = onRead prefix blob tr in go_bind (mustDecodeNode (Some n) blob) (\<lambda>nd. Ret (Inr nd, tr))))"

definition resolve :: "trieReader \<Rightarrow> tnode option \<Rightarrow> bytes \<Rightarrow> tnode option tstep" where
  "resolve rd n prefix =
     (case n of Some (HashNode h) \<Rightarrow> tm_bind (resolveAndTrack rd h prefix) (\<lambda>n. tm_ret (Some n)) | _ \<Rightarrow> tm_ret n)"

section \<open>Lookup\<close>

primrec trie_get :: "nat \<Rightarrow> trieReader \<Rightarrow> tnode option \<Rightarrow> bytes \<Rightarrow> nat \<Rightarrow> (bytes option \<times> tnode option \<times> bool) tstep" where
  "trie_get 0 rd origNode key pos = (\<lambda>_. OutOfFuel)"
| "trie_get (Suc fuel) rd origNode key pos =
     (case origNode of
        None \<Rightarrow> tm_ret (None, None, False)
      | Some (ValueNode v) \<Rightarrow> tm_ret (Some v, origNode, False)
      | Some (ShortNode k val fl) \<Rightarrow>
          if length key - pos < length k \<or> k \<noteq> take (length k) (drop pos key) then tm_ret (None, origNode, False)
          else tm_bind (trie_get fuel rd val key (pos + length k)) (\<lambda>(value, newnode, didResolve).
            tm_ret (value, Some (ShortNode k (if didResolve then newnode else val) fl), didResolve))
      | Some (FullNode cs fl) \<Rightarrow>
          tm_bind (tm_go (go_bind (nth_go key pos) (\<lambda>i. go_bind (child cs i) (\<lambda>c. Ret (i, c))))) (\<lambda>(i, c).
          tm_bind (trie_get fuel rd c key (pos + 1)) (\<lambda>(value, newnode, didResolve).
          tm_bind (tm_go (if didResolve then set_child cs i newnode else Ret cs)) (\<lambda>cs.
            tm_ret (value, Some (FullNode cs fl), didResolve))))
      | Some (HashNode h) \<Rightarrow>
          tm_bind (resolveAndTrack rd h (take pos key)) (\<lambda>child.
          tm_bind (trie_get fuel rd (Some child) key pos) (\<lambda>(value, newnode, _).
            tm_ret (value, newnode, True))))"

text \<open>
  \<open>getNode\<close> finds the stored blob of a node by its path. The error of a node without a hash is the
  code's \<open>non-consensus node\<close>; the resolved count and the node are returned with it.
\<close>

definition node_hash :: "tnode \<Rightarrow> bytes option" where
  "node_hash n = (case n of HashNode h \<Rightarrow> Some h | _ \<Rightarrow> fst (node_cache n))"

primrec trie_getNode :: "nat \<Rightarrow> trieReader \<Rightarrow> tnode option \<Rightarrow> bytes \<Rightarrow> nat \<Rightarrow> (bytes option \<times> tnode option \<times> nat) tstep" where
  "trie_getNode 0 rd origNode path pos = (\<lambda>_. OutOfFuel)"
| "trie_getNode (Suc fuel) rd origNode path pos =
     (case origNode of
        None \<Rightarrow> tm_ret (None, None, 0)
      | Some nd \<Rightarrow>
          if pos \<ge> length path then
            (case node_hash nd of
               None \<Rightarrow> tm_fail NonConsensusNode
             | Some h \<Rightarrow> (case reader_node rd path (SetBytes h) of
                 Inl err \<Rightarrow> tm_fail err | Inr blob \<Rightarrow> tm_ret (Some blob, origNode, 1)))
          else (case nd of
            ValueNode v \<Rightarrow> tm_ret (None, None, 0)
          | ShortNode k val fl \<Rightarrow>
              if length path - pos < length k \<or> k \<noteq> take (length k) (drop pos path) then tm_ret (None, origNode, 0)
              else tm_bind (trie_getNode fuel rd val path (pos + length k)) (\<lambda>(item, newnode, resolved).
                tm_ret (item, Some (ShortNode k (if resolved > 0 then newnode else val) fl), resolved))
          | FullNode cs fl \<Rightarrow>
              tm_bind (tm_go (go_bind (nth_go path pos) (\<lambda>i. go_bind (child cs i) (\<lambda>c. Ret (i, c))))) (\<lambda>(i, c).
              tm_bind (trie_getNode fuel rd c path (pos + 1)) (\<lambda>(item, newnode, resolved).
              tm_bind (tm_go (if resolved > 0 then set_child cs i newnode else Ret cs)) (\<lambda>cs.
                tm_ret (item, Some (FullNode cs fl), resolved))))
          | HashNode h \<Rightarrow>
              tm_bind (resolveAndTrack rd h (take pos path)) (\<lambda>child.
              tm_bind (trie_getNode fuel rd (Some child) path pos) (\<lambda>(item, newnode, resolved).
                tm_ret (item, newnode, resolved + 1)))))"

section \<open>Insertion\<close>

definition value_eq :: "tnode option \<Rightarrow> bytes \<Rightarrow> bool go" where
  "value_eq value v = (case value of Some (ValueNode w) \<Rightarrow> Ret (v = w) | _ \<Rightarrow> Panic TypeAssertion)"

primrec trie_insert ::
  "nat \<Rightarrow> trieReader \<Rightarrow> tnode option \<Rightarrow> bytes \<Rightarrow> bytes \<Rightarrow> tnode option \<Rightarrow> (bool \<times> tnode option) tstep" where
  "trie_insert 0 rd n prefix key value = (\<lambda>_. OutOfFuel)"
| "trie_insert (Suc fuel) rd n prefix key value =
     (if key = [] then
        (case n of
           Some (ValueNode v) \<Rightarrow> tm_bind (tm_go (value_eq value v)) (\<lambda>eq. tm_ret (\<not> eq, value))
         | _ \<Rightarrow> tm_ret (True, value))
      else case n of
        Some (ShortNode k val fl) \<Rightarrow>
          (let matchlen = prefixLen key k in
           if matchlen = length k then
             tm_bind (trie_insert fuel rd val (prefix @ take matchlen key) (drop matchlen key) value) (\<lambda>(dirty, nn).
               if \<not> dirty then tm_ret (False, n) else tm_ret (True, Some (ShortNode k nn newFlag)))
           else
             tm_bind (tm_go (go_bind (nth_go k matchlen) (\<lambda>x. go_bind (nth_go key matchlen) (\<lambda>y. Ret (x, y))))) (\<lambda>(x, y).
             tm_bind (trie_insert fuel rd None (prefix @ take (matchlen + 1) k) (drop (matchlen + 1) k) val) (\<lambda>(_, n1).
             tm_bind (tm_go (set_child (replicate 17 None) x n1)) (\<lambda>cs.
             tm_bind (trie_insert fuel rd None (prefix @ take (matchlen + 1) key) (drop (matchlen + 1) key) value) (\<lambda>(_, n2).
             tm_bind (tm_go (set_child cs y n2)) (\<lambda>cs.
               let branch = Some (FullNode cs newFlag) in
               if matchlen = 0 then tm_ret (True, branch)
               else tm_bind (tm_trace (onInsert (prefix @ take matchlen key))) (\<lambda>_.
                 tm_ret (True, Some (ShortNode (take matchlen key) branch newFlag)))))))))
      | Some (FullNode cs fl) \<Rightarrow>
          tm_bind (tm_go (child cs (hd key))) (\<lambda>c.
          tm_bind (trie_insert fuel rd c (prefix @ [hd key]) (tl key) value) (\<lambda>(dirty, nn).
            if \<not> dirty then tm_ret (False, n)
            else tm_bind (tm_go (set_child cs (hd key) nn)) (\<lambda>cs. tm_ret (True, Some (FullNode cs newFlag)))))
      | None \<Rightarrow>
          tm_bind (tm_trace (onInsert prefix)) (\<lambda>_. tm_ret (True, Some (ShortNode key value newFlag)))
      | Some (HashNode h) \<Rightarrow>
          tm_bind (resolveAndTrack rd h prefix) (\<lambda>rn.
          tm_bind (trie_insert fuel rd (Some rn) prefix key value) (\<lambda>(dirty, nn).
            if \<not> dirty then tm_ret (False, Some rn) else tm_ret (True, nn)))
      | Some (ValueNode v) \<Rightarrow> tm_go (Panic InvalidNode))"

section \<open>Deletion\<close>

text \<open>The loop that looks for the single child: -1 none so far, -2 more than one.\<close>

fun single_child :: "tnode option list \<Rightarrow> nat \<Rightarrow> int \<Rightarrow> int" where
  "single_child [] i pos = pos"
| "single_child (cld # cs) i pos =
     (if cld \<noteq> None then (if pos = -1 then single_child cs (i + 1) (int i) else -2)
      else single_child cs (i + 1) pos)"

text \<open>The reduction of a full node whose child was deleted.\<close>

definition reduce_full :: "trieReader \<Rightarrow> bytes \<Rightarrow> tnode option list \<Rightarrow> (bool \<times> tnode option) tstep" where
  "reduce_full rd prefix cs =
     (let n' = Some (FullNode cs newFlag); pos = single_child cs 0 (-1) in
      if pos \<ge> 0 then
        (let pos = nat pos; last_child = cs ! pos; one_nibble = Some (ShortNode [word_of_nat pos] last_child newFlag) in
         if pos \<noteq> 16 then
           tm_bind (resolve rd last_child (prefix @ [word_of_nat pos])) (\<lambda>cnode.
             case cnode of
               Some (ShortNode ck cval cfl) \<Rightarrow>
                 tm_bind (tm_trace (onDelete (prefix @ [word_of_nat pos]))) (\<lambda>_.
                   tm_ret (True, Some (ShortNode (word_of_nat pos # ck) cval newFlag)))
             | _ \<Rightarrow> tm_ret (True, one_nibble))
         else tm_ret (True, one_nibble))
      else tm_ret (True, n'))"

primrec trie_delete :: "nat \<Rightarrow> trieReader \<Rightarrow> tnode option \<Rightarrow> bytes \<Rightarrow> bytes \<Rightarrow> (bool \<times> tnode option) tstep" where
  "trie_delete 0 rd n prefix key = (\<lambda>_. OutOfFuel)"
| "trie_delete (Suc fuel) rd n prefix key =
     (case n of
        Some (ShortNode k val fl) \<Rightarrow>
          (let matchlen = prefixLen key k in
           if matchlen < length k then tm_ret (False, n)
           else if matchlen = length key then
             tm_bind (tm_trace (onDelete prefix)) (\<lambda>_. tm_ret (True, None))
           else
             tm_bind (trie_delete fuel rd val (prefix @ take (length k) key) (drop (length k) key)) (\<lambda>(dirty, cld).
               if \<not> dirty then tm_ret (False, n)
               else case cld of
                 Some (ShortNode ck cval cfl) \<Rightarrow>
                   tm_bind (tm_trace (onDelete (prefix @ k))) (\<lambda>_. tm_ret (True, Some (ShortNode (k @ ck) cval newFlag)))
               | _ \<Rightarrow> tm_ret (True, Some (ShortNode k cld newFlag))))
      | Some (FullNode cs fl) \<Rightarrow>
          tm_bind (tm_go (go_bind (nth_go key 0) (child cs))) (\<lambda>c.
          tm_bind (trie_delete fuel rd c (prefix @ [hd key]) (tl key)) (\<lambda>(dirty, nn).
            if \<not> dirty then tm_ret (False, n)
            else tm_bind (tm_go (set_child cs (hd key) nn)) (\<lambda>cs.
              if nn \<noteq> None then tm_ret (True, Some (FullNode cs newFlag)) else reduce_full rd prefix cs)))
      | Some (ValueNode v) \<Rightarrow> tm_ret (True, None)
      | None \<Rightarrow> tm_ret (False, None)
      | Some (HashNode h) \<Rightarrow>
          tm_bind (resolveAndTrack rd h prefix) (\<lambda>rn.
          tm_bind (trie_delete fuel rd (Some rn) prefix key) (\<lambda>(dirty, nn).
            if \<not> dirty then tm_ret (False, Some rn) else tm_ret (True, nn))))"

section \<open>The trie\<close>

record trie =
  t_root :: "tnode option"
  t_owner :: hash
  t_committed :: bool
  t_unhashed :: nat
  t_reader :: trieReader
  t_tracer :: tracer

record trie_id =
  id_StateRoot :: hash
  id_Owner :: hash
  id_Root :: hash

definition trie_New :: "trie_id \<Rightarrow> trie_database \<Rightarrow> (trie_error + trie) go" where
  "trie_New i db =
     (case newTrieReader (id_StateRoot i) (id_Owner i) db of
        Inl err \<Rightarrow> Ret (Inl err)
      | Inr reader \<Rightarrow>
          let t = \<lparr>t_root = None, t_owner = id_Owner i, t_committed = False, t_unhashed = 0, t_reader = reader, t_tracer = newTracer\<rparr> in
          if id_Root i \<noteq> 0 \<and> id_Root i \<noteq> EmptyRootHash then
            go_bind (resolveAndTrack reader (Bytes32 (id_Root i)) [] newTracer) (\<lambda>(r, tracer).
            case r of Inl err \<Rightarrow> Ret (Inl err)
            | Inr rootnode \<Rightarrow> Ret (Inr (t\<lparr>t_root := Some rootnode, t_tracer := tracer\<rparr>)))
          else Ret (Inr t))"

definition trie_Copy :: "trie \<Rightarrow> trie" where
  "trie_Copy t = t"

definition trie_Reset :: "trie \<Rightarrow> trie" where
  "trie_Reset t = t\<lparr>t_root := None, t_owner := 0, t_unhashed := 0, t_tracer := tracer_reset (t_tracer t), t_committed := False\<rparr>"

definition trie_Get :: "nat \<Rightarrow> bytes \<Rightarrow> trie \<Rightarrow> ((trie_error + bytes option) \<times> trie) go" where
  "trie_Get fuel key t =
     (if t_committed t then Ret (Inl ErrCommitted, t)
      else go_bind (trie_get fuel (t_reader t) (t_root t) (keybytesToHex key) 0 (t_tracer t)) (\<lambda>(r, tracer).
        let t = t\<lparr>t_tracer := tracer\<rparr> in
        case r of Inl err \<Rightarrow> Ret (Inl err, t)
        | Inr (value, newroot, didResolve) \<Rightarrow> Ret (Inr value, if didResolve then t\<lparr>t_root := newroot\<rparr> else t)))"

definition trie_GetNode :: "nat \<Rightarrow> bytes \<Rightarrow> trie \<Rightarrow> ((trie_error + bytes option \<times> nat) \<times> trie) go" where
  "trie_GetNode fuel path t =
     (if t_committed t then Ret (Inl ErrCommitted, t)
      else go_bind (compactToHex path) (\<lambda>hex.
        go_bind (trie_getNode fuel (t_reader t) (t_root t) hex 0 (t_tracer t)) (\<lambda>(r, tracer).
        let t = t\<lparr>t_tracer := tracer\<rparr> in
        case r of Inl err \<Rightarrow> Ret (Inl err, t)
        | Inr (item, newroot, resolved) \<Rightarrow>
            Ret (Inr (item, resolved), if resolved > 0 then t\<lparr>t_root := newroot\<rparr> else t))))"

definition trie_run :: "(bool \<times> tnode option) tstep \<Rightarrow> trie \<Rightarrow> (trie_error option \<times> trie) go" where
  "trie_run m t = go_bind (m (t_tracer t)) (\<lambda>(r, tracer).
     let t = t\<lparr>t_tracer := tracer\<rparr> in
     case r of Inl err \<Rightarrow> Ret (Some err, t) | Inr (_, n) \<Rightarrow> Ret (None, t\<lparr>t_root := n\<rparr>))"

definition trie_update :: "nat \<Rightarrow> bytes \<Rightarrow> bytes \<Rightarrow> trie \<Rightarrow> (trie_error option \<times> trie) go" where
  "trie_update fuel key value t =
     (let t = t\<lparr>t_unhashed := t_unhashed t + 1\<rparr>; k = keybytesToHex key in
      if length value \<noteq> 0 then trie_run (trie_insert fuel (t_reader t) (t_root t) [] k (Some (ValueNode value))) t
      else trie_run (trie_delete fuel (t_reader t) (t_root t) [] k) t)"

definition trie_Update :: "nat \<Rightarrow> bytes \<Rightarrow> bytes \<Rightarrow> trie \<Rightarrow> (trie_error option \<times> trie) go" where
  "trie_Update fuel key value t = (if t_committed t then Ret (Some ErrCommitted, t) else trie_update fuel key value t)"

definition trie_Delete :: "nat \<Rightarrow> bytes \<Rightarrow> trie \<Rightarrow> (trie_error option \<times> trie) go" where
  "trie_Delete fuel key t =
     (if t_committed t then Ret (Some ErrCommitted, t)
      else let t = t\<lparr>t_unhashed := t_unhashed t + 1\<rparr>
        in trie_run (trie_delete fuel (t_reader t) (t_root t) [] (keybytesToHex key)) t)"

section \<open>What a node stands for\<close>

text \<open>
  A tree is stored if the reader gives, at the path and hash of every subtree that is big enough to be
  stored by itself, its encoding. \<open>m\<close> is the least size: 32 bytes for a child, nothing for the root.
\<close>

fun stored :: "(bytes \<Rightarrow> hash) \<Rightarrow> trieReader \<Rightarrow> nat \<Rightarrow> bytes \<Rightarrow> ptree \<Rightarrow> bool" where
  "stored K rd m p (PShort s t) \<longleftrightarrow>
     (m \<le> length (p_enc K (PShort s t)) \<longrightarrow> reader_node rd p (K (p_enc K (PShort s t))) = Inr (p_enc K (PShort s t))) \<and>
     stored K rd 32 (p @ s) t"
| "stored K rd m p (PFull ts) \<longleftrightarrow>
     (m \<le> length (p_enc K (PFull ts)) \<longrightarrow> reader_node rd p (K (p_enc K (PFull ts))) = Inr (p_enc K (PFull ts))) \<and>
     (\<forall>i<length ts. stored K rd 32 (p @ [word_of_nat i]) (ts ! i))"
| "stored K rd m p t \<longleftrightarrow> True"

text \<open>
  A hash that is kept with a node is right, and if the node is clean its tree is stored. A clean node
  without a hash was embedded in its parent.
\<close>

definition cached :: "(bytes \<Rightarrow> hash) \<Rightarrow> trieReader \<Rightarrow> nat \<Rightarrow> bytes \<Rightarrow> nodeFlag \<Rightarrow> ptree \<Rightarrow> bool" where
  "cached K rd m p fl t \<longleftrightarrow> (case nf_hash fl of
     None \<Rightarrow> \<not> nf_dirty fl \<longrightarrow> m = 32 \<and> length (p_enc K t) < 32
   | Some h \<Rightarrow> h = Bytes32 (K (p_enc K t)) \<and> m \<le> length (p_enc K t) \<and> (\<not> nf_dirty fl \<longrightarrow> stored K rd m p t))"

inductive loads :: "(bytes \<Rightarrow> hash) \<Rightarrow> trieReader \<Rightarrow> nat \<Rightarrow> bytes \<Rightarrow> tnode option \<Rightarrow> ptree \<Rightarrow> bool" for K rd where
  loads_nil: "loads K rd m p None PNil"
| loads_value: "loads K rd m p (Some (ValueNode v)) (PValue v)"
| loads_short: "loads K rd 32 (p @ s) c t \<Longrightarrow> cached K rd m p fl (PShort s t) \<Longrightarrow>
    loads K rd m p (Some (ShortNode s c fl)) (PShort s t)"
| loads_full: "length cs = length ts \<Longrightarrow> \<forall>i<length ts. loads K rd 32 (p @ [word_of_nat i]) (cs ! i) (ts ! i) \<Longrightarrow>
    cached K rd m p fl (PFull ts) \<Longrightarrow> loads K rd m p (Some (FullNode cs fl)) (PFull ts)"
| loads_hash: "p_node t \<Longrightarrow> h = Bytes32 (K (p_enc K t)) \<Longrightarrow> 32 \<le> length (p_enc K t) \<Longrightarrow> m \<le> length (p_enc K t) \<Longrightarrow>
    m \<le> 32 \<Longrightarrow> stored K rd 32 p t \<Longrightarrow> loads K rd m p (Some (HashNode h)) t"

inductive_cases loads_NoneE: "loads K rd m p None t"
inductive_cases loads_ValueE: "loads K rd m p (Some (ValueNode v)) t"
inductive_cases loads_ShortE: "loads K rd m p (Some (ShortNode s c fl)) t"
inductive_cases loads_FullE: "loads K rd m p (Some (FullNode cs fl)) t"
inductive_cases loads_HashE: "loads K rd m p (Some (HashNode h)) t"
inductive_cases loads_PNilE: "loads K rd m p n PNil"
inductive_cases loads_PValueE: "loads K rd m p n (PValue v)"
inductive_cases loads_PShortE: "loads K rd m p n (PShort s t)"
inductive_cases loads_PFullE: "loads K rd m p n (PFull ts)"

lemma cached_new [simp]: "cached K rd m p newFlag t"
  by (simp add: cached_def newFlag_def)

lemma loads_None: "loads K rd m p n t \<Longrightarrow> n = None \<longleftrightarrow> t = PNil"
  by (auto elim: loads.cases)

lemma loads_value_iff: "loads K rd m p n (PValue v) \<longleftrightarrow> n = Some (ValueNode v)"
  by (auto elim: loads_PValueE intro: loads.intros)

text \<open>A stored tree is loaded by its decoded node.\<close>

lemma stored_mono: "stored K rd m p t \<Longrightarrow> m \<le> m' \<Longrightarrow> stored K rd m' p t"
  by (cases t) auto

lemma dec_loads:
  "pwf t \<Longrightarrow> p_node t \<Longrightarrow> stored K rd 32 p t \<Longrightarrow> m \<le> 32 \<Longrightarrow>
   h = None \<and> m = 32 \<and> length (p_enc K t) < 32 \<or> h = Some (Bytes32 (K (p_enc K t))) \<and> m \<le> length (p_enc K t) \<and> stored K rd m p t \<Longrightarrow>
   loads K rd m p (dec_node K t h) t"
proof (induction t arbitrary: p m h rule: pwf.induct)
  case pwf_nil
  then show ?case by simp
next
  case (pwf_leaf s v)
  then show ?case by (auto intro!: loads_short loads_value simp: cached_def)
next
  case (pwf_ext s ts)
  have "loads K rd 32 (p @ s) (dec_ref K (PFull ts)) (PFull ts)"
    using pwf_ext.IH [of "p @ s" 32 None] pwf_ext.prems(2) by (auto simp: dec_ref_def intro!: loads_hash simp del: dec_node_simps(2))
  then show ?case using pwf_ext.prems(4) by (auto intro!: loads_short simp: cached_def)
next
  case (pwf_full ts)
  have "loads K rd 32 (p @ [word_of_nat i]) (dec_ref K (ts ! i)) (ts ! i)" if "i < length ts" for i
  proof -
    have st: "stored K rd 32 (p @ [word_of_nat i]) (ts ! i)" using pwf_full.prems(2) that by simp
    show ?thesis
    proof (cases "i < 16")
      case True
      then have "pwf (ts ! i)" using pwf_full.IH by blast
      then consider "ts ! i = PNil" | "p_node (ts ! i)" using pwf_node by blast
      then show ?thesis
      proof cases
        case 2
        show ?thesis
        proof (cases "length (p_enc K (ts ! i)) < 32")
          case small: True
          then have "loads K rd 32 (p @ [word_of_nat i]) (dec_node K (ts ! i) None) (ts ! i)"
            using pwf_full.IH True 2 st by blast
          then show ?thesis using small by (simp add: dec_ref_def)
        qed (use 2 st in \<open>auto simp: dec_ref_def intro!: loads_hash\<close>)
      qed (simp add: loads_nil)
    next
      case False
      then have "i = 16" using that pwf_full.hyps by simp
      then show ?thesis using pwf_full.hyps by (auto simp: p_value_def intro: loads.intros)
    qed
  qed
  then show ?case using pwf_full.prems(4) by (auto intro!: loads_full simp: cached_def)
qed

section \<open>Steps of the model\<close>

lemma tm_simps [simp]:
  "tm_bind (tm_ret x) f = f x" "tm_go (Ret x) = tm_ret x" "tm_bind (tm_bind m f) g = tm_bind m (\<lambda>x. tm_bind (f x) g)"
  "tm_bind (tm_trace h) k tr = k () (h tr)"
  by (auto simp: tm_ret_def tm_go_def tm_bind_def tm_trace_def fun_eq_iff go_bind_assoc case_prod_beta
      intro!: go_bind_cong split: sum.splits)

lemma tm_bind_Inr: "m tr = Ret (Inr x, tr') \<Longrightarrow> tm_bind m f tr = f x tr'"
  by (simp add: tm_bind_def)

definition is_hash :: "tnode option \<Rightarrow> bool" where
  "is_hash n \<longleftrightarrow> (\<exists>h. n = Some (HashNode h))"

lemma is_hash_simps [simp]:
  "\<not> is_hash None" "is_hash (Some (HashNode h))" "\<not> is_hash (Some (ValueNode v))"
  "\<not> is_hash (Some (ShortNode s c fl))" "\<not> is_hash (Some (FullNode cs fl))"
  by (simp_all add: is_hash_def)

lemma p_small_length: "p_small K t \<Longrightarrow> p_node t \<Longrightarrow> length (p_enc K t) < 2 ^ 62"
  by (cases t) auto

lemma stored_read:
  assumes "stored K rd 32 p t" "p_node t" "32 \<le> length (p_enc K t)"
  shows "reader_node rd p (K (p_enc K t)) = Inr (p_enc K t) \<and> stored K rd m p t"
  using assms by (cases t) auto

lemma resolve_ok:
  assumes "loads K rd m p (Some (HashNode h)) t" "pwf t" "p_small K t"
  obtains n tr' where "resolveAndTrack rd h p tr = Ret (Inr n, tr')" "loads K rd m p (Some n) t" "\<not> is_hash (Some n)"
proof -
  from assms(1) have t: "p_node t" "h = Bytes32 (K (p_enc K t))" "32 \<le> length (p_enc K t)" "m \<le> length (p_enc K t)" "m \<le> 32"
    "stored K rd 32 p t" by (auto elim: loads_HashE)
  have r: "reader_node rd p (SetBytes h) = Inr (p_enc K t)" using stored_read t by (simp add: SetBytes_Bytes32)
  have "length (p_enc K t) < 2 ^ 63" using p_small_length [OF assms(3) t(1)] by simp
  then have d: "decodeNode (Some h) (p_enc K t) = Ret (Inr (the (dec_node K t (Some h))))"
    using decodeNode_dec assms(2) t(1) by blast
  have "loads K rd m p (dec_node K t (Some h)) t" using assms(2) t stored_read by (intro dec_loads) auto
  moreover obtain nd where nd: "dec_node K t (Some h) = Some nd" "\<not> is_hash (Some nd)" using t(1) by (cases t) auto
  moreover have "resolveAndTrack rd h p tr = Ret (Inr nd, onRead p (p_enc K t) tr)"
    using r d nd(1) by (simp add: resolveAndTrack_def Let_def mustDecodeNode_def)
  ultimately show thesis using that by simp
qed

section \<open>Lookup\<close>

lemma full_child:
  assumes "loads K rd m p (Some (FullNode cs fl)) (PFull ts)" "pwf (PFull ts)" "full_key (x # k)"
  shows "child cs x = Ret (cs ! unat x)" "loads K rd 32 (p @ [x]) (cs ! unat x) (ts ! unat x)" "unat x < length cs"
proof -
  have l: "length cs = length ts" "\<forall>i<length ts. loads K rd 32 (p @ [word_of_nat i]) (cs ! i) (ts ! i)"
    using assms(1) by (auto elim: loads_FullE)
  have x: "unat x < length ts" using fits_child assms(2,3) by blast
  then show "child cs x = Ret (cs ! unat x)" "unat x < length cs" using l by (simp_all add: child_def nth_go_def)
  show "loads K rd 32 (p @ [x]) (cs ! unat x) (ts ! unat x)" using l(2) [rule_format, OF x] by simp
qed

lemma full_set_child:
  assumes "loads K rd m p (Some (FullNode cs fl)) (PFull ts)" "unat x < length cs" "loads K rd 32 (p @ [x]) c t"
    "cached K rd m p fl' (PFull (ts[unat x := t]))"
  shows "set_child cs x c = Ret (cs[unat x := c]) \<and> loads K rd m p (Some (FullNode (cs[unat x := c]) fl')) (PFull (ts[unat x := t]))"
proof -
  have l: "length cs = length ts" "\<forall>i<length ts. loads K rd 32 (p @ [word_of_nat i]) (cs ! i) (ts ! i)"
    using assms(1) by (auto elim: loads_FullE)
  then show ?thesis using assms(2-4) by (auto simp: set_child_def nth_list_update intro!: loads_full)
qed

lemma trie_get_ok:
  assumes "loads K rd m p n t" "fits t k" "p_small K t" "2 * length k + (if is_hash n then 1 else 0) < fuel"
  shows "\<exists>n' r tr'. trie_get fuel rd n (p @ k) (length p) tr = Ret (Inr (p_get t k, n', r), tr') \<and> loads K rd m p n' t \<and> (\<not> r \<longrightarrow> n' = n)"
  using assms
proof (induction fuel arbitrary: m p n t k tr)
  case (Suc fuel)
  show ?case
  proof (cases n)
    case None
    then have "t = PNil" using Suc.prems(1) loads_None by blast
    then show ?thesis using None by (auto simp: tm_ret_def intro: loads.intros)
  next
    case (Some nd)
    show ?thesis
    proof (cases nd)
      case (ValueNode v)
      then have "t = PValue v" using Suc.prems(1) Some by (auto elim: loads_ValueE)
      moreover from this have "k = []" using Suc.prems(2) by (auto simp: fits_def p_value_def split: if_splits)
      ultimately show ?thesis using Some ValueNode by (auto simp: tm_ret_def intro: loads.intros)
    next
      case (ShortNode s c fl)
      then obtain u where t: "t = PShort s u" and u: "loads K rd 32 (p @ s) c u" and fl: "cached K rd m p fl t"
        using Suc.prems(1) Some by (auto elim: loads_ShortE)
      have k: "full_key k" "pwf (PShort s u)" using Suc.prems(2) t by (auto simp: fits_def p_value_def split: if_splits)
      show ?thesis
      proof (cases "\<exists>r. k = s @ r")
        case True
        then obtain r where r: "k = s @ r" by blast
        have s: "s \<noteq> []" using k(2) by auto
        have "fits u r" using fits_short k r by blast
        moreover have "2 * length r + (if is_hash c then 1 else 0) < fuel"
          using Suc.prems(4) r s Some ShortNode by (cases s) (auto split: if_splits)
        ultimately obtain n' rs tr' where g: "trie_get fuel rd c ((p @ s) @ r) (length (p @ s)) tr = Ret (Inr (p_get u r, n', rs), tr')"
          "loads K rd 32 (p @ s) n' u" "\<not> rs \<longrightarrow> n' = c"
          using Suc.IH [OF u, of r tr] Suc.prems(3) t by auto
        have "loads K rd m p (Some (ShortNode s n' fl)) t" using g(2) fl t loads_short by blast
        then show ?thesis using g Some ShortNode t r by (auto simp: tm_bind_Inr [where x = "(p_get u r, n', rs)"] tm_ret_def)
      next
        case False
        then have "length k < length s \<or> s \<noteq> take (length s) k" using take_prefix_iff by metis
        moreover have "p_get t k = None" using False t by (auto simp: p_get_short simp del: p_get.simps)
        ultimately show ?thesis using Some ShortNode Suc.prems(1) by (auto simp: tm_ret_def)
      qed
    next
      case (FullNode cs fl)
      then obtain ts where t: "t = PFull ts" and fl: "cached K rd m p fl t" using Suc.prems(1) Some by (auto elim: loads_FullE)
      have k: "full_key k" "pwf (PFull ts)" using Suc.prems(2) t by (auto simp: fits_def p_value_def split: if_splits)
      then obtain x r where r: "k = x # r" by (cases k) auto
      note lf = Suc.prems(1) [unfolded Some FullNode t]
      note c = full_child [OF lf k(2) k(1) [unfolded r]]
      have f: "unat x < length ts" "fits (ts ! unat x) r" using fits_child k r by blast+
      have "2 * length r + (if is_hash (cs ! unat x) then 1 else 0) < fuel" using Suc.prems(4) r Some FullNode by auto
      then obtain n' rs tr' where g: "trie_get fuel rd (cs ! unat x) ((p @ [x]) @ r) (length (p @ [x])) tr = Ret (Inr (p_get (ts ! unat x) r, n', rs), tr')"
        "loads K rd 32 (p @ [x]) n' (ts ! unat x)" "\<not> rs \<longrightarrow> n' = cs ! unat x"
        using Suc.IH [OF c(2) f(2), of tr] Suc.prems(3) f(1) t by auto
      have sc: "set_child cs x n' = Ret (cs[unat x := n']) \<and> loads K rd m p (Some (FullNode (cs[unat x := n']) fl)) t"
        using full_set_child [OF lf c(3) g(2)] fl t by simp
      have "nth_go (p @ k) (length p) = Ret x" by (simp add: nth_go_def r)
      then show ?thesis using g sc Some FullNode t r c f lf
        by (auto simp: tm_bind_Inr [where x = "(p_get (ts ! unat x) r, n', rs)"] tm_ret_def)
    next
      case (HashNode h)
      have w: "pwf t" using Suc.prems(1,2) Some HashNode by (auto simp: fits_def p_value_def elim!: loads_HashE split: if_splits)
      obtain n0 tr0 where r: "resolveAndTrack rd h p tr = Ret (Inr n0, tr0)" "loads K rd m p (Some n0) t" "\<not> is_hash (Some n0)"
        using resolve_ok [OF _ w Suc.prems(3), of rd m p h tr] Suc.prems(1) Some HashNode by blast
      then obtain n' rs tr' where g: "trie_get fuel rd (Some n0) (p @ k) (length p) tr0 = Ret (Inr (p_get t k, n', rs), tr')" "loads K rd m p n' t"
        using Suc.IH [OF r(2) Suc.prems(2,3), of tr0] Suc.prems(4) Some HashNode by auto
      then show ?thesis using r Some HashNode by (auto simp: tm_bind_Inr tm_ret_def)
    qed
  qed
qed simp

section \<open>Insertion\<close>

lemma insert_None:
  "trie_insert (Suc f) rd None q s c tr =
     (if s = [] then Ret (Inr (True, c), tr) else Ret (Inr (True, Some (ShortNode s c newFlag)), onInsert q tr))"
  by (simp add: tm_ret_def)

lemma insert_None_ex:
  "\<exists>tr'. trie_insert (Suc f) rd None q s c tr = Ret (Inr (True, if s = [] then c else Some (ShortNode s c newFlag)), tr')"
  unfolding insert_None by simp

lemma loads_leaf:
  "loads K rd 32 (q @ s) c t \<Longrightarrow> loads K rd 32 q (if s = [] then c else Some (ShortNode s c newFlag)) (p_leaf s t)"
  by (auto simp: p_leaf_def intro: loads_short)

lemma branch_loads:
  assumes "x \<noteq> y" "unat x < 17" "unat y < 17" "loads K rd 32 (q @ [x]) c t" "loads K rd 32 (q @ [y]) d u"
  shows "set_child (replicate 17 None) x c = Ret ((replicate 17 None)[unat x := c])"
    "set_child ((replicate 17 None)[unat x := c]) y d = Ret ((replicate 17 None)[unat x := c, unat y := d])"
    "loads K rd m q (Some (FullNode ((replicate 17 None)[unat x := c, unat y := d]) newFlag))
       (PFull ((replicate 17 PNil)[unat x := t, unat y := u]))"
  using assms by (auto simp: set_child_def nth_list_update word_unat_eq_iff intro!: loads_full loads_nil)

text \<open>Where a key leaves a short node.\<close>

lemma short_parts:
  assumes "full_key k" "pwf (PShort s t)" "prefixLen k s \<noteq> length s"
  obtains a x y sr kr where "k = a @ y # kr" "s = a @ x # sr" "x \<noteq> y" "unat x < 17" "unat y < 17" "prefixLen k s = length a"
proof -
  define m where "m = prefixLen k s"
  have m: "m < length s" using prefixLen_le(2) [of k s] assms(3) by (simp add: m_def)
  have "s \<noteq> []" "full_key s \<or> is_nibbles s" using assms(2) by auto
  note p = parting [OF assms(1) this m [unfolded m_def] refl, folded m_def]
  have "m = length (take m s)" using m by simp
  then show thesis using that [OF p(3,4) p(2) [symmetric] p(6,5)] by (simp add: m_def)
qed

lemma trie_insert_ok:
  assumes "loads K rd m p n t" "fits t k" "p_small K t" "2 * length k + (if is_hash n then 1 else 0) < fuel"
  shows "\<exists>d n' tr'. trie_insert fuel rd n p k (Some (ValueNode v)) tr = Ret (Inr (d, n'), tr') \<and>
    loads K rd m p n' (p_insert t k v) \<and> (\<not> d \<longrightarrow> p_insert t k v = t)"
  using assms
proof (induction fuel arbitrary: m p n t k tr)
  case (Suc fuel)
  show ?case
  proof (cases "k = []")
    case True
    then consider "n = None" "t = PNil" | w where "n = Some (ValueNode w)" "t = PValue w"
      using Suc.prems(1,2) by (auto simp: fits_def p_value_def elim: loads_PNilE loads_PValueE)
    then show ?thesis
      using True by cases (auto simp: value_eq_def tm_ret_def p_leaf_def intro: loads.intros)
  next
    case ne: False
    have fk: "full_key k" "pwf t" using Suc.prems(2) ne by (simp_all add: fits_def)
    show ?thesis
    proof (cases n)
      case None
      then have "t = PNil" using Suc.prems(1) loads_None by blast
      then show ?thesis using None ne by (auto simp: tm_ret_def p_leaf_def intro: loads.intros loads_short [OF _ cached_new])
    next
      case (Some nd)
      show ?thesis
      proof (cases nd)
        case (ValueNode w)
        then show ?thesis using Suc.prems(1) fk Some by (auto elim: loads_ValueE)
      next
        case (ShortNode s c fl)
        then obtain u where t: "t = PShort s u" and u: "loads K rd 32 (p @ s) c u" using Suc.prems(1) Some by (auto elim: loads_ShortE)
        show ?thesis
        proof (cases "prefixLen k s = length s")
          case True
          then obtain r where r: "k = s @ r" by (metis prefixLen_eq append_take_drop_id)
          have s: "s \<noteq> []" using fk(2) t by auto
          have "fits u r" using fits_short fk t r by blast
          moreover have "2 * length r + (if is_hash c then 1 else 0) < fuel"
            using Suc.prems(4) r s Some ShortNode by (cases s) (auto split: if_splits)
          ultimately obtain d n' tr' where g: "trie_insert fuel rd c (p @ s) r (Some (ValueNode v)) tr = Ret (Inr (d, n'), tr')"
            "loads K rd 32 (p @ s) n' (p_insert u r v)" "\<not> d \<longrightarrow> p_insert u r v = u"
            using Suc.IH [OF u, of r tr] Suc.prems(3) t by auto
          have "loads K rd m p (Some (ShortNode s n' newFlag)) (PShort s (p_insert u r v))" using g(2) by (auto intro: loads_short)
          then show ?thesis using g Some ShortNode t r True ne s Suc.prems(1)
            by (cases d) (auto simp: tm_bind_Inr tm_ret_def Let_def)
        next
          case False
          obtain a x y sr kr where d: "k = a @ y # kr" "s = a @ x # sr" "x \<noteq> y" "unat x < 17" "unat y < 17" "prefixLen k s = length a"
            using short_parts fk False t by metis
          obtain f where f: "fuel = Suc f" using Suc.prems(4) ne by (cases fuel; cases k) auto
          let ?c = "if sr = [] then c else Some (ShortNode sr c newFlag)"
          let ?d = "if kr = [] then Some (ValueNode v) else Some (ShortNode kr (Some (ValueNode v)) newFlag)"
          have "loads K rd 32 ((p @ a @ [x]) @ sr) c u" using u d(2) by simp
          note b = branch_loads [OF d(3-5), of K rd "p @ a", simplified,
            OF loads_leaf [OF this, simplified] loads_leaf [of K rd "p @ a @ [y]" kr "Some (ValueNode v)" "PValue v", OF loads_value, simplified]]
          have eq: "p_insert t k v = p_leaf a (PFull ((replicate 17 PNil)[unat x := p_leaf sr u, unat y := p_leaf kr (PValue v)]))"
            using d(6) t by (simp add: d(1,2) Let_def nth_append)
          let ?cs = "(replicate 17 None)[unat x := ?c, unat y := ?d]"
          obtain tr1 where i1: "trie_insert fuel rd None (p @ a @ [x]) sr c tr = Ret (Inr (True, ?c), tr1)" unfolding f using insert_None_ex by blast
          obtain tr2 where i2: "trie_insert fuel rd None (p @ a @ [y]) kr (Some (ValueNode v)) tr1 = Ret (Inr (True, ?d), tr2)"
            unfolding f using insert_None_ex by blast
          have "nth_go s (length a) = Ret x" "nth_go k (length a) = Ret y" "length s \<noteq> length a" by (simp_all add: nth_go_def d(1,2))
          then obtain tr' where run: "trie_insert (Suc fuel) rd n p k (Some (ValueNode v)) tr =
              Ret (Inr (True, if a = [] then Some (FullNode ?cs newFlag) else Some (ShortNode a (Some (FullNode ?cs newFlag)) newFlag)), tr')"
            using Some ShortNode ne d(6) i1 i2 b(1,2)
            by (cases "a = []") (simp_all add: d(1,2) Let_def tm_bind_Inr tm_ret_def)
          have "loads K rd m p (if a = [] then Some (FullNode ?cs newFlag) else Some (ShortNode a (Some (FullNode ?cs newFlag)) newFlag)) (p_insert t k v)"
            unfolding eq using b(3) by (auto simp: p_leaf_def intro!: loads_short)
          then show ?thesis using run by blast
        qed
      next
        case (FullNode cs fl)
        then obtain ts where t: "t = PFull ts" using Suc.prems(1) Some by (auto elim: loads_FullE)
        obtain x r where r: "k = x # r" using ne by (cases k) auto
        note lf = Suc.prems(1) [unfolded Some FullNode t]
        note c = full_child [OF lf fk(2) [unfolded t] fk(1) [unfolded r]]
        have f: "unat x < length ts" "fits (ts ! unat x) r" using fits_child fk r t by blast+
        have "2 * length r + (if is_hash (cs ! unat x) then 1 else 0) < fuel" using Suc.prems(4) r Some FullNode by auto
        then obtain d n' tr' where g: "trie_insert fuel rd (cs ! unat x) (p @ [x]) r (Some (ValueNode v)) tr = Ret (Inr (d, n'), tr')"
          "loads K rd 32 (p @ [x]) n' (p_insert (ts ! unat x) r v)" "\<not> d \<longrightarrow> p_insert (ts ! unat x) r v = ts ! unat x"
          using Suc.IH [OF c(2) f(2), of tr] Suc.prems(3) f(1) t by auto
        have "set_child cs x n' = Ret (cs[unat x := n']) \<and> loads K rd m p (Some (FullNode (cs[unat x := n']) newFlag)) (PFull (ts[unat x := p_insert (ts ! unat x) r v]))"
          by (rule full_set_child [OF lf c(3) g(2) cached_new])
        then show ?thesis using g Some FullNode t r c f Suc.prems(1)
          by (cases d) (auto simp: tm_bind_Inr tm_ret_def)
      next
        case (HashNode h)
        obtain n0 tr0 where r: "resolveAndTrack rd h p tr = Ret (Inr n0, tr0)" "loads K rd m p (Some n0) t" "\<not> is_hash (Some n0)"
          using resolve_ok [OF _ fk(2) Suc.prems(3), of rd m p h tr] Suc.prems(1) Some HashNode by blast
        then obtain d n' tr' where g: "trie_insert fuel rd (Some n0) p k (Some (ValueNode v)) tr0 = Ret (Inr (d, n'), tr')"
          "loads K rd m p n' (p_insert t k v)" "\<not> d \<longrightarrow> p_insert t k v = t"
          using Suc.IH [OF r(2) Suc.prems(2,3), of tr0] Suc.prems(4) Some HashNode by auto
        then show ?thesis using r Some HashNode ne by (cases d) (auto simp: tm_bind_Inr tm_ret_def)
      qed
    qed
  qed
qed simp

section \<open>Deletion\<close>

lemma single_child_found: "0 \<le> pos \<Longrightarrow> single_child cs i pos = (if \<forall>c \<in> set cs. c = None then pos else -2)"
  by (induction cs arbitrary: i) auto

lemma single_child_one:
  "j < length cs \<Longrightarrow> cs ! j \<noteq> None \<Longrightarrow> \<forall>l<length cs. l \<noteq> j \<longrightarrow> cs ! l = None \<Longrightarrow> single_child cs i (-1) = int (i + j)"
proof (induction cs arbitrary: i j)
  case (Cons c cs)
  show ?case
  proof (cases j)
    case 0
    have "cs ! l = None" if "l < length cs" for l using Cons.prems(3) [rule_format, of "Suc l"] that 0 by simp
    then have "\<forall>c \<in> set cs. c = None" by (auto simp: in_set_conv_nth)
    then show ?thesis using 0 Cons.prems(2) by (simp add: single_child_found)
  next
    case (Suc j')
    then have "c = None" "\<forall>l<length cs. l \<noteq> j' \<longrightarrow> cs ! l = None" using Cons.prems(3) by auto
    then show ?thesis using Cons.IH [of j' "i + 1"] Cons.prems Suc by simp
  qed
qed simp

lemma single_child_two:
  "a < b \<Longrightarrow> b < length cs \<Longrightarrow> cs ! a \<noteq> None \<Longrightarrow> cs ! b \<noteq> None \<Longrightarrow> single_child cs i (-1) = -2"
proof (induction cs arbitrary: i a b)
  case (Cons c cs)
  then obtain b' where b: "b = Suc b'" by (cases b) auto
  then have some: "\<not> (\<forall>c \<in> set cs. c = None)" using Cons.prems(2,4) by (metis Suc_less_eq length_Cons nth_Cons_Suc nth_mem)
  show ?case
  proof (cases a)
    case 0
    then show ?thesis using some Cons.prems(3) by (simp add: single_child_found)
  next
    case (Suc a')
    then show ?thesis using Cons.IH [of a' b' "i + 1"] Cons.prems b some by (cases "c = None") (auto simp: single_child_found)
  qed
qed simp

lemma p_reduce_id:
  assumes "pwf (PFull ts)"
  shows "p_reduce ts = PFull ts"
proof -
  have l: "length ts = 17" using assms by (simp add: pwf_PFull)
  obtain i j where ij: "i < j" "j < 17" "ts ! i \<noteq> PNil" "ts ! j \<noteq> PNil" using assms by (auto simp: pwf_PFull)
  from l show ?thesis
  proof (cases rule: used_slots)
    case (one u)
    then show ?thesis using ij by (metis less_trans nat_neq_iff)
  qed (use ij in auto)
qed

text \<open>A short node in front of a tree, as \<open>delete\<close> builds it from the loaded node.\<close>

lemma join_loads:
  assumes "loads K rd 32 (p @ s) n t" "\<not> is_hash n"
  shows "loads K rd m p (case n of Some (ShortNode ck cval cfl) \<Rightarrow> Some (ShortNode (s @ ck) cval newFlag)
    | _ \<Rightarrow> Some (ShortNode s n newFlag)) (p_join s t)"
proof (cases "\<exists>ck cval fl. n = Some (ShortNode ck cval fl)")
  case True
  then obtain ck cval fl where n: "n = Some (ShortNode ck cval fl)" by blast
  then obtain u where "t = PShort ck u" "loads K rd 32 ((p @ s) @ ck) cval u" using assms(1) by (auto elim: loads_ShortE)
  then show ?thesis using n by (auto intro: loads_short)
next
  case False
  then have "(case n of Some (ShortNode ck cval cfl) \<Rightarrow> Some (ShortNode (s @ ck) cval newFlag) | _ \<Rightarrow> Some (ShortNode s n newFlag)) =
      Some (ShortNode s n newFlag)" by (auto split: option.splits tnode.splits)
  moreover have "p_join s t = PShort s t" using assms False by (auto elim: loads.cases)
  ultimately show ?thesis using assms(1) by (auto intro: loads_short)
qed

lemma loads_not_short: "loads K rd m p n t \<Longrightarrow> \<not> is_hash n \<Longrightarrow> (\<nexists>s c fl. n = Some (ShortNode s c fl)) \<Longrightarrow> p_join s t = PShort s t"
  by (auto elim: loads.cases)

lemma reduce_full_ok:
  assumes "length cs = 17" "length ts = 17" "\<forall>i<17. loads K rd 32 (p @ [word_of_nat i]) (cs ! i) (ts ! i)"
    "\<forall>i<16. pwf (ts ! i)" "ts ! 16 = PNil \<or> p_value (ts ! 16)" "\<forall>i<17. p_small K (ts ! i)" "a < 17" "ts ! a \<noteq> PNil"
  shows "\<exists>n' tr'. reduce_full rd p cs tr = Ret (Inr (True, n'), tr') \<and> loads K rd m p n' (p_reduce ts) \<and> \<not> is_hash n'"
proof -
  have nil: "cs ! i = None \<longleftrightarrow> ts ! i = PNil" if "i < 17" for i using assms(3) loads_None that by blast
  from assms(2) show ?thesis
  proof (cases rule: used_slots)
    case none
    then show ?thesis using assms(7,8) by blast
  next
    case (two i j)
    then have "single_child cs 0 (-1) = -2" using nil assms(1) by (intro single_child_two [of i j]) auto
    moreover have "loads K rd m p (Some (FullNode cs newFlag)) (PFull ts)" using assms(1-3) by (auto intro: loads_full)
    ultimately show ?thesis using two by (simp add: reduce_full_def tm_ret_def)
  next
    case (one i)
    then have sc: "single_child cs 0 (-1) = int i" using nil assms(1) single_child_one [of i cs 0] by auto
    have ld: "loads K rd 32 (p @ [word_of_nat i]) (cs ! i) (ts ! i)" using assms(3) one(2) by blast
    show ?thesis
    proof (cases "i = 16")
      case True
      then obtain v where v: "ts ! i = PValue v" using assms(5) one(3) by (auto simp: p_value_def)
      have "loads K rd m p (Some (ShortNode [word_of_nat i] (cs ! i) newFlag)) (p_reduce ts)"
        using ld v one(5) by (auto intro!: loads_short)
      then show ?thesis using True sc by (simp add: reduce_full_def tm_ret_def)
    next
      case False
      then have i: "i < 16" using one(2) by simp
      obtain c tr1 where c: "resolve rd (cs ! i) (p @ [word_of_nat i]) tr = Ret (Inr c, tr1)"
        "loads K rd 32 (p @ [word_of_nat i]) c (ts ! i)" "\<not> is_hash c"
      proof (cases "is_hash (cs ! i)")
        case True
        then obtain h where h: "cs ! i = Some (HashNode h)" by (auto simp: is_hash_def)
        have "pwf (ts ! i)" "p_small K (ts ! i)" using assms(4,6) one(2) i by blast+
        from resolve_ok [OF ld [unfolded h] this, of tr] obtain n tr' where
          "resolveAndTrack rd h (p @ [word_of_nat i]) tr = Ret (Inr n, tr')" "loads K rd 32 (p @ [word_of_nat i]) (Some n) (ts ! i)"
          "\<not> is_hash (Some n)" .
        then show ?thesis using that [of "Some n" tr'] h by (simp add: resolve_def tm_bind_Inr tm_ret_def)
      next
        case False
        then have "resolve rd (cs ! i) q tr = Ret (Inr (cs ! i), tr)" for q
          by (auto simp: resolve_def tm_ret_def split: option.splits tnode.splits)
        then show ?thesis using ld False that by blast
      qed
      show ?thesis
      proof (cases "\<exists>ck cv fl. c = Some (ShortNode ck cv fl)")
        case True
        then obtain ck cv fl where s: "c = Some (ShortNode ck cv fl)" by blast
        have "loads K rd m p (Some (ShortNode (word_of_nat i # ck) cv newFlag)) (p_reduce ts)"
          using join_loads [OF c(2,3), of m] s one(5) by simp
        moreover have "reduce_full rd p cs tr = Ret (Inr (True, Some (ShortNode (word_of_nat i # ck) cv newFlag)), onDelete (p @ [word_of_nat i]) tr1)"
          using sc False c(1) s by (simp add: reduce_full_def tm_bind_Inr [where m = "resolve rd (cs ! i) (p @ [word_of_nat i])", OF c(1)] Let_def) (simp add: tm_ret_def)
        ultimately show ?thesis by auto
      next
        case ns: False
        have "p_reduce ts = PShort [word_of_nat i] (ts ! i)" using loads_not_short [OF c(2,3) ns] one(5) by simp
        then have "loads K rd m p (Some (ShortNode [word_of_nat i] (cs ! i) newFlag)) (p_reduce ts)"
          using ld by (auto intro!: loads_short)
        moreover have "reduce_full rd p cs tr = Ret (Inr (True, Some (ShortNode [word_of_nat i] (cs ! i) newFlag)), tr1)"
          using sc False c(1) ns by (auto simp: reduce_full_def tm_bind_Inr tm_ret_def Let_def split: option.splits tnode.splits)
        ultimately show ?thesis by auto
      qed
    qed
  qed
qed

lemma trie_delete_ok:
  assumes "loads K rd m p n t" "fits t k" "p_small K t" "2 * length k + (if is_hash n then 1 else 0) < fuel"
  shows "\<exists>d n' tr'. trie_delete fuel rd n p k tr = Ret (Inr (d, n'), tr') \<and>
    loads K rd m p n' (p_delete t k) \<and> (if d then \<not> is_hash n' else p_delete t k = t)"
  using assms
proof (induction fuel arbitrary: m p n t k tr)
  case (Suc fuel)
  show ?case
  proof (cases n)
    case None
    then have "t = PNil" using Suc.prems(1) loads_None by blast
    then show ?thesis using None by (auto simp: tm_ret_def intro: loads.intros)
  next
    case (Some nd)
    show ?thesis
    proof (cases nd)
      case (ValueNode w)
      then have "t = PValue w" using Suc.prems(1) Some by (auto elim: loads_ValueE)
      then show ?thesis using Some ValueNode by (auto simp: tm_ret_def intro: loads.intros)
    next
      case (ShortNode s c fl)
      then obtain u where t: "t = PShort s u" and u: "loads K rd 32 (p @ s) c u" using Suc.prems(1) Some by (auto elim: loads_ShortE)
      have k: "full_key k" "pwf (PShort s u)" using Suc.prems(2) t by (auto simp: fits_def p_value_def split: if_splits)
      show ?thesis
      proof (cases "prefixLen k s = length s")
        case True
        then obtain r where r: "k = s @ r" by (metis prefixLen_eq append_take_drop_id)
        show ?thesis
        proof (cases "r = []")
          case True
          then show ?thesis using \<open>prefixLen k s = length s\<close> Some ShortNode t r by (auto simp: Let_def tm_ret_def intro: loads.intros)
        next
          case ne: False
          have s: "s \<noteq> []" using k by auto
          have "fits u r" using fits_short k r by blast
          moreover have "2 * length r + (if is_hash c then 1 else 0) < fuel"
            using Suc.prems(4) r s Some ShortNode by (cases s) (auto split: if_splits)
          ultimately obtain d n' tr' where g: "trie_delete fuel rd c (p @ s) r tr = Ret (Inr (d, n'), tr')"
            "loads K rd 32 (p @ s) n' (p_delete u r)" "if d then \<not> is_hash n' else p_delete u r = u"
            using Suc.IH [OF u, of r tr] Suc.prems(3) t by auto
          have is_ext: "p_join s u = PShort s u" using k r ne by (auto simp: full_key_append full_key_not_nibbles)
          have eq: "p_delete t k = p_join s (p_delete u r)" using True r ne t by simp
          show ?thesis
          proof (cases d)
            case False
            then show ?thesis using g Some ShortNode t r True ne Suc.prems(1) is_ext eq by (auto simp: tm_bind_Inr tm_ret_def Let_def)
          next
            case d: True
            let ?n = "case n' of Some (ShortNode ck cval cfl) \<Rightarrow> Some (ShortNode (s @ ck) cval newFlag) | _ \<Rightarrow> Some (ShortNode s n' newFlag)"
            have "\<exists>tr'. trie_delete (Suc fuel) rd n p k tr = Ret (Inr (True, ?n), tr')"
              using g(1) d Some ShortNode r True ne
              by (auto simp: tm_bind_Inr [where m = "trie_delete fuel rd c (p @ s) r", OF g(1)] Let_def split: option.splits tnode.splits) (auto simp: tm_ret_def)
            moreover have "loads K rd m p ?n (p_delete t k)" using join_loads [OF g(2)] g(3) d eq by simp
            moreover have "\<not> is_hash ?n" by (auto split: option.splits tnode.splits)
            ultimately show ?thesis by auto
          qed
        qed
      next
        case False
        then have "prefixLen k s < length s" using prefixLen_le(2) [of k s] by simp
        then show ?thesis using Some ShortNode t Suc.prems(1) by (auto simp: tm_ret_def Let_def)
      qed
    next
      case (FullNode cs fl)
      then obtain ts where t: "t = PFull ts" using Suc.prems(1) Some by (auto elim: loads_FullE)
      have k: "full_key k" "pwf (PFull ts)" using Suc.prems(2) t by (auto simp: fits_def p_value_def split: if_splits)
      then obtain x r where r: "k = x # r" by (cases k) auto
      note lf = Suc.prems(1) [unfolded Some FullNode t]
      note c = full_child [OF lf k(2) k(1) [unfolded r]]
      have f: "unat x < length ts" "fits (ts ! unat x) r" using fits_child k r by blast+
      have "2 * length r + (if is_hash (cs ! unat x) then 1 else 0) < fuel" using Suc.prems(4) r Some FullNode by auto
      then obtain d n' tr' where g: "trie_delete fuel rd (cs ! unat x) (p @ [x]) r tr = Ret (Inr (d, n'), tr')"
        "loads K rd 32 (p @ [x]) n' (p_delete (ts ! unat x) r)" "if d then \<not> is_hash n' else p_delete (ts ! unat x) r = ts ! unat x"
        using Suc.IH [OF c(2) f(2), of tr] Suc.prems(3) f(1) t by auto
      define t' where "t' = p_delete (ts ! unat x) r"
      define ts' where "ts' = ts[unat x := t']"
      have sc: "set_child cs x n' = Ret (cs[unat x := n']) \<and> loads K rd m p (Some (FullNode (cs[unat x := n']) newFlag)) (PFull ts')"
        unfolding ts'_def t'_def by (rule full_set_child [OF lf c(3) g(2) cached_new])
      have eq: "p_delete t k = (if t' \<noteq> PNil then PFull ts' else p_reduce ts')" using f(1) t r by (simp add: ts'_def t'_def Let_def)
      have nil: "n' = None \<longleftrightarrow> t' = PNil" using g(2) loads_None by (simp add: t'_def)
      have i: "nth_go k 0 = Ret x" by (simp add: nth_go_def r)
      show ?thesis
      proof (cases d)
        case False
        then have "ts' = ts" using g(3) by (simp add: ts'_def t'_def)
        then have "p_delete t k = t" using eq t p_reduce_id k(2) by simp
        then show ?thesis using g(1) False Some FullNode r c(1) i Suc.prems(1) by (auto simp: tm_bind_Inr [where m = "trie_delete fuel rd (cs ! unat x) (p @ [x]) r", OF g(1)] tm_ret_def)
      next
        case d: True
        show ?thesis
        proof (cases "n' = None")
          case False
          then show ?thesis using g(1) d Some FullNode r c(1) i sc eq nil by (auto simp: tm_bind_Inr [where m = "trie_delete fuel rd (cs ! unat x) (p @ [x]) r", OF g(1)] tm_ret_def Let_def)
        next
          case True
          have run: "trie_delete (Suc fuel) rd n p k tr = reduce_full rd p (cs[unat x := n']) tr'"
            using g(1) d Some FullNode r c(1) i sc True by (simp add: tm_bind_Inr [where m = "trie_delete fuel rd (cs ! unat x) (p @ [x]) r", OF g(1)])
          have l: "length cs = 17" "length ts = 17" using lf k(2) by (auto simp: pwf_PFull elim: loads_FullE)
          obtain a b where "a < b" "b < 17" "ts ! a \<noteq> PNil" "ts ! b \<noteq> PNil" using k(2) by (auto simp: pwf_PFull)
          then obtain a where a: "a < 17" "ts ! a \<noteq> PNil" "a \<noteq> unat x" by (metis less_trans nat_neq_iff)
          have "t' = PNil" using True nil by blast
          have "\<exists>n'' tr''. reduce_full rd p (cs[unat x := n']) tr' = Ret (Inr (True, n''), tr'') \<and> loads K rd m p n'' (p_reduce ts') \<and> \<not> is_hash n''"
          proof (rule reduce_full_ok)
            show "\<forall>i<17. loads K rd 32 (p @ [word_of_nat i]) (cs[unat x := n'] ! i) (ts' ! i)"
              using conjunct2 [OF sc] l by (auto simp: ts'_def elim: loads_FullE)
            show "\<forall>i<16. pwf (ts' ! i)" "ts' ! 16 = PNil \<or> p_value (ts' ! 16)"
              using k(2) l f(1) \<open>t' = PNil\<close> by (auto simp: ts'_def nth_list_update pwf_PFull)
            show "\<forall>i<17. p_small K (ts' ! i)"
              using Suc.prems(3) t l f(1) \<open>t' = PNil\<close> by (auto simp: ts'_def nth_list_update)
            show "a < 17" "ts' ! a \<noteq> PNil" using a l by (simp_all add: ts'_def)
          qed (use l in \<open>simp_all add: ts'_def\<close>)
          then show ?thesis using run eq \<open>t' = PNil\<close> by auto
        qed
      qed
    next
      case (HashNode h)
      have w: "pwf t" using Suc.prems(1,2) Some HashNode by (auto simp: fits_def p_value_def elim!: loads_HashE split: if_splits)
      obtain n0 tr0 where r: "resolveAndTrack rd h p tr = Ret (Inr n0, tr0)" "loads K rd m p (Some n0) t" "\<not> is_hash (Some n0)"
        using resolve_ok [OF _ w Suc.prems(3), of rd m p h tr] Suc.prems(1) Some HashNode by blast
      then obtain d n' tr' where g: "trie_delete fuel rd (Some n0) p k tr0 = Ret (Inr (d, n'), tr')" "loads K rd m p n' (p_delete t k)"
        "if d then \<not> is_hash n' else p_delete t k = t"
        using Suc.IH [OF r(2) Suc.prems(2,3), of tr0] Suc.prems(4) Some HashNode by auto
      then show ?thesis using r Some HashNode by (cases d) (auto simp: tm_bind_Inr tm_ret_def)
    qed
  qed
qed simp

section \<open>Bounded contents have bounded encodings\<close>

definition bounded :: "(bytes \<rightharpoonup> bytes) \<Rightarrow> bool" where
  "bounded m \<longleftrightarrow> (\<forall>k v. m k = Some v \<longrightarrow> length k < 2 ^ 32 \<and> length v < 2 ^ 32)"

lemma length_putint: "length (putint i) \<le> 8"
proof -
  obtain n where "n < 8" "putint i = be_bytes (Suc n) i" by (rule putint_be)
  then show ?thesis by simp
qed

lemma length_puthead: "length (puthead a b i) \<le> 9"
  using length_putint [of i] by (simp add: puthead_def)

lemma length_str: "length (rlp_enc (RStr b)) \<le> length b + 9"
  using length_puthead by (simp add: str_head_def)

lemma length_list: "length (rlp_enc (RList xs)) \<le> length (concat (map rlp_enc xs)) + 9"
  using length_puthead by (simp add: Let_def)

lemma length_ref: "p_node t \<or> t = PNil \<Longrightarrow> length (rlp_enc (ref_item K (p_item K t))) \<le> 41"
  using length_str [of "[]"] length_str [of "Bytes32 (K (p_enc K t))"]
  by (auto simp: ref_item_node p_enc_def length_Bytes32 ref_item_def [of K "RStr []"] simp del: rlp_enc.simps)

lemma length_key_compact: "length (key_compact s) \<le> length s + 1"
  by (auto simp: key_compact_def compact_of_def length_pack Let_def)

lemma length_refs: "\<forall>t \<in> set ts. p_node t \<or> t = PNil \<Longrightarrow> length (enc_refs K ts) \<le> 41 * length ts"
proof (induction ts)
  case (Cons t ts)
  then show ?case using length_ref [of t K] by simp
qed simp

lemma bounded_small: "pwf t \<Longrightarrow> bounded (p_get t) \<Longrightarrow> p_small K t"
proof (induction rule: pwf.induct)
  case (pwf_leaf s v)
  then have "length s < 2 ^ 32 \<and> length v < 2 ^ 32" unfolding bounded_def
    by (metis append_Nil2 p_get.simps(2) p_get_append)
  then show ?case
    using length_list [of "[RStr (key_compact s), RStr v]"] length_str [of "key_compact s"] length_str [of v] length_key_compact [of s]
    by (simp add: p_enc_def ref_item_def del: rlp_enc.simps)
next
  case (pwf_ext s ts)
  obtain k v where "p_get (PFull ts) k = Some v" using pwf_content pwf_ext.hyps by blast
  then have s: "length (s @ k) < 2 ^ 32" using pwf_ext.prems p_get_append unfolding bounded_def by metis
  have "bounded (p_get (PFull ts))" unfolding bounded_def
  proof (intro allI impI)
    fix k v assume "p_get (PFull ts) k = Some v"
    then have "length (s @ k) < 2 ^ 32 \<and> length v < 2 ^ 32" using pwf_ext.prems p_get_append unfolding bounded_def by metis
    then show "length k < 2 ^ 32 \<and> length v < 2 ^ 32" by simp
  qed
  then show ?case
    using pwf_ext.IH s length_list [of "[RStr (key_compact s), ref_item K (p_item K (PFull ts))]"] length_str [of "key_compact s"]
      length_ref [of "PFull ts" K] length_key_compact [of s]
    by (simp add: p_enc_def del: rlp_enc.simps p_item.simps(4))
next
  case (pwf_full ts)
  have wf: "pwf (PFull ts)" using pwf_full by (intro pwf.pwf_full) auto
  then have l: "length ts = 17" by (simp add: pwf_PFull)
  have b: "bounded (p_get (ts ! i))" if "i < 17" for i unfolding bounded_def
  proof (intro allI impI)
    fix k v assume "p_get (ts ! i) k = Some v"
    then have "p_get (PFull ts) (word_of_nat i # k) = Some v" using that l by (simp add: unat_of_nat)
    then have "length (word_of_nat i # k :: bytes) < 2 ^ 32 \<and> length v < 2 ^ 32" using pwf_full.prems unfolding bounded_def by blast
    then show "length k < 2 ^ 32 \<and> length v < 2 ^ 32" by simp
  qed
  have v: "ts ! 16 = PNil \<or> p_value (ts ! 16)" using wf by (simp add: pwf_PFull)
  have "length (rlp_enc (ref_item K (p_item K (ts ! 16)))) < 2 ^ 32 + 9"
  proof (cases "ts ! 16")
    case (PValue v)
    then have "p_get (ts ! 16) [] = Some v" by simp
    then have "length v < 2 ^ 32" using b [of 16] unfolding bounded_def by simp
    then show ?thesis using length_str [of v] PValue by (simp add: ref_item_def del: rlp_enc.simps)
  qed (use v length_ref [of "ts ! 16" K] in \<open>auto simp: p_value_def\<close>)
  moreover have "length (enc_refs K (take 16 ts)) \<le> 41 * 16"
    using length_refs [of "take 16 ts" K] pwf_children [OF wf] l by fastforce
  moreover have "concat (map rlp_enc (map (\<lambda>t. ref_item K (p_item K t)) ts)) = enc_refs K (take 16 ts) @ rlp_enc (ref_item K (p_item K (ts ! 16)))"
    using arg_cong [OF pwf_PFull_split(1) [OF wf], of "enc_refs K"] by (simp add: comp_def)
  ultimately have "length (p_enc K (PFull ts)) < 2 ^ 62"
    using length_list [of "map (\<lambda>t. ref_item K (p_item K t)) ts"] by (simp add: p_enc_def del: rlp_enc.simps)
  moreover have "p_small K (ts ! i)" if "i < 17" for i
    using pwf_full.IH b that v by (cases "i = 16") (auto simp: p_value_def)
  ultimately show ?case using l by (auto simp: in_set_conv_nth)
qed simp

section \<open>A trie is a map\<close>

lemma keybytes_full_key: "full_key (keybytesToHex k)"
proof -
  have "list_all (\<lambda>x. x < 16) (concat (map (\<lambda>b. [b div 16, b mod 16]) (k :: bytes)))"
  proof (induction k)
    case (Cons b k)
    have "unat b < 256" using unsigned_less [of b] by simp
    then have "unat b div 16 < 16" by simp
    then show ?case using Cons by (simp add: word_less_nat_alt unat_div unat_mod)
  qed simp
  then show ?thesis by (simp add: keybytesToHex_def full_key_def is_nibbles_def)
qed

lemma length_keybytesToHex: "length (keybytesToHex k) = 2 * length k + 1"
proof -
  have "length (concat (map (\<lambda>b. [b div 16, b mod 16]) (k :: bytes))) = 2 * length k" by (induction k) auto
  then show ?thesis by (simp add: keybytesToHex_def)
qed

text \<open>The content of a tree over nibble keys, for a map over byte keys.\<close>

definition hex_map :: "(bytes \<rightharpoonup> bytes) \<Rightarrow> bytes \<rightharpoonup> bytes" where
  "hex_map m h = (case hexToKeybytes h of Ret k \<Rightarrow> if keybytesToHex k = h then m k else None | _ \<Rightarrow> None)"

lemma hex_map_key [simp]: "hex_map m (keybytesToHex k) = m k"
  by (simp add: hex_map_def hexToKeybytes_keybytesToHex)

lemma hex_map_Some: "hex_map m h = Some v \<longleftrightarrow> (\<exists>k. h = keybytesToHex k \<and> m k = Some v)"
  by (auto simp: hex_map_def hexToKeybytes_keybytesToHex split: go.splits if_splits)

lemma hex_map_upd: "hex_map (m(k := x)) = (hex_map m)(keybytesToHex k := x)"
proof (rule ext)
  fix h
  show "hex_map (m(k := x)) h = ((hex_map m)(keybytesToHex k := x)) h"
  proof (cases "h = keybytesToHex k")
    case False
    then show ?thesis by (auto simp: hex_map_def split: go.splits)
  qed simp
qed

definition trie_holds :: "(bytes \<Rightarrow> hash) \<Rightarrow> trie \<Rightarrow> ptree \<Rightarrow> bool" where
  "trie_holds K t pt \<longleftrightarrow> \<not> t_committed t \<and> loads K (t_reader t) 0 [] (t_root t) pt \<and> pwf pt"

text \<open>The trie \<open>t\<close> represents the map \<open>m\<close>.\<close>

definition represents :: "(bytes \<Rightarrow> hash) \<Rightarrow> trie \<Rightarrow> (bytes \<rightharpoonup> bytes) \<Rightarrow> bool" where
  "represents K t m \<longleftrightarrow> (\<exists>pt. trie_holds K t pt \<and> p_get pt = hex_map m)"

definition small_map :: "(bytes \<rightharpoonup> bytes) \<Rightarrow> bool" where
  "small_map m \<longleftrightarrow> (\<forall>k v. m k = Some v \<longrightarrow> length k < 2 ^ 30 \<and> length v < 2 ^ 32)"

lemma small_map_bounded: "small_map m \<Longrightarrow> bounded (hex_map m)"
  unfolding bounded_def small_map_def hex_map_Some by (auto simp: length_keybytesToHex) fastforce

datatype trie_op = Put bytes bytes | Del bytes | Look bytes

primrec op_key :: "trie_op \<Rightarrow> bytes" where
  "op_key (Put k v) = k" | "op_key (Del k) = k" | "op_key (Look k) = k"

primrec op_small :: "trie_op \<Rightarrow> bool" where
  "op_small (Put k v) \<longleftrightarrow> length k < 2 ^ 30 \<and> length v < 2 ^ 32" | "op_small (Del k) \<longleftrightarrow> True" | "op_small (Look k) \<longleftrightarrow> True"

definition no_value :: "trie_error option \<times> trie \<Rightarrow> (trie_error + bytes option) \<times> trie" where
  "no_value r = (case fst r of None \<Rightarrow> Inr None | Some err \<Rightarrow> Inl err, snd r)"

primrec run_trie_op :: "nat \<Rightarrow> trie_op \<Rightarrow> trie \<Rightarrow> ((trie_error + bytes option) \<times> trie) go" where
  "run_trie_op fuel (Put k v) t = go_bind (trie_Update fuel k v t) (\<lambda>r. Ret (no_value r))"
| "run_trie_op fuel (Del k) t = go_bind (trie_Delete fuel k t) (\<lambda>r. Ret (no_value r))"
| "run_trie_op fuel (Look k) t = trie_Get fuel k t"

primrec run_trie :: "nat \<Rightarrow> trie_op list \<Rightarrow> trie \<Rightarrow> ((trie_error + bytes option) list \<times> trie) go" where
  "run_trie fuel [] t = Ret ([], t)"
| "run_trie fuel (op # ops) t =
     go_bind (run_trie_op fuel op t) (\<lambda>(r, t). go_bind (run_trie fuel ops t) (\<lambda>(rs, t). Ret (r # rs, t)))"

text \<open>The specification: a map, where storing the empty value deletes.\<close>

primrec map_op :: "trie_op \<Rightarrow> (bytes \<rightharpoonup> bytes) \<Rightarrow> bytes option \<times> (bytes \<rightharpoonup> bytes)" where
  "map_op (Put k v) m = (None, m(k := if v = [] then None else Some v))"
| "map_op (Del k) m = (None, m(k := None))"
| "map_op (Look k) m = (m k, m)"

primrec map_run :: "trie_op list \<Rightarrow> (bytes \<rightharpoonup> bytes) \<Rightarrow> bytes option list \<times> (bytes \<rightharpoonup> bytes)" where
  "map_run [] m = ([], m)"
| "map_run (op # ops) m = (let (r, m) = map_op op m; (rs, m) = map_run ops m in (r # rs, m))"

lemma holds_update:
  assumes "trie_holds K t pt" "p_get pt = hex_map m" "small_map m" "4 * length k + 3 < fuel"
  shows "v \<noteq> [] \<Longrightarrow> \<exists>t' pt'. trie_run (trie_insert fuel (t_reader t) (t_root t) [] (keybytesToHex k) (Some (ValueNode v))) t = Ret (None, t') \<and>
      trie_holds K t' pt' \<and> p_get pt' = hex_map (m(k \<mapsto> v))"
    "\<exists>t' pt'. trie_run (trie_delete fuel (t_reader t) (t_root t) [] (keybytesToHex k)) t = Ret (None, t') \<and>
      trie_holds K t' pt' \<and> p_get pt' = hex_map (m(k := None))"
    "\<exists>t' pt'. trie_Get fuel k t = Ret (Inr (m k), t') \<and> trie_holds K t' pt' \<and> p_get pt' = hex_map m"
proof -
  let ?h = "keybytesToHex k"
  have t: "\<not> t_committed t" "loads K (t_reader t) 0 [] (t_root t) pt" "pwf pt" using assms(1) by (auto simp: trie_holds_def)
  have f: "fits pt ?h" using t(3) keybytes_full_key by (simp add: fits_def length_keybytesToHex flip: length_0_conv)
  have s: "p_small K pt" using bounded_small t(3) assms(2,3) small_map_bounded by metis
  have fu: "2 * length ?h + (if is_hash (t_root t) then 1 else 0) < fuel" using assms(4) by (simp add: length_keybytesToHex)
  have ne: "?h \<noteq> []" using length_keybytesToHex [of k] by auto
  note args = t(2) f s fu
  show "\<exists>t' pt'. trie_run (trie_insert fuel (t_reader t) (t_root t) [] ?h (Some (ValueNode v))) t = Ret (None, t') \<and>
      trie_holds K t' pt' \<and> p_get pt' = hex_map (m(k \<mapsto> v))" if v: "v \<noteq> []"
  proof -
    obtain d n' tr' where "trie_insert fuel (t_reader t) (t_root t) [] ?h (Some (ValueNode v)) (t_tracer t) = Ret (Inr (d, n'), tr')"
      "loads K (t_reader t) 0 [] n' (p_insert pt ?h v)" using trie_insert_ok [OF args] by blast
    then show ?thesis using p_get_insert [OF f, of v] p_insert_fits [OF f v] t(1) ne assms(2)
      by (intro exI [of _ "t\<lparr>t_tracer := tr', t_root := n'\<rparr>"] exI [of _ "p_insert pt ?h v"])
        (simp add: trie_run_def trie_holds_def hex_map_upd)
  qed
  obtain d n' tr' where "trie_delete fuel (t_reader t) (t_root t) [] ?h (t_tracer t) = Ret (Inr (d, n'), tr')"
    "loads K (t_reader t) 0 [] n' (p_delete pt ?h)" using trie_delete_ok [OF args] by blast
  then show "\<exists>t' pt'. trie_run (trie_delete fuel (t_reader t) (t_root t) [] ?h) t = Ret (None, t') \<and>
      trie_holds K t' pt' \<and> p_get pt' = hex_map (m(k := None))"
    using p_get_delete [OF f] p_delete_fits [OF f] t(1) ne assms(2)
    by (intro exI [of _ "t\<lparr>t_tracer := tr', t_root := n'\<rparr>"] exI [of _ "p_delete pt ?h"])
      (simp add: trie_run_def trie_holds_def hex_map_upd)
  obtain n' r tr' where "trie_get fuel (t_reader t) (t_root t) ?h 0 (t_tracer t) = Ret (Inr (p_get pt ?h, n', r), tr')"
    "loads K (t_reader t) 0 [] n' pt" using trie_get_ok [OF args, of "t_tracer t"] by auto
  then show "\<exists>t' pt'. trie_Get fuel k t = Ret (Inr (m k), t') \<and> trie_holds K t' pt' \<and> p_get pt' = hex_map m"
    using t assms(2) by (intro exI [of _ "if r then t\<lparr>t_tracer := tr', t_root := n'\<rparr> else t\<lparr>t_tracer := tr'\<rparr>"] exI [of _ pt])
      (auto simp: trie_Get_def trie_holds_def Let_def)
qed

lemma small_map_op: "small_map m \<Longrightarrow> op_small op \<Longrightarrow> small_map (snd (map_op op m))"
  by (cases op) (auto simp: small_map_def)

lemma run_trie_op_ok:
  assumes "represents K t m" "small_map m" "4 * length (op_key op) + 3 < fuel"
  shows "\<exists>t'. run_trie_op fuel op t = Ret (Inr (fst (map_op op m)), t') \<and> represents K t' (snd (map_op op m))"
proof -
  obtain pt where pt: "trie_holds K t pt" "p_get pt = hex_map m" using assms(1) by (auto simp: represents_def)
  then have h: "trie_holds K (t\<lparr>t_unhashed := t_unhashed t + 1\<rparr>) pt" and c: "\<not> t_committed t" by (simp_all add: trie_holds_def)
  have fu: "4 * length k + 3 < fuel" if "op_key op = k" for k using that assms(3) by simp
  note u = holds_update [OF h pt(2) assms(2)]
  show ?thesis
  proof (cases op)
    case (Put k v)
    then show ?thesis using u(1) [OF fu, of k v] u(2) [OF fu, of k] c
      by (cases "v = []") (fastforce simp: trie_Update_def trie_update_def Let_def no_value_def represents_def)+
  next
    case (Del k)
    then show ?thesis using u(2) [OF fu, of k] c by (fastforce simp: trie_Delete_def Let_def no_value_def represents_def)
  next
    case (Look k)
    then show ?thesis using holds_update(3) [OF pt assms(2) fu, of k] by (auto simp: represents_def)
  qed
qed

section \<open>Property\<close>

text \<open>
  C3. A trie behaves as a map, whatever part of it is loaded: run any updates, deletions and lookups on a
  trie that represents a map, over a database that stores the parts that are not loaded. Every operation
  returns, without panic, error or want of fuel, the answer of the map, and the trie represents the map
  the operations make; storing the empty value deletes.
\<close>

theorem trie_behaves_as_map:
  assumes "represents K t m" "small_map m" "\<forall>op \<in> set ops. op_small op \<and> 4 * length (op_key op) + 3 < fuel"
  shows "\<exists>t'. run_trie fuel ops t = Ret (map Inr (fst (map_run ops m)), t') \<and> represents K t' (snd (map_run ops m))"
  using assms
proof (induction ops arbitrary: t m)
  case (Cons op ops)
  then obtain t1 where t1: "run_trie_op fuel op t = Ret (Inr (fst (map_op op m)), t1)" "represents K t1 (snd (map_op op m))"
    using run_trie_op_ok [of K t m op fuel] by auto
  moreover have "small_map (snd (map_op op m))" using Cons.prems small_map_op by simp
  ultimately show ?case using Cons.IH [of t1 "snd (map_op op m)"] Cons.prems by (auto simp: case_prod_beta Let_def)
qed simp

definition sample_trie :: trie where
  "sample_trie = \<lparr>t_root = None, t_owner = 0, t_committed = False, t_unhashed = 0, t_reader = newEmptyReader, t_tracer = newTracer\<rparr>"

lemma empty_represents: "t_root t = None \<Longrightarrow> \<not> t_committed t \<Longrightarrow> represents K t Map.empty"
  unfolding represents_def trie_holds_def by (intro exI [of _ PNil]) (auto simp: fun_eq_iff hex_map_def loads_nil split: go.splits)

theorem trie_behaves_as_map_witness:
  "\<exists>t'. run_trie 8 [Put [1] [5], Put [2] [6], Look [1], Put [1] [], Look [1], Look [2]] sample_trie =
     Ret (map Inr [None, None, Some [5], None, None, Some [6]], t') \<and> represents (\<lambda>_. 0) t' [[2] \<mapsto> [6]]"
proof -
  have "represents (\<lambda>_. 0) sample_trie Map.empty" by (rule empty_represents) (simp_all add: sample_trie_def)
  from trie_behaves_as_map [OF this, of "[Put [1] [5], Put [2] [6], Look [1], Put [1] [], Look [1], Look [2]]" 8]
  show ?thesis by (simp add: small_map_def fun_upd_twist)
qed

end
