(* ===== verification/Trie_Hash.thy ===== *)
theory Trie_Hash imports Patricia_Trie begin

text \<open>
  Hashing a trie: \<open>trie/hasher.go\<close>, and \<open>Hash\<close> of \<open>trie/trie.go\<close>. The hash function (Keccak-256) is a
  parameter. The children of a full node are hashed in parallel when there are many changes; every
  goroutine writes its own index, so the model hashes them in order.
\<close>

section \<open>trie/hasher.go\<close>

definition hashData :: "(bytes \<Rightarrow> hash) \<Rightarrow> bytes \<Rightarrow> tnode" where
  "hashData K data = HashNode (Bytes32 (K data))"

definition nodeToHash :: "(bytes \<Rightarrow> hash) \<Rightarrow> tnode \<Rightarrow> bool \<Rightarrow> tnode go" where
  "nodeToHash K n force = go_bind (nodeToBytes n) (\<lambda>enc.
     if length enc < 32 \<and> \<not> force then Ret n else Ret (hashData K enc))"

definition set_hash :: "tnode \<Rightarrow> nodeFlag \<Rightarrow> nodeFlag" where
  "set_hash hashed fl = fl\<lparr>nf_hash := (case hashed of HashNode h \<Rightarrow> Some h | _ \<Rightarrow> None)\<rparr>"

fun h_hash :: "(bytes \<Rightarrow> hash) \<Rightarrow> tnode \<Rightarrow> bool \<Rightarrow> (tnode \<times> tnode) go"
  and h_child :: "(bytes \<Rightarrow> hash) \<Rightarrow> tnode option \<Rightarrow> (tnode option \<times> tnode option) go"
  and h_children :: "(bytes \<Rightarrow> hash) \<Rightarrow> nat \<Rightarrow> tnode option list \<Rightarrow> (tnode option list \<times> tnode option list) go" where
  "h_hash K (ShortNode k v fl) force =
     (case nf_hash fl of Some h \<Rightarrow> Ret (HashNode h, ShortNode k v fl)
      | None \<Rightarrow>
          go_bind (hexToCompact k) (\<lambda>ck.
          go_bind (h_child K v) (\<lambda>(collapsed, cached).
          go_bind (nodeToHash K (ShortNode ck collapsed fl) force) (\<lambda>hashed.
            Ret (hashed, ShortNode k cached (set_hash hashed fl))))))"
| "h_hash K (FullNode cs fl) force =
     (case nf_hash fl of Some h \<Rightarrow> Ret (HashNode h, FullNode cs fl)
      | None \<Rightarrow>
          go_bind (h_children K 0 cs) (\<lambda>(collapsed, cached).
          go_bind (nodeToHash K (FullNode collapsed fl) force) (\<lambda>hashed.
            Ret (hashed, FullNode cached (set_hash hashed fl)))))"
| "h_hash K (HashNode h) force = Ret (HashNode h, HashNode h)"
| "h_hash K (ValueNode v) force = Ret (ValueNode v, ValueNode v)"
| "h_child K (Some (ShortNode k v fl)) =
     go_bind (h_hash K (ShortNode k v fl) False) (\<lambda>(collapsed, cached). Ret (Some collapsed, Some cached))"
| "h_child K (Some (FullNode cs fl)) =
     go_bind (h_hash K (FullNode cs fl) False) (\<lambda>(collapsed, cached). Ret (Some collapsed, Some cached))"
| "h_child K n = Ret (n, n)"
| "h_children K i [] = Ret ([], [])"
| "h_children K i (c # cs) =
     go_bind (if i < 16 then
          (case c of Some n \<Rightarrow> go_bind (h_hash K n False) (\<lambda>(collapsed, cached). Ret (Some collapsed, Some cached))
           | None \<Rightarrow> Ret (Some (ValueNode []), None))
        else Ret (c, c)) (\<lambda>(collapsed, cached).
     go_bind (h_children K (i + 1) cs) (\<lambda>(collapseds, cacheds). Ret (collapsed # collapseds, cached # cacheds)))"

section \<open>Hash of trie/trie.go\<close>

definition hashRoot :: "(bytes \<Rightarrow> hash) \<Rightarrow> trie \<Rightarrow> ((tnode \<times> tnode option) \<times> trie) go" where
  "hashRoot K t = (case t_root t of
     None \<Rightarrow> Ret ((HashNode (Bytes32 EmptyRootHash), None), t)
   | Some n \<Rightarrow> go_bind (h_hash K n True) (\<lambda>(hashed, cached). Ret ((hashed, Some cached), t\<lparr>t_unhashed := 0\<rparr>)))"

definition trie_Hash :: "(bytes \<Rightarrow> hash) \<Rightarrow> trie \<Rightarrow> (hash \<times> trie) go" where
  "trie_Hash K t = go_bind (hashRoot K t) (\<lambda>((hashed, cached), t).
     case hashed of HashNode h \<Rightarrow> Ret (SetBytes h, t\<lparr>t_root := cached\<rparr>) | _ \<Rightarrow> Panic TypeAssertion)"

section \<open>The hash is the hash of the tree\<close>

definition p_root :: "(bytes \<Rightarrow> hash) \<Rightarrow> ptree \<Rightarrow> hash" where
  "p_root K t = (if t = PNil then EmptyRootHash else K (p_enc K t))"

lemma cached_hash: "cached K rd m p fl t \<Longrightarrow> nf_hash fl = Some h \<Longrightarrow> h = Bytes32 (K (p_enc K t)) \<and> m \<le> length (p_enc K t)"
  by (simp add: cached_def)

text \<open>What hashing a node gives: its reference in the parent and the node with the hash filled in.\<close>

definition hashes_to :: "(bytes \<Rightarrow> hash) \<Rightarrow> trieReader \<Rightarrow> nat \<Rightarrow> bytes \<Rightarrow> bool \<Rightarrow> ptree \<Rightarrow> (tnode \<times> tnode) go \<Rightarrow> bool" where
  "hashes_to K rd m p force t r \<longleftrightarrow> (\<exists>hashed n'. r = Ret (hashed, n') \<and> loads K rd m p (Some n') t \<and>
     (if force \<or> 32 \<le> length (p_enc K t) then hashed = HashNode (Bytes32 (K (p_enc K t)))
      else node_item hashed = p_item K t \<and> (\<forall>h. hashed \<noteq> HashNode h)))"

lemma finish_hash:
  assumes "node_item n = p_item K t" "length (p_enc K t) < 2 ^ 62" "\<not> force \<longrightarrow> m = 32" "force \<longrightarrow> m = 0" "\<forall>h. n \<noteq> HashNode h"
    "\<not> nf_dirty fl \<longrightarrow> m = 32 \<and> length (p_enc K t) < 32"
  shows "\<exists>hashed. nodeToHash K n force = Ret hashed \<and> cached K rd m p (set_hash hashed fl) t \<and>
    (if force \<or> 32 \<le> length (p_enc K t) then hashed = HashNode (Bytes32 (K (p_enc K t)))
     else node_item hashed = p_item K t \<and> (\<forall>h. hashed \<noteq> HashNode h))"
proof -
  have b: "nodeToBytes n = Ret (p_enc K t)" using nodeToBytes_enc [of n] assms(1,2) by (simp add: p_enc_def)
  show ?thesis
  proof (cases "force \<or> 32 \<le> length (p_enc K t)")
    case True
    then show ?thesis using assms b by (auto simp: nodeToHash_def hashData_def set_hash_def cached_def)
  next
    case False
    then show ?thesis using assms b by (cases n) (auto simp: nodeToHash_def set_hash_def cached_def)
  qed
qed

lemma hashes_to_ref:
  "hashes_to K rd 32 p False t r \<Longrightarrow> p_node t \<Longrightarrow>
   \<exists>hashed n'. r = Ret (hashed, n') \<and> loads K rd 32 p (Some n') t \<and> node_item hashed = ref_item K (p_item K t)"
  by (auto simp: hashes_to_def ref_item_node split: if_splits)

lemma h_hash_loads:
  "loads K rd m p (Some n) t \<Longrightarrow> pwf t \<Longrightarrow> p_node t \<Longrightarrow> p_small K t \<Longrightarrow> m = (if force then 0 else 32) \<Longrightarrow>
     hashes_to K rd m p force t (h_hash K n force)"
  "loads K rd 32 p c t \<Longrightarrow> pwf t \<and> p_node t \<or> p_value t \<Longrightarrow> p_small K t \<Longrightarrow>
     \<exists>hc c'. h_child K c = Ret (hc, c') \<and> child_item hc = ref_item K (p_item K t) \<and> loads K rd 32 p c' t"
  "length cs = length ts \<Longrightarrow> \<forall>j<length ts. loads K rd 32 (p @ [word_of_nat (i + j)]) (cs ! j) (ts ! j) \<and> p_small K (ts ! j) \<and>
       (if i + j < 16 then pwf (ts ! j) else ts ! j = PNil \<or> p_value (ts ! j)) \<Longrightarrow>
     \<exists>hcs cs'. h_children K i cs = Ret (hcs, cs') \<and> map child_item hcs = map (\<lambda>t. ref_item K (p_item K t)) ts \<and>
       length cs' = length ts \<and> (\<forall>j<length ts. loads K rd 32 (p @ [word_of_nat (i + j)]) (cs' ! j) (ts ! j))"
proof (induction K n force and K c and K i cs arbitrary: m p t and p t and p ts rule: h_hash_h_child_h_children.induct)
  case (1 K k v fl force)
  then obtain u where t: "t = PShort k u" and u: "loads K rd 32 (p @ k) v u" and fl: "cached K rd m p fl t" by (auto elim: loads_ShortE)
  show ?case
  proof (cases "nf_hash fl")
    case (Some h)
    then show ?thesis using cached_hash [OF fl Some] "1.prems" by (cases force) (auto simp: hashes_to_def)
  next
    case None
    have uo: "pwf u \<and> p_node u \<or> p_value u" using "1.prems"(2) t by (auto simp: p_value_def)
    obtain hc c' where c: "h_child K v = Ret (hc, c')" "child_item hc = ref_item K (p_item K u)" "loads K rd 32 (p @ k) c' u"
      using "1.IH" [OF None _ u uo] "1.prems"(4) t hexToCompact_key by auto
    have it: "node_item (ShortNode (key_compact k) hc fl) = p_item K t" using c(2) t by simp
    have "\<not> nf_dirty fl \<longrightarrow> m = 32 \<and> length (p_enc K t) < 32" using fl None by (simp add: cached_def)
    from finish_hash [OF it p_small_length [OF "1.prems"(4,3)] _ _ _ this, of force]
    obtain hashed where f: "nodeToHash K (ShortNode (key_compact k) hc fl) force = Ret hashed" "cached K rd m p (set_hash hashed fl) t"
      "if force \<or> 32 \<le> length (p_enc K t) then hashed = HashNode (Bytes32 (K (p_enc K t))) else node_item hashed = p_item K t \<and> (\<forall>h. hashed \<noteq> HashNode h)"
      using "1.prems"(5) by auto
    have "loads K rd m p (Some (ShortNode k c' (set_hash hashed fl))) t" using c(3) f(2) t loads_short by blast
    then show ?thesis unfolding hashes_to_def using None c(1) f(1,3) by (simp add: hexToCompact_key)
  qed
next
  case (2 K cs fl force)
  then obtain ts where t: "t = PFull ts" and l: "length cs = length ts" "\<forall>j<length ts. loads K rd 32 (p @ [word_of_nat j]) (cs ! j) (ts ! j)"
    and fl: "cached K rd m p fl t" by (auto elim: loads_FullE)
  show ?case
  proof (cases "nf_hash fl")
    case (Some h)
    then show ?thesis using cached_hash [OF fl Some] "2.prems" by (cases force) (auto simp: hashes_to_def)
  next
    case None
    have "\<forall>j<length ts. loads K rd 32 (p @ [word_of_nat (0 + j)]) (cs ! j) (ts ! j) \<and> p_small K (ts ! j) \<and>
       (if 0 + j < 16 then pwf (ts ! j) else ts ! j = PNil \<or> p_value (ts ! j))"
    proof (intro allI impI)
      fix j assume j: "j < length ts"
      have w: "length ts = 17" "\<forall>i<16. pwf (ts ! i)" "ts ! 16 = PNil \<or> p_value (ts ! 16)" using "2.prems"(2) t by (simp_all add: pwf_PFull)
      then have "j < 16 \<or> j = 16" using j by auto
      then show "loads K rd 32 (p @ [word_of_nat (0 + j)]) (cs ! j) (ts ! j) \<and> p_small K (ts ! j) \<and>
          (if 0 + j < 16 then pwf (ts ! j) else ts ! j = PNil \<or> p_value (ts ! j))"
        using w "2.prems"(4) t l j by auto
    qed
    from "2.IH" [OF None l(1) this] obtain hcs cs' where c: "h_children K 0 cs = Ret (hcs, cs')"
      "map child_item hcs = map (\<lambda>t. ref_item K (p_item K t)) ts" "length cs' = length ts"
      "\<forall>j<length ts. loads K rd 32 (p @ [word_of_nat j]) (cs' ! j) (ts ! j)" by auto
    have it: "node_item (FullNode hcs fl) = p_item K t" using c(2) t by (simp add: child_items_map)
    have "\<not> nf_dirty fl \<longrightarrow> m = 32 \<and> length (p_enc K t) < 32" using fl None by (simp add: cached_def)
    from finish_hash [OF it p_small_length [OF "2.prems"(4,3)] _ _ _ this, of force]
    obtain hashed where f: "nodeToHash K (FullNode hcs fl) force = Ret hashed" "cached K rd m p (set_hash hashed fl) t"
      "if force \<or> 32 \<le> length (p_enc K t) then hashed = HashNode (Bytes32 (K (p_enc K t))) else node_item hashed = p_item K t \<and> (\<forall>h. hashed \<noteq> HashNode h)"
      using "2.prems"(5) by auto
    have "loads K rd m p (Some (FullNode cs' (set_hash hashed fl))) t" using c(3,4) f(2) t loads_full by blast
    then show ?thesis unfolding hashes_to_def using None c(1) f(1,3) by simp
  qed
next
  case (3 K h force)
  then show ?case by (auto simp: hashes_to_def elim: loads_HashE)
next
  case (4 K v force)
  then show ?case by (auto elim: loads_ValueE)
next
  case (5 K k v fl)
  then have n: "p_node t" "pwf t" by (auto simp: p_value_def elim: loads_ShortE)
  show ?case using hashes_to_ref [OF "5.IH" [OF "5.prems"(1) n(2,1) "5.prems"(3)] n(1)] by auto
next
  case (6 K cs fl)
  then have n: "p_node t" "pwf t" by (auto simp: p_value_def elim: loads_FullE)
  show ?case using hashes_to_ref [OF "6.IH" [OF "6.prems"(1) n(2,1) "6.prems"(3)] n(1)] by auto
next
  case "7_1"
  then have "t = PNil" using loads_None by blast
  then show ?case using "7_1" by (simp add: p_value_def)
next
  case "7_2"
  then show ?case by (auto simp: p_value_def ref_item_node elim: loads_HashE)
next
  case "7_3"
  then show ?case by (auto simp: ref_item_def elim: loads_ValueE)
next
  case (8 K i)
  then show ?case by simp
next
  case (9 K i c cs)
  obtain t us where ts: "ts = t # us" using "9.prems"(1) by (cases ts) auto
  have t: "loads K rd 32 (p @ [word_of_nat i]) c t" "p_small K t" "if i < 16 then pwf t else t = PNil \<or> p_value t"
    using "9.prems"(2) [rule_format, of 0] ts by (simp_all split: if_splits)
  have us: "loads K rd 32 (p @ [word_of_nat (i + 1 + j)]) (cs ! j) (us ! j) \<and> p_small K (us ! j) \<and>
      (if i + 1 + j < 16 then pwf (us ! j) else us ! j = PNil \<or> p_value (us ! j))" if "j < length us" for j
    using "9.prems"(2) [rule_format, of "Suc j"] ts that by (simp split: if_splits)
  have hd: "\<exists>hc c'. (if i < 16 then
          (case c of Some n \<Rightarrow> go_bind (h_hash K n False) (\<lambda>(collapsed, cached). Ret (Some collapsed, Some cached))
           | None \<Rightarrow> Ret (Some (ValueNode []), None))
        else Ret (c, c)) = Ret (hc, c') \<and> child_item hc = ref_item K (p_item K t) \<and> loads K rd 32 (p @ [word_of_nat i]) c' t"
  proof (cases "i < 16 \<and> c \<noteq> None")
    case True
    then obtain n where n: "c = Some n" by auto
    have "pwf t" using t(3) True by simp
    moreover have "t \<noteq> PNil" using loads_None [OF t(1)] n by blast
    ultimately have "p_node t" "pwf t" using pwf_node by blast+
    then have "hashes_to K rd 32 (p @ [word_of_nat i]) False t (h_hash K n False)"
      using "9.IH"(1) [OF _ n, of 32 "p @ [word_of_nat i]" t] True n t by simp
    from hashes_to_ref [OF this \<open>p_node t\<close>] obtain hashed n' where
      "h_hash K n False = Ret (hashed, n')" "loads K rd 32 (p @ [word_of_nat i]) (Some n') t" "node_item hashed = ref_item K (p_item K t)"
      by blast
    then show ?thesis using True n by (intro exI [of _ "Some hashed"] exI [of _ "Some n'"]) simp
  next
    case False
    then show ?thesis using t loads_None [OF t(1)] by (auto simp: ref_item_def p_value_def loads_value_iff)
  qed
  then obtain hc c' where c: "(if i < 16 then
          (case c of Some n \<Rightarrow> go_bind (h_hash K n False) (\<lambda>(collapsed, cached). Ret (Some collapsed, Some cached))
           | None \<Rightarrow> Ret (Some (ValueNode []), None))
        else Ret (c, c)) = Ret (hc, c')" "child_item hc = ref_item K (p_item K t)" "loads K rd 32 (p @ [word_of_nat i]) c' t" by blast
  obtain hcs cs' where r: "h_children K (i + 1) cs = Ret (hcs, cs')" "map child_item hcs = map (\<lambda>t. ref_item K (p_item K t)) us"
    "length cs' = length us" "\<forall>j<length us. loads K rd 32 (p @ [word_of_nat (i + 1 + j)]) (cs' ! j) (us ! j)"
    using "9.IH"(2) [OF c(1) refl, of us p] us "9.prems"(1) ts by auto
  have "loads K rd 32 (p @ [word_of_nat (i + j)]) ((c' # cs') ! j) (ts ! j)" if "j < length ts" for j
    using c(3) r(4) that ts by (cases j) auto
  then show ?case using c r ts by (simp add: c(1) del: if_split)
qed

lemma trie_Hash_ok:
  assumes "trie_holds K t pt" "p_small K pt"
  shows "\<exists>t'. trie_Hash K t = Ret (p_root K pt, t') \<and> trie_holds K t' pt"
proof -
  have l: "loads K (t_reader t) 0 [] (t_root t) pt" "pwf pt" using assms(1) by (simp_all add: trie_holds_def)
  note nil = loads_None [OF l(1)]
  show ?thesis
  proof (cases "t_root t")
    case None
    then show ?thesis using nil assms(1) by (simp add: trie_Hash_def hashRoot_def p_root_def SetBytes_Bytes32 trie_holds_def loads_nil)
  next
    case (Some n)
    then have "p_node pt" using pwf_node [OF l(2)] nil by auto
    then have "hashes_to K (t_reader t) 0 [] True pt (h_hash K n True)"
      using h_hash_loads(1) [OF l(1) [unfolded Some] l(2) _ assms(2), of True] by simp
    then obtain n' where "h_hash K n True = Ret (HashNode (Bytes32 (K (p_enc K pt))), n')" "loads K (t_reader t) 0 [] (Some n') pt"
      by (auto simp: hashes_to_def)
    then show ?thesis using Some assms(1) nil by (simp add: trie_Hash_def hashRoot_def p_root_def SetBytes_Bytes32 trie_holds_def)
  qed
qed

section \<open>The hash binds the content\<close>

primrec p_subs :: "ptree \<Rightarrow> ptree set" where
  "p_subs PNil = {PNil}"
| "p_subs (PValue v) = {}"
| "p_subs (PShort s t) = insert (PShort s t) (p_subs t)"
| "p_subs (PFull ts) = insert (PFull ts) (\<Union> (set (map p_subs ts)))"

text \<open>The encodings of the subtrees, which the hash function is applied to.\<close>

definition blobs :: "(bytes \<Rightarrow> hash) \<Rightarrow> ptree \<Rightarrow> bytes set" where
  "blobs K t = p_enc K ` p_subs t"

lemma blobs_simps:
  "blobs K (PShort s t) = insert (p_enc K (PShort s t)) (blobs K t)"
  "blobs K (PFull ts) = insert (p_enc K (PFull ts)) (\<Union>t \<in> set ts. blobs K t)"
  by (auto simp: blobs_def)

lemma blobs_self: "p_node t \<Longrightarrow> p_enc K t \<in> blobs K t"
  by (cases t) (auto simp: blobs_simps)

lemma Bytes32_inj: "Bytes32 x = Bytes32 y \<longleftrightarrow> x = y"
  using SetBytes_Bytes32 by metis

lemma enc_dec_node:
  assumes "pwf t" "p_node t" "p_small K t" "pwf u" "p_node u" "p_small K u" "p_enc K t = p_enc K u"
  shows "dec_node K t h = dec_node K u h"
proof -
  have l: "length (p_enc K t) < 2 ^ 63" "length (p_enc K u) < 2 ^ 63"
    using p_small_length [OF assms(3,2)] p_small_length [OF assms(6,5)] by simp_all
  have "the (dec_node K t h) = the (dec_node K u h)"
    using decodeNode_dec [OF assms(1,2) l(1), of h] decodeNode_dec [OF assms(4,5) l(2), of h] assms(7) by simp
  then show ?thesis using dec_node_Some assms(2,5) by metis
qed

definition sub_ok :: "(bytes \<Rightarrow> hash) \<Rightarrow> ptree \<Rightarrow> bool" where
  "sub_ok K t \<longleftrightarrow> (pwf t \<or> p_value t) \<and> p_small K t"

lemma sub_ok_children:
  "pwf (PShort s t) \<Longrightarrow> p_small K (PShort s t) \<Longrightarrow> sub_ok K t"
  "pwf (PFull ts) \<Longrightarrow> p_small K (PFull ts) \<Longrightarrow> t \<in> set ts \<Longrightarrow> sub_ok K t"
proof -
  show "pwf (PShort s t) \<Longrightarrow> p_small K (PShort s t) \<Longrightarrow> sub_ok K t" by (auto simp: sub_ok_def p_value_def)
  assume f: "pwf (PFull ts)" "p_small K (PFull ts)" "t \<in> set ts"
  then obtain i where "i < 17" "t = ts ! i" by (auto simp: in_set_conv_nth pwf_PFull)
  then show "sub_ok K t" using f by (cases "i = 16") (auto simp: sub_ok_def pwf_PFull)
qed

lemma dec_node_not_hash: "dec_node K t h \<noteq> Some (HashNode x)"
  by (cases t) auto

lemma dec_ref_leaf:
  "dec_ref K t = dec_ref K u \<Longrightarrow> \<not> p_node t \<or> \<not> p_node u \<Longrightarrow> t = u"
proof -
  assume h: "dec_ref K t = dec_ref K u" "\<not> p_node t \<or> \<not> p_node u"
  have v: "p_node x \<longleftrightarrow> dec_ref K x \<noteq> None \<and> (\<forall>w. dec_ref K x \<noteq> Some (ValueNode w))" for x
    by (cases x) (auto simp: dec_ref_def)
  have "\<not> p_node t" "\<not> p_node u" using h v [of t] v [of u] by simp_all
  then show "t = u" using h(1) by (cases t; cases u) auto
qed

lemma dec_ref_inj:
  assumes "sub_ok K t" "sub_ok K u" "dec_ref K t = dec_ref K u" "inj_on K (blobs K t \<union> blobs K u)"
    and "p_node t \<Longrightarrow> p_node u \<Longrightarrow> dec_node K t None = dec_node K u None \<Longrightarrow> t = u"
  shows "t = u"
proof (cases "p_node t \<and> p_node u")
  case True
  then have r: "dec_ref K x = (if 32 \<le> length (p_enc K x) then Some (HashNode (Bytes32 (K (p_enc K x)))) else dec_node K x None)"
    if "x = t \<or> x = u" for x using that by (auto simp: dec_ref_def)
  have "p_enc K t = p_enc K u \<or> dec_node K t None = dec_node K u None"
  proof (cases "32 \<le> length (p_enc K t) \<and> 32 \<le> length (p_enc K u)")
    case big: True
    then have "K (p_enc K t) = K (p_enc K u)" using r assms(3) by (simp add: Bytes32_inj)
    then show ?thesis using inj_onD [OF assms(4)] blobs_self True by blast
  next
    case False
    then show ?thesis using r [of t] r [of u] assms(3) dec_node_not_hash by (metis (no_types))
  qed
  moreover have "pwf t" "pwf u" "p_small K t" "p_small K u" using assms(1,2) True by (auto simp: sub_ok_def p_value_def)
  ultimately show ?thesis using enc_dec_node [of t K u None] assms(5) True by blast
next
  case False
  then show ?thesis using assms(3) dec_ref_leaf by metis
qed

lemma dec_node_inj:
  "pwf t \<Longrightarrow> p_node t \<Longrightarrow> p_small K t \<Longrightarrow> pwf u \<Longrightarrow> p_node u \<Longrightarrow> p_small K u \<Longrightarrow>
   inj_on K (blobs K t \<union> blobs K u) \<Longrightarrow> dec_node K t None = dec_node K u None \<Longrightarrow> t = u"
proof (induction t arbitrary: u)
  case (PShort s t)
  then obtain v where u: "u = PShort s v" "dec_ref K t = dec_ref K v" by (cases u) auto
  have ok: "sub_ok K t" "sub_ok K v" using sub_ok_children(1) PShort.prems u by blast+
  have i: "inj_on K (blobs K t \<union> blobs K v)" using PShort.prems(7) u by (auto simp: blobs_simps intro: inj_on_subset)
  have "t = v"
  proof (rule dec_ref_inj [OF ok u(2) i])
    assume "p_node t" "p_node v" "dec_node K t None = dec_node K v None"
    then show "t = v" using PShort.IH ok i by (auto simp: sub_ok_def p_value_def)
  qed
  then show ?case using u by simp
next
  case (PFull ts)
  then obtain us where u: "u = PFull us" "map (dec_ref K) ts = map (dec_ref K) us" by (cases u) auto
  then have l: "length ts = length us" by (rule_tac map_eq_imp_length_eq)
  have "ts ! i = us ! i" if "i < length ts" for i
  proof -
    have m: "ts ! i \<in> set ts" "us ! i \<in> set us" using that l by auto
    have ok: "sub_ok K (ts ! i)" "sub_ok K (us ! i)" using sub_ok_children(2) PFull.prems u m by blast+
    have j: "inj_on K (blobs K (ts ! i) \<union> blobs K (us ! i))"
      by (rule inj_on_subset [OF PFull.prems(7)]) (use m u in \<open>auto simp: blobs_simps\<close>)
    have r: "dec_ref K (ts ! i) = dec_ref K (us ! i)" using u(2) that l by (metis nth_map)
    show ?thesis
    proof (rule dec_ref_inj [OF ok r j])
      assume "p_node (ts ! i)" "p_node (us ! i)" "dec_node K (ts ! i) None = dec_node K (us ! i) None"
      then show "ts ! i = us ! i" using PFull.IH [OF m(1)] ok j by (auto simp: sub_ok_def p_value_def)
    qed
  qed
  then show ?case using u l by (simp add: list_eq_iff_nth_eq)
qed simp_all

lemma p_enc_nil: "p_enc K PNil = [0x80]"
  by (simp add: p_enc_def str_head_def puthead_def)

lemma p_enc_node_not_nil:
  assumes "p_node t" "p_small K t"
  shows "p_enc K t \<noteq> p_enc K PNil"
proof
  assume eq: "p_enc K t = p_enc K PNil"
  obtain xs where x: "p_item K t = RList xs" using p_item_node assms(1) by blast
  have "Split (p_enc K t) = Ret (Inr (KList, concat (map rlp_enc xs), []))"
    using Split_enc_list [of xs "[]"] p_small_length [OF assms(2,1)] by (simp add: p_enc_def x del: rlp_enc.simps)
  moreover have "Split (p_enc K PNil) = Ret (Inr (KString, [], []))"
    using Split_enc_str [of "[]" "[]"] by (simp add: p_enc_def str_head_def puthead_def)
  ultimately show False using eq by simp
qed

lemma p_root_inj:
  assumes "pwf t" "pwf u" "p_small K t" "p_small K u" "inj_on K (blobs K t \<union> blobs K u)" "K [0x80] = EmptyRootHash" "p_root K t = p_root K u"
  shows "t = u"
proof -
  have r: "K (p_enc K t) = K (p_enc K u)" using assms(6,7) by (auto simp: p_root_def p_enc_nil split: if_splits)
  have in_blobs: "p_enc K t \<in> blobs K t" "p_enc K u \<in> blobs K u"
    using assms(1,2) pwf_node blobs_self by (auto simp: blobs_def dest!: pwf_node) 
  then have eq: "p_enc K t = p_enc K u" using inj_onD [OF assms(5) r] by blast
  consider "t = PNil" "u = PNil" | "p_node t" "p_node u"
    using assms(1-4) pwf_node p_enc_node_not_nil eq by metis
  then show ?thesis
  proof cases
    case 2
    then show ?thesis using dec_node_inj [of t K u] enc_dec_node [of t K u None] assms eq by blast
  qed simp
qed

section \<open>Property\<close>

lemma holds_facts:
  assumes "trie_holds K t pt" "p_get pt = hex_map m" "small_map m"
  shows "pwf pt" "p_small K pt" "\<exists>t'. trie_Hash K t = Ret (p_root K pt, t') \<and> represents K t' m"
proof -
  show w: "pwf pt" using assms(1) by (simp add: trie_holds_def)
  then show s: "p_small K pt" using bounded_small small_map_bounded assms(2,3) by metis
  show "\<exists>t'. trie_Hash K t = Ret (p_root K pt, t') \<and> represents K t' m"
    using trie_Hash_ok [OF assms(1) s] assms(2) by (auto simp: represents_def)
qed

text \<open>
  C4. The root hash identifies the content. Two tries that hold maps hash without a panic and go on
  holding them; equal maps give equal root hashes, whatever the histories, caches and unloaded parts of
  the tries are; and if the hash function has no collision among the encodings of their nodes, and the
  root of the empty trie is what the code says, equal root hashes give equal maps.
\<close>

theorem root_hash_identifies_content:
  assumes "trie_holds K t pt" "p_get pt = hex_map m" "small_map m"
    and "trie_holds K u pu" "p_get pu = hex_map m'" "small_map m'"
  shows "\<exists>r s t' u'. trie_Hash K t = Ret (r, t') \<and> trie_Hash K u = Ret (s, u') \<and> represents K t' m \<and> represents K u' m' \<and>
    (m = m' \<longrightarrow> r = s) \<and> (inj_on K (blobs K pt \<union> blobs K pu) \<and> K [0x80] = EmptyRootHash \<longrightarrow> r = s \<longrightarrow> m = m')"
proof -
  note a = holds_facts [OF assms(1-3)] and b = holds_facts [OF assms(4-6)]
  have eq: "m = m' \<longleftrightarrow> pt = pu"
  proof
    assume "m = m'"
    then show "pt = pu" using p_unique a(1) b(1) assms(2,5) by simp
  next
    assume "pt = pu"
    then have "hex_map m (keybytesToHex k) = hex_map m' (keybytesToHex k)" for k using assms(2,5) by simp
    then show "m = m'" by (simp add: fun_eq_iff)
  qed
  moreover have "inj_on K (blobs K pt \<union> blobs K pu) \<and> K [0x80] = EmptyRootHash \<longrightarrow> p_root K pt = p_root K pu \<longrightarrow> pt = pu"
    using p_root_inj a(1,2) b(1,2) by blast
  ultimately show ?thesis using a(3) b(3) by blast
qed

definition sample_hash :: "bytes \<Rightarrow> hash" where
  "sample_hash b = (if b = [0x80] then EmptyRootHash else SetBytes b)"

lemma sample_holds:
  "trie_holds sample_hash sample_trie PNil" "p_get PNil = hex_map Map.empty"
  "trie_holds sample_hash (sample_trie\<lparr>t_root := Some (ShortNode [0, 1, 16] (Some (ValueNode [5])) newFlag)\<rparr>) (PShort [0, 1, 16] (PValue [5]))"
  "p_get (PShort [0, 1, 16] (PValue [5])) = hex_map [[1] \<mapsto> [5]]"
proof -
  show "trie_holds sample_hash sample_trie PNil" by (simp add: trie_holds_def sample_trie_def loads_nil)
  show e: "p_get PNil = hex_map Map.empty" by (auto simp: fun_eq_iff hex_map_def split: go.splits)
  show "trie_holds sample_hash (sample_trie\<lparr>t_root := Some (ShortNode [0, 1, 16] (Some (ValueNode [5])) newFlag)\<rparr>) (PShort [0, 1, 16] (PValue [5]))"
    by (auto simp: trie_holds_def sample_trie_def full_key_def is_nibbles_def intro!: loads_short loads_value)
  have "keybytesToHex [1] = [0, 1, 16]" by (simp add: keybytesToHex_def)
  then have "hex_map [[1] \<mapsto> [5]] = (p_get PNil)([0, 1, 16] \<mapsto> [5])" using hex_map_upd [of Map.empty "[1]" "Some [5]"] e by simp
  also have "\<dots> = p_get (p_insert PNil [0, 1, 16] [5])" by (rule p_get_insert [symmetric]) (simp add: fits_def)
  finally show "p_get (PShort [0, 1, 16] (PValue [5])) = hex_map [[1] \<mapsto> [5]]" by (simp add: p_leaf_def)
qed

theorem root_hash_identifies_content_witness:
  "\<exists>r s t' u'. trie_Hash sample_hash sample_trie = Ret (r, t') \<and>
    trie_Hash sample_hash (sample_trie\<lparr>t_root := Some (ShortNode [0, 1, 16] (Some (ValueNode [5])) newFlag)\<rparr>) = Ret (s, u') \<and> r \<noteq> s"
proof -
  have e: "p_enc sample_hash (PShort [0, 1, 16] (PValue [5])) = [0xC4, 0x82, 0x20, 0x01, 0x05]"
    by (simp add: p_enc_def ref_item_def key_compact_def hasTerm_def compact_of_def str_head_def puthead_def Let_def)
  have k: "sample_hash [0xC4, 0x82, 0x20, 0x01, 0x05] = 0xC482200105" by (simp add: sample_hash_def SetBytes_Cons)
  have i: "inj_on sample_hash (blobs sample_hash PNil \<union> blobs sample_hash (PShort [0, 1, 16] (PValue [5])))"
    by (simp add: blobs_def e p_enc_nil k) (simp add: sample_hash_def)
  have s: "small_map Map.empty" "small_map [[1] \<mapsto> [5]]" by (auto simp: small_map_def)
  have "(Map.empty :: bytes \<rightharpoonup> bytes) \<noteq> [[1] \<mapsto> [5]]" "sample_hash [0x80] = EmptyRootHash" by (auto simp: fun_eq_iff sample_hash_def)
  then show ?thesis
    using root_hash_identifies_content [OF sample_holds(1,2) s(1) sample_holds(3,4) s(2)] i by blast
qed

end
