(* ===== verification/Headers.thy ===== *)
theory Headers imports RLP_Encode State_Transition begin

text \<open>
  Block headers: \<open>Header\<close> of \<open>core/types/block.go\<close> with its sanity check, its copy, its RLP encoding
  (\<open>core/types/gen_header_rlp.go\<close>) and its hash. A nil pointer is \<open>None\<close>; a \<open>Bloom\<close> and a \<open>BlockNonce\<close>
  are words, read big-endian like hashes. Keccak-256 is the parameter \<open>K\<close>.
\<close>

section \<open>rlp/encbuffer.go: big integers\<close>

text \<open>The words \<open>Bits\<close> of a big integer, least significant first, and the loops that lay them out.\<close>

fun big_Bits :: "nat \<Rightarrow> u64 list" where
  "big_Bits n = (if n = 0 then [] else word_of_nat n # big_Bits (n div 18446744073709551616))"

declare big_Bits.simps [simp del]

fun put_word :: "nat \<Rightarrow> nat \<Rightarrow> u64 \<Rightarrow> bytes \<Rightarrow> nat \<times> bytes" where
  "put_word 0 index d b = (index, b)"
| "put_word (Suc j) index d b =
     (if index = 0 then (index, b) else put_word j (index - 1) (drop_bit 8 d) (b[index - 1 := ucast d]))"

fun put_words :: "u64 list \<Rightarrow> nat \<Rightarrow> bytes \<Rightarrow> bytes" where
  "put_words [] index b = b"
| "put_words (d # ds) index b = (case put_word 8 index d b of (index, b) \<Rightarrow> put_words ds index b)"

definition eb_writeBigInt :: "int \<Rightarrow> encBuffer \<Rightarrow> encBuffer" where
  "eb_writeBigInt i buf =
     (let bitlen = int_BitLen i
      in if bitlen \<le> 64 then eb_writeUint64 (word_of_nat (nat \<bar>i\<bar>)) buf
         else
           let len = (bitlen + 7) div 8
           in eb_Write (put_words (big_Bits (nat \<bar>i\<bar>)) len (replicate len 0)) (eb_encodeStringHeader len buf))"

section \<open>core/types/block.go: headers\<close>

type_synonym bloom = "2048 word"

record header =
  hd_ParentHash :: hash
  hd_UncleHash :: hash
  hd_Coinbase :: address
  hd_Root :: hash
  hd_TxHash :: hash
  hd_ReceiptHash :: hash
  hd_Bloom :: bloom
  hd_Difficulty :: "int option"
  hd_Number :: "int option"
  hd_GasLimit :: u64
  hd_GasUsed :: u64
  hd_Time :: u64
  hd_Extra :: bytes
  hd_MixDigest :: hash
  hd_Nonce :: u64
  hd_BaseFee :: "int option"
  hd_WithdrawalsHash :: "hash option"
  hd_BlobGasUsed :: "u64 option"
  hd_ExcessBlobGas :: "u64 option"
  hd_ParentBeaconRoot :: "hash option"

datatype sanity_error = TooLargeNumber nat | TooLargeDifficulty nat | TooLargeExtra nat | TooLargeBaseFee nat

definition IsUint64 :: "int \<Rightarrow> bool" where
  "IsUint64 x \<longleftrightarrow> \<not> x < 0 \<and> int_BitLen x \<le> 64"

definition hd_SanityCheck :: "header \<Rightarrow> sanity_error option" where
  "hd_SanityCheck h =
     (if (case hd_Number h of None \<Rightarrow> False | Some n \<Rightarrow> \<not> IsUint64 n)
      then Some (TooLargeNumber (int_BitLen (the (hd_Number h))))
      else if (case hd_Difficulty h of None \<Rightarrow> False | Some d \<Rightarrow> int_BitLen d > 80)
      then Some (TooLargeDifficulty (int_BitLen (the (hd_Difficulty h))))
      else if length (hd_Extra h) > 100 * 1024
      then Some (TooLargeExtra (length (hd_Extra h)))
      else if (case hd_BaseFee h of None \<Rightarrow> False | Some b \<Rightarrow> int_BitLen b > 256)
      then Some (TooLargeBaseFee (int_BitLen (the (hd_BaseFee h))))
      else None)"

abbreviation (input) EmptyTxsHash :: hash where "EmptyTxsHash \<equiv> EmptyRootHash"
abbreviation (input) EmptyReceiptsHash :: hash where "EmptyReceiptsHash \<equiv> EmptyRootHash"
abbreviation (input) EmptyWithdrawalsHash :: hash where "EmptyWithdrawalsHash \<equiv> EmptyRootHash"

text \<open>\<open>EmptyUncleHash\<close> and \<open>CalcUncleHash(nil)\<close> hash the encoding of an empty list.\<close>

definition EmptyUncleHash :: "(bytes \<Rightarrow> hash) \<Rightarrow> hash" where
  "EmptyUncleHash K = K [0xC0]"

definition hd_EmptyBody :: "(bytes \<Rightarrow> hash) \<Rightarrow> header \<Rightarrow> bool" where
  "hd_EmptyBody K h =
     (case hd_WithdrawalsHash h of
        Some w \<Rightarrow> hd_TxHash h = EmptyTxsHash \<and> w = EmptyWithdrawalsHash
      | None \<Rightarrow> hd_TxHash h = EmptyTxsHash \<and> hd_UncleHash h = EmptyUncleHash K)"

definition hd_EmptyReceipts :: "header \<Rightarrow> bool" where
  "hd_EmptyReceipts h \<longleftrightarrow> hd_ReceiptHash h = EmptyReceiptsHash"

text \<open>The copy has a difficulty and a number even where the original has nil.\<close>

definition CopyHeader :: "header \<Rightarrow> header" where
  "CopyHeader h =
     h\<lparr>hd_Difficulty := Some (case hd_Difficulty h of None \<Rightarrow> 0 | Some d \<Rightarrow> d),
       hd_Number := Some (case hd_Number h of None \<Rightarrow> 0 | Some n \<Rightarrow> n)\<rparr>"

section \<open>core/types/gen\_header\_rlp.go: the encoding\<close>

definition bloom_bytes :: "bloom \<Rightarrow> bytes" where
  "bloom_bytes w = map (\<lambda>i. ucast (drop_bit (8 * (255 - i)) w)) [0..<256]"

definition nonce_bytes :: "u64 \<Rightarrow> bytes" where
  "nonce_bytes w = map (\<lambda>i. ucast (drop_bit (8 * (7 - i)) w)) [0..<8]"

datatype encode_error = ErrNegativeBigInt

definition write_big :: "int option \<Rightarrow> encBuffer \<Rightarrow> encode_error + encBuffer" where
  "write_big i w =
     (case i of
        None \<Rightarrow> Inr (eb_Write [0x80] w)
      | Some i \<Rightarrow> if sgn i = - 1 then Inl ErrNegativeBigInt else Inr (eb_writeBigInt i w))"

definition write_hash_ptr :: "hash option \<Rightarrow> encBuffer \<Rightarrow> encBuffer" where
  "write_hash_ptr p = (case p of None \<Rightarrow> eb_Write [0x80] | Some h \<Rightarrow> eb_writeBytes (Bytes32 h))"

definition write_uint_ptr :: "u64 option \<Rightarrow> encBuffer \<Rightarrow> encBuffer" where
  "write_uint_ptr p = (case p of None \<Rightarrow> eb_Write [0x80] | Some i \<Rightarrow> eb_writeUint64 i)"

definition hd_EncodeRLP :: "header \<Rightarrow> encBuffer \<Rightarrow> (encode_error + encBuffer) go" where
  "hd_EncodeRLP obj w =
     (let (tmp0, w) = eb_list w;
          w = eb_writeBytes (Bytes32 (hd_ParentHash obj)) w;
          w = eb_writeBytes (Bytes32 (hd_UncleHash obj)) w;
          w = eb_writeBytes (address_bytes (hd_Coinbase obj)) w;
          w = eb_writeBytes (Bytes32 (hd_Root obj)) w;
          w = eb_writeBytes (Bytes32 (hd_TxHash obj)) w;
          w = eb_writeBytes (Bytes32 (hd_ReceiptHash obj)) w;
          w = eb_writeBytes (bloom_bytes (hd_Bloom obj)) w
      in case write_big (hd_Difficulty obj) w of
           Inl e \<Rightarrow> Ret (Inl e)
         | Inr w \<Rightarrow>
      (case write_big (hd_Number obj) w of
           Inl e \<Rightarrow> Ret (Inl e)
         | Inr w \<Rightarrow>
      let w = eb_writeUint64 (hd_GasLimit obj) w;
          w = eb_writeUint64 (hd_GasUsed obj) w;
          w = eb_writeUint64 (hd_Time obj) w;
          w = eb_writeBytes (hd_Extra obj) w;
          w = eb_writeBytes (Bytes32 (hd_MixDigest obj)) w;
          w = eb_writeBytes (nonce_bytes (hd_Nonce obj)) w;
          tmp1 = (hd_BaseFee obj \<noteq> None);
          tmp2 = (hd_WithdrawalsHash obj \<noteq> None);
          tmp3 = (hd_BlobGasUsed obj \<noteq> None);
          tmp4 = (hd_ExcessBlobGas obj \<noteq> None);
          tmp5 = (hd_ParentBeaconRoot obj \<noteq> None)
      in case (if tmp1 \<or> tmp2 \<or> tmp3 \<or> tmp4 \<or> tmp5 then write_big (hd_BaseFee obj) w else Inr w) of
           Inl e \<Rightarrow> Ret (Inl e)
         | Inr w \<Rightarrow>
      let w = (if tmp2 \<or> tmp3 \<or> tmp4 \<or> tmp5 then write_hash_ptr (hd_WithdrawalsHash obj) w else w);
          w = (if tmp3 \<or> tmp4 \<or> tmp5 then write_uint_ptr (hd_BlobGasUsed obj) w else w);
          w = (if tmp4 \<or> tmp5 then write_uint_ptr (hd_ExcessBlobGas obj) w else w);
          w = (if tmp5 then write_hash_ptr (hd_ParentBeaconRoot obj) w else w)
      in go_bind (eb_listEnd tmp0 w) (\<lambda>w. Ret (Inr w))))"

text \<open>
  \<open>Hash\<close>: \<open>rlpHash\<close> ignores the error of \<open>rlp.Encode\<close>, which writes nothing to the hasher then.
\<close>

definition hd_Hash :: "(bytes \<Rightarrow> hash) \<Rightarrow> header \<Rightarrow> hash go" where
  "hd_Hash K h =
     go_bind (hd_EncodeRLP h eb_reset) (\<lambda>r.
       case r of
         Inl _ \<Rightarrow> Ret (K [])
       | Inr w \<Rightarrow> go_bind (eb_makeBytes w) (\<lambda>b. Ret (K b)))"

section \<open>Big integers are written as their bytes\<close>

lemma bit_len_64: "bit_len n \<le> 64 \<longleftrightarrow> n < 18446744073709551616"
  using bit_len_le [of n 64] by simp

lemma length_nat_Bytes_le: "length (nat_Bytes n) \<le> k \<longleftrightarrow> n < 256 ^ k"
proof (induction n arbitrary: k rule: nat_Bytes.induct)
  case (1 n)
  show ?case
  proof (cases "n = 0")
    case False
    show ?thesis
    proof (cases k)
      case (Suc j)
      have "length (nat_Bytes n) \<le> k \<longleftrightarrow> length (nat_Bytes (n div 256)) \<le> j"
        using False by (subst nat_Bytes.simps) (simp add: Suc)
      also have "\<dots> \<longleftrightarrow> n div 256 < 256 ^ j" by (rule "1.IH" [OF False])
      also have "\<dots> \<longleftrightarrow> n < 256 ^ k" by (simp add: Suc div_less_iff_less_mult mult.commute)
      finally show ?thesis .
    qed (use False in \<open>subst nat_Bytes.simps, simp\<close>)
  qed (simp add: nat_Bytes.simps)
qed

lemma length_nat_Bytes_bits: "length (nat_Bytes n) = (bit_len n + 7) div 8"
proof -
  have "length (nat_Bytes n) \<le> k \<longleftrightarrow> (bit_len n + 7) div 8 \<le> k" for k
  proof -
    have "(bit_len n + 7) div 8 \<le> k \<longleftrightarrow> bit_len n \<le> 8 * k" by linarith
    then show ?thesis by (simp add: bit_len_le length_nat_Bytes_le power_mult)
  qed
  then show ?thesis by (metis le_antisym order_refl)
qed

fun put_nat :: "nat \<Rightarrow> nat \<Rightarrow> nat \<Rightarrow> bytes \<Rightarrow> nat \<times> bytes" where
  "put_nat 0 index n b = (index, b)"
| "put_nat (Suc j) index n b =
     (if index = 0 then (index, b) else put_nat j (index - 1) (n div 256) (b[index - 1 := word_of_nat n]))"

lemma put_word_nat: "j \<le> 8 \<Longrightarrow> put_word j index (word_of_nat n) b = put_nat j index (n mod 18446744073709551616) b"
proof -
  have *: "put_word j index d b = put_nat j index (unat d) b" for j index d b
  proof (induction j arbitrary: index d b)
    case (Suc j)
    have "unat (drop_bit 8 d) = unat d div 256" by (simp add: unat_div drop_bit_eq_div)
    moreover have "ucast d = (word_of_nat (unat d) :: u8)" by simp
    ultimately show ?case using Suc.IH by simp
  qed simp
  show ?thesis by (simp add: * unat_of_nat)
qed

lemma put_nat_mod: "put_nat j index (n mod 256 ^ j) b = put_nat j index n b"
proof (induction j arbitrary: index n b)
  case (Suc j)
  have "(n mod 256 ^ Suc j) div 256 = n div 256 mod 256 ^ j"
    by (simp add: mod_mult2_eq)
  moreover have "word_of_nat (n mod 256 ^ Suc j) = (word_of_nat n :: u8)"
    unfolding word_of_nat_eq_iff take_bit_eq_mod by (rule mod_mod_cancel) simp
  ultimately show ?case using Suc.IH by simp
qed simp


text \<open>Writing \<open>n\<close> from the end of a buffer leaves its bytes, padded.\<close>

lemma nat_Bytes_0 [simp]: "nat_Bytes 0 = []"
  by (simp add: nat_Bytes.simps)

lemma nat_Bytes_step: "n \<noteq> 0 \<Longrightarrow> nat_Bytes n = nat_Bytes (n div 256) @ [word_of_nat n]"
  by (subst nat_Bytes.simps) simp

lemma put_nat_bytes:
  assumes "n < 256 ^ index" "index \<le> j" "length b = index"
  shows "snd (put_nat j index n (b @ c)) = replicate (index - length (nat_Bytes n)) 0 @ nat_Bytes n @ c"
  using assms
proof (induction j arbitrary: index n b c)
  case (Suc j)
  show ?case
  proof (cases index)
    case 0
    then show ?thesis using Suc.prems by simp
  next
    case i: (Suc i)
    then obtain b' x where b: "b = b' @ [x]" "length b' = i" using Suc.prems(3) by (metis length_Suc_conv_rev)
    have n: "n div 256 < 256 ^ i" using Suc.prems(1) by (simp add: i div_less_iff_less_mult mult.commute)
    have "(b @ c)[index - 1 := word_of_nat n] = b' @ word_of_nat n # c"
      by (simp add: b i list_update_append)
    then have *: "snd (put_nat (Suc j) index n (b @ c)) =
        replicate (i - length (nat_Bytes (n div 256))) 0 @ nat_Bytes (n div 256) @ word_of_nat n # c"
      using Suc.IH [OF n _ b(2), of "word_of_nat n # c"] Suc.prems(2) by (simp add: i)
    show ?thesis
    proof (cases "n = 0")
      case True
      then have "snd (put_nat (Suc j) index n (b @ c)) = (replicate i 0 @ [0]) @ c" using * by simp
      then show ?thesis unfolding replicate_append_same i by (simp add: True)
    next
      case False
      show ?thesis unfolding * nat_Bytes_step [OF False] by (simp add: i)
    qed
  qed
qed simp

lemma put_nat_add:
  "put_nat (j + k) index n b = (case put_nat j index n b of (i', b') \<Rightarrow> put_nat k i' (n div 256 ^ j) b')"
proof (induction j arbitrary: index n b)
  case (Suc j)
  have "put_nat k 0 m b = (0, b)" for m b by (cases k) simp_all
  then show ?case using Suc.IH by (simp add: div_mult2_eq)
qed simp

lemma big_Bits_step: "n \<noteq> 0 \<Longrightarrow> big_Bits n = word_of_nat n # big_Bits (n div 18446744073709551616)"
  by (subst big_Bits.simps) simp

lemma big_Bits_0 [simp]: "big_Bits 0 = []"
  by (simp add: big_Bits.simps)

lemma put_words_nat: "put_words (big_Bits n) index b = snd (put_nat (8 * length (big_Bits n)) index n b)"
proof (induction n arbitrary: index b rule: big_Bits.induct)
  case (1 n)
  show ?case
  proof (cases "n = 0")
    case False
    have "put_word 8 index (word_of_nat n) b = put_nat 8 index n b"
      using put_nat_mod [of 8 index n b] put_word_nat [of 8 index n b] by simp
    then show ?thesis using "1.IH" [OF False] put_nat_add [of 8 _ index n b]
      by (simp add: big_Bits_step [OF False] split: prod.splits)
  qed simp
qed

lemma big_Bits_length: "n < 256 ^ (8 * length (big_Bits n))"
proof (induction n rule: big_Bits.induct)
  case (1 n)
  show ?case
  proof (cases "n = 0")
    case False
    have "n div 18446744073709551616 < 256 ^ (8 * length (big_Bits (n div 18446744073709551616)))" by (rule "1.IH" [OF False])
    then have "n < 18446744073709551616 * 256 ^ (8 * length (big_Bits (n div 18446744073709551616)))"
      by (subst (asm) div_less_iff_less_mult) (simp_all add: mult.commute)
    then show ?thesis by (simp add: big_Bits_step [OF False] power_add)
  qed simp
qed

lemma put_words_Bytes:
  "put_words (big_Bits n) (length (nat_Bytes n)) (replicate (length (nat_Bytes n)) 0) = nat_Bytes n"
proof -
  have "n < 256 ^ length (nat_Bytes n)" using length_nat_Bytes_le by blast
  moreover have "length (nat_Bytes n) \<le> 8 * length (big_Bits n)" using length_nat_Bytes_le big_Bits_length by blast
  ultimately show ?thesis
    using put_nat_bytes [of n "length (nat_Bytes n)" "8 * length (big_Bits n)" "replicate (length (nat_Bytes n)) 0" "[]"]
    by (simp add: put_words_nat)
qed

lemma nat_Bytes_be:
  assumes "256 ^ n \<le> m" "m < 256 ^ Suc n"
  shows "nat_Bytes m = map (\<lambda>k. word_of_nat (m div 256 ^ (n - k))) [0..<Suc n]"
  using assms
proof (induction n arbitrary: m)
  case 0
  then show ?case by (simp add: nat_Bytes_step)
next
  case (Suc n)
  have m: "256 ^ n \<le> m div 256" "m div 256 < 256 ^ Suc n"
    using Suc.prems by (simp_all add: less_eq_div_iff_mult_less_eq div_less_iff_less_mult mult.commute)
  have "0 < (256 :: nat) ^ Suc n" by simp
  then have z: "m \<noteq> 0" using Suc.prems(1) by linarith
  have "map (\<lambda>k. word_of_nat (m div 256 div 256 ^ (n - k)) :: u8) [0..<Suc n] =
      map (\<lambda>k. word_of_nat (m div 256 ^ (Suc n - k))) [0..<Suc n]"
    by (simp add: Suc_diff_le flip: div_mult2_eq)
  then show ?case unfolding nat_Bytes_step [OF z] Suc.IH [OF m] by simp
qed

lemma putint_Bytes: "i \<noteq> 0 \<Longrightarrow> putint i = nat_Bytes (unat i)"
proof -
  assume i: "i \<noteq> 0"
  obtain n where n: "unat i < 256 ^ Suc n" "256 ^ n \<le> unat i" "putint i = be_bytes (Suc n) i"
    using putint_be i by metis
  have "ucast (drop_bit (8 * (Suc n - Suc k)) i) = (word_of_nat (unat i div 256 ^ (n - k)) :: u8)" for k
  proof -
    have "(ucast (drop_bit (8 * (n - k)) i) :: u8) = word_of_nat (unat (drop_bit (8 * (n - k)) i))" by simp
    moreover have "unat (drop_bit (8 * (n - k)) i) = unat i div 256 ^ (n - k)"
      unfolding unat_drop_bit_eq by (simp add: drop_bit_eq_div power_mult)
    ultimately show ?thesis by (simp only: diff_Suc_Suc)
  qed
  then show ?thesis unfolding n(3) nat_Bytes_be [OF n(2,1)] by (simp only:)
qed

lemma writeUint64_bytes: "eb_writeUint64 i = eb_writeBytes (nat_Bytes (unat i))"
proof (rule ext)
  fix buf
  show "eb_writeUint64 i buf = eb_writeBytes (nat_Bytes (unat i)) buf"
  proof (cases "i = 0")
    case False
    then have z: "unat i \<noteq> 0" by (simp add: unat_eq_zero)
    show ?thesis
    proof (cases "i < 128")
      case True
      then have "unat i div 256 = 0" by (simp add: word_less_nat_alt)
      then have "nat_Bytes (unat i) = [ucast i]" using nat_Bytes_step [OF z] by simp
      moreover have "(ucast i :: u8) \<le> 0x7F"
        using True by (simp add: word_le_nat_alt word_less_nat_alt unsigned_ucast_eq take_bit_eq_mod)
      ultimately show ?thesis using True False by (simp add: eb_writeUint64_def eb_writeBytes_def)
    next
      case b: False
      have len: "length (nat_Bytes (unat i)) < 56"
        using length_nat_Bytes_le [of "unat i" 8] u64_bound [of i] by simp
      have ns: "\<not> (length (nat_Bytes (unat i)) = 1 \<and> nat_Bytes (unat i) ! 0 \<le> 0x7F)"
      proof
        assume a: "length (nat_Bytes (unat i)) = 1 \<and> nat_Bytes (unat i) ! 0 \<le> 0x7F"
        then have "unat i < 256" using length_nat_Bytes_le [of "unat i" 1] by simp
        then have "nat_Bytes (unat i) = [word_of_nat (unat i)]" using nat_Bytes_step [OF z] by simp
        then have "unat (word_of_nat (unat i) :: u8) \<le> 127" using a by (simp add: word_le_nat_alt)
        then have "unat i \<le> 127" using \<open>unat i < 256\<close> by (simp add: unat_of_nat unsigned_ucast_eq take_bit_eq_mod)
        then show False using b by (simp add: word_less_nat_alt)
      qed
      show ?thesis
        unfolding eb_writeBytes_def if_not_P [OF ns]
        using False b len by (simp add: eb_writeUint64_def putint_Bytes eb_encodeStringHeader_def eb_Write_def)
    qed
  qed (simp add: eb_writeUint64_def eb_writeBytes_def eb_encodeStringHeader_def eb_Write_def)
qed

lemma writeBigInt_bytes: "eb_writeBigInt i = eb_writeBytes (nat_Bytes (nat \<bar>i\<bar>))"
proof (rule ext)
  fix buf
  let ?n = "nat \<bar>i\<bar>"
  show "eb_writeBigInt i buf = eb_writeBytes (nat_Bytes ?n) buf"
  proof (cases "bit_len ?n \<le> 64")
    case True
    then have "unat (word_of_nat ?n :: u64) = ?n" unfolding unat_of_nat by (simp add: bit_len_64)
    then show ?thesis using True by (simp add: eb_writeBigInt_def int_BitLen_def writeUint64_bytes Let_def)
  next
    case False
    then have "length (nat_Bytes ?n) \<noteq> 1" unfolding length_nat_Bytes_bits by linarith
    then show ?thesis using False put_words_Bytes [of ?n]
      by (simp add: eb_writeBigInt_def int_BitLen_def eb_writeBytes_def Let_def flip: length_nat_Bytes_bits)
  qed
qed

section \<open>The encoding of a header is that of a list of strings\<close>

definition hash_item :: "hash \<Rightarrow> rlp_item" where
  "hash_item h = RStr (Bytes32 h)"

definition big_item :: "int option \<Rightarrow> rlp_item" where
  "big_item i = RStr (nat_Bytes (case i of None \<Rightarrow> 0 | Some i \<Rightarrow> nat \<bar>i\<bar>))"

definition uint_item :: "u64 \<Rightarrow> rlp_item" where
  "uint_item i = RStr (nat_Bytes (unat i))"

definition ptr_item :: "('a \<Rightarrow> rlp_item) \<Rightarrow> 'a option \<Rightarrow> rlp_item" where
  "ptr_item f p = (case p of None \<Rightarrow> RStr [] | Some x \<Rightarrow> f x)"

text \<open>The items up to the difficulty, those up to the nonce, and the optional ones that are there.\<close>

definition hd_items1 :: "header \<Rightarrow> rlp_item list" where
  "hd_items1 h =
     [hash_item (hd_ParentHash h), hash_item (hd_UncleHash h), RStr (address_bytes (hd_Coinbase h)),
      hash_item (hd_Root h), hash_item (hd_TxHash h), hash_item (hd_ReceiptHash h), RStr (bloom_bytes (hd_Bloom h))]"

definition hd_items2 :: "header \<Rightarrow> rlp_item list" where
  "hd_items2 h =
     [uint_item (hd_GasLimit h), uint_item (hd_GasUsed h), uint_item (hd_Time h), RStr (hd_Extra h),
      hash_item (hd_MixDigest h), RStr (nonce_bytes (hd_Nonce h))]"

definition hd_items3 :: "header \<Rightarrow> rlp_item list" where
  "hd_items3 h =
     (let t1 = hd_BaseFee h \<noteq> None; t2 = hd_WithdrawalsHash h \<noteq> None; t3 = hd_BlobGasUsed h \<noteq> None;
          t4 = hd_ExcessBlobGas h \<noteq> None; t5 = hd_ParentBeaconRoot h \<noteq> None
      in (if t1 \<or> t2 \<or> t3 \<or> t4 \<or> t5 then [big_item (hd_BaseFee h)] else []) @
         (if t2 \<or> t3 \<or> t4 \<or> t5 then [ptr_item hash_item (hd_WithdrawalsHash h)] else []) @
         (if t3 \<or> t4 \<or> t5 then [ptr_item uint_item (hd_BlobGasUsed h)] else []) @
         (if t4 \<or> t5 then [ptr_item uint_item (hd_ExcessBlobGas h)] else []) @
         (if t5 then [ptr_item hash_item (hd_ParentBeaconRoot h)] else []))"

definition hd_items :: "header \<Rightarrow> rlp_item list" where
  "hd_items h = hd_items1 h @ [big_item (hd_Difficulty h), big_item (hd_Number h)] @ hd_items2 h @ hd_items3 h"

definition not_negative :: "int option \<Rightarrow> bool" where
  "not_negative i = (case i of None \<Rightarrow> True | Some i \<Rightarrow> 0 \<le> i)"

definition hd_signs :: "header \<Rightarrow> bool" where
  "hd_signs h \<longleftrightarrow> not_negative (hd_Difficulty h) \<and> not_negative (hd_Number h) \<and> not_negative (hd_BaseFee h)"

lemma write_items_append: "write_items (xs @ ys) buf = go_bind (write_items xs buf) (write_items ys)"
proof (induction xs arbitrary: buf)
  case (Cons x xs)
  then have "write_items (xs @ ys) = (\<lambda>b. go_bind (write_items xs b) (write_items ys))" by (intro ext)
  then show ?case by (simp add: go_bind_assoc)
qed simp

lemma Write_empty: "eb_Write [0x80] buf = eb_writeBytes [] buf"
  by (simp add: eb_writeBytes_def eb_encodeStringHeader_def eb_Write_def)

lemma write_big_item: "not_negative i \<Longrightarrow> write_item (big_item i) buf = Ret (case write_big i buf of Inr w \<Rightarrow> w) \<and> write_big i buf \<noteq> Inl e"
  by (auto simp: big_item_def write_big_def writeBigInt_bytes Write_empty not_negative_def sgn_if split: option.splits)

lemma write_ptr_items:
  "write_item (ptr_item hash_item p) buf = Ret (write_hash_ptr p buf)"
  "write_item (ptr_item uint_item q) buf = Ret (write_uint_ptr q buf)"
  by (auto simp: ptr_item_def write_hash_ptr_def write_uint_ptr_def hash_item_def uint_item_def writeUint64_bytes Write_empty
    split: option.splits)

lemma EncodeRLP_items:
  assumes "hd_signs h"
  shows "hd_EncodeRLP h w = go_bind (write_item (RList (hd_items h)) w) (\<lambda>w. Ret (Inr w))"
proof -
  have n: "not_negative (hd_Difficulty h)" "not_negative (hd_Number h)" "not_negative (hd_BaseFee h)"
    using assms by (simp_all add: hd_signs_def)
  have wb: "\<exists>w'. write_big i buf = Inr w' \<and> write_item (big_item i) buf = Ret w'" if "not_negative i" for i buf
    using write_big_item [OF that, of buf] by (cases "write_big i buf") auto
  obtain w0 idx where l: "eb_list w = (idx, w0)" by fastforce
  obtain w1 where w1: "write_items (hd_items1 h) w0 = Ret w1" by (simp add: hd_items1_def hash_item_def)
  obtain w2 where w2: "write_big (hd_Difficulty h) w1 = Inr w2" "write_item (big_item (hd_Difficulty h)) w1 = Ret w2"
    using wb [OF n(1)] by blast
  obtain w3 where w3: "write_big (hd_Number h) w2 = Inr w3" "write_item (big_item (hd_Number h)) w2 = Ret w3"
    using wb [OF n(2)] by blast
  obtain w4 where w4: "write_items (hd_items2 h) w3 = Ret w4" by (simp add: hd_items2_def hash_item_def uint_item_def)
  obtain w5 where w5: "write_big (hd_BaseFee h) w4 = Inr w5" "write_item (big_item (hd_BaseFee h)) w4 = Ret w5"
    using wb [OF n(3)] by blast
  show ?thesis
    using w1 w4
    by (simp add: hd_EncodeRLP_def hd_items_def l w2 w3 w5 write_items_append hd_items1_def hd_items2_def hd_items3_def
      hash_item_def uint_item_def writeUint64_bytes write_ptr_items Let_def)
qed

section \<open>Sizes\<close>

definition str_item :: "rlp_item \<Rightarrow> bool" where
  "str_item x \<longleftrightarrow> (\<exists>b. x = RStr b \<and> length b \<le> 102400)"

lemma length_enc_str: "length (rlp_enc (RStr b)) \<le> length b + 9"
proof -
  obtain n where "n < 8" "putint (word_of_nat (length b)) = be_bytes (Suc n) (word_of_nat (length b))" using putint_be by metis
  then have "length (str_head (length b)) \<le> 9" by (simp add: str_head_def puthead_def)
  then show ?thesis by simp
qed

lemma length_enc_strs: "list_all str_item xs \<Longrightarrow> length (concat (map rlp_enc xs)) \<le> length xs * 102409"
proof (induction xs)
  case (Cons x xs)
  then obtain b where "x = RStr b" "length b \<le> 102400" by (auto simp: str_item_def)
  then have "length (rlp_enc x) \<le> 102409" using length_enc_str [of b] by simp
  then show ?case using Cons by simp
qed simp

lemma uint_item_ok: "str_item (uint_item i)"
  using length_nat_Bytes_le [of "unat i" 8] u64_bound [of i] by (simp add: str_item_def uint_item_def)

lemma big_item_ok: "int_BitLen (case i of None \<Rightarrow> 0 | Some i \<Rightarrow> i) \<le> 256 \<Longrightarrow> str_item (big_item i)"
  using length_nat_Bytes_le [of "nat \<bar>case i of None \<Rightarrow> 0 | Some i \<Rightarrow> i\<bar>" 32]
    bit_len_le [of "nat \<bar>case i of None \<Rightarrow> 0 | Some i \<Rightarrow> i\<bar>" 256]
  by (auto simp: str_item_def big_item_def int_BitLen_def split: option.splits)

lemma hash_item_ok: "str_item (hash_item h)"
  by (simp add: str_item_def hash_item_def)

lemma ptr_item_ok: "(\<And>x. str_item (f x)) \<Longrightarrow> str_item (ptr_item f p)"
  by (auto simp: ptr_item_def str_item_def split: option.splits)

lemma hd_items_ok:
  assumes "hd_SanityCheck h = None"
  shows "list_all str_item (hd_items h)" and "length (hd_items h) \<le> 20"
proof -
  have bits: "int_BitLen 0 = 0" by (simp add: int_BitLen_def bit_len.simps)
  have s: "case hd_Number h of None \<Rightarrow> True | Some n \<Rightarrow> int_BitLen n \<le> 64"
    "case hd_Difficulty h of None \<Rightarrow> True | Some d \<Rightarrow> int_BitLen d \<le> 80"
    "case hd_BaseFee h of None \<Rightarrow> True | Some b \<Rightarrow> int_BitLen b \<le> 256"
    using assms unfolding hd_SanityCheck_def IsUint64_def by (auto split: if_split_asm option.split option.split_asm)
  have "str_item (big_item (hd_Difficulty h))" "str_item (big_item (hd_Number h))" "str_item (big_item (hd_BaseFee h))"
    using s by (auto simp: bits intro!: big_item_ok split: option.splits)
  moreover have "length (hd_Extra h) \<le> 102400" using assms by (auto simp: hd_SanityCheck_def split: if_splits)
  ultimately show "list_all str_item (hd_items h)"
    by (simp add: hd_items_def hd_items1_def hd_items2_def hd_items3_def uint_item_ok hash_item_ok ptr_item_ok Let_def)
      (simp add: str_item_def bloom_bytes_def nonce_bytes_def)
  show "length (hd_items h) \<le> 20"
    by (simp add: hd_items_def hd_items1_def hd_items2_def hd_items3_def Let_def)
qed

lemma length_enc_list: "length (rlp_enc (RList xs)) \<le> length (concat (map rlp_enc xs)) + 9"
proof -
  let ?n = "word_of_nat (length (concat (map rlp_enc xs))) :: u64"
  obtain n where "n < 8" "putint ?n = be_bytes (Suc n) ?n" using putint_be by metis
  then have "length (puthead 0xC0 0xF7 ?n) \<le> 9" by (simp add: puthead_def)
  then show ?thesis by (simp add: Let_def)
qed

lemma header_length: "hd_SanityCheck h = None \<Longrightarrow> length (rlp_enc (RList (hd_items h))) < 2 ^ 63"
proof -
  assume s: "hd_SanityCheck h = None"
  have "length (concat (map rlp_enc (hd_items h))) \<le> 20 * 102409"
    using length_enc_strs [OF hd_items_ok(1) [OF s]] hd_items_ok(2) [OF s] by linarith
  then show ?thesis using length_enc_list [of "hd_items h"] by simp
qed

lemma Hash_items:
  assumes "hd_SanityCheck h = None" "hd_signs h"
  shows "hd_Hash K h = Ret (K (rlp_enc (RList (hd_items h))))"
proof -
  have "length (rlp_enc (RList (hd_items h))) < 2 ^ 64" using header_length [OF assms(1)] by simp
  then have "go_bind (write_item (RList (hd_items h)) eb_reset) eb_makeBytes = Ret (rlp_enc (RList (hd_items h)))"
    using write_items_wrote(1) [of "RList (hd_items h)" eb_reset] makeBytes_wrote by fastforce
  then obtain w where "write_item (RList (hd_items h)) eb_reset = Ret w" "eb_makeBytes w = Ret (rlp_enc (RList (hd_items h)))"
    by auto
  then show ?thesis by (simp add: hd_Hash_def EncodeRLP_items [OF assms(2)])
qed

section \<open>The encoding identifies the header\<close>

lemma enc_strs_inj:
  assumes "list_all str_item xs" "list_all str_item ys" "concat (map rlp_enc xs) = concat (map rlp_enc ys)"
    "length (concat (map rlp_enc xs)) < 2 ^ 63"
  shows "xs = ys"
  using assms
proof (induction xs arbitrary: ys)
  case Nil
  have "rlp_enc (RStr b) \<noteq> []" for b by (auto simp: str_head_def puthead_def)
  then show ?case using Nil by (cases ys) (auto simp: str_item_def)
next
  case (Cons x xs)
  obtain b where x: "x = RStr b" using Cons.prems(1) by (auto simp: str_item_def)
  have "rlp_enc (RStr b) \<noteq> []" for b by (auto simp: str_head_def puthead_def)
  then obtain y ys' where ys: "ys = y # ys'" using Cons.prems(3) x by (cases ys) auto
  obtain c where y: "y = RStr c" using Cons.prems(2) ys by (auto simp: str_item_def)
  have e: "rlp_enc (RStr b) @ concat (map rlp_enc xs) = rlp_enc (RStr c) @ concat (map rlp_enc ys')"
    using Cons.prems(3) by (simp add: x ys y)
  have l: "length (rlp_enc (RStr b) @ concat (map rlp_enc xs)) < 2 ^ 63" using Cons.prems(4) by (simp add: x)
  have "b = c \<and> concat (map rlp_enc xs) = concat (map rlp_enc ys')"
    using Split_enc_str [OF l] Split_enc_str [OF l [unfolded e]] unfolding e by simp
  moreover have "list_all str_item xs" "list_all str_item ys'" using Cons.prems by (simp_all add: ys)
  ultimately show ?case using Cons.IH [of ys'] l by (simp add: x y ys)
qed

lemma enc_list_inj:
  assumes "list_all str_item xs" "list_all str_item ys" "rlp_enc (RList xs) = rlp_enc (RList ys)" "length (rlp_enc (RList xs)) < 2 ^ 63"
  shows "xs = ys"
proof -
  have l: "length (rlp_enc (RList xs) @ []) < 2 ^ 63" using assms(4) by simp
  have "concat (map rlp_enc xs) = concat (map rlp_enc ys)"
    using Split_enc_list [OF l] Split_enc_list [OF l [unfolded assms(3)]] unfolding assms(3) by simp
  moreover have "length (concat (map rlp_enc xs)) < 2 ^ 63" using assms(4) by (simp add: Let_def)
  ultimately show ?thesis using enc_strs_inj assms(1,2) by blast
qed

text \<open>
  Some nil pointers are written like zero, so the encoding identifies a header only with these
  set to zero: the difficulty, the number, and an optional number before a field that is there.
\<close>

definition zero_nil :: "'a::zero option \<Rightarrow> 'a option" where
  "zero_nil p = Some (case p of None \<Rightarrow> 0 | Some x \<Rightarrow> x)"

definition hd_norm :: "header \<Rightarrow> header" where
  "hd_norm h =
     (let t2 = hd_WithdrawalsHash h \<noteq> None; t3 = hd_BlobGasUsed h \<noteq> None;
          t4 = hd_ExcessBlobGas h \<noteq> None; t5 = hd_ParentBeaconRoot h \<noteq> None
      in h\<lparr>hd_Difficulty := zero_nil (hd_Difficulty h), hd_Number := zero_nil (hd_Number h),
           hd_BaseFee := (if t2 \<or> t3 \<or> t4 \<or> t5 then zero_nil (hd_BaseFee h) else hd_BaseFee h),
           hd_BlobGasUsed := (if t4 \<or> t5 then zero_nil (hd_BlobGasUsed h) else hd_BlobGasUsed h),
           hd_ExcessBlobGas := (if t5 then zero_nil (hd_ExcessBlobGas h) else hd_ExcessBlobGas h)\<rparr>)"

lemma nat_Bytes_inj: "nat_Bytes m = nat_Bytes n \<longleftrightarrow> m = n"
  by (metis nat_of_bytes_Bytes)

lemma horner_inj:
  fixes v w :: "'w::len word"
  assumes "map (\<lambda>i. ucast (drop_bit (8 * (n - Suc i)) v) :: u8) [0..<n] = map (\<lambda>i. ucast (drop_bit (8 * (n - Suc i)) w)) [0..<n]"
    "LENGTH('w) \<le> 8 * n"
  shows "v = w"
  using arg_cong [OF assms(1), of "SetBytes :: bytes \<Rightarrow> 'w word"] assms(2) by (simp only: SetBytes_horner take_bit_word_eq_self)

lemma bytes_inj:
  "Bytes32 v = Bytes32 w \<longleftrightarrow> v = w" "address_bytes a = address_bytes b \<longleftrightarrow> a = b"
  "bloom_bytes p = bloom_bytes q \<longleftrightarrow> p = q" "nonce_bytes x = nonce_bytes y \<longleftrightarrow> x = y"
  using horner_inj [of 32 v w] horner_inj [of 20 a b] horner_inj [of 256 p q] horner_inj [of 8 x y]
  by (auto simp: Bytes32_def address_bytes_def bloom_bytes_def nonce_bytes_def)

lemma item_inj:
  "hash_item v = hash_item w \<longleftrightarrow> v = w" "uint_item x = uint_item y \<longleftrightarrow> x = y"
  "not_negative i \<Longrightarrow> not_negative j \<Longrightarrow> big_item i = big_item j \<longleftrightarrow> zero_nil i = zero_nil j"
  "ptr_item hash_item p = ptr_item hash_item q \<longleftrightarrow> p = q"
  "ptr_item uint_item m = ptr_item uint_item n \<longleftrightarrow> zero_nil m = zero_nil n"
proof -
  show "hash_item v = hash_item w \<longleftrightarrow> v = w" by (simp add: hash_item_def bytes_inj)
  show "uint_item x = uint_item y \<longleftrightarrow> x = y" by (simp add: uint_item_def nat_Bytes_inj word_unat_eq_iff)
  show "not_negative i \<Longrightarrow> not_negative j \<Longrightarrow> big_item i = big_item j \<longleftrightarrow> zero_nil i = zero_nil j"
    by (auto simp: big_item_def nat_Bytes_inj zero_nil_def not_negative_def split: option.splits)
  have "Bytes32 x \<noteq> []" "[] \<noteq> Bytes32 x" for x using length_Bytes32 [of x] by (auto simp del: length_Bytes32)
  then show "ptr_item hash_item p = ptr_item hash_item q \<longleftrightarrow> p = q"
    by (auto simp: ptr_item_def hash_item_def bytes_inj split: option.splits)
  have u: "ptr_item uint_item k = uint_item (case k of None \<Rightarrow> 0 | Some x \<Rightarrow> x)" for k
    by (auto simp: ptr_item_def uint_item_def split: option.splits)
  show "ptr_item uint_item m = ptr_item uint_item n \<longleftrightarrow> zero_nil m = zero_nil n"
    by (simp add: u uint_item_def nat_Bytes_inj zero_nil_def word_unat_eq_iff)
qed

lemma hd_norm_fields [simp]:
  "hd_ParentHash (hd_norm h) = hd_ParentHash h" "hd_UncleHash (hd_norm h) = hd_UncleHash h"
  "hd_Coinbase (hd_norm h) = hd_Coinbase h" "hd_Root (hd_norm h) = hd_Root h" "hd_TxHash (hd_norm h) = hd_TxHash h"
  "hd_ReceiptHash (hd_norm h) = hd_ReceiptHash h" "hd_Bloom (hd_norm h) = hd_Bloom h"
  "hd_Difficulty (hd_norm h) = zero_nil (hd_Difficulty h)" "hd_Number (hd_norm h) = zero_nil (hd_Number h)"
  "hd_GasLimit (hd_norm h) = hd_GasLimit h" "hd_GasUsed (hd_norm h) = hd_GasUsed h" "hd_Time (hd_norm h) = hd_Time h"
  "hd_Extra (hd_norm h) = hd_Extra h" "hd_MixDigest (hd_norm h) = hd_MixDigest h" "hd_Nonce (hd_norm h) = hd_Nonce h"
  "hd_WithdrawalsHash (hd_norm h) = hd_WithdrawalsHash h" "hd_ParentBeaconRoot (hd_norm h) = hd_ParentBeaconRoot h"
  by (simp_all add: hd_norm_def Let_def)

lemma zero_nil_Some [simp]: "zero_nil p \<noteq> None" "None \<noteq> zero_nil p"
  by (simp_all add: zero_nil_def)

lemma item_zero_nil [simp]: "big_item (zero_nil i) = big_item i" "ptr_item uint_item (zero_nil p) = ptr_item uint_item p"
  by (simp_all add: big_item_def ptr_item_def uint_item_def zero_nil_def split: option.split)

lemma zero_nil_if:
  assumes "lo \<Longrightarrow> zero_nil p = zero_nil q" "lo \<longleftrightarrow> p \<noteq> None \<or> hi" "lo \<longleftrightarrow> q \<noteq> None \<or> hi"
  shows "(if hi then zero_nil p else p) = (if hi then zero_nil q else q)"
  using assms by (cases p; cases q; cases hi) (simp_all add: zero_nil_def)

text \<open>The optional fields: first how many are written, then their values.\<close>

lemma optional_levels:
  assumes "xs = (if t1 \<or> t2 \<or> t3 \<or> t4 \<or> t5 then [a] else []) @ (if t2 \<or> t3 \<or> t4 \<or> t5 then [b] else []) @
    (if t3 \<or> t4 \<or> t5 then [c] else []) @ (if t4 \<or> t5 then [d] else []) @ (if t5 then [e] else [])"
  shows "length xs = 5 \<longleftrightarrow> t5" "4 \<le> length xs \<longleftrightarrow> t4 \<or> t5" "3 \<le> length xs \<longleftrightarrow> t3 \<or> t4 \<or> t5"
    "2 \<le> length xs \<longleftrightarrow> t2 \<or> t3 \<or> t4 \<or> t5" "1 \<le> length xs \<longleftrightarrow> t1 \<or> t2 \<or> t3 \<or> t4 \<or> t5"
    "xs = take (length xs) [a, b, c, d, e]"
  by (cases t5; cases t4; cases t3; cases t2; cases t1; simp add: assms)+

lemmas hd_levels = optional_levels [OF hd_items3_def [unfolded Let_def]]

lemma hd_norm_optional:
  "hd_BaseFee (hd_norm h) = (if 2 \<le> length (hd_items3 h) then zero_nil (hd_BaseFee h) else hd_BaseFee h)"
  "hd_BlobGasUsed (hd_norm h) = (if 4 \<le> length (hd_items3 h) then zero_nil (hd_BlobGasUsed h) else hd_BlobGasUsed h)"
  "hd_ExcessBlobGas (hd_norm h) = (if length (hd_items3 h) = 5 then zero_nil (hd_ExcessBlobGas h) else hd_ExcessBlobGas h)"
  unfolding hd_levels(1-5) by (simp_all add: hd_norm_def Let_def)

lemma optional_inj:
  assumes "hd_items3 h = hd_items3 h'" "not_negative (hd_BaseFee h)" "not_negative (hd_BaseFee h')"
  shows "hd_BaseFee (hd_norm h) = hd_BaseFee (hd_norm h')" "hd_WithdrawalsHash h = hd_WithdrawalsHash h'"
    "hd_BlobGasUsed (hd_norm h) = hd_BlobGasUsed (hd_norm h')" "hd_ExcessBlobGas (hd_norm h) = hd_ExcessBlobGas (hd_norm h')"
    "hd_ParentBeaconRoot h = hd_ParentBeaconRoot h'"
proof -
  let ?n = "length (hd_items3 h)"
  note inj = item_inj(1,2,4,5) item_inj(3) [OF assms(2,3)]
  have eq: "hd_items3 h ! i = hd_items3 h' ! i" for i using assms(1) by simp
  have n: "length (hd_items3 h') = ?n" using assms(1) by simp
  have i: "i < ?n \<Longrightarrow> [big_item (hd_BaseFee h), ptr_item hash_item (hd_WithdrawalsHash h), ptr_item uint_item (hd_BlobGasUsed h),
      ptr_item uint_item (hd_ExcessBlobGas h), ptr_item hash_item (hd_ParentBeaconRoot h)] ! i =
    [big_item (hd_BaseFee h'), ptr_item hash_item (hd_WithdrawalsHash h'), ptr_item uint_item (hd_BlobGasUsed h'),
      ptr_item uint_item (hd_ExcessBlobGas h'), ptr_item hash_item (hd_ParentBeaconRoot h')] ! i" for i
    using arg_cong [OF hd_levels(6) [of h], of "\<lambda>xs. xs ! i"] arg_cong [OF hd_levels(6) [of h'], of "\<lambda>xs. xs ! i"]
    unfolding n eq [of i] by (simp only: nth_take)
  have 1: "1 \<le> ?n \<Longrightarrow> zero_nil (hd_BaseFee h) = zero_nil (hd_BaseFee h')" using i [of 0] by (simp add: inj Suc_le_eq)
  have 2: "2 \<le> ?n \<Longrightarrow> hd_WithdrawalsHash h = hd_WithdrawalsHash h'" using i [of 1] by (simp add: inj)
  have 3: "3 \<le> ?n \<Longrightarrow> zero_nil (hd_BlobGasUsed h) = zero_nil (hd_BlobGasUsed h')" using i [of 2] by (simp add: inj)
  have 4: "4 \<le> ?n \<Longrightarrow> zero_nil (hd_ExcessBlobGas h) = zero_nil (hd_ExcessBlobGas h')" using i [of 3] by (simp add: inj)
  have 5: "?n = 5 \<Longrightarrow> hd_ParentBeaconRoot h = hd_ParentBeaconRoot h'" using i [of 4] by (simp add: inj)
  note l = hd_levels [of h] hd_levels [of h', unfolded n]
  show "hd_BaseFee (hd_norm h) = hd_BaseFee (hd_norm h')"
    unfolding hd_norm_optional n by (rule zero_nil_if [OF 1 l(5,11) [folded l(4,10)]])
  show "hd_WithdrawalsHash h = hd_WithdrawalsHash h'" using 2 l(4) l(10) by auto
  show "hd_BlobGasUsed (hd_norm h) = hd_BlobGasUsed (hd_norm h')"
    unfolding hd_norm_optional n by (rule zero_nil_if [OF 3 l(3,9) [folded l(2,8)]])
  show "hd_ExcessBlobGas (hd_norm h) = hd_ExcessBlobGas (hd_norm h')"
    unfolding hd_norm_optional n by (rule zero_nil_if [OF 4 l(2,8) [folded l(1,7)]])
  show "hd_ParentBeaconRoot h = hd_ParentBeaconRoot h'" using 5 l(1) l(7) by auto
qed

lemma hd_items_inj:
  assumes "hd_items h = hd_items h'" "hd_signs h" "hd_signs h'"
  shows "hd_norm h = hd_norm h'"
proof -
  have n: "not_negative (hd_Difficulty h)" "not_negative (hd_Difficulty h')" "not_negative (hd_Number h)"
    "not_negative (hd_Number h')" "not_negative (hd_BaseFee h)" "not_negative (hd_BaseFee h')"
    using assms by (simp_all add: hd_signs_def)
  have i: "hd_items1 h = hd_items1 h'" "hd_items2 h = hd_items2 h'" "hd_items3 h = hd_items3 h'"
    "big_item (hd_Difficulty h) = big_item (hd_Difficulty h')" "big_item (hd_Number h) = big_item (hd_Number h')"
    using assms(1) by (simp_all add: hd_items_def hd_items1_def hd_items2_def)
  show ?thesis
    using i optional_inj [OF i(3) n(5,6)]
    by (intro header.equality)
      (simp_all add: hd_items1_def hd_items2_def item_inj(1,2) item_inj(3) [OF n(1,2)] item_inj(3) [OF n(3,4)] bytes_inj)
qed

lemma hd_items_norm: "hd_norm h = hd_norm h' \<Longrightarrow> hd_items h = hd_items h'"
proof -
  have "hd_items3 (hd_norm h) = hd_items3 h" for h
    by (cases "hd_ParentBeaconRoot h"; cases "hd_ExcessBlobGas h"; cases "hd_BlobGasUsed h"; cases "hd_WithdrawalsHash h")
      (simp_all add: hd_items3_def hd_norm_def Let_def)
  then have "hd_items (hd_norm h) = hd_items h" for h by (simp add: hd_items_def hd_items1_def hd_items2_def)
  then show "hd_norm h = hd_norm h' \<Longrightarrow> hd_items h = hd_items h'" by metis
qed

section \<open>Properties\<close>

text \<open>
  C16. The block hash identifies the header: on headers without negative numbers that pass the sanity check,
  the encoding never fails or panics, and if the hash function does not collide on the two encodings, two
  headers have the same hash exactly when they have the same fields, where the nil pointers that are
  written like zero (the difficulty, the number, a base fee or blob gas field before a later field) count as zero.
\<close>

theorem header_hash_identifies:
  assumes "hd_SanityCheck h = None" "hd_SanityCheck h' = None" "hd_signs h" "hd_signs h'"
    "inj_on K {rlp_enc (RList (hd_items h)), rlp_enc (RList (hd_items h'))}"
  shows "\<exists>r r'. hd_Hash K h = Ret r \<and> hd_Hash K h' = Ret r' \<and> (r = r' \<longleftrightarrow> hd_norm h = hd_norm h')"
proof -
  have "rlp_enc (RList (hd_items h)) = rlp_enc (RList (hd_items h')) \<longleftrightarrow> hd_norm h = hd_norm h'"
    using enc_list_inj [OF hd_items_ok(1) [OF assms(1)] hd_items_ok(1) [OF assms(2)] _ header_length [OF assms(1)]]
      hd_items_inj [OF _ assms(3,4)] hd_items_norm by metis
  then have "K (rlp_enc (RList (hd_items h))) = K (rlp_enc (RList (hd_items h'))) \<longleftrightarrow> hd_norm h = hd_norm h'"
    using inj_on_eq_iff [OF assms(5), of "rlp_enc (RList (hd_items h))" "rlp_enc (RList (hd_items h'))"]
    by (simp del: rlp_enc.simps)
  then show ?thesis using Hash_items [OF assms(1,3)] Hash_items [OF assms(2,4)] by metis
qed

definition sample_header :: "int \<Rightarrow> header" where
  "sample_header n =
     \<lparr>hd_ParentHash = 1, hd_UncleHash = 2, hd_Coinbase = 3, hd_Root = 4, hd_TxHash = 5, hd_ReceiptHash = 6, hd_Bloom = 0,
      hd_Difficulty = Some 131072, hd_Number = Some n, hd_GasLimit = 30000000, hd_GasUsed = 21000, hd_Time = 1000,
      hd_Extra = [], hd_MixDigest = 0, hd_Nonce = 0, hd_BaseFee = Some 1000000000, hd_WithdrawalsHash = None,
      hd_BlobGasUsed = None, hd_ExcessBlobGas = None, hd_ParentBeaconRoot = None\<rparr>"

lemma sample_header_ok: "0 \<le> n \<Longrightarrow> n < 1024 \<Longrightarrow> hd_SanityCheck (sample_header n) = None \<and> hd_signs (sample_header n)"
  using bit_len_le [of "nat n" 64] bit_len_le [of 131072 80] bit_len_le [of 1000000000 256]
  by (simp add: sample_header_def hd_SanityCheck_def IsUint64_def int_BitLen_def hd_signs_def not_negative_def)

theorem header_hash_identifies_witness:
  "let e = (\<lambda>n. rlp_enc (RList (hd_items (sample_header n)))); K = (\<lambda>b. if b = e 1 then 1 else 0 :: hash)
   in \<exists>r r'. hd_Hash K (sample_header 1) = Ret r \<and> hd_Hash K (sample_header 2) = Ret r' \<and> r \<noteq> r'"
proof -
  have "inj_on (\<lambda>b. if b = rlp_enc (RList (hd_items (sample_header 1))) then 1 else 0 :: hash)
      {rlp_enc (RList (hd_items (sample_header 1))), rlp_enc (RList (hd_items (sample_header 2)))}"
    by (auto simp: inj_on_def simp del: rlp_enc.simps)
  moreover have "hd_norm (sample_header 1) \<noteq> hd_norm (sample_header 2)"
    by (simp add: sample_header_def hd_norm_def zero_nil_def)
  ultimately show ?thesis
    using header_hash_identifies [of "sample_header 1" "sample_header 2"] sample_header_ok [of 1] sample_header_ok [of 2]
    by (simp add: Let_def del: rlp_enc.simps)
qed

end
