(* ===== verification/Fee_Rules.thy ===== *)
theory Fee_Rules imports Headers begin

text \<open>
  The rules a header's fees and limits obey: the gas limit (\<open>consensus/misc/gaslimit.go\<close>), the base fee
  (\<open>consensus/misc/eip1559\<close>), the blob gas (\<open>consensus/misc/eip4844\<close>) and the extra data of the DAO
  fork with its state change (\<open>consensus/misc/dao.go\<close>).
\<close>

section \<open>Big integers\<close>

text \<open>\<open>Div\<close> of \<open>big.Int\<close> is Euclidean: the remainder is never negative. \<open>Uint64\<close> reads the low word.\<close>

definition big_Div :: "int \<Rightarrow> int \<Rightarrow> int go" where
  "big_Div x y = (if y = 0 then Panic DivisionByZero else Ret (sgn y * (x div \<bar>y\<bar>)))"

definition BigMax :: "int \<Rightarrow> int \<Rightarrow> int" where
  "BigMax x y = (if x < y then y else x)"

definition big_Uint64 :: "int \<Rightarrow> u64" where
  "big_Uint64 x = word_of_int \<bar>x\<bar>"

definition u64_div :: "u64 \<Rightarrow> u64 \<Rightarrow> u64 go" where
  "u64_div x y = (if y = 0 then Panic DivisionByZero else Ret (x div y))"

section \<open>Gas limits\<close>

datatype header_error =
    InvalidGasLimit u64 u64
  | GasLimitBelow
  | MissingBaseFee
  | InvalidBaseFee int int
  | MissingExcessBlobGas
  | MissingBlobGasUsed
  | BlobGasUsedExceeds u64
  | BlobGasUsedNotMultiple u64
  | InvalidExcessBlobGas u64 u64
  | BadProDAOExtra
  | BadNoDAOExtra

text \<open>The difference is an \<open>int64\<close>: it wraps, and so does its negation.\<close>

definition VerifyGaslimit :: "u64 \<Rightarrow> u64 \<Rightarrow> header_error option" where
  "VerifyGaslimit parentGasLimit headerGasLimit =
     (let diff = parentGasLimit - headerGasLimit;
          diff = (if sint diff < 0 then - diff else diff);
          limit = parentGasLimit div GasLimitBoundDivisor
      in if diff \<ge> limit then Some (InvalidGasLimit headerGasLimit parentGasLimit)
         else if headerGasLimit < MinGasLimit then Some GasLimitBelow
         else None)"

section \<open>The base fee\<close>

definition CalcBaseFee :: "ChainConfig \<Rightarrow> header \<Rightarrow> int go" where
  "CalcBaseFee config parent =
     (if \<not> cfg_IsLondon config (hd_Number parent) then Ret InitialBaseFee
      else
        go_bind (u64_div (hd_GasLimit parent) (ElasticityMultiplier config)) (\<lambda>parentGasTarget.
        if hd_GasUsed parent = parentGasTarget then deref (hd_BaseFee parent)
        else if hd_GasUsed parent > parentGasTarget then
          go_bind (deref (hd_BaseFee parent)) (\<lambda>parentBaseFee.
          let num = uint (hd_GasUsed parent - parentGasTarget) * parentBaseFee in
          go_bind (big_Div num (uint parentGasTarget)) (\<lambda>num.
          go_bind (big_Div num (uint (BaseFeeChangeDenominator config))) (\<lambda>num.
          let baseFeeDelta = BigMax num 1
          in Ret (parentBaseFee + baseFeeDelta))))
        else
          go_bind (deref (hd_BaseFee parent)) (\<lambda>parentBaseFee.
          let num = uint (parentGasTarget - hd_GasUsed parent) * parentBaseFee in
          go_bind (big_Div num (uint parentGasTarget)) (\<lambda>num.
          go_bind (big_Div num (uint (BaseFeeChangeDenominator config))) (\<lambda>num.
          let baseFee = parentBaseFee - num
          in Ret (BigMax baseFee 0))))))"

definition VerifyEIP1559Header :: "ChainConfig \<Rightarrow> header \<Rightarrow> header \<Rightarrow> header_error option go" where
  "VerifyEIP1559Header config parent header =
     (let parentGasLimit =
            (if \<not> cfg_IsLondon config (hd_Number parent) then hd_GasLimit parent * ElasticityMultiplier config
             else hd_GasLimit parent)
      in case VerifyGaslimit parentGasLimit (hd_GasLimit header) of
           Some err \<Rightarrow> Ret (Some err)
         | None \<Rightarrow>
             (case hd_BaseFee header of
                None \<Rightarrow> Ret (Some MissingBaseFee)
              | Some baseFee \<Rightarrow>
                  go_bind (CalcBaseFee config parent) (\<lambda>expectedBaseFee.
                  Ret (if baseFee \<noteq> expectedBaseFee then Some (InvalidBaseFee baseFee expectedBaseFee) else None))))"

section \<open>Blob gas\<close>

definition CalcExcessBlobGas :: "u64 \<Rightarrow> u64 \<Rightarrow> u64" where
  "CalcExcessBlobGas parentExcessBlobGas parentBlobGasUsed =
     (let excessBlobGas = parentExcessBlobGas + parentBlobGasUsed
      in if excessBlobGas < BlobTxTargetBlobGasPerBlock then 0
         else excessBlobGas - BlobTxTargetBlobGasPerBlock)"

definition VerifyEIP4844Header :: "header \<Rightarrow> header \<Rightarrow> header_error option go" where
  "VerifyEIP4844Header parent header =
     (case hd_ExcessBlobGas header of
        None \<Rightarrow> Ret (Some MissingExcessBlobGas)
      | Some excess \<Rightarrow>
     (case hd_BlobGasUsed header of
        None \<Rightarrow> Ret (Some MissingBlobGasUsed)
      | Some used \<Rightarrow>
          if used > MaxBlobGasPerBlock then Ret (Some (BlobGasUsedExceeds used))
          else if used mod BlobTxBlobGasPerBlob \<noteq> 0 then Ret (Some (BlobGasUsedNotMultiple used))
          else
            go_bind (case hd_ExcessBlobGas parent of
                       None \<Rightarrow> Ret (0, 0)
                     | Some parentExcess \<Rightarrow>
                         go_bind (deref (hd_BlobGasUsed parent)) (\<lambda>parentUsed. Ret (parentExcess, parentUsed)))
              (\<lambda>(parentExcessBlobGas, parentBlobGasUsed).
                let expectedExcessBlobGas = CalcExcessBlobGas parentExcessBlobGas parentBlobGasUsed
                in Ret (if excess \<noteq> expectedExcessBlobGas
                        then Some (InvalidExcessBlobGas excess expectedExcessBlobGas) else None))))"

text \<open>
  In the loop of \<open>fakeExponential\<close>, once the round \<open>i\<close> exceeds the quotient of numerator and denominator,
  every round makes the term smaller.
\<close>

lemma int_le_div: "0 < d \<Longrightarrow> c \<le> a div d \<longleftrightarrow> c * d \<le> (a :: int)"
proof -
  assume d: "0 < d"
  have "(a - c * d) div d = a div d - c" using div_mult_self1 [of d a "- c"] d by simp
  then show ?thesis using pos_imp_zdiv_nonneg_iff [OF d, of "a - c * d"] by simp
qed

lemma int_div_less: "0 < d \<Longrightarrow> a div d < c \<longleftrightarrow> a < c * (d :: int)"
  using int_le_div [of d c a] by auto

lemma fakeExponential_decreases:
  fixes a n d i :: int
  assumes "0 < a" "d \<noteq> 0" "\<bar>n\<bar> div \<bar>d\<bar> + 1 < i"
  shows "sgn d * (a * n div \<bar>d\<bar>) div i < a"
proof -
  let ?D = "\<bar>d\<bar>"
  have D: "0 < ?D" using assms(2) by simp
  have i: "0 < i" using assms(3) pos_imp_zdiv_nonneg_iff [OF D, of "\<bar>n\<bar>"] by linarith
  have "\<bar>n\<bar> div ?D < i - 1" using assms(3) by linarith
  then have n: "\<bar>n\<bar> < (i - 1) * ?D" using D by (simp add: int_div_less)
  have "a * \<bar>n\<bar> < a * ((i - 1) * ?D)" using assms(1) n by simp
  then have an: "a * \<bar>n\<bar> < (a * (i - 1)) * ?D" by (simp only: mult.assoc)
  have "sgn d * (a * n div ?D) < a * i"
  proof (cases "0 < d")
    case True
    have "a * n \<le> a * \<bar>n\<bar>" using assms(1) by simp
    then have "a * n < (a * (i - 1)) * ?D" using an by linarith
    then have "a * n div ?D < a * (i - 1)" using D by (simp add: int_div_less)
    then show ?thesis using True assms(1) by (simp add: right_diff_distrib)
  next
    case False
    have "- (a * n) \<le> a * \<bar>n\<bar>" using assms(1) by (cases "0 \<le> n") auto
    then have "- (a * (i - 1)) * ?D \<le> a * n" using an by simp
    then have "- (a * (i - 1)) \<le> a * n div ?D" using D by (simp add: int_le_div)
    then show ?thesis using False assms by (simp add: sgn_if right_diff_distrib)
  qed
  then show ?thesis using i by (simp add: int_div_less)
qed

text \<open>The loop of \<open>fakeExponential\<close>; \<open>i\<close> counts its rounds.\<close>

function fakeExponential_loop :: "int \<Rightarrow> int \<Rightarrow> nat \<Rightarrow> int \<Rightarrow> int \<Rightarrow> int go" where
  "fakeExponential_loop numerator denominator i accum output =
     (if accum > 0 then
        let output = output + accum in
        go_bind (big_Div (accum * numerator) denominator) (\<lambda>accum'.
        go_bind (big_Div accum' (int i)) (\<lambda>accum''.
          fakeExponential_loop numerator denominator (Suc i) accum'' output))
      else Ret output)"
  by pat_completeness auto

termination
proof (relation "measures [\<lambda>(n, d, i, a, out). nat (\<bar>n\<bar> div \<bar>d\<bar> + 2 - int i), \<lambda>(n, d, i, a, out). nat a]")
  fix numerator denominator accum out x xa xb :: int and i :: nat
  assume *: "accum > 0" "big_Div (accum * numerator) denominator = Ret xa" "big_Div xa (int i) = Ret xb"
  then have d: "denominator \<noteq> 0" "xa = sgn denominator * (accum * numerator div \<bar>denominator\<bar>)" and
    i: "i \<noteq> 0" "xb = xa div int i"
    by (auto simp: big_Div_def split: if_splits)
  have "xb < accum" if "\<bar>numerator\<bar> div \<bar>denominator\<bar> + 2 \<le> int i"
    using fakeExponential_decreases [OF *(1) d(1), of numerator "int i"] that d i by simp
  then show "((numerator, denominator, Suc i, xb, x), numerator, denominator, i, accum, out) \<in>
      measures [\<lambda>(n, d, i, a, out). nat (\<bar>n\<bar> div \<bar>d\<bar> + 2 - int i), \<lambda>(n, d, i, a, out). nat a]"
    using *(1) by auto
qed simp

declare fakeExponential_loop.simps [simp del]

definition fakeExponential :: "int \<Rightarrow> int \<Rightarrow> int \<Rightarrow> int go" where
  "fakeExponential factor numerator denominator =
     go_bind (fakeExponential_loop numerator denominator 1 (factor * denominator) 0) (\<lambda>output.
       big_Div output denominator)"

definition CalcBlobFee :: "u64 \<Rightarrow> int go" where
  "CalcBlobFee excessBlobGas = fakeExponential BlobTxMinBlobGasprice (uint excessBlobGas) BlobTxBlobGaspriceUpdateFraction"

section \<open>The DAO fork\<close>

definition DAOForkBlockExtra :: bytes where
  "DAOForkBlockExtra = [0x64, 0x61, 0x6f, 0x2d, 0x68, 0x61, 0x72, 0x64, 0x2d, 0x66, 0x6f, 0x72, 0x6b]"

definition DAOForkExtraRange :: int where
  "DAOForkExtraRange = 10"

definition VerifyDAOHeaderExtraData :: "ChainConfig \<Rightarrow> header \<Rightarrow> header_error option go" where
  "VerifyDAOHeaderExtraData config header =
     (case DAOForkBlock config of
        None \<Rightarrow> Ret None
      | Some forkBlock \<Rightarrow>
          let limit = forkBlock + DAOForkExtraRange in
          go_bind (deref (hd_Number header)) (\<lambda>number.
          Ret (if number < forkBlock \<or> number \<ge> limit then None
               else if DAOForkSupport config then
                 if hd_Extra header \<noteq> DAOForkBlockExtra then Some BadProDAOExtra else None
               else
                 if hd_Extra header = DAOForkBlockExtra then Some BadNoDAOExtra else None)))"

definition DAORefundContract :: address where
  "DAORefundContract = 0xbf4ed7b27f1d666546e30d74d50d173d20bca754"

definition DAODrainList :: "address list" where
  "DAODrainList =
    [0xd4fe7bc31cedb7bfb8a345f31e668033056b2728, 0xb3fb0e5aba0e20e5c49d252dfd30e102b171a425,
     0x2c19c7f9ae8b751e37aeb2d93a699722395ae18f, 0xecd135fa4f61a655311e86238c92adcd779555d2,
     0x1975bd06d486162d5dc297798dfc41edd5d160a7, 0xa3acf3a1e16b1d7c315e23510fdd7847b48234f6,
     0x319f70bab6845585f412ec7724b744fec6095c85, 0x06706dd3f2c9abf0a21ddcc6941d9b86f0596936,
     0x5c8536898fbb74fc7445814902fd08422eac56d0, 0x6966ab0d485353095148a2155858910e0965b6f9,
     0x779543a0491a837ca36ce8c635d6154e3c4911a6, 0x2a5ed960395e2a49b1c758cef4aa15213cfd874c,
     0x5c6e67ccd5849c0d29219c4f95f1a7a93b3f5dc5, 0x9c50426be05db97f5d64fc54bf89eff947f0a321,
     0x200450f06520bdd6c527622a273333384d870efb, 0xbe8539bfe837b67d1282b2b1d61c3f723966f049,
     0x6b0c4d41ba9ab8d8cfb5d379c69a612f2ced8ecb, 0xf1385fb24aad0cd7432824085e42aff90886fef5,
     0xd1ac8b1ef1b69ff51d1d401a476e7e612414f091, 0x8163e7fb499e90f8544ea62bbf80d21cd26d9efd,
     0x51e0ddd9998364a2eb38588679f0d2c42653e4a6, 0x627a0a960c079c21c34f7612d5d230e01b4ad4c7,
     0xf0b1aa0eb660754448a7937c022e30aa692fe0c5, 0x24c4d950dfd4dd1902bbed3508144a54542bba94,
     0x9f27daea7aca0aa0446220b98d028715e3bc803d, 0xa5dc5acd6a7968a4554d89d65e59b7fd3bff0f90,
     0xd9aef3a1e38a39c16b31d1ace71bca8ef58d315b, 0x63ed5a272de2f6d968408b4acb9024f4cc208ebf,
     0x6f6704e5a10332af6672e50b3d9754dc460dfa4d, 0x77ca7b50b6cd7e2f3fa008e24ab793fd56cb15f6,
     0x492ea3bb0f3315521c31f273e565b868fc090f17, 0x0ff30d6de14a8224aa97b78aea5388d1c51c1f00,
     0x9ea779f907f0b315b364b0cfc39a0fde5b02a416, 0xceaeb481747ca6c540a000c1f3641f8cef161fa7,
     0xcc34673c6c40e791051898567a1222daf90be287, 0x579a80d909f346fbfb1189493f521d7f48d52238,
     0xe308bd1ac5fda103967359b2712dd89deffb7973, 0x4cb31628079fb14e4bc3cd5e30c2f7489b00960c,
     0xac1ecab32727358dba8962a0f3b261731aad9723, 0x4fd6ace747f06ece9c49699c7cabc62d02211f75,
     0x440c59b325d2997a134c2c7c60a8c61611212bad, 0x4486a3d68fac6967006d7a517b889fd3f98c102b,
     0x9c15b54878ba618f494b38f0ae7443db6af648ba, 0x27b137a85656544b1ccb5a0f2e561a5703c6a68f,
     0x21c7fdb9ed8d291d79ffd82eb2c4356ec0d81241, 0x23b75c2f6791eef49c69684db4c6c1f93bf49a50,
     0x1ca6abd14d30affe533b24d7a21bff4c2d5e1f3b, 0xb9637156d330c0d605a791f1c31ba5890582fe1c,
     0x6131c42fa982e56929107413a9d526fd99405560, 0x1591fc0f688c81fbeb17f5426a162a7024d430c2,
     0x542a9515200d14b68e934e9830d91645a980dd7a, 0xc4bbd073882dd2add2424cf47d35213405b01324,
     0x782495b7b3355efb2833d56ecb34dc22ad7dfcc4, 0x58b95c9a9d5d26825e70a82b6adb139d3fd829eb,
     0x3ba4d81db016dc2890c81f3acec2454bff5aada5, 0xb52042c8ca3f8aa246fa79c3feaa3d959347c0ab,
     0xe4ae1efdfc53b73893af49113d8694a057b9c0d1, 0x3c02a7bc0391e86d91b7d144e61c2c01a25a79c5,
     0x0737a6b837f97f46ebade41b9bc3e1c509c85c53, 0x97f43a37f595ab5dd318fb46e7a155eae057317a,
     0x52c5317c848ba20c7504cb2c8052abd1fde29d03, 0x4863226780fe7c0356454236d3b1c8792785748d,
     0x5d2b2e6fcbe3b11d26b525e085ff818dae332479, 0x5f9f3392e9f62f63b8eac0beb55541fc8627f42c,
     0x057b56736d32b86616a10f619859c6cd6f59092a, 0x9aa008f65de0b923a2a4f02012ad034a5e2e2192,
     0x304a554a310c7e546dfe434669c62820b7d83490, 0x914d1b8b43e92723e64fd0a06f5bdb8dd9b10c79,
     0x4deb0033bb26bc534b197e61d19e0733e5679784, 0x07f5c1e1bc2c93e0402f23341973a0e043f7bf8a,
     0x35a051a0010aba705c9008d7a7eff6fb88f6ea7b, 0x4fa802324e929786dbda3b8820dc7834e9134a2a,
     0x9da397b9e80755301a3b32173283a91c0ef6c87e, 0x8d9edb3054ce5c5774a420ac37ebae0ac02343c6,
     0x0101f3be8ebb4bbd39a2e3b9a3639d4259832fd9, 0x5dc28b15dffed94048d73806ce4b7a4612a1d48f,
     0xbcf899e6c7d9d5a215ab1e3444c86806fa854c76, 0x12e626b0eebfe86a56d633b9864e389b45dcb260,
     0xa2f1ccba9395d7fcb155bba8bc92db9bafaeade7, 0xec8e57756626fdc07c63ad2eafbd28d08e7b0ca5,
     0xd164b088bd9108b60d0ca3751da4bceb207b0782, 0x6231b6d0d5e77fe001c2a460bd9584fee60d409b,
     0x1cba23d343a983e9b5cfd19496b9a9701ada385f, 0xa82f360a8d3455c5c41366975bde739c37bfeb8a,
     0x9fcd2deaff372a39cc679d5c5e4de7bafb0b1339, 0x005f5cee7a43331d5a3d3eec71305925a62f34b6,
     0x0e0da70933f4c7849fc0d203f5d1d43b9ae4532d, 0xd131637d5275fd1a68a3200f4ad25c71a2a9522e,
     0xbc07118b9ac290e4622f5e77a0853539789effbe, 0x47e7aa56d6bdf3f36be34619660de61275420af8,
     0xacd87e28b0c9d1254e868b81cba4cc20d9a32225, 0xadf80daec7ba8dcf15392f1ac611fff65d94f880,
     0x5524c55fb03cf21f549444ccbecb664d0acad706, 0x40b803a9abce16f50f36a77ba41180eb90023925,
     0xfe24cdd8648121a43a7c86d289be4dd2951ed49f, 0x17802f43a0137c506ba92291391a8a8f207f487d,
     0x253488078a4edf4d6f42f113d1e62836a942cf1a, 0x86af3e9626fce1957c82e88cbf04ddf3a2ed7915,
     0xb136707642a4ea12fb4bae820f03d2562ebff487, 0xdbe9b615a3ae8709af8b93336ce9b477e4ac0940,
     0xf14c14075d6c4ed84b86798af0956deef67365b5, 0xca544e5c4687d109611d0f8f928b53a25af72448,
     0xaeeb8ff27288bdabc0fa5ebb731b6f409507516c, 0xcbb9d3703e651b0d496cdefb8b92c25aeb2171f7,
     0x6d87578288b6cb5549d5076a207456a1f6a63dc0, 0xb2c6f0dfbb716ac562e2d85d6cb2f8d5ee87603e,
     0xaccc230e8a6e5be9160b8cdf2864dd2a001c28b6, 0x2b3455ec7fedf16e646268bf88846bd7a2319bb2,
     0x4613f3bca5c44ea06337a9e439fbc6d42e501d0a, 0xd343b217de44030afaa275f54d31a9317c7f441e,
     0x84ef4b2357079cd7a7c69fd7a37cd0609a679106, 0xda2fef9e4a3230988ff17df2165440f37e8b1708,
     0xf4c64518ea10f995918a454158c6b61407ea345c, 0x7602b46df5390e432ef1c307d4f2c9ff6d65cc97,
     0xbb9bc244d798123fde783fcc1c72d3bb8c189413, 0x807640a13483f8ac783c557fcdf27be11ea4ac7a]"

text \<open>The balance that is added is read when the loop reaches the account.\<close>

definition ApplyDAOHardFork :: "database \<Rightarrow> StateDB \<Rightarrow> StateDB" where
  "ApplyDAOHardFork db s =
     (let (ex, s) = Exist db DAORefundContract s;
          s = (if \<not> ex then CreateAccount db DAORefundContract s else s)
      in fold (\<lambda>addr s.
           let (bal, s) = GetBalance db addr s;
               s = AddBalance db DAORefundContract bal s
           in SetBalance db addr 0 s) DAODrainList s)"

section \<open>What the rules promise\<close>

lemma sint_diff: "uint p < 2 ^ 63 \<Longrightarrow> uint h < 2 ^ 63 \<Longrightarrow> sint (p - h :: u64) = uint p - uint h"
proof -
  assume b: "uint p < 2 ^ 63" "uint h < 2 ^ 63"
  have "p - h = word_of_int (uint p - uint h)" by simp
  then have "sint (p - h) = signed_take_bit 63 (uint p - uint h)" by (simp add: signed_of_int del: of_int_diff)
  moreover have "signed_take_bit 63 (uint p - uint h) = uint p - uint h"
  proof (rule signed_take_bit_int_eq_self)
    have "0 \<le> uint p" "0 \<le> uint h" by simp_all
    with b show "- (2 ^ 63) \<le> uint p - uint h" "uint p - uint h < 2 ^ 63" by linarith+
  qed
  ultimately show ?thesis by simp
qed

lemma VerifyGaslimit_iff:
  assumes "uint p < 2 ^ 63" "uint h < 2 ^ 63"
  shows "VerifyGaslimit p h = None \<longleftrightarrow> \<bar>uint p - uint h\<bar> < uint p div 1024 \<and> 5000 \<le> uint h"
proof -
  have "(if sint (p - h) < 0 then - (p - h) else p - h) = word_of_int \<bar>uint p - uint h\<bar>"
    using assms by (simp add: sint_diff)
  moreover have "uint (word_of_int \<bar>uint p - uint h\<bar> :: u64) = \<bar>uint p - uint h\<bar>"
  proof -
    have "uint p < 9223372036854775808" "uint h < 9223372036854775808" "0 \<le> uint p" "0 \<le> uint h" using assms by simp_all
    then have "\<bar>uint p - uint h\<bar> < 18446744073709551616" by linarith
    then show ?thesis by (simp add: uint_word_of_int_eq take_bit_int_eq_self)
  qed
  ultimately show ?thesis
    by (auto simp: VerifyGaslimit_def Let_def word_le_def word_less_def uint_div not_le)
qed

lemma big_Div_pos [simp]: "0 < y \<Longrightarrow> big_Div x y = Ret (x div y)"
  by (simp add: big_Div_def)

text \<open>The base fee of a London parent with a non-zero gas target, by cases.\<close>

lemma CalcBaseFee_cases:
  assumes "cfg_IsLondon c (hd_Number parent)" "hd_BaseFee parent = Some b" "2 \<le> hd_GasLimit parent"
  defines "t \<equiv> uint (hd_GasLimit parent div 2)" and "u \<equiv> uint (hd_GasUsed parent)"
  shows "CalcBaseFee c parent = Ret
    (if u = t then b else if t < u then b + max 1 ((u - t) * b div t div 8) else max 0 (b - (t - u) * b div t div 8))"
proof -
  let ?t = "hd_GasLimit parent div 2" and ?u = "hd_GasUsed parent"
  have "2 \<le> uint (hd_GasLimit parent)" using assms(3) by (simp add: word_le_def)
  then have t: "0 < t" by (simp add: t_def uint_div)
  have c: "?u = ?t \<longleftrightarrow> u = t" "?t < ?u \<longleftrightarrow> t < u"
    by (simp_all add: t_def u_def word_less_def word_uint_eq_iff)
  have d: "t < u \<Longrightarrow> uint (?u - ?t) = u - t" "\<not> t < u \<Longrightarrow> uint (?t - ?u) = t - u"
    using uint_sub_lem [of ?t ?u] uint_sub_lem [of ?u ?t] by (simp_all add: t_def u_def)
  have "u64_div (hd_GasLimit parent) (ElasticityMultiplier c) = Ret ?t"
    by (simp add: u64_div_def ElasticityMultiplier_def)
  then show ?thesis
    using assms(1,2) t
    by (simp add: CalcBaseFee_def BaseFeeChangeDenominator_def deref_def c d t_def [symmetric] BigMax_def max_def Let_def)
qed

lemma share_le: "0 < (t :: int) \<Longrightarrow> 0 \<le> b \<Longrightarrow> 0 \<le> d \<Longrightarrow> d \<le> t \<Longrightarrow> 0 \<le> d * b div t div 8 \<and> d * b div t div 8 \<le> b div 8"
proof -
  assume *: "0 < t" "0 \<le> b" "0 \<le> d" "d \<le> t"
  have "d * b \<le> t * b" using * by (intro mult_right_mono)
  then have "d * b div t \<le> t * b div t" using *(1) by (intro zdiv_mono1)
  moreover have "0 \<le> d * b div t" using * by (simp add: pos_imp_zdiv_nonneg_iff)
  ultimately show ?thesis using *(1) by (simp add: zdiv_mono1)
qed

text \<open>The share of a parent that used more than its target, at most the target plus one.\<close>

lemma CalcBaseFee_bounds:
  assumes "cfg_IsLondon c (hd_Number parent)" "hd_BaseFee parent = Some b" "0 \<le> b" "2 \<le> hd_GasLimit parent"
    "hd_GasUsed parent \<le> hd_GasLimit parent"
  defines "t \<equiv> uint (hd_GasLimit parent div 2)" and "u \<equiv> uint (hd_GasUsed parent)"
  shows "\<exists>b'. CalcBaseFee c parent = Ret b' \<and> 0 \<le> b' \<and> b - b div 8 \<le> b' \<and> b' \<le> b + max 1 ((t + 1) * b div t div 8) \<and>
    (u \<le> 2 * t \<longrightarrow> b' \<le> b + max 1 (b div 8)) \<and> (b < b' \<longleftrightarrow> t < u) \<and> (b' < b \<longrightarrow> u < t)"
proof -
  have "2 \<le> uint (hd_GasLimit parent)" using assms(4) by (simp add: word_le_def)
  then have t: "0 < t" by (simp add: t_def uint_div)
  have u: "0 \<le> u" "u \<le> 2 * t + 1"
    using assms(5) div_mult_mod_eq [of "uint (hd_GasLimit parent)" 2] by (simp_all add: u_def t_def uint_div word_le_def)
  have up: "0 \<le> (u - t) * b div t div 8 \<and> (u - t) * b div t div 8 \<le> (t + 1) * b div t div 8" if "t < u"
  proof -
    have "(u - t) * b \<le> (t + 1) * b" using u assms(3) by (intro mult_right_mono) auto
    then have "(u - t) * b div t \<le> (t + 1) * b div t" using t by (intro zdiv_mono1)
    moreover have "0 \<le> (u - t) * b div t" using that t assms(3) by (simp add: pos_imp_zdiv_nonneg_iff)
    ultimately show ?thesis by (simp add: zdiv_mono1)
  qed
  have up2: "(u - t) * b div t div 8 \<le> b div 8" if "t < u" "u \<le> 2 * t"
    using share_le [OF t assms(3), of "u - t"] that by simp
  have down: "0 \<le> (t - u) * b div t div 8 \<and> (t - u) * b div t div 8 \<le> b div 8" if "u < t"
    using share_le [OF t assms(3), of "t - u"] that u by simp
  have "0 \<le> b div 8" "b div 8 \<le> b" using assms(3) by simp_all
  then show ?thesis
    unfolding CalcBaseFee_cases [OF assms(1,2,4)] t_def [symmetric] u_def [symmetric]
    using up up2 down by (cases u t rule: linorder_cases) (auto simp: le_max_iff_disj)
qed

text \<open>
  C35. What the fee rules accept after a parent that used no more gas than its limit \<open>L\<close>, at least 2. After a
  London parent with base fee \<open>b\<close> and gas target \<open>t = L div 2\<close> the base fee falls by at most \<open>b div 8\<close>, rises by
  at most one wei or an eighth of \<open>b * (t + 1) / t\<close> (of \<open>b\<close>, if the parent used at most twice its target; an
  odd limit allows one unit more), rises exactly when the parent used more than the target and falls only when
  it used less. The first London block has the initial base fee and twice the gas limit to start from.
  The gas limit moves by less than one part in 1024 and stays above the minimum, for limits up to the maximum.
\<close>

theorem london_header_moves_little:
  assumes "VerifyEIP1559Header c parent header = Ret None" "cfg_IsLondon c (hd_Number parent) \<Longrightarrow> hd_BaseFee parent = Some b"
    "0 \<le> b" "2 \<le> hd_GasLimit parent" "hd_GasUsed parent \<le> hd_GasLimit parent"
    "(if cfg_IsLondon c (hd_Number parent) then 1 else 2) * uint (hd_GasLimit parent) \<le> uint MaxGasLimit"
    "hd_GasLimit header \<le> MaxGasLimit"
  shows "let L = (if cfg_IsLondon c (hd_Number parent) then 1 else 2) * uint (hd_GasLimit parent);
             t = uint (hd_GasLimit parent div 2); u = uint (hd_GasUsed parent)
    in \<exists>b'. hd_BaseFee header = Some b' \<and>
      (if cfg_IsLondon c (hd_Number parent)
       then 0 \<le> b' \<and> b - b div 8 \<le> b' \<and> b' \<le> b + max 1 ((t + 1) * b div t div 8) \<and>
            (u \<le> 2 * t \<longrightarrow> b' \<le> b + max 1 (b div 8)) \<and> (b < b' \<longleftrightarrow> t < u) \<and> (b' < b \<longrightarrow> u < t)
       else b' = InitialBaseFee) \<and>
      \<bar>L - uint (hd_GasLimit header)\<bar> < L div 1024 \<and> 5000 \<le> uint (hd_GasLimit header)"
proof -
  let ?london = "cfg_IsLondon c (hd_Number parent)"
  define p where "p = (if \<not> ?london then hd_GasLimit parent * ElasticityMultiplier c else hd_GasLimit parent)"
  have p: "uint p = (if ?london then 1 else 2) * uint (hd_GasLimit parent)"
    using assms(6) uint_mult_lem [of "hd_GasLimit parent" 2] by (auto simp: p_def ElasticityMultiplier_def mult.commute)
  then have "uint p < 2 ^ 63" "uint (hd_GasLimit header) < 2 ^ 63" using assms(6,7) by (simp_all add: word_le_def)
  moreover have v: "VerifyGaslimit p (hd_GasLimit header) = None"
    using assms(1) by (auto simp: VerifyEIP1559Header_def p_def [symmetric] split: option.splits)
  ultimately have g: "\<bar>uint p - uint (hd_GasLimit header)\<bar> < uint p div 1024 \<and> 5000 \<le> uint (hd_GasLimit header)"
    using VerifyGaslimit_iff by blast
  obtain b' where b': "hd_BaseFee header = Some b'" "CalcBaseFee c parent = Ret b'"
    using assms(1) v by (auto simp: VerifyEIP1559Header_def p_def [symmetric] split: option.splits if_splits)
  show ?thesis
  proof (cases ?london)
    case True
    then show ?thesis using CalcBaseFee_bounds [OF True assms(2) [OF True] assms(3-5)] b' g p by (simp add: Let_def)
  next
    case False
    then have "b' = InitialBaseFee" using b'(2) by (simp add: CalcBaseFee_def)
    then show ?thesis using False b'(1) g p by (simp add: Let_def)
  qed
qed

theorem london_header_moves_little_witness:
  "let parent = (sample_header 12965000)\<lparr>hd_GasUsed := 30000000\<rparr>; header = (sample_header 12965001)\<lparr>hd_BaseFee := Some 1125000000\<rparr>
   in VerifyEIP1559Header MainnetChainConfig parent header = Ret None \<and>
     (\<exists>b'. hd_BaseFee header = Some b' \<and> b' = 1125000000 \<and> \<bar>b' - 1000000000\<bar> \<le> max 1 (1000000000 div 8) \<and>
       \<bar>uint (hd_GasLimit parent) - uint (hd_GasLimit header)\<bar> < uint (hd_GasLimit parent) div 1024)"
proof -
  define parent header where "parent = (sample_header 12965000)\<lparr>hd_GasUsed := 30000000\<rparr>" and "header = (sample_header 12965001)\<lparr>hd_BaseFee := Some 1125000000\<rparr>"
  have L: "cfg_IsLondon MainnetChainConfig (hd_Number parent)"
    by (simp add: parent_def sample_header_def MainnetChainConfig_def cfg_IsLondon_def isBlockForked_def)
  have "CalcBaseFee MainnetChainConfig parent = Ret 1125000000"
    by (subst CalcBaseFee_cases [OF L, of 1000000000]) (simp_all add: parent_def sample_header_def max_def)
  then have V: "VerifyEIP1559Header MainnetChainConfig parent header = Ret None"
    by (simp add: VerifyEIP1559Header_def L VerifyGaslimit_def) (simp add: parent_def header_def sample_header_def)
  show ?thesis
    using V L london_header_moves_little [OF V, of 1000000000]
    by (simp add: parent_def [symmetric] header_def [symmetric] Let_def) (simp add: parent_def header_def sample_header_def)
qed

section \<open>The blob fee\<close>

lemma fakeExponential_loop_mono:
  assumes "0 < d" "0 \<le> n" "n \<le> n'" "0 < i" "a \<le> a'" "out \<le> out'"
  shows "\<exists>r r'. fakeExponential_loop n d i a out = Ret r \<and> fakeExponential_loop n' d i a' out' = Ret r' \<and>
    r \<le> r' \<and> out + max 0 a \<le> r"
  using assms
proof (induction n' d i a' out' arbitrary: a out rule: fakeExponential_loop.induct)
  case (1 n' d i a' out')
  let ?s = "\<lambda>n a. a * n div d div int i"
  have i: "0 < int i" using "1.prems" by simp
  show ?case
  proof (cases "0 < a'")
    case False
    then show ?thesis using "1.prems" by (simp add: fakeExponential_loop.simps [of n d i a out] fakeExponential_loop.simps [of n' d i a' out'])
  next
    case a': True
    have step: "\<And>n a out. 0 < a \<Longrightarrow> fakeExponential_loop n d i a out = fakeExponential_loop n d (Suc i) (?s n a) (out + a)"
      using "1.prems"(1) i by (subst fakeExponential_loop.simps) simp
    have nn: "0 \<le> ?s n b" if "0 \<le> b" for b
      using that "1.prems"(1,2) i by (simp add: pos_imp_zdiv_nonneg_iff)
    show ?thesis
    proof (cases "0 < a")
      case True
      have "a * n \<le> a' * n'" using "1.prems" True by (intro mult_mono) auto
      then have "?s n a \<le> ?s n' a'" using "1.prems"(1) i by (intro zdiv_mono1) auto
      then obtain r r' where "fakeExponential_loop n d (Suc i) (?s n a) (out + a) = Ret r"
        "fakeExponential_loop n' d (Suc i) (?s n' a') (out' + a') = Ret r'" "r \<le> r'" "out + a + max 0 (?s n a) \<le> r"
        using "1.IH" [OF a' refl, of "a' * n' div d" "?s n' a'" "?s n a" "out + a"] "1.prems" i by auto
      then show ?thesis using step [OF a'] step [OF True] True by auto
    next
      case False
      have "0 * n \<le> a' * n'" using "1.prems" a' by (intro mult_mono) auto
      then have "?s n 0 \<le> ?s n' a'" using "1.prems"(1) i by (intro zdiv_mono1) auto
      then obtain r r' where "fakeExponential_loop n d (Suc i) (?s n 0) out = Ret r"
        "fakeExponential_loop n' d (Suc i) (?s n' a') (out' + a') = Ret r'" "r \<le> r'" "out \<le> r"
        using "1.IH" [OF a' refl, of "a' * n' div d" "?s n' a'" "?s n 0" out] "1.prems" i a' by auto
      moreover have "fakeExponential_loop n d i a out = Ret out" using False by (simp add: fakeExponential_loop.simps)
      ultimately show ?thesis using step [OF a'] False by auto
    qed
  qed
qed

text \<open>
  C34. The blob fee is total, at least the minimum price, and grows with the excess blob gas: the Taylor
  series that approximates the exponential stops for every excess, and more excess never makes it smaller.
\<close>

theorem blob_fee_grows:
  assumes "excess \<le> excess'"
  shows "\<exists>f f'. CalcBlobFee excess = Ret f \<and> CalcBlobFee excess' = Ret f' \<and> 1 \<le> f \<and> f \<le> f'"
proof -
  have "uint excess \<le> uint excess'" using assms by (simp add: word_le_def)
  then obtain r r' where *: "fakeExponential_loop (uint excess) 3338477 1 3338477 0 = Ret r"
    "fakeExponential_loop (uint excess') 3338477 1 3338477 0 = Ret r'" "r \<le> r'" "3338477 \<le> r"
    using fakeExponential_loop_mono [of 3338477 "uint excess" "uint excess'" 1 3338477 3338477 0 0] by auto
  then have "1 \<le> r div 3338477" by (simp add: int_le_div)
  then show ?thesis using * by (simp add: CalcBlobFee_def fakeExponential_def zdiv_mono1)
qed

theorem blob_fee_grows_witness:
  "CalcBlobFee 0 = Ret 1 \<and> CalcBlobFee 10000000 = Ret 19 \<and>
   (\<exists>f f'. CalcBlobFee 0 = Ret f \<and> CalcBlobFee 10000000 = Ret f' \<and> 1 \<le> f \<and> f \<le> f')"
proof (intro conjI)
  show "\<exists>f f'. CalcBlobFee 0 = Ret f \<and> CalcBlobFee 10000000 = Ret f' \<and> 1 \<le> f \<and> f \<le> f'"
    by (rule blob_fee_grows) simp
qed (simp_all add: CalcBlobFee_def fakeExponential_def fakeExponential_loop.simps)

end
