(* ===== verification/Transactions.thy ===== *)
theory Transactions imports Fee_Rules begin

text \<open>
  Transactions (\<open>core/types/transaction.go\<close>, \<open>tx_legacy.go\<close>, \<open>tx_access_list.go\<close>, \<open>tx_dynamic_fee.go\<close>,
  \<open>tx_blob.go\<close>) and their signatures (\<open>transaction_signing.go\<close>). A transaction holds the copy of its data that
  \<open>NewTx\<close> makes, whose big integers are there; only \<open>setSignatureValues\<close> can put a nil chain id into it.
  Keccak-256 and the recovery of public keys are the parameters \<open>K\<close> and \<open>rec\<close>. The caches of the hash and
  the size of a transaction and the time it was seen are left out.
\<close>

section \<open>Transaction data\<close>

record LegacyTx =
  lt_Nonce :: u64
  lt_GasPrice :: int
  lt_Gas :: u64
  lt_To :: "address option"
  lt_Value :: int
  lt_Data :: bytes
  lt_V :: int
  lt_R :: int
  lt_S :: int

record AccessListTx =
  acl_ChainID :: "int option"
  acl_Nonce :: u64
  acl_GasPrice :: int
  acl_Gas :: u64
  acl_To :: "address option"
  acl_Value :: int
  acl_Data :: bytes
  acl_AccessList :: "access_tuple list"
  acl_V :: int
  acl_R :: int
  acl_S :: int

record DynamicFeeTx =
  dy_ChainID :: "int option"
  dy_Nonce :: u64
  dy_GasTipCap :: int
  dy_GasFeeCap :: int
  dy_Gas :: u64
  dy_To :: "address option"
  dy_Value :: int
  dy_Data :: bytes
  dy_AccessList :: "access_tuple list"
  dy_V :: int
  dy_R :: int
  dy_S :: int

record BlobTxSidecar =
  sc_Blobs :: "bytes list"
  sc_Commitments :: "bytes list"
  sc_Proofs :: "bytes list"

record BlobTx =
  bl_ChainID :: u256
  bl_Nonce :: u64
  bl_GasTipCap :: u256
  bl_GasFeeCap :: u256
  bl_Gas :: u64
  bl_To :: address
  bl_Value :: u256
  bl_Data :: bytes
  bl_AccessList :: "access_tuple list"
  bl_BlobFeeCap :: u256
  bl_BlobHashes :: "hash list"
  bl_Sidecar :: "BlobTxSidecar option"
  bl_V :: u256
  bl_R :: u256
  bl_S :: u256

datatype TxData = Legacy LegacyTx | AccessListed AccessListTx | DynamicFee DynamicFeeTx | Blob BlobTx

abbreviation (input) LegacyTxType :: u8 where "LegacyTxType \<equiv> 0"
abbreviation (input) AccessListTxType :: u8 where "AccessListTxType \<equiv> 1"
abbreviation (input) DynamicFeeTxType :: u8 where "DynamicFeeTxType \<equiv> 2"
abbreviation (input) BlobTxType :: u8 where "BlobTxType \<equiv> 3"

datatype tx_error =
    ErrInvalidSig
  | ErrUnexpectedProtection
  | ErrTxTypeNotSupported
  | ErrInvalidChainId
  | ErrGasFeeCapTooLow
  | ErrRecoverKey
  | ErrSignKey
  | ErrInvalidPublicKey

fun txType :: "TxData \<Rightarrow> u8" where
  "txType (Legacy tx) = LegacyTxType"
| "txType (AccessListed tx) = AccessListTxType"
| "txType (DynamicFee tx) = DynamicFeeTxType"
| "txType (Blob tx) = BlobTxType"

text \<open>The chain id that the signature value \<open>v\<close> of a legacy transaction stands for.\<close>

definition deriveChainId :: "int \<Rightarrow> int" where
  "deriveChainId v =
     (if int_BitLen v \<le> 64 then
        let v = big_Uint64 v in if v = 27 \<or> v = 28 then 0 else uint ((v - 35) div 2)
      else (v - 35) div 2)"

definition isProtectedV :: "int \<Rightarrow> bool" where
  "isProtectedV V =
     (if int_BitLen V \<le> 8 then let v = big_Uint64 V in v \<noteq> 27 \<and> v \<noteq> 28 \<and> v \<noteq> 1 \<and> v \<noteq> 0 else True)"

fun tx_Protected :: "TxData \<Rightarrow> bool" where
  "tx_Protected (Legacy tx) = isProtectedV (lt_V tx)"
| "tx_Protected _ = True"

fun tx_ChainId :: "TxData \<Rightarrow> int option" where
  "tx_ChainId (Legacy tx) = Some (deriveChainId (lt_V tx))"
| "tx_ChainId (AccessListed tx) = acl_ChainID tx"
| "tx_ChainId (DynamicFee tx) = dy_ChainID tx"
| "tx_ChainId (Blob tx) = Some (uint (bl_ChainID tx))"

fun tx_Data :: "TxData \<Rightarrow> bytes" where
  "tx_Data (Legacy tx) = lt_Data tx"
| "tx_Data (AccessListed tx) = acl_Data tx"
| "tx_Data (DynamicFee tx) = dy_Data tx"
| "tx_Data (Blob tx) = bl_Data tx"

fun tx_AccessList :: "TxData \<Rightarrow> access_tuple list" where
  "tx_AccessList (Legacy tx) = []"
| "tx_AccessList (AccessListed tx) = acl_AccessList tx"
| "tx_AccessList (DynamicFee tx) = dy_AccessList tx"
| "tx_AccessList (Blob tx) = bl_AccessList tx"

fun tx_Gas :: "TxData \<Rightarrow> u64" where
  "tx_Gas (Legacy tx) = lt_Gas tx"
| "tx_Gas (AccessListed tx) = acl_Gas tx"
| "tx_Gas (DynamicFee tx) = dy_Gas tx"
| "tx_Gas (Blob tx) = bl_Gas tx"

fun tx_GasPrice :: "TxData \<Rightarrow> int" where
  "tx_GasPrice (Legacy tx) = lt_GasPrice tx"
| "tx_GasPrice (AccessListed tx) = acl_GasPrice tx"
| "tx_GasPrice (DynamicFee tx) = dy_GasFeeCap tx"
| "tx_GasPrice (Blob tx) = uint (bl_GasFeeCap tx)"

fun tx_GasTipCap :: "TxData \<Rightarrow> int" where
  "tx_GasTipCap (Legacy tx) = lt_GasPrice tx"
| "tx_GasTipCap (AccessListed tx) = acl_GasPrice tx"
| "tx_GasTipCap (DynamicFee tx) = dy_GasTipCap tx"
| "tx_GasTipCap (Blob tx) = uint (bl_GasTipCap tx)"

fun tx_GasFeeCap :: "TxData \<Rightarrow> int" where
  "tx_GasFeeCap (Legacy tx) = lt_GasPrice tx"
| "tx_GasFeeCap (AccessListed tx) = acl_GasPrice tx"
| "tx_GasFeeCap (DynamicFee tx) = dy_GasFeeCap tx"
| "tx_GasFeeCap (Blob tx) = uint (bl_GasFeeCap tx)"

fun tx_Value :: "TxData \<Rightarrow> int" where
  "tx_Value (Legacy tx) = lt_Value tx"
| "tx_Value (AccessListed tx) = acl_Value tx"
| "tx_Value (DynamicFee tx) = dy_Value tx"
| "tx_Value (Blob tx) = uint (bl_Value tx)"

fun tx_Nonce :: "TxData \<Rightarrow> u64" where
  "tx_Nonce (Legacy tx) = lt_Nonce tx"
| "tx_Nonce (AccessListed tx) = acl_Nonce tx"
| "tx_Nonce (DynamicFee tx) = dy_Nonce tx"
| "tx_Nonce (Blob tx) = bl_Nonce tx"

fun tx_To :: "TxData \<Rightarrow> address option" where
  "tx_To (Legacy tx) = lt_To tx"
| "tx_To (AccessListed tx) = acl_To tx"
| "tx_To (DynamicFee tx) = dy_To tx"
| "tx_To (Blob tx) = Some (bl_To tx)"

fun tx_BlobGas :: "TxData \<Rightarrow> u64" where
  "tx_BlobGas (Blob tx) = BlobTxBlobGasPerBlob * len64 (bl_BlobHashes tx)"
| "tx_BlobGas _ = 0"

fun tx_BlobGasFeeCap :: "TxData \<Rightarrow> int option" where
  "tx_BlobGasFeeCap (Blob tx) = Some (uint (bl_BlobFeeCap tx))"
| "tx_BlobGasFeeCap _ = None"

fun tx_BlobHashes :: "TxData \<Rightarrow> hash list option" where
  "tx_BlobHashes (Blob tx) = Some (bl_BlobHashes tx)"
| "tx_BlobHashes _ = None"

fun tx_BlobTxSidecar :: "TxData \<Rightarrow> BlobTxSidecar option" where
  "tx_BlobTxSidecar (Blob tx) = bl_Sidecar tx"
| "tx_BlobTxSidecar _ = None"

fun tx_WithoutBlobTxSidecar :: "TxData \<Rightarrow> TxData" where
  "tx_WithoutBlobTxSidecar (Blob tx) = Blob (tx\<lparr>bl_Sidecar := None\<rparr>)"
| "tx_WithoutBlobTxSidecar tx = tx"

section \<open>Prices\<close>

text \<open>A blob transaction has a cap on its blob fee, so the second test never fails.\<close>

definition tx_Cost :: "TxData \<Rightarrow> int" where
  "tx_Cost tx =
     (let total = tx_GasPrice tx * uint (tx_Gas tx);
          total = (if txType tx = BlobTxType then
                     (case tx_BlobGasFeeCap tx of Some cap \<Rightarrow> total + cap * uint (tx_BlobGas tx) | None \<Rightarrow> total)
                   else total)
      in total + tx_Value tx)"

definition EffectiveGasTip :: "TxData \<Rightarrow> int option \<Rightarrow> int \<times> tx_error option" where
  "EffectiveGasTip tx baseFee =
     (case baseFee of
        None \<Rightarrow> (tx_GasTipCap tx, None)
      | Some baseFee \<Rightarrow>
          (BigMin (tx_GasTipCap tx) (tx_GasFeeCap tx - baseFee),
           if tx_GasFeeCap tx < baseFee then Some ErrGasFeeCapTooLow else None))"

definition EffectiveGasTipValue :: "TxData \<Rightarrow> int option \<Rightarrow> int" where
  "EffectiveGasTipValue tx baseFee = fst (EffectiveGasTip tx baseFee)"

definition dynamic_price :: "int \<Rightarrow> int \<Rightarrow> int option \<Rightarrow> int" where
  "dynamic_price feeCap tipCap baseFee =
     (case baseFee of
        None \<Rightarrow> feeCap
      | Some baseFee \<Rightarrow> let tip = feeCap - baseFee; tip = (if tip > tipCap then tipCap else tip) in tip + baseFee)"

fun effectiveGasPrice :: "TxData \<Rightarrow> int option \<Rightarrow> int" where
  "effectiveGasPrice (Legacy tx) baseFee = lt_GasPrice tx"
| "effectiveGasPrice (AccessListed tx) baseFee = acl_GasPrice tx"
| "effectiveGasPrice (DynamicFee tx) baseFee = dynamic_price (dy_GasFeeCap tx) (dy_GasTipCap tx) baseFee"
| "effectiveGasPrice (Blob tx) baseFee = dynamic_price (uint (bl_GasFeeCap tx)) (uint (bl_GasTipCap tx)) baseFee"

text \<open>\<open>Cmp\<close> of \<open>big.Int\<close>.\<close>

definition big_Cmp :: "int \<Rightarrow> int \<Rightarrow> int" where
  "big_Cmp x y = (if x < y then - 1 else if x = y then 0 else 1)"

definition GasFeeCapCmp :: "TxData \<Rightarrow> TxData \<Rightarrow> int" where
  "GasFeeCapCmp tx other = big_Cmp (tx_GasFeeCap tx) (tx_GasFeeCap other)"

definition GasTipCapCmp :: "TxData \<Rightarrow> TxData \<Rightarrow> int" where
  "GasTipCapCmp tx other = big_Cmp (tx_GasTipCap tx) (tx_GasTipCap other)"

definition GasFeeCapIntCmp :: "TxData \<Rightarrow> int \<Rightarrow> int" where
  "GasFeeCapIntCmp tx other = big_Cmp (tx_GasFeeCap tx) other"

definition GasTipCapIntCmp :: "TxData \<Rightarrow> int \<Rightarrow> int" where
  "GasTipCapIntCmp tx other = big_Cmp (tx_GasTipCap tx) other"

definition BlobGasFeeCapIntCmp :: "TxData \<Rightarrow> int option \<Rightarrow> int go" where
  "BlobGasFeeCapIntCmp tx other =
     go_bind (deref (tx_BlobGasFeeCap tx)) (\<lambda>x. go_bind (deref other) (\<lambda>y. Ret (big_Cmp x y)))"

definition BlobGasFeeCapCmp :: "TxData \<Rightarrow> TxData \<Rightarrow> int go" where
  "BlobGasFeeCapCmp tx other = BlobGasFeeCapIntCmp tx (tx_BlobGasFeeCap other)"

definition EffectiveGasTipIntCmp :: "TxData \<Rightarrow> int \<Rightarrow> int option \<Rightarrow> int" where
  "EffectiveGasTipIntCmp tx other baseFee =
     (if baseFee = None then GasTipCapIntCmp tx other else big_Cmp (EffectiveGasTipValue tx baseFee) other)"

definition EffectiveGasTipCmp :: "TxData \<Rightarrow> TxData \<Rightarrow> int option \<Rightarrow> int" where
  "EffectiveGasTipCmp tx other baseFee =
     (if baseFee = None then GasTipCapCmp tx other
      else big_Cmp (EffectiveGasTipValue tx baseFee) (EffectiveGasTipValue other baseFee))"

section \<open>Hashes\<close>

text \<open>
  A field of a struct or list that \<open>rlp.Encode\<close> writes: it fails on a negative \<open>big.Int\<close> and then writes
  nothing, an error that the hash functions ignore.
\<close>

datatype rlp_field = FBig "int option" | FUint u64 | FAddress "address option" | FBytes bytes | FAccessList "access_tuple list" | FHashes "hash list"

fun field_item :: "rlp_field \<Rightarrow> encode_error + rlp_item" where
  "field_item (FBig i) = (if not_negative i then Inr (big_item i) else Inl ErrNegativeBigInt)"
| "field_item (FUint i) = Inr (uint_item i)"
| "field_item (FAddress a) = Inr (RStr (case a of None \<Rightarrow> [] | Some a \<Rightarrow> address_bytes a))"
| "field_item (FBytes b) = Inr (RStr b)"
| "field_item (FAccessList al) = Inr (RList (map (\<lambda>(a, ks). RList [RStr (address_bytes a), RList (map hash_item ks)]) al))"
| "field_item (FHashes hs) = Inr (RList (map hash_item hs))"

fun field_items :: "rlp_field list \<Rightarrow> encode_error + rlp_item list" where
  "field_items [] = Inr []"
| "field_items (f # fs) =
     (case field_item f of Inl e \<Rightarrow> Inl e
      | Inr i \<Rightarrow> (case field_items fs of Inl e \<Rightarrow> Inl e | Inr is \<Rightarrow> Inr (i # is)))"

definition rlp_Encode :: "rlp_field list \<Rightarrow> (encode_error + bytes) go" where
  "rlp_Encode xs =
     (case field_items xs of
        Inl e \<Rightarrow> Ret (Inl e)
      | Inr items \<Rightarrow>
          go_bind (write_item (RList items) eb_reset) (\<lambda>w. go_bind (eb_makeBytes w) (\<lambda>b. Ret (Inr b))))"

definition rlpHash :: "(bytes \<Rightarrow> hash) \<Rightarrow> rlp_field list \<Rightarrow> hash go" where
  "rlpHash K x = go_bind (rlp_Encode x) (\<lambda>r. Ret (K (case r of Inl _ \<Rightarrow> [] | Inr b \<Rightarrow> b)))"

definition prefixedRlpHash :: "(bytes \<Rightarrow> hash) \<Rightarrow> u8 \<Rightarrow> rlp_field list \<Rightarrow> hash go" where
  "prefixedRlpHash K prefix x = go_bind (rlp_Encode x) (\<lambda>r. Ret (K (prefix # (case r of Inl _ \<Rightarrow> [] | Inr b \<Rightarrow> b))))"

fun tx_fields :: "TxData \<Rightarrow> rlp_field list" where
  "tx_fields (Legacy tx) =
     [FUint (lt_Nonce tx), FBig (Some (lt_GasPrice tx)), FUint (lt_Gas tx), FAddress (lt_To tx), FBig (Some (lt_Value tx)),
      FBytes (lt_Data tx), FBig (Some (lt_V tx)), FBig (Some (lt_R tx)), FBig (Some (lt_S tx))]"
| "tx_fields (AccessListed tx) =
     [FBig (acl_ChainID tx), FUint (acl_Nonce tx), FBig (Some (acl_GasPrice tx)), FUint (acl_Gas tx), FAddress (acl_To tx),
      FBig (Some (acl_Value tx)), FBytes (acl_Data tx), FAccessList (acl_AccessList tx),
      FBig (Some (acl_V tx)), FBig (Some (acl_R tx)), FBig (Some (acl_S tx))]"
| "tx_fields (DynamicFee tx) =
     [FBig (dy_ChainID tx), FUint (dy_Nonce tx), FBig (Some (dy_GasTipCap tx)), FBig (Some (dy_GasFeeCap tx)), FUint (dy_Gas tx),
      FAddress (dy_To tx), FBig (Some (dy_Value tx)), FBytes (dy_Data tx), FAccessList (dy_AccessList tx),
      FBig (Some (dy_V tx)), FBig (Some (dy_R tx)), FBig (Some (dy_S tx))]"
| "tx_fields (Blob tx) =
     [FBig (Some (uint (bl_ChainID tx))), FUint (bl_Nonce tx), FBig (Some (uint (bl_GasTipCap tx))),
      FBig (Some (uint (bl_GasFeeCap tx))), FUint (bl_Gas tx), FAddress (Some (bl_To tx)), FBig (Some (uint (bl_Value tx))),
      FBytes (bl_Data tx), FAccessList (bl_AccessList tx), FBig (Some (uint (bl_BlobFeeCap tx))), FHashes (bl_BlobHashes tx),
      FBig (Some (uint (bl_V tx))), FBig (Some (uint (bl_R tx))), FBig (Some (uint (bl_S tx)))]"

definition tx_Hash :: "(bytes \<Rightarrow> hash) \<Rightarrow> TxData \<Rightarrow> hash go" where
  "tx_Hash K tx = (if txType tx = LegacyTxType then rlpHash K (tx_fields tx) else prefixedRlpHash K (txType tx) (tx_fields tx))"

section \<open>Signatures\<close>

text \<open>A signer is its place in the chain of forks and its chain id; \<open>chainIdMul\<close> is twice the chain id.\<close>

datatype Signer = FrontierSigner | HomesteadSigner | EIP155Signer int | eip2930Signer int | londonSigner int | cancunSigner int

definition chain_or_zero :: "int option \<Rightarrow> int" where
  "chain_or_zero chainId = (case chainId of None \<Rightarrow> 0 | Some c \<Rightarrow> c)"

definition MakeSigner :: "ChainConfig \<Rightarrow> int option \<Rightarrow> u64 \<Rightarrow> Signer" where
  "MakeSigner config blockNumber blockTime =
     (if cfg_IsCancun config blockNumber blockTime then cancunSigner (chain_or_zero (cfg_ChainID config))
      else if cfg_IsLondon config blockNumber then londonSigner (chain_or_zero (cfg_ChainID config))
      else if cfg_IsBerlin config blockNumber then eip2930Signer (chain_or_zero (cfg_ChainID config))
      else if cfg_IsEIP155 config blockNumber then EIP155Signer (chain_or_zero (cfg_ChainID config))
      else if cfg_IsHomestead config blockNumber then HomesteadSigner
      else FrontierSigner)"

definition LatestSigner :: "ChainConfig \<Rightarrow> Signer" where
  "LatestSigner config =
     (case cfg_ChainID config of
        None \<Rightarrow> HomesteadSigner
      | Some c \<Rightarrow>
          if CancunTime config \<noteq> None then cancunSigner c
          else if LondonBlock config \<noteq> None then londonSigner c
          else if BerlinBlock config \<noteq> None then eip2930Signer c
          else if EIP155Block config \<noteq> None then EIP155Signer c
          else HomesteadSigner)"

definition LatestSignerForChainID :: "int option \<Rightarrow> Signer" where
  "LatestSignerForChainID chainID = (case chainID of None \<Rightarrow> HomesteadSigner | Some c \<Rightarrow> cancunSigner c)"

fun signer_ChainID :: "Signer \<Rightarrow> int option" where
  "signer_ChainID FrontierSigner = None"
| "signer_ChainID HomesteadSigner = None"
| "signer_ChainID (EIP155Signer c) = Some c"
| "signer_ChainID (eip2930Signer c) = Some c"
| "signer_ChainID (londonSigner c) = Some c"
| "signer_ChainID (cancunSigner c) = Some c"

definition frontier_fields :: "TxData \<Rightarrow> rlp_field list" where
  "frontier_fields tx =
     [FUint (tx_Nonce tx), FBig (Some (tx_GasPrice tx)), FUint (tx_Gas tx), FAddress (tx_To tx), FBig (Some (tx_Value tx)),
      FBytes (tx_Data tx)]"

definition dynamic_fields :: "int \<Rightarrow> TxData \<Rightarrow> rlp_field list" where
  "dynamic_fields chainId tx =
     [FBig (Some chainId), FUint (tx_Nonce tx), FBig (Some (tx_GasTipCap tx)), FBig (Some (tx_GasFeeCap tx)), FUint (tx_Gas tx),
      FAddress (tx_To tx), FBig (Some (tx_Value tx)), FBytes (tx_Data tx), FAccessList (tx_AccessList tx)]"

definition frontier_Hash :: "(bytes \<Rightarrow> hash) \<Rightarrow> TxData \<Rightarrow> hash go" where
  "frontier_Hash K tx = rlpHash K (frontier_fields tx)"

definition eip155_Hash :: "(bytes \<Rightarrow> hash) \<Rightarrow> int \<Rightarrow> TxData \<Rightarrow> hash go" where
  "eip155_Hash K chainId tx = rlpHash K (frontier_fields tx @ [FBig (Some chainId), FUint 0, FUint 0])"

definition eip2930_Hash :: "(bytes \<Rightarrow> hash) \<Rightarrow> int \<Rightarrow> TxData \<Rightarrow> hash go" where
  "eip2930_Hash K chainId tx =
     (if txType tx = LegacyTxType then eip155_Hash K chainId tx
      else if txType tx = AccessListTxType then
        prefixedRlpHash K (txType tx)
          [FBig (Some chainId), FUint (tx_Nonce tx), FBig (Some (tx_GasPrice tx)), FUint (tx_Gas tx), FAddress (tx_To tx),
           FBig (Some (tx_Value tx)), FBytes (tx_Data tx), FAccessList (tx_AccessList tx)]
      else Ret 0)"

definition london_Hash :: "(bytes \<Rightarrow> hash) \<Rightarrow> int \<Rightarrow> TxData \<Rightarrow> hash go" where
  "london_Hash K chainId tx =
     (if txType tx \<noteq> DynamicFeeTxType then eip2930_Hash K chainId tx
      else prefixedRlpHash K (txType tx) (dynamic_fields chainId tx))"

definition cancun_Hash :: "(bytes \<Rightarrow> hash) \<Rightarrow> int \<Rightarrow> TxData \<Rightarrow> hash go" where
  "cancun_Hash K chainId tx =
     (if txType tx \<noteq> BlobTxType then london_Hash K chainId tx
      else prefixedRlpHash K (txType tx)
             (dynamic_fields chainId tx @
              [FBig (tx_BlobGasFeeCap tx), FHashes (case tx_BlobHashes tx of None \<Rightarrow> [] | Some hs \<Rightarrow> hs)]))"

definition signer_Hash :: "(bytes \<Rightarrow> hash) \<Rightarrow> Signer \<Rightarrow> TxData \<Rightarrow> hash go" where
  "signer_Hash K signer tx =
     (case signer of
        FrontierSigner \<Rightarrow> frontier_Hash K tx
      | HomesteadSigner \<Rightarrow> frontier_Hash K tx
      | EIP155Signer c \<Rightarrow> eip155_Hash K c tx
      | eip2930Signer c \<Rightarrow> eip2930_Hash K c tx
      | londonSigner c \<Rightarrow> london_Hash K c tx
      | cancunSigner c \<Rightarrow> cancun_Hash K c tx)"

fun rawSignatureValues :: "TxData \<Rightarrow> int \<times> int \<times> int" where
  "rawSignatureValues (Legacy tx) = (lt_V tx, lt_R tx, lt_S tx)"
| "rawSignatureValues (AccessListed tx) = (acl_V tx, acl_R tx, acl_S tx)"
| "rawSignatureValues (DynamicFee tx) = (dy_V tx, dy_R tx, dy_S tx)"
| "rawSignatureValues (Blob tx) = (uint (bl_V tx), uint (bl_R tx), uint (bl_S tx))"

text \<open>\<open>SetFromBig\<close> reads through the pointer to the chain id and takes the value modulo \<open>2 ^ 256\<close>.\<close>

fun setSignatureValues :: "int option \<Rightarrow> int \<Rightarrow> int \<Rightarrow> int \<Rightarrow> TxData \<Rightarrow> TxData go" where
  "setSignatureValues chainID v r s (Legacy tx) = Ret (Legacy (tx\<lparr>lt_V := v, lt_R := r, lt_S := s\<rparr>))"
| "setSignatureValues chainID v r s (AccessListed tx) =
     Ret (AccessListed (tx\<lparr>acl_ChainID := chainID, acl_V := v, acl_R := r, acl_S := s\<rparr>))"
| "setSignatureValues chainID v r s (DynamicFee tx) =
     Ret (DynamicFee (tx\<lparr>dy_ChainID := chainID, dy_V := v, dy_R := r, dy_S := s\<rparr>))"
| "setSignatureValues chainID v r s (Blob tx) =
     go_bind (deref chainID) (\<lambda>c.
       Ret (Blob (tx\<lparr>bl_ChainID := fst (FromBig c), bl_V := fst (FromBig v), bl_R := fst (FromBig r), bl_S := fst (FromBig s)\<rparr>)))"

definition decodeSignature :: "bytes \<Rightarrow> (int \<times> int \<times> int) go" where
  "decodeSignature sig =
     (if length sig \<noteq> 65 then Panic SignatureSize
      else Ret (int (nat_of_bytes (take 32 sig)), int (nat_of_bytes (take 32 (drop 32 sig))), uint (sig ! 64 + 27)))"

text \<open>The values of a typed transaction, whose chain id must be the signer's or zero.\<close>

definition typed_values :: "int \<Rightarrow> TxData \<Rightarrow> bytes \<Rightarrow> (tx_error + int \<times> int \<times> int) go" where
  "typed_values chainId tx sig =
     go_bind (deref (tx_ChainId tx)) (\<lambda>c.
     if sgn c \<noteq> 0 \<and> c \<noteq> chainId then Ret (Inl ErrInvalidChainId)
     else go_bind (decodeSignature sig) (\<lambda>(r, s, _). Ret (Inr (r, s, uint (sig ! 64)))))"

definition frontier_SignatureValues :: "TxData \<Rightarrow> bytes \<Rightarrow> (tx_error + int \<times> int \<times> int) go" where
  "frontier_SignatureValues tx sig =
     (if txType tx \<noteq> LegacyTxType then Ret (Inl ErrTxTypeNotSupported)
      else go_bind (decodeSignature sig) (\<lambda>v. Ret (Inr v)))"

definition eip155_SignatureValues :: "int \<Rightarrow> TxData \<Rightarrow> bytes \<Rightarrow> (tx_error + int \<times> int \<times> int) go" where
  "eip155_SignatureValues chainId tx sig =
     (if txType tx \<noteq> LegacyTxType then Ret (Inl ErrTxTypeNotSupported)
      else go_bind (decodeSignature sig) (\<lambda>(r, s, v).
        Ret (Inr (r, s, if sgn chainId \<noteq> 0 then uint (sig ! 64 + 35) + 2 * chainId else v))))"

definition eip2930_SignatureValues :: "int \<Rightarrow> TxData \<Rightarrow> bytes \<Rightarrow> (tx_error + int \<times> int \<times> int) go" where
  "eip2930_SignatureValues chainId tx sig =
     (if txType tx = LegacyTxType then eip155_SignatureValues chainId tx sig
      else if txType tx = AccessListTxType then typed_values chainId tx sig
      else Ret (Inl ErrTxTypeNotSupported))"

definition london_SignatureValues :: "int \<Rightarrow> TxData \<Rightarrow> bytes \<Rightarrow> (tx_error + int \<times> int \<times> int) go" where
  "london_SignatureValues chainId tx sig =
     (if txType tx \<noteq> DynamicFeeTxType then eip2930_SignatureValues chainId tx sig else typed_values chainId tx sig)"

definition cancun_SignatureValues :: "int \<Rightarrow> TxData \<Rightarrow> bytes \<Rightarrow> (tx_error + int \<times> int \<times> int) go" where
  "cancun_SignatureValues chainId tx sig =
     (if txType tx \<noteq> BlobTxType then london_SignatureValues chainId tx sig else typed_values chainId tx sig)"

definition SignatureValues :: "Signer \<Rightarrow> TxData \<Rightarrow> bytes \<Rightarrow> (tx_error + int \<times> int \<times> int) go" where
  "SignatureValues signer tx sig =
     (case signer of
        FrontierSigner \<Rightarrow> frontier_SignatureValues tx sig
      | HomesteadSigner \<Rightarrow> frontier_SignatureValues tx sig
      | EIP155Signer c \<Rightarrow> eip155_SignatureValues c tx sig
      | eip2930Signer c \<Rightarrow> eip2930_SignatureValues c tx sig
      | londonSigner c \<Rightarrow> london_SignatureValues c tx sig
      | cancunSigner c \<Rightarrow> cancun_SignatureValues c tx sig)"

definition WithSignature :: "Signer \<Rightarrow> bytes \<Rightarrow> TxData \<Rightarrow> (tx_error + TxData) go" where
  "WithSignature signer sig tx =
     go_bind (SignatureValues signer tx sig) (\<lambda>r.
       case r of
         Inl e \<Rightarrow> Ret (Inl e)
       | Inr (r, s, v) \<Rightarrow> go_bind (setSignatureValues (signer_ChainID signer) v r s tx) (\<lambda>tx. Ret (Inr tx)))"



text \<open>The recovery of the signer of \<open>sighash\<close>.\<close>

definition recoverPlain ::
    "(bytes \<Rightarrow> hash) \<Rightarrow> (bytes \<Rightarrow> bytes \<Rightarrow> bytes option) \<Rightarrow> hash \<Rightarrow> int \<Rightarrow> int \<Rightarrow> int \<Rightarrow> bool \<Rightarrow> tx_error + address" where
  "recoverPlain K rec sighash R S Vb homestead =
     (if int_BitLen Vb > 8 then Inl ErrInvalidSig
      else
        let V = ucast (big_Uint64 Vb - 27) :: u8
        in if \<not> ValidateSignatureValues V (nat R) (nat S) homestead then Inl ErrInvalidSig
           else
             let sig = LeftPadBytes (nat_Bytes (nat R)) 32 @ LeftPadBytes (nat_Bytes (nat S)) 32 @ [V]
             in case rec (Bytes32 sighash) sig of
                  None \<Rightarrow> Inl ErrRecoverKey
                | Some pub \<Rightarrow>
                    if pub = [] \<or> hd pub \<noteq> 4 then Inl ErrInvalidPublicKey
                    else Inr (Bytes20 (K (tl pub))))"

text \<open>A typed transaction uses 0 and 1 as its recovery id.\<close>

definition typed_Sender ::
    "(bytes \<Rightarrow> hash) \<Rightarrow> (bytes \<Rightarrow> bytes \<Rightarrow> bytes option) \<Rightarrow> int \<Rightarrow> hash go \<Rightarrow> TxData \<Rightarrow> (tx_error + address) go" where
  "typed_Sender K rec chainId sighash tx =
     (let (V, R, S) = rawSignatureValues tx; V = V + 27 in
      go_bind (deref (tx_ChainId tx)) (\<lambda>c.
      if c \<noteq> chainId then Ret (Inl ErrInvalidChainId)
      else go_bind sighash (\<lambda>h. Ret (recoverPlain K rec h R S V True))))"

definition frontier_Sender :: "(bytes \<Rightarrow> hash) \<Rightarrow> (bytes \<Rightarrow> bytes \<Rightarrow> bytes option) \<Rightarrow> TxData \<Rightarrow> (tx_error + address) go" where
  "frontier_Sender K rec tx =
     (if txType tx \<noteq> LegacyTxType then Ret (Inl ErrTxTypeNotSupported)
      else let (v, r, s) = rawSignatureValues tx
           in go_bind (frontier_Hash K tx) (\<lambda>h. Ret (recoverPlain K rec h r s v False)))"

definition homestead_Sender :: "(bytes \<Rightarrow> hash) \<Rightarrow> (bytes \<Rightarrow> bytes \<Rightarrow> bytes option) \<Rightarrow> TxData \<Rightarrow> (tx_error + address) go" where
  "homestead_Sender K rec tx =
     (if txType tx \<noteq> LegacyTxType then Ret (Inl ErrTxTypeNotSupported)
      else let (v, r, s) = rawSignatureValues tx
           in go_bind (frontier_Hash K tx) (\<lambda>h. Ret (recoverPlain K rec h r s v True)))"

definition eip155_Sender :: "(bytes \<Rightarrow> hash) \<Rightarrow> (bytes \<Rightarrow> bytes \<Rightarrow> bytes option) \<Rightarrow> int \<Rightarrow> TxData \<Rightarrow> (tx_error + address) go" where
  "eip155_Sender K rec chainId tx =
     (if txType tx \<noteq> LegacyTxType then Ret (Inl ErrTxTypeNotSupported)
      else if \<not> tx_Protected tx then homestead_Sender K rec tx
      else
        go_bind (deref (tx_ChainId tx)) (\<lambda>c.
        if c \<noteq> chainId then Ret (Inl ErrInvalidChainId)
        else let (V, R, S) = rawSignatureValues tx; V = V - 2 * chainId; V = V - 8
             in go_bind (eip155_Hash K chainId tx) (\<lambda>h. Ret (recoverPlain K rec h R S V True))))"

definition eip2930_Sender :: "(bytes \<Rightarrow> hash) \<Rightarrow> (bytes \<Rightarrow> bytes \<Rightarrow> bytes option) \<Rightarrow> int \<Rightarrow> TxData \<Rightarrow> (tx_error + address) go" where
  "eip2930_Sender K rec chainId tx =
     (if txType tx = LegacyTxType then eip155_Sender K rec chainId tx
      else if txType tx = AccessListTxType then typed_Sender K rec chainId (eip2930_Hash K chainId tx) tx
      else Ret (Inl ErrTxTypeNotSupported))"

definition london_Sender :: "(bytes \<Rightarrow> hash) \<Rightarrow> (bytes \<Rightarrow> bytes \<Rightarrow> bytes option) \<Rightarrow> int \<Rightarrow> TxData \<Rightarrow> (tx_error + address) go" where
  "london_Sender K rec chainId tx =
     (if txType tx \<noteq> DynamicFeeTxType then eip2930_Sender K rec chainId tx
      else typed_Sender K rec chainId (london_Hash K chainId tx) tx)"

definition cancun_Sender :: "(bytes \<Rightarrow> hash) \<Rightarrow> (bytes \<Rightarrow> bytes \<Rightarrow> bytes option) \<Rightarrow> int \<Rightarrow> TxData \<Rightarrow> (tx_error + address) go" where
  "cancun_Sender K rec chainId tx =
     (if txType tx \<noteq> BlobTxType then london_Sender K rec chainId tx
      else typed_Sender K rec chainId (cancun_Hash K chainId tx) tx)"

definition signer_Sender :: "(bytes \<Rightarrow> hash) \<Rightarrow> (bytes \<Rightarrow> bytes \<Rightarrow> bytes option) \<Rightarrow> Signer \<Rightarrow> TxData \<Rightarrow> (tx_error + address) go" where
  "signer_Sender K rec signer tx =
     (case signer of
        FrontierSigner \<Rightarrow> frontier_Sender K rec tx
      | HomesteadSigner \<Rightarrow> homestead_Sender K rec tx
      | EIP155Signer c \<Rightarrow> eip155_Sender K rec c tx
      | eip2930Signer c \<Rightarrow> eip2930_Sender K rec c tx
      | londonSigner c \<Rightarrow> london_Sender K rec c tx
      | cancunSigner c \<Rightarrow> cancun_Sender K rec c tx)"

text \<open>\<open>Sender\<close> with the cache of the transaction: the signer it was last derived with, and the address.\<close>

record Transaction =
  tx_inner :: TxData
  tx_from :: "(Signer \<times> address) option"

definition NewTx :: "TxData \<Rightarrow> Transaction" where
  "NewTx inner = \<lparr>tx_inner = inner, tx_from = None\<rparr>"

definition Sender ::
    "(bytes \<Rightarrow> hash) \<Rightarrow> (bytes \<Rightarrow> bytes \<Rightarrow> bytes option) \<Rightarrow> Signer \<Rightarrow> Transaction \<Rightarrow> ((tx_error + address) \<times> Transaction) go" where
  "Sender K rec signer tx =
     (case tx_from tx of
        Some (known, addr) \<Rightarrow>
          if known = signer then Ret (Inr addr, tx)
          else go_bind (signer_Sender K rec signer (tx_inner tx)) (\<lambda>r.
                 Ret (r, case r of Inl _ \<Rightarrow> tx | Inr addr \<Rightarrow> tx\<lparr>tx_from := Some (signer, addr)\<rparr>))
      | None \<Rightarrow>
          go_bind (signer_Sender K rec signer (tx_inner tx)) (\<lambda>r.
            Ret (r, case r of Inl _ \<Rightarrow> tx | Inr addr \<Rightarrow> tx\<lparr>tx_from := Some (signer, addr)\<rparr>)))"

section \<open>core/state\_transition.go: from a transaction to a message\<close>

definition TransactionToMessage ::
    "(bytes \<Rightarrow> hash) \<Rightarrow> (bytes \<Rightarrow> bytes \<Rightarrow> bytes option) \<Rightarrow> Transaction \<Rightarrow> Signer \<Rightarrow> int option \<Rightarrow>
     ((message \<times> tx_error option) \<times> Transaction) go" where
  "TransactionToMessage K rec tx s baseFee =
     (let inner = tx_inner tx;
          price = (case baseFee of None \<Rightarrow> tx_GasPrice inner | Some b \<Rightarrow> BigMin (tx_GasTipCap inner + b) (tx_GasFeeCap inner)) in
      go_bind (Sender K rec s tx) (\<lambda>(r, tx).
      let (from, err) = (case r of Inl e \<Rightarrow> (0, Some e) | Inr a \<Rightarrow> (a, None)) in
      Ret ((\<lparr>msg_To = tx_To inner, msg_From = from, msg_Nonce = tx_Nonce inner, msg_Value = tx_Value inner,
             msg_GasLimit = tx_Gas inner, msg_GasPrice = price, msg_GasFeeCap = Some (tx_GasFeeCap inner),
             msg_GasTipCap = Some (tx_GasTipCap inner), msg_Data = tx_Data inner, msg_AccessList = tx_AccessList inner,
             msg_BlobGasFeeCap = tx_BlobGasFeeCap inner, msg_BlobHashes = tx_BlobHashes inner,
             msg_SkipAccountChecks = False\<rparr>, err), tx)))"

section \<open>Prices of a transaction\<close>

lemma effective_price_tip:
  "effectiveGasPrice tx (Some b) - b = EffectiveGasTipValue tx (Some b)" if "0 \<le> b" "case tx of DynamicFee _ \<Rightarrow> True | Blob _ \<Rightarrow> True | _ \<Rightarrow> False"
  using that by (cases tx) (auto simp: dynamic_price_def EffectiveGasTipValue_def EffectiveGasTip_def BigMin_def Let_def)

lemma message_price:
  assumes "TransactionToMessage K rec tx s baseFee = Ret ((msg, err), tx')" "case baseFee of None \<Rightarrow> True | Some b \<Rightarrow> 0 \<le> b"
  shows "msg_GasPrice msg = effectiveGasPrice (tx_inner tx) baseFee"
  using assms by (cases "tx_inner tx"; cases baseFee)
    (auto simp: TransactionToMessage_def Let_def case_prod_beta dynamic_price_def BigMin_def)

section \<open>The signing hash does not depend on the signature\<close>

lemma set_signature_fields:
  assumes "setSignatureValues c v r s tx = Ret tx'"
  shows "txType tx' = txType tx" "frontier_fields tx' = frontier_fields tx" "dynamic_fields i tx' = dynamic_fields i tx"
    "tx_AccessList tx' = tx_AccessList tx" "tx_BlobHashes tx' = tx_BlobHashes tx" "tx_BlobGasFeeCap tx' = tx_BlobGasFeeCap tx"
    "tx_Nonce tx' = tx_Nonce tx" "tx_GasPrice tx' = tx_GasPrice tx" "tx_Gas tx' = tx_Gas tx" "tx_To tx' = tx_To tx"
    "tx_Value tx' = tx_Value tx" "tx_Data tx' = tx_Data tx"
  using assms by (cases tx; auto simp: frontier_fields_def dynamic_fields_def)+

lemmas Hash_defs = frontier_Hash_def eip155_Hash_def eip2930_Hash_def london_Hash_def cancun_Hash_def
lemmas Values_defs = frontier_SignatureValues_def eip155_SignatureValues_def eip2930_SignatureValues_def
  london_SignatureValues_def cancun_SignatureValues_def
lemmas Sender_defs = frontier_Sender_def homestead_Sender_def eip155_Sender_def eip2930_Sender_def london_Sender_def cancun_Sender_def

lemma Hash_signed:
  assumes "setSignatureValues c v r s tx = Ret tx'"
  shows "frontier_Hash K tx' = frontier_Hash K tx" "eip155_Hash K i tx' = eip155_Hash K i tx" "eip2930_Hash K i tx' = eip2930_Hash K i tx"
    "london_Hash K i tx' = london_Hash K i tx" "cancun_Hash K i tx' = cancun_Hash K i tx"
  by (simp_all add: Hash_defs set_signature_fields [OF assms])

section \<open>Signing and recovering\<close>

text \<open>A signature that recovers to an account, in the form \<open>[R || S || V]\<close>.\<close>

definition good_sig :: "bool \<Rightarrow> bytes \<Rightarrow> bool" where
  "good_sig homestead sig \<longleftrightarrow> length sig = 65 \<and>
     ValidateSignatureValues (sig ! 64) (nat_of_bytes (take 32 sig)) (nat_of_bytes (take 32 (drop 32 sig))) homestead"

definition recovers :: "(bytes \<Rightarrow> hash) \<Rightarrow> (bytes \<Rightarrow> bytes \<Rightarrow> bytes option) \<Rightarrow> hash \<Rightarrow> bytes \<Rightarrow> address \<Rightarrow> bool" where
  "recovers K rec h sig a \<longleftrightarrow> (\<exists>pub. rec (Bytes32 h) sig = Some (4 # pub) \<and> a = Bytes20 (K pub))"

text \<open>The transactions a signer can sign: of a type it supports, with no chain id or its own.\<close>

definition level :: "Signer \<Rightarrow> nat" where
  "level signer = (case signer of eip2930Signer _ \<Rightarrow> 1 | londonSigner _ \<Rightarrow> 2 | cancunSigner _ \<Rightarrow> 3 | _ \<Rightarrow> 0)"

definition supports :: "Signer \<Rightarrow> TxData \<Rightarrow> bool" where
  "supports signer tx \<longleftrightarrow> unat (txType tx) \<le> level signer \<and>
     (case signer_ChainID signer of
        None \<Rightarrow> True
      | Some c \<Rightarrow> 0 < c \<and> c < 2 ^ 256 \<and> (txType tx = LegacyTxType \<or> tx_ChainId tx \<in> {Some 0, Some c}))"

lemma nat_of_bytes_inj: "length xs = length ys \<Longrightarrow> nat_of_bytes xs = nat_of_bytes ys \<Longrightarrow> xs = ys"
proof (induction xs arbitrary: ys rule: rev_induct)
  case (snoc x xs)
  obtain zs y where ys: "ys = zs @ [y]" using snoc.prems(1) by (cases ys rule: rev_cases) auto
  have e: "nat_of_bytes xs * 256 + unat x = nat_of_bytes zs * 256 + unat y" using snoc.prems(2) ys by simp
  have b: "unat x < 256" "unat y < 256" using unsigned_less [where 'a = nat, of x] unsigned_less [where 'a = nat, of y] by simp_all
  have "nat_of_bytes xs = nat_of_bytes zs" using arg_cong [OF e, of "\<lambda>n. n div 256"] b by simp
  moreover from this have "x = y" using e by (simp add: word_unat_eq_iff)
  ultimately show ?case using snoc ys by simp
qed simp

lemma padded_bytes: "length bs = 32 \<Longrightarrow> LeftPadBytes (nat_Bytes (nat_of_bytes bs)) 32 = bs"
  using padded_Bytes [of "nat_of_bytes bs" 32] nat_of_bytes_bound [of bs] by (intro nat_of_bytes_inj) auto

lemma good_sig_v: "good_sig homestead sig \<Longrightarrow> sig ! 64 = 0 \<or> sig ! 64 = 1"
  by (auto simp: good_sig_def ValidateSignatureValues_def split: if_splits)

lemma good_sig_parts:
  "length sig = 65 \<Longrightarrow> sig = take 32 sig @ take 32 (drop 32 sig) @ [sig ! 64]"
proof -
  assume l: "length sig = 65"
  have "drop 64 sig = [sig ! 64]" using l by (simp add: Cons_nth_drop_Suc [symmetric])
  moreover have "sig = take 32 sig @ take 32 (drop 32 sig) @ drop 64 sig"
    by (metis append_take_drop_id drop_drop numeral_Bit0)
  ultimately show ?thesis by metis
qed

lemma recoverPlain_good:
  assumes "good_sig homestead sig" "recovers K rec h sig a"
    "Vb = 27 + uint (sig ! 64)" "R = int (nat_of_bytes (take 32 sig))" "S = int (nat_of_bytes (take 32 (drop 32 sig)))"
  shows "recoverPlain K rec h R S Vb homestead = Inr a"
proof -
  have l: "length sig = 65" using assms(1) by (simp add: good_sig_def)
  have v: "ucast (big_Uint64 Vb - 27) = sig ! 64" "\<not> int_BitLen Vb > 8"
    using good_sig_v [OF assms(1)] bit_len_le [of 27 8] bit_len_le [of 28 8] by (auto simp: assms(3) big_Uint64_def int_BitLen_def)
  have p: "LeftPadBytes (nat_Bytes (nat R)) 32 @ LeftPadBytes (nat_Bytes (nat S)) 32 @ [sig ! 64] = sig"
    using padded_bytes [of "take 32 sig"] padded_bytes [of "take 32 (drop 32 sig)"] good_sig_parts [OF l] l by (simp add: assms(4,5))
  show ?thesis using assms(1,2) v unfolding recoverPlain_def Let_def v(1) p
    by (auto simp: good_sig_def recovers_def assms(4,5))
qed

lemma decode_good: "good_sig homestead sig \<Longrightarrow> decodeSignature sig =
    Ret (int (nat_of_bytes (take 32 sig)), int (nat_of_bytes (take 32 (drop 32 sig))), 27 + uint (sig ! 64))"
  using good_sig_v [of homestead sig] by (auto simp: decodeSignature_def good_sig_def)

lemma uint_big_Uint64: "0 \<le> x \<Longrightarrow> x < 2 ^ 64 \<Longrightarrow> uint (big_Uint64 x) = x"
  by (simp add: big_Uint64_def uint_word_of_int_eq take_bit_int_eq_self)

text \<open>The chain id in the signature value of a legacy transaction.\<close>

lemma protected_value:
  assumes "0 < c" "v = 0 \<or> v = 1"
  shows "deriveChainId (35 + v + 2 * c) = c" "isProtectedV (35 + v + 2 * c)"
proof -
  let ?V = "35 + v + 2 * c"
  have V: "37 \<le> ?V" using assms by auto
  have h: "(?V - 35) div 2 = c" using assms(2) by auto
  show "deriveChainId ?V = c"
  proof (cases "int_BitLen ?V \<le> 64")
    case True
    then have b: "?V < 2 ^ 64" using V by (simp add: int_BitLen_def bit_len_le)
    then have u: "uint (big_Uint64 ?V) = ?V" using V by (intro uint_big_Uint64) simp_all
    then have n: "big_Uint64 ?V \<noteq> 27 \<and> big_Uint64 ?V \<noteq> 28" using V by auto
    have "uint (big_Uint64 ?V - 35) = ?V - 35" using uint_sub_lem [of 35 "big_Uint64 ?V"] u V by simp
    then have "uint ((big_Uint64 ?V - 35) div 2) = c" using assms(2) by (auto simp: uint_div)
    then show ?thesis using True n by (simp add: deriveChainId_def Let_def)
  qed (use assms(2) in \<open>auto simp: deriveChainId_def\<close>)
  show "isProtectedV ?V"
  proof (cases "int_BitLen ?V \<le> 8")
    case True
    then have "?V < 2 ^ 8" using V by (simp add: int_BitLen_def bit_len_le)
    then have "uint (big_Uint64 ?V) = ?V" using V by (intro uint_big_Uint64) simp_all
    then have "big_Uint64 ?V \<noteq> 27 \<and> big_Uint64 ?V \<noteq> 28 \<and> big_Uint64 ?V \<noteq> 1 \<and> big_Uint64 ?V \<noteq> 0" using V by auto
    then show ?thesis using True by (simp add: isProtectedV_def Let_def)
  qed (simp add: isProtectedV_def)
qed

lemma part_bound: "length bs = 32 \<Longrightarrow> int (nat_of_bytes bs) < 2 ^ 256"
proof -
  assume "length bs = 32"
  then have "nat_of_bytes bs < 256 ^ 32" using nat_of_bytes_bound [of bs] by simp
  then have "int (nat_of_bytes bs) < int (256 ^ 32)" by (simp only: of_nat_less_iff)
  then show ?thesis by simp
qed

lemma set_signature_raw:
  assumes "setSignatureValues (Some c) v r s tx = Ret tx'" "txType tx \<noteq> LegacyTxType"
    "0 \<le> v" "v < 2 ^ 256" "0 \<le> r" "r < 2 ^ 256" "0 \<le> s" "s < 2 ^ 256" "0 \<le> c" "c < 2 ^ 256"
  shows "rawSignatureValues tx' = (v, r, s) \<and> tx_ChainId tx' = Some c"
proof -
  have b: "uint (word_of_int x :: u256) = x" if "0 \<le> x" "x < 2 ^ 256" for x
    using that by (simp add: uint_word_of_int_eq take_bit_int_eq_self)
  show ?thesis
  proof (cases tx)
    case (Blob bt)
    then have "tx' = Blob (bt\<lparr>bl_ChainID := word_of_int c, bl_V := word_of_int v, bl_R := word_of_int r, bl_S := word_of_int s\<rparr>)"
      using assms(1) by (simp add: deref_def FromBig_def)
    then show ?thesis using b [OF assms(3,4)] b [OF assms(5,6)] b [OF assms(7,8)] b [OF assms(9,10)] by simp
  next
    case (AccessListed t)
    then have "tx' = AccessListed (t\<lparr>acl_ChainID := Some c, acl_V := v, acl_R := r, acl_S := s\<rparr>)" using assms(1) by simp
    then show ?thesis by simp
  next
    case (DynamicFee t)
    then have "tx' = DynamicFee (t\<lparr>dy_ChainID := Some c, dy_V := v, dy_R := r, dy_S := s\<rparr>)" using assms(1) by simp
    then show ?thesis by simp
  qed (use assms(2) in simp)
qed

lemma typed_signed:
  assumes "good_sig True sig" "txType tx \<noteq> LegacyTxType" "tx_ChainId tx \<in> {Some 0, Some c}" "0 < c" "c < 2 ^ 256"
  obtains v r s tx' where "typed_values c tx sig = Ret (Inr (r, s, v))" "setSignatureValues (Some c) v r s tx = Ret tx'"
    "tx_ChainId tx' = Some c" "rawSignatureValues tx' = (v, r, s)"
    "v = uint (sig ! 64)" "r = int (nat_of_bytes (take 32 sig))" "s = int (nat_of_bytes (take 32 (drop 32 sig)))"
proof -
  let ?r = "int (nat_of_bytes (take 32 sig))" and ?s = "int (nat_of_bytes (take 32 (drop 32 sig)))" and ?v = "uint (sig ! 64)"
  have vals: "typed_values c tx sig = Ret (Inr (?r, ?s, ?v))"
  proof -
    obtain i where i: "tx_ChainId tx = Some i" "\<not> (sgn i \<noteq> 0 \<and> i \<noteq> c)" using assms(3) by (auto simp: sgn_0)
    show ?thesis unfolding typed_values_def i(1) deref_def option.simps go_bind.simps if_not_P [OF i(2)] decode_good [OF assms(1)]
      by simp
  qed
  have rs: "?r < 2 ^ 256" "?s < 2 ^ 256"
    by (rule part_bound; use assms(1) in \<open>simp add: good_sig_def\<close>)+
  obtain tx' where tx': "setSignatureValues (Some c) ?v ?r ?s tx = Ret tx'" by (cases tx) (simp_all add: deref_def)
  have v: "0 \<le> ?v" "?v < 2 ^ 256" using good_sig_v [OF assms(1)] by auto
  have c: "0 \<le> c" using assms(4) by simp
  have "rawSignatureValues tx' = (?v, ?r, ?s)" "tx_ChainId tx' = Some c"
    using set_signature_raw [OF tx' assms(2) v _ rs(1) _ rs(2) c assms(5)] by simp_all
  then show ?thesis using that [OF vals tx'] by simp
qed

lemma legacy_roundtrip:
  assumes "good_sig homestead sig" "recovers K rec h sig a" "txType tx = LegacyTxType"
  shows "\<exists>tx'. WithSignature FrontierSigner sig tx = Ret (Inr tx') \<and> (frontier_Hash K tx = Ret h \<longrightarrow>
      (\<not> homestead \<longrightarrow> frontier_Sender K rec tx' = Ret (Inr a)) \<and> (homestead \<longrightarrow> homestead_Sender K rec tx' = Ret (Inr a)))"
proof -
  obtain lt where tx: "tx = Legacy lt" using assms(3) by (cases tx) auto
  let ?r = "int (nat_of_bytes (take 32 sig))" and ?s = "int (nat_of_bytes (take 32 (drop 32 sig)))" and ?v = "27 + uint (sig ! 64)"
  let ?tx = "Legacy (lt\<lparr>lt_V := ?v, lt_R := ?r, lt_S := ?s\<rparr>)"
  have set: "setSignatureValues None ?v ?r ?s tx = Ret ?tx" by (simp add: tx)
  have "WithSignature FrontierSigner sig tx = Ret (Inr ?tx)"
    by (simp add: WithSignature_def SignatureValues_def frontier_SignatureValues_def tx decode_good [OF assms(1)])
  moreover have "recoverPlain K rec h ?r ?s ?v homestead = Inr a" by (rule recoverPlain_good [OF assms(1,2)]) simp_all
  ultimately show ?thesis using Hash_signed(1) [OF set, of K]
    by (cases homestead) (auto simp: frontier_Sender_def homestead_Sender_def)
qed

lemma eip155_signed:
  assumes "good_sig True sig" "txType tx = LegacyTxType" "0 < c"
  obtains v r s tx' where "eip155_SignatureValues c tx sig = Ret (Inr (r, s, v))" "setSignatureValues (Some c) v r s tx = Ret tx'"
    "txType tx' = LegacyTxType" "tx_Protected tx'" "tx_ChainId tx' = Some c" "rawSignatureValues tx' = (v, r, s)"
    "v = 35 + uint (sig ! 64) + 2 * c" "r = int (nat_of_bytes (take 32 sig))" "s = int (nat_of_bytes (take 32 (drop 32 sig)))"
proof -
  obtain lt where tx: "tx = Legacy lt" using assms(2) by (cases tx) auto
  let ?r = "int (nat_of_bytes (take 32 sig))" and ?s = "int (nat_of_bytes (take 32 (drop 32 sig)))" and ?v = "35 + uint (sig ! 64) + 2 * c"
  let ?tx = "Legacy (lt\<lparr>lt_V := ?v, lt_R := ?r, lt_S := ?s\<rparr>)"
  have "uint (sig ! 64 + 35) = 35 + uint (sig ! 64)" using good_sig_v [OF assms(1)] by auto
  then have vals: "eip155_SignatureValues c tx sig = Ret (Inr (?r, ?s, ?v))"
    using assms(3) by (simp add: eip155_SignatureValues_def tx decode_good [OF assms(1)])
  have set: "setSignatureValues (Some c) ?v ?r ?s tx = Ret ?tx" by (simp add: tx)
  have p: "deriveChainId ?v = c" "isProtectedV ?v" using protected_value [OF assms(3), of "uint (sig ! 64)"] good_sig_v [OF assms(1)] by auto
  show ?thesis using that [OF vals set] p by simp
qed

text \<open>A signer with a chain id, by the type of the transaction.\<close>

lemma signs_legacy:
  assumes "signer_ChainID signer = Some c" "txType tx = LegacyTxType"
  shows "SignatureValues signer tx sig = eip155_SignatureValues c tx sig" "signer_Sender K rec signer tx = eip155_Sender K rec c tx"
    "signer_Hash K signer tx = eip155_Hash K c tx"
  using assms by (cases signer; simp add: SignatureValues_def signer_Sender_def signer_Hash_def eip2930_SignatureValues_def
      london_SignatureValues_def cancun_SignatureValues_def eip2930_Sender_def london_Sender_def cancun_Sender_def
      eip2930_Hash_def london_Hash_def cancun_Hash_def)+

lemma signs_typed:
  assumes "signer_ChainID signer = Some c" "txType tx \<noteq> LegacyTxType" "unat (txType tx) \<le> level signer"
  shows "SignatureValues signer tx sig = typed_values c tx sig"
    "signer_Sender K rec signer tx = typed_Sender K rec c (signer_Hash K signer tx) tx"
  using assms by (cases signer; cases tx; simp add: SignatureValues_def signer_Sender_def signer_Hash_def Values_defs Sender_defs Hash_defs level_def)+





lemma small_v_values: "\<not> isProtectedV 0" "\<not> isProtectedV 1" "\<not> isProtectedV 27" "\<not> isProtectedV 28"
  using bit_len_le [of 27 8] bit_len_le [of 28 8] bit_len_le [of 0 8] bit_len_le [of 1 8]
  by (simp_all add: isProtectedV_def int_BitLen_def big_Uint64_def)






text \<open>What a successful recovery says about the chain id.\<close>

lemma typed_Sender_chain: "typed_Sender K rec c h tx = Ret (Inr b) \<Longrightarrow> tx_ChainId tx = Some c"
  by (auto simp: typed_Sender_def deref_def Let_def case_prod_beta split: option.splits if_splits)

lemma recover_protected:
  assumes "37 \<le> v" shows "recoverPlain K rec h r s v homestead \<noteq> Inr b"
proof (cases "int_BitLen v > 8")
  case False
  then have "v < 256" using assms by (simp add: int_BitLen_def bit_len_le not_less)
  then have "uint (big_Uint64 v) = v" using assms by (intro uint_big_Uint64) simp_all
  then have "uint (big_Uint64 v - 27) = v - 27" using uint_sub_lem [of 27 "big_Uint64 v"] assms by simp
  then have "uint (ucast (big_Uint64 v - 27) :: u8) = v - 27"
    using \<open>v < 256\<close> assms by (simp add: unsigned_ucast_eq take_bit_int_eq_self)
  then have "(ucast (big_Uint64 v - 27) :: u8) \<noteq> 0 \<and> (ucast (big_Uint64 v - 27) :: u8) \<noteq> 1" using assms by auto
  then show ?thesis by (simp add: recoverPlain_def ValidateSignatureValues_def Let_def)
qed (simp add: recoverPlain_def)

text \<open>
  C13. A transaction that is signed for one chain is worth nothing on another: no signer with another chain
  id, or with none, recovers a sender from it.
\<close>
theorem replay_protection:
  assumes "supports signer tx" "signer_ChainID signer = Some c" "good_sig True sig" "WithSignature signer sig tx = Ret (Inr tx')"
    "signer_ChainID other \<noteq> Some c"
  shows "signer_Sender K rec other tx' \<noteq> Ret (Inr b)"
proof
  assume s: "signer_Sender K rec other tx' = Ret (Inr b)"
  have c: "0 < c" "c < 2 ^ 256" using assms(1,2) by (simp_all add: supports_def)
  show False
  proof (cases "txType tx = LegacyTxType")
    case True
    from eip155_signed [OF assms(3) True c(1)] obtain v r s tx1 where
      t: "eip155_SignatureValues c tx sig = Ret (Inr (r, s, v))" "setSignatureValues (Some c) v r s tx = Ret tx1"
      "txType tx1 = LegacyTxType" "tx_Protected tx1" "tx_ChainId tx1 = Some c" "rawSignatureValues tx1 = (v, r, s)"
      "v = 35 + uint (sig ! 64) + 2 * c" by metis
    have tx1: "tx' = tx1" using assms(2,4) t(1,2) signs_legacy(1) [OF assms(2) True] by (simp add: WithSignature_def)
    have v: "37 \<le> v" using t(7) c(1) uint_ge_0 [of "sig ! 64"] by linarith
    show False
    proof (cases "signer_ChainID other")
      case None
      then have "other = FrontierSigner \<or> other = HomesteadSigner" by (cases other) auto
      then show False using s t(3,6) recover_protected [OF v]
        by (auto simp: tx1 signer_Sender_def frontier_Sender_def homestead_Sender_def)
    next
      case (Some d)
      then have "eip155_Sender K rec d tx1 = Ret (Inr b)" using s signs_legacy(2) [OF Some t(3)] by (simp add: tx1)
      then show False using t(3-5) Some assms(5) by (simp add: eip155_Sender_def deref_def split: if_splits)
    qed
  next
    case False
    have i: "tx_ChainId tx \<in> {Some 0, Some c}" and l: "unat (txType tx) \<le> level signer" using assms(1,2) False by (simp_all add: supports_def)
    from typed_signed [OF assms(3) False i c] obtain v r s tx1 where
      t: "typed_values c tx sig = Ret (Inr (r, s, v))" "setSignatureValues (Some c) v r s tx = Ret tx1" "tx_ChainId tx1 = Some c"
      by metis
    have tx1: "tx' = tx1" using assms(2,4) t(1,2) signs_typed(1) [OF assms(2) False l] by (simp add: WithSignature_def)
    have y: "txType tx1 \<noteq> LegacyTxType" using set_signature_fields(1) [OF t(2)] False by simp
    have "\<exists>d h. signer_ChainID other = Some d \<and> typed_Sender K rec d h tx1 = Ret (Inr b)"
      using s y unfolding tx1 by (cases other; cases tx1) (auto simp: signer_Sender_def Sender_defs)
    then show False using typed_Sender_chain t(3) assms(5) by metis
  qed
qed


text \<open>
  A signer for the chain id zero does not sign what it recovers: its signing hash covers the chain id,
  but the signed legacy transaction is not protected, and the sender is recovered by the rules and from the
  shorter hash of the homestead signer.
\<close>
theorem zero_chain_id_unprotected:
  assumes "txType tx = LegacyTxType" "good_sig True sig"
  shows "\<exists>tx'. WithSignature (EIP155Signer 0) sig tx = Ret (Inr tx') \<and> \<not> tx_Protected tx' \<and>
    signer_Hash K (EIP155Signer 0) tx = rlpHash K (frontier_fields tx @ [FBig (Some 0), FUint 0, FUint 0]) \<and>
    signer_Sender K rec (EIP155Signer 0) tx' = signer_Sender K rec HomesteadSigner tx' \<and>
    (\<forall>h a. rlpHash K (frontier_fields tx) = Ret h \<and> recovers K rec h sig a \<longrightarrow> signer_Sender K rec (EIP155Signer 0) tx' = Ret (Inr a))"
proof -
  obtain lt where tx: "tx = Legacy lt" using assms(1) by (cases tx) auto
  let ?r = "int (nat_of_bytes (take 32 sig))" and ?s = "int (nat_of_bytes (take 32 (drop 32 sig)))" and ?v = "27 + uint (sig ! 64)"
  let ?tx = "Legacy (lt\<lparr>lt_V := ?v, lt_R := ?r, lt_S := ?s\<rparr>)"
  have signed: "WithSignature (EIP155Signer 0) sig tx = Ret (Inr ?tx)" "WithSignature FrontierSigner sig tx = Ret (Inr ?tx)"
    by (simp_all add: WithSignature_def SignatureValues_def eip155_SignatureValues_def frontier_SignatureValues_def tx decode_good [OF assms(2)])
  have p: "\<not> tx_Protected ?tx" using good_sig_v [OF assms(2)] small_v_values by auto
  have s: "signer_Sender K rec (EIP155Signer 0) ?tx = signer_Sender K rec HomesteadSigner ?tx"
    using p by (simp add: signer_Sender_def eip155_Sender_def)
  have r: "signer_Sender K rec HomesteadSigner ?tx = Ret (Inr a)" if "rlpHash K (frontier_fields tx) = Ret h" "recovers K rec h sig a" for h a
    using legacy_roundtrip [OF assms(2) that(2) assms(1)] that(1) signed(2) by (simp add: frontier_Hash_def signer_Sender_def)
  have h: "signer_Hash K (EIP155Signer 0) tx = rlpHash K (frontier_fields tx @ [FBig (Some 0), FUint 0, FUint 0])"
    by (simp add: signer_Hash_def eip155_Hash_def)
  show ?thesis using signed(1) p s r h by metis
qed

section \<open>Witnesses\<close>

definition sample_tx :: TxData where
  "sample_tx = Legacy \<lparr>lt_Nonce = 0, lt_GasPrice = 1, lt_Gas = 100, lt_To = None, lt_Value = 5, lt_Data = [],
     lt_V = 0, lt_R = 0, lt_S = 0\<rparr>"

definition sample_sig :: bytes where
  "sample_sig = replicate 31 0 @ [1] @ replicate 31 0 @ [1] @ [0]"

lemma sample_sig_good: "good_sig True sample_sig"
proof -
  have z: "nat_of_bytes (replicate n 0 @ [1]) = 1" for n
  proof -
    have "nat_of_bytes (replicate n 0) = 0" by (induction n) (simp_all add: replicate_append_same [symmetric] del: replicate_Suc)
    then show ?thesis by simp
  qed
  have "take 32 sample_sig = replicate 31 0 @ [1]" "take 32 (drop 32 sample_sig) = replicate 31 0 @ [1]"
    "length sample_sig = 65" "sample_sig ! 64 = 0"
    by (simp_all add: sample_sig_def nth_append)
  then show ?thesis by (simp add: good_sig_def z ValidateSignatureValues_def)
qed



theorem replay_protection_witness:
  "\<exists>tx'. WithSignature (EIP155Signer 1) sample_sig sample_tx = Ret (Inr tx') \<and>
    signer_Sender (\<lambda>_. 7) (\<lambda>_ _. Some [4]) (londonSigner 5) tx' \<noteq> Ret (Inr (Bytes20 7))"
proof -
  have s: "supports (EIP155Signer 1) sample_tx" by (simp add: supports_def sample_tx_def)
  obtain tx' where w: "WithSignature (EIP155Signer 1) sample_sig sample_tx = Ret (Inr tx')"
    by (simp add: WithSignature_def SignatureValues_def eip155_SignatureValues_def sample_tx_def decode_good [OF sample_sig_good])
  have "signer_Sender (\<lambda>_. 7) (\<lambda>_ _. Some [4]) (londonSigner 5) tx' \<noteq> Ret (Inr (Bytes20 7))"
    by (rule replay_protection [OF s _ sample_sig_good w, of 1]) simp_all
  then show ?thesis using w by blast
qed

theorem zero_chain_id_unprotected_witness:
  "\<exists>tx'. WithSignature (EIP155Signer 0) sample_sig sample_tx = Ret (Inr tx') \<and> \<not> tx_Protected tx'"
  using zero_chain_id_unprotected [of sample_tx sample_sig "\<lambda>_. 7" "\<lambda>_ _. Some [4]"] sample_sig_good
  by (auto simp: sample_tx_def)

end
