(* ===== verification/Binary_Heap.thy ===== *)
theory Binary_Heap imports "HOL-Library.Multiset" Prelude begin

text \<open>
  The binary heap of Go's \<open>container/heap\<close> over a slice of ordered values, as the transaction pool uses it:
  \<open>up\<close> and \<open>down\<close> with their loops, \<open>Init\<close>, \<open>Push\<close>, \<open>Pop\<close> and \<open>Remove\<close>. The laws that its clients
  need are the locale \<open>min_queue\<close>.
\<close>

section \<open>A queue that hands out its least element\<close>

locale min_queue =
  fixes inv :: "'q \<Rightarrow> bool" and elems :: "'q \<Rightarrow> ('a::linorder) multiset" and push :: "'a \<Rightarrow> 'q \<Rightarrow> 'q" and pop :: "'q \<Rightarrow> 'a \<times> 'q"
  assumes inv_push: "inv q \<Longrightarrow> inv (push x q)"
    and elems_push: "elems (push x q) = add_mset x (elems q)"
    and inv_pop: "inv q \<Longrightarrow> elems q \<noteq> {#} \<Longrightarrow> inv (snd (pop q))"
    and elems_pop: "inv q \<Longrightarrow> elems q \<noteq> {#} \<Longrightarrow> elems q = add_mset (fst (pop q)) (elems (snd (pop q)))"
    and pop_least: "inv q \<Longrightarrow> x \<in># elems q \<Longrightarrow> fst (pop q) \<le> x"
begin

text \<open>Popping goes through the elements in order.\<close>

lemma pop_sorted:
  assumes "inv q" "elems q \<noteq> {#}"
  shows "sorted_list_of_multiset (elems q) = fst (pop q) # sorted_list_of_multiset (elems (snd (pop q)))"
proof -
  let ?x = "fst (pop q)" and ?q = "snd (pop q)"
  have e: "elems q = add_mset ?x (elems ?q)" by (rule elems_pop [OF assms])
  have "\<forall>y \<in> set (sorted_list_of_multiset (elems ?q)). ?x \<le> y" using pop_least [OF assms(1)] e by simp
  then have "insort ?x (sorted_list_of_multiset (elems ?q)) = ?x # sorted_list_of_multiset (elems ?q)"
    by (simp add: insort_is_Cons)
  then show ?thesis using arg_cong [OF e, of sorted_list_of_multiset] by simp
qed

end

section \<open>The operations of container/heap\<close>

definition swap_at :: "nat \<Rightarrow> nat \<Rightarrow> 'a list \<Rightarrow> 'a list" where
  "swap_at i j h = h[i := h ! j, j := h ! i]"

function heap_up :: "nat \<Rightarrow> ('a::linorder) list \<Rightarrow> 'a list" where
  "heap_up j h =
     (let i = (j - 1) div 2 in
      if i = j \<or> \<not> h ! j < h ! i then h else heap_up i (swap_at i j h))"
  by pat_completeness auto
termination by (relation "measure fst") auto

text \<open>The place where \<open>down\<close> leaves the element, and the slice; it reports whether the element has moved.\<close>

function heap_down_loop :: "nat \<Rightarrow> nat \<Rightarrow> ('a::linorder) list \<Rightarrow> nat \<times> 'a list" where
  "heap_down_loop i n h =
     (let j1 = 2 * i + 1 in
      if n \<le> j1 then (i, h)
      else
        let j2 = j1 + 1; j = (if j2 < n \<and> h ! j2 < h ! j1 then j2 else j1)
        in if \<not> h ! j < h ! i then (i, h) else heap_down_loop j n (swap_at i j h))"
  by pat_completeness auto
termination by (relation "measure (\<lambda>(i, n, h). n - i)") auto

definition heap_down :: "nat \<Rightarrow> nat \<Rightarrow> ('a::linorder) list \<Rightarrow> bool \<times> 'a list" where
  "heap_down i n h = (case heap_down_loop i n h of (k, h) \<Rightarrow> (i < k, h))"

fun heap_Init_from :: "nat \<Rightarrow> ('a::linorder) list \<Rightarrow> 'a list" where
  "heap_Init_from 0 h = h"
| "heap_Init_from (Suc i) h = heap_Init_from i (snd (heap_down i (length h) h))"

definition heap_Init :: "('a::linorder) list \<Rightarrow> 'a list" where
  "heap_Init h = heap_Init_from (length h div 2) h"

definition heap_Push :: "('a::linorder) \<Rightarrow> 'a list \<Rightarrow> 'a list" where
  "heap_Push x h = (let h = h @ [x] in heap_up (length h - 1) h)"

text \<open>On a slice with an element, as everywhere in the pool.\<close>

definition heap_Pop :: "('a::linorder) list \<Rightarrow> 'a \<times> 'a list" where
  "heap_Pop h =
     (let n = length h - 1; h = snd (heap_down 0 n (swap_at 0 n h)) in (h ! n, take n h))"

definition heap_Remove :: "nat \<Rightarrow> ('a::linorder) list \<Rightarrow> 'a \<times> 'a list" where
  "heap_Remove i h =
     (let n = length h - 1;
          h = (if n \<noteq> i then
                 (case heap_down i n (swap_at i n h) of (moved, h) \<Rightarrow> if moved then h else heap_up i h)
               else h)
      in (h ! n, take n h))"

declare heap_up.simps [simp del] heap_down_loop.simps [simp del]

text \<open>Every step that takes an element out shortens the slice.\<close>

lemma length_heap_Pop: "h \<noteq> [] \<Longrightarrow> length (snd (heap_Pop h)) < length h"
  by (cases h) (simp_all add: heap_Pop_def Let_def)

section \<open>The elements stay\<close>

lemma length_swap_at [simp]: "length (swap_at i j h) = length h"
  by (simp add: swap_at_def)

lemma mset_swap_at [simp]: "i < length h \<Longrightarrow> j < length h \<Longrightarrow> mset (swap_at i j h) = mset h"
  by (simp add: swap_at_def mset_swap)

lemma nth_swap_at: "i < length h \<Longrightarrow> j < length h \<Longrightarrow>
    swap_at i j h ! k = (if k = i then h ! j else if k = j then h ! i else h ! k)"
  by (auto simp: swap_at_def nth_list_update)

lemma heap_up_mset: "j < length h \<Longrightarrow> mset (heap_up j h) = mset h \<and> length (heap_up j h) = length h"
proof (induction j h rule: heap_up.induct)
  case (1 j h)
  then show ?case by (subst (1 2) heap_up.simps) (auto simp: Let_def)
qed

text \<open>A slot \<open>k\<close> that is not the first has the parent \<open>(k - 1) div 2\<close>; one turn of \<open>down\<close>.\<close>

lemma child_iff: "0 < k \<and> (k - 1) div 2 = i \<longleftrightarrow> k = 2 * i + 1 \<or> k = 2 * i + (2 :: nat)"
  by presburger

lemma heap_down_cases:
  obtains (stop) "heap_down_loop i n h = (i, h)" "\<forall>k < n. 0 < k \<and> (k - 1) div 2 = i \<longrightarrow> h ! i \<le> h ! k"
  | (step) j where "i < j" "j < n" "(j - 1) div 2 = i" "h ! j < h ! i" "\<forall>k < n. 0 < k \<and> (k - 1) div 2 = i \<longrightarrow> h ! j \<le> h ! k"
      "heap_down_loop i n h = heap_down_loop j n (swap_at i j h)"
proof (cases "n \<le> 2 * i + 1")
  case True
  then have "heap_down_loop i n h = (i, h)" by (subst heap_down_loop.simps) (simp add: Let_def)
  moreover have "\<forall>k < n. 0 < k \<and> (k - 1) div 2 = i \<longrightarrow> h ! i \<le> h ! k" unfolding child_iff using True by auto
  ultimately show ?thesis by (rule stop)
next
  case False
  define j where "j = (if 2 * i + 1 + 1 < n \<and> h ! (2 * i + 1 + 1) < h ! (2 * i + 1) then 2 * i + 1 + 1 else 2 * i + 1)"
  have eq: "heap_down_loop i n h = (if \<not> h ! j < h ! i then (i, h) else heap_down_loop j n (swap_at i j h))"
    unfolding j_def by (subst heap_down_loop.simps) (simp only: Let_def False if_False)
  have j: "i < j" "j < n" "(j - 1) div 2 = i" using False by (auto simp: j_def)
  have least: "\<forall>k < n. 0 < k \<and> (k - 1) div 2 = i \<longrightarrow> h ! j \<le> h ! k" unfolding child_iff by (auto simp: j_def)
  show ?thesis
  proof (cases "h ! j < h ! i")
    case True
    then show ?thesis using step [OF j True least] eq by simp
  next
    case False
    then show ?thesis using stop eq least by fastforce
  qed
qed

lemma heap_down_loop_mset:
  assumes "n \<le> length h" "i < length h" "heap_down_loop i n h = (k, h')"
  shows "mset h' = mset h \<and> length h' = length h \<and> i \<le> k \<and> (\<forall>l. n \<le> l \<longrightarrow> l \<noteq> i \<longrightarrow> h' ! l = h ! l)"
  using assms
proof (induction "n - i" arbitrary: i h rule: less_induct)
  case less
  show ?case
  proof (cases rule: heap_down_cases [of i n h])
    case stop
    then show ?thesis using less.prems by simp
  next
    case (step j)
    then have j: "j < length h" "heap_down_loop j n (swap_at i j h) = (k, h')" using less.prems by simp_all
    have "mset h' = mset (swap_at i j h) \<and> length h' = length (swap_at i j h) \<and> j \<le> k \<and>
        (\<forall>l. n \<le> l \<longrightarrow> l \<noteq> j \<longrightarrow> h' ! l = swap_at i j h ! l)"
      by (rule less.hyps) (use step j less.prems in simp_all)
    then show ?thesis using step(1,2) j less.prems by (auto simp: nth_swap_at)
  qed
qed

section \<open>The heap order\<close>

text \<open>The order between the slots from \<open>m\<close> on and their children below \<open>n\<close>, except for those of \<open>skip\<close>.\<close>

definition heap_from :: "nat \<Rightarrow> nat \<Rightarrow> ('a::linorder) list \<Rightarrow> bool" where
  "heap_from m n h \<longleftrightarrow> (\<forall>k < n. 0 < k \<longrightarrow> m \<le> (k - 1) div 2 \<longrightarrow> h ! ((k - 1) div 2) \<le> h ! k)"

definition is_heap :: "('a::linorder) list \<Rightarrow> bool" where
  "is_heap h = heap_from 0 (length h) h"

lemma heap_down_heap:
  assumes "n \<le> length h" "i < n" "m \<le> i" "heap_down_loop i n h = (k, h')"
    "\<forall>k < n. 0 < k \<longrightarrow> m \<le> (k - 1) div 2 \<longrightarrow> (k - 1) div 2 \<noteq> i \<longrightarrow> h ! ((k - 1) div 2) \<le> h ! k"
    "\<forall>k < n. 0 < i \<longrightarrow> 0 < k \<longrightarrow> m \<le> (i - 1) div 2 \<longrightarrow> (k - 1) div 2 = i \<longrightarrow> h ! ((i - 1) div 2) \<le> h ! k"
  shows "heap_from m n h'"
  using assms
proof (induction "n - i" arbitrary: i h rule: less_induct)
  case less
  show ?case
  proof (cases rule: heap_down_cases [of i n h])
    case stop
    then show ?thesis using less.prems(4,5) unfolding heap_from_def by auto
  next
    case (step j)
    let ?h = "swap_at i j h"
    have v: "?h ! l = (if l = i then h ! j else if l = j then h ! i else h ! l)" for l
      using step less.prems(1) by (simp add: nth_swap_at)
    have run: "heap_down_loop j n ?h = (k, h')" using step(6) less.prems(4) by simp
    have A: "?h ! ((l - 1) div 2) \<le> ?h ! l" if l: "l < n" "0 < l" "m \<le> (l - 1) div 2" "(l - 1) div 2 \<noteq> j" for l
    proof -
      have p: "(l - 1) div 2 < l" using l(2) by simp
      consider (self) "l = i" | (child) "l \<noteq> i" "(l - 1) div 2 = i" | (other) "l \<noteq> i" "(l - 1) div 2 \<noteq> i" by blast
      then show ?thesis
      proof cases
        case self
        then have "(l - 1) div 2 \<noteq> i" "h ! ((i - 1) div 2) \<le> h ! j" using p l less.prems(6) step(2,3) step(1) by auto
        then show ?thesis using self l(4) step(1) by (simp add: v)
      next
        case child
        then show ?thesis using step(4,5) l(1,2) by (auto simp: v)
      next
        case other
        then have "l \<noteq> j" using step(3) by auto
        then show ?thesis using other l less.prems(5) by (simp add: v)
      qed
    qed
    have B: "?h ! ((j - 1) div 2) \<le> ?h ! l" if l: "l < n" "0 < l" "(l - 1) div 2 = j" for l
    proof -
      have "h ! j \<le> h ! l" using less.prems(3,5) l step(1) by fastforce
      moreover have "j < l" using l(2,3) by auto
      ultimately show ?thesis using step(1,3) by (simp add: v)
    qed
    show ?thesis
      by (rule less.hyps [OF _ _ _ _ run]) (use step(1,2) less.prems A B in auto)
  qed
qed

text \<open>\<open>up\<close> repairs a heap in which only one slot may be less than its parent.\<close>

lemma heap_up_heap:
  assumes "j < length h"
    "\<forall>k < length h. 0 < k \<longrightarrow> k \<noteq> j \<longrightarrow> h ! ((k - 1) div 2) \<le> h ! k"
    "\<forall>k < length h. 0 < j \<longrightarrow> 0 < k \<longrightarrow> (k - 1) div 2 = j \<longrightarrow> h ! ((j - 1) div 2) \<le> h ! k"
  shows "is_heap (heap_up j h)"
  using assms
proof (induction j h rule: heap_up.induct)
  case (1 j h)
  define i where "i = (j - 1) div 2"
  show ?case
  proof (cases "i = j \<or> \<not> h ! j < h ! i")
    case True
    then have e: "heap_up j h = h" by (subst heap_up.simps) (simp add: Let_def i_def)
    have "h ! ((k - 1) div 2) \<le> h ! k" if "k < length h" "0 < k" for k
      using 1(3) that True by (cases "k = j") (auto simp: i_def)
    then show ?thesis by (simp add: e is_heap_def heap_from_def)
  next
    case False
    then have j: "i < j" "0 < j" by (auto simp: i_def)
    let ?h = "swap_at i j h"
    have v: "?h ! l = (if l = i then h ! j else if l = j then h ! i else h ! l)" for l
      using j 1(2) by (subst nth_swap_at) auto
    have e: "heap_up j h = heap_up i ?h" using False by (subst heap_up.simps) (simp add: Let_def i_def)
    have p [simp]: "(j - Suc 0) div 2 = i" by (simp add: i_def)
    have A: "?h ! ((k - 1) div 2) \<le> ?h ! k" if k: "k < length h" "0 < k" "k \<noteq> i" for k
    proof -
      have "(k - 1) div 2 < k" using k(2) by simp
      consider (self) "k = j" | (child) "k \<noteq> j" "(k - 1) div 2 = j" | (sibling) "k \<noteq> j" "(k - 1) div 2 = i" | (other) "k \<noteq> j" "(k - 1) div 2 \<noteq> j" "(k - 1) div 2 \<noteq> i"
        by blast
      then show ?thesis
      proof cases
        case self then show ?thesis using False j by (simp add: v)
      next
        case child then show ?thesis using 1(4) k j by (simp add: v)
      next
        case sibling
        then have "h ! i \<le> h ! k" using 1(3) k by auto
        then show ?thesis using sibling k False j by (simp add: v)
      next
        case other then show ?thesis using 1(3) k by (simp add: v)
      qed
    qed
    have B: "?h ! ((i - 1) div 2) \<le> ?h ! k" if k: "k < length h" "0 < i" "0 < k" "(k - 1) div 2 = i" for k
    proof -
      have q: "(i - 1) div 2 < i" using k(2) by simp
      have "i < length h" using j 1(2) by simp
      then have up: "h ! ((i - 1) div 2) \<le> h ! i" using 1(3) k(2) j by (metis less_trans less_not_refl)
      have "h ! i \<le> h ! k" if "k \<noteq> j" using 1(3) k that by metis
      then show ?thesis using up q j k by (auto simp: v)
    qed
    show ?thesis unfolding e
      by (rule 1(1) [OF i_def]) (use False j 1(2) A B in simp_all)
  qed
qed

lemma heap_up_unfold: "heap_up j h =
    (if (j - 1) div 2 = j \<or> \<not> h ! j < h ! ((j - 1) div 2) then h else heap_up ((j - 1) div 2) (swap_at ((j - 1) div 2) j h))"
  by (subst heap_up.simps) (simp add: Let_def)

text \<open>\<open>up\<close> does not look at the slots behind its own.\<close>

lemma heap_up_append: "j < length h \<Longrightarrow> heap_up j (h @ t) = heap_up j h @ t"
proof (induction j h rule: heap_up.induct)
  case (1 j h)
  define i where "i = (j - 1) div 2"
  have i: "i < length h" using 1(2) by (simp add: i_def)
  then have a: "(h @ t) ! j = h ! j" "(h @ t) ! i = h ! i" "swap_at i j (h @ t) = swap_at i j h @ t"
    using 1(2) by (simp_all add: nth_append swap_at_def list_update_append)
  show ?case
    unfolding heap_up_unfold [of j h] heap_up_unfold [of j "h @ t"] i_def [symmetric] a
    using 1(1) [OF i_def] i by simp
qed

section \<open>The operations keep the order and the elements\<close>

lemma is_heap_root: "is_heap h \<Longrightarrow> k < length h \<Longrightarrow> h ! 0 \<le> h ! k"
proof (induction k rule: less_induct)
  case (less k)
  show ?case
  proof (cases "k = 0")
    case False
    then have "(k - 1) div 2 < k" by simp
    then have "h ! 0 \<le> h ! ((k - 1) div 2)" using less by simp
    also have "\<dots> \<le> h ! k" using less.prems False by (simp add: is_heap_def heap_from_def)
    finally show ?thesis .
  qed simp
qed

lemma sorted_is_heap: "sorted h \<Longrightarrow> is_heap h"
  by (auto simp: is_heap_def heap_from_def intro!: sorted_nth_mono)

lemma heap_from_take: "n \<le> length h \<Longrightarrow> heap_from 0 n h \<Longrightarrow> is_heap (take n h)"
  by (auto simp: is_heap_def heap_from_def less_le_trans)

lemma is_heap_take: "is_heap h \<Longrightarrow> is_heap (take n h)"
  by (auto simp: is_heap_def heap_from_def)

lemma heap_from_append: "is_heap h \<Longrightarrow> heap_from 0 (length h) (h @ t)"
  unfolding is_heap_def heap_from_def
proof (intro allI impI)
  fix k assume h: "\<forall>k < length h. 0 < k \<longrightarrow> 0 \<le> (k - 1) div 2 \<longrightarrow> h ! ((k - 1) div 2) \<le> h ! k" and k: "k < length h" "0 < k"
  then have "(k - 1) div 2 < length h" by simp
  then show "(h @ t) ! ((k - 1) div 2) \<le> (h @ t) ! k" using h k by (simp add: nth_append)
qed

lemma heap_Push_heap: "is_heap h \<Longrightarrow> is_heap (heap_Push x h)"
  unfolding heap_Push_def Let_def by (rule heap_up_heap) (auto simp: is_heap_def heap_from_def nth_append)

lemma heap_Push_mset: "mset (heap_Push x h) = add_mset x (mset h)"
  using heap_up_mset [of "length h" "h @ [x]"] by (simp add: heap_Push_def)

text \<open>What is left when the last slot, with the element taken out, is cut off.\<close>

lemma cut_last:
  assumes "length h' = Suc n" "mset h' = mset h"
  shows "mset h = add_mset (h' ! n) (mset (take n h'))"
proof -
  have "h' = take n h' @ [h' ! n]" using assms(1) by (metis lessI take_Suc_conv_app_nth take_all order_refl)
  then have "mset h' = mset (take n h' @ [h' ! n])" by (rule arg_cong)
  then show ?thesis using assms(2) by simp
qed

lemma heap_Remove_at: "length h = Suc n \<Longrightarrow> heap_Remove i h =
    (let h = (if n \<noteq> i then (case heap_down i n (swap_at i n h) of (moved, h) \<Rightarrow> if moved then h else heap_up i h) else h)
     in (h ! n, take n h))"
  by (simp add: heap_Remove_def)

lemma heap_Remove_spec:
  assumes "is_heap h" "i < length h" "heap_Remove i h = (x, h')"
  shows "x = h ! i \<and> is_heap h' \<and> mset h = add_mset x (mset h')"
proof -
  define n where "n = length h - 1"
  have n: "length h = Suc n" using assms(2) by (simp add: n_def)
  show ?thesis
  proof (cases "n = i")
    case True
    then have "x = h ! n" "h' = take n h" using assms(3) by (simp_all add: heap_Remove_at [OF n] Let_def)
    then show ?thesis using True is_heap_take [OF assms(1)] cut_last [OF n refl] by simp
  next
    case False
    then have i: "i < n" using assms(2) n by simp
    let ?s = "swap_at i n h"
    have v: "?s ! l = (if l = i then h ! n else if l = n then h ! i else h ! l)" for l
      using i n by (subst nth_swap_at) auto
    have edge: "h ! ((k - 1) div 2) \<le> h ! k" if "k < length h" "0 < k" for k
      using assms(1) that by (simp add: is_heap_def heap_from_def)
    have over: "h ! ((i - 1) div 2) \<le> h ! k" if "k < length h" "0 < i" "0 < k" "(k - 1) div 2 = i" for k
      using edge [of i] edge [of k] that i n by fastforce
    obtain k d where d: "heap_down_loop i n ?s = (k, d)" by (metis surj_pair)
    note dm = heap_down_loop_mset [OF _ _ d]
    have dm: "mset d = mset h" "length d = length h" "i \<le> k" "d ! n = h ! i" using dm i n v [of n] by auto
    define r where "r = (if i < k then d else heap_up i d)"
    have "heap_Remove i h = (r ! n, take n r)"
      using False by (simp add: heap_Remove_at [OF n] heap_down_def d r_def Let_def)
    then have x: "x = r ! n" "h' = take n r" using assms(3) by simp_all
    have par: "(l - 1) div 2 < l" if "0 < l" for l :: nat using that by simp
    have "mset r = mset h \<and> length r = length h" using dm heap_up_mset [of i d] i n by (auto simp: r_def)
    moreover have "r ! n = h ! i \<and> heap_from 0 n r"
    proof (cases "0 < i \<longrightarrow> h ! ((i - 1) div 2) \<le> h ! n")
      case True
      have "?s ! ((l - 1) div 2) \<le> ?s ! l" if "l < n" "0 < l" "(l - 1) div 2 \<noteq> i" for l
        using that True edge [of l] par [of l] n i by (auto simp: v)
      moreover have "?s ! ((i - 1) div 2) \<le> ?s ! l" if "l < n" "0 < i" "0 < l" "(l - 1) div 2 = i" for l
        using that over [of l] par [of i] par [of l] n i by (auto simp: v)
      ultimately have h: "heap_from 0 n d" by (intro heap_down_heap [OF _ i _ d]) (use n in auto)
      have "heap_up i d = d"
      proof -
        have "\<not> d ! i < d ! ((i - 1) div 2)" if "0 < i" using h i that by (simp add: heap_from_def not_less)
        then show ?thesis unfolding heap_up_unfold [of i d] by (cases "i = 0") auto
      qed
      then show ?thesis using h dm(4) by (simp add: r_def)
    next
      case up: False
      have less: "h ! n < h ! l" if "l < n" "0 < l" "(l - 1) div 2 = i" for l
        using over [of l] up that n by fastforce
      have "(k, d) = (i, ?s)"
      proof (cases rule: heap_down_cases [of i n ?s])
        case stop
        then show ?thesis using d by simp
      next
        case (step j)
        then show ?thesis using less [of j] i by (auto simp: v)
      qed
      then have k: "k = i" "d = ?s" by simp_all
      define t where "t = take n ?s"
      have t: "length t = n" "\<And>l. l < n \<Longrightarrow> t ! l = ?s ! l" using n by (simp_all add: t_def)
      have up1: "heap_up i ?s = heap_up i t @ [h ! i]"
      proof -
        have "?s = t @ [h ! i]" using n v [of n] i by (simp add: t_def) (metis length_swap_at lessI n take_Suc_conv_app_nth take_all order_refl)
        then show ?thesis using heap_up_append [of i t "[h ! i]"] i t(1) by simp
      qed
      have "is_heap (heap_up i t)"
      proof (rule heap_up_heap)
        show "i < length t" using i t by simp
        show "\<forall>l < length t. 0 < l \<longrightarrow> l \<noteq> i \<longrightarrow> t ! ((l - 1) div 2) \<le> t ! l"
        proof (intro allI impI)
          fix l assume l: "l < length t" "0 < l" "l \<noteq> i"
          have q: "(l - 1) div 2 < n" using l t par [of l] by simp
          show "t ! ((l - 1) div 2) \<le> t ! l"
            using l t q less [of l] edge [of l] n by (cases "(l - 1) div 2 = i") (auto simp: v)
        qed
        show "\<forall>l < length t. 0 < i \<longrightarrow> 0 < l \<longrightarrow> (l - 1) div 2 = i \<longrightarrow> t ! ((i - 1) div 2) \<le> t ! l"
          using over par [of i] t i n by (auto simp: v)
      qed
      then show ?thesis using heap_from_append [of "heap_up i t" "[h ! i]"] up1 t heap_up_mset [of i t] i k
        by (simp add: r_def nth_append)
    qed
    ultimately show ?thesis using x heap_from_take [of n r] cut_last [of r n h] n by simp
  qed
qed

lemma heap_Pop_Remove: "h \<noteq> [] \<Longrightarrow> heap_Pop h = heap_Remove 0 h"
proof -
  assume "h \<noteq> []"
  then obtain n where n: "length h = Suc n" by (cases h) auto
  have e: "heap_up 0 d = d" for d :: "'a list" by (simp add: heap_up_unfold [of 0 d])
  have "heap_down_loop 0 0 h = (0, h)" by (subst heap_down_loop.simps) simp
  moreover have "swap_at 0 0 h = h" by (simp add: swap_at_def)
  ultimately show ?thesis
    by (cases n) (auto simp: heap_Pop_def heap_Remove_at [OF n] n heap_down_def e Let_def split: prod.split)
qed

lemma heap_Pop_spec:
  assumes "is_heap h" "h \<noteq> []" "heap_Pop h = (x, h')"
  shows "x = h ! 0 \<and> is_heap h' \<and> mset h = add_mset x (mset h')"
  using heap_Remove_spec [OF assms(1), of 0] assms(2,3) by (simp add: heap_Pop_Remove)

lemma heap_Init_from_spec:
  "i \<le> length h \<Longrightarrow> heap_from i (length h) h \<Longrightarrow> is_heap (heap_Init_from i h) \<and> mset (heap_Init_from i h) = mset h"
proof (induction i arbitrary: h)
  case (Suc i)
  obtain k d where d: "heap_down_loop i (length h) h = (k, d)" by (metis surj_pair)
  have m: "mset d = mset h" "length d = length h" using heap_down_loop_mset [OF _ _ d] Suc.prems(1) by auto
  have "heap_from i (length h) d"
  proof (rule heap_down_heap [OF order_refl _ order_refl d])
    show "\<forall>k < length h. 0 < k \<longrightarrow> i \<le> (k - 1) div 2 \<longrightarrow> (k - 1) div 2 \<noteq> i \<longrightarrow> h ! ((k - 1) div 2) \<le> h ! k"
      using Suc.prems(2) by (simp add: heap_from_def)
    show "\<forall>k < length h. 0 < i \<longrightarrow> 0 < k \<longrightarrow> i \<le> (i - 1) div 2 \<longrightarrow> (k - 1) div 2 = i \<longrightarrow> h ! ((i - 1) div 2) \<le> h ! k" by auto
  qed (use Suc.prems(1) in simp)
  then show ?case using Suc.IH [of d] Suc.prems(1) m by (simp add: heap_down_def d)
qed (simp add: is_heap_def)

lemma heap_Init_spec: "is_heap (heap_Init h) \<and> mset (heap_Init h) = mset h"
  unfolding heap_Init_def by (rule heap_Init_from_spec) (auto simp: heap_from_def)

text \<open>The binary heap is a queue that hands out its least element.\<close>

interpretation nonces: min_queue is_heap mset heap_Push heap_Pop
proof unfold_locales
  fix q :: "'a list" and x
  show "is_heap q \<Longrightarrow> is_heap (heap_Push x q)" by (rule heap_Push_heap)
  show "mset (heap_Push x q) = add_mset x (mset q)" by (rule heap_Push_mset)
  show "is_heap (snd (heap_Pop q))" if "is_heap q" "mset q \<noteq> {#}"
    using heap_Pop_spec [OF that(1)] that(2) by (metis mset_zero_iff prod.collapse)
  show "mset q = add_mset (fst (heap_Pop q)) (mset (snd (heap_Pop q)))" if "is_heap q" "mset q \<noteq> {#}"
    using heap_Pop_spec [OF that(1)] that(2) by (metis mset_zero_iff prod.collapse)
  show "fst (heap_Pop q) \<le> x" if "is_heap q" "x \<in># mset q"
  proof -
    have q: "q \<noteq> []" using that(2) by auto
    then have "fst (heap_Pop q) = q ! 0" using heap_Pop_spec [OF that(1)] by (metis prod.collapse)
    then show ?thesis using is_heap_root [OF that(1)] that(2) by (auto simp: in_set_conv_nth)
  qed
qed

end
