(* ===== verification/Tx_List.thy ===== *)
theory Tx_List imports Transactions Binary_Heap "HOL-Library.AList" begin

text \<open>
  The lists of the transaction pool, \<open>core/txpool/legacypool/list.go\<close>: the transactions of one account by
  nonce, a hash map with a heap of its keys and a cache of its sorted content (\<open>sortedMap\<close>), and the \<open>list\<close>
  that replaces, filters and removes them and keeps account of their costs. A map is an association list
  without duplicate keys; ranging over it goes through it in the order that the parameter \<open>ord\<close> gives. A slice
  of transactions that are looked up holds pointers, which may be nil. The lock of the cache is left out.
  The relations \<open>sm_rep\<close> and \<open>list_rep\<close> tie a list to the map from nonces to transactions that it stands for;
  \<open>run_list_op\<close> is refined by \<open>spec_op\<close> on that map. The laws of the heap come from \<open>nonces\<close>, the
  interpretation of \<open>min_queue\<close> on \<open>container/heap\<close>.
\<close>

section \<open>Transactions sorted by nonce\<close>

record sortedMap =
  sm_items :: "(u64 \<times> TxData) list"
  sm_index :: "u64 list"
  sm_cache :: "TxData list option"

type_synonym map_order = "(u64 \<times> TxData) list \<Rightarrow> (u64 \<times> TxData) list"

definition newSortedMap :: sortedMap where
  "newSortedMap = \<lparr>sm_items = [], sm_index = [], sm_cache = None\<rparr>"

definition sm_Get :: "u64 \<Rightarrow> sortedMap \<Rightarrow> TxData option" where
  "sm_Get nonce m = map_of (sm_items m) nonce"

definition sm_Put :: "TxData \<Rightarrow> sortedMap \<Rightarrow> sortedMap" where
  "sm_Put tx m =
     (let nonce = tx_Nonce tx;
          m = (if map_of (sm_items m) nonce = None then m\<lparr>sm_index := heap_Push nonce (sm_index m)\<rparr> else m)
      in m\<lparr>sm_items := AList.update nonce tx (sm_items m), sm_cache := None\<rparr>)"

text \<open>The loop of \<open>Forward\<close> over the heap and the map.\<close>

function sm_forward :: "u64 \<Rightarrow> u64 list \<Rightarrow> (u64 \<times> TxData) list \<Rightarrow> TxData option list \<Rightarrow>
    TxData option list \<times> u64 list \<times> (u64 \<times> TxData) list" where
  "sm_forward threshold index items removed =
     (if index \<noteq> [] \<and> index ! 0 < threshold then
        (case heap_Pop index of (nonce, index) \<Rightarrow>
           sm_forward threshold index (AList.delete nonce items) (removed @ [map_of items nonce]))
      else (removed, index, items))"
  by pat_completeness auto
termination by (relation "measure (\<lambda>(t, index, is, r). length index)") (auto, metis length_heap_Pop snd_conv)

definition sm_Forward :: "u64 \<Rightarrow> sortedMap \<Rightarrow> (TxData option list \<times> sortedMap) go" where
  "sm_Forward threshold m =
     (case sm_forward threshold (sm_index m) (sm_items m) [] of (removed, index, items) \<Rightarrow>
        let m = m\<lparr>sm_items := items, sm_index := index\<rparr> in
        case sm_cache m of
          None \<Rightarrow> Ret (removed, m)
        | Some cache \<Rightarrow>
            go_bind (slice cache (length removed) (length cache)) (\<lambda>cache. Ret (removed, m\<lparr>sm_cache := Some cache\<rparr>)))"

definition sm_reheap :: "map_order \<Rightarrow> sortedMap \<Rightarrow> sortedMap" where
  "sm_reheap ord m = m\<lparr>sm_index := heap_Init (map fst (ord (sm_items m))), sm_cache := None\<rparr>"

definition sm_filter :: "map_order \<Rightarrow> (TxData \<Rightarrow> bool) \<Rightarrow> sortedMap \<Rightarrow> TxData option list \<times> sortedMap" where
  "sm_filter ord P m =
     (let hits = filter (\<lambda>(nonce, tx). P tx) (ord (sm_items m));
          removed = map (\<lambda>(nonce, tx). Some tx) hits;
          m = m\<lparr>sm_items := fold (\<lambda>(nonce, tx). AList.delete nonce) hits (sm_items m)\<rparr>
      in (removed, if removed \<noteq> [] then m\<lparr>sm_cache := None\<rparr> else m))"

definition sm_Filter :: "map_order \<Rightarrow> (TxData \<Rightarrow> bool) \<Rightarrow> sortedMap \<Rightarrow> TxData option list \<times> sortedMap" where
  "sm_Filter ord P m =
     (case sm_filter ord P m of (removed, m) \<Rightarrow> (removed, if removed \<noteq> [] then sm_reheap ord m else m))"

text \<open>The loop of \<open>Cap\<close>, downwards from \<open>size\<close>; a negative threshold runs into the index -1.\<close>

fun sm_cap :: "int \<Rightarrow> nat \<Rightarrow> u64 list \<Rightarrow> (u64 \<times> TxData) list \<Rightarrow> TxData option list \<Rightarrow>
    (TxData option list \<times> (u64 \<times> TxData) list) go" where
  "sm_cap threshold 0 index items drops =
     (if 0 \<le> threshold then Ret (drops, items) else Panic IndexOutOfRange)"
| "sm_cap threshold (Suc k) index items drops =
     (if int (Suc k) \<le> threshold then Ret (drops, items)
      else go_bind (nth_go index k) (\<lambda>nonce.
             sm_cap threshold k index (AList.delete nonce items) (drops @ [map_of items nonce])))"

definition sm_Cap :: "int \<Rightarrow> sortedMap \<Rightarrow> (TxData option list \<times> sortedMap) go" where
  "sm_Cap threshold m =
     (if int (length (sm_items m)) \<le> threshold then Ret ([], m)
      else
        let index = sort (sm_index m) in
        go_bind (sm_cap threshold (length (sm_items m)) index (sm_items m) []) (\<lambda>(drops, items).
        let m = m\<lparr>sm_items := items, sm_index := take (nat threshold) index\<rparr> in
        case sm_cache m of
          None \<Rightarrow> Ret (drops, m)
        | Some cache \<Rightarrow>
            if length drops \<le> length cache
            then Ret (drops, m\<lparr>sm_cache := Some (take (length cache - length drops) cache)\<rparr>)
            else Panic SliceOutOfRange))"

definition sm_Remove :: "u64 \<Rightarrow> sortedMap \<Rightarrow> bool \<times> sortedMap" where
  "sm_Remove nonce m =
     (if map_of (sm_items m) nonce = None then (False, m)
      else
        let index = sm_index m;
            i = length (takeWhile (\<lambda>n. n \<noteq> nonce) index);
            index = (if i < length index then snd (heap_Remove i index) else index)
        in (True, m\<lparr>sm_items := AList.delete nonce (sm_items m), sm_index := index, sm_cache := None\<rparr>))"

function sm_ready :: "u64 \<Rightarrow> u64 list \<Rightarrow> (u64 \<times> TxData) list \<Rightarrow> TxData option list \<Rightarrow>
    TxData option list \<times> u64 list \<times> (u64 \<times> TxData) list" where
  "sm_ready nxt index items ready =
     (if index \<noteq> [] \<and> index ! 0 = nxt then
        sm_ready (nxt + 1) (snd (heap_Pop index)) (AList.delete nxt items) (ready @ [map_of items nxt])
      else (ready, index, items))"
  by pat_completeness auto
termination by (relation "measure (\<lambda>(n, index, is, r). length index)") (auto simp: length_heap_Pop)

definition sm_Ready :: "u64 \<Rightarrow> sortedMap \<Rightarrow> TxData option list \<times> sortedMap" where
  "sm_Ready start m =
     (if sm_index m = [] \<or> sm_index m ! 0 > start then ([], m)
      else case sm_ready (sm_index m ! 0) (sm_index m) (sm_items m) [] of (ready, index, items) \<Rightarrow>
             (ready, m\<lparr>sm_items := items, sm_index := index, sm_cache := None\<rparr>))"

definition sm_Len :: "sortedMap \<Rightarrow> nat" where
  "sm_Len m = length (sm_items m)"

text \<open>\<open>Flatten\<close> returns a copy of the cache that \<open>flatten\<close> returns.\<close>

definition sm_flatten :: "map_order \<Rightarrow> sortedMap \<Rightarrow> TxData list \<times> sortedMap" where
  "sm_flatten ord m =
     (case sm_cache m of
        Some cache \<Rightarrow> (cache, m)
      | None \<Rightarrow> let cache = sort_key tx_Nonce (map snd (ord (sm_items m))) in (cache, m\<lparr>sm_cache := Some cache\<rparr>))"

definition sm_Flatten :: "map_order \<Rightarrow> sortedMap \<Rightarrow> TxData list \<times> sortedMap" where
  "sm_Flatten ord m = sm_flatten ord m"

definition sm_LastElement :: "map_order \<Rightarrow> sortedMap \<Rightarrow> (TxData \<times> sortedMap) go" where
  "sm_LastElement ord m =
     (case sm_flatten ord m of (cache, m) \<Rightarrow>
        if cache = [] then Panic IndexOutOfRange else Ret (last cache, m))"

section \<open>The list of an account\<close>

record tx_list =
  tl_strict :: bool
  tl_txs :: sortedMap
  tl_costcap :: u256
  tl_gascap :: u64
  tl_totalcost :: u256

definition newTxList :: "bool \<Rightarrow> tx_list" where
  "newTxList strict = \<lparr>tl_strict = strict, tl_txs = newSortedMap, tl_costcap = 0, tl_gascap = 0, tl_totalcost = 0\<rparr>"

definition tl_Contains :: "u64 \<Rightarrow> tx_list \<Rightarrow> bool" where
  "tl_Contains nonce l \<longleftrightarrow> sm_Get nonce (tl_txs l) \<noteq> None"

fun subTotalCost :: "TxData option list \<Rightarrow> tx_list \<Rightarrow> tx_list go" where
  "subTotalCost [] l = Ret l"
| "subTotalCost (p # ps) l =
     go_bind (deref p) (\<lambda>tx.
     go_bind (MustFromBig (tx_Cost tx)) (\<lambda>cost.
     if tl_totalcost l < cost then Panic CostUnderflow
     else subTotalCost ps (l\<lparr>tl_totalcost := tl_totalcost l - cost\<rparr>)))"

text \<open>Whether the new transaction pays enough to replace the old one; the percentage is an \<open>int64\<close> sum.\<close>

definition outbids :: "TxData \<Rightarrow> TxData \<Rightarrow> u64 \<Rightarrow> bool" where
  "outbids tx old priceBump \<longleftrightarrow>
     \<not> (GasFeeCapCmp old tx \<ge> 0 \<or> GasTipCapCmp old tx \<ge> 0) \<and>
     (let a = sint (100 + priceBump);
          thresholdFeeCap = a * tx_GasFeeCap old div 100;
          thresholdTip = a * tx_GasTipCap old div 100
      in \<not> (GasFeeCapIntCmp tx thresholdFeeCap < 0 \<or> GasTipCapIntCmp tx thresholdTip < 0))"

text \<open>The second part of \<open>Add\<close>, once an old transaction may be replaced.\<close>

definition tl_put :: "TxData \<Rightarrow> TxData option \<Rightarrow> tx_list \<Rightarrow> (bool \<times> TxData option) \<times> tx_list" where
  "tl_put tx old l =
     (case FromBig (tx_Cost tx) of (cost, overflow) \<Rightarrow>
        if overflow then ((False, None), l)
        else
          let l = l\<lparr>tl_totalcost := tl_totalcost l + cost, tl_txs := sm_Put tx (tl_txs l)\<rparr>;
              l = (if tl_costcap l < cost then l\<lparr>tl_costcap := cost\<rparr> else l);
              l = (if tl_gascap l < tx_Gas tx then l\<lparr>tl_gascap := tx_Gas tx\<rparr> else l)
          in ((True, old), l))"

definition tl_Add :: "TxData \<Rightarrow> u64 \<Rightarrow> tx_list \<Rightarrow> ((bool \<times> TxData option) \<times> tx_list) go" where
  "tl_Add tx priceBump l =
     (case sm_Get (tx_Nonce tx) (tl_txs l) of
        None \<Rightarrow> Ret (tl_put tx None l)
      | Some old \<Rightarrow>
          if \<not> outbids tx old priceBump then Ret ((False, None), l)
          else go_bind (subTotalCost [Some old] l) (\<lambda>l. Ret (tl_put tx (Some old) l)))"

definition tl_Forward :: "u64 \<Rightarrow> tx_list \<Rightarrow> (TxData option list \<times> tx_list) go" where
  "tl_Forward threshold l =
     go_bind (sm_Forward threshold (tl_txs l)) (\<lambda>(txs, m).
     go_bind (subTotalCost txs (l\<lparr>tl_txs := m\<rparr>)) (\<lambda>l. Ret (txs, l)))"

text \<open>The least nonce of the removed transactions, none of which is nil.\<close>

definition lowest_nonce :: "TxData option list \<Rightarrow> u64 go" where
  "lowest_nonce removed =
     fold (\<lambda>p r. go_bind r (\<lambda>lowest. go_bind (deref p) (\<lambda>tx. Ret (if lowest > tx_Nonce tx then tx_Nonce tx else lowest))))
       removed (Ret (- 1))"

definition tl_Filter :: "map_order \<Rightarrow> u256 \<Rightarrow> u64 \<Rightarrow> tx_list \<Rightarrow> ((TxData option list \<times> TxData option list) \<times> tx_list) go" where
  "tl_Filter ord costLimit gasLimit l =
     (if tl_costcap l \<le> costLimit \<and> tl_gascap l \<le> gasLimit then Ret (([], []), l)
      else
        let l = l\<lparr>tl_costcap := costLimit, tl_gascap := gasLimit\<rparr>;
            (removed, m) = sm_Filter ord (\<lambda>tx. tx_Gas tx > gasLimit \<or> tx_Cost tx > uint costLimit) (tl_txs l);
            l = l\<lparr>tl_txs := m\<rparr>
        in if removed = [] then Ret (([], []), l)
           else
             go_bind (if tl_strict l then go_bind (lowest_nonce removed) (\<lambda>lowest. Ret (sm_filter ord (\<lambda>tx. tx_Nonce tx > lowest) (tl_txs l)))
                      else Ret ([], tl_txs l)) (\<lambda>(invalids, m).
             go_bind (subTotalCost removed (l\<lparr>tl_txs := m\<rparr>)) (\<lambda>l.
             go_bind (subTotalCost invalids l) (\<lambda>l.
             Ret ((removed, invalids), l\<lparr>tl_txs := sm_reheap ord (tl_txs l)\<rparr>)))))"

definition tl_Cap :: "int \<Rightarrow> tx_list \<Rightarrow> (TxData option list \<times> tx_list) go" where
  "tl_Cap threshold l =
     go_bind (sm_Cap threshold (tl_txs l)) (\<lambda>(txs, m).
     go_bind (subTotalCost txs (l\<lparr>tl_txs := m\<rparr>)) (\<lambda>l. Ret (txs, l)))"

definition tl_Remove :: "map_order \<Rightarrow> TxData \<Rightarrow> tx_list \<Rightarrow> ((bool \<times> TxData option list) \<times> tx_list) go" where
  "tl_Remove ord tx l =
     (let nonce = tx_Nonce tx in
      case sm_Remove nonce (tl_txs l) of (removed, m) \<Rightarrow>
        if \<not> removed then Ret ((False, []), l\<lparr>tl_txs := m\<rparr>)
        else
          go_bind (subTotalCost [Some tx] (l\<lparr>tl_txs := m\<rparr>)) (\<lambda>l.
          if tl_strict l then
            case sm_Filter ord (\<lambda>tx. tx_Nonce tx > nonce) (tl_txs l) of (txs, m) \<Rightarrow>
              go_bind (subTotalCost txs (l\<lparr>tl_txs := m\<rparr>)) (\<lambda>l. Ret ((True, txs), l))
          else Ret ((True, []), l)))"

definition tl_Ready :: "u64 \<Rightarrow> tx_list \<Rightarrow> (TxData option list \<times> tx_list) go" where
  "tl_Ready start l =
     (case sm_Ready start (tl_txs l) of (txs, m) \<Rightarrow>
        go_bind (subTotalCost txs (l\<lparr>tl_txs := m\<rparr>)) (\<lambda>l. Ret (txs, l)))"

definition tl_Len :: "tx_list \<Rightarrow> nat" where
  "tl_Len l = sm_Len (tl_txs l)"

definition tl_Empty :: "tx_list \<Rightarrow> bool" where
  "tl_Empty l \<longleftrightarrow> tl_Len l = 0"

definition tl_Flatten :: "map_order \<Rightarrow> tx_list \<Rightarrow> TxData list \<times> tx_list" where
  "tl_Flatten ord l = (case sm_Flatten ord (tl_txs l) of (txs, m) \<Rightarrow> (txs, l\<lparr>tl_txs := m\<rparr>))"

definition tl_LastElement :: "map_order \<Rightarrow> tx_list \<Rightarrow> (TxData \<times> tx_list) go" where
  "tl_LastElement ord l =
     go_bind (sm_LastElement ord (tl_txs l)) (\<lambda>(tx, m). Ret (tx, l\<lparr>tl_txs := m\<rparr>))"

declare sm_forward.simps [simp del] sm_ready.simps [simp del]

section \<open>What a sorted map holds\<close>

text \<open>The content of a map in the order of the nonces.\<close>

definition nonces_of :: "(u64 \<rightharpoonup> TxData) \<Rightarrow> u64 list" where
  "nonces_of f = sorted_list_of_set (dom f)"

definition txs_of :: "(u64 \<rightharpoonup> TxData) \<Rightarrow> TxData list" where
  "txs_of f = map (\<lambda>n. the (f n)) (nonces_of f)"

definition items_rep :: "(u64 \<rightharpoonup> TxData) \<Rightarrow> sortedMap \<Rightarrow> bool" where
  "items_rep f m \<longleftrightarrow> map_of (sm_items m) = f \<and> distinct (map fst (sm_items m)) \<and> (\<forall>n tx. f n = Some tx \<longrightarrow> tx_Nonce tx = n) \<and>
     (\<forall>c. sm_cache m = Some c \<longrightarrow> c = txs_of f)"

definition index_rep :: "u64 set \<Rightarrow> u64 list \<Rightarrow> bool" where
  "index_rep D index \<longleftrightarrow> is_heap index \<and> distinct index \<and> set index = D"

definition sm_rep :: "(u64 \<rightharpoonup> TxData) \<Rightarrow> sortedMap \<Rightarrow> bool" where
  "sm_rep f m \<longleftrightarrow> items_rep f m \<and> index_rep (dom f) (sm_index m)"

lemma items_rep_finite: "items_rep f m \<Longrightarrow> finite (dom f)"
  by (auto simp: items_rep_def)

lemma items_rep_length: "items_rep f m \<Longrightarrow> length (sm_items m) = length (nonces_of f)"
proof -
  assume r: "items_rep f m"
  then have "card (set (map fst (sm_items m))) = length (sm_items m)" by (simp only: items_rep_def distinct_card length_map)
  moreover have "set (map fst (sm_items m)) = dom f" using dom_map_of_conv_image_fst [of "sm_items m"] r by (simp add: items_rep_def)
  ultimately have "length (sm_items m) = card (dom f)" by simp
  then show ?thesis using items_rep_finite [OF r] by (simp add: nonces_of_def)
qed

lemma index_sorted: "index_rep D index \<Longrightarrow> sort index = sorted_list_of_set D"
  by (auto simp: index_rep_def sorted_list_of_set_sort_remdups distinct_remdups_id)

lemma index_pop:
  assumes "index_rep D index" "D \<noteq> {}"
  obtains index' where "heap_Pop index = (index ! 0, index')" "index_rep (D - {index ! 0}) index'"
    "sorted_list_of_set D = index ! 0 # sorted_list_of_set (D - {index ! 0})"
proof -
  have i: "is_heap index" "distinct index" "set index = D" "index \<noteq> []" using assms by (auto simp: index_rep_def)
  obtain x index' where p: "heap_Pop index = (x, index')" by (cases "heap_Pop index")
  have q: "x = index ! 0" "is_heap index'" "mset index = add_mset x (mset index')" using heap_Pop_spec [OF i(1,4) p] by auto
  have "mset index = mset (x # index')" using q(3) by simp
  then have d: "distinct (x # index')" using i(2) mset_eq_imp_distinct_iff by blast
  have s: "D = insert x (set index')" using q(3) i(3) by (metis set_mset_add_mset_insert set_mset_mset)
  have r: "index_rep (D - {x}) index'" using q(2) d s by (auto simp: index_rep_def)
  have "sort index = x # sort index'"
    using nonces.pop_sorted [of index] i(1,4) p by simp
  then have "sorted_list_of_set D = x # sorted_list_of_set (D - {x})" using index_sorted [OF assms(1)] index_sorted [OF r] by simp
  then show ?thesis using that p q(1) r by simp
qed

lemma index_top: "index_rep D index \<Longrightarrow> D \<noteq> {} \<Longrightarrow> index \<noteq> [] \<and> index ! 0 = hd (sorted_list_of_set D)"
  using index_pop [of D index] by (metis index_rep_def list.sel(1) set_empty)

text \<open>Deleting keys.\<close>

lemma map_of_deletes: "map_of (fold AList.delete ks items) = map_of items |` (- set ks)"
  by (induction ks arbitrary: items) (auto simp: AList.delete_conv' restrict_map_def fun_eq_iff)

lemma distinct_deletes: "distinct (map fst items) \<Longrightarrow> distinct (map fst (fold AList.delete ks items))"
  by (induction ks arbitrary: items) (simp_all add: AList.distinct_delete)

lemma nonces_of_facts: "finite (dom f) \<Longrightarrow> set (nonces_of f) = dom f \<and> sorted (nonces_of f) \<and> distinct (nonces_of f)"
  by (simp add: nonces_of_def)

lemma nonces_of_restrict: "finite (dom f) \<Longrightarrow> nonces_of (f |` A) = filter (\<lambda>n. n \<in> A) (nonces_of f)"
proof -
  assume f: "finite (dom f)"
  have "dom (f |` A) = {n \<in> dom f. n \<in> A}" by auto
  moreover have "sorted_list_of_set {n \<in> dom f. n \<in> A} = filter (\<lambda>n. n \<in> A) (sorted_list_of_set (dom f))"
    by (rule sorted_distinct_set_unique) (use f in \<open>simp_all add: sorted_wrt_filter\<close>)
  ultimately show ?thesis by (simp add: nonces_of_def)
qed

lemma txs_of_restrict: "finite (dom f) \<Longrightarrow> txs_of (f |` A) = map (\<lambda>n. the (f n)) (filter (\<lambda>n. n \<in> A) (nonces_of f))"
  by (simp add: txs_of_def nonces_of_restrict)

section \<open>The operations on the map\<close>

lemma sm_rep_items: "sm_rep f m \<Longrightarrow> items_rep f m"
  by (simp add: sm_rep_def)

lemma sm_New_rep: "sm_rep Map.empty newSortedMap"
  by (simp add: sm_rep_def items_rep_def index_rep_def newSortedMap_def is_heap_def heap_from_def)

lemma sm_Get_is: "items_rep f m \<Longrightarrow> sm_Get n m = f n"
  by (auto simp: items_rep_def sm_Get_def)

lemma sm_Put_rep:
  assumes "sm_rep f m"
  shows "sm_rep (f(tx_Nonce tx \<mapsto> tx)) (sm_Put tx m)"
proof -
  let ?n = "tx_Nonce tx"
  have f: "map_of (sm_items m) = f" using assms by (simp add: sm_rep_def items_rep_def)
  have "items_rep (f(?n \<mapsto> tx)) (sm_Put tx m)"
    using assms by (auto simp: sm_rep_def items_rep_def sm_Put_def Let_def AList.update_conv' AList.distinct_update)
  moreover have "index_rep (dom (f(?n \<mapsto> tx))) (sm_index (sm_Put tx m))"
  proof (cases "f ?n")
    case None
    have i: "is_heap (sm_index m)" "distinct (sm_index m)" "set (sm_index m) = dom f"
      using assms by (simp_all add: sm_rep_def index_rep_def)
    have "mset (heap_Push ?n (sm_index m)) = mset (?n # sm_index m)" by (simp add: heap_Push_mset)
    then have "distinct (heap_Push ?n (sm_index m))" "set (heap_Push ?n (sm_index m)) = insert ?n (dom f)"
      using i None mset_eq_imp_distinct_iff [of "heap_Push ?n (sm_index m)" "?n # sm_index m"]
        mset_eq_setD [of "heap_Push ?n (sm_index m)" "?n # sm_index m"] by auto
    then show ?thesis using None heap_Push_heap [OF i(1)] f by (simp add: sm_Put_def Let_def index_rep_def)
  next
    case (Some old)
    then have "dom (f(?n \<mapsto> tx)) = dom f" by auto
    then show ?thesis using assms Some f by (simp add: sm_Put_def Let_def sm_rep_def)
  qed
  ultimately show ?thesis by (simp add: sm_rep_def)
qed

text \<open>Popping the nonces below a threshold.\<close>

lemma sm_forward_is:
  "index_rep D index \<Longrightarrow> \<exists>index'. sm_forward t index items removed =
     (removed @ map (map_of items) (takeWhile (\<lambda>n. n < t) (sorted_list_of_set D)), index',
      fold AList.delete (takeWhile (\<lambda>n. n < t) (sorted_list_of_set D)) items) \<and>
     index_rep (D \<inter> {n. t \<le> n}) index'"
proof (induction "card D" arbitrary: D index items removed)
  case 0
  have "finite D" using 0(2) by (auto simp: index_rep_def)
  then have "D = {}" using 0(1) by simp
  then show ?case using 0(2) by (subst sm_forward.simps) (auto simp: index_rep_def)
next
  case (Suc c)
  have f: "finite D" "D \<noteq> {}" using Suc.prems Suc.hyps(2) by (auto simp: index_rep_def)
  obtain index' where p: "heap_Pop index = (index ! 0, index')" "index_rep (D - {index ! 0}) index'"
    "sorted_list_of_set D = index ! 0 # sorted_list_of_set (D - {index ! 0})"
    by (rule index_pop [OF Suc.prems f(2)])
  have n: "index \<noteq> []" "index ! 0 \<in> D" using index_top [OF Suc.prems f(2)] set_sorted_list_of_set [OF f(1)] p(3)
    by (simp, metis list.set_intros(1))
  show ?case
  proof (cases "index ! 0 < t")
    case True
    define k E where "k = index ! 0" and "E = D - {k}"
    have E: "card E = c" "index_rep E index'" using Suc.hyps(2) n f p(2) by (simp_all add: E_def k_def)
    obtain index'' where i: "sm_forward t index' (AList.delete k items) (removed @ [map_of items k]) =
       ((removed @ [map_of items k]) @ map (map_of (AList.delete k items)) (takeWhile (\<lambda>n. n < t) (sorted_list_of_set E)), index'',
        fold AList.delete (takeWhile (\<lambda>n. n < t) (sorted_list_of_set E)) (AList.delete k items))"
      "index_rep (E \<inter> {n. t \<le> n}) index''"
      using Suc.hyps(1) [OF E(1) [symmetric] E(2)] by blast
    have "map (map_of (AList.delete k items)) (takeWhile (\<lambda>n. n < t) (sorted_list_of_set E)) =
        map (map_of items) (takeWhile (\<lambda>n. n < t) (sorted_list_of_set E))"
      using f by (intro map_cong) (auto simp: AList.delete_conv' E_def dest!: set_takeWhileD)
    moreover have "E \<inter> {n. t \<le> n} = D \<inter> {n. t \<le> n}" using True by (auto simp: E_def k_def)
    moreover have "sm_forward t index items removed = sm_forward t index' (AList.delete k items) (removed @ [map_of items k])"
      using True n p(1) by (subst sm_forward.simps) (simp add: k_def)
    ultimately show ?thesis using i p(3) True by (simp add: k_def [symmetric] E_def [symmetric])
  next
    case False
    have "\<forall>n \<in> D. index ! 0 \<le> n"
    proof -
      have "sorted (index ! 0 # sorted_list_of_set (D - {index ! 0}))" using p(3) sorted_list_of_set [of D] by simp
      then show ?thesis using f(1) by auto
    qed
    then have "D \<inter> {n. t \<le> n} = D" using False by auto
    then show ?thesis using False p(3) Suc.prems by (subst sm_forward.simps) simp
  qed
qed

text \<open>Restricting a map to what stays.\<close>

lemma items_rep_deletes:
  assumes "items_rep f m" "g = f |` (- set ks)" "\<And>c. cache = Some c \<Longrightarrow> c = txs_of g"
  shows "items_rep g (m\<lparr>sm_items := fold AList.delete ks (sm_items m), sm_cache := cache, sm_index := index\<rparr>)"
  using assms by (auto simp: items_rep_def map_of_deletes distinct_deletes restrict_map_def split: if_splits)

lemma filter_takeWhile_sorted:
  "sorted (ns :: u64 list) \<Longrightarrow> takeWhile (\<lambda>n. n < t) ns = filter (\<lambda>n. n < t) ns \<and> dropWhile (\<lambda>n. n < t) ns = filter (\<lambda>n. t \<le> n) ns"
proof (induction ns)
  case (Cons n ns)
  show ?case
  proof (cases "n < t")
    case False
    then have "filter (\<lambda>n. n < t) ns = []" "filter (\<lambda>n. t \<le> n) ns = ns"
      using Cons.prems by (auto simp: filter_empty_conv filter_id_conv)
    then show ?thesis using False by simp
  qed (use Cons in auto)
qed simp

lemma sm_Forward_is:
  assumes "sm_rep f m"
  shows "\<exists>m'. sm_Forward t m = Ret (map f (filter (\<lambda>n. n < t) (nonces_of f)), m') \<and> sm_rep (f |` {n. t \<le> n}) m'"
proof -
  have r: "items_rep f m" "index_rep (dom f) (sm_index m)" "finite (dom f)"
    using assms items_rep_finite by (auto simp: sm_rep_def)
  let ?low = "filter (\<lambda>n. n < t) (nonces_of f)"
  let ?g = "f |` {n. t \<le> n}"
  have tw: "takeWhile (\<lambda>n. n < t) (sorted_list_of_set (dom f)) = ?low" "dropWhile (\<lambda>n. n < t) (nonces_of f) = filter (\<lambda>n. t \<le> n) (nonces_of f)"
    using filter_takeWhile_sorted [of "nonces_of f" t] r(3) by (simp_all add: nonces_of_def)
  have f: "map_of (sm_items m) = f" using r(1) by (simp add: items_rep_def)
  obtain index' where i: "sm_forward t (sm_index m) (sm_items m) [] = (map f ?low, index', fold AList.delete ?low (sm_items m))"
    "index_rep (dom f \<inter> {n. t \<le> n}) index'"
    using sm_forward_is [OF r(2), of t "sm_items m" "[]"] unfolding tw(1) f by auto
  have g: "?g = f |` (- set ?low)" using r(3) by (auto simp: nonces_of_def restrict_map_def fun_eq_iff not_less, metis option.exhaust)
  have d: "index_rep (dom ?g) index'" using i(2) by simp
  have "filter (\<lambda>n. t \<le> n) (nonces_of f) = drop (length ?low) (nonces_of f)"
    using tw by (metis dropWhile_eq_drop nonces_of_def)
  then have c: "drop (length ?low) (txs_of f) = txs_of ?g"
    by (simp add: txs_of_restrict [OF r(3)]) (simp add: txs_of_def drop_map)
  have l: "length ?low \<le> length (txs_of f)" by (simp add: txs_of_def)
  show ?thesis
  proof (cases "sm_cache m")
    case None
    then have e: "sm_Forward t m = Ret (map f ?low, m\<lparr>sm_items := fold AList.delete ?low (sm_items m), sm_cache := None, sm_index := index'\<rparr>)"
      using i(1) by (simp add: sm_Forward_def)
    show ?thesis using e items_rep_deletes [OF r(1) g, of None index'] d by (auto simp: sm_rep_def)
  next
    case (Some cache)
    then have "cache = txs_of f" using r(1) by (simp add: items_rep_def)
    then have e: "sm_Forward t m = Ret (map f ?low, m\<lparr>sm_items := fold AList.delete ?low (sm_items m), sm_cache := Some (txs_of ?g), sm_index := index'\<rparr>)"
    proof -
      have "slice (txs_of f) (length ?low) (length (txs_of f)) = Ret (txs_of ?g)" using l by (simp add: slice_def c [symmetric])
      then show ?thesis using i(1) Some \<open>cache = txs_of f\<close> by (simp add: sm_Forward_def)
    qed
    show ?thesis using e items_rep_deletes [OF r(1) g, of "Some (txs_of ?g)" index'] d by (auto simp: sm_rep_def)
  qed
qed

text \<open>Filtering, in any order of the map.\<close>

definition permutes_maps :: "map_order \<Rightarrow> bool" where
  "permutes_maps ord \<longleftrightarrow> (\<forall>items. mset (ord items) = mset items)"

lemma ord_facts:
  assumes "permutes_maps ord"
  shows "set (ord items) = set items" "distinct (map fst (ord items)) \<longleftrightarrow> distinct (map fst items)"
proof -
  have e: "mset (ord items) = mset items" using assms by (simp add: permutes_maps_def)
  then show "set (ord items) = set items" by (rule mset_eq_setD)
  have "mset (map fst (ord items)) = mset (map fst items)" using e by simp
  then show "distinct (map fst (ord items)) \<longleftrightarrow> distinct (map fst items)" by (rule mset_eq_imp_distinct_iff)
qed

lemma ord_txs:
  assumes "permutes_maps ord" "items_rep f m"
  shows "mset (map snd (ord (sm_items m))) = mset (txs_of f)"
proof -
  have f: "map_of (sm_items m) = f" "distinct (map fst (sm_items m))" using assms(2) by (simp_all add: items_rep_def)
  have snd: "map snd (sm_items m) = map (\<lambda>n. the (f n)) (map fst (sm_items m))"
    using f(2) unfolding f(1) [symmetric] map_map by (intro map_cong) (auto simp: map_of_is_SomeI)
  have "mset (map fst (sm_items m)) = mset (nonces_of f)"
    using f(2) items_rep_finite [OF assms(2)] f(1) dom_map_of_conv_image_fst [of "sm_items m"]
    by (subst set_eq_iff_mset_eq_distinct [symmetric]) (simp_all add: nonces_of_def)
  then have "image_mset (\<lambda>n. the (f n)) (mset (map fst (sm_items m))) = image_mset (\<lambda>n. the (f n)) (mset (nonces_of f))"
    by (rule arg_cong)
  then have "mset (map snd (sm_items m)) = mset (txs_of f)" by (simp only: snd txs_of_def mset_map)
  moreover have "mset (ord (sm_items m)) = mset (sm_items m)" using assms(1) by (simp add: permutes_maps_def)
  ultimately show ?thesis by (simp add: mset_map)
qed

lemma fold_delete_fst: "fold (\<lambda>(n, tx). AList.delete n) hits = fold AList.delete (map fst hits)"
  by (induction hits) (auto simp: fun_eq_iff)

lemma sm_filter_is:
  assumes "permutes_maps ord" "items_rep f m" "sm_filter ord P m = (removed, m')"
  shows "items_rep (f |` {n. \<not> P (the (f n))}) m' \<and> mset removed = mset (map Some (filter P (txs_of f))) \<and>
    (removed = [] \<longrightarrow> m' = m \<and> f |` {n. \<not> P (the (f n))} = f)"
proof -
  let ?hits = "filter (\<lambda>(n, tx). P tx) (ord (sm_items m))" and ?g = "f |` {n. \<not> P (the (f n))}"
  have f: "map_of (sm_items m) = f" "distinct (map fst (sm_items m))" using assms(2) by (simp_all add: items_rep_def)
  note o = ord_facts [OF assms(1), of "sm_items m"]
  have r: "removed = map (\<lambda>(n, tx). Some tx) ?hits"
    "m' = (let m = m\<lparr>sm_items := fold AList.delete (map fst ?hits) (sm_items m)\<rparr> in if removed \<noteq> [] then m\<lparr>sm_cache := None\<rparr> else m)"
  proof -
    have "removed = fst (sm_filter ord P m)" "m' = snd (sm_filter ord P m)" using assms(3) by simp_all
    then show r: "removed = map (\<lambda>(n, tx). Some tx) ?hits" by (simp add: sm_filter_def Let_def)
    show "m' = (let m = m\<lparr>sm_items := fold AList.delete (map fst ?hits) (sm_items m)\<rparr> in if removed \<noteq> [] then m\<lparr>sm_cache := None\<rparr> else m)"
      unfolding r \<open>m' = snd (sm_filter ord P m)\<close> by (simp add: sm_filter_def Let_def fold_delete_fst)
  qed
  have mem: "(n, tx) \<in> set (sm_items m) \<longleftrightarrow> f n = Some tx" for n tx using f by (metis map_of_eq_Some_iff)
  have "n \<in> fst ` {x \<in> set (sm_items m). P (snd x)} \<longleftrightarrow> (\<exists>tx. (n, tx) \<in> set (sm_items m) \<and> P tx)" for n by force
  then have "set (map fst ?hits) = {n. \<exists>tx. f n = Some tx \<and> P tx}" by (auto simp: o(1) mem case_prod_beta)
  then have g: "?g = f |` (- set (map fst ?hits))" by (auto simp: restrict_map_def fun_eq_iff)
  have e: "removed = map Some (filter P (map snd (ord (sm_items m))))"
    unfolding r(1) by (simp add: filter_map comp_def case_prod_unfold)
  then have "mset removed = image_mset Some (filter_mset P (mset (map snd (ord (sm_items m)))))" by simp
  then have m: "mset removed = mset (map Some (filter P (txs_of f)))" unfolding ord_txs [OF assms(1,2)] by simp
  show ?thesis
  proof (cases "removed = []")
    case True
    then have "filter P (txs_of f) = []" using m by simp
    then have "\<not> P (the (f n))" if "n \<in> dom f" for n
      using that items_rep_finite [OF assms(2)] by (auto simp: txs_of_def nonces_of_def filter_empty_conv)
    then have "?g = f" by (auto simp: restrict_map_def fun_eq_iff, metis domIff)
    moreover have "?hits = []" using True r(1) by simp
    then have "m' = m" using True r(2) by (simp add: Let_def)
    ultimately show ?thesis using assms(2) m by simp
  next
    case False
    then have "m' = m\<lparr>sm_items := fold AList.delete (map fst ?hits) (sm_items m), sm_cache := None, sm_index := sm_index m\<rparr>"
      using r(2) by (simp add: Let_def)
    then show ?thesis using items_rep_deletes [OF assms(2) g, of None "sm_index m"] m False by simp
  qed
qed

lemma sm_reheap_is:
  assumes "permutes_maps ord" "items_rep f m"
  shows "sm_rep f (sm_reheap ord m)"
proof -
  have f: "map_of (sm_items m) = f" "distinct (map fst (sm_items m))" using assms(2) by (simp_all add: items_rep_def)
  note o = ord_facts [OF assms(1), of "sm_items m"]
  let ?ks = "map fst (ord (sm_items m))"
  have "is_heap (heap_Init ?ks)" "mset (heap_Init ?ks) = mset ?ks" using heap_Init_spec by blast+
  then have "index_rep (dom f) (heap_Init ?ks)"
    using o f mset_eq_imp_distinct_iff [of "heap_Init ?ks" ?ks] mset_eq_setD [of "heap_Init ?ks" ?ks]
    dom_map_of_conv_image_fst [of "sm_items m"] by (simp add: index_rep_def)
  then show ?thesis using assms(2) by (simp add: sm_rep_def sm_reheap_def items_rep_def)
qed

lemma sm_Filter_is:
  assumes "permutes_maps ord" "sm_rep f m" "sm_Filter ord P m = (removed, m')"
  shows "sm_rep (f |` {n. \<not> P (the (f n))}) m' \<and> mset removed = mset (map Some (filter P (txs_of f)))"
proof -
  obtain m1 where m1: "sm_filter ord P m = (removed, m1)" "m' = (if removed \<noteq> [] then sm_reheap ord m1 else m1)"
    using assms(3) by (cases "sm_filter ord P m") (auto simp: sm_Filter_def)
  note f = sm_filter_is [OF assms(1) sm_rep_items [OF assms(2)] m1(1)]
  show ?thesis
  proof (cases "removed = []")
    case True
    then show ?thesis using f m1(2) assms(2) by auto
  next
    case False
    then show ?thesis using f m1(2) sm_reheap_is [OF assms(1)] by auto
  qed
qed

text \<open>Cutting off the highest nonces.\<close>

lemma sm_cap_is:
  assumes "0 \<le> t" "int n \<ge> t" "n \<le> length index" "distinct index"
  shows "sm_cap t n index items drops =
    Ret (drops @ map (map_of items) (rev (drop (nat t) (take n index))), fold AList.delete (rev (drop (nat t) (take n index))) items)"
  using assms
proof (induction n arbitrary: items drops)
  case (Suc k)
  show ?case
  proof (cases "int (Suc k) = t")
    case True
    then have "nat t = Suc k" by simp
    then show ?thesis using True by simp
  next
    case False
    then have k: "int k \<ge> t" "nat t \<le> k" "k < length index" using Suc.prems by simp_all
    have tk: "take (Suc k) index = take k index @ [index ! k]" using k(3) by (rule take_Suc_conv_app_nth)
    then have d: "drop (nat t) (take (Suc k) index) = drop (nat t) (take k index) @ [index ! k]" using k by simp
    have "index ! k \<notin> set (take k index)" using Suc.prems(4) tk by (metis distinct_append distinct_take disjoint_insert(2) list.simps(15))
    then have "map (map_of (AList.delete (index ! k) items)) (rev (drop (nat t) (take k index))) =
        map (map_of items) (rev (drop (nat t) (take k index)))"
      using set_drop_subset [of "nat t" "take k index"] by (intro map_cong) (auto simp: AList.delete_conv')
    then show ?thesis using Suc.IH [OF Suc.prems(1) k(1) _ Suc.prems(4)] k False Suc.prems(2) by (simp add: d nth_go_def)
  qed
qed simp

lemma sm_Cap_is:
  assumes "sm_rep f m" "0 \<le> t"
  shows "\<exists>m'. sm_Cap t m = Ret (map f (rev (drop (nat t) (nonces_of f))), m') \<and>
    sm_rep (f |` set (take (nat t) (nonces_of f))) m'"
proof -
  have r: "items_rep f m" "index_rep (dom f) (sm_index m)" "finite (dom f)"
    using assms items_rep_finite by (auto simp: sm_rep_def)
  let ?ns = "nonces_of f" and ?k = "nat t"
  let ?g = "f |` set (take ?k ?ns)"
  have f: "map_of (sm_items m) = f" using r(1) by (simp add: items_rep_def)
  have s: "sort (sm_index m) = ?ns" using index_sorted [OF r(2)] by (simp add: nonces_of_def)
  have l: "length (sm_items m) = length ?ns" by (rule items_rep_length [OF r(1)])
  have ns: "set ?ns = dom f" "sorted ?ns" "distinct ?ns" using nonces_of_facts [OF r(3)] by simp_all
  show ?thesis
  proof (cases "int (length ?ns) \<le> t")
    case True
    then have "?g = f" using ns(1) by (auto simp: restrict_map_def fun_eq_iff)
    then show ?thesis using True l assms(1) by (auto simp: sm_Cap_def)
  next
    case False
    let ?drops = "rev (drop ?k ?ns)"
    have cap: "sm_cap t (length (sm_items m)) ?ns (sm_items m) [] = Ret (map f ?drops, fold AList.delete ?drops (sm_items m))"
      using sm_cap_is [OF assms(2), of "length ?ns" ?ns "sm_items m" "[]"] False ns(3) by (simp add: l f)
    have "set ?ns = set (take ?k ?ns) \<union> set (drop ?k ?ns)" by (metis append_take_drop_id set_append)
    moreover have "set (take ?k ?ns) \<inter> set (drop ?k ?ns) = {}" using ns(3) by (metis append_take_drop_id distinct_append)
    ultimately have g: "?g = f |` (- set ?drops)"
      using ns(1) by (auto simp: restrict_map_def fun_eq_iff)
    have dom: "dom ?g = set (take ?k ?ns)" using ns(1) set_take_subset [of ?k ?ns] by auto
    have "index_rep (dom ?g) (take ?k ?ns)"
      using ns sorted_is_heap [OF ns(2)] unfolding index_rep_def dom by (simp add: is_heap_take)
    moreover have c: "take (length (txs_of f) - length (map f ?drops)) (txs_of f) = txs_of ?g"
    proof -
      have "nonces_of ?g = take ?k ?ns"
        unfolding nonces_of_def [of ?g] dom using ns
        by (intro sorted_list_of_set.idem_if_sorted_distinct) (simp_all add: sorted_wrt_take)
      moreover have "map (\<lambda>n. the (f n)) (take ?k ?ns) = map (\<lambda>n. the (?g n)) (take ?k ?ns)" by (intro map_cong) simp_all
      ultimately show ?thesis using False by (simp add: txs_of_def take_map)
    qed
    ultimately show ?thesis using items_rep_deletes [OF r(1) g] cap s r(1) False l
      by (cases "sm_cache m") (auto simp: sm_Cap_def Let_def sm_rep_def items_rep_def txs_of_def)
  qed
qed

lemma short_takeWhile: "n \<in> set xs \<Longrightarrow> length (takeWhile (\<lambda>k. k \<noteq> n) xs) < length xs"
  by (induction xs) auto

lemma sm_Remove_is:
  assumes "sm_rep f m"
  shows "\<exists>m'. sm_Remove n m = (f n \<noteq> None, m') \<and> sm_rep (f(n := None)) m'"
proof (cases "f n")
  case None
  then have "f(n := None) = f" by auto
  then show ?thesis using assms None by (auto simp: sm_Remove_def sm_rep_def items_rep_def)
next
  case (Some tx)
  have r: "items_rep f m" "is_heap (sm_index m)" "distinct (sm_index m)" "set (sm_index m) = dom f"
    using assms by (simp_all add: sm_rep_def index_rep_def)
  have f: "map_of (sm_items m) = f" using r(1) by (simp add: items_rep_def)
  let ?i = "length (takeWhile (\<lambda>k. k \<noteq> n) (sm_index m))"
  have n: "n \<in> set (sm_index m)" using Some r(4) by auto
  have i: "?i < length (sm_index m)" "sm_index m ! ?i = n"
    using short_takeWhile [OF n] nth_length_takeWhile [of "\<lambda>k. k \<noteq> n" "sm_index m"] by auto
  obtain x index' where h: "heap_Remove ?i (sm_index m) = (x, index')" by (cases "heap_Remove ?i (sm_index m)")
  have s: "x = n" "is_heap index'" "mset (sm_index m) = mset (x # index')" using heap_Remove_spec [OF r(2) i(1) h] i(2) by auto
  have d: "distinct (n # index')" "set (sm_index m) = set (n # index')"
    using mset_eq_imp_distinct_iff [OF s(3)] mset_eq_setD [OF s(3)] r(3) s(1) by simp_all
  then have "index_rep (dom (f(n := None))) index'" using s(2) r(4) by (auto simp: index_rep_def)
  moreover have "f(n := None) = f |` (- set [n])" by (auto simp: restrict_map_def fun_eq_iff)
  note items_rep_deletes [OF r(1) this, of None index']
  ultimately show ?thesis using Some f i h
    by (auto simp: sm_Remove_def Let_def sm_rep_def items_rep_def)
qed

text \<open>The longest run of consecutive nonces at the start of a sorted list.\<close>

fun run_of :: "u64 \<Rightarrow> u64 list \<Rightarrow> u64 list" where
  "run_of n [] = []"
| "run_of n (k # ks) = (if k = n then k # run_of (n + 1) ks else [])"

lemma run_of_subset: "set (run_of n ks) \<subseteq> set ks"
  by (induction ks arbitrary: n) auto

lemma sm_ready_is:
  "index_rep D index \<Longrightarrow> \<exists>index'. sm_ready n index items ready =
     (ready @ map (map_of items) (run_of n (sorted_list_of_set D)), index',
      fold AList.delete (run_of n (sorted_list_of_set D)) items) \<and>
     index_rep (D - set (run_of n (sorted_list_of_set D))) index'"
proof (induction "card D" arbitrary: D index items ready n)
  case 0
  have "finite D" using 0(2) by (auto simp: index_rep_def)
  then have "D = {}" using 0(1) by simp
  then show ?case using 0(2) by (subst sm_ready.simps) (auto simp: index_rep_def)
next
  case (Suc c)
  have f: "finite D" "D \<noteq> {}" using Suc.prems Suc.hyps(2) by (auto simp: index_rep_def)
  obtain index' where p: "heap_Pop index = (index ! 0, index')" "index_rep (D - {index ! 0}) index'"
    "sorted_list_of_set D = index ! 0 # sorted_list_of_set (D - {index ! 0})"
    by (rule index_pop [OF Suc.prems f(2)])
  have i: "index \<noteq> []" "index ! 0 \<in> D" using index_top [OF Suc.prems f(2)] set_sorted_list_of_set [OF f(1)] p(3)
    by (simp, metis list.set_intros(1))
  show ?case
  proof (cases "index ! 0 = n")
    case True
    define E where "E = D - {n}"
    have E: "card E = c" "index_rep E index'" "sorted_list_of_set D = n # sorted_list_of_set E"
      using Suc.hyps(2) i f p(2,3) True by (simp_all add: E_def)
    obtain index'' where r: "sm_ready (n + 1) index' (AList.delete n items) (ready @ [map_of items n]) =
       ((ready @ [map_of items n]) @ map (map_of (AList.delete n items)) (run_of (n + 1) (sorted_list_of_set E)), index'',
        fold AList.delete (run_of (n + 1) (sorted_list_of_set E)) (AList.delete n items))"
      "index_rep (E - set (run_of (n + 1) (sorted_list_of_set E))) index''"
      using Suc.hyps(1) [OF E(1) [symmetric] E(2)] by blast
    have "set (run_of (n + 1) (sorted_list_of_set E)) \<subseteq> E" using run_of_subset [of "n + 1" "sorted_list_of_set E"] f by (simp add: E_def)
    then have "map (map_of (AList.delete n items)) (run_of (n + 1) (sorted_list_of_set E)) =
        map (map_of items) (run_of (n + 1) (sorted_list_of_set E))"
      by (intro map_cong) (auto simp: AList.delete_conv' E_def)
    moreover have "E - set (run_of (n + 1) (sorted_list_of_set E)) = D - set (run_of n (sorted_list_of_set D))"
      by (auto simp: E(3) E_def)
    moreover have "sm_ready n index items ready = sm_ready (n + 1) index' (AList.delete n items) (ready @ [map_of items n])"
      using True i p(1) by (subst sm_ready.simps) simp
    ultimately show ?thesis using r E(3) by simp
  next
    case False
    then show ?thesis using p(3) Suc.prems by (subst sm_ready.simps) simp
  qed
qed

text \<open>The nonces that are ready, from the least one up to the first gap, if it does not lie above the start.\<close>

definition ready_nonces :: "u64 \<Rightarrow> (u64 \<rightharpoonup> TxData) \<Rightarrow> u64 list" where
  "ready_nonces start f =
     (case nonces_of f of [] \<Rightarrow> [] | n # ns \<Rightarrow> if start < n then [] else run_of n (n # ns))"

lemma sm_Ready_is:
  assumes "sm_rep f m"
  shows "\<exists>m'. sm_Ready start m = (map f (ready_nonces start f), m') \<and> sm_rep (f |` (- set (ready_nonces start f))) m'"
proof -
  have r: "items_rep f m" "index_rep (dom f) (sm_index m)" "finite (dom f)"
    using assms items_rep_finite by (auto simp: sm_rep_def)
  have f: "map_of (sm_items m) = f" using r(1) by (simp add: items_rep_def)
  show ?thesis
  proof (cases "sm_index m = [] \<or> sm_index m ! 0 > start")
    case True
    then have "ready_nonces start f = []"
    proof (cases "dom f = {}")
      case False
      then show ?thesis using True index_top [OF r(2) False] by (auto simp: ready_nonces_def nonces_of_def split: list.split)
    qed (simp add: ready_nonces_def nonces_of_def)
    then show ?thesis using True assms by (auto simp: sm_Ready_def restrict_map_def)
  next
    case False
    then have ne: "dom f \<noteq> {}" using r(2) by (auto simp: index_rep_def)
    obtain n ns where ns: "nonces_of f = n # ns" "sm_index m ! 0 = n"
      using index_top [OF r(2) ne] ne r(3) by (cases "nonces_of f") (auto simp: nonces_of_def)
    let ?ks = "run_of n (n # ns)"
    have k: "ready_nonces start f = ?ks" using False ns by (simp add: ready_nonces_def)
    obtain index' where i: "sm_ready n (sm_index m) (sm_items m) [] = (map f ?ks, index', fold AList.delete ?ks (sm_items m))"
      "index_rep (dom f - set ?ks) index'"
      using sm_ready_is [OF r(2), of n "sm_items m" "[]"] ns(1) by (auto simp: nonces_of_def f)
    have "dom (f |` (- set ?ks)) = dom f - set ?ks" by auto
    then have "index_rep (dom (f |` (- set ?ks))) index'" using i(2) by (simp only:)
    moreover note items_rep_deletes [OF r(1) refl, of None ?ks index']
    ultimately show ?thesis using False i(1) ns(2) k by (auto simp: sm_Ready_def sm_rep_def items_rep_def)
  qed
qed

lemma sm_flatten_is:
  assumes "permutes_maps ord" "sm_rep f m"
  shows "\<exists>m'. sm_flatten ord m = (txs_of f, m') \<and> sm_rep f m'"
proof (cases "sm_cache m")
  case None
  have r: "items_rep f m" by (rule sm_rep_items [OF assms(2)])
  have n: "tx_Nonce (the (f n)) = n" if "n \<in> dom f" for n using r that by (auto simp: items_rep_def)
  have "map tx_Nonce (txs_of f) = nonces_of f"
    unfolding txs_of_def map_map using n nonces_of_facts [OF items_rep_finite [OF r]] by (intro map_idI) simp
  then have s: "sorted (map tx_Nonce (txs_of f))" "distinct (map tx_Nonce (txs_of f))"
    using nonces_of_facts [OF items_rep_finite [OF r]] by simp_all
  let ?c = "sort_key tx_Nonce (map snd (ord (sm_items m)))"
  have e: "mset ?c = mset (txs_of f)" using ord_txs [OF assms(1) r] by simp
  have "mset (map tx_Nonce ?c) = mset (map tx_Nonce (txs_of f))" using e by (simp only: mset_map)
  then have "distinct (map tx_Nonce ?c)" using s(2) mset_eq_imp_distinct_iff by blast
  moreover have "set ?c = set (txs_of f)" by (rule mset_eq_setD [OF e])
  ultimately have "?c = txs_of f"
    using s by (intro map_sorted_distinct_set_unique [of tx_Nonce]) (simp_all add: distinct_map del: set_sort)
  then show ?thesis using None assms(2) by (auto simp: sm_flatten_def sm_rep_def items_rep_def Let_def)
next
  case (Some c)
  then show ?thesis using assms(2) by (auto simp: sm_flatten_def sm_rep_def items_rep_def)
qed

section \<open>The costs\<close>

definition cost_of :: "(u64 \<rightharpoonup> TxData) \<Rightarrow> int" where
  "cost_of f = sum_list (map tx_Cost (txs_of f))"

lemma cost_of_sum: "finite (dom f) \<Longrightarrow> cost_of f = (\<Sum>n \<in> dom f. tx_Cost (the (f n)))"
  using nonces_of_facts [of f] by (simp add: cost_of_def txs_of_def comp_def sum_list_distinct_conv_sum_set)

lemma cost_of_split:
  assumes "finite (dom f)" "set ns \<subseteq> dom f" "distinct ns"
  shows "cost_of f = cost_of (f |` (- set ns)) + sum_list (map (\<lambda>n. tx_Cost (the (f n))) ns)"
proof -
  have d: "dom (f |` (- set ns)) = dom f - set ns" by auto
  have "(\<Sum>n \<in> dom f. tx_Cost (the (f n))) = (\<Sum>n \<in> dom f - set ns. tx_Cost (the (f n))) + (\<Sum>n \<in> set ns. tx_Cost (the (f n)))"
    by (rule sum.subset_diff [OF assms(2,1)])
  moreover have "(\<Sum>n \<in> dom f - set ns. tx_Cost (the (f n))) = cost_of (f |` (- set ns))"
    using assms(1) by (subst cost_of_sum) (auto simp: d intro!: sum.cong)
  ultimately show ?thesis using cost_of_sum [OF assms(1)] assms(3) by (simp add: sum_list_distinct_conv_sum_set)
qed

lemma cost_of_upd:
  assumes "finite (dom f)"
  shows "cost_of (f(n \<mapsto> tx)) = cost_of (f(n := None)) + tx_Cost tx"
proof -
  have "cost_of (f(n \<mapsto> tx)) = cost_of ((f(n \<mapsto> tx)) |` (- set [n])) + tx_Cost tx"
    using cost_of_split [of "f(n \<mapsto> tx)" "[n]"] assms by simp
  moreover have "(f(n \<mapsto> tx)) |` (- set [n]) = f(n := None)" by (auto simp: restrict_map_def fun_eq_iff)
  ultimately show ?thesis by simp
qed

text \<open>The total is the sum of the costs, and the caps bound every cost and every gas limit.\<close>

definition costs_rep :: "(u64 \<rightharpoonup> TxData) \<Rightarrow> tx_list \<Rightarrow> bool" where
  "costs_rep f l \<longleftrightarrow> finite (dom f) \<and> uint (tl_totalcost l) = cost_of f \<and> (\<forall>n tx. f n = Some tx \<longrightarrow> 0 \<le> tx_Cost tx)"

definition caps_rep :: "(u64 \<rightharpoonup> TxData) \<Rightarrow> tx_list \<Rightarrow> bool" where
  "caps_rep f l \<longleftrightarrow> (\<forall>n tx. f n = Some tx \<longrightarrow> tx_Cost tx \<le> uint (tl_costcap l) \<and> tx_Gas tx \<le> tl_gascap l)"

definition list_rep :: "bool \<Rightarrow> (u64 \<rightharpoonup> TxData) \<Rightarrow> tx_list \<Rightarrow> bool" where
  "list_rep strict f l \<longleftrightarrow> tl_strict l = strict \<and> sm_rep f (tl_txs l) \<and> costs_rep f l \<and> caps_rep f l"

lemma costs_rep_txs [simp]: "costs_rep f (l\<lparr>tl_txs := m\<rparr>) = costs_rep f l"
    "costs_rep f (l\<lparr>tl_costcap := c\<rparr>) = costs_rep f l" "costs_rep f (l\<lparr>tl_gascap := g\<rparr>) = costs_rep f l"
  by (simp_all add: costs_rep_def)

lemma caps_rep_txs [simp]: "caps_rep f (l\<lparr>tl_txs := m\<rparr>) = caps_rep f l" "caps_rep f (l\<lparr>tl_totalcost := t\<rparr>) = caps_rep f l"
  by (simp_all add: caps_rep_def)

lemma caps_rep_restrict: "caps_rep f l \<Longrightarrow> caps_rep (f |` A) l"
  by (auto simp: caps_rep_def restrict_map_def)

lemma caps_rep_fun_upd: "caps_rep f l \<Longrightarrow> caps_rep (f(n := None)) l"
  by (auto simp: caps_rep_def)

lemma cost_of_nonneg:
  assumes "finite (dom f)" "\<forall>n tx. f n = Some tx \<longrightarrow> 0 \<le> tx_Cost tx"
  shows "0 \<le> cost_of f"
proof -
  have "\<forall>n \<in> dom f. 0 \<le> tx_Cost (the (f n))" using assms(2) by fastforce
  then show ?thesis using assms(1) by (subst cost_of_sum) (auto intro!: sum_nonneg)
qed

lemma subTotalCost_is:
  assumes "\<forall>tx \<in> set txs. 0 \<le> tx_Cost tx" "sum_list (map tx_Cost txs) \<le> uint (tl_totalcost l)"
  shows "\<exists>c. subTotalCost (map Some txs) l = Ret (l\<lparr>tl_totalcost := c\<rparr>) \<and> uint c = uint (tl_totalcost l) - sum_list (map tx_Cost txs)"
  using assms
proof (induction txs arbitrary: l)
  case (Cons tx txs)
  have s: "0 \<le> sum_list (map tx_Cost txs)" using Cons.prems(1) by (intro sum_list_nonneg) auto
  then have c: "0 \<le> tx_Cost tx" "tx_Cost tx \<le> uint (tl_totalcost l)" using Cons.prems by auto
  have b: "uint (tl_totalcost l) < 2 ^ 256" using uint_bounded [of "tl_totalcost l"] by simp
  define w :: u256 where "w = word_of_int (tx_Cost tx)"
  have w: "uint w = tx_Cost tx" using c b by (simp add: w_def uint_word_of_int_eq take_bit_int_eq_self)
  have m: "MustFromBig (tx_Cost tx) = Ret w" using c b by (simp add: MustFromBig_def FromBig_def w_def)
  have d: "uint (tl_totalcost l - w) = uint (tl_totalcost l) - tx_Cost tx" using c(2) w by (simp add: uint_sub_if_size word_le_def)
  have "\<not> tl_totalcost l < w" using c(2) w by (simp add: word_less_def)
  then have e: "subTotalCost (map Some (tx # txs)) l = subTotalCost (map Some txs) (l\<lparr>tl_totalcost := tl_totalcost l - w\<rparr>)"
    by (simp add: deref_def m)
  show ?case unfolding e using Cons.IH [of "l\<lparr>tl_totalcost := tl_totalcost l - w\<rparr>"] Cons.prems d by auto
next
  case Nil
  have "l = l\<lparr>tl_totalcost := tl_totalcost l\<rparr>" by simp
  then show ?case by (metis diff_zero list.simps(8) subTotalCost.simps(1) sum_list.Nil)
qed

text \<open>Taking transactions out of the content and their costs out of the total.\<close>

lemma take_out:
  assumes "costs_rep f l" "set ns \<subseteq> dom f" "distinct ns" "mset ps = mset (map f ns)" "g = f |` (- set ns)"
  shows "\<exists>c. subTotalCost ps l = Ret (l\<lparr>tl_totalcost := c\<rparr>) \<and> costs_rep g (l\<lparr>tl_totalcost := c\<rparr>)"
proof -
  have nn: "\<exists>tx. f n = Some tx \<and> 0 \<le> tx_Cost tx" if nm: "n \<in> set ns" for n
  proof -
    obtain tx where "f n = Some tx" using assms(2) nm by blast
    then show ?thesis using assms(1) unfolding costs_rep_def by blast
  qed
  define txs where "txs = map the ps"
  have "set ps = f ` set ns" using mset_eq_setD [OF assms(4)] by simp
  then have el: "\<exists>tx. p = Some tx \<and> 0 \<le> tx_Cost tx" if "p \<in> set ps" for p using nn that by fastforce
  have "map (\<lambda>p. Some (the p)) ps = ps" using el by (intro map_idI) fastforce
  then have ps: "ps = map Some txs" by (simp add: txs_def comp_def)
  have pos: "\<forall>tx \<in> set txs. 0 \<le> tx_Cost tx" unfolding txs_def using el by fastforce
  have "mset (map tx_Cost txs) = image_mset tx_Cost (image_mset the (mset (map f ns)))"
    by (simp only: txs_def mset_map assms(4))
  then have "mset (map tx_Cost txs) = mset (map (\<lambda>n. tx_Cost (the (f n))) ns)"
    by (simp add: multiset.map_comp comp_def)
  then have s: "sum_list (map tx_Cost txs) = sum_list (map (\<lambda>n. tx_Cost (the (f n))) ns)" by (metis sum_mset_sum_list)
  have fin: "finite (dom f)" "uint (tl_totalcost l) = cost_of f" using assms(1) by (simp_all add: costs_rep_def)
  note cs = cost_of_split [OF fin(1) assms(2,3), folded assms(5)]
  have gpos: "\<forall>n tx. g n = Some tx \<longrightarrow> 0 \<le> tx_Cost tx" using assms(1,5) by (auto simp: costs_rep_def restrict_map_def split: if_splits)
  have gfin: "finite (dom g)" using fin(1) assms(5) by (auto intro: finite_subset [of _ "dom f"])
  obtain c where c: "subTotalCost (map Some txs) l = Ret (l\<lparr>tl_totalcost := c\<rparr>)"
    "uint c = uint (tl_totalcost l) - sum_list (map tx_Cost txs)"
    using subTotalCost_is [OF pos, of l] cs s cost_of_nonneg [OF gfin gpos] fin(2) by auto
  then have "costs_rep g (l\<lparr>tl_totalcost := c\<rparr>)" using gfin gpos cs s fin(2) by (simp add: costs_rep_def)
  then show ?thesis using c(1) ps by auto
qed

section \<open>The operations take out what they say\<close>

lemma restrict_compl_filter:
  assumes "finite (dom f)"
  shows "f |` (- set (filter Q (nonces_of f))) = f |` {n. \<not> Q n}"
  using nonces_of_facts [OF assms] by (auto simp: restrict_map_def fun_eq_iff domIff)

lemma restrict_compl_drop:
  assumes "finite (dom f)"
  shows "f |` (- set (rev (drop k (nonces_of f)))) = f |` set (take k (nonces_of f))"
proof -
  note ns = nonces_of_facts [OF assms]
  have "set (take k (nonces_of f)) \<inter> set (drop k (nonces_of f)) = {}" using ns by (simp add: set_take_disj_set_drop_if_distinct)
  moreover have "set (take k (nonces_of f)) \<union> set (drop k (nonces_of f)) = dom f" using ns by (metis append_take_drop_id set_append)
  ultimately show ?thesis by (auto simp: restrict_map_def fun_eq_iff domIff)
qed

lemma txs_of_filter: "map Some (filter P (txs_of f)) = map f (filter (\<lambda>n. P (the (f n))) (nonces_of f))" if "finite (dom f)"
proof -
  have "map Some (filter P (map (\<lambda>n. the (f n)) ns)) = map f (filter (\<lambda>n. P (the (f n))) ns)" if "set ns \<subseteq> dom f" for ns
    using that by (induction ns) auto
  then show ?thesis using nonces_of_facts [OF that] by (simp add: txs_of_def)
qed

lemma tl_Forward_is:
  assumes "list_rep strict f l"
  shows "\<exists>l'. tl_Forward t l = Ret (map f (filter (\<lambda>n. n < t) (nonces_of f)), l') \<and> list_rep strict (f |` {n. t \<le> n}) l'"
proof -
  let ?ns = "filter (\<lambda>n. n < t) (nonces_of f)"
  have r: "sm_rep f (tl_txs l)" "costs_rep f l" "caps_rep f l" "finite (dom f)" using assms by (auto simp: list_rep_def costs_rep_def)
  obtain m where m: "sm_Forward t (tl_txs l) = Ret (map f ?ns, m)" "sm_rep (f |` {n. t \<le> n}) m" using sm_Forward_is [OF r(1)] by blast
  have g: "f |` {n. t \<le> n} = f |` (- set ?ns)" unfolding restrict_compl_filter [OF r(4)] by (simp add: not_less)
  obtain c where "subTotalCost (map f ?ns) (l\<lparr>tl_txs := m\<rparr>) = Ret (l\<lparr>tl_txs := m, tl_totalcost := c\<rparr>)"
    "costs_rep (f |` {n. t \<le> n}) (l\<lparr>tl_txs := m, tl_totalcost := c\<rparr>)"
    using take_out [OF _ _ _ refl g, of "l\<lparr>tl_txs := m\<rparr>"] r(2) nonces_of_facts [OF r(4)] by auto
  then show ?thesis using m caps_rep_restrict [OF r(3)] assms by (auto simp: tl_Forward_def list_rep_def)
qed

lemma tl_Cap_is:
  assumes "list_rep strict f l" "0 \<le> t"
  shows "\<exists>l'. tl_Cap t l = Ret (map f (rev (drop (nat t) (nonces_of f))), l') \<and> list_rep strict (f |` set (take (nat t) (nonces_of f))) l'"
proof -
  let ?ns = "rev (drop (nat t) (nonces_of f))" and ?g = "f |` set (take (nat t) (nonces_of f))"
  have r: "sm_rep f (tl_txs l)" "costs_rep f l" "caps_rep f l" "finite (dom f)" using assms by (auto simp: list_rep_def costs_rep_def)
  obtain m where m: "sm_Cap t (tl_txs l) = Ret (map f ?ns, m)" "sm_rep ?g m" using sm_Cap_is [OF r(1) assms(2)] by blast
  have d: "set ?ns \<subseteq> dom f" "distinct ?ns" using nonces_of_facts [OF r(4)] by (auto dest: in_set_dropD)
  obtain c where "subTotalCost (map f ?ns) (l\<lparr>tl_txs := m\<rparr>) = Ret (l\<lparr>tl_txs := m, tl_totalcost := c\<rparr>)"
    "costs_rep ?g (l\<lparr>tl_txs := m, tl_totalcost := c\<rparr>)"
    using take_out [OF _ d refl restrict_compl_drop [OF r(4), symmetric], of "l\<lparr>tl_txs := m\<rparr>"] r(2) by auto
  then show ?thesis using m caps_rep_restrict [OF r(3)] assms by (auto simp: tl_Cap_def list_rep_def)
qed

lemma run_of_distinct: "distinct ks \<Longrightarrow> distinct (run_of n ks)"
  using run_of_subset by (induction ks arbitrary: n) fastforce+

lemma ready_nonces_facts:
  assumes "finite (dom f)"
  shows "set (ready_nonces start f) \<subseteq> dom f \<and> distinct (ready_nonces start f)"
proof (cases "nonces_of f")
  case (Cons n ns)
  have "set (run_of n (n # ns)) \<subseteq> set (n # ns)" "distinct (run_of n (n # ns))"
    by (rule run_of_subset, rule run_of_distinct) (use nonces_of_facts [OF assms] Cons in simp)
  then show ?thesis using nonces_of_facts [OF assms] Cons by (simp add: ready_nonces_def del: run_of.simps)
qed (simp add: ready_nonces_def)

lemma tl_Ready_is:
  assumes "list_rep strict f l"
  shows "\<exists>l'. tl_Ready start l = Ret (map f (ready_nonces start f), l') \<and> list_rep strict (f |` (- set (ready_nonces start f))) l'"
proof -
  let ?ns = "ready_nonces start f" and ?g = "f |` (- set (ready_nonces start f))"
  have r: "sm_rep f (tl_txs l)" "costs_rep f l" "caps_rep f l" "finite (dom f)" using assms by (auto simp: list_rep_def costs_rep_def)
  obtain m where m: "sm_Ready start (tl_txs l) = (map f ?ns, m)" "sm_rep ?g m" using sm_Ready_is [OF r(1)] by blast
  have d: "set ?ns \<subseteq> dom f" "distinct ?ns" using ready_nonces_facts [OF r(4)] by simp_all
  obtain c where "subTotalCost (map f ?ns) (l\<lparr>tl_txs := m\<rparr>) = Ret (l\<lparr>tl_txs := m, tl_totalcost := c\<rparr>)"
    "costs_rep ?g (l\<lparr>tl_txs := m, tl_totalcost := c\<rparr>)"
    using take_out [OF _ d refl refl, of "l\<lparr>tl_txs := m\<rparr>"] r(2) by auto
  then show ?thesis using m caps_rep_restrict [OF r(3)] assms by (auto simp: tl_Ready_def list_rep_def)
qed

section \<open>Removing and filtering\<close>

text \<open>The transactions above a nonce.\<close>

definition nonces_above :: "u64 \<Rightarrow> (u64 \<rightharpoonup> TxData) \<Rightarrow> u64 list" where
  "nonces_above n f = filter (\<lambda>k. n < k) (nonces_of f)"

lemma filtered_txs:
  assumes "items_rep f m" "mset removed = mset (map Some (filter (\<lambda>tx. Q (tx_Nonce tx)) (txs_of f)))"
  shows "mset removed = mset (map f (filter Q (nonces_of f)))" "f |` {n. \<not> Q (tx_Nonce (the (f n)))} = f |` {n. \<not> Q n}"
proof -
  have k: "\<forall>n \<in> dom f. tx_Nonce (the (f n)) = n" using assms(1) by (auto simp: items_rep_def)
  have "filter (\<lambda>n. Q (tx_Nonce (the (f n)))) (nonces_of f) = filter Q (nonces_of f)"
    using k nonces_of_facts [OF items_rep_finite [OF assms(1)]] by (intro filter_cong) auto
  then show "mset removed = mset (map f (filter Q (nonces_of f)))"
    using assms(2) unfolding txs_of_filter [OF items_rep_finite [OF assms(1)]] by simp
  show "f |` {n. \<not> Q (tx_Nonce (the (f n)))} = f |` {n. \<not> Q n}"
  proof (rule ext)
    fix x
    show "(f |` {n. \<not> Q (tx_Nonce (the (f n)))}) x = (f |` {n. \<not> Q n}) x"
    proof (cases "f x")
      case (Some tx)
      then have "tx_Nonce tx = x" using k [THEN bspec, of x] by auto
      then show ?thesis using Some by (simp add: restrict_map_def)
    qed (simp add: restrict_map_def)
  qed
qed

lemma tl_Remove_is:
  assumes "list_rep strict f l" "permutes_maps ord" "\<forall>old. f (tx_Nonce tx) = Some old \<longrightarrow> tx_Cost tx = tx_Cost old"
  defines "g \<equiv> f(tx_Nonce tx := None)"
  shows "\<exists>b txs l'. tl_Remove ord tx l = Ret ((b, txs), l') \<and> b = (f (tx_Nonce tx) \<noteq> None) \<and>
    mset txs = mset (if b \<and> strict then map g (nonces_above (tx_Nonce tx) g) else []) \<and>
    list_rep strict (if b \<and> strict then g |` {n. n \<le> tx_Nonce tx} else g) l'"
proof (cases "f (tx_Nonce tx)")
  case None
  then have "g = f" by (auto simp: g_def)
  obtain m where m: "sm_Remove (tx_Nonce tx) (tl_txs l) = (False, m)" "sm_rep f m"
    using sm_Remove_is [of f "tl_txs l" "tx_Nonce tx"] assms(1) None \<open>g = f\<close> by (auto simp: g_def list_rep_def)
  then show ?thesis using None assms(1) \<open>g = f\<close> by (auto simp: tl_Remove_def list_rep_def)
next
  case (Some old)
  let ?n = "tx_Nonce tx"
  have r: "sm_rep f (tl_txs l)" "costs_rep f l" "caps_rep f l" "finite (dom f)" "tl_strict l = strict"
    using assms(1) by (auto simp: list_rep_def costs_rep_def)
  obtain m where m: "sm_Remove ?n (tl_txs l) = (True, m)" "sm_rep g m"
    using sm_Remove_is [OF r(1), of ?n] Some by (auto simp: g_def)
  have g: "g = f |` (- set [?n])" by (auto simp: g_def restrict_map_def fun_eq_iff)
  have c: "tx_Cost tx = tx_Cost old" "0 \<le> tx_Cost old" using assms(3) Some r(2) by (auto simp: costs_rep_def)
  have "subTotalCost [Some tx] (l\<lparr>tl_txs := m\<rparr>) = subTotalCost [Some old] (l\<lparr>tl_txs := m\<rparr>)"
    using c by (simp add: deref_def)
  then obtain t where t: "subTotalCost [Some tx] (l\<lparr>tl_txs := m\<rparr>) = Ret (l\<lparr>tl_txs := m, tl_totalcost := t\<rparr>)"
    "costs_rep g (l\<lparr>tl_txs := m, tl_totalcost := t\<rparr>)"
    using take_out [of f "l\<lparr>tl_txs := m\<rparr>" "[?n]" "[Some old]" g] r(2) Some g by (auto simp del: subTotalCost.simps)
  let ?l = "l\<lparr>tl_txs := m, tl_totalcost := t\<rparr>"
  have caps: "caps_rep g ?l" using caps_rep_restrict [OF r(3)] g by simp
  show ?thesis
  proof (cases strict)
    case False
    then show ?thesis using m t r(5) Some caps by (auto simp: tl_Remove_def list_rep_def simp del: subTotalCost.simps)
  next
    case True
    let ?h = "g |` {n. n \<le> ?n}"
    have gf: "finite (dom g)" using t(2) by (simp add: costs_rep_def)
    obtain txs m2 where f: "sm_Filter ord (\<lambda>tx'. tx_Nonce tx' > ?n) m = (txs, m2)" by fastforce
    have q: "sm_rep ?h m2" "mset txs = mset (map g (nonces_above ?n g))"
      using sm_Filter_is [OF assms(2) m(2) f] filtered_txs [OF sm_rep_items [OF m(2)], of txs "\<lambda>k. ?n < k"]
      by (auto simp: nonces_above_def not_less)
    have d: "set (nonces_above ?n g) \<subseteq> dom g" "distinct (nonces_above ?n g)" "?h = g |` (- set (nonces_above ?n g))"
      using nonces_of_facts [OF gf] restrict_compl_filter [OF gf, of "\<lambda>k. ?n < k"] by (auto simp: nonces_above_def not_less)
    have "costs_rep g (?l\<lparr>tl_txs := m2\<rparr>)" using t(2) by (simp add: costs_rep_def)
    then obtain t2 where t2: "subTotalCost txs (?l\<lparr>tl_txs := m2\<rparr>) = Ret (?l\<lparr>tl_txs := m2, tl_totalcost := t2\<rparr>)"
      "costs_rep ?h (?l\<lparr>tl_txs := m2, tl_totalcost := t2\<rparr>)"
      using take_out [OF _ d(1,2) q(2) d(3), of "?l\<lparr>tl_txs := m2\<rparr>"] by auto
    have "tl_Remove ord tx l = Ret ((True, txs), ?l\<lparr>tl_txs := m2, tl_totalcost := t2\<rparr>)"
      using m(1) t(1) f t2(1) r(5) True by (simp add: tl_Remove_def del: subTotalCost.simps)
    moreover have "list_rep strict ?h (?l\<lparr>tl_txs := m2, tl_totalcost := t2\<rparr>)"
      using q(1) t2(2) caps_rep_restrict [OF caps] r(5) by (simp add: list_rep_def)
    ultimately show ?thesis using Some True q(2) by auto
  qed
qed

text \<open>The nonces of the transactions over a limit, and of those above the least of them.\<close>

definition over_limits :: "u256 \<Rightarrow> u64 \<Rightarrow> (u64 \<rightharpoonup> TxData) \<Rightarrow> u64 list" where
  "over_limits costLimit gasLimit f =
     filter (\<lambda>n. tx_Gas (the (f n)) > gasLimit \<or> tx_Cost (the (f n)) > uint costLimit) (nonces_of f)"

definition cut_off :: "bool \<Rightarrow> u64 list \<Rightarrow> (u64 \<rightharpoonup> TxData) \<Rightarrow> u64 list" where
  "cut_off strict over f = (if strict \<and> over \<noteq> [] then filter (\<lambda>n. hd over < n \<and> n \<notin> set over) (nonces_of f) else [])"

lemma lowest_nonce_is: "lowest_nonce (map Some txs) = Ret (Min (insert (- 1) (tx_Nonce ` set txs)))"
proof -
  have f: "fold (\<lambda>p r. go_bind r (\<lambda>lowest. go_bind (deref p) (\<lambda>tx. Ret (if lowest > tx_Nonce tx then tx_Nonce tx else lowest))))
      (map Some txs) (Ret a) = Ret (fold min (map tx_Nonce txs) a)" for a
    by (induction txs arbitrary: a) (auto simp: deref_def min_def)
  have "fold min (map tx_Nonce txs) (- 1) = Min (set (- 1 # map tx_Nonce txs))" by (rule Min.set_eq_fold [symmetric])
  then show ?thesis unfolding lowest_nonce_def f by simp
qed

lemma lowest_over:
  assumes "items_rep f m" "mset removed = mset (map f over)" "over \<noteq> []" "sorted over" "set over \<subseteq> dom f"
  shows "lowest_nonce removed = Ret (hd over)"
proof -
  define txs where "txs = map the removed"
  have s: "set removed = f ` set over" using mset_eq_setD [OF assms(2)] by simp
  have "map (\<lambda>p. Some (the p)) removed = removed" using s assms(5) by (intro map_idI) fastforce
  then have r: "removed = map Some txs" by (simp add: txs_def comp_def)
  have n: "tx_Nonce (the (f n)) = n" if "n \<in> set over" for n using assms(1,5) that by (auto simp: items_rep_def)
  have "tx_Nonce ` set txs = (\<lambda>n. tx_Nonce (the (f n))) ` set over" unfolding txs_def by (simp add: s image_image)
  also have "\<dots> = set over" using n by simp
  finally have "tx_Nonce ` set txs = set over" .
  moreover have "Min (insert (- 1) (set over)) = hd over"
    using assms(3,4) by (cases over) (auto intro!: Min_eqI simp: word_n1_ge)
  ultimately show ?thesis unfolding r lowest_nonce_is by simp
qed

lemma restrict_map_UNIV [simp]: "f |` UNIV = f"
  by (simp add: restrict_map_def)

lemma restrict_compl_union: "(f |` (- A)) |` (- B) = f |` (- (A \<union> B))"
  by (auto simp: restrict_map_def fun_eq_iff)

lemma over_limits_facts:
  assumes "finite (dom f)"
  shows "set (over_limits c g f) \<subseteq> dom f" "sorted (over_limits c g f)" "distinct (over_limits c g f)"
  using nonces_of_facts [OF assms] by (auto simp: over_limits_def sorted_wrt_filter)

lemma tl_Filter_nothing:
  assumes "list_rep strict f l" "over_limits c g f = []"
  shows "caps_rep f (l\<lparr>tl_costcap := c, tl_gascap := g\<rparr>)"
proof -
  have "finite (dom f)" using assms(1) by (auto simp: list_rep_def costs_rep_def)
  then have "\<forall>n \<in> dom f. tx_Cost (the (f n)) \<le> uint c \<and> tx_Gas (the (f n)) \<le> g"
    using assms(2) nonces_of_facts [of f] by (auto simp: over_limits_def filter_empty_conv not_less)
  then show ?thesis by (simp add: caps_rep_def) (metis domI option.sel)
qed

text \<open>The first filter of \<open>Filter\<close>, which leaves a proper map, and the second, which leaves its heap behind.\<close>

lemma tl_Filter_first:
  assumes "sm_rep f m" "permutes_maps ord" "sm_Filter ord (\<lambda>tx. tx_Gas tx > g \<or> tx_Cost tx > uint c) m = (removed, m1)"
  shows "sm_rep (f |` (- set (over_limits c g f))) m1 \<and> mset removed = mset (map f (over_limits c g f))"
proof -
  have fin: "finite (dom f)" by (rule items_rep_finite [OF sm_rep_items [OF assms(1)]])
  show ?thesis
    using sm_Filter_is [OF assms(2,1,3)] unfolding txs_of_filter [OF fin] over_limits_def restrict_compl_filter [OF fin] by simp
qed

lemma tl_Filter_second:
  assumes "sm_rep f1 m" "permutes_maps ord" "sm_filter ord (\<lambda>tx. tx_Nonce tx > n) m = (invalids, m2)"
  shows "items_rep (f1 |` (- set (nonces_above n f1))) m2 \<and> mset invalids = mset (map f1 (nonces_above n f1))"
proof -
  have r: "items_rep f1 m" by (rule sm_rep_items [OF assms(1)])
  show ?thesis
    using sm_filter_is [OF assms(2) r assms(3)] filtered_txs [OF r, of invalids "\<lambda>k. n < k"]
    unfolding nonces_above_def restrict_compl_filter [OF items_rep_finite [OF r]] by simp
qed

lemma above_cut:
  assumes "finite (dom f)" "over \<noteq> []"
  defines "f1 \<equiv> f |` (- set over)"
  shows "nonces_above (hd over) f1 = cut_off True over f" "map f1 (nonces_above (hd over) f1) = map f (cut_off True over f)"
proof -
  show e: "nonces_above (hd over) f1 = cut_off True over f"
    using assms(2) unfolding f1_def nonces_above_def cut_off_def nonces_of_restrict [OF assms(1)] by (auto intro: filter_cong)
  show "map f1 (nonces_above (hd over) f1) = map f (cut_off True over f)"
    unfolding e by (auto simp: f1_def cut_off_def)
qed

lemma tl_Filter_is:
  fixes c :: u256 and g :: u64
  assumes "list_rep strict f l" "permutes_maps ord"
  defines "over \<equiv> over_limits c g f"
  shows "\<exists>removed invalids l'. tl_Filter ord c g l = Ret ((removed, invalids), l') \<and> mset removed = mset (map f over) \<and>
    mset invalids = mset (map f (cut_off strict over f)) \<and> list_rep strict (f |` (- (set over \<union> set (cut_off strict over f)))) l'"
proof (cases "tl_costcap l \<le> c \<and> tl_gascap l \<le> g")
  case True
  have r: "caps_rep f l" "finite (dom f)" using assms(1) by (auto simp: list_rep_def costs_rep_def)
  have "tx_Cost (the (f n)) \<le> uint c \<and> tx_Gas (the (f n)) \<le> g" if "n \<in> dom f" for n
    using r(1) True that by (fastforce simp: caps_rep_def word_le_def)
  then have "over = []"
    using nonces_of_facts [OF r(2)] by (auto simp: over_def over_limits_def filter_empty_conv not_less)
  then show ?thesis using True assms(1) by (auto simp: tl_Filter_def cut_off_def)
next
  case False
  let ?l = "l\<lparr>tl_costcap := c, tl_gascap := g\<rparr>"
  have r: "sm_rep f (tl_txs l)" "costs_rep f l" "finite (dom f)" "tl_strict l = strict"
    using assms(1) by (auto simp: list_rep_def costs_rep_def)
  obtain removed m1 where f1: "sm_Filter ord (\<lambda>tx. tx_Gas tx > g \<or> tx_Cost tx > uint c) (tl_txs l) = (removed, m1)" by fastforce
  let ?f1 = "f |` (- set over)"
  have m1: "sm_rep ?f1 m1" "mset removed = mset (map f over)"
    using tl_Filter_first [OF r(1) assms(2) f1] by (simp_all add: over_def)
  have o: "set over \<subseteq> dom f" "sorted over" "distinct over" unfolding over_def using over_limits_facts [OF r(3)] by blast+
  have len: "removed = [] \<longleftrightarrow> over = []" using m1(2) by (metis map_is_Nil_conv mset_zero_iff)
  show ?thesis
  proof (cases "over = []")
    case True
    have "tl_Filter ord c g l = Ret (([], []), ?l\<lparr>tl_txs := m1\<rparr>)" using False f1 len True by (auto simp: tl_Filter_def Let_def)
    moreover have "list_rep strict f (?l\<lparr>tl_txs := m1\<rparr>)"
      using m1(1) True r tl_Filter_nothing [OF assms(1) True [unfolded over_def]]
      by (simp add: list_rep_def costs_rep_def caps_rep_def)
    ultimately show ?thesis using True by (auto simp: cut_off_def)
  next
    case ne: False
    let ?cut = "cut_off strict over f" and ?g = "f |` (- (set over \<union> set (cut_off strict over f)))"
    obtain invalids m2 where f2: "(if strict then sm_filter ord (\<lambda>tx. tx_Nonce tx > hd over) m1 else ([], m1)) = (invalids, m2)"
      by fastforce
    have m2: "items_rep ?g m2" "mset invalids = mset (map f ?cut)"
    proof -
      note cut = above_cut [OF r(3) ne]
      have "items_rep ?g m2 \<and> mset invalids = mset (map f ?cut)"
      proof (cases strict)
        case True
        then have "sm_filter ord (\<lambda>tx. tx_Nonce tx > hd over) m1 = (invalids, m2)" using f2 by simp
        from tl_Filter_second [OF m1(1) assms(2) this] show ?thesis
          unfolding cut(2) unfolding cut(1) restrict_compl_union using True by simp
      next
        case False
        then show ?thesis using f2 sm_rep_items [OF m1(1)] by (simp add: cut_off_def)
      qed
      then show "items_rep ?g m2" "mset invalids = mset (map f ?cut)" by blast+
    qed
    have "costs_rep f (?l\<lparr>tl_txs := m2\<rparr>)" using r(2) by (simp add: costs_rep_def)
    then obtain t1 where t1: "subTotalCost removed (?l\<lparr>tl_txs := m2\<rparr>) = Ret (?l\<lparr>tl_txs := m2, tl_totalcost := t1\<rparr>)"
      "costs_rep ?f1 (?l\<lparr>tl_txs := m2, tl_totalcost := t1\<rparr>)"
      using take_out [OF _ o(1,3) m1(2) refl, of "?l\<lparr>tl_txs := m2\<rparr>"] by auto
    have cut: "set ?cut \<subseteq> dom ?f1" "distinct ?cut" "map f ?cut = map ?f1 ?cut"
      using nonces_of_facts [OF r(3)] by (auto simp: cut_off_def)
    obtain t2 where t2: "subTotalCost invalids (?l\<lparr>tl_txs := m2, tl_totalcost := t1\<rparr>) = Ret (?l\<lparr>tl_txs := m2, tl_totalcost := t2\<rparr>)"
      "costs_rep ?g (?l\<lparr>tl_txs := m2, tl_totalcost := t2\<rparr>)"
      using take_out [OF t1(2) cut(1,2) m2(2) [unfolded cut(3)] restrict_compl_union [symmetric]] by auto
    have low: "lowest_nonce removed = Ret (hd over)"
      by (rule lowest_over [OF sm_rep_items [OF r(1)] m1(2) ne o(2,1)])
    let ?l' = "?l\<lparr>tl_txs := sm_reheap ord m2, tl_totalcost := t2\<rparr>"
    have "tl_Filter ord c g l = Ret ((removed, invalids), ?l')"
      using False f1 f2 t1(1) t2(1) low len ne r(4) by (simp add: tl_Filter_def Let_def split: if_splits)
    moreover have "list_rep strict ?g ?l'"
    proof -
      have "costs_rep ?g ?l'" using t2(2) by (simp add: costs_rep_def)
      moreover have "caps_rep ?g ?l'"
        using nonces_of_facts [OF r(3)]
        by (auto simp: caps_rep_def over_def over_limits_def restrict_map_def not_less split: if_splits)
      ultimately show ?thesis using sm_reheap_is [OF assms(2) m2(1)] r(4) by (simp add: list_rep_def)
    qed
    ultimately show ?thesis using m1(2) m2(2) by blast
  qed
qed

section \<open>Adding\<close>

lemma tl_put_is:
  assumes "tl_strict l = strict" "sm_rep f (tl_txs l)" "costs_rep (f(tx_Nonce tx := None)) l" "caps_rep (f(tx_Nonce tx := None)) l"
    "0 \<le> tx_Cost tx" "cost_of (f(tx_Nonce tx \<mapsto> tx)) < 2 ^ 256"
  shows "\<exists>l'. tl_put tx old l = ((True, old), l') \<and> list_rep strict (f(tx_Nonce tx \<mapsto> tx)) l'"
proof -
  let ?n = "tx_Nonce tx" and ?g = "f(tx_Nonce tx \<mapsto> tx)" and ?h = "f(tx_Nonce tx := None)"
  have h: "finite (dom f)" "uint (tl_totalcost l) = cost_of ?h" "\<forall>n t. ?h n = Some t \<longrightarrow> 0 \<le> tx_Cost t"
    using assms(2,3) items_rep_finite sm_rep_items by (auto simp: costs_rep_def)
  have s: "cost_of ?g = cost_of ?h + tx_Cost tx" by (rule cost_of_upd [OF h(1)])
  have "0 \<le> cost_of ?h" by (rule cost_of_nonneg [OF _ h(3)]) (use h(1) in simp)
  then have c: "tx_Cost tx < 2 ^ 256" "cost_of ?h + tx_Cost tx < 2 ^ 256" using assms(6) s by simp_all
  define w :: u256 where "w = word_of_int (tx_Cost tx)"
  have w: "uint w = tx_Cost tx" using c assms(5) by (simp add: w_def uint_word_of_int_eq take_bit_int_eq_self)
  have b: "FromBig (tx_Cost tx) = (w, False)" using c assms(5) by (simp add: FromBig_def w_def)
  have t: "uint (tl_totalcost l + w) = cost_of ?g" using c(2) w h(2) s by (simp add: uint_plus_if_size word_size)
  define l' where "l' = snd (tl_put tx old l)"
  have l': "tl_put tx old l = ((True, old), l')" by (simp add: l'_def tl_put_def b Let_def)
  have f: "tl_txs l' = sm_Put tx (tl_txs l)" "tl_totalcost l' = tl_totalcost l + w" "tl_strict l' = tl_strict l"
    "tl_costcap l' = max (tl_costcap l) w" "tl_gascap l' = max (tl_gascap l) (tx_Gas tx)"
    by (auto simp: l'_def tl_put_def b Let_def max_def)
  have "costs_rep ?g l'" using t f(2) h(1,3) assms(5) by (auto simp: costs_rep_def split: if_splits)
  moreover have "caps_rep ?g l'"
    using assms(4) w unfolding caps_rep_def f by (auto simp: max_def word_le_def split: if_splits) (fastforce+)?
  ultimately show ?thesis using l' f(1,3) assms(1) sm_Put_rep [OF assms(2), of tx] by (simp add: list_rep_def)
qed

text \<open>A transaction gets in when its nonce is free or it outbids the one it replaces.\<close>

definition gets_in :: "TxData \<Rightarrow> u64 \<Rightarrow> (u64 \<rightharpoonup> TxData) \<Rightarrow> bool" where
  "gets_in tx bump f = (case f (tx_Nonce tx) of None \<Rightarrow> True | Some old \<Rightarrow> outbids tx old bump)"

lemma tl_Add_is:
  assumes "list_rep strict f l" "0 \<le> tx_Cost tx" "gets_in tx bump f \<longrightarrow> cost_of (f(tx_Nonce tx \<mapsto> tx)) < 2 ^ 256"
  shows "\<exists>l'. tl_Add tx bump l = Ret (if gets_in tx bump f then (True, f (tx_Nonce tx)) else (False, None), l') \<and>
    list_rep strict (if gets_in tx bump f then f(tx_Nonce tx \<mapsto> tx) else f) l'"
proof -
  let ?n = "tx_Nonce tx"
  have r: "sm_rep f (tl_txs l)" "costs_rep f l" "caps_rep f l" "finite (dom f)" "tl_strict l = strict"
    using assms(1) by (auto simp: list_rep_def costs_rep_def)
  have get: "sm_Get ?n (tl_txs l) = f ?n" by (rule sm_Get_is [OF sm_rep_items [OF r(1)]])
  show ?thesis
  proof (cases "f ?n")
    case None
    then have "f(?n := None) = f" "cost_of (f(?n \<mapsto> tx)) < 2 ^ 256" using assms(3) by (auto simp: gets_in_def)
    then show ?thesis using tl_put_is [OF r(5,1) _ _ assms(2), of None] r(2,3) None get by (auto simp: tl_Add_def gets_in_def)
  next
    case (Some old)
    show ?thesis
    proof (cases "outbids tx old bump")
      case False
      then show ?thesis using Some get assms(1) by (simp add: tl_Add_def gets_in_def)
    next
      case True
      have g: "f(?n := None) = f |` (- set [?n])" by (auto simp: restrict_map_def fun_eq_iff)
      obtain t where t: "subTotalCost [Some old] l = Ret (l\<lparr>tl_totalcost := t\<rparr>)" "costs_rep (f(?n := None)) (l\<lparr>tl_totalcost := t\<rparr>)"
        using take_out [OF r(2) _ _ _ g, of "[Some old]"] Some by (auto simp del: subTotalCost.simps)
      have "caps_rep (f(?n := None)) (l\<lparr>tl_totalcost := t\<rparr>)" using caps_rep_fun_upd [OF r(3)] by simp
      then obtain l' where "tl_put tx (Some old) (l\<lparr>tl_totalcost := t\<rparr>) = ((True, Some old), l')" "list_rep strict (f(?n \<mapsto> tx)) l'"
        using tl_put_is [OF _ _ t(2) _ assms(2), of strict "Some old"] r(1,5) assms(3) Some True by (auto simp: gets_in_def)
      then show ?thesis using Some get t(1) True by (auto simp: tl_Add_def gets_in_def simp del: subTotalCost.simps)
    qed
  qed
qed

text \<open>The accounting that \<open>Add\<close> does wrongly: the costs of a replacement that does not fit into 256 bits.\<close>

lemma refused_replacement_drops_cost:
  assumes "list_rep strict f l" "f (tx_Nonce tx) = Some old" "outbids tx old bump" "2 ^ 256 \<le> tx_Cost tx" "0 < tx_Cost old"
  shows "\<exists>l'. tl_Add tx bump l = Ret ((False, None), l') \<and> tl_txs l' = tl_txs l \<and>
    uint (tl_totalcost l') = cost_of f - tx_Cost old"
proof -
  have r: "costs_rep f l" "sm_Get (tx_Nonce tx) (tl_txs l) = Some old"
    using assms(1,2) sm_Get_is [OF sm_rep_items] by (auto simp: list_rep_def)
  let ?n = "tx_Nonce tx"
  have fin: "finite (dom f)" "uint (tl_totalcost l) = cost_of f" using r(1) by (simp_all add: costs_rep_def)
  have g: "f(?n := None) = f |` (- set [?n])" by (auto simp: restrict_map_def fun_eq_iff)
  obtain t where t: "subTotalCost [Some old] l = Ret (l\<lparr>tl_totalcost := t\<rparr>)" "costs_rep (f(?n := None)) (l\<lparr>tl_totalcost := t\<rparr>)"
    using take_out [OF r(1) _ _ _ g, of "[Some old]"] assms(2) by (auto simp del: subTotalCost.simps)
  have "cost_of f = cost_of (f(?n := None)) + tx_Cost old"
    using cost_of_upd [OF fin(1), of ?n old] assms(2) by (simp add: fun_upd_idem)
  then have "uint t = cost_of f - tx_Cost old" using t(2) by (simp add: costs_rep_def)
  moreover have "tl_put tx (Some old) (l\<lparr>tl_totalcost := t\<rparr>) = ((False, None), l\<lparr>tl_totalcost := t\<rparr>)"
    using assms(4) by (simp add: tl_put_def FromBig_def)
  ultimately show ?thesis using r(2) assms(3) t(1) by (simp add: tl_Add_def del: subTotalCost.simps)
qed

section \<open>Programs over a list\<close>

datatype list_op = AddTx TxData u64 | ForwardTo u64 | FilterBy u256 u64 | CapTo int | RemoveTx TxData | ReadyFrom u64
  | FlattenAll | LastTx | HasNonce u64 | CountTxs

datatype list_out = Added bool "TxData option" | Taken "TxData option list" | Filtered "TxData option list" "TxData option list"
  | Removed bool "TxData option list" | Content "TxData list" | LastIs TxData | Known bool | Count nat

fun run_list_op :: "map_order \<Rightarrow> list_op \<Rightarrow> tx_list \<Rightarrow> (list_out \<times> tx_list) go" where
  "run_list_op ord (AddTx tx bump) l = go_bind (tl_Add tx bump l) (\<lambda>((b, old), l). Ret (Added b old, l))"
| "run_list_op ord (ForwardTo t) l = go_bind (tl_Forward t l) (\<lambda>(txs, l). Ret (Taken txs, l))"
| "run_list_op ord (FilterBy c g) l = go_bind (tl_Filter ord c g l) (\<lambda>((removed, invalids), l). Ret (Filtered removed invalids, l))"
| "run_list_op ord (CapTo t) l = go_bind (tl_Cap t l) (\<lambda>(txs, l). Ret (Taken txs, l))"
| "run_list_op ord (RemoveTx tx) l = go_bind (tl_Remove ord tx l) (\<lambda>((b, txs), l). Ret (Removed b txs, l))"
| "run_list_op ord (ReadyFrom start) l = go_bind (tl_Ready start l) (\<lambda>(txs, l). Ret (Taken txs, l))"
| "run_list_op ord FlattenAll l = (case tl_Flatten ord l of (txs, l) \<Rightarrow> Ret (Content txs, l))"
| "run_list_op ord LastTx l = go_bind (tl_LastElement ord l) (\<lambda>(tx, l). Ret (LastIs tx, l))"
| "run_list_op ord (HasNonce n) l = Ret (Known (tl_Contains n l), l)"
| "run_list_op ord CountTxs l = Ret (Count (tl_Len l), l)"

fun run_list_ops :: "(map_order \<times> list_op) list \<Rightarrow> tx_list \<Rightarrow> (list_out list \<times> tx_list) go" where
  "run_list_ops [] l = Ret ([], l)"
| "run_list_ops ((ord, op) # ops) l =
     go_bind (run_list_op ord op l) (\<lambda>(out, l). go_bind (run_list_ops ops l) (\<lambda>(outs, l). Ret (out # outs, l)))"

text \<open>What the operations mean for the transactions by nonce.\<close>

fun spec_op :: "bool \<Rightarrow> list_op \<Rightarrow> (u64 \<rightharpoonup> TxData) \<Rightarrow> list_out \<times> (u64 \<rightharpoonup> TxData)" where
  "spec_op strict (AddTx tx bump) f =
     (if gets_in tx bump f then (Added True (f (tx_Nonce tx)), f(tx_Nonce tx \<mapsto> tx)) else (Added False None, f))"
| "spec_op strict (ForwardTo t) f = (Taken (map f (filter (\<lambda>n. n < t) (nonces_of f))), f |` {n. t \<le> n})"
| "spec_op strict (FilterBy c g) f =
     (let over = over_limits c g f; cut = cut_off strict over f
      in (Filtered (map f over) (map f cut), f |` (- (set over \<union> set cut))))"
| "spec_op strict (CapTo t) f =
     (Taken (map f (rev (drop (nat t) (nonces_of f)))), f |` set (take (nat t) (nonces_of f)))"
| "spec_op strict (RemoveTx tx) f =
     (let n = tx_Nonce tx; g = f(n := None); b = (f n \<noteq> None)
      in (Removed b (if b \<and> strict then map g (nonces_above n g) else []), if b \<and> strict then g |` {k. k \<le> n} else g))"
| "spec_op strict (ReadyFrom start) f = (Taken (map f (ready_nonces start f)), f |` (- set (ready_nonces start f)))"
| "spec_op strict FlattenAll f = (Content (txs_of f), f)"
| "spec_op strict LastTx f = (LastIs (last (txs_of f)), f)"
| "spec_op strict (HasNonce n) f = (Known (f n \<noteq> None), f)"
| "spec_op strict CountTxs f = (Count (card (dom f)), f)"

fun spec_ops :: "bool \<Rightarrow> list_op list \<Rightarrow> (u64 \<rightharpoonup> TxData) \<Rightarrow> list_out list \<times> (u64 \<rightharpoonup> TxData)" where
  "spec_ops strict [] f = ([], f)"
| "spec_ops strict (op # ops) f =
     (case spec_op strict op f of (out, f) \<Rightarrow> case spec_ops strict ops f of (outs, f) \<Rightarrow> (out # outs, f))"

text \<open>What the pool sees to: costs are not negative and their sum fits, and only transactions of the list are removed.\<close>

fun list_op_ok :: "list_op \<Rightarrow> (u64 \<rightharpoonup> TxData) \<Rightarrow> bool" where
  "list_op_ok (AddTx tx bump) f \<longleftrightarrow> 0 \<le> tx_Cost tx \<and> (gets_in tx bump f \<longrightarrow> cost_of (f(tx_Nonce tx \<mapsto> tx)) < 2 ^ 256)"
| "list_op_ok (CapTo t) f \<longleftrightarrow> 0 \<le> t"
| "list_op_ok (RemoveTx tx) f \<longleftrightarrow> f (tx_Nonce tx) \<in> {None, Some tx}"
| "list_op_ok LastTx f \<longleftrightarrow> dom f \<noteq> {}"
| "list_op_ok _ f \<longleftrightarrow> True"

fun list_ops_ok :: "bool \<Rightarrow> list_op list \<Rightarrow> (u64 \<rightharpoonup> TxData) \<Rightarrow> bool" where
  "list_ops_ok strict [] f \<longleftrightarrow> True"
| "list_ops_ok strict (op # ops) f \<longleftrightarrow> list_op_ok op f \<and> list_ops_ok strict ops (snd (spec_op strict op f))"

text \<open>The lists of \<open>Filter\<close> and \<open>Remove\<close> come in the order of a map.\<close>

fun same_out :: "list_out \<Rightarrow> list_out \<Rightarrow> bool" where
  "same_out (Filtered a b) (Filtered c d) \<longleftrightarrow> mset a = mset c \<and> mset b = mset d"
| "same_out (Removed a b) (Removed c d) \<longleftrightarrow> a = c \<and> mset b = mset d"
| "same_out x y \<longleftrightarrow> x = y"

lemma tl_Flatten_is:
  assumes "list_rep strict f l" "permutes_maps ord"
  shows "\<exists>l'. tl_Flatten ord l = (txs_of f, l') \<and> list_rep strict f l'"
  using sm_flatten_is [OF assms(2), of f "tl_txs l"] assms(1) by (auto simp: tl_Flatten_def sm_Flatten_def list_rep_def)

lemma tl_LastElement_is:
  assumes "list_rep strict f l" "permutes_maps ord" "dom f \<noteq> {}"
  shows "\<exists>l'. tl_LastElement ord l = Ret (last (txs_of f), l') \<and> list_rep strict f l'"
proof -
  have "finite (dom f)" using assms(1) by (simp add: list_rep_def costs_rep_def)
  then have "txs_of f \<noteq> []" using nonces_of_facts [of f] assms(3) unfolding txs_of_def by (metis empty_set map_is_Nil_conv)
  then show ?thesis using sm_flatten_is [OF assms(2), of f "tl_txs l"] assms(1)
    by (auto simp: tl_LastElement_def sm_LastElement_def list_rep_def)
qed

lemma tl_reads_are:
  assumes "list_rep strict f l"
  shows "tl_Contains n l = (f n \<noteq> None)" "tl_Len l = card (dom f)"
proof -
  have r: "items_rep f (tl_txs l)" using assms sm_rep_items by (auto simp: list_rep_def)
  show "tl_Contains n l = (f n \<noteq> None)" using sm_Get_is [OF r] by (simp add: tl_Contains_def)
  show "tl_Len l = card (dom f)" using items_rep_length [OF r] items_rep_finite [OF r]
    by (simp add: tl_Len_def sm_Len_def nonces_of_def)
qed

lemma run_list_op_refines:
  assumes "list_rep strict f l" "permutes_maps ord" "list_op_ok op f"
  shows "\<exists>out l'. run_list_op ord op l = Ret (out, l') \<and> same_out out (fst (spec_op strict op f)) \<and> list_rep strict (snd (spec_op strict op f)) l'"
proof (cases op)
  case (AddTx tx bump)
  then show ?thesis using tl_Add_is [OF assms(1), of tx bump] assms(3) by (auto split: if_splits)
next
  case (ForwardTo t)
  then show ?thesis using tl_Forward_is [OF assms(1), of t] by auto
next
  case (FilterBy c g)
  then show ?thesis using tl_Filter_is [OF assms(1,2), of c g] by (fastforce simp: Let_def)
next
  case (CapTo t)
  then show ?thesis using tl_Cap_is [OF assms(1), of t] assms(3) by auto
next
  case (RemoveTx tx)
  then show ?thesis using tl_Remove_is [OF assms(1,2), of tx] assms(3) by (fastforce simp: Let_def)
next
  case (ReadyFrom start)
  then show ?thesis using tl_Ready_is [OF assms(1), of start] by auto
next
  case FlattenAll
  then show ?thesis using tl_Flatten_is [OF assms(1,2)] by auto
next
  case LastTx
  then show ?thesis using tl_LastElement_is [OF assms(1,2)] assms(3) by auto
qed (use assms(1) tl_reads_are [OF assms(1)] in auto)

lemma run_list_ops_refine:
  assumes "list_rep strict f l" "\<forall>(ord, op) \<in> set ops. permutes_maps ord" "list_ops_ok strict (map snd ops) f"
  shows "\<exists>outs l'. run_list_ops ops l = Ret (outs, l') \<and> list_all2 same_out outs (fst (spec_ops strict (map snd ops) f)) \<and>
    list_rep strict (snd (spec_ops strict (map snd ops) f)) l'"
  using assms
proof (induction ops arbitrary: f l)
  case Nil
  then show ?case by simp
next
  case (Cons oo ops)
  obtain ord op where oo: "oo = (ord, op)" by (cases oo)
  obtain out f' where s: "spec_op strict op f = (out, f')" by fastforce
  have p: "permutes_maps ord" "list_op_ok op f" "\<forall>(ord, op) \<in> set ops. permutes_maps ord" "list_ops_ok strict (map snd ops) f'"
    using Cons.prems oo s by auto
  obtain o1 l1 where r: "run_list_op ord op l = Ret (o1, l1)" "same_out o1 out" "list_rep strict f' l1"
    using run_list_op_refines [OF Cons.prems(1) p(1,2)] s by auto
  obtain outs l2 where "run_list_ops ops l1 = Ret (outs, l2)" "list_all2 same_out outs (fst (spec_ops strict (map snd ops) f'))"
    "list_rep strict (snd (spec_ops strict (map snd ops) f')) l2"
    using Cons.IH [OF r(3) p(3,4)] by blast
  then show ?case using r oo s by (simp add: case_prod_beta)
qed

lemma newTxList_rep: "list_rep strict Map.empty (newTxList strict)"
  using sm_New_rep by (simp add: list_rep_def newTxList_def costs_rep_def caps_rep_def cost_of_def txs_of_def nonces_of_def)

section \<open>The list is a map by nonce with its costs\<close>

text \<open>
  C14. The list of a pool account, from \<open>newList\<close> through any program of \<open>Add\<close>, \<open>Forward\<close>, \<open>Filter\<close>, \<open>Cap\<close>,
  \<open>Remove\<close>, \<open>Ready\<close>, \<open>Flatten\<close>, \<open>LastElement\<close>, \<open>Contains\<close> and \<open>Len\<close>, in whatever order its map is gone
  through, is a map from nonces to transactions: nothing panics (the total of the costs never runs below zero, no
  index of the heap or of the cache is out of range, no nil transaction is touched), every operation returns the
  transactions that it takes out of the map (those of \<open>Filter\<close> and \<open>Remove\<close> up to their order), and at the end
  the items are the map, the total is exactly the sum of the costs of the transactions that are left, and the caps
  bound each of them. Costs are not negative and their sum fits into 256 bits, and what is removed is in the list.
\<close>

theorem tx_list_refines:
  assumes "\<forall>(ord, op) \<in> set ops. permutes_maps ord" "list_ops_ok strict (map snd ops) Map.empty"
  shows "\<exists>outs l. run_list_ops ops (newTxList strict) = Ret (outs, l) \<and>
    (case spec_ops strict (map snd ops) Map.empty of (souts, f) \<Rightarrow>
       list_all2 same_out outs souts \<and> map_of (sm_items (tl_txs l)) = f \<and> uint (tl_totalcost l) = (\<Sum>n \<in> dom f. tx_Cost (the (f n))) \<and>
       (\<forall>n tx. f n = Some tx \<longrightarrow> tx_Nonce tx = n \<and> tx_Cost tx \<le> uint (tl_costcap l) \<and> tx_Gas tx \<le> tl_gascap l))"
proof -
  obtain souts f where s: "spec_ops strict (map snd ops) Map.empty = (souts, f)" by fastforce
  obtain outs l where r: "run_list_ops ops (newTxList strict) = Ret (outs, l)" "list_all2 same_out outs souts" "list_rep strict f l"
    using run_list_ops_refine [OF newTxList_rep assms] s by auto
  then have i: "items_rep f (tl_txs l)" "costs_rep f l" "caps_rep f l" using sm_rep_items by (auto simp: list_rep_def)
  then show ?thesis using r(1,2) s cost_of_sum [of f]
    by (auto simp: items_rep_def costs_rep_def caps_rep_def)
qed

text \<open>Adding, replacing with a higher bid, an underpriced replacement, filtering by cost and removing.\<close>

definition sample_list_tx :: "u64 \<Rightarrow> int \<Rightarrow> TxData" where
  "sample_list_tx n price = Legacy \<lparr>lt_Nonce = n, lt_GasPrice = price, lt_Gas = 21000, lt_To = None, lt_Value = 5, lt_Data = [],
     lt_V = 27, lt_R = 1, lt_S = 1\<rparr>"

lemma sample_list_facts: "tx_Nonce (sample_list_tx n price) = n" "tx_Cost (sample_list_tx n price) = price * 21000 + 5" "tx_Gas (sample_list_tx n price) = 21000"
    "tx_GasFeeCap (sample_list_tx n price) = price" "tx_GasTipCap (sample_list_tx n price) = price"
  by (simp_all add: sample_list_tx_def tx_Cost_def Let_def)

lemma sample_outbids: "outbids (sample_list_tx n p) (sample_list_tx n q) 10 \<longleftrightarrow> q < p \<and> 110 * q div 100 \<le> p"
  by (auto simp: outbids_def GasFeeCapCmp_def GasTipCapCmp_def GasFeeCapIntCmp_def GasTipCapIntCmp_def big_Cmp_def
      sample_list_facts Let_def)

lemmas list_spec = gets_in_def over_limits_def cut_off_def nonces_of_def txs_of_def cost_of_sum sample_list_facts sample_outbids Let_def

lemma tx_list_refines_witness:
  "\<exists>outs l. run_list_ops [(id, AddTx (sample_list_tx 1 100) 10), (id, AddTx (sample_list_tx 0 200) 10), (rev, AddTx (sample_list_tx 1 120) 10),
       (id, AddTx (sample_list_tx 0 201) 10), (rev, FilterBy 3000000 30000), (id, RemoveTx (sample_list_tx 2 50))]
     (newTxList False) = Ret (outs, l) \<and> map_of (sm_items (tl_txs l)) = [1 \<mapsto> sample_list_tx 1 120] \<and> uint (tl_totalcost l) = 2520005"
proof -
  define ops :: "(map_order \<times> list_op) list" where "ops = [(id, AddTx (sample_list_tx 1 100) 10), (id, AddTx (sample_list_tx 0 200) 10), (rev, AddTx (sample_list_tx 1 120) 10),
       (id, AddTx (sample_list_tx 0 201) 10), (rev, FilterBy 3000000 30000), (id, RemoveTx (sample_list_tx 2 50))]"
  have p: "\<forall>(ord, op) \<in> set ops. permutes_maps ord" by (simp add: ops_def permutes_maps_def)
  have s1: "spec_op False (AddTx (sample_list_tx 1 100) 10) Map.empty = (Added True None, [1 \<mapsto> sample_list_tx 1 100])"
    and s2: "spec_op False (AddTx (sample_list_tx 0 200) 10) [1 \<mapsto> sample_list_tx 1 100] = (Added True None, [1 \<mapsto> sample_list_tx 1 100, 0 \<mapsto> sample_list_tx 0 200])"
    by (simp_all add: list_spec)
  have s3: "spec_op False (AddTx (sample_list_tx 1 120) 10) [1 \<mapsto> sample_list_tx 1 100, 0 \<mapsto> sample_list_tx 0 200] =
      (Added True (Some (sample_list_tx 1 100)), [0 \<mapsto> sample_list_tx 0 200, 1 \<mapsto> sample_list_tx 1 120])"
    by (simp add: list_spec fun_upd_twist)
  have s4: "spec_op False (AddTx (sample_list_tx 0 201) 10) [0 \<mapsto> sample_list_tx 0 200, 1 \<mapsto> sample_list_tx 1 120] =
      (Added False None, [0 \<mapsto> sample_list_tx 0 200, 1 \<mapsto> sample_list_tx 1 120])"
    by (simp add: list_spec)
  have "nonces_of [0 \<mapsto> sample_list_tx 0 200, 1 \<mapsto> sample_list_tx 1 120] = [0, 1]" by (simp add: nonces_of_def)
  then have over: "over_limits 3000000 30000 [0 \<mapsto> sample_list_tx 0 200, 1 \<mapsto> sample_list_tx 1 120] = [0]"
    by (simp add: over_limits_def sample_list_facts)
  have s5: "spec_op False (FilterBy 3000000 30000) [0 \<mapsto> sample_list_tx 0 200, 1 \<mapsto> sample_list_tx 1 120] =
      (Filtered [Some (sample_list_tx 0 200)] [], [1 \<mapsto> sample_list_tx 1 120])"
    by (simp add: over cut_off_def)
  have s6: "spec_op False (RemoveTx (sample_list_tx 2 50)) [1 \<mapsto> sample_list_tx 1 120] = (Removed False [], [1 \<mapsto> sample_list_tx 1 120])"
    by (auto simp: sample_list_facts Let_def)
  have c: "cost_of [1 \<mapsto> sample_list_tx 1 100] < 2 ^ 256" "cost_of [1 \<mapsto> sample_list_tx 1 100, 0 \<mapsto> sample_list_tx 0 200] < 2 ^ 256"
      "cost_of [1 \<mapsto> sample_list_tx 1 100, 0 \<mapsto> sample_list_tx 0 200, 1 \<mapsto> sample_list_tx 1 120] < 2 ^ 256"
    by (simp_all add: cost_of_sum sample_list_facts)
  have o: "list_op_ok (AddTx (sample_list_tx 1 100) 10) Map.empty" "list_op_ok (AddTx (sample_list_tx 0 200) 10) [1 \<mapsto> sample_list_tx 1 100]"
      "list_op_ok (AddTx (sample_list_tx 1 120) 10) [1 \<mapsto> sample_list_tx 1 100, 0 \<mapsto> sample_list_tx 0 200]"
      "list_op_ok (AddTx (sample_list_tx 0 201) 10) [0 \<mapsto> sample_list_tx 0 200, 1 \<mapsto> sample_list_tx 1 120]"
      "list_op_ok (RemoveTx (sample_list_tx 2 50)) [1 \<mapsto> sample_list_tx 1 120]"
    using c by (simp_all add: gets_in_def sample_list_facts sample_outbids)
  have ok: "list_ops_ok False (map snd ops) Map.empty"
    by (simp only: ops_def list.map snd_conv list_ops_ok.simps s1 s2 s3 s4 s5 s6 o) simp
  have s: "snd (spec_ops False (map snd ops) Map.empty) = [1 \<mapsto> sample_list_tx 1 120]"
    by (simp only: ops_def list.map snd_conv spec_ops.simps s1 s2 s3 s4 s5 s6 prod.case)
  obtain outs l where r: "run_list_ops ops (newTxList False) = Ret (outs, l)" "map_of (sm_items (tl_txs l)) = [1 \<mapsto> sample_list_tx 1 120]"
      "uint (tl_totalcost l) = (\<Sum>n \<in> dom [1 :: u64 \<mapsto> sample_list_tx 1 120]. tx_Cost (the ([1 :: u64 \<mapsto> sample_list_tx 1 120] n)))"
    using tx_list_refines [OF p ok] unfolding case_prod_beta s by blast
  have "uint (tl_totalcost l) = 2520005" unfolding r(3) by (simp add: sample_list_facts)
  then show ?thesis using r(1,2) unfolding ops_def by blast
qed

end
