(* ===== verification/Ethash.thy ===== *)
theory Ethash imports Fee_Rules begin

text \<open>
  The proof-of-work engine, \<open>consensus/ethash\<close>: the difficulty calculators over big integers and their
  faster variants over \<open>uint256\<close>, the verification of headers and uncles, and the block rewards.
\<close>

section \<open>The difficulty over big integers\<close>

abbreviation (input) DifficultyBoundDivisor :: int where "DifficultyBoundDivisor \<equiv> 2048"
abbreviation (input) MinimumDifficulty :: int where "MinimumDifficulty \<equiv> 131072"
abbreviation (input) DurationLimit :: int where "DurationLimit \<equiv> 13"
abbreviation (input) expDiffPeriod :: int where "expDiffPeriod \<equiv> 100000"

definition calcDifficultyFrontier :: "u64 \<Rightarrow> header \<Rightarrow> int go" where
  "calcDifficultyFrontier time parent =
     go_bind (deref (hd_Difficulty parent)) (\<lambda>parentDifficulty.
     let adjust = parentDifficulty div DifficultyBoundDivisor;
         diff = (if uint time - uint (hd_Time parent) < DurationLimit then parentDifficulty + adjust
                 else parentDifficulty - adjust);
         diff = (if diff < MinimumDifficulty then MinimumDifficulty else diff) in
     go_bind (deref (hd_Number parent)) (\<lambda>parentNumber.
     let periodCount = (parentNumber + 1) div expDiffPeriod
     in Ret (if periodCount > 1 then
               let expDiff = 2 ^ nat (periodCount - 2);
                   diff = diff + expDiff
               in BigMax diff MinimumDifficulty
             else diff)))"

definition calcDifficultyHomestead :: "u64 \<Rightarrow> header \<Rightarrow> int go" where
  "calcDifficultyHomestead time parent =
     (let x = (uint time - uint (hd_Time parent)) div 10;
          x = 1 - x;
          x = (if x < - 99 then - 99 else x) in
     go_bind (deref (hd_Difficulty parent)) (\<lambda>parentDifficulty.
     let y = parentDifficulty div DifficultyBoundDivisor;
         x = y * x;
         x = parentDifficulty + x;
         x = (if x < MinimumDifficulty then MinimumDifficulty else x) in
     go_bind (deref (hd_Number parent)) (\<lambda>parentNumber.
     let periodCount = (parentNumber + 1) div expDiffPeriod
     in Ret (if periodCount > 1 then x + 2 ^ nat (periodCount - 2) else x))))"

definition makeDifficultyCalculator :: "(bytes \<Rightarrow> hash) \<Rightarrow> int \<Rightarrow> u64 \<Rightarrow> header \<Rightarrow> int go" where
  "makeDifficultyCalculator K bombDelay time parent =
     (let bombDelayFromParent = bombDelay - 1;
          x = (uint time - uint (hd_Time parent)) div 9;
          x = (if hd_UncleHash parent = EmptyUncleHash K then 1 - x else 2 - x);
          x = (if x < - 99 then - 99 else x) in
     go_bind (deref (hd_Difficulty parent)) (\<lambda>parentDifficulty.
     let y = parentDifficulty div DifficultyBoundDivisor;
         x = y * x;
         x = parentDifficulty + x;
         x = (if x < MinimumDifficulty then MinimumDifficulty else x) in
     go_bind (deref (hd_Number parent)) (\<lambda>parentNumber.
     let fakeBlockNumber = (if parentNumber \<ge> bombDelayFromParent then parentNumber - bombDelayFromParent else 0);
         periodCount = fakeBlockNumber div expDiffPeriod
     in Ret (if periodCount > 1 then x + 2 ^ nat (periodCount - 2) else x))))"

definition CalcDifficulty :: "(bytes \<Rightarrow> hash) \<Rightarrow> ChainConfig \<Rightarrow> u64 \<Rightarrow> header \<Rightarrow> int go" where
  "CalcDifficulty K config time parent =
     go_bind (deref (hd_Number parent)) (\<lambda>parentNumber.
     let nxt = Some (parentNumber + 1)
     in if cfg_IsGrayGlacier config nxt then makeDifficultyCalculator K 11400000 time parent
        else if cfg_IsArrowGlacier config nxt then makeDifficultyCalculator K 10700000 time parent
        else if cfg_IsLondon config nxt then makeDifficultyCalculator K 9700000 time parent
        else if cfg_IsMuirGlacier config nxt then makeDifficultyCalculator K 9000000 time parent
        else if cfg_IsConstantinople config nxt then makeDifficultyCalculator K 5000000 time parent
        else if cfg_IsByzantium config nxt then makeDifficultyCalculator K 3000000 time parent
        else if cfg_IsHomestead config nxt then calcDifficultyHomestead time parent
        else calcDifficultyFrontier time parent)"

section \<open>The difficulty over 256-bit words\<close>

abbreviation (input) frontierDurationLimit :: u64 where "frontierDurationLimit \<equiv> 13"
abbreviation (input) minimumDifficulty :: u256 where "minimumDifficulty \<equiv> 131072"
abbreviation (input) expDiffPeriodUint :: u64 where "expDiffPeriodUint \<equiv> 100000"
abbreviation (input) difficultyBoundDivisor :: nat where "difficultyBoundDivisor \<equiv> 11"

definition CalcDifficultyFrontierU256 :: "u64 \<Rightarrow> header \<Rightarrow> int go" where
  "CalcDifficultyFrontierU256 time parent =
     go_bind (deref (hd_Difficulty parent)) (\<lambda>parentDifficulty.
     let pDiff = fst (FromBig parentDifficulty);
         adjust = drop_bit difficultyBoundDivisor pDiff;
         pDiff = (if time - hd_Time parent < frontierDurationLimit then pDiff + adjust else pDiff - adjust);
         pDiff = (if pDiff < minimumDifficulty then minimumDifficulty else pDiff) in
     go_bind (deref (hd_Number parent)) (\<lambda>parentNumber.
     let periodCount = (big_Uint64 parentNumber + 1) div expDiffPeriodUint
     in Ret (uint (if periodCount > 1 then pDiff + push_bit (unat (periodCount - 2)) 1 else pDiff))))"

definition CalcDifficultyHomesteadU256 :: "u64 \<Rightarrow> header \<Rightarrow> int go" where
  "CalcDifficultyHomesteadU256 time parent =
     go_bind (deref (hd_Difficulty parent)) (\<lambda>parentDifficulty.
     let pDiff = fst (FromBig parentDifficulty);
         adjust = drop_bit difficultyBoundDivisor pDiff;
         x = (time - hd_Time parent) div 10;
         (x, neg) = (if x = 0 then (1, False) else if x \<ge> 100 then (99, True) else (x - 1, True));
         adjust = adjust * ucast x;
         pDiff = (if neg then pDiff - adjust else pDiff + adjust);
         pDiff = (if pDiff < minimumDifficulty then minimumDifficulty else pDiff) in
     go_bind (deref (hd_Number parent)) (\<lambda>parentNumber.
     let periodCount = (1 + big_Uint64 parentNumber) div expDiffPeriodUint
     in Ret (uint (if periodCount > 1 then pDiff + push_bit (unat (periodCount - 2)) 1 else pDiff))))"

definition MakeDifficultyCalculatorU256 :: "(bytes \<Rightarrow> hash) \<Rightarrow> int \<Rightarrow> u64 \<Rightarrow> header \<Rightarrow> int go" where
  "MakeDifficultyCalculatorU256 K bombDelay time parent =
     (let bombDelayFromParent = big_Uint64 bombDelay - 1;
          x = (time - hd_Time parent) div 9;
          c = (if hd_UncleHash parent \<noteq> EmptyUncleHash K then 2 else 1 :: u64);
          xNeg = (x \<ge> c);
          x = (if xNeg then x - c else c - x);
          x = (if x > 99 then 99 else x) in
     go_bind (deref (hd_Difficulty parent)) (\<lambda>parentDifficulty.
     let pDiff = fst (FromBig parentDifficulty);
         y = drop_bit difficultyBoundDivisor pDiff;
         z = y * ucast x;
         y = (if xNeg then pDiff - z else pDiff + z);
         y = (if y < minimumDifficulty then minimumDifficulty else y) in
     go_bind (deref (hd_Number parent)) (\<lambda>parentNumber.
     let pNum = big_Uint64 parentNumber
     in Ret (uint (
          if pNum \<ge> bombDelayFromParent then
            let fakeBlockNumber = pNum - bombDelayFromParent
            in if fakeBlockNumber \<ge> 2 * expDiffPeriodUint
               then push_bit (unat (fakeBlockNumber div expDiffPeriodUint - 2)) 1 + y else y
          else y)))))"

section \<open>Verification of headers\<close>

text \<open>
  The chain behind \<open>consensus.ChainReader\<close> is a parameter: the configuration and the lookups of headers
  and of blocks, of which only the header and the uncles are read here. \<open>unixNow\<close> is an \<open>int64\<close>.
\<close>

record chain_block =
  bk_header :: header
  bk_uncles :: "header list"

record chain_reader =
  chain_Config :: ChainConfig
  chain_GetHeader :: "hash \<Rightarrow> u64 \<Rightarrow> header option"
  chain_GetHeaderByNumber :: "u64 \<Rightarrow> header option"
  chain_GetBlock :: "hash \<Rightarrow> u64 \<Rightarrow> chain_block option"

datatype engine_error =
    ExtraTooLong
  | ErrFutureBlock
  | ErrOlderBlockTime
  | InvalidDifficulty
  | GasLimitTooHigh
  | GasUsedExceedsLimit
  | BaseFeeBeforeFork
  | FeeRule header_error
  | ErrInvalidNumber
  | ShanghaiUnsupported
  | UnexpectedWithdrawalsHash
  | CancunUnsupported
  | UnexpectedExcessBlobGas
  | UnexpectedBlobGasUsed
  | UnexpectedParentBeaconRoot
  | InvalidTesterPow
  | ErrUnknownAncestor
  | ErrTooManyUncles
  | ErrDuplicateUncle
  | ErrUncleIsAncestor
  | ErrDanglingUncle
  | WithdrawalsUnsupported

record Ethash =
  fakeFail :: "u64 option"
  fakeFull :: bool

abbreviation (input) allowedFutureBlockTimeSeconds :: u64 where "allowedFutureBlockTimeSeconds \<equiv> 15"
abbreviation (input) maxUncles :: nat where "maxUncles \<equiv> 2"

definition ethash_verifyHeader ::
    "(bytes \<Rightarrow> hash) \<Rightarrow> Ethash \<Rightarrow> chain_reader \<Rightarrow> header \<Rightarrow> header \<Rightarrow> bool \<Rightarrow> u64 \<Rightarrow> engine_error option go" where
  "ethash_verifyHeader K ethash chain header parent uncle unixNow =
     (if len64 (hd_Extra header) > MaximumExtraDataSize then Ret (Some ExtraTooLong)
      else if \<not> uncle \<and> hd_Time header > unixNow + allowedFutureBlockTimeSeconds then Ret (Some ErrFutureBlock)
      else if hd_Time header \<le> hd_Time parent then Ret (Some ErrOlderBlockTime)
      else
        go_bind (CalcDifficulty K (chain_Config chain) (hd_Time header) parent) (\<lambda>expected.
        go_bind (deref (hd_Difficulty header)) (\<lambda>difficulty.
        if expected \<noteq> difficulty then Ret (Some InvalidDifficulty)
        else if hd_GasLimit header > MaxGasLimit then Ret (Some GasLimitTooHigh)
        else if hd_GasUsed header > hd_GasLimit header then Ret (Some GasUsedExceedsLimit)
        else
          go_bind (if \<not> cfg_IsLondon (chain_Config chain) (hd_Number header) then
                     Ret (if hd_BaseFee header \<noteq> None then Some BaseFeeBeforeFork
                          else map_option FeeRule (VerifyGaslimit (hd_GasLimit parent) (hd_GasLimit header)))
                   else
                     go_bind (VerifyEIP1559Header (chain_Config chain) parent header) (\<lambda>err. Ret (map_option FeeRule err)))
            (\<lambda>err. case err of Some err \<Rightarrow> Ret (Some err) | None \<Rightarrow>
          go_bind (deref (hd_Number header)) (\<lambda>number.
          go_bind (deref (hd_Number parent)) (\<lambda>parentNumber.
          if number - parentNumber \<noteq> 1 then Ret (Some ErrInvalidNumber)
          else if cfg_IsShanghai (chain_Config chain) (hd_Number header) (hd_Time header) then Ret (Some ShanghaiUnsupported)
          else if hd_WithdrawalsHash header \<noteq> None then Ret (Some UnexpectedWithdrawalsHash)
          else if cfg_IsCancun (chain_Config chain) (hd_Number header) (hd_Time header) then Ret (Some CancunUnsupported)
          else if hd_ExcessBlobGas header \<noteq> None then Ret (Some UnexpectedExcessBlobGas)
          else if hd_BlobGasUsed header \<noteq> None then Ret (Some UnexpectedBlobGasUsed)
          else if hd_ParentBeaconRoot header \<noteq> None then Ret (Some UnexpectedParentBeaconRoot)
          else if fakeFail ethash = Some (big_Uint64 number) then Ret (Some InvalidTesterPow)
          else go_bind (VerifyDAOHeaderExtraData (chain_Config chain) header) (\<lambda>err. Ret (map_option FeeRule err))))))))"

definition ethash_VerifyHeader ::
    "(bytes \<Rightarrow> hash) \<Rightarrow> Ethash \<Rightarrow> chain_reader \<Rightarrow> header \<Rightarrow> u64 \<Rightarrow> engine_error option go" where
  "ethash_VerifyHeader K ethash chain header unixNow =
     go_bind (deref (hd_Number header)) (\<lambda>n.
     let number = big_Uint64 n in
     go_bind (hd_Hash K header) (\<lambda>h.
     if chain_GetHeader chain h number \<noteq> None then Ret None
     else case chain_GetHeader chain (hd_ParentHash header) (number - 1) of
            None \<Rightarrow> Ret (Some ErrUnknownAncestor)
          | Some parent \<Rightarrow> ethash_verifyHeader K ethash chain header parent False unixNow))"

text \<open>The batch of \<open>VerifyHeaders\<close>, without its channels: one result per header, in order.\<close>

fun ethash_verify_batch ::
    "(bytes \<Rightarrow> hash) \<Rightarrow> Ethash \<Rightarrow> chain_reader \<Rightarrow> u64 \<Rightarrow> header \<Rightarrow> header list \<Rightarrow> engine_error option list go" where
  "ethash_verify_batch K ethash chain unixNow prev [] = Ret []"
| "ethash_verify_batch K ethash chain unixNow prev (header # headers) =
     go_bind (hd_Hash K prev) (\<lambda>h.
     go_bind (if h = hd_ParentHash header then ethash_verifyHeader K ethash chain header prev False unixNow
              else Ret (Some ErrUnknownAncestor)) (\<lambda>err.
     go_bind (ethash_verify_batch K ethash chain unixNow header headers) (\<lambda>errs. Ret (err # errs))))"

definition ethash_VerifyHeaders ::
    "(bytes \<Rightarrow> hash) \<Rightarrow> Ethash \<Rightarrow> chain_reader \<Rightarrow> u64 \<Rightarrow> header list \<Rightarrow> engine_error option list go" where
  "ethash_VerifyHeaders K ethash chain unixNow headers =
     (case headers of
        [] \<Rightarrow> Ret []
      | header # rest \<Rightarrow>
          if fakeFull ethash then Ret (map (\<lambda>_. None) headers)
          else
            go_bind (deref (hd_Number header)) (\<lambda>n.
            go_bind (case chain_GetHeader chain (hd_ParentHash header) (big_Uint64 n - 1) of
                       None \<Rightarrow> Ret (Some ErrUnknownAncestor)
                     | Some parent \<Rightarrow> ethash_verifyHeader K ethash chain header parent False unixNow) (\<lambda>err.
            go_bind (ethash_verify_batch K ethash chain unixNow header rest) (\<lambda>errs. Ret (err # errs)))))"

section \<open>Uncles\<close>

text \<open>A set of hashes is a list; the ancestors are a list of hashes with their headers, the newest first.\<close>

fun hashes :: "(bytes \<Rightarrow> hash) \<Rightarrow> header list \<Rightarrow> hash list go" where
  "hashes K [] = Ret []"
| "hashes K (h # hs) = go_bind (hd_Hash K h) (\<lambda>x. go_bind (hashes K hs) (\<lambda>xs. Ret (x # xs)))"

fun gather_ancestors ::
    "(bytes \<Rightarrow> hash) \<Rightarrow> chain_reader \<Rightarrow> nat \<Rightarrow> u64 \<Rightarrow> hash \<Rightarrow> hash list \<Rightarrow> (hash \<times> header) list \<Rightarrow>
     (hash list \<times> (hash \<times> header) list) go" where
  "gather_ancestors K chain 0 number parent uncles ancestors = Ret (uncles, ancestors)"
| "gather_ancestors K chain (Suc i) number parent uncles ancestors =
     (case chain_GetHeader chain parent number of
        None \<Rightarrow> Ret (uncles, ancestors)
      | Some ancestorHeader \<Rightarrow>
          let ancestors = (parent, ancestorHeader) # ancestors
          in if hd_UncleHash ancestorHeader \<noteq> EmptyUncleHash K then
               (case chain_GetBlock chain parent number of
                  None \<Rightarrow> Ret (uncles, ancestors)
                | Some ancestor \<Rightarrow>
                    go_bind (hashes K (bk_uncles ancestor)) (\<lambda>us.
                      gather_ancestors K chain i (number - 1) (hd_ParentHash ancestorHeader) (us @ uncles) ancestors))
             else gather_ancestors K chain i (number - 1) (hd_ParentHash ancestorHeader) uncles ancestors)"

fun verify_uncles ::
    "(bytes \<Rightarrow> hash) \<Rightarrow> Ethash \<Rightarrow> chain_reader \<Rightarrow> u64 \<Rightarrow> hash \<Rightarrow> (hash \<times> header) list \<Rightarrow> hash list \<Rightarrow> header list \<Rightarrow>
     engine_error option go" where
  "verify_uncles K ethash chain unixNow blockParent ancestors uncles [] = Ret None"
| "verify_uncles K ethash chain unixNow blockParent ancestors uncles (uncle # rest) =
     go_bind (hd_Hash K uncle) (\<lambda>h.
     if h \<in> set uncles then Ret (Some ErrDuplicateUncle)
     else
       let uncles = h # uncles
       in if map_of ancestors h \<noteq> None then Ret (Some ErrUncleIsAncestor)
          else case map_of ancestors (hd_ParentHash uncle) of
                 None \<Rightarrow> Ret (Some ErrDanglingUncle)
               | Some parent \<Rightarrow>
                   if hd_ParentHash uncle = blockParent then Ret (Some ErrDanglingUncle)
                   else go_bind (ethash_verifyHeader K ethash chain uncle parent True unixNow) (\<lambda>err.
                     case err of
                       Some err \<Rightarrow> Ret (Some err)
                     | None \<Rightarrow> verify_uncles K ethash chain unixNow blockParent ancestors uncles rest))"

definition VerifyUncles ::
    "(bytes \<Rightarrow> hash) \<Rightarrow> Ethash \<Rightarrow> chain_reader \<Rightarrow> u64 \<Rightarrow> chain_block \<Rightarrow> engine_error option go" where
  "VerifyUncles K ethash chain unixNow block =
     (if fakeFull ethash then Ret None
      else if length (bk_uncles block) > maxUncles then Ret (Some ErrTooManyUncles)
      else if bk_uncles block = [] then Ret None
      else
        go_bind (deref (hd_Number (bk_header block))) (\<lambda>n.
        go_bind (gather_ancestors K chain 7 (big_Uint64 n - 1) (hd_ParentHash (bk_header block)) [] []) (\<lambda>(uncles, ancestors).
        go_bind (hd_Hash K (bk_header block)) (\<lambda>h.
          verify_uncles K ethash chain unixNow (hd_ParentHash (bk_header block)) ((h, bk_header block) # ancestors) (h # uncles)
            (bk_uncles block)))))"

section \<open>Preparing and finalizing a block\<close>

definition ethash_Prepare :: "(bytes \<Rightarrow> hash) \<Rightarrow> chain_reader \<Rightarrow> header \<Rightarrow> (engine_error + header) go" where
  "ethash_Prepare K chain header =
     go_bind (deref (hd_Number header)) (\<lambda>n.
     case chain_GetHeader chain (hd_ParentHash header) (big_Uint64 n - 1) of
       None \<Rightarrow> Ret (Inl ErrUnknownAncestor)
     | Some parent \<Rightarrow>
         go_bind (CalcDifficulty K (chain_Config chain) (hd_Time header) parent) (\<lambda>d.
           Ret (Inr (header\<lparr>hd_Difficulty := Some d\<rparr>))))"

definition FrontierBlockReward :: u256 where "FrontierBlockReward = 5000000000000000000"
definition ByzantiumBlockReward :: u256 where "ByzantiumBlockReward = 3000000000000000000"
definition ConstantinopleBlockReward :: u256 where "ConstantinopleBlockReward = 2000000000000000000"

definition block_reward :: "ChainConfig \<Rightarrow> header \<Rightarrow> u256" where
  "block_reward config header =
     (if cfg_IsConstantinople config (hd_Number header) then ConstantinopleBlockReward
      else if cfg_IsByzantium config (hd_Number header) then ByzantiumBlockReward
      else FrontierBlockReward)"

definition uncle_reward :: "u256 \<Rightarrow> u256 \<Rightarrow> u256 \<Rightarrow> u256" where
  "uncle_reward blockReward uNum hNum = (uNum + 8 - hNum) * blockReward div 8"

fun reward_uncles :: "database \<Rightarrow> u256 \<Rightarrow> int option \<Rightarrow> header list \<Rightarrow> u256 \<Rightarrow> StateDB \<Rightarrow> (u256 \<times> StateDB) go" where
  "reward_uncles db blockReward number [] reward s = Ret (reward, s)"
| "reward_uncles db blockReward number (uncle # uncles) reward s =
     go_bind (deref (hd_Number uncle)) (\<lambda>u.
     go_bind (deref number) (\<lambda>h.
     let uNum = fst (FromBig u); hNum = fst (FromBig h);
         s = AddBalance db (hd_Coinbase uncle) (uncle_reward blockReward uNum hNum) s
     in reward_uncles db blockReward number uncles (reward + blockReward div 32) s))"

definition accumulateRewards :: "database \<Rightarrow> ChainConfig \<Rightarrow> header \<Rightarrow> header list \<Rightarrow> StateDB \<Rightarrow> StateDB go" where
  "accumulateRewards db config header uncles s =
     (let blockReward = block_reward config header in
      go_bind (reward_uncles db blockReward (hd_Number header) uncles blockReward s) (\<lambda>(reward, s).
        Ret (AddBalance db (hd_Coinbase header) reward s)))"

definition ethash_Finalize :: "database \<Rightarrow> chain_reader \<Rightarrow> header \<Rightarrow> header list \<Rightarrow> StateDB \<Rightarrow> StateDB go" where
  "ethash_Finalize db chain header uncles s = accumulateRewards db (chain_Config chain) header uncles s"

section \<open>The two agree\<close>

abbreviation (input) W256 :: int where "W256 \<equiv> 2 ^ 256"

lemma u256_of_int: "0 \<le> a \<Longrightarrow> a < W256 \<Longrightarrow> uint (word_of_int a :: u256) = a"
  by (simp add: uint_word_of_int_eq take_bit_int_eq_self)

lemma drop_bit_11: "0 \<le> a \<Longrightarrow> a < W256 \<Longrightarrow> drop_bit 11 (word_of_int a :: u256) = word_of_int (a div 2048)"
proof -
  assume a: "0 \<le> a" "a < W256"
  have "uint (drop_bit 11 (word_of_int a :: u256)) = a div 2048"
    using a by (simp add: drop_bit_eq_div uint_div u256_of_int)
  then show ?thesis by (metis word_of_int_uint)
qed

lemma push_bit_one: "push_bit n (1 :: u256) = word_of_int (2 ^ n)"
  by (simp add: push_bit_eq_mult)

text \<open>The floor at the minimum difficulty and the bomb of \<open>n\<close> full periods.\<close>

lemma floor_u256:
  "0 \<le> a \<Longrightarrow> a < W256 \<Longrightarrow>
   (if word_of_int a < (131072 :: u256) then 131072 else word_of_int a :: u256) = word_of_int (if a < 131072 then 131072 else a)"
  by (simp add: word_less_def u256_of_int)

lemma bomb_u256:
  assumes "0 \<le> a" "0 \<le> n" "(if 1 < n then a + 2 ^ nat (n - 2) else a) < W256" "uint (p :: u64) = n"
  shows "uint (if 1 < p then word_of_int a + push_bit (unat (p - 2)) (1 :: u256) else word_of_int a) =
    (if 1 < n then a + 2 ^ nat (n - 2) else a)"
proof (cases "1 < n")
  case True
  then have "1 < p" using assms(4) by (simp add: word_less_def)
  moreover have "unat (p - 2 :: u64) = nat (n - 2)"
  proof -
    have "uint (p - 2) = uint p - uint (2 :: u64)" using uint_sub_lem [of 2 p] True assms(4) by simp
    then show ?thesis using assms(4) by (simp add: unat_eq_nat_uint)
  qed
  moreover have "word_of_int a + push_bit k 1 = (word_of_int (a + 2 ^ k) :: u256)" for k
    by (simp add: push_bit_eq_mult)
  moreover have "uint (word_of_int (a + 2 ^ nat (n - 2)) :: u256) = a + 2 ^ nat (n - 2)"
    using True assms by (intro u256_of_int) simp_all
  ultimately show ?thesis using True by (simp only: if_True)
next
  case False
  then have "\<not> 1 < p" using assms(4) by (simp add: word_less_def)
  then show ?thesis using False assms by (simp add: u256_of_int)
qed

lemma adjust_u256:
  assumes "0 \<le> pd" "pd < W256" "- 99 \<le> k" "k \<le> 2"
  shows "0 \<le> pd + pd div 2048 * k" and "pd + pd div 2048 * k \<le> 2 * pd"
proof -
  have q: "0 \<le> pd div 2048" "2048 * (pd div 2048) \<le> pd" using assms(1) by simp_all
  have "pd div 2048 * (- 99) \<le> pd div 2048 * k" "pd div 2048 * k \<le> pd div 2048 * 2"
    using assms q by (intro mult_left_mono; simp)+
  then show "0 \<le> pd + pd div 2048 * k" "pd + pd div 2048 * k \<le> 2 * pd" using q by linarith+
qed

text \<open>What the calculators share: the elapsed time and the number of full periods as words.\<close>

lemma elapsed_u64: "s \<le> t \<Longrightarrow> uint (t - s :: u64) = uint t - uint s"
  using uint_sub_lem [of s t] by (simp add: word_le_def)

lemma periods_u64:
  assumes "0 \<le> num" "num < 2 ^ 64 - 1"
  shows "uint ((big_Uint64 num + 1) div 100000) = (num + 1) div 100000"
proof -
  have "big_Uint64 num + 1 = word_of_int (num + 1)" using assms(1) by (simp add: big_Uint64_def)
  moreover have "uint (word_of_int (num + 1) :: u64) = num + 1"
    unfolding uint_word_of_int_eq using assms by (intro take_bit_int_eq_self) simp_all
  ultimately show ?thesis by (simp add: uint_div)
qed

text \<open>
  The common end of the calculators: the adjusted difficulty \<open>x\<close>, raised to the minimum, plus the bomb.
\<close>

definition with_bomb :: "int \<Rightarrow> int \<Rightarrow> int" where
  "with_bomb x n = (let x = (if x < 131072 then 131072 else x) in if 1 < n then x + 2 ^ nat (n - 2) else x)"

lemma with_bomb_ge: "x \<le> with_bomb x n" "131072 \<le> with_bomb x n"
proof -
  have "0 < (2 :: int) ^ nat (n - 2)" by simp
  then show "x \<le> with_bomb x n" "131072 \<le> with_bomb x n"
    unfolding with_bomb_def Let_def by (cases "x < 131072"; cases "1 < n"; simp; linarith?)+
qed

lemma with_bomb_u256:
  assumes "0 \<le> x" "with_bomb x n < W256" "uint (p :: u64) = n"
  shows "uint (let y = (if word_of_int x < (131072 :: u256) then 131072 else word_of_int x :: u256)
    in if 1 < p then y + push_bit (unat (p - 2)) 1 else y) = with_bomb x n"
proof -
  have x: "x < W256" using with_bomb_ge(1) [of x n] assms(2) by linarith
  have "0 \<le> n" using assms(3) by auto
  moreover have "0 \<le> (if x < 131072 then 131072 else x)" using assms(1) by simp
  ultimately show ?thesis
    using bomb_u256 [of "if x < 131072 then 131072 else x" n p] assms(2,3)
    unfolding floor_u256 [OF assms(1) x] with_bomb_def Let_def by blast
qed

lemma frontier_agrees:
  assumes "hd_Difficulty parent = Some pd" "hd_Number parent = Some num" "0 \<le> pd" "pd < W256" "0 \<le> num" "num < 2 ^ 64 - 1"
    "hd_Time parent \<le> time" "calcDifficultyFrontier time parent = Ret d" "d < W256"
  shows "CalcDifficultyFrontierU256 time parent = Ret d \<and> 131072 \<le> d"
proof -
  define x where "x = (if uint time - uint (hd_Time parent) < 13 then pd + pd div 2048 else pd - pd div 2048)"
  define n where "n = (num + 1) div 100000"
  have d: "d = with_bomb x n"
    using assms(8) with_bomb_ge(2) [of x n]
    by (simp add: calcDifficultyFrontier_def deref_def assms(1,2) Let_def x_def [symmetric] n_def [symmetric] BigMax_def with_bomb_def
      split: if_splits)
  have x: "0 \<le> x" using adjust_u256 [OF assms(3,4), of 1] adjust_u256 [OF assms(3,4), of "- 1"] by (simp add: x_def)
  have t: "time - hd_Time parent < 13 \<longleftrightarrow> uint time - uint (hd_Time parent) < 13"
    using elapsed_u64 [OF assms(7)] by (simp add: word_less_def)
  have e: "(if time - hd_Time parent < 13 then word_of_int pd + drop_bit 11 (word_of_int pd) else word_of_int pd - drop_bit 11 (word_of_int pd) :: u256) = word_of_int x"
    unfolding t drop_bit_11 [OF assms(3,4)] x_def by simp
  note f = with_bomb_u256 [OF x assms(9) [unfolded d] periods_u64 [OF assms(5,6), folded n_def], unfolded Let_def]
  show ?thesis
    unfolding CalcDifficultyFrontierU256_def deref_def assms(1,2) option.simps go_bind.simps Let_def FromBig_def fst_conv e f
    using with_bomb_ge(2) d by simp
qed

lemma scaled_u256:
  assumes "0 \<le> pd" "pd < W256" "uint (x :: u64) = \<bar>k\<bar>" "neg \<longleftrightarrow> k \<le> 0"
  shows "(if neg then word_of_int pd - drop_bit 11 (word_of_int pd) * ucast x
      else word_of_int pd + drop_bit 11 (word_of_int pd) * ucast x :: u256) = word_of_int (pd + pd div 2048 * k)"
proof -
  have "(ucast x :: u256) = word_of_int \<bar>k\<bar>" using assms(3) by (metis ucast_eq)
  then show ?thesis using assms(4) unfolding drop_bit_11 [OF assms(1,2)] by auto
qed

lemma homestead_agrees:
  assumes "hd_Difficulty parent = Some pd" "hd_Number parent = Some num" "0 \<le> pd" "pd < W256" "0 \<le> num" "num < 2 ^ 64 - 1"
    "hd_Time parent \<le> time" "calcDifficultyHomestead time parent = Ret d" "d < W256"
  shows "CalcDifficultyHomesteadU256 time parent = Ret d \<and> 131072 \<le> d"
proof -
  define e where "e = (uint time - uint (hd_Time parent)) div 10"
  define k where "k = (if 1 - e < - 99 then - 99 else 1 - e)"
  define n where "n = (num + 1) div 100000"
  define x where "x = (time - hd_Time parent) div 10"
  have ue: "uint x = e" using elapsed_u64 [OF assms(7)] by (simp add: x_def e_def uint_div)
  then have e: "0 \<le> e" by auto
  have d: "d = with_bomb (pd + pd div 2048 * k) n"
    using assms(8) unfolding calcDifficultyHomestead_def deref_def assms(1,2) option.simps go_bind.simps Let_def with_bomb_def
      e_def [symmetric] k_def [symmetric] n_def [symmetric] by simp
  have x0: "0 \<le> pd + pd div 2048 * k" using adjust_u256 [OF assms(3,4), of k] e by (simp add: k_def)
  obtain x' neg where c: "(if x = 0 then (1, False) else if x \<ge> 100 then (99, True) else (x - 1, True)) = (x', neg)" by fastforce
  have x': "uint x' = \<bar>k\<bar>" "neg \<longleftrightarrow> k \<le> 0"
  proof -
    have z: "x = 0 \<longleftrightarrow> e = 0" "x \<ge> 100 \<longleftrightarrow> 100 \<le> e" using ue by (simp_all add: word_le_def word_uint_eq_iff)
    have m: "e \<noteq> 0 \<Longrightarrow> uint (x - 1) = e - 1" using uint_sub_lem [of 1 x] ue e by simp
    show "uint x' = \<bar>k\<bar>" "neg \<longleftrightarrow> k \<le> 0" using c z m e by (auto simp: k_def split: if_splits)
  qed
  note s = scaled_u256 [OF assms(3,4) x']
  note f = with_bomb_u256 [OF x0 assms(9) [unfolded d] periods_u64 [OF assms(5,6), folded n_def], unfolded Let_def]
  show ?thesis
    using with_bomb_ge(2) d
    unfolding CalcDifficultyHomesteadU256_def deref_def assms(1,2) option.simps go_bind.simps Let_def FromBig_def fst_conv
      x_def [symmetric] c prod.case s add.commute [of 1 "big_Uint64 num"] f by simp
qed

lemma byzantium_agrees:
  assumes "hd_Difficulty parent = Some pd" "hd_Number parent = Some num" "0 \<le> pd" "pd < W256" "0 \<le> num" "num < 2 ^ 64"
    "hd_Time parent \<le> time" "1 \<le> delay" "delay < 2 ^ 64" "makeDifficultyCalculator K delay time parent = Ret d" "d < W256"
  shows "MakeDifficultyCalculatorU256 K delay time parent = Ret d \<and> 131072 \<le> d"
proof -
  define c :: int where "c = (if hd_UncleHash parent = EmptyUncleHash K then 1 else 2)"
  define e where "e = (uint time - uint (hd_Time parent)) div 9"
  define k where "k = (if c - e < - 99 then - 99 else c - e)"
  define fake where "fake = (if num \<ge> delay - 1 then num - (delay - 1) else 0)"
  define n where "n = fake div 100000"
  define x where "x = (time - hd_Time parent) div 9"
  define cw :: u64 where "cw = (if hd_UncleHash parent \<noteq> EmptyUncleHash K then 2 else 1)"
  define x' where "x' = (let x = (if cw \<le> x then x - cw else cw - x) in if x > 99 then 99 else x)"
  have ue: "uint x = e" using elapsed_u64 [OF assms(7)] by (simp add: x_def e_def uint_div)
  then have e: "0 \<le> e" by auto
  have uc: "uint cw = c" by (simp add: cw_def c_def)
  have c: "1 \<le> c" "c \<le> 2" by (simp_all add: c_def)
  have ce: "(if hd_UncleHash parent = EmptyUncleHash K then 1 - e else 2 - e) = c - e" by (simp add: c_def)
  have d: "d = with_bomb (pd + pd div 2048 * k) n"
    using assms(10) unfolding makeDifficultyCalculator_def deref_def assms(1,2) option.simps go_bind.simps Let_def with_bomb_def
      e_def [symmetric] ce k_def [symmetric] fake_def [symmetric] n_def [symmetric] by simp
  have x0: "0 \<le> pd + pd div 2048 * k" using adjust_u256 [OF assms(3,4), of k] e c by (simp add: k_def)
  have x': "uint x' = \<bar>k\<bar>" "cw \<le> x \<longleftrightarrow> k \<le> 0"
  proof -
    have l: "cw \<le> x \<longleftrightarrow> c \<le> e" using ue uc by (simp add: word_le_def)
    then show "cw \<le> x \<longleftrightarrow> k \<le> 0" by (simp add: k_def)
    have "uint (if cw \<le> x then x - cw else cw - x) = \<bar>c - e\<bar>"
      using l uint_sub_lem [of cw x] uint_sub_lem [of x cw] ue uc by auto
    then show "uint x' = \<bar>k\<bar>"
      using c e by (simp add: x'_def Let_def k_def word_less_def del: if_split) auto
  qed
  have pn: "uint (big_Uint64 num) = num"
    unfolding big_Uint64_def uint_word_of_int_eq using assms(5,6) by (subst take_bit_int_eq_self) simp_all
  have "uint (big_Uint64 delay) = delay"
    unfolding big_Uint64_def uint_word_of_int_eq using assms(8,9) by (subst take_bit_int_eq_self) simp_all
  then have bd: "uint (big_Uint64 delay - 1) = delay - 1" using uint_sub_lem [of 1 "big_Uint64 delay"] assms(8) by simp
  define fw where "fw = big_Uint64 num - (big_Uint64 delay - 1)"
  have ge: "big_Uint64 num \<ge> big_Uint64 delay - 1 \<longleftrightarrow> num \<ge> delay - 1" by (simp add: word_le_def pn bd)
  have fw: "num \<ge> delay - 1 \<Longrightarrow> uint fw = fake"
    using uint_sub_lem [of "big_Uint64 delay - 1" "big_Uint64 num"] pn bd by (simp add: fw_def fake_def)
  have ge2: "fw \<ge> 2 * 100000 \<longleftrightarrow> 1 < fw div 100000"
    by (simp add: word_le_def word_less_def uint_div) linarith
  have f: "uint (let y = (if word_of_int (pd + pd div 2048 * k) < (131072 :: u256) then 131072 else word_of_int (pd + pd div 2048 * k) :: u256)
      in if num \<ge> delay - 1 \<and> fw \<ge> 2 * 100000 then y + push_bit (unat (fw div 100000 - 2)) 1 else y) = d"
  proof (cases "num \<ge> delay - 1")
    case True
    have "uint (fw div 100000) = n" using fw [OF True] by (simp add: n_def uint_div)
    from with_bomb_u256 [OF x0 assms(11) [unfolded d] this] show ?thesis using True by (simp only: ge2 d simp_thms)
  next
    case False
    then have "uint (0 :: u64) = n" by (simp add: n_def fake_def)
    from with_bomb_u256 [OF x0 assms(11) [unfolded d] this] show ?thesis using False by (simp add: d Let_def)
  qed
  have y: "push_bit m 1 + (y :: u256) = y + push_bit m 1" for m y by (rule add.commute)
  have i: "(if p then if q then a else b else b) = (if p \<and> q then a else b)" for p q and a b :: u256 by simp
  note s = scaled_u256 [OF assms(3,4) x']
  show ?thesis
    using with_bomb_ge(2) d
    unfolding MakeDifficultyCalculatorU256_def deref_def assms(1,2) option.simps go_bind.simps Let_def FromBig_def fst_conv
      x_def [symmetric] cw_def [symmetric] x'_def [unfolded Let_def, symmetric] s fw_def [symmetric] y ge i f [unfolded Let_def] by simp
qed

lemma difficulty_forms:
  assumes "hd_Difficulty parent = Some pd" "hd_Number parent = Some num"
  shows "\<exists>x n. calcDifficultyFrontier time parent = Ret (with_bomb x n)"
    "\<exists>x n. calcDifficultyHomestead time parent = Ret (with_bomb x n)"
    "\<exists>x n. makeDifficultyCalculator K delay time parent = Ret (with_bomb x n)"
proof -
  have m: "BigMax (with_bomb x n) 131072 = with_bomb x n" for x n using with_bomb_ge(2) [of x n] by (simp add: BigMax_def)
  have i: "(if 1 < n then BigMax ((if x < 131072 then 131072 else x) + 2 ^ nat (n - 2)) 131072 else if x < 131072 then 131072 else x) =
      with_bomb x n" for x n
    using m [of x n] unfolding with_bomb_def Let_def by (cases "1 < n") (simp_all only: if_True if_False)
  show "\<exists>x n. calcDifficultyFrontier time parent = Ret (with_bomb x n)"
    unfolding calcDifficultyFrontier_def deref_def assms option.simps go_bind.simps Let_def i by blast
  show "\<exists>x n. calcDifficultyHomestead time parent = Ret (with_bomb x n)"
    unfolding calcDifficultyHomestead_def deref_def assms option.simps go_bind.simps Let_def with_bomb_def [unfolded Let_def, symmetric] by blast
  show "\<exists>x n. makeDifficultyCalculator K delay time parent = Ret (with_bomb x n)"
    unfolding makeDifficultyCalculator_def deref_def assms option.simps go_bind.simps Let_def with_bomb_def [unfolded Let_def, symmetric] by blast
qed

section \<open>Accepted uncles\<close>

text \<open>The chain stores every header under its number.\<close>

definition chain_numbered :: "chain_reader \<Rightarrow> bool" where
  "chain_numbered chain \<longleftrightarrow> (\<forall>h n a. chain_GetHeader chain h n = Some a \<longrightarrow> hd_Number a = Some (uint n))"

lemma gather_numbers:
  assumes "chain_numbered chain"
    "gather_ancestors K chain i number parent us anc = Ret (us', anc')" "(h, a) \<in> set anc'"
  shows "(h, a) \<in> set anc \<or> (\<exists>g<i. hd_Number a = Some (uint (number - of_nat g)) \<and> (g = 0 \<longrightarrow> h = parent))"
  using assms(2,3)
proof (induction i arbitrary: number parent us anc)
  case (Suc i)
  show ?case
  proof (cases "chain_GetHeader chain parent number")
    case None
    then show ?thesis using Suc.prems by simp
  next
    case (Some a0)
    have step: "(h, a) \<in> set ((parent, a0) # anc) \<or> (\<exists>g<i. hd_Number a = Some (uint (number - 1 - of_nat g)))"
    proof (cases "hd_UncleHash a0 = EmptyUncleHash K \<or> chain_GetBlock chain parent number \<noteq> None")
      case True
      then obtain us2 where "gather_ancestors K chain i (number - 1) (hd_ParentHash a0) us2 ((parent, a0) # anc) = Ret (us', anc')"
        using Suc.prems(1) Some by (auto simp: Let_def split: if_splits option.splits)
      from Suc.IH [OF this Suc.prems(2)] show ?thesis by blast
    next
      case False
      then show ?thesis using Suc.prems Some by (auto simp: Let_def split: if_splits option.splits)
    qed
    have "hd_Number a0 = Some (uint (number - of_nat 0))" using assms(1) Some by (simp add: chain_numbered_def)
    moreover have "number - 1 - of_nat g = number - of_nat (Suc g)" for g by simp
    ultimately show ?thesis using step by (metis (no_types, lifting) Suc_less_eq nat.distinct(1) prod.inject set_ConsD zero_less_Suc)
  qed
qed simp

lemma verify_uncles_None:
  assumes "verify_uncles K ethash chain now bp anc uncles us = Ret None"
  shows "\<exists>hs. hashes K us = Ret hs \<and> distinct hs \<and> set hs \<inter> set uncles = {} \<and>
    (\<forall>u\<in>set us. \<exists>p. map_of anc (hd_ParentHash u) = Some p \<and> hd_ParentHash u \<noteq> bp \<and>
      ethash_verifyHeader K ethash chain u p True now = Ret None)"
  using assms
proof (induction us arbitrary: uncles)
  case (Cons u us)
  from Cons.prems obtain h p where h: "hd_Hash K u = Ret h" "h \<notin> set uncles" "map_of anc (hd_ParentHash u) = Some p"
    "hd_ParentHash u \<noteq> bp" "ethash_verifyHeader K ethash chain u p True now = Ret None"
    "verify_uncles K ethash chain now bp anc (h # uncles) us = Ret None"
    by (auto simp: Let_def split: if_splits option.splits)
  from Cons.IH [OF h(6)] show ?case using h(1-5) by auto
qed simp

lemma verifyHeader_number:
  assumes "ethash_verifyHeader K ethash chain u p un now = Ret None"
  shows "\<exists>m. hd_Number p = Some m \<and> hd_Number u = Some (m + 1)"
  using assms by (auto simp: ethash_verifyHeader_def deref_def split: if_splits option.splits)

lemma uncle_reward_exact:
  assumes "n - 6 \<le> k" "k \<le> n - 1" "uint r \<le> 5000000000000000000"
  shows "uint (uncle_reward r (fst (FromBig k)) (fst (FromBig n))) = (8 - (n - k)) * uint r div 8"
proof -
  define j where "j = 8 - (n - k)"
  have j: "2 \<le> j" "j \<le> 7" using assms(1,2) by (simp_all add: j_def)
  have "uncle_reward r (fst (FromBig k)) (fst (FromBig n)) = word_of_int (j * uint r) div 8"
    by (simp add: uncle_reward_def FromBig_def j_def algebra_simps)
  moreover have "uint (word_of_int (j * uint r) :: u256) = j * uint r"
  proof (rule u256_of_int)
    have "j * uint r \<le> 7 * 5000000000000000000" using j assms(3) by (intro mult_mono) auto
    then show "j * uint r < W256" by simp
  qed (use j in simp)
  ultimately show ?thesis by (simp add: uint_div j_def)
qed

section \<open>Properties\<close>

text \<open>
  C15. The uint256 difficulty calculators compute the same difficulty as the big-integer ones, for the
  Frontier, the Homestead and every delayed-bomb rule: for a parent with a difficulty below \<open>2 ^ 256\<close> and a
  number below \<open>2 ^ 64 - 1\<close>, and a time not before the parent's, whenever the big-integer result fits in 256
  bits; that result is never below the minimum difficulty.
\<close>

theorem u256_difficulty_agrees:
  assumes "hd_Difficulty parent = Some pd" "hd_Number parent = Some num" "0 \<le> pd" "pd < 2 ^ 256" "0 \<le> num" "num < 2 ^ 64 - 1"
    "hd_Time parent \<le> time" "1 \<le> delay" "delay < 2 ^ 64"
    "(big, u256) \<in> {(calcDifficultyFrontier, CalcDifficultyFrontierU256), (calcDifficultyHomestead, CalcDifficultyHomesteadU256),
      (makeDifficultyCalculator K delay, MakeDifficultyCalculatorU256 K delay)}"
  shows "\<exists>d. big time parent = Ret d \<and> 131072 \<le> d \<and> (d < 2 ^ 256 \<longrightarrow> u256 time parent = Ret d)"
proof -
  have num: "num < 2 ^ 64" using assms(6) by simp
  have "\<exists>x n. big time parent = Ret (with_bomb x n)"
    using difficulty_forms(1,2) [OF assms(1,2), of time] difficulty_forms(3) [OF assms(1,2), of K delay time] assms(10) by auto
  then obtain x n where *: "big time parent = Ret (with_bomb x n)" by blast
  have "u256 time parent = Ret (with_bomb x n)" if "with_bomb x n < 2 ^ 256"
    using assms(10) frontier_agrees [OF assms(1-7) _ that] homestead_agrees [OF assms(1-7) _ that]
      byzantium_agrees [OF assms(1-5) num assms(7-9) _ that] * by auto
  then show ?thesis using * with_bomb_ge(2) by blast
qed

theorem u256_difficulty_agrees_witness:
  "\<exists>d. calcDifficultyHomestead 1013 (sample_header 1) = Ret d \<and> 131072 \<le> d \<and>
     (d < 2 ^ 256 \<longrightarrow> CalcDifficultyHomesteadU256 1013 (sample_header 1) = Ret d)"
  by (rule u256_difficulty_agrees [of _ 131072 1 _ 3000000 _ _ "\<lambda>_. 0"]) (simp_all add: sample_header_def)

text \<open>
  C28. Uncles that the verification accepts are worth what the protocol says: there are at most two of them,
  with different hashes, each is a child of an ancestor two to seven generations above the block, so that
  its number is one to six below the block's, and the reward of its miner, computed with wrapping 256-bit
  arithmetic, is exactly \<open>(8 - distance) / 8\<close> of the block reward. The chain stores headers under their
  numbers, and no uncle names the block itself as its parent.
\<close>

theorem accepted_uncles_earn_exactly:
  assumes "VerifyUncles K ethash chain now block = Ret None" "\<not> fakeFull ethash"
    "chain_numbered chain" "hd_Number (bk_header block) = Some n" "7 \<le> n" "n < 2 ^ 64"
    "\<And>u. u \<in> set (bk_uncles block) \<Longrightarrow> hd_Hash K (bk_header block) \<noteq> Ret (hd_ParentHash u)"
  shows "length (bk_uncles block) \<le> 2 \<and> (\<exists>hs. hashes K (bk_uncles block) = Ret hs \<and> distinct hs) \<and>
    (\<forall>u\<in>set (bk_uncles block). \<exists>k. hd_Number u = Some k \<and> n - 6 \<le> k \<and> k \<le> n - 1 \<and>
      uint (uncle_reward (block_reward config (bk_header block)) (fst (FromBig k)) (fst (FromBig n))) =
        (8 - (n - k)) * uint (block_reward config (bk_header block)) div 8)"
proof (cases "bk_uncles block = []")
  case False
  let ?bp = "hd_ParentHash (bk_header block)" and ?num = "big_Uint64 n - 1"
  from assms(1,2,4) False obtain us anc h where g: "gather_ancestors K chain 7 ?num ?bp [] [] = Ret (us, anc)"
    "hd_Hash K (bk_header block) = Ret h"
    "verify_uncles K ethash chain now ?bp ((h, bk_header block) # anc) (h # us) (bk_uncles block) = Ret None"
    "length (bk_uncles block) \<le> 2"
    by (auto simp: VerifyUncles_def deref_def split: if_splits)
  from verify_uncles_None [OF g(3)] obtain hs where hs: "hashes K (bk_uncles block) = Ret hs" "distinct hs"
    "\<And>u. u \<in> set (bk_uncles block) \<Longrightarrow> \<exists>p. map_of ((h, bk_header block) # anc) (hd_ParentHash u) = Some p \<and>
      hd_ParentHash u \<noteq> ?bp \<and> ethash_verifyHeader K ethash chain u p True now = Ret None"
    by blast
  have r: "uint (block_reward config (bk_header block)) \<le> 5000000000000000000"
    by (simp add: block_reward_def FrontierBlockReward_def ByzantiumBlockReward_def ConstantinopleBlockReward_def)
  have num: "uint (?num - of_nat g) = n - 1 - int g" if "g < 7" for g
  proof -
    have "?num - of_nat g = word_of_int (n - 1 - int g)" using assms(5) by (simp add: big_Uint64_def)
    moreover have "take_bit 64 (n - 1 - int g) = n - 1 - int g" using assms(5,6) that by (intro take_bit_int_eq_self) simp_all
    ultimately show ?thesis by (simp add: uint_word_of_int_eq del: of_int_diff of_int_of_nat_eq)
  qed
  have "\<exists>k. hd_Number u = Some k \<and> n - 6 \<le> k \<and> k \<le> n - 1" if u: "u \<in> set (bk_uncles block)" for u
  proof -
    obtain p where p: "map_of ((h, bk_header block) # anc) (hd_ParentHash u) = Some p" "hd_ParentHash u \<noteq> ?bp"
      "ethash_verifyHeader K ethash chain u p True now = Ret None" using hs(3) [OF u] by blast
    have "hd_ParentHash u \<noteq> h" using assms(7) [OF u] g(2) by auto
    then have "(hd_ParentHash u, p) \<in> set anc" using p(1) by (auto intro: map_of_SomeD)
    then have "\<exists>i<7. hd_Number p = Some (uint (?num - of_nat i)) \<and> (i = 0 \<longrightarrow> hd_ParentHash u = ?bp)"
      using gather_numbers [OF assms(3) g(1), of "hd_ParentHash u" p] by auto
    then obtain i where i: "i < 7" "hd_Number p = Some (uint (?num - of_nat i))" "i \<noteq> 0" using p(2) by blast
    then show ?thesis using verifyHeader_number [OF p(3)] num [OF i(1)] by auto
  qed
  then show ?thesis using g(4) hs(1,2) uncle_reward_exact [OF _ _ r] by blast
qed simp

text \<open>A chain of two blocks, and a block on it with an uncle that is a child of the older one.\<close>

definition old_header :: "u64 \<Rightarrow> header" where
  "old_header n = (sample_header (uint n))\<lparr>hd_ParentHash := 100 + ucast n - 1, hd_Time := 1000 + n, hd_BaseFee := None\<rparr>"

definition sample_chain :: chain_reader where
  "sample_chain = \<lparr>chain_Config = MainnetChainConfig, chain_GetHeader = (\<lambda>h n. if n = 8 \<or> n = 9 then Some (old_header n) else None),
     chain_GetHeaderByNumber = (\<lambda>n. None), chain_GetBlock = (\<lambda>h n. Some \<lparr>bk_header = old_header n, bk_uncles = []\<rparr>)\<rparr>"

definition sample_uncle :: header where
  "sample_uncle = (old_header 9)\<lparr>hd_Extra := [1], hd_Difficulty := Some 131136\<rparr>"

definition sample_uncle_hash :: "bytes \<Rightarrow> hash" where
  "sample_uncle_hash b = (if b = rlp_enc (RList (hd_items sample_uncle)) then 1 else 0)"

lemma sample_uncle_hashes:
  "hd_Hash sample_uncle_hash sample_uncle = Ret 1" "hd_Hash sample_uncle_hash (old_header 10) = Ret 0"
proof -
  have u: "hd_SanityCheck sample_uncle = None" "hd_signs sample_uncle" and
    o: "hd_SanityCheck (old_header 10) = None" "hd_signs (old_header 10)"
    using sample_header_ok [of 9] sample_header_ok [of 10] bit_len_le [of 131136 80]
    by (auto simp: sample_uncle_def old_header_def sample_header_def hd_SanityCheck_def hd_signs_def not_negative_def int_BitLen_def
      split: if_splits)
  have "hd_norm sample_uncle \<noteq> hd_norm (old_header 10)"
    by (simp add: sample_uncle_def old_header_def sample_header_def hd_norm_def zero_nil_def)
  then have "rlp_enc (RList (hd_items (old_header 10))) \<noteq> rlp_enc (RList (hd_items sample_uncle))"
    using enc_list_inj [OF hd_items_ok(1) [OF o(1)] hd_items_ok(1) [OF u(1)] _ header_length [OF o(1)]] hd_items_inj [OF _ o(2) u(2)]
    by metis
  then show "hd_Hash sample_uncle_hash sample_uncle = Ret 1" "hd_Hash sample_uncle_hash (old_header 10) = Ret 0"
    by (simp_all add: Hash_items [OF u] Hash_items [OF o] sample_uncle_hash_def del: rlp_enc.simps)
qed

theorem accepted_uncles_earn_exactly_witness:
  "let block = \<lparr>bk_header = old_header 10, bk_uncles = [sample_uncle]\<rparr>
   in VerifyUncles sample_uncle_hash \<lparr>fakeFail = None, fakeFull = False\<rparr> sample_chain 2000 block = Ret None \<and>
     uint (uncle_reward (block_reward MainnetChainConfig (old_header 10)) (fst (FromBig 9)) (fst (FromBig 10))) = 4375000000000000000"
proof -
  let ?e = "\<lparr>fakeFail = None, fakeFull = False\<rparr>" and ?b = "\<lparr>bk_header = old_header 10, bk_uncles = [sample_uncle]\<rparr>"
  have cfg: "\<not> cfg_IsGrayGlacier MainnetChainConfig (Some 9)" "\<not> cfg_IsArrowGlacier MainnetChainConfig (Some 9)"
    "\<not> cfg_IsLondon MainnetChainConfig (Some 9)" "\<not> cfg_IsMuirGlacier MainnetChainConfig (Some 9)"
    "\<not> cfg_IsConstantinople MainnetChainConfig (Some 9)" "\<not> cfg_IsByzantium MainnetChainConfig (Some 9)"
    "\<not> cfg_IsHomestead MainnetChainConfig (Some 9)" "\<not> cfg_IsShanghai MainnetChainConfig (Some 9) t"
    "\<not> cfg_IsCancun MainnetChainConfig (Some 9) t" for t
    by (simp_all add: MainnetChainConfig_def isBlockForked_def cfg_IsGrayGlacier_def cfg_IsArrowGlacier_def cfg_IsLondon_def
      cfg_IsMuirGlacier_def cfg_IsConstantinople_def cfg_IsByzantium_def cfg_IsHomestead_def cfg_IsShanghai_def cfg_IsCancun_def)
  have d: "CalcDifficulty K MainnetChainConfig 1009 (old_header 8) = Ret 131136" for K
    using cfg by (simp add: CalcDifficulty_def calcDifficultyFrontier_def deref_def old_header_def sample_header_def)
  have u: "hd_Extra sample_uncle = [1]" "hd_Time sample_uncle = 1009" "hd_Difficulty sample_uncle = Some 131136"
    "hd_GasLimit sample_uncle = 30000000" "hd_GasUsed sample_uncle = 21000" "hd_Number sample_uncle = Some 9"
    "hd_BaseFee sample_uncle = None" "hd_WithdrawalsHash sample_uncle = None" "hd_ExcessBlobGas sample_uncle = None"
    "hd_BlobGasUsed sample_uncle = None" "hd_ParentBeaconRoot sample_uncle = None" "hd_ParentHash sample_uncle = 108"
    "hd_Time (old_header 8) = 1008" "hd_GasLimit (old_header 8) = 30000000" "hd_Number (old_header 8) = Some 8"
    "hd_Number (old_header 10) = Some 10" "hd_ParentHash (old_header 10) = 109" "chain_Config sample_chain = MainnetChainConfig"
    by (simp_all add: sample_uncle_def old_header_def sample_header_def sample_chain_def)
  have dao: "VerifyDAOHeaderExtraData MainnetChainConfig sample_uncle = Ret None"
    by (simp add: VerifyDAOHeaderExtraData_def MainnetChainConfig_def deref_def u)
  have v: "ethash_verifyHeader K ?e sample_chain sample_uncle (old_header 8) True 2000 = Ret None" for K
    by (simp add: ethash_verifyHeader_def u d cfg dao deref_def VerifyGaslimit_def len64_def)
  have c: "chain_GetHeader sample_chain h 9 = Some (old_header 9)" "chain_GetHeader sample_chain h 8 = Some (old_header 8)"
    "chain_GetHeader sample_chain h 7 = None" "chain_GetBlock sample_chain h n = Some \<lparr>bk_header = old_header n, bk_uncles = []\<rparr>"
    "hd_ParentHash (old_header 9) = 108" for h n
    by (simp_all add: sample_chain_def old_header_def)
  have g7: "gather_ancestors K sample_chain (Suc i) 7 p us anc = Ret (us, anc)" for K i p us anc by (simp add: c)
  have g8: "gather_ancestors K sample_chain (Suc (Suc i)) 8 p us anc = Ret (us, (p, old_header 8) # anc)" for K i p us anc
    by (subst gather_ancestors.simps(2)) (simp add: c g7 Let_def del: gather_ancestors.simps)
  have "gather_ancestors K sample_chain (Suc (Suc (Suc i))) 9 109 us [] = Ret (us, [(108, old_header 8), (109, old_header 9)])" for K i us
    by (subst gather_ancestors.simps(2)) (simp add: c g8 Let_def del: gather_ancestors.simps)
  from this [of _ 4] have g: "gather_ancestors K sample_chain 7 9 109 [] [] = Ret ([], [(108, old_header 8), (109, old_header 9)])" for K
    by simp
  have V: "VerifyUncles sample_uncle_hash ?e sample_chain 2000 ?b = Ret None"
    using v sample_uncle_hashes g by (simp add: VerifyUncles_def deref_def u big_Uint64_def)
  have "chain_numbered sample_chain"
    by (auto simp: chain_numbered_def sample_chain_def old_header_def sample_header_def split: if_splits)
  note e = accepted_uncles_earn_exactly [OF V _ this, of 10 MainnetChainConfig]
  have "uint (uncle_reward (block_reward MainnetChainConfig (old_header 10)) (fst (FromBig 9)) (fst (FromBig 10))) =
      (8 - (10 - 9)) * uint (block_reward MainnetChainConfig (old_header 10)) div 8"
    using e by (simp add: u sample_uncle_hashes)
  moreover have "block_reward MainnetChainConfig (old_header 10) = 5000000000000000000"
    by (simp add: block_reward_def FrontierBlockReward_def u cfg_IsByzantium_def cfg_IsConstantinople_def isBlockForked_def MainnetChainConfig_def)
  ultimately show ?thesis using V by (simp add: u)
qed

end
