(* ===== verification/LRU.thy ===== *)
theory LRU imports Prelude begin

text \<open>
  The least-recently-used cache of \<open>common/lru/basiclru.go\<close> with its doubly linked ring of elements, and
  the cache of blobs with a bound on their total size (\<open>common/lru/blob_lru.go\<close>). The ring is modelled on a
  heap of elements: an element is an address with a next pointer, a previous pointer and a value; address
  0 is nil, address 1 the root. The locks of \<open>common/lru/lru.go\<close> are not modelled: every operation is atomic.
\<close>

section \<open>The ring\<close>

record 'k ring =
  rg_next :: "nat \<Rightarrow> nat"
  rg_prev :: "nat \<Rightarrow> nat"
  rg_v :: "nat \<Rightarrow> 'k"
  rg_fresh :: nat

abbreviation (input) root_elem :: nat where "root_elem \<equiv> 1"

definition get_next :: "nat \<Rightarrow> ('k, 'a) ring_scheme \<Rightarrow> nat go" where
  "get_next e l = (if e = 0 then Panic NilDereference else Ret (rg_next l e))"
definition get_prev :: "nat \<Rightarrow> ('k, 'a) ring_scheme \<Rightarrow> nat go" where
  "get_prev e l = (if e = 0 then Panic NilDereference else Ret (rg_prev l e))"
definition set_next :: "nat \<Rightarrow> nat \<Rightarrow> 'k ring \<Rightarrow> 'k ring go" where
  "set_next e x l = (if e = 0 then Panic NilDereference else Ret (l\<lparr>rg_next := (rg_next l)(e := x)\<rparr>))"
definition set_prev :: "nat \<Rightarrow> nat \<Rightarrow> 'k ring \<Rightarrow> 'k ring go" where
  "set_prev e x l = (if e = 0 then Panic NilDereference else Ret (l\<lparr>rg_prev := (rg_prev l)(e := x)\<rparr>))"

definition list_init :: "'k ring \<Rightarrow> 'k ring" where
  "list_init l = l\<lparr>rg_next := (rg_next l)(root_elem := root_elem), rg_prev := (rg_prev l)(root_elem := root_elem)\<rparr>"

definition newList :: "'k \<Rightarrow> 'k ring" where
  "newList zero = list_init \<lparr>rg_next = (\<lambda>_. 0), rg_prev = (\<lambda>_. 0), rg_v = (\<lambda>_. zero), rg_fresh = 2\<rparr>"

text \<open>\<open>new(listElem[K])\<close>\<close>

definition new_elem :: "'k ring \<Rightarrow> nat \<times> 'k ring" where
  "new_elem l = (rg_fresh l, l\<lparr>rg_fresh := Suc (rg_fresh l), rg_next := (rg_next l)(rg_fresh l := 0),
     rg_prev := (rg_prev l)(rg_fresh l := 0)\<rparr>)"

definition pushElem :: "nat \<Rightarrow> 'k ring \<Rightarrow> 'k ring go" where
  "pushElem e l =
     go_bind (set_prev e root_elem l) (\<lambda>l.
     go_bind (get_next root_elem l) (\<lambda>n.
     go_bind (set_next e n l) (\<lambda>l.
     go_bind (set_next root_elem e l) (\<lambda>l.
     go_bind (get_next e l) (\<lambda>n.
       set_prev n e l)))))"

definition unlink :: "nat \<Rightarrow> 'k ring \<Rightarrow> 'k ring go" where
  "unlink e l =
     go_bind (get_prev e l) (\<lambda>p.
     go_bind (get_next e l) (\<lambda>n.
     go_bind (set_next p n l) (\<lambda>l.
     go_bind (get_next e l) (\<lambda>n.
     go_bind (get_prev e l) (\<lambda>p.
       set_prev n p l)))))"

definition moveToFront :: "nat \<Rightarrow> 'k ring \<Rightarrow> 'k ring go" where
  "moveToFront e l = go_bind (unlink e l) (pushElem e)"

definition list_remove :: "nat \<Rightarrow> 'k ring \<Rightarrow> 'k ring go" where
  "list_remove e l =
     go_bind (unlink e l) (\<lambda>l.
     go_bind (set_next e 0 l) (set_prev e 0))"

definition list_last :: "'k ring \<Rightarrow> nat go" where
  "list_last l = go_bind (get_prev root_elem l) (\<lambda>e. Ret (if e = root_elem then 0 else e))"

definition removeLast :: "'k ring \<Rightarrow> (nat \<times> 'k ring) go" where
  "removeLast l =
     go_bind (list_last l) (\<lambda>e.
     if e \<noteq> 0 then go_bind (list_remove e l) (\<lambda>l. Ret (e, l)) else Ret (0, l))"

definition set_v :: "nat \<Rightarrow> 'k \<Rightarrow> 'k ring \<Rightarrow> 'k ring go" where
  "set_v e k l = (if e = 0 then Panic NilDereference else Ret (l\<lparr>rg_v := (rg_v l)(e := k)\<rparr>))"
definition get_v :: "nat \<Rightarrow> 'k ring \<Rightarrow> 'k go" where
  "get_v e l = (if e = 0 then Panic NilDereference else Ret (rg_v l e))"

text \<open>\<open>appendTo\<close> walks from the last element to the root; \<open>n\<close> bounds the steps.\<close>

fun append_from :: "nat \<Rightarrow> nat \<Rightarrow> 'k ring \<Rightarrow> 'k list go" where
  "append_from 0 e l = (if e = root_elem then Ret [] else OutOfFuel)"
| "append_from (Suc n) e l =
     (if e = root_elem then Ret []
      else go_bind (get_v e l) (\<lambda>k.
           go_bind (get_prev e l) (\<lambda>p.
           go_bind (append_from n p l) (\<lambda>ks. Ret (k # ks)))))"

section \<open>BasicLRU\<close>

record ('k, 'v) lru =
  lru_list :: "'k ring"
  lru_items :: "'k \<Rightarrow> (nat \<times> 'v) option"
  lru_cap :: nat

definition NewBasicLRU :: "'k \<Rightarrow> int \<Rightarrow> ('k, 'v) lru" where
  "NewBasicLRU zero capacity =
     (let capacity = (if capacity \<le> 0 then 1 else capacity)
      in \<lparr>lru_list = newList zero, lru_items = Map.empty, lru_cap = nat capacity\<rparr>)"

definition lru_Len :: "('k, 'v) lru \<Rightarrow> nat" where
  "lru_Len c = card (dom (lru_items c))"

definition lru_Add :: "'k \<Rightarrow> 'v \<Rightarrow> ('k, 'v) lru \<Rightarrow> (bool \<times> ('k, 'v) lru) go" where
  "lru_Add key value c =
     (case lru_items c key of
        Some (elem, _) \<Rightarrow>
          go_bind (moveToFront elem (lru_list c)) (\<lambda>l.
            Ret (False, c\<lparr>lru_items := (lru_items c)(key \<mapsto> (elem, value)), lru_list := l\<rparr>))
      | None \<Rightarrow>
          go_bind (if lru_Len c \<ge> lru_cap c then
                     go_bind (removeLast (lru_list c)) (\<lambda>(elem, l).
                     go_bind (get_v elem l) (\<lambda>k.
                       Ret (elem, l, (lru_items c)(k := None), True)))
                   else let (elem, l) = new_elem (lru_list c) in Ret (elem, l, lru_items c, False))
            (\<lambda>(elem, l, items, evicted).
              go_bind (set_v elem key l) (\<lambda>l.
              go_bind (pushElem elem l) (\<lambda>l.
                Ret (evicted, c\<lparr>lru_items := items(key \<mapsto> (elem, value)), lru_list := l\<rparr>)))))"

definition lru_Contains :: "'k \<Rightarrow> ('k, 'v) lru \<Rightarrow> bool" where
  "lru_Contains key c \<longleftrightarrow> lru_items c key \<noteq> None"

definition lru_Get :: "'k \<Rightarrow> ('k, 'v) lru \<Rightarrow> ('v option \<times> ('k, 'v) lru) go" where
  "lru_Get key c =
     (case lru_items c key of
        None \<Rightarrow> Ret (None, c)
      | Some (elem, value) \<Rightarrow>
          go_bind (moveToFront elem (lru_list c)) (\<lambda>l. Ret (Some value, c\<lparr>lru_list := l\<rparr>)))"

text \<open>The value \<open>items[key]\<close> of a key that is missing would be the zero value; here it panics.\<close>

definition lru_GetOldest :: "('k, 'v) lru \<Rightarrow> ('k \<times> 'v) option go" where
  "lru_GetOldest c =
     go_bind (list_last (lru_list c)) (\<lambda>lastElem.
     if lastElem = 0 then Ret None
     else go_bind (get_v lastElem (lru_list c)) (\<lambda>key.
       case lru_items c key of None \<Rightarrow> Panic NilDereference | Some (_, value) \<Rightarrow> Ret (Some (key, value))))"

definition lru_Peek :: "'k \<Rightarrow> ('k, 'v) lru \<Rightarrow> 'v option" where
  "lru_Peek key c = map_option snd (lru_items c key)"

definition lru_Purge :: "('k, 'v) lru \<Rightarrow> ('k, 'v) lru" where
  "lru_Purge c = c\<lparr>lru_list := list_init (lru_list c), lru_items := Map.empty\<rparr>"

definition lru_Remove :: "'k \<Rightarrow> ('k, 'v) lru \<Rightarrow> (bool \<times> ('k, 'v) lru) go" where
  "lru_Remove key c =
     (case lru_items c key of
        None \<Rightarrow> Ret (False, c)
      | Some (elem, _) \<Rightarrow>
          go_bind (list_remove elem (lru_list c)) (\<lambda>l.
            Ret (True, c\<lparr>lru_items := (lru_items c)(key := None), lru_list := l\<rparr>)))"

definition lru_RemoveOldest :: "('k, 'v) lru \<Rightarrow> (('k \<times> 'v) option \<times> ('k, 'v) lru) go" where
  "lru_RemoveOldest c =
     go_bind (list_last (lru_list c)) (\<lambda>lastElem.
     if lastElem = 0 then Ret (None, c)
     else go_bind (get_v lastElem (lru_list c)) (\<lambda>key.
       case lru_items c key of
         None \<Rightarrow> Panic NilDereference
       | Some (_, value) \<Rightarrow>
           go_bind (list_remove lastElem (lru_list c)) (\<lambda>l.
             Ret (Some (key, value), c\<lparr>lru_items := (lru_items c)(key := None), lru_list := l\<rparr>))))"

definition lru_Keys :: "('k, 'v) lru \<Rightarrow> 'k list go" where
  "lru_Keys c = go_bind (get_prev root_elem (lru_list c)) (\<lambda>e. append_from (lru_Len c) e (lru_list c))"

section \<open>SizeConstrainedCache\<close>

record 'k blob_cache =
  bc_size :: u64
  bc_maxSize :: u64
  bc_lru :: "('k, bytes) lru"

text \<open>The capacity of the cache below is \<open>math.MaxInt\<close>.\<close>

definition NewSizeConstrainedCache :: "'k \<Rightarrow> u64 \<Rightarrow> 'k blob_cache" where
  "NewSizeConstrainedCache zero maxSize =
     \<lparr>bc_size = 0, bc_maxSize = maxSize, bc_lru = NewBasicLRU zero 9223372036854775807\<rparr>"

text \<open>The loop of \<open>Add\<close>; every round but the last removes an item, so \<open>Len + 1\<close> rounds are enough.\<close>

fun make_room :: "nat \<Rightarrow> u64 \<Rightarrow> u64 \<Rightarrow> bool \<Rightarrow> ('k, bytes) lru \<Rightarrow> (bool \<times> u64 \<times> ('k, bytes) lru) go" where
  "make_room n targetSize maxSize evicted c =
     (if targetSize > maxSize then
        (case n of
           0 \<Rightarrow> OutOfFuel
         | Suc n \<Rightarrow>
             go_bind (lru_RemoveOldest c) (\<lambda>(item, c).
               case item of
                 None \<Rightarrow> Ret (True, targetSize, c)
               | Some (_, v) \<Rightarrow> make_room n (targetSize - len64 v) maxSize True c))
      else Ret (evicted, targetSize, c))"

declare make_room.simps [simp del]

definition blob_Add :: "'k \<Rightarrow> bytes \<Rightarrow> 'k blob_cache \<Rightarrow> (bool \<times> 'k blob_cache) go" where
  "blob_Add key value c =
     go_bind (if \<not> lru_Contains key (bc_lru c) then
                make_room (Suc (lru_Len (bc_lru c))) (bc_size c + len64 value) (bc_maxSize c) False (bc_lru c)
              else Ret (False, bc_size c, bc_lru c)) (\<lambda>(evicted, size, l).
     go_bind (lru_Add key value l) (\<lambda>(_, l). Ret (evicted, c\<lparr>bc_size := size, bc_lru := l\<rparr>)))"

definition blob_Get :: "'k \<Rightarrow> 'k blob_cache \<Rightarrow> (bytes option \<times> 'k blob_cache) go" where
  "blob_Get key c = go_bind (lru_Get key (bc_lru c)) (\<lambda>(r, l). Ret (r, c\<lparr>bc_lru := l\<rparr>))"

section \<open>The ring holds a list\<close>

fun links :: "(nat \<Rightarrow> nat) \<Rightarrow> (nat \<Rightarrow> nat) \<Rightarrow> nat list \<Rightarrow> bool" where
  "links nx pv (a # b # xs) \<longleftrightarrow> nx a = b \<and> pv b = a \<and> links nx pv (b # xs)"
| "links nx pv xs \<longleftrightarrow> True"

lemma links_append: "links nx pv (xs @ m # ys) \<longleftrightarrow> links nx pv (xs @ [m]) \<and> links nx pv (m # ys)"
proof (induction xs)
  case (Cons x xs)
  then show ?case by (cases xs) auto
qed simp

lemma links_cong:
  "(\<And>x. x \<in> set (butlast xs) \<Longrightarrow> nx' x = nx x) \<Longrightarrow> (\<And>x. x \<in> set (tl xs) \<Longrightarrow> pv' x = pv x) \<Longrightarrow>
   links nx pv xs \<Longrightarrow> links nx' pv' xs"
  by (induction nx pv xs rule: links.induct) (auto split: if_splits)

definition ring_of :: "'k ring \<Rightarrow> nat list \<Rightarrow> bool" where
  "ring_of l es \<longleftrightarrow> links (rg_next l) (rg_prev l) (1 # es @ [1]) \<and> distinct es \<and> (\<forall>e\<in>set es. 1 < e \<and> e < rg_fresh l) \<and> 1 < rg_fresh l"

lemma ring_of_v [simp]: "ring_of (l\<lparr>rg_v := f\<rparr>) es = ring_of l es"
  by (simp add: ring_of_def)

lemma ring_ends:
  assumes "ring_of l es"
  shows "rg_next l 1 = hd (es @ [1])" "rg_prev l 1 = last (1 # es)"
proof -
  have r: "links (rg_next l) (rg_prev l) (1 # es @ [1])" using assms by (simp add: ring_of_def)
  then show "rg_next l 1 = hd (es @ [1])" by (cases es) auto
  obtain as p where as: "1 # es = as @ [p]" by (metis append_butlast_last_id list.distinct(1))
  have "(1 # es) @ [1] = as @ p # [1]" unfolding as by simp
  then have "links (rg_next l) (rg_prev l) (as @ p # [1])" using r by (simp only: append_Cons)
  then show "rg_prev l 1 = last (1 # es)" using links_append [of _ _ as p "[1]"] unfolding as by simp
qed

text \<open>Fields of the ring that an operation leaves alone.\<close>

definition same_v :: "'k ring \<Rightarrow> 'k ring \<Rightarrow> bool" where
  "same_v l l' \<longleftrightarrow> rg_v l' = rg_v l \<and> rg_fresh l' = rg_fresh l"

lemma pushElem_ring:
  assumes "ring_of l es" "1 < e" "e < rg_fresh l" "e \<notin> set es"
  shows "\<exists>l'. pushElem e l = Ret l' \<and> ring_of l' (e # es) \<and> same_v l l'"
proof -
  define n where "n = hd (es @ [1])"
  define l' where "l' = l\<lparr>rg_next := (rg_next l)(e := n, 1 := e), rg_prev := (rg_prev l)(e := 1, n := e)\<rparr>"
  have n: "n \<noteq> 0" "n \<noteq> e" "rg_next l 1 = n"
    using assms ring_ends(1) [OF assms(1)] by (cases es; auto simp: n_def ring_of_def)+
  have "pushElem e l = Ret l'"
    using assms(2) n by (simp add: pushElem_def set_prev_def get_next_def set_next_def l'_def)
  moreover have "links (rg_next l') (rg_prev l') (e # es @ [1])"
  proof (cases es)
    case Nil
    then show ?thesis using assms(2) by (simp add: l'_def n_def)
  next
    case (Cons x xs)
    have "links (rg_next l) (rg_prev l) (x # xs @ [1])" using assms(1) by (simp add: ring_of_def Cons)
    then have "links (rg_next l') (rg_prev l') (x # xs @ [1])"
      by (rule links_cong [rotated 2]) (use assms in \<open>auto simp: l'_def n_def Cons ring_of_def butlast_append split: if_splits\<close>)
    then show ?thesis using assms(2) n by (simp add: l'_def Cons n_def)
  qed
  ultimately show ?thesis
    using assms n by (intro exI [of _ l']) (auto simp: ring_of_def same_v_def l'_def)
qed

lemma unlink_ring:
  assumes "ring_of l (xs @ e # ys)"
  shows "\<exists>l'. unlink e l = Ret l' \<and> ring_of l' (xs @ ys) \<and> same_v l l'"
proof -
  define p where "p = last (1 # xs)"
  define as where "as = butlast (1 # xs)"
  define n where "n = hd (ys @ [1])"
  define bs where "bs = tl (ys @ [1])"
  have as: "1 # xs = as @ [p]" by (simp add: as_def p_def)
  have bs: "ys @ [1] = n # bs" by (simp add: n_def bs_def)
  define l' where "l' = l\<lparr>rg_next := (rg_next l)(p := n), rg_prev := (rg_prev l)(n := p)\<rparr>"
  have e: "1 < e" "e \<notin> set xs" "e \<notin> set ys" and d: "distinct (1 # xs @ ys)" and z: "0 \<notin> set (1 # xs @ ys)"
    using assms by (auto simp: ring_of_def)
  have "1 # (xs @ e # ys) @ [1] = (1 # xs) @ e # (ys @ [1])" by simp
  also have "\<dots> = as @ p # e # n # bs" unfolding as bs by simp
  finally have "links (rg_next l) (rg_prev l) (as @ p # e # n # bs)" using assms by (simp add: ring_of_def)
  then have L: "links (rg_next l) (rg_prev l) (as @ [p])" "rg_next l p = e" "rg_prev l e = p" "rg_next l e = n" "rg_prev l n = e"
    "links (rg_next l) (rg_prev l) (n # bs)"
    using links_append [of _ _ as p "e # n # bs"] by simp_all
  have pn: "p \<in> set (1 # xs)" "n \<in> set (ys @ [1])" unfolding as bs by simp_all
  have "0 \<notin> set (1 # xs)" "0 \<notin> set (ys @ [1])" using z by auto
  then have nz: "p \<noteq> 0" "n \<noteq> 0" using pn by (metis, metis)
  have "e \<noteq> p" using pn(1) e by auto
  then have "unlink e l = Ret l'"
    using nz e L by (simp add: unlink_def get_prev_def get_next_def set_next_def set_prev_def l'_def)
  moreover have "links (rg_next l') (rg_prev l') (as @ [p])"
  proof (rule links_cong [OF _ _ L(1)])
    have "distinct (as @ [p])" using d as by (metis distinct_append append_Cons)
    then show "rg_next l' x = rg_next l x" if "x \<in> set (butlast (as @ [p]))" for x using that by (auto simp: l'_def)
    have "x \<noteq> n" if "x \<in> set xs" for x using that pn(2) d by auto
    moreover have "tl (as @ [p]) = xs" using as by (metis list.sel(3))
    ultimately show "rg_prev l' x = rg_prev l x" if "x \<in> set (tl (as @ [p]))" for x using that by (auto simp: l'_def)
  qed
  moreover have "links (rg_next l') (rg_prev l') (n # bs)"
  proof (rule links_cong [OF _ _ L(6)])
    have "butlast (n # bs) = ys" using bs by (metis butlast_snoc)
    moreover have "x \<noteq> p" if "x \<in> set ys" for x using that pn(1) d by auto
    ultimately show "rg_next l' x = rg_next l x" if "x \<in> set (butlast (n # bs))" for x using that by (auto simp: l'_def)
    have "distinct (ys @ [1])" using d by auto
    then have "n \<notin> set bs" using bs by (metis distinct.simps(2))
    then show "rg_prev l' x = rg_prev l x" if "x \<in> set (tl (n # bs))" for x using that by (auto simp: l'_def)
  qed
  ultimately have "links (rg_next l') (rg_prev l') (as @ p # n # bs)"
    using links_append [of _ _ as p "n # bs"] by (simp add: l'_def)
  moreover have "as @ p # n # bs = (as @ [p]) @ n # bs" by simp
  then have "as @ p # n # bs = 1 # (xs @ ys) @ [1]" unfolding as [symmetric] bs [symmetric] by simp
  ultimately show ?thesis
    using assms \<open>unlink e l = Ret l'\<close> by (intro exI [of _ l']) (auto simp: ring_of_def same_v_def l'_def)
qed

lemma moveToFront_ring:
  assumes "ring_of l (xs @ e # ys)"
  shows "\<exists>l'. moveToFront e l = Ret l' \<and> ring_of l' (e # xs @ ys) \<and> same_v l l'"
proof -
  obtain l1 where 1: "unlink e l = Ret l1" "ring_of l1 (xs @ ys)" "same_v l l1" using unlink_ring [OF assms] by blast
  have "1 < e" "e < rg_fresh l1" "e \<notin> set (xs @ ys)" using assms 1(3) by (auto simp: ring_of_def same_v_def)
  then show ?thesis using pushElem_ring [OF 1(2)] 1 by (fastforce simp: moveToFront_def same_v_def)
qed

lemma list_remove_ring:
  assumes "ring_of l (xs @ e # ys)"
  shows "\<exists>l'. list_remove e l = Ret l' \<and> ring_of l' (xs @ ys) \<and> same_v l l'"
proof -
  obtain l1 where 1: "unlink e l = Ret l1" "ring_of l1 (xs @ ys)" "same_v l l1" using unlink_ring [OF assms] by blast
  have e: "1 < e" "e \<notin> set (xs @ ys)" using assms by (auto simp: ring_of_def)
  define l' where "l' = l1\<lparr>rg_next := (rg_next l1)(e := 0), rg_prev := (rg_prev l1)(e := 0)\<rparr>"
  have "links (rg_next l') (rg_prev l') (1 # (xs @ ys) @ [1])"
  proof (rule links_cong)
    show "links (rg_next l1) (rg_prev l1) (1 # (xs @ ys) @ [1])" using 1(2) by (simp add: ring_of_def)
  qed (use e in \<open>auto simp: l'_def butlast_append split: if_splits\<close>)
  then have "ring_of l' (xs @ ys)" using 1(2) by (simp add: ring_of_def l'_def)
  moreover have "list_remove e l = Ret l'" using e(1) 1(1) by (simp add: list_remove_def set_next_def set_prev_def l'_def)
  moreover have "same_v l l'" using 1(3) by (simp add: same_v_def l'_def)
  ultimately show ?thesis by blast
qed

lemma list_last_ring:
  assumes "ring_of l es"
  shows "list_last l = Ret (if es = [] then 0 else last es)"
proof -
  have "last es \<noteq> 1" if "es \<noteq> []" using assms that by (metis last_in_set less_irrefl ring_of_def)
  then show ?thesis using ring_ends(2) [OF assms] by (auto simp: list_last_def get_prev_def)
qed

lemma new_elem_ring:
  assumes "ring_of l es"
  shows "\<exists>l'. new_elem l = (rg_fresh l, l') \<and> ring_of l' es \<and> rg_v l' = rg_v l \<and> 1 < rg_fresh l \<and> rg_fresh l < rg_fresh l' \<and> rg_fresh l \<notin> set es"
proof -
  define l' where "l' = snd (new_elem l)"
  have "links (rg_next l') (rg_prev l') (1 # es @ [1])"
  proof (rule links_cong)
    show "links (rg_next l) (rg_prev l) (1 # es @ [1])" using assms by (simp add: ring_of_def)
  qed (use assms in \<open>auto simp: l'_def new_elem_def ring_of_def butlast_append split: if_splits\<close>)
  then show ?thesis using assms by (intro exI [of _ l']) (auto simp: ring_of_def l'_def new_elem_def)
qed

lemma append_from_ring:
  assumes "ring_of l (xs @ ys)" "length xs \<le> n"
  shows "append_from n (last (1 # xs)) l = Ret (rev (map (rg_v l) xs))"
  using assms
proof (induction n arbitrary: xs ys)
  case (Suc n)
  show ?case
  proof (cases xs rule: rev_cases)
    case (snoc as e)
    have e: "1 < e" using Suc.prems(1) by (simp add: snoc ring_of_def)
    have "(1 # as) @ e # ys @ [1] = 1 # (xs @ ys) @ [1]" by (simp add: snoc)
    moreover obtain bs p where bs: "1 # as = bs @ [p]" by (metis append_butlast_last_id list.distinct(1))
    ultimately have "links (rg_next l) (rg_prev l) (bs @ p # e # ys @ [1])" using Suc.prems(1)
      by (metis append.assoc append_Cons append_Nil ring_of_def)
    then have "rg_prev l e = p" using links_append [of _ _ bs p "e # ys @ [1]"] by simp
    then have "rg_prev l e = last (1 # as)" unfolding bs by simp
    then show ?thesis using Suc.IH [of as "e # ys"] Suc.prems e by (simp add: snoc get_v_def get_prev_def)
  qed simp
qed simp

section \<open>The cache is a bounded list in order of use\<close>

text \<open>
  The cache holds triples of a key, its element and its value, the most recently used first; the abstract
  state is the list of keys with their values.
\<close>

definition lru_rep :: "('k, 'v) lru \<Rightarrow> ('k \<times> nat \<times> 'v) list \<Rightarrow> bool" where
  "lru_rep c ts \<longleftrightarrow> ring_of (lru_list c) (map (fst \<circ> snd) ts) \<and> (\<forall>(k, e, v)\<in>set ts. rg_v (lru_list c) e = k) \<and>
     distinct (map fst ts) \<and> lru_items c = map_of ts \<and> length ts \<le> lru_cap c \<and> 1 \<le> lru_cap c"

abbreviation kv :: "'k \<times> nat \<times> 'v \<Rightarrow> 'k \<times> 'v" where
  "kv \<equiv> \<lambda>t. (fst t, snd (snd t))"

definition drop_key :: "'k \<Rightarrow> ('k \<times> 'v) list \<Rightarrow> ('k \<times> 'v) list" where
  "drop_key k xs = filter (\<lambda>p. fst p \<noteq> k) xs"

definition sp_Add :: "nat \<Rightarrow> 'k \<Rightarrow> 'v \<Rightarrow> ('k \<times> 'v) list \<Rightarrow> bool \<times> ('k \<times> 'v) list" where
  "sp_Add cap k v xs =
     (if k \<in> fst ` set xs then (False, (k, v) # drop_key k xs)
      else if length xs \<ge> cap then (True, (k, v) # butlast xs)
      else (False, (k, v) # xs))"

definition sp_Get :: "'k \<Rightarrow> ('k \<times> 'v) list \<Rightarrow> 'v option \<times> ('k \<times> 'v) list" where
  "sp_Get k xs = (case map_of xs k of None \<Rightarrow> (None, xs) | Some v \<Rightarrow> (Some v, (k, v) # drop_key k xs))"

definition sp_RemoveOldest :: "('k \<times> 'v) list \<Rightarrow> ('k \<times> 'v) option \<times> ('k \<times> 'v) list" where
  "sp_RemoveOldest xs = (if xs = [] then (None, []) else (Some (last xs), butlast xs))"

lemma lru_rep_find:
  assumes "lru_rep c ts" "lru_items c k = Some (e, v)"
  obtains as bs where "ts = as @ (k, e, v) # bs" "k \<notin> fst ` set (as @ bs)"
proof -
  have "(k, e, v) \<in> set ts" using assms by (auto simp: lru_rep_def intro: map_of_SomeD)
  then obtain as bs where ts: "ts = as @ (k, e, v) # bs" by (auto simp: in_set_conv_decomp)
  then have "k \<notin> fst ` set (as @ bs)" using assms(1) by (auto simp: lru_rep_def)
  then show ?thesis using that ts by blast
qed

lemma lru_rep_items: "lru_rep c ts \<Longrightarrow> lru_items c k = map_of ts k"
  by (simp add: lru_rep_def)

lemma map_of_kv: "map_of (map kv ts) k = map_option snd (map_of ts k)"
  by (induction ts) auto

lemma kv_keys: "fst ` set (map kv ts) = fst ` set ts"
  by (simp add: image_image)

lemma drop_key_split: "k \<notin> fst ` set (as @ bs) \<Longrightarrow> drop_key k (map kv (as @ (k, e, v) # bs)) = map kv (as @ bs)"
proof -
  assume k: "k \<notin> fst ` set (as @ bs)"
  then have "filter (\<lambda>t. fst t \<noteq> k) as = as" "filter (\<lambda>t. fst t \<noteq> k) bs = bs" by (auto simp: filter_id_conv)
  then show ?thesis by (simp add: drop_key_def filter_map o_def)
qed

lemma lru_rep_front:
  assumes "lru_rep c (as @ (k, e, v) # bs)"
  obtains l where "moveToFront e (lru_list c) = Ret l"
    "lru_rep (c\<lparr>lru_items := (lru_items c)(k \<mapsto> (e, v')), lru_list := l\<rparr>) ((k, e, v') # as @ bs)"
    "v' = v \<Longrightarrow> lru_rep (c\<lparr>lru_list := l\<rparr>) ((k, e, v) # as @ bs)"
proof -
  have r: "ring_of (lru_list c) (map (fst \<circ> snd) as @ e # map (fst \<circ> snd) bs)" using assms by (simp add: lru_rep_def)
  obtain l where l: "moveToFront e (lru_list c) = Ret l" "ring_of l (e # map (fst \<circ> snd) as @ map (fst \<circ> snd) bs)" "same_v (lru_list c) l"
    using moveToFront_ring [OF r] by blast
  have k: "k \<notin> fst ` set as" "k \<notin> fst ` set bs" using assms by (auto simp: lru_rep_def)
  then have n: "map_of as k = None" "map_of bs k = None" by (simp_all add: map_of_eq_None_iff)
  have "(map_of (as @ (k, e, v) # bs))(k \<mapsto> (e, v')) = map_of ((k, e, v') # as @ bs)"
    using n by (auto simp: map_of_append fun_eq_iff map_add_def split: option.splits)
  then have "lru_rep (c\<lparr>lru_items := (lru_items c)(k \<mapsto> (e, v')), lru_list := l\<rparr>) ((k, e, v') # as @ bs)"
    using assms l(2,3) k by (auto simp: lru_rep_def same_v_def)
  moreover have "map_of (as @ (k, e, v) # bs) = map_of ((k, e, v) # as @ bs)"
    using n by (auto simp: map_of_append fun_eq_iff map_add_def split: option.splits)
  then have "lru_rep (c\<lparr>lru_list := l\<rparr>) ((k, e, v) # as @ bs)"
    using assms l(2,3) k by (auto simp: lru_rep_def same_v_def)
  ultimately show ?thesis using that l(1) by blast
qed

lemma lru_rep_drop:
  assumes "lru_rep c (as @ (k, e, v) # bs)"
  obtains l where "list_remove e (lru_list c) = Ret l"
    "lru_rep (c\<lparr>lru_items := (lru_items c)(k := None), lru_list := l\<rparr>) (as @ bs)"
proof -
  have r: "ring_of (lru_list c) (map (fst \<circ> snd) as @ e # map (fst \<circ> snd) bs)" using assms by (simp add: lru_rep_def)
  obtain l where l: "list_remove e (lru_list c) = Ret l" "ring_of l (map (fst \<circ> snd) as @ map (fst \<circ> snd) bs)" "same_v (lru_list c) l"
    using list_remove_ring [OF r] by blast
  have k: "k \<notin> fst ` set as" "k \<notin> fst ` set bs" using assms by (auto simp: lru_rep_def)
  then have n: "map_of as k = None" "map_of bs k = None" by (simp_all add: map_of_eq_None_iff)
  have "(map_of (as @ (k, e, v) # bs))(k := None) = map_of (as @ bs)"
    using n by (auto simp: map_of_append fun_eq_iff map_add_def split: option.splits)
  then have "lru_rep (c\<lparr>lru_items := (lru_items c)(k := None), lru_list := l\<rparr>) (as @ bs)"
    using assms l(2,3) by (auto simp: lru_rep_def same_v_def)
  then show ?thesis using that l(1) by blast
qed

lemma lru_Len_rep: "lru_rep c ts \<Longrightarrow> lru_Len c = length ts"
proof -
  assume r: "lru_rep c ts"
  then have "dom (lru_items c) = set (map fst ts)" by (simp add: lru_rep_def dom_map_of_conv_image_fst)
  moreover have "distinct (map fst ts)" using r by (simp add: lru_rep_def)
  ultimately show ?thesis using distinct_card [of "map fst ts"] by (simp add: lru_Len_def)
qed

lemma lru_last_rep:
  assumes "lru_rep c ts"
  shows "ts = [] \<Longrightarrow> list_last (lru_list c) = Ret 0"
    "ts = as @ [(k, e, v)] \<Longrightarrow> list_last (lru_list c) = Ret e \<and> 1 < e \<and> get_v e (lru_list c) = Ret k \<and> lru_items c k = Some (e, v)"
proof -
  have l: "list_last (lru_list c) = Ret (if ts = [] then 0 else last (map (fst \<circ> snd) ts))"
    using assms list_last_ring [of "lru_list c" "map (fst \<circ> snd) ts"] by (simp add: lru_rep_def)
  show "ts = [] \<Longrightarrow> list_last (lru_list c) = Ret 0" using l by simp
  assume ts: "ts = as @ [(k, e, v)]"
  then have "map_of as k = None" using assms by (simp add: lru_rep_def map_of_eq_None_iff)
  then have "lru_items c k = Some (e, v)" using assms by (simp add: lru_rep_def ts map_add_def)
  moreover have "1 < e" "rg_v (lru_list c) e = k" using assms by (simp_all add: lru_rep_def ring_of_def ts)
  ultimately show "list_last (lru_list c) = Ret e \<and> 1 < e \<and> get_v e (lru_list c) = Ret k \<and> lru_items c k = Some (e, v)"
    using l by (simp add: ts get_v_def)
qed

text \<open>Each operation against its specification.\<close>

definition lru_is :: "('k, 'v) lru \<Rightarrow> nat \<Rightarrow> ('k \<times> 'v) list \<Rightarrow> bool" where
  "lru_is c cap xs \<longleftrightarrow> lru_cap c = cap \<and> (\<exists>ts. lru_rep c ts \<and> xs = map kv ts)"

lemma lru_New_is: "lru_is (NewBasicLRU z cap) (if cap \<le> 0 then 1 else nat cap) []"
  by (auto simp: lru_is_def lru_rep_def NewBasicLRU_def newList_def list_init_def ring_of_def)

lemma lru_Add_is:
  assumes "lru_is c cap xs"
  shows "\<exists>c'. lru_Add k v c = Ret (fst (sp_Add cap k v xs), c') \<and> lru_is c' cap (snd (sp_Add cap k v xs))"
proof -
  obtain ts where ts: "lru_rep c ts" "xs = map kv ts" "lru_cap c = cap" using assms by (auto simp: lru_is_def)
  show ?thesis
  proof (cases "lru_items c k")
    case (Some ev)
    obtain e v0 where ev: "ev = (e, v0)" by fastforce
    obtain as bs where d: "ts = as @ (k, e, v0) # bs" "k \<notin> fst ` set (as @ bs)"
      using lru_rep_find [OF ts(1) Some [unfolded ev]] by blast
    obtain l where l: "moveToFront e (lru_list c) = Ret l"
      "lru_rep (c\<lparr>lru_items := (lru_items c)(k \<mapsto> (e, v)), lru_list := l\<rparr>) ((k, e, v) # as @ bs)"
      using lru_rep_front [of c as k e v0 bs v] ts(1) d(1) by blast
    have "sp_Add cap k v xs = (False, (k, v) # map kv (as @ bs))"
      using drop_key_split [OF d(2)] by (simp add: sp_Add_def ts(2) d(1))
    then show ?thesis using l ts(3) by (auto simp: lru_Add_def Some ev lru_is_def)
  next
    case None
    then have k: "k \<notin> fst ` set ts" "k \<notin> fst ` set xs"
      using ts(1,2) by (simp_all add: lru_rep_items map_of_eq_None_iff image_image)
    have push: "\<exists>l'. pushElem e l1 = Ret l' \<and>
        lru_rep (c\<lparr>lru_items := (map_of ts')(k \<mapsto> (e, v)), lru_list := l'\<rparr>) ((k, e, v) # ts')"
      if "ring_of l (map (fst \<circ> snd) ts')" "\<forall>(k, e, v)\<in>set ts'. rg_v l e = k" "distinct (map fst ts')" "k \<notin> fst ` set ts'"
        "length ts' < cap" "1 < e" "e < rg_fresh l" "e \<notin> set (map (fst \<circ> snd) ts')" "l1 = l\<lparr>rg_v := (rg_v l)(e := k)\<rparr>" for e l l1 ts'
    proof -
      note pr = that
      have "\<exists>l'. pushElem e l1 = Ret l' \<and> ring_of l' (e # map (fst \<circ> snd) ts') \<and> same_v l1 l'"
        using pr by (intro pushElem_ring) simp_all
      then obtain l' where l': "pushElem e l1 = Ret l'" "ring_of l' (map (fst \<circ> snd) ((k, e, v) # ts'))" "rg_v l' = (rg_v l)(e := k)"
        using pr(9) by (auto simp: same_v_def)
      have "rg_v l' e0 = k0" if "(k0, e0, v0) \<in> set ((k, e, v) # ts')" for k0 e0 v0
        using that l'(3) \<open>\<forall>(k, e, v)\<in>set ts'. rg_v l e = k\<close> \<open>e \<notin> set (map (fst \<circ> snd) ts')\<close> by (fastforce simp: image_iff)
      then have "lru_rep (c\<lparr>lru_items := (map_of ts')(k \<mapsto> (e, v)), lru_list := l'\<rparr>) ((k, e, v) # ts')"
        using l'(2) pr(3,4,5) ts(3) unfolding lru_rep_def by auto
      then show ?thesis using l'(1) by blast
    qed
    show ?thesis
    proof (cases "length ts \<ge> cap")
      case False
      obtain l1 where l1: "new_elem (lru_list c) = (rg_fresh (lru_list c), l1)" "ring_of l1 (map (fst \<circ> snd) ts)" "rg_v l1 = rg_v (lru_list c)"
        "1 < rg_fresh (lru_list c)" "rg_fresh (lru_list c) < rg_fresh l1" "rg_fresh (lru_list c) \<notin> set (map (fst \<circ> snd) ts)"
        using new_elem_ring [of "lru_list c" "map (fst \<circ> snd) ts"] ts(1) by (auto simp: lru_rep_def)
      obtain l' where l': "pushElem (rg_fresh (lru_list c)) (l1\<lparr>rg_v := (rg_v l1)(rg_fresh (lru_list c) := k)\<rparr>) = Ret l'"
        "lru_rep (c\<lparr>lru_items := (map_of ts)(k \<mapsto> (rg_fresh (lru_list c), v)), lru_list := l'\<rparr>) ((k, rg_fresh (lru_list c), v) # ts)"
        using push [OF l1(2) _ _ k(1) _ l1(4,5,6) refl] ts(1) False l1(3) by (auto simp: lru_rep_def)
      have "lru_Add k v c = Ret (False, c\<lparr>lru_items := (map_of ts)(k \<mapsto> (rg_fresh (lru_list c), v)), lru_list := l'\<rparr>)"
        using None l1(1,4) l'(1) False lru_Len_rep [OF ts(1)] ts(1,3) by (simp add: lru_Add_def set_v_def lru_rep_def)
      moreover have "sp_Add cap k v xs = (False, (k, v) # xs)" using k(2) False ts(2) by (simp add: sp_Add_def)
      ultimately show ?thesis using l'(2) ts by (auto simp: lru_is_def)
    next
      case True
      then have "ts \<noteq> []" using ts(1,3) by (auto simp: lru_rep_def)
      then obtain as k0 e v0 where t: "ts = as @ [(k0, e, v0)]" by (cases ts rule: rev_cases) auto
      note la = lru_last_rep(2) [OF ts(1) t]
      have r: "ring_of (lru_list c) (map (fst \<circ> snd) as @ e # [])" using ts(1) by (simp add: lru_rep_def t)
      obtain l1 where l1: "list_remove e (lru_list c) = Ret l1" "ring_of l1 (map (fst \<circ> snd) as)" "same_v (lru_list c) l1"
        using list_remove_ring [OF r] by auto
      have e: "1 < e" "e < rg_fresh l1" "e \<notin> set (map (fst \<circ> snd) as)" using r l1(3) by (auto simp: ring_of_def same_v_def)
      obtain l' where l': "pushElem e (l1\<lparr>rg_v := (rg_v l1)(e := k)\<rparr>) = Ret l'"
        "lru_rep (c\<lparr>lru_items := (map_of as)(k \<mapsto> (e, v)), lru_list := l'\<rparr>) ((k, e, v) # as)"
        using push [OF l1(2) _ _ _ _ e refl] ts(1,3) k(1) l1(3) by (auto simp: lru_rep_def t same_v_def)
      have "map_of as k0 = None" using ts(1) by (simp add: lru_rep_def t map_of_eq_None_iff)
      then have i: "(lru_items c)(k0 := None) = map_of as"
        using ts(1) by (auto simp: lru_rep_def t fun_eq_iff map_add_def split: option.splits)
      have "lru_Add k v c = Ret (True, c\<lparr>lru_items := (map_of as)(k \<mapsto> (e, v)), lru_list := l'\<rparr>)"
        using None la l1(1,3) l'(1) True lru_Len_rep [OF ts(1)] ts(3) e(1) i
        by (simp add: lru_Add_def set_v_def removeLast_def get_v_def same_v_def)
      moreover have "sp_Add cap k v xs = (True, (k, v) # map kv as)" using k(2) True ts(2) by (simp add: sp_Add_def t)
      ultimately show ?thesis using l'(2) ts(3) by (auto simp: lru_is_def)
    qed
  qed
qed

lemma lru_Get_is:
  assumes "lru_is c cap xs"
  shows "\<exists>c'. lru_Get k c = Ret (fst (sp_Get k xs), c') \<and> lru_is c' cap (snd (sp_Get k xs))"
proof -
  obtain ts where ts: "lru_rep c ts" "xs = map kv ts" "lru_cap c = cap" using assms by (auto simp: lru_is_def)
  have m: "map_of xs k = map_option snd (lru_items c k)" using ts(1,2) by (simp add: map_of_kv lru_rep_items)
  show ?thesis
  proof (cases "lru_items c k")
    case (Some ev)
    obtain e v where ev: "ev = (e, v)" by fastforce
    obtain as bs where d: "ts = as @ (k, e, v) # bs" "k \<notin> fst ` set (as @ bs)"
      using lru_rep_find [OF ts(1) Some [unfolded ev]] by blast
    obtain l where l: "moveToFront e (lru_list c) = Ret l" "lru_rep (c\<lparr>lru_list := l\<rparr>) ((k, e, v) # as @ bs)"
      using lru_rep_front [of c as k e v bs v] ts(1) d(1) by blast
    have "sp_Get k xs = (Some v, (k, v) # map kv (as @ bs))"
      using m drop_key_split [OF d(2)] by (simp add: sp_Get_def Some ev ts(2) d(1))
    then show ?thesis using l ts(3) by (auto simp: lru_Get_def Some ev lru_is_def)
  qed (use m assms in \<open>auto simp: lru_Get_def sp_Get_def\<close>)
qed

lemma lru_Remove_is:
  assumes "lru_is c cap xs"
  shows "\<exists>c'. lru_Remove k c = Ret (k \<in> fst ` set xs, c') \<and> lru_is c' cap (drop_key k xs)"
proof -
  obtain ts where ts: "lru_rep c ts" "xs = map kv ts" "lru_cap c = cap" using assms by (auto simp: lru_is_def)
  have m: "k \<in> fst ` set xs \<longleftrightarrow> lru_items c k \<noteq> None"
    using ts(1,2) by (simp add: lru_rep_items map_of_eq_None_iff image_image)
  show ?thesis
  proof (cases "lru_items c k")
    case (Some ev)
    obtain e v where ev: "ev = (e, v)" by fastforce
    obtain as bs where d: "ts = as @ (k, e, v) # bs" "k \<notin> fst ` set (as @ bs)"
      using lru_rep_find [OF ts(1) Some [unfolded ev]] by blast
    obtain l where l: "list_remove e (lru_list c) = Ret l"
      "lru_rep (c\<lparr>lru_items := (lru_items c)(k := None), lru_list := l\<rparr>) (as @ bs)"
      using lru_rep_drop [of c as k e v bs] ts(1) d(1) by blast
    have "drop_key k xs = map kv (as @ bs)" using drop_key_split [OF d(2)] by (simp add: ts(2) d(1))
    then show ?thesis using l ts(3) m by (auto simp: lru_Remove_def Some ev lru_is_def)
  next
    case None
    then have "drop_key k xs = xs" using m by (auto simp: drop_key_def filter_id_conv)
    then show ?thesis using None m assms by (auto simp: lru_Remove_def)
  qed
qed

lemma lru_Oldest_is:
  assumes "lru_is c cap xs"
  shows "lru_GetOldest c = Ret (fst (sp_RemoveOldest xs))"
    "\<exists>c'. lru_RemoveOldest c = Ret (fst (sp_RemoveOldest xs), c') \<and> lru_is c' cap (snd (sp_RemoveOldest xs))"
proof -
  obtain ts where ts: "lru_rep c ts" "xs = map kv ts" "lru_cap c = cap" using assms by (auto simp: lru_is_def)
  have "lru_GetOldest c = Ret (fst (sp_RemoveOldest xs)) \<and>
    (\<exists>c'. lru_RemoveOldest c = Ret (fst (sp_RemoveOldest xs), c') \<and> lru_is c' cap (snd (sp_RemoveOldest xs)))"
  proof (cases ts rule: rev_cases)
    case Nil
    then show ?thesis
      using ts assms lru_last_rep(1) [OF ts(1) Nil] by (auto simp: lru_GetOldest_def lru_RemoveOldest_def sp_RemoveOldest_def)
  next
    case (snoc as t)
    obtain k e v where t: "ts = as @ [(k, e, v)]" using snoc by (cases t) auto
    note la = lru_last_rep(2) [OF ts(1) t]
    obtain l where l: "list_remove e (lru_list c) = Ret l"
      "lru_rep (c\<lparr>lru_items := (lru_items c)(k := None), lru_list := l\<rparr>) as"
      using lru_rep_drop [of c as k e v "[]"] ts(1) t by auto
    then show ?thesis
      using la ts(3) by (auto simp: lru_GetOldest_def lru_RemoveOldest_def sp_RemoveOldest_def ts(2) t lru_is_def)
  qed
  then show "lru_GetOldest c = Ret (fst (sp_RemoveOldest xs))"
    "\<exists>c'. lru_RemoveOldest c = Ret (fst (sp_RemoveOldest xs), c') \<and> lru_is c' cap (snd (sp_RemoveOldest xs))" by blast+
qed

lemma lru_reads_is:
  assumes "lru_is c cap xs"
  shows "lru_Contains k c \<longleftrightarrow> k \<in> fst ` set xs" "lru_Peek k c = map_of xs k" "lru_Len c = length xs"
    "lru_Keys c = Ret (rev (map fst xs))" "lru_is (lru_Purge c) cap []" "length xs \<le> cap"
proof -
  obtain ts where ts: "lru_rep c ts" "xs = map kv ts" "lru_cap c = cap" using assms by (auto simp: lru_is_def)
  show "lru_Contains k c \<longleftrightarrow> k \<in> fst ` set xs"
    using ts by (simp add: lru_Contains_def lru_rep_items map_of_eq_None_iff image_image)
  show "lru_Peek k c = map_of xs k" using ts by (simp add: lru_Peek_def map_of_kv lru_rep_items)
  show len: "lru_Len c = length xs" using ts lru_Len_rep by simp
  have r: "ring_of (lru_list c) (map (fst \<circ> snd) ts @ [])" using ts(1) by (simp add: lru_rep_def)
  have v: "map (rg_v (lru_list c)) (map (fst \<circ> snd) ts) = map fst xs" using ts by (auto simp: lru_rep_def split: prod.splits)
  have "get_prev 1 (lru_list c) = Ret (last (1 # map (fst \<circ> snd) ts))" using ring_ends(2) [OF r] by (simp add: get_prev_def)
  then show "lru_Keys c = Ret (rev (map fst xs))"
    using append_from_ring [OF r, of "lru_Len c"] len v ts(2) by (simp add: lru_Keys_def)
  show "lru_is (lru_Purge c) cap []"
    using ts by (auto simp: lru_is_def lru_Purge_def lru_rep_def list_init_def ring_of_def)
  show "length xs \<le> cap" using ts by (simp add: lru_rep_def)
qed

text \<open>Sequences of operations with their results, on the cache and on the list.\<close>

datatype ('k, 'v) lru_op =
    OpAdd 'k 'v | OpGet 'k | OpPeek 'k | OpContains 'k | OpRemove 'k | OpRemoveOldest | OpGetOldest | OpKeys | OpLen | OpPurge

datatype ('k, 'v) lru_result =
    RBool bool | RValue "'v option" | RItem "('k \<times> 'v) option" | RKeys "'k list" | RLen nat | RNone

definition lru_step :: "('k, 'v) lru_op \<Rightarrow> ('k, 'v) lru \<Rightarrow> (('k, 'v) lru_result \<times> ('k, 'v) lru) go" where
  "lru_step opn c =
     (case opn of
        OpAdd k v \<Rightarrow> go_bind (lru_Add k v c) (\<lambda>(r, c). Ret (RBool r, c))
      | OpGet k \<Rightarrow> go_bind (lru_Get k c) (\<lambda>(r, c). Ret (RValue r, c))
      | OpPeek k \<Rightarrow> Ret (RValue (lru_Peek k c), c)
      | OpContains k \<Rightarrow> Ret (RBool (lru_Contains k c), c)
      | OpRemove k \<Rightarrow> go_bind (lru_Remove k c) (\<lambda>(r, c). Ret (RBool r, c))
      | OpRemoveOldest \<Rightarrow> go_bind (lru_RemoveOldest c) (\<lambda>(r, c). Ret (RItem r, c))
      | OpGetOldest \<Rightarrow> go_bind (lru_GetOldest c) (\<lambda>r. Ret (RItem r, c))
      | OpKeys \<Rightarrow> go_bind (lru_Keys c) (\<lambda>r. Ret (RKeys r, c))
      | OpLen \<Rightarrow> Ret (RLen (lru_Len c), c)
      | OpPurge \<Rightarrow> Ret (RNone, lru_Purge c))"

definition sp_step :: "nat \<Rightarrow> ('k, 'v) lru_op \<Rightarrow> ('k \<times> 'v) list \<Rightarrow> ('k, 'v) lru_result \<times> ('k \<times> 'v) list" where
  "sp_step cap opn xs =
     (case opn of
        OpAdd k v \<Rightarrow> (RBool (fst (sp_Add cap k v xs)), snd (sp_Add cap k v xs))
      | OpGet k \<Rightarrow> (RValue (fst (sp_Get k xs)), snd (sp_Get k xs))
      | OpPeek k \<Rightarrow> (RValue (map_of xs k), xs)
      | OpContains k \<Rightarrow> (RBool (k \<in> fst ` set xs), xs)
      | OpRemove k \<Rightarrow> (RBool (k \<in> fst ` set xs), drop_key k xs)
      | OpRemoveOldest \<Rightarrow> (RItem (fst (sp_RemoveOldest xs)), snd (sp_RemoveOldest xs))
      | OpGetOldest \<Rightarrow> (RItem (fst (sp_RemoveOldest xs)), xs)
      | OpKeys \<Rightarrow> (RKeys (rev (map fst xs)), xs)
      | OpLen \<Rightarrow> (RLen (length xs), xs)
      | OpPurge \<Rightarrow> (RNone, []))"

fun lru_run :: "('k, 'v) lru_op list \<Rightarrow> ('k, 'v) lru \<Rightarrow> ('k, 'v) lru_result list go" where
  "lru_run [] c = Ret []"
| "lru_run (opn # ops) c = go_bind (lru_step opn c) (\<lambda>(r, c). go_bind (lru_run ops c) (\<lambda>rs. Ret (r # rs)))"

fun sp_run :: "nat \<Rightarrow> ('k, 'v) lru_op list \<Rightarrow> ('k \<times> 'v) list \<Rightarrow> ('k, 'v) lru_result list" where
  "sp_run cap [] xs = []"
| "sp_run cap (opn # ops) xs = (case sp_step cap opn xs of (r, xs) \<Rightarrow> r # sp_run cap ops xs)"

lemma lru_step_is:
  assumes "lru_is c cap xs"
  shows "\<exists>c'. lru_step opn c = Ret (fst (sp_step cap opn xs), c') \<and> lru_is c' cap (snd (sp_step cap opn xs))"
  using assms lru_Add_is [OF assms] lru_Get_is [OF assms] lru_Remove_is [OF assms] lru_Oldest_is [OF assms] lru_reads_is [OF assms]
  by (cases opn) (fastforce simp: lru_step_def sp_step_def)+

lemma lru_run_is: "lru_is c cap xs \<Longrightarrow> lru_run ops c = Ret (sp_run cap ops xs)"
proof (induction ops arbitrary: c xs)
  case (Cons opn ops)
  then show ?case using lru_step_is [OF Cons.prems, of opn] by (auto simp: case_prod_beta)
qed simp

section \<open>The bound on the size of blobs\<close>

definition blob_sum :: "('k \<times> bytes) list \<Rightarrow> nat" where
  "blob_sum xs = (\<Sum>p\<leftarrow>xs. length (snd p))"

definition blob_is :: "'k blob_cache \<Rightarrow> ('k \<times> bytes) list \<Rightarrow> bool" where
  "blob_is c xs \<longleftrightarrow> lru_is (bc_lru c) (nat 9223372036854775807) xs \<and> unat (bc_size c) = blob_sum xs"

lemma make_room_is:
  assumes "lru_is c cap xs" "unat t = blob_sum xs + m" "m \<le> unat mx" "length xs < n" 
  shows "\<exists>ev t' c' ys zs. make_room n t mx e c = Ret (ev, t', c') \<and> lru_is c' cap ys \<and> xs = ys @ zs \<and> unat t' = blob_sum ys + m \<and> t' \<le> mx"
  using assms
proof (induction n arbitrary: t e c xs)
  case (Suc n)
  show ?case
  proof (cases "t \<le> mx")
    case True
    then have "\<not> mx < t" by (simp add: not_less)
    then have "make_room (Suc n) t mx e c = Ret (e, t, c)" by (simp add: make_room.simps)
    then show ?thesis using Suc.prems True by blast
  next
    case False
    then have "xs \<noteq> []" using Suc.prems(2,3) by (auto simp: blob_sum_def word_le_nat_alt)
    then obtain ys k v where xs: "xs = ys @ [(k, v)]" by (cases xs rule: rev_cases) auto
    obtain c1 where c1: "lru_RemoveOldest c = Ret (Some (k, v), c1)" "lru_is c1 cap ys"
      using lru_Oldest_is(2) [OF Suc.prems(1)] by (auto simp: sp_RemoveOldest_def xs)
    have v: "length v \<le> unat t" using Suc.prems(2) by (simp add: xs blob_sum_def)
    then have "unat (len64 v) = length v" using u64_bound [of t] by (intro unat_len64) simp
    then have "unat (t - len64 v) = blob_sum ys + m"
      using v Suc.prems(2) by (simp add: unat_sub_le word_le_nat_alt xs blob_sum_def)
    from Suc.IH [OF c1(2) this Suc.prems(3), of True] Suc.prems(4) c1(1) False show ?thesis
      by (fastforce simp: make_room.simps [of "Suc n"] xs)
  qed
qed simp

lemma blob_Add_bounded:
  assumes "blob_is c xs" "length value \<le> unat (bc_maxSize c)" "bc_size c \<le> bc_maxSize c" "blob_sum xs + length value < 2 ^ 64"
    "key \<notin> fst ` set xs" "length xs < 9223372036854775807"
  shows "\<exists>ev c' ys zs. blob_Add key value c = Ret (ev, c') \<and> xs = ys @ zs \<and> blob_is c' ((key, value) # ys) \<and> bc_size c' \<le> bc_maxSize c'"
proof -
  have r: "lru_is (bc_lru c) (nat 9223372036854775807) xs" and s: "unat (bc_size c) = blob_sum xs" using assms(1) by (simp_all add: blob_is_def)
  have "unat (bc_size c + len64 value) = blob_sum xs + length value"
    using s assms(4) by (simp add: unat_add_no_overflow unat_len64)
  from make_room_is [OF r this assms(2), of "Suc (lru_Len (bc_lru c))" False] obtain ev t l ys zs where
    m: "make_room (Suc (lru_Len (bc_lru c))) (bc_size c + len64 value) (bc_maxSize c) False (bc_lru c) = Ret (ev, t, l)"
      "lru_is l (nat 9223372036854775807) ys" "xs = ys @ zs" "unat t = blob_sum ys + length value" "t \<le> bc_maxSize c"
    using lru_reads_is(3) [OF r] by auto
  have "sp_Add (nat 9223372036854775807) key value ys = (False, (key, value) # ys)"
    using assms(5,6) m(3) by (auto simp: sp_Add_def)
  then obtain l' where "lru_Add key value l = Ret (False, l')" "lru_is l' (nat 9223372036854775807) ((key, value) # ys)"
    using lru_Add_is [OF m(2), of key "value"] by auto
  then show ?thesis
    using m lru_reads_is(1) [OF r] assms(5) by (auto simp: blob_Add_def blob_is_def blob_sum_def)
qed

text \<open>A blob larger than the bound is stored all the same, and reported as an eviction.\<close>

lemma blob_Add_oversized:
  assumes "unat mx < length value" "length value < 2 ^ 64"
  shows "\<exists>c. blob_Add key value (NewSizeConstrainedCache zero mx) = Ret (True, c) \<and> mx < bc_size c \<and> lru_Peek key (bc_lru c) = Some value"
proof -
  define c0 :: "('a, bytes) lru" where "c0 = NewBasicLRU zero 9223372036854775807"
  have r: "lru_is c0 (nat 9223372036854775807) []" unfolding c0_def using lru_New_is [of zero 9223372036854775807] by simp
  obtain c1 where c1: "lru_RemoveOldest c0 = Ret (None, c1)" "lru_is c1 (nat 9223372036854775807) []"
    using lru_Oldest_is(2) [OF r] by (auto simp: sp_RemoveOldest_def)
  obtain c2 where c2: "lru_Add key value c1 = Ret (False, c2)" "lru_is c2 (nat 9223372036854775807) [(key, value)]"
    using lru_Add_is [OF c1(2), of key "value"] by (auto simp: sp_Add_def)
  have "mx < len64 value" using assms by (simp add: word_less_nat_alt unat_len64)
  then have "make_room (Suc (lru_Len c0)) (len64 value) mx False c0 = Ret (True, len64 value, c1)"
    using c1(1) by (simp add: make_room.simps [of "Suc n" for n])
  then show ?thesis
    using c2 lru_reads_is(1) [OF r, of key] lru_reads_is(2) [OF c2(2), of key] \<open>mx < len64 value\<close>
    by (simp add: blob_Add_def NewSizeConstrainedCache_def c0_def [symmetric])
qed

section \<open>Properties\<close>

text \<open>
  C20. The LRU cache, a ring of pointers next to a map, behaves like a list of bounded length in the order
  of use: any sequence of additions, lookups, removals and queries on a new cache gives the results the list
  gives, where an addition or a successful lookup moves the key to the front and an addition beyond the
  capacity drops the last key; no nil pointer is followed.
\<close>

theorem lru_is_recency_list:
  "lru_run ops (NewBasicLRU zero capacity) = Ret (sp_run (if capacity \<le> 0 then 1 else nat capacity) ops [])"
  by (rule lru_run_is [OF lru_New_is])

end
