(* ===== verification/Clique.thy ===== *)
theory Clique imports Ethash LRU begin

text \<open>
  The proof-of-authority engine, \<open>consensus/clique\<close>: the voting snapshots (\<open>snapshot.go\<close>) and the
  verification and preparation of headers (\<open>clique.go\<close>). Keccak-256 and the recovery of a public key are the
  parameters \<open>K\<close> and \<open>rec\<close>. A Go map is a partial map, a set of signers a set; the recent signatures and
  snapshots are caches of the theory on LRU caches, threaded through the operations that use them.
\<close>

section \<open>Errors and signatures\<close>

datatype clique_error =
    errUnknownBlock
  | errInvalidCheckpointBeneficiary
  | errInvalidVote
  | errInvalidCheckpointVote
  | errMissingVanity
  | errMissingSignature
  | errExtraSigners
  | errInvalidCheckpointSigners
  | errMismatchingCheckpointSigners
  | errInvalidMixDigest
  | errInvalidUncleHash
  | errInvalidDifficulty
  | errWrongDifficulty
  | errInvalidTimestamp
  | errInvalidVotingChain
  | errUnauthorizedSigner
  | errRecentlySigned
  | errRecover
  | errUnclesNotAllowed
  | errSealingPaused
  | errSignedRecently
  | errConsensus engine_error

abbreviation (input) epochLength :: u64 where "epochLength \<equiv> 30000"
abbreviation (input) extraVanity :: nat where "extraVanity \<equiv> 32"
abbreviation (input) extraSeal :: nat where "extraSeal \<equiv> 65"
abbreviation (input) nonceAuthVote :: u64 where "nonceAuthVote \<equiv> 0xffffffffffffffff"
abbreviation (input) nonceDropVote :: u64 where "nonceDropVote \<equiv> 0"
abbreviation (input) checkpointInterval :: u64 where "checkpointInterval \<equiv> 1024"
abbreviation (input) FullImmutabilityThreshold :: nat where "FullImmutabilityThreshold \<equiv> 90000"
definition diffInTurn :: int where "diffInTurn = 2"
definition diffNoTurn :: int where "diffNoTurn = 1"

text \<open>
  \<open>encodeSigHeader\<close>: the list it passes to \<open>rlp.Encode\<close>, which fails on a negative integer.
\<close>

definition sig_items :: "header \<Rightarrow> rlp_item list go" where
  "sig_items header =
     go_bind (if length (hd_Extra header) < extraSeal then Panic SliceOutOfRange
              else slice (hd_Extra header) 0 (length (hd_Extra header) - extraSeal)) (\<lambda>extra.
     if hd_WithdrawalsHash header \<noteq> None then Panic UnexpectedHeaderField
     else if hd_ExcessBlobGas header \<noteq> None then Panic UnexpectedHeaderField
     else if hd_BlobGasUsed header \<noteq> None then Panic UnexpectedHeaderField
     else if hd_ParentBeaconRoot header \<noteq> None then Panic UnexpectedHeaderField
     else Ret (hd_items1 header @ [big_item (hd_Difficulty header), big_item (hd_Number header)] @
               [uint_item (hd_GasLimit header), uint_item (hd_GasUsed header), uint_item (hd_Time header), RStr extra,
                hash_item (hd_MixDigest header), RStr (nonce_bytes (hd_Nonce header))] @
               (if hd_BaseFee header \<noteq> None then [big_item (hd_BaseFee header)] else [])))"

definition CliqueRLP :: "header \<Rightarrow> bytes go" where
  "CliqueRLP header =
     go_bind (sig_items header) (\<lambda>items.
     if \<not> hd_signs header then Panic CantEncode
     else go_bind (write_item (RList items) eb_reset) eb_makeBytes)"

definition SealHash :: "(bytes \<Rightarrow> hash) \<Rightarrow> header \<Rightarrow> hash go" where
  "SealHash K header = go_bind (CliqueRLP header) (\<lambda>b. Ret (K b))"

type_synonym sigLRU = "(hash, address) lru"

definition clique_ecrecover ::
    "(bytes \<Rightarrow> hash) \<Rightarrow> (bytes \<Rightarrow> bytes \<Rightarrow> bytes option) \<Rightarrow> header \<Rightarrow> sigLRU \<Rightarrow> ((clique_error + address) \<times> sigLRU) go" where
  "clique_ecrecover K rec header sigcache =
     go_bind (hd_Hash K header) (\<lambda>h.
     go_bind (lru_Get h sigcache) (\<lambda>(known, sigcache).
     case known of
       Some address \<Rightarrow> Ret (Inr address, sigcache)
     | None \<Rightarrow>
         if length (hd_Extra header) < extraSeal then Ret (Inl errMissingSignature, sigcache)
         else
           go_bind (slice (hd_Extra header) (length (hd_Extra header) - extraSeal) (length (hd_Extra header))) (\<lambda>signature.
           go_bind (SealHash K header) (\<lambda>sh.
           case rec (Bytes32 sh) signature of
             None \<Rightarrow> Ret (Inl errRecover, sigcache)
           | Some pubkey \<Rightarrow>
               go_bind (slice pubkey 1 (length pubkey)) (\<lambda>p.
               let signer = Bytes20 (K p) in
               go_bind (lru_Add h signer sigcache) (\<lambda>(_, sigcache). Ret (Inr signer, sigcache)))))))"

section \<open>Snapshots\<close>

record Vote =
  vt_Signer :: address
  vt_Block :: u64
  vt_Address :: address
  vt_Authorize :: bool

record Tally =
  tl_Authorize :: bool
  tl_Votes :: int

record CliqueSnapshot =
  sn_config :: CliqueConfig
  sn_Number :: u64
  sn_Hash :: hash
  sn_Signers :: "address set"
  sn_Recents :: "u64 \<Rightarrow> address option"
  sn_Votes :: "Vote list"
  sn_Tally :: "address \<Rightarrow> Tally option"

definition newSnapshot :: "CliqueConfig \<Rightarrow> u64 \<Rightarrow> hash \<Rightarrow> address list \<Rightarrow> CliqueSnapshot" where
  "newSnapshot config number h signers =
     \<lparr>sn_config = config, sn_Number = number, sn_Hash = h, sn_Signers = set signers, sn_Recents = Map.empty,
      sn_Votes = [], sn_Tally = Map.empty\<rparr>"

definition validVote :: "CliqueSnapshot \<Rightarrow> address \<Rightarrow> bool \<Rightarrow> bool" where
  "validVote s address authorize =
     (let signer = (address \<in> sn_Signers s) in (signer \<and> \<not> authorize) \<or> (\<not> signer \<and> authorize))"

definition cast_vote :: "address \<Rightarrow> bool \<Rightarrow> CliqueSnapshot \<Rightarrow> bool \<times> CliqueSnapshot" where
  "cast_vote address authorize s =
     (if \<not> validVote s address authorize then (False, s)
      else case sn_Tally s address of
             Some old \<Rightarrow> (True, s\<lparr>sn_Tally := (sn_Tally s)(address \<mapsto> old\<lparr>tl_Votes := tl_Votes old + 1\<rparr>)\<rparr>)
           | None \<Rightarrow> (True, s\<lparr>sn_Tally := (sn_Tally s)(address \<mapsto> \<lparr>tl_Authorize = authorize, tl_Votes = 1\<rparr>)\<rparr>))"

definition uncast_vote :: "address \<Rightarrow> bool \<Rightarrow> CliqueSnapshot \<Rightarrow> bool \<times> CliqueSnapshot" where
  "uncast_vote address authorize s =
     (case sn_Tally s address of
        None \<Rightarrow> (False, s)
      | Some tally \<Rightarrow>
          if tl_Authorize tally \<noteq> authorize then (False, s)
          else if tl_Votes tally > 1
          then (True, s\<lparr>sn_Tally := (sn_Tally s)(address \<mapsto> tally\<lparr>tl_Votes := tl_Votes tally - 1\<rparr>)\<rparr>)
          else (True, s\<lparr>sn_Tally := (sn_Tally s)(address := None)\<rparr>))"

text \<open>The first vote of \<open>signer\<close> on \<open>coinbase\<close> leaves the tally and the list.\<close>

fun discard_vote :: "address \<Rightarrow> address \<Rightarrow> Vote list \<Rightarrow> CliqueSnapshot \<Rightarrow> Vote list \<times> CliqueSnapshot" where
  "discard_vote signer coinbase [] s = ([], s)"
| "discard_vote signer coinbase (vote # votes) s =
     (if vt_Signer vote = signer \<and> vt_Address vote = coinbase
      then (votes, snd (uncast_vote (vt_Address vote) (vt_Authorize vote) s))
      else let (votes, s) = discard_vote signer coinbase votes s in (vote # votes, s))"

text \<open>Every vote that \<open>signer\<close> cast leaves the tally and the list.\<close>

fun discard_votes_of :: "address \<Rightarrow> Vote list \<Rightarrow> CliqueSnapshot \<Rightarrow> Vote list \<times> CliqueSnapshot" where
  "discard_votes_of signer [] s = ([], s)"
| "discard_votes_of signer (vote # votes) s =
     (if vt_Signer vote = signer
      then discard_votes_of signer votes (snd (uncast_vote (vt_Address vote) (vt_Authorize vote) s))
      else let (votes, s) = discard_votes_of signer votes s in (vote # votes, s))"

definition signer_limit :: "CliqueSnapshot \<Rightarrow> u64" where
  "signer_limit s = word_of_nat (card (sn_Signers s) div 2 + 1)"

definition drop_recent :: "u64 \<Rightarrow> CliqueSnapshot \<Rightarrow> CliqueSnapshot" where
  "drop_recent number s =
     (let limit = signer_limit s
      in if number \<ge> limit then s\<lparr>sn_Recents := (sn_Recents s)(number - limit := None)\<rparr> else s)"

text \<open>The body of the loop of \<open>apply\<close> after the signer is known, in two parts: the vote, the change of signers.\<close>

definition pass_vote :: "u64 \<Rightarrow> address \<Rightarrow> CliqueSnapshot \<Rightarrow> CliqueSnapshot" where
  "pass_vote number coinbase snap =
     (case sn_Tally snap coinbase of
        None \<Rightarrow> snap
      | Some tally \<Rightarrow>
          if tl_Votes tally > int (card (sn_Signers snap) div 2) then
            let snap =
                  (if tl_Authorize tally then snap\<lparr>sn_Signers := insert coinbase (sn_Signers snap)\<rparr>
                   else
                     let snap = drop_recent number (snap\<lparr>sn_Signers := sn_Signers snap - {coinbase}\<rparr>);
                         (votes, snap) = discard_votes_of coinbase (sn_Votes snap) snap
                     in snap\<lparr>sn_Votes := votes\<rparr>)
            in snap\<lparr>sn_Votes := filter (\<lambda>v. vt_Address v \<noteq> coinbase) (sn_Votes snap),
                    sn_Tally := (sn_Tally snap)(coinbase := None)\<rparr>
          else snap)"

definition tally_vote :: "u64 \<Rightarrow> address \<Rightarrow> address \<Rightarrow> u64 \<Rightarrow> CliqueSnapshot \<Rightarrow> clique_error + CliqueSnapshot" where
  "tally_vote number signer coinbase nonce snap =
     (let snap = snap\<lparr>sn_Recents := (sn_Recents snap)(number \<mapsto> signer)\<rparr>;
          (votes, snap) = discard_vote signer coinbase (sn_Votes snap) snap;
          snap = snap\<lparr>sn_Votes := votes\<rparr>
      in if nonce \<noteq> nonceAuthVote \<and> nonce \<noteq> nonceDropVote then Inl errInvalidVote
         else
           let authorize = (nonce = nonceAuthVote);
               (counted, snap) = cast_vote coinbase authorize snap;
               snap = (if counted then snap\<lparr>sn_Votes := sn_Votes snap @
                         [\<lparr>vt_Signer = signer, vt_Block = number, vt_Address = coinbase, vt_Authorize = authorize\<rparr>]\<rparr>
                       else snap)
           in Inr (pass_vote number coinbase snap))"

definition apply_header ::
    "(bytes \<Rightarrow> hash) \<Rightarrow> (bytes \<Rightarrow> bytes \<Rightarrow> bytes option) \<Rightarrow> header \<Rightarrow> CliqueSnapshot \<Rightarrow> sigLRU \<Rightarrow> ((clique_error + CliqueSnapshot) \<times> sigLRU) go" where
  "apply_header K rec header snap sigcache =
     go_bind (deref (hd_Number header)) (\<lambda>n.
     let number = big_Uint64 n in
     if clique_Epoch (sn_config snap) = 0 then Panic DivisionByZero
     else
       let snap = (if number mod clique_Epoch (sn_config snap) = 0 then snap\<lparr>sn_Votes := [], sn_Tally := Map.empty\<rparr> else snap);
           snap = drop_recent number snap
       in go_bind (clique_ecrecover K rec header sigcache) (\<lambda>(r, sigcache).
            case r of
              Inl err \<Rightarrow> Ret (Inl err, sigcache)
            | Inr signer \<Rightarrow>
                if signer \<notin> sn_Signers snap then Ret (Inl errUnauthorizedSigner, sigcache)
                else if signer \<in> ran (sn_Recents snap) then Ret (Inl errRecentlySigned, sigcache)
                else Ret (tally_vote number signer (hd_Coinbase header) (hd_Nonce header) snap, sigcache)))"

fun apply_headers ::
    "(bytes \<Rightarrow> hash) \<Rightarrow> (bytes \<Rightarrow> bytes \<Rightarrow> bytes option) \<Rightarrow> header list \<Rightarrow> CliqueSnapshot \<Rightarrow> sigLRU \<Rightarrow>
     ((clique_error + CliqueSnapshot) \<times> sigLRU) go" where
  "apply_headers K rec [] snap sigcache = Ret (Inr snap, sigcache)"
| "apply_headers K rec (header # headers) snap sigcache =
     go_bind (apply_header K rec header snap sigcache) (\<lambda>(r, sigcache).
       case r of
         Inl err \<Rightarrow> Ret (Inl err, sigcache)
       | Inr snap \<Rightarrow> apply_headers K rec headers snap sigcache)"

text \<open>The check that the numbers of the headers are consecutive.\<close>

fun linked :: "header list \<Rightarrow> bool go" where
  "linked (h1 # h2 # hs) =
     go_bind (deref (hd_Number h2)) (\<lambda>m. go_bind (deref (hd_Number h1)) (\<lambda>n.
       if big_Uint64 m \<noteq> big_Uint64 n + 1 then Ret False else linked (h2 # hs)))"
| "linked _ = Ret True"

definition sn_apply ::
    "(bytes \<Rightarrow> hash) \<Rightarrow> (bytes \<Rightarrow> bytes \<Rightarrow> bytes option) \<Rightarrow> CliqueSnapshot \<Rightarrow> header list \<Rightarrow> sigLRU \<Rightarrow>
     ((clique_error + CliqueSnapshot) \<times> sigLRU) go" where
  "sn_apply K rec s headers sigcache =
     (if headers = [] then Ret (Inr s, sigcache)
      else
        go_bind (linked headers) (\<lambda>ok.
        if \<not> ok then Ret (Inl errInvalidVotingChain, sigcache)
        else
          go_bind (deref (hd_Number (hd headers))) (\<lambda>n.
          if big_Uint64 n \<noteq> sn_Number s + 1 then Ret (Inl errInvalidVotingChain, sigcache)
          else
            go_bind (apply_headers K rec headers s sigcache) (\<lambda>(r, sigcache).
            case r of
              Inl err \<Rightarrow> Ret (Inl err, sigcache)
            | Inr snap \<Rightarrow>
                go_bind (hd_Hash K (last headers)) (\<lambda>h.
                  Ret (Inr (snap\<lparr>sn_Number := sn_Number snap + len64 headers, sn_Hash := h\<rparr>), sigcache))))))"

definition sn_signers :: "CliqueSnapshot \<Rightarrow> address list" where
  "sn_signers s = sorted_list_of_set (sn_Signers s)"

fun offset_of :: "address \<Rightarrow> address list \<Rightarrow> nat" where
  "offset_of signer [] = 0"
| "offset_of signer (a # as) = (if a = signer then 0 else Suc (offset_of signer as))"

definition inturn :: "CliqueSnapshot \<Rightarrow> u64 \<Rightarrow> address \<Rightarrow> bool go" where
  "inturn s number signer =
     (let signers = sn_signers s; offset = offset_of signer signers
      in if signers = [] then Panic DivisionByZero
         else Ret (number mod len64 signers = word_of_nat offset))"

section \<open>The engine\<close>

text \<open>
  The database keeps snapshots under their hash; that a stored snapshot reads back as it was (JSON) and that
  a write does not fail is assumed. The proposals are a list in the order a map iteration visits them.
\<close>

record Clique =
  cl_config :: CliqueConfig
  cl_db :: "hash \<Rightarrow> CliqueSnapshot option"
  cl_recents :: "(hash, CliqueSnapshot) lru"
  cl_signatures :: sigLRU
  cl_proposals :: "(address \<times> bool) list"
  cl_signer :: address
  cl_fakeDiff :: bool

definition NewClique :: "CliqueConfig \<Rightarrow> (hash \<Rightarrow> CliqueSnapshot option) \<Rightarrow> Clique" where
  "NewClique config db =
     (let conf = (if clique_Epoch config = 0 then config\<lparr>clique_Epoch := epochLength\<rparr> else config)
      in \<lparr>cl_config = conf, cl_db = db, cl_recents = NewBasicLRU 0 128, cl_signatures = NewBasicLRU 0 4096,
          cl_proposals = [], cl_signer = 0, cl_fakeDiff = False\<rparr>)"

definition clique_Author ::
    "(bytes \<Rightarrow> hash) \<Rightarrow> (bytes \<Rightarrow> bytes \<Rightarrow> bytes option) \<Rightarrow> header \<Rightarrow> Clique \<Rightarrow> ((clique_error + address) \<times> Clique) go" where
  "clique_Author K rec header c =
     go_bind (clique_ecrecover K rec header (cl_signatures c)) (\<lambda>(r, sigs). Ret (r, c\<lparr>cl_signatures := sigs\<rparr>))"

definition Authorize :: "address \<Rightarrow> Clique \<Rightarrow> Clique" where
  "Authorize signer c = c\<lparr>cl_signer := signer\<rparr>"

definition loadSnapshot :: "CliqueConfig \<Rightarrow> (hash \<Rightarrow> CliqueSnapshot option) \<Rightarrow> hash \<Rightarrow> CliqueSnapshot option" where
  "loadSnapshot config db h = map_option (\<lambda>snap. snap\<lparr>sn_config := config\<rparr>) (db h)"

definition store_snapshot :: "CliqueSnapshot \<Rightarrow> Clique \<Rightarrow> Clique" where
  "store_snapshot snap c = c\<lparr>cl_db := (cl_db c)(sn_Hash snap \<mapsto> snap)\<rparr>"

text \<open>The signers that the extra data of a checkpoint lists: 20 bytes each between the vanity and the seal.\<close>

definition checkpoint_signers :: "bytes \<Rightarrow> address list go" where
  "checkpoint_signers extra =
     (let room = int (length extra) - int extraVanity - int extraSeal
      in if room \<le> - 20 then Panic NegativeMake
         else Ret (map (\<lambda>i. SetBytes (take 20 (drop (extraVanity + i * 20) extra))) [0..<nat (room div 20)]))"

text \<open>The walk back of \<open>snapshot\<close> to a known snapshot, with at most \<open>fuel\<close> headers on the way.\<close>

fun find_snapshot ::
    "(bytes \<Rightarrow> hash) \<Rightarrow> chain_reader \<Rightarrow> nat \<Rightarrow> u64 \<Rightarrow> hash \<Rightarrow> header list \<Rightarrow> header list \<Rightarrow> Clique \<Rightarrow>
     ((clique_error + CliqueSnapshot \<times> header list) \<times> Clique) go" where
  "find_snapshot K chain 0 number h parents headers c = OutOfFuel"
| "find_snapshot K chain (Suc fuel) number h parents headers c =
     go_bind (lru_Get h (cl_recents c)) (\<lambda>(known, recents).
     let c = c\<lparr>cl_recents := recents\<rparr> in
     case known of
       Some s \<Rightarrow> Ret (Inr (s, headers), c)
     | None \<Rightarrow>
     (case (if number mod checkpointInterval = 0 then loadSnapshot (cl_config c) (cl_db c) h else None) of
       Some s \<Rightarrow> Ret (Inr (s, headers), c)
     | None \<Rightarrow>
     go_bind (if number = 0 then Ret True
              else if clique_Epoch (cl_config c) = 0 then Panic DivisionByZero
              else Ret (number mod clique_Epoch (cl_config c) = 0 \<and>
                        (length headers > FullImmutabilityThreshold \<or> chain_GetHeaderByNumber chain (number - 1) = None))) (\<lambda>trusted.
     case (if trusted then chain_GetHeaderByNumber chain number else None) of
       Some checkpoint \<Rightarrow>
         go_bind (hd_Hash K checkpoint) (\<lambda>ch.
         go_bind (checkpoint_signers (hd_Extra checkpoint)) (\<lambda>signers.
         let snap = newSnapshot (cl_config c) number ch signers
         in Ret (Inr (snap, headers), store_snapshot snap c)))
     | None \<Rightarrow>
         (if parents \<noteq> [] then
            let header = last parents in
            go_bind (hd_Hash K header) (\<lambda>hh.
            go_bind (if hh \<noteq> h then Ret False else go_bind (deref (hd_Number header)) (\<lambda>n. Ret (big_Uint64 n = number))) (\<lambda>ok.
            if \<not> ok then Ret (Inl (errConsensus ErrUnknownAncestor), c)
            else find_snapshot K chain fuel (number - 1) (hd_ParentHash header) (butlast parents) (headers @ [header]) c))
          else
            case chain_GetHeader chain h number of
              None \<Rightarrow> Ret (Inl (errConsensus ErrUnknownAncestor), c)
            | Some header \<Rightarrow> find_snapshot K chain fuel (number - 1) (hd_ParentHash header) [] (headers @ [header]) c))))"

definition clique_snapshot ::
    "(bytes \<Rightarrow> hash) \<Rightarrow> (bytes \<Rightarrow> bytes \<Rightarrow> bytes option) \<Rightarrow> chain_reader \<Rightarrow> nat \<Rightarrow> u64 \<Rightarrow> hash \<Rightarrow> header list \<Rightarrow> Clique \<Rightarrow>
     ((clique_error + CliqueSnapshot) \<times> Clique) go" where
  "clique_snapshot K rec chain fuel number h parents c =
     go_bind (find_snapshot K chain fuel number h parents [] c) (\<lambda>(r, c).
     case r of
       Inl err \<Rightarrow> Ret (Inl err, c)
     | Inr (snap, headers) \<Rightarrow>
         go_bind (sn_apply K rec snap (rev headers) (cl_signatures c)) (\<lambda>(r, sigs).
         let c = c\<lparr>cl_signatures := sigs\<rparr> in
         case r of
           Inl err \<Rightarrow> Ret (Inl err, c)
         | Inr snap \<Rightarrow>
             go_bind (lru_Add (sn_Hash snap) snap (cl_recents c)) (\<lambda>(_, recents).
             let c = c\<lparr>cl_recents := recents\<rparr>
             in Ret (Inr snap, if sn_Number snap mod checkpointInterval = 0 \<and> headers \<noteq> [] then store_snapshot snap c else c))))"

text \<open>
  \<open>recently_signed\<close> is the loop of \<open>verifySeal\<close>, \<open>recently_signed_seal\<close> that of \<open>Seal\<close>: only the second
  one guards the subtraction.
\<close>

definition recently_signed :: "CliqueSnapshot \<Rightarrow> u64 \<Rightarrow> address \<Rightarrow> bool" where
  "recently_signed snap number signer \<longleftrightarrow>
     (\<exists>seen \<in> dom (sn_Recents snap). sn_Recents snap seen = Some signer \<and> seen > number - signer_limit snap)"

definition recently_signed_seal :: "CliqueSnapshot \<Rightarrow> u64 \<Rightarrow> address \<Rightarrow> bool" where
  "recently_signed_seal snap number signer \<longleftrightarrow>
     (\<exists>seen \<in> dom (sn_Recents snap). sn_Recents snap seen = Some signer \<and>
        (number < signer_limit snap \<or> seen > number - signer_limit snap))"

definition verifySeal ::
    "(bytes \<Rightarrow> hash) \<Rightarrow> (bytes \<Rightarrow> bytes \<Rightarrow> bytes option) \<Rightarrow> CliqueSnapshot \<Rightarrow> header \<Rightarrow> Clique \<Rightarrow> (clique_error option \<times> Clique) go" where
  "verifySeal K rec snap header c =
     go_bind (deref (hd_Number header)) (\<lambda>n.
     let number = big_Uint64 n in
     if number = 0 then Ret (Some errUnknownBlock, c)
     else
       go_bind (clique_ecrecover K rec header (cl_signatures c)) (\<lambda>(r, sigs).
       let c = c\<lparr>cl_signatures := sigs\<rparr> in
       case r of
         Inl err \<Rightarrow> Ret (Some err, c)
       | Inr signer \<Rightarrow>
           if signer \<notin> sn_Signers snap then Ret (Some errUnauthorizedSigner, c)
           else if recently_signed snap number signer then Ret (Some errRecentlySigned, c)
           else if cl_fakeDiff c then Ret (None, c)
           else
             go_bind (inturn snap number signer) (\<lambda>turn.
             go_bind (deref (hd_Difficulty header)) (\<lambda>difficulty.
               if turn \<and> difficulty \<noteq> diffInTurn \<or> \<not> turn \<and> difficulty \<noteq> diffNoTurn
               then Ret (Some errWrongDifficulty, c) else Ret (None, c)))))"

definition verifyCascadingFields ::
    "(bytes \<Rightarrow> hash) \<Rightarrow> (bytes \<Rightarrow> bytes \<Rightarrow> bytes option) \<Rightarrow> chain_reader \<Rightarrow> nat \<Rightarrow> header \<Rightarrow> header list \<Rightarrow> Clique \<Rightarrow>
     (clique_error option \<times> Clique) go" where
  "verifyCascadingFields K rec chain fuel header parents c =
     go_bind (deref (hd_Number header)) (\<lambda>n.
     let number = big_Uint64 n in
     if number = 0 then Ret (None, c)
     else
       case (if parents \<noteq> [] then Some (last parents) else chain_GetHeader chain (hd_ParentHash header) (number - 1)) of
         None \<Rightarrow> Ret (Some (errConsensus ErrUnknownAncestor), c)
       | Some parent \<Rightarrow>
       go_bind (deref (hd_Number parent)) (\<lambda>pn.
       if big_Uint64 pn \<noteq> number - 1 then Ret (Some (errConsensus ErrUnknownAncestor), c)
       else
       go_bind (hd_Hash K parent) (\<lambda>ph.
       if ph \<noteq> hd_ParentHash header then Ret (Some (errConsensus ErrUnknownAncestor), c)
       else if hd_Time parent + clique_Period (cl_config c) > hd_Time header then Ret (Some errInvalidTimestamp, c)
       else if hd_GasUsed header > hd_GasLimit header then Ret (Some (errConsensus GasUsedExceedsLimit), c)
       else
       go_bind (if \<not> cfg_IsLondon (chain_Config chain) (hd_Number header) then
                  Ret (if hd_BaseFee header \<noteq> None then Some BaseFeeBeforeFork
                       else map_option FeeRule (VerifyGaslimit (hd_GasLimit parent) (hd_GasLimit header)))
                else
                  go_bind (VerifyEIP1559Header (chain_Config chain) parent header) (\<lambda>err. Ret (map_option FeeRule err)))
         (\<lambda>err. case err of Some err \<Rightarrow> Ret (Some (errConsensus err), c) | None \<Rightarrow>
       go_bind (clique_snapshot K rec chain fuel (number - 1) (hd_ParentHash header) parents c) (\<lambda>(r, c).
       case r of
         Inl err \<Rightarrow> Ret (Some err, c)
       | Inr snap \<Rightarrow>
       if clique_Epoch (cl_config c) = 0 then Panic DivisionByZero
       else
       go_bind (if number mod clique_Epoch (cl_config c) = 0 then
                  let extraSuffix = length (hd_Extra header) - extraSeal in
                  if length (hd_Extra header) < extraSeal then Panic SliceOutOfRange
                  else go_bind (slice (hd_Extra header) extraVanity extraSuffix) (\<lambda>signers.
                         Ret (signers = concat (map address_bytes (sn_signers snap))))
                else Ret True) (\<lambda>ok.
       if \<not> ok then Ret (Some errMismatchingCheckpointSigners, c)
       else verifySeal K rec snap header c))))))"

definition clique_verifyHeader ::
    "(bytes \<Rightarrow> hash) \<Rightarrow> (bytes \<Rightarrow> bytes \<Rightarrow> bytes option) \<Rightarrow> chain_reader \<Rightarrow> nat \<Rightarrow> u64 \<Rightarrow> header \<Rightarrow> header list \<Rightarrow> Clique \<Rightarrow>
     (clique_error option \<times> Clique) go" where
  "clique_verifyHeader K rec chain fuel unixNow header parents c =
     (case hd_Number header of
        None \<Rightarrow> Ret (Some errUnknownBlock, c)
      | Some n \<Rightarrow>
      let number = big_Uint64 n in
      if hd_Time header > unixNow then Ret (Some (errConsensus ErrFutureBlock), c)
      else if clique_Epoch (cl_config c) = 0 then Panic DivisionByZero
      else
        let checkpoint = (number mod clique_Epoch (cl_config c) = 0);
            signersBytes = length (hd_Extra header) - extraVanity - extraSeal
        in if checkpoint \<and> hd_Coinbase header \<noteq> 0 then Ret (Some errInvalidCheckpointBeneficiary, c)
           else if hd_Nonce header \<noteq> nonceAuthVote \<and> hd_Nonce header \<noteq> nonceDropVote then Ret (Some errInvalidVote, c)
           else if checkpoint \<and> hd_Nonce header \<noteq> nonceDropVote then Ret (Some errInvalidCheckpointVote, c)
           else if length (hd_Extra header) < extraVanity then Ret (Some errMissingVanity, c)
           else if length (hd_Extra header) < extraVanity + extraSeal then Ret (Some errMissingSignature, c)
           else if \<not> checkpoint \<and> signersBytes \<noteq> 0 then Ret (Some errExtraSigners, c)
           else if checkpoint \<and> signersBytes mod 20 \<noteq> 0 then Ret (Some errInvalidCheckpointSigners, c)
           else if hd_MixDigest header \<noteq> 0 then Ret (Some errInvalidMixDigest, c)
           else if hd_UncleHash header \<noteq> EmptyUncleHash K then Ret (Some errInvalidUncleHash, c)
           else if number > 0 \<and> hd_Difficulty header \<noteq> Some diffInTurn \<and> hd_Difficulty header \<noteq> Some diffNoTurn
           then Ret (Some errInvalidDifficulty, c)
           else if hd_GasLimit header > MaxGasLimit then Ret (Some (errConsensus GasLimitTooHigh), c)
           else if cfg_IsShanghai (chain_Config chain) (hd_Number header) (hd_Time header)
           then Ret (Some (errConsensus ShanghaiUnsupported), c)
           else if hd_WithdrawalsHash header \<noteq> None then Ret (Some (errConsensus UnexpectedWithdrawalsHash), c)
           else if cfg_IsCancun (chain_Config chain) (hd_Number header) (hd_Time header)
           then Ret (Some (errConsensus CancunUnsupported), c)
           else if hd_ExcessBlobGas header \<noteq> None then Ret (Some (errConsensus UnexpectedExcessBlobGas), c)
           else if hd_BlobGasUsed header \<noteq> None then Ret (Some (errConsensus UnexpectedBlobGasUsed), c)
           else if hd_ParentBeaconRoot header \<noteq> None then Ret (Some (errConsensus UnexpectedParentBeaconRoot), c)
           else verifyCascadingFields K rec chain fuel header parents c)"

text \<open>The batch of \<open>VerifyHeaders\<close>, without its channels: every header after the ones before it.\<close>

fun clique_verify_batch ::
    "(bytes \<Rightarrow> hash) \<Rightarrow> (bytes \<Rightarrow> bytes \<Rightarrow> bytes option) \<Rightarrow> chain_reader \<Rightarrow> nat \<Rightarrow> u64 \<Rightarrow> header list \<Rightarrow> header list \<Rightarrow> Clique \<Rightarrow>
     (clique_error option list \<times> Clique) go" where
  "clique_verify_batch K rec chain fuel unixNow before [] c = Ret ([], c)"
| "clique_verify_batch K rec chain fuel unixNow before (header # headers) c =
     go_bind (clique_verifyHeader K rec chain fuel unixNow header before c) (\<lambda>(err, c).
     go_bind (clique_verify_batch K rec chain fuel unixNow (before @ [header]) headers c) (\<lambda>(errs, c). Ret (err # errs, c)))"

definition clique_VerifyUncles :: "chain_block \<Rightarrow> clique_error option" where
  "clique_VerifyUncles block = (if length (bk_uncles block) > 0 then Some errUnclesNotAllowed else None)"

definition clique_calcDifficulty :: "CliqueSnapshot \<Rightarrow> address \<Rightarrow> int go" where
  "clique_calcDifficulty snap signer =
     go_bind (inturn snap (sn_Number snap + 1) signer) (\<lambda>turn. Ret (if turn then diffInTurn else diffNoTurn))"

definition clique_CalcDifficulty ::
    "(bytes \<Rightarrow> hash) \<Rightarrow> (bytes \<Rightarrow> bytes \<Rightarrow> bytes option) \<Rightarrow> chain_reader \<Rightarrow> nat \<Rightarrow> header \<Rightarrow> Clique \<Rightarrow> (int option \<times> Clique) go" where
  "clique_CalcDifficulty K rec chain fuel parent c =
     go_bind (deref (hd_Number parent)) (\<lambda>n.
     go_bind (hd_Hash K parent) (\<lambda>h.
     go_bind (clique_snapshot K rec chain fuel (big_Uint64 n) h [] c) (\<lambda>(r, c).
     case r of
       Inl err \<Rightarrow> Ret (None, c)
     | Inr snap \<Rightarrow> go_bind (clique_calcDifficulty snap (cl_signer c)) (\<lambda>d. Ret (Some d, c)))))"

text \<open>\<open>Prepare\<close>; \<open>rnd n\<close> is the random index below \<open>n\<close>.\<close>

definition clique_Prepare ::
    "(bytes \<Rightarrow> hash) \<Rightarrow> (bytes \<Rightarrow> bytes \<Rightarrow> bytes option) \<Rightarrow> chain_reader \<Rightarrow> nat \<Rightarrow> (nat \<Rightarrow> nat) \<Rightarrow> u64 \<Rightarrow> header \<Rightarrow> Clique \<Rightarrow>
     ((clique_error option \<times> header) \<times> Clique) go" where
  "clique_Prepare K rec chain fuel rnd unixNow header c =
     (let header = header\<lparr>hd_Coinbase := 0, hd_Nonce := 0\<rparr> in
     go_bind (deref (hd_Number header)) (\<lambda>n.
     let number = big_Uint64 n in
     go_bind (clique_snapshot K rec chain fuel (number - 1) (hd_ParentHash header) [] c) (\<lambda>(r, c).
     case r of
       Inl err \<Rightarrow> Ret ((Some err, header), c)
     | Inr snap \<Rightarrow>
     if clique_Epoch (cl_config c) = 0 then Panic DivisionByZero
     else
     let addresses = map fst (filter (\<lambda>(address, authorize). validVote snap address authorize) (cl_proposals c)) in
     go_bind (if number mod clique_Epoch (cl_config c) \<noteq> 0 \<and> addresses \<noteq> [] then
                go_bind (nth_go addresses (rnd (length addresses))) (\<lambda>coinbase.
                  Ret (header\<lparr>hd_Coinbase := coinbase,
                              hd_Nonce := (if map_of (cl_proposals c) coinbase = Some True then nonceAuthVote else nonceDropVote)\<rparr>))
              else Ret header) (\<lambda>header.
     go_bind (clique_calcDifficulty snap (cl_signer c)) (\<lambda>d.
     let header = header\<lparr>hd_Difficulty := Some d\<rparr>;
         extra = take extraVanity (RightPadBytes (hd_Extra header) extraVanity);
         extra = (if number mod clique_Epoch (cl_config c) = 0 then extra @ concat (map address_bytes (sn_signers snap)) else extra);
         header = header\<lparr>hd_Extra := extra @ replicate extraSeal 0, hd_MixDigest := 0\<rparr>
     in case chain_GetHeader chain (hd_ParentHash header) (number - 1) of
          None \<Rightarrow> Ret ((Some (errConsensus ErrUnknownAncestor), header), c)
        | Some parent \<Rightarrow>
            let time = hd_Time parent + clique_Period (cl_config c)
            in Ret ((None, header\<lparr>hd_Time := if time < unixNow then unixNow else time\<rparr>), c))))))"

text \<open>The checks \<open>Seal\<close> makes before it signs; the signing and the wait are not modelled.\<close>

definition Seal_check ::
    "(bytes \<Rightarrow> hash) \<Rightarrow> (bytes \<Rightarrow> bytes \<Rightarrow> bytes option) \<Rightarrow> chain_reader \<Rightarrow> nat \<Rightarrow> header \<Rightarrow> nat \<Rightarrow> Clique \<Rightarrow>
     (clique_error option \<times> Clique) go" where
  "Seal_check K rec chain fuel header txs c =
     go_bind (deref (hd_Number header)) (\<lambda>n.
     let number = big_Uint64 n in
     if number = 0 then Ret (Some errUnknownBlock, c)
     else if clique_Period (cl_config c) = 0 \<and> txs = 0 then Ret (Some errSealingPaused, c)
     else
       go_bind (clique_snapshot K rec chain fuel (number - 1) (hd_ParentHash header) [] c) (\<lambda>(r, c).
       case r of
         Inl err \<Rightarrow> Ret (Some err, c)
       | Inr snap \<Rightarrow>
           if cl_signer c \<notin> sn_Signers snap then Ret (Some errUnauthorizedSigner, c)
           else if recently_signed_seal snap number (cl_signer c) then Ret (Some errSignedRecently, c)
           else Ret (None, c)))"

end
