(* ===== verification/Clique_Laws.thy ===== *)
theory Clique_Laws imports Clique begin

text \<open>
  What the voting of \<open>consensus/clique\<close> guarantees: the tally counts the votes, the signers change by
  majority only, the recent signers leave one who may sign, and where the engine does not keep this.
\<close>

section \<open>The tally counts the votes\<close>

definition cnt :: "address \<Rightarrow> Vote list \<Rightarrow> nat" where
  "cnt a vs = length (filter (\<lambda>v. vt_Address v = a) vs)"

lemma cnt_simps [simp]: "cnt a [] = 0" "cnt a (v # vs) = (if vt_Address v = a then 1 else 0) + cnt a vs"
  "cnt a (xs @ ys) = cnt a xs + cnt a ys"
  by (simp_all add: cnt_def)

definition tally_ok :: "address set \<Rightarrow> Vote list \<Rightarrow> (address \<Rightarrow> Tally option) \<Rightarrow> bool" where
  "tally_ok S vs t \<longleftrightarrow>
     (\<forall>a. t a = (if cnt a vs = 0 then None else Some \<lparr>tl_Authorize = (a \<notin> S), tl_Votes = int (cnt a vs)\<rparr>)) \<and>
     (\<forall>v\<in>set vs. vt_Authorize v = (vt_Address v \<notin> S))"

definition votes_ok :: "address set \<Rightarrow> Vote list \<Rightarrow> bool" where
  "votes_ok S vs \<longleftrightarrow> distinct (map (\<lambda>v. (vt_Signer v, vt_Address v)) vs) \<and> (\<forall>v\<in>set vs. vt_Signer v \<in> S)"

lemma tally_okD: "tally_ok S vs t \<Longrightarrow> t a = (if cnt a vs = 0 then None else Some \<lparr>tl_Authorize = (a \<notin> S), tl_Votes = int (cnt a vs)\<rparr>)"
  by (simp add: tally_ok_def)

lemma uncast_tally:
  assumes "tally_ok S (xs @ v # ys) (sn_Tally s)" "s' = snd (uncast_vote (vt_Address v) (vt_Authorize v) s)"
  shows "tally_ok S (xs @ ys) (sn_Tally s') \<and> s' = s\<lparr>sn_Tally := sn_Tally s'\<rparr>"
proof -
  let ?a = "vt_Address v" and ?n = "cnt (vt_Address v) (xs @ ys)"
  have t: "sn_Tally s ?a = Some \<lparr>tl_Authorize = (?a \<notin> S), tl_Votes = int (Suc ?n)\<rparr>"
    using tally_okD [OF assms(1), of ?a] by simp
  moreover have "vt_Authorize v = (?a \<notin> S)" using assms(1) by (simp add: tally_ok_def)
  ultimately have s': "s' = s\<lparr>sn_Tally := (sn_Tally s)(?a := if ?n = 0 then None else Some \<lparr>tl_Authorize = (?a \<notin> S), tl_Votes = int ?n\<rparr>)\<rparr>"
    by (simp add: assms(2) uncast_vote_def)
  then show ?thesis using assms(1) by (simp add: tally_ok_def)
qed

lemma discard_vote_ok:
  assumes "tally_ok S (pre @ vs) (sn_Tally s)" "discard_vote signer cb vs s = (vs', s')"
    "distinct (map (\<lambda>v. (vt_Signer v, vt_Address v)) vs)"
  shows "tally_ok S (pre @ vs') (sn_Tally s') \<and> s' = s\<lparr>sn_Tally := sn_Tally s'\<rparr> \<and>
    vs' = filter (\<lambda>v. \<not> (vt_Signer v = signer \<and> vt_Address v = cb)) vs"
  using assms
proof (induction vs arbitrary: pre vs' s')
  case (Cons v vs)
  show ?case
  proof (cases "vt_Signer v = signer \<and> vt_Address v = cb")
    case True
    then have "filter (\<lambda>v. \<not> (vt_Signer v = signer \<and> vt_Address v = cb)) vs = vs"
      using Cons.prems(3) by (fastforce simp: filter_id_conv image_iff)
    then show ?thesis using True Cons.prems(2) uncast_tally [OF Cons.prems(1) refl] by auto
  next
    case False
    obtain vs1 s1 where d: "discard_vote signer cb vs s = (vs1, s1)" by fastforce
    have "tally_ok S ((pre @ [v]) @ vs) (sn_Tally s)" using Cons.prems(1) by simp
    from Cons.IH [OF this d] show ?thesis using False Cons.prems(2,3) d by auto
  qed
qed simp

lemma discard_votes_of_ok:
  assumes "tally_ok S (pre @ vs) (sn_Tally s)" "discard_votes_of a vs s = (vs', s')"
  shows "tally_ok S (pre @ vs') (sn_Tally s') \<and> s' = s\<lparr>sn_Tally := sn_Tally s'\<rparr> \<and> vs' = filter (\<lambda>v. vt_Signer v \<noteq> a) vs"
  using assms
proof (induction vs arbitrary: pre s vs' s')
  case (Cons v vs)
  show ?case
  proof (cases "vt_Signer v = a")
    case True
    define s1 where "s1 = snd (uncast_vote (vt_Address v) (vt_Authorize v) s)"
    note u = uncast_tally [OF Cons.prems(1) s1_def]
    have d: "discard_votes_of a vs s1 = (vs', s')" using True Cons.prems(2) by (simp add: s1_def)
    obtain t where t: "s1 = s\<lparr>sn_Tally := t\<rparr>" using u by blast
    have "tally_ok S (pre @ vs') (sn_Tally s') \<and> s' = s1\<lparr>sn_Tally := sn_Tally s'\<rparr> \<and> vs' = filter (\<lambda>v. vt_Signer v \<noteq> a) vs"
      using Cons.IH [OF conjunct1 [OF u] d] .
    then show ?thesis using True unfolding t by auto
  next
    case False
    obtain vs1 s1 where d: "discard_votes_of a vs s = (vs1, s1)" by fastforce
    have "tally_ok S ((pre @ [v]) @ vs) (sn_Tally s)" using Cons.prems(1) by simp
    from Cons.IH [OF this d] show ?thesis using False Cons.prems(2) d by auto
  qed
qed simp

lemma cast_tally:
  assumes "tally_ok (sn_Signers s) (sn_Votes s) (sn_Tally s)" "cast_vote cb auth s = (counted, s')"
    "s'' = (if counted then s'\<lparr>sn_Votes := sn_Votes s' @ [\<lparr>vt_Signer = signer, vt_Block = n, vt_Address = cb, vt_Authorize = auth\<rparr>]\<rparr> else s')"
  shows "tally_ok (sn_Signers s) (sn_Votes s'') (sn_Tally s'') \<and>
    sn_Votes s'' = sn_Votes s @ (if auth = (cb \<notin> sn_Signers s) then [\<lparr>vt_Signer = signer, vt_Block = n, vt_Address = cb, vt_Authorize = auth\<rparr>] else []) \<and>
    s'' = s\<lparr>sn_Votes := sn_Votes s'', sn_Tally := sn_Tally s''\<rparr>"
proof (cases "validVote s cb auth")
  case False
  then show ?thesis using assms by (auto simp: cast_vote_def validVote_def)
next
  case True
  then have v: "auth = (cb \<notin> sn_Signers s)" by (auto simp: validVote_def)
  have "counted \<and> s' = s\<lparr>sn_Tally := (sn_Tally s)(cb \<mapsto> \<lparr>tl_Authorize = auth, tl_Votes = int (cnt cb (sn_Votes s)) + 1\<rparr>)\<rparr>"
    using assms(2) True tally_okD [OF assms(1), of cb] v by (auto simp: cast_vote_def split: option.splits if_splits)
  then show ?thesis using assms(1,3) v by (auto simp: tally_ok_def)
qed

section \<open>The invariant of a snapshot\<close>

text \<open>
  The recent signers are those of the last \<open>limit\<close> blocks, where \<open>limit\<close> is half the number of signers
  plus one. The number of signers fits an \<open>int\<close>, as the length of every Go map.
\<close>

definition half_plus :: "CliqueSnapshot \<Rightarrow> nat" where
  "half_plus s = card (sn_Signers s) div 2 + 1"

definition votes_inv :: "CliqueSnapshot \<Rightarrow> bool" where
  "votes_inv s \<longleftrightarrow> finite (sn_Signers s) \<and> card (sn_Signers s) < 2 ^ 63 \<and>
     tally_ok (sn_Signers s) (sn_Votes s) (sn_Tally s) \<and> votes_ok (sn_Signers s) (sn_Votes s)"

definition window :: "CliqueSnapshot \<Rightarrow> nat \<Rightarrow> bool" where
  "window s n \<longleftrightarrow> (\<forall>k r. sn_Recents s k = Some r \<longrightarrow> unat k \<le> n \<and> n < unat k + half_plus s)"

definition snap_inv :: "CliqueSnapshot \<Rightarrow> bool" where
  "snap_inv s \<longleftrightarrow> votes_inv s \<and> window s (unat (sn_Number s))"

lemma unat_signer_limit: "card (sn_Signers s) < 2 ^ 63 \<Longrightarrow> unat (signer_limit s) = half_plus s"
  unfolding signer_limit_def half_plus_def by (subst unat_of_nat) simp

lemma drop_recent_fields [simp]:
  "sn_Signers (drop_recent n s) = sn_Signers s" "sn_Votes (drop_recent n s) = sn_Votes s" "sn_Tally (drop_recent n s) = sn_Tally s"
  "sn_Number (drop_recent n s) = sn_Number s" "sn_config (drop_recent n s) = sn_config s" "half_plus (drop_recent n s) = half_plus s"
  by (simp_all add: drop_recent_def Let_def half_plus_def)

lemma drop_recent_window:
  assumes "card (sn_Signers s) < 2 ^ 63" "\<And>k r. sn_Recents s k = Some r \<Longrightarrow> unat number \<le> unat k + half_plus s"
    "sn_Recents (drop_recent number s) k = Some r"
  shows "sn_Recents s k = Some r \<and> unat number < unat k + half_plus s"
proof -
  note L = unat_signer_limit [OF assms(1)]
  have h: "0 < half_plus s" by (simp add: half_plus_def)
  show ?thesis
  proof (cases "signer_limit s \<le> number")
    case True
    then have k: "sn_Recents s k = Some r" "k \<noteq> number - signer_limit s"
      using assms(3) by (auto simp: drop_recent_def Let_def split: if_splits)
    have "unat (number - signer_limit s) = unat number - half_plus s" using True L by (simp add: unat_sub_le)
    then have "unat k \<noteq> unat number - half_plus s" using k(2) by (metis word_unat_eq_iff)
    then show ?thesis using assms(2) [OF k(1)] k(1) by linarith
  next
    case False
    then have "unat number < half_plus s" using L by (simp add: word_le_nat_alt)
    moreover have "sn_Recents s k = Some r" using assms(3) False by (simp add: drop_recent_def)
    ultimately show ?thesis by simp
  qed
qed

lemma card_half_mono: "finite T \<Longrightarrow> S \<subseteq> T \<Longrightarrow> card S div 2 + 1 \<le> card T div 2 + 1"
  by (simp add: card_mono div_le_mono)

text \<open>The change of the signers: what it does, and that it keeps the invariant.\<close>

lemma pass_vote_inv:
  assumes "votes_inv s" "window s (unat number)" "card (sn_Signers s) + 1 < 2 ^ 63" "s' = pass_vote number cb s"
  shows "votes_inv s'" "window s' (unat number)" "sn_Number s' = sn_Number s" "sn_config s' = sn_config s"
    "sn_Signers s' \<noteq> sn_Signers s \<Longrightarrow>
       cnt cb (sn_Votes s) > card (sn_Signers s) div 2 \<and>
       sn_Signers s' = (if cb \<in> sn_Signers s then sn_Signers s - {cb} else insert cb (sn_Signers s))"
proof -
  have ok: "tally_ok (sn_Signers s) (sn_Votes s) (sn_Tally s)" "votes_ok (sn_Signers s) (sn_Votes s)" "finite (sn_Signers s)"
    using assms(1) by (simp_all add: votes_inv_def)
  note t = tally_okD [OF ok(1), of cb]
  have "votes_inv s' \<and> window s' (unat number) \<and> sn_Number s' = sn_Number s \<and> sn_config s' = sn_config s \<and>
    (sn_Signers s' \<noteq> sn_Signers s \<longrightarrow> cnt cb (sn_Votes s) > card (sn_Signers s) div 2 \<and>
       sn_Signers s' = (if cb \<in> sn_Signers s then sn_Signers s - {cb} else insert cb (sn_Signers s)))"
  proof (cases "cnt cb (sn_Votes s) > card (sn_Signers s) div 2")
    case False
    then have "s' = s" using t by (simp add: assms(4) pass_vote_def)
    then show ?thesis using assms(1,2) by simp
  next
    case pass: True
    then have t1: "sn_Tally s cb = Some \<lparr>tl_Authorize = (cb \<notin> sn_Signers s), tl_Votes = int (cnt cb (sn_Votes s))\<rparr>" using t by auto
    have f: "tally_ok S' (filter (\<lambda>v. vt_Address v \<noteq> cb) vs) (tl(cb := None))"
      if "tally_ok (sn_Signers s) vs tl" "\<And>a. a \<noteq> cb \<Longrightarrow> a \<in> S' \<longleftrightarrow> a \<in> sn_Signers s" for S' vs tl
    proof -
      have "cnt a (filter (\<lambda>v. vt_Address v \<noteq> cb) vs) = (if a = cb then 0 else cnt a vs)" for a by (induction vs) auto
      then show ?thesis using that by (auto simp: tally_ok_def)
    qed
    have d: "distinct (map f (filter P vs))" if "distinct (map f vs)" for f :: "Vote \<Rightarrow> address \<times> address" and P vs
      using that by (induction vs) auto
    show ?thesis
    proof (cases "cb \<in> sn_Signers s")
      case False
      then have s': "s' = s\<lparr>sn_Signers := insert cb (sn_Signers s), sn_Votes := filter (\<lambda>v. vt_Address v \<noteq> cb) (sn_Votes s),
          sn_Tally := (sn_Tally s)(cb := None)\<rparr>"
        using pass t1 by (simp add: assms(4) pass_vote_def)
      have "tally_ok (sn_Signers s') (sn_Votes s') (sn_Tally s')" using f [OF ok(1)] by (simp add: s')
      moreover have "votes_ok (sn_Signers s') (sn_Votes s')" using ok(2) d by (auto simp: votes_ok_def s')
      moreover have "window s' (unat number)"
        using assms(2) card_half_mono [of "insert cb (sn_Signers s)" "sn_Signers s"] ok(3)
        by (fastforce simp: window_def half_plus_def s')
      ultimately show ?thesis using ok(3) assms(3) False pass by (auto simp: votes_inv_def s')
    next
      case True
      define s1 where "s1 = s\<lparr>sn_Signers := sn_Signers s - {cb}\<rparr>"
      define s2 where "s2 = drop_recent number s1"
      obtain vs s3 where v: "discard_votes_of cb (sn_Votes s2) s2 = (vs, s3)" by fastforce
      have "tally_ok (sn_Signers s) ([] @ sn_Votes s2) (sn_Tally s2)" using ok(1) by (simp add: s2_def s1_def)
      note d3 = discard_votes_of_ok [OF this v]
      then obtain tl where s3: "s3 = s2\<lparr>sn_Tally := tl\<rparr>" by blast
      have vs: "vs = filter (\<lambda>v. vt_Signer v \<noteq> cb) (sn_Votes s)" using d3 by (simp add: s2_def s1_def)
      have s': "s' = s2\<lparr>sn_Votes := filter (\<lambda>v. vt_Address v \<noteq> cb) vs, sn_Tally := tl(cb := None)\<rparr>"
        using pass t1 True v by (simp add: assms(4) pass_vote_def s1_def [symmetric] s2_def [symmetric] s3)
      have tl: "tally_ok (sn_Signers s) vs tl" using conjunct1 [OF d3] by (simp add: s3)
      have "tally_ok (sn_Signers s') (sn_Votes s') (sn_Tally s')" using f [OF tl] by (simp add: s' s2_def s1_def)
      moreover have "votes_ok (sn_Signers s') (sn_Votes s')" using ok(2) d by (auto simp: votes_ok_def s' s2_def s1_def vs)
      moreover have "window s' (unat number)"
      proof -
        have c: "card (sn_Signers s1) = card (sn_Signers s) - 1" "card (sn_Signers s1) < 2 ^ 63"
          using True ok(3) assms(3) by (simp_all add: s1_def)
        have h: "half_plus s \<le> half_plus s1 + 1" using c(1) by (simp add: half_plus_def)
        have "unat number \<le> unat k + half_plus s1" if "sn_Recents s1 k = Some r" for k r
          using assms(2) that h by (fastforce simp: window_def s1_def)
        from drop_recent_window [OF c(2) this] have "sn_Recents s2 k = Some r \<Longrightarrow>
            sn_Recents s k = Some r \<and> unat number < unat k + half_plus s2" for k r
          by (simp add: s2_def s1_def)
        then show ?thesis using assms(2) by (fastforce simp: window_def s' half_plus_def)
      qed
      moreover have "card (sn_Signers s - {cb}) \<le> card (sn_Signers s)" using ok(3) by (simp add: card_mono)
      ultimately show ?thesis using ok(3) assms(3) True pass by (auto simp: votes_inv_def s' s2_def s1_def)
    qed
  qed
  then show "votes_inv s'" "window s' (unat number)" "sn_Number s' = sn_Number s" "sn_config s' = sn_config s"
    "sn_Signers s' \<noteq> sn_Signers s \<Longrightarrow> cnt cb (sn_Votes s) > card (sn_Signers s) div 2 \<and>
       sn_Signers s' = (if cb \<in> sn_Signers s then sn_Signers s - {cb} else insert cb (sn_Signers s))"
    by blast+
qed

section \<open>One header\<close>

text \<open>
  A vote in detail: the invariant before the vote, the votes it leaves, and the snapshot after it. The voters
  on an account are the signers with a vote on it.
\<close>

definition voters :: "CliqueSnapshot \<Rightarrow> address \<Rightarrow> address set" where
  "voters s a = {vt_Signer v |v. v \<in> set (sn_Votes s) \<and> vt_Address v = a}"

lemma card_voters: "votes_ok S vs \<Longrightarrow> card {vt_Signer v |v. v \<in> set vs \<and> vt_Address v = a} = cnt a vs"
proof -
  assume v: "votes_ok S vs"
  have "distinct (map vt_Signer (filter (\<lambda>v. vt_Address v = a) vs))"
  proof -
    have i: "distinct vs" "inj_on (\<lambda>v. (vt_Signer v, vt_Address v)) (set vs)" using v by (simp_all add: votes_ok_def distinct_map)
    have "inj_on vt_Signer (set (filter (\<lambda>v. vt_Address v = a) vs))"
    proof (rule inj_onI)
      fix v w assume "v \<in> set (filter (\<lambda>v. vt_Address v = a) vs)" "w \<in> set (filter (\<lambda>v. vt_Address v = a) vs)" "vt_Signer v = vt_Signer w"
      then show "v = w" using inj_onD [OF i(2), of v w] by simp
    qed
    then show ?thesis using i(1) by (simp add: distinct_map)
  qed
  then have "card (set (map vt_Signer (filter (\<lambda>v. vt_Address v = a) vs))) = cnt a vs"
    using distinct_card [of "map vt_Signer (filter (\<lambda>v. vt_Address v = a) vs)"] by (simp add: cnt_def)
  moreover have "{vt_Signer v |v. v \<in> set vs \<and> vt_Address v = a} = set (map vt_Signer (filter (\<lambda>v. vt_Address v = a) vs))" by auto
  ultimately show ?thesis by simp
qed

lemma tally_vote_casts:
  assumes "votes_inv s" "signer \<in> sn_Signers s" "tally_vote number signer cb nonce s = Inr s'"
  obtains s4 where "votes_inv s4" "s' = pass_vote number cb s4" "sn_Signers s4 = sn_Signers s" "sn_Number s4 = sn_Number s"
    "sn_config s4 = sn_config s" "sn_Recents s4 = (sn_Recents s)(number \<mapsto> signer)"
    "\<forall>v\<in>set (sn_Votes s4). v \<in> set (sn_Votes s) \<or> vt_Signer v = signer"
    "(nonce = nonceAuthVote) = (cb \<notin> sn_Signers s) \<Longrightarrow> 0 < cnt cb (sn_Votes s4)"
proof -
  have ok: "tally_ok (sn_Signers s) (sn_Votes s) (sn_Tally s)" "votes_ok (sn_Signers s) (sn_Votes s)"
    using assms(1) by (simp_all add: votes_inv_def)
  define s0 where "s0 = s\<lparr>sn_Recents := (sn_Recents s)(number \<mapsto> signer)\<rparr>"
  obtain vs s1 where d: "discard_vote signer cb (sn_Votes s0) s0 = (vs, s1)" by fastforce
  have "tally_ok (sn_Signers s) ([] @ sn_Votes s0) (sn_Tally s0)" using ok(1) by (simp add: s0_def)
  note d1 = discard_vote_ok [OF this d]
  have dist: "distinct (map (\<lambda>v. (vt_Signer v, vt_Address v)) (sn_Votes s0))" using ok(2) by (simp add: s0_def votes_ok_def)
  note d1 = d1 [OF dist]
  then obtain tl where s1: "s1 = s0\<lparr>sn_Tally := tl\<rparr>" by blast
  have vs: "vs = filter (\<lambda>v. \<not> (vt_Signer v = signer \<and> vt_Address v = cb)) (sn_Votes s)" using d1 by (simp add: s0_def)
  define s2 where "s2 = s1\<lparr>sn_Votes := vs\<rparr>"
  have ok2: "tally_ok (sn_Signers s2) (sn_Votes s2) (sn_Tally s2)" using conjunct1 [OF d1] by (simp add: s2_def s1 s0_def)
  obtain counted s3 where c: "cast_vote cb (nonce = nonceAuthVote) s2 = (counted, s3)" by fastforce
  define s4 where "s4 = (if counted then s3\<lparr>sn_Votes := sn_Votes s3 @
      [\<lparr>vt_Signer = signer, vt_Block = number, vt_Address = cb, vt_Authorize = (nonce = nonceAuthVote)\<rparr>]\<rparr> else s3)"
  note c4 = cast_tally [OF ok2 c s4_def]
  obtain new where new: "sn_Votes s4 = vs @ new" "new = [] \<or> (\<exists>v. new = [v] \<and> vt_Signer v = signer \<and> vt_Address v = cb)"
    using c4 by (auto simp: s2_def)
  obtain t4 where s4: "s4 = s2\<lparr>sn_Votes := vs @ new, sn_Tally := t4\<rparr>" using c4 new(1) by metis
  have S4: "sn_Signers s4 = sn_Signers s" "sn_Number s4 = sn_Number s" "sn_config s4 = sn_config s"
    "sn_Recents s4 = (sn_Recents s)(number \<mapsto> signer)"
    by (simp_all add: s4 s2_def s1 s0_def)
  have s': "s' = pass_vote number cb s4"
    using assms(3) c by (auto simp: tally_vote_def Let_def s0_def [symmetric] d s2_def [symmetric] s4_def split: if_splits)
  have dvs: "distinct (map (\<lambda>v. (vt_Signer v, vt_Address v)) vs)" using ok(2) unfolding votes_ok_def vs by (simp add: distinct_map_filter)
  have v4: "votes_ok (sn_Signers s4) (sn_Votes s4)"
    using dvs ok(2) assms(2) new by (auto simp: votes_ok_def S4(1) vs)
  have "tally_ok (sn_Signers s4) (sn_Votes s4) (sn_Tally s4)" using conjunct1 [OF c4] by (simp add: S4(1) s2_def s1 s0_def)
  then have i4: "votes_inv s4" using v4 assms(1) by (simp add: votes_inv_def S4(1))
  have w4: "\<forall>v\<in>set (sn_Votes s4). v \<in> set (sn_Votes s) \<or> vt_Signer v = signer" using new by (auto simp: vs)
  have n4: "0 < cnt cb (sn_Votes s4)" if "(nonce = nonceAuthVote) = (cb \<notin> sn_Signers s)"
    using conjunct1 [OF conjunct2 [OF c4]] that by (simp add: s2_def s1 s0_def)
  show ?thesis by (rule that [OF i4 s' S4 w4 n4])
qed

lemma tally_vote_inv:
  assumes "votes_inv s" "window s (unat number)"
    "signer \<in> sn_Signers s" "card (sn_Signers s) + 1 < 2 ^ 63" "tally_vote number signer cb nonce s = Inr s'"
  shows "votes_inv s' \<and> window s' (unat number) \<and> sn_Number s' = sn_Number s \<and> sn_config s' = sn_config s \<and>
    (sn_Signers s' \<noteq> sn_Signers s \<longrightarrow>
       sn_Signers s' = (if cb \<in> sn_Signers s then sn_Signers s - {cb} else insert cb (sn_Signers s)) \<and>
       (\<exists>V \<subseteq> sn_Signers s. V \<subseteq> insert signer (voters s cb) \<and> card (sn_Signers s) div 2 < card V))"
proof -
  obtain s4 where i4: "votes_inv s4" and s': "s' = pass_vote number cb s4"
    and S4: "sn_Signers s4 = sn_Signers s" "sn_Number s4 = sn_Number s" "sn_config s4 = sn_config s"
      "sn_Recents s4 = (sn_Recents s)(number \<mapsto> signer)"
    and vs: "\<forall>v\<in>set (sn_Votes s4). v \<in> set (sn_Votes s) \<or> vt_Signer v = signer"
    by (rule tally_vote_casts [OF assms(1,3,5)])
  have v4: "votes_ok (sn_Signers s4) (sn_Votes s4)" using i4 by (simp add: votes_inv_def)
  have w4: "window s4 (unat number)"
    using assms(2) by (auto simp: window_def S4 half_plus_def)
  note p = pass_vote_inv [OF i4 w4 _ s', unfolded S4]
  have "voters s4 cb \<subseteq> sn_Signers s" using v4 by (auto simp: voters_def votes_ok_def S4(1))
  moreover have "voters s4 cb \<subseteq> insert signer (voters s cb)" using vs by (auto simp: voters_def)
  moreover have "card (voters s4 cb) = cnt cb (sn_Votes s4)" unfolding voters_def by (rule card_voters [OF v4])
  ultimately have V: "\<exists>V \<subseteq> sn_Signers s. V \<subseteq> insert signer (voters s cb) \<and> card (sn_Signers s) div 2 < card V"
    if "card (sn_Signers s) div 2 < cnt cb (sn_Votes s4)" using that by (metis (no_types))
  show ?thesis
  proof (intro conjI impI)
    assume ch: "sn_Signers s' \<noteq> sn_Signers s"
    note q = p(5) [OF assms(4) ch]
    show "sn_Signers s' = (if cb \<in> sn_Signers s then sn_Signers s - {cb} else insert cb (sn_Signers s))" by (rule conjunct2 [OF q])
    show "\<exists>V \<subseteq> sn_Signers s. V \<subseteq> insert signer (voters s cb) \<and> card (sn_Signers s) div 2 < card V"
      by (rule V [OF conjunct1 [OF q]])
  qed (rule p(1-4) [OF assms(4)])+
qed

text \<open>The snapshot at which \<open>apply\<close> looks up the signer of the block \<open>number\<close>.\<close>

definition at_block :: "u64 \<Rightarrow> CliqueSnapshot \<Rightarrow> CliqueSnapshot" where
  "at_block number snap =
     drop_recent number (if number mod clique_Epoch (sn_config snap) = 0 then snap\<lparr>sn_Votes := [], sn_Tally := Map.empty\<rparr> else snap)"

lemma at_block_fields [simp]:
  "sn_Signers (at_block number snap) = sn_Signers snap" "sn_Number (at_block number snap) = sn_Number snap"
  "sn_config (at_block number snap) = sn_config snap" "half_plus (at_block number snap) = half_plus snap"
  "sn_Recents (at_block number snap) = sn_Recents (drop_recent number snap)"
  by (simp_all add: at_block_def half_plus_def drop_recent_def signer_limit_def Let_def)

lemma at_block_inv:
  assumes "votes_inv snap" "window snap n" "unat number = Suc n"
  shows "votes_inv (at_block number snap)"
    "sn_Recents (drop_recent number snap) k = Some r \<Longrightarrow> sn_Recents snap k = Some r \<and> unat k \<le> n \<and> unat number < unat k + half_plus snap"
    "voters (at_block number snap) a \<subseteq> voters snap a"
proof -
  show "votes_inv (at_block number snap)"
    using assms(1) by (auto simp: at_block_def votes_inv_def tally_ok_def votes_ok_def)
  have "unat number \<le> unat k + half_plus snap" if "sn_Recents snap k = Some r" for k r
    using assms(2,3) that by (fastforce simp: window_def)
  from drop_recent_window [of snap number k r, OF _ this]
  show "sn_Recents (drop_recent number snap) k = Some r \<Longrightarrow> sn_Recents snap k = Some r \<and> unat k \<le> n \<and> unat number < unat k + half_plus snap"
    using assms(1,2) by (auto simp: votes_inv_def window_def)
  show "voters (at_block number snap) a \<subseteq> voters snap a" by (auto simp: voters_def at_block_def)
qed

lemma apply_header_eq:
  assumes "hd_Number header = Some m" "number = big_Uint64 m" "clique_Epoch (sn_config snap) \<noteq> 0"
  shows "apply_header K rec header snap cache =
     go_bind (clique_ecrecover K rec header cache) (\<lambda>(r, cache).
       case r of
         Inl err \<Rightarrow> Ret (Inl err, cache)
       | Inr signer \<Rightarrow>
           if signer \<notin> sn_Signers snap then Ret (Inl errUnauthorizedSigner, cache)
           else if signer \<in> ran (sn_Recents (drop_recent number snap)) then Ret (Inl errRecentlySigned, cache)
           else Ret (tally_vote number signer (hd_Coinbase header) (hd_Nonce header) (at_block number snap), cache))"
proof -
  have f: "sn_Signers (at_block number snap) = sn_Signers snap"
    "sn_Recents (at_block number snap) = sn_Recents (drop_recent number snap)" by simp_all
  show ?thesis
    unfolding apply_header_def assms(1) deref_def option.simps go_bind.simps Let_def assms(2) [symmetric] if_not_P [OF assms(3)]
      at_block_def [symmetric] f by (rule refl)
qed

lemma apply_header_inv:
  assumes "votes_inv snap" "window snap n" "hd_Number header = Some m" "unat (big_Uint64 m) = Suc n" "card (sn_Signers snap) + 1 < 2 ^ 63"
    "clique_Epoch (sn_config snap) \<noteq> 0" "apply_header K rec header snap cache = Ret (Inr snap', cache')"
  shows "votes_inv snap'" "window snap' (Suc n)" "sn_Number snap' = sn_Number snap" "sn_config snap' = sn_config snap"
    "card (sn_Signers snap') \<le> Suc (card (sn_Signers snap))"
    "sn_Signers snap' \<noteq> sn_Signers snap \<Longrightarrow>
       sn_Signers snap' = (if hd_Coinbase header \<in> sn_Signers snap then sn_Signers snap - {hd_Coinbase header}
                           else insert (hd_Coinbase header) (sn_Signers snap)) \<and>
       (\<exists>signer V. clique_ecrecover K rec header cache = Ret (Inr signer, cache') \<and> V \<subseteq> sn_Signers snap \<and>
          V \<subseteq> insert signer (voters snap (hd_Coinbase header)) \<and> card (sn_Signers snap) div 2 < card V)"
proof -
  let ?number = "big_Uint64 m"
  obtain signer where s: "clique_ecrecover K rec header cache = Ret (Inr signer, cache')" "signer \<in> sn_Signers snap"
    "tally_vote ?number signer (hd_Coinbase header) (hd_Nonce header) (at_block ?number snap) = Inr snap'"
  proof -
    obtain r c where e: "clique_ecrecover K rec header cache = Ret (r, c)"
      using assms(7) unfolding apply_header_eq [OF assms(3) refl assms(6)] by (auto simp: case_prod_beta)
    show ?thesis using assms(7) that unfolding apply_header_eq [OF assms(3) refl assms(6)] e
      by (cases r) (auto split: if_splits)
  qed
  note a = at_block_inv [OF assms(1,2,4)]
  have rec: "window (at_block ?number snap) (unat ?number)"
    using a(2) assms(4) by (fastforce simp: window_def)
  have t: "votes_inv snap' \<and> window snap' (unat ?number) \<and> sn_Number snap' = sn_Number snap \<and> sn_config snap' = sn_config snap \<and>
    (sn_Signers snap' \<noteq> sn_Signers snap \<longrightarrow>
       sn_Signers snap' = (if hd_Coinbase header \<in> sn_Signers snap then sn_Signers snap - {hd_Coinbase header}
                           else insert (hd_Coinbase header) (sn_Signers snap)) \<and>
       (\<exists>V \<subseteq> sn_Signers snap. V \<subseteq> insert signer (voters (at_block ?number snap) (hd_Coinbase header)) \<and>
          card (sn_Signers snap) div 2 < card V))"
    using tally_vote_inv [OF a(1) rec _ _ s(3)] s(2) assms(5) unfolding at_block_fields by blast
  show "votes_inv snap'" "window snap' (Suc n)" "sn_Number snap' = sn_Number snap" "sn_config snap' = sn_config snap"
    using t assms(4) by auto
  have fin: "finite (sn_Signers snap)" using assms(1) by (simp add: votes_inv_def)
  show "card (sn_Signers snap') \<le> Suc (card (sn_Signers snap))"
  proof (cases "sn_Signers snap' = sn_Signers snap")
    case False
    then show ?thesis
      using t fin card_insert_le_m1 by (auto simp: card_insert_if card_Diff_singleton_if)
  qed simp
  assume "sn_Signers snap' \<noteq> sn_Signers snap"
  then show "sn_Signers snap' = (if hd_Coinbase header \<in> sn_Signers snap then sn_Signers snap - {hd_Coinbase header}
                           else insert (hd_Coinbase header) (sn_Signers snap)) \<and>
       (\<exists>signer V. clique_ecrecover K rec header cache = Ret (Inr signer, cache') \<and> V \<subseteq> sn_Signers snap \<and>
          V \<subseteq> insert signer (voters snap (hd_Coinbase header)) \<and> card (sn_Signers snap) div 2 < card V)"
    using t s(1) a(3) by (meson dual_order.trans insert_mono)
qed

section \<open>Reachable snapshots\<close>

fun header_numbers :: "header list \<Rightarrow> u64 list go" where
  "header_numbers [] = Ret []"
| "header_numbers (h # hs) =
     go_bind (deref (hd_Number h)) (\<lambda>n. go_bind (header_numbers hs) (\<lambda>ns. Ret (big_Uint64 n # ns)))"

fun contiguous :: "u64 \<Rightarrow> u64 list \<Rightarrow> bool" where
  "contiguous n [] = True"
| "contiguous n (m # ms) \<longleftrightarrow> m = n + 1 \<and> contiguous m ms"

lemma linked_numbers:
  "linked (h # hs) = Ret True \<Longrightarrow> hd_Number h = Some m \<Longrightarrow> big_Uint64 m = n + 1 \<Longrightarrow>
     \<exists>ns. header_numbers (h # hs) = Ret ns \<and> contiguous n ns"
proof (induction hs arbitrary: h m n)
  case (Cons h2 hs)
  obtain k where k: "hd_Number h2 = Some k" "linked (h2 # hs) = Ret True" "big_Uint64 k = big_Uint64 m + 1"
    using Cons.prems(1,2) by (auto simp: deref_def split: option.splits if_splits)
  from Cons.IH [OF k(2,1,3)] show ?case using Cons.prems(2,3) by (auto simp: deref_def)
qed (simp add: deref_def)

lemma sn_apply_cases:
  assumes "sn_apply K rec snap headers cache = Ret (Inr snap', cache')" "headers \<noteq> []"
  obtains ns m snap1 h where "header_numbers headers = Ret ns" "contiguous (sn_Number snap) ns" "hd_Number (hd headers) = Some m"
    "big_Uint64 m = sn_Number snap + 1" "apply_headers K rec headers snap cache = Ret (Inr snap1, cache')"
    "snap' = snap1\<lparr>sn_Number := sn_Number snap1 + len64 headers, sn_Hash := h\<rparr>"
proof -
  have l: "linked headers = Ret True" using assms by (auto simp: sn_apply_def split: if_splits)
  obtain m where m: "hd_Number (hd headers) = Some m" "big_Uint64 m = sn_Number snap + 1"
    using assms l by (auto simp: sn_apply_def deref_def split: if_splits option.splits)
  obtain r c where e: "apply_headers K rec headers snap cache = Ret (r, c)"
    using assms l m by (auto simp: sn_apply_def deref_def case_prod_beta)
  obtain snap1 h where s: "r = Inr snap1" "c = cache'" "snap' = snap1\<lparr>sn_Number := sn_Number snap1 + len64 headers, sn_Hash := h\<rparr>"
    using assms l m e by (cases r) (auto simp: sn_apply_def deref_def)
  show ?thesis using linked_numbers [of "hd headers" "tl headers"] l m that [OF _ _ m _ s(3)] e s(1,2) assms(2) by auto
qed

lemma apply_headers_inv:
  assumes "votes_inv snap" "window snap n" "header_numbers headers = Ret numbers" "contiguous (word_of_nat n) numbers"
    "n + length headers < 2 ^ 64" "card (sn_Signers snap) + length headers < 2 ^ 63" "clique_Epoch (sn_config snap) \<noteq> 0"
    "apply_headers K rec headers snap cache = Ret (Inr snap', cache')"
  shows "votes_inv snap' \<and> window snap' (n + length headers) \<and> sn_Number snap' = sn_Number snap \<and> sn_config snap' = sn_config snap"
  using assms
proof (induction headers arbitrary: snap n numbers cache)
  case (Cons header headers)
  obtain m ns where m: "hd_Number header = Some m" "header_numbers headers = Ret ns" "numbers = big_Uint64 m # ns"
    using Cons.prems(3) by (auto simp: deref_def split: option.splits)
  obtain snap1 cache1 where 1: "apply_header K rec header snap cache = Ret (Inr snap1, cache1)"
    "apply_headers K rec headers snap1 cache1 = Ret (Inr snap', cache')"
  proof -
    obtain r c where e: "apply_header K rec header snap cache = Ret (r, c)" using Cons.prems(8) by (auto simp: case_prod_beta)
    show ?thesis using Cons.prems(8) that e by (cases r) auto
  qed
  have b: "big_Uint64 m = word_of_nat (Suc n)" using Cons.prems(4) m(3) by (simp add: add.commute)
  then have u: "unat (big_Uint64 m) = Suc n" using Cons.prems(5) unfolding b unat_of_nat by simp
  have c: "card (sn_Signers snap) + 1 < 2 ^ 63" using Cons.prems(6) by simp
  note a = apply_header_inv [OF Cons.prems(1,2) m(1) u c Cons.prems(7) 1(1)]
  have "contiguous (word_of_nat (Suc n)) ns" using Cons.prems(4) m(3) b by simp
  from Cons.IH [OF a(1,2) m(2) this _ _ _ 1(2)] show ?case using Cons.prems(5,6,7) a(3,4,5) by simp
qed simp

lemma sn_apply_inv:
  assumes "snap_inv snap" "clique_Epoch (sn_config snap) \<noteq> 0" "unat (sn_Number snap) + length headers < 2 ^ 64"
    "card (sn_Signers snap) + length headers < 2 ^ 63" "sn_apply K rec snap headers cache = Ret (Inr snap', cache')"
  shows "snap_inv snap' \<and> sn_config snap' = sn_config snap \<and> unat (sn_Number snap') = unat (sn_Number snap) + length headers"
proof (cases "headers = []")
  case False
  let ?n = "unat (sn_Number snap)"
  obtain numbers m snap1 h where 1: "header_numbers headers = Ret numbers" "contiguous (sn_Number snap) numbers"
    "apply_headers K rec headers snap cache = Ret (Inr snap1, cache')"
    "snap' = snap1\<lparr>sn_Number := sn_Number snap1 + len64 headers, sn_Hash := h\<rparr>"
    using sn_apply_cases [OF assms(5) False] by metis
  have "contiguous (word_of_nat ?n) numbers" using 1(2) by simp
  note a = apply_headers_inv [OF _ _ 1(1) this assms(3,4,2) 1(3)]
  then have a: "votes_inv snap1" "window snap1 (?n + length headers)" "sn_Number snap1 = sn_Number snap" "sn_config snap1 = sn_config snap"
    using assms(1) by (simp_all add: snap_inv_def)
  have "unat (sn_Number snap + len64 headers) = ?n + length headers"
    using assms(3) by (simp add: unat_add_no_overflow unat_len64)
  then show ?thesis using a by (simp add: snap_inv_def 1(4) votes_inv_def window_def half_plus_def)
qed (use assms in \<open>simp add: sn_apply_def\<close>)

text \<open>
  The snapshots of a chain: one of a genesis or checkpoint block, then any batches of headers that \<open>apply\<close>
  accepts, as long as the block number and the number of signers stay in the range of their types.
\<close>

inductive clique_reach :: "(bytes \<Rightarrow> hash) \<Rightarrow> (bytes \<Rightarrow> bytes \<Rightarrow> bytes option) \<Rightarrow> CliqueSnapshot \<Rightarrow> bool"
  for K :: "bytes \<Rightarrow> hash" and rec :: "bytes \<Rightarrow> bytes \<Rightarrow> bytes option" where
  genesis: "clique_Epoch config \<noteq> 0 \<Longrightarrow> length signers < 2 ^ 63 \<Longrightarrow> clique_reach K rec (newSnapshot config number h signers)"
| batch: "clique_reach K rec snap \<Longrightarrow> unat (sn_Number snap) + length headers < 2 ^ 64 \<Longrightarrow>
    card (sn_Signers snap) + length headers < 2 ^ 63 \<Longrightarrow> sn_apply K rec snap headers cache = Ret (Inr snap', cache') \<Longrightarrow>
    clique_reach K rec snap'"

lemma clique_reach_inv: "clique_reach K rec snap \<Longrightarrow> snap_inv snap \<and> clique_Epoch (sn_config snap) \<noteq> 0"
proof (induction rule: clique_reach.induct)
  case (genesis config signers number h)
  have "card (set signers) \<le> length signers" by (rule card_length)
  then show ?case using genesis by (simp add: snap_inv_def votes_inv_def window_def newSnapshot_def tally_ok_def votes_ok_def)
next
  case (batch snap headers cache snap' cache')
  then show ?case using sn_apply_inv [of snap headers K rec cache snap' cache'] by simp
qed

section \<open>Recent signers\<close>

lemma few_recents:
  assumes "votes_inv snap" "window snap n" "unat number = Suc n"
  shows "finite (ran (sn_Recents (drop_recent number snap)))" "card (ran (sn_Recents (drop_recent number snap))) \<le> card (sn_Signers snap) div 2"
proof -
  let ?R = "sn_Recents (drop_recent number snap)"
  let ?h = "half_plus snap"
  have k: "unat k \<in> {n + 2 - ?h..n} \<and> n + 1 < unat k + ?h" if "k \<in> dom ?R" for k
    using at_block_inv(2) [OF assms, of k] that assms(3) by (fastforce simp: dom_def)
  have "inj_on unat (dom ?R)" by (simp add: inj_on_def word_unat_eq_iff)
  then have "card (dom ?R) = card (unat ` dom ?R)" by (simp add: card_image)
  also have "\<dots> \<le> card {n + 2 - ?h..n}"
    by (rule card_mono, simp, rule image_subsetI, rule conjunct1 [OF k])
  also have "\<dots> \<le> ?h - 1" by (simp add: half_plus_def)
  finally have c: "card (dom ?R) \<le> card (sn_Signers snap) div 2" by (simp add: half_plus_def)
  have f: "finite (dom ?R)" by (rule finite_imageD [OF finite_subset [of _ "{..n}"] \<open>inj_on unat (dom ?R)\<close>]) (use k in auto)
  have r: "ran ?R \<subseteq> (\<lambda>k. the (?R k)) ` dom ?R" by (force simp: ran_def)
  then show "finite (ran ?R)" using f finite_subset by blast
  show "card (ran ?R) \<le> card (sn_Signers snap) div 2"
    using card_mono [OF finite_imageI [OF f] r] card_image_le [OF f, of "\<lambda>k. the (?R k)"] c by linarith
qed

lemma free_signer:
  assumes "votes_inv snap" "window snap n" "unat number = Suc n" "sn_Signers snap \<noteq> {}"
  shows "\<exists>s\<in>sn_Signers snap. s \<notin> ran (sn_Recents (drop_recent number snap))"
proof (rule ccontr)
  assume "\<not> ?thesis"
  then have "sn_Signers snap \<subseteq> ran (sn_Recents (drop_recent number snap))" by blast
  then have "card (sn_Signers snap) \<le> card (sn_Signers snap) div 2"
    using few_recents [OF assms(1-3)] card_mono le_trans by metis
  moreover have "0 < card (sn_Signers snap)" using assms(1,4) by (simp add: votes_inv_def card_gt_0_iff)
  ultimately show False by linarith
qed

lemma recent_checks:
  assumes "votes_inv snap" "window snap n" "unat number = Suc n"
  shows "recently_signed_seal snap number s \<longleftrightarrow> s \<in> ran (sn_Recents (drop_recent number snap))"
    "recently_signed snap number s \<longleftrightarrow> half_plus snap \<le> unat number \<and> s \<in> ran (sn_Recents (drop_recent number snap))"
proof -
  let ?h = "half_plus snap" and ?L = "signer_limit snap"
  have L: "unat ?L = ?h" using assms(1) by (simp add: unat_signer_limit votes_inv_def)
  have "card (sn_Signers snap) < 2 ^ 63" using assms(1) by (simp add: votes_inv_def)
  then have h: "?h < 2 ^ 63" unfolding half_plus_def by simp
  have w: "unat k \<le> n \<and> Suc n \<le> unat k + ?h" if "sn_Recents snap k = Some r" for k r
    using assms(2) that by (fastforce simp: window_def)
  have late: "k > number - ?L \<longleftrightarrow> k \<noteq> number - ?L" if "sn_Recents snap k = Some r" "?L \<le> number" for k r
  proof -
    have "unat (number - ?L) = unat number - ?h" using that(2) L by (simp add: unat_sub_le)
    then show ?thesis using w [OF that(1)] assms(3) by (auto simp: word_less_nat_alt word_unat_eq_iff)
  qed
  have early: "\<not> k > number - ?L" if "sn_Recents snap k = Some r" "\<not> ?L \<le> number" for k r
  proof -
    have lt: "unat number < ?h" using that(2) L by (simp add: word_le_nat_alt)
    have "unat (number - ?L) = unat number + 2 ^ 64 - ?h"
      unfolding unat_sub_if' L using lt by simp
    then show ?thesis using w [OF that(1)] assms(3) h lt by (simp add: word_less_nat_alt)
  qed
  have drop: "s \<in> ran (sn_Recents (drop_recent number snap)) \<longleftrightarrow>
      (\<exists>k. sn_Recents snap k = Some s \<and> (?L \<le> number \<longrightarrow> k \<noteq> number - ?L))"
    by (auto simp: drop_recent_def Let_def ran_def)
  show "recently_signed_seal snap number s \<longleftrightarrow> s \<in> ran (sn_Recents (drop_recent number snap))"
    unfolding drop recently_signed_seal_def using late by (auto simp: not_le [symmetric])
  show "recently_signed snap number s \<longleftrightarrow> ?h \<le> unat number \<and> s \<in> ran (sn_Recents (drop_recent number snap))"
    unfolding drop recently_signed_def using late early L by (auto simp: word_le_nat_alt)
qed

section \<open>What the voting guarantees\<close>

text \<open>The next block of a snapshot, and the application of one header in terms of the signer it recovers.\<close>

definition next_block :: "CliqueSnapshot \<Rightarrow> header \<Rightarrow> bool" where
  "next_block snap header \<longleftrightarrow> hd_Number header = Some (int (unat (sn_Number snap)) + 1) \<and> unat (sn_Number snap) + 1 < 2 ^ 64"

definition room_for_signer :: "CliqueSnapshot \<Rightarrow> bool" where
  "room_for_signer snap \<longleftrightarrow> unat (sn_Number snap) + 1 < 2 ^ 64 \<and> card (sn_Signers snap) + 1 < 2 ^ 63"

lemma next_number: "unat (n :: u64) + 1 < 2 ^ 64 \<Longrightarrow> unat (n + 1) = Suc (unat n)"
  by (simp add: unat_add_no_overflow)

lemma big_Uint64_next: "big_Uint64 (int (unat n) + 1) = n + 1"
  by (simp add: big_Uint64_def)

lemma clique_ecrecover_hash: "clique_ecrecover K rec header cache = Ret x \<Longrightarrow> \<exists>h. hd_Hash K header = Ret h"
  by (cases "hd_Hash K header") (auto simp: clique_ecrecover_def)

lemma apply_one:
  assumes "next_block snap header" "clique_Epoch (sn_config snap) \<noteq> 0" "hd_Nonce header \<in> {nonceAuthVote, nonceDropVote}"
    "clique_ecrecover K rec header cache = Ret (Inr s, cache')" "s \<in> sn_Signers snap"
    "s \<notin> ran (sn_Recents (drop_recent (sn_Number snap + 1) snap))"
  shows "\<exists>snap1 h. tally_vote (sn_Number snap + 1) s (hd_Coinbase header) (hd_Nonce header) (at_block (sn_Number snap + 1) snap) = Inr snap1 \<and>
    sn_apply K rec snap [header] cache = Ret (Inr (snap1\<lparr>sn_Number := sn_Number snap1 + 1, sn_Hash := h\<rparr>), cache')"
proof -
  have n: "hd_Number header = Some (int (unat (sn_Number snap)) + 1)" using assms(1) by (simp add: next_block_def)
  obtain snap1 where t: "tally_vote (sn_Number snap + 1) s (hd_Coinbase header) (hd_Nonce header) (at_block (sn_Number snap + 1) snap) = Inr snap1"
    using assms(3) by (auto simp: tally_vote_def Let_def case_prod_beta)
  obtain h where h: "hd_Hash K header = Ret h" using clique_ecrecover_hash [OF assms(4)] by blast
  have "apply_header K rec header snap cache = Ret (Inr snap1, cache')"
    unfolding apply_header_eq [OF n big_Uint64_next [symmetric] assms(2)] assms(4)
    using assms(5,6) t by simp
  then have "sn_apply K rec snap [header] cache = Ret (Inr (snap1\<lparr>sn_Number := sn_Number snap1 + 1, sn_Hash := h\<rparr>), cache')"
    by (simp add: sn_apply_def n h big_Uint64_def deref_def len64_def)
  then show ?thesis using t by blast
qed

text \<open>
  C11. A reachable snapshot with signers is never stuck: some signer may sign the next block, that is, \<open>Seal\<close>
  does not hold it back as a recent signer and \<open>apply\<close> accepts any header it signs with a valid nonce.
\<close>
theorem clique_never_stuck:
  assumes "clique_reach K rec snap" "sn_Signers snap \<noteq> {}" "room_for_signer snap"
  shows "\<exists>s\<in>sn_Signers snap. \<not> recently_signed_seal snap (sn_Number snap + 1) s \<and>
    (\<forall>header cache cache'. next_block snap header \<and> hd_Nonce header \<in> {nonceAuthVote, nonceDropVote} \<and>
       clique_ecrecover K rec header cache = Ret (Inr s, cache') \<longrightarrow>
       (\<exists>snap'. sn_apply K rec snap [header] cache = Ret (Inr snap', cache') \<and> sn_Number snap' = sn_Number snap + 1))"
proof -
  let ?n = "sn_Number snap + 1"
  have i: "votes_inv snap" "window snap (unat (sn_Number snap))" "clique_Epoch (sn_config snap) \<noteq> 0"
    using clique_reach_inv [OF assms(1)] by (simp_all add: snap_inv_def)
  have n: "unat ?n = Suc (unat (sn_Number snap))" using assms(3) by (intro next_number) (simp add: room_for_signer_def)
  obtain s where s: "s \<in> sn_Signers snap" "s \<notin> ran (sn_Recents (drop_recent ?n snap))"
    using free_signer [OF i(1,2) n assms(2)] by blast
  have free: "\<not> recently_signed_seal snap ?n s" using recent_checks(1) [OF i(1,2) n] s(2) by simp
  have "\<exists>snap'. sn_apply K rec snap [header] cache = Ret (Inr snap', cache') \<and> sn_Number snap' = sn_Number snap + 1"
    if h: "next_block snap header" "hd_Nonce header \<in> {nonceAuthVote, nonceDropVote}" "clique_ecrecover K rec header cache = Ret (Inr s, cache')"
    for header cache cache'
  proof -
    obtain snap' where a: "sn_apply K rec snap [header] cache = Ret (Inr snap', cache')"
      using apply_one [OF h(1) i(3) h(2,3) s] by blast
    have "unat (sn_Number snap') = unat ?n"
      using sn_apply_inv [OF _ i(3) _ _ a] clique_reach_inv [OF assms(1)] assms(3) n by (simp add: room_for_signer_def)
    then show ?thesis using a by (simp add: word_unat_eq_iff)
  qed
  then show ?thesis using s(1) free by blast
qed

section \<open>Who signed the last blocks\<close>

lemma drop_recent_exact:
  assumes "card (sn_Signers s) < 2 ^ 63" "\<And>k r. sn_Recents s k = Some r \<Longrightarrow> unat number \<le> unat k + half_plus s"
  shows "sn_Recents (drop_recent number s) k = (if unat number < unat k + half_plus s then sn_Recents s k else None)"
proof (cases "signer_limit s \<le> number")
  case True
  have "unat (number - signer_limit s) = unat number - half_plus s" "half_plus s \<le> unat number"
    using True unat_signer_limit [OF assms(1)] by (simp_all add: unat_sub_le word_le_nat_alt)
  then have "k = number - signer_limit s \<longleftrightarrow> unat number = unat k + half_plus s"
    by (metis add.commute le_add_diff_inverse add_diff_cancel_left' word_unat_eq_iff)
  then show ?thesis using True assms(2) [of k]
    by (cases "sn_Recents s k") (auto simp: drop_recent_def Let_def)
next
  case False
  then have "unat number < half_plus s" using unat_signer_limit [OF assms(1)] by (simp add: word_le_nat_alt)
  then show ?thesis using False by (simp add: drop_recent_def)
qed

lemma uncast_kept [simp]:
  "sn_Signers (snd (uncast_vote a b s)) = sn_Signers s" "sn_Recents (snd (uncast_vote a b s)) = sn_Recents s"
  by (simp_all add: uncast_vote_def split: option.split)

lemma discard_vote_kept [simp]:
  "sn_Signers (snd (discard_vote a cb vs s)) = sn_Signers s" "sn_Recents (snd (discard_vote a cb vs s)) = sn_Recents s"
  by (induction vs arbitrary: s) (simp_all add: case_prod_beta Let_def)

lemma discard_votes_of_kept [simp]:
  "sn_Signers (snd (discard_votes_of a vs s)) = sn_Signers s" "sn_Recents (snd (discard_votes_of a vs s)) = sn_Recents s"
  by (induction vs arbitrary: s) (simp_all add: case_prod_beta Let_def)

lemma cast_vote_kept [simp]:
  "sn_Signers (snd (cast_vote cb b s)) = sn_Signers s" "sn_Recents (snd (cast_vote cb b s)) = sn_Recents s"
  by (auto simp: cast_vote_def split: option.split)

lemma pass_vote_recents:
  obtains "sn_Recents (pass_vote n cb s) = sn_Recents s" "sn_Signers (pass_vote n cb s) \<in> {sn_Signers s, insert cb (sn_Signers s)}"
  | "sn_Signers (pass_vote n cb s) = sn_Signers s - {cb}"
    "sn_Recents (pass_vote n cb s) = sn_Recents (drop_recent n (s\<lparr>sn_Signers := sn_Signers s - {cb}\<rparr>))"
proof (cases "sn_Tally s cb")
  case (Some t)
  then show ?thesis using that
    by (cases "tl_Votes t > int (card (sn_Signers s) div 2)"; cases "tl_Authorize t") (simp_all add: pass_vote_def Let_def case_prod_beta)
qed (use that in \<open>simp add: pass_vote_def\<close>)

text \<open>The recent signers after a block, from those before: exactly the signers of the last blocks.\<close>

lemma tally_vote_recents:
  assumes "finite (sn_Signers s)" "card (sn_Signers s) < 2 ^ 63" "\<And>k r. sn_Recents s k = Some r \<Longrightarrow> unat n < unat k + half_plus s"
    "tally_vote n signer cb nonce s = Inr s'"
  shows "sn_Recents s' k = (if k = n then Some signer
      else if unat n < unat k + min (half_plus s) (half_plus s') then sn_Recents s k else None)"
proof -
  obtain s1 where s1: "s' = pass_vote n cb s1" "sn_Signers s1 = sn_Signers s" "sn_Recents s1 = (sn_Recents s)(n \<mapsto> signer)"
    using assms(4) by (auto simp: tally_vote_def Let_def case_prod_beta split: if_splits)
  have old: "unat n < unat k + half_plus s" if "sn_Recents s k = Some r" for r by (rule assms(3) [OF that])
  show ?thesis
  proof (cases rule: pass_vote_recents [of n cb s1])
    case 1
    then have "half_plus s \<le> half_plus s'"
      using assms(1) s1(1,2) by (auto simp: half_plus_def intro!: div_le_mono card_mono)
    then show ?thesis using 1(1) old s1 by (cases "sn_Recents s k") (auto simp: min_def)
  next
    case 2
    let ?s2 = "s1\<lparr>sn_Signers := sn_Signers s1 - {cb}\<rparr>"
    have c: "card (sn_Signers ?s2) \<le> card (sn_Signers s)" "card (sn_Signers s) \<le> Suc (card (sn_Signers ?s2))"
      using assms(1) s1(2) by (auto simp: card_Diff_singleton_if)
    have h: "half_plus s' = half_plus ?s2" "half_plus ?s2 \<le> half_plus s" "half_plus s \<le> Suc (half_plus ?s2)" "0 < half_plus ?s2"
      using c s1 2(1) by (simp_all add: half_plus_def div_le_mono)
    have "unat n \<le> unat j + half_plus ?s2" if "sn_Recents ?s2 j = Some r" for j r
      using that s1(3) h(3) assms(3) [of j] by (fastforce split: if_splits)
    then have "sn_Recents s' k = (if unat n < unat k + half_plus ?s2 then sn_Recents s1 k else None)"
      using drop_recent_exact [of ?s2 n k] 2(2) c assms(2) s1(1) by simp
    then show ?thesis using h s1(3) by (auto simp: min_def)
  qed
qed

lemma sn_apply_recents:
  assumes "clique_reach K rec snap" "room_for_signer snap" "sn_apply K rec snap [header] cache = Ret (Inr snap', cache')"
  shows "sn_Number snap' = sn_Number snap + 1 \<and>
    (\<exists>signer \<in> sn_Signers snap. clique_ecrecover K rec header cache = Ret (Inr signer, cache') \<and>
      (\<forall>k. unat (sn_Number snap') < unat k + half_plus snap \<longrightarrow> sn_Recents snap k \<noteq> Some signer) \<and>
      (\<forall>k. sn_Recents snap' k = (if k = sn_Number snap' then Some signer
         else if unat (sn_Number snap') < unat k + min (half_plus snap) (half_plus snap') then sn_Recents snap k else None)))"
proof -
  let ?n = "sn_Number snap + 1"
  have i: "votes_inv snap" "window snap (unat (sn_Number snap))" "clique_Epoch (sn_config snap) \<noteq> 0"
    using clique_reach_inv [OF assms(1)] by (simp_all add: snap_inv_def)
  have n: "unat ?n = Suc (unat (sn_Number snap))" using assms(2) by (intro next_number) (simp add: room_for_signer_def)
  have f: "finite (sn_Signers snap)" "card (sn_Signers snap) < 2 ^ 63" using i(1) by (simp_all add: votes_inv_def)
  obtain m snap0 h where m: "hd_Number header = Some m" "big_Uint64 m = ?n"
    and s0: "apply_headers K rec [header] snap cache = Ret (Inr snap0, cache')" "snap' = snap0\<lparr>sn_Number := sn_Number snap0 + len64 [header], sn_Hash := h\<rparr>"
    using sn_apply_cases [OF assms(3)] by (metis list.distinct(1) list.sel(1))
  obtain snap1 where s1: "apply_header K rec header snap cache = Ret (Inr snap1, cache')" "snap0 = snap1"
  proof -
    obtain r c' where e: "apply_header K rec header snap cache = Ret (r, c')" using s0(1) by (auto simp: case_prod_beta)
    show ?thesis using s0 e that by (cases r) auto
  qed
  obtain signer where s: "clique_ecrecover K rec header cache = Ret (Inr signer, cache')" "signer \<in> sn_Signers snap"
    "signer \<notin> ran (sn_Recents (drop_recent ?n snap))"
    "tally_vote ?n signer (hd_Coinbase header) (hd_Nonce header) (at_block ?n snap) = Inr snap1"
  proof -
    obtain r c where e: "clique_ecrecover K rec header cache = Ret (r, c)"
      using s1(1) unfolding apply_header_eq [OF m(1) refl i(3)] by (auto simp: case_prod_beta)
    show ?thesis using s1(1) that unfolding apply_header_eq [OF m(1) refl i(3)] e m(2)
      by (cases r) (auto split: if_splits)
  qed
  have "sn_Number snap1 = sn_Number snap"
    using apply_header_inv(3) [OF i(1,2) m(1) _ _ i(3) s1(1)] m(2) n assms(2) by (simp add: room_for_signer_def)
  then have num: "sn_Number snap' = ?n" using s0(2) s1(2) by (simp add: len64_def)
  have d: "sn_Recents (drop_recent ?n snap) k = (if unat ?n < unat k + half_plus snap then sn_Recents snap k else None)" for k
    by (rule drop_recent_exact [OF f(2)]) (use i(2) n in \<open>fastforce simp: window_def\<close>)
  have r: "sn_Recents snap1 k = (if k = ?n then Some signer
      else if unat ?n < unat k + min (half_plus snap) (half_plus snap1) then sn_Recents snap k else None)" for k
  proof -
    have "unat ?n < unat j + half_plus (at_block ?n snap)" if "sn_Recents (at_block ?n snap) j = Some r" for j r
      using that d [of j] by (simp split: if_splits)
    then have "sn_Recents snap1 k = (if k = ?n then Some signer
        else if unat ?n < unat k + min (half_plus (at_block ?n snap)) (half_plus snap1) then sn_Recents (at_block ?n snap) k else None)"
      by (intro tally_vote_recents [OF _ _ _ s(4)]) (use f in simp_all)
    then show ?thesis using d [of k] by (auto simp: min_def split: if_splits)
  qed
  have "sn_Recents snap' = sn_Recents snap1" "half_plus snap' = half_plus snap1" using s0(2) s1(2) by (simp_all add: half_plus_def)
  moreover have "sn_Recents snap k \<noteq> Some signer" if "unat ?n < unat k + half_plus snap" for k
    using s(3) d [of k] that by (auto simp: ran_def)
  ultimately show ?thesis using s(1,2) r num by auto
qed

text \<open>
  C27. In a reachable snapshot the tally of every account is the number of signers with a vote on it, and says
  whether they vote to add or to remove it; only signers have votes. The recent signers are those of the last
  \<open>limit\<close> blocks, where \<open>limit\<close> is half the number of signers plus one: a genesis snapshot has none, and the
  next block, whose signer is not one of the last \<open>limit - 1\<close>, is stored with its signer and forgets exactly
  the blocks that are \<open>limit\<close> or more behind (for the smaller limit, when the block changes the signers).
\<close>
theorem clique_tally_counts:
  assumes "clique_reach K rec snap"
  shows "(\<forall>a. sn_Tally snap a = (if voters snap a = {} then None
             else Some \<lparr>tl_Authorize = (a \<notin> sn_Signers snap), tl_Votes = int (card (voters snap a))\<rparr>) \<and>
           voters snap a \<subseteq> sn_Signers snap) \<and>
    (\<forall>k \<in> dom (sn_Recents snap). unat k \<le> unat (sn_Number snap) \<and>
           unat (sn_Number snap) - unat k < unat (signer_limit snap)) \<and>
    (\<forall>header cache snap' cache'. room_for_signer snap \<and> sn_apply K rec snap [header] cache = Ret (Inr snap', cache') \<longrightarrow>
       sn_Number snap' = sn_Number snap + 1 \<and>
       (\<exists>signer \<in> sn_Signers snap. clique_ecrecover K rec header cache = Ret (Inr signer, cache') \<and>
         (\<forall>k. unat (sn_Number snap') < unat k + half_plus snap \<longrightarrow> sn_Recents snap k \<noteq> Some signer) \<and>
         (\<forall>k. sn_Recents snap' k = (if k = sn_Number snap' then Some signer
            else if unat (sn_Number snap') < unat k + min (half_plus snap) (half_plus snap') then sn_Recents snap k else None))))"
proof -
  have i: "votes_inv snap" "window snap (unat (sn_Number snap))"
    using clique_reach_inv [OF assms] by (simp_all add: snap_inv_def)
  then have ok: "tally_ok (sn_Signers snap) (sn_Votes snap) (sn_Tally snap)" "votes_ok (sn_Signers snap) (sn_Votes snap)"
    and L: "unat (signer_limit snap) = half_plus snap"
    by (simp_all add: votes_inv_def unat_signer_limit)
  have c: "card (voters snap a) = cnt a (sn_Votes snap)" for a using card_voters [OF ok(2)] by (simp add: voters_def)
  have "finite (voters snap a)" for a unfolding voters_def by (rule finite_subset [of _ "vt_Signer ` set (sn_Votes snap)"]) auto
  then have e: "voters snap a = {} \<longleftrightarrow> cnt a (sn_Votes snap) = 0" for a using c [of a] by (metis card_0_eq)
  have v: "voters snap a \<subseteq> sn_Signers snap" for a using ok(2) by (auto simp: voters_def votes_ok_def)
  have w: "unat k \<le> unat (sn_Number snap) \<and> unat (sn_Number snap) - unat k < half_plus snap" if "k \<in> dom (sn_Recents snap)" for k
    using i(2) that by (fastforce simp: window_def)
  have "(\<forall>a. sn_Tally snap a = (if voters snap a = {} then None
             else Some \<lparr>tl_Authorize = (a \<notin> sn_Signers snap), tl_Votes = int (card (voters snap a))\<rparr>) \<and>
           voters snap a \<subseteq> sn_Signers snap)" using tally_okD [OF ok(1)] v by (simp add: e c)
  then show ?thesis unfolding L using w sn_apply_recents [OF assms] by blast
qed

text \<open>
  C10. The signers of a reachable snapshot change by majority only: a block that changes them adds or removes
  its coinbase alone, and more than half of the signers, the signer of the block among them or not, have a
  vote on it.
\<close>
theorem clique_majority:
  assumes "clique_reach K rec snap" "room_for_signer snap" "sn_apply K rec snap [header] cache = Ret (Inr snap', cache')"
    "sn_Signers snap' \<noteq> sn_Signers snap"
  shows "sn_Signers snap' = (if hd_Coinbase header \<in> sn_Signers snap then sn_Signers snap - {hd_Coinbase header}
                             else insert (hd_Coinbase header) (sn_Signers snap)) \<and>
    (\<exists>signer V. clique_ecrecover K rec header cache = Ret (Inr signer, cache') \<and> V \<subseteq> sn_Signers snap \<and>
       V \<subseteq> insert signer (voters snap (hd_Coinbase header)) \<and> card (sn_Signers snap) < 2 * card V)"
proof -
  let ?n = "sn_Number snap + 1"
  have i: "votes_inv snap" "window snap (unat (sn_Number snap))" "clique_Epoch (sn_config snap) \<noteq> 0"
    using clique_reach_inv [OF assms(1)] by (simp_all add: snap_inv_def)
  have n: "unat ?n = Suc (unat (sn_Number snap))" using assms(2) by (intro next_number) (simp add: room_for_signer_def)
  have c: "card (sn_Signers snap) + 1 < 2 ^ 63" using assms(2) by (simp add: room_for_signer_def)
  obtain m snap0 h where m: "hd_Number header = Some m" "big_Uint64 m = ?n"
    and s0: "apply_headers K rec [header] snap cache = Ret (Inr snap0, cache')" "snap' = snap0\<lparr>sn_Number := sn_Number snap0 + len64 [header], sn_Hash := h\<rparr>"
    using sn_apply_cases [OF assms(3)] by (metis list.distinct(1) list.sel(1))
  obtain snap1 where s1: "apply_header K rec header snap cache = Ret (Inr snap1, cache')" "sn_Signers snap' = sn_Signers snap1"
  proof -
    obtain r c' where e: "apply_header K rec header snap cache = Ret (r, c')" using s0(1) by (auto simp: case_prod_beta)
    show ?thesis using s0 e that by (cases r) auto
  qed
  have u: "unat (big_Uint64 m) = Suc (unat (sn_Number snap))" using m(2) n by simp
  note a = apply_header_inv(6) [OF i(1,2) m(1) u c i(3) s1(1)]
  have ch: "sn_Signers snap1 \<noteq> sn_Signers snap" using assms(4) s1(2) by simp
  obtain signer V where V: "clique_ecrecover K rec header cache = Ret (Inr signer, cache')" "V \<subseteq> sn_Signers snap"
    "V \<subseteq> insert signer (voters snap (hd_Coinbase header))" "card (sn_Signers snap) div 2 < card V"
    using conjunct2 [OF a [OF ch]] by blast
  have "card (sn_Signers snap) < 2 * card V" using V(4) by linarith
  then show ?thesis unfolding s1(2) using conjunct1 [OF a [OF ch]] V by blast
qed

text \<open>
  C32. The three checks for recent signers: that of \<open>Seal\<close> is the one of \<open>apply\<close>, but that of \<open>verifySeal\<close>
  agrees with them only from block \<open>limit\<close> on, where \<open>limit\<close> is half the number of signers plus one. Before,
  \<open>number - limit\<close> wraps around and \<open>verifySeal\<close> lets every recent signer pass.
\<close>
theorem recent_signer_checks:
  assumes "clique_reach K rec snap" "unat (sn_Number snap) + 1 < 2 ^ 64" "number = sn_Number snap + 1"
  shows "(recently_signed_seal snap number s \<longleftrightarrow> s \<in> ran (sn_Recents (drop_recent number snap))) \<and>
    (recently_signed snap number s \<longleftrightarrow> signer_limit snap \<le> number \<and> recently_signed_seal snap number s)"
proof -
  have i: "votes_inv snap" "window snap (unat (sn_Number snap))"
    using clique_reach_inv [OF assms(1)] by (simp_all add: snap_inv_def)
  then have "unat (signer_limit snap) = half_plus snap" by (simp add: votes_inv_def unat_signer_limit)
  then show ?thesis using recent_checks [OF i, of number s] next_number [OF assms(2)] assms(3) by (simp add: word_le_nat_alt)
qed

text \<open>
  Nothing keeps a sole signer from voting itself out. A snapshot without signers accepts no block any more,
  and the difficulty of the next block, an index modulo the number of signers, is a division by zero.
\<close>

lemma no_signers_difficulty: "sn_Signers snap = {} \<Longrightarrow> clique_calcDifficulty snap a = Panic DivisionByZero"
  by (simp add: clique_calcDifficulty_def inturn_def sn_signers_def)

lemma no_signers_stuck:
  assumes "sn_Signers snap = {}" "headers \<noteq> []"
  shows "sn_apply K rec snap headers cache \<noteq> Ret (Inr snap', cache')"
proof -
  obtain h hs where hs: "headers = h # hs" using assms(2) by (cases headers) auto
  have "apply_header K rec h snap cache \<noteq> Ret (Inr s1, c1)" for s1 c1
  proof
    assume a: "apply_header K rec h snap cache = Ret (Inr s1, c1)"
    obtain m where m: "hd_Number h = Some m" "clique_Epoch (sn_config snap) \<noteq> 0"
    proof -
      obtain m where "hd_Number h = Some m" using a by (auto simp: apply_header_def deref_def split: option.splits)
      moreover have "clique_Epoch (sn_config snap) \<noteq> 0"
        using a calculation by (cases "clique_Epoch (sn_config snap) = 0") (auto simp: apply_header_def deref_def Let_def)
      ultimately show ?thesis using that by blast
    qed
    note eq = apply_header_eq [OF m(1) refl m(2)]
    obtain r c where e: "clique_ecrecover K rec h cache = Ret (r, c)" using a unfolding eq by (auto simp: case_prod_beta)
    show False using a assms(1) unfolding eq e by (cases r) auto
  qed
  note one = this
  have never: "apply_headers K rec headers snap cache \<noteq> Ret (Inr s1, c1)" for s1 c1
  proof
    assume a: "apply_headers K rec headers snap cache = Ret (Inr s1, c1)"
    obtain r c where e: "apply_header K rec h snap cache = Ret (r, c)" using a unfolding hs by (auto simp: case_prod_beta)
    show False
    proof (cases r)
      case Inl
      then show ?thesis using a e by (simp add: hs)
    next
      case (Inr s2)
      then show ?thesis using one e by blast
    qed
  qed
  show "sn_apply K rec snap headers cache \<noteq> Ret (Inr snap', cache')"
    using sn_apply_cases [of K rec snap headers cache snap' cache'] assms(2) never by metis
qed

lemma drop_sole:
  assumes "votes_inv s" "sn_Signers s = {a}" "tally_vote number a a nonceDropVote s = Inr s'"
  shows "sn_Signers s' = {}"
proof -
  have a: "a \<in> sn_Signers s" using assms(2) by simp
  obtain s4 where i4: "votes_inv s4" and s': "s' = pass_vote number a s4" and S4: "sn_Signers s4 = sn_Signers s"
    and n: "0 < cnt a (sn_Votes s4)"
    by (rule tally_vote_casts [OF assms(1) a assms(3)]) (simp add: a)
  then have t: "sn_Tally s4 a = Some \<lparr>tl_Authorize = False, tl_Votes = int (cnt a (sn_Votes s4))\<rparr>"
    using tally_okD [of "sn_Signers s4" "sn_Votes s4" "sn_Tally s4" a] by (simp add: votes_inv_def assms(2))
  define s5 where "s5 = drop_recent number (s4\<lparr>sn_Signers := sn_Signers s4 - {a}\<rparr>)"
  obtain ws s6 where w: "discard_votes_of a (sn_Votes s5) s5 = (ws, s6)" by fastforce
  have "sn_Signers s6 = sn_Signers s5" using discard_votes_of_kept(1) [of a "sn_Votes s5" s5] w by simp
  then show ?thesis using t n S4 w assms(2) by (simp add: s' pass_vote_def s5_def)
qed

text \<open>
  C33. A sole signer can vote itself out, and the chain is lost: \<open>apply\<close> accepts the block, whatever its
  number, and the snapshot after it has no signer, accepts no further block, and makes the computation of
  the difficulty of the next block a division by zero.
\<close>
theorem sole_signer_removes_itself:
  assumes "clique_reach K rec snap" "sn_Signers snap = {a}" "next_block snap header" "hd_Coinbase header = a"
    "hd_Nonce header = nonceDropVote" "clique_ecrecover K rec header cache = Ret (Inr a, cache')"
  shows "\<exists>snap'. sn_apply K rec snap [header] cache = Ret (Inr snap', cache') \<and> sn_Signers snap' = {} \<and>
    clique_calcDifficulty snap' a = Panic DivisionByZero \<and>
    (\<forall>h hs c snap'' c'. sn_apply K rec snap' (h # hs) c \<noteq> Ret (Inr snap'', c'))"
proof -
  let ?n = "sn_Number snap + 1"
  have i: "votes_inv snap" "window snap (unat (sn_Number snap))" "clique_Epoch (sn_config snap) \<noteq> 0"
    using clique_reach_inv [OF assms(1)] by (simp_all add: snap_inv_def)
  have n: "unat ?n = Suc (unat (sn_Number snap))" using assms(3) by (intro next_number) (simp add: next_block_def)
  have free: "a \<notin> ran (sn_Recents (drop_recent ?n snap))" using free_signer [OF i(1,2) n] assms(2) by simp
  obtain snap1 h where t: "tally_vote ?n a a nonceDropVote (at_block ?n snap) = Inr snap1"
    "sn_apply K rec snap [header] cache = Ret (Inr (snap1\<lparr>sn_Number := sn_Number snap1 + 1, sn_Hash := h\<rparr>), cache')"
    using apply_one [OF assms(3) i(3) _ assms(6) _ free] assms(2,4,5) by auto
  note b = at_block_inv(1) [OF i(1,2) n]
  have "sn_Signers snap1 = {}" using drop_sole [OF b _ t(1)] assms(2) by simp
  then show ?thesis using t(2) no_signers_stuck no_signers_difficulty by auto
qed
section \<open>An example\<close>

text \<open>A chain of one block that account 7 signed, with a vote on account \<open>cb\<close>; the signature is in the cache.\<close>

definition example_snap :: "address list \<Rightarrow> CliqueSnapshot" where
  "example_snap signers = newSnapshot \<lparr>clique_Period = 15, clique_Epoch = 30000\<rparr> 0 0 signers"

definition example_vote :: "address \<Rightarrow> u64 \<Rightarrow> header" where
  "example_vote cb nonce = (sample_header 1)\<lparr>hd_Coinbase := cb, hd_Nonce := nonce\<rparr>"

abbreviation (input) example_hash :: "bytes \<Rightarrow> hash" where "example_hash \<equiv> \<lambda>_. 9"
abbreviation (input) example_recover :: "bytes \<Rightarrow> bytes \<Rightarrow> bytes option" where "example_recover \<equiv> \<lambda>_ _. None"

definition example_signed :: "address \<Rightarrow> u64 \<Rightarrow> sigLRU \<Rightarrow> sigLRU \<Rightarrow> bool" where
  "example_signed cb nonce cache cache' \<longleftrightarrow>
     clique_ecrecover example_hash example_recover (example_vote cb nonce) cache = Ret (Inr 7, cache')"

lemma example_vote_hash: "hd_Hash example_hash (example_vote cb nonce) = Ret 9"
proof -
  have "hd_SanityCheck (example_vote cb nonce) = hd_SanityCheck (sample_header 1)" "hd_signs (example_vote cb nonce) = hd_signs (sample_header 1)"
    by (simp_all add: example_vote_def hd_SanityCheck_def hd_signs_def)
  then have "hd_SanityCheck (example_vote cb nonce) = None" "hd_signs (example_vote cb nonce)"
    using sample_header_ok [of 1] by simp_all
  from Hash_items [OF this, of example_hash] show ?thesis by simp
qed

lemma example_signs: "\<exists>cache cache'. example_signed cb nonce cache cache'"
proof -
  obtain c where "lru_is c 4096 [(9 :: hash, 7 :: address)]"
    using lru_Add_is [OF lru_New_is [of 0 4096], of 9 7] by (auto simp: sp_Add_def)
  then obtain c' where "lru_Get 9 c = Ret (Some 7, c')" using lru_Get_is [of c 4096 "[(9, 7)]" 9] by (auto simp: sp_Get_def)
  then have "example_signed cb nonce c c'" by (simp add: example_signed_def clique_ecrecover_def example_vote_hash)
  then show ?thesis by blast
qed

lemma example_snap_reach: "length signers < 2 ^ 63 \<Longrightarrow> clique_reach K rec (example_snap signers)"
  unfolding example_snap_def by (rule clique_reach.genesis) simp_all

lemma example_next: "next_block (example_snap signers) (example_vote cb nonce)"
  by (simp add: next_block_def example_snap_def newSnapshot_def example_vote_def sample_header_def)

lemma example_fields [simp]:
  "sn_Signers (example_snap signers) = set signers" "sn_Number (example_snap signers) = 0"
  "sn_Recents (example_snap signers) = Map.empty" "sn_config (example_snap signers) = \<lparr>clique_Period = 15, clique_Epoch = 30000\<rparr>"
  "sn_Votes (example_snap signers) = []" "sn_Tally (example_snap signers) = Map.empty"
  by (simp_all add: example_snap_def newSnapshot_def)

lemma example_drop: "drop_recent n (example_snap signers) = example_snap signers"
  by (simp add: drop_recent_def Let_def example_snap_def newSnapshot_def)

lemma example_at_block: "at_block 1 (example_snap signers) = example_snap signers"
  by (simp add: at_block_def example_drop)

lemma example_apply:
  assumes "example_signed cb nonce cache cache'" "7 \<in> set signers" "nonce \<in> {nonceAuthVote, nonceDropVote}"
  shows "\<exists>snap1 h. tally_vote 1 7 cb nonce (example_snap signers) = Inr snap1 \<and>
    sn_apply example_hash example_recover (example_snap signers) [example_vote cb nonce] cache =
      Ret (Inr (snap1\<lparr>sn_Number := sn_Number snap1 + 1, sn_Hash := h\<rparr>), cache')"
  using apply_one [OF example_next, of signers cb nonce example_hash example_recover cache 7 cache'] assms
  by (simp add: example_signed_def example_drop example_at_block example_vote_def)

theorem clique_never_stuck_witness:
  "\<exists>s\<in>{7, 8}. \<not> recently_signed_seal (example_snap [7, 8]) 1 s \<and>
    (\<forall>header cache cache'. next_block (example_snap [7, 8]) header \<and> hd_Nonce header \<in> {nonceAuthVote, nonceDropVote} \<and>
       clique_ecrecover example_hash example_recover header cache = Ret (Inr s, cache') \<longrightarrow>
       (\<exists>snap'. sn_apply example_hash example_recover (example_snap [7, 8]) [header] cache = Ret (Inr snap', cache') \<and> sn_Number snap' = 1))"
  using clique_never_stuck [OF example_snap_reach, of "[7, 8]" example_hash example_recover]
  by (simp add: room_for_signer_def)

text \<open>The new signer 9 that the sole signer 7 votes in, as the witness of the theorems on a vote.\<close>

lemma example_add:
  obtains cache cache' snap' where "example_signed 9 nonceAuthVote cache cache'"
    "sn_apply example_hash example_recover (example_snap [7]) [example_vote 9 nonceAuthVote] cache = Ret (Inr snap', cache')"
    "sn_Signers snap' = {7, 9}"
proof -
  obtain cache cache' where s: "example_signed 9 nonceAuthVote cache cache'" using example_signs by blast
  obtain snap1 h where a: "tally_vote 1 7 9 nonceAuthVote (example_snap [7]) = Inr snap1"
    "sn_apply example_hash example_recover (example_snap [7]) [example_vote 9 nonceAuthVote] cache =
      Ret (Inr (snap1\<lparr>sn_Number := sn_Number snap1 + 1, sn_Hash := h\<rparr>), cache')"
    using example_apply [OF s, of "[7]"] by auto
  have "sn_Signers snap1 = {7, 9}"
    using a(1) by (auto simp: tally_vote_def cast_vote_def validVote_def pass_vote_def Let_def)
  then show ?thesis using that [OF s a(2)] by simp
qed

theorem clique_majority_witness:
  "\<exists>cache cache' snap' signer V. sn_apply example_hash example_recover (example_snap [7]) [example_vote 9 nonceAuthVote] cache = Ret (Inr snap', cache') \<and>
     sn_Signers snap' = {7, 9} \<and> V \<subseteq> {7} \<and> V \<subseteq> insert signer (voters (example_snap [7]) 9) \<and> card {7 :: address} < 2 * card V"
proof -
  obtain cache cache' snap' where a: "example_signed 9 nonceAuthVote cache cache'"
    "sn_apply example_hash example_recover (example_snap [7]) [example_vote 9 nonceAuthVote] cache = Ret (Inr snap', cache')"
    "sn_Signers snap' = {7, 9}" by (rule example_add)
  have "room_for_signer (example_snap [7])" "sn_Signers snap' \<noteq> sn_Signers (example_snap [7])"
    by (auto simp: room_for_signer_def a(3))
  from clique_majority [OF example_snap_reach this(1) a(2) this(2)]
  obtain signer V where "V \<subseteq> {7}" "V \<subseteq> insert signer (voters (example_snap [7]) 9)" "card {7 :: address} < 2 * card V"
    by (auto simp: example_vote_def)
  then show ?thesis using a(2,3) by blast
qed

theorem sole_signer_removes_itself_witness:
  "\<exists>cache cache' snap'. sn_apply example_hash example_recover (example_snap [7]) [example_vote 7 nonceDropVote] cache = Ret (Inr snap', cache') \<and>
     sn_Signers snap' = {} \<and> clique_calcDifficulty snap' 7 = Panic DivisionByZero"
proof -
  obtain cache cache' where s: "clique_ecrecover example_hash example_recover (example_vote 7 nonceDropVote) cache = Ret (Inr 7, cache')"
    using example_signs unfolding example_signed_def by blast
  have "clique_reach example_hash example_recover (example_snap [7])" by (rule example_snap_reach) simp
  from sole_signer_removes_itself [OF this _ example_next _ _ s] show ?thesis by (auto simp: example_vote_def)
qed

text \<open>The block with which signer 7 of two or four votes for account 9, and the vote stays open.\<close>

lemma example_open:
  assumes "signers \<in> {[7, 8], [7, 8, 10, 11]}"
  obtains snap where "clique_reach example_hash example_recover snap" "sn_Signers snap = set signers" "sn_Number snap = 1"
    "sn_Recents snap = [1 \<mapsto> 7]" "sn_Tally snap = [9 \<mapsto> \<lparr>tl_Authorize = True, tl_Votes = 1\<rparr>]"
    "sn_Votes snap = [\<lparr>vt_Signer = 7, vt_Block = 1, vt_Address = 9, vt_Authorize = True\<rparr>]"
proof -
  obtain cache cache' where s: "example_signed 9 nonceAuthVote cache cache'" using example_signs by blast
  have m: "7 \<in> set signers" "length signers + 1 < 2 ^ 63" using assms by auto
  obtain snap1 h where a: "tally_vote 1 7 9 nonceAuthVote (example_snap signers) = Inr snap1"
    "sn_apply example_hash example_recover (example_snap signers) [example_vote 9 nonceAuthVote] cache =
      Ret (Inr (snap1\<lparr>sn_Number := sn_Number snap1 + 1, sn_Hash := h\<rparr>), cache')"
    using example_apply [OF s m(1)] by auto
  have c: "card (sn_Signers (example_snap signers)) \<le> length signers" using card_length by simp
  have r: "clique_reach example_hash example_recover (snap1\<lparr>sn_Number := sn_Number snap1 + 1, sn_Hash := h\<rparr>)"
    by (rule clique_reach.batch [OF example_snap_reach _ _ a(2)]) (use m(2) c in simp_all)
  have "snap1 = (example_snap signers)\<lparr>sn_Recents := [1 \<mapsto> 7], sn_Tally := [9 \<mapsto> \<lparr>tl_Authorize = True, tl_Votes = 1\<rparr>],
      sn_Votes := [\<lparr>vt_Signer = 7, vt_Block = 1, vt_Address = 9, vt_Authorize = True\<rparr>]\<rparr>"
    using a(1) assms by (auto simp: tally_vote_def cast_vote_def validVote_def pass_vote_def Let_def)
  then show ?thesis using that [OF r] by simp
qed

theorem clique_tally_counts_witness:
  "\<exists>snap. clique_reach example_hash example_recover snap \<and> sn_Tally snap 9 = Some \<lparr>tl_Authorize = True, tl_Votes = 1\<rparr> \<and> card (voters snap 9) = 1"
proof -
  obtain snap where s: "clique_reach example_hash example_recover snap" "sn_Tally snap = [9 \<mapsto> \<lparr>tl_Authorize = True, tl_Votes = 1\<rparr>]"
    by (rule example_open [of "[7, 8]"]) auto
  have "sn_Tally snap 9 = (if voters snap 9 = {} then None
             else Some \<lparr>tl_Authorize = (9 \<notin> sn_Signers snap), tl_Votes = int (card (voters snap 9))\<rparr>)"
    using clique_tally_counts [OF s(1)] by blast
  then show ?thesis using s by (auto split: if_splits)
qed

text \<open>Block 2 of a chain with four signers, the first of which signed block 1.\<close>

theorem recent_signer_checks_witness:
  "\<exists>snap. clique_reach example_hash example_recover snap \<and> recently_signed_seal snap 2 7 \<and> \<not> recently_signed snap 2 7"
proof -
  obtain snap where s: "clique_reach example_hash example_recover snap" "sn_Signers snap = set [7, 8, 10, 11]" "sn_Number snap = 1"
    "sn_Recents snap = [1 \<mapsto> 7]"
    by (rule example_open [of "[7, 8, 10, 11]"]) auto
  then have L: "signer_limit snap = 3" by (simp add: signer_limit_def)
  have "7 \<in> ran (sn_Recents (drop_recent 2 snap))" unfolding drop_recent_def L Let_def by (simp add: s(4))
  then show ?thesis using recent_signer_checks [OF s(1), of 2 7] s(1,3) L by auto
qed

end
