(* ===== verification/Spec2Isabelle.thy ===== *)
theory Spec2Isabelle
  imports RLP_Raw State_Transition Trie_Hash Tx_List Clique_Laws
begin

text \<open>
  A model of the core of go-ethereum (\<open>src/src/go-ethereum\<close>), the Ethereum node of the repository: the
  world state with its journal, the virtual machine that works on it with its precompiled contracts, the
  fork rules, transactions, their signatures and their lists in the pool, the application of a message to a state, the tries that hold the state, block headers and
  their fee rules, and the consensus engines Ethash and Clique. Everything is an executable definition
  translated from the Go source; the theorems say what the code guarantees.

  \<^bold>\<open>Conventions.\<close> A Go function that can panic returns \<open>'a go\<close> (\<open>Ret\<close>, \<open>Panic\<close> with its kind, or
  \<open>OutOfFuel\<close>), an error is a value of a sum or an option. \<open>uint64\<close> and \<open>uint256\<close> are words, \<open>big.Int\<close>
  is \<open>int\<close>, \<open>[]byte\<close> a list of 8-bit words, addresses and hashes are words of 160 and 256 bits, a map is
  \<open>'k \<rightharpoonup> 'v\<close>. Code that is left out, whether it is a package outside the repository (\<open>uint256\<close> division and
  exponentiation, Keccak, KZG proofs) or a part of it that is not modelled (the database behind the tries, the
  curves of \<open>crypto\<close>, the stored chain of headers), is an argument: the records \<open>database\<close>, \<open>uint256_lib\<close>, \<open>crypto_lib\<close> and \<open>chain_reader\<close>, Keccak-256 \<open>K\<close>
  and the recovery of a public key \<open>rec\<close>. Plain addition, subtraction, multiplication and comparison
  of \<open>uint256\<close> and its conversion from \<open>big.Int\<close> (the value modulo the word size, and whether its
  magnitude needs more bits) are those of words.

  \<^bold>\<open>Theories.\<close>
  \<^item> \<open>Prelude\<close>: panics, Go slices and byte helpers, lemmas on words; \<open>Params\<close>: \<open>params/protocol_params.go\<close>,
    \<open>core/vm/opcodes.go\<close>, \<open>params.Rules\<close>.
  \<^item> \<open>Stack_Memory\<close>: \<open>core/vm/stack.go\<close>, \<open>memory.go\<close>, \<open>memory_table.go\<close>, \<open>common.go\<close>.
  \<^item> \<open>Code_Analysis\<close>: \<open>core/vm/analysis.go\<close>, the bitmap of push data; \<open>Contract\<close>: \<open>contract.go\<close>, \<open>errors.go\<close>.
  \<^item> \<open>RLP_Raw\<close>: \<open>rlp/raw.go\<close>; \<open>RLP_Encode\<close>: \<open>rlp/encbuffer.go\<close>. \<open>Access_List\<close>: \<open>core/state/access_list.go\<close>, \<open>transient_storage.go\<close>.
  \<^item> \<open>StateDB\<close>: \<open>core/state/statedb.go\<close>, \<open>state_object.go\<close>, \<open>journal.go\<close>; \<open>StateDB_Revert\<close>: what the
    journal and snapshots guarantee, over the view \<open>sview\<close> of all answers of the state;
    \<open>StateDB_Values\<close>: values of accounts and slots, \<open>Finalise\<close>, and \<open>Transfer\<close> of \<open>core/evm.go\<close>.
  \<^item> \<open>EVM_Base\<close>: environment, call frame and the actions instructions are written in; \<open>EVM_Relation\<close>:
    the locales \<open>evm_relation\<close> and \<open>write_relation\<close>, contracts for relations between the states before
    and after an action.
  \<^item> \<open>Gas_Costs\<close>: \<open>gas.go\<close>, \<open>gas_table.go\<close>, \<open>operations_acl.go\<close>; \<open>Instructions\<close>: \<open>instructions.go\<close> and
    the instructions of \<open>eips.go\<close>; \<open>Jump_Table\<close>: \<open>jump_table.go\<close>, \<open>jump_table_export.go\<close>, \<open>stack_table.go\<close>
    and the activators of \<open>eips.go\<close>.
  \<^item> \<open>EVM_Calls\<close>: \<open>evm.go\<close>, with the interpreter as a parameter; \<open>EVM_Call_Laws\<close>: the locale \<open>runner\<close>, what
    an interpreter must guarantee, and what the calls make of it.
  \<^item> \<open>Instruction_Laws\<close>, \<open>Instruction_Gas\<close>, \<open>Jump_Table_Laws\<close>: what every instruction and every entry of
    every table keeps, needs and costs.
  \<^item> \<open>Interpreter\<close>: \<open>interpreter.go\<close>, and the interpretation of \<open>runner\<close> on its \<open>Run\<close>.
  \<^item> \<open>Chain_Config\<close>: \<open>params/config.go\<close>, from fork blocks and times to rules, the order check and the
    compatibility check (its loop has fuel: the height plus the time of the head is enough, because every
    round lowers one of them).
  \<^item> \<open>Precompiles\<close>: \<open>contracts.go\<close>, \<open>crypto/blake2b\<close>, and \<open>NewEVM\<close>, which puts an environment together.
  \<^item> \<open>State_Transition\<close>: \<open>core/state_transition.go\<close>, \<open>gaspool.go\<close>: checks, purchase of gas, execution,
    refund and fee of a message; the laws of \<open>runner\<close> give that gas is accounted for exactly.
  \<^item> \<open>Trie_Encoding\<close>: \<open>trie/encoding.go\<close>; \<open>Trie_Node\<close>: \<open>trie/node.go\<close>, \<open>node_enc.go\<close>, \<open>tracer.go\<close>,
    \<open>trie_reader.go\<close>, with a database that is a parameter (\<open>trie_database\<close>).
  \<^item> \<open>Patricia_Tree\<close>: the specification of a trie, a tree in canonical form that is a map and is
    determined by its content; \<open>Trie_Codec\<close>: stored nodes decode to what was encoded; \<open>Patricia_Trie\<close>:
    \<open>trie/trie.go\<close>, its refinement of the tree over nodes that are loaded on demand (\<open>loads\<close>);
    \<open>Trie_Hash\<close>: \<open>trie/hasher.go\<close>, the root hash. The recursions have fuel: twice the length of the key
    in nibbles, because a stored node that is loaded consumes a nibble of the key.
  \<^item> \<open>Headers\<close>: \<open>core/types/block.go\<close>, \<open>gen_header_rlp.go\<close>: the header, its encoding and its hash;
    \<open>Fee_Rules\<close>: \<open>consensus/misc\<close>: gas limit, base fee, blob fee and the DAO fork. The loop of the blob fee
    is a total function: once the round exceeds the quotient of its arguments every term is smaller.
  \<^item> \<open>Ethash\<close>: \<open>consensus/ethash\<close>: difficulty in both arithmetics, verification of headers and uncles, rewards.
  \<^item> \<open>Transactions\<close>: \<open>core/types/transaction.go\<close>, the four types of \<open>tx_legacy.go\<close> to \<open>tx_blob.go\<close>,
    \<open>transaction_signing.go\<close> and \<open>TransactionToMessage\<close>: prices, hashes, signers and the recovery of senders; what is
    signed for a chain is recovered there and nowhere else.
  \<^item> \<open>Binary_Heap\<close>: Go's \<open>container/heap\<close>, with the locale \<open>min_queue\<close> and its interpretation;
    \<open>Tx_List\<close>: \<open>core/txpool/legacypool/list.go\<close>, the transactions of a pool account, and their refinement of a
    map from nonces to transactions with the sum of its costs.
  \<^item> \<open>LRU\<close>: \<open>common/lru\<close>, a ring of pointers on a heap of elements, and its refinement of a list of keys in
    the order of use. \<open>Clique\<close>: \<open>consensus/clique\<close>, the voting snapshots and the engine around them;
    \<open>Clique_Laws\<close>: the invariant of the snapshots that batches of headers reach from a genesis
    (\<open>clique_reach\<close>), and what it gives: votes are counted, signers change by majority, some signer may
    always sign; and where the engine fails. \<open>find_snapshot\<close> has fuel: one unit for every header on the way
    back, at most the number of the block plus one in a chain that holds its genesis.

  \<^bold>\<open>How the parts meet.\<close> An instruction calls \<open>evm_Call\<close> and its siblings with the runner it is given;
  these take a snapshot of the state database, start a run, and settle: revert on an error. \<open>Run\<close> is
  defined by recursion on fuel and passes itself, with one unit less, to the instructions of its loop.
  The laws of \<open>runner\<close> for fuel \<open>n\<close> give those of the calls, these those of the instructions, the table
  and the loop, and so the laws for fuel \<open>n + 1\<close>.

  \<^bold>\<open>Fuel.\<close> Every round of the loop takes one unit, and every nested run has one unit less than the run
  that starts it. Fuel above the gas of the frame is enough: a round that goes on costs at least one
  gas, and a frame starts a nested run with less gas than it had before the round, the stipend of 2300
  included, because a call with value costs 9000.

  An engine checks a header against its parent with the fee rules and its own: the difficulty of Ethash,
  the votes of Clique, which caches snapshots and signatures in LRU caches. \<open>accumulateRewards\<close> and
  \<open>ApplyDAOHardFork\<close> work on the state database.

  \<^bold>\<open>Not modelled.\<close> Tracers are never set. Persistent storage (databases, snapshots, the block chain),
  networking, RPC, key storage and process set-up are input and output around this core;
  cryptographic primitives are parameters. Of the engines the assembly and signing of blocks, timers,
  channels and locks are left out; a batch of headers is verified one after the other. That a stored
  Clique snapshot reads back as it was written (JSON) is assumed. The manifest lists every part with its status.
\<close>

end
